(* ===== verification/Prelude.thy ===== *)
theory Prelude
  imports Main "HOL-Library.Word"
begin

text \<open>
  What every component shares: the fixed-width integer types, the error numbers the
  kernel code returns, and a byte-addressed memory with the little-endian 32-bit loads
  and stores that the code performs on it through \<open>uint32_t *\<close> casts.

  A memory is a total function from addresses to bytes. The disk image of OSPFS
  (\<open>ospfs_data\<close>) and the physical memory of the two toy kernels are memories. Overlapping
  accesses therefore alias exactly as they do in the C code.
\<close>

unbundle bit_operations_syntax

type_synonym u8 = "8 word"
type_synonym u16 = "16 word"
type_synonym u32 = "32 word"
text \<open>
  The widths the code uses, as numerals: the library's own rules unfold the type numeral bit
  by bit, which leaves a tower of \<open>Suc\<close> in some simplifier runs.
\<close>

lemma len_u8 [simp]: "LENGTH(8) = 8"
  by simp

lemma len_u16 [simp]: "LENGTH(16) = 16"
  by simp

lemma len_u32 [simp]: "LENGTH(32) = 32"
  by simp

declare len_of_numeral_defs [simp del]

type_synonym mem = "nat \<Rightarrow> u8"

text \<open>The error numbers that the modelled functions return (as \<open>-ENOSPC\<close> and so on in C).\<close>

datatype errno =
    ENOSPC | EIO | ENOENT | EEXIST | ENAMETOOLONG | EPERM | ENOMEM
  | EFAULT | EINVAL | EBUSY | EDEADLK | ERESTARTSYS | ENOTTY

type_synonym 'a res = "errno + 'a"

lemma case_unit_collapse [simp]: "(case u of () \<Rightarrow> x) = x"
  by (cases u) (simp only: unit.case)

named_theorems mem_simps \<open>reads of a memory after a write\<close>

section \<open>Bytes, words and strings in a memory\<close>

definition rd32 :: "mem \<Rightarrow> nat \<Rightarrow> u32" where
  "rd32 m a = ucast (m a) OR push_bit 8 (ucast (m (a + 1)))
     OR push_bit 16 (ucast (m (a + 2))) OR push_bit 24 (ucast (m (a + 3)))"

definition wr32 :: "mem \<Rightarrow> nat \<Rightarrow> u32 \<Rightarrow> mem" where
  "wr32 m a v = m(a := ucast v, a + 1 := ucast (drop_bit 8 v),
     a + 2 := ucast (drop_bit 16 v), a + 3 := ucast (drop_bit 24 v))"

definition mem_fill :: "mem \<Rightarrow> nat \<Rightarrow> u8 \<Rightarrow> nat \<Rightarrow> mem" where
  "mem_fill m a v n = (\<lambda>x. if a \<le> x \<and> x < a + n then v else m x)"

definition mem_copy :: "mem \<Rightarrow> nat \<Rightarrow> nat \<Rightarrow> nat \<Rightarrow> mem" where
  "mem_copy m d s n = (\<lambda>x. if d \<le> x \<and> x < d + n then m (s + (x - d)) else m x)"

definition mem_write :: "mem \<Rightarrow> nat \<Rightarrow> u8 list \<Rightarrow> mem" where
  "mem_write m a bs = (\<lambda>x. if a \<le> x \<and> x < a + length bs then bs ! (x - a) else m x)"

definition mem_read :: "mem \<Rightarrow> nat \<Rightarrow> nat \<Rightarrow> u8 list" where
  "mem_read m a n = map m [a..<a + n]"

lemma byte_of_u32 [simp]:
  "(ucast (ucast (x :: u8) :: u32) :: u8) = x"
  by (rule bit_word_eqI) (auto simp: bit_simps)

lemma rd32_wr32_same [simp, mem_simps]: "rd32 (wr32 m a v) a = v"
proof (rule bit_word_eqI)
  fix n assume "n < LENGTH(32)"
  then show "bit (rd32 (wr32 m a v) a) n = bit v n"
    by (cases "n < 8"; cases "n < 16"; cases "n < 24")
       (auto simp: rd32_def wr32_def bit_simps)
qed

lemma rd32_wr32_other [mem_simps]:
  "a + 4 \<le> b \<or> b + 4 \<le> a \<Longrightarrow> rd32 (wr32 m a v) b = rd32 m b"
  by (auto simp: rd32_def wr32_def)

lemma wr32_apply_other [mem_simps]: "b < a \<or> a + 4 \<le> b \<Longrightarrow> wr32 m a v b = m b"
  by (auto simp: wr32_def)

lemma u32_bytes:
  "ucast (rd32 m a) = m a"
  "ucast (drop_bit 8 (rd32 m a)) = m (a + 1)"
  "ucast (drop_bit 16 (rd32 m a)) = m (a + 2)"
  "ucast (drop_bit 24 (rd32 m a)) = m (a + 3)"
  by (rule bit_word_eqI; auto simp: rd32_def bit_simps dest: bit_imp_le_length)+

lemma wr32_rd32_id [simp]: "wr32 m a (rd32 m a) = m"
  unfolding wr32_def u32_bytes by (simp add: fun_upd_idem)

lemma wr32_wr32 [simp]: "wr32 (wr32 m a v) a w = wr32 m a w"
  by (rule ext) (simp add: wr32_def)

lemma wr32_restore: "rd32 m a = v \<Longrightarrow> wr32 (wr32 m a w) a v = m"
  by auto

lemma rd32_cong: "(\<And>i. i < 4 \<Longrightarrow> m (a + i) = m' (a + i)) \<Longrightarrow> rd32 m a = rd32 m' a"
proof -
  assume eq: "\<And>i. i < 4 \<Longrightarrow> m (a + i) = m' (a + i)"
  from eq [of 0] eq [of 1] eq [of 2] eq [of 3] show ?thesis
    by (simp add: rd32_def)
qed

lemma rd32_mem_fill_other [mem_simps]:
  "b + 4 \<le> a \<or> a + n \<le> b \<Longrightarrow> rd32 (mem_fill m a v n) b = rd32 m b"
  by (rule rd32_cong) (auto simp: mem_fill_def)

lemma rd32_mem_fill_zero [mem_simps]:
  "a \<le> b \<Longrightarrow> b + 4 \<le> a + n \<Longrightarrow> rd32 (mem_fill m a 0 n) b = 0"
  by (simp add: rd32_def mem_fill_def)

lemma rd32_mem_write_other [mem_simps]:
  "b + 4 \<le> a \<or> a + length bs \<le> b \<Longrightarrow> rd32 (mem_write m a bs) b = rd32 m b"
  by (rule rd32_cong) (auto simp: mem_write_def)

lemma mem_fill_apply_other [mem_simps]:
  "b < a \<or> a + n \<le> b \<Longrightarrow> mem_fill m a v n b = m b"
  by (auto simp: mem_fill_def)

lemma mem_fill_apply_in [mem_simps]:
  "a \<le> b \<Longrightarrow> b < a + n \<Longrightarrow> mem_fill m a v n b = v"
  by (simp add: mem_fill_def)

lemma mem_write_apply_other [mem_simps]:
  "b < a \<or> a + length bs \<le> b \<Longrightarrow> mem_write m a bs b = m b"
  by (auto simp: mem_write_def)

lemma mem_write_Nil [simp]: "mem_write m a [] = m"
  by (rule ext) (auto simp: mem_write_def)

lemma mem_write_append:
  "mem_write (mem_write m a xs) (a + length xs) ys = mem_write m a (xs @ ys)"
  by (rule ext) (auto simp: mem_write_def nth_append)

lemma length_mem_read [simp]: "length (mem_read m a n) = n"
  by (simp add: mem_read_def)

lemma mem_read_0 [simp]: "mem_read m a 0 = []"
  by (simp add: mem_read_def)

lemma nth_mem_read [simp]: "i < n \<Longrightarrow> mem_read m a n ! i = m (a + i)"
  by (simp add: mem_read_def)

lemma mem_read_mem_write [simp]: "mem_read (mem_write m a bs) a (length bs) = bs"
  by (rule nth_equalityI) (auto simp: mem_write_def)

lemma mem_read_add: "mem_read m a (n + k) = mem_read m a n @ mem_read m (a + n) k"
  by (rule nth_equalityI) (auto simp: nth_append)

lemma mem_read_cong: "(\<And>i. i < n \<Longrightarrow> m (a + i) = m' (a' + i)) \<Longrightarrow> mem_read m a n = mem_read m' a' n"
  by (rule nth_equalityI) auto

lemma mem_read_mem_copy: "mem_read (mem_copy m d s n) d n = mem_read m s n"
  by (rule mem_read_cong) (simp add: mem_copy_def)

section \<open>Arithmetic on 32-bit words\<close>

lemma unat_u32_less: "unat (x :: u32) < 4294967296"
  using unsigned_less [of x, where ?'a = nat] by simp

lemma unat_u32_mult_const:
  "unat (b :: u32) * k < 4294967296 \<Longrightarrow> unat (b * of_nat k) = unat b * k"
  by (simp add: unat_word_ariths unat_of_nat mod_mult_right_eq)

lemma unat_of_nat_u32 [simp]: "n < 4294967296 \<Longrightarrow> unat (of_nat n :: u32) = n"
  by (simp add: unat_of_nat)

lemma of_nat_u32_eq_0_iff: "n < 4294967296 \<Longrightarrow> (of_nat n :: u32) = 0 \<longleftrightarrow> n = 0"
  using unat_of_nat_u32 [of n] by (auto simp del: unat_of_nat_u32)

lemma unat_add_u32:
  "unat (a :: u32) + unat b < 4294967296 \<Longrightarrow> unat (a + b) = unat a + unat b"
  by (simp add: unat_word_ariths)

lemma unat_shifted_down: "unat (drop_bit k (x :: u32)) = unat x div 2 ^ k"
  unfolding unat_drop_bit_eq by (rule drop_bit_eq_div)

lemma unat_eq_0_u32: "unat (x :: u32) = 0 \<longleftrightarrow> x = 0"
  by (rule unat_eq_0)

end
