(* ===== verification/OspfsDisk.thy ===== *)
theory OspfsDisk
  imports Prelude
begin

text \<open>
  The disk layer of OSPFS (\<open>lab3/ospfs.h\<close>, \<open>lab3/ospfsmod.c\<close>): the on-disk structures as views of
  the byte memory \<open>ospfs_data\<close>, the bit vector operations, block and inode addressing,
  the free-block bitmap and the three functions that split a file block index.
  A pointer into the image is its offset in \<open>ospfs_data\<close>, a C \<open>NULL\<close> is \<open>None\<close>.
\<close>

section \<open>Layout constants and on-disk structures\<close>

abbreviation (input) "OSPFS_BLKSIZE \<equiv> 1024"
abbreviation (input) "OSPFS_BLKBITSIZE \<equiv> 8192"
abbreviation (input) "OSPFS_NDIRECT \<equiv> 10"
abbreviation (input) "OSPFS_NINDIRECT \<equiv> 256"
abbreviation (input) "OSPFS_MAXFILEBLKS \<equiv> 65802"
abbreviation (input) "OSPFS_INODESIZE \<equiv> 64"
abbreviation (input) "OSPFS_BLKINODES \<equiv> 16"
abbreviation (input) "OSPFS_DIRENTRY_SIZE \<equiv> 128"
abbreviation (input) "OSPFS_MAXNAMELEN \<equiv> 123"
abbreviation (input) "OSPFS_MAXSYMLINKLEN \<equiv> 51"
abbreviation (input) "OSPFS_FTYPE_REG \<equiv> 0"
abbreviation (input) "OSPFS_FTYPE_DIR \<equiv> 1"
abbreviation (input) "OSPFS_FTYPE_SYMLINK \<equiv> 2"
abbreviation (input) "OSPFS_ROOT_INO \<equiv> 1"
abbreviation (input) "OSPFS_FREEMAP_BLK \<equiv> 2"

text \<open>\<open>struct ospfs_super\<close>, at byte 1024 of the image (the C constant \<open>ospfs_super\<close>).\<close>

record ospfs_super_t =
  sb_magic :: u32
  sb_nblocks :: u32
  sb_ninodes :: u32
  sb_firstinob :: u32

definition ospfs_super :: "mem \<Rightarrow> ospfs_super_t" where
  "ospfs_super m = \<lparr>sb_magic = rd32 m 1024, sb_nblocks = rd32 m 1028,
     sb_ninodes = rd32 m 1032, sb_firstinob = rd32 m 1036\<rparr>"

abbreviation (input) "os_nblocks m \<equiv> rd32 m 1028"
abbreviation (input) "os_ninodes m \<equiv> rd32 m 1032"
abbreviation (input) "os_firstinob m \<equiv> rd32 m 1036"

text \<open>
  \<open>struct ospfs_inode\<close>: the fields of the inode at address \<open>oi\<close>, each the word that the C
  member access reads. \<open>ospfs_inode_t\<close> is the whole structure as a value.
\<close>

abbreviation (input) "oi_size m oi \<equiv> rd32 m oi"
abbreviation (input) "oi_ftype m oi \<equiv> rd32 m (oi + 4)"
abbreviation (input) "oi_nlink m oi \<equiv> rd32 m (oi + 8)"
abbreviation (input) "oi_mode m oi \<equiv> rd32 m (oi + 12)"
abbreviation (input) "oi_direct m oi n \<equiv> rd32 m (oi + 16 + 4 * n)"
abbreviation (input) "oi_indirect m oi \<equiv> rd32 m (oi + 56)"
abbreviation (input) "oi_indirect2 m oi \<equiv> rd32 m (oi + 60)"

record ospfs_inode_t =
  i_size :: u32
  i_ftype :: u32
  i_nlink :: u32
  i_mode :: u32
  i_direct :: "u32 list"
  i_indirect :: u32
  i_indirect2 :: u32

definition inode_at :: "mem \<Rightarrow> nat \<Rightarrow> ospfs_inode_t" where
  "inode_at m oi = \<lparr>i_size = oi_size m oi, i_ftype = oi_ftype m oi, i_nlink = oi_nlink m oi,
     i_mode = oi_mode m oi, i_direct = map (oi_direct m oi) [0..<OSPFS_NDIRECT],
     i_indirect = oi_indirect m oi, i_indirect2 = oi_indirect2 m oi\<rparr>"

section \<open>Bit vectors\<close>

text \<open>
  \<open>vector\<close> is the address of an array of 32-bit words; \<open>i\<close> is not negative (the C type is
  \<open>int\<close>; block numbers stay far below \<open>2 ^ 31\<close>).
\<close>

definition bitvector_set :: "mem \<Rightarrow> nat \<Rightarrow> nat \<Rightarrow> mem" where
  "bitvector_set m vec i =
     wr32 m (vec + 4 * (i div 32)) (rd32 m (vec + 4 * (i div 32)) OR push_bit (i mod 32) 1)"

definition bitvector_clear :: "mem \<Rightarrow> nat \<Rightarrow> nat \<Rightarrow> mem" where
  "bitvector_clear m vec i =
     wr32 m (vec + 4 * (i div 32)) (rd32 m (vec + 4 * (i div 32)) AND NOT (push_bit (i mod 32) 1))"

definition bitvector_test :: "mem \<Rightarrow> nat \<Rightarrow> nat \<Rightarrow> bool" where
  "bitvector_test m vec i \<longleftrightarrow> rd32 m (vec + 4 * (i div 32)) AND push_bit (i mod 32) 1 \<noteq> 0"

text \<open>
  What a client of a bitmap relies on: a bit that is set or cleared reads back, the other
  bits keep their value, and setting a cleared bit again restores the old bitmap.
\<close>

locale bit_map =
  fixes test :: "'m \<Rightarrow> nat \<Rightarrow> bool"
    and bset :: "'m \<Rightarrow> nat \<Rightarrow> 'm"
    and clr :: "'m \<Rightarrow> nat \<Rightarrow> 'm"
  assumes test_bset_same: "test (bset m i) i"
    and test_bset_other: "i \<noteq> j \<Longrightarrow> test (bset m i) j = test m j"
    and test_clr_same: "\<not> test (clr m i) i"
    and test_clr_other: "i \<noteq> j \<Longrightarrow> test (clr m i) j = test m j"
    and bset_clr: "test m i \<Longrightarrow> bset (clr m i) i = m"
    and clr_bset: "\<not> test m i \<Longrightarrow> clr (bset m i) i = m"
begin

lemma test_bset: "test (bset m i) j \<longleftrightarrow> j = i \<or> test m j"
  using test_bset_same test_bset_other by metis

lemma test_clr: "test (clr m i) j \<longleftrightarrow> j \<noteq> i \<and> test m j"
  using test_clr_same test_clr_other by metis

lemma ones_clr:
  assumes "a \<le> i" "i < b" "test m i"
  shows "Suc (length (filter (test (clr m i)) [a..<b])) = length (filter (test m) [a..<b])"
proof -
  have split: "[a..<b] = [a..<i] @ i # [Suc i..<b]"
    using assms by (metis upt_add_eq_append le_add_diff_inverse less_imp_le upt_conv_Cons)
  have "filter (test (clr m i)) [a..<i] = filter (test m) [a..<i]"
    by (rule filter_cong) (auto simp: test_clr)
  moreover have "filter (test (clr m i)) [Suc i..<b] = filter (test m) [Suc i..<b]"
    by (rule filter_cong) (auto simp: test_clr)
  ultimately show ?thesis
    using assms unfolding split by (simp add: test_clr)
qed

lemma ones_bset:
  assumes "a \<le> i" "i < b" "\<not> test m i"
  shows "length (filter (test (bset m i)) [a..<b]) = Suc (length (filter (test m) [a..<b]))"
  using ones_clr [of a i b "bset m i"] assms by (simp add: test_bset_same clr_bset)

end

lemma bitvector_test_bit:
  "bitvector_test m vec i \<longleftrightarrow> bit (rd32 m (vec + 4 * (i div 32))) (i mod 32)"
  unfolding bitvector_test_def by (rule bit_iff_and_push_bit_not_eq_0 [symmetric])

lemma bit_slot_cases:
  fixes i j :: nat
  assumes "i \<noteq> j"
  obtains "i div 32 = j div 32" "i mod 32 \<noteq> j mod 32"
    | "vec + 4 * (i div 32) + 4 \<le> vec + 4 * (j div 32)"
    | "vec + 4 * (j div 32) + 4 \<le> vec + 4 * (i div 32)"
proof (cases "i div 32 = j div 32")
  case True
  moreover have "i mod 32 \<noteq> j mod 32"
    using assms True by (metis div_mult_mod_eq)
  ultimately show ?thesis using that by blast
next
  case False
  then consider "i div 32 < j div 32" | "j div 32 < i div 32" by linarith
  then show ?thesis
    by cases (use that in \<open>auto\<close>)
qed

lemma bitvector_set_test:
  "bitvector_test (bitvector_set m vec i) vec j \<longleftrightarrow> j = i \<or> bitvector_test m vec j"
proof (cases "i = j")
  case True
  then show ?thesis
    by (simp add: bitvector_test_bit bitvector_set_def bit_simps)
next
  case False
  then show ?thesis
    by (rule bit_slot_cases [where vec = vec])
       (auto simp: bitvector_test_bit bitvector_set_def bit_simps rd32_wr32_other)
qed

lemma bitvector_clear_test:
  "bitvector_test (bitvector_clear m vec i) vec j \<longleftrightarrow> j \<noteq> i \<and> bitvector_test m vec j"
proof (cases "i = j")
  case True
  then show ?thesis
    by (simp add: bitvector_test_bit bitvector_clear_def bit_simps)
next
  case False
  then show ?thesis
    by (rule bit_slot_cases [where vec = vec])
       (auto simp: bitvector_test_bit bitvector_clear_def bit_simps rd32_wr32_other)
qed

lemma bitvector_clear_fun:
  "bitvector_test (bitvector_clear m vec i) vec = (\<lambda>j. j \<noteq> i \<and> bitvector_test m vec j)"
  by (rule ext) (rule bitvector_clear_test)

lemma bitvector_set_clear:
  assumes "bitvector_test m vec i"
  shows "bitvector_set (bitvector_clear m vec i) vec i = m"
proof -
  let ?x = "rd32 m (vec + 4 * (i div 32))"
  have "(?x AND NOT (push_bit (i mod 32) 1)) OR push_bit (i mod 32) 1 = ?x"
    using assms by (intro bit_word_eqI) (auto simp: bitvector_test_bit bit_simps)
  then show ?thesis
    by (simp add: bitvector_set_def bitvector_clear_def wr32_restore)
qed

lemma bitvector_clear_set:
  assumes "\<not> bitvector_test m vec i"
  shows "bitvector_clear (bitvector_set m vec i) vec i = m"
proof -
  let ?x = "rd32 m (vec + 4 * (i div 32))"
  have "(?x OR push_bit (i mod 32) 1) AND NOT (push_bit (i mod 32) 1) = ?x"
    using assms by (intro bit_word_eqI) (auto simp: bitvector_test_bit bit_simps)
  then show ?thesis
    by (simp add: bitvector_set_def bitvector_clear_def wr32_restore)
qed

interpretation bv: bit_map "\<lambda>m. bitvector_test m vec" "\<lambda>m. bitvector_set m vec"
  "\<lambda>m. bitvector_clear m vec" for vec :: nat
  by unfold_locales
     (simp_all add: bitvector_set_test bitvector_clear_test bitvector_set_clear bitvector_clear_set)

section \<open>Blocks and inodes\<close>

definition ospfs_size2nblocks :: "u32 \<Rightarrow> u32" where
  "ospfs_size2nblocks sz = (sz + OSPFS_BLKSIZE - 1) div OSPFS_BLKSIZE"

definition ospfs_block :: "u32 \<Rightarrow> nat" where
  "ospfs_block blockno = unat (blockno * OSPFS_BLKSIZE)"

definition ospfs_inode :: "mem \<Rightarrow> u32 \<Rightarrow> nat option" where
  "ospfs_inode m ino =
     (if ino \<ge> os_ninodes m then None
      else Some (ospfs_block (os_firstinob m) + OSPFS_INODESIZE * unat ino))"

definition ospfs_inode_blockno :: "mem \<Rightarrow> nat \<Rightarrow> u32 \<Rightarrow> u32" where
  "ospfs_inode_blockno m oi offset =
     (let blockno = offset div OSPFS_BLKSIZE in
      if offset \<ge> oi_size m oi \<or> oi_ftype m oi = OSPFS_FTYPE_SYMLINK then 0
      else if blockno \<ge> OSPFS_NDIRECT + OSPFS_NINDIRECT then
        (let blockoff = blockno - (OSPFS_NDIRECT + OSPFS_NINDIRECT);
             indirect2_block = ospfs_block (oi_indirect2 m oi);
             indirect_block = ospfs_block (rd32 m (indirect2_block + 4 * unat (blockoff div OSPFS_NINDIRECT)))
         in rd32 m (indirect_block + 4 * unat (blockoff mod OSPFS_NINDIRECT)))
      else if blockno \<ge> OSPFS_NDIRECT then
        (let indirect_block = ospfs_block (oi_indirect m oi)
         in rd32 m (indirect_block + 4 * unat (blockno - OSPFS_NDIRECT)))
      else oi_direct m oi (unat blockno))"

definition ospfs_inode_data :: "mem \<Rightarrow> nat \<Rightarrow> u32 \<Rightarrow> nat" where
  "ospfs_inode_data m oi offset =
     ospfs_block (ospfs_inode_blockno m oi offset) + unat (offset mod OSPFS_BLKSIZE)"

lemma unat_size2nblocks:
  assumes "unat sz \<le> 4294966272"
  shows "unat (ospfs_size2nblocks sz) = (unat sz + 1023) div 1024"
proof -
  have "unat (sz + 1023) = unat sz + 1023"
    using assms by (simp add: unat_word_ariths)
  then show ?thesis
    by (simp add: ospfs_size2nblocks_def unat_div_distrib add.commute)
qed

lemma ospfs_block_nat:
  "unat b * 1024 < 4294967296 \<Longrightarrow> ospfs_block b = unat b * 1024"
  using unat_u32_mult_const [of b 1024] by (simp add: ospfs_block_def)

section \<open>The free-block bitmap\<close>

function allocate_scan :: "mem \<Rightarrow> nat \<Rightarrow> u32 \<times> mem" where
  "allocate_scan m i =
     (if i < unat (os_nblocks m) then
        (if bitvector_test m (ospfs_block OSPFS_FREEMAP_BLK) i
         then (of_nat i, bitvector_clear m (ospfs_block OSPFS_FREEMAP_BLK) i)
         else allocate_scan m (i + 1))
      else (0, m))"
  by pat_completeness auto
termination
  by (relation "measure (\<lambda>(m, i). unat (os_nblocks m) - i)") auto

declare allocate_scan.simps [simp del]

definition allocate_block :: "mem \<Rightarrow> u32 \<times> mem" where
  "allocate_block m = allocate_scan m 2"

definition free_block :: "mem \<Rightarrow> u32 \<Rightarrow> mem" where
  "free_block m blockno =
     (if blockno < os_firstinob m then m
      else if \<not> bitvector_test m (ospfs_block OSPFS_FREEMAP_BLK) (unat blockno)
      then bitvector_set m (ospfs_block OSPFS_FREEMAP_BLK) (unat blockno)
      else m)"

section \<open>Unpacking a file block index\<close>

definition indir2_index :: "u32 \<Rightarrow> int" where
  "indir2_index b = (if b < OSPFS_NDIRECT + OSPFS_NINDIRECT then -1 else 0)"

definition indir_index :: "u32 \<Rightarrow> int" where
  "indir_index b =
     (if b < OSPFS_NDIRECT then -1
      else if b \<ge> OSPFS_NDIRECT \<and> b < OSPFS_NDIRECT + OSPFS_NINDIRECT then 0
      else uint ((b - OSPFS_NDIRECT - OSPFS_NINDIRECT) div OSPFS_NINDIRECT))"

definition direct_index :: "u32 \<Rightarrow> int" where
  "direct_index b =
     (if b < OSPFS_NDIRECT then uint b
      else uint ((b - OSPFS_NDIRECT) mod OSPFS_NINDIRECT))"

section \<open>Correctness of the bitmap operations\<close>

lemma freemap_addr [simp]: "ospfs_block OSPFS_FREEMAP_BLK = 2048"
  by (simp add: ospfs_block_def)

abbreviation block_is_free :: "mem \<Rightarrow> nat \<Rightarrow> bool" where
  "block_is_free m i \<equiv> bitvector_test m 2048 i"

lemma rd32_bitvector_clear [mem_simps]:
  "a + 4 \<le> 2048 \<Longrightarrow> rd32 (bitvector_clear m 2048 i) a = rd32 m a"
  by (simp add: bitvector_clear_def rd32_wr32_other)

lemma rd32_bitvector_set [mem_simps]:
  "a + 4 \<le> 2048 \<Longrightarrow> rd32 (bitvector_set m 2048 i) a = rd32 m a"
  by (simp add: bitvector_set_def rd32_wr32_other)

lemma allocate_scan_find:
  "allocate_scan m i =
     (case find (block_is_free m) [i..<unat (os_nblocks m)] of
        None \<Rightarrow> (0, m)
      | Some j \<Rightarrow> (of_nat j, bitvector_clear m 2048 j))"
proof (induction m i rule: allocate_scan.induct)
  case (1 m i)
  then show ?case
    by (cases "i < unat (os_nblocks m)")
       (simp_all add: allocate_scan.simps [of m i] upt_conv_Cons)
qed

lemma allocate_block_cases:
  assumes "allocate_block m = (b, m')"
  obtains (full) "b = 0" "m' = m" "\<forall>i. 2 \<le> i \<and> i < unat (os_nblocks m) \<longrightarrow> \<not> block_is_free m i"
    | (found) "b \<noteq> 0" "2 \<le> unat b" "unat b < unat (os_nblocks m)" "block_is_free m (unat b)"
        "\<forall>i. 2 \<le> i \<and> i < unat b \<longrightarrow> \<not> block_is_free m i" "m' = bitvector_clear m 2048 (unat b)"
proof (cases "find (block_is_free m) [2..<unat (os_nblocks m)]")
  case None
  then show ?thesis
    using assms None by (intro full) (auto simp: allocate_block_def allocate_scan_find find_None_iff)
next
  case (Some j)
  let ?l = "[2..<unat (os_nblocks m)]"
  from Some obtain k where k: "k < length ?l" "block_is_free m (?l ! k)" "j = ?l ! k"
    "\<forall>i<k. \<not> block_is_free m (?l ! i)"
    by (auto simp: find_Some_iff)
  then have j: "j = 2 + k" "j < unat (os_nblocks m)" by auto
  have small: "unat (of_nat j :: u32) = j"
    using j(2) unat_u32_less [of "os_nblocks m"] by simp
  have b: "b = of_nat j" "m' = bitvector_clear m 2048 j"
    using assms Some by (auto simp: allocate_block_def allocate_scan_find)
  have first: "\<not> block_is_free m i" if "2 \<le> i" "i < j" for i
  proof -
    from that j(1) have "i - 2 < k" by simp
    with k(4) have "\<not> block_is_free m (?l ! (i - 2))" by blast
    moreover have "?l ! (i - 2) = i" using that j(2) by simp
    ultimately show ?thesis by simp
  qed
  have "b \<noteq> 0" using b(1) small j(1) by auto
  then show ?thesis
    using b j k(2,3) small first by (intro found) auto
qed

text \<open>\<open>allocate_block\<close> returns 0 and leaves the disk alone exactly when no block from 2 up
  to the end of the disk is free; otherwise it returns the lowest free block, and the
  resulting bitmap differs from the old one in that bit only, with one free block fewer.\<close>

lemma allocate_block_lowest_free:
  assumes "allocate_block m = (b, m')"
  shows "(b = 0 \<longleftrightarrow> (\<forall>i. 2 \<le> i \<and> i < unat (os_nblocks m) \<longrightarrow> \<not> block_is_free m i))
    \<and> (b = 0 \<longrightarrow> m' = m)
    \<and> (b \<noteq> 0 \<longrightarrow> 2 \<le> unat b \<and> unat b < unat (os_nblocks m) \<and> block_is_free m (unat b)
        \<and> (\<forall>i. 2 \<le> i \<and> i < unat b \<longrightarrow> \<not> block_is_free m i)
        \<and> (\<forall>j. block_is_free m' j \<longleftrightarrow> j \<noteq> unat b \<and> block_is_free m j)
        \<and> Suc (length (filter (block_is_free m') [2..<unat (os_nblocks m)]))
            = length (filter (block_is_free m) [2..<unat (os_nblocks m)]))"
  using assms
proof (cases rule: allocate_block_cases)
  case full
  then show ?thesis by simp
next
  case found
  then show ?thesis
    using bv.ones_clr [where vec = 2048 and a = 2 and i = "unat b" and b = "unat (os_nblocks m)" and m = m]
    by (auto simp: bitvector_clear_fun)
qed

text \<open>A small disk image: 16 blocks, 16 inodes, inode block 3, blocks 5 to 15 free.\<close>

definition small_disk :: mem where
  "small_disk = wr32 (wr32 (wr32 (wr32 (\<lambda>_. 0) 1028 16) 1032 16) 1036 3) 2048 0xFFE0"

lemma small_disk_super [simp]:
  "os_nblocks small_disk = 16" "os_ninodes small_disk = 16" "os_firstinob small_disk = 3"
  "rd32 small_disk 2048 = 0xFFE0"
  by (simp_all add: small_disk_def rd32_wr32_other)

lemma small_disk_zero [simp]: "2052 \<le> a \<Longrightarrow> rd32 small_disk a = 0"
  by (simp add: small_disk_def rd32_wr32_other) (simp add: rd32_def)

lemma small_disk_free:
  "i < 32 \<Longrightarrow> block_is_free small_disk i \<longleftrightarrow> bit (0xFFE0 :: u32) i"
  by (simp add: bitvector_test_bit)

lemma allocate_small_disk:
  "allocate_block small_disk = (5, bitvector_clear small_disk 2048 5)"
  by (simp add: allocate_block_def allocate_scan.simps small_disk_free)

lemma allocate_block_lowest_free_witness:
  "fst (allocate_block small_disk) = 5
    \<and> \<not> block_is_free (snd (allocate_block small_disk)) 5
    \<and> block_is_free (snd (allocate_block small_disk)) 6"
  using allocate_block_lowest_free [OF allocate_small_disk]
  by (simp add: allocate_small_disk small_disk_free)

text \<open>Freeing the block that was just allocated gives back the very same disk image,
  provided the block is not one of the blocks before the first inode block, which
  \<open>free_block\<close> refuses.\<close>

lemma free_block_undoes_allocate:
  assumes "allocate_block m = (b, m')" and "b \<noteq> 0" and "os_firstinob m \<le> b"
  shows "free_block m' b = m"
  using assms(1)
proof (cases rule: allocate_block_cases)
  case full
  with assms(2) show ?thesis by simp
next
  case found
  then show ?thesis
    using assms(3)
    by (auto simp: free_block_def bitvector_clear_test bitvector_set_clear rd32_bitvector_clear
        not_less)
qed

lemma free_block_undoes_allocate_witness:
  "free_block (snd (allocate_block small_disk)) 5 = small_disk"
  using free_block_undoes_allocate [OF allocate_small_disk]
  by (simp add: allocate_small_disk)

lemma free_block_reserved: "b < os_firstinob m \<Longrightarrow> free_block m b = m"
  by (simp add: free_block_def)

lemma free_block_test:
  "block_is_free (free_block m b) j \<longleftrightarrow>
     block_is_free m j \<or> (os_firstinob m \<le> b \<and> j = unat b)"
  by (auto simp: free_block_def bitvector_set_test not_less)

section \<open>Where the pointer to a file block lives\<close>

text \<open>
  The address of the block pointer of file block \<open>b\<close>, read off the three index functions: in
  the inode, in the indirect block, or in an indirect block of the doubly indirect block.
\<close>

definition slot_addr :: "mem \<Rightarrow> nat \<Rightarrow> u32 \<Rightarrow> nat" where
  "slot_addr m oi b =
     (if indir2_index b = 0
      then ospfs_block (rd32 m (ospfs_block (oi_indirect2 m oi) + 4 * nat (indir_index b)))
             + 4 * nat (direct_index b)
      else if indir_index b = 0 then ospfs_block (oi_indirect m oi) + 4 * nat (direct_index b)
      else oi + 16 + 4 * nat (direct_index b))"

lemma unat_sub_u32: "(k :: u32) \<le> b \<Longrightarrow> unat (b - k) = unat b - unat k"
  by (simp add: unat_sub)

text \<open>The lookup that reads a file block number (\<open>ospfs_inode_blockno\<close>) and the three index
  functions that the resizing code uses agree on where each file block's pointer is stored.\<close>

lemma inode_blockno_uses_slot:
  "ospfs_inode_blockno m oi offset =
     (if offset \<ge> oi_size m oi \<or> oi_ftype m oi = OSPFS_FTYPE_SYMLINK then 0
      else rd32 m (slot_addr m oi (offset div OSPFS_BLKSIZE)))"
proof -
  define b where "b = offset div OSPFS_BLKSIZE"
  note defs = ospfs_inode_blockno_def slot_addr_def indir2_index_def indir_index_def
    direct_index_def Let_def
  consider "b < 10" | "10 \<le> b" "b < 266" | "266 \<le> b"
    by (meson not_less)
  then show ?thesis
  proof cases
    case 1
    then have c: "b < 10" "b < 266" "\<not> 10 \<le> b" "\<not> 266 \<le> b"
      by (auto simp: word_less_nat_alt word_le_nat_alt)
    show ?thesis
      unfolding defs b_def [symmetric] by (simp add: c)
  next
    case 2
    then have c: "\<not> b < 10" "b < 266" "10 \<le> b" "\<not> 266 \<le> b"
      by (auto simp: word_less_nat_alt word_le_nat_alt)
    have "unat ((b - 10) mod 256) = unat (b - 10)"
      using 2 by (simp add: unat_mod_distrib unat_sub_u32 word_less_nat_alt word_le_nat_alt)
    then show ?thesis
      unfolding defs b_def [symmetric] by (simp add: c)
  next
    case 3
    then have c: "\<not> b < 10" "\<not> b < 266" "10 \<le> b" "266 \<le> b"
      by (auto simp: word_less_nat_alt word_le_nat_alt)
    have "unat ((b - 10) mod 256) = unat ((b - 266) mod 256)"
      using c by (simp add: unat_mod_distrib unat_sub_u32 word_le_nat_alt le_mod_geq)
    then show ?thesis
      unfolding defs b_def [symmetric] by (simp add: c)
  qed
qed

text \<open>The three index functions decompose a file block number without loss: for every block
  a file can have, they say which of the three regions it is in, each index is inside the
  block that it indexes, and the number can be rebuilt from them.\<close>

theorem block_index_decomposition:
  assumes "unat b < OSPFS_MAXFILEBLKS"
  shows "(indir2_index b = -1 \<and> indir_index b = -1 \<and> 0 \<le> direct_index b \<and> direct_index b < 10
            \<and> uint b = direct_index b)
       \<or> (indir2_index b = -1 \<and> indir_index b = 0 \<and> 0 \<le> direct_index b \<and> direct_index b < 256
            \<and> uint b = 10 + direct_index b)
       \<or> (indir2_index b = 0 \<and> 0 \<le> indir_index b \<and> indir_index b < 256
            \<and> 0 \<le> direct_index b \<and> direct_index b < 256
            \<and> uint b = 266 + 256 * indir_index b + direct_index b)"
proof -
  have sub: "uint (b - k) = uint b - uint k" if "k \<le> b" for k :: u32
    using that by (rule uint_minus_simple_alt [THEN iffD1])
  have lim: "uint b < 65802" using assms by (simp only: unat_eq_nat_uint)
  note defs = indir2_index_def indir_index_def direct_index_def
  consider "b < 10" | "10 \<le> b" "b < 266" | "266 \<le> b"
    by (meson not_less)
  then show ?thesis
  proof cases
    case 1
    then have "b < 266" "uint b < 10" by (auto simp: word_less_def)
    with 1 show ?thesis by (simp add: defs)
  next
    case 2
    then have u: "uint b < 266" "10 \<le> uint b" by (simp_all add: word_less_def word_le_def)
    then have "uint ((b - 10) mod 256) = uint b - 10"
      using 2 by (simp add: uint_mod_distrib sub)
    with 2 u show ?thesis by (simp add: defs not_less)
  next
    case 3
    then have ge: "266 \<le> uint b" by (simp add: word_le_def)
    then have ge10: "10 \<le> b" by (simp add: word_le_def)
    have r: "uint ((b - 10) mod 256) = (uint b - 266) mod 256"
      using ge10 mod_add_self2 [of "uint b - 266" 256] by (simp add: uint_mod_distrib sub)
    have q: "uint ((b - 10 - 256) div 256) = (uint b - 266) div 256"
      using 3 by (simp add: uint_div_distrib sub)
    have "\<not> b < 266" "\<not> b < 10" using 3 ge10 by (simp_all add: not_less)
    then have "indir2_index b = 0" "indir_index b = (uint b - 266) div 256"
      "direct_index b = (uint b - 266) mod 256"
      using q r by (simp_all add: defs)
    moreover have "(uint b - 266) div 256 < 256" "0 \<le> (uint b - 266) div 256"
      using lim ge by (simp_all add: pos_imp_zdiv_nonneg_iff)
    ultimately show ?thesis by simp
  qed
qed

theorem block_index_decomposition_witness:
  "unat (266 :: u32) < OSPFS_MAXFILEBLKS \<and> indir2_index 266 = 0 \<and> indir_index 266 = 0
     \<and> direct_index 266 = 0"
  using block_index_decomposition [of 266]
  by (simp add: indir2_index_def indir_index_def direct_index_def)

end
