(* ===== verification/OspfsFile.thy ===== *)
theory OspfsFile
  imports OspfsDisk
begin

text \<open>
  Files of OSPFS (\<open>lab3/ospfsmod.c\<close>, file operations): growing and shrinking a file by one block
  (\<open>add_block\<close>, \<open>remove_block\<close>), \<open>change_size\<close>, \<open>ospfs_notify_change\<close>, \<open>ospfs_read\<close> and
  \<open>ospfs_write\<close>. Each function takes the disk image and returns the new one. An \<open>int\<close> result
  that is 0 or \<open>-errno\<close> is \<open>Inr ()\<close> or \<open>Inl errno\<close>. The outer \<open>option\<close> of the looping functions is
  \<open>None\<close> where the C code does not return (or dereferences a null inode pointer).
\<close>

section \<open>Growing a file by one block\<close>

definition add_indirect_store :: "mem \<Rightarrow> nat \<Rightarrow> u32 \<Rightarrow> u32 \<Rightarrow> unit res \<times> mem" where
  "add_indirect_store m oi n new_block =
     (let indir = ospfs_block (oi_indirect m oi); offset = nat (direct_index n)
      in (Inr (), wr32 m (indir + 4 * offset) new_block))"

definition add_indirect :: "mem \<Rightarrow> nat \<Rightarrow> u32 \<Rightarrow> u32 \<Rightarrow> unit res \<times> mem" where
  "add_indirect m oi n new_block =
     (if oi_indirect m oi = 0 then
        (case allocate_block m of (allocated0, m1) \<Rightarrow>
           if allocated0 = 0 then (Inl ENOSPC, free_block m1 new_block)
           else
             (let m2 = mem_fill m1 (ospfs_block allocated0) 0 OSPFS_BLKSIZE;
                  m3 = wr32 m2 (oi + 56) allocated0
              in add_indirect_store m3 oi n new_block))
      else add_indirect_store m oi n new_block)"

definition add_indirect2_store :: "mem \<Rightarrow> nat \<Rightarrow> u32 \<Rightarrow> u32 \<Rightarrow> u32 \<Rightarrow> unit res \<times> mem" where
  "add_indirect2_store m oi n new_block allocated1 =
     (let indir2 = ospfs_block (oi_indirect2 m oi);
          offset2 = nat (indir_index n);
          indir = rd32 m (indir2 + 4 * offset2)
      in if indir = 0 then
           (case allocate_block m of (allocated0, m1) \<Rightarrow>
              if allocated0 = 0 then
                (let m2 = free_block m1 new_block
                 in (Inl ENOSPC, if allocated1 \<noteq> 0 then free_block m2 allocated1 else m2))
              else
                (let m2 = mem_fill m1 (ospfs_block allocated0) 0 OSPFS_BLKSIZE;
                     indir_ptr = ospfs_block allocated0
                 in (Inr (), wr32 m2 (indir_ptr + 4 * nat (direct_index n)) new_block)))
         else
           (let indir_ptr = ospfs_block indir
            in (Inr (), wr32 m (indir_ptr + 4 * nat (direct_index n)) new_block)))"

definition add_indirect2 :: "mem \<Rightarrow> nat \<Rightarrow> u32 \<Rightarrow> u32 \<Rightarrow> unit res \<times> mem" where
  "add_indirect2 m oi n new_block =
     (if oi_indirect2 m oi = 0 then
        (case allocate_block m of (allocated1, m1) \<Rightarrow>
           if allocated1 = 0 then (Inl ENOSPC, free_block m1 new_block)
           else
             (let m2 = mem_fill m1 (ospfs_block allocated1) 0 OSPFS_BLKSIZE;
                  m3 = wr32 m2 (oi + 60) allocated1
              in add_indirect2_store m3 oi n new_block allocated1))
      else add_indirect2_store m oi n new_block 0)"

definition add_block :: "mem \<Rightarrow> nat \<Rightarrow> unit res \<times> mem" where
  "add_block m oi =
     (let n = ospfs_size2nblocks (oi_size m oi)
      in if n > OSPFS_MAXFILEBLKS then (Inl ENOSPC, m)
         else
           (case allocate_block m of (new_block, m1) \<Rightarrow>
              if new_block = 0 then (Inl ENOSPC, m1)
              else
                (let m2 = mem_fill m1 (ospfs_block new_block) 0 OSPFS_BLKSIZE;
                     r = (if n < OSPFS_NDIRECT then
                            (Inr (), wr32 m2 (oi + 16 + 4 * unat n) new_block)
                          else if n < OSPFS_NDIRECT + OSPFS_NINDIRECT
                          then add_indirect m2 oi n new_block
                          else add_indirect2 m2 oi n new_block)
                 in (case r of
                       (Inl e, m3) \<Rightarrow> (Inl e, m3)
                     | (Inr (), m3) \<Rightarrow> (Inr (), wr32 m3 oi (oi_size m3 oi + OSPFS_BLKSIZE))))))"

section \<open>Shrinking a file by one block\<close>

definition remove_indirect2 :: "mem \<Rightarrow> nat \<Rightarrow> u32 \<Rightarrow> mem" where
  "remove_indirect2 m oi n =
     (let indir2 = ospfs_block (oi_indirect2 m oi);
          offset2 = nat (indir_index n);
          indir = ospfs_block (rd32 m (indir2 + 4 * offset2));
          offset = nat (direct_index n);
          m1 = free_block m (rd32 m (indir + 4 * offset));
          m2 = wr32 m1 (indir + 4 * offset) 0
      in if offset = 0 then
           (let m3 = wr32 m2 (indir2 + 4 * offset2) 0
            in if offset2 = 0 then wr32 m3 (oi + 60) 0 else m3)
         else m2)"

definition remove_indirect :: "mem \<Rightarrow> nat \<Rightarrow> u32 \<Rightarrow> mem" where
  "remove_indirect m oi n =
     (let indir = ospfs_block (oi_indirect m oi);
          offset = nat (direct_index n);
          m1 = free_block m (rd32 m (indir + 4 * offset));
          m2 = wr32 m1 (indir + 4 * offset) 0
      in if offset = 0 then wr32 m2 (oi + 56) 0 else m2)"

definition remove_direct :: "mem \<Rightarrow> nat \<Rightarrow> u32 \<Rightarrow> mem" where
  "remove_direct m oi n =
     (let direct_off = nat (direct_index n)
      in wr32 (free_block m (oi_direct m oi direct_off)) (oi + 16 + 4 * direct_off) 0)"

definition remove_block :: "mem \<Rightarrow> nat \<Rightarrow> unit res \<times> mem" where
  "remove_block m oi =
     (let n = ospfs_size2nblocks (oi_size m oi);
          m1 = (if indir2_index n = 0 then remove_indirect2 m oi n
                else if indir_index n = 0 then remove_indirect m oi n
                else remove_direct m oi n)
      in (Inr (), wr32 m1 oi (oi_size m1 oi - OSPFS_BLKSIZE)))"

section \<open>Changing a file's size\<close>

text \<open>The loop of the error path: \<open>while (r > 0) { remove_block(oi); r--; }\<close>.\<close>

fun remove_blocks :: "mem \<Rightarrow> nat \<Rightarrow> nat \<Rightarrow> mem" where
  "remove_blocks m oi 0 = m"
| "remove_blocks m oi (Suc r) = remove_blocks (snd (remove_block m oi)) oi r"

partial_function (option) change_size_grow :: "mem \<Rightarrow> nat \<Rightarrow> u32 \<Rightarrow> nat \<Rightarrow> (unit res \<times> mem) option" where
  "change_size_grow m oi new_size r =
     (if ospfs_size2nblocks (oi_size m oi) < ospfs_size2nblocks new_size then
        (case add_block m oi of (status, m1) \<Rightarrow>
           if status = Inr () then change_size_grow m1 oi new_size (r + 1)
           else if status = Inl ENOSPC then Some (Inl ENOSPC, remove_blocks m1 oi r)
           else Some (Inl EIO, m1))
      else Some (Inr (), m))"

partial_function (option) change_size_shrink :: "mem \<Rightarrow> nat \<Rightarrow> u32 \<Rightarrow> (unit res \<times> mem) option" where
  "change_size_shrink m oi new_size =
     (if ospfs_size2nblocks (oi_size m oi) > ospfs_size2nblocks new_size then
        (case remove_block m oi of (status, m1) \<Rightarrow>
           if status \<noteq> Inr () then Some (Inl EIO, m1)
           else change_size_shrink m1 oi new_size)
      else Some (Inr (), m))"

definition change_size :: "mem \<Rightarrow> nat \<Rightarrow> u32 \<Rightarrow> (unit res \<times> mem) option" where
  "change_size m oi new_size =
     (case change_size_grow m oi new_size 0 of
        None \<Rightarrow> None
      | Some (Inl e, m1) \<Rightarrow> Some (Inl e, m1)
      | Some (Inr (), m1) \<Rightarrow>
          (case change_size_shrink m1 oi new_size of
             None \<Rightarrow> None
           | Some (Inl e, m2) \<Rightarrow> Some (Inl e, m2)
           | Some (Inr (), m2) \<Rightarrow> Some (Inr (), wr32 m2 oi new_size)))"

text \<open>
  \<open>struct iattr\<close> as far as the code reads it. \<open>inode_change_ok\<close> and \<open>inode_setattr\<close> are kernel
  functions; their results are parameters.
\<close>

record iattr =
  ia_valid_size :: bool
  ia_valid_mode :: bool
  ia_size :: u32
  ia_mode :: u32

definition ospfs_notify_change ::
  "unit res \<Rightarrow> unit res \<Rightarrow> mem \<Rightarrow> u32 \<Rightarrow> iattr \<Rightarrow> (unit res \<times> mem) option" where
  "ospfs_notify_change inode_change_ok inode_setattr m ino attr =
     (case ospfs_inode m ino of
        None \<Rightarrow> None
      | Some oi \<Rightarrow>
          if ia_valid_size attr \<and> oi_ftype m oi = OSPFS_FTYPE_DIR then Some (Inl EPERM, m)
          else
            (case (if ia_valid_size attr then change_size m oi (ia_size attr) else Some (Inr (), m)) of
               None \<Rightarrow> None
             | Some (Inl e, m1) \<Rightarrow> Some (Inl e, m1)
             | Some (Inr (), m1) \<Rightarrow>
                 (let m2 = (if ia_valid_mode attr then wr32 m1 (oi + 12) (ia_mode attr) else m1)
                  in (case inode_change_ok of
                        Inl e \<Rightarrow> Some (Inl e, m2)
                      | Inr () \<Rightarrow> Some (inode_setattr, m2)))))"

section \<open>Reading and writing\<close>

text \<open>
  \<open>size_t\<close> has 32 bits, \<open>loff_t\<close> has 64 (an \<open>int\<close> here, not negative: the kernel checks it).
  User memory is a list: the bytes that \<open>copy_to_user\<close> has delivered, in order, or the bytes
  \<open>copy_from_user\<close> takes. Both kernel functions may fail when they touch the \<open>n\<close> bytes of the
  user buffer from offset \<open>k\<close>: \<open>to_user k n = Some d\<close> says that only \<open>d\<close> bytes are delivered, and
  \<open>from_user k n = Some junk\<close> that the copy fails and leaves \<open>junk\<close> in the destination.
\<close>

definition chunk :: "nat \<Rightarrow> nat \<Rightarrow> nat" where
  "chunk offset remaining =
     (if remaining > OSPFS_BLKSIZE - offset then OSPFS_BLKSIZE - offset else remaining)"

lemma chunk_pos: "offset < 1024 \<Longrightarrow> 0 < remaining \<Longrightarrow> 0 < chunk offset remaining"
  by (simp add: chunk_def)

lemma chunk_le: "chunk offset remaining \<le> remaining"
  by (simp add: chunk_def)

lemma nat_mod_1024 [simp]: "nat (x mod 1024) < 1024"
  using pos_mod_bound [of 1024 x] by linarith

lemma chunk_decreases [simp]:
  "a < c \<Longrightarrow> c - (a + chunk (nat (p mod 1024)) (c - a)) < c - a"
  using chunk_pos [of "nat (p mod 1024)" "c - a"] by (simp add: diff_less_mono2)

function ospfs_read_loop ::
  "(nat \<Rightarrow> nat \<Rightarrow> nat option) \<Rightarrow> mem \<Rightarrow> nat \<Rightarrow> nat \<Rightarrow> int \<Rightarrow> u8 list \<Rightarrow> nat res \<times> u8 list \<times> int" where
  "ospfs_read_loop to_user m oi count f_pos out =
     (if length out < count then
        (let blockno = ospfs_inode_blockno m oi (word_of_int f_pos) in
         if blockno = 0 then (Inl EIO, out, f_pos)
         else
           (let data = ospfs_block blockno;
                offset = nat (f_pos mod OSPFS_BLKSIZE);
                n = chunk offset (count - length out)
            in case to_user (length out) n of
                 Some d \<Rightarrow> (Inl EFAULT, out @ take d (mem_read m (data + offset) n), f_pos)
               | None \<Rightarrow>
                   ospfs_read_loop to_user m oi count (f_pos + int n) (out @ mem_read m (data + offset) n)))
      else (Inr (length out), out, f_pos))"
  by pat_completeness auto
termination
  by (relation "measure (\<lambda>(to_user, m, oi, count, f_pos, out). count - length out)")
     auto

declare ospfs_read_loop.simps [simp del]

definition ospfs_read ::
  "(nat \<Rightarrow> nat \<Rightarrow> nat option) \<Rightarrow> mem \<Rightarrow> u32 \<Rightarrow> u32 \<Rightarrow> int \<Rightarrow> (nat res \<times> u8 list \<times> int) option" where
  "ospfs_read to_user m ino count f_pos =
     (case ospfs_inode m ino of
        None \<Rightarrow> None
      | Some oi \<Rightarrow>
          (let count' = (if uint count + f_pos > uint (oi_size m oi)
                         then word_of_int (uint (oi_size m oi) - f_pos) else count)
           in Some (ospfs_read_loop to_user m oi (unat (count' :: u32)) f_pos [])))"

function ospfs_write_loop ::
  "(nat \<Rightarrow> nat \<Rightarrow> u8 list option) \<Rightarrow> mem \<Rightarrow> nat \<Rightarrow> nat \<Rightarrow> int \<Rightarrow> u8 list \<Rightarrow> nat \<Rightarrow> nat res \<times> mem \<times> int" where
  "ospfs_write_loop from_user m oi count f_pos buf amount =
     (if amount < count then
        (let blockno = ospfs_inode_blockno m oi (word_of_int f_pos) in
         if blockno = 0 then (Inl EIO, m, f_pos)
         else
           (let data = ospfs_block blockno;
                offset = nat (f_pos mod OSPFS_BLKSIZE);
                n = chunk offset (count - amount)
            in case from_user amount n of
                 Some junk \<Rightarrow> (Inl EFAULT, mem_write m (data + offset) (take n junk), f_pos)
               | None \<Rightarrow>
                   ospfs_write_loop from_user (mem_write m (data + offset) (take n (drop amount buf)))
                     oi count (f_pos + int n) buf (amount + n)))
      else (Inr amount, m, f_pos))"
  by pat_completeness auto
termination
  by (relation "measure (\<lambda>(from_user, m, oi, count, f_pos, buf, amount). count - amount)")
     auto

declare ospfs_write_loop.simps [simp del]

definition ospfs_write ::
  "(nat \<Rightarrow> nat \<Rightarrow> u8 list option) \<Rightarrow> mem \<Rightarrow> u32 \<Rightarrow> bool \<Rightarrow> u8 list \<Rightarrow> u32 \<Rightarrow> int \<Rightarrow> (nat res \<times> mem \<times> int) option" where
  "ospfs_write from_user m ino o_append buf count f_pos0 =
     (case ospfs_inode m ino of
        None \<Rightarrow> None
      | Some oi \<Rightarrow>
          (let f_pos = (if o_append then uint (oi_size m oi) else f_pos0)
           in case (if uint count + f_pos > uint (oi_size m oi)
                    then change_size m oi (word_of_int (uint count + f_pos))
                    else Some (Inr (), m)) of
                None \<Rightarrow> None
              | Some (Inl e, m1) \<Rightarrow> Some (Inl e, m1, f_pos)
              | Some (Inr (), m1) \<Rightarrow> Some (ospfs_write_loop from_user m1 oi (unat count) f_pos buf 0)))"

end
