(* ===== verification/OspfsInv.thy ===== *)
theory OspfsInv
  imports OspfsFile
begin

text \<open>
  The invariant of an OSPFS image and what growing a file does under it. An image is
  well formed when the superblock describes a layout that fits (bitmap, inode table, data
  blocks, in this order) and no block before the first data block is marked free. The image
  then falls into four regions (superblock, bitmap, inode table, data), and every write of
  the file operations stays in the region it is meant for.
\<close>

section \<open>The layout invariant\<close>

definition data_start :: "mem \<Rightarrow> nat" where
  "data_start m = unat (os_firstinob m) + (unat (os_ninodes m) + 15) div OSPFS_BLKINODES"

definition wf_layout :: "mem \<Rightarrow> bool" where
  "wf_layout m \<longleftrightarrow>
     3 \<le> unat (os_firstinob m)
     \<and> unat (os_nblocks m) \<le> (unat (os_firstinob m) - 2) * OSPFS_BLKBITSIZE
     \<and> 0 < unat (os_ninodes m)
     \<and> data_start m \<le> unat (os_nblocks m)
     \<and> unat (os_nblocks m) < 4194304"

definition wf_disk :: "mem \<Rightarrow> bool" where
  "wf_disk m \<longleftrightarrow> wf_layout m \<and> (\<forall>i. 2 \<le> i \<and> i < data_start m \<longrightarrow> \<not> block_is_free m i)"

definition inode_addr :: "mem \<Rightarrow> nat \<Rightarrow> bool" where
  "inode_addr m oi \<longleftrightarrow>
     (\<exists>k < unat (os_ninodes m). oi = unat (os_firstinob m) * 1024 + OSPFS_INODESIZE * k)"

lemma wf_layoutD:
  assumes "wf_layout m"
  shows "3 \<le> unat (os_firstinob m)" "unat (os_firstinob m) < data_start m"
    "data_start m \<le> unat (os_nblocks m)" "unat (os_nblocks m) < 4194304"
    "unat (os_nblocks m) \<le> (unat (os_firstinob m) - 2) * 8192"
  using assms by (auto simp: wf_layout_def data_start_def)

lemma wf_disk_layout: "wf_disk m \<Longrightarrow> wf_layout m"
  by (simp add: wf_disk_def)

lemma block_addr: "wf_layout m \<Longrightarrow> unat b < unat (os_nblocks m) \<Longrightarrow> ospfs_block b = unat b * 1024"
  by (rule ospfs_block_nat) (use wf_layoutD in fastforce)

lemma inode_bounds:
  assumes "wf_layout m" "inode_addr m oi"
  shows "unat (os_firstinob m) * 1024 \<le> oi" "oi + 64 \<le> data_start m * 1024" "3072 \<le> oi"
proof -
  from assms(2) obtain k where k: "k < unat (os_ninodes m)"
    "oi = unat (os_firstinob m) * 1024 + 64 * k"
    by (auto simp: inode_addr_def)
  show "unat (os_firstinob m) * 1024 \<le> oi" using k by simp
  show "oi + 64 \<le> data_start m * 1024"
    using k by (simp add: data_start_def)
  show "3072 \<le> oi" using k wf_layoutD(1) [OF assms(1)] by simp
qed

lemma inode_disjoint:
  assumes "inode_addr m oi" "inode_addr m oi'" "oi \<noteq> oi'"
  shows "oi + 64 \<le> oi' \<or> oi' + 64 \<le> oi"
  using assms by (auto simp: inode_addr_def)

lemma ospfs_inode_addr:
  assumes "wf_layout m" "ospfs_inode m ino = Some oi"
  shows "inode_addr m oi"
proof -
  have "ospfs_block (os_firstinob m) = unat (os_firstinob m) * 1024"
    using wf_layoutD [OF assms(1)] by (intro block_addr [OF assms(1)]) linarith
  then show ?thesis
    using assms(2) by (auto simp: ospfs_inode_def inode_addr_def word_less_nat_alt not_le
        split: if_splits)
qed

section \<open>Frames: which region a write touches\<close>

lemma freemap_word:
  assumes "wf_layout m" "j < unat (os_nblocks m)"
  shows "2048 + 4 * (j div 32) + 4 \<le> unat (os_firstinob m) * 1024"
proof -
  have "j < (unat (os_firstinob m) - 2) * 8192"
    using assms wf_layoutD(5) [OF assms(1)] by simp
  then have "j div 32 < (unat (os_firstinob m) - 2) * 256" by simp
  then show ?thesis using wf_layoutD(1) [OF assms(1)] by simp
qed

lemma clear_frame:
  assumes "wf_layout m" "j < unat (os_nblocks m)" "a < 2048 \<or> unat (os_firstinob m) * 1024 \<le> a"
  shows "bitvector_clear m' 2048 j a = m' a" "bitvector_set m' 2048 j a = m' a"
  using freemap_word [OF assms(1,2)] assms(3)
  by (auto simp: bitvector_clear_def bitvector_set_def intro!: wr32_apply_other)

lemma clear_frame32:
  assumes "wf_layout m" "j < unat (os_nblocks m)" "unat (os_firstinob m) * 1024 \<le> a"
  shows "rd32 (bitvector_clear m' 2048 j) a = rd32 m' a"
  using freemap_word [OF assms(1,2)] assms(3)
  by (auto simp: bitvector_clear_def intro!: rd32_wr32_other)

lemma free_frame:
  assumes "wf_layout m" "j < unat (os_nblocks m)"
    and "\<And>a. 2048 \<le> a \<Longrightarrow> a < unat (os_firstinob m) * 1024 \<Longrightarrow> m' a = m'' a"
  shows "block_is_free m' j = block_is_free m'' j"
proof -
  have "rd32 m' (2048 + 4 * (j div 32)) = rd32 m'' (2048 + 4 * (j div 32))"
    by (rule rd32_cong) (use freemap_word [OF assms(1,2)] assms(3) in auto)
  then show ?thesis by (simp add: bitvector_test_def)
qed

lemma super_frame:
  assumes "\<And>a. a < 2048 \<Longrightarrow> m' a = m a"
  shows "os_nblocks m' = os_nblocks m" "os_ninodes m' = os_ninodes m"
    "os_firstinob m' = os_firstinob m" "data_start m' = data_start m"
    "wf_layout m' = wf_layout m" "inode_addr m' = inode_addr m"
proof -
  show eq: "os_nblocks m' = os_nblocks m" "os_ninodes m' = os_ninodes m"
    "os_firstinob m' = os_firstinob m"
    by (rule rd32_cong; simp add: assms)+
  then show ds: "data_start m' = data_start m" by (simp add: data_start_def)
  show "wf_layout m' = wf_layout m" using eq ds by (simp add: wf_layout_def)
  show "inode_addr m' = inode_addr m" using eq by (simp add: inode_addr_def fun_eq_iff)
qed

lemma inode_at_cong:
  "(\<And>a. oi \<le> a \<Longrightarrow> a < oi + 64 \<Longrightarrow> m' a = m a) \<Longrightarrow> inode_at m' oi = inode_at m oi"
  unfolding inode_at_def by (simp, intro conjI) (auto intro!: rd32_cong)

lemma free_is_data:
  "wf_disk m \<Longrightarrow> 2 \<le> i \<Longrightarrow> block_is_free m i \<Longrightarrow> data_start m \<le> i"
  by (meson not_less wf_disk_def)

section \<open>\<open>add_block\<close> on a file that stays within the direct blocks\<close>

definition abs_add_direct :: "ospfs_inode_t \<Rightarrow> nat \<Rightarrow> u32 \<Rightarrow> ospfs_inode_t" where
  "abs_add_direct ino n b =
     ino\<lparr>i_size := i_size ino + OSPFS_BLKSIZE, i_direct := (i_direct ino)[n := b]\<rparr>"

lemma inode_at_update:
  assumes "n < 10"
  shows "inode_at (wr32 (wr32 m (oi + 16 + 4 * n) b) oi s) oi =
     (inode_at m oi)\<lparr>i_size := s, i_direct := (i_direct (inode_at m oi))[n := b]\<rparr>"
proof -
  have "map (oi_direct (wr32 (wr32 m (oi + 16 + 4 * n) b) oi s) oi) [0..<10]
      = (map (oi_direct m oi) [0..<10])[n := b]"
  proof (rule nth_equalityI)
    fix i assume "i < length (map (oi_direct (wr32 (wr32 m (oi + 16 + 4 * n) b) oi s) oi) [0..<10])"
    then have i: "i < 10" by simp
    show "map (oi_direct (wr32 (wr32 m (oi + 16 + 4 * n) b) oi s) oi) [0..<10] ! i
      = (map (oi_direct m oi) [0..<10])[n := b] ! i"
    proof (cases "i = n")
      case True
      with i assms show ?thesis by (simp add: rd32_wr32_other del: upt_Suc)
    next
      case False
      then have "i < n \<or> n < i" by linarith
      with i assms show ?thesis by (auto simp: rd32_wr32_other simp del: upt_Suc)
    qed
  qed simp
  with assms show ?thesis
    by (simp add: inode_at_def rd32_wr32_other del: upt_Suc)
qed

lemma nblocks_less_10:
  assumes "ospfs_size2nblocks sz < 10" "unat sz \<le> 4294966272"
  shows "(unat sz + 1023) div 1024 < 10" "unat (ospfs_size2nblocks sz) = (unat sz + 1023) div 1024"
  using assms unat_size2nblocks [of sz] by (simp_all add: word_less_nat_alt)

lemma add_block_direct_eq:
  assumes wf: "wf_disk m" and oi: "inode_addr m oi"
    and n: "n = unat (ospfs_size2nblocks (oi_size m oi))" "n < 10"
    and alloc: "allocate_block m = (b, m1)" "b \<noteq> 0"
  shows "add_block m oi = (Inr (), wr32 (wr32 (mem_fill (bitvector_clear m 2048 (unat b))
            (unat b * 1024) 0 1024) (oi + 16 + 4 * n) b) oi (oi_size m oi + 1024))"
    and "data_start m \<le> unat b" "unat b < unat (os_nblocks m)" "block_is_free m (unat b)"
proof -
  note L = wf_disk_layout [OF wf]
  from alloc have f: "2 \<le> unat b" "unat b < unat (os_nblocks m)" "block_is_free m (unat b)"
    "m1 = bitvector_clear m 2048 (unat b)"
    by (auto elim: allocate_block_cases)
  then show ds: "data_start m \<le> unat b" "unat b < unat (os_nblocks m)" "block_is_free m (unat b)"
    using free_is_data [OF wf] by auto
  have small: "ospfs_size2nblocks (oi_size m oi) < 10"
    "\<not> ospfs_size2nblocks (oi_size m oi) > 65802"
    using n by (simp_all add: word_less_nat_alt)
  let ?m2 = "mem_fill m1 (unat b * 1024) 0 1024"
  have "rd32 (wr32 ?m2 (oi + 16 + 4 * n) b) oi = rd32 m oi"
    using inode_bounds [OF L oi] ds(1) f
    by (simp add: rd32_wr32_other rd32_mem_fill_other clear_frame32 [OF L f(2)])
  then show "add_block m oi = (Inr (), wr32 (wr32 (mem_fill (bitvector_clear m 2048 (unat b))
            (unat b * 1024) 0 1024) (oi + 16 + 4 * n) b) oi (oi_size m oi + 1024))"
    using small alloc f(4)
    by (simp add: add_block_def Let_def block_addr [OF L f(2)] flip: n(1) split: unit.split)
qed

definition nblk :: "mem \<Rightarrow> nat \<Rightarrow> nat" where
  "nblk m oi = (unat (oi_size m oi) + 1023) div 1024"

definition free_count :: "mem \<Rightarrow> nat" where
  "free_count m = length (filter (block_is_free m) [2..<unat (os_nblocks m)])"

lemma free_count_0:
  "free_count m = 0 \<longleftrightarrow> (\<forall>i. 2 \<le> i \<and> i < unat (os_nblocks m) \<longrightarrow> \<not> block_is_free m i)"
  unfolding free_count_def by (simp add: filter_empty_conv) auto

lemma add_block_full:
  assumes "free_count m = 0"
  shows "add_block m oi = (Inl ENOSPC, m)"
proof (cases "ospfs_size2nblocks (oi_size m oi) > 65802")
  case True
  then show ?thesis by (simp add: add_block_def)
next
  case False
  obtain b m' where alloc: "allocate_block m = (b, m')" by fastforce
  then have "b = 0 \<and> m' = m"
  proof (cases rule: allocate_block_cases)
    case found
    with assms show ?thesis unfolding free_count_0 by blast
  qed auto
  with False alloc show ?thesis
    by (simp add: add_block_def Let_def)
qed

text \<open>
  \<open>grown m oi b m'\<close>: \<open>m'\<close> is \<open>m\<close> after one direct block \<open>b\<close> has been appended to the file at \<open>oi\<close>.
\<close>

definition grown :: "mem \<Rightarrow> nat \<Rightarrow> u32 \<Rightarrow> mem \<Rightarrow> bool" where
  "grown m oi b m' \<longleftrightarrow>
     data_start m \<le> unat b \<and> unat b < unat (os_nblocks m) \<and> block_is_free m (unat b)
     \<and> inode_at m' oi = abs_add_direct (inode_at m oi) (nblk m oi) b
     \<and> mem_read m' (unat b * 1024) 1024 = replicate 1024 0
     \<and> (\<forall>j < unat (os_nblocks m). block_is_free m' j \<longleftrightarrow> j \<noteq> unat b \<and> block_is_free m j)
     \<and> (\<forall>oi'. inode_addr m oi' \<and> oi' \<noteq> oi \<longrightarrow> inode_at m' oi' = inode_at m oi')
     \<and> (\<forall>a \<ge> data_start m * 1024. a div 1024 \<noteq> unat b \<longrightarrow> m' a = m a)
     \<and> (\<forall>a < 2048. m' a = m a)
     \<and> wf_disk m'"

lemma add_block_grown:
  assumes wf: "wf_disk m" and oi: "inode_addr m oi"
    and sz: "unat (oi_size m oi) \<le> 9216" and free: "free_count m \<noteq> 0"
  obtains b m' where "add_block m oi = (Inr (), m')" "grown m oi b m'"
proof -
  note L = wf_disk_layout [OF wf]
  note IB = inode_bounds [OF L oi]
  obtain b m1 where alloc: "allocate_block m = (b, m1)" by fastforce
  have b0: "b \<noteq> 0"
    using alloc free unfolding free_count_0 by (auto elim: allocate_block_cases)
  define n where "n = nblk m oi"
  have n: "n = unat (ospfs_size2nblocks (oi_size m oi))" "n < 10"
  proof -
    show "n = unat (ospfs_size2nblocks (oi_size m oi))"
      unfolding n_def nblk_def by (rule unat_size2nblocks [symmetric]) (use sz in linarith)
    have "unat (oi_size m oi) + 1023 < 10 * 1024" using sz by simp
    then show "n < 10" unfolding n_def nblk_def by (simp only: less_mult_imp_div_less)
  qed
  note eq = add_block_direct_eq [OF wf oi n alloc b0]
  let ?m0 = "mem_fill (bitvector_clear m 2048 (unat b)) (unat b * 1024) 0 1024"
  let ?m' = "wr32 (wr32 ?m0 (oi + 16 + 4 * n) b) oi (oi_size m oi + 1024)"
  have out: "?m' a = ?m0 a" if "a < oi \<or> oi + 64 \<le> a" for a
    using that n(2) by (auto simp: wr32_apply_other)
  have m0: "?m0 a = m a"
    if "a < 2048 \<or> unat (os_firstinob m) * 1024 \<le> a" "a div 1024 \<noteq> unat b" for a
  proof -
    have "a < unat b * 1024 \<or> unat b * 1024 + 1024 \<le> a"
      using that(2) by (metis add.commute div_nat_eqI mult.commute mult_Suc not_le)
    then show ?thesis
      using clear_frame [OF L eq(3)] that(1) by (auto simp: mem_fill_apply_other)
  qed
  have inode_region: "?m0 a = m a" if "unat (os_firstinob m) * 1024 \<le> a" "a < data_start m * 1024" for a
    by (rule m0) (use that eq(2) in auto)
  have super: "?m' a = m a" if "a < 2048" for a
    using that m0 [of a] out [of a] IB eq(2) wf_layoutD [OF L] by auto
  have bm: "block_is_free ?m' j \<longleftrightarrow> j \<noteq> unat b \<and> block_is_free m j"
    if "j < unat (os_nblocks m)" for j
  proof -
    have "block_is_free ?m' j = block_is_free (bitvector_clear m 2048 (unat b)) j"
      by (rule free_frame [OF L that])
         (use out IB eq(2) wf_layoutD [OF L] in \<open>auto simp: mem_fill_apply_other\<close>)
    then show ?thesis by (simp add: bitvector_clear_test)
  qed
  have "grown m oi b ?m'"
    unfolding grown_def
  proof (intro conjI allI impI)
    show "data_start m \<le> unat b" "unat b < unat (os_nblocks m)" "block_is_free m (unat b)"
      using eq by auto
    have "inode_at ?m0 oi = inode_at m oi"
      by (rule inode_at_cong) (use inode_region IB in auto)
    then show "inode_at ?m' oi = abs_add_direct (inode_at m oi) (nblk m oi) b"
      using inode_at_update [OF n(2)]
      by (simp add: abs_add_direct_def n_def) (simp add: inode_at_def)
    show "mem_read ?m' (unat b * 1024) 1024 = replicate 1024 0"
      by (rule nth_equalityI) (use out eq(2) IB in \<open>auto simp: mem_fill_apply_in\<close>)
    show "block_is_free ?m' j = (j \<noteq> unat b \<and> block_is_free m j)" if "j < unat (os_nblocks m)" for j
      by (rule bm [OF that])
    show "inode_at ?m' oi' = inode_at m oi'" if "inode_addr m oi' \<and> oi' \<noteq> oi" for oi'
    proof (rule inode_at_cong)
      fix a assume a: "oi' \<le> a" "a < oi' + 64"
      have "oi + 64 \<le> oi' \<or> oi' + 64 \<le> oi" using inode_disjoint oi that by blast
      with a show "?m' a = m a"
        using out [of a] inode_region [of a] inode_bounds [OF L, of oi'] that by auto
    qed
    show "?m' a = m a" if "data_start m * 1024 \<le> a" "a div 1024 \<noteq> unat b" for a
      using that out [of a] m0 [of a] IB wf_layoutD(2) [OF L] by auto
    show "?m' a = m a" if "a < 2048" for a by (rule super [OF that])
    have "wf_layout ?m'" "data_start ?m' = data_start m"
      using super_frame [OF super] L by simp_all
    moreover have "\<not> block_is_free ?m' i" if "2 \<le> i" "i < data_start m" for i
      using bm [of i] that wf wf_layoutD(3) [OF L] by (auto simp: wf_disk_def)
    ultimately show "wf_disk ?m'" by (simp add: wf_disk_def)
  qed
  then show ?thesis using eq(1) that by blast
qed

section \<open>Files held by direct blocks\<close>

text \<open>
  \<open>direct_file m oi\<close>: the inode at \<open>oi\<close> is a file or directory of at most ten blocks, its block
  pointers are distinct, point into the data region and are marked in use.
\<close>

definition direct_file :: "mem \<Rightarrow> nat \<Rightarrow> bool" where
  "direct_file m oi \<longleftrightarrow>
     inode_addr m oi \<and> unat (oi_size m oi) \<le> 10240 \<and> oi_ftype m oi \<noteq> OSPFS_FTYPE_SYMLINK
     \<and> (\<forall>k < nblk m oi. data_start m \<le> unat (oi_direct m oi k)
          \<and> unat (oi_direct m oi k) < unat (os_nblocks m)
          \<and> \<not> block_is_free m (unat (oi_direct m oi k)))
     \<and> (\<forall>j < nblk m oi. \<forall>k < nblk m oi. j \<noteq> k \<longrightarrow> oi_direct m oi j \<noteq> oi_direct m oi k)"

lemma direct_file_nblk: "direct_file m oi \<Longrightarrow> nblk m oi \<le> 10"
  using div_le_mono [of "unat (oi_size m oi) + 1023" 11263 1024]
  by (simp add: direct_file_def nblk_def)

lemma inode_at_fields:
  assumes "inode_at m' oi = inode_at m oi"
  shows "oi_size m' oi = oi_size m oi" "oi_ftype m' oi = oi_ftype m oi"
    "oi_nlink m' oi = oi_nlink m oi" "oi_mode m' oi = oi_mode m oi"
    "oi_indirect m' oi = oi_indirect m oi" "oi_indirect2 m' oi = oi_indirect2 m oi"
    "k < 10 \<Longrightarrow> oi_direct m' oi k = oi_direct m oi k"
  using assms by (auto simp: inode_at_def simp del: upt_Suc)

lemma grown_fields:
  assumes "grown m oi b m'" "nblk m oi < 10"
  shows "oi_size m' oi = oi_size m oi + 1024" "oi_ftype m' oi = oi_ftype m oi"
    "oi_nlink m' oi = oi_nlink m oi" "oi_mode m' oi = oi_mode m oi"
    "oi_indirect m' oi = oi_indirect m oi" "oi_indirect2 m' oi = oi_indirect2 m oi"
    "oi_direct m' oi (nblk m oi) = b"
    "k < 10 \<Longrightarrow> k \<noteq> nblk m oi \<Longrightarrow> oi_direct m' oi k = oi_direct m oi k"
proof -
  have eq: "inode_at m' oi = abs_add_direct (inode_at m oi) (nblk m oi) b"
    using assms(1) by (simp add: grown_def)
  then show "oi_size m' oi = oi_size m oi + 1024" "oi_ftype m' oi = oi_ftype m oi"
    "oi_nlink m' oi = oi_nlink m oi" "oi_mode m' oi = oi_mode m oi"
    "oi_indirect m' oi = oi_indirect m oi" "oi_indirect2 m' oi = oi_indirect2 m oi"
    by (simp_all add: inode_at_def abs_add_direct_def)
  have "i_direct (inode_at m' oi) = (i_direct (inode_at m oi))[nblk m oi := b]"
    using eq by (simp add: abs_add_direct_def)
  then have nth: "i_direct (inode_at m' oi) ! k = ((i_direct (inode_at m oi))[nblk m oi := b]) ! k" for k
    by simp
  show "oi_direct m' oi (nblk m oi) = b"
    using nth [of "nblk m oi"] assms(2) by (simp add: inode_at_def del: upt_Suc)
  show "oi_direct m' oi k = oi_direct m oi k" if "k < 10" "k \<noteq> nblk m oi" for k
    using nth [of k] that by (simp add: inode_at_def del: upt_Suc)
qed

text \<open>
  \<open>extends m oi m'\<close>: going from \<open>m\<close> to \<open>m'\<close> only appends zeroed direct blocks, taken from the free
  ones, to the file at \<open>oi\<close>. The size may differ within the last block.
\<close>

definition extends :: "mem \<Rightarrow> nat \<Rightarrow> mem \<Rightarrow> bool" where
  "extends m oi m' \<longleftrightarrow>
     wf_disk m' \<and> direct_file m' oi \<and> (\<forall>a < 2048. m' a = m a) \<and> nblk m oi \<le> nblk m' oi
     \<and> oi_ftype m' oi = oi_ftype m oi \<and> oi_nlink m' oi = oi_nlink m oi
     \<and> oi_mode m' oi = oi_mode m oi
     \<and> (\<forall>k < nblk m oi. oi_direct m' oi k = oi_direct m oi k)
     \<and> (\<forall>k < 10. nblk m' oi \<le> k \<longrightarrow> oi_direct m' oi k = oi_direct m oi k)
     \<and> (\<forall>k. nblk m oi \<le> k \<and> k < nblk m' oi \<longrightarrow>
          block_is_free m (unat (oi_direct m' oi k))
          \<and> mem_read m' (unat (oi_direct m' oi k) * 1024) 1024 = replicate 1024 0)
     \<and> (\<forall>oi'. inode_addr m oi' \<and> oi' \<noteq> oi \<longrightarrow> inode_at m' oi' = inode_at m oi')
     \<and> (\<forall>j < unat (os_nblocks m). block_is_free m' j \<longleftrightarrow>
          block_is_free m j \<and> (\<forall>k. nblk m oi \<le> k \<and> k < nblk m' oi \<longrightarrow> j \<noteq> unat (oi_direct m' oi k)))
     \<and> (\<forall>a \<ge> data_start m * 1024. \<not> block_is_free m (a div 1024) \<longrightarrow> m' a = m a)"

lemma extends_super:
  assumes "extends m oi m'"
  shows "os_nblocks m' = os_nblocks m" "os_ninodes m' = os_ninodes m"
    "os_firstinob m' = os_firstinob m" "data_start m' = data_start m"
    "inode_addr m' = inode_addr m"
  using super_frame [of m' m] assms by (auto simp: extends_def)

lemma extends_refl: "wf_disk m \<Longrightarrow> direct_file m oi \<Longrightarrow> extends m oi m"
  by (auto simp: extends_def)

lemma grown_nblk:
  assumes "grown m oi b m'" "unat (oi_size m oi) \<le> 9216"
  shows "nblk m' oi = Suc (nblk m oi)" "unat (oi_size m' oi) = unat (oi_size m oi) + 1024"
proof -
  have "unat (oi_size m oi) + 1023 < 10 * 1024" using assms(2) by simp
  then have "nblk m oi < 10" unfolding nblk_def by (simp only: less_mult_imp_div_less)
  then have "oi_size m' oi = oi_size m oi + 1024" using grown_fields(1) assms(1) by blast
  then show "unat (oi_size m' oi) = unat (oi_size m oi) + 1024"
    using assms(2) by (simp add: unat_add_u32)
  then show "nblk m' oi = Suc (nblk m oi)" by (simp add: nblk_def)
qed

lemma direct_file_grown:
  assumes wf: "wf_disk m" and df: "direct_file m oi" and g: "grown m oi b m'"
    and sz: "unat (oi_size m oi) \<le> 9216"
  shows "direct_file m' oi"
proof -
  note N = grown_nblk [OF g sz]
  have n10: "nblk m oi < 10"
    using N(1) N(2) sz div_le_mono [of "unat (oi_size m' oi) + 1023" 11263 1024]
    by (simp add: nblk_def)
  note F = grown_fields [OF g n10]
  have super: "os_nblocks m' = os_nblocks m" "data_start m' = data_start m"
    "inode_addr m' = inode_addr m"
    using super_frame [of m' m] g by (simp_all add: grown_def)
  have b: "data_start m \<le> unat b" "unat b < unat (os_nblocks m)" "block_is_free m (unat b)"
    "\<And>j. j < unat (os_nblocks m) \<Longrightarrow> block_is_free m' j \<longleftrightarrow> j \<noteq> unat b \<and> block_is_free m j"
    using g by (simp_all add: grown_def)
  have old: "data_start m \<le> unat (oi_direct m oi k)" "unat (oi_direct m oi k) < unat (os_nblocks m)"
    "\<not> block_is_free m (unat (oi_direct m oi k))" "oi_direct m oi k \<noteq> b"
    "oi_direct m' oi k = oi_direct m oi k" if "k < nblk m oi" for k
    using that df b(3) F(8) [of k] n10 by (auto simp: direct_file_def)
  have all: "data_start m \<le> unat (oi_direct m' oi k) \<and> unat (oi_direct m' oi k) < unat (os_nblocks m)
      \<and> \<not> block_is_free m' (unat (oi_direct m' oi k))" if "k < nblk m' oi" for k
  proof (cases "k = nblk m oi")
    case True
    then show ?thesis using b F(7) by simp
  next
    case False
    then have "k < nblk m oi" using that N(1) by simp
    then show ?thesis using old [of k] b(4) by simp
  qed
  have dist: "oi_direct m' oi j \<noteq> oi_direct m' oi k" if "j < k" "k < nblk m' oi" for j k
  proof (cases "k = nblk m oi")
    case True
    then show ?thesis using old [of j] that F(7) by simp
  next
    case False
    then have k: "k < nblk m oi" using that N(1) by simp
    then have "oi_direct m oi j \<noteq> oi_direct m oi k"
      using df that(1) by (auto simp: direct_file_def)
    then show ?thesis using k that(1) old(5) [of j] old(5) [of k] by simp
  qed
  have "oi_direct m' oi j \<noteq> oi_direct m' oi k"
    if "j < nblk m' oi" "k < nblk m' oi" "j \<noteq> k" for j k
    using that dist [of j k] dist [of k j] by (cases j k rule: linorder_cases) auto
  then show ?thesis
    unfolding direct_file_def super using all df F(2) N(2) sz by (auto simp: direct_file_def)
qed

lemma extends_grown:
  assumes ex: "extends m oi m1" and g: "grown m1 oi b m2" and sz: "unat (oi_size m1 oi) \<le> 9216"
  shows "extends m oi m2"
proof -
  have wf1: "wf_disk m1" and df1: "direct_file m1 oi" using ex by (auto simp: extends_def)
  note S = extends_super [OF ex]
  note N = grown_nblk [OF g sz]
  have df2: "direct_file m2 oi" by (rule direct_file_grown [OF wf1 df1 g sz])
  have n10: "nblk m1 oi < 10" using direct_file_nblk [OF df2] N(1) by simp
  note F = grown_fields [OF g n10]
  have G: "wf_disk m2" "\<And>a. a < 2048 \<Longrightarrow> m2 a = m1 a"
    "data_start m \<le> unat b" "unat b < unat (os_nblocks m)" "block_is_free m1 (unat b)"
    "mem_read m2 (unat b * 1024) 1024 = replicate 1024 0"
    "\<And>j. j < unat (os_nblocks m) \<Longrightarrow> block_is_free m2 j \<longleftrightarrow> j \<noteq> unat b \<and> block_is_free m1 j"
    "\<And>oi'. inode_addr m oi' \<Longrightarrow> oi' \<noteq> oi \<Longrightarrow> inode_at m2 oi' = inode_at m1 oi'"
    "\<And>a. data_start m * 1024 \<le> a \<Longrightarrow> a div 1024 \<noteq> unat b \<Longrightarrow> m2 a = m1 a"
    using g S by (auto simp: grown_def)
  have E: "\<And>a. a < 2048 \<Longrightarrow> m1 a = m a" "nblk m oi \<le> nblk m1 oi"
    "oi_ftype m1 oi = oi_ftype m oi" "oi_nlink m1 oi = oi_nlink m oi" "oi_mode m1 oi = oi_mode m oi"
    "\<And>k. k < nblk m oi \<Longrightarrow> oi_direct m1 oi k = oi_direct m oi k"
    "\<And>k. nblk m oi \<le> k \<Longrightarrow> k < nblk m1 oi \<Longrightarrow>
        mem_read m1 (unat (oi_direct m1 oi k) * 1024) 1024 = replicate 1024 0"
    "\<And>oi'. inode_addr m oi' \<Longrightarrow> oi' \<noteq> oi \<Longrightarrow> inode_at m1 oi' = inode_at m oi'"
    "\<And>j. j < unat (os_nblocks m) \<Longrightarrow> block_is_free m1 j \<longleftrightarrow> block_is_free m j \<and>
        (\<forall>k. nblk m oi \<le> k \<and> k < nblk m1 oi \<longrightarrow> j \<noteq> unat (oi_direct m1 oi k))"
    "\<And>a. data_start m * 1024 \<le> a \<Longrightarrow> \<not> block_is_free m (a div 1024) \<Longrightarrow> m1 a = m a"
    "\<And>k. k < 10 \<Longrightarrow> nblk m1 oi \<le> k \<Longrightarrow> oi_direct m1 oi k = oi_direct m oi k"
    "\<And>k. nblk m oi \<le> k \<Longrightarrow> k < nblk m1 oi \<Longrightarrow> block_is_free m (unat (oi_direct m1 oi k))"
    using ex by (auto simp: extends_def)
  have new: "block_is_free m (unat (oi_direct m2 oi k))" if "nblk m oi \<le> k" "k < nblk m2 oi" for k
  proof (cases "k = nblk m1 oi")
    case True
    then show ?thesis using F(7) G(4,5) E(9) by simp
  next
    case False
    then show ?thesis using that N(1) E(12) [of k] F(8) [of k] n10 by simp
  qed
  have keep: "oi_direct m2 oi k = oi_direct m1 oi k" if "k < nblk m1 oi" for k
    using F(8) [of k] that n10 by simp
  have nb1: "oi_direct m1 oi k \<noteq> b" if "k < nblk m1 oi" for k
    using df1 that G(5) by (auto simp: direct_file_def)
  have zero: "mem_read m2 (unat (oi_direct m2 oi k) * 1024) 1024 = replicate 1024 0"
    if "nblk m oi \<le> k" "k < nblk m2 oi" for k
  proof (cases "k = nblk m1 oi")
    case True
    then show ?thesis using F(7) G(6) by simp
  next
    case False
    then have k: "k < nblk m1 oi" using that(2) N(1) by simp
    have "mem_read m2 (unat (oi_direct m1 oi k) * 1024) 1024
        = mem_read m1 (unat (oi_direct m1 oi k) * 1024) 1024"
    proof (rule mem_read_cong)
      fix i :: nat assume "i < 1024"
      moreover have "data_start m \<le> unat (oi_direct m1 oi k)"
        using df1 k S by (auto simp: direct_file_def)
      ultimately show "m2 (unat (oi_direct m1 oi k) * 1024 + i) = m1 (unat (oi_direct m1 oi k) * 1024 + i)"
        using nb1 [OF k, unfolded word_unat_eq_iff] by (intro G(9)) (auto simp: trans_le_add1)
    qed
    then show ?thesis using E(7) [OF that(1) k] keep [OF k] by simp
  qed
  have free: "block_is_free m2 j \<longleftrightarrow> block_is_free m j \<and>
      (\<forall>k. nblk m oi \<le> k \<and> k < nblk m2 oi \<longrightarrow> j \<noteq> unat (oi_direct m2 oi k))"
    if "j < unat (os_nblocks m)" for j
    using G(7) [OF that] E(9) [OF that] E(2) keep F(7) N(1)
    by (auto simp: less_Suc_eq)
  have data: "m2 a = m a" if "data_start m * 1024 \<le> a" "\<not> block_is_free m (a div 1024)" for a
  proof -
    have "a div 1024 \<noteq> unat b" using that(2) G(4,5) E(9) by auto
    then show ?thesis using G(9) E(10) that by simp
  qed
  show ?thesis
    unfolding extends_def
    using df2 G(1) G(2) E(1) E(2) N(1) F(2-4) E(3-5) E(6) keep zero G(8) E(8) free data F(8) E(11) new
    by (auto simp: le_Suc_eq)
qed

section \<open>\<open>change_size\<close> growing a file\<close>

lemma size2nblocks_less_iff:
  assumes "unat a \<le> 4294966272" "unat b \<le> 4294966272"
  shows "ospfs_size2nblocks a < ospfs_size2nblocks b \<longleftrightarrow>
     (unat a + 1023) div 1024 < (unat b + 1023) div 1024"
  using assms by (simp add: word_less_nat_alt unat_size2nblocks)

lemma grown_free_count:
  assumes "wf_disk m" "grown m oi b m'"
  shows "Suc (free_count m') = free_count m"
proof -
  have g: "data_start m \<le> unat b" "unat b < unat (os_nblocks m)" "block_is_free m (unat b)"
    "\<And>j. j < unat (os_nblocks m) \<Longrightarrow> block_is_free m' j \<longleftrightarrow> j \<noteq> unat b \<and> block_is_free m j"
    using assms(2) by (auto simp: grown_def)
  have nb: "os_nblocks m' = os_nblocks m"
    using super_frame(1) [of m' m] assms(2) by (simp add: grown_def)
  have "filter (block_is_free m') [2..<unat (os_nblocks m)]
      = filter (block_is_free (bitvector_clear m 2048 (unat b))) [2..<unat (os_nblocks m)]"
    by (rule filter_cong) (auto simp: g(4) bitvector_clear_test)
  moreover have "2 \<le> unat b"
    using g(1) wf_layoutD [OF wf_disk_layout [OF assms(1)]] by linarith
  ultimately show ?thesis
    using bv.ones_clr [OF _ g(2,3), of 2] by (simp add: free_count_def nb)
qed

lemma nblk_less_10: "nblk m oi < 10 \<Longrightarrow> unat (oi_size m oi) \<le> 9216"
  by (simp add: nblk_def div_less_iff_less_mult)

lemma nblk_le_10: "unat x \<le> 10240 \<Longrightarrow> (unat x + 1023) div 1024 \<le> 10"
  using div_le_mono [of "unat x + 1023" 11263 1024] by simp

text \<open>The growing loop, from any state that is already an extension of the starting one.\<close>

lemma grow_loop:
  assumes "extends m0 oi m" "unat new \<le> 10240"
  shows "(if (unat new + 1023) div 1024 - nblk m oi \<le> free_count m
     then \<exists>m'. change_size_grow m oi new r = Some (Inr (), m') \<and> extends m0 oi m'
            \<and> nblk m' oi = max (nblk m oi) ((unat new + 1023) div 1024)
     else \<exists>m1. change_size_grow m oi new r = Some (Inl ENOSPC, remove_blocks m1 oi (r + free_count m))
            \<and> extends m0 oi m1 \<and> nblk m1 oi = nblk m oi + free_count m
            \<and> oi_size m1 oi = oi_size m oi + of_nat (1024 * free_count m))"
  using assms
proof (induction "(unat new + 1023) div 1024 - nblk m oi" arbitrary: m r)
  case 0
  have df: "direct_file m oi" using 0 by (simp add: extends_def)
  have "\<not> ospfs_size2nblocks (oi_size m oi) < ospfs_size2nblocks new"
    using 0 df size2nblocks_less_iff [of "oi_size m oi" new] by (simp add: direct_file_def nblk_def)
  then show ?case
    using 0 by (simp add: change_size_grow.simps max_def)
next
  case (Suc d)
  have wf: "wf_disk m" and df: "direct_file m oi" using Suc.prems by (auto simp: extends_def)
  have lt: "nblk m oi < (unat new + 1023) div 1024" using Suc.hyps(2) by simp
  then have n10: "nblk m oi < 10" using nblk_le_10 [OF Suc.prems(2)] by linarith
  have sz: "unat (oi_size m oi) \<le> 9216" by (rule nblk_less_10 [OF n10])
  have cond: "ospfs_size2nblocks (oi_size m oi) < ospfs_size2nblocks new"
    using lt sz Suc.prems(2) size2nblocks_less_iff [of "oi_size m oi" new] by (simp add: nblk_def)
  show ?case
  proof (cases "free_count m = 0")
    case True
    then have "change_size_grow m oi new r = Some (Inl ENOSPC, remove_blocks m oi r)"
      using cond add_block_full [OF True, of oi] by (subst change_size_grow.simps) simp
    then show ?thesis using True lt Suc.prems(1) by auto
  next
    case False
    have oi: "inode_addr m oi" using df by (simp add: direct_file_def)
    obtain b m1 where ab: "add_block m oi = (Inr (), m1)" "grown m oi b m1"
      using add_block_grown [OF wf oi sz False] .
    have ex: "extends m0 oi m1" by (rule extends_grown [OF Suc.prems(1) ab(2) sz])
    have nb: "nblk m1 oi = Suc (nblk m oi)" by (rule grown_nblk [OF ab(2) sz])
    have fc: "free_count m = Suc (free_count m1)" using grown_free_count [OF wf ab(2)] by simp
    have step: "change_size_grow m oi new r = change_size_grow m1 oi new (r + 1)"
      using cond ab(1) by (subst change_size_grow.simps) simp
    have d: "d = (unat new + 1023) div 1024 - nblk m1 oi" using Suc.hyps(2) nb by simp
    have size1: "oi_size m1 oi = oi_size m oi + 1024" by (rule grown_fields(1) [OF ab(2) n10])
    show ?thesis
      using Suc.hyps(1) [OF d ex Suc.prems(2), of "r + 1"] lt nb fc size1
      by (auto simp: step max_def algebra_simps split: if_splits)
  qed
qed

lemma extends_resize:
  assumes ex: "extends m oi m1" and new: "unat new \<le> 10240" "(unat new + 1023) div 1024 = nblk m1 oi"
  shows "extends m oi (wr32 m1 oi new)"
proof -
  let ?m2 = "wr32 m1 oi new"
  have wf1: "wf_disk m1" and df1: "direct_file m1 oi" using ex by (auto simp: extends_def)
  note L = wf_disk_layout [OF wf1]
  have oi: "inode_addr m1 oi" using df1 by (simp add: direct_file_def)
  note IB = inode_bounds [OF L oi]
  have out: "?m2 a = m1 a" if "a < oi \<or> oi + 4 \<le> a" for a
    using that by (simp add: wr32_apply_other)
  have out32: "rd32 ?m2 a = rd32 m1 a" if "oi + 4 \<le> a" for a
    using that by (simp add: rd32_wr32_other)
  have nb: "nblk ?m2 oi = nblk m1 oi" using new(2) by (simp add: nblk_def)
  have super: "\<And>a. a < 2048 \<Longrightarrow> ?m2 a = m1 a" using IB out by auto
  note S = super_frame [of ?m2 m1, OF super]
  have free: "block_is_free ?m2 j = block_is_free m1 j" if "j < unat (os_nblocks m1)" for j
    by (rule free_frame [OF L that]) (use out IB in auto)
  have data: "?m2 a = m1 a" if "data_start m1 * 1024 \<le> a" for a
    using that IB out by auto
  have wf2: "wf_disk ?m2"
    using wf1 S free wf_layoutD(3) [OF L] by (auto simp: wf_disk_def)
  have df2: "direct_file ?m2 oi"
    using df1 new(1) free by (simp add: direct_file_def nb S(1,4,6) out32)
  have inodes: "inode_at ?m2 oi' = inode_at m1 oi'" if "inode_addr m1 oi'" "oi' \<noteq> oi" for oi'
    by (rule inode_at_cong) (use inode_disjoint [OF oi that(1)] that(2) out in auto)
  have zero: "mem_read ?m2 (unat (oi_direct m1 oi k) * 1024) 1024
      = mem_read m1 (unat (oi_direct m1 oi k) * 1024) 1024" if "k < nblk m1 oi" for k
    by (rule mem_read_cong, rule data) (use df1 that in \<open>auto simp: direct_file_def trans_le_add1\<close>)
  note E = ex [unfolded extends_def] and SM = extends_super [OF ex]
  show ?thesis
    unfolding extends_def nb
    using wf2 df2 super E SM free inodes zero data by (auto simp: out32)
qed

lemma change_size_extends:
  assumes "wf_disk m" "direct_file m oi"
    and "unat (oi_size m oi) \<le> unat new_size" "unat new_size \<le> 10240"
    and "(unat new_size + 1023) div 1024 - nblk m oi \<le> free_count m"
  shows "\<exists>m'. change_size m oi new_size = Some (Inr (), m') \<and> oi_size m' oi = new_size
    \<and> extends m oi m'"
proof -
  obtain m1 where m1: "change_size_grow m oi new_size 0 = Some (Inr (), m1)" "extends m oi m1"
    "nblk m1 oi = max (nblk m oi) ((unat new_size + 1023) div 1024)"
    using grow_loop [OF extends_refl [OF assms(1,2)] assms(4), of 0] assms(5) by auto
  have "nblk m oi \<le> (unat new_size + 1023) div 1024"
    unfolding nblk_def by (rule div_le_mono) (use assms(3) in simp)
  then have n: "nblk m1 oi = (unat new_size + 1023) div 1024" using m1(3) by simp
  have "direct_file m1 oi" using m1(2) by (simp add: extends_def)
  then have "\<not> ospfs_size2nblocks new_size < ospfs_size2nblocks (oi_size m1 oi)"
    using assms(4) n size2nblocks_less_iff [of new_size "oi_size m1 oi"]
    by (simp add: direct_file_def nblk_def)
  then have "change_size_shrink m1 oi new_size = Some (Inr (), m1)"
    by (subst change_size_shrink.simps) simp
  then have "change_size m oi new_size = Some (Inr (), wr32 m1 oi new_size)"
    using m1(1) by (simp add: change_size_def split: unit.split)
  then show ?thesis
    using extends_resize [OF m1(2) assms(4)] n by auto
qed

text \<open>C25: Growing a file that stays within its ten direct blocks, on a well-formed disk with
  enough free blocks, succeeds: the size becomes the requested one, the old blocks keep their
  numbers and contents, the other inodes and every block in use are untouched, and the added
  blocks were free, are zeroed and now are the only blocks whose bitmap bit has changed.\<close>

theorem change_size_grows:
  assumes "wf_disk m" "direct_file m oi"
    and "unat (oi_size m oi) \<le> unat new_size" "unat new_size \<le> 10240"
    and "(unat new_size + 1023) div 1024 - nblk m oi \<le> free_count m"
  shows "\<exists>m'. change_size m oi new_size = Some (Inr (), m') \<and> oi_size m' oi = new_size
    \<and> wf_disk m' \<and> direct_file m' oi
    \<and> (\<forall>k < nblk m oi. oi_direct m' oi k = oi_direct m oi k)
    \<and> (\<forall>k. nblk m oi \<le> k \<and> k < (unat new_size + 1023) div 1024 \<longrightarrow>
          block_is_free m (unat (oi_direct m' oi k))
          \<and> mem_read m' (unat (oi_direct m' oi k) * 1024) 1024 = replicate 1024 0)
    \<and> (\<forall>j < unat (os_nblocks m). block_is_free m' j \<longleftrightarrow> block_is_free m j
          \<and> (\<forall>k. nblk m oi \<le> k \<and> k < (unat new_size + 1023) div 1024 \<longrightarrow> j \<noteq> unat (oi_direct m' oi k)))
    \<and> (\<forall>oi'. inode_addr m oi' \<and> oi' \<noteq> oi \<longrightarrow> inode_at m' oi' = inode_at m oi')
    \<and> (\<forall>a \<ge> data_start m * 1024. \<not> block_is_free m (a div 1024) \<longrightarrow> m' a = m a)"
proof -
  obtain m' where m': "change_size m oi new_size = Some (Inr (), m')" "oi_size m' oi = new_size"
    "extends m oi m'"
    using change_size_extends [OF assms] by blast
  moreover have "nblk m' oi = (unat new_size + 1023) div 1024" by (simp add: nblk_def m'(2))
  ultimately show ?thesis unfolding extends_def by (intro exI [of _ m']) simp
qed

lemma small_disk_wf: "wf_disk small_disk"
proof -
  have ds: "data_start small_disk = 4" by (simp add: data_start_def)
  have "\<not> block_is_free small_disk i" if "2 \<le> i" "i < 4" for i
  proof -
    have "i = 2 \<or> i = 3" using that by linarith
    then show ?thesis by (auto simp: small_disk_free)
  qed
  then show ?thesis by (simp add: wf_disk_def wf_layout_def ds)
qed

lemma small_disk_file: "direct_file small_disk 3136"
proof -
  have "inode_addr small_disk 3136"
    unfolding inode_addr_def by (rule exI [of _ 1]) simp
  then show ?thesis by (simp add: direct_file_def nblk_def)
qed

lemma small_disk_free_count: "free_count small_disk = 11"
  by (simp add: free_count_def upt_rec small_disk_free)

theorem change_size_grows_witness:
  "\<exists>m'. change_size small_disk 3136 3000 = Some (Inr (), m') \<and> rd32 m' 3136 = 3000
    \<and> wf_disk m' \<and> block_is_free small_disk (unat (rd32 m' 3152))"
  using change_size_grows [OF small_disk_wf small_disk_file, of 3000]
  by (auto simp: small_disk_free_count nblk_def dest!: spec [of _ "0 :: nat"])

end
