(* ===== verification/OspfsShrink.thy ===== *)
theory OspfsShrink
  imports OspfsInv
begin

text \<open>
  What \<open>remove_block\<close> does to a file of at most nine blocks, and what follows for
  \<open>change_size\<close>: a growth that runs out of space, and a shrink. \<open>remove_block\<close> works on the
  pointer slot whose index is the current number of blocks, which is the slot after the last
  block; the lemmas below follow the code in this.
\<close>

section \<open>One step\<close>

definition nblocks :: "mem \<Rightarrow> nat \<Rightarrow> nat" where
  "nblocks m oi = unat (ospfs_size2nblocks (oi_size m oi))"

lemma nblocks_nblk: "unat (oi_size m oi) \<le> 4294966272 \<Longrightarrow> nblocks m oi = nblk m oi"
  by (simp add: nblocks_def nblk_def unat_size2nblocks)

lemma size2nblocks_minus:
  assumes "0 < unat (ospfs_size2nblocks s)"
  shows "unat (ospfs_size2nblocks (s - 1024)) = unat (ospfs_size2nblocks s) - 1"
proof -
  define t where "t = s + 1023"
  have s: "ospfs_size2nblocks s = t div 1024" "ospfs_size2nblocks (s - 1024) = (t - 1024) div 1024"
    by (simp_all add: t_def ospfs_size2nblocks_def add.commute)
  have "1024 \<le> unat t" using assms s(1) by (simp add: unat_div_distrib div_greater_zero_iff)
  then have "unat (t - 1024) = unat t - 1024" by (simp add: unat_sub word_le_nat_alt)
  then show ?thesis using s by (simp add: unat_div_distrib)
qed

definition valid_slots :: "mem \<Rightarrow> nat \<Rightarrow> bool" where
  "valid_slots m oi \<longleftrightarrow> (\<forall>k < 10. unat (oi_direct m oi k) < unat (os_nblocks m))"

lemma free_block_frame:
  assumes "wf_layout m" "unat b < unat (os_nblocks m)" "a < 2048 \<or> unat (os_firstinob m) * 1024 \<le> a"
  shows "free_block m b a = m a"
  using assms by (simp add: free_block_def clear_frame)

lemma remove_block_direct_eq:
  assumes L: "wf_layout m" and oi: "inode_addr m oi"
    and n: "nblocks m oi < 10" and b: "unat (oi_direct m oi (nblocks m oi)) < unat (os_nblocks m)"
  shows "remove_block m oi = (Inr (), wr32 (wr32 (free_block m (oi_direct m oi (nblocks m oi)))
            (oi + 16 + 4 * nblocks m oi) 0) oi (oi_size m oi - 1024))"
proof -
  let ?n = "ospfs_size2nblocks (oi_size m oi)"
  have lt: "?n < 10" using n by (simp add: nblocks_def word_less_nat_alt)
  then have lt2: "?n < 266" by (simp add: word_less_nat_alt)
  have i: "indir2_index ?n = -1" "indir_index ?n = -1" "nat (direct_index ?n) = nblocks m oi"
    using lt lt2 by (simp_all add: indir2_index_def indir_index_def direct_index_def nblocks_def)
  have "rd32 (free_block m (oi_direct m oi (nblocks m oi))) oi = oi_size m oi"
    by (rule rd32_cong, rule free_block_frame [OF L b]) (use inode_bounds [OF L oi] in simp)
  then show ?thesis
    using n by (simp add: remove_block_def remove_direct_def Let_def i rd32_wr32_other)
qed

section \<open>The loops\<close>

text \<open>
  \<open>shrunk m oi r m'\<close>: \<open>m'\<close> is \<open>m\<close> after \<open>r\<close> calls of \<open>remove_block\<close> on the inode at \<open>oi\<close>. With \<open>n\<close>
  blocks at the start, the slots \<open>n - r + 1\<close> up to \<open>n\<close> are zeroed and the blocks they named freed.
\<close>

definition shrunk :: "mem \<Rightarrow> nat \<Rightarrow> nat \<Rightarrow> mem \<Rightarrow> bool" where
  "shrunk m oi r m' \<longleftrightarrow>
     (\<forall>a < 2048. m' a = m a)
     \<and> (\<forall>a \<ge> data_start m * 1024. m' a = m a)
     \<and> (\<forall>oi'. inode_addr m oi' \<and> oi' \<noteq> oi \<longrightarrow> inode_at m' oi' = inode_at m oi')
     \<and> oi_size m' oi = oi_size m oi - of_nat (1024 * r)
     \<and> oi_ftype m' oi = oi_ftype m oi \<and> oi_nlink m' oi = oi_nlink m oi
     \<and> oi_mode m' oi = oi_mode m oi
     \<and> oi_indirect m' oi = oi_indirect m oi \<and> oi_indirect2 m' oi = oi_indirect2 m oi
     \<and> (\<forall>k < 10. oi_direct m' oi k =
          (if nblocks m oi - r < k \<and> k \<le> nblocks m oi then 0 else oi_direct m oi k))
     \<and> (\<forall>j < unat (os_nblocks m). block_is_free m' j \<longleftrightarrow> block_is_free m j \<or>
          (\<exists>k. nblocks m oi - r < k \<and> k \<le> nblocks m oi
             \<and> os_firstinob m \<le> oi_direct m oi k \<and> j = unat (oi_direct m oi k)))"

lemma shrunk_0: "shrunk m oi 0 m"
  by (auto simp: shrunk_def)

lemma remove_blocks_Suc: "remove_blocks m oi (Suc r) = snd (remove_block (remove_blocks m oi r) oi)"
  by (induction r arbitrary: m) auto

lemma shrunk_nblocks:
  assumes "shrunk m oi r m'" "r \<le> nblocks m oi"
  shows "nblocks m' oi = nblocks m oi - r"
proof -
  have "r \<le> unat (ospfs_size2nblocks s) \<Longrightarrow>
      unat (ospfs_size2nblocks (s - of_nat (1024 * r))) = unat (ospfs_size2nblocks s) - r" for s
  proof (induction r)
    case (Suc r)
    then have "0 < unat (ospfs_size2nblocks (s - of_nat (1024 * r)))" by simp
    from size2nblocks_minus [OF this] Suc show ?case by (simp add: algebra_simps)
  qed simp
  then show ?thesis using assms by (simp add: shrunk_def nblocks_def)
qed

lemma shrunk_step:
  assumes L: "wf_layout m" and oi: "inode_addr m oi" and v: "valid_slots m oi"
    and n: "nblocks m oi < 10" and s: "shrunk m oi r m1" "r < nblocks m oi"
  shows "fst (remove_block m1 oi) = Inr ()" "shrunk m oi (Suc r) (snd (remove_block m1 oi))"
proof -
  let ?n = "nblocks m oi"
  define k where "k = nblocks m oi - r"
  have k: "0 < k" "k \<le> ?n" "k < 10" "nblocks m1 oi = k"
    using s n shrunk_nblocks [OF s(1)] by (auto simp: k_def)
  have S: "\<And>a. a < 2048 \<Longrightarrow> m1 a = m a" "\<And>a. data_start m * 1024 \<le> a \<Longrightarrow> m1 a = m a"
    "\<And>oi'. inode_addr m oi' \<Longrightarrow> oi' \<noteq> oi \<Longrightarrow> inode_at m1 oi' = inode_at m oi'"
    "oi_size m1 oi = oi_size m oi - of_nat (1024 * r)"
    "oi_ftype m1 oi = oi_ftype m oi" "oi_nlink m1 oi = oi_nlink m oi" "oi_mode m1 oi = oi_mode m oi"
    "oi_indirect m1 oi = oi_indirect m oi" "oi_indirect2 m1 oi = oi_indirect2 m oi"
    "\<And>j. j < 10 \<Longrightarrow> oi_direct m1 oi j = (if k < j \<and> j \<le> ?n then 0 else oi_direct m oi j)"
    "\<And>j. j < unat (os_nblocks m) \<Longrightarrow> block_is_free m1 j \<longleftrightarrow> block_is_free m j \<or>
          (\<exists>i. k < i \<and> i \<le> ?n \<and> os_firstinob m \<le> oi_direct m oi i \<and> j = unat (oi_direct m oi i))"
    using s(1) unfolding shrunk_def k_def by auto
  note F = super_frame [of m1 m, OF S(1)]
  have L1: "wf_layout m1" and oi1: "inode_addr m1 oi" using L oi by (simp_all add: F)
  note IB = inode_bounds [OF L oi]
  define b where "b = oi_direct m oi k"
  have b1: "oi_direct m1 oi k = b" using S(10) [OF k(3)] by (simp add: b_def)
  have bn: "unat b < unat (os_nblocks m)" using v k(3) by (simp add: valid_slots_def b_def)
  let ?f = "free_block m1 b"
  let ?m2 = "wr32 (wr32 ?f (oi + 16 + 4 * k) 0) oi (oi_size m1 oi - 1024)"
  have eq: "remove_block m1 oi = (Inr (), ?m2)"
    using remove_block_direct_eq [OF L1 oi1] k(3,4) bn b1 by (simp add: F)
  then show "fst (remove_block m1 oi) = Inr ()" by simp
  have f: "?f a = m1 a" if "a < 2048 \<or> unat (os_firstinob m) * 1024 \<le> a" for a
    using free_block_frame [OF L1, of b a] that bn by (simp add: F)
  have out: "?m2 a = ?f a" if "a < oi \<or> oi + 64 \<le> a" for a
    using that k(3) by (auto simp: wr32_apply_other)
  have f32: "rd32 ?f a = rd32 m1 a" if "unat (os_firstinob m) * 1024 \<le> a" for a
    by (rule rd32_cong, rule f) (use that in simp)
  have free: "block_is_free ?m2 j \<longleftrightarrow> block_is_free m1 j \<or> (os_firstinob m \<le> b \<and> j = unat b)"
    if "j < unat (os_nblocks m)" for j
  proof -
    have "block_is_free ?m2 j = block_is_free ?f j"
      by (rule free_frame [OF L that]) (use out IB in auto)
    then show ?thesis by (simp add: free_block_test F)
  qed
  have "shrunk m oi (Suc r) ?m2"
    unfolding shrunk_def
  proof (intro conjI allI impI)
    show "?m2 a = m a" if "a < 2048" for a using that out [of a] f [of a] S(1) IB by auto
    show "?m2 a = m a" if "data_start m * 1024 \<le> a" for a
      using that out [of a] f [of a] S(2) IB wf_layoutD(2) [OF L] by auto
    show "inode_at ?m2 oi' = inode_at m oi'" if "inode_addr m oi' \<and> oi' \<noteq> oi" for oi'
    proof -
      have "inode_at ?m2 oi' = inode_at m1 oi'"
      proof (rule inode_at_cong)
        fix a assume a: "oi' \<le> a" "a < oi' + 64"
        have "oi + 64 \<le> oi' \<or> oi' + 64 \<le> oi" using inode_disjoint oi that by blast
        with a show "?m2 a = m1 a"
          using out [of a] f [of a] inode_bounds [OF L, of oi'] that by auto
      qed
      then show ?thesis using S(3) that by simp
    qed
    show "oi_size ?m2 oi = oi_size m oi - of_nat (1024 * Suc r)"
      using S(4) by (simp add: algebra_simps)
    show "oi_ftype ?m2 oi = oi_ftype m oi" "oi_nlink ?m2 oi = oi_nlink m oi"
      "oi_mode ?m2 oi = oi_mode m oi" "oi_indirect ?m2 oi = oi_indirect m oi"
      "oi_indirect2 ?m2 oi = oi_indirect2 m oi"
      using S(5-9) k(3) IB(1) by (simp_all add: rd32_wr32_other f32)
    show "oi_direct ?m2 oi j = (if ?n - Suc r < j \<and> j \<le> ?n then 0 else oi_direct m oi j)"
      if "j < 10" for j
    proof (cases "j = k")
      case True
      moreover have "?n - Suc r < k" using s(2) by (simp add: k_def)
      ultimately show ?thesis using k(2,3) by (simp add: rd32_wr32_other)
    next
      case False
      then have "j < k \<or> k < j" by linarith
      then have "oi_direct ?m2 oi j = oi_direct m1 oi j"
        using IB(1) by (auto simp: rd32_wr32_other f32)
      moreover have "?n - Suc r < j \<and> j \<le> ?n \<longleftrightarrow> k < j \<and> j \<le> ?n"
        using False s(2) by (auto simp: k_def)
      ultimately show ?thesis using S(10) [OF that] by simp
    qed
    have set: "?n - Suc r < i \<and> i \<le> ?n \<longleftrightarrow> i = k \<or> (k < i \<and> i \<le> ?n)" for i
      using s(2) by (auto simp: k_def)
    show "block_is_free ?m2 j \<longleftrightarrow> block_is_free m j \<or> (\<exists>i. ?n - Suc r < i \<and> i \<le> ?n
             \<and> os_firstinob m \<le> oi_direct m oi i \<and> j = unat (oi_direct m oi i))"
      if "j < unat (os_nblocks m)" for j
    proof -
      have "(\<exists>i. ?n - Suc r < i \<and> i \<le> ?n \<and> P i) \<longleftrightarrow> P k \<or> (\<exists>i. k < i \<and> i \<le> ?n \<and> P i)" for P
        unfolding conj_assoc [symmetric] set by blast
      then show ?thesis using free [OF that] S(11) [OF that] by (simp add: b_def disj_ac)
    qed
  qed
  then show "shrunk m oi (Suc r) (snd (remove_block m1 oi))" by (simp add: eq)
qed

lemma remove_blocks_shrunk:
  assumes "wf_layout m" "inode_addr m oi" "valid_slots m oi" "nblocks m oi < 10"
  shows "r \<le> nblocks m oi \<Longrightarrow> shrunk m oi r (remove_blocks m oi r)"
proof (induction r)
  case 0
  then show ?case by (simp add: shrunk_0)
next
  case (Suc r)
  then show ?case
    using shrunk_step(2) [OF assms, of r "remove_blocks m oi r"]
    unfolding remove_blocks_Suc by simp
qed

section \<open>\<open>change_size\<close> without enough free blocks\<close>

definition clean_tail :: "mem \<Rightarrow> nat \<Rightarrow> bool" where
  "clean_tail m oi \<longleftrightarrow> (\<forall>k < 10. nblk m oi \<le> k \<longrightarrow> oi_direct m oi k = 0)"

lemma direct_file_nblocks: "direct_file m oi \<Longrightarrow> nblocks m oi = nblk m oi"
  by (rule nblocks_nblk) (simp add: direct_file_def)

lemma direct_file_valid_slots:
  assumes "wf_layout m" "direct_file m oi" "\<forall>k < 10. nblk m oi \<le> k \<longrightarrow> oi_direct m oi k = 0"
  shows "valid_slots m oi"
  unfolding valid_slots_def
proof (intro allI impI)
  fix k :: nat assume "k < 10"
  then show "unat (oi_direct m oi k) < unat (os_nblocks m)"
    using assms wf_layoutD [OF assms(1)] by (cases "k < nblk m oi") (auto simp: direct_file_def)
qed

text \<open>The last slot that \<open>remove_block\<close> clears is past the file, so its block 0 is not freed.\<close>

lemma shrunk_free:
  assumes wf: "wf_disk m" and df: "direct_file m oi" and ct: "clean_tail m oi" and n: "nblk m oi < 10"
    and sh: "shrunk m oi r m'" and j: "j < unat (os_nblocks m)"
  shows "block_is_free m' j \<longleftrightarrow> block_is_free m j
    \<or> (\<exists>i. nblk m oi - r < i \<and> i < nblk m oi \<and> j = unat (oi_direct m oi i))"
proof -
  note L = wf_disk_layout [OF wf]
  have slot: "os_firstinob m \<le> oi_direct m oi i \<longleftrightarrow> i \<noteq> nblk m oi" if "i \<le> nblk m oi" for i
  proof (cases "i = nblk m oi")
    case True
    then show ?thesis using ct n wf_layoutD(1) [OF L] by (simp add: clean_tail_def word_le_nat_alt)
  next
    case False
    then have "data_start m \<le> unat (oi_direct m oi i)" using df that by (auto simp: direct_file_def)
    then show ?thesis using False wf_layoutD(2) [OF L] by (simp add: word_le_nat_alt)
  qed
  have "block_is_free m' j \<longleftrightarrow> block_is_free m j \<or> (\<exists>i. nblk m oi - r < i \<and> i \<le> nblk m oi
      \<and> os_firstinob m \<le> oi_direct m oi i \<and> j = unat (oi_direct m oi i))"
    using sh j by (simp add: shrunk_def direct_file_nblocks [OF df])
  also have "\<dots> \<longleftrightarrow> block_is_free m j \<or> (\<exists>i. nblk m oi - r < i \<and> i < nblk m oi \<and> j = unat (oi_direct m oi i))"
    by (intro disj_cong refl ex_cong1) (use slot in auto)
  finally show ?thesis .
qed

text \<open>Taking back \<open>f\<close> blocks that were just added frees all of them but the first.\<close>

lemma take_back_free:
  assumes ex: "extends m oi m1" and ct: "clean_tail m1 oi" and nb: "nblk m1 oi = nblk m oi + f" "nblk m1 oi < 10"
    and sh: "shrunk m1 oi f m'" and f: "f \<noteq> 0" and j: "j < unat (os_nblocks m)"
  shows "block_is_free m' j \<longleftrightarrow> block_is_free m j \<and> j \<noteq> unat (oi_direct m1 oi (nblk m oi))"
proof -
  let ?n = "nblk m oi" and ?taken = "\<lambda>k. j = unat (oi_direct m1 oi k)"
  have wf1: "wf_disk m1" and df1: "direct_file m1 oi" using ex by (auto simp: extends_def)
  note S = extends_super [OF ex]
  have e: "block_is_free m' j \<longleftrightarrow> block_is_free m1 j \<or> (\<exists>k. ?n < k \<and> k < ?n + f \<and> ?taken k)"
    using shrunk_free [OF wf1 df1 ct nb(2) sh] j S nb(1) by simp
  have b: "block_is_free m1 j \<longleftrightarrow> block_is_free m j \<and> (\<forall>k. ?n \<le> k \<and> k < ?n + f \<longrightarrow> \<not> ?taken k)"
    using ex j by (simp add: extends_def nb)
  show ?thesis
  proof (cases "\<exists>k. ?n < k \<and> k < ?n + f \<and> ?taken k")
    case True
    then obtain k where k: "?n < k" "k < ?n + f" "?taken k" by blast
    have "oi_direct m1 oi k \<noteq> oi_direct m1 oi ?n" using df1 k nb unfolding direct_file_def by simp
    moreover have "block_is_free m (unat (oi_direct m1 oi k))" using ex k by (simp add: extends_def nb)
    ultimately show ?thesis using e k by (auto simp: word_unat_eq_iff)
  next
    case False
    then have "(\<forall>k. ?n \<le> k \<and> k < ?n + f \<longrightarrow> \<not> ?taken k) \<longleftrightarrow> \<not> ?taken ?n"
      using f by (metis add_strict_left_mono le_eq_less_or_eq less_add_same_cancel1 neq0_conv)
    then show ?thesis using e b False by simp
  qed
qed

lemma full_disk_unchanged:
  assumes "direct_file m oi" "unat new_size \<le> 10240" "free_count m = 0" "nblk m oi < (unat new_size + 1023) div 1024"
  shows "change_size_grow m oi new_size 0 = Some (Inl ENOSPC, m)"
proof -
  have "ospfs_size2nblocks (oi_size m oi) < ospfs_size2nblocks new_size"
    using assms(1,2,4) size2nblocks_less_iff [of "oi_size m oi" new_size] by (simp add: direct_file_def nblk_def)
  then show ?thesis using add_block_full [OF assms(3), of oi] by (subst change_size_grow.simps) simp
qed

text \<open>C26: A growth that runs out of free blocks (for a file that stays within its direct
  blocks, on a well-formed disk, with no stale pointers after the last block) fails with
  \<open>ENOSPC\<close> and restores the size and the file's blocks. The free-block map is restored only if
  no block could be added at all: otherwise exactly one of the added blocks, the first, stays
  marked in use and stays in the slot after the last block.\<close>

theorem change_size_enospc:
  assumes "wf_disk m" "direct_file m oi" "clean_tail m oi" "unat new_size \<le> 10240"
    and "free_count m < (unat new_size + 1023) div 1024 - nblk m oi"
  shows "\<exists>m'. change_size m oi new_size = Some (Inl ENOSPC, m')
    \<and> oi_size m' oi = oi_size m oi
    \<and> (\<forall>k < nblk m oi. oi_direct m' oi k = oi_direct m oi k)
    \<and> (\<forall>oi'. inode_addr m oi' \<and> oi' \<noteq> oi \<longrightarrow> inode_at m' oi' = inode_at m oi')
    \<and> (\<forall>a \<ge> data_start m * 1024. \<not> block_is_free m (a div 1024) \<longrightarrow> m' a = m a)
    \<and> (free_count m = 0 \<longrightarrow> m' = m)
    \<and> (free_count m \<noteq> 0 \<longrightarrow> block_is_free m (unat (oi_direct m' oi (nblk m oi)))
        \<and> unat (oi_direct m' oi (nblk m oi)) < unat (os_nblocks m)
        \<and> (\<forall>j < unat (os_nblocks m). block_is_free m' j \<longleftrightarrow>
              block_is_free m j \<and> j \<noteq> unat (oi_direct m' oi (nblk m oi))))"
proof -
  let ?n = "nblk m oi" and ?f = "free_count m"
  obtain m1 where g: "change_size_grow m oi new_size 0 = Some (Inl ENOSPC, remove_blocks m1 oi ?f)"
    and ex: "extends m oi m1" and nb: "nblk m1 oi = ?n + ?f"
    and sz: "oi_size m1 oi = oi_size m oi + of_nat (1024 * ?f)"
    using grow_loop [OF extends_refl [OF assms(1,2)] assms(4), of 0] assms(5) by auto
  have wf1: "wf_disk m1" and df1: "direct_file m1 oi" using ex by (auto simp: extends_def)
  note L1 = wf_disk_layout [OF wf1] and S = extends_super [OF ex]
  have n10: "nblk m1 oi < 10" using nb assms(5) nblk_le_10 [OF assms(4)] by linarith
  have ct: "clean_tail m1 oi" using ex assms(3) nb by (simp add: extends_def clean_tail_def)
  define m' where "m' = remove_blocks m1 oi ?f"
  note nbs = direct_file_nblocks [OF df1]
  have sh: "shrunk m1 oi ?f m'"
    unfolding m'_def
    by (rule remove_blocks_shrunk [OF L1 _ direct_file_valid_slots [OF L1 df1]])
       (use df1 ct n10 nb in \<open>simp_all add: nbs clean_tail_def direct_file_def\<close>)
  have size: "oi_size m' oi = oi_size m oi" using sh sz by (simp add: shrunk_def)
  have slots: "oi_direct m' oi k = oi_direct m1 oi k" if "k \<le> ?n" for k
    using sh that n10 by (simp add: shrunk_def nbs nb)
  have data: "m' a = m a" if "data_start m * 1024 \<le> a" "\<not> block_is_free m (a div 1024)" for a
    using sh ex that S by (simp add: shrunk_def extends_def)
  have inodes: "inode_at m' oi' = inode_at m oi'" if "inode_addr m oi'" "oi' \<noteq> oi" for oi'
    using sh ex that S by (simp add: shrunk_def extends_def)
  have new: "block_is_free m (unat (oi_direct m1 oi k))" if "?n \<le> k" "k < ?n + ?f" for k
    using ex that by (simp add: extends_def nb)
  have keep: "?f = 0 \<longrightarrow> m' = m" using full_disk_unchanged [OF assms(2,4)] assms(5) g by (simp add: m'_def)
  have old: "oi_direct m' oi k = oi_direct m oi k" if "k < ?n" for k
    using slots [of k] that ex by (simp add: extends_def)
  have "change_size m oi new_size = Some (Inl ENOSPC, m')"
    using g by (simp add: change_size_def m'_def)
  moreover have "?f \<noteq> 0 \<longrightarrow> block_is_free m (unat (oi_direct m' oi ?n))
        \<and> unat (oi_direct m' oi ?n) < unat (os_nblocks m)
        \<and> (\<forall>j < unat (os_nblocks m). block_is_free m' j \<longleftrightarrow>
              block_is_free m j \<and> j \<noteq> unat (oi_direct m' oi ?n))"
    using slots [of ?n] new [of ?n] take_back_free [OF ex ct nb n10 sh] df1 S by (simp add: direct_file_def nb)
  ultimately show ?thesis
    using size old inodes data keep by (intro exI [of _ m']) simp
qed

text \<open>A disk with the layout of \<open>small_disk\<close> on which only the blocks 5 and 6 are free.\<close>

definition tight_disk :: mem where
  "tight_disk = wr32 small_disk 2048 0x60"

lemma tight_disk_rd32 [simp]:
  "os_nblocks tight_disk = 16" "os_ninodes tight_disk = 16" "os_firstinob tight_disk = 3"
  "rd32 tight_disk 2048 = 0x60" "2052 \<le> a \<Longrightarrow> rd32 tight_disk a = 0"
  by (simp_all add: tight_disk_def rd32_wr32_other)

lemma tight_disk_free: "i < 32 \<Longrightarrow> block_is_free tight_disk i \<longleftrightarrow> bit (0x60 :: u32) i"
  by (simp add: bitvector_test_bit)

lemma tight_disk_facts:
  "wf_disk tight_disk" "direct_file tight_disk 3136" "clean_tail tight_disk 3136"
  "free_count tight_disk = 2" "nblk tight_disk 3136 = 0"
proof -
  have ds: "data_start tight_disk = 4" by (simp add: data_start_def)
  have "\<not> block_is_free tight_disk i" if "2 \<le> i" "i < 4" for i
  proof -
    have "i = 2 \<or> i = 3" using that by linarith
    then show ?thesis by (auto simp: tight_disk_free)
  qed
  then show "wf_disk tight_disk" by (simp add: wf_disk_def wf_layout_def ds)
  have "inode_addr tight_disk 3136"
    unfolding inode_addr_def by (rule exI [of _ 1]) simp
  then show "direct_file tight_disk 3136" by (simp add: direct_file_def nblk_def)
  show "clean_tail tight_disk 3136" by (simp add: clean_tail_def)
  show "free_count tight_disk = 2" by (simp add: free_count_def upt_rec tight_disk_free)
  show "nblk tight_disk 3136 = 0" by (simp add: nblk_def)
qed

theorem change_size_enospc_witness:
  "\<exists>m'. change_size tight_disk 3136 3000 = Some (Inl ENOSPC, m') \<and> rd32 m' 3136 = 0
    \<and> block_is_free tight_disk (unat (rd32 m' 3152)) \<and> \<not> block_is_free m' (unat (rd32 m' 3152))"
proof -
  obtain m' where "change_size tight_disk 3136 3000 = Some (Inl ENOSPC, m')" "rd32 m' 3136 = 0"
    "block_is_free tight_disk (unat (rd32 m' 3152))" "unat (rd32 m' 3152) < 16"
    "\<And>j. j < 16 \<Longrightarrow> block_is_free m' j \<longleftrightarrow> block_is_free tight_disk j \<and> j \<noteq> unat (rd32 m' 3152)"
    using change_size_enospc [OF tight_disk_facts(1-3), of 3000] tight_disk_facts(4,5) by auto
  then show ?thesis by blast
qed

section \<open>Shrinking\<close>

lemma shrink_loop:
  assumes "wf_layout m" "inode_addr m oi" "valid_slots m oi" "nblocks m oi < 10"
    and "unat (ospfs_size2nblocks new) \<le> nblocks m oi"
  shows "r \<le> nblocks m oi - unat (ospfs_size2nblocks new) \<Longrightarrow>
    change_size_shrink (remove_blocks m oi r) oi new =
      Some (Inr (), remove_blocks m oi (nblocks m oi - unat (ospfs_size2nblocks new)))"
proof (induction "nblocks m oi - unat (ospfs_size2nblocks new) - r" arbitrary: r)
  case 0
  then have r: "r = nblocks m oi - unat (ospfs_size2nblocks new)" by simp
  then have "nblocks (remove_blocks m oi r) oi = unat (ospfs_size2nblocks new)"
    using shrunk_nblocks [OF remove_blocks_shrunk [OF assms(1-4), of r]] assms(5) by simp
  then show ?case
    using r by (subst change_size_shrink.simps) (simp add: nblocks_def word_less_nat_alt)
next
  case (Suc d)
  have sh: "shrunk m oi r (remove_blocks m oi r)"
    by (rule remove_blocks_shrunk [OF assms(1-4)]) (use Suc in simp)
  have r: "r < nblocks m oi" using Suc.hyps(2) by simp
  have "unat (ospfs_size2nblocks new) < nblocks (remove_blocks m oi r) oi"
    using shrunk_nblocks [OF sh] r Suc.hyps(2) by simp
  then have lt: "ospfs_size2nblocks new < ospfs_size2nblocks (oi_size (remove_blocks m oi r) oi)"
    by (simp add: nblocks_def word_less_nat_alt)
  obtain m2 where m2: "remove_block (remove_blocks m oi r) oi = (Inr (), m2)"
    using shrunk_step(1) [OF assms(1-4) sh r] by (metis prod.collapse)
  have "change_size_shrink (remove_blocks m oi r) oi new
      = change_size_shrink (remove_blocks m oi (Suc r)) oi new"
    using lt m2 by (subst change_size_shrink.simps) (simp only: remove_blocks_Suc, simp)
  then show ?case using Suc.hyps(1) [of "Suc r"] Suc.hyps(2) by simp
qed

text \<open>Storing a size changes nothing but that inode.\<close>

lemma size_frame:
  assumes L: "wf_layout m" and oi: "inode_addr m oi"
  shows "inode_addr m oi' \<Longrightarrow> oi' \<noteq> oi \<Longrightarrow> inode_at (wr32 m1 oi s) oi' = inode_at m1 oi'"
    "j < unat (os_nblocks m) \<Longrightarrow> block_is_free (wr32 m1 oi s) j = block_is_free m1 j"
    "data_start m * 1024 \<le> a \<Longrightarrow> wr32 m1 oi s a = m1 a" "oi_direct (wr32 m1 oi s) oi k = oi_direct m1 oi k"
proof -
  note IB = inode_bounds [OF L oi]
  have out: "wr32 m1 oi s a = m1 a" if "a < oi \<or> oi + 64 \<le> a" for a using that by (auto simp: wr32_apply_other)
  show "inode_addr m oi' \<Longrightarrow> oi' \<noteq> oi \<Longrightarrow> inode_at (wr32 m1 oi s) oi' = inode_at m1 oi'"
    by (rule inode_at_cong) (use inode_disjoint [OF oi, of oi'] out in auto)
  show "j < unat (os_nblocks m) \<Longrightarrow> block_is_free (wr32 m1 oi s) j = block_is_free m1 j"
    by (rule free_frame [OF L]) (use out IB in auto)
  show "data_start m * 1024 \<le> a \<Longrightarrow> wr32 m1 oi s a = m1 a" using out IB by simp
  show "oi_direct (wr32 m1 oi s) oi k = oi_direct m1 oi k" by (simp add: rd32_wr32_other)
qed

text \<open>C27: Shrinking a file of at most nine blocks succeeds, terminates and sets the size, but the
  blocks it frees are the ones after the first block that should go: with \<open>k\<close> blocks kept out of
  \<open>n\<close>, the blocks \<open>k + 1\<close> to \<open>n - 1\<close> become free, while block \<open>k\<close> stays marked in use and in its
  slot although it is no longer part of the file.\<close>

theorem change_size_shrinks:
  assumes "wf_disk m" "direct_file m oi" "clean_tail m oi" "nblk m oi < 10"
    and "unat new_size \<le> unat (oi_size m oi)" and "k = (unat new_size + 1023) div 1024"
  shows "\<exists>m'. change_size m oi new_size = Some (Inr (), m') \<and> oi_size m' oi = new_size
    \<and> (\<forall>j < unat (os_nblocks m). block_is_free m' j \<longleftrightarrow>
         block_is_free m j \<or> (\<exists>i. k < i \<and> i < nblk m oi \<and> j = unat (oi_direct m oi i)))
    \<and> (k < nblk m oi \<longrightarrow> oi_direct m' oi k = oi_direct m oi k
         \<and> \<not> block_is_free m' (unat (oi_direct m oi k)))
    \<and> (\<forall>oi'. inode_addr m oi' \<and> oi' \<noteq> oi \<longrightarrow> inode_at m' oi' = inode_at m oi')
    \<and> (\<forall>a \<ge> data_start m * 1024. m' a = m a)"
proof -
  note L = wf_disk_layout [OF assms(1)] and nbs = direct_file_nblocks [OF assms(2)]
  have oi: "inode_addr m oi" and sz: "unat (oi_size m oi) \<le> 10240"
    using assms(2) by (auto simp: direct_file_def)
  have v: "valid_slots m oi"
    by (rule direct_file_valid_slots [OF L assms(2)]) (use assms(3) in \<open>simp add: clean_tail_def\<close>)
  have k: "unat (ospfs_size2nblocks new_size) = k"
    using assms(5,6) sz by (simp add: unat_size2nblocks)
  have kn: "k \<le> nblk m oi" unfolding assms(6) nblk_def by (rule div_le_mono) (use assms(5) in simp)
  have n10: "nblocks m oi < 10" using nbs assms(4) by simp
  let ?r = "nblk m oi - k"
  define m1 where "m1 = remove_blocks m oi ?r"
  let ?m' = "wr32 m1 oi new_size"
  have sh: "shrunk m oi ?r m1"
    unfolding m1_def by (rule remove_blocks_shrunk [OF L oi v n10]) (simp add: nbs)
  note F = size_frame [OF L oi, where ?m1.0 = m1 and s = new_size]
  have grow: "change_size_grow m oi new_size 0 = Some (Inr (), m)"
    using kn k nbs by (subst change_size_grow.simps) (simp add: word_less_nat_alt nblocks_def)
  have "change_size_shrink m oi new_size = Some (Inr (), m1)"
    using shrink_loop [OF L oi v n10, of new_size 0] kn k by (simp add: nbs m1_def)
  then have cs: "change_size m oi new_size = Some (Inr (), ?m')"
    using grow by (simp add: change_size_def split: unit.split)
  have free: "block_is_free ?m' j \<longleftrightarrow>
      block_is_free m j \<or> (\<exists>i. k < i \<and> i < nblk m oi \<and> j = unat (oi_direct m oi i))"
    if j: "j < unat (os_nblocks m)" for j
    using shrunk_free [OF assms(1-4) sh j] F(2) [OF j] kn by simp
  have kept: "oi_direct ?m' oi k = oi_direct m oi k \<and> \<not> block_is_free ?m' (unat (oi_direct m oi k))"
    if kl: "k < nblk m oi"
  proof
    have "\<forall>j < 10. oi_direct m1 oi j =
        (if nblk m oi - ?r < j \<and> j \<le> nblk m oi then 0 else oi_direct m oi j)"
      using sh unfolding shrunk_def nbs by blast
    then show "oi_direct ?m' oi k = oi_direct m oi k" using kl assms(4) kn by (simp add: F(4))
    have b: "unat (oi_direct m oi k) < unat (os_nblocks m)"
        "\<not> block_is_free m (unat (oi_direct m oi k))"
      using assms(2) kl by (simp_all add: direct_file_def)
    have "oi_direct m oi i \<noteq> oi_direct m oi k" if "k < i" "i < nblk m oi" for i
      using assms(2) kl that unfolding direct_file_def by simp
    then show "\<not> block_is_free ?m' (unat (oi_direct m oi k))"
      using free [OF b(1)] b(2) by (auto simp: word_unat_eq_iff)
  qed
  have "inode_at ?m' oi' = inode_at m oi'" if "inode_addr m oi'" "oi' \<noteq> oi" for oi'
    using F(1) [OF that] sh that by (simp add: shrunk_def)
  moreover have "?m' a = m a" if "data_start m * 1024 \<le> a" for a
    using that sh F(3) by (simp add: shrunk_def)
  ultimately show ?thesis
    using cs free kept by (intro exI [of _ ?m']) simp
qed

definition two_block_disk :: mem where
  "two_block_disk = wr32 (wr32 (wr32 tight_disk 3136 2048) 3152 7) 3156 8"

lemma two_block_disk_rd32 [simp]:
  "os_nblocks two_block_disk = 16" "os_ninodes two_block_disk = 16" "os_firstinob two_block_disk = 3"
  "rd32 two_block_disk 2048 = 0x60" "rd32 two_block_disk 3136 = 2048" "rd32 two_block_disk 3140 = 0"
  "rd32 two_block_disk 3152 = 7" "rd32 two_block_disk 3156 = 8"
  "3160 \<le> a \<Longrightarrow> rd32 two_block_disk a = 0"
  by (simp_all add: two_block_disk_def rd32_wr32_other)

lemma two_block_disk_free: "i < 32 \<Longrightarrow> block_is_free two_block_disk i \<longleftrightarrow> bit (0x60 :: u32) i"
  by (simp add: bitvector_test_bit)

lemma two_block_disk_facts:
  "wf_disk two_block_disk" "direct_file two_block_disk 3136" "clean_tail two_block_disk 3136"
  "nblk two_block_disk 3136 = 2"
proof -
  have ds: "data_start two_block_disk = 4" by (simp add: data_start_def)
  have "\<not> block_is_free two_block_disk i" if "2 \<le> i" "i < 4" for i
  proof -
    have "i = 2 \<or> i = 3" using that by linarith
    then show ?thesis by (auto simp: two_block_disk_free)
  qed
  then show "wf_disk two_block_disk" by (simp add: wf_disk_def wf_layout_def ds)
  have "inode_addr two_block_disk 3136"
    unfolding inode_addr_def by (rule exI [of _ 1]) simp
  moreover have k: "k = 0 \<or> k = 1" if "k < 2" for k :: nat using that by linarith
  ultimately show "direct_file two_block_disk 3136"
    by (auto simp: direct_file_def nblk_def ds two_block_disk_free dest!: k)
  show "clean_tail two_block_disk 3136" by (simp add: clean_tail_def nblk_def)
  show "nblk two_block_disk 3136 = 2" by (simp add: nblk_def)
qed

theorem change_size_shrinks_witness:
  "\<exists>m'. change_size two_block_disk 3136 0 = Some (Inr (), m')
    \<and> block_is_free m' 8 \<and> \<not> block_is_free m' 7 \<and> rd32 m' 3152 = 7"
proof -
  obtain m' where m': "change_size two_block_disk 3136 0 = Some (Inr (), m')"
    "\<forall>j < 16. block_is_free m' j \<longleftrightarrow> block_is_free two_block_disk j
        \<or> (\<exists>i. 0 < i \<and> i < 2 \<and> j = unat (oi_direct two_block_disk 3136 i))"
    "rd32 m' 3152 = 7" "\<not> block_is_free m' 7"
    using change_size_shrinks [OF two_block_disk_facts(1-3), of 0 0] two_block_disk_facts(4) by auto
  have "block_is_free m' 8" using m'(2) by (auto intro!: exI [of _ 1])
  with m' show ?thesis by blast
qed

section \<open>At the edges of the direct and the indirect range\<close>

text \<open>Removing a block from a file of exactly ten blocks, which has no indirect block, does
  not touch the file's tenth block: the index it uses belongs to the indirect range, the missing
  indirect block is taken to be block 0, and the first word of the boot sector is overwritten
  with zero.\<close>

lemma remove_block_tenth:
  assumes "nblocks m oi = 10" "oi_indirect m oi = 0"
    and "rd32 m 0 < os_firstinob m" "4 \<le> oi"
  shows "remove_block m oi =
    (Inr (), wr32 (wr32 (wr32 m 0 0) (oi + 56) 0) oi (oi_size m oi - OSPFS_BLKSIZE))"
proof -
  let ?n = "ospfs_size2nblocks (oi_size m oi)"
  have "?n = 10" using assms(1) by (simp add: nblocks_def word_unat_eq_iff)
  moreover have "indir2_index 10 = -1" "indir_index 10 = 0" "direct_index 10 = 0"
    by (simp_all add: indir2_index_def indir_index_def direct_index_def)
  moreover have "ospfs_block 0 = 0" by (simp add: ospfs_block_def)
  ultimately show ?thesis
    using assms by (simp add: remove_block_def remove_indirect_def free_block_reserved
        rd32_wr32_other)
qed

lemma remove_block_tenth_witness:
  "remove_block (wr32 small_disk 3136 10240) 3136 =
    (Inr (), wr32 (wr32 (wr32 (wr32 small_disk 3136 10240) 0 0) 3192 0) 3136 9216)"
proof -
  have "nblocks (wr32 small_disk 3136 10240) 3136 = 10"
    by (simp add: nblocks_def unat_size2nblocks)
  moreover have "rd32 (wr32 small_disk 3136 10240) 0 = 0"
    by (simp add: rd32_wr32_other small_disk_def) (simp add: rd32_def)
  ultimately show ?thesis
    using remove_block_tenth [of "wr32 small_disk 3136 10240" 3136]
    by (simp add: rd32_wr32_other)
qed

text \<open>When \<open>add_block\<close> has to allocate a new indirect block below the doubly indirect block,
  it never stores the new block's number there: the pointer stays 0, so that every later access
  to this file block goes to block 0 of the disk instead.\<close>

lemma new_indirect_block_unlinked:
  assumes wf: "wf_disk m" and oi: "inode_addr m oi"
    and i2: "data_start m \<le> unat (oi_indirect2 m oi)" "unat (oi_indirect2 m oi) < unat (os_nblocks m)"
      "\<not> block_is_free m (unat (oi_indirect2 m oi))"
    and n: "indir2_index n = 0" "indir_index n < 256"
    and zero: "rd32 m (ospfs_block (oi_indirect2 m oi) + 4 * nat (indir_index n)) = 0"
    and room: "fst (allocate_block m) \<noteq> 0"
  shows "\<exists>m'. add_indirect2 m oi n new_block = (Inr (), m')
    \<and> rd32 m' (ospfs_block (oi_indirect2 m' oi) + 4 * nat (indir_index n)) = 0
    \<and> slot_addr m' oi n = 4 * nat (direct_index n)"
proof -
  note L = wf_disk_layout [OF wf]
  note IB = inode_bounds [OF L oi] and WD = wf_layoutD [OF L]
  obtain a m1 where alloc: "allocate_block m = (a, m1)" by fastforce
  with room have "a \<noteq> 0" by simp
  with alloc have f: "2 \<le> unat a" "unat a < unat (os_nblocks m)" "block_is_free m (unat a)"
    "m1 = bitvector_clear m 2048 (unat a)"
    by (auto elim: allocate_block_cases)
  have a: "data_start m \<le> unat a" "unat a \<noteq> unat (oi_indirect2 m oi)"
    using free_is_data [OF wf f(1,3)] f(3) i2(3) by auto
  let ?i2 = "unat (oi_indirect2 m oi) * 1024" and ?s = "4 * nat (indir_index n)"
  have blk: "ospfs_block (oi_indirect2 m oi) = ?i2" "ospfs_block a = unat a * 1024"
    by (rule block_addr [OF L i2(2)], rule block_addr [OF L f(2)])
  have s: "?s + 4 \<le> 1024" using n(2) by auto
  have d: "4 * nat (direct_index n) + 4 \<le> 1024"
  proof -
    have "direct_index n < 256"
      unfolding direct_index_def
      by (simp add: uint_mod_distrib) (use word_less_def [of n 10] in auto)
    then show ?thesis by auto
  qed
  let ?m3 = "wr32 (mem_fill m1 (unat a * 1024) 0 1024) (unat a * 1024 + 4 * nat (direct_index n)) new_block"
  have away: "rd32 ?m3 x = rd32 m x"
    if "unat (os_firstinob m) * 1024 \<le> x" "x + 4 \<le> unat a * 1024 \<or> unat a * 1024 + 1024 \<le> x" for x
    using that d by (auto simp: rd32_wr32_other rd32_mem_fill_other f(4) clear_frame32 [OF L f(2)])
  have ne: "oi_indirect2 m oi \<noteq> 0" using i2(1) WD(1,2) by auto
  have r1: "rd32 m1 (?i2 + ?s) = 0"
    using zero i2(1) WD(2) by (simp add: blk f(4) clear_frame32 [OF L f(2)])
  have eq: "add_indirect2 m oi n new_block = (Inr (), ?m3)"
    using ne zero alloc \<open>a \<noteq> 0\<close>
    by (simp add: add_indirect2_def add_indirect2_store_def Let_def blk)
  have p2: "oi_indirect2 ?m3 oi = oi_indirect2 m oi"
    by (rule away) (use IB a(1) in auto)
  have "?i2 + ?s + 4 \<le> unat a * 1024 \<or> unat a * 1024 + 1024 \<le> ?i2 + ?s"
    using a(2) s by (cases "unat (oi_indirect2 m oi) < unat a") auto
  then have r3: "rd32 ?m3 (?i2 + ?s) = 0"
    using away [of "?i2 + ?s"] zero i2(1) WD(2) by (simp add: blk)
  have "ospfs_block 0 = 0" by (simp add: ospfs_block_def)
  with r3 p2 n(1) have "slot_addr ?m3 oi n = 4 * nat (direct_index n)"
    by (simp add: slot_addr_def blk)
  with eq r3 p2 show ?thesis by (simp add: blk)
qed

lemma new_indirect_block_unlinked_witness:
  "\<exists>m'. add_indirect2 (wr32 small_disk 3196 4) 3136 266 9 = (Inr (), m')
    \<and> slot_addr m' 3136 266 = 0"
proof -
  let ?m = "wr32 small_disk 3196 4"
  have r [simp]: "os_nblocks ?m = 16" "os_ninodes ?m = 16" "os_firstinob ?m = 3"
    "rd32 ?m 2048 = 0xFFE0" "rd32 ?m 3196 = 4" "rd32 ?m 4096 = 0"
    by (simp_all add: rd32_wr32_other)
  have fr: "block_is_free ?m i \<longleftrightarrow> bit (0xFFE0 :: u32) i" if "i < 32" for i
    using that by (simp add: bitvector_test_bit)
  have ds: "data_start ?m = 4" by (simp add: data_start_def)
  have "\<not> block_is_free ?m i" if "2 \<le> i" "i < 4" for i
  proof -
    have "i = 2 \<or> i = 3" using that by linarith
    then show ?thesis by (auto simp: fr)
  qed
  then have wf: "wf_disk ?m" by (simp add: wf_disk_def wf_layout_def ds)
  have oi: "inode_addr ?m 3136" unfolding inode_addr_def by (rule exI [of _ 1]) simp
  have idx: "indir2_index 266 = 0" "indir_index 266 = 0" "direct_index 266 = 0"
    by (simp_all add: indir2_index_def indir_index_def direct_index_def)
  have "fst (allocate_block ?m) \<noteq> 0"
    by (simp add: allocate_block_def allocate_scan.simps fr)
  then show ?thesis
    using new_indirect_block_unlinked [OF wf oi, of 266 9]
    by (simp add: ds fr idx ospfs_block_def) blast
qed

end
