(* ===== verification/OspfsIO.thy ===== *)
theory OspfsIO
  imports OspfsShrink
begin

text \<open>
  Reading and writing files: \<open>ospfs_read\<close> delivers the bytes of the file, \<open>ospfs_write\<close> replaces
  them, growing the file first when it has to, and what was written is what is read back.
\<close>

section \<open>The bytes of a file\<close>

definition file_byte :: "mem \<Rightarrow> nat \<Rightarrow> nat \<Rightarrow> u8" where
  "file_byte m oi q = m (ospfs_inode_data m oi (of_nat q))"

definition file_bytes :: "mem \<Rightarrow> nat \<Rightarrow> nat \<Rightarrow> nat \<Rightarrow> u8 list" where
  "file_bytes m oi p n = map (file_byte m oi) [p..<p + n]"

lemma length_file_bytes [simp]: "length (file_bytes m oi p n) = n"
  by (simp add: file_bytes_def)

lemma file_bytes_add: "file_bytes m oi p (a + b) = file_bytes m oi p a @ file_bytes m oi (p + a) b"
  using upt_add_eq_append [of p "p + a" b] by (simp add: file_bytes_def add.assoc)

lemma inode_blockno_same_block:
  assumes "i div 1024 = j div 1024" "i < oi_size m oi" "j < oi_size m oi"
  shows "ospfs_inode_blockno m oi i = ospfs_inode_blockno m oi j"
proof -
  have "(oi_size m oi \<le> i) = (oi_size m oi \<le> j)" using assms(2,3) leD by blast
  then show ?thesis unfolding ospfs_inode_blockno_def Let_def assms(1) by (simp only:)
qed

lemma unat_of_nat_lt: "q < unat (x :: u32) \<Longrightarrow> unat (of_nat q :: u32) = q"
  using unat_u32_less [of x] by simp

lemma file_bytes_chunk:
  assumes "p + n \<le> unat (oi_size m oi)" "p mod 1024 + n \<le> 1024"
  shows "file_bytes m oi p n =
    mem_read m (ospfs_block (ospfs_inode_blockno m oi (of_nat p)) + p mod 1024) n"
proof (rule nth_equalityI)
  show "length (file_bytes m oi p n) =
      length (mem_read m (ospfs_block (ospfs_inode_blockno m oi (of_nat p)) + p mod 1024) n)"
    by (simp add: file_bytes_def)
  fix i assume "i < length (file_bytes m oi p n)"
  then have i: "i < n" by (simp add: file_bytes_def)
  have u: "unat (of_nat p :: u32) = p" "unat (of_nat (p + i) :: u32) = p + i"
    using assms(1) i by (intro unat_of_nat_lt [of _ "oi_size m oi"]; simp)+
  have m: "(p + i) mod 1024 = p mod 1024 + i"
  proof -
    have "p mod 1024 + i < 1024" using assms(2) i by linarith
    then show ?thesis using mod_add_left_eq [of p 1024 i] by (metis mod_less)
  qed
  then have d: "(p + i) div 1024 = p div 1024"
    using div_mult_mod_eq [of "p + i" 1024] div_mult_mod_eq [of p 1024] by linarith
  have K: "unat (1024 :: u32) = 1024" by simp
  have "ospfs_inode_blockno m oi (of_nat (p + i)) = ospfs_inode_blockno m oi (of_nat p)"
  proof (rule inode_blockno_same_block)
    show "(of_nat (p + i) :: u32) div 1024 = of_nat p div 1024"
      unfolding word_unat_eq_iff unat_div_distrib u K d by (rule refl)
    show "of_nat (p + i) < oi_size m oi" "of_nat p < oi_size m oi"
      unfolding word_less_nat_alt u using assms(1) i by simp_all
  qed
  then have "file_byte m oi (p + i) =
      m (ospfs_block (ospfs_inode_blockno m oi (of_nat p)) + p mod 1024 + i)"
    using u(2) m by (simp add: file_byte_def ospfs_inode_data_def unat_mod_distrib add.assoc del: of_nat_add)
  then show "file_bytes m oi p n ! i =
      mem_read m (ospfs_block (ospfs_inode_blockno m oi (of_nat p)) + p mod 1024) n ! i"
    using i by (simp add: file_bytes_def)
qed

lemma nat_int_mod: "nat (int p mod 1024) = p mod 1024"
  by (simp add: nat_mod_as_int)

lemma chunk_fits: "p mod 1024 + chunk (p mod 1024) r \<le> 1024"
proof -
  have "p mod 1024 < 1024" by simp
  then show ?thesis unfolding chunk_def by (split if_split) linarith
qed

section \<open>Reading\<close>

abbreviation no_fault :: "nat \<Rightarrow> nat \<Rightarrow> 'a option" where
  "no_fault \<equiv> \<lambda>_ _. None"

lemma read_loop:
  assumes "p + (count - length out) \<le> unat (oi_size m oi)" "length out \<le> count"
    and "\<forall>q. p \<le> q \<and> q < p + (count - length out) \<longrightarrow> ospfs_inode_blockno m oi (of_nat q) \<noteq> 0"
  shows "ospfs_read_loop no_fault m oi count (int p) out =
    (Inr count, out @ file_bytes m oi p (count - length out), int (p + (count - length out)))"
  using assms
proof (induction "count - length out" arbitrary: p out rule: less_induct)
  case less
  show ?case
  proof (cases "length out < count")
    case False
    then show ?thesis
      using less.prems(2) by (simp add: ospfs_read_loop.simps file_bytes_def)
  next
    case True
    let ?r = "count - length out"
    define n where "n = chunk (p mod 1024) ?r"
    have n: "0 < n" "n \<le> ?r" "p mod 1024 + n \<le> 1024"
      using True chunk_pos [of "p mod 1024" ?r] chunk_le [of "p mod 1024" ?r] chunk_fits [of p ?r]
      by (auto simp: n_def)
    have b: "ospfs_inode_blockno m oi (of_nat p) \<noteq> 0" using less.prems(3) True by simp
    let ?new = "mem_read m (ospfs_block (ospfs_inode_blockno m oi (of_nat p)) + p mod 1024) n"
    have new: "?new = file_bytes m oi p n"
      by (rule file_bytes_chunk [symmetric]) (use less.prems(1) n in auto)
    have step: "ospfs_read_loop no_fault m oi count (int p) out
        = ospfs_read_loop no_fault m oi count (int (p + n)) (out @ ?new)"
      using True b by (subst ospfs_read_loop.simps) (simp add: Let_def nat_int_mod n_def)
    have "ospfs_read_loop no_fault m oi count (int (p + n)) (out @ ?new)
      = (Inr count, (out @ ?new) @ file_bytes m oi (p + n) (count - length (out @ ?new)),
         int (p + n + (count - length (out @ ?new))))"
      by (rule less.hyps) (use less.prems n in auto)
    moreover have "file_bytes m oi p ?r = file_bytes m oi p n @ file_bytes m oi (p + n) (?r - n)"
      using file_bytes_add [of m oi p n "?r - n"] n by simp
    moreover have "p + n + (?r - n) = p + ?r" using n(2) by simp
    ultimately show ?thesis using step new by (simp add: diff_diff_eq)
  qed
qed

lemma of_int_diff_word:
  assumes "p \<le> unat (x :: u32)"
  shows "unat (word_of_int (uint x - int p) :: u32) = unat x - p"
proof -
  have "uint x - int p = int (unat x - p)" using assms by (simp add: of_nat_diff)
  moreover have "unat (of_nat (unat x - p) :: u32) = unat x - p"
    using unat_u32_less [of x] by simp
  ultimately show ?thesis by simp
qed

lemma read_count:
  assumes "p \<le> unat (sz :: u32)"
  shows "unat (if uint count + int p > uint sz then word_of_int (uint sz - int p) else count :: u32)
    = min (unat count) (unat sz - p)"
proof (cases "unat count + p > unat sz")
  case True
  then have "uint count + int p > uint sz" unfolding uint_nat by linarith
  then show ?thesis using of_int_diff_word [OF assms] True by simp
next
  case False
  then have "\<not> uint count + int p > uint sz" unfolding uint_nat by linarith
  then show ?thesis using False assms by simp
qed

text \<open>C30: Reading at a position up to the end of a file whose blocks all exist returns, as one
  sequence, the file's bytes from that position on, cut off at the end of the file, and
  advances the position by as much.\<close>

theorem ospfs_read_returns_file_bytes:
  assumes "ospfs_inode m ino = Some oi" and "p \<le> unat (oi_size m oi)"
    and "n = min (unat count) (unat (oi_size m oi) - p)"
    and "\<forall>q. p \<le> q \<and> q < p + n \<longrightarrow> ospfs_inode_blockno m oi (of_nat q) \<noteq> 0"
  shows "ospfs_read no_fault m ino count (int p) =
    Some (Inr n, file_bytes m oi p n, int (p + n))"
proof -
  let ?c = "if uint count + int p > uint (oi_size m oi)
            then word_of_int (uint (oi_size m oi) - int p) else count"
  have c: "unat ?c = n" using read_count [OF assms(2)] assms(3) by simp
  then have "ospfs_read_loop no_fault m oi (unat ?c) (int p) [] = (Inr n, file_bytes m oi p n, int (p + n))"
    using read_loop [of p n "[]" m oi] assms by (simp add: c)
  then show ?thesis using assms(1) by (simp add: ospfs_read_def Let_def)
qed

section \<open>Files in direct blocks\<close>

definition direct_addr :: "mem \<Rightarrow> nat \<Rightarrow> nat \<Rightarrow> nat" where
  "direct_addr m oi q = unat (oi_direct m oi (q div 1024)) * 1024 + q mod 1024"

lemma div_less_nblk: "q < unat (oi_size m oi) \<Longrightarrow> q div 1024 < nblk m oi"
  using div_le_mono [of "q + 1024" "unat (oi_size m oi) + 1023" 1024] by (simp add: nblk_def)

lemma direct_blockno:
  assumes "direct_file m oi" "q < unat (oi_size m oi)"
  shows "ospfs_inode_blockno m oi (of_nat q) = oi_direct m oi (q div 1024)"
proof -
  have u: "unat (of_nat q :: u32) = q" by (rule unat_of_nat_lt [OF assms(2)])
  have ge: "\<not> oi_size m oi \<le> of_nat q" unfolding word_le_nat_alt u using assms(2) by simp
  have ft: "oi_ftype m oi \<noteq> 2" using assms(1) by (simp add: direct_file_def)
  have K: "unat (1024 :: u32) = 1024" by simp
  have d: "unat ((of_nat q :: u32) div 1024) = q div 1024" unfolding unat_div_distrib u K by (rule refl)
  have l10: "q div 1024 < 10"
    using div_less_nblk [OF assms(2)] direct_file_nblk [OF assms(1)] by linarith
  have n: "\<not> (10 :: u32) + 256 \<le> of_nat q div 1024" "\<not> (10 :: u32) \<le> of_nat q div 1024"
    unfolding word_le_nat_alt d using l10 by simp_all
  show ?thesis
    unfolding ospfs_inode_blockno_def Let_def using ge ft n by (simp only: if_False disj_not1 d)  simp
qed

lemma direct_block_facts:
  assumes "wf_layout m" "direct_file m oi" "q < unat (oi_size m oi)"
  shows "ospfs_inode_blockno m oi (of_nat q) \<noteq> 0"
    "ospfs_block (ospfs_inode_blockno m oi (of_nat q)) + q mod 1024 = direct_addr m oi q"
    "data_start m * 1024 \<le> direct_addr m oi q"
    "direct_addr m oi q div 1024 = unat (oi_direct m oi (q div 1024))"
    "\<not> block_is_free m (direct_addr m oi q div 1024)"
proof -
  have k: "q div 1024 < nblk m oi" by (rule div_less_nblk [OF assms(3)])
  then have b: "data_start m \<le> unat (oi_direct m oi (q div 1024))"
    "unat (oi_direct m oi (q div 1024)) < unat (os_nblocks m)"
    "\<not> block_is_free m (unat (oi_direct m oi (q div 1024)))"
    using assms(2) by (simp_all add: direct_file_def)
  note bn = direct_blockno [OF assms(2,3)]
  show "ospfs_inode_blockno m oi (of_nat q) \<noteq> 0"
    using b(1) wf_layoutD [OF assms(1)] bn by auto
  show "ospfs_block (ospfs_inode_blockno m oi (of_nat q)) + q mod 1024 = direct_addr m oi q"
    using bn block_addr [OF assms(1) b(2)] by (simp add: direct_addr_def)
  show "data_start m * 1024 \<le> direct_addr m oi q"
    using b(1) by (simp add: direct_addr_def)
  show d: "direct_addr m oi q div 1024 = unat (oi_direct m oi (q div 1024))"
    by (simp add: direct_addr_def)
  show "\<not> block_is_free m (direct_addr m oi q div 1024)" unfolding d by (rule b(3))
qed

lemma file_byte_direct:
  assumes "wf_layout m" "direct_file m oi" "q < unat (oi_size m oi)"
  shows "file_byte m oi q = m (direct_addr m oi q)"
proof -
  have "unat (of_nat q mod 1024 :: u32) = q mod 1024"
    unfolding unat_mod_distrib unat_of_nat_lt [OF assms(3)] by simp
  then show ?thesis
    using direct_block_facts(2) [OF assms] by (simp add: file_byte_def ospfs_inode_data_def)
qed

lemma direct_addr_inj:
  assumes "direct_file m oi" "q < unat (oi_size m oi)" "q' < unat (oi_size m oi)"
    "direct_addr m oi q = direct_addr m oi q'"
  shows "q = q'"
proof -
  have "direct_addr m oi q mod 1024 = direct_addr m oi q' mod 1024"
    "direct_addr m oi q div 1024 = direct_addr m oi q' div 1024"
    using assms(4) by simp_all
  then have "q mod 1024 = q' mod 1024" "oi_direct m oi (q div 1024) = oi_direct m oi (q' div 1024)"
    by (simp_all add: direct_addr_def word_unat_eq_iff)
  moreover have "q div 1024 = q' div 1024"
    using calculation(2) div_less_nblk [OF assms(2)] div_less_nblk [OF assms(3)] assms(1)
    by (auto simp: direct_file_def)
  ultimately show ?thesis by (metis div_mult_mod_eq)
qed

theorem ospfs_read_returns_file_bytes_witness:
  "ospfs_read no_fault two_block_disk 1 3000 1000 =
    Some (Inr 1048, file_bytes two_block_disk 3136 1000 1048, 2048)"
proof -
  have "ospfs_inode two_block_disk 1 = Some 3136"
    by (simp add: ospfs_inode_def ospfs_block_def word_le_nat_alt)
  moreover have "\<forall>q. 1000 \<le> q \<and> q < 1000 + 1048 \<longrightarrow> ospfs_inode_blockno two_block_disk 3136 (of_nat q) \<noteq> 0"
    using direct_block_facts(1) [OF wf_disk_layout [OF two_block_disk_facts(1)] two_block_disk_facts(2)]
    by simp
  ultimately show ?thesis
    using ospfs_read_returns_file_bytes [of two_block_disk 1 3136 1000 1048 3000] by simp
qed

text \<open>Reading at a position beyond the end of the file does not return 0 bytes: the number
  of bytes left wraps around to a huge count, and the first block lookup fails with \<open>EIO\<close>.\<close>

lemma ospfs_read_past_end:
  assumes "ospfs_inode m ino = Some oi" "unat (oi_size m oi) < p" "p < 2 ^ 32"
  shows "ospfs_read to_user m ino count (int p) = Some (Inl EIO, [], int p)"
proof -
  have past: "uint count + int p > uint (oi_size m oi)"
    using assms(2) uint_ge_0 [of count] unfolding uint_nat [of "oi_size m oi"] by linarith
  let ?c = "word_of_int (uint (oi_size m oi) - int p) :: u32"
  have "int p < 2 ^ 32" using assms(3) by simp
  then have "uint (oi_size m oi) - int p < 0" "- (2 ^ 32) < uint (oi_size m oi) - int p"
    using assms(2,3) unfolding uint_nat [of "oi_size m oi"] by linarith+
  then have "(uint (oi_size m oi) - int p) mod 2 ^ 32 \<noteq> 0"
    using zdvd_not_zless [of "- (uint (oi_size m oi) - int p)" "2 ^ 32"]
    by (auto simp: mod_eq_0_iff_dvd)
  then have "uint ?c \<noteq> 0" unfolding uint_word_of_int by simp
  then have "?c \<noteq> 0" by (metis uint_0_eq)
  then have c: "0 < unat ?c" by (simp add: unat_gt_0)
  have "unat (of_nat p :: u32) = p" using assms(3) by (simp add: unat_of_nat_u32)
  then have "oi_size m oi \<le> of_nat p" using assms(2) by (simp add: word_le_nat_alt)
  then have "ospfs_inode_blockno m oi (of_nat p) = 0" by (simp add: ospfs_inode_blockno_def)
  then show ?thesis
    using past c assms(1) by (simp add: ospfs_read_def Let_def ospfs_read_loop.simps)
qed

lemma ospfs_read_past_end_witness:
  "ospfs_read no_fault two_block_disk 1 10 5000 = Some (Inl EIO, [], 5000)"
proof -
  have "ospfs_inode two_block_disk 1 = Some 3136"
    by (simp add: ospfs_inode_def ospfs_block_def word_le_nat_alt)
  then show ?thesis
    using ospfs_read_past_end [of two_block_disk 1 3136 5000 no_fault 10] by simp
qed

section \<open>Writing\<close>

lemma direct_addr_add:
  assumes "p mod 1024 + i < 1024"
  shows "direct_addr m oi (p + i) = direct_addr m oi p + i"
proof -
  have m: "(p + i) mod 1024 = p mod 1024 + i"
    using assms mod_add_left_eq [of p 1024 i] by (metis mod_less)
  then have "(p + i) div 1024 = p div 1024"
    using div_mult_mod_eq [of "p + i" 1024] div_mult_mod_eq [of p 1024] by linarith
  with m show ?thesis by (simp add: direct_addr_def)
qed

text \<open>
  A change that stays in the data region leaves the superblock, the bitmap and the inodes alone.
\<close>

lemma data_change:
  assumes "wf_disk m" and "\<forall>a < data_start m * 1024. m' a = m a"
  shows "wf_disk m'" "direct_file m' oi = direct_file m oi" "inode_addr m oi' \<Longrightarrow> inode_at m' oi' = inode_at m oi'"
    "data_start m' = data_start m" "direct_file m oi \<Longrightarrow> oi_size m' oi = oi_size m oi"
    "direct_file m oi \<Longrightarrow> k < 10 \<Longrightarrow> oi_direct m' oi k = oi_direct m oi k"
    "os_nblocks m' = os_nblocks m" "j < unat (os_nblocks m) \<Longrightarrow> block_is_free m' j = block_is_free m j"
    "os_ninodes m' = os_ninodes m" "os_firstinob m' = os_firstinob m"
proof -
  note L = wf_disk_layout [OF assms(1)] and WD = wf_layoutD [OF wf_disk_layout [OF assms(1)]]
  have "\<And>a. a < 2048 \<Longrightarrow> m' a = m a" using assms(2) WD by simp
  note F = super_frame [OF this]
  show "data_start m' = data_start m" "os_nblocks m' = os_nblocks m" "os_ninodes m' = os_ninodes m"
    "os_firstinob m' = os_firstinob m" by (simp_all add: F)
  show free: "block_is_free m' j = block_is_free m j" if "j < unat (os_nblocks m)" for j
    by (rule free_frame [OF L that]) (use assms(2) WD in simp)
  show "wf_disk m'" using assms(1) free WD(3) by (auto simp: wf_disk_def F)
  have ino: "inode_at m' oi' = inode_at m oi'" if "inode_addr m oi'" for oi'
    by (rule inode_at_cong) (use assms(2) inode_bounds [OF L that] in simp)
  then show "inode_addr m oi' \<Longrightarrow> inode_at m' oi' = inode_at m oi'" .
  show df: "direct_file m' oi = direct_file m oi"
  proof (cases "inode_addr m oi")
    case True
    note I = inode_at_fields [OF ino [OF True]]
    have nb: "nblk m' oi = nblk m oi" by (simp add: nblk_def I(1))
    show ?thesis
    proof (cases "unat (oi_size m oi) \<le> 10240")
      case T: True
      then have "nblk m oi \<le> 10" unfolding nblk_def by (rule nblk_le_10)
      then have d: "oi_direct m' oi k = oi_direct m oi k" if "k < nblk m oi" for k
        using I(7) that by simp
      show ?thesis using True d free by (auto simp: direct_file_def nb F I(1,2))
    qed (simp add: direct_file_def I(1))
  qed (simp add: direct_file_def F)
  have I: "inode_at m' oi = inode_at m oi" if "direct_file m oi"
    using ino that by (simp add: direct_file_def)
  show "direct_file m oi \<Longrightarrow> oi_size m' oi = oi_size m oi"
    "direct_file m oi \<Longrightarrow> k < 10 \<Longrightarrow> oi_direct m' oi k = oi_direct m oi k"
    using inode_at_fields(1,7) [OF I] by blast+
qed

text \<open>
  \<open>written addr p bs m m'\<close>: \<open>m'\<close> is \<open>m\<close> with the bytes \<open>bs\<close> put at the file positions from \<open>p\<close> on,
  where \<open>addr\<close> maps a file position to its address.
\<close>

definition written :: "(nat \<Rightarrow> nat) \<Rightarrow> nat \<Rightarrow> u8 list \<Rightarrow> mem \<Rightarrow> mem \<Rightarrow> bool" where
  "written addr p bs m m' \<longleftrightarrow>
     (\<forall>i < length bs. m' (addr (p + i)) = bs ! i)
     \<and> (\<forall>a. (\<forall>i < length bs. a \<noteq> addr (p + i)) \<longrightarrow> m' a = m a)"

lemma written_append:
  assumes "written addr p xs m m1" "written addr (p + length xs) ys m1 m2"
    and inj: "\<And>i j. i < length xs + length ys \<Longrightarrow> j < length xs + length ys \<Longrightarrow>
        addr (p + i) = addr (p + j) \<Longrightarrow> i = j"
  shows "written addr p (xs @ ys) m m2"
  unfolding written_def
proof (intro conjI allI impI)
  fix i assume i: "i < length (xs @ ys)"
  show "m2 (addr (p + i)) = (xs @ ys) ! i"
  proof (cases "i < length xs")
    case True
    have "addr (p + i) \<noteq> addr (p + length xs + j)" if "j < length ys" for j
      using inj [of i "length xs + j"] that True by (auto simp: add.assoc)
    then have "m2 (addr (p + i)) = m1 (addr (p + i))" using assms(2) by (simp add: written_def)
    with True assms(1) show ?thesis by (simp add: written_def nth_append)
  next
    case False
    then have j: "i - length xs < length ys" "p + length xs + (i - length xs) = p + i" using i by auto
    have "m2 (addr (p + length xs + (i - length xs))) = ys ! (i - length xs)"
      using assms(2) j(1) unfolding written_def by blast
    then show ?thesis using False unfolding j(2) by (simp add: nth_append)
  qed
next
  fix a assume a: "\<forall>i < length (xs @ ys). a \<noteq> addr (p + i)"
  have "a \<noteq> addr (p + length xs + j)" if "j < length ys" for j
    using a that by (simp add: add.assoc)
  then have "m2 a = m1 a" using assms(2) by (simp add: written_def)
  also have "\<dots> = m a" using assms(1) a by (simp add: written_def)
  finally show "m2 a = m a" .
qed

lemma written_cong:
  assumes "written addr p bs m m'" "\<And>i. i < length bs \<Longrightarrow> addr (p + i) = addr' (p + i)"
  shows "written addr' p bs m m'"
  using assms by (simp add: written_def)

lemma mem_write_written:
  assumes "\<And>i. i < length bs \<Longrightarrow> addr (p + i) = addr p + i"
  shows "written addr p bs m (mem_write m (addr p) bs)"
  unfolding written_def
proof (intro conjI allI impI)
  show "i < length bs \<Longrightarrow> mem_write m (addr p) bs (addr (p + i)) = bs ! i" for i
    using assms by (simp add: mem_write_def)
  fix a assume a: "\<forall>i < length bs. a \<noteq> addr (p + i)"
  show "mem_write m (addr p) bs a = m a"
  proof (cases "addr p \<le> a \<and> a < addr p + length bs")
    case True
    then have "a - addr p < length bs" "addr (p + (a - addr p)) = a"
      using assms [of "a - addr p"] by auto
    with a show ?thesis by metis
  qed (auto simp: mem_write_def)
qed

lemma write_loop:
  assumes "wf_disk m" "direct_file m oi" "length buf = count" "amount \<le> count"
    and "p + (count - amount) \<le> unat (oi_size m oi)"
  shows "\<exists>m'. ospfs_write_loop no_fault m oi count (int p) buf amount
      = (Inr count, m', int (p + (count - amount)))
    \<and> written (direct_addr m oi) p (drop amount buf) m m'"
  using assms
proof (induction "count - amount" arbitrary: m p amount rule: less_induct)
  case less
  show ?case
  proof (cases "amount < count")
    case False
    then show ?thesis
      using less.prems(3,4) by (intro exI [of _ m]) (simp add: ospfs_write_loop.simps written_def)
  next
    case True
    note L = wf_disk_layout [OF less.prems(1)] and df = less.prems(2)
    let ?r = "count - amount"
    define n where "n = chunk (p mod 1024) ?r"
    have n: "0 < n" "n \<le> ?r" "p mod 1024 + n \<le> 1024"
      using True chunk_pos [of "p mod 1024" ?r] chunk_le [of "p mod 1024" ?r] chunk_fits [of p ?r]
      by (auto simp: n_def)
    have p: "p < unat (oi_size m oi)" using less.prems(5) True by linarith
    note B = direct_block_facts [OF L df p]
    define bs where "bs = take n (drop amount buf)"
    define m1 where "m1 = mem_write m (direct_addr m oi p) bs"
    have len: "length bs = n" using n less.prems(3) by (simp add: bs_def)
    have addr_add: "direct_addr m oi (p + i) = direct_addr m oi p + i" if "i < n" for i
      by (rule direct_addr_add) (use n that in linarith)
    then have w1: "written (direct_addr m oi) p bs m m1"
      unfolding m1_def by (intro mem_write_written) (simp add: len)
    have low: "\<forall>a < data_start m * 1024. m1 a = m a"
      using B(3) by (simp add: m1_def mem_write_apply_other)
    note D = data_change [OF less.prems(1) low]
    have addr: "direct_addr m1 oi q = direct_addr m oi q" if "q < unat (oi_size m oi)" for q
    proof -
      have "q div 1024 < 10"
        using div_less_nblk [OF that] direct_file_nblk [OF df] by linarith
      then show ?thesis using D(6) [OF df] by (simp add: direct_addr_def)
    qed
    have step: "ospfs_write_loop no_fault m oi count (int p) buf amount
        = ospfs_write_loop no_fault m1 oi count (int (p + n)) buf (amount + n)"
      using True B(1) B(2)
      by (subst ospfs_write_loop.simps) (simp add: Let_def nat_int_mod n_def m1_def bs_def)
    have df1: "direct_file m1 oi" using D(2) df by simp
    have "\<exists>m'. ospfs_write_loop no_fault m1 oi count (int (p + n)) buf (amount + n)
        = (Inr count, m', int (p + n + (count - (amount + n))))
      \<and> written (direct_addr m1 oi) (p + n) (drop (amount + n) buf) m1 m'"
      by (rule less.hyps [OF _ D(1) df1 less.prems(3)])
         (use n True less.prems(5) D(5) [OF df] in auto)
    then obtain m' where m': "ospfs_write_loop no_fault m1 oi count (int (p + n)) buf (amount + n)
        = (Inr count, m', int (p + n + (count - (amount + n))))"
      "written (direct_addr m1 oi) (p + n) (drop (amount + n) buf) m1 m'" by blast
    have "written (direct_addr m oi) (p + n) (drop (amount + n) buf) m1 m'"
      by (rule written_cong [OF m'(2)], rule addr) (use less.prems(3,5) n in auto)
    then have "written (direct_addr m oi) p (bs @ drop (amount + n) buf) m m'"
    proof (rule written_append [OF w1, unfolded len])
      fix i j assume ij: "i < n + length (drop (amount + n) buf)" "j < n + length (drop (amount + n) buf)"
        "direct_addr m oi (p + i) = direct_addr m oi (p + j)"
      have "p + i < unat (oi_size m oi)" "p + j < unat (oi_size m oi)"
        using ij(1,2) less.prems(3,5) n(2) by simp_all
      from direct_addr_inj [OF df this ij(3)] show "i = j" by simp
    qed
    moreover have "bs @ drop (amount + n) buf = drop amount buf"
      using append_take_drop_id [of n "drop amount buf"] by (simp add: bs_def add.commute)
    moreover have "p + n + (count - (amount + n)) = p + ?r" using n(2) True by linarith
    ultimately show ?thesis
      using step m'(1) by (intro exI [of _ m']) simp
  qed
qed

lemma write_prepare:
  assumes "wf_disk m" "direct_file m oi" "p + n \<le> 10240" "unat count = n"
    and "(p + n + 1023) div 1024 - nblk m oi \<le> free_count m"
  shows "\<exists>m1. (if uint count + int p > uint (oi_size m oi)
        then change_size m oi (word_of_int (uint count + int p)) else Some (Inr (), m)) = Some (Inr (), m1)
    \<and> extends m oi m1 \<and> unat (oi_size m1 oi) = max (unat (oi_size m oi)) (p + n)"
proof (cases "p + n > unat (oi_size m oi)")
  case True
  then have c: "uint count + int p > uint (oi_size m oi)" unfolding uint_nat assms(4) by linarith
  have w: "word_of_int (uint count + int p) = (of_nat (p + n) :: u32)"
    unfolding uint_nat assms(4) by (simp add: add.commute)
  have u: "unat (of_nat (p + n) :: u32) = p + n" using assms(3) by (intro unat_of_nat_u32) simp
  obtain m1 where "change_size m oi (of_nat (p + n)) = Some (Inr (), m1)"
    "oi_size m1 oi = of_nat (p + n)" "extends m oi m1"
    using change_size_extends [OF assms(1,2), of "of_nat (p + n)"] True assms(3,5) unfolding u by auto
  then show ?thesis using c True u unfolding w by simp
next
  case False
  then have "\<not> uint count + int p > uint (oi_size m oi)" unfolding uint_nat assms(4) by linarith
  then show ?thesis using False extends_refl [OF assms(1,2)] by simp
qed

lemma extends_file_byte:
  assumes wf: "wf_disk m" and df: "direct_file m oi" and ex: "extends m oi m1"
    and q: "q < unat (oi_size m oi)"
  shows "direct_addr m1 oi q = direct_addr m oi q" "m1 (direct_addr m oi q) = m (direct_addr m oi q)"
proof -
  show "direct_addr m1 oi q = direct_addr m oi q"
    using ex div_less_nblk [OF q] by (simp add: extends_def direct_addr_def)
  show "m1 (direct_addr m oi q) = m (direct_addr m oi q)"
    using direct_block_facts(3,5) [OF wf_disk_layout [OF wf] df q] ex by (simp add: extends_def)
qed

text \<open>
  What bytes written at a range inside the file leave: the range holds them, the other bytes of the
  file, the inodes and the layout stay.
\<close>

lemma written_file:
  assumes wf: "wf_disk m" and df: "direct_file m oi" and sz: "p + length buf \<le> unat (oi_size m oi)"
    and w: "written (direct_addr m oi) p buf m m'"
  shows "\<forall>a < data_start m * 1024. m' a = m a" "direct_file m' oi" "oi_size m' oi = oi_size m oi"
    "file_bytes m' oi p (length buf) = buf"
    "q < unat (oi_size m oi) \<Longrightarrow> q < p \<or> p + length buf \<le> q \<Longrightarrow> file_byte m' oi q = m (direct_addr m oi q)"
proof -
  let ?A = "direct_addr m oi"
  note L = wf_disk_layout [OF wf]
  have inr: "p + i < unat (oi_size m oi)" if "i < length buf" for i using that sz by simp
  show low: "\<forall>a < data_start m * 1024. m' a = m a"
  proof (intro allI impI)
    fix a assume a: "a < data_start m * 1024"
    have "a \<noteq> ?A (p + i)" if "i < length buf" for i
      using direct_block_facts(3) [OF L df inr [OF that]] a by linarith
    then show "m' a = m a" using w by (simp add: written_def)
  qed
  note D = data_change [OF wf low]
  show df': "direct_file m' oi" and sz': "oi_size m' oi = oi_size m oi" using D(2,5) df by simp_all
  have byte: "file_byte m' oi q = m' (?A q)" if "q < unat (oi_size m oi)" for q
  proof -
    have "q div 1024 < 10" using div_less_nblk [OF that] direct_file_nblk [OF df] by linarith
    then show ?thesis using file_byte_direct [OF wf_disk_layout [OF D(1)] df', of q] that sz' D(6) [OF df]
      by (simp add: direct_addr_def)
  qed
  show "file_bytes m' oi p (length buf) = buf"
    by (rule nth_equalityI) (use byte [OF inr] w in \<open>simp_all add: file_bytes_def written_def\<close>)
  show "file_byte m' oi q = m (?A q)" if q: "q < unat (oi_size m oi)" "q < p \<or> p + length buf \<le> q"
  proof -
    have "?A q \<noteq> ?A (p + i)" if i: "i < length buf" for i
      using direct_addr_inj [OF df q(1) inr [OF i]] q(2) i by fastforce
    then show ?thesis using w byte [OF q(1)] by (simp add: written_def)
  qed
qed

text \<open>Writing after growing touches only blocks of the file and blocks that were free.\<close>

lemma written_others:
  assumes ex: "extends m oi m1" and sz: "p + length buf \<le> unat (oi_size m1 oi)"
    and w: "written (direct_addr m1 oi) p buf m1 m'"
    and a: "data_start m * 1024 \<le> a" "\<not> block_is_free m (a div 1024)"
      "\<forall>k < nblk m oi. a div 1024 \<noteq> unat (oi_direct m oi k)"
  shows "m' a = m a"
proof -
  have wf1: "wf_disk m1" and df1: "direct_file m1 oi" using ex by (auto simp: extends_def)
  have "a \<noteq> direct_addr m1 oi (p + i)" if i: "i < length buf" for i
  proof
    assume "a = direct_addr m1 oi (p + i)"
    moreover have inr: "p + i < unat (oi_size m1 oi)" using i sz by simp
    ultimately have d: "a div 1024 = unat (oi_direct m1 oi ((p + i) div 1024))"
      using direct_block_facts(4) [OF wf_disk_layout [OF wf1] df1 inr] by simp
    have k: "(p + i) div 1024 < nblk m1 oi" by (rule div_less_nblk [OF inr])
    show False
    proof (cases "(p + i) div 1024 < nblk m oi")
      case True
      then have "oi_direct m1 oi ((p + i) div 1024) = oi_direct m oi ((p + i) div 1024)"
        using ex unfolding extends_def by blast
      then show False using a(3) d True by metis
    next
      case False
      then have "block_is_free m (unat (oi_direct m1 oi ((p + i) div 1024)))"
        using ex k unfolding extends_def by (meson not_le)
      then show False using a(2) d by simp
    qed
  qed
  then have "m' a = m1 a" using w by (simp add: written_def)
  also have "\<dots> = m a" using ex a by (simp add: extends_def)
  finally show ?thesis .
qed

lemma read_whole_range:
  assumes "wf_disk m" "ospfs_inode m ino = Some oi" "direct_file m oi" "unat count = n" "p + n \<le> unat (oi_size m oi)"
  shows "ospfs_read no_fault m ino count (int p) = Some (Inr n, file_bytes m oi p n, int (p + n))"
proof -
  have "ospfs_read_loop no_fault m oi n (int p) [] = (Inr n, file_bytes m oi p n, int (p + n))"
    using read_loop [of p n "[]" m oi] direct_block_facts(1) [OF wf_disk_layout [OF assms(1)] assms(3)] assms(5) by simp
  moreover have "p \<le> unat (oi_size m oi)" "min (unat count) (unat (oi_size m oi) - p) = n" using assms(4,5) by simp_all
  ultimately show ?thesis using assms(2) read_count [of p "oi_size m oi" count] by (simp add: ospfs_read_def Let_def)
qed

text \<open>C1: A write to a file that stays within its direct blocks, with enough free blocks for the
  growth it needs, writes the whole buffer: reading the same range afterwards returns it. The
  file grows to the end of the written range if it was shorter, its other bytes, the other
  inodes and the blocks in use by others do not change.\<close>

theorem ospfs_write_read_back:
  assumes "wf_disk m" "ospfs_inode m ino = Some oi" "direct_file m oi"
    and "unat count = length buf" "p + length buf \<le> 10240"
    and "(p + length buf + 1023) div 1024 - nblk m oi \<le> free_count m"
  shows "\<exists>m'. ospfs_write no_fault m ino False buf count (int p)
        = Some (Inr (length buf), m', int (p + length buf))
    \<and> ospfs_read no_fault m' ino count (int p) = Some (Inr (length buf), buf, int (p + length buf))
    \<and> unat (oi_size m' oi) = max (unat (oi_size m oi)) (p + length buf)
    \<and> (\<forall>q < unat (oi_size m oi). q < p \<or> p + length buf \<le> q \<longrightarrow> file_byte m' oi q = file_byte m oi q)
    \<and> (\<forall>oi'. inode_addr m oi' \<and> oi' \<noteq> oi \<longrightarrow> inode_at m' oi' = inode_at m oi')
    \<and> (\<forall>a \<ge> data_start m * 1024. \<not> block_is_free m (a div 1024)
         \<and> (\<forall>k < nblk m oi. a div 1024 \<noteq> unat (oi_direct m oi k)) \<longrightarrow> m' a = m a)"
proof -
  let ?n = "length buf"
  obtain m1 where prep: "(if uint count + int p > uint (oi_size m oi)
        then change_size m oi (word_of_int (uint count + int p)) else Some (Inr (), m)) = Some (Inr (), m1)"
    and ex: "extends m oi m1" and sz: "unat (oi_size m1 oi) = max (unat (oi_size m oi)) (p + ?n)"
    using write_prepare [OF assms(1,3,5,4,6)] by blast
  have wf1: "wf_disk m1" and df1: "direct_file m1 oi" and le: "p + ?n \<le> unat (oi_size m1 oi)"
    using ex sz by (auto simp: extends_def)
  note S = extends_super [OF ex]
  obtain m' where loop: "ospfs_write_loop no_fault m1 oi ?n (int p) buf 0 = (Inr ?n, m', int (p + ?n))"
    and w: "written (direct_addr m1 oi) p buf m1 m'"
    using write_loop [OF wf1 df1, of buf ?n 0 p] le by auto
  note W = written_file [OF wf1 df1 le w]
  note D = data_change [OF wf1 W(1)]
  have "ospfs_write no_fault m ino False buf count (int p) = Some (Inr ?n, m', int (p + ?n))"
    using prep loop assms(2,4) by (simp add: ospfs_write_def Let_def)
  moreover have "ospfs_inode m' ino = Some oi"
    using assms(2) D(9,10) S by (simp add: ospfs_inode_def split: if_splits)
  then have "ospfs_read no_fault m' ino count (int p) = Some (Inr ?n, buf, int (p + ?n))"
    using read_whole_range [OF D(1) _ W(2) assms(4)] le W(3,4) by simp
  moreover have "file_byte m' oi q = file_byte m oi q" if q: "q < unat (oi_size m oi)" "q < p \<or> p + ?n \<le> q" for q
    using W(5) [of q] q sz extends_file_byte [OF assms(1,3) ex q(1)]
      file_byte_direct [OF wf_disk_layout [OF assms(1)] assms(3) q(1)] by simp
  moreover have "inode_at m' oi' = inode_at m oi'" if "inode_addr m oi'" "oi' \<noteq> oi" for oi'
    using D(3) [of oi'] ex that S by (simp add: extends_def)
  moreover note written_others [OF ex le w]
  ultimately show ?thesis using sz W(3) by (intro exI [of _ m']) simp
qed

theorem ospfs_write_read_back_witness:
  "\<exists>m'. ospfs_write no_fault small_disk 1 False [104, 105] 2 1023 = Some (Inr 2, m', 1025)
    \<and> ospfs_read no_fault m' 1 2 1023 = Some (Inr 2, [104, 105], 1025)"
proof -
  have "ospfs_inode small_disk 1 = Some 3136"
    by (simp add: ospfs_inode_def ospfs_block_def word_le_nat_alt)
  then show ?thesis
    using ospfs_write_read_back [OF small_disk_wf _ small_disk_file, of 1 2 "[104, 105]" 1023]
    by (simp add: small_disk_free_count nblk_def) (unfold numeral_2_eq_2, blast)
qed

end
