(* ===== verification/OspfsDir.thy ===== *)
theory OspfsDir
  imports OspfsIO
begin

text \<open>
  Directories and inodes of OSPFS (\<open>lab3/ospfsmod.c\<close>): lookup, \<open>readdir\<close>, \<open>unlink\<close>, \<open>link\<close>,
  \<open>create\<close>, \<open>symlink\<close>, \<open>follow_link\<close>, and the construction of Linux inodes and of the superblock.
  A file name in a \<open>struct dentry\<close> (pointer and length) is a byte list. The outer \<open>option\<close> is
  \<open>None\<close> where the C code runs past every string end, dereferences a null pointer or panics.
  Directory offsets are natural numbers: the sizes that the file system can produce stay
  below \<open>2 ^ 31\<close>.
\<close>

section \<open>C strings in memory\<close>

partial_function (option) strlen_from :: "mem \<Rightarrow> nat \<Rightarrow> nat \<Rightarrow> nat option" where
  "strlen_from m a k = (if m (a + k) = 0 then Some k else strlen_from m a (k + 1))"

definition c_strlen :: "mem \<Rightarrow> nat \<Rightarrow> nat option" where
  "c_strlen m a = strlen_from m a 0"

partial_function (option) c_strchr :: "mem \<Rightarrow> nat \<Rightarrow> u8 \<Rightarrow> nat option option" where
  "c_strchr m a c =
     (if m a = c then Some (Some a) else if m a = 0 then Some None else c_strchr m (a + 1) c)"

text \<open>\<open>strncmp(s, lit, n) == 0\<close> for a literal of \<open>n\<close> characters without a NUL.\<close>

fun strncmp_eq :: "mem \<Rightarrow> nat \<Rightarrow> u8 list \<Rightarrow> bool" where
  "strncmp_eq m a [] \<longleftrightarrow> True"
| "strncmp_eq m a (c # cs) \<longleftrightarrow> m a = c \<and> strncmp_eq m (a + 1) cs"

section \<open>Directory entries\<close>

text \<open>\<open>struct ospfs_direntry\<close>: the inode number at offset 0, the name from offset 4 on.\<close>

record ospfs_direntry_t =
  de_ino :: u32
  de_name :: "u8 list"

abbreviation (input) "od_ino m od \<equiv> rd32 m od"
abbreviation (input) "od_name od \<equiv> od + 4"

definition direntry_at :: "mem \<Rightarrow> nat \<Rightarrow> ospfs_direntry_t" where
  "direntry_at m od = \<lparr>de_ino = od_ino m od, de_name = takeWhile (\<lambda>c. c \<noteq> 0) (mem_read m (od_name od) 124)\<rparr>"

definition entry_matches :: "mem \<Rightarrow> nat \<Rightarrow> u8 list \<Rightarrow> nat \<Rightarrow> bool option" where
  "entry_matches m od name len =
     (if od_ino m od = 0 then Some False
      else case c_strlen m (od_name od) of
             None \<Rightarrow> None
           | Some l \<Rightarrow> Some (l = len \<and> mem_read m (od_name od) len = take len name))"

function find_direntry_from :: "mem \<Rightarrow> nat \<Rightarrow> u8 list \<Rightarrow> nat \<Rightarrow> nat \<Rightarrow> nat option option" where
  "find_direntry_from m dir_oi name len off =
     (if off < unat (oi_size m dir_oi) then
        (let od = ospfs_inode_data m dir_oi (of_nat off)
         in case entry_matches m od name len of
              None \<Rightarrow> None
            | Some True \<Rightarrow> Some (Some od)
            | Some False \<Rightarrow> find_direntry_from m dir_oi name len (off + OSPFS_DIRENTRY_SIZE))
      else Some None)"
  by pat_completeness auto
termination
  by (relation "measure (\<lambda>(m, dir_oi, name, len, off). unat (oi_size m dir_oi) - off)") auto

declare find_direntry_from.simps [simp del]

definition find_direntry :: "mem \<Rightarrow> nat \<Rightarrow> u8 list \<Rightarrow> int \<Rightarrow> nat option option" where
  "find_direntry m dir_oi name namelen =
     find_direntry_from m dir_oi name
       (if namelen < 0 then length (takeWhile (\<lambda>c. c \<noteq> 0) name) else nat namelen) 0"

section \<open>Linux inodes and the superblock\<close>

text \<open>
  The fields of \<open>struct inode\<close> that the code sets, as the values assigned. \<open>new_inode\<close> is a
  kernel function: a parameter says whether it succeeds. An unknown file type is a \<open>panic\<close>.
\<close>

datatype inode_ops = Reg_ops | Dir_ops | Symlink_ops

record linux_inode =
  li_ino :: u32
  li_size :: u32
  li_mode :: u32
  li_nlink :: u32
  li_ops :: inode_ops

definition ospfs_mk_linux_inode :: "bool \<Rightarrow> mem \<Rightarrow> u32 \<Rightarrow> linux_inode option option" where
  "ospfs_mk_linux_inode new_inode m ino =
     (case ospfs_inode m ino of
        None \<Rightarrow> Some None
      | Some oi \<Rightarrow>
          if \<not> new_inode then Some None
          else if oi_ftype m oi = OSPFS_FTYPE_REG then
            Some (Some \<lparr>li_ino = ino, li_size = oi_size m oi, li_mode = oi_mode m oi OR 0x8000,
              li_nlink = oi_nlink m oi, li_ops = Reg_ops\<rparr>)
          else if oi_ftype m oi = OSPFS_FTYPE_DIR then
            Some (Some \<lparr>li_ino = ino, li_size = oi_size m oi, li_mode = oi_mode m oi OR 0x4000,
              li_nlink = oi_nlink m oi + 1, li_ops = Dir_ops\<rparr>)
          else if oi_ftype m oi = OSPFS_FTYPE_SYMLINK then
            Some (Some \<lparr>li_ino = ino, li_size = oi_size m oi, li_mode = 0x1FF OR 0xA000,
              li_nlink = oi_nlink m oi, li_ops = Symlink_ops\<rparr>)
          else None)"

record linux_sb =
  s_blocksize :: u32
  s_blocksize_bits :: u32
  s_magic :: u32
  s_root :: "linux_inode option"

definition ospfs_fill_super :: "bool \<Rightarrow> (linux_inode \<Rightarrow> bool) \<Rightarrow> mem \<Rightarrow> (unit res \<times> linux_sb) option" where
  "ospfs_fill_super new_inode d_alloc_root m =
     (let sb = \<lparr>s_blocksize = OSPFS_BLKSIZE, s_blocksize_bits = 10, s_magic = 0x013101AE, s_root = None\<rparr>
      in case ospfs_mk_linux_inode new_inode m OSPFS_ROOT_INO of
           None \<Rightarrow> None
         | Some None \<Rightarrow> Some (Inl ENOMEM, sb)
         | Some (Some root_inode) \<Rightarrow>
             if d_alloc_root root_inode then Some (Inr (), sb\<lparr>s_root := Some root_inode\<rparr>)
             else Some (Inl ENOMEM, sb))"

definition ospfs_delete_dentry :: "'d \<Rightarrow> int" where
  "ospfs_delete_dentry dentry = 1"

section \<open>Lookup\<close>

text \<open>
  The result is the inode that ends up attached to the dentry, if any. The search loop of
  \<open>ospfs_dir_lookup\<close> is the one of \<open>find_direntry\<close>, written out a second time in the source.
\<close>

function dir_lookup_from ::
  "bool \<Rightarrow> mem \<Rightarrow> nat \<Rightarrow> u8 list \<Rightarrow> nat \<Rightarrow> (linux_inode option res) option" where
  "dir_lookup_from new_inode m dir_oi name entry_off =
     (if entry_off < unat (oi_size m dir_oi) then
        (let od = ospfs_inode_data m dir_oi (of_nat entry_off)
         in case entry_matches m od name (length name) of
              None \<Rightarrow> None
            | Some True \<Rightarrow>
                (case ospfs_mk_linux_inode new_inode m (od_ino m od) of
                   None \<Rightarrow> None
                 | Some None \<Rightarrow> Some (Inl EINVAL)
                 | Some (Some i) \<Rightarrow> Some (Inr (Some i)))
            | Some False \<Rightarrow> dir_lookup_from new_inode m dir_oi name (entry_off + OSPFS_DIRENTRY_SIZE))
      else Some (Inr None))"
  by pat_completeness auto
termination
  by (relation "measure (\<lambda>(new_inode, m, dir_oi, name, off). unat (oi_size m dir_oi) - off)") auto

declare dir_lookup_from.simps [simp del]

definition ospfs_dir_lookup :: "bool \<Rightarrow> mem \<Rightarrow> u32 \<Rightarrow> u8 list \<Rightarrow> (linux_inode option res) option" where
  "ospfs_dir_lookup new_inode m dir_ino name =
     (if length name > OSPFS_MAXNAMELEN then Some (Inl ENAMETOOLONG)
      else case ospfs_inode m dir_ino of
             None \<Rightarrow> None
           | Some dir_oi \<Rightarrow> dir_lookup_from new_inode m dir_oi name 0)"

section \<open>Reading a directory\<close>

text \<open>
  \<open>filldir\<close> is the caller's callback. It may depend on the calls made before it; the calls it
  has received are collected in order.
\<close>

datatype dir_type = DT_REG | DT_DIR | DT_LNK

record dir_call =
  dc_name :: "u8 list"
  dc_pos :: u32
  dc_ino :: u32
  dc_type :: dir_type

definition file_dir_type :: "u32 \<Rightarrow> dir_type option" where
  "file_dir_type ftype =
     (if ftype = OSPFS_FTYPE_REG then Some DT_REG
      else if ftype = OSPFS_FTYPE_DIR then Some DT_DIR
      else if ftype = OSPFS_FTYPE_SYMLINK then Some DT_LNK
      else None)"

partial_function (option) readdir_loop ::
  "(dir_call list \<Rightarrow> dir_call \<Rightarrow> int) \<Rightarrow> mem \<Rightarrow> nat \<Rightarrow> u32 \<Rightarrow> int \<Rightarrow> dir_call list
     \<Rightarrow> (int \<times> u32 \<times> dir_call list) option" where
  "readdir_loop filldir m dir_oi f_pos ok_so_far calls =
     (if ok_so_far \<ge> 0 \<and> f_pos \<ge> 2 then
        (if ospfs_inode_blockno m dir_oi ((f_pos - 2) * OSPFS_DIRENTRY_SIZE) = 0
         then Some (1, f_pos, calls)
         else
           (let od = ospfs_inode_data m dir_oi ((f_pos - 2) * OSPFS_DIRENTRY_SIZE) in
            if od_ino m od = 0 then readdir_loop filldir m dir_oi (f_pos + 1) ok_so_far calls
            else
              (case ospfs_inode m (od_ino m od) of
                 None \<Rightarrow> None
               | Some entry_oi \<Rightarrow>
                   (case file_dir_type (oi_ftype m entry_oi) of
                      None \<Rightarrow> readdir_loop filldir m dir_oi (f_pos + 1) ok_so_far calls
                    | Some dt \<Rightarrow>
                        (case c_strlen m (od_name od) of
                           None \<Rightarrow> None
                         | Some l \<Rightarrow>
                             (let call = \<lparr>dc_name = mem_read m (od_name od) l, dc_pos = f_pos,
                                dc_ino = od_ino m od, dc_type = dt\<rparr>;
                                ok = filldir calls call
                              in readdir_loop filldir m dir_oi (if ok \<ge> 0 then f_pos + 1 else f_pos)
                                   ok (calls @ [call])))))))
      else Some (0, f_pos, calls))"

definition ospfs_dir_readdir ::
  "(dir_call list \<Rightarrow> dir_call \<Rightarrow> int) \<Rightarrow> mem \<Rightarrow> u32 \<Rightarrow> u32 \<Rightarrow> u32 \<Rightarrow> (int \<times> u32 \<times> dir_call list) option" where
  "ospfs_dir_readdir filldir m dir_ino parent_ino f_pos =
     (case ospfs_inode m dir_ino of
        None \<Rightarrow> None
      | Some dir_oi \<Rightarrow>
          (let dot = \<lparr>dc_name = [46], dc_pos = f_pos, dc_ino = dir_ino, dc_type = DT_DIR\<rparr>;
               (ok1, f_pos1, calls1) =
                 (if f_pos = 0 then
                    (let ok = filldir [] dot in (ok, if ok \<ge> 0 then f_pos + 1 else f_pos, [dot]))
                  else (0, f_pos, []));
               dotdot = \<lparr>dc_name = [46, 46], dc_pos = f_pos1, dc_ino = parent_ino, dc_type = DT_DIR\<rparr>;
               (ok2, f_pos2, calls2) =
                 (if ok1 \<ge> 0 \<and> f_pos1 = 1 then
                    (let ok = filldir calls1 dotdot
                     in (ok, if ok \<ge> 0 then f_pos1 + 1 else f_pos1, calls1 @ [dotdot]))
                  else (ok1, f_pos1, calls1))
           in readdir_loop filldir m dir_oi f_pos2 ok2 calls2))"

section \<open>Unlink\<close>

text \<open>The search loop: the final \<open>entry_off\<close> and the value of \<open>od\<close>.\<close>

function unlink_scan :: "mem \<Rightarrow> nat \<Rightarrow> u8 list \<Rightarrow> nat \<Rightarrow> nat option \<Rightarrow> (nat \<times> nat option) option" where
  "unlink_scan m dir_oi name entry_off od0 =
     (if entry_off < unat (oi_size m dir_oi) then
        (let od = ospfs_inode_data m dir_oi (of_nat entry_off)
         in case entry_matches m od name (length name) of
              None \<Rightarrow> None
            | Some True \<Rightarrow> Some (entry_off, Some od)
            | Some False \<Rightarrow> unlink_scan m dir_oi name (entry_off + OSPFS_DIRENTRY_SIZE) (Some od))
      else Some (entry_off, od0))"
  by pat_completeness auto
termination
  by (relation "measure (\<lambda>(m, dir_oi, name, off, od0). unat (oi_size m dir_oi) - off)") auto

declare unlink_scan.simps [simp del]

definition ospfs_unlink :: "mem \<Rightarrow> u32 \<Rightarrow> u32 \<Rightarrow> u8 list \<Rightarrow> (unit res \<times> mem) option" where
  "ospfs_unlink m ino parent_ino name =
     (case (ospfs_inode m ino, ospfs_inode m parent_ino) of
        (Some oi, Some dir_oi) \<Rightarrow>
          (case unlink_scan m dir_oi name 0 None of
             None \<Rightarrow> None
           | Some (entry_off, od) \<Rightarrow>
               if entry_off = unat (oi_size m dir_oi) then Some (Inl ENOENT, m)
               else
                 (case od of
                    None \<Rightarrow> None
                  | Some od \<Rightarrow>
                      (let m1 = wr32 m od 0;
                           m2 = wr32 m1 (oi + 8) (oi_nlink m1 oi - 1)
                       in if oi_ftype m2 oi \<noteq> OSPFS_FTYPE_SYMLINK \<and> oi_nlink m2 oi = 0 then
                            (case change_size m2 oi 0 of
                               None \<Rightarrow> None
                             | Some (_, m3) \<Rightarrow> Some (Inr (), m3))
                          else Some (Inr (), m2))))
      | _ \<Rightarrow> None)"

section \<open>Creating entries\<close>

function blank_scan :: "mem \<Rightarrow> nat \<Rightarrow> nat \<Rightarrow> nat option" where
  "blank_scan m dir_oi i =
     (if i < unat (oi_size m dir_oi) then
        (let entry = ospfs_inode_data m dir_oi (of_nat i)
         in if od_ino m entry = 0 then Some entry
            else blank_scan m dir_oi (i + OSPFS_DIRENTRY_SIZE))
      else None)"
  by pat_completeness auto
termination
  by (relation "measure (\<lambda>(m, dir_oi, i). unat (oi_size m dir_oi) - i)") auto

declare blank_scan.simps [simp del]

definition create_blank_direntry :: "mem \<Rightarrow> nat \<Rightarrow> (nat res \<times> mem) option" where
  "create_blank_direntry m dir_oi =
     (case blank_scan m dir_oi 0 of
        Some entry \<Rightarrow> Some (Inr entry, m)
      | None \<Rightarrow>
          (let f_pos = OSPFS_DIRENTRY_SIZE + oi_size m dir_oi
           in case change_size m dir_oi (oi_size m dir_oi + OSPFS_BLKBITSIZE) of
                None \<Rightarrow> None
              | Some (Inl e, m1) \<Rightarrow> Some (Inl e, m1)
              | Some (Inr (), m1) \<Rightarrow> Some (Inr (ospfs_inode_data m1 dir_oi f_pos), m1)))"

function free_inode_scan :: "mem \<Rightarrow> nat \<Rightarrow> u32" where
  "free_inode_scan m ino =
     (if ino < unat (os_ninodes m) then
        (if oi_nlink m (ospfs_block (os_firstinob m) + OSPFS_INODESIZE * ino) = 0 then of_nat ino
         else free_inode_scan m (ino + 1))
      else 0)"
  by pat_completeness auto
termination
  by (relation "measure (\<lambda>(m, ino). unat (os_ninodes m) - ino)") auto

declare free_inode_scan.simps [simp del]

definition find_free_inode :: "mem \<Rightarrow> u32" where
  "find_free_inode m = free_inode_scan m 2"

text \<open>The three stores that fill a directory entry: inode number, name, final NUL.\<close>

definition set_direntry :: "mem \<Rightarrow> nat \<Rightarrow> u32 \<Rightarrow> u8 list \<Rightarrow> mem" where
  "set_direntry m od ino name =
     (mem_write (wr32 m od ino) (od_name od) name)(od_name od + length name := 0)"

definition ospfs_link :: "mem \<Rightarrow> u32 \<Rightarrow> u32 \<Rightarrow> u8 list \<Rightarrow> (unit res \<times> mem) option" where
  "ospfs_link m src_ino dir_ino name =
     (if length name > OSPFS_MAXNAMELEN then Some (Inl ENAMETOOLONG, m)
      else
        (case ospfs_inode m dir_ino of
           None \<Rightarrow> None
         | Some dir_oi \<Rightarrow>
             (case find_direntry m dir_oi name (int (length name)) of
                None \<Rightarrow> None
              | Some (Some _) \<Rightarrow> Some (Inl EEXIST, m)
              | Some None \<Rightarrow>
                  (case create_blank_direntry m dir_oi of
                     None \<Rightarrow> None
                   | Some (Inl e, m1) \<Rightarrow> Some (Inl e, m1)
                   | Some (Inr link, m1) \<Rightarrow>
                       (let m2 = set_direntry m1 link src_ino name
                        in case ospfs_inode m2 src_ino of
                             None \<Rightarrow> None
                           | Some oi \<Rightarrow> Some (Inr (), wr32 m2 (oi + 8) (oi_nlink m2 oi + 1)))))))"

text \<open>\<open>new_inode\<close> is the parameter of \<open>ospfs_mk_linux_inode\<close>; the inode is what \<open>d_instantiate\<close> gets.\<close>

definition ospfs_create ::
  "bool \<Rightarrow> mem \<Rightarrow> u32 \<Rightarrow> u8 list \<Rightarrow> u32 \<Rightarrow> (linux_inode res \<times> mem) option" where
  "ospfs_create new_inode m dir_ino name mode =
     (case ospfs_inode m dir_ino of
        None \<Rightarrow> Some (Inl EIO, m)
      | Some dir_oi \<Rightarrow>
          (case find_direntry m dir_oi name (int (length name)) of
             None \<Rightarrow> None
           | Some (Some _) \<Rightarrow> Some (Inl EEXIST, m)
           | Some None \<Rightarrow>
               (let entry_ino = find_free_inode m in
                if entry_ino = 0 then Some (Inl ENOSPC, m)
                else
                  (case ospfs_inode m entry_ino of
                     None \<Rightarrow> Some (Inl EIO, m)
                   | Some file_oi \<Rightarrow>
                       (let m1 = wr32 (wr32 (wr32 (wr32 m file_oi 0) (file_oi + 4) OSPFS_FTYPE_REG)
                                   (file_oi + 8) 1) (file_oi + 12) mode
                        in case create_blank_direntry m1 dir_oi of
                             None \<Rightarrow> None
                           | Some (Inl e, m2) \<Rightarrow> Some (Inl e, m2)
                           | Some (Inr new_entry, m2) \<Rightarrow>
                               (let m3 = set_direntry m2 new_entry entry_ino name
                                in case ospfs_mk_linux_inode new_inode m3 entry_ino of
                                     None \<Rightarrow> None
                                   | Some None \<Rightarrow> Some (Inl ENOMEM, m3)
                                   | Some (Some i) \<Rightarrow> Some (Inr i, m3)))))))"

definition ospfs_symlink ::
  "bool \<Rightarrow> mem \<Rightarrow> u32 \<Rightarrow> u8 list \<Rightarrow> u8 list \<Rightarrow> (linux_inode res \<times> mem) option" where
  "ospfs_symlink new_inode m dir_ino name symname =
     (case ospfs_inode m dir_ino of
        None \<Rightarrow> Some (Inl EIO, m)
      | Some dir_oi \<Rightarrow>
          if length name > OSPFS_MAXNAMELEN \<or> length symname > OSPFS_MAXSYMLINKLEN
          then Some (Inl ENAMETOOLONG, m)
          else
            (case find_direntry m dir_oi name (int (length name)) of
               None \<Rightarrow> None
             | Some (Some _) \<Rightarrow> Some (Inl EEXIST, m)
             | Some None \<Rightarrow>
                 (let entry_ino = find_free_inode m in
                  if entry_ino = 0 then Some (Inl ENOSPC, m)
                  else
                    (case ospfs_inode m entry_ino of
                       None \<Rightarrow> None
                     | Some oi \<Rightarrow>
                         (let m1 = mem_write (wr32 (wr32 (wr32 m oi (of_nat (length symname)))
                                     (oi + 8) 1) (oi + 4) OSPFS_FTYPE_SYMLINK) (oi + 12) symname
                          in case create_blank_direntry m1 dir_oi of
                               None \<Rightarrow> None
                             | Some (Inl e, m2) \<Rightarrow> Some (Inl e, m2)
                             | Some (Inr new_entry, m2) \<Rightarrow>
                                 (let m3 = set_direntry m2 new_entry entry_ino name
                                  in case ospfs_mk_linux_inode new_inode m3 entry_ino of
                                       None \<Rightarrow> None
                                     | Some None \<Rightarrow> Some (Inl ENOMEM, m3)
                                     | Some (Some i) \<Rightarrow> Some (Inr i, m3)))))))"

section \<open>Following symbolic links\<close>

text \<open>
  What \<open>nd_set_link\<close> is given: a pointer into the image, or the result of adding 1 to a null
  pointer. Storing through a null pointer (a conditional link without a colon, followed by
  root) is \<open>None\<close>.
\<close>

datatype link_target = At nat | Null_plus_one

definition ospfs_follow_link :: "bool \<Rightarrow> mem \<Rightarrow> u32 \<Rightarrow> (link_target \<times> mem) option" where
  "ospfs_follow_link is_root m ino =
     (case ospfs_inode m ino of
        None \<Rightarrow> None
      | Some oi \<Rightarrow>
          (let link = oi + 12 in
           if strncmp_eq m link [114, 111, 111, 116, 63] then
             (case c_strchr m link 58 of
                None \<Rightarrow> None
              | Some colon \<Rightarrow>
                  if is_root then
                    (case colon of
                       None \<Rightarrow> None
                     | Some c \<Rightarrow>
                         (let m1 = m(c := 0)
                          in case c_strchr m1 link 63 of
                               None \<Rightarrow> None
                             | Some None \<Rightarrow> Some (Null_plus_one, m1)
                             | Some (Some q) \<Rightarrow> Some (At (q + 1), m1)))
                  else
                    (case colon of
                       None \<Rightarrow> Some (Null_plus_one, m)
                     | Some c \<Rightarrow> Some (At (c + 1), m)))
           else Some (At link, m)))"

end
