(* ===== verification/OspfsDirProps.thy ===== *)
theory OspfsDirProps
  imports OspfsDir
begin

text \<open>
  Correctness of the directory operations: the search loops are \<open>find\<close> on the list of the
  directory's entries, \<open>create\<close> makes a name that lookup then finds, \<open>readdir\<close> reports the used
  entries in order, and the error paths of \<open>link\<close> leave the disk alone.
\<close>

section \<open>C strings\<close>

lemma strlen_from_eq:
  assumes "m (a + l) = 0" "\<And>i. i < l \<Longrightarrow> m (a + i) \<noteq> 0"
  shows "k \<le> l \<Longrightarrow> strlen_from m a k = Some l"
proof (induction "l - k" arbitrary: k)
  case 0
  then show ?case using assms(1) by (subst strlen_from.simps) simp
next
  case (Suc d)
  then show ?case using assms(2) [of k] by (subst strlen_from.simps) simp
qed

lemma takeWhile_mem_read:
  assumes "m (a + l) = 0" "\<And>i. i < l \<Longrightarrow> m (a + i) \<noteq> 0" "l < n"
  shows "takeWhile (\<lambda>c. c \<noteq> 0) (mem_read m a n) = mem_read m a l"
proof -
  have "mem_read m a n = mem_read m a l @ mem_read m (a + l) (n - l)"
    using mem_read_add [of m a l "n - l"] assms(3) by simp
  moreover have "takeWhile (\<lambda>c. c \<noteq> 0) (mem_read m (a + l) (n - l)) = []"
    using assms(1,3) mem_read_add [of m "a + l" 1 "n - l - 1"] by (simp add: mem_read_def)
  moreover have "\<forall>c \<in> set (mem_read m a l). c \<noteq> 0"
    using assms(2) by (auto simp: in_set_conv_nth)
  ultimately show ?thesis by (simp add: takeWhile_append2)
qed

definition c_string_in :: "mem \<Rightarrow> nat \<Rightarrow> nat \<Rightarrow> bool" where
  "c_string_in m a n \<longleftrightarrow> (\<exists>l < n. m (a + l) = 0)"

lemma c_string_inE:
  assumes "c_string_in m a n"
  obtains l where "l < n" "m (a + l) = 0" "\<And>i. i < l \<Longrightarrow> m (a + i) \<noteq> 0"
proof -
  define l where "l = (LEAST i. m (a + i) = 0)"
  obtain k where k: "k < n" "m (a + k) = 0" using assms by (auto simp: c_string_in_def)
  have "m (a + l) = 0" unfolding l_def by (rule LeastI) (rule k(2))
  moreover have "l \<le> k" unfolding l_def by (rule Least_le) (rule k(2))
  moreover have "m (a + i) \<noteq> 0" if "i < l" for i using that not_less_Least unfolding l_def by blast
  ultimately show thesis using k(1) by (intro that [of l]) auto
qed

lemma c_strlen_eq:
  assumes "c_string_in m a n"
  shows "c_strlen m a = Some (length (takeWhile (\<lambda>c. c \<noteq> 0) (mem_read m a n)))"
    and "mem_read m a (length (takeWhile (\<lambda>c. c \<noteq> 0) (mem_read m a n)))
      = takeWhile (\<lambda>c. c \<noteq> 0) (mem_read m a n)"
proof -
  obtain l where l: "l < n" "m (a + l) = 0" "\<And>i. i < l \<Longrightarrow> m (a + i) \<noteq> 0"
    by (rule c_string_inE [OF assms]) (rule that)
  have t: "takeWhile (\<lambda>c. c \<noteq> 0) (mem_read m a n) = mem_read m a l"
    by (rule takeWhile_mem_read) (use l in auto)
  show "c_strlen m a = Some (length (takeWhile (\<lambda>c. c \<noteq> 0) (mem_read m a n)))"
    unfolding t length_mem_read c_strlen_def by (rule strlen_from_eq) (use l in auto)
  show "mem_read m a (length (takeWhile (\<lambda>c. c \<noteq> 0) (mem_read m a n)))
      = takeWhile (\<lambda>c. c \<noteq> 0) (mem_read m a n)"
    by (simp add: t)
qed

section \<open>The entries of a directory\<close>

function dir_offsets :: "nat \<Rightarrow> nat \<Rightarrow> nat list" where
  "dir_offsets sz off = (if off < sz then off # dir_offsets sz (off + 128) else [])"
  by pat_completeness auto
termination by (relation "measure (\<lambda>(sz, off). sz - off)") auto

declare dir_offsets.simps [simp del]

definition dir_entries :: "mem \<Rightarrow> nat \<Rightarrow> nat list" where
  "dir_entries m dir = map (\<lambda>off. ospfs_inode_data m dir (of_nat off)) (dir_offsets (unat (oi_size m dir)) 0)"

lemma dir_offsets_bound: "o' \<in> set (dir_offsets sz off) \<Longrightarrow> o' < sz"
proof (induction sz off rule: dir_offsets.induct)
  case (1 sz off)
  then show ?case using dir_offsets.simps [of sz off] by (auto split: if_splits)
qed

lemma dir_offsets_aligned: "o' \<in> set (dir_offsets sz off) \<Longrightarrow> off mod 128 = 0 \<Longrightarrow> o' mod 128 = 0"
proof (induction sz off rule: dir_offsets.induct)
  case (1 sz off)
  then show ?case using dir_offsets.simps [of sz off] by (auto split: if_splits)
qed

definition names_terminated :: "mem \<Rightarrow> nat \<Rightarrow> bool" where
  "names_terminated m dir \<longleftrightarrow> (\<forall>od \<in> set (dir_entries m dir). od_ino m od \<noteq> 0 \<longrightarrow> c_string_in m (od + 4) 124)"

abbreviation has_name :: "mem \<Rightarrow> u8 list \<Rightarrow> nat \<Rightarrow> bool" where
  "has_name m name od \<equiv> de_ino (direntry_at m od) \<noteq> 0 \<and> de_name (direntry_at m od) = name"

lemma entry_matches_eq:
  assumes "od_ino m od \<noteq> 0 \<longrightarrow> c_string_in m (od + 4) 124"
  shows "entry_matches m od name (length name) = Some (has_name m name od)"
proof (cases "od_ino m od = 0")
  case True
  then show ?thesis by (simp add: entry_matches_def direntry_at_def)
next
  case False
  with assms have s: "c_string_in m (od + 4) 124" by simp
  let ?n = "takeWhile (\<lambda>c. c \<noteq> 0) (mem_read m (od + 4) 124)"
  have "length ?n = length name \<and> mem_read m (od + 4) (length name) = name \<longleftrightarrow> ?n = name"
    using c_strlen_eq(2) [OF s] by metis
  then show ?thesis
    using False c_strlen_eq(1) [OF s] by (simp add: entry_matches_def direntry_at_def)
qed

lemma find_direntry_from_eq:
  assumes "\<forall>o' \<in> set (dir_offsets (unat (oi_size m dir)) off). od_ino m (ospfs_inode_data m dir (of_nat o')) \<noteq> 0
      \<longrightarrow> c_string_in m (ospfs_inode_data m dir (of_nat o') + 4) 124"
  shows "find_direntry_from m dir name (length name) off
    = Some (find (has_name m name) (map (\<lambda>o'. ospfs_inode_data m dir (of_nat o'))
        (dir_offsets (unat (oi_size m dir)) off)))"
  using assms
proof (induction m dir name "length name" off rule: find_direntry_from.induct)
  case (1 m dir name off)
  show ?case
  proof (cases "off < unat (oi_size m dir)")
    case False
    then show ?thesis by (simp add: find_direntry_from.simps [of m dir name _ off] dir_offsets.simps)
  next
    case True
    let ?od = "ospfs_inode_data m dir (of_nat off)"
    have e: "entry_matches m ?od name (length name) = Some (has_name m name ?od)"
      by (rule entry_matches_eq) (use 1(2) True dir_offsets.simps [of "unat (oi_size m dir)" off] in simp)
    have d: "dir_offsets (unat (oi_size m dir)) off = off # dir_offsets (unat (oi_size m dir)) (off + 128)"
      using True by (simp add: dir_offsets.simps)
    show ?thesis
    proof (cases "has_name m name ?od")
      case T: True
      then show ?thesis using True e d by (subst find_direntry_from.simps) (simp add: Let_def)
    next
      case F: False
      then have e': "entry_matches m ?od name (length name) = Some False" unfolding e by blast
      have "find_direntry_from m dir name (length name) (off + 128)
          = Some (find (has_name m name) (map (\<lambda>o'. ospfs_inode_data m dir (of_nat o'))
              (dir_offsets (unat (oi_size m dir)) (off + 128))))"
        by (rule 1(1) [OF True refl]) (use e' 1(2) d in auto)
      then show ?thesis using True F e' d by (subst find_direntry_from.simps) (auto simp: Let_def)
    qed
  qed
qed

lemma find_direntry_eq:
  assumes "names_terminated m dir"
  shows "find_direntry m dir name (int (length name)) = Some (find (has_name m name) (dir_entries m dir))"
  using find_direntry_from_eq [of m dir 0 name] assms
  by (simp add: find_direntry_def dir_entries_def names_terminated_def)

lemma blank_scan_eq:
  "blank_scan m dir off = find (\<lambda>od. od_ino m od = 0)
     (map (\<lambda>o'. ospfs_inode_data m dir (of_nat o')) (dir_offsets (unat (oi_size m dir)) off))"
proof (induction m dir off rule: blank_scan.induct)
  case (1 m dir off)
  then show ?case
    by (subst blank_scan.simps, subst dir_offsets.simps) (simp add: Let_def)
qed

lemma dir_lookup_from_eq:
  assumes "\<forall>o' \<in> set (dir_offsets (unat (oi_size m dir)) off). od_ino m (ospfs_inode_data m dir (of_nat o')) \<noteq> 0
      \<longrightarrow> c_string_in m (ospfs_inode_data m dir (of_nat o') + 4) 124"
  shows "dir_lookup_from ni m dir name off
    = (case find (has_name m name) (map (\<lambda>o'. ospfs_inode_data m dir (of_nat o'))
          (dir_offsets (unat (oi_size m dir)) off)) of
        None \<Rightarrow> Some (Inr None)
      | Some od \<Rightarrow>
          (case ospfs_mk_linux_inode ni m (od_ino m od) of
             None \<Rightarrow> None | Some None \<Rightarrow> Some (Inl EINVAL) | Some (Some i) \<Rightarrow> Some (Inr (Some i))))"
  using assms
proof (induction ni m dir name off rule: dir_lookup_from.induct)
  case (1 ni m dir name off)
  show ?case
  proof (cases "off < unat (oi_size m dir)")
    case False
    then show ?thesis by (simp add: dir_lookup_from.simps [of ni m dir name off] dir_offsets.simps)
  next
    case True
    let ?od = "ospfs_inode_data m dir (of_nat off)"
    have e: "entry_matches m ?od name (length name) = Some (has_name m name ?od)"
      by (rule entry_matches_eq) (use 1(2) True dir_offsets.simps [of "unat (oi_size m dir)" off] in simp)
    have d: "dir_offsets (unat (oi_size m dir)) off = off # dir_offsets (unat (oi_size m dir)) (off + 128)"
      using True by (simp add: dir_offsets.simps)
    show ?thesis
    proof (cases "has_name m name ?od")
      case T: True
      then show ?thesis using True e d by (subst dir_lookup_from.simps) (simp add: Let_def)
    next
      case F: False
      then have e': "entry_matches m ?od name (length name) = Some False" unfolding e by blast
      note IH = 1(1) [OF True refl e'] 
      have ih: "dir_lookup_from ni m dir name (off + 128)
        = (case find (has_name m name) (map (\<lambda>o'. ospfs_inode_data m dir (of_nat o'))
              (dir_offsets (unat (oi_size m dir)) (off + 128))) of
            None \<Rightarrow> Some (Inr None)
          | Some od \<Rightarrow>
              (case ospfs_mk_linux_inode ni m (od_ino m od) of
                 None \<Rightarrow> None | Some None \<Rightarrow> Some (Inl EINVAL) | Some (Some i) \<Rightarrow> Some (Inr (Some i))))"
        by (rule IH) (use 1(2) d in auto)
      have f: "find (has_name m name) (map (\<lambda>o'. ospfs_inode_data m dir (of_nat o')) (dir_offsets (unat (oi_size m dir)) off))
        = find (has_name m name) (map (\<lambda>o'. ospfs_inode_data m dir (of_nat o')) (dir_offsets (unat (oi_size m dir)) (off + 128)))"
        using F unfolding d by auto
      show ?thesis unfolding f ih [symmetric] using True e' by (subst dir_lookup_from.simps) (simp add: Let_def)
    qed
  qed
qed

text \<open>C31: In a directory whose used entries have terminated names, \<open>find_direntry\<close> returns the
  first used entry with the given name, and \<open>ospfs_dir_lookup\<close> attaches the inode of exactly
  that entry, or no inode when there is none.\<close>

theorem lookup_finds_first_entry:
  assumes "ospfs_inode m dir_ino = Some dir" "names_terminated m dir" "length name \<le> OSPFS_MAXNAMELEN"
  shows "find_direntry m dir name (int (length name)) = Some (find (has_name m name) (dir_entries m dir))
    \<and> ospfs_dir_lookup new_inode m dir_ino name =
        (case find (has_name m name) (dir_entries m dir) of
           None \<Rightarrow> Some (Inr None)
         | Some od \<Rightarrow>
             (case ospfs_mk_linux_inode new_inode m (od_ino m od) of
                None \<Rightarrow> None | Some None \<Rightarrow> Some (Inl EINVAL) | Some (Some i) \<Rightarrow> Some (Inr (Some i))))"
  using find_direntry_eq [OF assms(2)] assms
    dir_lookup_from_eq [of m dir 0 new_inode name]
  by (simp add: ospfs_dir_lookup_def dir_entries_def names_terminated_def)

section \<open>Addresses of entries\<close>

text \<open>
  \<open>dir_file m dir\<close>: a directory of at most ten blocks whose size is a multiple of the entry size.
\<close>

definition dir_file :: "mem \<Rightarrow> nat \<Rightarrow> bool" where
  "dir_file m dir \<longleftrightarrow> direct_file m dir \<and> unat (oi_size m dir) mod 128 = 0"

lemma dir_entry_addr:
  assumes "wf_layout m" "dir_file m dir" "od \<in> set (dir_entries m dir)"
  obtains q where "q < unat (oi_size m dir)" "q mod 128 = 0" "od = direct_addr m dir q"
proof -
  obtain q where q: "q \<in> set (dir_offsets (unat (oi_size m dir)) 0)" "od = ospfs_inode_data m dir (of_nat q)"
    using assms(3) by (auto simp: dir_entries_def)
  have lt: "q < unat (oi_size m dir)" by (rule dir_offsets_bound [OF q(1)])
  have "unat (of_nat q mod 1024 :: u32) = q mod 1024"
    unfolding unat_mod_distrib unat_of_nat_lt [OF lt] by simp
  then have "od = direct_addr m dir q"
    using direct_block_facts(2) [OF assms(1) _ lt] assms(2) q(2)
    by (simp add: dir_file_def ospfs_inode_data_def)
  then show thesis using that [OF lt] dir_offsets_aligned [OF q(1)] by simp
qed

lemma dir_entry_place:
  assumes "wf_layout m" "dir_file m dir" "od \<in> set (dir_entries m dir)"
  shows "od mod 128 = 0" "data_start m * 1024 \<le> od"
proof -
  obtain q where q: "q < unat (oi_size m dir)" "q mod 128 = 0" "od = direct_addr m dir q"
    using dir_entry_addr [OF assms] .
  have "(q mod 1024) mod 128 = 0" using q(2) mod_mod_cancel [of 128 1024 q] by simp
  moreover have "(x * 1024 + y) mod 128 = y mod 128" for x y :: nat
  proof -
    have "x * 1024 + y = y + 128 * (x * 8)" by simp
    then show ?thesis by (metis mod_mult_self2)
  qed
  ultimately show "od mod 128 = 0" by (simp add: q(3) direct_addr_def)
  show "data_start m * 1024 \<le> od"
    using direct_block_facts(3) [OF assms(1) _ q(1)] assms(2) q(3) by (simp add: dir_file_def)
qed

lemma aligned_disjoint:
  fixes a b :: nat
  assumes "a mod 128 = 0" "b mod 128 = 0" "a \<noteq> b"
  shows "a + 128 \<le> b \<or> b + 128 \<le> a"
proof -
  from assms(1,2) obtain i j where "a = 128 * i" "b = 128 * j"
    by (auto simp: mod_eq_0_iff_dvd elim!: dvdE)
  with assms(3) show ?thesis by (cases i j rule: linorder_cases) auto
qed

text \<open>Filling one entry: what it holds afterwards, and that nothing outside it changes.\<close>

lemma set_direntry_frame:
  assumes "length name \<le> 123" "a < od \<or> od + 128 \<le> a"
  shows "set_direntry m od ino name a = m a"
  using assms by (auto simp: set_direntry_def mem_write_apply_other wr32_apply_other)

lemma set_direntry_at:
  assumes "length name \<le> 123" "0 \<notin> set name"
  shows "direntry_at (set_direntry m od ino name) od = \<lparr>de_ino = ino, de_name = name\<rparr>"
    "c_string_in (set_direntry m od ino name) (od + 4) 124"
proof -
  let ?m = "set_direntry m od ino name"
  have byte: "?m (od + 4 + i) = name ! i" if "i < length name" for i
    using that by (simp add: set_direntry_def mem_write_def)
  have nul: "?m (od + 4 + length name) = 0" by (simp add: set_direntry_def)
  then show "c_string_in ?m (od + 4) 124"
    using assms(1) by (auto simp: c_string_in_def intro!: exI [of _ "length name"])
  have "name ! i \<noteq> 0" if "i < length name" for i using assms(2) that by (metis nth_mem)
  then have "takeWhile (\<lambda>c. c \<noteq> 0) (mem_read ?m (od + 4) 124) = mem_read ?m (od + 4) (length name)"
    by (intro takeWhile_mem_read) (use byte nul assms(1) in auto)
  moreover have "mem_read ?m (od + 4) (length name) = name"
    by (rule nth_equalityI) (simp_all add: byte)
  moreover have "rd32 ?m od = ino"
  proof -
    have "rd32 ?m od = rd32 (wr32 m od ino) od"
      by (rule rd32_cong) (auto simp: set_direntry_def mem_write_apply_other)
    then show ?thesis by simp
  qed
  ultimately show "direntry_at ?m od = \<lparr>de_ino = ino, de_name = name\<rparr>"
    by (simp add: direntry_at_def)
qed

lemma direntry_at_cong:
  assumes "\<forall>a. od \<le> a \<and> a < od + 128 \<longrightarrow> m' a = m a"
  shows "direntry_at m' od = direntry_at m od" "od_ino m' od = od_ino m od"
    "c_string_in m' (od + 4) 124 = c_string_in m (od + 4) 124"
proof -
  have r: "rd32 m' od = rd32 m od" by (rule rd32_cong) (use assms in auto)
  have n: "mem_read m' (od + 4) 124 = mem_read m (od + 4) 124"
    by (rule mem_read_cong) (use assms in auto)
  show "direntry_at m' od = direntry_at m od" "od_ino m' od = od_ino m od"
    using r n by (simp_all add: direntry_at_def)
  show "c_string_in m' (od + 4) 124 = c_string_in m (od + 4) 124"
    unfolding c_string_in_def by (intro ex_cong1 conj_cong refl) (use assms in auto)
qed

text \<open>
  A change outside the directory's inode, its direct pointers' blocks aside, keeps the list
  of entries.
\<close>

lemma dir_entries_cong:
  assumes "wf_layout m" "direct_file m dir" "direct_file m' dir" "wf_layout m'"
    and "inode_at m' dir = inode_at m dir"
  shows "dir_entries m' dir = dir_entries m dir"
proof -
  note I = inode_at_fields [OF assms(5)]
  have "ospfs_inode_data m' dir (of_nat o') = ospfs_inode_data m dir (of_nat o')"
    if "o' \<in> set (dir_offsets (unat (oi_size m dir)) 0)" for o'
  proof -
    have lt: "o' < unat (oi_size m dir)" by (rule dir_offsets_bound [OF that])
    have "o' div 1024 < 10"
      using div_less_nblk [OF lt] direct_file_nblk [OF assms(2)] by linarith
    then have "ospfs_inode_blockno m' dir (of_nat o') = ospfs_inode_blockno m dir (of_nat o')"
      using direct_blockno [OF assms(2) lt] direct_blockno [OF assms(3), of o'] lt I(1,7) by simp
    then show ?thesis by (simp add: ospfs_inode_data_def)
  qed
  then show ?thesis unfolding dir_entries_def I(1) by (intro map_cong refl)
qed

section \<open>Creating a file\<close>

lemma inode_change:
  assumes wf: "wf_disk m" and f: "inode_addr m f"
    and same: "\<forall>a. a < f \<or> f + 64 \<le> a \<longrightarrow> m' a = m a"
  shows "wf_disk m'" "inode_addr m oi \<Longrightarrow> oi \<noteq> f \<Longrightarrow> inode_at m' oi = inode_at m oi"
    "os_nblocks m' = os_nblocks m" "os_ninodes m' = os_ninodes m" "os_firstinob m' = os_firstinob m"
    "data_start m' = data_start m" "inode_addr m' = inode_addr m"
    "j < unat (os_nblocks m) \<Longrightarrow> block_is_free m' j = block_is_free m j"
    "data_start m * 1024 \<le> a \<Longrightarrow> m' a = m a"
    "direct_file m dir \<Longrightarrow> dir \<noteq> f \<Longrightarrow> direct_file m' dir"
proof -
  note L = wf_disk_layout [OF wf] and WD = wf_layoutD [OF wf_disk_layout [OF wf]]
  note IB = inode_bounds [OF L f]
  have "\<And>a. a < 2048 \<Longrightarrow> m' a = m a" using same IB by simp
  note F = super_frame [OF this]
  show "os_nblocks m' = os_nblocks m" "os_ninodes m' = os_ninodes m" "os_firstinob m' = os_firstinob m"
    "data_start m' = data_start m" "inode_addr m' = inode_addr m" by (simp_all add: F)
  show free: "block_is_free m' j = block_is_free m j" if "j < unat (os_nblocks m)" for j
    by (rule free_frame [OF L that]) (use same IB in simp)
  show "wf_disk m'" using wf free WD(3) by (auto simp: wf_disk_def F)
  show ino: "inode_at m' oi = inode_at m oi" if "inode_addr m oi" "oi \<noteq> f" for oi
    by (rule inode_at_cong) (use same inode_disjoint [OF f that(1)] that(2) in auto)
  show "m' a = m a" if "data_start m * 1024 \<le> a" for a using that same IB by simp
  show "direct_file m' dir" if df: "direct_file m dir" and ne: "dir \<noteq> f"
  proof -
    have "inode_addr m dir" using df by (simp add: direct_file_def)
    note I = inode_at_fields [OF ino [OF this ne]]
    have nb: "nblk m' dir = nblk m dir" by (simp add: nblk_def I(1))
    have d: "oi_direct m' dir k = oi_direct m dir k" if "k < nblk m dir" for k
      using I(7) that direct_file_nblk [OF df] by simp
    show ?thesis using df d free by (auto simp: direct_file_def nb F I(1,2))
  qed
qed

lemma free_inode_scan_cases:
  "(\<forall>k. ino \<le> k \<and> k < unat (os_ninodes m) \<longrightarrow>
       oi_nlink m (ospfs_block (os_firstinob m) + 64 * k) \<noteq> 0) \<and> free_inode_scan m ino = 0
   \<or> (\<exists>k. ino \<le> k \<and> k < unat (os_ninodes m) \<and> free_inode_scan m ino = of_nat k
       \<and> oi_nlink m (ospfs_block (os_firstinob m) + 64 * k) = 0
       \<and> (\<forall>j. ino \<le> j \<and> j < k \<longrightarrow> oi_nlink m (ospfs_block (os_firstinob m) + 64 * j) \<noteq> 0))"
proof (induction m ino rule: free_inode_scan.induct)
  case (1 m ino)
  show ?case
  proof (cases "ino < unat (os_ninodes m) \<and> oi_nlink m (ospfs_block (os_firstinob m) + 64 * ino) \<noteq> 0")
    case True
    then have s: "free_inode_scan m ino = free_inode_scan m (ino + 1)"
      by (simp add: free_inode_scan.simps [of m ino])
    have le: "ino \<le> k \<longleftrightarrow> k = ino \<or> ino + 1 \<le> k" for k by auto
    show ?thesis using 1 True unfolding s le by auto
  next
    case False
    then show ?thesis by (auto simp: free_inode_scan.simps [of m ino])
  qed
qed

lemma find_free_inode_some:
  assumes "find_free_inode m \<noteq> 0"
  obtains k where "2 \<le> k" "k < unat (os_ninodes m)" "find_free_inode m = of_nat k"
    "unat (find_free_inode m) = k"
    "ospfs_inode m (find_free_inode m) = Some (ospfs_block (os_firstinob m) + 64 * k)"
    "oi_nlink m (ospfs_block (os_firstinob m) + 64 * k) = 0"
proof -
  obtain k where k: "2 \<le> k" "k < unat (os_ninodes m)" "find_free_inode m = of_nat k"
    "oi_nlink m (ospfs_block (os_firstinob m) + 64 * k) = 0"
    using free_inode_scan_cases [of 2 m] assms unfolding find_free_inode_def by metis
  have u: "unat (of_nat k :: u32) = k" by (rule unat_of_nat_lt [OF k(2)])
  have "\<not> os_ninodes m \<le> of_nat k" unfolding word_le_nat_alt u using k(2) by simp
  then have "ospfs_inode m (find_free_inode m) = Some (ospfs_block (os_firstinob m) + 64 * k)"
    by (simp add: ospfs_inode_def k(3) u)
  then show thesis using that k u by simp
qed

text \<open>The four stores that initialise the new inode.\<close>

definition init_inode :: "mem \<Rightarrow> nat \<Rightarrow> u32 \<Rightarrow> mem" where
  "init_inode m f mode = wr32 (wr32 (wr32 (wr32 m f 0) (f + 4) OSPFS_FTYPE_REG) (f + 8) 1) (f + 12) mode"

lemma init_inode_fields:
  "oi_size (init_inode m f mode) f = 0" "oi_ftype (init_inode m f mode) f = OSPFS_FTYPE_REG"
  "oi_nlink (init_inode m f mode) f = 1" "oi_mode (init_inode m f mode) f = mode"
  "a < f \<or> f + 64 \<le> a \<Longrightarrow> init_inode m f mode a = m a"
  by (auto simp: init_inode_def rd32_wr32_other wr32_apply_other)

text \<open>A directory after one of its blank entries has been filled.\<close>

lemma fill_entry:
  assumes wf: "wf_disk m" and dir: "dir_file m dir" and nt: "names_terminated m dir"
    and name: "length name \<le> 123" "0 \<notin> set name" and ino: "ino \<noteq> 0"
    and od: "od \<in> set (dir_entries m dir)"
    and new: "\<forall>od' \<in> set (dir_entries m dir). \<not> has_name m name od'"
  defines "m' \<equiv> set_direntry m od ino name"
  shows "wf_disk m'" "dir_file m' dir" "names_terminated m' dir" "dir_entries m' dir = dir_entries m dir"
    "find_direntry m' dir name (int (length name)) = Some (Some od)" "od_ino m' od = ino"
    "od' \<in> set (dir_entries m dir) \<Longrightarrow> od' \<noteq> od \<Longrightarrow> direntry_at m' od' = direntry_at m od'"
    "a < data_start m * 1024 \<Longrightarrow> m' a = m a"
proof -
  note L = wf_disk_layout [OF wf]
  have df: "direct_file m dir" using dir by (simp add: dir_file_def)
  note P = dir_entry_place [OF L dir]
  have low: "\<forall>a < data_start m * 1024. m' a = m a"
    unfolding m'_def using P(2) [OF od] set_direntry_frame [OF name(1)] by simp
  then show "a < data_start m * 1024 \<Longrightarrow> m' a = m a" by blast
  note D = data_change [OF wf low]
  show "wf_disk m'" by (rule D(1))
  have df': "direct_file m' dir" using D(2) df by simp
  then show "dir_file m' dir" using dir D(5) [OF df] by (simp add: dir_file_def)
  have "inode_at m' dir = inode_at m dir" using D(3) df by (simp add: direct_file_def)
  then show ents: "dir_entries m' dir = dir_entries m dir"
    by (rule dir_entries_cong [OF L df df' wf_disk_layout [OF D(1)]])
  have other: "direntry_at m' od' = direntry_at m od'" "od_ino m' od' = od_ino m od'"
    "c_string_in m' (od' + 4) 124 = c_string_in m (od' + 4) 124"
    if "od' \<in> set (dir_entries m dir)" "od' \<noteq> od" for od'
  proof -
    have "m' a = m a" if a: "od' \<le> a" "a < od' + 128" for a
      unfolding m'_def
      by (rule set_direntry_frame [OF name(1)])
         (use aligned_disjoint [OF P(1) [OF od] P(1) [OF \<open>od' \<in> set (dir_entries m dir)\<close>]]
           \<open>od' \<noteq> od\<close> a in auto)
    then have "\<forall>a. od' \<le> a \<and> a < od' + 128 \<longrightarrow> m' a = m a" by blast
    from direntry_at_cong [OF this]
    show "direntry_at m' od' = direntry_at m od'" "od_ino m' od' = od_ino m od'"
      "c_string_in m' (od' + 4) 124 = c_string_in m (od' + 4) 124" by blast+
  qed
  then show "od' \<in> set (dir_entries m dir) \<Longrightarrow> od' \<noteq> od \<Longrightarrow> direntry_at m' od' = direntry_at m od'"
    by blast
  note SD = set_direntry_at [OF name, of m od ino, folded m'_def]
  then show "od_ino m' od = ino" by (simp add: direntry_at_def)
  show nt': "names_terminated m' dir"
    unfolding names_terminated_def ents
    using nt other SD(2) by (metis names_terminated_def)
  have "find (has_name m' name) (dir_entries m dir) = Some od"
  proof -
    have n: "has_name m' name od' \<longleftrightarrow> od' = od" if "od' \<in> set (dir_entries m dir)" for od'
      using other(1) [OF that] new that SD(1) ino by (cases "od' = od") auto
    have "find P xs = Some x" if "x \<in> set xs" "\<And>y. y \<in> set xs \<Longrightarrow> P y \<longleftrightarrow> y = x" for P and x :: nat and xs
      using that by (induction xs) auto
    from this [OF od n] show ?thesis .
  qed
  then show "find_direntry m' dir name (int (length name)) = Some (Some od)"
    using find_direntry_eq [OF nt'] ents by simp
qed

text \<open>A name that is not found is in no entry, and a blank entry is found when there is one.\<close>

lemma no_entry:
  assumes "names_terminated m dir" "find_direntry m dir name (int (length name)) = Some None"
  shows "\<forall>od \<in> set (dir_entries m dir). \<not> has_name m name od"
  using assms(2) find_direntry_eq [OF assms(1)] by (auto simp: find_None_iff)

lemma blank_entry:
  assumes "\<exists>od \<in> set (dir_entries m dir). od_ino m od = 0"
  obtains od where "od \<in> set (dir_entries m dir)" "od_ino m od = 0" "create_blank_direntry m dir = Some (Inr od, m)"
proof -
  have "find (\<lambda>od. od_ino m od = 0) (dir_entries m dir) \<noteq> None" using assms by (auto simp: find_None_iff)
  then obtain od where f: "find (\<lambda>od. od_ino m od = 0) (dir_entries m dir) = Some od" by blast
  then have "create_blank_direntry m dir = Some (Inr od, m)"
    by (simp add: create_blank_direntry_def blank_scan_eq dir_entries_def)
  moreover have "od \<in> set (dir_entries m dir)" "od_ino m od = 0" using f by (auto simp: find_Some_iff)
  ultimately show thesis using that by blast
qed

text \<open>A change of another inode leaves a directory as it is.\<close>

lemma inode_change_dir:
  assumes wf: "wf_disk m" and f: "inode_addr m f" "dir \<noteq> f" and same: "\<forall>a. a < f \<or> f + 64 \<le> a \<longrightarrow> m1 a = m a"
    and dir: "dir_file m dir" "names_terminated m dir"
  shows "dir_file m1 dir" "names_terminated m1 dir" "dir_entries m1 dir = dir_entries m dir"
    "od \<in> set (dir_entries m dir) \<Longrightarrow> direntry_at m1 od = direntry_at m od \<and> od_ino m1 od = od_ino m od"
proof -
  note L = wf_disk_layout [OF wf] and C = inode_change [OF wf f(1) same]
  have df: "direct_file m dir" and da: "inode_addr m dir" using dir(1) by (simp_all add: dir_file_def direct_file_def)
  have df1: "direct_file m1 dir" by (rule C(10) [OF df f(2)])
  note I = inode_at_fields [OF C(2) [OF da f(2)]]
  show "dir_file m1 dir" using df1 dir(1) I(1) by (simp add: dir_file_def)
  show ents: "dir_entries m1 dir = dir_entries m dir"
    by (rule dir_entries_cong [OF L df df1 wf_disk_layout [OF C(1)] C(2) [OF da f(2)]])
  have entry: "direntry_at m1 od = direntry_at m od" "od_ino m1 od = od_ino m od"
    "c_string_in m1 (od + 4) 124 = c_string_in m (od + 4) 124"
    if "od \<in> set (dir_entries m dir)" for od
  proof -
    have "m1 a = m a" if "od \<le> a" "a < od + 128" for a
      by (rule C(9)) (use dir_entry_place(2) [OF L dir(1) \<open>od \<in> set (dir_entries m dir)\<close>] that in simp)
    then have "\<forall>a. od \<le> a \<and> a < od + 128 \<longrightarrow> m1 a = m a" by blast
    from direntry_at_cong [OF this] show "direntry_at m1 od = direntry_at m od" "od_ino m1 od = od_ino m od"
      "c_string_in m1 (od + 4) 124 = c_string_in m (od + 4) 124" by blast+
  qed
  then show "od \<in> set (dir_entries m dir) \<Longrightarrow> direntry_at m1 od = direntry_at m od \<and> od_ino m1 od = od_ino m od" by blast
  show "names_terminated m1 dir" using dir(2) entry by (simp add: names_terminated_def ents)
qed

text \<open>A change in the data region keeps inodes and free map.\<close>

lemma low_frame:
  assumes L: "wf_layout m" and same: "\<And>a. a < data_start m * 1024 \<Longrightarrow> m' a = m a"
  shows "a + 4 \<le> data_start m * 1024 \<Longrightarrow> rd32 m' a = rd32 m a"
    "inode_addr m oi \<Longrightarrow> inode_at m' oi = inode_at m oi" "os_ninodes m' = os_ninodes m" "os_firstinob m' = os_firstinob m"
    "j < unat (os_nblocks m) \<Longrightarrow> block_is_free m' j = block_is_free m j"
proof -
  show r: "a + 4 \<le> data_start m * 1024 \<Longrightarrow> rd32 m' a = rd32 m a" for a by (rule rd32_cong) (simp add: same)
  show "inode_addr m oi \<Longrightarrow> inode_at m' oi = inode_at m oi"
    by (rule inode_at_cong, rule same) (use inode_bounds [OF L, of oi] in simp)
  show "os_ninodes m' = os_ninodes m" "os_firstinob m' = os_firstinob m" using r wf_layoutD [OF L] by simp_all
  show "j < unat (os_nblocks m) \<Longrightarrow> block_is_free m' j = block_is_free m j"
    by (rule free_frame [OF L]) (use same wf_layoutD(2) [OF L] in auto)
qed

text \<open>C2: Creating a file with a new name of at most 123 characters, in a directory that has a
  blank entry, when there is a free inode: it succeeds, lookup then finds the name in the entry
  that was blank, the entry refers to the inode that was free, and that inode is an empty
  regular file with one link and the given mode. The other entries, the other inodes and the
  free-block map stay as they are, and the directory stays well formed.\<close>

theorem ospfs_create_then_lookup:
  assumes "wf_disk m" "ospfs_inode m dir_ino = Some dir" "dir_file m dir" "names_terminated m dir"
    and "oi_nlink m dir \<noteq> 0" "length name \<le> OSPFS_MAXNAMELEN" "0 \<notin> set name"
    and "find_direntry m dir name (int (length name)) = Some None"
    and "find_free_inode m \<noteq> 0" "\<exists>od \<in> set (dir_entries m dir). od_ino m od = 0"
  shows "\<exists>m' i od f. ospfs_create True m dir_ino name mode = Some (Inr i, m')
    \<and> wf_disk m' \<and> dir_file m' dir \<and> names_terminated m' dir \<and> dir_entries m' dir = dir_entries m dir
    \<and> find_direntry m' dir name (int (length name)) = Some (Some od)
    \<and> od_ino m od = 0 \<and> od_ino m' od = find_free_inode m
    \<and> ospfs_inode m' (find_free_inode m) = Some f
    \<and> oi_size m' f = 0 \<and> oi_ftype m' f = OSPFS_FTYPE_REG \<and> oi_nlink m' f = 1 \<and> oi_mode m' f = mode
    \<and> li_ino i = find_free_inode m
    \<and> (\<forall>od' \<in> set (dir_entries m dir). od' \<noteq> od \<longrightarrow> direntry_at m' od' = direntry_at m od')
    \<and> (\<forall>oi. inode_addr m oi \<and> oi \<noteq> f \<longrightarrow> inode_at m' oi = inode_at m oi)
    \<and> (\<forall>j < unat (os_nblocks m). block_is_free m' j = block_is_free m j)"
proof -
  note wf = assms(1) and L = wf_disk_layout [OF assms(1)]
  let ?ino = "find_free_inode m"
  obtain k where k: "2 \<le> k" "unat ?ino = k"
    "ospfs_inode m ?ino = Some (ospfs_block (os_firstinob m) + 64 * k)"
    "oi_nlink m (ospfs_block (os_firstinob m) + 64 * k) = 0"
    using find_free_inode_some [OF assms(9)] by metis
  define f where "f = ospfs_block (os_firstinob m) + 64 * k"
  have fa: "inode_addr m f" using ospfs_inode_addr [OF L] k(3) by (simp add: f_def)
  have ne: "dir \<noteq> f" using k(4) assms(5) f_def by auto
  define m1 where "m1 = init_inode m f mode"
  have same: "\<forall>a. a < f \<or> f + 64 \<le> a \<longrightarrow> m1 a = m a" unfolding m1_def by (simp add: init_inode_fields(5))
  note C = inode_change [OF wf fa same] and E = inode_change_dir [OF wf fa ne same assms(3,4)]
  have "\<exists>od \<in> set (dir_entries m1 dir). od_ino m1 od = 0" using assms(10) E(3,4) by simp
  then obtain od where od: "od \<in> set (dir_entries m1 dir)" "od_ino m1 od = 0"
    and blank: "create_blank_direntry m1 dir = Some (Inr od, m1)" by (rule blank_entry)
  have new1: "\<forall>od' \<in> set (dir_entries m1 dir). \<not> has_name m1 name od'"
    using no_entry [OF assms(4,8)] E(3,4) by simp
  define m3 where "m3 = set_direntry m1 od ?ino name"
  note FE = fill_entry [OF C(1) E(1,2) assms(6,7,9) od(1) new1, folded m3_def]
  note F3 = low_frame [OF wf_disk_layout [OF C(1)] FE(8)]
  have f3: "rd32 m3 a = rd32 m1 a" if "a + 4 \<le> data_start m * 1024" for a using F3(1) that by (simp add: C(6))
  have fld: "oi_size m3 f = 0" "oi_ftype m3 f = 0" "oi_nlink m3 f = 1" "oi_mode m3 f = mode"
    using f3 inode_bounds [OF L fa] by (simp_all add: m1_def init_inode_fields)
  have "os_ninodes m3 = os_ninodes m" "os_firstinob m3 = os_firstinob m" using F3(3,4) C(4,5) by metis+
  then have ino3: "ospfs_inode m3 ?ino = Some f"
    using k(2,3) by (simp add: ospfs_inode_def f_def split: if_splits)
  define i where "i = \<lparr>li_ino = ?ino, li_size = 0, li_mode = mode OR 0x8000, li_nlink = 1, li_ops = Reg_ops\<rparr>"
  have mk: "ospfs_mk_linux_inode True m3 ?ino = Some (Some i)"
    using ino3 fld by (simp add: ospfs_mk_linux_inode_def i_def)
  have cr: "ospfs_create True m dir_ino name mode = Some (Inr i, m3)"
    using assms(2,8,9) k(3) blank mk
    by (simp add: ospfs_create_def Let_def m3_def m1_def init_inode_def flip: f_def)
  have inodes: "inode_at m3 oi = inode_at m oi" if "inode_addr m oi" "oi \<noteq> f" for oi
    using F3(2) [of oi] C(2) [OF that] that by (simp add: inode_addr_def C)
  have free: "block_is_free m3 j = block_is_free m j" if "j < unat (os_nblocks m)" for j
    using F3(5) [of j] C(8) [OF that] that by (simp add: C)
  have others: "\<forall>od' \<in> set (dir_entries m dir). od' \<noteq> od \<longrightarrow> direntry_at m3 od' = direntry_at m od'"
    using FE(7) E(3,4) by simp
  have "od_ino m od = 0" "dir_entries m3 dir = dir_entries m dir" using od E(3,4) FE(4) by simp_all
  then show ?thesis
    using cr FE(1-3) FE(5,6) ino3 fld others inodes free
    by (intro exI [of _ m3] exI [of _ i] exI [of _ od] exI [of _ f]) (simp add: i_def)
qed

section \<open>A small directory\<close>

text \<open>A directory of one block (inode 1, block 7) with the single entry \<open>hi\<close> for inode 2.\<close>

definition empty_dir_disk :: mem where
  "empty_dir_disk =
     wr32 (wr32 (wr32 (wr32 (wr32 tight_disk 3136 1024) 3140 1) 3144 1) 3152 7) 3208 1"

definition dir_disk :: mem where
  "dir_disk = set_direntry empty_dir_disk 7168 2 [104, 105]"

lemma empty_dir_disk_rd32 [simp]:
  "os_nblocks empty_dir_disk = 16" "os_ninodes empty_dir_disk = 16" "os_firstinob empty_dir_disk = 3"
  "rd32 empty_dir_disk 2048 = 0x60" "rd32 empty_dir_disk 3136 = 1024" "rd32 empty_dir_disk 3140 = 1"
  "rd32 empty_dir_disk 3144 = 1" "rd32 empty_dir_disk 3152 = 7" "rd32 empty_dir_disk 3208 = 1"
  "3212 \<le> a \<Longrightarrow> rd32 empty_dir_disk a = 0"
  by (simp_all add: empty_dir_disk_def rd32_wr32_other)

lemma empty_dir_disk_facts:
  "wf_disk empty_dir_disk" "dir_file empty_dir_disk 3136" "names_terminated empty_dir_disk 3136"
  "7168 \<in> set (dir_entries empty_dir_disk 3136)"
  "od \<in> set (dir_entries empty_dir_disk 3136) \<Longrightarrow> de_ino (direntry_at empty_dir_disk od) = 0"
proof -
  let ?m = empty_dir_disk
  have fr: "block_is_free ?m i \<longleftrightarrow> bit (0x60 :: u32) i" if "i < 32" for i
    using that by (simp add: bitvector_test_bit)
  have ds: "data_start ?m = 4" by (simp add: data_start_def)
  have "\<not> block_is_free ?m i" if "2 \<le> i" "i < 4" for i
  proof -
    have "i = 2 \<or> i = 3" using that by linarith
    then show ?thesis by (auto simp: fr)
  qed
  then show wf: "wf_disk ?m" by (simp add: wf_disk_def wf_layout_def ds)
  have "inode_addr ?m 3136" unfolding inode_addr_def by (rule exI [of _ 1]) simp
  then show df: "dir_file ?m 3136"
    by (simp add: dir_file_def direct_file_def nblk_def ds fr)
  have zero: "od_ino ?m od = 0" if "od \<in> set (dir_entries ?m 3136)" for od
    using dir_entry_place(2) [OF wf_disk_layout [OF wf] df that] by (simp add: ds)
  then show "names_terminated ?m 3136" by (simp add: names_terminated_def)
  show "od \<in> set (dir_entries ?m 3136) \<Longrightarrow> de_ino (direntry_at ?m od) = 0"
    using zero by (simp add: direntry_at_def)
  have "ospfs_inode_data ?m 3136 0 = 7168"
    by (simp add: ospfs_inode_data_def ospfs_inode_blockno_def ospfs_block_def)
  then show "7168 \<in> set (dir_entries ?m 3136)"
    by (subst dir_entries_def, subst dir_offsets.simps) simp
qed

lemma dir_disk_facts:
  "wf_disk dir_disk" "dir_file dir_disk 3136" "names_terminated dir_disk 3136"
  "dir_entries dir_disk 3136 = dir_entries empty_dir_disk 3136"
  "find_direntry dir_disk 3136 [104, 105] 2 = Some (Some 7168)" "od_ino dir_disk 7168 = 2"
  "find_direntry dir_disk 3136 [120] 1 = Some None" "find_free_inode dir_disk = 3"
  "ospfs_inode dir_disk 1 = Some 3136" "oi_nlink dir_disk 3136 = 1"
  "\<exists>od \<in> set (dir_entries dir_disk 3136). od_ino dir_disk od = 0"
proof -
  note E = empty_dir_disk_facts
  have ds: "data_start empty_dir_disk = 4" by (simp add: data_start_def)
  note F = fill_entry [OF E(1,2,3) _ _ _ E(4), of "[104, 105]" 2, folded dir_disk_def]
  have F': "wf_disk dir_disk" "dir_file dir_disk 3136" "names_terminated dir_disk 3136"
    "dir_entries dir_disk 3136 = dir_entries empty_dir_disk 3136"
    "find_direntry dir_disk 3136 [104, 105] 2 = Some (Some 7168)" "od_ino dir_disk 7168 = 2"
    "\<And>od. od \<in> set (dir_entries empty_dir_disk 3136) \<Longrightarrow> od \<noteq> 7168 \<Longrightarrow>
        direntry_at dir_disk od = direntry_at empty_dir_disk od"
    "\<And>a. a < 4096 \<Longrightarrow> dir_disk a = empty_dir_disk a"
    using F E(5) by (simp_all add: ds)
  then show "wf_disk dir_disk" "dir_file dir_disk 3136" "names_terminated dir_disk 3136"
    "dir_entries dir_disk 3136 = dir_entries empty_dir_disk 3136"
    "find_direntry dir_disk 3136 [104, 105] 2 = Some (Some 7168)" "od_ino dir_disk 7168 = 2" by blast+
  have low: "rd32 dir_disk a = rd32 empty_dir_disk a" if "a + 4 \<le> 4096" for a
    by (rule rd32_cong) (use F'(8) that in simp)
  have n: "\<not> has_name dir_disk [120] od" if "od \<in> set (dir_entries dir_disk 3136)" for od
  proof (cases "od = 7168")
    case True
    then show ?thesis using set_direntry_at(1) [of "[104, 105]" empty_dir_disk 7168 2]
      by (simp add: dir_disk_def)
  next
    case False
    then show ?thesis using F'(7) [of od] that E(5) [of od] by (simp add: F'(4))
  qed
  then have "find (has_name dir_disk [120]) (dir_entries dir_disk 3136) = None"
    by (simp add: find_None_iff)
  then show "find_direntry dir_disk 3136 [120] 1 = Some None"
    using find_direntry_eq [OF F'(3), of "[120]"] by simp
  show "find_free_inode dir_disk = 3"
    by (simp add: find_free_inode_def free_inode_scan.simps low ospfs_block_def)
  show "ospfs_inode dir_disk 1 = Some 3136"
    by (simp add: ospfs_inode_def low ospfs_block_def word_le_nat_alt)
  show "oi_nlink dir_disk 3136 = 1" by (simp add: low)
  have d: "dir_offsets 1024 0 = 0 # 128 # dir_offsets 1024 256"
    by (subst dir_offsets.simps, simp, subst dir_offsets.simps, simp)
  have "ospfs_inode_data empty_dir_disk 3136 128 = 7296"
    by (simp add: ospfs_inode_data_def ospfs_inode_blockno_def ospfs_block_def word_le_nat_alt)
  then have m: "7296 \<in> set (dir_entries empty_dir_disk 3136)"
    by (simp add: dir_entries_def d)
  moreover have "od_ino dir_disk 7296 = 0"
    using F'(7) [OF m] E(5) [OF m] by (simp add: direntry_at_def)
  ultimately show "\<exists>od \<in> set (dir_entries dir_disk 3136). od_ino dir_disk od = 0"
    unfolding F'(4) by blast
qed

theorem lookup_finds_first_entry_witness:
  "find (has_name dir_disk [104, 105]) (dir_entries dir_disk 3136) = Some 7168
    \<and> find_direntry dir_disk 3136 [104, 105] 2 = Some (Some 7168)"
  using lookup_finds_first_entry [OF dir_disk_facts(9,3), of "[104, 105]" True] dir_disk_facts(5)
  by simp

theorem ospfs_create_then_lookup_witness:
  "\<exists>m' i od. ospfs_create True dir_disk 1 [120] 0x1A4 = Some (Inr i, m') \<and> li_ino i = 3
    \<and> find_direntry m' 3136 [120] 1 = Some (Some od) \<and> od_ino m' od = 3"
proof -
  have "\<exists>m' i od f. ospfs_create True dir_disk 1 [120] 0x1A4 = Some (Inr i, m')
    \<and> find_direntry m' 3136 [120] (int (length [120 :: u8])) = Some (Some od)
    \<and> od_ino m' od = find_free_inode dir_disk \<and> li_ino i = find_free_inode dir_disk"
    using ospfs_create_then_lookup [OF dir_disk_facts(1,9,2,3), of "[120]" "0x1A4"] dir_disk_facts(7,8,10,11)
    by auto
  then show ?thesis unfolding dir_disk_facts(8) by auto
qed

end
