(* ===== verification/OspfsLinks.thy ===== *)
theory OspfsLinks
  imports OspfsDirProps
begin

text \<open>
  Hard links, symbolic links and \<open>readdir\<close>: a link made and removed again leaves the directory
  and the link count as they were, a conditional symbolic link resolves by user but is
  destroyed by root's first access, and \<open>readdir\<close> reports the used entries in order.
\<close>

section \<open>Hard links\<close>

lemma unlink_scan_eq:
  assumes "\<forall>o' \<in> set (dir_offsets (unat (oi_size m dir)) off). od_ino m (ospfs_inode_data m dir (of_nat o')) \<noteq> 0
      \<longrightarrow> c_string_in m (ospfs_inode_data m dir (of_nat o') + 4) 124"
    and "find (has_name m name) (map (\<lambda>o'. ospfs_inode_data m dir (of_nat o'))
        (dir_offsets (unat (oi_size m dir)) off)) = Some od"
  shows "\<exists>e < unat (oi_size m dir). unlink_scan m dir name off od0 = Some (e, Some od)"
  using assms
proof (induction m dir name off od0 rule: unlink_scan.induct)
  case (1 m dir name off od0)
  show ?case
  proof (cases "off < unat (oi_size m dir)")
    case False
    then show ?thesis using 1(3) by (simp add: dir_offsets.simps)
  next
    case True
    let ?od = "ospfs_inode_data m dir (of_nat off)"
    have e: "entry_matches m ?od name (length name) = Some (has_name m name ?od)"
      by (rule entry_matches_eq) (use 1(2) True dir_offsets.simps [of "unat (oi_size m dir)" off] in simp)
    have d: "dir_offsets (unat (oi_size m dir)) off = off # dir_offsets (unat (oi_size m dir)) (off + 128)"
      using True by (simp add: dir_offsets.simps)
    show ?thesis
    proof (cases "has_name m name ?od")
      case T: True
      then have "od = ?od" using 1(3) unfolding d by simp
      then have "unlink_scan m dir name off od0 = Some (off, Some od)"
        using True e T by (subst unlink_scan.simps) (simp add: Let_def)
      then show ?thesis using True by blast
    next
      case F: False
      then have e': "entry_matches m ?od name (length name) = Some False" unfolding e by blast
      have "\<exists>e < unat (oi_size m dir). unlink_scan m dir name (off + 128) (Some ?od) = Some (e, Some od)"
        by (rule 1(1) [OF True refl e']) (use 1(2,3) d F in auto)
      then show ?thesis using True e' by (subst unlink_scan.simps) (simp add: Let_def)
    qed
  qed
qed

lemma inode_word_change:
  "\<forall>a. a < s \<or> s + 64 \<le> a \<longrightarrow> wr32 m (s + 8) v a = m a"
  by (auto simp: wr32_apply_other)

text \<open>Clearing the inode number of an entry.\<close>

lemma clear_entry:
  assumes wf: "wf_disk m" and dir: "dir_file m dir" and nt: "names_terminated m dir"
    and od: "od \<in> set (dir_entries m dir)"
  shows "wf_disk (wr32 m od 0)" "dir_file (wr32 m od 0) dir" "names_terminated (wr32 m od 0) dir"
    "dir_entries (wr32 m od 0) dir = dir_entries m dir" "od_ino (wr32 m od 0) od = 0"
    "od' \<in> set (dir_entries m dir) \<Longrightarrow> od' \<noteq> od \<Longrightarrow> direntry_at (wr32 m od 0) od' = direntry_at m od'"
    "a < data_start m * 1024 \<Longrightarrow> wr32 m od 0 a = m a"
proof -
  let ?m = "wr32 m od 0"
  note L = wf_disk_layout [OF wf]
  have df: "direct_file m dir" using dir by (simp add: dir_file_def)
  note P = dir_entry_place [OF L dir]
  have low: "\<forall>a < data_start m * 1024. ?m a = m a"
    using P(2) [OF od] by (simp add: wr32_apply_other)
  then show "a < data_start m * 1024 \<Longrightarrow> ?m a = m a" by blast
  note D = data_change [OF wf low]
  show "wf_disk ?m" by (rule D(1))
  have df': "direct_file ?m dir" using D(2) df by simp
  then show "dir_file ?m dir" using dir D(5) [OF df] by (simp add: dir_file_def)
  have "inode_at ?m dir = inode_at m dir" using D(3) df by (simp add: direct_file_def)
  then show ents: "dir_entries ?m dir = dir_entries m dir"
    by (rule dir_entries_cong [OF L df df' wf_disk_layout [OF D(1)]])
  show od0: "od_ino ?m od = 0" by simp
  have other: "direntry_at ?m od' = direntry_at m od'" "od_ino ?m od' = od_ino m od'"
    "c_string_in ?m (od' + 4) 124 = c_string_in m (od' + 4) 124"
    if "od' \<in> set (dir_entries m dir)" "od' \<noteq> od" for od'
  proof -
    have "\<forall>a. od' \<le> a \<and> a < od' + 128 \<longrightarrow> ?m a = m a"
      using aligned_disjoint [OF P(1) [OF od] P(1) [OF that(1)]] that(2)
      by (auto simp: wr32_apply_other)
    from direntry_at_cong [OF this]
    show "direntry_at ?m od' = direntry_at m od'" "od_ino ?m od' = od_ino m od'"
      "c_string_in ?m (od' + 4) 124 = c_string_in m (od' + 4) 124" by blast+
  qed
  then show "od' \<in> set (dir_entries m dir) \<Longrightarrow> od' \<noteq> od \<Longrightarrow> direntry_at ?m od' = direntry_at m od'"
    by blast
  show "names_terminated ?m dir"
    unfolding names_terminated_def ents
    using nt other od0 by (metis names_terminated_def)
qed

text \<open>Changing a link count somewhere else keeps a directory as it is.\<close>

lemma nlink_change:
  fixes v :: u32
  assumes wf: "wf_disk m" and dir: "dir_file m dir" and nt: "names_terminated m dir"
    and s: "inode_addr m s" "s \<noteq> dir"
  defines "m' \<equiv> wr32 m (s + 8) v"
  shows "wf_disk m'" "dir_file m' dir" "names_terminated m' dir" "dir_entries m' dir = dir_entries m dir"
    "od \<in> set (dir_entries m dir) \<Longrightarrow> direntry_at m' od = direntry_at m od"
    "inode_addr m' = inode_addr m" "oi_size m' dir = oi_size m dir"
    "os_ninodes m' = os_ninodes m" "os_firstinob m' = os_firstinob m"
proof -
  note C = inode_change [OF wf s(1) inode_word_change [of s m v], folded m'_def]
  show "wf_disk m'" "inode_addr m' = inode_addr m" "os_ninodes m' = os_ninodes m"
    "os_firstinob m' = os_firstinob m" by (fact C)+
  note E = inode_change_dir [OF wf s(1) s(2) [symmetric] inode_word_change [of s m v] dir nt, folded m'_def]
  show "dir_file m' dir" "names_terminated m' dir" "dir_entries m' dir = dir_entries m dir" by (fact E)+
  show "od \<in> set (dir_entries m dir) \<Longrightarrow> direntry_at m' od = direntry_at m od" using E(4) by blast
  have "inode_at m' dir = inode_at m dir"
    by (rule C(2)) (use dir s(2) in \<open>auto simp: dir_file_def direct_file_def\<close>)
  from inode_at_fields(1) [OF this] show "oi_size m' dir = oi_size m dir" .
qed

text \<open>What a link adds.\<close>

lemma link_adds:
  assumes "wf_disk m" "ospfs_inode m dir_ino = Some dir" "dir_file m dir" "names_terminated m dir"
    and "ospfs_inode m src_ino = Some s" "s \<noteq> dir" "src_ino \<noteq> 0"
    and "length name \<le> OSPFS_MAXNAMELEN" "0 \<notin> set name"
    and "find_direntry m dir name (int (length name)) = Some None"
    and "\<exists>od \<in> set (dir_entries m dir). od_ino m od = 0"
  obtains m1 od where "ospfs_link m src_ino dir_ino name = Some (Inr (), m1)" "od \<in> set (dir_entries m dir)"
    "wf_disk m1" "dir_file m1 dir" "names_terminated m1 dir" "dir_entries m1 dir = dir_entries m dir"
    "find (has_name m1 name) (dir_entries m1 dir) = Some od" "od_ino m1 od = src_ino"
    "oi_nlink m1 s = oi_nlink m s + 1" "\<forall>i. ospfs_inode m1 i = ospfs_inode m i"
    "\<forall>od' \<in> set (dir_entries m dir). od' \<noteq> od \<longrightarrow> direntry_at m1 od' = direntry_at m od'"
proof -
  note wf = assms(1) and L = wf_disk_layout [OF assms(1)]
  have sa: "inode_addr m s" by (rule ospfs_inode_addr [OF L assms(5)])
  obtain od where od: "od \<in> set (dir_entries m dir)" and blank: "create_blank_direntry m dir = Some (Inr od, m)"
    using blank_entry [OF assms(11)] by blast
  define ma where "ma = set_direntry m od src_ino name"
  note FE = fill_entry [OF wf assms(3,4,8,9,7) od no_entry [OF assms(4,10)], folded ma_def]
  note F = low_frame [OF L FE(8)]
  have sup: "os_ninodes ma = os_ninodes m" "os_firstinob ma = os_firstinob m" "oi_nlink ma s = oi_nlink m s"
    using F(1,3,4) inode_bounds [OF L sa] by simp_all
  have inos: "ospfs_inode ma i = ospfs_inode m i" for i by (simp add: ospfs_inode_def sup)
  have saa: "inode_addr ma s" using sa by (simp add: inode_addr_def sup)
  define m1 where "m1 = wr32 ma (s + 8) (oi_nlink ma s + 1)"
  note N1 = nlink_change [OF FE(1-3) saa assms(6), where v = "oi_nlink ma s + 1", folded m1_def]
  have lk: "ospfs_link m src_ino dir_ino name = Some (Inr (), m1)"
    using assms(2,5,8,10) blank by (simp add: ospfs_link_def Let_def inos m1_def flip: ma_def)
  have entry: "direntry_at m1 od' = direntry_at ma od'" if "od' \<in> set (dir_entries m dir)" for od'
    using N1(5) [of od'] that FE(4) by simp
  have "find (has_name m1 name) (dir_entries m dir) = find (has_name ma name) (dir_entries m dir)"
    using entry by (intro find_cong) auto
  then have find1: "find (has_name m1 name) (dir_entries m1 dir) = Some od"
    using FE(5) find_direntry_eq [OF FE(3)] by (simp add: N1(4) FE(4))
  have ents: "dir_entries m1 dir = dir_entries m dir" using N1(4) FE(4) by simp
  have ino1: "od_ino m1 od = src_ino" using entry [OF od] FE(6) by (simp add: direntry_at_def)
  have inos1: "ospfs_inode m1 i = ospfs_inode m i" for i by (simp add: ospfs_inode_def N1(8,9) sup)
  have nl: "oi_nlink m1 s = oi_nlink m s + 1" by (simp add: m1_def sup)
  have rest: "direntry_at m1 od' = direntry_at m od'" if "od' \<in> set (dir_entries m dir)" "od' \<noteq> od" for od'
    using entry [OF that(1)] FE(7) that by simp
  show thesis using that [OF lk od N1(1-3) ents find1 ino1 nl] inos1 rest by blast
qed

text \<open>What removing a name takes away, when the inode keeps another link.\<close>

lemma unlink_removes:
  assumes "wf_disk m" "ospfs_inode m dir_ino = Some dir" "dir_file m dir" "names_terminated m dir"
    and "ospfs_inode m src_ino = Some s" "s \<noteq> dir" "oi_nlink m s \<noteq> 0" "oi_nlink m s \<noteq> 1"
    and f: "find (has_name m name) (dir_entries m dir) = Some od"
  obtains m2 where "ospfs_unlink m src_ino dir_ino name = Some (Inr (), m2)"
    "names_terminated m2 dir" "dir_entries m2 dir = dir_entries m dir" "od_ino m2 od = 0"
    "oi_nlink m2 s = oi_nlink m s - 1"
    "\<forall>od' \<in> set (dir_entries m dir). od' \<noteq> od \<longrightarrow> direntry_at m2 od' = direntry_at m od'"
proof -
  note L = wf_disk_layout [OF assms(1)]
  have sa: "inode_addr m s" by (rule ospfs_inode_addr [OF L assms(5)])
  note IB = inode_bounds [OF L sa]
  obtain e where e: "e < unat (oi_size m dir)" "unlink_scan m dir name 0 None = Some (e, Some od)"
    using unlink_scan_eq [of m dir 0 name od None] assms(4) f by (auto simp: names_terminated_def dir_entries_def)
  have od: "od \<in> set (dir_entries m dir)" using f by (auto simp: find_Some_iff)
  define mb where "mb = wr32 m od 0"
  note CE = clear_entry [OF assms(1,3,4) od, folded mb_def]
  note F = low_frame [OF L CE(7)]
  have nlb: "oi_nlink mb s = oi_nlink m s" "oi_ftype mb s = oi_ftype m s" using F(1) IB by simp_all
  have sab: "inode_addr mb s" using sa F(3,4) by (simp add: inode_addr_def)
  define m2 where "m2 = wr32 mb (s + 8) (oi_nlink mb s - 1)"
  note N2 = nlink_change [OF CE(1-3) sab assms(6), where v = "oi_nlink mb s - 1", folded m2_def]
  have nl2: "oi_nlink m2 s = oi_nlink m s - 1" by (simp add: m2_def nlb)
  have "ospfs_unlink m src_ino dir_ino name = Some (Inr (), m2)"
    using assms(2,5,7,8) e nlb by (simp add: ospfs_unlink_def Let_def m2_def flip: mb_def)
  moreover have "dir_entries m2 dir = dir_entries m dir" using N2(4) CE(4) by simp
  moreover have "od_ino m2 od = 0" using N2(5) [of od] CE(4,5) od by (simp add: direntry_at_def)
  moreover have "direntry_at m2 od' = direntry_at m od'" if "od' \<in> set (dir_entries m dir)" "od' \<noteq> od" for od'
    using N2(5) [of od'] CE(4) CE(6) [of od'] that by simp
  ultimately show thesis using that N2(3) nl2 by blast
qed

text \<open>C32: Making a hard link under a new name, in a directory with a blank entry, adds an entry for
  the source inode and increases its link count; removing that name again (the source still
  having a link) brings the count back, frees the entry, and leaves every other entry as it
  was before.\<close>

theorem link_then_unlink:
  assumes "wf_disk m" "ospfs_inode m dir_ino = Some dir" "dir_file m dir" "names_terminated m dir"
    and "ospfs_inode m src_ino = Some s" "s \<noteq> dir" "src_ino \<noteq> 0" "oi_nlink m s \<noteq> 0" "oi_nlink m s \<noteq> 0xFFFFFFFF"
    and "length name \<le> OSPFS_MAXNAMELEN" "0 \<notin> set name"
    and "find_direntry m dir name (int (length name)) = Some None"
    and "\<exists>od \<in> set (dir_entries m dir). od_ino m od = 0"
  shows "\<exists>m1 m2 od. ospfs_link m src_ino dir_ino name = Some (Inr (), m1)
    \<and> find_direntry m1 dir name (int (length name)) = Some (Some od) \<and> od_ino m1 od = src_ino
    \<and> oi_nlink m1 s = oi_nlink m s + 1
    \<and> ospfs_unlink m1 src_ino dir_ino name = Some (Inr (), m2)
    \<and> find_direntry m2 dir name (int (length name)) = Some None \<and> od_ino m2 od = 0
    \<and> oi_nlink m2 s = oi_nlink m s
    \<and> dir_entries m2 dir = dir_entries m dir
    \<and> (\<forall>od' \<in> set (dir_entries m dir). od' \<noteq> od \<longrightarrow> direntry_at m2 od' = direntry_at m od')"
proof -
  obtain m1 od where A: "ospfs_link m src_ino dir_ino name = Some (Inr (), m1)" "od \<in> set (dir_entries m dir)"
    "wf_disk m1" "dir_file m1 dir" "names_terminated m1 dir" "dir_entries m1 dir = dir_entries m dir"
    "find (has_name m1 name) (dir_entries m1 dir) = Some od" "od_ino m1 od = src_ino"
    "oi_nlink m1 s = oi_nlink m s + 1" "\<forall>i. ospfs_inode m1 i = ospfs_inode m i"
    "\<forall>od' \<in> set (dir_entries m dir). od' \<noteq> od \<longrightarrow> direntry_at m1 od' = direntry_at m od'"
    by (rule link_adds [OF assms(1-7,10-13)]) (rule that; assumption)
  have "(- 1 :: u32) = 0xFFFFFFFF" by code_simp
  then have "oi_nlink m s + 1 \<noteq> 0" using assms(9) eq_neg_iff_add_eq_0 [of "oi_nlink m s" 1] by metis
  moreover have "oi_nlink m s + 1 \<noteq> 1" using assms(8) by simp
  ultimately have nl: "oi_nlink m1 s \<noteq> 0" "oi_nlink m1 s \<noteq> 1" using A(9) by simp_all
  have i1: "ospfs_inode m1 dir_ino = Some dir" "ospfs_inode m1 src_ino = Some s" using A(10) assms(2,5) by simp_all
  obtain m2 where B: "ospfs_unlink m1 src_ino dir_ino name = Some (Inr (), m2)"
    "names_terminated m2 dir" "dir_entries m2 dir = dir_entries m1 dir" "od_ino m2 od = 0"
    "oi_nlink m2 s = oi_nlink m1 s - 1"
    "\<forall>od' \<in> set (dir_entries m1 dir). od' \<noteq> od \<longrightarrow> direntry_at m2 od' = direntry_at m1 od'"
    by (rule unlink_removes [OF A(3) i1(1) A(4,5) i1(2) assms(6) nl A(7)]) (rule that; assumption)
  have rest: "direntry_at m2 od' = direntry_at m od'" if "od' \<in> set (dir_entries m dir)" "od' \<noteq> od" for od'
    using A(6,11) B(6) that by simp
  have "\<not> has_name m2 name od'" if "od' \<in> set (dir_entries m2 dir)" for od'
    using rest [of od'] no_entry [OF assms(4,12)] that A(6) B(3,4) by (cases "od' = od") (auto simp: direntry_at_def)
  then have "find_direntry m2 dir name (int (length name)) = Some None"
    using find_direntry_eq [OF B(2)] by (simp add: find_None_iff)
  moreover have "find_direntry m1 dir name (int (length name)) = Some (Some od)"
    using A(7) find_direntry_eq [OF A(5)] by simp
  moreover have "oi_nlink m2 s = oi_nlink m s" using A(9) B(5) by simp
  moreover have "dir_entries m2 dir = dir_entries m dir" using A(6) B(3) by simp
  ultimately show ?thesis using A(1,8,9) B(1,4) rest by blast
qed

theorem link_then_unlink_witness:
  "\<exists>m1 m2 od. ospfs_link dir_disk 2 1 [120] = Some (Inr (), m1)
    \<and> find_direntry m1 3136 [120] 1 = Some (Some od)
    \<and> ospfs_unlink m1 2 1 [120] = Some (Inr (), m2) \<and> find_direntry m2 3136 [120] 1 = Some None"
proof -
  have low: "rd32 dir_disk a = rd32 empty_dir_disk a" if "a + 4 \<le> 4096" for a
    by (rule rd32_cong) (use that in \<open>simp add: dir_disk_def set_direntry_def mem_write_apply_other wr32_apply_other\<close>)
  have s: "ospfs_inode dir_disk 2 = Some 3200" "oi_nlink dir_disk 3200 = 1"
    by (simp_all add: ospfs_inode_def low ospfs_block_def word_le_nat_alt)
  have "\<exists>m1 m2 od. ospfs_link dir_disk 2 1 [120] = Some (Inr (), m1)
    \<and> find_direntry m1 3136 [120] (int (length [120 :: u8])) = Some (Some od)
    \<and> ospfs_unlink m1 2 1 [120] = Some (Inr (), m2)
    \<and> find_direntry m2 3136 [120] (int (length [120 :: u8])) = Some None"
    using link_then_unlink [OF dir_disk_facts(1,9,2,3) s(1), of "[120]"] s(2) dir_disk_facts(7,11)
    by auto
  then show ?thesis by simp
qed

section \<open>Conditional symbolic links\<close>

lemma c_strchr_eq:
  assumes "m (a + k) = c" "\<And>i. i < k \<Longrightarrow> m (a + i) \<noteq> c \<and> m (a + i) \<noteq> 0"
  shows "c_strchr m a c = Some (Some (a + k))"
  using assms
proof (induction k arbitrary: a)
  case 0
  then show ?case by (subst c_strchr.simps) simp
next
  case (Suc k)
  have "c_strchr m (a + 1) c = Some (Some (a + 1 + k))"
    by (rule Suc.IH) (use Suc.prems(1) Suc.prems(2) [of "Suc _"] in auto)
  then show ?case using Suc.prems(2) [of 0] by (subst c_strchr.simps) simp
qed

lemma c_strchr_none:
  assumes "m (a + k) = 0" "c \<noteq> 0" "\<And>i. i < k \<Longrightarrow> m (a + i) \<noteq> c \<and> m (a + i) \<noteq> 0"
  shows "c_strchr m a c = Some None"
  using assms
proof (induction k arbitrary: a)
  case 0
  then show ?case by (subst c_strchr.simps) simp
next
  case (Suc k)
  have "c_strchr m (a + 1) c = Some None"
    by (rule Suc.IH) (use Suc.prems(1,2) Suc.prems(3) [of "Suc _"] in auto)
  then show ?case using Suc.prems(3) [of 0] by (subst c_strchr.simps) simp
qed

text \<open>The bytes of the prefix \<open>root?\<close>.\<close>

abbreviation root_prefix :: "u8 list" where
  "root_prefix \<equiv> [114, 111, 111, 116, 63]"

lemma strncmp_eq_prefix:
  "strncmp_eq m a root_prefix \<longleftrightarrow> m a = 114 \<and> m (a + 1) = 111 \<and> m (a + 2) = 111
     \<and> m (a + 3) = 116 \<and> m (a + 4) = 63"
  by (simp add: numeral_eq_Suc)

text \<open>A conditional link \<open>root?A:B\<close> sends root to \<open>A\<close> and everybody else to \<open>B\<close>, but only until root
  follows it: root's access replaces the colon on the disk by a NUL, after which following
  the same link as another user passes on the result of a failed \<open>strchr\<close>, a null pointer
  plus one.\<close>

lemma follow_link_conditional:
  assumes "wf_layout m" "ospfs_inode m ino = Some oi" "strncmp_eq m (oi + 12) root_prefix"
    and "5 \<le> k" "k < 52" "m (oi + 12 + k) = 58"
    and "\<forall>i < k. m (oi + 12 + i) \<noteq> 58 \<and> m (oi + 12 + i) \<noteq> 0"
  shows "ospfs_follow_link True m ino = Some (At (oi + 17), m(oi + 12 + k := 0))
    \<and> ospfs_follow_link False m ino = Some (At (oi + 12 + k + 1), m)
    \<and> ospfs_follow_link False (m(oi + 12 + k := 0)) ino = Some (Null_plus_one, m(oi + 12 + k := 0))"
proof -
  let ?l = "oi + 12" and ?m = "m(oi + 12 + k := 0)"
  note IB = inode_bounds [OF assms(1) ospfs_inode_addr [OF assms(1,2)]]
  have colon: "c_strchr m ?l 58 = Some (Some (?l + k))"
    by (rule c_strchr_eq) (use assms(6,7) in auto)
  have q: "c_strchr ?m ?l 63 = Some (Some (?l + 4))"
  proof (rule c_strchr_eq)
    show "?m (?l + 4) = 63" using assms(3,4) by (auto simp: strncmp_eq_prefix ac_simps)
    show "?m (?l + i) \<noteq> 63 \<and> ?m (?l + i) \<noteq> 0" if "i < 4" for i
    proof -
      have "i \<in> {0, 1, 2, 3}" using that by auto
      then show ?thesis using assms(3,4) by (auto simp: strncmp_eq_prefix ac_simps)
    qed
  qed
  have none: "c_strchr ?m ?l 58 = Some None"
    by (rule c_strchr_none [of _ _ k]) (use assms(7) in auto)
  have pre: "strncmp_eq ?m ?l root_prefix"
    using assms(3,4) by (auto simp: strncmp_eq_prefix ac_simps)
  have "?m a = m a" if "a < 2048" for a using that IB by simp
  note F = super_frame [of ?m m, OF this]
  have ino: "ospfs_inode ?m ino = Some oi" using assms(2) F by (simp add: ospfs_inode_def split: if_splits)
  have r: "?l + 4 + 1 = oi + 17" by simp
  show ?thesis
    unfolding ospfs_follow_link_def assms(2) ino Let_def
    using assms(3) pre colon q none r by (simp del: strncmp_eq.simps)
qed

text \<open>The disk of \<open>small_disk\<close> with the link \<open>root?a:b\<close> in inode 1.\<close>

definition link_disk :: mem where
  "link_disk = mem_write small_disk (3136 + 12) [114, 111, 111, 116, 63, 97, 58, 98, 0]"

lemma follow_link_conditional_witness:
  "ospfs_follow_link True link_disk 1 = Some (At 3153, link_disk(3154 := 0))
    \<and> ospfs_follow_link False link_disk 1 = Some (At 3155, link_disk)
    \<and> ospfs_follow_link False (link_disk(3154 := 0)) 1 = Some (Null_plus_one, link_disk(3154 := 0))"
proof -
  have r: "rd32 link_disk a = rd32 small_disk a" if "a + 4 \<le> 3148" for a
    using that by (simp add: link_disk_def rd32_mem_write_other)
  have L: "wf_layout link_disk" by (simp add: wf_layout_def data_start_def r)
  have i: "ospfs_inode link_disk 1 = Some 3136"
    by (simp add: ospfs_inode_def ospfs_block_def word_le_nat_alt r)
  have b: "link_disk (3148 + j) = [114, 111, 111, 116, 63, 97, 58, 98, 0] ! j" if "j < 9" for j
    using that by (simp add: link_disk_def mem_write_def)
  have p: "strncmp_eq link_disk (3136 + 12) root_prefix"
    unfolding strncmp_eq_prefix using b [of 0] b [of 1] b [of 2] b [of 3] b [of 4] by simp
  have n: "\<forall>j < 6. link_disk (3136 + 12 + j) \<noteq> 58 \<and> link_disk (3136 + 12 + j) \<noteq> 0"
  proof (intro allI impI)
    fix j :: nat assume "j < 6"
    then have "j \<in> {0, 1, 2, 3, 4, 5}" by auto
    then show "link_disk (3136 + 12 + j) \<noteq> 58 \<and> link_disk (3136 + 12 + j) \<noteq> 0"
      using b [of j] by auto
  qed
  show ?thesis
    using follow_link_conditional [OF L i p _ _ _ n] b [of 6] by simp
qed

section \<open>Reading a directory\<close>

lemma dir_offsets_upt:
  "i \<le> n \<Longrightarrow> dir_offsets (128 * n) (128 * i) = map (\<lambda>i. 128 * i) [i..<n]"
proof (induction "n - i" arbitrary: i)
  case 0
  then show ?case by (simp add: dir_offsets.simps)
next
  case (Suc d)
  have "dir_offsets (128 * n) (128 * Suc i) = map (\<lambda>i. 128 * i) [Suc i..<n]"
    by (rule Suc.hyps(1)) (use Suc.hyps(2) in auto)
  then show ?case using Suc.hyps(2) by (subst dir_offsets.simps) (simp add: upt_conv_Cons add.commute)
qed

text \<open>The call that reports the entry with index \<open>i\<close>, at position \<open>i + 2\<close>.\<close>

definition entry_addr :: "mem \<Rightarrow> nat \<Rightarrow> nat \<Rightarrow> nat" where
  "entry_addr m dir i = ospfs_inode_data m dir (of_nat (128 * i))"

definition entry_call :: "mem \<Rightarrow> nat \<Rightarrow> nat \<Rightarrow> dir_call" where
  "entry_call m dir i =
     \<lparr>dc_name = de_name (direntry_at m (entry_addr m dir i)), dc_pos = of_nat (i + 2),
      dc_ino = od_ino m (entry_addr m dir i),
      dc_type = the (file_dir_type (oi_ftype m (the (ospfs_inode m (od_ino m (entry_addr m dir i))))))\<rparr>"

text \<open>Every used entry has a terminated name and refers to an inode of a known type.\<close>

definition entries_valid :: "mem \<Rightarrow> nat \<Rightarrow> bool" where
  "entries_valid m dir \<longleftrightarrow> names_terminated m dir \<and>
     (\<forall>od \<in> set (dir_entries m dir). od_ino m od \<noteq> 0 \<longrightarrow>
        (\<exists>e. ospfs_inode m (od_ino m od) = Some e \<and> file_dir_type (oi_ftype m e) \<noteq> None))"

lemma readdir_loop_all:
  assumes wf: "wf_disk m" and dir: "dir_file m dir" and v: "entries_valid m dir"
    and n: "unat (oi_size m dir) = 128 * n"
  shows "i \<le> n \<Longrightarrow> 0 \<le> ok \<Longrightarrow> readdir_loop (\<lambda>_ _. 0) m dir (of_nat (i + 2)) ok calls
    = Some (1, of_nat (n + 2), calls @ map (entry_call m dir)
        (filter (\<lambda>i. od_ino m (entry_addr m dir i) \<noteq> 0) [i..<n]))"
proof (induction "n - i" arbitrary: i ok calls)
  case 0
  have df: "direct_file m dir" using dir by (simp add: dir_file_def)
  have "n \<le> 80" using df n by (simp add: direct_file_def)
  have i: "i = n" using 0 by simp
  have p: "(2 :: u32) \<le> of_nat (i + 2)" 
    unfolding word_le_nat_alt by (subst unat_of_nat_u32) (use i \<open>n \<le> 80\<close> in auto)
  have "oi_size m dir \<le> of_nat (128 * n)"
    unfolding word_le_nat_alt n by (subst unat_of_nat_u32) (use \<open>n \<le> 80\<close> in auto)
  then have "ospfs_inode_blockno m dir (of_nat (128 * n)) = 0" by (simp add: ospfs_inode_blockno_def)
  then show ?case using i p 0 by (subst readdir_loop.simps) (simp add: mult.commute)
next
  case (Suc d)
  note L = wf_disk_layout [OF wf]
  have df: "direct_file m dir" using dir by (simp add: dir_file_def)
  have "n \<le> 80" using df n by (simp add: direct_file_def)
  have i: "i < n" using Suc.hyps(2) by simp
  have p: "(2 :: u32) \<le> of_nat (i + 2)"
    unfolding word_le_nat_alt by (subst unat_of_nat_u32) (use i \<open>n \<le> 80\<close> in auto)
  have off: "(of_nat (i + 2) - 2) * 128 = (of_nat (128 * i) :: u32)" by (simp add: mult.commute)
  have nz: "ospfs_inode_blockno m dir (of_nat (128 * i)) \<noteq> 0"
    by (rule direct_block_facts(1) [OF L df]) (use n i in simp)
  let ?od = "entry_addr m dir i"
  have mem: "?od \<in> set (dir_entries m dir)"
    using i by (simp add: dir_entries_def n dir_offsets_upt [of 0 n, simplified] entry_addr_def image_iff)
       (rule bexI [of _ i], auto)
  have up: "[i..<n] = i # [Suc i..<n]" using i by (simp add: upt_conv_Cons)
  have s: "(of_nat (i + 2) + 1 :: u32) = of_nat (Suc i + 2)" by simp
  have IH: "readdir_loop (\<lambda>_ _. 0) m dir (of_nat (Suc i + 2)) ok' calls'
    = Some (1, of_nat (n + 2), calls' @ map (entry_call m dir)
        (filter (\<lambda>i. od_ino m (entry_addr m dir i) \<noteq> 0) [Suc i..<n]))" if "0 \<le> ok'" for ok' calls'
    by (rule Suc.hyps(1)) (use Suc.hyps(2) that in auto)
  show ?case
  proof (cases "od_ino m ?od = 0")
    case True
    have "readdir_loop (\<lambda>_ _. 0) m dir (of_nat (i + 2)) ok calls
        = readdir_loop (\<lambda>_ _. 0) m dir (of_nat (i + 2) + 1) ok calls"
      using p nz True Suc.prems(2)
      by (subst readdir_loop.simps) (simp only: off Let_def entry_addr_def [symmetric], simp)
    then show ?thesis unfolding s IH [OF Suc.prems(2)] up using True by simp
  next
    case False
    obtain e dt where e: "ospfs_inode m (od_ino m ?od) = Some e" "file_dir_type (oi_ftype m e) = Some dt"
      using v mem False by (auto simp: entries_valid_def)
    have "c_string_in m (?od + 4) 124"
      using v mem False by (simp add: entries_valid_def names_terminated_def)
    note c = c_strlen_eq [OF this]
    have call: "\<lparr>dc_name = mem_read m (?od + 4) (length (takeWhile (\<lambda>c. c \<noteq> 0) (mem_read m (?od + 4) 124))),
        dc_pos = of_nat (i + 2), dc_ino = od_ino m ?od, dc_type = dt\<rparr> = entry_call m dir i"
      by (simp only: c(2)) (simp add: entry_call_def direntry_at_def e)
    have "readdir_loop (\<lambda>_ _. 0) m dir (of_nat (i + 2)) ok calls
        = readdir_loop (\<lambda>_ _. 0) m dir (of_nat (i + 2) + 1) 0 (calls @ [entry_call m dir i])"
      using p nz False Suc.prems(2) e c(1)
      by (subst readdir_loop.simps) (simp only: off Let_def entry_addr_def [symmetric] call option.case, simp add: call)
    then show ?thesis unfolding s IH [OF order_refl] up using False by simp
  qed
qed

text \<open>Reading a directory from the start, with a callback that accepts everything, reports dot,
  dot-dot and then every used entry, in the order of the entries, each with its name, its inode
  number, the type of that inode and its position; blank entries are skipped, and the final
  position is two more than the number of entries.\<close>

lemma readdir_lists_entries:
  assumes "wf_disk m" "ospfs_inode m dir_ino = Some dir" "dir_file m dir" "entries_valid m dir"
    and "n = unat (oi_size m dir) div OSPFS_DIRENTRY_SIZE"
  shows "ospfs_dir_readdir (\<lambda>_ _. 0) m dir_ino parent_ino 0 =
    Some (1, of_nat (n + 2),
      [\<lparr>dc_name = [46], dc_pos = 0, dc_ino = dir_ino, dc_type = DT_DIR\<rparr>,
       \<lparr>dc_name = [46, 46], dc_pos = 1, dc_ino = parent_ino, dc_type = DT_DIR\<rparr>]
      @ map (entry_call m dir) (filter (\<lambda>i. od_ino m (entry_addr m dir i) \<noteq> 0) [0..<n]))"
proof -
  have n: "unat (oi_size m dir) = 128 * n"
    using assms(3,5) by (simp add: dir_file_def) (metis mod_0_imp_dvd dvd_mult_div_cancel)
  show ?thesis
    using readdir_loop_all [OF assms(1,3,4) n, where i = 0 and ok = 0] assms(2)
    by (simp add: ospfs_dir_readdir_def Let_def)
qed

lemma dir_disk_valid: "entries_valid dir_disk 3136"
  unfolding entries_valid_def
proof (intro conjI ballI impI)
  show "names_terminated dir_disk 3136" by (rule dir_disk_facts(3))
  fix od assume od: "od \<in> set (dir_entries dir_disk 3136)" "od_ino dir_disk od \<noteq> 0"
  have low: "rd32 dir_disk a = rd32 empty_dir_disk a" if "a + 4 \<le> 4096" for a
    by (rule rd32_cong) (use that in \<open>simp add: dir_disk_def set_direntry_def mem_write_apply_other wr32_apply_other\<close>)
  have "od = 7168"
  proof (rule ccontr)
    assume ne: "od \<noteq> 7168"
    have od': "od \<in> set (dir_entries empty_dir_disk 3136)" using od(1) dir_disk_facts(4) by simp
    note P = dir_entry_place(1) [OF wf_disk_layout [OF empty_dir_disk_facts(1)] empty_dir_disk_facts(2)]
    have "\<forall>a. od \<le> a \<and> a < od + 128 \<longrightarrow> dir_disk a = empty_dir_disk a"
      unfolding dir_disk_def
      using aligned_disjoint [OF P [OF od'] P [OF empty_dir_disk_facts(4)] ne]
      by (auto intro!: set_direntry_frame)
    then have "direntry_at dir_disk od = direntry_at empty_dir_disk od" by (rule direntry_at_cong(1))
    then show False using empty_dir_disk_facts(5) [OF od'] od(2) by (simp add: direntry_at_def)
  qed
  then show "\<exists>e. ospfs_inode dir_disk (od_ino dir_disk od) = Some e \<and> file_dir_type (oi_ftype dir_disk e) \<noteq> None"
    using dir_disk_facts(6)
    by (simp add: ospfs_inode_def low ospfs_block_def word_le_nat_alt)
       (simp add: file_dir_type_def empty_dir_disk_def rd32_wr32_other)
qed

lemma readdir_lists_entries_witness:
  "\<exists>calls. ospfs_dir_readdir (\<lambda>_ _. 0) dir_disk 1 1 0 = Some (1, 10,
      [\<lparr>dc_name = [46], dc_pos = 0, dc_ino = 1, dc_type = DT_DIR\<rparr>,
       \<lparr>dc_name = [46, 46], dc_pos = 1, dc_ino = 1, dc_type = DT_DIR\<rparr>] @ calls)"
proof -
  have "rd32 dir_disk 3136 = 1024"
    by (subst rd32_cong [of _ _ empty_dir_disk])
       (auto simp: dir_disk_def set_direntry_def mem_write_apply_other wr32_apply_other)
  then show ?thesis
    using readdir_lists_entries [OF dir_disk_facts(1,9,2) dir_disk_valid, of 8 1] by auto
qed

end
