(* ===== verification/BlockCache.thy ===== *)
theory BlockCache
  imports OspfsDisk
begin

text \<open>
  The block cache of the formatter (\<open>lab3/ospfsformat.c\<close>): sixteen blocks, the least recently used
  one that nobody holds is written back and replaced. Blocks are turned into little-endian form
  when they are written and back when they are read; the host is little-endian.
\<close>

section \<open>Byte order\<close>

definition swizzle :: "nat \<Rightarrow> mem \<Rightarrow> mem" where
  "swizzle a m = wr32 m a (rd32 m a)"

definition swizzleinode :: "nat \<Rightarrow> mem \<Rightarrow> mem" where
  "swizzleinode oi m =
     (if oi_nlink m oi = 0 then m
      else fold swizzle ([oi, oi + 4, oi + 12, oi + 8] @ map (\<lambda>i. oi + 16 + 4 * i) [0..<OSPFS_NDIRECT] @ [oi + 56, oi + 60]) m)"

definition swizzledirentry :: "nat \<Rightarrow> mem \<Rightarrow> mem" where
  "swizzledirentry od m = (if m (od + 4) = 0 then m else swizzle od m)"

datatype block_type = BLOCK_SUPER | BLOCK_DIR | BLOCK_FILE | BLOCK_BITS | BLOCK_INODES

fun swizzleblock :: "block_type \<Rightarrow> mem \<Rightarrow> mem" where
  "swizzleblock BLOCK_SUPER m = fold swizzle [0, 4, 8, 12] m"
| "swizzleblock BLOCK_DIR m = fold (\<lambda>i. swizzledirentry (OSPFS_DIRENTRY_SIZE * i)) [0..<8] m"
| "swizzleblock BLOCK_BITS m = fold (\<lambda>i. swizzle (4 * i)) [0..<256] m"
| "swizzleblock BLOCK_INODES m = fold (\<lambda>i. swizzleinode (OSPFS_INODESIZE * i)) [0..<OSPFS_BLKINODES] m"
| "swizzleblock BLOCK_FILE m = m"

section \<open>The cache\<close>

text \<open>The data of a block, the union \<open>u\<close>, are its first 1024 bytes; the rest of the memory is zero.\<close>

record block =
  bno :: nat
  btype :: block_type
  busy :: nat
  used :: nat
  u :: mem

record cached_disk =
  disk :: mem
  cache :: "block list"
  clock :: nat
  disk_size :: nat

abbreviation upd_block :: "nat \<Rightarrow> (block \<Rightarrow> block) \<Rightarrow> cached_disk \<Rightarrow> cached_disk" where
  "upd_block i f s \<equiv> s\<lparr>cache := (cache s)[i := f (cache s ! i)]\<rparr>"

definition block_data :: "mem \<Rightarrow> mem" where
  "block_data v = (\<lambda>i. if i < 1024 then v i else 0)"

definition read_disk :: "mem \<Rightarrow> nat \<Rightarrow> mem" where
  "read_disk d b = block_data (\<lambda>i. d (b * 1024 + i))"

definition write_disk :: "nat \<Rightarrow> mem \<Rightarrow> mem \<Rightarrow> mem" where
  "write_disk b v d = (\<lambda>a. if a div 1024 = b then v (a mod 1024) else d a)"

definition flushb :: "nat \<Rightarrow> cached_disk \<Rightarrow> cached_disk" where
  "flushb i s =
     (let b = cache s ! i; le = swizzleblock (btype b) (u b)
      in upd_block i (\<lambda>b. b\<lparr>u := swizzleblock (btype b) le\<rparr>) (s\<lparr>disk := write_disk (bno b) le (disk s)\<rparr>))"

text \<open>The search: the block with the number, or the least recently used one that is not busy.\<close>

fun scan_cache :: "nat \<Rightarrow> block list \<Rightarrow> nat \<Rightarrow> (nat \<times> nat) option \<Rightarrow> nat + nat option" where
  "scan_cache b [] i least = Inr (map_option fst least)"
| "scan_cache b (x # xs) i least =
     (if bno x = b then Inl i
      else scan_cache b xs (i + 1)
        (if busy x = 0 \<and> (case least of None \<Rightarrow> True | Some (j, t) \<Rightarrow> used x < t) then Some (i, used x) else least))"

definition load_block :: "nat \<Rightarrow> nat \<Rightarrow> bool \<Rightarrow> block_type \<Rightarrow> cached_disk \<Rightarrow> cached_disk" where
  "load_block i b clr ty s =
     (let s1 = (if used (cache s ! i) \<noteq> 0 then flushb i s else s); d = read_disk (disk s1) b
      in upd_block i (\<lambda>x. x\<lparr>u := (if clr then d else swizzleblock (btype x) d), bno := b, busy := 0, btype := ty\<rparr>) s1)"

definition hold_block :: "nat \<Rightarrow> bool \<Rightarrow> block_type \<Rightarrow> cached_disk \<Rightarrow> (nat \<times> cached_disk) option" where
  "hold_block i clr ty s =
     (let x = cache s ! i; t = clock s + 1
      in if btype x = ty \<or> busy x + 1 = 1
         then Some (i, upd_block i (\<lambda>x. x\<lparr>u := (if clr then (\<lambda>_. 0) else u x), used := t, busy := busy x + 1, btype := ty\<rparr>)
           (s\<lparr>clock := t\<rparr>))
         else None)"

text \<open>\<open>None\<close>: the program aborts. The result is the index of the block.\<close>

definition getblk :: "nat \<Rightarrow> bool \<Rightarrow> block_type \<Rightarrow> cached_disk \<Rightarrow> (nat \<times> cached_disk) option" where
  "getblk b clr ty s =
     (if b \<ge> disk_size s then None
      else
        (case scan_cache b (cache s) 0 None of
           Inl i \<Rightarrow> hold_block i clr ty s
         | Inr None \<Rightarrow> None
         | Inr (Some i) \<Rightarrow> hold_block i clr ty (load_block i b clr ty s)))"

definition putblk :: "nat \<Rightarrow> cached_disk \<Rightarrow> cached_disk" where
  "putblk i s = upd_block i (\<lambda>x. x\<lparr>busy := busy x - 1\<rparr>) s"

text \<open>The program changes the data of a block that it holds.\<close>

definition modify :: "nat \<Rightarrow> (mem \<Rightarrow> mem) \<Rightarrow> cached_disk \<Rightarrow> cached_disk" where
  "modify i f s = upd_block i (\<lambda>x. x\<lparr>u := block_data (f (u x))\<rparr>) s"

definition flushdisk :: "cached_disk \<Rightarrow> cached_disk" where
  "flushdisk s = fold (\<lambda>i s. if used (cache s ! i) \<noteq> 0 then flushb i s else s) [0..<length (cache s)] s"

text \<open>The state after the start of the program and the truncation of the disk.\<close>

definition empty_cache :: "nat \<Rightarrow> cached_disk" where
  "empty_cache n = \<lparr>disk = (\<lambda>_. 0), cache = replicate 16 \<lparr>bno = 0, btype = BLOCK_SUPER, busy = 0, used = 0, u = (\<lambda>_. 0)\<rparr>,
     clock = 1, disk_size = n\<rparr>"

section \<open>What the cache promises\<close>

lemma write_disk_write_disk [simp]: "write_disk b v (write_disk b w m) = write_disk b v m"
  by (rule ext) (simp add: write_disk_def)

lemma write_disk_data [simp]: "write_disk b (block_data v) m = write_disk b v m"
  by (rule ext) (simp add: write_disk_def block_data_def)

lemma block_data_idem [simp]: "block_data (block_data v) = block_data v" "block_data (\<lambda>_. 0) = (\<lambda>_. 0)"
  by (auto simp: block_data_def)

lemma read_disk_write_disk [simp]:
  "read_disk (write_disk b v m) c = (if b = c then block_data v else read_disk m c)"
  by (auto simp: read_disk_def write_disk_def block_data_def fun_eq_iff mult.commute)

lemma read_disk_data [simp]: "block_data (read_disk m b) = read_disk m b"
  by (simp add: read_disk_def)

lemma write_disk_same [simp]: "write_disk b (read_disk m b) m = m"
  by (rule ext) (auto simp: write_disk_def read_disk_def block_data_def mult.commute)

text \<open>
  What a client does with blocks: it gets one and keeps the pointer (the result of the \<open>k\<close>th get
  is the handle \<open>k\<close>), changes a block and puts it back.
\<close>

datatype 'k store_op = Get nat bool 'k | Change nat "mem \<Rightarrow> mem" | Put nat

fun run_ops :: "(nat \<Rightarrow> bool \<Rightarrow> 'k \<Rightarrow> 's \<Rightarrow> (nat \<times> 's) option) \<Rightarrow> (nat \<Rightarrow> (mem \<Rightarrow> mem) \<Rightarrow> 's \<Rightarrow> 's)
    \<Rightarrow> (nat \<Rightarrow> 's \<Rightarrow> 's) \<Rightarrow> 'k store_op list \<Rightarrow> nat list \<Rightarrow> 's \<Rightarrow> (nat list \<times> 's) option" where
  "run_ops get change put [] hs s = Some (hs, s)"
| "run_ops get change put (Get b clr ty # ops) hs s =
     (case get b clr ty s of None \<Rightarrow> None | Some (i, s') \<Rightarrow> run_ops get change put ops (hs @ [i]) s')"
| "run_ops get change put (Change k f # ops) hs s = run_ops get change put ops hs (change (hs ! k) f s)"
| "run_ops get change put (Put k # ops) hs s = run_ops get change put ops hs (put (hs ! k) s)"

text \<open>
  The same on a plain memory. A handle has a block and a type until it is put back; at most
  \<open>slots\<close> different blocks are held at a time, and a block that is held is not got with another
  type.
\<close>

abbreviation held_blocks :: "(nat \<times> 'k) option list \<Rightarrow> nat list" where
  "held_blocks hb \<equiv> map fst (List.map_filter (\<lambda>e. e) hb)"

abbreviation holders :: "(nat \<times> 'k) option list \<Rightarrow> nat \<Rightarrow> nat" where
  "holders hb \<equiv> count_list (held_blocks hb)"

fun plain_ops :: "nat \<Rightarrow> nat \<Rightarrow> 'k store_op list \<Rightarrow> (nat \<times> 'k) option list \<Rightarrow> mem \<Rightarrow> mem option" where
  "plain_ops blocks slots [] hb m = Some m"
| "plain_ops blocks slots (Get b clr ty # ops) hb m =
     (if 0 < b \<and> b < blocks \<and> (\<forall>(c, t) \<in> set (List.map_filter (\<lambda>e. e) hb). c = b \<longrightarrow> t = ty)
         \<and> length (remdups (b # held_blocks hb)) \<le> slots
      then plain_ops blocks slots ops (hb @ [Some (b, ty)]) (if clr then write_disk b (\<lambda>_. 0) m else m) else None)"
| "plain_ops blocks slots (Change k f # ops) hb m =
     (if k < length hb then
        (case hb ! k of None \<Rightarrow> None
         | Some (b, ty) \<Rightarrow> plain_ops blocks slots ops hb (write_disk b (f (read_disk m b)) m)) else None)"
| "plain_ops blocks slots (Put k # ops) hb m =
     (if k < length hb \<and> hb ! k \<noteq> None then plain_ops blocks slots ops (hb[k := None]) m else None)"

lemma holders_pos: "j < length hb \<Longrightarrow> hb ! j = Some (b, t) \<Longrightarrow> 0 < holders hb b"
  by (force simp: count_list_0_iff List.map_filter_def zero_less_iff_neq_zero in_set_conv_nth image_iff)

lemma holders_None:
  "k < length hb \<Longrightarrow> hb ! k = Some (b, t) \<Longrightarrow> holders hb c = (if c = b then 1 else 0) + holders (hb[k := None]) c"
proof (induction hb arbitrary: k)
  case (Cons e hb)
  then show ?case by (cases k; cases e) (auto simp: List.map_filter_simps)
qed simp

lemma holders_put:
  assumes k: "k < length hb" "hb ! k = Some (b, t)"
  shows "holders (hb[k := None]) c = (if c = b then holders hb b - 1 else holders hb c)
     \<and> (\<forall>j < length hb. j \<noteq> k \<longrightarrow> (\<forall>t'. hb ! j = Some (b, t') \<longrightarrow> 1 < holders hb b))"
proof -
  have "1 < holders hb b" if "j < length hb" "j \<noteq> k" "hb ! j = Some (b, t')" for j t'
    using holders_pos [of j "hb[k := None]" b t'] holders_None [OF k, of b] that by simp
  then show ?thesis using holders_None [OF k, of c] by auto
qed

text \<open>
  A store of blocks as its client sees it: \<open>view\<close> is the disk with everything that was changed in
  blocks, \<open>held s i b ty\<close> says that the pointer \<open>i\<close> is the block \<open>b\<close>, and \<open>holds s b\<close> counts its users.
\<close>

locale block_store =
  fixes inv :: "'s \<Rightarrow> bool" and view :: "'s \<Rightarrow> mem"
    and held :: "'s \<Rightarrow> nat \<Rightarrow> nat \<Rightarrow> 'k \<Rightarrow> bool" and holds :: "'s \<Rightarrow> nat \<Rightarrow> nat" and blocks slots :: nat
    and get :: "nat \<Rightarrow> bool \<Rightarrow> 'k \<Rightarrow> 's \<Rightarrow> (nat \<times> 's) option"
    and change :: "nat \<Rightarrow> (mem \<Rightarrow> mem) \<Rightarrow> 's \<Rightarrow> 's" and put :: "nat \<Rightarrow> 's \<Rightarrow> 's" and sync :: "'s \<Rightarrow> mem"
  assumes get_law: "inv s \<Longrightarrow> 0 < b \<Longrightarrow> get b clr ty s = Some (i, s') \<Longrightarrow>
      inv s' \<and> view s' = (if clr then write_disk b (\<lambda>_. 0) (view s) else view s) \<and> held s' i b ty
      \<and> holds s' = (holds s)(b := holds s b + 1) \<and> (\<forall>j c t. held s j c t \<longrightarrow> held s' j c t)"
    and get_ok: "inv s \<Longrightarrow> 0 < b \<Longrightarrow> b < blocks \<Longrightarrow> \<forall>j t. held s j b t \<longrightarrow> t = ty \<Longrightarrow>
      0 < holds s b \<or> card {c. 0 < holds s c} < slots \<Longrightarrow> get b clr ty s \<noteq> None"
    and held_law: "inv s \<Longrightarrow> held s i b t \<Longrightarrow> held s j b t' \<Longrightarrow> t' = t"
    and change_law: "inv s \<Longrightarrow> held s i b ty \<Longrightarrow> inv (change i f s)
      \<and> view (change i f s) = write_disk b (f (read_disk (view s) b)) (view s)
      \<and> holds (change i f s) = holds s \<and> (\<forall>j c t. held s j c t \<longrightarrow> held (change i f s) j c t)"
    and put_law: "inv s \<Longrightarrow> held s i b ty \<Longrightarrow> inv (put i s) \<and> view (put i s) = view s
      \<and> holds (put i s) = (holds s)(b := holds s b - 1)
      \<and> (\<forall>j c t. held s j c t \<and> (c = b \<longrightarrow> 1 < holds s b) \<longrightarrow> held (put i s) j c t)"
    and holds_held: "inv s \<Longrightarrow> held s i b t \<Longrightarrow> 0 < holds s b"
    and sync_law: "inv s \<Longrightarrow> sync s = view s"
begin

definition sim :: "'s \<Rightarrow> nat list \<Rightarrow> (nat \<times> 'k) option list \<Rightarrow> bool" where
  "sim s hs hb \<longleftrightarrow> inv s \<and> length hs = length hb \<and> (\<forall>c. holds s c = holders hb c)
     \<and> (\<forall>k < length hb. \<forall>b t. hb ! k = Some (b, t) \<longrightarrow> held s (hs ! k) b t)"

lemma sim_held_blocks: "sim s hs hb \<Longrightarrow> 0 < holds s c \<longleftrightarrow> c \<in> set (held_blocks hb)"
  unfolding sim_def by (metis count_list_0_iff gr0I less_numeral_extra(3))

lemma sim_get:
  assumes S: "sim s hs hb" and b: "0 < b" "b < blocks" and t: "\<forall>(c, t) \<in> set (List.map_filter (\<lambda>e. e) hb). c = b \<longrightarrow> t = ty"
    and room: "length (remdups (b # held_blocks hb)) \<le> slots"
  shows "\<exists>i s'. get b clr ty s = Some (i, s') \<and> sim s' (hs @ [i]) (hb @ [Some (b, ty)])
      \<and> view s' = (if clr then write_disk b (\<lambda>_. 0) (view s) else view s)"
proof -
  have inv: "inv s" using S by (simp add: sim_def)
  have "t' = ty" if h: "held s j b t'" for j t'
  proof -
    have "b \<in> set (held_blocks hb)" using holds_held [OF inv h] sim_held_blocks [OF S] by blast
    then obtain t0 where "(b, t0) \<in> set (List.map_filter (\<lambda>e. e) hb)" by auto
    then have "t0 = ty" and "Some (b, t0) \<in> set hb" using t by (auto simp: List.map_filter_def)
    then obtain k where "k < length hb" "hb ! k = Some (b, ty)" by (metis in_set_conv_nth)
    then have "held s (hs ! k) b ty" using S by (simp add: sim_def)
    then show ?thesis using held_law [OF inv _ h] by blast
  qed
  moreover have "0 < holds s b \<or> card {c. 0 < holds s c} < slots"
  proof (cases "b \<in> set (held_blocks hb)")
    case False
    have "{c. 0 < holds s c} = set (held_blocks hb)" using sim_held_blocks [OF S] by blast
    then show ?thesis using room False by (simp add: length_remdups_card_conv)
  qed (use sim_held_blocks [OF S] in blast)
  ultimately have "get b clr ty s \<noteq> None" by (intro get_ok inv b) auto
  then obtain i s' where g: "get b clr ty s = Some (i, s')" by auto
  note G = get_law [OF inv b(1) g]
  have "sim s' (hs @ [i]) (hb @ [Some (b, ty)])"
    using S G by (auto simp: sim_def nth_append less_Suc_eq List.map_filter_def)
  then show ?thesis using g G by blast
qed

lemma sim_put:
  assumes S: "sim s hs hb" and k: "k < length hb" "hb ! k = Some (b, t)"
  shows "sim (put (hs ! k) s) hs (hb[k := None]) \<and> view (put (hs ! k) s) = view s"
proof -
  have h: "inv s" "held s (hs ! k) b t" using S k by (simp_all add: sim_def)
  note P = put_law [OF h] and M = holders_put [OF k]
  have "held (put (hs ! k) s) (hs ! j) c t'" if j: "j < length hb" "hb[k := None] ! j = Some (c, t')" for j c t'
  proof -
    have ne: "j \<noteq> k" using j k by auto
    then have "hb ! j = Some (c, t')" using j by simp
    then have "held s (hs ! j) c t'" "c = b \<longrightarrow> 1 < holders hb b" using S j(1) ne M by (auto simp: sim_def)
    then show ?thesis using P S by (simp add: sim_def)
  qed
  then show ?thesis using S P M by (simp add: sim_def)
qed

text \<open>Whatever is allowed on a plain memory succeeds on the store and has the same effect.\<close>

theorem store_simulates:
  "plain_ops blocks slots ops hb (view s) = Some m \<Longrightarrow> sim s hs hb \<Longrightarrow>
     \<exists>hs' s'. run_ops get change put ops hs s = Some (hs', s') \<and> sync s' = m"
proof (induction ops arbitrary: hb hs s)
  case Nil
  then show ?case by (auto simp: sim_def sync_law)
next
  case (Cons op ops)
  show ?case
  proof (cases op)
    case (Get b clr ty)
    then have p: "0 < b" "b < blocks" "\<forall>(c, t) \<in> set (List.map_filter (\<lambda>e. e) hb). c = b \<longrightarrow> t = ty"
        "length (remdups (b # held_blocks hb)) \<le> slots"
      and r: "plain_ops blocks slots ops (hb @ [Some (b, ty)]) (if clr then write_disk b (\<lambda>_. 0) (view s) else view s) = Some m"
      using Cons.prems(1) by (simp_all split: if_split_asm)
    obtain i s' where g: "get b clr ty s = Some (i, s')" and s': "sim s' (hs @ [i]) (hb @ [Some (b, ty)])"
      and v: "view s' = (if clr then write_disk b (\<lambda>_. 0) (view s) else view s)"
      using sim_get [OF Cons.prems(2) p] by blast
    show ?thesis using Cons.IH [OF _ s'] r v g Get by simp
  next
    case (Change k f)
    then obtain b t where k: "k < length hb" "hb ! k = Some (b, t)"
      and r: "plain_ops blocks slots ops hb (write_disk b (f (read_disk (view s) b)) (view s)) = Some m"
      using Cons.prems(1) by (auto split: if_split_asm option.split_asm)
    then have C: "sim (change (hs ! k) f s) hs hb"
        "view (change (hs ! k) f s) = write_disk b (f (read_disk (view s) b)) (view s)"
      using Cons.prems(2) change_law [of s "hs ! k" b t f] by (auto simp: sim_def)
    show ?thesis using Cons.IH [OF _ C(1)] r C(2) Change by simp
  next
    case (Put k)
    then obtain b t where k: "k < length hb" "hb ! k = Some (b, t)"
      and r: "plain_ops blocks slots ops (hb[k := None]) (view s) = Some m"
      using Cons.prems(1) by (auto split: if_split_asm)
    show ?thesis using Cons.IH [of "hb[k := None]" "put (hs ! k) s" hs] r sim_put [OF Cons.prems(2) k] Put by simp
  qed
qed

end

section \<open>The cache is a store of blocks\<close>

lemma swizzle_id [simp]: "swizzle a m = m"
  by (simp add: swizzle_def)

lemma fold_id: "(\<And>x. f x = id) \<Longrightarrow> fold f xs = id"
  by (induction xs) auto

lemma swizzleblock_id [simp]: "swizzleblock ty m = m"
proof -
  have s: "swizzle a = id" for a by (rule ext) simp
  have "swizzledirentry a = id" "swizzleinode a = id" for a
    by (rule ext, simp add: swizzledirentry_def swizzleinode_def fold_id [OF s])+
  then show ?thesis using s by (cases ty) (simp_all add: fold_id)
qed

lemma flushb_eq: "flushb i s = s\<lparr>disk := write_disk (bno (cache s ! i)) (u (cache s ! i)) (disk s)\<rparr>"
proof -
  have "(cache s)[i := (cache s ! i)\<lparr>u := u (cache s ! i)\<rparr>] = cache s" by simp
  then show ?thesis by (cases s) (simp add: flushb_def Let_def)
qed

definition cached :: "cached_disk \<Rightarrow> nat \<Rightarrow> block option" where
  "cached s b = find (\<lambda>x. used x \<noteq> 0 \<and> bno x = b) (cache s)"

definition view :: "cached_disk \<Rightarrow> mem" where
  "view s = (\<lambda>a. case cached s (a div 1024) of Some x \<Rightarrow> u x (a mod 1024) | None \<Rightarrow> disk s a)"

definition block_ok :: "block \<Rightarrow> bool" where
  "block_ok x \<longleftrightarrow> (if used x = 0 then bno x = 0 \<and> busy x = 0 else 0 < bno x \<and> block_data (u x) = u x)"

definition resident :: "cached_disk \<Rightarrow> nat \<Rightarrow> nat \<Rightarrow> bool" where
  "resident s i b \<longleftrightarrow> i < length (cache s) \<and> used (cache s ! i) \<noteq> 0 \<and> bno (cache s ! i) = b"

definition cache_ok :: "cached_disk \<Rightarrow> bool" where
  "cache_ok s \<longleftrightarrow> (\<forall>x \<in> set (cache s). block_ok x) \<and> (\<forall>i j b. resident s i b \<and> resident s j b \<longrightarrow> i = j)"

definition held :: "cached_disk \<Rightarrow> nat \<Rightarrow> nat \<Rightarrow> block_type \<Rightarrow> bool" where
  "held s i b ty \<longleftrightarrow> resident s i b \<and> 0 < busy (cache s ! i) \<and> btype (cache s ! i) = ty"

definition holds :: "cached_disk \<Rightarrow> nat \<Rightarrow> nat" where
  "holds s b = (case cached s b of Some x \<Rightarrow> busy x | None \<Rightarrow> 0)"

lemma cache_ok_nth: "cache_ok s \<Longrightarrow> i < length (cache s) \<Longrightarrow> block_ok (cache s ! i)"
  by (simp add: cache_ok_def)

lemma resident_unique: "cache_ok s \<Longrightarrow> resident s i b \<Longrightarrow> resident s j b \<Longrightarrow> i = j"
  unfolding cache_ok_def by blast

lemma cached_resident:
  assumes "cache_ok s" "resident s i b"
  shows "cached s b = Some (cache s ! i)"
proof -
  have "cached s b \<noteq> None" using assms(2) by (auto simp: cached_def find_None_iff resident_def in_set_conv_nth)
  then obtain x where x: "cached s b = Some x" by blast
  then obtain j where j: "j < length (cache s)" "x = cache s ! j" "used x \<noteq> 0" "bno x = b"
    by (auto simp: cached_def find_Some_iff)
  then have "resident s j b" by (simp add: resident_def)
  then show ?thesis using resident_unique [OF assms(1) _ assms(2)] x j(2) by blast
qed

lemma cached_None: "cached s b = None \<longleftrightarrow> (\<forall>i. \<not> resident s i b)"
  by (auto simp: cached_def find_None_iff resident_def in_set_conv_nth)

lemma scan_cache_Inl: "scan_cache b xs k least = Inl i \<Longrightarrow> k \<le> i \<and> i < k + length xs \<and> bno (xs ! (i - k)) = b"
  by (induction b xs k least rule: scan_cache.induct) (fastforce simp: nth_Cons' split: if_splits)+

text \<open>The block that is replaced is idle, and no idle block was used longer ago.\<close>

lemma scan_cache_Inr:
  "scan_cache b xs k least = Inr r \<Longrightarrow>
     (\<forall>x \<in> set xs. bno x \<noteq> b)
     \<and> (case r of
          None \<Rightarrow> least = None \<and> (\<forall>x \<in> set xs. busy x \<noteq> 0)
        | Some i \<Rightarrow> \<exists>t. (least = Some (i, t) \<or> k \<le> i \<and> i < k + length xs \<and> busy (xs ! (i - k)) = 0 \<and> used (xs ! (i - k)) = t)
            \<and> (\<forall>x \<in> set xs. busy x = 0 \<longrightarrow> t \<le> used x) \<and> (\<forall>j t'. least = Some (j, t') \<longrightarrow> t \<le> t'))"
proof (induction b xs k least rule: scan_cache.induct)
  case (1 b k least)
  then show ?case by (auto split: option.splits)
next
  case (2 b x xs k least)
  let ?take = "busy x = 0 \<and> (case least of None \<Rightarrow> True | Some (j, t) \<Rightarrow> used x < t)"
  have ne: "bno x \<noteq> b" and r: "scan_cache b xs (k + 1) (if ?take then Some (k, used x) else least) = Inr r"
    using "2.prems" by (auto split: if_splits)
  note IH = "2.IH" [OF ne r]
  show ?case
  proof (cases r)
    case None
    then show ?thesis using IH ne by (auto split: if_splits)
  next
    case (Some i)
    then obtain t where t: "(if ?take then Some (k, used x) else least) = Some (i, t)
        \<or> k + 1 \<le> i \<and> i < k + 1 + length xs \<and> busy (xs ! (i - (k + 1))) = 0 \<and> used (xs ! (i - (k + 1))) = t"
      "\<forall>y \<in> set xs. busy y = 0 \<longrightarrow> t \<le> used y"
      "\<forall>j t'. (if ?take then Some (k, used x) else least) = Some (j, t') \<longrightarrow> t \<le> t'"
      using IH by auto
    have "busy x = 0 \<longrightarrow> t \<le> used x" using t(3) by (cases least) (auto split: if_splits)
    moreover have "least = Some (j, t') \<longrightarrow> t \<le> t'" for j t' using t(3) by (auto split: if_splits)
    moreover have "least = Some (i, t) \<or> k \<le> i \<and> i < k + length (x # xs) \<and> busy ((x # xs) ! (i - k)) = 0
        \<and> used ((x # xs) ! (i - k)) = t"
      using t(1) by (auto simp: nth_Cons' split: if_splits)
    ultimately show ?thesis using Some IH ne t(2) by auto
  qed
qed

text \<open>
  Putting a block into an entry of the cache changes the view in that block only, when no other
  entry has the block and the block that was in the entry is on the disk.
\<close>

lemma set_block_resident:
  assumes ok: "cache_ok s" and i: "i < length (cache s)" and x: "block_ok x" "bno x = b" "used x \<noteq> 0"
    and only: "\<forall>j. resident s j b \<longrightarrow> j = i"
  shows "resident (s\<lparr>cache := (cache s)[i := x]\<rparr>) j c \<longleftrightarrow> (if c = b then j = i else j \<noteq> i \<and> resident s j c)"
    "cache_ok (s\<lparr>cache := (cache s)[i := x]\<rparr>)"
proof -
  have r: "resident (s\<lparr>cache := (cache s)[i := x]\<rparr>) j c \<longleftrightarrow> (if c = b then j = i else j \<noteq> i \<and> resident s j c)" for j c
    using only i x(2,3) by (cases "j = i") (auto simp: resident_def)
  then show "resident (s\<lparr>cache := (cache s)[i := x]\<rparr>) j c \<longleftrightarrow> (if c = b then j = i else j \<noteq> i \<and> resident s j c)" .
  show "cache_ok (s\<lparr>cache := (cache s)[i := x]\<rparr>)"
    using ok x(1) resident_unique [OF ok] set_update_subset_insert [of "cache s" i x]
    unfolding cache_ok_def r by (auto split: if_splits)
qed

lemma set_block_cached:
  assumes ok: "cache_ok s" and i: "i < length (cache s)" and x: "block_ok x" "bno x = b" "used x \<noteq> 0"
    and only: "\<forall>j. resident s j b \<longrightarrow> j = i"
  shows "cached (s\<lparr>cache := (cache s)[i := x]\<rparr>) c
    = (if c = b then Some x else if resident s i c then None else cached s c)"
proof -
  let ?s = "s\<lparr>cache := (cache s)[i := x]\<rparr>"
  note R = set_block_resident [OF assms]
  show ?thesis
  proof (cases "c = b \<or> resident s i c")
    case True
    show ?thesis
    proof (cases "c = b")
      case True
      have "resident ?s i b" using R(1) [of i b] by simp
      then show ?thesis using cached_resident [OF R(2)] True i by simp
    next
      case ne: False
      then have "\<not> resident ?s j c" for j using True resident_unique [OF ok, of i c j] R(1) [of j c] by auto
      then show ?thesis using True ne cached_None [of ?s c] by simp
    qed
  next
    case False
    show ?thesis
    proof (cases "cached s c")
      case None
      then show ?thesis using False cached_None [of ?s c] cached_None [of s c] unfolding R(1) by simp
    next
      case (Some y)
      then obtain j where j: "resident s j c" using cached_None [of s c] by auto
      then have "j \<noteq> i" "resident ?s j c" using False unfolding R(1) by auto
      then show ?thesis using cached_resident [OF ok j] cached_resident [OF R(2), of j c] False by simp
    qed
  qed
qed

lemma set_block_view:
  assumes ok: "cache_ok s" and i: "i < length (cache s)" and x: "block_ok x" "bno x = b" "used x \<noteq> 0"
    and only: "\<forall>j. resident s j b \<longrightarrow> j = i"
    and clean: "\<forall>a. resident s i (a div 1024) \<and> a div 1024 \<noteq> b \<longrightarrow> disk s a = view s a"
  shows "view (s\<lparr>cache := (cache s)[i := x]\<rparr>) = write_disk b (u x) (view s)"
proof
  fix a :: nat
  show "view (s\<lparr>cache := (cache s)[i := x]\<rparr>) a = write_disk b (u x) (view s) a"
    using set_block_cached [OF assms(1-6), of "a div 1024"] clean
    by (auto simp: view_def write_disk_def split: option.splits)
qed

lemma flush_view:
  assumes ok: "cache_ok s" and i: "i < length (cache s)" "used (cache s ! i) \<noteq> 0"
  shows "view (flushb i s) = view s" "a div 1024 = bno (cache s ! i) \<Longrightarrow> disk (flushb i s) a = view s a"
    "a div 1024 \<noteq> bno (cache s ! i) \<Longrightarrow> disk (flushb i s) a = disk s a"
proof -
  let ?b = "bno (cache s ! i)"
  have "resident s i ?b" using i by (simp add: resident_def)
  note C = cached_resident [OF ok this]
  have c: "cached (flushb i s) c = cached s c" for c by (simp add: cached_def flushb_eq)
  show d: "a div 1024 = ?b \<Longrightarrow> disk (flushb i s) a = view s a" for a
    using C by (simp add: flushb_eq write_disk_def view_def)
  show e: "a div 1024 \<noteq> ?b \<Longrightarrow> disk (flushb i s) a = disk s a" for a by (simp add: flushb_eq write_disk_def)
  show "view (flushb i s) = view s"
  proof
    fix a :: nat
    show "view (flushb i s) a = view s a"
      using C d [of a] e [of a] by (cases "a div 1024 = ?b") (simp_all add: view_def c split: option.splits)
  qed
qed

lemma flush_cache [simp]: "cache (flushb i s) = cache s" "clock (flushb i s) = clock s" "disk_size (flushb i s) = disk_size s"
  by (simp_all add: flushb_eq)

lemma same_cache:
  assumes "cache t = cache s"
  shows "resident t = resident s" "cache_ok t = cache_ok s" "cached t = cached s"
  using assms by (simp_all add: resident_def cache_ok_def cached_def fun_eq_iff)

lemma clock_cache [simp]: "cache_ok (s\<lparr>clock := t\<rparr>) = cache_ok s" "resident (s\<lparr>clock := t\<rparr>) = resident s"
  "view (s\<lparr>clock := t\<rparr>) = view s"
  using same_cache [of "s\<lparr>clock := t\<rparr>" s] by (auto simp: view_def fun_eq_iff split: option.splits)

text \<open>Putting back an entry with the same block.\<close>

lemma same_block:
  assumes ok: "cache_ok s" and r: "resident s i b" and x: "block_ok x" "bno x = b" "used x \<noteq> 0"
  shows "cache_ok (s\<lparr>cache := (cache s)[i := x]\<rparr>)" "resident (s\<lparr>cache := (cache s)[i := x]\<rparr>) = resident s"
    "view (s\<lparr>cache := (cache s)[i := x]\<rparr>) = write_disk b (u x) (view s)"
    "holds (s\<lparr>cache := (cache s)[i := x]\<rparr>) = (holds s)(b := busy x)"
    "held (s\<lparr>cache := (cache s)[i := x]\<rparr>) j c t
       \<longleftrightarrow> (if c = b then j = i \<and> 0 < busy x \<and> btype x = t else held s j c t)"
proof -
  have i: "i < length (cache s)" using r by (simp add: resident_def)
  have only: "\<forall>j. resident s j b \<longrightarrow> j = i" using resident_unique [OF ok _ r] by blast
  have other: "resident s i c \<longleftrightarrow> c = b" for c using r by (auto simp: resident_def)
  show "cache_ok (s\<lparr>cache := (cache s)[i := x]\<rparr>)" by (rule set_block_resident(2) [OF ok i x only])
  have R: "resident (s\<lparr>cache := (cache s)[i := x]\<rparr>) j c = resident s j c" for j c
    unfolding set_block_resident(1) [OF ok i x only] using r only other by metis
  then show "resident (s\<lparr>cache := (cache s)[i := x]\<rparr>) = resident s" by (intro ext)
  show "view (s\<lparr>cache := (cache s)[i := x]\<rparr>) = write_disk b (u x) (view s)"
    by (rule set_block_view [OF ok i x only]) (simp_all add: other)
  show "holds (s\<lparr>cache := (cache s)[i := x]\<rparr>) = (holds s)(b := busy x)"
    using set_block_cached [OF ok i x only] other by (intro ext) (simp add: holds_def)
  show "held (s\<lparr>cache := (cache s)[i := x]\<rparr>) j c t
       \<longleftrightarrow> (if c = b then j = i \<and> 0 < busy x \<and> btype x = t else held s j c t)"
  proof (cases "j = i")
    case True
    then show ?thesis using R [of i c] other [of c] i by (simp add: held_def)
  next
    case False
    then have "held (s\<lparr>cache := (cache s)[i := x]\<rparr>) j c t = held s j c t" using R [of j c] by (simp add: held_def)
    moreover have "\<not> held s j b t" using only False by (auto simp: held_def)
    ultimately show ?thesis using False by simp
  qed
qed

lemma modify_law:
  assumes ok: "cache_ok s" and h: "held s i b ty"
  shows "cache_ok (modify i f s) \<and> view (modify i f s) = write_disk b (f (read_disk (view s) b)) (view s)
    \<and> holds (modify i f s) = holds s \<and> (\<forall>j c t. held s j c t \<longrightarrow> held (modify i f s) j c t)"
proof -
  let ?x = "(cache s ! i)\<lparr>u := block_data (f (u (cache s ! i)))\<rparr>"
  have r: "resident s i b" and i: "i < length (cache s)" using h by (simp_all add: held_def resident_def)
  have o: "block_ok (cache s ! i)" "bno (cache s ! i) = b" "used (cache s ! i) \<noteq> 0"
    using cache_ok_nth [OF ok i] r by (simp_all add: resident_def)
  then have x: "block_ok ?x" "bno ?x = b" "used ?x \<noteq> 0" by (simp_all add: block_ok_def)
  note S = same_block [OF ok r x]
  have u: "u (cache s ! i) = read_disk (view s) b"
    using o cached_resident [OF ok r] by (auto simp: read_disk_def view_def block_ok_def block_data_def fun_eq_iff split: if_splits)
  have "holds s b = busy (cache s ! i)" using cached_resident [OF ok r] by (simp add: holds_def)
  then have "holds (modify i f s) = holds s" unfolding modify_def S(4) by auto
  moreover have "held s j c t \<Longrightarrow> held (modify i f s) j c t" for j c t
    using resident_unique [OF ok r, of j] h unfolding modify_def S(5) by (auto simp: held_def)
  moreover have "view (modify i f s) = write_disk b (f (read_disk (view s) b)) (view s)"
    unfolding modify_def S(3) by (simp add: u)
  ultimately show ?thesis using S(1) by (simp add: modify_def)
qed

lemma putblk_law:
  assumes ok: "cache_ok s" and h: "held s i b ty"
  shows "cache_ok (putblk i s) \<and> view (putblk i s) = view s \<and> holds (putblk i s) = (holds s)(b := holds s b - 1)
    \<and> (\<forall>j c t. held s j c t \<and> (c = b \<longrightarrow> 1 < holds s b) \<longrightarrow> held (putblk i s) j c t)"
proof -
  let ?x = "(cache s ! i)\<lparr>busy := busy (cache s ! i) - 1\<rparr>"
  have r: "resident s i b" and i: "i < length (cache s)" using h by (simp_all add: held_def resident_def)
  have o: "block_ok (cache s ! i)" "bno (cache s ! i) = b" "used (cache s ! i) \<noteq> 0"
    using cache_ok_nth [OF ok i] r by (simp_all add: resident_def)
  then have x: "block_ok ?x" "bno ?x = b" "used ?x \<noteq> 0" by (simp_all add: block_ok_def)
  note S = same_block [OF ok r x]
  have n: "holds s b = busy (cache s ! i)" using cached_resident [OF ok r] by (simp add: holds_def)
  have "write_disk b (u ?x) (view s) = view s"
    using cached_resident [OF ok r] by (auto simp: write_disk_def view_def fun_eq_iff)
  then have "view (putblk i s) = view s" unfolding putblk_def S(3) .
  moreover have "held s j c t \<and> (c = b \<longrightarrow> 1 < holds s b) \<Longrightarrow> held (putblk i s) j c t" for j c t
    using resident_unique [OF ok r, of j] n unfolding putblk_def S(5) by (auto simp: held_def)
  ultimately show ?thesis using S(1,4) n by (simp add: putblk_def)
qed

lemma flushdisk_law:
  assumes ok: "cache_ok s"
  shows "disk (flushdisk s) = view s"
proof -
  let ?f = "\<lambda>i s. if used (cache s ! i) \<noteq> 0 then flushb i s else s"
  have step: "cache_ok (?f i t) \<and> cache (?f i t) = cache t \<and> view (?f i t) = view t
      \<and> (\<forall>a. disk t a = view t a \<longrightarrow> disk (?f i t) a = view t a)
      \<and> (\<forall>a. resident t i (a div 1024) \<longrightarrow> disk (?f i t) a = view t a)" if "cache_ok t" "i < length (cache t)" for t i
  proof (cases "used (cache t ! i) = 0")
    case False
    have "disk t a = view t a \<Longrightarrow> disk (flushb i t) a = view t a" for a
      using flush_view(2,3) [OF that False, of a] by (cases "a div 1024 = bno (cache t ! i)") simp_all
    then show ?thesis using flush_view [OF that False] that False same_cache(2) [of "flushb i t" t]
      by (simp add: resident_def)
  qed (use that in \<open>simp add: resident_def\<close>)
  have "cache_ok (fold ?f is t) \<and> cache (fold ?f is t) = cache t \<and> view (fold ?f is t) = view t
      \<and> (\<forall>a. disk t a = view t a \<or> (\<exists>i \<in> set is. resident t i (a div 1024)) \<longrightarrow> disk (fold ?f is t) a = view t a)"
    if "cache_ok t" "\<forall>i \<in> set is. i < length (cache t)" for t "is"
    using that
  proof (induction "is" arbitrary: t)
    case (Cons i "is")
    then show ?case using step [of t i] same_cache(1) [of "?f i t" t] by simp
  qed simp
  note F = this [OF ok, of "[0..<length (cache s)]", folded flushdisk_def]
  have "\<forall>i \<in> set [0..<length (cache s)]. i < length (cache s)" by simp
  note F = F [OF this]
  show ?thesis
  proof
    fix a :: nat
    show "disk (flushdisk s) a = view s a"
    proof (cases "\<exists>i. resident s i (a div 1024)")
      case True
      then obtain i where "resident s i (a div 1024)" "i \<in> set [0..<length (cache s)]" by (auto simp: resident_def)
      then show ?thesis using F by blast
    next
      case False
      then have "disk s a = view s a" by (simp add: view_def cached_None [THEN iffD2])
      then show ?thesis using F by simp
    qed
  qed
qed

text \<open>Both ways out of the search: the block is in the cache, or it is read into an idle entry.\<close>

lemma hold_cached:
  assumes ok: "cache_ok s" and r: "resident s i b" and g: "hold_block i clr ty s = Some (k, s')"
  shows "k = i \<and> cache_ok s' \<and> view s' = (if clr then write_disk b (\<lambda>_. 0) (view s) else view s) \<and> held s' i b ty
    \<and> holds s' = (holds s)(b := holds s b + 1) \<and> (\<forall>j c t. held s j c t \<longrightarrow> held s' j c t)"
proof -
  let ?t = "s\<lparr>clock := clock s + 1\<rparr>"
  let ?x = "(cache s ! i)\<lparr>u := (if clr then (\<lambda>_. 0) else u (cache s ! i)), used := clock s + 1,
      busy := busy (cache s ! i) + 1, btype := ty\<rparr>"
  have t: "cache_ok ?t" "resident ?t i b" "view ?t = view s" "holds ?t = holds s" "held ?t = held s"
    using ok r same_cache [of ?t s] by (simp_all add: holds_def held_def fun_eq_iff)
  have s': "k = i" "s' = ?t\<lparr>cache := (cache ?t)[i := ?x]\<rparr>" and ty: "btype (cache s ! i) = ty \<or> busy (cache s ! i) = 0"
    using g by (auto simp: hold_block_def Let_def split: if_splits)
  have o: "block_ok (cache s ! i)" "bno (cache s ! i) = b" "used (cache s ! i) \<noteq> 0"
    using cache_ok_nth [OF ok] r by (simp_all add: resident_def)
  then have x: "block_ok ?x" "bno ?x = b" "used ?x \<noteq> 0" by (simp_all add: block_ok_def)
  note S = same_block [OF t(1,2) x, folded s'(2)]
  have C: "cached s b = Some (cache s ! i)" by (rule cached_resident [OF ok r])
  have "\<not> clr \<Longrightarrow> write_disk b (u ?x) (view s) = view s"
    using C by (auto simp: write_disk_def view_def fun_eq_iff)
  then have "view s' = (if clr then write_disk b (\<lambda>_. 0) (view s) else view s)" using S(3) t(3) by auto
  moreover have "holds s' = (holds s)(b := holds s b + 1)" using S(4) t(4) C by (simp add: holds_def)
  moreover have "held s j c t' \<Longrightarrow> held s' j c t'" for j c t'
    using S(5) [of j c t'] t(5) ty resident_unique [OF ok r, of j] by (auto simp: held_def)
  ultimately show ?thesis using s'(1) S(1) S(5) [of i b ty] by simp
qed

lemma hold_loaded:
  assumes ok: "cache_ok s" and b: "0 < b" and none: "\<forall>k. \<not> resident s k b"
    and j: "j < length (cache s)" and idle: "busy (cache s ! j) = 0"
    and g: "hold_block j clr ty (load_block j b clr ty s) = Some (k, s')"
  shows "k = j \<and> cache_ok s' \<and> view s' = (if clr then write_disk b (\<lambda>_. 0) (view s) else view s) \<and> held s' j b ty
    \<and> holds s' = (holds s)(b := holds s b + 1) \<and> (\<forall>i c t. held s i c t \<longrightarrow> held s' i c t)"
proof -
  define s1 where "s1 = (if used (cache s ! j) \<noteq> 0 then flushb j s else s)"
  let ?t = "s1\<lparr>clock := clock s + 1\<rparr>"
  let ?x = "(cache s ! j)\<lparr>bno := b, u := (if clr then (\<lambda>_. 0) else read_disk (disk s1) b), used := clock s + 1,
      busy := 1, btype := ty\<rparr>"
  have C: "cache s1 = cache s" "clock s1 = clock s" "view s1 = view s"
    using flush_view(1) [OF ok j] by (simp_all add: s1_def)
  have t: "cache_ok ?t" "resident ?t = resident s" "view ?t = view s" "cache ?t = cache s" "cached ?t = cached s" "disk ?t = disk s1"
    using ok C same_cache [of s1 s] same_cache [of ?t s] by simp_all
  have "load_block j b clr ty s = upd_block j (\<lambda>x. x\<lparr>u := read_disk (disk s1) b, bno := b, busy := 0, btype := ty\<rparr>) s1"
    unfolding load_block_def s1_def [symmetric] by (simp add: Let_def)
  then have s': "k = j" "s' = ?t\<lparr>cache := (cache ?t)[j := ?x]\<rparr>"
    using g j by (cases clr; simp add: hold_block_def Let_def C)+
  have x: "block_ok ?x" "bno ?x = b" "used ?x \<noteq> 0" using b by (simp_all add: block_ok_def)
  have jt: "j < length (cache ?t)" and only: "\<forall>i. resident ?t i b \<longrightarrow> i = j" using j none t by auto
  have clean: "\<forall>a. resident ?t j (a div 1024) \<and> a div 1024 \<noteq> b \<longrightarrow> disk ?t a = view ?t a"
    using flush_view(2) [OF ok j] t(2,3) by (auto simp: s1_def resident_def)
  note S = set_block_resident [OF t(1) jt x only, folded s'(2)] and V = set_block_view [OF t(1) jt x only clean, folded s'(2)]
    and K = set_block_cached [OF t(1) jt x only, folded s'(2)]
  have nc: "cached s b = None" using none by (simp add: cached_None)
  have "disk s1 a = view s a" if a: "a div 1024 = b" for a
  proof -
    have "\<not> resident s j b" using none by blast
    then have "disk s1 a = disk s a" using flush_view(3) [OF ok j, of a] a j by (auto simp: s1_def resident_def)
    then show ?thesis using nc a by (simp add: view_def)
  qed
  then have "\<not> clr \<Longrightarrow> write_disk b (u ?x) (view s) = view s"
    by (auto simp: write_disk_def read_disk_def block_data_def fun_eq_iff mult.commute)
  then have "view s' = (if clr then write_disk b (\<lambda>_. 0) (view s) else view s)" using V t(3) by auto
  moreover have "holds s' = (holds s)(b := holds s b + 1)"
  proof
    fix c
    have "resident s j c \<Longrightarrow> holds s c = 0" using cached_resident [OF ok, of j c] idle by (simp add: holds_def)
    then show "holds s' c = ((holds s)(b := holds s b + 1)) c" using K [of c] t(2,5) nc by (simp add: holds_def)
  qed
  moreover have "held s' i c t'" if h: "held s i c t'" for i c t'
  proof -
    have "i \<noteq> j" "c \<noteq> b" "resident s i c" using h idle none by (auto simp: held_def)
    then show ?thesis using h S(1) [of i c] t s'(2) by (simp add: held_def)
  qed
  moreover have "held s' j b ty" using S(1) [of j b] jt s'(2) by (simp add: held_def)
  ultimately show ?thesis using s'(1) S(2) by blast
qed

lemma getblk_law:
  assumes ok: "cache_ok s" and b: "0 < b" and g: "getblk b clr ty s = Some (i, s')"
  shows "cache_ok s' \<and> view s' = (if clr then write_disk b (\<lambda>_. 0) (view s) else view s) \<and> held s' i b ty
    \<and> holds s' = (holds s)(b := holds s b + 1) \<and> (\<forall>j c t. held s j c t \<longrightarrow> held s' j c t)"
proof (cases "scan_cache b (cache s) 0 None")
  case (Inl j)
  note J = scan_cache_Inl [OF Inl]
  then have r: "resident s j b" using cache_ok_nth [OF ok, of j] b by (auto simp: resident_def block_ok_def split: if_splits)
  have "hold_block j clr ty s = Some (i, s')" using g Inl by (simp add: getblk_def split: if_splits)
  from hold_cached [OF ok r this] show ?thesis by blast
next
  case (Inr r)
  then obtain j where r: "r = Some j" using g by (cases r) (auto simp: getblk_def split: if_splits)
  note R = scan_cache_Inr [OF Inr [unfolded r]]
  then have j: "j < length (cache s)" "busy (cache s ! j) = 0" and none: "\<forall>k. \<not> resident s k b"
    by (auto simp: resident_def)
  have "hold_block j clr ty (load_block j b clr ty s) = Some (i, s')" using g Inr r by (simp add: getblk_def split: if_splits)
  from hold_loaded [OF ok b none j this] show ?thesis by blast
qed

text \<open>The program finds a block: only more held blocks than entries, or a wrong type, make it abort.\<close>

lemma getblk_ok:
  assumes ok: "cache_ok s" and b: "0 < b" "b < disk_size s" and ty: "\<forall>j t. held s j b t \<longrightarrow> t = ty"
    and room: "0 < holds s b \<or> card {c. 0 < holds s c} < length (cache s)"
  shows "getblk b clr ty s \<noteq> None"
proof (cases "scan_cache b (cache s) 0 None")
  case (Inl j)
  note J = scan_cache_Inl [OF Inl]
  then have "resident s j b" using cache_ok_nth [OF ok, of j] b by (auto simp: resident_def block_ok_def split: if_splits)
  then have "btype (cache s ! j) = ty \<or> busy (cache s ! j) = 0" using ty by (auto simp: held_def)
  then show ?thesis using Inl b by (auto simp: getblk_def hold_block_def Let_def)
next
  case (Inr r)
  note R = scan_cache_Inr [OF Inr]
  have none: "\<not> resident s k b" for k using R by (auto simp: resident_def)
  show ?thesis
  proof (cases r)
    case None
    have busy: "0 < busy x \<and> used x \<noteq> 0" if "x \<in> set (cache s)" for x
      using R None that ok by (auto simp: cache_ok_def block_ok_def split: if_splits)
    have "inj_on (\<lambda>i. bno (cache s ! i)) {..<length (cache s)}"
      using resident_unique [OF ok] busy by (auto simp: inj_on_def resident_def)
    then have "card ((\<lambda>i. bno (cache s ! i)) ` {..<length (cache s)}) = length (cache s)" by (simp add: card_image)
    moreover have "(\<lambda>i. bno (cache s ! i)) ` {..<length (cache s)} = {c. 0 < holds s c}"
    proof (rule set_eqI)
      fix c
      have "resident s i c \<Longrightarrow> 0 < holds s c" for i
        using cached_resident [OF ok, of i c] busy by (simp add: holds_def resident_def)
      moreover have "\<not> 0 < holds s c" if "\<forall>i. \<not> resident s i c"
        using that cached_None [of s c] by (simp add: holds_def)
      ultimately have "0 < holds s c \<longleftrightarrow> (\<exists>i. resident s i c)" by blast
      then show "c \<in> (\<lambda>i. bno (cache s ! i)) ` {..<length (cache s)} \<longleftrightarrow> c \<in> {c. 0 < holds s c}"
        using busy by (auto simp: resident_def)
    qed
    moreover have "holds s b = 0" using none by (simp add: holds_def cached_None [THEN iffD2])
    ultimately show ?thesis using room by simp
  next
    case (Some j)
    then show ?thesis using Inr b R
      by (auto simp: getblk_def hold_block_def load_block_def Let_def)
  qed
qed

section \<open>The cache refines a plain memory\<close>

definition cache_inv :: "nat \<Rightarrow> cached_disk \<Rightarrow> bool" where
  "cache_inv n s \<longleftrightarrow> cache_ok s \<and> disk_size s = n \<and> length (cache s) = 16"

lemma getblk_frame:
  assumes "getblk b clr ty s = Some (i, s')"
  shows "disk_size s' = disk_size s" "length (cache s') = length (cache s)"
  using assms by (auto simp: getblk_def hold_block_def load_block_def Let_def split: sum.splits option.splits if_splits)

lemma client_frame [simp]:
  "disk_size (modify i f s) = disk_size s" "length (cache (modify i f s)) = length (cache s)"
  "disk_size (putblk i s) = disk_size s" "length (cache (putblk i s)) = length (cache s)"
  by (simp_all add: modify_def putblk_def)

interpretation formatter: block_store "cache_inv n" view held holds n 16 getblk modify putblk "\<lambda>s. disk (flushdisk s)" for n
proof (unfold_locales, goal_cases)
  case (1 s b clr ty i s')
  then show ?case using getblk_law [of s b clr ty i s'] getblk_frame [of b clr ty s i s'] by (simp add: cache_inv_def)
next
  case (2 s b ty clr)
  then show ?case using getblk_ok [of s b ty clr] by (simp add: cache_inv_def)
next
  case (3 s i b t j t')
  then show ?case using resident_unique [of s i b j] by (auto simp: held_def cache_inv_def)
next
  case (4 s i b ty f)
  then show ?case using modify_law [of s i b ty f] by (simp add: cache_inv_def)
next
  case (5 s i b ty)
  then show ?case using putblk_law [of s i b ty] by (simp add: cache_inv_def)
next
  case (6 s i b t)
  then show ?case using cached_resident [of s i b] by (auto simp: held_def holds_def cache_inv_def)
next
  case (7 s)
  then show ?case using flushdisk_law by (simp add: cache_inv_def)
qed

lemma empty_cache_sim: "formatter.sim n (empty_cache n) [] []" "view (empty_cache n) = (\<lambda>_. 0)"
proof -
  have "\<not> resident (empty_cache n) i b" for i b by (simp add: resident_def empty_cache_def)
  then have "cached (empty_cache n) b = None" for b by (simp add: cached_None)
  then show "view (empty_cache n) = (\<lambda>_. 0)" "formatter.sim n (empty_cache n) [] []"
    by (auto simp: view_def formatter.sim_def cache_inv_def cache_ok_def holds_def List.map_filter_simps
        resident_def block_ok_def empty_cache_def)
qed

text \<open>C7: The block cache of the formatter is invisible. Take any sequence of operations in which
  at most sixteen different blocks (not the boot block, inside the disk) are held at a time, a held
  block is not got as another kind of block, and only held blocks are changed or put back. Then the
  program never aborts, every pointer it holds stays the block it was got for however many blocks
  are evicted, written back and read again, and after \<open>flushdisk\<close> the image has exactly the
  bytes that the same operations give on a plain memory.\<close>

theorem cache_refines_memory:
  assumes "plain_ops n 16 ops [] (\<lambda>_. 0) = Some m"
  shows "\<exists>hs s. run_ops getblk modify putblk ops [] (empty_cache n) = Some (hs, s) \<and> disk (flushdisk s) = m"
  using formatter.store_simulates [of n ops "[]" "empty_cache n" m "[]"] assms empty_cache_sim [of n] by simp

theorem cache_refines_memory_witness:
  "\<exists>hs s. run_ops getblk modify putblk
     [Get 2 True BLOCK_BITS, Get 5 True BLOCK_FILE, Change 0 (\<lambda>v. v(3 := 9)), Put 0, Change 1 (\<lambda>v. v(0 := 7)), Put 1]
     [] (empty_cache 8) = Some (hs, s)
   \<and> disk (flushdisk s) 2051 = 9 \<and> disk (flushdisk s) 5120 = 7"
proof -
  let ?ops = "[Get 2 True BLOCK_BITS, Get 5 True BLOCK_FILE, Change 0 (\<lambda>v. v(3 := 9)), Put 0, Change 1 (\<lambda>v. v(0 := 7)), Put 1]"
  obtain m where m: "plain_ops 8 16 ?ops [] (\<lambda>_. 0) = Some m" "m 2051 = 9" "m 5120 = 7"
    by (simp add: List.map_filter_simps write_disk_def read_disk_def block_data_def)
  show ?thesis using cache_refines_memory [OF m(1)] m(2,3) by auto
qed

end
