(* ===== verification/CharType.thy ===== *)
theory CharType
  imports Prelude
begin

text \<open>
  The classification of characters of the C locale, and decimal numerals, as the shell and the
  peer use them from the standard library.
\<close>

abbreviation code :: "char \<Rightarrow> nat" where
  "code c \<equiv> of_char c"

definition is_digit :: "char \<Rightarrow> bool" where
  "is_digit c \<longleftrightarrow> 48 \<le> code c \<and> code c \<le> 57"

definition is_alnum :: "char \<Rightarrow> bool" where
  "is_alnum c \<longleftrightarrow> (let n = code c in 48 \<le> n \<and> n \<le> 57 \<or> 65 \<le> n \<and> n \<le> 90 \<or> 97 \<le> n \<and> n \<le> 122)"

definition is_xdigit :: "char \<Rightarrow> bool" where
  "is_xdigit c \<longleftrightarrow> (let n = code c in 48 \<le> n \<and> n \<le> 57 \<or> 65 \<le> n \<and> n \<le> 70 \<or> 97 \<le> n \<and> n \<le> 102)"

definition is_space :: "char \<Rightarrow> bool" where
  "is_space c \<longleftrightarrow> (let n = code c in n = 32 \<or> 9 \<le> n \<and> n \<le> 13)"

definition to_lower :: "char \<Rightarrow> char" where
  "to_lower c = (if 65 \<le> code c \<and> code c \<le> 90 then char_of (code c + 32) else c)"

section \<open>Decimal numerals\<close>

definition digit_char :: "nat \<Rightarrow> char" where
  "digit_char d = char_of (48 + d)"

definition digit_of :: "char \<Rightarrow> nat" where
  "digit_of c = code c - 48"

text \<open>As \<open>printf\<close> prints them with \<open>%d\<close>.\<close>

fun show_nat :: "nat \<Rightarrow> string" where
  "show_nat n = (if n < 10 then [digit_char n] else show_nat (n div 10) @ [digit_char (n mod 10)])"

declare show_nat.simps [simp del]

definition show_int :: "int \<Rightarrow> string" where
  "show_int i = (if i < 0 then CHR 0x2D # show_nat (nat (- i)) else show_nat (nat i))"

text \<open>The value that a run of digits adds to.\<close>

fun read_digits :: "nat \<Rightarrow> string \<Rightarrow> nat" where
  "read_digits v [] = v"
| "read_digits v (c # cs) = read_digits (10 * v + digit_of c) cs"

lemma code_digit_char: "d < 10 \<Longrightarrow> code (digit_char d) = 48 + d"
  by (simp add: digit_char_def of_char_of)

lemma digit_char_simps [simp]:
  "d < 10 \<Longrightarrow> is_digit (digit_char d)" "d < 10 \<Longrightarrow> digit_of (digit_char d) = d"
  by (simp_all add: is_digit_def digit_of_def code_digit_char)

lemma digit_of_less [simp]: "is_digit c \<Longrightarrow> digit_of c < 10"
  unfolding is_digit_def digit_of_def by linarith

lemma is_digit_not_space [simp]: "is_digit c \<Longrightarrow> \<not> is_space c"
  by (auto simp: is_digit_def is_space_def Let_def)

lemma read_digits_append: "read_digits v (cs @ ds) = read_digits (read_digits v cs) ds"
  by (induction v cs rule: read_digits.induct) simp_all

lemma show_nat_digits: "list_all is_digit (show_nat n)" "show_nat n \<noteq> []"
proof -
  show "list_all is_digit (show_nat n)"
  proof (induction n rule: show_nat.induct)
    case (1 n)
    then show ?case by (subst show_nat.simps) (simp add: list_all_iff)
  qed
  show "show_nat n \<noteq> []" by (subst show_nat.simps) simp
qed

lemma read_show_nat: "read_digits 0 (show_nat n) = n"
proof (induction n rule: show_nat.induct)
  case (1 n)
  show ?case
  proof (cases "n < 10")
    case True
    then show ?thesis by (subst show_nat.simps) simp
  next
    case False
    have "read_digits 0 (show_nat n) = read_digits 0 (show_nat (n div 10) @ [digit_char (n mod 10)])"
      using False by (subst show_nat.simps) simp
    also have "\<dots> = 10 * (n div 10) + n mod 10" using 1 False by (simp add: read_digits_append)
    finally show ?thesis by simp
  qed
qed

lemma hd_show_nat: "0 < n \<Longrightarrow> digit_of (hd (show_nat n)) \<noteq> 0"
proof (induction n rule: show_nat.induct)
  case (1 n)
  show ?case
  proof (cases "n < 10")
    case True
    then show ?thesis using 1 by (subst show_nat.simps) simp
  next
    case False
    then show ?thesis using 1 show_nat_digits(2) [of "n div 10"] by (subst show_nat.simps) simp
  qed
qed

lemma show_int_nonneg: "0 \<le> i \<Longrightarrow> show_int i = show_nat (nat i)"
  by (simp add: show_int_def)

section \<open>Numbers in byte strings\<close>

text \<open>What \<open>strtol\<close> and \<open>strtoul\<close> read with base 0, without the sign; \<open>None\<close>: no number, or something after it.\<close>

definition digit_value :: "u8 \<Rightarrow> nat" where
  "digit_value c = (if 48 \<le> c \<and> c \<le> 57 then unat c - 48 else if 97 \<le> c \<and> c \<le> 122 then unat c - 87
     else if 65 \<le> c \<and> c \<le> 90 then unat c - 55 else 36)"

definition number :: "nat \<Rightarrow> u8 list \<Rightarrow> nat option" where
  "number base ds = (if ds \<noteq> [] \<and> (\<forall>c \<in> set ds. digit_value c < base)
     then Some (foldl (\<lambda>n c. n * base + digit_value c) 0 ds) else None)"

definition based_number :: "u8 list \<Rightarrow> nat option" where
  "based_number t =
     (if length t > 2 \<and> hd t = 48 \<and> (t ! 1 = 120 \<or> t ! 1 = 88) then number 16 (drop 2 t)
      else if t \<noteq> [] \<and> hd t = 48 then number 8 t else number 10 t)"

text \<open>\<open>strtol\<close> with base 0, for a 32-bit \<open>long\<close>; \<open>None\<close>: no number, or something after it.\<close>

definition strtol0 :: "u8 list \<Rightarrow> int option" where
  "strtol0 str =
     (let t = dropWhile (\<lambda>c. c = 32 \<or> 9 \<le> c \<and> c \<le> 13) str;
          neg = (t \<noteq> [] \<and> hd t = 45);
          t = (if t \<noteq> [] \<and> (hd t = 45 \<or> hd t = 43) then tl t else t)
      in map_option (\<lambda>n. max (- 2147483648) (min 2147483647 (if neg then - int n else int n))) (based_number t))"

end
