(* ===== verification/OspfsFormat.thy ===== *)
theory OspfsFormat
  imports BlockCache CharType "HOL-Library.Monad_Syntax"
begin

text \<open>
  The program that makes an OSPFS image (\<open>lab3/ospfsformat.c\<close>), on the plain memory that its block
  cache stands for (theory \<open>BlockCache\<close>): \<open>img\<close> is the image, a pointer into a block is its offset in
  the image. \<open>None\<close> is a run that does not end with an image: \<open>abort()\<close>, a failed assertion, the
  use of a null pointer, or a copy that leaves the buffer of a block. File names and
  contents are byte strings. Messages are left out.
\<close>

section \<open>State\<close>

record Hardlink =
  osp_ino :: nat
  host_ino :: u32
  md5_digest :: "u8 list"

record format_state =
  img :: mem
  nblocks :: nat
  ninodes :: nat
  nbitblock :: nat
  nextb :: nat
  nextinode :: nat
  firstinob :: nat
  link_contents :: bool
  hardlinks :: "Hardlink list"

text \<open>
  \<open>md5\<close> is the digest of the file's contents (\<open>lab3/md5.c\<close>). A null digest is \<open>None\<close>.
\<close>

fun get_hardlink :: "Hardlink list \<Rightarrow> bool \<Rightarrow> nat \<Rightarrow> u8 list option \<Rightarrow> nat" where
  "get_hardlink [] lc h d = 0"
| "get_hardlink (cur # rest) lc h d =
     (if (h \<noteq> 0 \<and> unat (host_ino cur) = h) \<or> (lc \<and> d \<noteq> None \<and> d = Some (md5_digest cur)) then osp_ino cur
      else get_hardlink rest lc h d)"

definition add_hardlink :: "nat \<Rightarrow> nat \<Rightarrow> u8 list option \<Rightarrow> format_state \<Rightarrow> format_state" where
  "add_hardlink h ino d s = s\<lparr>hardlinks :=
     \<lparr>osp_ino = ino, host_ino = of_nat h,
      md5_digest = (case d of Some x \<Rightarrow> if link_contents s then x else replicate 16 0 | None \<Rightarrow> replicate 16 0)\<rparr>
     # hardlinks s\<rparr>"

section \<open>Blocks, inodes and directory entries\<close>

text \<open>\<open>getblk\<close> as the cache presents it; the result is the address of the data.\<close>

definition get_block :: "nat \<Rightarrow> bool \<Rightarrow> format_state \<Rightarrow> (nat \<times> format_state) option" where
  "get_block b clr s =
     (if b \<ge> nblocks s then None
      else Some (b * OSPFS_BLKSIZE, if clr then s\<lparr>img := write_disk b (\<lambda>_. 0) (img s)\<rparr> else s))"

definition store32 :: "nat \<Rightarrow> u32 \<Rightarrow> format_state \<Rightarrow> format_state" where
  "store32 a v s = s\<lparr>img := wr32 (img s) a v\<rparr>"

definition new_block :: "format_state \<Rightarrow> (nat \<times> format_state) option" where
  "new_block s = map_option (\<lambda>(a, t). (nextb s, t\<lparr>nextb := nextb s + 1\<rparr>)) (get_block (nextb s) True s)"

text \<open>The block that the pointer at an address names; when it is zero, a new one is put there.\<close>

definition pointed_block :: "nat \<Rightarrow> format_state \<Rightarrow> (nat \<times> format_state) option" where
  "pointed_block a s =
     (if rd32 (img s) a = 0 then do { (b, s) \<leftarrow> new_block s; Some (b * OSPFS_BLKSIZE, store32 a (of_nat b) s) }
      else get_block (unat (rd32 (img s) a)) False s)"

definition storeblk :: "nat \<Rightarrow> nat \<Rightarrow> nat \<Rightarrow> format_state \<Rightarrow> format_state option" where
  "storeblk ino b nblk s =
     (if nblk < OSPFS_NDIRECT then Some (store32 (ino + 16 + 4 * nblk) (of_nat b) s)
      else if nblk < OSPFS_NDIRECT + OSPFS_NINDIRECT then do {
        (bindir, s) \<leftarrow> pointed_block (ino + 56) s;
        Some (store32 (bindir + 4 * (nblk - OSPFS_NDIRECT)) (of_nat b) s)
      }
      else if nblk < OSPFS_MAXFILEBLKS then do {
        (bindir2, s) \<leftarrow> pointed_block (ino + 60) s;
        (bindir, s) \<leftarrow> pointed_block (bindir2 + 4 * ((nblk - (OSPFS_NDIRECT + OSPFS_NINDIRECT)) div OSPFS_NINDIRECT)) s;
        Some (store32 (bindir + 4 * ((nblk - (OSPFS_NDIRECT + OSPFS_NINDIRECT)) mod OSPFS_NINDIRECT)) (of_nat b) s)
      }
      else None)"

definition inode_block :: "nat \<Rightarrow> format_state \<Rightarrow> (nat \<times> format_state) option" where
  "inode_block ino s = do {
     (ib, s) \<leftarrow> get_block (firstinob s + ino div OSPFS_BLKINODES) False s;
     Some (ib + OSPFS_INODESIZE * (ino mod OSPFS_BLKINODES), s)
   }"

text \<open>\<open>allocinode\<close> stores the inode number through its first argument, which is the address \<open>p\<close>.\<close>

definition allocinode :: "nat option \<Rightarrow> format_state \<Rightarrow> (nat \<times> nat \<times> format_state) option" where
  "allocinode p s =
     (if nextinode s = ninodes s then None
      else do {
        let ino = nextinode s;
        let s = s\<lparr>nextinode := ino + 1\<rparr>;
        let s = (case p of Some a \<Rightarrow> store32 a (of_nat ino) s | None \<Rightarrow> s);
        (oi, s) \<leftarrow> inode_block ino s;
        Some (ino, oi, s)
      })"

text \<open>The block of a directory's last entries, from the number of blocks of the directory.\<close>

definition last_dir_block :: "nat \<Rightarrow> nat \<Rightarrow> format_state \<Rightarrow> (nat \<times> format_state) option" where
  "last_dir_block dir nblk s =
     (if nblk \<ge> OSPFS_NDIRECT + OSPFS_NINDIRECT then do {
        let off = nblk - OSPFS_NDIRECT - OSPFS_NINDIRECT;
        (bindir2, s) \<leftarrow> get_block (unat (oi_indirect2 (img s) dir)) False s;
        (bindir, s) \<leftarrow> get_block (unat (rd32 (img s) (bindir2 + 4 * (off div OSPFS_NINDIRECT)))) False s;
        get_block (unat (rd32 (img s) (bindir + 4 * (off mod OSPFS_NINDIRECT)))) False s
      }
      else if nblk \<ge> OSPFS_NDIRECT then do {
        (bindir, s) \<leftarrow> get_block (unat (oi_indirect (img s) dir)) False s;
        get_block (unat (rd32 (img s) (bindir + 4 * (nblk - OSPFS_NDIRECT)))) False s
      }
      else get_block (unat (oi_direct (img s) dir nblk)) False s)"

definition new_dirb :: "nat \<Rightarrow> nat \<Rightarrow> format_state \<Rightarrow> (nat \<times> format_state) option" where
  "new_dirb dir nblk s = do {
     (b, s) \<leftarrow> new_block s;
     let s = fold (\<lambda>i. store32 (b * OSPFS_BLKSIZE + OSPFS_DIRENTRY_SIZE * i) 0) [0..<8] s;
     s \<leftarrow> storeblk dir b nblk s;
     let s = store32 dir (oi_size (img s) dir + OSPFS_BLKSIZE) s;
     if of_nat ((nblk + 1) * OSPFS_BLKSIZE) = oi_size (img s) dir then Some (b * OSPFS_BLKSIZE, s) else None
   }"

text \<open>\<open>Some (None, s)\<close> is the null pointer that the function returns for a name that is too long.\<close>

definition allocdirentry :: "nat \<Rightarrow> u8 list \<Rightarrow> format_state \<Rightarrow> (nat option \<times> format_state) option" where
  "allocdirentry dir name s =
     (if length name > OSPFS_MAXNAMELEN then Some (None, s)
      else do {
        let n = unat ((oi_size (img s) dir + OSPFS_BLKSIZE - 1) div OSPFS_BLKSIZE);
        found \<leftarrow> (if n = 0 then Some (None, s)
                  else do {
                    (dirb, s) \<leftarrow> last_dir_block dir (n - 1) s;
                    Some (find (\<lambda>od. rd32 (img s) od = 0) (map (\<lambda>i. dirb + OSPFS_DIRENTRY_SIZE * i) [0..<8]), s)
                  });
        (od, s) \<leftarrow> (case found of (Some od, s) \<Rightarrow> Some (od, s) | (None, s) \<Rightarrow> new_dirb dir n s);
        Some (Some od, s\<lparr>img := mem_write (img s) (od + 4) (name @ [0])\<rparr>)
      })"

definition last_component :: "u8 list \<Rightarrow> u8 list" where
  "last_component name = rev (takeWhile (\<lambda>c. c \<noteq> 47) (rev name))"

section \<open>Files and symbolic links\<close>

text \<open>The loop over the blocks of a file; the result is \<open>nblk * OSPFS_BLKSIZE + n\<close>.\<close>

function write_blocks :: "nat \<Rightarrow> u8 list \<Rightarrow> nat \<Rightarrow> format_state \<Rightarrow> (nat \<times> format_state) option" where
  "write_blocks ino bytes nblk s =
     (case get_block (nextb s) True s of
        None \<Rightarrow> None
      | Some (b, s) \<Rightarrow>
          (let data = take OSPFS_BLKSIZE bytes; s = s\<lparr>img := mem_write (img s) b data\<rparr>
           in if data = [] then Some (nblk * OSPFS_BLKSIZE, s)
              else case storeblk ino (nextb s) nblk (s\<lparr>nextb := nextb s + 1\<rparr>) of
                     None \<Rightarrow> None
                   | Some s \<Rightarrow>
                       if length data < OSPFS_BLKSIZE then Some (nblk * OSPFS_BLKSIZE + length data, s)
                       else write_blocks ino (drop OSPFS_BLKSIZE bytes) (nblk + 1) s))"
  by pat_completeness auto
termination
  by (relation "measure (\<lambda>(ino, bytes, nblk, s). length bytes)") auto

declare write_blocks.simps [simp del]

text \<open>\<open>contents\<close> is \<open>None\<close> for a file that cannot be opened.\<close>

definition writefile :: "(u8 list \<Rightarrow> u8 list) \<Rightarrow> nat \<Rightarrow> u8 list \<Rightarrow> u8 list option \<Rightarrow> nat \<Rightarrow> u32
    \<Rightarrow> format_state \<Rightarrow> format_state option" where
  "writefile md5 dirino name contents h mode s = do {
     bytes \<leftarrow> contents;
     (od, s) \<leftarrow> allocdirentry dirino (last_component name) s;
     de \<leftarrow> od;
     let digest = (if link_contents s then Some (md5 bytes) else None);
     let hardlink_ino = (if h \<noteq> 0 \<or> link_contents s then get_hardlink (hardlinks s) (link_contents s) h digest else 0);
     if hardlink_ino = 0 then do {
       (ino, oi, s) \<leftarrow> allocinode (Some de) s;
       let s = store32 (oi + 8) 1 s;
       let s = (if h \<noteq> 0 \<or> link_contents s then add_hardlink h ino digest s else s);
       let s = store32 (oi + 12) mode (store32 (oi + 4) OSPFS_FTYPE_REG s);
       (sz, s) \<leftarrow> write_blocks oi bytes 0 s;
       Some (store32 oi (of_nat sz) s)
     } else do {
       let s = store32 de (of_nat hardlink_ino) s;
       (oi, s) \<leftarrow> inode_block hardlink_ino s;
       Some (store32 (oi + 8) (oi_nlink (img s) oi + 1) s)
     }
   }"

definition addsymlink :: "nat \<Rightarrow> u8 list \<Rightarrow> u8 list \<Rightarrow> nat \<Rightarrow> format_state \<Rightarrow> format_state option" where
  "addsymlink dirino name linkbuf h s = do {
     (od, s) \<leftarrow> allocdirentry dirino (last_component name) s;
     de \<leftarrow> od;
     let hardlink_ino = (if h \<noteq> 0 then get_hardlink (hardlinks s) (link_contents s) h None else 0);
     if hardlink_ino = 0 then do {
       (ino, sino, s) \<leftarrow> allocinode (Some de) s;
       let s = store32 (sino + 8) 1 s;
       let s = (if h \<noteq> 0 then add_hardlink h ino None s else s);
       let s = store32 (sino + 4) OSPFS_FTYPE_SYMLINK s;
       if sino mod OSPFS_BLKSIZE + 12 + length linkbuf + 1 > OSPFS_BLKSIZE then None
       else Some (store32 sino (of_nat (length linkbuf)) (s\<lparr>img := mem_write (img s) (sino + 12) (linkbuf @ [0])\<rparr>))
     } else do {
       let s = store32 de (of_nat hardlink_ino) s;
       (sino, s) \<leftarrow> inode_block hardlink_ino s;
       Some (store32 (sino + 8) (oi_nlink (img s) sino + 1) s)
     }
   }"

text \<open>\<open>target\<close> is \<open>None\<close> when \<open>readlink\<close> fails; a target that is too long is ignored.\<close>

definition writesymlink :: "nat \<Rightarrow> u8 list \<Rightarrow> u8 list option \<Rightarrow> nat \<Rightarrow> format_state \<Rightarrow> format_state option" where
  "writesymlink dirino name target h s = do {
     t \<leftarrow> target;
     if length t > OSPFS_MAXSYMLINKLEN then Some s else addsymlink dirino name t h s
   }"

section \<open>Directory trees\<close>

text \<open>
  A file of the host as \<open>lstat\<close>, \<open>open\<close>, \<open>readlink\<close> and \<open>opendir\<close> show it: the contents (\<open>None\<close>: the
  call fails), the permission bits and, when the file has more than one link, its inode number
  (otherwise 0). \<open>Other\<close> is everything else, also a name that \<open>lstat\<close> does not find.
\<close>

datatype host_node =
    Regular "u8 list option" u32 nat
  | Directory "(u8 list \<times> host_node) list option" u32
  | Symlink "u8 list option" nat
  | Other

definition char_at :: "u8 list \<Rightarrow> nat \<Rightarrow> u8" where
  "char_at n i = (if i < length n then n ! i else 0)"

definition entered :: "u8 list \<Rightarrow> bool" where
  "entered n \<longleftrightarrow>
     (length n > 1 \<or> char_at n 0 \<noteq> 46)
     \<and> (length n > 2 \<or> char_at n 0 \<noteq> 46 \<or> char_at n 1 \<noteq> 46)
     \<and> (length n > 3 \<or> char_at n 0 \<noteq> 67 \<or> char_at n 1 \<noteq> 86 \<or> char_at n 2 \<noteq> 83)
     \<and> (length n > 4 \<or> char_at n 0 \<noteq> 46 \<or> char_at n 1 \<noteq> 115 \<or> char_at n 2 \<noteq> 118 \<or> char_at n 3 \<noteq> 110)
     \<and> (length n > 4 \<or> char_at n 0 \<noteq> 46 \<or> char_at n 1 \<noteq> 103 \<or> char_at n 2 \<noteq> 105 \<or> char_at n 3 \<noteq> 116)"

definition dir_inode :: "nat \<Rightarrow> u8 list \<Rightarrow> u32 \<Rightarrow> format_state \<Rightarrow> (nat \<times> format_state) option" where
  "dir_inode parentdirino name mode s = do {
     (od, s) \<leftarrow> allocdirentry parentdirino (last_component name) s;
     dirod \<leftarrow> od;
     (ino, dirino, s) \<leftarrow> allocinode (Some dirod) s;
     let s = store32 (parentdirino + 8) (oi_nlink (img s) parentdirino + 1) s;
     let s = store32 (dirino + 12) mode (store32 (dirino + 8) 1 (store32 dirino 0 (store32 (dirino + 4) OSPFS_FTYPE_DIR s)));
     Some (dirino, s)
   }"

definition dir_path :: "u8 list \<Rightarrow> u8 list" where
  "dir_path name = (if name \<noteq> [] \<and> last name = 47 then name else name @ [47])"

function writedirectory :: "(u8 list \<Rightarrow> u8 list) \<Rightarrow> nat \<Rightarrow> u8 list \<Rightarrow> (u8 list \<times> host_node) list option \<Rightarrow> bool \<Rightarrow> u32
    \<Rightarrow> format_state \<Rightarrow> format_state option"
  and write_entries :: "(u8 list \<Rightarrow> u8 list) \<Rightarrow> nat \<Rightarrow> u8 list \<Rightarrow> (u8 list \<times> host_node) list
    \<Rightarrow> format_state \<Rightarrow> format_state option" where
  "writedirectory md5 parentdirino name None root mode s = None"
| "writedirectory md5 parentdirino name (Some ents) root mode s =
     (case (if root then Some (parentdirino, s) else dir_inode parentdirino name mode s) of
        None \<Rightarrow> None
      | Some (dirino, s) \<Rightarrow> write_entries md5 dirino (dir_path name) ents s)"
| "write_entries md5 dirino path [] s = Some s"
| "write_entries md5 dirino path ((n, node) # ents) s =
     (case (case node of
              Regular contents mode h \<Rightarrow> writefile md5 dirino (path @ n) contents h mode s
            | Directory sub mode \<Rightarrow>
                (if entered n then writedirectory md5 dirino (path @ n) sub False mode s else Some s)
            | Symlink target h \<Rightarrow> writesymlink dirino (path @ n) target h s
            | Other \<Rightarrow> Some s) of
        None \<Rightarrow> None
      | Some s \<Rightarrow> write_entries md5 dirino path ents s)"
  by pat_completeness auto
termination
  by (relation "measure (case_sum
        (\<lambda>(md5, dirino, name, ents, root, mode, s). size_option (size_list (size_prod (\<lambda>_. 0) size)) ents)
        (\<lambda>(md5, dirino, path, ents, s). size_list (size_prod (\<lambda>_. 0) size) ents))") auto

section \<open>The whole image\<close>

definition fill_bitmap :: "nat \<Rightarrow> format_state \<Rightarrow> format_state option" where
  "fill_bitmap i s = do {
     (b, s) \<leftarrow> get_block (OSPFS_FREEMAP_BLK + i) False s;
     Some (s\<lparr>img := mem_fill (img s) b 0xFF OSPFS_BLKSIZE\<rparr>)
   }"

fun for_upto :: "(nat \<Rightarrow> 's \<Rightarrow> 's option) \<Rightarrow> nat \<Rightarrow> nat \<Rightarrow> 's \<Rightarrow> 's option" where
  "for_upto f i 0 s = Some s"
| "for_upto f i (Suc n) s = (case f i s of None \<Rightarrow> None | Some s \<Rightarrow> for_upto f (i + 1) n s)"

text \<open>The disk is truncated to zero and extended to its size: all bytes are zero.\<close>

definition opendisk :: "nat \<Rightarrow> nat \<Rightarrow> bool \<Rightarrow> format_state option" where
  "opendisk nb ni lc = do {
     let nbit = (nb + OSPFS_BLKBITSIZE - 1) div OSPFS_BLKBITSIZE;
     let ninodeblock = (ni + OSPFS_BLKINODES - 1) div OSPFS_BLKINODES;
     s \<leftarrow> for_upto fill_bitmap 0 nbit
       \<lparr>img = (\<lambda>_. 0), nblocks = nb, ninodes = ni, nbitblock = nbit, nextb = 0, nextinode = 0, firstinob = 0,
        link_contents = lc, hardlinks = []\<rparr>;
     s \<leftarrow> for_upto (\<lambda>i s. map_option snd (get_block (OSPFS_FREEMAP_BLK + nbit + i) True s)) 0 ninodeblock s;
     Some (s\<lparr>nextb := OSPFS_FREEMAP_BLK + nbit + ninodeblock, nextinode := 0, firstinob := OSPFS_FREEMAP_BLK + nbit\<rparr>)
   }"

definition mark_used :: "nat \<Rightarrow> format_state \<Rightarrow> format_state option" where
  "mark_used i s = do {
     (b, s) \<leftarrow> get_block (OSPFS_FREEMAP_BLK + i div OSPFS_BLKBITSIZE) False s;
     Some (s\<lparr>img := bitvector_clear (img s) b (i mod OSPFS_BLKBITSIZE)\<rparr>)
   }"

definition write_super :: "format_state \<Rightarrow> format_state option" where
  "write_super s = do {
     (b, s) \<leftarrow> get_block 1 True s;
     Some (store32 (b + 12) (of_nat (firstinob s)) (store32 (b + 8) (of_nat (ninodes s))
       (store32 (b + 4) (of_nat (nblocks s)) (store32 b 0x013101AE s))))
   }"

definition finishfs :: "format_state \<Rightarrow> format_state option" where
  "finishfs s = do {
     s \<leftarrow> for_upto mark_used 0 (nextb s) s;
     s \<leftarrow> (if nblocks s \<noteq> nbitblock s * OSPFS_BLKBITSIZE then do {
             (b, s) \<leftarrow> get_block (OSPFS_FREEMAP_BLK + nbitblock s - 1) False s;
             Some (fold (\<lambda>i s. s\<lparr>img := bitvector_clear (img s) b i\<rparr>)
               [nblocks s mod OSPFS_BLKBITSIZE..<OSPFS_BLKBITSIZE] s)
           } else Some s);
     write_super s
   }"

section \<open>The command line\<close>

record format_options =
  contents_links :: bool
  links :: "(u8 list \<times> u8 list) list"

text \<open>The arguments after the program name. \<open>-V\<close> only makes the program say more.\<close>

fun options :: "u8 list list \<Rightarrow> format_options \<Rightarrow> (format_options \<times> u8 list list) option" where
  "options (a # args) opts =
     (if a = [45, 86] then options args opts
      else if a = [45, 99] then options args (opts\<lparr>contents_links := True\<rparr>)
      else if a = [45, 108] then
        (case args of
           [] \<Rightarrow> None
         | l # rest \<Rightarrow>
             (if 58 \<notin> set l then None
              else (let source = takeWhile (\<lambda>c. c \<noteq> 58) l; destination = tl (dropWhile (\<lambda>c. c \<noteq> 58) l)
                    in if 47 \<in> set destination then None
                       else options rest (opts\<lparr>links := (source, destination) # links opts\<rparr>))))
      else Some (opts, a # args))"
| "options [] opts = Some (opts, [])"

fun fold_option :: "('a \<Rightarrow> 's \<Rightarrow> 's option) \<Rightarrow> 'a list \<Rightarrow> 's \<Rightarrow> 's option" where
  "fold_option f [] s = Some s"
| "fold_option f (x # xs) s = (case f x s of None \<Rightarrow> None | Some s \<Rightarrow> fold_option f xs s)"

text \<open>The inodes up to the root directory.\<close>

partial_function (option) skip_inodes :: "format_state \<Rightarrow> format_state option" where
  "skip_inodes s =
     (if nextinode s = OSPFS_ROOT_INO then Some s
      else case allocinode None s of
             None \<Rightarrow> None
           | Some (ino, oi, s) \<Rightarrow> skip_inodes (store32 (oi + 8) 1 s))"

definition root_inode :: "format_state \<Rightarrow> (nat \<times> format_state) option" where
  "root_inode s = do {
     s \<leftarrow> skip_inodes s;
     (ino, rootino, s) \<leftarrow> allocinode None s;
     if ino \<noteq> OSPFS_ROOT_INO then None
     else Some (rootino, store32 (rootino + 12) 0x1FF (store32 (rootino + 8) 1 (store32 (rootino + 4) OSPFS_FTYPE_DIR s)))
   }"

text \<open>
  \<open>open_file\<close> and \<open>open_dir\<close> are the host's files and directories by path. The result is the
  image after \<open>flushdisk\<close>.
\<close>

definition write_arguments :: "(u8 list \<Rightarrow> u8 list) \<Rightarrow> (u8 list \<Rightarrow> u8 list option)
    \<Rightarrow> (u8 list \<Rightarrow> (u8 list \<times> host_node) list option) \<Rightarrow> nat \<Rightarrow> u8 list list \<Rightarrow> format_state \<Rightarrow> format_state option" where
  "write_arguments md5 open_file open_dir rootino files s =
     (case files of
        [] \<Rightarrow> None
      | f # rest \<Rightarrow>
          (if f = [45, 114] then
             (case rest of [d] \<Rightarrow> writedirectory md5 rootino d (open_dir d) True 0x1FF s | _ \<Rightarrow> None)
           else fold_option (\<lambda>f. writefile md5 rootino f (open_file f) 0 0x1B6) files s))"

definition make_image :: "(u8 list \<Rightarrow> u8 list) \<Rightarrow> (u8 list \<Rightarrow> u8 list option)
    \<Rightarrow> (u8 list \<Rightarrow> (u8 list \<times> host_node) list option) \<Rightarrow> format_options \<Rightarrow> nat \<Rightarrow> nat \<Rightarrow> u8 list list \<Rightarrow> mem option" where
  "make_image md5 open_file open_dir opts nb ni files = do {
     s \<leftarrow> opendisk nb ni (contents_links opts);
     (rootino, s) \<leftarrow> root_inode s;
     s \<leftarrow> write_arguments md5 open_file open_dir rootino files s;
     s \<leftarrow> fold_option (\<lambda>(source, destination). addsymlink rootino destination source 0) (links opts) s;
     s \<leftarrow> finishfs s;
     Some (img s)
   }"

definition ospfsformat :: "(u8 list \<Rightarrow> u8 list) \<Rightarrow> (u8 list \<Rightarrow> u8 list option)
    \<Rightarrow> (u8 list \<Rightarrow> (u8 list \<times> host_node) list option) \<Rightarrow> u8 list list \<Rightarrow> mem option" where
  "ospfsformat md5 open_file open_dir args =
     (case options args \<lparr>contents_links = False, links = []\<rparr> of
        Some (opts, name # nb_arg # ni_arg # files) \<Rightarrow>
          (case (strtol0 nb_arg, strtol0 ni_arg) of
             (Some nb, Some ni) \<Rightarrow>
               (let nb = (of_int nb :: u32); ni = (of_int ni :: u32)
                in if nb < 2 \<or> nb > 8192 \<or> ni < 2 \<or> ni \<ge> nb - 2 - nb div OSPFS_BLKBITSIZE then None
                   else make_image md5 open_file open_dir opts (unat nb) (unat ni) files)
           | _ \<Rightarrow> None)
      | _ \<Rightarrow> None)"

end
