(* ===== verification/FormatSteps.thy ===== *)
theory FormatSteps
  imports OspfsDirProps OspfsFormat
begin

text \<open>
  What every run of the formatter keeps, whatever it is given: the counters only advance, and the
  end of the run (\<open>finishfs\<close>) puts the superblock and the free-block map in place.
\<close>

section \<open>Single steps\<close>

lemma get_block_ok: "b < nblocks s \<Longrightarrow>
    get_block b clr s = Some (b * 1024, if clr then s\<lparr>img := write_disk b (\<lambda>_. 0) (img s)\<rparr> else s)"
  by (simp add: get_block_def)

lemma store32_simps [simp]:
  "img (store32 a v s) = wr32 (img s) a v" "nblocks (store32 a v s) = nblocks s" "ninodes (store32 a v s) = ninodes s"
  "nbitblock (store32 a v s) = nbitblock s" "nextb (store32 a v s) = nextb s" "nextinode (store32 a v s) = nextinode s"
  "firstinob (store32 a v s) = firstinob s" "link_contents (store32 a v s) = link_contents s"
  "hardlinks (store32 a v s) = hardlinks s"
  by (simp_all add: store32_def)

section \<open>What every run keeps\<close>

text \<open>No operation changes the size of the disk or gives a block back.\<close>

definition advances :: "format_state \<Rightarrow> format_state \<Rightarrow> bool" where
  "advances s s' \<longleftrightarrow> nblocks s' = nblocks s \<and> ninodes s' = ninodes s \<and> nbitblock s' = nbitblock s
     \<and> firstinob s' = firstinob s \<and> nextb s \<le> nextb s' \<and> (nextb s \<le> nblocks s \<longrightarrow> nextb s' \<le> nblocks s')"

named_theorems advance \<open>results of the formatter's operations\<close>

lemma advances_refl [simp]: "advances s s"
  by (simp add: advances_def)

lemma advances_trans [trans]: "advances s t \<Longrightarrow> advances t r \<Longrightarrow> advances s r"
  by (auto simp: advances_def)

lemma advances_store [simp]: "advances s (store32 a v t) \<longleftrightarrow> advances s t" "advances s (t\<lparr>img := m\<rparr>) \<longleftrightarrow> advances s t"
  "advances s (t\<lparr>nextinode := n\<rparr>) \<longleftrightarrow> advances s t" "advances s (add_hardlink h i d t) \<longleftrightarrow> advances s t"
  "advances (store32 a v s) t \<longleftrightarrow> advances s t" "advances (s\<lparr>img := m\<rparr>) t \<longleftrightarrow> advances s t"
  "advances (s\<lparr>nextinode := n\<rparr>) t \<longleftrightarrow> advances s t" "advances (add_hardlink h i d s) t \<longleftrightarrow> advances s t"
  by (simp_all add: advances_def add_hardlink_def)

lemma get_block_advances [advance]: "get_block b clr s = Some (a, s') \<Longrightarrow> advances s s'"
  by (auto simp: get_block_def split: if_splits)

lemma new_block_advances [advance]: "new_block s = Some (b, s') \<Longrightarrow> advances s s'"
  by (auto simp: new_block_def get_block_def advances_def split: if_splits)

lemma pointed_block_advances [advance]: "pointed_block a s = Some (p, s') \<Longrightarrow> advances s s'"
  by (auto simp: pointed_block_def split: if_splits bind_splits dest!: advance)

lemma storeblk_advances [advance]: "storeblk f b n s = Some s' \<Longrightarrow> advances s s'"
  by (auto simp: storeblk_def split: if_splits bind_splits dest!: advance) (meson advances_trans)+

lemma inode_block_advances [advance]: "inode_block i s = Some (a, s') \<Longrightarrow> advances s s'"
  by (auto simp: inode_block_def split: bind_splits dest!: advance)

lemma allocinode_advances [advance]: "allocinode p s = Some (i, a, s') \<Longrightarrow> advances s s'"
  by (auto simp: allocinode_def Let_def split: if_splits bind_splits option.splits dest!: advance elim!: advances_trans [rotated])

lemma last_dir_block_advances [advance]: "last_dir_block d n s = Some (b, s') \<Longrightarrow> advances s s'"
  by (auto simp: last_dir_block_def Let_def split: if_splits bind_splits dest!: advance) (meson advances_trans)+


lemma fold_store_advances: "advances s (fold (\<lambda>i. store32 (f i) 0) is t) \<longleftrightarrow> advances s t"
  by (induction "is" arbitrary: t) simp_all

lemma new_dirb_advances [advance]:
  assumes "new_dirb d n s = Some (b, s')"
  shows "advances s s'"
proof -
  obtain c t1 t2 where t: "new_block s = Some (c, t1)"
    "storeblk d c n (fold (\<lambda>i. store32 (c * 1024 + 128 * i) 0) [0..<8] t1) = Some t2"
    "s' = store32 d (oi_size (img t2) d + 1024) t2"
    using assms unfolding new_dirb_def Let_def by (auto simp del: upt_rec_numeral split: bind_splits if_splits)
  have "advances s (fold (\<lambda>i. store32 (c * 1024 + 128 * i) 0) [0..<8] t1)"
    using new_block_advances [OF t(1)] by (simp only: fold_store_advances)
  then have "advances s t2" using storeblk_advances [OF t(2)] by (rule advances_trans)
  then show ?thesis using t(3) by simp
qed

lemma allocdirentry_advances [advance]: "allocdirentry d name s = Some (od, s') \<Longrightarrow> advances s s'"
  by (auto simp: allocdirentry_def Let_def split: if_splits bind_splits option.splits prod.splits dest!: advance)
    (meson advances_trans)+

lemma write_blocks_advances [advance]: "write_blocks f bytes n s = Some (sz, s') \<Longrightarrow> advances s s'"
proof (induction f bytes n s rule: write_blocks.induct)
  case (1 f bytes n s)
  obtain a t where g: "get_block (nextb s) True s = Some (a, t)"
    using "1.prems" by (subst (asm) write_blocks.simps) (auto split: option.splits)
  let ?t = "t\<lparr>img := mem_write (img t) a (take 1024 bytes)\<rparr>"
  have le: "nextb t = nextb s" "nextb s < nblocks s" "advances s ?t" and st: "advances s (?t\<lparr>nextb := nextb t + 1\<rparr>)"
    using g by (auto simp: get_block_def advances_def split: if_splits)
  show ?case
  proof (cases "take 1024 bytes = []")
    case True
    then show ?thesis using "1.prems" g le by (subst (asm) write_blocks.simps) (auto simp: Let_def)
  next
    case False
    then obtain r where r: "storeblk f (nextb t) n (?t\<lparr>nextb := nextb t + 1\<rparr>) = Some r"
      using "1.prems" g by (subst (asm) write_blocks.simps) (auto simp: Let_def split: option.splits)
    have "advances s r" using st storeblk_advances [OF r] by (rule advances_trans)
    moreover have "advances r s'" if full: "\<not> length (take 1024 bytes) < 1024"
    proof -
      have "write_blocks f (drop 1024 bytes) (n + 1) r = Some (sz, s')"
        using "1.prems" [unfolded write_blocks.simps [of f bytes n s]] g r False full by (simp add: Let_def)
      then show ?thesis by (intro "1.IH" [OF g refl refl refl]) (use False r full in simp_all)
    qed
    moreover have "length (take 1024 bytes) < 1024 \<Longrightarrow> s' = r"
      using "1.prems" [unfolded write_blocks.simps [of f bytes n s]] g r False by (auto simp: Let_def split: if_splits)
    ultimately show ?thesis using advances_trans by blast
  qed
qed

lemma writefile_advances [advance]: "writefile md5 d name contents h mode s = Some s' \<Longrightarrow> advances s s'"
  by (auto simp: writefile_def Let_def split: if_splits bind_splits dest!: advance) (meson advances_trans)+

lemma addsymlink_advances [advance]: "addsymlink d name buf h s = Some s' \<Longrightarrow> advances s s'"
  by (auto simp: addsymlink_def Let_def split: if_splits bind_splits dest!: advance) (meson advances_trans)+

lemma writesymlink_advances [advance]: "writesymlink d name target h s = Some s' \<Longrightarrow> advances s s'"
  by (auto simp: writesymlink_def split: if_splits bind_splits dest!: advance)

lemma dir_inode_advances [advance]: "dir_inode d name mode s = Some (i, s') \<Longrightarrow> advances s s'"
  by (auto simp: dir_inode_def Let_def split: if_splits bind_splits dest!: advance) (meson advances_trans)+

lemma writedirectory_advances [advance]:
  "writedirectory md5 d name ents root mode s = Some s' \<Longrightarrow> advances s s'"
  "write_entries md5 e path es r = Some r' \<Longrightarrow> advances r r'"
proof (induction md5 d name ents root mode s and md5 e path es r arbitrary: s' and r' rule: writedirectory_write_entries.induct)
  case (2 md5 parentdirino name ents root mode s)
  then show ?case by (auto split: option.splits if_splits dest!: dir_inode_advances) (meson advances_trans)+
next
  case (4 md5 dirino path n node ents s)
  then show ?case by (auto split: option.splits host_node.splits if_splits dest!: advance) (meson advances_trans)+
qed auto

lemma fold_option_advances:
  assumes "\<And>x s s'. f x s = Some s' \<Longrightarrow> advances s s'"
  shows "fold_option f xs s = Some s' \<Longrightarrow> advances s s'"
proof (induction xs arbitrary: s)
  case (Cons x xs)
  then show ?case using assms by (auto split: option.splits) (meson advances_trans)
qed simp

section \<open>The end of the run\<close>

lemma mark_used_ok:
  "2 < nblocks s \<Longrightarrow> i + n \<le> 8192 \<Longrightarrow>
     for_upto mark_used i n s = Some (s\<lparr>img := fold (\<lambda>j m. bitvector_clear m 2048 j) [i..<i + n] (img s)\<rparr>)"
proof (induction n arbitrary: i s)
  case (Suc n)
  have "i div 8192 = 0" "i mod 8192 = i" using Suc.prems(2) by simp_all
  then have "mark_used i s = Some (s\<lparr>img := bitvector_clear (img s) 2048 i\<rparr>)"
    using Suc.prems(1) by (simp add: mark_used_def get_block_ok)
  moreover have "[i..<i + Suc n] = i # [i + 1..<i + 1 + n]" by (simp add: upt_conv_Cons)
  ultimately show ?case using Suc.IH [of "s\<lparr>img := bitvector_clear (img s) 2048 i\<rparr>" "i + 1"] Suc.prems by simp
qed simp

lemma fold_clear:
  "block_is_free (fold (\<lambda>j m. bitvector_clear m 2048 j) js m) i \<longleftrightarrow> i \<notin> set js \<and> block_is_free m i"
  "\<forall>j \<in> set js. j < 8192 \<Longrightarrow> a < 2048 \<or> 3072 \<le> a \<Longrightarrow> fold (\<lambda>j m. bitvector_clear m 2048 j) js m a = m a"
proof -
  show "block_is_free (fold (\<lambda>j m. bitvector_clear m 2048 j) js m) i \<longleftrightarrow> i \<notin> set js \<and> block_is_free m i"
    by (induction js arbitrary: m) (auto simp: bitvector_clear_test)
  have c: "bitvector_clear m' 2048 j a = m' a" if "j < 8192" "a < 2048 \<or> 3072 \<le> a" for j m'
  proof -
    have "j div 32 < 256" using that(1) by simp
    then show ?thesis using that(2) by (auto simp: bitvector_clear_def intro!: wr32_apply_other)
  qed
  show "\<forall>j \<in> set js. j < 8192 \<Longrightarrow> a < 2048 \<or> 3072 \<le> a \<Longrightarrow> fold (\<lambda>j m. bitvector_clear m 2048 j) js m a = m a"
    by (induction js arbitrary: m) (simp_all add: c)
qed

lemma fold_img: "fold (\<lambda>i s. s\<lparr>img := bitvector_clear (img s) b i\<rparr>) xs s = s\<lparr>img := fold (\<lambda>i m. bitvector_clear m b i) xs (img s)\<rparr>"
  by (induction xs arbitrary: s) simp_all

lemma write_disk_above: "(b + 1) * 1024 \<le> a \<Longrightarrow> write_disk b v m a = m a"
  using div_le_mono [of "(b + 1) * 1024" a 1024] by (simp add: write_disk_def)

lemma finishfs_ok:
  assumes "nblocks s \<le> 8192" "nbitblock s = 1" "2 < nblocks s" "nextb s \<le> nblocks s"
  obtains s' where "finishfs s = Some s'" "\<forall>a \<ge> 3072. img s' a = img s a" "os_nblocks (img s') = of_nat (nblocks s)"
    "os_ninodes (img s') = of_nat (ninodes s)" "os_firstinob (img s') = of_nat (firstinob s)" "rd32 (img s') 1024 = 0x013101AE"
    "\<forall>j < nblocks s. block_is_free (img s') j \<longleftrightarrow> nextb s \<le> j \<and> block_is_free (img s) j"
proof -
  define js where "js = [0..<nextb s] @ (if nblocks s \<noteq> 8192 then [nblocks s mod 8192..<8192] else [])"
  define m where "m = fold (\<lambda>j m. bitvector_clear m 2048 j) js (img s)"
  define s2 where "s2 = s\<lparr>img := m\<rparr>"
  define s3 where "s3 = s2\<lparr>img := write_disk 1 (\<lambda>_. 0) m\<rparr>"
  define s4 where "s4 = store32 1036 (of_nat (firstinob s)) (store32 1032 (of_nat (ninodes s))
    (store32 1028 (of_nat (nblocks s)) (store32 1024 0x013101AE s3)))"
  have "for_upto mark_used 0 (nextb s) s = Some (s\<lparr>img := fold (\<lambda>j m. bitvector_clear m 2048 j) [0..<nextb s] (img s)\<rparr>)"
    using mark_used_ok [of s 0 "nextb s"] assms by simp
  moreover have "write_super s2 = Some s4"
    using assms(3) by (simp add: write_super_def get_block_ok s2_def s3_def s4_def)
  ultimately have "finishfs s = Some s4"
    using assms(2,3) by (cases "nblocks s = 8192") (simp_all add: finishfs_def get_block_ok fold_img s2_def m_def js_def)
  moreover have js: "\<forall>j \<in> set js. j < 8192" using assms(1,4) by (auto simp: js_def)
  have "img s4 a = img s a" if "3072 \<le> a" for a
    using that fold_clear(2) [OF js, of a] by (simp add: s4_def s3_def m_def wr32_apply_other write_disk_above)
  moreover have "block_is_free (img s4) j \<longleftrightarrow> nextb s \<le> j \<and> block_is_free (img s) j" if "j < nblocks s" for j
  proof -
    have "j div 32 < 256" using that assms(1) by simp
    then have "rd32 (img s4) (2048 + 4 * (j div 32)) = rd32 m (2048 + 4 * (j div 32))"
      by (intro rd32_cong) (simp add: s4_def s3_def wr32_apply_other write_disk_above)
    then have "block_is_free (img s4) j = block_is_free m j" by (simp add: bitvector_test_def)
    moreover have "j \<notin> set js \<longleftrightarrow> nextb s \<le> j" using that assms(1) by (auto simp: js_def)
    ultimately show ?thesis using fold_clear(1) [of js "img s" j] by (simp add: m_def)
  qed
  ultimately show thesis by (intro that [of s4]) (simp_all add: s4_def rd32_wr32_other)
qed

section \<open>Every image is well formed\<close>

lemma for_upto_last:
  assumes "\<And>i s s'. f i s = Some s' \<Longrightarrow> advances s s' \<and> g i < nblocks s"
  shows "for_upto f i n s = Some s' \<Longrightarrow> advances s s' \<and> (0 < n \<longrightarrow> g (i + n - 1) < nblocks s)"
proof (induction n arbitrary: i s)
  case (Suc n)
  then obtain t where t: "f i s = Some t" "for_upto f (i + 1) n t = Some s'" by (auto split: option.splits)
  have "advances s t" "g i < nblocks s" using assms [OF t(1)] by blast+
  moreover have "advances t s'" "0 < n \<longrightarrow> g (i + 1 + n - 1) < nblocks t" using Suc.IH [OF t(2)] by blast+
  moreover have "advances s s'" using calculation(1,3) by (rule advances_trans)
  ultimately show ?case by (cases n) (simp_all add: advances_def)
qed simp

lemma opendisk_counters:
  assumes "opendisk nb ni lc = Some s" "0 < nb" "nb \<le> 8192" "2 \<le> ni"
  shows "nblocks s = nb \<and> ninodes s = ni \<and> nbitblock s = 1 \<and> firstinob s = 3 \<and> nextinode s = 0
    \<and> nextb s = 3 + (ni + 15) div 16 \<and> nextb s \<le> nblocks s"
proof -
  have n1: "(nb + 8192 - 1) div 8192 = 1" using assms(2,3) by (intro div_nat_eqI) simp_all
  have n2: "ni + 16 - 1 = ni + 15" by simp
  let ?s0 = "\<lparr>img = (\<lambda>_. 0), nblocks = nb, ninodes = ni, nbitblock = 1, nextb = 0, nextinode = 0, firstinob = 0,
        link_contents = lc, hardlinks = []\<rparr>"
  obtain s1 s2 where s: "for_upto fill_bitmap 0 1 ?s0 = Some s1"
    "for_upto (\<lambda>i s. map_option snd (get_block (OSPFS_FREEMAP_BLK + 1 + i) True s)) 0 ((ni + 15) div 16) s1 = Some s2"
    "s = s2\<lparr>nextb := OSPFS_FREEMAP_BLK + 1 + (ni + 15) div 16, nextinode := 0, firstinob := OSPFS_FREEMAP_BLK + 1\<rparr>"
    using assms(1) unfolding opendisk_def Let_def n1 n2 by (auto split: bind_splits)
  have "advances ?s0 s1" using s(1) by (auto simp: fill_bitmap_def get_block_def advances_def split: option.splits if_splits bind_splits)
  moreover have "advances s1 s2 \<and> (0 < (ni + 15) div 16 \<longrightarrow> 3 + (0 + (ni + 15) div 16 - 1) < nblocks s1)"
    by (rule for_upto_last [where g = "\<lambda>i. 3 + i", OF _ s(2)]) (auto simp: get_block_def split: if_splits)
  moreover have "0 < (ni + 15) div 16" using assms(4) by simp
  ultimately show ?thesis using s(3) by (simp add: advances_def)
qed

lemma root_inode_advances:
  assumes "root_inode s = Some (r, s')" "nextinode s = 0"
  shows "advances s s'"
proof -
  obtain t where t: "skip_inodes s = Some t" "advances t s'"
    using assms(1) by (auto simp: root_inode_def Let_def split: bind_splits if_splits dest!: advance)
  obtain i oi q where q: "allocinode None s = Some (i, oi, q)" "skip_inodes (store32 (oi + 8) 1 q) = Some t"
    using t(1) assms(2) by (subst (asm) skip_inodes.simps) (auto split: option.splits)
  have "nextinode q = 1" using q(1) assms(2)
    by (auto simp: allocinode_def inode_block_def get_block_def Let_def split: if_splits bind_splits)
  then have "t = store32 (oi + 8) 1 q" using q(2) by (subst (asm) skip_inodes.simps) simp
  then show ?thesis using allocinode_advances [OF q(1)] t(2) advances_trans by auto
qed

lemma write_arguments_advances:
  assumes "write_arguments md5 open_file open_dir root files s = Some s'"
  shows "advances s s'"
proof (cases files)
  case Nil
  then show ?thesis using assms by (simp add: write_arguments_def)
next
  case (Cons f rest)
  show ?thesis
  proof (cases "f = [45, 114]")
    case True
    then show ?thesis using assms Cons
      by (auto simp: write_arguments_def split: list.splits dest: writedirectory_advances)
  next
    case False
    then have "fold_option (\<lambda>f. writefile md5 root f (open_file f) 0 0x1B6) files s = Some s'"
      using assms Cons by (simp add: write_arguments_def)
    then show ?thesis by (rule fold_option_advances [rotated]) (rule writefile_advances)
  qed
qed

end
