(* ===== verification/FormatPointers.thy ===== *)
theory FormatPointers
  imports FormatSteps
begin

text \<open>
  The block pointers that the formatter stores are the ones that the file system module reads,
  in all three ranges of a file: direct, indirect and doubly indirect.
\<close>

section \<open>Block pointers\<close>

lemma word_block: "x mod 4 = 0 \<Longrightarrow> i < 4 \<Longrightarrow> (x + i) div 1024 = x div (1024 :: nat)"
proof -
  assume x: "x mod 4 = 0" and i: "i < 4"
  have "(x + i) div 4 = x div 4" using x i by (intro div_nat_eqI) (auto simp: mod_eq_0_iff_dvd)
  then have "(x + i) div (4 * 256) = x div (4 * 256)" unfolding div_mult2_eq by simp
  then show ?thesis by simp
qed

lemma rd32_write_disk_other: "x mod 4 = 0 \<Longrightarrow> x div 1024 \<noteq> b \<Longrightarrow> rd32 (write_disk b v m) x = rd32 m x"
  by (rule rd32_cong) (simp add: write_disk_def word_block)

lemma rd32_wr32_aligned:
  fixes x a :: nat
  assumes "x mod 4 = 0" "a mod 4 = 0" "x \<noteq> a"
  shows "rd32 (wr32 m a v) x = rd32 m x"
proof -
  obtain i j where "x = 4 * i" "a = 4 * j" using assms(1,2) by (auto simp: mod_eq_0_iff_dvd elim!: dvdE)
  then have "a + 4 \<le> x \<or> x + 4 \<le> a" using assms(3) by (cases i j rule: linorder_cases) auto
  then show ?thesis by (simp add: rd32_wr32_other)
qed

text \<open>Following a pointer: the block is the one the pointer names afterwards, and only the pointer and
  a new block change.\<close>

lemma pointed_block_ok:
  assumes g: "pointed_block a s = Some (p, s')" and a: "a mod 4 = 0" "a div 1024 < nextb s" and nb: "nblocks s \<le> 8192"
  defines "c \<equiv> (if rd32 (img s) a = 0 then nextb s else unat (rd32 (img s) a))"
  shows "p = c * 1024 \<and> c < nblocks s \<and> rd32 (img s') a = of_nat c \<and> nblocks s' = nblocks s
    \<and> nextb s' = (if rd32 (img s) a = 0 then nextb s + 1 else nextb s)
    \<and> (\<forall>x. x \<noteq> a \<and> x mod 4 = 0 \<and> x div 1024 \<noteq> nextb s \<longrightarrow> rd32 (img s') x = rd32 (img s) x)
    \<and> (\<forall>k. rd32 (img s) a = 0 \<and> k < 256 \<longrightarrow> rd32 (img s') (nextb s * 1024 + 4 * k) = 0)"
proof (cases "rd32 (img s) a = 0")
    case True
    then have n: "nextb s < nblocks s" "p = nextb s * 1024"
      "s' = store32 a (of_nat (nextb s)) (s\<lparr>img := write_disk (nextb s) (\<lambda>_. 0) (img s), nextb := nextb s + 1\<rparr>)"
      using g by (auto simp: pointed_block_def new_block_def get_block_def split: if_splits)
    have "rd32 (img s') (nextb s * 1024 + 4 * k) = 0" if "k < 256" for k
    proof -
      have d: "(nextb s * 1024 + 4 * k) div 1024 = nextb s" using that by simp
      then have ne: "nextb s * 1024 + 4 * k \<noteq> a" using a(2) by auto
      have "(nextb s * 1024 + 4 * k) mod 4 = 0" by (simp add: mod_mult_right_eq [symmetric] mod_add_eq [symmetric])
      then have "rd32 (img s') (nextb s * 1024 + 4 * k) = rd32 (write_disk (nextb s) (\<lambda>_. 0) (img s)) (nextb s * 1024 + 4 * k)"
        using ne a(1) n(3) by (simp add: rd32_wr32_aligned)
      also have "\<dots> = 0" using that by (simp add: rd32_def write_disk_def)
      finally show ?thesis .
    qed
    moreover have "rd32 (img s') x = rd32 (img s) x" if "x \<noteq> a" "x mod 4 = 0" "x div 1024 \<noteq> nextb s" for x
      using that a(1) n(3) by (simp add: rd32_wr32_aligned rd32_write_disk_other)
    ultimately show ?thesis using True n by (simp add: c_def)
  next
    case False
    then show ?thesis using g by (auto simp: pointed_block_def get_block_def c_def split: if_splits)
  qed

text \<open>What the module reads for the block \<open>n\<close> of a file.\<close>

lemma module_blockno:
  assumes off: "off < oi_size m oi" "unat off div 1024 = n" and ft: "oi_ftype m oi \<noteq> OSPFS_FTYPE_SYMLINK"
  shows "n < 10 \<Longrightarrow> ospfs_inode_blockno m oi off = oi_direct m oi n"
    "10 \<le> n \<Longrightarrow> n < 266 \<Longrightarrow> ospfs_inode_blockno m oi off = rd32 m (ospfs_block (oi_indirect m oi) + 4 * (n - 10))"
    "266 \<le> n \<Longrightarrow> ospfs_inode_blockno m oi off =
       rd32 m (ospfs_block (rd32 m (ospfs_block (oi_indirect2 m oi) + 4 * ((n - 266) div 256))) + 4 * ((n - 266) mod 256))"
proof -
  have K: "unat (1024 :: u32) = 1024" "unat (256 :: u32) = 256" "unat (10 + 256 :: u32) = 266" "unat (10 :: u32) = 10" by simp_all
  have u: "unat (off div 1024) = n" unfolding unat_div_distrib K off(2) ..
  have ge: "\<not> oi_size m oi \<le> off" using off(1) by simp
  have c: "(10 + 256 \<le> off div 1024) = (266 \<le> n)" "(10 \<le> off div 1024) = (10 \<le> n)"
    unfolding word_le_nat_alt u K by simp_all
  have s10: "10 \<le> n \<Longrightarrow> unat (off div 1024 - 10) = n - 10" using c(2) u by (simp add: unat_sub word_le_nat_alt)
  have s266: "266 \<le> n \<Longrightarrow> unat (off div 1024 - (10 + 256)) = n - 266"
    using c(1) unat_sub [of "10 + 256" "off div 1024"] unfolding u K by blast
  have dm: "266 \<le> n \<Longrightarrow> unat ((off div 1024 - (10 + 256)) div 256) = (n - 266) div 256"
    "266 \<le> n \<Longrightarrow> unat ((off div 1024 - (10 + 256)) mod 256) = (n - 266) mod 256"
    unfolding unat_div_distrib unat_mod_distrib K using s266 by simp_all
  note D = ospfs_inode_blockno_def [of m oi off, unfolded Let_def c]
  show "n < 10 \<Longrightarrow> ospfs_inode_blockno m oi off = oi_direct m oi n"
    using ge ft u by (simp add: D)
  show "10 \<le> n \<Longrightarrow> n < 266 \<Longrightarrow> ospfs_inode_blockno m oi off = rd32 m (ospfs_block (oi_indirect m oi) + 4 * (n - 10))"
    using ge ft s10 by (simp add: D)
  show "266 \<le> n \<Longrightarrow> ospfs_inode_blockno m oi off =
       rd32 m (ospfs_block (rd32 m (ospfs_block (oi_indirect2 m oi) + 4 * ((n - 266) div 256))) + 4 * ((n - 266) mod 256))"
    using ge ft dm unfolding D by simp
qed

lemma inode_word: "f mod 64 = 0 \<Longrightarrow> x < 64 \<Longrightarrow> x mod 4 = 0 \<Longrightarrow> (f + x) div 1024 = f div (1024 :: nat) \<and> (f + x) mod 4 = 0"
proof -
  assume f: "f mod 64 = 0" and x: "x < 64" "x mod 4 = 0"
  then obtain i where i: "f = 64 * i" by (auto simp: mod_eq_0_iff_dvd elim!: dvdE)
  have "(f + x) div 64 = f div 64" using i x by (intro div_nat_eqI) auto
  then have "(f + x) div (64 * 16) = f div (64 * 16)" unfolding div_mult2_eq by simp
  moreover have "(f + x) mod 4 = 0" using x(2) unfolding i by (simp add: mod_add_eq [symmetric] mod_mult_left_eq [symmetric])
  ultimately show ?thesis by simp
qed

text \<open>The pointer blocks of a file are not the block of its inode, and different from each other.\<close>

definition pointers_apart :: "format_state \<Rightarrow> nat \<Rightarrow> bool" where
  "pointers_apart s f \<longleftrightarrow> f mod 64 = 0 \<and> f div 1024 < nextb s
     \<and> (oi_indirect (img s) f \<noteq> 0 \<longrightarrow> unat (oi_indirect (img s) f) \<noteq> f div 1024)
     \<and> (oi_indirect2 (img s) f \<noteq> 0 \<longrightarrow> unat (oi_indirect2 (img s) f) \<noteq> f div 1024 \<and> unat (oi_indirect2 (img s) f) < nextb s
          \<and> (\<forall>k < 256. rd32 (img s) (unat (oi_indirect2 (img s) f) * 1024 + 4 * k) \<noteq> 0 \<longrightarrow>
               unat (rd32 (img s) (unat (oi_indirect2 (img s) f) * 1024 + 4 * k)) \<notin> {f div 1024, unat (oi_indirect2 (img s) f)}))"

lemma unat_block: "c < 8192 \<Longrightarrow> unat (of_nat c :: u32) = c \<and> ospfs_block (of_nat c) = c * 1024"
  using ospfs_block_nat [of "of_nat c"] by simp

lemma word_apart: "c \<noteq> f div 1024 \<Longrightarrow> k < 256 \<Longrightarrow> f mod 64 = 0 \<Longrightarrow> x < 64 \<Longrightarrow> x mod 4 = 0 \<Longrightarrow>
    rd32 (wr32 m (c * 1024 + 4 * k) v) (f + x) = rd32 m (f + (x :: nat))"
proof -
  assume A: "c \<noteq> f div 1024" "k < 256" "f mod 64 = 0" "x < 64" "x mod 4 = 0"
  have "(c * 1024 + 4 * k) div 1024 = c" using A(2) by simp
  then have "c * 1024 + 4 * k \<noteq> f + x" using A(1) inode_word [OF A(3-5)] by auto
  moreover have "(c * 1024 + 4 * k) mod 4 = 0" by (simp add: mod_mult_right_eq [symmetric] mod_add_eq [symmetric])
  ultimately show ?thesis using inode_word [OF A(3-5)] by (intro rd32_wr32_aligned) auto
qed

text \<open>Setting the size of the file, its first word, leaves the rest of the inode and the pointer blocks.\<close>

lemma set_size:
  "4 \<le> x \<Longrightarrow> rd32 (wr32 m f v) (f + x) = rd32 m (f + x)"
  "c \<noteq> f div 1024 \<Longrightarrow> k < 256 \<Longrightarrow> f mod 64 = 0 \<Longrightarrow> rd32 (wr32 m f v) (c * 1024 + 4 * k) = rd32 m (c * 1024 + 4 * (k :: nat))"
proof -
  show "4 \<le> x \<Longrightarrow> rd32 (wr32 m f v) (f + x) = rd32 m (f + x)" by (simp add: rd32_wr32_other)
  assume A: "c \<noteq> f div 1024" "k < 256" "f mod 64 = 0"
  have "(c * 1024 + 4 * k) div 1024 = c" using A(2) by simp
  then have "c * 1024 + 4 * k \<noteq> f" using A(1) by auto
  moreover have "(c * 1024 + 4 * k) mod 4 = 0" by (simp add: mod_mult_right_eq [symmetric] mod_add_eq [symmetric])
  ultimately show "rd32 (wr32 m f v) (c * 1024 + 4 * k) = rd32 m (c * 1024 + 4 * k)"
    using inode_word [OF A(3), of 0] by (intro rd32_wr32_aligned) auto
qed

lemma storeblk_indirect:
  assumes st: "storeblk f b n s = Some s'" and nb: "nblocks s \<le> 8192" and P: "pointers_apart s f" and n: "10 \<le> n" "n < 266"
  shows "rd32 (wr32 (img s') f len) (ospfs_block (oi_indirect (wr32 (img s') f len) f) + 4 * (n - 10)) = of_nat b
    \<and> oi_size (img s') f = oi_size (img s) f \<and> oi_ftype (img s') f = oi_ftype (img s) f"
proof -
  have f: "f mod 64 = 0" "f div 1024 < nextb s" using P by (simp_all add: pointers_apart_def)
  obtain p t where t: "pointed_block (f + 56) s = Some (p, t)" "s' = store32 (p + 4 * (n - 10)) (of_nat b) t"
    using st n by (auto simp: storeblk_def split: bind_splits)
  define c where "c = (if oi_indirect (img s) f = 0 then nextb s else unat (oi_indirect (img s) f))"
  note I = inode_word [OF f(1)]
  have Q: "p = c * 1024" "c < nblocks s" "rd32 (img t) (f + 56) = of_nat c"
      "\<And>x. x \<noteq> f + 56 \<Longrightarrow> x mod 4 = 0 \<Longrightarrow> x div 1024 \<noteq> nextb s \<Longrightarrow> rd32 (img t) x = rd32 (img s) x"
    using pointed_block_ok [OF t(1) _ _ nb] I [of 56] f(2) unfolding c_def [symmetric] by auto
  have ne: "c \<noteq> f div 1024" using P f(2) by (auto simp: c_def pointers_apart_def)
  have k: "n - 10 < 256" using n by simp
  have "rd32 (img s') (f + x) = rd32 (img t) (f + x)" if "x < 64" "x mod 4 = 0" for x
    using word_apart [OF ne k f(1) that] t(2) Q(1) by simp
  note W = this [of 0] this [of 4] this [of 56]
  have "rd32 (img t) (f + x) = rd32 (img s) (f + x)" if "x < 56" "x mod 4 = 0" for x
    by (rule Q(4)) (use I [of x] that f(2) in auto)
  note V = this [of 0] this [of 4]
  have "ospfs_block (of_nat c) = c * 1024" using Q(2) nb unat_block by simp
  then have "rd32 (img s') (ospfs_block (oi_indirect (img s') f) + 4 * (n - 10)) = of_nat b"
    "ospfs_block (oi_indirect (img s') f) = c * 1024" using W V Q(1,3) t(2) by simp_all
  then show ?thesis using W V set_size(1) [of 56 "img s'" f len] set_size(2) [OF ne k f(1), of "img s'" len] by simp
qed

lemma storeblk_indirect2:
  assumes st: "storeblk f b n s = Some s'" and nb: "nblocks s \<le> 8192" and P: "pointers_apart s f" and n: "266 \<le> n"
  shows "rd32 (wr32 (img s') f len) (ospfs_block (rd32 (wr32 (img s') f len)
        (ospfs_block (oi_indirect2 (wr32 (img s') f len) f) + 4 * ((n - 266) div 256))) + 4 * ((n - 266) mod 256)) = of_nat b
    \<and> oi_size (img s') f = oi_size (img s) f \<and> oi_ftype (img s') f = oi_ftype (img s) f"
proof -
  have f: "f mod 64 = 0" "f div 1024 < nextb s" using P by (simp_all add: pointers_apart_def)
  note I = inode_word [OF f(1)]
  let ?q = "(n - 266) div 256" and ?r = "(n - 266) mod 256"
  have max: "n < 65802" using st n by (auto simp: storeblk_def split: if_splits)
  have q: "?q < 256" using max n by (simp add: less_mult_imp_div_less)
  obtain p2 t2 p t where t: "pointed_block (f + 60) s = Some (p2, t2)" "pointed_block (p2 + 4 * ?q) t2 = Some (p, t)"
    "s' = store32 (p + 4 * ?r) (of_nat b) t"
    using st n max by (auto simp: storeblk_def split: bind_splits)
  define c2 where "c2 = (if oi_indirect2 (img s) f = 0 then nextb s else unat (oi_indirect2 (img s) f))"
  have Q2: "p2 = c2 * 1024" "c2 < nblocks s" "rd32 (img t2) (f + 60) = of_nat c2" "nblocks t2 = nblocks s"
      "nextb t2 = (if oi_indirect2 (img s) f = 0 then nextb s + 1 else nextb s)"
      "\<And>x. x \<noteq> f + 60 \<Longrightarrow> x mod 4 = 0 \<Longrightarrow> x div 1024 \<noteq> nextb s \<Longrightarrow> rd32 (img t2) x = rd32 (img s) x"
      "\<And>k. oi_indirect2 (img s) f = 0 \<Longrightarrow> k < 256 \<Longrightarrow> rd32 (img t2) (nextb s * 1024 + 4 * k) = 0"
    using pointed_block_ok [OF t(1) _ _ nb] I [of 60] f(2) unfolding c2_def [symmetric] by auto
  have ne2: "c2 \<noteq> f div 1024" "c2 < nextb t2" using P f(2) Q2(5) by (auto simp: c2_def pointers_apart_def)
  let ?a = "c2 * 1024 + 4 * ?q"
  have a: "?a div 1024 = c2" "?a mod 4 = 0" using q by (simp_all add: mod_mult_right_eq [symmetric] mod_add_eq [symmetric])
  define c where "c = (if rd32 (img t2) ?a = 0 then nextb t2 else unat (rd32 (img t2) ?a))"
  have Q: "p = c * 1024" "c < nblocks s" "rd32 (img t) ?a = of_nat c"
      "\<And>x. x \<noteq> ?a \<Longrightarrow> x mod 4 = 0 \<Longrightarrow> x div 1024 \<noteq> nextb t2 \<Longrightarrow> rd32 (img t) x = rd32 (img t2) x"
    using pointed_block_ok [OF t(2) [unfolded Q2(1)] _ _ nb [folded Q2(4)]] a ne2(2) unfolding c_def [symmetric] Q2(4) by auto
  have ne: "c \<noteq> f div 1024 \<and> c \<noteq> c2"
  proof (cases "rd32 (img t2) ?a = 0")
    case True
    then show ?thesis using ne2 f(2) Q2(5) by (auto simp: c_def)
  next
    case False
    then have i2: "oi_indirect2 (img s) f \<noteq> 0" using Q2(7) [OF _ q] by (auto simp: c2_def)
    then have "c2 < nextb s" using P by (simp add: c2_def pointers_apart_def)
    then have "rd32 (img t2) ?a = rd32 (img s) ?a"
      using I [of 60] a ne2(1) by (intro Q2(6)) auto
    then show ?thesis using P False i2 q unfolding c_def c2_def pointers_apart_def by auto
  qed
  have W: "rd32 (img s') (f + x) = rd32 (img t2) (f + x)" if "x < 64" "x mod 4 = 0" for x
  proof -
    have "rd32 (img s') (f + x) = rd32 (img t) (f + x)"
      using word_apart [of c f ?r x] ne f(1) that t(3) Q(1) by simp
    also have "\<dots> = rd32 (img t2) (f + x)"
      by (rule Q(4)) (use I [of x] that a ne2 f(2) Q2(5) in auto)
    finally show ?thesis .
  qed
  have V: "rd32 (img t2) (f + x) = rd32 (img s) (f + x)" if "x < 60" "x mod 4 = 0" for x
    by (rule Q2(6)) (use I [of x] that f(2) in auto)
  have b2: "ospfs_block (of_nat c2) = c2 * 1024" "ospfs_block (of_nat c) = c * 1024" using Q2(2) Q(2) nb unat_block by simp_all
  have "(c * 1024 + 4 * ?r) div 1024 = c" "(c * 1024 + 4 * ?r) mod 4 = 0"
    by (simp_all add: mod_mult_right_eq [symmetric] mod_add_eq [symmetric])
  then have "rd32 (img s') ?a = rd32 (img t) ?a" using rd32_wr32_aligned [of ?a "c * 1024 + 4 * ?r"] a ne t(3) Q(1) by auto
  then have "rd32 (img s') (ospfs_block (oi_indirect2 (img s') f) + 4 * ?q) = of_nat c"
    using W [of 60] Q2(3) Q(3) b2(1) by simp
  moreover have "oi_indirect2 (img s') f = of_nat c2" using W [of 60] Q2(3) by simp
  moreover have "?r < 256" by simp
  ultimately show ?thesis
    using W [of 0] W [of 4] V [of 0] V [of 4] b2 t(3) Q(1) set_size(1) [of 60 "img s'" f len]
      set_size(2) [OF ne2(1) q f(1), of "img s'" len] set_size(2) [OF conjunct1 [OF ne] _ f(1), of ?r "img s'" len] by simp
qed

text \<open>C23: When the formatter stores the block \<open>b\<close> as block \<open>n\<close> of a file (directly in the inode, in the
  indirect block or below the doubly indirect block, allocating pointer blocks where there are
  none yet), and then sets the size of the file, as it does after the last block, the file system module finds \<open>b\<close> at
  every offset in that block below the size. Storing the block changes neither size nor type of the file.\<close>

theorem storeblk_found_by_module:
  assumes "storeblk f b n s = Some s'" "nblocks s \<le> 8192" "pointers_apart s f"
    and "off < len" "unat off div 1024 = n" "oi_ftype (img s) f \<noteq> OSPFS_FTYPE_SYMLINK"
  shows "ospfs_inode_blockno (wr32 (img s') f len) f off = of_nat b
    \<and> oi_size (img s') f = oi_size (img s) f \<and> oi_ftype (img s') f = oi_ftype (img s) f"
proof -
  let ?m = "wr32 (img s') f len"
  have sz: "off < oi_size ?m f" using assms(4) by simp
  have ft: "oi_ftype ?m f = oi_ftype (img s') f" using set_size(1) [of 4 "img s'" f len] by simp
  consider "n < 10" | "10 \<le> n" "n < 266" | "266 \<le> n" by linarith
  then show ?thesis
  proof cases
    case 1
    then have "s' = store32 (f + 16 + 4 * n) (of_nat b) s" using assms(1) by (simp add: storeblk_def)
    then have "oi_direct ?m f n = of_nat b \<and> oi_size (img s') f = oi_size (img s) f \<and> oi_ftype (img s') f = oi_ftype (img s) f"
      by (simp add: rd32_wr32_other)
    then show ?thesis using module_blockno(1) [OF sz assms(5)] ft assms(6) 1 by auto
  next
    case 2
    then show ?thesis using storeblk_indirect [OF assms(1-3) 2, of len] module_blockno(2) [OF sz assms(5)] ft assms(6) by auto
  next
    case 3
    then show ?thesis using storeblk_indirect2 [OF assms(1-3) 3, of len] module_blockno(3) [OF sz assms(5)] ft assms(6) by auto
  qed
qed

text \<open>A state in which inode 1 is a new file that has no size yet, six blocks in use.\<close>

definition new_file_state :: format_state where
  "new_file_state = \<lparr>img = (\<lambda>_. 0), nblocks = 64, ninodes = 16, nbitblock = 1, nextb = 6, nextinode = 2,
     firstinob = 3, link_contents = False, hardlinks = []\<rparr>"

theorem storeblk_found_by_module_witness:
  "\<exists>s'. storeblk 3136 20 10 new_file_state = Some s' \<and> oi_indirect (img s') 3136 = 6
     \<and> ospfs_inode_blockno (wr32 (img s') 3136 10241) 3136 10240 = 20"
proof -
  have z: "rd32 (img new_file_state) x = 0" for x by (simp add: new_file_state_def rd32_def)
  obtain s' where s': "storeblk 3136 20 10 new_file_state = Some s'" "oi_indirect (img s') 3136 = 6"
    using z by (simp add: storeblk_def pointed_block_def new_block_def get_block_def new_file_state_def rd32_wr32_other)
  have "nblocks new_file_state \<le> 8192" "pointers_apart new_file_state 3136"
    using z by (simp_all add: pointers_apart_def new_file_state_def)
  from storeblk_found_by_module [OF s'(1) this, of 10240 10241] show ?thesis
    using s' z by (auto simp: word_less_nat_alt)
qed

end
