(* ===== verification/OspfsFormatProps.thy ===== *)
theory OspfsFormatProps
  imports FormatPointers
begin

text \<open>
  After formatting a list of files the file system module finds every one of them, with its
  contents. The invariant \<open>fmt_inv\<close> describes the image while the files are written (it has no
  superblock yet and all blocks are marked free); \<open>image_of\<close> the finished image.
\<close>

section \<open>The blocks of a file\<close>

text \<open>The counters and tables agree, apart from the ones that allocation advances.\<close>

definition same_tables :: "format_state \<Rightarrow> format_state \<Rightarrow> bool" where
  "same_tables s s' \<longleftrightarrow> nblocks s' = nblocks s \<and> ninodes s' = ninodes s \<and> nbitblock s' = nbitblock s
     \<and> firstinob s' = firstinob s \<and> link_contents s' = link_contents s \<and> hardlinks s' = hardlinks s"

lemma write_blocks_ok:
  assumes "n * 1024 + length bytes \<le> 10240" "nextb s + length bytes div 1024 < nblocks s" "f + 64 \<le> nextb s * 1024"
  shows "\<exists>s'. write_blocks f bytes n s = Some (n * 1024 + length bytes, s')
    \<and> same_tables s s' \<and> nextinode s' = nextinode s \<and> nextb s' = nextb s + (length bytes + 1023) div 1024
    \<and> (\<forall>a < nextb s * 1024. a < f + 16 + 4 * n \<or> f + 56 \<le> a \<longrightarrow> img s' a = img s a)
    \<and> (\<forall>i < (length bytes + 1023) div 1024. oi_direct (img s') f (n + i) = of_nat (nextb s + i))
    \<and> (\<forall>p < length bytes. img s' (nextb s * 1024 + p) = bytes ! p)"
  using assms
proof (induction "length bytes" arbitrary: bytes n s rule: less_induct)
  case less
  define s1 where "s1 = s\<lparr>img := mem_write (write_disk (nextb s) (\<lambda>_. 0) (img s)) (nextb s * 1024) (take 1024 bytes)\<rparr>"
  have g: "get_block (nextb s) True s = Some (nextb s * 1024, s\<lparr>img := write_disk (nextb s) (\<lambda>_. 0) (img s)\<rparr>)"
    using less.prems by (simp add: get_block_ok)
  have low: "img s1 a = img s a" if "a < nextb s * 1024" for a
    using that by (auto simp: s1_def mem_write_apply_other write_disk_def)
  have data: "img s1 (nextb s * 1024 + p) = bytes ! p" if "p < length bytes" "p < 1024" for p
    using that by (simp add: s1_def mem_write_def)
  show ?case
  proof (cases "bytes = []")
    case True
    have "write_blocks f bytes n s = Some (n * 1024, s1)"
      using True by (subst write_blocks.simps) (simp add: g s1_def)
    then show ?thesis using True low by (intro exI [of _ s1]) (simp add: same_tables_def s1_def)
  next
    case False
    define s2 where "s2 = store32 (f + 16 + 4 * n) (of_nat (nextb s)) (s1\<lparr>nextb := nextb s + 1\<rparr>)"
    have n: "n < 10" using False less.prems(1) by (cases bytes) auto
    have st: "storeblk f (nextb s) n (s1\<lparr>nextb := nextb s + 1\<rparr>) = Some s2"
      using n by (simp add: storeblk_def s2_def)
    have low2: "img s2 a = img s a" if "a < nextb s * 1024" "a < f + 16 + 4 * n \<or> f + 16 + 4 * n + 4 \<le> a" for a
      using that low by (auto simp: s2_def wr32_apply_other)
    have high2: "img s2 a = img s1 a" if "nextb s * 1024 \<le> a" for a
      using that less.prems(3) n by (simp add: s2_def wr32_apply_other)
    have ptr: "oi_direct (img s2) f n = of_nat (nextb s)" by (simp add: s2_def)
    show ?thesis
    proof (cases "length bytes < 1024")
      case True
      have "write_blocks f bytes n s = Some (n * 1024 + length bytes, s2)"
        using True False st by (subst write_blocks.simps) (simp add: g s1_def)
      moreover have "(length bytes + 1023) div 1024 = 1" using True False by (cases bytes) auto
      ultimately show ?thesis using True low2 high2 data ptr n
        by (intro exI [of _ s2]) (simp add: same_tables_def s1_def s2_def)
    next
      case full: False
      let ?rest = "drop 1024 bytes"
      have w: "write_blocks f bytes n s = write_blocks f ?rest (n + 1) s2"
        using full False st by (subst write_blocks.simps) (simp add: g s1_def)
      have s2: "nextb s2 = nextb s + 1" "nextinode s2 = nextinode s" "nblocks s2 = nblocks s" "same_tables s s2"
        by (simp_all add: s1_def s2_def same_tables_def)
      define r where "r = length ?rest"
      have len: "length bytes = 1024 + r" using full by (simp add: r_def)
      have P: "length ?rest < length bytes" "(n + 1) * 1024 + length ?rest \<le> 10240"
        "nextb s2 + length ?rest div 1024 < nblocks s2" "f + 64 \<le> nextb s2 * 1024"
        using less.prems len s2(1,3) unfolding r_def [symmetric] by simp_all
      obtain s' where s': "write_blocks f ?rest (n + 1) s2 = Some ((n + 1) * 1024 + r, s')"
        "same_tables s2 s'" "nextinode s' = nextinode s2" "nextb s' = nextb s2 + (r + 1023) div 1024"
        "\<And>a. a < nextb s2 * 1024 \<Longrightarrow> a < f + 16 + 4 * (n + 1) \<or> f + 56 \<le> a \<Longrightarrow> img s' a = img s2 a"
        "\<And>i. i < (r + 1023) div 1024 \<Longrightarrow> oi_direct (img s') f (n + 1 + i) = of_nat (nextb s2 + i)"
        "\<And>p. p < r \<Longrightarrow> img s' (nextb s2 * 1024 + p) = ?rest ! p"
        using less.hyps [OF P] unfolding r_def by blast
      have "write_blocks f bytes n s = Some (n * 1024 + length bytes, s')" using w s'(1) len by simp
      moreover have "same_tables s s'" "nextinode s' = nextinode s" using s'(2,3) s2 by (simp_all add: same_tables_def)
      moreover have "nextb s' = nextb s + (length bytes + 1023) div 1024" using s'(4) s2(1) len by simp
      moreover have "img s' a = img s a" if "a < nextb s * 1024" "a < f + 16 + 4 * n \<or> f + 56 \<le> a" for a
        using s'(5) [of a] low2 [of a] that n s2(1) by auto
      moreover have "oi_direct (img s') f (n + i) = of_nat (nextb s + i)" if i: "i < (length bytes + 1023) div 1024" for i
      proof (cases i)
        case 0
        have "rd32 (img s') (f + 16 + 4 * n) = rd32 (img s2) (f + 16 + 4 * n)"
          by (rule rd32_cong, rule s'(5)) (use less.prems(3) n s2(1) in auto)
        then show ?thesis using ptr 0 by simp
      next
        case (Suc j)
        then show ?thesis using s'(6) [of j] i len s2(1) by (simp add: add_ac)
      qed
      moreover have "img s' (nextb s * 1024 + p) = bytes ! p" if p: "p < length bytes" for p
      proof (cases "p < 1024")
        case True
        then have "img s' (nextb s * 1024 + p) = img s2 (nextb s * 1024 + p)"
          using s'(5) [of "nextb s * 1024 + p"] s2(1) less.prems(3) by simp
        then show ?thesis using high2 data [OF p True] by simp
      next
        case False
        then show ?thesis using s'(7) [of "p - 1024"] p s2(1) len full by (simp add: add_ac)
      qed
      ultimately show ?thesis by blast
    qed
  qed
qed

section \<open>The state while files are written\<close>

abbreviation inode_of :: "nat \<Rightarrow> nat" where
  "inode_of k \<equiv> 3072 + 64 * k"

abbreviation root_dir :: nat where
  "root_dir \<equiv> 3136"

definition slot :: "nat list \<Rightarrow> nat \<Rightarrow> nat" where
  "slot ds j = ds ! (j div 8) * 1024 + 128 * (j mod 8)"

definition data_first :: "format_state \<Rightarrow> nat" where
  "data_first s = 3 + (ninodes s + 15) div 16"

text \<open>The counters, the blocks of the root directory and the blocks of the files.\<close>

definition laid_out :: "format_state \<Rightarrow> nat \<Rightarrow> nat list \<Rightarrow> nat list list \<Rightarrow> bool" where
  "laid_out s k ds bs \<longleftrightarrow>
     nblocks s \<le> 8192 \<and> nbitblock s = 1 \<and> firstinob s = 3 \<and> \<not> link_contents s
     \<and> nextinode s = 2 + k \<and> nextinode s \<le> ninodes s \<and> nextb s \<le> nblocks s \<and> data_first s \<le> nextb s
     \<and> k \<le> 8 * length ds \<and> 8 * length ds < k + 8 \<and> length ds \<le> 10 \<and> length bs = k
     \<and> distinct (ds @ concat bs) \<and> (\<forall>b \<in> set (ds @ concat bs). data_first s \<le> b \<and> b < nextb s)"

definition dir_part :: "mem \<Rightarrow> nat list \<Rightarrow> bool" where
  "dir_part m ds \<longleftrightarrow> oi_size m root_dir = of_nat (1024 * length ds) \<and> oi_ftype m root_dir = OSPFS_FTYPE_DIR
     \<and> oi_nlink m root_dir = 1 \<and> (\<forall>i < length ds. oi_direct m root_dir i = of_nat (ds ! i))"

lemma find_map_upt: "(\<forall>i < k. \<not> P (f i)) \<Longrightarrow> P (f k) \<Longrightarrow> k < n \<Longrightarrow> find P (map f [0..<n]) = Some (f k)"
  by (auto simp: find_Some_iff intro!: exI [of _ k])

lemma find_map_upt_None: "(\<forall>i < n. \<not> P (f i)) \<Longrightarrow> find P (map f [0..<n]) = None"
  by (auto simp: find_None_iff)

lemma rd32_cleared: "x + 4 \<le> 1024 \<Longrightarrow> rd32 (write_disk b (\<lambda>_. 0) m) (b * 1024 + x) = 0"
  by (simp add: rd32_def write_disk_def)

lemma store_zero: "rd32 (img s) a = 0 \<Longrightarrow> store32 a 0 s = s"
  using wr32_rd32_id [of "img s" a] by (simp add: store32_def)

lemma fold_store_zero: "(\<forall>i \<in> set is. rd32 (img s) (f i) = 0) \<Longrightarrow> fold (\<lambda>i. store32 (f i) 0) is s = s"
  by (induction "is") (simp_all add: store_zero)

lemma size_blocks: "L \<le> 10 \<Longrightarrow> unat (((of_nat (1024 * L) :: u32) + 1024 - 1) div 1024) = L"
proof -
  assume "L \<le> 10"
  have e: "(of_nat (1024 * L) :: u32) + 1024 - 1 = of_nat (1024 * L + 1023)" by simp
  have "unat (of_nat (1024 * L + 1023) :: u32) = 1024 * L + 1023" by (rule unat_of_nat_u32) (use \<open>L \<le> 10\<close> in simp)
  moreover have "unat (1024 :: u32) = 1024" by simp
  moreover have "(1024 * L + 1023) div 1024 = L" by simp
  ultimately show ?thesis unfolding e unat_div_distrib by (simp only:)
qed

lemma slot_last: "j div 8 = length ds \<Longrightarrow> slot (ds @ [b]) j = b * 1024 + 128 * (j mod 8)"
  by (simp add: slot_def)

lemma slot_append: "j < 8 * length ds \<Longrightarrow> slot (ds @ es) j = slot ds j"
proof -
  assume "j < 8 * length ds"
  then have "j div 8 < length ds" by simp
  then show ?thesis by (simp add: slot_def nth_append)
qed

lemma new_dirb_ok:
  assumes d: "dir_part (img s) ds" and n: "length ds < 10" and nb: "nextb s < nblocks s" "nblocks s \<le> 8192" "4 \<le> nextb s"
  shows "\<exists>s'. new_dirb root_dir (length ds) s = Some (nextb s * 1024, s') \<and> same_tables s s' \<and> nextinode s' = nextinode s
    \<and> nextb s' = nextb s + 1 \<and> dir_part (img s') (ds @ [nextb s])
    \<and> (\<forall>a < nextb s * 1024. a < root_dir \<or> root_dir + 64 \<le> a \<longrightarrow> img s' a = img s a)
    \<and> (\<forall>i < 8. rd32 (img s') (nextb s * 1024 + 128 * i) = 0)"
proof -
  define b where "b = nextb s"
  define s1 where "s1 = s\<lparr>img := write_disk b (\<lambda>_. 0) (img s), nextb := b + 1\<rparr>"
  define s2 where "s2 = store32 (root_dir + 16 + 4 * length ds) (of_nat b) s1"
  define s3 where "s3 = store32 root_dir (oi_size (img s2) root_dir + 1024) s2"
  have zero: "rd32 (img s1) (b * 1024 + 128 * i) = 0" if "i < 8" for i
    using that by (simp add: s1_def rd32_cleared)
  have low: "img s1 a = img s a" if "a < b * 1024" for a using that by (auto simp: s1_def write_disk_def)
  have f: "fold (\<lambda>i. store32 (b * 1024 + 128 * i) 0) [0..<8] s1 = s1"
    by (rule fold_store_zero) (use zero in auto)
  have r: "rd32 (img s1) a = rd32 (img s) a" if "a + 4 \<le> b * 1024" for a by (rule rd32_cong, rule low) (use that in simp)
  have b4: "4 \<le> b" using nb by (simp add: b_def)
  have sz: "oi_size (img s2) root_dir = of_nat (1024 * length ds)"
    using d b4 by (simp add: s2_def rd32_wr32_other r dir_part_def)
  have d3: "dir_part (img s3) (ds @ [b])"
  proof -
    have "oi_direct (img s3) root_dir i = of_nat ((ds @ [b]) ! i)" if "i < Suc (length ds)" for i
      using that d b4 n by (cases "i = length ds")
        (auto simp: s3_def s2_def rd32_wr32_other r dir_part_def nth_append)
    moreover have "oi_size (img s3) root_dir = of_nat (1024 * Suc (length ds))" by (simp add: s3_def sz)
    ultimately show ?thesis using d b4 by (simp add: dir_part_def s3_def s2_def rd32_wr32_other r del: of_nat_mult)
  qed
  have "new_dirb root_dir (length ds) s = Some (b * 1024, s3)"
  proof -
    have "new_block s = Some (b, s1)" using nb by (simp add: new_block_def get_block_ok s1_def b_def)
    moreover have "storeblk root_dir b (length ds) s1 = Some s2" using n by (simp add: storeblk_def s2_def)
    moreover have "oi_size (img s3) root_dir = of_nat ((length ds + 1) * 1024)" by (simp add: s3_def sz)
    moreover have "oi_size (img s2) root_dir = of_nat (length ds) * 1024" using sz by (simp add: mult.commute)
    ultimately show ?thesis by (simp add: new_dirb_def f s3_def)
  qed
  moreover have "img s3 a = img s a" if "a < b * 1024" "a < root_dir \<or> root_dir + 64 \<le> a" for a
    using that low n by (auto simp: s3_def s2_def wr32_apply_other)
  moreover have "rd32 (img s3) (b * 1024 + 128 * i) = 0" if "i < 8" for i
    using zero [OF that] b4 n by (simp add: s3_def s2_def rd32_wr32_other)
  ultimately show ?thesis
    using d3 by (intro exI [of _ s3]) (simp add: b_def same_tables_def s3_def s2_def s1_def)
qed

lemma last_dir_block_ok:
  assumes d: "dir_part (img s) ds" and n: "ds \<noteq> []" "length ds \<le> 10" and b: "last ds < nblocks s" "nblocks s \<le> 8192"
  shows "last_dir_block root_dir (length ds - 1) s = Some (last ds * 1024, s)"
proof -
  have i: "length ds - 1 < length ds" "length ds - 1 < 10" using n by (cases ds; simp)+
  have "oi_direct (img s) root_dir (length ds - 1) = of_nat (last ds)"
    using d i(1) n(1) by (simp add: dir_part_def last_conv_nth)
  moreover have "unat (of_nat (last ds) :: u32) = last ds" by (rule unat_of_nat_u32) (use b in simp)
  ultimately show ?thesis using i(2) b by (simp add: last_dir_block_def get_block_ok)
qed

lemma slot_of_last:
  assumes "ds \<noteq> []" "i < 8"
  shows "slot ds (8 * (length ds - 1) + i) = last ds * 1024 + 128 * i"
  using assms by (simp add: slot_def last_conv_nth)

lemma laid_outD:
  assumes "laid_out s k ds bs"
  shows "nblocks s \<le> 8192" "k \<le> 8 * length ds" "8 * length ds < k + 8" "length ds \<le> 10" "4 \<le> nextb s"
    "\<And>b. b \<in> set ds \<Longrightarrow> 4 \<le> b \<and> b < nextb s" "nextb s \<le> nblocks s"
proof -
  have "2 \<le> ninodes s" using assms by (simp add: laid_out_def)
  then have "4 \<le> data_first s" by (simp add: data_first_def)
  then show "nblocks s \<le> 8192" "k \<le> 8 * length ds" "8 * length ds < k + 8" "length ds \<le> 10" "4 \<le> nextb s"
    "\<And>b. b \<in> set ds \<Longrightarrow> 4 \<le> b \<and> b < nextb s" "nextb s \<le> nblocks s"
    using assms by (auto simp: laid_out_def intro: order_trans)
qed

text \<open>The entry that the search of \<open>allocdirentry\<close> ends with.\<close>

abbreviation entry_search :: "nat \<Rightarrow> format_state \<Rightarrow> (nat option \<times> format_state) option" where
  "entry_search n s \<equiv>
     (if n = 0 then Some (None, s)
      else Option.bind (last_dir_block root_dir (n - 1) s)
        (\<lambda>(dirb, s). Some (find (\<lambda>od. rd32 (img s) od = 0) (map (\<lambda>i. dirb + 128 * i) [0..<8]), s)))"

lemma entry_search_ok:
  assumes L: "laid_out s k ds bs" and d: "dir_part (img s) ds"
    and used: "\<forall>j < k. rd32 (img s) (slot ds j) \<noteq> 0"
    and free: "\<forall>j. k \<le> j \<and> j < 8 * length ds \<longrightarrow> rd32 (img s) (slot ds j) = 0"
  shows "entry_search (length ds) s = Some (if k < 8 * length ds then Some (slot ds k) else None, s)"
proof (cases "ds = []")
  case False
  note D = laid_outD [OF L]
  have lst: "last_dir_block root_dir (length ds - 1) s = Some (last ds * 1024, s)"
    using last_dir_block_ok [OF d False D(4)] D(1,6,7) False by (meson last_in_set order_less_le_trans)
  let ?n = "8 * (length ds - 1)"
  let ?f = "\<lambda>i. last ds * 1024 + 128 * i" and ?P = "\<lambda>od. rd32 (img s) od = 0"
  have f: "?f i = slot ds (?n + i)" if "i < 8" for i using slot_of_last [OF False that] by simp
  have n: "8 * length ds = ?n + 8" using False by (cases ds) auto
  have "find ?P (map ?f [0..<8]) = (if k < 8 * length ds then Some (slot ds k) else None)"
  proof (cases "k < 8 * length ds")
    case True
    have i: "k = ?n + (k - ?n)" "k - ?n < 8" using True n D(3) by linarith+
    have "find ?P (map ?f [0..<8]) = Some (?f (k - ?n))"
    proof (rule find_map_upt)
      show "\<forall>i < k - ?n. \<not> ?P (?f i)" using used f i by simp
      show "?P (?f (k - ?n))" using free f [OF i(2)] True i(1) by (metis order_refl)
    qed (rule i(2))
    then show ?thesis using True f [OF i(2)] i(1) by simp
  next
    case full: False
    have "find ?P (map ?f [0..<8]) = None"
      by (rule find_map_upt_None) (use used f full n D(2) in auto)
    then show ?thesis using full by simp
  qed
  then show ?thesis using False lst by simp
qed (use laid_outD [OF L] in auto)

lemma slot_mod [simp]: "slot ds j mod 128 = 0"
proof -
  have "slot ds j = 128 * (ds ! (j div 8) * 8 + j mod 8)" by (simp add: slot_def algebra_simps)
  then show ?thesis by simp
qed

lemma slot_bounds:
  assumes "j < 8 * length ds" "\<forall>b \<in> set ds. lo \<le> b \<and> b < hi"
  shows "lo * 1024 \<le> slot ds j" "slot ds j + 128 \<le> hi * 1024"
proof -
  have "j div 8 < length ds" using assms(1) by simp
  then have b: "lo \<le> ds ! (j div 8)" "ds ! (j div 8) + 1 \<le> hi" using assms(2) by (auto simp: Suc_le_eq)
  have "j mod 8 < 8" by simp
  then have "128 * (j mod 8) + 128 \<le> 1024" by linarith
  then show "lo * 1024 \<le> slot ds j" "slot ds j + 128 \<le> hi * 1024" using b unfolding slot_def by linarith+
qed

text \<open>Copying the name into an entry.\<close>

lemma name_copied:
  fixes e :: nat and m :: mem
  assumes "length name \<le> 123" and e: "e mod 128 = 0" "root_dir + 64 \<le> e"
  defines "m' \<equiv> mem_write m (e + 4) (name @ [0])"
  shows "a < e + 4 \<or> e + 128 \<le> a \<Longrightarrow> m' a = m a" "i < length name \<Longrightarrow> m' (e + 4 + i) = name ! i"
    "m' (e + 4 + length name) = 0" "c mod 128 = 0 \<Longrightarrow> rd32 m' c = rd32 m c" "length ds \<le> 10 \<Longrightarrow> dir_part m' ds = dir_part m ds"
proof -
  show keep: "a < e + 4 \<or> e + 128 \<le> a \<Longrightarrow> m' a = m a" for a
    using assms(1) by (auto simp: m'_def mem_write_apply_other)
  show "i < length name \<Longrightarrow> m' (e + 4 + i) = name ! i" "m' (e + 4 + length name) = 0"
    by (simp_all add: m'_def mem_write_def nth_append)
  show "rd32 m' c = rd32 m c" if c: "c mod 128 = 0"
    by (rule rd32_cong, rule keep) (use aligned_disjoint [OF c e(1)] in \<open>cases "c = e"; auto\<close>)
  have r: "rd32 m' a = rd32 m a" if "a + 4 \<le> root_dir + 64" for a
    by (rule rd32_cong, rule keep) (use that e(2) in simp)
  show "length ds \<le> 10 \<Longrightarrow> dir_part m' ds = dir_part m ds" by (auto simp: dir_part_def r)
qed

lemma allocdirentry_ok:
  assumes L: "laid_out s k ds bs" and d: "dir_part (img s) ds" and k: "k < 80" and nb: "nextb s < nblocks s"
    and used: "\<forall>j < k. rd32 (img s) (slot ds j) \<noteq> 0"
    and free: "\<forall>j. k \<le> j \<and> j < 8 * length ds \<longrightarrow> rd32 (img s) (slot ds j) = 0"
    and name: "length name \<le> 123"
  shows "\<exists>ds' s'. allocdirentry root_dir name s = Some (Some (slot ds' k), s') \<and> same_tables s s'
    \<and> nextinode s' = nextinode s \<and> (\<exists>es. ds' = ds @ es \<and> set es \<subseteq> {nextb s} \<and> nextb s' = nextb s + length es)
    \<and> k < 8 * length ds' \<and> 8 * length ds' \<le> k + 8 \<and> dir_part (img s') ds'
    \<and> (\<forall>a < nextb s * 1024. (a < root_dir \<or> root_dir + 64 \<le> a) \<and> (a < slot ds' k \<or> slot ds' k + 128 \<le> a) \<longrightarrow> img s' a = img s a)
    \<and> (\<forall>i < length name. img s' (slot ds' k + 4 + i) = name ! i) \<and> img s' (slot ds' k + 4 + length name) = 0
    \<and> (\<forall>j. k \<le> j \<and> j < 8 * length ds' \<longrightarrow> rd32 (img s') (slot ds' j) = 0)"
proof -
  note D = laid_outD [OF L]
  have n: "unat ((oi_size (img s) root_dir + 1024 - 1) div 1024) = length ds"
    using d size_blocks [OF D(4)] by (simp add: dir_part_def del: of_nat_mult)
  have S: "entry_search (length ds) s = Some (if k < 8 * length ds then Some (slot ds k) else None, s)"
    by (rule entry_search_ok [OF L d used free])
  obtain es s1 where s1: "(if k < 8 * length ds then Some (slot ds k, s) else new_dirb root_dir (length ds) s)
      = Some (slot (ds @ es) k, s1)" "same_tables s s1" "nextinode s1 = nextinode s" "set es \<subseteq> {nextb s}"
    "nextb s1 = nextb s + length es" "k < 8 * length (ds @ es)" "8 * length (ds @ es) \<le> k + 8" "dir_part (img s1) (ds @ es)"
    "\<forall>a < nextb s * 1024. a < root_dir \<or> root_dir + 64 \<le> a \<longrightarrow> img s1 a = img s a"
    "\<forall>j. k \<le> j \<and> j < 8 * length (ds @ es) \<longrightarrow> rd32 (img s1) (slot (ds @ es) j) = 0"
  proof (cases "k < 8 * length ds")
    case True
    show thesis by (rule that [of "[]" s]) (use True D d free in \<open>auto simp: same_tables_def\<close>)
  next
    case False
    then have kl: "k = 8 * length ds" using D(2) by simp
    obtain s' where s': "new_dirb root_dir (length ds) s = Some (nextb s * 1024, s')" "same_tables s s'"
      "nextinode s' = nextinode s" "nextb s' = nextb s + 1" "dir_part (img s') (ds @ [nextb s])"
      "\<forall>a < nextb s * 1024. a < root_dir \<or> root_dir + 64 \<le> a \<longrightarrow> img s' a = img s a"
      "\<forall>i < 8. rd32 (img s') (nextb s * 1024 + 128 * i) = 0"
      using new_dirb_ok [OF d _ nb D(1) D(5)] kl k by auto
    have sl: "slot (ds @ [nextb s]) j = nextb s * 1024 + 128 * (j mod 8)" if "k \<le> j" "j < k + 8" for j
      by (rule slot_last) (use that kl in linarith)
    show thesis
      by (rule that [of "[nextb s]" s']) (use s' kl sl in auto)
  qed
  let ?ds = "ds @ es" and ?e = "slot (ds @ es) k"
  define s2 where "s2 = s1\<lparr>img := mem_write (img s1) (?e + 4) (name @ [0])\<rparr>"
  have "allocdirentry root_dir name s = Some (Some ?e, s2)"
    using name s1(1) S unfolding allocdirentry_def n by (auto simp: Let_def s2_def split: if_splits)
  have "\<forall>b \<in> set ?ds. 4 \<le> b \<and> b < nextb s + 1" using D(5,6) s1(4) by (auto simp: less_Suc_eq)
  then have e: "root_dir + 64 \<le> ?e" using slot_bounds(1) [OF s1(6), of 4 "nextb s + 1"] by simp
  have i2: "img s2 = mem_write (img s1) (?e + 4) (name @ [0])" by (simp add: s2_def)
  note N = name_copied [OF name slot_mod e, where m = "img s1", folded i2]
  have "length ?ds \<le> 10" using s1(7) k by linarith
  then have "dir_part (img s2) ?ds" using N(5) s1(8) by blast
  moreover have "same_tables s s2" "nextinode s2 = nextinode s" "nextb s2 = nextb s + length es"
    using s1(2,3,5) by (simp_all add: s2_def same_tables_def)
  moreover have "img s2 a = img s a" if "a < nextb s * 1024" "a < root_dir \<or> root_dir + 64 \<le> a" "a < ?e \<or> ?e + 128 \<le> a" for a
    using N(1) [of a] s1(9) that by auto
  moreover have "rd32 (img s2) (slot ?ds j) = 0" if "k \<le> j" "j < 8 * length ?ds" for j
    using N(4) [OF slot_mod] s1(10) that by simp
  ultimately show ?thesis
    using \<open>allocdirentry root_dir name s = Some (Some ?e, s2)\<close> s1(4,6,7) N(2,3)
    by (intro exI [of _ ?ds] exI [of _ s2]) blast
qed

section \<open>Writing one file\<close>

definition entry_at :: "mem \<Rightarrow> nat \<Rightarrow> nat \<Rightarrow> u8 list \<Rightarrow> bool" where
  "entry_at m e ino name \<longleftrightarrow> length name \<le> 123 \<and> rd32 m e = of_nat ino
     \<and> (\<forall>i < length name. m (e + 4 + i) = name ! i) \<and> m (e + 4 + length name) = 0"

definition file_at :: "mem \<Rightarrow> nat \<Rightarrow> u8 list \<Rightarrow> nat list \<Rightarrow> bool" where
  "file_at m f c bl \<longleftrightarrow> length c \<le> 10240 \<and> length bl = (length c + 1023) div 1024
     \<and> oi_size m f = of_nat (length c) \<and> oi_ftype m f = OSPFS_FTYPE_REG \<and> oi_nlink m f = 1
     \<and> (\<forall>i < length bl. oi_direct m f i = of_nat (bl ! i))
     \<and> (\<forall>p < length c. m (bl ! (p div 1024) * 1024 + p mod 1024) = c ! p)"

text \<open>The state after the files \<open>fs\<close> (name and contents) have been written.\<close>

definition files_part :: "mem \<Rightarrow> nat list \<Rightarrow> nat list list \<Rightarrow> (u8 list \<times> u8 list) list \<Rightarrow> bool" where
  "files_part m ds bs fs \<longleftrightarrow> (\<forall>j < length fs. entry_at m (slot ds j) (2 + j) (fst (fs ! j))
     \<and> file_at m (inode_of (2 + j)) (snd (fs ! j)) (bs ! j))"

definition fmt_inv :: "format_state \<Rightarrow> (u8 list \<times> u8 list) list \<Rightarrow> nat list \<Rightarrow> nat list list \<Rightarrow> bool" where
  "fmt_inv s fs ds bs \<longleftrightarrow> laid_out s (length fs) ds bs \<and> dir_part (img s) ds \<and> files_part (img s) ds bs fs
     \<and> (\<forall>j. length fs \<le> j \<and> j < 8 * length ds \<longrightarrow> rd32 (img s) (slot ds j) = 0)
     \<and> (\<forall>a. 2048 \<le> a \<and> a < 3072 \<longrightarrow> img s a = 0xFF)"

lemma entry_at_cong:
  assumes "\<forall>a. e \<le> a \<and> a < e + 128 \<longrightarrow> m' a = m a" "entry_at m e ino name"
  shows "entry_at m' e ino name"
proof -
  have "rd32 m' e = rd32 m e" by (rule rd32_cong) (use assms(1) in simp)
  then show ?thesis using assms by (simp add: entry_at_def)
qed

lemma file_at_cong:
  assumes "\<forall>a. f \<le> a \<and> a < f + 64 \<longrightarrow> m' a = m a" "\<forall>b \<in> set bl. \<forall>x < 1024. m' (b * 1024 + x) = m (b * 1024 + x)"
    and "file_at m f c bl"
  shows "file_at m' f c bl"
proof -
  have r: "rd32 m' a = rd32 m a" if "f \<le> a" "a + 4 \<le> f + 64" for a by (rule rd32_cong) (use assms(1) that in simp)
  have "length bl \<le> 10" using assms(3) div_le_mono [of "length c + 1023" 11263 1024] by (simp add: file_at_def)
  then have "oi_direct m' f i = oi_direct m f i" if "i < length bl" for i by (rule_tac r) (use that in simp_all)
  moreover have "m' (bl ! (p div 1024) * 1024 + p mod 1024) = m (bl ! (p div 1024) * 1024 + p mod 1024)" if "p < length c" for p
  proof -
    have "p div 1024 < length bl" using that assms(3) div_le_mono [of "p + 1024" "length c + 1023" 1024] by (simp add: file_at_def)
    then have "bl ! (p div 1024) \<in> set bl" by simp
    then show ?thesis using assms(2) by simp
  qed
  ultimately show ?thesis using assms(3) r by (simp add: file_at_def)
qed

lemma slot_inj:
  assumes "distinct ds" "i < 8 * length ds" "j < 8 * length ds" "slot ds i = slot ds j"
  shows "i = j"
proof -
  have m: "128 * (i mod 8) < 1024" "128 * (j mod 8) < 1024" by simp_all
  have "slot ds i div 1024 = ds ! (i div 8)" "slot ds j div 1024 = ds ! (j div 8)"
    using m by (simp_all add: slot_def)
  moreover have "slot ds i mod 1024 = 128 * (i mod 8)" "slot ds j mod 1024 = 128 * (j mod 8)"
    using m by (simp_all add: slot_def)
  ultimately have "ds ! (i div 8) = ds ! (j div 8)" "i mod 8 = j mod 8" using assms(4) by simp_all
  moreover have "i div 8 < length ds" "j div 8 < length ds" using assms(2,3) by simp_all
  ultimately have "i div 8 = j div 8" using assms(1) nth_eq_iff_index_eq by blast
  then show ?thesis using \<open>i mod 8 = j mod 8\<close> by (metis div_mult_mod_eq)
qed

lemma inode_block_ok:
  assumes "firstinob s = 3" "ino < ninodes s" "data_first s \<le> nblocks s"
  shows "inode_block ino s = Some (inode_of ino, s)" "inode_of ino + 64 \<le> data_first s * 1024"
proof -
  have "3 + ino div 16 < data_first s" using assms(2) by (simp add: data_first_def)
  then have "get_block (3 + ino div 16) False s = Some ((3 + ino div 16) * 1024, s)"
    using assms(3) by (simp add: get_block_ok)
  moreover have "(3 + q) * 1024 + 64 * r = inode_of (16 * q + r)" for q r :: nat by simp
  from this [of "ino div 16" "ino mod 16"] have "(3 + ino div 16) * 1024 + 64 * (ino mod 16) = inode_of ino"
    by (simp only: mult_div_mod_eq)
  ultimately show "inode_block ino s = Some (inode_of ino, s)" using assms(1) by (simp add: inode_block_def)
  show "inode_of ino + 64 \<le> data_first s * 1024" using assms(2) by (simp add: data_first_def)
qed

lemma slot_block:
  assumes "j < 8 * length ds" "slot ds j \<le> a" "a < slot ds j + 128"
  shows "a div 1024 \<in> set ds"
proof -
  have "j mod 8 < 8" by simp
  then have "128 * (j mod 8) + 128 \<le> 1024" by linarith
  then have "a div 1024 = ds ! (j div 8)"
    using assms(2,3) unfolding slot_def by (intro div_nat_eqI, linarith, unfold mult_Suc_right, linarith)
  moreover have "j div 8 < length ds" using assms(1) by simp
  ultimately show ?thesis by simp
qed

lemma files_frame:
  assumes L: "laid_out s (length fs) ds bs" and P: "files_part (img s) ds bs fs"
    and ds': "ds' = ds @ es" "distinct ds'" "set es \<subseteq> {nextb s}" "length fs < 8 * length ds'"
    and f: "inode_of (2 + length fs) + 64 \<le> data_first s * 1024"
    and keep: "\<forall>a < nextb s * 1024. (a < root_dir \<or> root_dir + 64 \<le> a) \<and> (a < slot ds' (length fs) \<or> slot ds' (length fs) + 128 \<le> a)
      \<and> (a < inode_of (2 + length fs) \<or> inode_of (2 + length fs) + 64 \<le> a) \<longrightarrow> m' a = img s a"
  shows "files_part m' ds' bs fs"
  unfolding files_part_def
proof (intro allI impI)
  fix j assume j: "j < length fs"
  let ?k = "length fs" and ?D = "data_first s * 1024"
  have dsb: "\<forall>b \<in> set ds. data_first s \<le> b \<and> b < nextb s" and D: "data_first s \<le> nextb s"
    and dj: "\<forall>b \<in> set ds'. b \<notin> set (bs ! j)" and bj: "\<forall>b \<in> set (bs ! j). data_first s \<le> b \<and> b < nextb s"
    and k8: "?k \<le> 8 * length ds"
  proof -
    have "bs ! j \<in> set bs" using L j by (simp add: laid_out_def)
    then show "\<forall>b \<in> set ds. data_first s \<le> b \<and> b < nextb s" "data_first s \<le> nextb s"
      "\<forall>b \<in> set ds'. b \<notin> set (bs ! j)" "\<forall>b \<in> set (bs ! j). data_first s \<le> b \<and> b < nextb s" "?k \<le> 8 * length ds"
      using L ds'(1,3) by (auto simp: laid_out_def)
  qed
  have dsb': "\<forall>b \<in> set ds'. data_first s \<le> b \<and> b < nextb s + 1" using dsb ds'(1,3) D by auto
  have jl: "j < 8 * length ds" "j < 8 * length ds'" using j k8 ds'(1) by simp_all
  have sj: "slot ds' j = slot ds j" using slot_append [OF jl(1)] ds'(1) by simp
  have ne: "slot ds j \<noteq> slot ds' ?k" using slot_inj [OF ds'(2) jl(2) ds'(4)] j sj by auto
  note B = slot_bounds [OF jl(1) dsb] and BK = slot_bounds(1) [OF ds'(4) dsb']
  have D4: "root_dir + 64 \<le> ?D" using f by simp
  have "m' a = img s a" if a: "slot ds j \<le> a" "a < slot ds j + 128" for a
  proof -
    have "slot ds j + 128 \<le> slot ds' ?k \<or> slot ds' ?k + 128 \<le> slot ds j"
      by (rule aligned_disjoint [OF slot_mod slot_mod ne])
    then show ?thesis using keep a B D4 f by auto
  qed
  then have e: "entry_at m' (slot ds' j) (2 + j) (fst (fs ! j))"
    using P j entry_at_cong [of "slot ds j" m' "img s"] unfolding sj files_part_def by blast
  have i: "m' a = img s a" if a: "inode_of (2 + j) \<le> a" "a < inode_of (2 + j) + 64" for a
  proof -
    have "inode_of (2 + j) + 64 \<le> inode_of (2 + ?k)" using j by simp
    moreover have "?D \<le> nextb s * 1024" using D by simp
    ultimately show ?thesis using keep a BK f by auto
  qed
  have b: "m' (b * 1024 + x) = img s (b * 1024 + x)" if b: "b \<in> set (bs ! j)" "x < 1024" for b x
  proof -
    have "b * 1024 + x < slot ds' ?k \<or> slot ds' ?k + 128 \<le> b * 1024 + x"
      using slot_block [OF ds'(4), of "b * 1024 + x"] dj b by fastforce
    moreover have "?D \<le> b * 1024 + x" "b * 1024 + x < nextb s * 1024" using bj b by force+
    ultimately show ?thesis using keep D4 f by auto
  qed
  have "file_at m' (inode_of (2 + j)) (snd (fs ! j)) (bs ! j)"
    by (rule file_at_cong [where m = "img s"]) (use i b P j in \<open>auto simp: files_part_def\<close>)
  then show "entry_at m' (slot ds' j) (2 + j) (fst (fs ! j)) \<and> file_at m' (inode_of (2 + j)) (snd (fs ! j)) (bs ! j)"
    using e by simp
qed

lemma laid_out_step:
  assumes L: "laid_out s k ds bs" and es: "distinct es" "set es \<subseteq> {nextb s}" and t: "same_tables s s'"
    and i: "nextinode s' = 3 + k" "3 + k \<le> ninodes s" and b: "nextb s' = nextb s + length es + n" "nextb s' \<le> nblocks s'"
    and k: "k < 8 * length (ds @ es)" "8 * length (ds @ es) \<le> k + 8" "length (ds @ es) \<le> 10"
  shows "laid_out s' (k + 1) (ds @ es) (bs @ [[nextb s + length es..<nextb s']])"
proof -
  have ub: "x < nextb s" "data_first s \<le> x" if "x \<in> set (ds @ concat bs)" for x using L that unfolding laid_out_def by blast+
  have le: "data_first s \<le> nextb s" "distinct (ds @ concat bs)" "length bs = k" using L by (simp_all add: laid_out_def)
  let ?new = "[nextb s + length es..<nextb s']"
  have new: "x \<in> set es \<or> x \<in> set ?new \<Longrightarrow> nextb s \<le> x \<and> x < nextb s'" for x
    using es b(1) by (cases es) auto
  have disj: "set es \<inter> set ?new = {}" using es by (cases es) auto
  have "distinct ((ds @ es) @ concat (bs @ [?new]))"
    using le(2) es(1) disj ub(1) new by (fastforce simp: distinct_append)
  moreover have B: "data_first s \<le> x \<and> x < nextb s'" if "x \<in> set ((ds @ es) @ concat (bs @ [?new]))" for x
  proof -
    have "x \<in> set (ds @ concat bs) \<or> (x \<in> set es \<or> x \<in> set ?new)" using that by auto
    then consider "x \<in> set (ds @ concat bs)" | "x \<in> set es \<or> x \<in> set ?new" by blast
    then show ?thesis using ub [of x] new [of x] le(1) b(1) by cases auto
  qed
  moreover have D: "data_first s' = data_first s" using t by (simp add: data_first_def same_tables_def)
  ultimately have "distinct ((ds @ es) @ concat (bs @ [?new])) \<and>
      (\<forall>x \<in> set ((ds @ es) @ concat (bs @ [?new])). data_first s' \<le> x \<and> x < nextb s')" by auto
  moreover have "nblocks s' \<le> 8192" "nbitblock s' = 1" "firstinob s' = 3" "\<not> link_contents s'" "nextinode s' = 2 + (k + 1)"
    "nextinode s' \<le> ninodes s'" "k + 1 \<le> 8 * length (ds @ es)" "8 * length (ds @ es) < k + 1 + 8" "length (bs @ [?new]) = k + 1"
    "data_first s' \<le> nextb s'"
    using L t i b k le D by (simp_all add: laid_out_def same_tables_def)
  ultimately show ?thesis unfolding laid_out_def using b(2) t k(3) by (simp only: same_tables_def) blast
qed

abbreviation blocks_for :: "u8 list \<Rightarrow> nat" where
  "blocks_for c \<equiv> (length c + 1023) div 1024"

text \<open>The entry for the next file, in the last block of the directory or in a new one.\<close>

lemma entry_allocated:
  assumes I: "fmt_inv s fs ds bs" and k: "length fs < 80" and nb: "nextb s < nblocks s" and name: "length name \<le> 123"
  obtains ds' s1 es where "allocdirentry root_dir name s = Some (Some (slot ds' (length fs)), s1)" "same_tables s s1"
    "nextinode s1 = nextinode s" "ds' = ds @ es" "set es \<subseteq> {nextb s}" "nextb s1 = nextb s + length es"
    "length fs < 8 * length ds'" "8 * length ds' \<le> length fs + 8" "dir_part (img s1) ds'"
    "\<forall>a < nextb s * 1024. (a < root_dir \<or> root_dir + 64 \<le> a) \<and> (a < slot ds' (length fs) \<or> slot ds' (length fs) + 128 \<le> a)
       \<longrightarrow> img s1 a = img s a"
    "\<forall>i < length name. img s1 (slot ds' (length fs) + 4 + i) = name ! i" "img s1 (slot ds' (length fs) + 4 + length name) = 0"
    "\<forall>j. length fs \<le> j \<and> j < 8 * length ds' \<longrightarrow> rd32 (img s1) (slot ds' j) = 0"
    "length es = (if length fs = 8 * length ds then 1 else 0)" "distinct es" "distinct ds'"
    "\<forall>b \<in> set ds'. data_first s \<le> b \<and> b < nextb s1"
proof -
  let ?k = "length fs"
  have L: "laid_out s ?k ds bs" and d: "dir_part (img s) ds" and P: "files_part (img s) ds bs fs"
    and fr: "\<forall>j. ?k \<le> j \<and> j < 8 * length ds \<longrightarrow> rd32 (img s) (slot ds j) = 0"
    using I by (simp_all add: fmt_inv_def)
  have "rd32 (img s) (slot ds j) \<noteq> 0" if "j < ?k" for j
  proof -
    have "rd32 (img s) (slot ds j) = of_nat (2 + j)" using P that by (simp add: files_part_def entry_at_def)
    moreover have "(of_nat (2 + j) :: u32) \<noteq> 0" using that k by (subst of_nat_u32_eq_0_iff) simp_all
    ultimately show ?thesis by simp
  qed
  then have used: "\<forall>j < ?k. rd32 (img s) (slot ds j) \<noteq> 0" by blast
  obtain ds' s1 es where A: "allocdirentry root_dir name s = Some (Some (slot ds' ?k), s1)" "same_tables s s1"
    "nextinode s1 = nextinode s" "ds' = ds @ es" "set es \<subseteq> {nextb s}" "nextb s1 = nextb s + length es"
    "?k < 8 * length ds'" "8 * length ds' \<le> ?k + 8" "dir_part (img s1) ds'"
    "\<forall>a < nextb s * 1024. (a < root_dir \<or> root_dir + 64 \<le> a) \<and> (a < slot ds' ?k \<or> slot ds' ?k + 128 \<le> a) \<longrightarrow> img s1 a = img s a"
    "\<forall>i < length name. img s1 (slot ds' ?k + 4 + i) = name ! i" "img s1 (slot ds' ?k + 4 + length name) = 0"
    "\<forall>j. ?k \<le> j \<and> j < 8 * length ds' \<longrightarrow> rd32 (img s1) (slot ds' j) = 0"
    using allocdirentry_ok [OF L d k nb used fr name] by blast
  have "?k \<le> 8 * length ds" "8 * length ds < ?k + 8" "?k < 8 * length ds + 8 * length es" "8 * length ds + 8 * length es \<le> ?k + 8"
    using A(4,7,8) L by (simp_all add: laid_out_def)
  then have "?k = 8 * length ds \<Longrightarrow> length es = 1" "?k \<noteq> 8 * length ds \<Longrightarrow> length es = 0" by linarith+
  then have les: "length es = (if ?k = 8 * length ds then 1 else 0)" by simp
  then have des: "distinct es" by (cases es; cases "tl es"; simp split: if_splits)
  have D: "\<forall>b \<in> set ds. data_first s \<le> b \<and> b < nextb s" "distinct ds" "data_first s \<le> nextb s" using L by (simp_all add: laid_out_def)
  then have "distinct ds'" "\<forall>b \<in> set ds'. data_first s \<le> b \<and> b < nextb s1" using A(4-6) des by (cases es; auto)+
  then show thesis by (rule that [OF A les des])
qed

text \<open>The inode and the blocks of a new file, once it has its entry.\<close>

lemma new_file_written:
  assumes A: "allocdirentry root_dir (last_component name) s = Some (Some e, s1)" "\<not> link_contents s1"
    and F: "firstinob s1 = 3" "nextinode s1 = ino" "ino < ninodes s1" "data_first s1 \<le> nextb s1"
    and e: "inode_of ino + 64 \<le> e" "e + 4 \<le> nextb s1 * 1024"
    and c: "length c \<le> 10240" and room: "nextb s1 + length c div 1024 < nblocks s1"
  shows "\<exists>s'. writefile md5 root_dir name (Some c) 0 mode s = Some s' \<and> same_tables s1 s' \<and> nextinode s' = ino + 1
    \<and> nextb s' = nextb s1 + blocks_for c
    \<and> (\<forall>a < nextb s1 * 1024. (a < inode_of ino \<or> inode_of ino + 64 \<le> a) \<and> (a < e \<or> e + 4 \<le> a) \<longrightarrow> img s' a = img s1 a)
    \<and> rd32 (img s') e = of_nat ino \<and> file_at (img s') (inode_of ino) c [nextb s1..<nextb s1 + blocks_for c]"
proof -
  let ?f = "inode_of ino" and ?n = "blocks_for c" let ?bl = "[nextb s1..<nextb s1 + ?n]"
  define s4 where "s4 = store32 (?f + 12) mode (store32 (?f + 4) 0 (store32 (?f + 8) 1
    (store32 e (of_nat ino) (s1\<lparr>nextinode := ino + 1\<rparr>))))"
  have ib: "inode_block ino t = Some (?f, t)" if "firstinob t = 3" "ninodes t = ninodes s1" "nblocks t = nblocks s1" for t
    by (rule inode_block_ok(1)) (use that F room in \<open>auto simp: data_first_def\<close>)
  have s4: "nextb s4 = nextb s1" "nblocks s4 = nblocks s1" "nextinode s4 = ino + 1" "same_tables s1 s4"
    by (simp_all add: s4_def same_tables_def)
  have P3: "0 * 1024 + length c \<le> 10240" "nextb s4 + length c div 1024 < nblocks s4" "?f + 64 \<le> nextb s4 * 1024"
    using c room s4 e by simp_all
  obtain s5 where W: "write_blocks ?f c 0 s4 = Some (length c, s5)" "same_tables s4 s5" "nextinode s5 = nextinode s4"
    "nextb s5 = nextb s4 + ?n" "\<forall>a < nextb s4 * 1024. a < ?f + 16 \<or> ?f + 56 \<le> a \<longrightarrow> img s5 a = img s4 a"
    "\<forall>i < ?n. oi_direct (img s5) ?f i = of_nat (nextb s4 + i)" "\<forall>p < length c. img s5 (nextb s4 * 1024 + p) = c ! p"
    using write_blocks_ok [OF P3] by auto
  define s' where "s' = store32 ?f (of_nat (length c)) s5"
  have run: "writefile md5 root_dir name (Some c) 0 mode s = Some s'"
    using A F(1-3) W(1) ib unfolding s4_def s'_def
    by (simp add: writefile_def allocinode_def Let_def)
  have keep: "img s' a = img s1 a" if "a < nextb s1 * 1024" "a < ?f \<or> ?f + 64 \<le> a" "a < e \<or> e + 4 \<le> a" for a
    using W(5) s4(1) that by (auto simp: s'_def s4_def wr32_apply_other)
  have r5: "rd32 (img s') a = rd32 (img s5) a" if "?f + 4 \<le> a" for a using that by (simp add: s'_def rd32_wr32_other)
  have r4: "rd32 (img s5) a = rd32 (img s4) a" if "a + 4 \<le> nextb s1 * 1024" "a + 4 \<le> ?f + 16 \<or> ?f + 56 \<le> a" for a
    by (rule rd32_cong) (use W(5) s4(1) that in auto)
  have entry: "rd32 (img s') e = of_nat ino"
    using r5 [of e] r4 [of e] e by (simp add: s4_def rd32_wr32_other)
  have bl: "?bl ! i = nextb s1 + i" if "i < ?n" for i using that by simp
  have "rd32 (img s4) (?f + 4) = 0" "rd32 (img s4) (?f + 8) = 1" using e by (simp_all add: s4_def rd32_wr32_other)
  then have "oi_ftype (img s') ?f = 0" "oi_nlink (img s') ?f = 1"
    using r5 [of "?f + 4"] r4 [of "?f + 4"] r5 [of "?f + 8"] r4 [of "?f + 8"] e by simp_all
  moreover have "oi_size (img s') ?f = of_nat (length c)" by (simp add: s'_def)
  moreover have "oi_direct (img s') ?f i = of_nat (?bl ! i)" if "i < ?n" for i
    using that W(6) s4(1) r5 [of "?f + 16 + 4 * i"] unfolding bl [OF that] by simp
  moreover have "img s' (?bl ! (p div 1024) * 1024 + p mod 1024) = c ! p" if "p < length c" for p
  proof -
    have "p div 1024 < ?n" using that div_le_mono [of "p + 1024" "length c + 1023" 1024] by simp
    from bl [OF this] have "?bl ! (p div 1024) * 1024 + p mod 1024 = nextb s1 * 1024 + p" by (simp del: nth_upt)
    moreover have "img s' (nextb s1 * 1024 + p) = img s5 (nextb s1 * 1024 + p)"
      using e by (simp add: s'_def wr32_apply_other)
    moreover have "img s5 (nextb s1 * 1024 + p) = c ! p" using W(7) s4(1) that by simp
    ultimately show ?thesis by (simp only:)
  qed
  moreover have "length ?bl = ?n" by simp
  ultimately have "file_at (img s') ?f c ?bl" unfolding file_at_def using c by metis
  moreover have "same_tables s1 s'" "nextinode s' = ino + 1" "nextb s' = nextb s1 + ?n"
    using W(2-4) s4 by (simp_all add: s'_def same_tables_def)
  ultimately show ?thesis using run keep entry by blast
qed

lemma writefile_ok:
  assumes I: "fmt_inv s fs ds bs" and k: "length fs < 80" "nextinode s < ninodes s"
    and name: "length (last_component name) \<le> 123" and c: "length c \<le> 10240"
    and room: "nextb s + (if length fs = 8 * length ds then 1 else 0) + blocks_for c < nblocks s"
  shows "\<exists>s' ds' bs'. writefile md5 root_dir name (Some c) 0 mode s = Some s'
    \<and> fmt_inv s' (fs @ [(last_component name, c)]) ds' bs' \<and> same_tables s s' \<and> nextinode s' = nextinode s + 1
    \<and> nextb s' = nextb s + (if length fs = 8 * length ds then 1 else 0) + blocks_for c"
proof -
  let ?k = "length fs" and ?name = "last_component name"
  have L: "laid_out s ?k ds bs" and P: "files_part (img s) ds bs fs" and bm: "\<forall>a. 2048 \<le> a \<and> a < 3072 \<longrightarrow> img s a = 0xFF"
    using I by (simp_all add: fmt_inv_def)
  have nb: "nextb s < nblocks s" using room by simp
  obtain ds' s1 es where A: "allocdirentry root_dir ?name s = Some (Some (slot ds' ?k), s1)" "same_tables s s1"
    "nextinode s1 = nextinode s" "ds' = ds @ es" "set es \<subseteq> {nextb s}" "nextb s1 = nextb s + length es"
    "?k < 8 * length ds'" "8 * length ds' \<le> ?k + 8" "dir_part (img s1) ds'"
    "\<forall>a < nextb s * 1024. (a < root_dir \<or> root_dir + 64 \<le> a) \<and> (a < slot ds' ?k \<or> slot ds' ?k + 128 \<le> a) \<longrightarrow> img s1 a = img s a"
    "\<forall>i < length ?name. img s1 (slot ds' ?k + 4 + i) = ?name ! i" "img s1 (slot ds' ?k + 4 + length ?name) = 0"
    "\<forall>j. ?k \<le> j \<and> j < 8 * length ds' \<longrightarrow> rd32 (img s1) (slot ds' j) = 0"
    "length es = (if ?k = 8 * length ds then 1 else 0)" "distinct es" "distinct ds'"
    "\<forall>b \<in> set ds'. data_first s \<le> b \<and> b < nextb s1"
    by (rule entry_allocated [OF I k(1) nb name]) (rule that; assumption)
  let ?e = "slot ds' ?k" and ?ino = "2 + ?k" let ?f = "inode_of ?ino"
  have F: "firstinob s1 = 3" "nextinode s1 = ?ino" "?ino < ninodes s1" "data_first s1 = data_first s" "nblocks s1 = nblocks s"
    "data_first s \<le> nextb s" "\<not> link_contents s1" "ninodes s1 = ninodes s"
    using L A(2,3) k(2) by (simp_all add: laid_out_def same_tables_def data_first_def)
  have D: "?f + 64 \<le> data_first s * 1024" using inode_block_ok(2) [OF F(1,3)] F(4-6) nb by simp
  note E = slot_bounds [OF A(7,17)]
  have fe: "?f + 64 \<le> ?e" "?e + 4 \<le> nextb s1 * 1024" and D1: "data_first s1 \<le> nextb s1" using D E F(4,6) A(6) by simp_all
  have "nextb s1 + length c div 1024 < nblocks s1"
    using room A(6,14) F(5) div_le_mono [of "length c" "length c + 1023" 1024] by simp
  then obtain s' where W: "writefile md5 root_dir name (Some c) 0 mode s = Some s'" "same_tables s1 s'" "nextinode s' = ?ino + 1"
    "nextb s' = nextb s1 + blocks_for c"
    "\<And>a. a < nextb s1 * 1024 \<Longrightarrow> a < ?f \<or> ?f + 64 \<le> a \<Longrightarrow> a < ?e \<or> ?e + 4 \<le> a \<Longrightarrow> img s' a = img s1 a"
    "rd32 (img s') ?e = of_nat ?ino" "file_at (img s') ?f c [nextb s1..<nextb s1 + blocks_for c]"
    using new_file_written [OF A(1) F(7,1,2,3) D1 fe c] by blast
  let ?bl = "[nextb s1..<nextb s1 + blocks_for c]"
  have keep: "\<forall>a < nextb s * 1024. (a < root_dir \<or> root_dir + 64 \<le> a) \<and> (a < ?e \<or> ?e + 128 \<le> a)
      \<and> (a < ?f \<or> ?f + 64 \<le> a) \<longrightarrow> img s' a = img s a"
    using W(5) A(6,10) by auto
  have "rd32 (img s') a = rd32 (img s1) a" if "root_dir \<le> a" "a + 4 \<le> root_dir + 64" for a
    by (rule rd32_cong, rule W(5)) (use that E D in auto)
  moreover have "length ds' \<le> 10" using A(8) k(1) by simp
  ultimately have d': "dir_part (img s') ds'" using A(9) by (auto simp: dir_part_def)
  have fs: "files_part (img s') ds' bs fs" by (rule files_frame [OF L P A(4,16,5,7) D keep])
  have "img s' a = img s1 a" if "?e + 4 \<le> a" "a < ?e + 128" for a using W(5) [of a] that fe E(2) by simp
  then have entry: "entry_at (img s') ?e ?ino ?name" using A(11,12) W(6) name by (simp add: entry_at_def)
  have T: "same_tables s s'" using A(2) W(2) by (simp add: same_tables_def)
  have "laid_out s' (?k + 1) ds' (bs @ [[nextb s + length es..<nextb s']])"
    unfolding A(4)
    by (rule laid_out_step [OF L A(15,5) T, where n = "blocks_for c"])
       (use A(4,6-8,14) W(3,4) T k room F in \<open>auto simp: same_tables_def\<close>)
  then have "laid_out s' (?k + 1) ds' (bs @ [?bl])" using A(6) W(4) by simp
  moreover have "files_part (img s') ds' (bs @ [?bl]) (fs @ [(?name, c)])"
    using fs entry W(7) L by (auto simp: files_part_def nth_append less_Suc_eq laid_out_def)
  moreover have "rd32 (img s') (slot ds' j) = 0" if j: "?k + 1 \<le> j" "j < 8 * length ds'" for j
  proof -
    have "slot ds' j \<noteq> ?e" using slot_inj [OF A(16) j(2) A(7)] j(1) by auto
    then have "slot ds' j + 128 \<le> ?e \<or> ?e + 128 \<le> slot ds' j" by (rule aligned_disjoint [OF slot_mod slot_mod])
    then have "rd32 (img s') (slot ds' j) = rd32 (img s1) (slot ds' j)"
      by (intro rd32_cong W(5)) (use slot_bounds [OF j(2) A(17)] D in auto)
    then show ?thesis using A(13) j by simp
  qed
  moreover have "img s' a = 0xFF" if "2048 \<le> a" "a < 3072" for a using bm keep that fe F(6) D by auto
  ultimately have "fmt_inv s' (fs @ [(?name, c)]) ds' (bs @ [?bl])" using d' by (simp add: fmt_inv_def)
  then show ?thesis using W(1,3,4) T A(3,6,14) F(2) by auto
qed

section \<open>Writing a list of files\<close>

lemma write_files_ok:
  assumes "fmt_inv s fs ds bs"
    and "\<forall>f \<in> set names. \<exists>c. open_file f = Some c \<and> length c \<le> 10240 \<and> length (last_component f) \<le> 123"
    and "length fs + length names \<le> 80" "nextinode s + length names \<le> ninodes s"
    and "nextb s + ((length fs + length names + 7) div 8 - length ds)
      + sum_list (map (\<lambda>f. blocks_for (the (open_file f))) names) < nblocks s"
  shows "\<exists>s' ds' bs'. fold_option (\<lambda>f. writefile md5 root_dir f (open_file f) 0 mode) names s = Some s'
    \<and> fmt_inv s' (fs @ map (\<lambda>f. (last_component f, the (open_file f))) names) ds' bs' \<and> same_tables s s'
    \<and> nextb s' < nblocks s'"
  using assms
proof (induction names arbitrary: s fs ds bs)
  case Nil
  then show ?case by (intro exI [of _ s] exI [of _ ds] exI [of _ bs]) (simp add: same_tables_def)
next
  case (Cons f names)
  let ?k = "length fs" and ?d = "if length fs = 8 * length ds then 1 else (0 :: nat)"
  obtain c where c: "open_file f = Some c" "length c \<le> 10240" "length (last_component f) \<le> 123"
    using Cons.prems(2) by auto
  have l: "?k \<le> 8 * length ds" "8 * length ds < ?k + 8" using Cons.prems(1) by (simp_all add: fmt_inv_def laid_out_def)
  define T where "T = (?k + length (f # names) + 7) div 8"
  have T: "length ds + ?d \<le> T"
  proof -
    have "?k + 8 \<le> ?k + length (f # names) + 7" by simp
    then have "(?k + 8) div 8 \<le> T" unfolding T_def by (rule div_le_mono)
    moreover have "length ds + ?d \<le> (?k + 8) div 8" using l by auto
    ultimately show ?thesis by simp
  qed
  define R where "R = sum_list (map (\<lambda>f. blocks_for (the (open_file f))) names)"
  have room: "nextb s + (T - length ds) + (blocks_for c + R) < nblocks s"
    using Cons.prems(5) c(1) by (simp add: T_def R_def)
  then have "nextb s + ?d + blocks_for c < nblocks s" using T by linarith
  then obtain s1 ds1 bs1 where W: "writefile md5 root_dir f (Some c) 0 mode s = Some s1"
    "fmt_inv s1 (fs @ [(last_component f, c)]) ds1 bs1" "same_tables s s1" "nextinode s1 = nextinode s + 1"
    "nextb s1 = nextb s + ?d + blocks_for c"
    using writefile_ok [OF Cons.prems(1) _ _ c(3,2), of md5 mode] Cons.prems(3,4) by auto
  have l1: "?k + 1 \<le> 8 * length ds1" "8 * length ds1 < ?k + 1 + 8"
    using W(2) by (simp_all add: fmt_inv_def laid_out_def)
  have ds1: "length ds1 = length ds + ?d" using l l1 by auto
  have "nextb s1 + (T - length ds1) + R < nblocks s1"
    using room W(3,5) ds1 T by (simp add: same_tables_def)
  then have "\<exists>s' ds' bs'. fold_option (\<lambda>f. writefile md5 root_dir f (open_file f) 0 mode) names s1 = Some s'
    \<and> fmt_inv s' ((fs @ [(last_component f, c)]) @ map (\<lambda>f. (last_component f, the (open_file f))) names) ds' bs'
    \<and> same_tables s1 s' \<and> nextb s' < nblocks s'"
    by (intro Cons.IH [OF W(2)]) (use Cons.prems W(3,4) in \<open>auto simp: T_def R_def same_tables_def\<close>)
  then show ?case using W(1,3) c(1) by (auto simp: same_tables_def)
qed

section \<open>The beginning and the end\<close>

lemma clear_blocks_ok:
  "OSPFS_FREEMAP_BLK + nb + i + n \<le> nblocks s \<Longrightarrow>
     \<exists>m. for_upto (\<lambda>i s. map_option snd (get_block (OSPFS_FREEMAP_BLK + nb + i) True s)) i n s = Some (s\<lparr>img := m\<rparr>)
       \<and> (\<forall>a. a div 1024 < OSPFS_FREEMAP_BLK + nb + i \<longrightarrow> m a = img s a) \<and> (\<forall>a. img s a = 0 \<longrightarrow> m a = 0)"
proof (induction n arbitrary: i s)
  case 0
  then show ?case by (intro exI [of _ "img s"]) simp
next
  case (Suc n)
  define s1 where "s1 = s\<lparr>img := write_disk (OSPFS_FREEMAP_BLK + nb + i) (\<lambda>_. 0) (img s)\<rparr>"
  have "get_block (OSPFS_FREEMAP_BLK + nb + i) True s = Some ((OSPFS_FREEMAP_BLK + nb + i) * 1024, s1)"
    using Suc.prems by (simp add: get_block_ok s1_def)
  moreover obtain m where "for_upto (\<lambda>i s. map_option snd (get_block (OSPFS_FREEMAP_BLK + nb + i) True s)) (i + 1) n s1 = Some (s1\<lparr>img := m\<rparr>)"
    "\<forall>a. a div 1024 < OSPFS_FREEMAP_BLK + nb + (i + 1) \<longrightarrow> m a = img s1 a" "\<forall>a. img s1 a = 0 \<longrightarrow> m a = 0"
    using Suc.IH [of "i + 1" s1] Suc.prems by (auto simp: s1_def)
  ultimately show ?case by (intro exI [of _ m]) (auto simp: s1_def write_disk_def)
qed

lemma for_upto_1: "for_upto f i 1 s = f i s"
  by (simp add: One_nat_def split: option.split)

lemma opendisk_ok:
  assumes "0 < nb" "nb \<le> 8192" "3 + (ni + 15) div 16 \<le> nb"
  obtains m where "opendisk nb ni False = Some \<lparr>img = m, nblocks = nb, ninodes = ni, nbitblock = 1,
      nextb = 3 + (ni + 15) div 16, nextinode = 0, firstinob = 3, link_contents = False, hardlinks = []\<rparr>"
    "\<forall>a. 2048 \<le> a \<and> a < 3072 \<longrightarrow> m a = 0xFF" "\<forall>a \<ge> 3072. m a = 0"
proof -
  have n1: "(nb + 8192 - 1) div 8192 = 1" using assms(1,2) by (intro div_nat_eqI) simp_all
  define s1 where "s1 = \<lparr>img = mem_fill (\<lambda>_. 0) 2048 0xFF 1024, nblocks = nb, ninodes = ni, nbitblock = 1, nextb = 0,
    nextinode = 0, firstinob = 0, link_contents = False, hardlinks = []\<rparr>"
  have f: "for_upto fill_bitmap 0 1 \<lparr>img = (\<lambda>_. 0), nblocks = nb, ninodes = ni, nbitblock = 1, nextb = 0,
      nextinode = 0, firstinob = 0, link_contents = False, hardlinks = []\<rparr> = Some s1"
    using assms(3) by (simp add: for_upto_1 fill_bitmap_def get_block_ok s1_def)
  obtain m where m: "for_upto (\<lambda>i s. map_option snd (get_block (OSPFS_FREEMAP_BLK + 1 + i) True s)) 0 ((ni + 15) div 16) s1
      = Some (s1\<lparr>img := m\<rparr>)" "\<forall>a. a div 1024 < 3 \<longrightarrow> m a = img s1 a" "\<forall>a. img s1 a = 0 \<longrightarrow> m a = 0"
    using clear_blocks_ok [of 1 0 "(ni + 15) div 16" s1] assms(3) by (auto simp: s1_def)
  have n2: "ni + 16 - 1 = ni + 15" by simp
  have "opendisk nb ni False = Some (s1\<lparr>img := m, nextb := 3 + (ni + 15) div 16, nextinode := 0, firstinob := 3\<rparr>)"
    unfolding opendisk_def Let_def n1 n2 using f m(1) by simp
  moreover have "\<forall>a. 2048 \<le> a \<and> a < 3072 \<longrightarrow> m a = 0xFF"
    using m(2) by (auto simp: s1_def mem_fill_def)
  moreover have "\<forall>a \<ge> 3072. m a = 0" using m(3) by (auto simp: s1_def mem_fill_def)
  ultimately show thesis using that by (simp add: s1_def)
qed

lemma first_state_ok:
  assumes "nb \<le> 8192" "2 \<le> ni" "3 + (ni + 15) div 16 < nb"
  obtains s1 s where "opendisk nb ni False = Some s1" "root_inode s1 = Some (root_dir, s)" "fmt_inv s [] [] []"
    "nblocks s = nb" "ninodes s = ni" "nextb s = 3 + (ni + 15) div 16" "nextinode s = 2"
proof -
  have le: "3 + (ni + 15) div 16 \<le> nb" "0 < nb" using assms(3) by simp_all
  obtain m where m: "opendisk nb ni False = Some \<lparr>img = m, nblocks = nb, ninodes = ni, nbitblock = 1,
      nextb = 3 + (ni + 15) div 16, nextinode = 0, firstinob = 3, link_contents = False, hardlinks = []\<rparr>" (is "_ = Some ?s0")
    "\<forall>a. 2048 \<le> a \<and> a < 3072 \<longrightarrow> m a = 0xFF" "\<forall>a \<ge> 3072. m a = 0"
    by (rule opendisk_ok [OF le(2) assms(1) le(1)]) (rule that; assumption)
  define s1 where "s1 = store32 3080 1 (?s0\<lparr>nextinode := 1\<rparr>)"
  define s where "s = store32 (root_dir + 12) 0x1FF (store32 (root_dir + 8) 1 (store32 (root_dir + 4) 1 (s1\<lparr>nextinode := 2\<rparr>)))"
  have ib: "inode_block i t = Some (inode_of i, t)" if "firstinob t = 3" "ninodes t = ni" "nblocks t = nb" "i < 2" for i t
    by (rule inode_block_ok(1)) (use that assms in \<open>simp_all add: data_first_def\<close>)
  have "skip_inodes ?s0 = Some s1"
    using assms(2) ib by (subst skip_inodes.simps, subst skip_inodes.simps) (simp add: allocinode_def s1_def)
  then have r: "root_inode ?s0 = Some (root_dir, s)"
    using assms(2) ib by (simp add: root_inode_def allocinode_def s1_def s_def Let_def)
  have z: "rd32 m a = 0" if "3072 \<le> a" for a using m(3) that by (simp add: rd32_def)
  have "dir_part (img s) []"
    by (simp add: dir_part_def s_def s1_def rd32_wr32_other z)
  moreover have "img s a = 0xFF" if "2048 \<le> a" "a < 3072" for a
    using that m(2) by (simp add: s_def s1_def wr32_apply_other)
  moreover have "laid_out s 0 [] []"
    using assms by (simp add: laid_out_def s_def s1_def data_first_def)
  ultimately have "fmt_inv s [] [] []" by (simp add: fmt_inv_def files_part_def)
  then show thesis by (rule that [OF m(1) r]) (simp_all add: s_def s1_def)
qed

lemma all_free:
  assumes "\<forall>a. 2048 \<le> a \<and> a < 3072 \<longrightarrow> m a = 0xFF" "j < 8192"
  shows "block_is_free m j"
proof -
  have "j div 32 < 256" using assms(2) by simp
  then have "rd32 m (2048 + 4 * (j div 32)) = rd32 (\<lambda>_. 0xFF) 0" using assms(1) by (simp add: rd32_def)
  moreover have "rd32 (\<lambda>_. 0xFF) 0 = 0xFFFFFFFF" by (simp add: rd32_def)
  moreover have "(0xFFFFFFFF :: u32) = mask 32" by (simp add: mask_eq_exp_minus_1)
  ultimately have "rd32 m (2048 + 4 * (j div 32)) = mask 32" by (simp only:)
  then show ?thesis by (simp only: bitvector_test_bit bit_mask_iff) simp
qed

section \<open>The image that the module reads\<close>

lemma dir_offsets_eq: "dir_offsets (128 * n) (128 * i) = map (\<lambda>j. 128 * j) [i..<n]"
proof (induction "n - i" arbitrary: i)
  case 0
  then show ?case by (subst dir_offsets.simps) simp
next
  case (Suc d)
  then have "dir_offsets (128 * n) (128 * (i + 1)) = map (\<lambda>j. 128 * j) [i + 1..<n]" by (intro Suc.hyps(1)) simp
  moreover have "i < n" "128 * i + 128 = 128 * (i + 1)" using Suc.hyps(2) by simp_all
  ultimately show ?case by (subst dir_offsets.simps) (simp only: upt_conv_Cons list.map, simp)
qed

text \<open>A finished image with what the formatter has collected.\<close>

definition image_of :: "mem \<Rightarrow> format_state \<Rightarrow> (u8 list \<times> u8 list) list \<Rightarrow> nat list \<Rightarrow> nat list list \<Rightarrow> bool" where
  "image_of m s fs ds bs \<longleftrightarrow> fmt_inv s fs ds bs \<and> (\<forall>a \<ge> 3072. m a = img s a)
     \<and> os_nblocks m = of_nat (nblocks s) \<and> os_ninodes m = of_nat (ninodes s) \<and> os_firstinob m = of_nat (firstinob s)
     \<and> (\<forall>j < nblocks s. block_is_free m j \<longleftrightarrow> nextb s \<le> j) \<and> length fs \<le> 80"

lemma image_laid_out:
  assumes "image_of m s fs ds bs"
  shows "nblocks s \<le> 8192" "firstinob s = 3" "2 + length fs \<le> ninodes s" "data_first s \<le> nextb s" "nextb s \<le> nblocks s"
    "length ds \<le> 10" "length fs \<le> 8 * length ds" "ninodes s < 131072" "length bs = length fs"
    "\<forall>b \<in> set (ds @ concat bs). data_first s \<le> b \<and> b < nextb s" "distinct (ds @ concat bs)"
    "b \<in> set ds \<or> (\<exists>j < length fs. b \<in> set (bs ! j)) \<Longrightarrow> 4 \<le> b \<and> b < nextb s"
proof -
  have "laid_out s (length fs) ds bs" using assms by (simp add: image_of_def fmt_inv_def)
  then show B: "nblocks s \<le> 8192" "firstinob s = 3" "2 + length fs \<le> ninodes s" "data_first s \<le> nextb s" "nextb s \<le> nblocks s"
    "length ds \<le> 10" "length fs \<le> 8 * length ds" "length bs = length fs"
    "\<forall>b \<in> set (ds @ concat bs). data_first s \<le> b \<and> b < nextb s" "distinct (ds @ concat bs)"
    by (simp_all add: laid_out_def)
  have "(ninodes s + 15) div 16 < 8192" using B(1,4,5) by (simp add: data_first_def)
  then show "ninodes s < 131072" by simp
  have four: "4 \<le> data_first s" using B(3) by (simp add: data_first_def)
  show "b \<in> set ds \<or> (\<exists>j < length fs. b \<in> set (bs ! j)) \<Longrightarrow> 4 \<le> b \<and> b < nextb s"
  proof -
    assume "b \<in> set ds \<or> (\<exists>j < length fs. b \<in> set (bs ! j))"
    then have "b \<in> set (ds @ concat bs)" using B(8) by auto
    then have "data_first s \<le> b \<and> b < nextb s" using B(9) by blast
    then show ?thesis using four by linarith
  qed
qed

lemma image_super:
  assumes "image_of m s fs ds bs"
  shows "unat (os_nblocks m) = nblocks s" "unat (os_ninodes m) = ninodes s" "os_firstinob m = 3" "data_start m = data_first s"
proof -
  note B = image_laid_out [OF assms]
  show u: "unat (os_nblocks m) = nblocks s" "unat (os_ninodes m) = ninodes s" "os_firstinob m = 3"
    using assms B(1,2,8) by (simp_all add: image_of_def)
  show "data_start m = data_first s" unfolding data_start_def u data_first_def by simp
qed

lemma image_wf:
  assumes "image_of m s fs ds bs"
  shows "wf_disk m"
proof -
  note B = image_laid_out [OF assms] and S = image_super [OF assms]
  have "wf_layout m" using B S unfolding wf_layout_def by simp
  moreover have "\<not> block_is_free m i" if "i < data_start m" for i
    using assms that B S(4) by (simp add: image_of_def)
  ultimately show ?thesis by (simp add: wf_disk_def)
qed

lemma image_word: "image_of m s fs ds bs \<Longrightarrow> 3072 \<le> a \<Longrightarrow> rd32 m a = rd32 (img s) a"
  by (rule rd32_cong) (simp add: image_of_def)

lemma image_inode:
  assumes "image_of m s fs ds bs" "k < ninodes s"
  shows "ospfs_inode m (of_nat k) = Some (inode_of k)" "inode_addr m (inode_of k)"
proof -
  note S = image_super [OF assms(1)] and B = image_laid_out [OF assms(1)]
  have u: "unat (of_nat k :: u32) = k" using assms(2) B(8) by simp
  then have "\<not> os_ninodes m \<le> of_nat k" using assms(2) S(2) by (simp add: word_le_nat_alt)
  then show "ospfs_inode m (of_nat k) = Some (inode_of k)"
    using u S(3) by (simp add: ospfs_inode_def ospfs_block_def)
  show "inode_addr m (inode_of k)" unfolding inode_addr_def S(2,3) by (rule exI [of _ k]) (use assms(2) in simp)
qed

text \<open>A block list in the inode makes a file of the module.\<close>

lemma direct_fileI:
  assumes I: "image_of m s fs ds bs" and k: "k < ninodes s"
    and sz: "unat (oi_size m (inode_of k)) \<le> 10240" "nblk m (inode_of k) = length bl" and ft: "oi_ftype m (inode_of k) \<noteq> 2"
    and ptr: "\<forall>i < length bl. oi_direct m (inode_of k) i = of_nat (bl ! i)"
    and bl: "distinct bl" "\<forall>b \<in> set bl. data_first s \<le> b \<and> b < nextb s"
  shows "direct_file m (inode_of k)" "i < length bl \<Longrightarrow> unat (oi_direct m (inode_of k) i) = bl ! i"
proof -
  note S = image_super [OF I] and B = image_laid_out [OF I]
  have u: "unat (oi_direct m (inode_of k) i) = bl ! i" if "i < length bl" for i
  proof -
    have "bl ! i < nextb s" using bl(2) nth_mem [OF that] by blast
    then have "bl ! i < 4294967296" using B(1,5) by linarith
    then show ?thesis using ptr that by simp
  qed
  then show "i < length bl \<Longrightarrow> unat (oi_direct m (inode_of k) i) = bl ! i" .
  have p: "data_start m \<le> unat (oi_direct m (inode_of k) i) \<and> unat (oi_direct m (inode_of k) i) < unat (os_nblocks m)
      \<and> \<not> block_is_free m (unat (oi_direct m (inode_of k) i))" if "i < length bl" for i
  proof -
    have "data_first s \<le> bl ! i" "bl ! i < nextb s" using bl(2) nth_mem [OF that] by blast+
    then show ?thesis using I B(5) unfolding u [OF that] S by (simp add: image_of_def)
  qed
  have d: "oi_direct m (inode_of k) i \<noteq> oi_direct m (inode_of k) j" if "i < length bl" "j < length bl" "i \<noteq> j" for i j
    using u [OF that(1)] u [OF that(2)] bl(1) that by (metis nth_eq_iff_index_eq)
  show "direct_file m (inode_of k)"
    unfolding direct_file_def sz(2) using image_inode(2) [OF I k] sz(1) ft p d by blast
qed

lemma image_root:
  assumes I: "image_of m s fs ds bs"
  shows "ospfs_inode m 1 = Some root_dir" "dir_file m root_dir" "dir_entries m root_dir = map (slot ds) [0..<8 * length ds]"
proof -
  note B = image_laid_out [OF I]
  have one: "1 < ninodes s" using B(3) by simp
  show "ospfs_inode m 1 = Some root_dir" using image_inode(1) [OF I one] by simp
  have D: "dir_part (img s) ds" using I by (simp add: image_of_def fmt_inv_def)
  have f: "oi_size m root_dir = of_nat (1024 * length ds)" "oi_ftype m root_dir = 1"
    "\<forall>i < length ds. oi_direct m root_dir i = of_nat (ds ! i)"
    using D image_word [OF I] by (simp_all add: dir_part_def)
  have sz: "unat (oi_size m root_dir) = 1024 * length ds"
    unfolding f(1) by (rule unat_of_nat_u32) (use B(6) in simp)
  have nb: "nblk m root_dir = length ds" by (simp add: nblk_def sz)
  have df: "direct_file m root_dir" and u: "i < length ds \<Longrightarrow> unat (oi_direct m root_dir i) = ds ! i" for i
    using direct_fileI [OF I one, where bl = ds] sz nb f B(6,10,11) by (simp_all add: Ball_def)
  have "1024 * length ds = 128 * (8 * length ds)" by simp
  then show "dir_file m root_dir" using df sz by (simp add: dir_file_def)
  have "ospfs_inode_data m root_dir (of_nat (128 * j)) = slot ds j" if j: "j < 8 * length ds" for j
  proof -
    have lt: "128 * j < unat (oi_size m root_dir)" using j sz by simp
    have "unat (of_nat (128 * j) mod 1024 :: u32) = 128 * j mod 1024"
      unfolding unat_mod_distrib unat_of_nat_lt [OF lt] by simp
    then have "ospfs_inode_data m root_dir (of_nat (128 * j)) = direct_addr m root_dir (128 * j)"
      using direct_block_facts(2) [OF wf_disk_layout [OF image_wf [OF I]] df lt] by (simp add: ospfs_inode_data_def)
    moreover have "128 * j div 1024 = j div 8" "128 * j mod 1024 = 128 * (j mod 8)"
      using div_mult_mult1 [of 128 j 8] mult_mod_right [of 128 j 8] by simp_all
    moreover have "j div 8 < length ds" using j by simp
    ultimately show ?thesis using u by (simp add: direct_addr_def slot_def)
  qed
  moreover have "dir_offsets (1024 * length ds) 0 = map (\<lambda>j. 128 * j) [0..<8 * length ds]"
    using dir_offsets_eq [of "8 * length ds" 0] by simp
  ultimately show "dir_entries m root_dir = map (slot ds) [0..<8 * length ds]"
    by (simp add: dir_entries_def sz)
qed

lemma image_entry:
  assumes I: "image_of m s fs ds bs" and j: "j < 8 * length ds"
  shows "j < length fs \<Longrightarrow> entry_at m (slot ds j) (2 + j) (fst (fs ! j))" "length fs \<le> j \<Longrightarrow> rd32 m (slot ds j) = 0"
proof -
  note B = image_laid_out [OF I]
  have "\<forall>b \<in> set ds. 4 \<le> b \<and> b < nextb s" using B(12) by blast
  from slot_bounds(1) [OF j this] have hi: "4096 \<le> slot ds j" by simp
  have F: "files_part (img s) ds bs fs" "length fs \<le> j \<Longrightarrow> rd32 (img s) (slot ds j) = 0"
    using I j by (auto simp: image_of_def fmt_inv_def)
  show "entry_at m (slot ds j) (2 + j) (fst (fs ! j))" if "j < length fs"
    by (rule entry_at_cong [where m = "img s"]) (use I hi F(1) that in \<open>auto simp: image_of_def files_part_def\<close>)
  show "length fs \<le> j \<Longrightarrow> rd32 m (slot ds j) = 0" using F(2) image_word [OF I] hi by simp
qed

lemma entry_has_name:
  assumes "entry_at m e ino name" "0 \<notin> set name"
  shows "c_string_in m (e + 4) 124" "direntry_at m e = \<lparr>de_ino = of_nat ino, de_name = name\<rparr>"
proof -
  have E: "length name \<le> 123" "rd32 m e = of_nat ino" "\<forall>i < length name. m (e + 4 + i) = name ! i" "m (e + 4 + length name) = 0"
    using assms(1) by (simp_all add: entry_at_def)
  show "c_string_in m (e + 4) 124" using E(1,4) by (auto simp: c_string_in_def intro!: exI [of _ "length name"])
  have nz: "name ! i \<noteq> 0" if "i < length name" for i using assms(2) that by (metis nth_mem)
  have "takeWhile (\<lambda>c. c \<noteq> 0) (mem_read m (e + 4) 124) = mem_read m (e + 4) (length name)"
    by (rule takeWhile_mem_read) (use E nz in auto)
  also have "\<dots> = name" by (rule nth_equalityI) (use E(3) in simp_all)
  finally show "direntry_at m e = \<lparr>de_ino = of_nat ino, de_name = name\<rparr>" using E(2) by (simp add: direntry_at_def)
qed

lemma image_names:
  assumes I: "image_of m s fs ds bs" and nul: "\<forall>x \<in> set fs. 0 \<notin> set (fst x)"
  shows "names_terminated m root_dir"
proof -
  have "od_ino m (slot ds j) \<noteq> 0 \<longrightarrow> c_string_in m (slot ds j + 4) 124" if j: "j < 8 * length ds" for j
  proof (cases "j < length fs")
    case True
    then show ?thesis using entry_has_name(1) [OF image_entry(1) [OF I j True]] nul by auto
  qed (use image_entry(2) [OF I j] in simp)
  then show ?thesis by (auto simp: names_terminated_def image_root(3) [OF I])
qed

lemma image_lookup:
  assumes I: "image_of m s fs ds bs" and nul: "\<forall>x \<in> set fs. 0 \<notin> set (fst x)" and dist: "distinct (map fst fs)"
    and j: "j < length fs"
  shows "ospfs_dir_lookup True m 1 (fst (fs ! j)) = Some (Inr (Some \<lparr>li_ino = of_nat (2 + j),
      li_size = of_nat (length (snd (fs ! j))), li_mode = oi_mode m (inode_of (2 + j)) OR 0x8000, li_nlink = 1, li_ops = Reg_ops\<rparr>))"
    "ospfs_inode m (of_nat (2 + j)) = Some (inode_of (2 + j))" "direct_file m (inode_of (2 + j))"
    "file_bytes m (inode_of (2 + j)) 0 (length (snd (fs ! j))) = snd (fs ! j)"
proof -
  note B = image_laid_out [OF I]
  have kn: "2 + j < ninodes s" using B(3) j by simp
  let ?f = "inode_of (2 + j)" and ?c = "snd (fs ! j)" and ?name = "fst (fs ! j)"
  show inode: "ospfs_inode m (of_nat (2 + j)) = Some ?f" by (rule image_inode(1) [OF I kn])
  have j8: "j < 8 * length ds" using j B(7) by simp
  have F: "files_part (img s) ds bs fs" using I by (simp add: image_of_def fmt_inv_def)
  have bj: "bs ! j \<in> set bs" using j B(9) by simp
  have "file_at m ?f ?c (bs ! j)"
  proof (rule file_at_cong [where m = "img s"])
    show "\<forall>a. ?f \<le> a \<and> a < ?f + 64 \<longrightarrow> m a = img s a" using I by (simp add: image_of_def)
    show "\<forall>b \<in> set (bs ! j). \<forall>x < 1024. m (b * 1024 + x) = img s (b * 1024 + x)"
    proof (intro ballI allI impI)
      fix b x :: nat assume "b \<in> set (bs ! j)"
      then have "4 \<le> b \<and> b < nextb s" using j by (intro B(12)) blast
      then have "3 \<le> b" by simp
      then show "m (b * 1024 + x) = img s (b * 1024 + x)" using I by (simp add: image_of_def)
    qed
  qed (use F j in \<open>simp add: files_part_def\<close>)
  then have A: "length ?c \<le> 10240" "length (bs ! j) = blocks_for ?c" "oi_size m ?f = of_nat (length ?c)" "oi_ftype m ?f = 0"
    "oi_nlink m ?f = 1" "\<forall>i < length (bs ! j). oi_direct m ?f i = of_nat (bs ! j ! i)"
    "\<forall>p < length ?c. m (bs ! j ! (p div 1024) * 1024 + p mod 1024) = ?c ! p"
    by (simp_all add: file_at_def)
  have sz: "unat (oi_size m ?f) = length ?c" unfolding A(3) by (rule unat_of_nat_u32) (use A(1) in simp)
  have nb: "nblk m ?f = length (bs ! j)" unfolding nblk_def sz A(2) ..
  have d: "distinct (bs ! j)" "\<forall>b \<in> set (bs ! j). data_first s \<le> b \<and> b < nextb s"
    using B(10,11) bj by (auto simp: distinct_concat_iff)
  have "unat (oi_size m ?f) \<le> 10240" "oi_ftype m ?f \<noteq> 2" using sz A(1,4) by simp_all
  note DF = direct_fileI [OF I kn this(1) nb this(2) A(6) d]
  then show df: "direct_file m ?f" by blast
  have "file_byte m ?f p = ?c ! p" if p: "p < length ?c" for p
  proof -
    have "p div 1024 < length (bs ! j)" using p div_le_mono [of "p + 1024" "length ?c + 1023" 1024] A(2) by simp
    then have "direct_addr m ?f p = bs ! j ! (p div 1024) * 1024 + p mod 1024" using DF(2) by (simp add: direct_addr_def)
    then show ?thesis
      using file_byte_direct [OF wf_disk_layout [OF image_wf [OF I]] df, of p] p sz A(7) by simp
  qed
  then show "file_bytes m ?f 0 (length ?c) = ?c"
    by (intro nth_equalityI) (simp_all add: file_bytes_def)
  let ?li = "\<lparr>li_ino = of_nat (2 + j), li_size = of_nat (length ?c), li_mode = oi_mode m ?f OR 0x8000, li_nlink = 1, li_ops = Reg_ops\<rparr>"
  have mk: "ospfs_mk_linux_inode True m (of_nat (2 + j)) = Some (Some ?li)"
    using inode A(3-5) by (simp add: ospfs_mk_linux_inode_def)
  have named: "direntry_at m (slot ds i) = \<lparr>de_ino = of_nat (2 + i), de_name = fst (fs ! i)\<rparr>" if "i < length fs" for i
    using entry_has_name(2) [OF image_entry(1) [OF I _ that]] that B(7) nul by simp
  have "find (has_name m ?name) (dir_entries m root_dir) = Some (slot ds j)"
    unfolding image_root(3) [OF I]
  proof (rule find_map_upt [OF _ _ j8])
    show "\<forall>i < j. \<not> has_name m ?name (slot ds i)"
      using named dist j by (auto simp: distinct_conv_nth)
    have "(of_nat (2 + j) :: u32) \<noteq> 0"
      using j I by (subst of_nat_u32_eq_0_iff) (simp_all add: image_of_def)
    then show "has_name m ?name (slot ds j)" using named [OF j] by simp
  qed
  moreover have "od_ino m (slot ds j) = of_nat (2 + j)" using image_entry(1) [OF I j8 j] by (simp add: entry_at_def)
  moreover have "length ?name \<le> 123" using image_entry(1) [OF I j8 j] by (simp add: entry_at_def)
  ultimately show "ospfs_dir_lookup True m 1 ?name = Some (Inr (Some ?li))"
    using mk dir_lookup_from_eq [of m root_dir 0 True ?name] image_names [OF I nul] image_root(1) [OF I]
    by (simp add: ospfs_dir_lookup_def dir_entries_def names_terminated_def)
qed

section \<open>Formatting and looking up\<close>

lemma size_check:
  assumes "2 < nb" "nb \<le> 8192"
  shows "unat ((of_nat nb :: u32) - 2 - of_nat nb div 8192) = nb - 2 - nb div 8192"
proof -
  have K: "unat (8192 :: u32) = 8192" by simp
  have k: "nb div 8192 \<le> 1" "nb div 8192 \<le> nb - 2" using assms by auto
  have "(of_nat nb :: u32) div 8192 = of_nat (nb div 8192)"
    unfolding word_unat_eq_iff unat_div_distrib K using assms(2) k(1) by simp
  then have "(of_nat nb :: u32) - 2 - of_nat nb div 8192 = of_nat (nb - 2 - nb div 8192)"
    using assms(1) k(2) by (simp add: of_nat_diff)
  then show ?thesis using assms(2) by (simp only:) (rule unat_of_nat_u32, simp)
qed

lemma ospfsformat_image:
  assumes args: "strtol0 nb_arg = Some (int nb)" "strtol0 ni_arg = Some (int ni)" "2 \<le> ni" "nb \<le> 8192"
    and img: "img_name \<notin> {[45, 86], [45, 99], [45, 108]}" and fs: "files \<noteq> []" "hd files \<noteq> [45, 114]"
    and files: "\<forall>f \<in> set files. \<exists>c. open_file f = Some c \<and> length c \<le> 10240 \<and> length (last_component f) \<le> 123"
    and room: "length files \<le> 80" "2 + length files \<le> ni" "ni < nb - 2 - nb div 8192"
      "3 + (ni + 15) div 16 + (length files + 7) div 8 + sum_list (map (\<lambda>f. blocks_for (the (open_file f))) files) < nb"
  obtains m s2 ds bs where "ospfsformat md5 open_file open_dir (img_name # nb_arg # ni_arg # files) = Some m"
    "image_of m s2 (map (\<lambda>f. (last_component f, the (open_file f))) files) ds bs"
proof -
  have start: "3 + (ni + 15) div 16 < nb" using room(4) by simp
  obtain s1 s where S: "opendisk nb ni False = Some s1" "root_inode s1 = Some (root_dir, s)" "fmt_inv s [] [] []"
    "nblocks s = nb" "ninodes s = ni" "nextb s = 3 + (ni + 15) div 16" "nextinode s = 2"
    by (rule first_state_ok [OF args(4,3) start]) (rule that; assumption)
  let ?fs = "map (\<lambda>f. (last_component f, the (open_file f))) files"
  have "\<exists>s' ds' bs'. fold_option (\<lambda>f. writefile md5 root_dir f (open_file f) 0 0x1B6) files s = Some s'
    \<and> fmt_inv s' ([] @ ?fs) ds' bs' \<and> same_tables s s' \<and> nextb s' < nblocks s'"
    by (rule write_files_ok [OF S(3)]) (use files room S in auto)
  then obtain s2 ds bs where W: "fold_option (\<lambda>f. writefile md5 root_dir f (open_file f) 0 0x1B6) files s = Some s2"
    "fmt_inv s2 ?fs ds bs" "same_tables s s2" "nextb s2 < nblocks s2"
    by auto
  have T: "nblocks s2 = nb" "ninodes s2 = ni" "nbitblock s2 = 1" "\<forall>a. 2048 \<le> a \<and> a < 3072 \<longrightarrow> img s2 a = 0xFF"
    using W(2,3) S(4,5) by (simp_all add: same_tables_def fmt_inv_def laid_out_def)
  have "nblocks s2 \<le> 8192" "2 < nblocks s2" "nextb s2 \<le> nblocks s2" using T(1) W(4) args(4) start by simp_all
  then obtain s3 where F: "finishfs s2 = Some s3" "\<forall>a \<ge> 3072. img s3 a = img s2 a" "os_nblocks (img s3) = of_nat (nblocks s2)"
    "os_ninodes (img s3) = of_nat (ninodes s2)" "os_firstinob (img s3) = of_nat (firstinob s2)"
    "\<forall>j < nblocks s2. block_is_free (img s3) j \<longleftrightarrow> nextb s2 \<le> j \<and> block_is_free (img s2) j"
    by (rule finishfs_ok [OF _ T(3)]) (rule that; assumption)
  have free: "\<forall>j < nblocks s2. block_is_free (img s3) j \<longleftrightarrow> nextb s2 \<le> j"
    using F(6) all_free [OF T(4)] T(1) args(4) by simp
  have u: "unat (of_nat nb :: u32) = nb" "unat (of_nat ni :: u32) = ni" using args(4) room(3) by simp_all
  have "\<not> (of_nat nb :: u32) < 2" "\<not> (of_nat nb :: u32) > 8192" "\<not> (of_nat ni :: u32) < 2"
    using start args(3,4) u by (simp_all add: word_less_nat_alt)
  moreover have "\<not> (of_nat nb :: u32) - 2 - of_nat nb div 8192 \<le> of_nat ni"
    unfolding word_le_nat_alt u(2) using size_check [of nb] start args(4) room(3) by simp
  moreover have "write_arguments md5 open_file open_dir root_dir files s = Some s2"
    using fs W(1) by (cases files) (simp_all add: write_arguments_def)
  moreover have "options (img_name # nb_arg # ni_arg # files) \<lparr>contents_links = False, links = []\<rparr>
      = Some (\<lparr>contents_links = False, links = []\<rparr>, img_name # nb_arg # ni_arg # files)"
    using img by simp
  ultimately have "ospfsformat md5 open_file open_dir (img_name # nb_arg # ni_arg # files) = Some (img s3)"
    using S(1,2) F(1) args(1,2) u by (simp add: ospfsformat_def make_image_def Let_def)
  moreover have "image_of (img s3) s2 ?fs ds bs" using W(2) F(2-5) free room(1) by (simp add: image_of_def)
  ultimately show thesis by (rule that)
qed

text \<open>C3: Formatting a list of files makes an image that the file system module can use. When the
  names (the last components of the paths) are different and have at most 123 characters, the
  files have at most 10240 bytes each and there is room (at most 80 files, enough inodes, fewer
  blocks needed than there are), the program does not abort. The image satisfies the module's
  invariant, its root directory is well formed with terminated names, and for every file the
  module's lookup in the root directory finds an inode whose file has exactly the file's
  contents.\<close>

theorem format_then_lookup:
  assumes args: "strtol0 nb_arg = Some (int nb)" "strtol0 ni_arg = Some (int ni)" "2 \<le> ni" "nb \<le> 8192"
    and img: "img_name \<notin> {[45, 86], [45, 99], [45, 108]}" and fs: "files \<noteq> []" "hd files \<noteq> [45, 114]"
    and files: "\<forall>f \<in> set files. \<exists>c. open_file f = Some c \<and> length c \<le> 10240 \<and> length (last_component f) \<le> 123 \<and> 0 \<notin> set f"
    and names: "distinct (map last_component files)"
    and room: "length files \<le> 80" "2 + length files \<le> ni" "ni < nb - 2 - nb div 8192"
      "3 + (ni + 15) div 16 + (length files + 7) div 8 + sum_list (map (\<lambda>f. (length (the (open_file f)) + 1023) div 1024) files) < nb"
  shows "\<exists>m. ospfsformat md5 open_file open_dir (img_name # nb_arg # ni_arg # files) = Some m
    \<and> wf_disk m \<and> ospfs_inode m OSPFS_ROOT_INO = Some root_dir \<and> dir_file m root_dir \<and> names_terminated m root_dir
    \<and> (\<forall>f \<in> set files. \<exists>li oi. ospfs_dir_lookup True m OSPFS_ROOT_INO (last_component f) = Some (Inr (Some li))
         \<and> ospfs_inode m (li_ino li) = Some oi \<and> direct_file m oi \<and> li_size li = of_nat (length (the (open_file f)))
         \<and> file_bytes m oi 0 (length (the (open_file f))) = the (open_file f))"
proof -
  let ?fs = "map (\<lambda>f. (last_component f, the (open_file f))) files"
  have ok: "\<forall>f \<in> set files. \<exists>c. open_file f = Some c \<and> length c \<le> 10240 \<and> length (last_component f) \<le> 123" using files by blast
  obtain m s ds bs where run: "ospfsformat md5 open_file open_dir (img_name # nb_arg # ni_arg # files) = Some m"
    and I: "image_of m s ?fs ds bs"
    by (rule ospfsformat_image [OF args img fs ok room]) (rule that; assumption)
  have nul: "\<forall>x \<in> set ?fs. 0 \<notin> set (fst x)"
  proof
    fix x assume "x \<in> set ?fs"
    then obtain f where f: "f \<in> set files" "fst x = last_component f" by auto
    have "0 \<notin> set f" using files f(1) by blast
    moreover have "set (last_component f) \<subseteq> set f" using set_takeWhileD by (fastforce simp: last_component_def)
    ultimately show "0 \<notin> set (fst x)" using f(2) by auto
  qed
  have dist: "distinct (map fst ?fs)" using names by (simp add: comp_def)
  have "\<exists>li oi. ospfs_dir_lookup True m 1 (last_component f) = Some (Inr (Some li))
         \<and> ospfs_inode m (li_ino li) = Some oi \<and> direct_file m oi \<and> li_size li = of_nat (length (the (open_file f)))
         \<and> file_bytes m oi 0 (length (the (open_file f))) = the (open_file f)" if f: "f \<in> set files" for f
  proof -
    obtain j where j: "j < length ?fs" "files ! j = f" using f by (auto simp: in_set_conv_nth)
    then have e: "?fs ! j = (last_component f, the (open_file f))" by simp
    note K = image_lookup [OF I nul dist j(1), unfolded e fst_conv snd_conv]
    show ?thesis by (intro exI conjI, rule K(1)) (use K(2-4) in simp_all)
  qed
  then show ?thesis
    using run image_wf [OF I] image_root [OF I] image_names [OF I nul] by (intro exI [of _ m]) simp
qed

text \<open>C24: Every image that the formatter produces is well formed for the file system module, whatever
  the arguments are (files, a directory tree, hard and symbolic links): the superblock has the magic
  number, the layout of bitmap, inode table and data that it gives fits the disk, and no block before
  the data is marked free.\<close>

theorem format_well_formed:
  assumes "ospfsformat md5 open_file open_dir args = Some m"
  shows "wf_disk m \<and> rd32 m 1024 = 0x013101AE \<and> os_firstinob m = 3"
proof -
  obtain opts nb ni files where nb: "\<not> nb < 2" "\<not> nb > (8192 :: u32)" "\<not> ni < 2" "\<not> nb - 2 - nb div 8192 \<le> ni"
    and run: "make_image md5 open_file open_dir opts (unat nb) (unat ni) files = Some m"
    using assms by (auto simp: ospfsformat_def Let_def split: option.splits prod.splits list.splits if_splits)
  obtain s0 root s1 s2 s3 s4 where R: "opendisk (unat nb) (unat ni) (contents_links opts) = Some s0" "root_inode s0 = Some (root, s1)"
    "write_arguments md5 open_file open_dir root files s1 = Some s2"
    "fold_option (\<lambda>(source, destination). addsymlink root destination source 0) (links opts) s2 = Some s3"
    "finishfs s3 = Some s4" "m = img s4"
    using run by (auto simp: make_image_def split: bind_splits)
  have n: "0 < unat nb" "unat nb \<le> 8192" "2 \<le> unat ni" using nb(1-3) by (simp_all add: word_less_nat_alt not_less)
  note O = opendisk_counters [OF R(1) n]
  have "advances s0 s1" using root_inode_advances R(2) O by blast
  moreover have "advances s1 s2"
    by (rule write_arguments_advances [OF R(3)])
  moreover have "advances s2 s3" by (rule fold_option_advances [OF _ R(4)]) (auto dest: addsymlink_advances)
  ultimately have "advances s0 s3" using advances_trans by blast
  then have C: "nblocks s3 = unat nb" "ninodes s3 = unat ni" "nbitblock s3 = 1" "firstinob s3 = 3"
    "3 + (unat ni + 15) div 16 \<le> nextb s3" "nextb s3 \<le> nblocks s3"
    using O by (auto simp: advances_def)
  have "nblocks s3 \<le> 8192" "2 < nblocks s3" using C n by simp_all
  then obtain s' where F: "finishfs s3 = Some s'" "os_nblocks (img s') = of_nat (nblocks s3)" "os_ninodes (img s') = of_nat (ninodes s3)"
    "os_firstinob (img s') = of_nat (firstinob s3)" "rd32 (img s') 1024 = 0x013101AE"
    "\<forall>j < nblocks s3. block_is_free (img s') j \<longleftrightarrow> nextb s3 \<le> j \<and> block_is_free (img s3) j"
    using finishfs_ok [OF _ C(3) _ C(6)] by metis
  have m: "m = img s'" using F(1) R(5,6) by simp
  have u: "os_nblocks m = nb" "os_ninodes m = ni" "os_firstinob m = 3" using F(2-4) C(1,2,4) m by simp_all
  have d: "data_start m = 3 + (unat ni + 15) div 16" unfolding data_start_def u by simp
  have "wf_layout m" unfolding wf_layout_def d u using C n by simp
  moreover have "\<not> block_is_free m i" if "i < data_start m" for i
  proof -
    have "i < nextb s3" "i < nblocks s3" using that C(5,6) unfolding d by simp_all
    then show ?thesis using F(6) m by simp
  qed
  ultimately show ?thesis using F(5) m u(3) by (simp add: wf_disk_def)
qed

text \<open>One file \<open>/a\<close> with the contents \<open>hi\<close>, on a disk of 64 blocks and 16 inodes.\<close>

theorem format_then_lookup_witness:
  "\<exists>m li oi. ospfsformat (\<lambda>_. []) (\<lambda>_. Some [104, 105]) (\<lambda>_. None) [[100], [54, 52], [49, 54], [47, 97]] = Some m
    \<and> wf_disk m \<and> ospfs_dir_lookup True m 1 [97] = Some (Inr (Some li)) \<and> ospfs_inode m (li_ino li) = Some oi
    \<and> file_bytes m oi 0 2 = [104, 105]"
proof -
  have p: "strtol0 [54, 52] = Some (int 64)" "strtol0 [49, 54] = Some (int 16)"
    by (simp_all add: strtol0_def based_number_def number_def digit_value_def Let_def)
  have l: "last_component [47, 97] = [97]" by (simp add: last_component_def)
  show ?thesis
    using format_then_lookup [OF p, of "[100]" "[[47, 97]]" "\<lambda>_. Some [104, 105]" "\<lambda>_. []" "\<lambda>_. None"] l
    by (auto simp: numeral_2_eq_2)
qed

theorem format_well_formed_witness:
  "\<exists>m. ospfsformat (\<lambda>_. []) (\<lambda>_. Some [104, 105]) (\<lambda>_. None) [[100], [54, 52], [49, 54], [47, 97]] = Some m \<and> wf_disk m"
proof -
  have p: "strtol0 [54, 52] = Some (int 64)" "strtol0 [49, 54] = Some (int 16)"
    by (simp_all add: strtol0_def based_number_def number_def digit_value_def Let_def)
  obtain m s ds bs where m: "ospfsformat (\<lambda>_. []) (\<lambda>_. Some [104, 105]) (\<lambda>_. None) [[100], [54, 52], [49, 54], [47, 97]] = Some m"
    using ospfsformat_image [OF p, of "[100]" "[[47, 97]]" "\<lambda>_. Some [104, 105]" "\<lambda>_. []" "\<lambda>_. None"]
    by (auto simp: last_component_def)
  then show ?thesis using format_well_formed [OF m] by blast
qed

section \<open>Limits of the formatter\<close>

text \<open>The directories that are not entered.\<close>

lemma char_at_eq:
  assumes "0 \<notin> set p"
  shows "length n \<le> length p \<and> (\<forall>i < length p. char_at n i = p ! i) \<longleftrightarrow> n = p"
proof
  assume A: "length n \<le> length p \<and> (\<forall>i < length p. char_at n i = p ! i)"
  have "i < length n" if "i < length p" for i
  proof (rule ccontr)
    assume "\<not> i < length n"
    then have "char_at n i = 0" by (simp add: char_at_def)
    then have "p ! i = 0" using A that by simp
    then show False using assms nth_mem [OF that] by simp
  qed
  then have "length n = length p" using A by (metis less_irrefl linorder_neqE_nat not_le)
  then show "n = p" using A by (intro nth_equalityI) (auto simp: char_at_def)
qed (simp add: char_at_def)

lemma entered_iff:
  "entered n \<longleftrightarrow> n \<notin> {[46], [46, 46], [67, 86, 83], [46, 115, 118, 110], [46, 103, 105, 116]}"
proof -
  have e: "n = [46] \<longleftrightarrow> \<not> (length n > 1 \<or> char_at n 0 \<noteq> 46)"
    "n = [46, 46] \<longleftrightarrow> \<not> (length n > 2 \<or> char_at n 0 \<noteq> 46 \<or> char_at n 1 \<noteq> 46)"
    "n = [67, 86, 83] \<longleftrightarrow> \<not> (length n > 3 \<or> char_at n 0 \<noteq> 67 \<or> char_at n 1 \<noteq> 86 \<or> char_at n 2 \<noteq> 83)"
    "n = [46, 115, 118, 110] \<longleftrightarrow>
       \<not> (length n > 4 \<or> char_at n 0 \<noteq> 46 \<or> char_at n 1 \<noteq> 115 \<or> char_at n 2 \<noteq> 118 \<or> char_at n 3 \<noteq> 110)"
    "n = [46, 103, 105, 116] \<longleftrightarrow>
       \<not> (length n > 4 \<or> char_at n 0 \<noteq> 46 \<or> char_at n 1 \<noteq> 103 \<or> char_at n 2 \<noteq> 105 \<or> char_at n 3 \<noteq> 116)"
    by (subst char_at_eq [symmetric]; auto simp: All_less_Suc2 numeral_2_eq_2 numeral_3_eq_3)+
  show ?thesis unfolding entered_def insert_iff empty_iff e by blast
qed

text \<open>A name with more than 123 characters gives a null entry, which is then used.\<close>

lemma long_name_aborts:
  "length (last_component name) > OSPFS_MAXNAMELEN \<Longrightarrow> writefile md5 dirino name contents h mode s = None"
  by (cases contents) (simp_all add: writefile_def allocdirentry_def)

text \<open>A file that ends on a block boundary takes one more block than it needs.\<close>

lemma boundary_aborts:
  assumes "length bytes = 1024" "nextb s + 1 = nblocks s" "n < 10"
  shows "write_blocks f bytes n s = None"
proof -
  have "bytes \<noteq> []" using assms(1) by auto
  then show ?thesis
    using assms by (subst write_blocks.simps, subst write_blocks.simps) (simp add: get_block_def storeblk_def Let_def)
qed

text \<open>The source of \<open>-l SRC:DST\<close> is copied unchecked: its 53rd character goes to the next inode.\<close>

lemma long_symlink_overwrites_next_inode:
  assumes "addsymlink dirino name linkbuf 0 s = Some s'" "52 < length linkbuf"
  obtains sino where "(sino + 64) mod 64 = 0" "img s' (sino + 64) = linkbuf ! 52"
proof -
  obtain de t ino sino t' where a: "allocinode (Some de) t = Some (ino, sino, t')"
    and "\<exists>f v. img s' = wr32 (mem_write f (sino + 12) (linkbuf @ [0])) sino v"
    using assms(1)
    by (clarsimp simp: addsymlink_def Let_def split: bind_splits if_splits) (erule that, force simp: store32_def)
  then obtain f v where f: "img s' = wr32 (mem_write f (sino + 12) (linkbuf @ [0])) sino v" by blast
  have "sino mod 64 = 0"
    using a by (auto simp: allocinode_def inode_block_def get_block_def Let_def split: bind_splits if_splits)
  then have "(sino + 64) mod 64 = 0" by simp
  moreover have "img s' (sino + 64) = linkbuf ! 52"
    using assms(2) unfolding f by (simp add: wr32_apply_other mem_write_def nth_append)
  ultimately show thesis by (rule that)
qed

end
