(* ===== verification/Md5.thy ===== *)
theory Md5
  imports Prelude
begin

text \<open>
  The message digest MD5 as RFC 1321 defines it (first section), and the two implementations: that of
  the file system formatter (\<open>lab3/md5.c\<close>, for files with identical contents) and that of the peer
  (\<open>lab4/md5.c\<close>). A message is a list of bytes; the machine is little-endian.
\<close>

section \<open>RFC 1321\<close>

type_synonym regs = "u32 \<times> u32 \<times> u32 \<times> u32"

definition rfc_F :: "u32 \<Rightarrow> u32 \<Rightarrow> u32 \<Rightarrow> u32" where "rfc_F x y z = (x AND y) OR (NOT x AND z)"
definition rfc_G :: "u32 \<Rightarrow> u32 \<Rightarrow> u32 \<Rightarrow> u32" where "rfc_G x y z = (x AND z) OR (y AND NOT z)"
definition rfc_H :: "u32 \<Rightarrow> u32 \<Rightarrow> u32 \<Rightarrow> u32" where "rfc_H x y z = x XOR y XOR z"
definition rfc_I :: "u32 \<Rightarrow> u32 \<Rightarrow> u32 \<Rightarrow> u32" where "rfc_I x y z = y XOR (x OR NOT z)"

text \<open>The integer part of 4294967296 times the absolute value of the sine of \<open>i + 1\<close> radians.\<close>

definition rfc_T :: "u32 list" where
  "rfc_T =
    [0xd76aa478, 0xe8c7b756, 0x242070db, 0xc1bdceee, 0xf57c0faf, 0x4787c62a, 0xa8304613, 0xfd469501,
     0x698098d8, 0x8b44f7af, 0xffff5bb1, 0x895cd7be, 0x6b901122, 0xfd987193, 0xa679438e, 0x49b40821,
     0xf61e2562, 0xc040b340, 0x265e5a51, 0xe9b6c7aa, 0xd62f105d, 0x02441453, 0xd8a1e681, 0xe7d3fbc8,
     0x21e1cde6, 0xc33707d6, 0xf4d50d87, 0x455a14ed, 0xa9e3e905, 0xfcefa3f8, 0x676f02d9, 0x8d2a4c8a,
     0xfffa3942, 0x8771f681, 0x6d9d6122, 0xfde5380c, 0xa4beea44, 0x4bdecfa9, 0xf6bb4b60, 0xbebfbc70,
     0x289b7ec6, 0xeaa127fa, 0xd4ef3085, 0x04881d05, 0xd9d4d039, 0xe6db99e5, 0x1fa27cf8, 0xc4ac5665,
     0xf4292244, 0x432aff97, 0xab9423a7, 0xfc93a039, 0x655b59c3, 0x8f0ccc92, 0xffeff47d, 0x85845dd1,
     0x6fa87e4f, 0xfe2ce6e0, 0xa3014314, 0x4e0811a1, 0xf7537e82, 0xbd3af235, 0x2ad7d2bb, 0xeb86d391]"

definition rfc_fun :: "nat \<Rightarrow> u32 \<Rightarrow> u32 \<Rightarrow> u32 \<Rightarrow> u32" where
  "rfc_fun i = (if i < 16 then rfc_F else if i < 32 then rfc_G else if i < 48 then rfc_H else rfc_I)"

definition rfc_word :: "nat \<Rightarrow> nat" where
  "rfc_word i = (if i < 16 then i else if i < 32 then (5 * i + 1) mod 16 else if i < 48 then (3 * i + 5) mod 16
     else 7 * i mod 16)"

definition rfc_shift :: "nat \<Rightarrow> nat" where
  "rfc_shift i = [[7, 12, 17, 22], [5, 9, 14, 20], [4, 11, 16, 23], [6, 10, 15, 21]] ! (i div 16) ! (i mod 4)"

text \<open>One operation, \<open>a = b + ((a + f(b,c,d) + X[k] + T[i]) <<< s)\<close>, and the exchange of the roles of the registers.\<close>

definition rfc_op :: "(u32 \<Rightarrow> u32 \<Rightarrow> u32 \<Rightarrow> u32) \<Rightarrow> u32 \<Rightarrow> nat \<Rightarrow> u32 \<Rightarrow> regs \<Rightarrow> regs" where
  "rfc_op f x s t r = (case r of (a, b, c, d) \<Rightarrow> (d, b + word_rotl s (a + f b c d + x + t), b, c))"

definition rfc_step :: "u32 list \<Rightarrow> nat \<Rightarrow> regs \<Rightarrow> regs" where
  "rfc_step X i = rfc_op (rfc_fun i) (X ! rfc_word i) (rfc_shift i) (rfc_T ! i)"

definition add_regs :: "regs \<Rightarrow> regs \<Rightarrow> regs" where
  "add_regs r q = (case r of (a, b, c, d) \<Rightarrow> case q of (a', b', c', d') \<Rightarrow> (a + a', b + b', c + c', d + d'))"

definition words_of :: "u8 list \<Rightarrow> u32 list" where
  "words_of block = map (\<lambda>i. rd32 (\<lambda>a. block ! a) (4 * i)) [0..<16]"

definition rfc_block :: "regs \<Rightarrow> u8 list \<Rightarrow> regs" where
  "rfc_block r block = add_regs r (fold (rfc_step (words_of block)) [0..<64] r)"

text \<open>All whole blocks of a message.\<close>

function rfc_blocks :: "regs \<Rightarrow> u8 list \<Rightarrow> regs" where
  "rfc_blocks r msg = (if length msg < 64 then r else rfc_blocks (rfc_block r (take 64 msg)) (drop 64 msg))"
  by pat_completeness auto
termination
  by (relation "measure (\<lambda>(r, msg). length msg)") auto

declare rfc_blocks.simps [simp del]

definition rfc_init :: regs where
  "rfc_init = (0x67452301, 0xefcdab89, 0x98badcfe, 0x10325476)"

definition le_bytes :: "u32 \<Rightarrow> u8 list" where
  "le_bytes v = [ucast v, ucast (drop_bit 8 v), ucast (drop_bit 16 v), ucast (drop_bit 24 v)]"

text \<open>The length in bits, of which the low 64 bits are appended.\<close>

definition length_bytes :: "nat \<Rightarrow> u8 list" where
  "length_bytes n = le_bytes (of_nat (8 * n)) @ le_bytes (of_nat (8 * n div 2 ^ 32))"

definition rfc_pad :: "u8 list \<Rightarrow> u8 list" where
  "rfc_pad msg = msg @ 0x80 # replicate ((119 - length msg mod 64) mod 64) 0 @ length_bytes (length msg)"

definition digest_bytes :: "regs \<Rightarrow> u8 list" where
  "digest_bytes r = (case r of (a, b, c, d) \<Rightarrow> le_bytes a @ le_bytes b @ le_bytes c @ le_bytes d)"

definition rfc_md5 :: "u8 list \<Rightarrow> u8 list" where
  "rfc_md5 msg = digest_bytes (rfc_blocks rfc_init (rfc_pad msg))"

section \<open>The implementation of the formatter\<close>

record MD5_CONTEXT =
  regs :: regs
  md_nblocks :: u32
  md_buf :: "u8 list"
  md_count :: nat
  md_finalized :: bool

definition rol :: "u32 \<Rightarrow> nat \<Rightarrow> u32" where
  "rol x n = push_bit n x OR drop_bit (32 - n) x"

text \<open>\<open>md5_init\<close> leaves the buffer as it is.\<close>

definition md5_init :: "MD5_CONTEXT \<Rightarrow> MD5_CONTEXT" where
  "md5_init ctx = ctx\<lparr>regs := (0x67452301, 0xefcdab89, 0x98badcfe, 0x10325476), md_nblocks := 0, md_count := 0, md_finalized := False\<rparr>"

definition FF :: "u32 \<Rightarrow> u32 \<Rightarrow> u32 \<Rightarrow> u32" where "FF b c d = d XOR (b AND (c XOR d))"
definition FG :: "u32 \<Rightarrow> u32 \<Rightarrow> u32 \<Rightarrow> u32" where "FG b c d = FF d b c"
definition FH :: "u32 \<Rightarrow> u32 \<Rightarrow> u32 \<Rightarrow> u32" where "FH b c d = b XOR c XOR d"
definition FI :: "u32 \<Rightarrow> u32 \<Rightarrow> u32 \<Rightarrow> u32" where "FI b c d = c XOR (b OR NOT d)"

text \<open>
  The macro \<open>OP\<close>: the new value of its first register. The four definitions after it are the uses of
  the macro with \<open>A\<close>, \<open>D\<close>, \<open>C\<close> or \<open>B\<close> as first register, on the four local variables; \<open>X\<close> are the words
  of the block.
\<close>

definition OP :: "(u32 \<Rightarrow> u32 \<Rightarrow> u32 \<Rightarrow> u32) \<Rightarrow> u32 \<Rightarrow> u32 \<Rightarrow> u32 \<Rightarrow> u32 \<Rightarrow> u32 \<Rightarrow> nat \<Rightarrow> u32 \<Rightarrow> u32" where
  "OP f a b c d x s t = (let a = a + (f b c d + x + t); a = rol a s in a + b)"

type_synonym reg_stmt = "u32 list \<Rightarrow> regs \<Rightarrow> regs"

definition op_a :: "(u32 \<Rightarrow> u32 \<Rightarrow> u32 \<Rightarrow> u32) \<Rightarrow> nat \<Rightarrow> nat \<Rightarrow> u32 \<Rightarrow> reg_stmt" where
  "op_a f k s t X r = (case r of (a, b, c, d) \<Rightarrow> (OP f a b c d (X ! k) s t, b, c, d))"

definition op_d :: "(u32 \<Rightarrow> u32 \<Rightarrow> u32 \<Rightarrow> u32) \<Rightarrow> nat \<Rightarrow> nat \<Rightarrow> u32 \<Rightarrow> reg_stmt" where
  "op_d f k s t X r = (case r of (a, b, c, d) \<Rightarrow> (a, b, c, OP f d a b c (X ! k) s t))"

definition op_c :: "(u32 \<Rightarrow> u32 \<Rightarrow> u32 \<Rightarrow> u32) \<Rightarrow> nat \<Rightarrow> nat \<Rightarrow> u32 \<Rightarrow> reg_stmt" where
  "op_c f k s t X r = (case r of (a, b, c, d) \<Rightarrow> (a, b, OP f c d a b (X ! k) s t, d))"

definition op_b :: "(u32 \<Rightarrow> u32 \<Rightarrow> u32 \<Rightarrow> u32) \<Rightarrow> nat \<Rightarrow> nat \<Rightarrow> u32 \<Rightarrow> reg_stmt" where
  "op_b f k s t X r = (case r of (a, b, c, d) \<Rightarrow> (a, OP f b c d a (X ! k) s t, c, d))"

definition transform_ops :: "reg_stmt list" where
  "transform_ops =
    [op_a FF 0 7 0xd76aa478, op_d FF 1 12 0xe8c7b756, op_c FF 2 17 0x242070db, op_b FF 3 22 0xc1bdceee,
     op_a FF 4 7 0xf57c0faf, op_d FF 5 12 0x4787c62a, op_c FF 6 17 0xa8304613, op_b FF 7 22 0xfd469501,
     op_a FF 8 7 0x698098d8, op_d FF 9 12 0x8b44f7af, op_c FF 10 17 0xffff5bb1, op_b FF 11 22 0x895cd7be,
     op_a FF 12 7 0x6b901122, op_d FF 13 12 0xfd987193, op_c FF 14 17 0xa679438e, op_b FF 15 22 0x49b40821,
     op_a FG 1 5 0xf61e2562, op_d FG 6 9 0xc040b340, op_c FG 11 14 0x265e5a51, op_b FG 0 20 0xe9b6c7aa,
     op_a FG 5 5 0xd62f105d, op_d FG 10 9 0x02441453, op_c FG 15 14 0xd8a1e681, op_b FG 4 20 0xe7d3fbc8,
     op_a FG 9 5 0x21e1cde6, op_d FG 14 9 0xc33707d6, op_c FG 3 14 0xf4d50d87, op_b FG 8 20 0x455a14ed,
     op_a FG 13 5 0xa9e3e905, op_d FG 2 9 0xfcefa3f8, op_c FG 7 14 0x676f02d9, op_b FG 12 20 0x8d2a4c8a,
     op_a FH 5 4 0xfffa3942, op_d FH 8 11 0x8771f681, op_c FH 11 16 0x6d9d6122, op_b FH 14 23 0xfde5380c,
     op_a FH 1 4 0xa4beea44, op_d FH 4 11 0x4bdecfa9, op_c FH 7 16 0xf6bb4b60, op_b FH 10 23 0xbebfbc70,
     op_a FH 13 4 0x289b7ec6, op_d FH 0 11 0xeaa127fa, op_c FH 3 16 0xd4ef3085, op_b FH 6 23 0x04881d05,
     op_a FH 9 4 0xd9d4d039, op_d FH 12 11 0xe6db99e5, op_c FH 15 16 0x1fa27cf8, op_b FH 2 23 0xc4ac5665,
     op_a FI 0 6 0xf4292244, op_d FI 7 10 0x432aff97, op_c FI 14 15 0xab9423a7, op_b FI 5 21 0xfc93a039,
     op_a FI 12 6 0x655b59c3, op_d FI 3 10 0x8f0ccc92, op_c FI 10 15 0xffeff47d, op_b FI 1 21 0x85845dd1,
     op_a FI 8 6 0x6fa87e4f, op_d FI 15 10 0xfe2ce6e0, op_c FI 6 15 0xa3014314, op_b FI 13 21 0x4e0811a1,
     op_a FI 4 6 0xf7537e82, op_d FI 11 10 0xbd3af235, op_c FI 2 15 0x2ad7d2bb, op_b FI 9 21 0xeb86d391]"

definition transform :: "regs \<Rightarrow> u8 list \<Rightarrow> regs" where
  "transform r data = add_regs r (fold (\<lambda>f. f (words_of data)) transform_ops r)"

text \<open>\<open>md5_update\<close> without data: a full buffer is processed.\<close>

definition md5_flush :: "MD5_CONTEXT \<Rightarrow> MD5_CONTEXT" where
  "md5_flush ctx = (if md_count ctx = 64 then ctx\<lparr>regs := transform (regs ctx) (md_buf ctx), md_count := 0, md_nblocks := md_nblocks ctx + 1\<rparr> else ctx)"

text \<open>Bytes go to the buffer until it is full; the rest of the data is returned.\<close>

fun md5_fill :: "MD5_CONTEXT \<Rightarrow> u8 list \<Rightarrow> MD5_CONTEXT \<times> u8 list" where
  "md5_fill ctx [] = (ctx, [])"
| "md5_fill ctx (x # inbuf) =
     (if md_count ctx < 64 then md5_fill (ctx\<lparr>md_buf := (md_buf ctx)[md_count ctx := x], md_count := md_count ctx + 1\<rparr>) inbuf
      else (ctx, x # inbuf))"

function md5_whole :: "MD5_CONTEXT \<Rightarrow> u8 list \<Rightarrow> MD5_CONTEXT \<times> u8 list" where
  "md5_whole ctx inbuf =
     (if length inbuf \<ge> 64
      then md5_whole (ctx\<lparr>regs := transform (regs ctx) (take 64 inbuf), md_count := 0, md_nblocks := md_nblocks ctx + 1\<rparr>) (drop 64 inbuf)
      else (ctx, inbuf))"
  by pat_completeness auto
termination
  by (relation "measure (\<lambda>(ctx, inbuf). length inbuf)") auto

declare md5_whole.simps [simp del]

definition md5_update :: "MD5_CONTEXT \<Rightarrow> u8 list \<Rightarrow> MD5_CONTEXT" where
  "md5_update ctx inbuf =
     (let ctx = md5_flush ctx;
          r = (if md_count ctx \<noteq> 0 then (let (ctx, inbuf) = md5_fill ctx inbuf in (md5_flush ctx, inbuf)) else (ctx, inbuf))
      in if md_count ctx \<noteq> 0 \<and> snd r = [] then fst r
         else (let (ctx, inbuf) = md5_whole (fst r) (snd r) in fst (md5_fill ctx inbuf)))"

text \<open>The length in bits, \<open>(msb, lsb)\<close>.\<close>

definition bit_count :: "u32 \<Rightarrow> nat \<Rightarrow> u32 \<times> u32" where
  "bit_count n c =
     (let t = n;
          lsb = push_bit 6 t;
          msb = (if lsb < t then 1 else 0) + drop_bit 26 t;
          t = lsb;
          lsb = t + of_nat c;
          msb = (if lsb < t then msb + 1 else msb);
          t = lsb;
          lsb = push_bit 3 t;
          msb = (if lsb < t then msb + 1 else msb) + drop_bit 29 t
      in (msb, lsb))"

text \<open>The loop that fills the buffer with zeros up to an index.\<close>

definition pad_to :: "nat \<Rightarrow> MD5_CONTEXT \<Rightarrow> MD5_CONTEXT" where
  "pad_to n ctx = fst (md5_fill ctx (replicate (n - md_count ctx) 0))"

definition pad_context :: "MD5_CONTEXT \<Rightarrow> MD5_CONTEXT" where
  "pad_context ctx =
     (let first = fst (md5_fill ctx [0x80])
      in if md_count ctx < 56 then pad_to 56 first
         else (let ctx = md5_flush (pad_to 64 first) in ctx\<lparr>md_buf := replicate 56 0 @ drop 56 (md_buf ctx)\<rparr>))"

definition put_length :: "u32 \<Rightarrow> u32 \<Rightarrow> MD5_CONTEXT \<Rightarrow> MD5_CONTEXT" where
  "put_length msb lsb ctx =
     (let block = take 56 (md_buf ctx) @ le_bytes lsb @ le_bytes msb; r = transform (regs ctx) block
      in ctx\<lparr>regs := r, md_buf := digest_bytes r @ drop 16 block, md_finalized := True\<rparr>)"

definition do_final :: "MD5_CONTEXT \<Rightarrow> MD5_CONTEXT" where
  "do_final ctx =
     (let ctx = md5_flush ctx; (msb, lsb) = bit_count (md_nblocks ctx) (md_count ctx)
      in put_length msb lsb (pad_context ctx))"

definition md5_final :: "MD5_CONTEXT \<Rightarrow> u8 list" where
  "md5_final ctx = take 16 (md_buf (if md_finalized ctx then ctx else do_final ctx))"

section \<open>The implementation of the peer\<close>

record md5_state =
  count0 :: u32
  count1 :: u32
  abcd :: regs
  state_buf :: "u8 list"

definition T_MASK :: u32 where "T_MASK = NOT 0"

text \<open>\<open>T1\<close> to \<open>T64\<close>.\<close>

definition T :: "nat \<Rightarrow> u32" where
  "T i =
    [T_MASK XOR 0x28955b87, T_MASK XOR 0x173848a9, 0x242070db, T_MASK XOR 0x3e423111, T_MASK XOR 0x0a83f050,
     0x4787c62a, T_MASK XOR 0x57cfb9ec, T_MASK XOR 0x02b96afe, 0x698098d8, T_MASK XOR 0x74bb0850,
     T_MASK XOR 0x0000a44e, T_MASK XOR 0x76a32841, 0x6b901122, T_MASK XOR 0x02678e6c, T_MASK XOR 0x5986bc71,
     0x49b40821, T_MASK XOR 0x09e1da9d, T_MASK XOR 0x3fbf4cbf, 0x265e5a51, T_MASK XOR 0x16493855,
     T_MASK XOR 0x29d0efa2, 0x02441453, T_MASK XOR 0x275e197e, T_MASK XOR 0x182c0437, 0x21e1cde6,
     T_MASK XOR 0x3cc8f829, T_MASK XOR 0x0b2af278, 0x455a14ed, T_MASK XOR 0x561c16fa, T_MASK XOR 0x03105c07,
     0x676f02d9, T_MASK XOR 0x72d5b375, T_MASK XOR 0x0005c6bd, T_MASK XOR 0x788e097e, 0x6d9d6122,
     T_MASK XOR 0x021ac7f3, T_MASK XOR 0x5b4115bb, 0x4bdecfa9, T_MASK XOR 0x0944b49f, T_MASK XOR 0x4140438f,
     0x289b7ec6, T_MASK XOR 0x155ed805, T_MASK XOR 0x2b10cf7a, 0x04881d05, T_MASK XOR 0x262b2fc6,
     T_MASK XOR 0x1924661a, 0x1fa27cf8, T_MASK XOR 0x3b53a99a, T_MASK XOR 0x0bd6ddbb, 0x432aff97,
     T_MASK XOR 0x546bdc58, T_MASK XOR 0x036c5fc6, 0x655b59c3, T_MASK XOR 0x70f3336d, T_MASK XOR 0x00100b82,
     T_MASK XOR 0x7a7ba22e, 0x6fa87e4f, T_MASK XOR 0x01d3191f, T_MASK XOR 0x5cfebceb, 0x4e0811a1,
     T_MASK XOR 0x08ac817d, T_MASK XOR 0x42c50dca, 0x2ad7d2bb, T_MASK XOR 0x14792c6e] ! (i - 1)"

definition rotate_left :: "u32 \<Rightarrow> nat \<Rightarrow> u32" where
  "rotate_left x n = push_bit n x OR drop_bit (32 - n) x"

definition F :: "u32 \<Rightarrow> u32 \<Rightarrow> u32 \<Rightarrow> u32" where "F x y z = (x AND y) OR (NOT x AND z)"
definition G :: "u32 \<Rightarrow> u32 \<Rightarrow> u32 \<Rightarrow> u32" where "G x y z = (x AND z) OR (y AND NOT z)"
definition H :: "u32 \<Rightarrow> u32 \<Rightarrow> u32 \<Rightarrow> u32" where "H x y z = x XOR y XOR z"
definition I :: "u32 \<Rightarrow> u32 \<Rightarrow> u32 \<Rightarrow> u32" where "I x y z = y XOR (x OR NOT z)"

text \<open>The macro \<open>SET\<close> and its uses, as above.\<close>

definition SET :: "(u32 \<Rightarrow> u32 \<Rightarrow> u32 \<Rightarrow> u32) \<Rightarrow> u32 \<Rightarrow> u32 \<Rightarrow> u32 \<Rightarrow> u32 \<Rightarrow> u32 \<Rightarrow> nat \<Rightarrow> u32 \<Rightarrow> u32" where
  "SET f a b c d x s Ti = (let t = a + f b c d + x + Ti in rotate_left t s + b)"

definition set_a :: "(u32 \<Rightarrow> u32 \<Rightarrow> u32 \<Rightarrow> u32) \<Rightarrow> nat \<Rightarrow> nat \<Rightarrow> u32 \<Rightarrow> reg_stmt" where
  "set_a f k s t X r = (case r of (a, b, c, d) \<Rightarrow> (SET f a b c d (X ! k) s t, b, c, d))"

definition set_d :: "(u32 \<Rightarrow> u32 \<Rightarrow> u32 \<Rightarrow> u32) \<Rightarrow> nat \<Rightarrow> nat \<Rightarrow> u32 \<Rightarrow> reg_stmt" where
  "set_d f k s t X r = (case r of (a, b, c, d) \<Rightarrow> (a, b, c, SET f d a b c (X ! k) s t))"

definition set_c :: "(u32 \<Rightarrow> u32 \<Rightarrow> u32 \<Rightarrow> u32) \<Rightarrow> nat \<Rightarrow> nat \<Rightarrow> u32 \<Rightarrow> reg_stmt" where
  "set_c f k s t X r = (case r of (a, b, c, d) \<Rightarrow> (a, b, SET f c d a b (X ! k) s t, d))"

definition set_b :: "(u32 \<Rightarrow> u32 \<Rightarrow> u32 \<Rightarrow> u32) \<Rightarrow> nat \<Rightarrow> nat \<Rightarrow> u32 \<Rightarrow> reg_stmt" where
  "set_b f k s t X r = (case r of (a, b, c, d) \<Rightarrow> (a, SET f b c d a (X ! k) s t, c, d))"

definition md5_rounds :: "reg_stmt list" where
  "md5_rounds =
    [set_a F 0 7 (T 1), set_d F 1 12 (T 2), set_c F 2 17 (T 3), set_b F 3 22 (T 4),
     set_a F 4 7 (T 5), set_d F 5 12 (T 6), set_c F 6 17 (T 7), set_b F 7 22 (T 8),
     set_a F 8 7 (T 9), set_d F 9 12 (T 10), set_c F 10 17 (T 11), set_b F 11 22 (T 12),
     set_a F 12 7 (T 13), set_d F 13 12 (T 14), set_c F 14 17 (T 15), set_b F 15 22 (T 16),
     set_a G 1 5 (T 17), set_d G 6 9 (T 18), set_c G 11 14 (T 19), set_b G 0 20 (T 20),
     set_a G 5 5 (T 21), set_d G 10 9 (T 22), set_c G 15 14 (T 23), set_b G 4 20 (T 24),
     set_a G 9 5 (T 25), set_d G 14 9 (T 26), set_c G 3 14 (T 27), set_b G 8 20 (T 28),
     set_a G 13 5 (T 29), set_d G 2 9 (T 30), set_c G 7 14 (T 31), set_b G 12 20 (T 32),
     set_a H 5 4 (T 33), set_d H 8 11 (T 34), set_c H 11 16 (T 35), set_b H 14 23 (T 36),
     set_a H 1 4 (T 37), set_d H 4 11 (T 38), set_c H 7 16 (T 39), set_b H 10 23 (T 40),
     set_a H 13 4 (T 41), set_d H 0 11 (T 42), set_c H 3 16 (T 43), set_b H 6 23 (T 44),
     set_a H 9 4 (T 45), set_d H 12 11 (T 46), set_c H 15 16 (T 47), set_b H 2 23 (T 48),
     set_a I 0 6 (T 49), set_d I 7 10 (T 50), set_c I 14 15 (T 51), set_b I 5 21 (T 52),
     set_a I 12 6 (T 53), set_d I 3 10 (T 54), set_c I 10 15 (T 55), set_b I 1 21 (T 56),
     set_a I 8 6 (T 57), set_d I 15 10 (T 58), set_c I 6 15 (T 59), set_b I 13 21 (T 60),
     set_a I 4 6 (T 61), set_d I 11 10 (T 62), set_c I 2 15 (T 63), set_b I 9 21 (T 64)]"

definition md5_process :: "regs \<Rightarrow> u8 list \<Rightarrow> regs" where
  "md5_process r data = add_regs r (fold (\<lambda>f. f (words_of data)) md5_rounds r)"

definition md5_init_state :: "md5_state \<Rightarrow> md5_state" where
  "md5_init_state pms = pms\<lparr>count0 := 0, count1 := 0,
     abcd := (0x67452301, T_MASK XOR 0x10325476, T_MASK XOR 0x67452301, 0x10325476)\<rparr>"

text \<open>The loop over full blocks, and what is left of the data.\<close>

function md5_full :: "regs \<Rightarrow> u8 list \<Rightarrow> regs \<times> u8 list" where
  "md5_full r p = (if length p \<ge> 64 then md5_full (md5_process r (take 64 p)) (drop 64 p) else (r, p))"
  by pat_completeness auto
termination
  by (relation "measure (\<lambda>(r, p). length p)") auto

declare md5_full.simps [simp del]

definition update_length :: "nat \<Rightarrow> md5_state \<Rightarrow> md5_state" where
  "update_length nbytes pms =
     (let nbits = of_nat (8 * nbytes);
          c1 = count1 pms + of_nat (nbytes div 2 ^ 29);
          c0 = count0 pms + nbits
      in pms\<lparr>count0 := c0, count1 := (if c0 < nbits then c1 + 1 else c1)\<rparr>)"

text \<open>A copy into the buffer.\<close>

definition put_bytes :: "u8 list \<Rightarrow> nat \<Rightarrow> u8 list \<Rightarrow> u8 list" where
  "put_bytes b i data = take i b @ data @ drop (i + length data) b"

definition append_blocks :: "u8 list \<Rightarrow> md5_state \<Rightarrow> md5_state" where
  "append_blocks p pms =
     (let (r, left) = md5_full (abcd pms) p
      in pms\<lparr>abcd := r, state_buf := (if left \<noteq> [] then put_bytes (state_buf pms) 0 left else state_buf pms)\<rparr>)"

definition md5_append :: "md5_state \<Rightarrow> u8 list \<Rightarrow> md5_state" where
  "md5_append pms data =
     (let nbytes = length data;
          offset = unat (drop_bit 3 (count0 pms) AND 63)
      in if nbytes = 0 then pms
         else
           (let pms = update_length nbytes pms;
                copy = (if offset + nbytes > 64 then 64 - offset else nbytes);
                filled = pms\<lparr>state_buf := put_bytes (state_buf pms) offset (take copy data)\<rparr>
            in if offset = 0 then append_blocks data pms
               else if offset + copy < 64 then filled
               else append_blocks (drop copy data) (filled\<lparr>abcd := md5_process (abcd filled) (state_buf filled)\<rparr>)))"

definition md5_pad :: "u8 list" where
  "md5_pad = 0x80 # replicate 63 0"

definition md5_finish :: "md5_state \<Rightarrow> u8 list" where
  "md5_finish pms =
     (let data = le_bytes (count0 pms) @ le_bytes (count1 pms);
          pms = md5_append pms (take (unat ((55 - drop_bit 3 (count0 pms)) AND 63) + 1) md5_pad);
          pms = md5_append pms data
      in digest_bytes (abcd pms))"

section \<open>Digests as text\<close>

text \<open>
  The value at a bit of the digest, from the byte of that bit and the next one. Both programs mask
  it to the size of their alphabet.
\<close>

definition digest_value :: "u8 list \<Rightarrow> nat \<Rightarrow> nat" where
  "digest_value digest b =
     (let first_char = b div 8
      in unat (digest ! first_char) div 2 ^ (b mod 8)
         + (if b + 8 > (first_char + 1) * 8 \<and> first_char < 15 then unat (digest ! (first_char + 1)) * 2 ^ (8 - b mod 8) else 0))"

definition peer_chars :: string where
  "peer_chars = ''abcdefghijklmnopqrstuvwxyzABCDEFGHIJKLMNOPQRSTUVWXYZ0123456789_@''"

function finish_text_loop :: "bool \<Rightarrow> u8 list \<Rightarrow> nat \<Rightarrow> string" where
  "finish_text_loop allow_at digest b =
     (if b < 128
      then (if digest_value digest b mod 64 = 63 \<and> \<not> allow_at
            then peer_chars ! 31 # finish_text_loop allow_at digest (b + 5)
            else peer_chars ! (digest_value digest b mod 64) # finish_text_loop allow_at digest (b + 6))
      else [])"
  by pat_completeness auto
termination
  by (relation "measure (\<lambda>(a, d, b). 128 - b)") auto

declare finish_text_loop.simps [simp del]

definition md5_finish_text :: "md5_state \<Rightarrow> bool \<Rightarrow> string" where
  "md5_finish_text pms allow_at = finish_text_loop allow_at (md5_finish pms) 0"

definition formatter_chars :: string where
  "formatter_chars = ''abcdefghijklmnopqrstuvwxyz234567''"

text \<open>Without the terminating null character.\<close>

definition md5_final_text :: "MD5_CONTEXT \<Rightarrow> string" where
  "md5_final_text ctx =
     (let b = md_buf (if md_finalized ctx then ctx else do_final ctx)
      in map (\<lambda>i. formatter_chars ! (digest_value b (5 * i) mod 32)) [0..<26])"

end
