(* ===== verification/Md5Block.thy ===== *)
theory Md5Block
  imports Md5
begin

text \<open>
  One block: the 64 statements of each implementation are the 64 operations of the RFC, with the
  registers exchanged in place instead of moving round.
\<close>

section \<open>The functions of the rounds\<close>

lemma rotl_shifts: "n < 32 \<Longrightarrow> push_bit n x OR drop_bit (32 - n) x = word_rotl n (x :: u32)"
proof (rule bit_word_eqI)
  fix k assume A: "n < 32" "k < LENGTH(32)"
  show "bit (push_bit n x OR drop_bit (32 - n) x) k = bit (word_rotl n x) k"
  proof (cases "n \<le> k")
    case True
    then have "(k + (32 - n)) mod 32 = k - n" using A by (simp add: mod_if)
    then show ?thesis using A True by (auto simp: bit_simps bit_word_rotl_iff dest: bit_imp_le_length)
  next
    case False
    then show ?thesis using A by (auto simp: bit_simps bit_word_rotl_iff add.commute)
  qed
qed

lemma round_functions:
  "FF = rfc_F" "FG = rfc_G" "FH = rfc_H" "FI = rfc_I" "F = rfc_F" "G = rfc_G" "H = rfc_H" "I = rfc_I"
proof -
  have "d XOR (b AND (c XOR d)) = (b AND c) OR (NOT b AND d)" for b c d :: u32
    by (rule bit_word_eqI) (auto simp: bit_simps)
  then show "FF = rfc_F" "FG = rfc_G" "FH = rfc_H" "FI = rfc_I" "F = rfc_F" "G = rfc_G" "H = rfc_H" "I = rfc_I"
    by (simp_all add: fun_eq_iff FF_def FG_def FH_def FI_def F_def G_def H_def I_def
        rfc_F_def rfc_G_def rfc_H_def rfc_I_def and.commute)
qed

section \<open>Four statements\<close>

lemma OP_rotl: "s < 32 \<Longrightarrow> OP f a b c d x s t = b + word_rotl s (a + f b c d + x + t)"
  by (simp add: OP_def rol_def rotl_shifts add.commute add.left_commute)

lemma SET_rotl: "s < 32 \<Longrightarrow> SET f a b c d x s t = b + word_rotl s (a + f b c d + x + t)"
  by (simp add: SET_def rotate_left_def rotl_shifts add.commute)

text \<open>Four of them, for the registers \<open>A\<close>, \<open>D\<close>, \<open>C\<close> and \<open>B\<close>, bring every register back to its place.\<close>

lemma four_ops:
  assumes "s1 < 32" "s2 < 32" "s3 < 32" "s4 < 32"
  shows "fold (\<lambda>g. g X) (op_a f k1 s1 t1 # op_d f k2 s2 t2 # op_c f k3 s3 t3 # op_b f k4 s4 t4 # rest) r =
    fold (\<lambda>g. g X) rest (rfc_op f (X ! k4) s4 t4 (rfc_op f (X ! k3) s3 t3 (rfc_op f (X ! k2) s2 t2 (rfc_op f (X ! k1) s1 t1 r))))"
  by (cases r) (simp add: assms OP_rotl op_a_def op_b_def op_c_def op_d_def rfc_op_def)

lemma four_sets:
  assumes "s1 < 32" "s2 < 32" "s3 < 32" "s4 < 32"
  shows "fold (\<lambda>g. g X) (set_a f k1 s1 t1 # set_d f k2 s2 t2 # set_c f k3 s3 t3 # set_b f k4 s4 t4 # rest) r =
    fold (\<lambda>g. g X) rest (rfc_op f (X ! k4) s4 t4 (rfc_op f (X ! k3) s3 t3 (rfc_op f (X ! k2) s2 t2 (rfc_op f (X ! k1) s1 t1 r))))"
  by (cases r) (simp add: assms SET_rotl set_a_def set_b_def set_c_def set_d_def rfc_op_def)

section \<open>The tables\<close>

lemma steps_list:
  "[0..<64] = [0, 1, 2, 3, 4, 5, 6, 7, 8, 9, 10, 11, 12, 13, 14, 15, 16, 17, 18, 19, 20, 21, 22, 23, 24, 25, 26,
      27, 28, 29, 30, 31, 32, 33, 34, 35, 36, 37, 38, 39, 40, 41, 42, 43, 44, 45, 46, 47, 48, 49,
      50, 51, 52, 53, 54, 55, 56, 57, 58, 59, 60, 61, 62, 63]"
  by code_simp

lemma rfc_table:
  "map (\<lambda>i. (i, rfc_word i, rfc_shift i, rfc_T ! i)) [0..<64] =
     [(0, 0, 7, 0xd76aa478), (1, 1, 12, 0xe8c7b756), (2, 2, 17, 0x242070db), (3, 3, 22, 0xc1bdceee), (4, 4, 7,
      0xf57c0faf), (5, 5, 12, 0x4787c62a), (6, 6, 17, 0xa8304613), (7, 7, 22, 0xfd469501), (8, 8, 7,
      0x698098d8), (9, 9, 12, 0x8b44f7af), (10, 10, 17, 0xffff5bb1), (11, 11, 22, 0x895cd7be), (12, 12, 7,
      0x6b901122), (13, 13, 12, 0xfd987193), (14, 14, 17, 0xa679438e), (15, 15, 22, 0x49b40821), (16, 1, 5,
      0xf61e2562), (17, 6, 9, 0xc040b340), (18, 11, 14, 0x265e5a51), (19, 0, 20, 0xe9b6c7aa), (20, 5, 5,
      0xd62f105d), (21, 10, 9, 0x02441453), (22, 15, 14, 0xd8a1e681), (23, 4, 20, 0xe7d3fbc8), (24, 9, 5,
      0x21e1cde6), (25, 14, 9, 0xc33707d6), (26, 3, 14, 0xf4d50d87), (27, 8, 20, 0x455a14ed), (28, 13, 5,
      0xa9e3e905), (29, 2, 9, 0xfcefa3f8), (30, 7, 14, 0x676f02d9), (31, 12, 20, 0x8d2a4c8a), (32, 5, 4,
      0xfffa3942), (33, 8, 11, 0x8771f681), (34, 11, 16, 0x6d9d6122), (35, 14, 23, 0xfde5380c), (36, 1, 4,
      0xa4beea44), (37, 4, 11, 0x4bdecfa9), (38, 7, 16, 0xf6bb4b60), (39, 10, 23, 0xbebfbc70), (40, 13, 4,
      0x289b7ec6), (41, 0, 11, 0xeaa127fa), (42, 3, 16, 0xd4ef3085), (43, 6, 23, 0x04881d05), (44, 9, 4,
      0xd9d4d039), (45, 12, 11, 0xe6db99e5), (46, 15, 16, 0x1fa27cf8), (47, 2, 23, 0xc4ac5665), (48, 0, 6,
      0xf4292244), (49, 7, 10, 0x432aff97), (50, 14, 15, 0xab9423a7), (51, 5, 21, 0xfc93a039), (52, 12, 6,
      0x655b59c3), (53, 3, 10, 0x8f0ccc92), (54, 10, 15, 0xffeff47d), (55, 1, 21, 0x85845dd1), (56, 8, 6,
      0x6fa87e4f), (57, 15, 10, 0xfe2ce6e0), (58, 6, 15, 0xa3014314), (59, 13, 21, 0x4e0811a1), (60, 4, 6,
      0xf7537e82), (61, 11, 10, 0xbd3af235), (62, 2, 15, 0x2ad7d2bb), (63, 9, 21, 0xeb86d391)]"
  by (simp add: steps_list rfc_word_def rfc_shift_def rfc_T_def)

lemma T_rfc: "T i = rfc_T ! (i - 1)"
  unfolding T_def rfc_T_def by (rule arg_cong [where f = "\<lambda>l. l ! (i - 1)"]) (simp add: T_MASK_def)

lemma T_values:
  "T 1 = 0xd76aa478" "T 2 = 0xe8c7b756" "T 3 = 0x242070db" "T 4 = 0xc1bdceee" "T 5 = 0xf57c0faf" "T 6 = 0x4787c62a"
  "T 7 = 0xa8304613" "T 8 = 0xfd469501" "T 9 = 0x698098d8" "T 10 = 0x8b44f7af" "T 11 = 0xffff5bb1" "T 12 = 0x895cd7be"
  "T 13 = 0x6b901122" "T 14 = 0xfd987193" "T 15 = 0xa679438e" "T 16 = 0x49b40821" "T 17 = 0xf61e2562" "T 18 = 0xc040b340"
  "T 19 = 0x265e5a51" "T 20 = 0xe9b6c7aa" "T 21 = 0xd62f105d" "T 22 = 0x02441453" "T 23 = 0xd8a1e681" "T 24 = 0xe7d3fbc8"
  "T 25 = 0x21e1cde6" "T 26 = 0xc33707d6" "T 27 = 0xf4d50d87" "T 28 = 0x455a14ed" "T 29 = 0xa9e3e905" "T 30 = 0xfcefa3f8"
  "T 31 = 0x676f02d9" "T 32 = 0x8d2a4c8a" "T 33 = 0xfffa3942" "T 34 = 0x8771f681" "T 35 = 0x6d9d6122" "T 36 = 0xfde5380c"
  "T 37 = 0xa4beea44" "T 38 = 0x4bdecfa9" "T 39 = 0xf6bb4b60" "T 40 = 0xbebfbc70" "T 41 = 0x289b7ec6" "T 42 = 0xeaa127fa"
  "T 43 = 0xd4ef3085" "T 44 = 0x04881d05" "T 45 = 0xd9d4d039" "T 46 = 0xe6db99e5" "T 47 = 0x1fa27cf8" "T 48 = 0xc4ac5665"
  "T 49 = 0xf4292244" "T 50 = 0x432aff97" "T 51 = 0xab9423a7" "T 52 = 0xfc93a039" "T 53 = 0x655b59c3" "T 54 = 0x8f0ccc92"
  "T 55 = 0xffeff47d" "T 56 = 0x85845dd1" "T 57 = 0x6fa87e4f" "T 58 = 0xfe2ce6e0" "T 59 = 0xa3014314" "T 60 = 0x4e0811a1"
  "T 61 = 0xf7537e82" "T 62 = 0xbd3af235" "T 63 = 0x2ad7d2bb" "T 64 = 0xeb86d391"
  by (simp_all add: T_rfc rfc_T_def)

text \<open>The operations of the RFC, one after the other.\<close>

lemma rfc_chain:
  "fold (rfc_step X) [0..<64] r =
     fold (\<lambda>(i, k, s, t). rfc_op (rfc_fun i) (X ! k) s t) (map (\<lambda>i. (i, rfc_word i, rfc_shift i, rfc_T ! i)) [0..<64]) r"
proof -
  have "rfc_step X = (\<lambda>i. rfc_op (rfc_fun i) (X ! rfc_word i) (rfc_shift i) (rfc_T ! i))"
    by (simp add: fun_eq_iff rfc_step_def)
  then show ?thesis by (simp add: fold_map comp_def)
qed

lemma rfc_fun_cases:
  "i < 16 \<Longrightarrow> rfc_fun i = rfc_F" "16 \<le> i \<Longrightarrow> i < 32 \<Longrightarrow> rfc_fun i = rfc_G"
  "32 \<le> i \<Longrightarrow> i < 48 \<Longrightarrow> rfc_fun i = rfc_H" "48 \<le> i \<Longrightarrow> rfc_fun i = rfc_I"
  by (simp_all add: rfc_fun_def)

text \<open>The same with the functions and the tables written out.\<close>

lemmas rfc_chain_unfolded =
  rfc_chain [unfolded rfc_table, simplified fold_simps prod.case rfc_fun_cases]

lemma transform_is_rfc: "transform = rfc_block"
proof -
  have "fold (\<lambda>g. g X) transform_ops r = fold (rfc_step X) [0..<64] r" for X r
    unfolding rfc_chain_unfolded transform_ops_def
    by (simp add: four_ops round_functions del: fold_simps(2) fold.simps(2))
  then show ?thesis by (simp add: fun_eq_iff transform_def rfc_block_def)
qed

lemma md5_process_is_rfc: "md5_process = rfc_block"
proof -
  have "fold (\<lambda>g. g X) md5_rounds r = fold (rfc_step X) [0..<64] r" for X r
    unfolding rfc_chain_unfolded md5_rounds_def T_values
    by (simp add: four_sets round_functions del: fold_simps(2) fold.simps(2))
  then show ?thesis by (simp add: fun_eq_iff md5_process_def rfc_block_def)
qed

end
