(* ===== verification/Md5Props.thy ===== *)
theory Md5Props
  imports Md5Block
begin

text \<open>
  Messages: both implementations take a message in pieces of any size and compute the digest of the
  RFC. What they have in common is the locale \<open>message_digest\<close>, a state that holds a message.
\<close>

section \<open>Whole blocks and the rest\<close>

definition rest :: "u8 list \<Rightarrow> u8 list" where
  "rest msg = drop (64 * (length msg div 64)) msg"

lemma length_rest [simp]: "length (rest msg) = length msg mod 64"
  by (simp add: rest_def minus_mult_div_eq_mod)

lemma rest_short [simp]: "length msg < 64 \<Longrightarrow> rest msg = msg"
  by (simp add: rest_def)

lemma rest_step: "64 \<le> length msg \<Longrightarrow> rest (drop 64 msg) = rest msg"
  by (simp add: rest_def le_div_geq add.commute)

lemma blocks_short [simp]: "length msg < 64 \<Longrightarrow> rfc_blocks r msg = r"
  by (subst rfc_blocks.simps) simp

lemma blocks_step: "64 \<le> length msg \<Longrightarrow> rfc_blocks r msg = rfc_blocks (rfc_block r (take 64 msg)) (drop 64 msg)"
  by (subst rfc_blocks.simps) simp

lemma blocks_one: "length b = 64 \<Longrightarrow> rfc_blocks r (b @ msg) = rfc_blocks (rfc_block r b) msg"
  by (simp add: blocks_step)

text \<open>A message goes on where it was left: only the rest matters for what comes.\<close>

lemma blocks_append: "rfc_blocks r (msg @ data) = rfc_blocks (rfc_blocks r msg) (rest msg @ data)"
proof (induction r msg rule: rfc_blocks.induct)
  case (1 r msg)
  show ?case
  proof (cases "length msg < 64")
    case False
    then show ?thesis using 1 by (simp add: blocks_step [of msg] blocks_step [of "msg @ data"] rest_step)
  qed simp
qed

lemma rest_append: "rest (msg @ data) = rest (rest msg @ data)"
proof (induction "length msg" arbitrary: msg rule: less_induct)
  case less
  show ?case
  proof (cases "length msg < 64")
    case False
    then have "rest (drop 64 msg @ data) = rest (rest (drop 64 msg) @ data)" by (intro less) simp
    then show ?thesis using False rest_step [of "msg @ data"] by (simp add: rest_step)
  qed simp
qed

lemma md5_full_eq: "md5_full r p = (rfc_blocks r p, rest p)"
proof (induction r p rule: md5_full.induct)
  case (1 r p)
  then show ?case
    by (subst md5_full.simps) (auto simp: md5_process_is_rfc blocks_step rest_step not_le)
qed

section \<open>The contract\<close>

text \<open>
  \<open>holds s msg\<close>: the message \<open>msg\<close> has gone into the state \<open>s\<close>. The implementation is right for messages
  that \<open>fit\<close>.
\<close>

locale message_digest =
  fixes update :: "'s \<Rightarrow> u8 list \<Rightarrow> 's"
    and finish :: "'s \<Rightarrow> u8 list"
    and holds :: "'s \<Rightarrow> u8 list \<Rightarrow> bool"
    and fits :: "u8 list \<Rightarrow> bool"
  assumes update_holds: "holds s msg \<Longrightarrow> holds (update s data) (msg @ data)"
    and finish_digest: "holds s msg \<Longrightarrow> fits msg \<Longrightarrow> finish s = rfc_md5 msg"
begin

lemma updates_hold: "holds s msg \<Longrightarrow> holds (foldl update s chunks) (msg @ concat chunks)"
proof (induction chunks arbitrary: s msg)
  case (Cons c chunks)
  from Cons.IH [OF update_holds [OF Cons.prems]] show ?case by simp
qed simp

lemma digest_of_chunks: "holds s [] \<Longrightarrow> fits (concat chunks) \<Longrightarrow> finish (foldl update s chunks) = rfc_md5 (concat chunks)"
  using updates_hold [of s "[]" chunks] by (intro finish_digest) simp_all

end

section \<open>The peer\<close>

definition peer_holds :: "md5_state \<Rightarrow> u8 list \<Rightarrow> bool" where
  "peer_holds s msg \<longleftrightarrow> length (state_buf s) = 64
     \<and> count0 s = of_nat (8 * length msg) \<and> count1 s = of_nat (8 * length msg div 2 ^ 32)
     \<and> abcd s = rfc_blocks rfc_init msg \<and> take (length msg mod 64) (state_buf s) = rest msg"

lemma div_mod_two:
  assumes "(x :: nat) < N + N"
  shows "x div N = (if N \<le> x then 1 else 0)" "x mod N = (if N \<le> x then x - N else x)"
  using assms by (auto intro: div_nat_eqI simp: le_mod_geq)

lemma carry_u32: "(of_nat a + of_nat b < (of_nat b :: u32)) \<longleftrightarrow> 2 ^ 32 \<le> a mod 2 ^ 32 + b mod 2 ^ 32"
proof -
  define A B where "A = a mod 2 ^ 32" "B = b mod 2 ^ 32"
  have AB: "A < 2 ^ 32" "B < 2 ^ 32" by (simp_all add: A_B_def)
  have "unat (of_nat a + of_nat b :: u32) = (A + B) mod 2 ^ 32" "unat (of_nat b :: u32) = B"
    by (simp_all add: unat_word_ariths unat_of_nat A_B_def)
  moreover have "(A + B) mod 2 ^ 32 = (if 2 ^ 32 \<le> A + B then A + B - 2 ^ 32 else A + B)"
    using AB by (intro div_mod_two) linarith
  ultimately have "of_nat a + of_nat b < (of_nat b :: u32) \<longleftrightarrow> 2 ^ 32 \<le> A + B"
    unfolding word_less_nat_alt using AB by auto
  then show ?thesis by (simp only: A_B_def)
qed

lemma update_length_counts:
  assumes "count0 s = of_nat (8 * n)" "count1 s = of_nat (8 * n div 2 ^ 32)"
  shows "count0 (update_length k s) = of_nat (8 * (n + k))" "count1 (update_length k s) = of_nat (8 * (n + k) div 2 ^ 32)"
proof -
  show "count0 (update_length k s) = of_nat (8 * (n + k))"
    by (simp add: update_length_def Let_def assms(1) algebra_simps)
  have "(8 * n + 8 * k) div 2 ^ 32 = 8 * n div 2 ^ 32 + 8 * k div 2 ^ 32 + (8 * n mod 2 ^ 32 + 8 * k mod 2 ^ 32) div 2 ^ 32"
    by (rule div_add1_eq)
  moreover have "8 * k div 2 ^ 32 = k div 2 ^ 29" by simp
  moreover have "(8 * n mod 2 ^ 32 + 8 * k mod 2 ^ 32) div 2 ^ 32 = (if 2 ^ 32 \<le> 8 * n mod 2 ^ 32 + 8 * k mod 2 ^ 32 then 1 else 0)"
    by (rule div_mod_two) (intro add_strict_mono; simp)
  ultimately show "count1 (update_length k s) = of_nat (8 * (n + k) div 2 ^ 32)"
    unfolding update_length_def Let_def assms using carry_u32 [of "8 * n" "8 * k"]
    by (simp add: distrib_left)
qed

lemma update_length_other [simp]: "abcd (update_length k s) = abcd s" "state_buf (update_length k s) = state_buf s"
  by (simp_all add: update_length_def Let_def)

lemma unat_and_63: "unat ((x :: u32) AND 63) = unat x mod 64"
proof -
  have "x AND 63 = take_bit 6 x" by (simp add: take_bit_eq_mask mask_eq_exp_minus_1)
  then have "unat (x AND 63) = take_bit 6 (unat x)" by (simp only: unsigned_take_bit_eq)
  then show ?thesis by (simp add: take_bit_eq_mod)
qed

lemma unat_byte_length: "unat (drop_bit 3 (of_nat (8 * n) :: u32)) = n mod 2 ^ 29"
proof -
  have "unat (drop_bit 3 (of_nat (8 * n) :: u32)) = 8 * n mod 2 ^ 32 div 8"
    unfolding unat_shifted_down unat_of_nat by simp
  also have "8 * n mod 2 ^ 32 = 8 * (n mod 2 ^ 29)" using mult_mod_right [of 8 n "2 ^ 29"] by simp
  finally show ?thesis by simp
qed

lemma buffer_offset: "unat (drop_bit 3 (of_nat (8 * n) :: u32) AND 63) = n mod 64"
  unfolding unat_and_63 unat_byte_length by (simp add: mod_mod_cancel)

lemma append_blocks_holds:
  assumes "length (state_buf s) = 64"
  shows "abcd (append_blocks p s) = rfc_blocks (abcd s) p" "length (state_buf (append_blocks p s)) = 64"
    "take (length p mod 64) (state_buf (append_blocks p s)) = rest p"
    "count0 (append_blocks p s) = count0 s" "count1 (append_blocks p s) = count1 s"
proof -
  have n: "length (rest p) < 64" by simp
  then show "length (state_buf (append_blocks p s)) = 64"
    using assms(1) by (simp add: append_blocks_def md5_full_eq put_bytes_def del: length_rest)
  show "take (length p mod 64) (state_buf (append_blocks p s)) = rest p"
    using assms(1) unfolding length_rest [symmetric] by (simp add: append_blocks_def md5_full_eq put_bytes_def del: length_rest)
qed (simp_all add: append_blocks_def md5_full_eq)

lemma append_holds:
  assumes "peer_holds s msg"
  shows "peer_holds (md5_append s data) (msg @ data)"
proof (cases "data = []")
  case True
  then show ?thesis using assms by (simp add: md5_append_def)
next
  case False
  let ?u = "update_length (length data) s" and ?n = "length msg" and ?k = "length msg mod 64"
  note H = assms [unfolded peer_holds_def]
  have counts: "count0 ?u = of_nat (8 * length (msg @ data))" "count1 ?u = of_nat (8 * length (msg @ data) div 2 ^ 32)"
    using update_length_counts [of s ?n "length data"] H by simp_all
  have off: "unat (drop_bit 3 (count0 s) AND 63) = ?k" using H buffer_offset by simp
  have k: "?k < 64" by simp
  consider "?k = 0" | "0 < ?k" "?k + length data < 64" | "0 < ?k" "64 \<le> ?k + length data" by linarith
  then show ?thesis
  proof cases
    case 1
    then have "rest msg = []" using length_rest [of msg] by (simp del: length_rest)
    moreover have "md5_append s data = append_blocks data ?u" using False off 1 by (simp add: md5_append_def)
    moreover have "(?n + length data) mod 64 = length data mod 64" using 1 by (metis mod_add_left_eq add_0)
    ultimately show ?thesis
      using H counts append_blocks_holds [of ?u data] blocks_append [of rfc_init msg data] rest_append [of msg data]
      by (simp add: peer_holds_def)
  next
    case 2
    have "md5_append s data = ?u\<lparr>state_buf := put_bytes (state_buf s) ?k data\<rparr>"
      using False off 2 by (simp add: md5_append_def)
    moreover have "(?n + length data) mod 64 = ?k + length data" using 2(2) by (metis mod_add_left_eq mod_less)
    moreover have "take (?k + length data) (put_bytes (state_buf s) ?k data) = rest (msg @ data)"
      using H 2(2) rest_append [of msg data] by (simp add: put_bytes_def)
    ultimately show ?thesis
      using H counts 2(2) blocks_append [of rfc_init msg data] by (simp add: peer_holds_def put_bytes_def)
  next
    case 3
    have "length (rest msg @ take (64 - ?k) data) = 64" using 3 k by simp
    moreover have "put_bytes (state_buf s) ?k (take (64 - ?k) data) = rest msg @ take (64 - ?k) data"
      using H 3 k by (simp add: put_bytes_def)
    moreover have "md5_append s data = append_blocks (drop (64 - ?k) data)
        (?u\<lparr>state_buf := put_bytes (state_buf s) ?k (take (64 - ?k) data),
          abcd := md5_process (abcd s) (put_bytes (state_buf s) ?k (take (64 - ?k) data))\<rparr>)"
      using False off 3 k by (cases "?k + length data = 64") (simp_all add: md5_append_def Let_def)
    ultimately obtain p b where b: "rest msg @ data = b @ p" "length b = 64"
      and run: "md5_append s data = append_blocks p (?u\<lparr>state_buf := b, abcd := md5_process (abcd s) b\<rparr>)"
      by (metis append.assoc append_take_drop_id)
    have "rfc_blocks rfc_init (msg @ data) = rfc_blocks (rfc_block (abcd s) b) p"
      unfolding blocks_append [of rfc_init msg data] b(1) using H b(2) by (simp add: blocks_one)
    moreover have "rest (msg @ data) = rest p"
      unfolding rest_append [of msg data] b(1) using b(2) rest_step [of "b @ p"] by simp
    moreover have "length (msg @ data) mod 64 = length p mod 64"
    proof -
      have "length (msg @ data) mod 64 = length (rest msg @ data) mod 64" by (simp add: mod_add_left_eq)
      then show ?thesis unfolding b(1) using b(2) by simp
    qed
    ultimately show ?thesis
      unfolding peer_holds_def run using counts b(2) append_blocks_holds [of "?u\<lparr>state_buf := b, abcd := md5_process (abcd s) b\<rparr>" p]
      by (simp only: md5_process_is_rfc md5_state.simps md5_state.update_convs md5_state.select_convs) simp
  qed
qed

lemma length_le_bytes [simp]: "length (le_bytes v) = 4"
  by (simp add: le_bytes_def)

lemma length_digest_bytes [simp]: "length (digest_bytes r) = 16"
  by (simp add: digest_bytes_def split: prod.splits)

lemma length_length_bytes [simp]: "length (length_bytes n) = 8"
  by (simp add: length_bytes_def)

text \<open>The number of padding bytes.\<close>

lemma unat_55_minus: "unat (55 - (x :: u32)) = (55 + 2 ^ 32 - unat x) mod 2 ^ 32"
proof (cases "unat x \<le> 55")
  case True
  then have "(55 + 2 ^ 32 - unat x) mod 2 ^ 32 = 55 - unat x" by (simp add: le_mod_geq)
  then show ?thesis using True by (simp add: unat_sub_if')
next
  case False
  then have "(55 + 2 ^ 32 - unat x) mod 2 ^ 32 = 55 + 2 ^ 32 - unat x" using unat_u32_less [of x] by (intro mod_less) simp
  then show ?thesis using False by (simp add: unat_sub_if')
qed

lemma pad_count: "unat ((55 - drop_bit 3 (of_nat (8 * n) :: u32)) AND 63) = (119 - n mod 64) mod 64"
proof -
  let ?x = "drop_bit 3 (of_nat (8 * n) :: u32)"
  have x: "unat ?x < 2 ^ 29" "unat ?x mod 64 = n mod 64" unfolding unat_byte_length by (simp_all add: mod_mod_cancel)
  have "unat (55 - ?x) = (55 + 2 ^ 32 - unat ?x) mod 2 ^ 32" by (rule unat_55_minus)
  then have "unat (55 - ?x) mod 64 = (55 + 2 ^ 32 - unat ?x) mod 64" by (simp add: mod_mod_cancel)
  also have "\<dots> = (119 - n mod 64) mod 64"
  proof -
    define q r where "q = unat ?x div 64" "r = unat ?x mod 64"
    then have "unat ?x = 64 * q + r" "r < 64" "q < 2 ^ 23" using x(1) by auto
    then have "55 + 2 ^ 32 - unat ?x = 64 * (2 ^ 26 - 1 - q) + (119 - r)" by simp
    then have "(55 + 2 ^ 32 - unat ?x) mod 64 = (119 - r) mod 64" by (simp only: mod_mult_self4)
    then show ?thesis using x(2) \<open>r = unat ?x mod 64\<close> by (simp only:)
  qed
  finally show ?thesis unfolding unat_and_63 .
qed

lemma finish_rfc: "peer_holds s msg \<Longrightarrow> md5_finish s = rfc_md5 msg"
proof -
  assume H: "peer_holds s msg"
  let ?z = "(119 - length msg mod 64) mod 64"
  have c: "count0 s = of_nat (8 * length msg)" "count1 s = of_nat (8 * length msg div 2 ^ 32)"
    using H by (simp_all add: peer_holds_def)
  have "?z < 64" by simp
  then have pad: "take (?z + 1) md5_pad = 0x80 # replicate ?z 0" by (simp add: md5_pad_def)
  have "peer_holds (md5_append (md5_append s (take (?z + 1) md5_pad)) (length_bytes (length msg)))
      ((msg @ take (?z + 1) md5_pad) @ length_bytes (length msg))"
    by (intro append_holds H)
  then have "abcd (md5_append (md5_append s (take (?z + 1) md5_pad)) (length_bytes (length msg))) = rfc_blocks rfc_init (rfc_pad msg)"
    unfolding pad by (simp add: peer_holds_def rfc_pad_def)
  then show ?thesis
    unfolding md5_finish_def Let_def c pad_count length_bytes_def [symmetric] rfc_md5_def by simp
qed

lemma init_holds_peer: "length (state_buf s) = 64 \<Longrightarrow> peer_holds (md5_init_state s) []"
  by (simp add: peer_holds_def md5_init_state_def rfc_init_def T_MASK_def)

interpretation peer_md5: message_digest md5_append md5_finish peer_holds "\<lambda>_. True"
  by unfold_locales (auto intro: append_holds finish_rfc)

section \<open>The formatter\<close>

definition context_holds :: "MD5_CONTEXT \<Rightarrow> u8 list \<Rightarrow> bool" where
  "context_holds ctx msg \<longleftrightarrow> length (md_buf ctx) = 64 \<and> \<not> md_finalized ctx
     \<and> md_count ctx = length msg mod 64 \<and> md_nblocks ctx = of_nat (length msg div 64)
     \<and> regs ctx = rfc_blocks rfc_init msg \<and> take (length msg mod 64) (md_buf ctx) = rest msg"

lemma put_bytes_Cons: "i < length b \<Longrightarrow> put_bytes (b[i := x]) (i + 1) d = put_bytes b i (x # d)"
  by (simp add: put_bytes_def take_Suc_conv_app_nth)

lemma put_bytes_twice:
  "i + length d \<le> length b \<Longrightarrow> put_bytes (put_bytes b i d) (i + length d) e = put_bytes b i (d @ e)"
  by (simp add: put_bytes_def add.commute add.left_commute)

lemma take_put_bytes: "i + length d \<le> length b \<Longrightarrow> take (i + length d) (put_bytes b i d) = take i b @ d"
  by (simp add: put_bytes_def)

lemma md5_fill_eq:
  "length (md_buf ctx) = 64 \<Longrightarrow> md_count ctx \<le> 64 \<Longrightarrow>
    md5_fill ctx data = (ctx\<lparr>md_buf := put_bytes (md_buf ctx) (md_count ctx) (take (64 - md_count ctx) data),
       md_count := min 64 (md_count ctx + length data)\<rparr>, drop (64 - md_count ctx) data)"
proof (induction data arbitrary: ctx)
  case Nil
  then show ?case by (simp add: put_bytes_def)
next
  case (Cons x data)
  show ?case
  proof (cases "md_count ctx < 64")
    case True
    let ?c = "ctx\<lparr>md_buf := (md_buf ctx)[md_count ctx := x], md_count := md_count ctx + 1\<rparr>"
    have "take (64 - md_count ctx) (x # data) = x # take (64 - (md_count ctx + 1)) data"
      using True by (simp add: take_Cons')
    then have "put_bytes ((md_buf ctx)[md_count ctx := x]) (md_count ctx + 1) (take (64 - (md_count ctx + 1)) data)
        = put_bytes (md_buf ctx) (md_count ctx) (take (64 - md_count ctx) (x # data))"
      using True Cons.prems(1) by (simp only: put_bytes_Cons)
    moreover have "drop (64 - (md_count ctx + 1)) data = drop (64 - md_count ctx) (x # data)"
      using True by (simp add: drop_Cons')
    moreover have "md5_fill ?c data = (?c\<lparr>md_buf := put_bytes (md_buf ?c) (md_count ?c) (take (64 - md_count ?c) data),
       md_count := min 64 (md_count ?c + length data)\<rparr>, drop (64 - md_count ?c) data)"
      by (rule Cons.IH) (use True Cons.prems in simp_all)
    ultimately show ?thesis using True by simp
  next
    case False
    then show ?thesis using Cons.prems by (simp add: put_bytes_def)
  qed
qed

lemma md5_whole_eq:
  "md_count ctx = 0 \<Longrightarrow> md5_whole ctx p =
     (ctx\<lparr>regs := rfc_blocks (regs ctx) p, md_nblocks := md_nblocks ctx + of_nat (length p div 64)\<rparr>, rest p)"
proof (induction ctx p rule: md5_whole.induct)
  case (1 ctx p)
  show ?case
  proof (cases "64 \<le> length p")
    case True
    have n: "md_nblocks ctx + 1 + of_nat (length (drop 64 p) div 64) = md_nblocks ctx + of_nat (length p div 64)"
      using True by (simp add: le_div_geq)
    let ?c = "ctx\<lparr>regs := transform (regs ctx) (take 64 p), md_count := 0, md_nblocks := md_nblocks ctx + 1\<rparr>"
    have "md5_whole ctx p = md5_whole ?c (drop 64 p)" using True by (subst md5_whole.simps) simp
    also have "\<dots> = (?c\<lparr>regs := rfc_blocks (regs ?c) (drop 64 p), md_nblocks := md_nblocks ?c + of_nat (length (drop 64 p) div 64)\<rparr>,
        rest (drop 64 p))"
      by (rule 1) (use True in simp_all)
    finally show ?thesis using True n 1(2) by (simp add: blocks_step [of p] rest_step transform_is_rfc)
  next
    case False
    then show ?thesis by (subst md5_whole.simps) simp
  qed
qed

text \<open>A full buffer, and its processing.\<close>

lemma flush_idle [simp]: "md_count ctx < 64 \<Longrightarrow> md5_flush ctx = ctx"
  by (simp add: md5_flush_def)

lemma update_holds:
  assumes "context_holds ctx msg"
  shows "context_holds (md5_update ctx data) (msg @ data)"
proof -
  let ?k = "length msg mod 64" and ?n = "length msg"
  note H = assms [unfolded context_holds_def]
  have k: "?k < 64" by simp
  have idle: "md5_flush ctx = ctx" using H k by simp
  text \<open>The last two loops, from an empty buffer.\<close>
  have tail: "context_holds (let (c, p) = md5_whole c p in fst (md5_fill c p)) (msg @ data)"
    if c: "md_count c = 0" "length (md_buf c) = 64" "\<not> md_finalized c"
      and r: "rfc_blocks rfc_init (msg @ data) = rfc_blocks (regs c) p" "rest (msg @ data) = rest p"
      and n: "length (msg @ data) mod 64 = length p mod 64"
        "of_nat (length (msg @ data) div 64) = md_nblocks c + of_nat (length p div 64)" for c p
  proof -
    have "length (rest p) < 64" by simp
    then show ?thesis using c r n
      by (simp add: md5_whole_eq md5_fill_eq context_holds_def put_bytes_def)
  qed
  consider "?k = 0" | "0 < ?k" "?k + length data < 64" | "0 < ?k" "64 \<le> ?k + length data" by linarith
  then show ?thesis
  proof cases
    case 1
    then have r: "rest msg = []" "64 * (?n div 64) = ?n" using length_rest [of msg] by (auto simp del: length_rest)
    have "md5_update ctx data = (let (c, p) = md5_whole ctx data in fst (md5_fill c p))"
      using H 1 idle by (simp add: md5_update_def)
    moreover have "(?n + length data) mod 64 = length data mod 64" "(?n + length data) div 64 = ?n div 64 + length data div 64"
      using r(2) by (metis mod_mult_self4, metis div_mult_self4 zero_neq_numeral)
    ultimately show ?thesis
      using tail [of ctx data] H 1 r(1) blocks_append [of rfc_init msg data] rest_append [of msg data] by simp
  next
    case 2
    have "md5_update ctx data = ctx\<lparr>md_buf := put_bytes (md_buf ctx) ?k data, md_count := ?k + length data\<rparr>"
      using H 2 idle by (simp add: md5_update_def md5_fill_eq)
    moreover have "(?n + length data) mod 64 = ?k + length data" using 2(2) by (metis mod_add_left_eq mod_less)
    moreover have "(?n + length data) div 64 = ?n div 64"
    proof -
      have "?n + length data = 64 * (?n div 64) + (?k + length data)" by simp
      then show ?thesis using 2(2) by (metis div_mult_self4 div_less add.right_neutral zero_neq_numeral)
    qed
    ultimately show ?thesis
      using H 2(2) blocks_append [of rfc_init msg data] rest_append [of msg data]
      by (simp add: context_holds_def put_bytes_def)
  next
    case 3
    define b p where "b = rest msg @ take (64 - ?k) data" "p = drop (64 - ?k) data"
    have b: "rest msg @ data = b @ p" "length b = 64" using 3 k by (simp_all add: b_p_def)
    let ?c = "ctx\<lparr>md_buf := b, regs := transform (regs ctx) b, md_count := 0, md_nblocks := md_nblocks ctx + 1\<rparr>"
    have fill: "md5_fill ctx data = (ctx\<lparr>md_buf := b, md_count := 64\<rparr>, p)"
      using H 3 k by (simp add: md5_fill_eq put_bytes_def b_p_def min_def)
    have run: "md5_update ctx data = (if p = [] then ?c else (let (c, p) = md5_whole ?c p in fst (md5_fill c p)))"
      using H 3 idle fill by (simp add: md5_update_def md5_flush_def)
    have len: "?n + length data = 64 * (?n div 64 + 1) + length p"
      using 3 k by (simp add: b_p_def)
    have "context_holds (let (c, p) = md5_whole ?c p in fst (md5_fill c p)) (msg @ data)"
    proof (rule tail)
      show "rfc_blocks rfc_init (msg @ data) = rfc_blocks (regs ?c) p"
        unfolding blocks_append [of rfc_init msg data] b(1) using H b(2) by (simp add: blocks_one transform_is_rfc)
      show "rest (msg @ data) = rest p"
        unfolding rest_append [of msg data] b(1) using b(2) rest_step [of "b @ p"] by simp
      show "length (msg @ data) mod 64 = length p mod 64" unfolding length_append len by (simp only: mod_mult_self4)
      have "(?n + length data) div 64 = ?n div 64 + 1 + length p div 64" unfolding len by simp
      then show "of_nat (length (msg @ data) div 64) = md_nblocks ?c + of_nat (length p div 64)" using H by simp
    qed (use H b(2) in simp_all)
    moreover have "(let (c, p) = md5_whole ?c [] in fst (md5_fill c p)) = ?c" by (simp add: md5_whole_eq)
    ultimately show ?thesis unfolding run by (cases "p = []") auto
  qed
qed

text \<open>The length field is right below 512 MB.\<close>

lemma bit_count_ok:
  assumes "64 * unat n + c < 2 ^ 29"
  shows "bit_count n c = (0, of_nat (8 * (64 * unat n + c)))"
proof -
  define t where "t = push_bit 6 n"
  have t: "t = of_nat (64 * unat n)" "unat t = 64 * unat n" "unat n \<le> unat t"
    using assms unat_u32_mult_const [of n 64] by (simp_all add: t_def push_bit_eq_mult mult.commute)
  define u where "u = t + of_nat c"
  have u: "unat u = 64 * unat n + c" using t(2) assms by (simp add: u_def unat_add_u32)
  define v where "v = push_bit 3 u"
  have v: "unat v = 8 * (64 * unat n + c)" using u assms unat_u32_mult_const [of u 8] by (simp add: v_def push_bit_eq_mult)
  have "drop_bit 26 n = 0" "drop_bit 29 u = 0"
    using assms u by (simp_all add: unat_shifted_down flip: unat_eq_0)
  moreover have "\<not> t < n" "\<not> u < t" "\<not> v < u" using t u v by (simp_all add: word_less_nat_alt)
  moreover have "v = of_nat (8 * (64 * unat n + c))" unfolding v [symmetric] by simp
  ultimately show ?thesis by (simp add: bit_count_def Let_def t_def [symmetric] u_def [symmetric] v_def [symmetric])
qed

text \<open>From 512 MB on it is not: the carry is added twice.\<close>

lemma bit_count_wrong: "bit_count 0x800000 0 = (2, 0)" "length_bytes (2 ^ 29) = le_bytes 0 @ le_bytes 1"
proof -
  have "(of_nat (8 * 2 ^ 29) :: u32) = 0" by (subst word_of_nat_eq_0_iff) simp
  then show "length_bytes (2 ^ 29) = le_bytes 0 @ le_bytes 1" unfolding length_bytes_def by (simp only:) simp
qed (simp add: bit_count_def)

lemma final_regs:
  assumes "context_holds ctx msg" "length msg < 2 ^ 29"
  shows "regs (do_final ctx) = rfc_blocks rfc_init (rfc_pad msg)"
proof -
  let ?k = "length msg mod 64"
  note H = assms(1) [unfolded context_holds_def]
  have k: "?k < 64" by simp
  have idle: "md5_flush ctx = ctx" using H k by simp
  have "length msg = 64 * (length msg div 64) + ?k" by simp
  moreover have "unat (md_nblocks ctx) = length msg div 64" using H assms(2) by simp
  ultimately have bits: "bit_count (md_nblocks ctx) (md_count ctx) = (0, of_nat (8 * length msg))"
    using bit_count_ok [of "md_nblocks ctx" ?k] H assms(2) by simp
  have len: "length_bytes (length msg) = le_bytes (of_nat (8 * length msg)) @ le_bytes 0"
    using assms(2) by (simp add: length_bytes_def)
  have pad: "rfc_blocks rfc_init (rfc_pad msg) = rfc_blocks (regs ctx) (rest msg @ 0x80 # replicate ((119 - ?k) mod 64) 0 @ length_bytes (length msg))"
    using H blocks_append [of rfc_init msg] by (simp add: rfc_pad_def)
  have first: "fst (md5_fill ctx [0x80]) = ctx\<lparr>md_buf := put_bytes (md_buf ctx) ?k [0x80], md_count := ?k + 1\<rparr>"
    using H k by (simp add: md5_fill_eq min_def del: md5_fill.simps)
  have padded: "pad_to n (fst (md5_fill ctx [0x80])) =
      ctx\<lparr>md_buf := put_bytes (md_buf ctx) ?k (0x80 # replicate (n - (?k + 1)) 0), md_count := n\<rparr>"
    if n: "?k < n" "n \<le> 64" for n
  proof -
    have "?k + length [0x80 :: u8] \<le> length (md_buf ctx)" using H by (simp add: Suc_le_eq)
    from put_bytes_twice [OF this]
    have "put_bytes (put_bytes (md_buf ctx) ?k [0x80]) (?k + 1) (replicate (n - (?k + 1)) 0)
        = put_bytes (md_buf ctx) ?k ([0x80] @ replicate (n - (?k + 1)) 0)" by simp
    then show ?thesis
      unfolding pad_to_def first using H n by (simp add: md5_fill_eq put_bytes_def min_def)
  qed
  show ?thesis
  proof (cases "?k < 56")
    case True
    then have z: "(119 - ?k) mod 64 = 55 - ?k" by (simp add: le_mod_geq)
    have "take 56 (put_bytes (md_buf ctx) ?k (0x80 # replicate (55 - ?k) 0)) = rest msg @ 0x80 # replicate (55 - ?k) 0"
      using take_put_bytes [of ?k "0x80 # replicate (55 - ?k) 0" "md_buf ctx"] H True by simp
    moreover have "pad_context ctx = ctx\<lparr>md_buf := put_bytes (md_buf ctx) ?k (0x80 # replicate (55 - ?k) 0), md_count := 56\<rparr>"
      using True H padded [of 56] unfolding pad_context_def Let_def by simp
    ultimately have "regs (do_final ctx) = rfc_block (regs ctx) (rest msg @ 0x80 # replicate (55 - ?k) 0 @ length_bytes (length msg))"
      unfolding do_final_def Let_def idle bits prod.case put_length_def len by (simp add: transform_is_rfc)
    moreover have "length (rest msg @ 0x80 # replicate (55 - ?k) 0 @ length_bytes (length msg)) = 64" using True by simp
    ultimately show ?thesis using blocks_one [of _ _ "[]"] unfolding pad z by simp
  next
    case False
    define b where "b = rest msg @ 0x80 # replicate (63 - ?k) 0"
    have b: "length b = 64" using k by (simp add: b_def)
    have full: "put_bytes (md_buf ctx) ?k (0x80 # replicate (63 - ?k) 0) = b"
      using H k by (simp add: b_def put_bytes_def)
    have "pad_context ctx = ctx\<lparr>regs := rfc_block (regs ctx) b, md_nblocks := md_nblocks ctx + 1, md_count := 0,
        md_buf := replicate 56 0 @ drop 56 b\<rparr>"
      using False H padded [of 64] k full unfolding pad_context_def Let_def by (simp add: md5_flush_def transform_is_rfc)
    then have "regs (do_final ctx) = rfc_block (rfc_block (regs ctx) b) (replicate 56 0 @ length_bytes (length msg))"
      unfolding do_final_def Let_def idle bits prod.case put_length_def len by (simp add: transform_is_rfc)
    moreover have "rest msg @ 0x80 # replicate ((119 - ?k) mod 64) 0 @ length_bytes (length msg)
        = b @ (replicate 56 0 @ length_bytes (length msg)) @ []"
    proof -
      have "(119 - ?k) mod 64 = (63 - ?k) + 56" using False k by simp
      then show ?thesis by (simp only: b_def replicate_add) simp
    qed
    moreover have "rfc_blocks r (b @ (replicate 56 0 @ length_bytes (length msg)) @ []) =
        rfc_block (rfc_block r b) (replicate 56 0 @ length_bytes (length msg))" for r
      using b blocks_one [of "replicate 56 0 @ length_bytes (length msg)" "rfc_block r b" "[]"]
      by (simp only: blocks_one [OF b]) simp
    ultimately show ?thesis unfolding pad by (simp only:)
  qed
qed

lemma final_rfc:
  assumes "context_holds ctx msg" "length msg < 2 ^ 29"
  shows "md5_final ctx = rfc_md5 msg"
proof -
  have "\<not> md_finalized ctx" using assms(1) by (simp add: context_holds_def)
  moreover have "\<exists>b. md_buf (do_final ctx) = digest_bytes (regs (do_final ctx)) @ b"
    by (simp add: do_final_def put_length_def Let_def case_prod_beta)
  then have "take 16 (md_buf (do_final ctx)) = digest_bytes (regs (do_final ctx))" by auto
  ultimately show ?thesis using final_regs [OF assms] by (simp add: md5_final_def rfc_md5_def)
qed

lemma init_holds_context: "length (md_buf ctx) = 64 \<Longrightarrow> context_holds (md5_init ctx) []"
  by (simp add: context_holds_def md5_init_def rfc_init_def)

interpretation formatter_md5: message_digest md5_update md5_final context_holds "\<lambda>msg. length msg < 2 ^ 29"
  by unfold_locales (auto intro: update_holds final_rfc)

section \<open>The contents of a file\<close>

text \<open>
  The formatter computes the digest of a file from what its calls of \<open>read\<close> return, up to the first
  that returns nothing. Whatever their sizes are, it is the digest of the contents.
\<close>

definition contents_digest :: "MD5_CONTEXT \<Rightarrow> u8 list list \<Rightarrow> u8 list" where
  "contents_digest md5 reads = md5_final (foldl md5_update (md5_init md5) (takeWhile (\<lambda>r. r \<noteq> []) reads))"

lemma contents_digest_rfc:
  assumes "length (md_buf md5) = 64" "[] \<notin> set reads" "length (concat reads) < 2 ^ 29"
  shows "contents_digest md5 (reads @ [] # later) = rfc_md5 (concat reads)"
proof -
  have "takeWhile (\<lambda>r. r \<noteq> []) (reads @ [] # later) = reads" using assms(2) by (induction reads) auto
  then show ?thesis
    using formatter_md5.digest_of_chunks [OF init_holds_context [OF assms(1)] assms(3)] by (simp add: contents_digest_def)
qed

text \<open>C15: The two implementations of MD5 agree, and both are the digest of RFC 1321: in whatever pieces a
  message below 512 MB is given to \<open>md5_update\<close> of the formatter and to \<open>md5_append\<close> of the peer (empty
  pieces, pieces that cross the blocks of 64 bytes, whole files), \<open>md5_final\<close> and \<open>md5_finish\<close> return the
  same sixteen bytes, which are those of the definition of the RFC on the whole message.\<close>

theorem md5_implementations_agree:
  assumes "length (md_buf ctx) = 64" "length (state_buf pms) = 64"
    and "concat chunks = concat pieces" "length (concat chunks) < 2 ^ 29"
  shows "md5_final (foldl md5_update (md5_init ctx) chunks) = md5_finish (foldl md5_append (md5_init_state pms) pieces)
    \<and> md5_final (foldl md5_update (md5_init ctx) chunks) = rfc_md5 (concat chunks)"
  using formatter_md5.digest_of_chunks [OF init_holds_context [OF assms(1)] assms(4)]
    peer_md5.digest_of_chunks [OF init_holds_peer [OF assms(2)], of pieces] assms(3) by simp

theorem md5_implementations_agree_witness:
  "md5_final (foldl md5_update (md5_init \<lparr>regs = (0, 0, 0, 0), md_nblocks = 7, md_buf = replicate 64 9, md_count = 3, md_finalized = True\<rparr>)
      [[97], [], replicate 100 98])
    = md5_finish (foldl md5_append (md5_init_state \<lparr>count0 = 1, count1 = 2, abcd = (0, 0, 0, 0), state_buf = replicate 64 5\<rparr>)
      [97 # replicate 63 98, replicate 37 98])"
proof -
  have "concat [[97], [], replicate 100 98] = concat [97 # replicate 63 98, replicate 37 (98 :: u8)]"
    by (simp flip: replicate_add)
  then show ?thesis
    using md5_implementations_agree
      [of "\<lparr>regs = (0, 0, 0, 0), md_nblocks = 7, md_buf = replicate 64 9, md_count = 3, md_finalized = True\<rparr>"
        "\<lparr>count0 = 1, count1 = 2, abcd = (0, 0, 0, 0), state_buf = replicate 64 5\<rparr>"
        "[[97], [], replicate 100 98]" "[97 # replicate 63 98, replicate 37 98]"] by simp
qed

end
