(* ===== verification/Md5Text.thy ===== *)
theory Md5Text
  imports Md5Props
begin

text \<open>
  The texts of digests: their lengths, and that they determine the digest where they do.
\<close>

section \<open>The digest as a number\<close>

fun le_nat :: "u8 list \<Rightarrow> nat" where
  "le_nat [] = 0"
| "le_nat (x # xs) = unat x + 256 * le_nat xs"

lemma unat_u8_less [simp]: "unat (x :: u8) < 256"
  using unsigned_less [of x, where ?'a = nat] by simp

lemma le_nat_less: "le_nat xs < 256 ^ length xs"
proof (induction xs)
  case (Cons x xs)
  have "unat x + 256 * n < 256 * m" if "n < m" for n m :: nat
    using that unat_u8_less [of x] by linarith
  from this [OF Cons] show ?case by simp
qed simp

lemma le_nat_drop: "le_nat (drop k xs) = le_nat xs div 256 ^ k"
proof (induction k arbitrary: xs)
  case (Suc k)
  show ?case
  proof (cases xs)
    case (Cons x ys)
    have "le_nat xs div 256 ^ Suc k = le_nat xs div 256 div 256 ^ k" by (simp add: div_mult2_eq)
    also have "le_nat xs div 256 = le_nat ys" using Cons unat_u8_less [of x] by simp
    finally show ?thesis using Suc Cons by simp
  qed simp
qed simp

lemma le_nat_inj: "length xs = length ys \<Longrightarrow> le_nat xs = le_nat ys \<Longrightarrow> xs = ys"
proof (induction xs ys rule: list_induct2)
  case (Cons x xs y ys)
  then have "unat x + 256 * le_nat xs = unat y + 256 * le_nat ys" by simp
  then have "(unat x + 256 * le_nat xs) mod 256 = (unat y + 256 * le_nat ys) mod 256"
    "(unat x + 256 * le_nat xs) div 256 = (unat y + 256 * le_nat ys) div 256" by simp_all
  then have "unat x = unat y" "le_nat xs = le_nat ys" by simp_all
  then show ?case using Cons by (simp add: word_unat_eq_iff)
qed simp

lemma digest_value_window:
  assumes "length d = 16" "b < 128" "w \<le> 8"
  shows "digest_value d b mod 2 ^ w = le_nat d div 2 ^ b mod 2 ^ w"
proof -
  define f r where "f = b div 8" "r = b mod 8"
  have b: "b = 8 * f + r" "r < 8" "f < 16" using assms(2) by (simp_all add: f_r_def)
  have "le_nat d div 2 ^ b = le_nat d div 256 ^ f div 2 ^ r"
    unfolding b(1) by (simp add: power_add power_mult div_mult2_eq)
  also have "\<dots> = le_nat (drop f d) div 2 ^ r" by (simp add: le_nat_drop)
  also have "drop f d = d ! f # drop (Suc f) d" using assms(1) b(3) by (simp add: Cons_nth_drop_Suc)
  finally have D: "le_nat d div 2 ^ b = (unat (d ! f) + 256 * le_nat (drop (Suc f) d)) div 2 ^ r" by simp
  define y z where "y = (if f < 15 then unat (d ! Suc f) else 0)" "z = le_nat (drop (Suc (Suc f)) d)"
  have rest: "le_nat (drop (Suc f) d) = y + 256 * z"
  proof (cases "f < 15")
    case True
    then have "drop (Suc f) d = d ! Suc f # drop (Suc (Suc f)) d" using assms(1) by (simp add: Cons_nth_drop_Suc)
    then show ?thesis using True by (simp add: y_z_def)
  qed (use assms(1) b(3) in \<open>simp add: y_z_def\<close>)
  define Q where "Q = (2 :: nat) ^ (8 - r)"
  have PQ: "2 ^ r * Q = 256" using b(2) by (simp add: Q_def flip: power_add)
  have "unat (d ! f) + 256 * (y + 256 * z) = unat (d ! f) + 2 ^ r * (Q * (y + 256 * z))"
    unfolding mult.assoc [symmetric] PQ by simp
  then have "le_nat d div 2 ^ b = unat (d ! f) div 2 ^ r + Q * (y + 256 * z)" unfolding D rest by simp
  then have E: "le_nat d div 2 ^ b = (unat (d ! f) div 2 ^ r + y * Q) + 256 * (Q * z)" by (simp add: distrib_left)
  have w: "(2 :: nat) ^ w dvd 256" using le_imp_power_dvd [OF assms(3), of 2] by simp
  then have "2 ^ w dvd 256 * (Q * z)" by (rule dvd_mult2)
  then have "le_nat d div 2 ^ b mod 2 ^ w = (unat (d ! f) div 2 ^ r + y * Q) mod 2 ^ w"
    unfolding E by (auto elim!: dvdE simp: mult.commute)
  moreover have "digest_value d b mod 2 ^ w = (unat (d ! f) div 2 ^ r + y * Q) mod 2 ^ w"
  proof (cases "r = 0")
    case True
    then have "2 ^ w dvd y * Q" using w by (simp add: Q_def)
    then have "(unat (d ! f) + y * Q) mod 2 ^ w = unat (d ! f) mod 2 ^ w" by (auto elim!: dvdE simp: mult.commute)
    moreover have "b = 8 * f" using True b(1) by simp
    ultimately show ?thesis using True by (simp add: digest_value_def Let_def)
  next
    case False
    have "b div 8 = f" "b mod 8 = r" by (simp_all add: f_r_def)
    moreover have "(f + 1) * 8 < b + 8" using False b(1) by simp
    ultimately have "digest_value d b = unat (d ! f) div 2 ^ r + y * Q"
      unfolding digest_value_def Let_def Q_def y_z_def by simp
    then show ?thesis by simp
  qed
  ultimately show ?thesis by simp
qed

section \<open>Texts of fixed length\<close>

text \<open>A number is determined by its digits.\<close>

lemma digits_determine:
  fixes x y B :: nat
  assumes "\<And>i. i < n \<Longrightarrow> x div B ^ i mod B = y div B ^ i mod B"
  shows "x mod B ^ n = y mod B ^ n"
  using assms
proof (induction n)
  case (Suc n)
  then have "x mod B ^ n = y mod B ^ n" "x div B ^ n mod B = y div B ^ n mod B" by simp_all
  then show ?case by (simp only: power_Suc2 mod_mult2_eq)
qed simp

definition digest_text :: "string \<Rightarrow> nat \<Rightarrow> nat \<Rightarrow> u8 list \<Rightarrow> string" where
  "digest_text chars w n d = map (\<lambda>i. chars ! (digest_value d (w * i) mod 2 ^ w)) [0..<n]"

lemma digest_text_inj:
  assumes "length d = 16" "length e = 16" "0 < w" "w \<le> 8" "128 \<le> w * n" "w * (n - 1) < 128"
    and "distinct chars" "length chars = 2 ^ w"
    and "digest_text chars w n d = digest_text chars w n e"
  shows "d = e"
proof -
  have "digest_value d (w * i) mod 2 ^ w = digest_value e (w * i) mod 2 ^ w" if "i < n" for i
    using assms(7-9) that by (auto simp: digest_text_def nth_eq_iff_index_eq)
  moreover have b: "w * i < 128" if "i < n" for i
    using that assms(6) mult_le_mono2 [of i "n - 1" w] by linarith
  ultimately have "le_nat d div (2 ^ w) ^ i mod 2 ^ w = le_nat e div (2 ^ w) ^ i mod 2 ^ w" if "i < n" for i
    using that assms(1,2,4) by (simp add: digest_value_window flip: power_mult)
  then have "le_nat d mod (2 ^ w) ^ n = le_nat e mod (2 ^ w) ^ n" by (rule digits_determine)
  moreover have "le_nat x < (2 ^ w) ^ n" if "length x = 16" for x
  proof -
    have "le_nat x < 2 ^ 128" using le_nat_less [of x] that by simp
    also have "(2 :: nat) ^ 128 \<le> 2 ^ (w * n)" using assms(5) by (intro power_increasing) simp_all
    finally show ?thesis by (simp add: power_mult)
  qed
  ultimately have "le_nat d = le_nat e" using assms(1,2) by simp
  then show ?thesis using assms(1,2) by (intro le_nat_inj) simp_all
qed

lemma finish_text_loop_at:
  "b = 6 * k \<Longrightarrow> k \<le> 22 \<Longrightarrow> finish_text_loop True d b = map (\<lambda>i. peer_chars ! (digest_value d (6 * i) mod 64)) [k..<22]"
proof (induction True d b arbitrary: k rule: finish_text_loop.induct)
  case (1 d b)
  show ?case
  proof (cases "b < 128")
    case True
    then have "k < 22" using 1(3) by simp
    moreover have "finish_text_loop True d (b + 6) = map (\<lambda>i. peer_chars ! (digest_value d (6 * i) mod 64)) [Suc k..<22]"
      using True 1(3) \<open>k < 22\<close> by (intro 1(2)) simp_all
    ultimately show ?thesis using True 1(3) by (subst finish_text_loop.simps) (simp add: upt_conv_Cons)
  next
    case False
    then have "k = 22" using 1 by simp
    then show ?thesis using False by (subst finish_text_loop.simps) simp
  qed
qed

lemma finish_text_loop_length:
  "128 - b \<le> 6 * length (finish_text_loop allow_at d b)" "5 * length (finish_text_loop allow_at d b) \<le> 132 - b"
proof (induction allow_at d b rule: finish_text_loop.induct)
  case (1 allow_at d b)
  { case 1
    then show ?case using "1.IH" by (subst finish_text_loop.simps) auto
  next
    case 2
    then show ?case using "1.IH" by (subst finish_text_loop.simps) auto
  }
qed

section \<open>The texts of the two implementations\<close>

lemma digest_value_take:
  assumes "length (b :: u8 list) \<ge> 16" "k < 128"
  shows "digest_value (take 16 b) k = digest_value b k"
proof -
  have "k div 8 < 16" using assms(2) by simp
  then show ?thesis by (simp add: digest_value_def Let_def)
qed

lemma md5_final_text_eq:
  assumes "length (md_buf (if md_finalized ctx then ctx else do_final ctx)) \<ge> 16"
  shows "md5_final_text ctx = digest_text formatter_chars 5 26 (md5_final ctx)"
  using assms by (auto simp: md5_final_text_def md5_final_def digest_text_def digest_value_take Let_def)

lemma md5_finish_text_eq: "md5_finish_text pms True = digest_text peer_chars 6 22 (md5_finish pms)"
  using finish_text_loop_at [of 0 0 "md5_finish pms"] by (simp add: md5_finish_text_def digest_text_def)

lemma length_md5_finish [simp]: "length (md5_finish pms) = 16"
  by (simp add: md5_finish_def Let_def)

text \<open>The text is as good as the digest.\<close>

lemma md5_finish_text_determines: "md5_finish_text p True = md5_finish_text q True \<longleftrightarrow> md5_finish p = md5_finish q"
  using digest_text_inj [of "md5_finish p" "md5_finish q" 6 22 peer_chars] unfolding md5_finish_text_eq
  by (auto simp: peer_chars_def)

lemma md5_final_text_determines:
  assumes "16 \<le> length (md_buf (if md_finalized c then c else do_final c))"
    and "16 \<le> length (md_buf (if md_finalized d then d else do_final d))"
  shows "md5_final_text c = md5_final_text d \<longleftrightarrow> md5_final c = md5_final d"
proof -
  have "length (md5_final c) = 16" "length (md5_final d) = 16" using assms by (simp_all add: md5_final_def)
  then show ?thesis
    using digest_text_inj [of "md5_final c" "md5_final d" 5 26 formatter_chars]
    unfolding md5_final_text_eq [OF assms(1)] md5_final_text_eq [OF assms(2)] by (auto simp: formatter_chars_def)
qed

lemma md5_finish_text_length:
  "length (md5_finish_text pms True) = 22" "22 \<le> length (md5_finish_text pms a)" "length (md5_finish_text pms a) \<le> 26"
  using finish_text_loop_length [where b = 0 and allow_at = a and d = "md5_finish pms"]
  by (simp_all add: md5_finish_text_eq digest_text_def) (simp_all add: md5_finish_text_def)

text \<open>
  Without the at sign it is not: the value 63 is written as the character of 31, but takes five bits
  instead of six, so that two digests can have the same text.
\<close>

lemma finish_text_loop_collision:
  "finish_text_loop False (95 # replicate 15 0) 0 = finish_text_loop False (63 # replicate 15 0) 0"
  by code_simp

end
