(* ===== verification/KLib.thy ===== *)
theory KLib
  imports Prelude
begin

text \<open>
  The C library of the two toy kernels (\<open>weensyos1/lib.c\<close>; \<open>weensyos2/lib.c\<close> is the same file): the
  memory and string functions as the loops they are, over byte memories, and the console
  printer. Addresses are natural numbers that do not wrap around.
\<close>

section \<open>Memory and strings\<close>

fun memcpy :: "mem \<Rightarrow> nat \<Rightarrow> nat \<Rightarrow> nat \<Rightarrow> mem" where
  "memcpy m d s 0 = m"
| "memcpy m d s (Suc n) = memcpy (m(d := m s)) (d + 1) (s + 1) n"

text \<open>The loop that runs from the end: \<open>d\<close> and \<open>s\<close> point one past the bytes still to be copied.\<close>

fun copy_down :: "mem \<Rightarrow> nat \<Rightarrow> nat \<Rightarrow> nat \<Rightarrow> mem" where
  "copy_down m d s 0 = m"
| "copy_down m d s (Suc n) = copy_down (m(d - 1 := m (s - 1))) (d - 1) (s - 1) n"

definition memmove :: "mem \<Rightarrow> nat \<Rightarrow> nat \<Rightarrow> nat \<Rightarrow> mem" where
  "memmove m d s n =
     (if s < d \<and> s + n > d then copy_down m (d + n) (s + n) n else memcpy m d s n)"

fun memset :: "mem \<Rightarrow> nat \<Rightarrow> u8 \<Rightarrow> nat \<Rightarrow> mem" where
  "memset m v c 0 = m"
| "memset m v c (Suc n) = memset (m(v := c)) (v + 1) c n"

partial_function (option) strlen_loop :: "mem \<Rightarrow> nat \<Rightarrow> nat \<Rightarrow> nat option" where
  "strlen_loop m s n = (if m s = 0 then Some n else strlen_loop m (s + 1) (n + 1))"

definition strlen :: "mem \<Rightarrow> nat \<Rightarrow> nat option" where
  "strlen m s = strlen_loop m s 0"

fun strnlen_loop :: "mem \<Rightarrow> nat \<Rightarrow> nat \<Rightarrow> nat \<Rightarrow> nat" where
  "strnlen_loop m s n 0 = n"
| "strnlen_loop m s n (Suc left) = (if m s = 0 then n else strnlen_loop m (s + 1) (n + 1) left)"

definition strnlen :: "mem \<Rightarrow> nat \<Rightarrow> nat \<Rightarrow> nat" where
  "strnlen m s maxlen = strnlen_loop m s 0 maxlen"

section \<open>The console\<close>

text \<open>
  The cells from \<open>CONSOLE_BEGIN\<close> on (16 bits each), and the cursor as an index into them.
\<close>

record console =
  cells :: "nat \<Rightarrow> u16"
  cursor :: nat

abbreviation (input) "CONSOLE_END \<equiv> 2000"

fun fill_line :: "console \<Rightarrow> u16 \<Rightarrow> nat \<Rightarrow> console" where
  "fill_line con color 0 = con"
| "fill_line con color (Suc k) =
     fill_line (con\<lparr>cells := (cells con)(cursor con := 32 OR color), cursor := cursor con + 1\<rparr>) color k"

definition console_putc :: "u16 \<Rightarrow> u8 \<Rightarrow> console \<Rightarrow> console" where
  "console_putc color c con =
     (let con1 = (if cursor con \<ge> CONSOLE_END then con\<lparr>cursor := 0\<rparr> else con) in
      if c = 10 then fill_line con1 color (80 - cursor con1 mod 80)
      else con1\<lparr>cells := (cells con1)(cursor con1 := ucast c OR color), cursor := cursor con1 + 1\<rparr>)"

section \<open>Numbers\<close>

definition upper_digits :: "u8 list" where
  "upper_digits = [48, 49, 50, 51, 52, 53, 54, 55, 56, 57, 65, 66, 67, 68, 69, 70]"

definition lower_digits :: "u8 list" where
  "lower_digits = [48, 49, 50, 51, 52, 53, 54, 55, 56, 57, 97, 98, 99, 100, 101, 102]"

text \<open>
  The buffer is filled from its end; \<open>acc\<close> holds the characters written so far, up to the NUL.
  The bases are 10 and 16; the loop is unrolled for bases of at least 2 only.
\<close>

function numbuf_loop :: "nat \<Rightarrow> nat \<Rightarrow> u8 list \<Rightarrow> u8 list \<Rightarrow> u8 list" where
  "numbuf_loop val base digits acc =
     (let acc1 = digits ! (val mod base) # acc; val1 = val div base
      in if val1 = 0 \<or> base < 2 then acc1 else numbuf_loop val1 base digits acc1)"
  by pat_completeness auto
termination
  by (relation "measure (\<lambda>(val, base, digits, acc). val)")
     (auto simp: div_greater_zero_iff intro!: div_less_dividend)

declare numbuf_loop.simps [simp del]

definition fill_numbuf :: "u32 \<Rightarrow> nat \<Rightarrow> u8 list \<Rightarrow> int \<Rightarrow> u8 list" where
  "fill_numbuf val base digits precision =
     (if precision \<noteq> 0 \<or> val \<noteq> 0 then numbuf_loop (unat val) base digits [] else [])"

section \<open>Formatted output\<close>

text \<open>
  The arguments of the call, as the conversions read them: a 32-bit integer, or the characters
  of a string up to its NUL. \<open>None\<close> stands for a call whose arguments do not fit its format.
\<close>

datatype va_arg = Va_int u32 | Va_str "u8 list"

definition flag_chars :: "u8 list" where
  "flag_chars = [35, 48, 45, 32, 43]"

abbreviation (input) "FLAG_ZERO \<equiv> (1 :: nat)"
abbreviation (input) "FLAG_LEFTJUSTIFY \<equiv> (2 :: nat)"
abbreviation (input) "FLAG_SPACEPOSITIVE \<equiv> (3 :: nat)"
abbreviation (input) "FLAG_PLUSPOSITIVE \<equiv> (4 :: nat)"

text \<open>The set of the indices in \<open>flag_chars\<close> of the flags that are present, and the rest.\<close>

fun parse_flags :: "nat set \<Rightarrow> u8 list \<Rightarrow> nat set \<times> u8 list" where
  "parse_flags flags [] = (flags, [])"
| "parse_flags flags (c # cs) =
     (if c \<in> set flag_chars
      then parse_flags (insert (length (takeWhile (\<lambda>d. d \<noteq> c) flag_chars)) flags) cs
      else (flags, c # cs))"

definition is_digit :: "u8 \<Rightarrow> bool" where
  "is_digit c \<longleftrightarrow> 48 \<le> c \<and> c \<le> 57"

fun parse_number :: "int \<Rightarrow> u8 list \<Rightarrow> int \<times> u8 list" where
  "parse_number n [] = (n, [])"
| "parse_number n (c # cs) =
     (if is_digit c then parse_number (10 * n + uint c - 48) cs else (n, c # cs))"

definition parse_width :: "u8 list \<Rightarrow> va_arg list \<Rightarrow> (int \<times> u8 list \<times> va_arg list) option" where
  "parse_width f args =
     (case f of
        c # cs \<Rightarrow>
          if 49 \<le> c \<and> c \<le> 57 then (case parse_number 0 f of (w, r) \<Rightarrow> Some (w, r, args))
          else if c = 42 then
            (case args of Va_int v # as \<Rightarrow> Some (sint v, cs, as) | _ \<Rightarrow> None)
          else Some (-1, f, args)
      | [] \<Rightarrow> Some (-1, f, args))"

definition parse_precision :: "u8 list \<Rightarrow> va_arg list \<Rightarrow> (int \<times> u8 list \<times> va_arg list) option" where
  "parse_precision f args =
     (case f of
        c # cs \<Rightarrow>
          if c \<noteq> 46 then Some (-1, f, args)
          else
            (case cs of
               d # ds \<Rightarrow>
                 if is_digit d then
                   (case parse_number 0 cs of (p, r) \<Rightarrow> Some (if p < 0 then 0 else p, r, args))
                 else if d = 42 then
                   (case args of
                      Va_int v # as \<Rightarrow> Some (if sint v < 0 then 0 else sint v, ds, as)
                    | _ \<Rightarrow> None)
                 else Some (0, cs, args)
             | [] \<Rightarrow> Some (0, cs, args))
      | [] \<Rightarrow> Some (-1, f, args))"

text \<open>
  The conversion: the characters to print, whether the number is negative, whether it is a
  number at all, and the arguments left; or a change of the colour.
\<close>

datatype conversion = Field "u8 list" bool bool "va_arg list" | Color u16 "va_arg list"

definition convert :: "u8 list \<Rightarrow> int \<Rightarrow> va_arg list \<Rightarrow> conversion option" where
  "convert f precision args =
     (case f of
        [] \<Rightarrow> Some (Field [37] False False args)
      | c # _ \<Rightarrow>
          if c = 100 then
            (case args of
               Va_int x # as \<Rightarrow>
                 Some (Field (fill_numbuf (if sint x > 0 then x else - x) 10 upper_digits precision)
                   (sint x < 0) True as)
             | _ \<Rightarrow> None)
          else if c = 117 then
            (case args of
               Va_int x # as \<Rightarrow> Some (Field (fill_numbuf x 10 upper_digits precision) False True as)
             | _ \<Rightarrow> None)
          else if c = 120 then
            (case args of
               Va_int x # as \<Rightarrow> Some (Field (fill_numbuf x 16 lower_digits precision) False True as)
             | _ \<Rightarrow> None)
          else if c = 88 then
            (case args of
               Va_int x # as \<Rightarrow> Some (Field (fill_numbuf x 16 upper_digits precision) False True as)
             | _ \<Rightarrow> None)
          else if c = 115 then
            (case args of Va_str s # as \<Rightarrow> Some (Field s False False as) | _ \<Rightarrow> None)
          else if c = 67 then
            (case args of Va_int v # as \<Rightarrow> Some (Color (ucast v) as) | _ \<Rightarrow> None)
          else if c = 99 then
            (case args of
               Va_int v # as \<Rightarrow>
                 Some (Field (if (ucast v :: u8) = 0 then [] else [ucast v]) False False as)
             | _ \<Rightarrow> None)
          else Some (Field [c] False False args))"

definition print_field ::
  "nat set \<Rightarrow> int \<Rightarrow> int \<Rightarrow> u8 list \<Rightarrow> bool \<Rightarrow> bool \<Rightarrow> u16 \<Rightarrow> console \<Rightarrow> console" where
  "print_field flags width precision data negative numeric color con =
     (let len = (if precision \<ge> 0 then min (length data) (nat precision) else length data);
          sign = (if numeric \<and> negative then [45]
                  else if FLAG_PLUSPOSITIVE \<in> flags then [43]
                  else if FLAG_SPACEPOSITIVE \<in> flags then [32] else [] :: u8 list);
          zeros = (if numeric \<and> precision > int len then precision - int len
                   else if FLAG_ZERO \<in> flags \<and> FLAG_LEFTJUSTIFY \<notin> flags \<and> numeric \<and> precision < 0
                       \<and> int len + int (length sign) < width
                   then width - int len - int (length sign)
                   else 0);
          width1 = width - (int len + zeros + int (length sign));
          left = (if FLAG_LEFTJUSTIFY \<notin> flags then nat width1 else 0);
          right = (if FLAG_LEFTJUSTIFY \<notin> flags then 0 else nat width1)
      in fold (console_putc color)
           (replicate left 32 @ sign @ replicate (nat zeros) 48 @ take len data @ replicate right 32) con)"

lemma parse_flags_length: "length (snd (parse_flags fl f)) \<le> length f"
  by (induction fl f rule: parse_flags.induct) auto

lemma parse_number_length: "length (snd (parse_number n f)) \<le> length f"
  by (induction n f rule: parse_number.induct) auto

lemma parse_width_length: "parse_width f args = Some (w, r, as) \<Longrightarrow> length r \<le> length f"
  using parse_number_length [of 0 f]
  by (auto simp: parse_width_def split: list.splits if_splits prod.splits va_arg.splits)

lemma parse_precision_length: "parse_precision f args = Some (p, r, as) \<Longrightarrow> length r \<le> length f"
  using parse_number_length [of 0 "tl f"]
  by (auto simp: parse_precision_def split: list.splits if_splits prod.splits va_arg.splits)

text \<open>One conversion after the percent sign: the rest of the format, the arguments left, the
  colour and the console.\<close>

definition vprintf_conversion ::
  "u8 list \<Rightarrow> va_arg list \<Rightarrow> u16 \<Rightarrow> console \<Rightarrow> (u8 list \<times> va_arg list \<times> u16 \<times> console) option" where
  "vprintf_conversion f0 args0 color con =
     (case parse_flags {} f0 of
        (flags, f1) \<Rightarrow>
          (case parse_width f1 args0 of
             None \<Rightarrow> None
           | Some (width, f2, args2) \<Rightarrow>
               (case parse_precision f2 args2 of
                  None \<Rightarrow> None
                | Some (precision, f3, args3) \<Rightarrow>
                    (case convert f3 precision args3 of
                       None \<Rightarrow> None
                     | Some (Color c as) \<Rightarrow> Some (drop 1 f3, as, c, con)
                     | Some (Field data negative numeric as) \<Rightarrow>
                         Some (drop 1 f3, as, color,
                           print_field flags width precision data negative numeric color con)))))"

lemma vprintf_conversion_length:
  "vprintf_conversion f0 args0 color con = Some (f, as, c, con') \<Longrightarrow> length f \<le> length f0"
  using parse_flags_length [of "{}" f0]
  by (auto simp: vprintf_conversion_def split: prod.splits option.splits conversion.splits
      dest!: parse_width_length parse_precision_length)

function console_vprintf :: "u16 \<Rightarrow> u8 list \<Rightarrow> va_arg list \<Rightarrow> console \<Rightarrow> console option" where
  "console_vprintf color [] args con = Some con"
| "console_vprintf color (c # cs) args con =
     (if c \<noteq> 37 then console_vprintf color cs args (console_putc color c con)
      else
        (case vprintf_conversion cs args color con of
           None \<Rightarrow> None
         | Some (f, as, color', con') \<Rightarrow> console_vprintf color' f as con'))"
  by pat_completeness auto
termination
  by (relation "measure (\<lambda>(color, f, args, con). length f)")
     (auto dest!: vprintf_conversion_length)

definition console_printf :: "u16 \<Rightarrow> u8 list \<Rightarrow> va_arg list \<Rightarrow> console \<Rightarrow> console option" where
  "console_printf color format args con = console_vprintf color format args con"

section \<open>The loops are the bulk operations\<close>

lemma memcpy_apply:
  assumes "d \<le> s \<or> s + n \<le> d"
  shows "memcpy m d s n = mem_copy m d s n"
  using assms
proof (induction n arbitrary: m d s)
  case 0
  then show ?case by (auto simp: fun_eq_iff mem_copy_def)
next
  case (Suc n)
  have "memcpy m d s (Suc n) = mem_copy (m(d := m s)) (d + 1) (s + 1) n"
    unfolding memcpy.simps by (rule Suc.IH) (use Suc.prems in auto)
  also have "\<dots> = mem_copy m d s (Suc n)"
  proof (rule ext)
    fix x
    show "mem_copy (m(d := m s)) (d + 1) (s + 1) n x = mem_copy m d s (Suc n) x"
    proof (cases "d + 1 \<le> x \<and> x < d + 1 + n")
      case True
      then have "s + 1 + (x - (d + 1)) = s + (x - d)" by linarith
      moreover have "s + (x - d) \<noteq> d" using Suc.prems True by linarith
      ultimately show ?thesis using True by (simp add: mem_copy_def)
    qed (auto simp: mem_copy_def)
  qed
  finally show ?case .
qed

lemma copy_down_apply:
  assumes "s \<le> d"
  shows "copy_down m (d + n) (s + n) n = mem_copy m d s n"
  using assms
proof (induction n arbitrary: m)
  case 0
  then show ?case by (auto simp: fun_eq_iff mem_copy_def)
next
  case (Suc n)
  have "copy_down m (d + Suc n) (s + Suc n) (Suc n)
      = copy_down (m(d + n := m (s + n))) (d + n) (s + n) n" by simp
  also have "\<dots> = mem_copy (m(d + n := m (s + n))) d s n" by (rule Suc.IH [OF Suc.prems])
  also have "\<dots> = mem_copy m d s (Suc n)"
    using Suc.prems by (intro ext) (auto simp: mem_copy_def)
  finally show ?case .
qed

lemma memmove_apply: "memmove m d s n = mem_copy m d s n"
  using copy_down_apply [of s d m n] memcpy_apply [of d s n m] by (auto simp: memmove_def)

lemma memset_apply: "memset m v c n = mem_fill m v c n"
proof (induction n arbitrary: m v)
  case 0
  then show ?case by (auto simp: fun_eq_iff mem_fill_def)
next
  case (Suc n)
  then show ?case by (auto simp: mem_fill_def fun_eq_iff)
qed

text \<open>\<open>memmove\<close> moves a block between any two places of the memory as if through a buffer,
  overlapping or not: afterwards the destination holds what the source held before, and all
  other bytes are unchanged. \<open>memcpy\<close> does the same when the source does not start before
  the destination inside it, and \<open>memset\<close> fills exactly the given range.\<close>

lemma memmove_moves:
  "mem_read (memmove m d s n) d n = mem_read m s n
    \<and> (\<forall>x. x < d \<or> d + n \<le> x \<longrightarrow> memmove m d s n x = m x)
    \<and> (\<not> (s < d \<and> d < s + n) \<longrightarrow> memcpy m d s n = memmove m d s n)
    \<and> (\<forall>x. memset m d c n x = (if d \<le> x \<and> x < d + n then c else m x))"
  using memcpy_apply [of d s n m]
  by (auto simp: memmove_apply memset_apply mem_fill_def mem_copy_def intro: nth_equalityI)

lemma memmove_moves_witness:
  "memmove (\<lambda>x. of_nat x) 2 0 3 1 = 1
    \<and> mem_read (memmove (\<lambda>x. of_nat x) 2 0 3) 2 3 = mem_read (\<lambda>x. of_nat x) 0 3"
  using memmove_moves [of "\<lambda>x. of_nat x" 2 0 3 0] by simp

section \<open>Strings\<close>

lemma strlen_loop_eq:
  assumes "m (s + k) = 0" "\<forall>i < k. m (s + i) \<noteq> 0"
  shows "strlen_loop m s n = Some (n + k)"
  using assms
proof (induction k arbitrary: s n)
  case 0
  then show ?case by (subst strlen_loop.simps) simp
next
  case (Suc k)
  have "strlen_loop m (s + 1) (n + 1) = Some (n + 1 + k)"
    by (rule Suc.IH) (use Suc.prems in \<open>auto dest: spec [of _ "Suc _"]\<close>)
  then show ?case using Suc.prems(2) by (subst strlen_loop.simps) (auto dest: spec [of _ 0])
qed

lemma strnlen_loop_eq:
  assumes "m (s + k) = 0 \<or> k = maxlen" "\<forall>i < k. m (s + i) \<noteq> 0" "k \<le> maxlen"
  shows "strnlen_loop m s n maxlen = n + k"
  using assms
proof (induction maxlen arbitrary: s n k)
  case 0
  then show ?case by simp
next
  case (Suc left)
  show ?case
  proof (cases k)
    case 0
    then show ?thesis using Suc.prems by simp
  next
    case (Suc j)
    have "strnlen_loop m (s + 1) (n + 1) left = n + 1 + j"
      by (rule Suc.IH) (use Suc.prems Suc in \<open>auto dest: spec [of _ "Suc _"]\<close>)
    then show ?thesis using Suc.prems(2) Suc by (auto dest: spec [of _ 0])
  qed
qed

section \<open>Numbers are printed as they are\<close>

text \<open>The value of a digit string, most significant digit first.\<close>

definition digit_value :: "u8 list \<Rightarrow> u8 \<Rightarrow> nat" where
  "digit_value digits c = length (takeWhile (\<lambda>d. d \<noteq> c) digits)"

fun numeral_value :: "nat \<Rightarrow> u8 list \<Rightarrow> u8 list \<Rightarrow> nat" where
  "numeral_value base digits [] = 0"
| "numeral_value base digits (c # cs) =
     digit_value digits c * base ^ length cs + numeral_value base digits cs"

lemma digit_value_nth:
  assumes "distinct digits" "i < length digits"
  shows "digit_value digits (digits ! i) = i"
proof -
  have "takeWhile (\<lambda>d. d \<noteq> digits ! i) digits = take i digits"
    using assms by (intro takeWhile_eq_take_P_nth) (auto simp: nth_eq_iff_index_eq)
  then show ?thesis using assms(2) by (simp add: digit_value_def)
qed

lemma horner: "q * (b :: nat) ^ (k + Suc 0) + (r * b ^ k + v) = (q * b + r) * b ^ k + v"
  by (simp add: algebra_simps)

lemma numbuf_loop_value:
  assumes "distinct digits" "2 \<le> base" "base \<le> length digits"
  shows "numeral_value base digits (numbuf_loop val base digits acc)
    = val * base ^ length acc + numeral_value base digits acc"
  using assms
proof (induction val base digits acc rule: numbuf_loop.induct)
  case (1 val base digits acc)
  have d: "digit_value digits (digits ! (val mod base)) = val mod base"
    by (rule digit_value_nth) (use 1(2,3,4) mod_less_divisor [of base val] in linarith)+
  show ?case
  proof (cases "val div base = 0")
    case True
    then have "val mod base = val" by (metis div_mult_mod_eq add.left_neutral mult_zero_left)
    then show ?thesis using True d by (subst numbuf_loop.simps) (simp add: Let_def)
  next
    case False
    have "numeral_value base digits (numbuf_loop (val div base) base digits (digits ! (val mod base) # acc))
      = (val div base) * base ^ length (digits ! (val mod base) # acc)
        + numeral_value base digits (digits ! (val mod base) # acc)"
      by (rule 1(1) [OF refl refl]) (use 1(2-4) False in auto)
    also have "\<dots> = (val div base * base + val mod base) * base ^ length acc + numeral_value base digits acc"
      unfolding list.size numeral_value.simps d by (rule horner)
    finally have "numeral_value base digits (numbuf_loop (val div base) base digits (digits ! (val mod base) # acc))
      = val * base ^ length acc + numeral_value base digits acc" unfolding div_mult_mod_eq .
    then show ?thesis
      using False 1(3) by (subst numbuf_loop.simps) (simp add: Let_def)
  qed
qed

lemma numbuf_loop_length:
  assumes "2 \<le> base"
  shows "val < base ^ Suc k \<Longrightarrow> length (numbuf_loop val base digits acc) \<le> length acc + Suc k"
proof (induction k arbitrary: val acc)
  case 0
  then show ?case using assms by (subst numbuf_loop.simps) (simp add: Let_def)
next
  case (Suc k)
  have "val div base < base ^ Suc k"
    by (rule less_mult_imp_div_less) (use Suc.prems in \<open>simp add: mult.commute\<close>)
  from Suc.IH [OF this, of "digits ! (val mod base) # acc"]
  show ?case using assms by (subst numbuf_loop.simps) (simp add: Let_def)
qed

lemma distinct_digits: "distinct upper_digits" "distinct lower_digits"
  by (simp_all add: upper_digits_def lower_digits_def)

text \<open>The digits that the number conversions produce denote the number, in decimal and in
  hexadecimal, and at most ten of them are written, so that the buffer of 20 bytes is never
  overrun.\<close>

theorem fill_numbuf_prints_value:
  "numeral_value 10 upper_digits (fill_numbuf v 10 upper_digits precision) = unat v
    \<and> numeral_value 16 upper_digits (fill_numbuf v 16 upper_digits precision) = unat v
    \<and> numeral_value 16 lower_digits (fill_numbuf v 16 lower_digits precision) = unat v
    \<and> length (fill_numbuf v 10 upper_digits precision) \<le> 10
    \<and> length (fill_numbuf v 16 upper_digits precision) \<le> 8
    \<and> length (fill_numbuf v 16 lower_digits precision) \<le> 8"
proof -
  have v: "unat v < 10 ^ Suc 9" "unat v < 16 ^ Suc 7" using unat_u32_less [of v] by simp_all
  have len: "length upper_digits = 16" "length lower_digits = 16"
    by (simp_all add: upper_digits_def lower_digits_def)
  show ?thesis
    using numbuf_loop_length [OF _ v(1), where digits = upper_digits and acc = "[]"]
      numbuf_loop_length [OF _ v(2), where digits = upper_digits and acc = "[]"]
      numbuf_loop_length [OF _ v(2), where digits = lower_digits and acc = "[]"]
    by (simp add: fill_numbuf_def numbuf_loop_value distinct_digits len)
qed

section \<open>Printing stays on the screen\<close>

text \<open>\<open>on_screen con con'\<close>: the cursor of \<open>con'\<close> is at most at the end and no cell beyond it has changed.\<close>

definition on_screen :: "console \<Rightarrow> console \<Rightarrow> bool" where
  "on_screen con con' \<longleftrightarrow> cursor con' \<le> CONSOLE_END \<and> (\<forall>x \<ge> CONSOLE_END. cells con' x = cells con x)"

lemma on_screen_trans: "on_screen a b \<Longrightarrow> on_screen b c \<Longrightarrow> on_screen a c"
  by (simp add: on_screen_def)

lemma fill_line_on_screen:
  "cursor con + k \<le> CONSOLE_END \<Longrightarrow> on_screen con (fill_line con color k)"
proof (induction k arbitrary: con)
  case 0
  then show ?case by (simp add: on_screen_def)
next
  case (Suc k)
  let ?c = "con\<lparr>cells := (cells con)(cursor con := 32 OR color), cursor := cursor con + 1\<rparr>"
  have "on_screen ?c (fill_line ?c color k)" by (rule Suc.IH) (use Suc.prems in simp)
  then show ?case using Suc.prems by (simp add: on_screen_def)
qed

lemma console_putc_on_screen:
  assumes "cursor con \<le> CONSOLE_END"
  shows "on_screen con (console_putc color c con)"
proof -
  let ?c = "if cursor con \<ge> CONSOLE_END then con\<lparr>cursor := 0\<rparr> else con"
  have lt: "cursor ?c < 2000" "cells ?c = cells con" by auto
  have "cursor ?c div 80 < 25" using lt(1) by simp
  then have "cursor ?c + (80 - cursor ?c mod 80) \<le> 2000"
    using div_mult_mod_eq [of "cursor ?c" 80] by linarith
  then have "on_screen ?c (fill_line ?c color (80 - cursor ?c mod 80))" by (rule fill_line_on_screen)
  then show ?thesis
    using lt by (auto simp: console_putc_def Let_def on_screen_def)
qed

lemma fold_putc_on_screen:
  "cursor con \<le> CONSOLE_END \<Longrightarrow> on_screen con (fold (console_putc color) cs con)"
proof (induction cs arbitrary: con)
  case Nil
  then show ?case by (simp add: on_screen_def)
next
  case (Cons c cs)
  note p = console_putc_on_screen [OF Cons.prems, of color c]
  then have "on_screen (console_putc color c con) (fold (console_putc color) cs (console_putc color c con))"
    by (intro Cons.IH) (simp add: on_screen_def)
  then show ?case using on_screen_trans [OF p] by simp
qed

lemma print_field_on_screen:
  "cursor con \<le> CONSOLE_END \<Longrightarrow> on_screen con (print_field fl w p d n b color con)"
  unfolding print_field_def Let_def by (rule fold_putc_on_screen)

lemma on_screen_refl: "cursor con \<le> CONSOLE_END \<Longrightarrow> on_screen con con"
  by (simp add: on_screen_def)

lemma conversion_on_screen:
  assumes "cursor con \<le> CONSOLE_END" "vprintf_conversion f args color con = Some (f', as, c, con')"
  shows "on_screen con con'"
  using assms(2) print_field_on_screen [OF assms(1)] on_screen_refl [OF assms(1)]
  by (auto simp: vprintf_conversion_def split: prod.splits option.splits conversion.splits)

text \<open>C40: Whatever the format and the arguments, printing from a cursor on the screen writes only
  to the 2000 cells of the screen and leaves the cursor there.\<close>

theorem console_vprintf_on_screen:
  assumes "cursor con \<le> CONSOLE_END" "console_vprintf color f args con = Some con'"
  shows "cursor con' \<le> CONSOLE_END \<and> (\<forall>x \<ge> CONSOLE_END. cells con' x = cells con x)"
proof -
  have "on_screen con con'"
    using assms
  proof (induction color f args con rule: console_vprintf.induct)
    case (1 color args con)
    then show ?case by (simp add: on_screen_def)
  next
    case (2 color c cs args con)
    show ?case
    proof (cases "c \<noteq> 37")
      case True
      note p = console_putc_on_screen [OF 2(3), of color c]
      have "on_screen (console_putc color c con) con'"
        by (rule 2(1) [OF True]) (use p 2(4) True in \<open>simp_all add: on_screen_def\<close>)
      then show ?thesis by (rule on_screen_trans [OF p])
    next
      case False
      then obtain f as c' con1 where v: "vprintf_conversion cs args color con = Some (f, as, c', con1)"
        "console_vprintf c' f as con1 = Some con'"
        using 2(4) by (auto split: option.splits)
      note p = conversion_on_screen [OF 2(3) v(1)]
      have "on_screen con1 con'"
        by (rule 2(2) [OF False v(1) refl refl refl _ v(2)]) (use p in \<open>simp add: on_screen_def\<close>)
      then show ?thesis by (rule on_screen_trans [OF p])
    qed
  qed
  then show ?thesis by (simp add: on_screen_def)
qed

theorem console_vprintf_on_screen_witness:
  "\<exists>con'. console_vprintf 0x700 [65, 37, 53, 100] [Va_int 42] \<lparr>cells = \<lambda>_. 0, cursor = 1999\<rparr> = Some con'
    \<and> cursor con' \<le> 2000 \<and> cells con' 2000 = 0"
proof -
  have "\<exists>con'. console_vprintf 0x700 [65, 37, 53, 100] [Va_int 42] \<lparr>cells = \<lambda>_. 0, cursor = 1999\<rparr> = Some con'"
    by (simp add: vprintf_conversion_def is_digit_def parse_width_def parse_precision_def convert_def)
  then obtain con' where r:
    "console_vprintf 0x700 [65, 37, 53, 100] [Va_int 42] \<lparr>cells = \<lambda>_. 0, cursor = 1999\<rparr> = Some con'" ..
  from console_vprintf_on_screen [OF _ r] show ?thesis using r by simp
qed

end
