(* ===== verification/X86.thy ===== *)
theory X86
  imports KLib
begin

text \<open>
  What the two toy kernels share below their C code: the saved registers (\<open>x86.h\<close>), their initial
  values, the console and the keyboard (\<open>mpos-x86.c\<close>, of which \<open>schedos-x86.c\<close> repeats these
  functions), and the program loader (\<open>mpos-loader.c\<close>, \<open>schedos-loader.c\<close>).
\<close>

section \<open>Registers\<close>

text \<open>\<open>registers_t\<close> (\<open>x86.h\<close>) without its padding words.\<close>

record registers =
  reg_edi :: u32
  reg_esi :: u32
  reg_ebp :: u32
  reg_original_esp :: u32
  reg_ebx :: u32
  reg_edx :: u32
  reg_ecx :: u32
  reg_eax :: u32
  reg_es :: u16
  reg_ds :: u16
  reg_intno :: u32
  reg_err :: u32
  reg_eip :: u32
  reg_cs :: u16
  reg_eflags :: u32
  reg_esp :: u32
  reg_ss :: u16

definition special_registers_init :: "registers" where
  "special_registers_init =
     \<lparr>reg_edi = 0, reg_esi = 0, reg_ebp = 0, reg_original_esp = 0, reg_ebx = 0, reg_edx = 0,
      reg_ecx = 0, reg_eax = 0, reg_es = 0x20 OR 3, reg_ds = 0x20 OR 3, reg_intno = 0, reg_err = 0,
      reg_eip = 0, reg_cs = 0x18 OR 3, reg_eflags = 0, reg_esp = 0, reg_ss = 0x20 OR 3\<rparr>"

definition zero_registers :: "registers" where
  "zero_registers =
     \<lparr>reg_edi = 0, reg_esi = 0, reg_ebp = 0, reg_original_esp = 0, reg_ebx = 0, reg_edx = 0,
      reg_ecx = 0, reg_eax = 0, reg_es = 0, reg_ds = 0, reg_intno = 0, reg_err = 0,
      reg_eip = 0, reg_cs = 0, reg_eflags = 0, reg_esp = 0, reg_ss = 0\<rparr>"

definition console_clear :: "console \<Rightarrow> console" where
  "console_clear con = con\<lparr>cells := \<lambda>x. if x < 80 * 25 then 32 OR 0x0700 else cells con x, cursor := 0\<rparr>"

text \<open>The keyboard status and data bytes are what \<open>inb\<close> returns.\<close>

definition console_read_digit :: "u8 \<Rightarrow> u8 \<Rightarrow> int" where
  "console_read_digit status data =
     (if status AND 1 = 0 then -1
      else if 0x02 \<le> data \<and> data \<le> 0x0A then uint data - 0x02 + 1
      else if data = 0x0B then 0
      else if 0x47 \<le> data \<and> data \<le> 0x49 then uint data - 0x47 + 7
      else if 0x4B \<le> data \<and> data \<le> 0x4D then uint data - 0x4B + 4
      else if 0x4F \<le> data \<and> data \<le> 0x51 then uint data - 0x4F + 1
      else if data = 0x53 then 0
      else -1)"

section \<open>The program loader\<close>

fun clear_bss :: "mem \<Rightarrow> nat \<Rightarrow> nat \<Rightarrow> mem" where
  "clear_bss m end_va 0 = m"
| "clear_bss m end_va (Suc n) = clear_bss (m(end_va := 0)) (end_va + 1) n"

definition copyseg :: "u32 \<Rightarrow> nat \<Rightarrow> u32 \<Rightarrow> u32 \<Rightarrow> mem \<Rightarrow> mem" where
  "copyseg dst src filesz memsz m =
     (let end_va = dst + filesz;
          end_mem = memsz + dst;
          va = dst AND NOT (4096 - 1);
          m1 = memcpy m (unat va) src (unat (end_va - va))
      in clear_bss m1 (unat end_va) (unat end_mem - unat end_va))"

text \<open>
  The loader: \<open>img\<close> is the address of the packed program, \<open>e_magic\<close>, \<open>e_entry\<close>, \<open>e_phoff\<close> and
  \<open>e_phnum\<close> are at offsets 0, 24, 28 and 44 of the header, and a program header has 32 bytes
  (\<open>elf.h\<close>). \<open>None\<close> is \<open>loader_panic\<close>.
\<close>

definition rd16 :: "mem \<Rightarrow> nat \<Rightarrow> u16" where
  "rd16 m a = ucast (m a) OR push_bit 8 (ucast (m (a + 1)))"

fun load_segments :: "nat \<Rightarrow> nat \<Rightarrow> nat \<Rightarrow> mem \<Rightarrow> mem" where
  "load_segments img ph 0 m = m"
| "load_segments img ph (Suc n) m =
     load_segments img (ph + 32) n
       (if rd32 m ph = 1
        then copyseg (rd32 m (ph + 8)) (img + unat (rd32 m (ph + 4))) (rd32 m (ph + 16)) (rd32 m (ph + 20)) m
        else m)"

definition program_loader :: "nat list \<Rightarrow> int \<Rightarrow> mem \<Rightarrow> (u32 \<times> mem) option" where
  "program_loader ramimages program_id m =
     (if program_id < 0 \<or> program_id \<ge> int (length ramimages) then None
      else
        (let img = ramimages ! nat program_id in
         if rd32 m img \<noteq> 0x464C457F then None
         else
           (let m1 = load_segments img (img + unat (rd32 m (img + 28))) (unat (rd16 m (img + 44))) m
            in Some (rd32 m1 (img + 24), m1))))"

text \<open>The smallest image: an ELF header without segments at address 0.\<close>

definition boot_mem :: mem where
  "boot_mem = wr32 (\<lambda>_. 0) 0 0x464C457F"

lemma boot_mem_simps [simp]:
  "rd32 boot_mem 0 = 0x464C457F" "rd32 boot_mem 24 = 0" "rd32 boot_mem 28 = 0" "rd16 boot_mem 44 = 0"
  by (simp_all add: boot_mem_def rd32_wr32_other) (simp_all add: rd32_def rd16_def wr32_def)

end
