(* ===== verification/Boot.thy ===== *)
theory Boot
  imports X86 CharType
begin

text \<open>
  How a kernel gets onto a disk and from there into memory: the program that makes the boot disk
  (\<open>mkbootdisk.c\<close>), and the C part of the boot sector (\<open>mpos-boot.c\<close>). The two kernels have
  copies of both.
\<close>

section \<open>Writing the disk\<close>

text \<open>
  What a call of \<open>write\<close> does: fail, be interrupted, or write at most so many bytes. The result of
  writing is the output and the calls that are left, the exit in \<open>usage\<close>, or \<open>Unfinished\<close> when the
  list of calls is used up.
\<close>

datatype host_write = Write_error | Write_interrupted | Writes nat

datatype disk_result = Written "u8 list" "host_write list" | Usage | Unfinished

text \<open>The limit of the partition, which is never set; \<open>curoff\<close> is the length of the output.\<close>

definition maxoff :: nat where
  "maxoff = 0"

fun write_loop :: "u8 list \<Rightarrow> u8 list \<Rightarrow> host_write list \<Rightarrow> disk_result" where
  "write_loop out data [] = (if data = [] then Written out [] else Unfinished)"
| "write_loop out data (w # ws) =
     (if data = [] then Written out (w # ws)
      else
        (case w of
           Write_error \<Rightarrow> Usage
         | Write_interrupted \<Rightarrow> write_loop out data ws
         | Writes n \<Rightarrow> (if n = 0 then Usage else write_loop (out @ take n data) (drop n data) ws)))"

definition diskwrite :: "u8 list \<Rightarrow> u8 list \<Rightarrow> host_write list \<Rightarrow> disk_result" where
  "diskwrite out data ws =
     (if maxoff \<noteq> 0 \<and> length out + length data > maxoff then Usage else write_loop out data ws)"

text \<open>The loop that writes empty sectors.\<close>

fun zero_sectors :: "nat \<Rightarrow> u8 list \<Rightarrow> host_write list \<Rightarrow> disk_result" where
  "zero_sectors 0 out ws = Written out ws"
| "zero_sectors (Suc n) out ws =
     (case diskwrite out (replicate 512 0) ws of Written out ws \<Rightarrow> zero_sectors n out ws | r \<Rightarrow> r)"

text \<open>The loop that copies a file through a buffer of 4096 bytes.\<close>

function copy_file :: "u8 list \<Rightarrow> u8 list \<Rightarrow> host_write list \<Rightarrow> disk_result" where
  "copy_file data out ws =
     (if data = [] then Written out ws
      else (case diskwrite out (take 4096 data) ws of
              Written out ws \<Rightarrow> copy_file (drop 4096 data) out ws
            | r \<Rightarrow> r))"
  by pat_completeness auto
termination
  by (relation "measure (\<lambda>(data, out, ws). length data)") auto

declare copy_file.simps [simp del]

definition skip_sector :: "u8 list \<Rightarrow> nat option" where
  "skip_sector arg =
     (case arg of
        at # d # rest \<Rightarrow>
          (if at = 64 \<and> 48 \<le> d \<and> d \<le> 57 then map_option (min 0xFFFFFFFF) (based_number (d # rest)) else None)
      | _ \<Rightarrow> None)"

text \<open>\<open>open_file\<close> gives the contents of a file of the host, \<open>None\<close> when it cannot be opened.\<close>

fun write_files :: "(u8 list \<Rightarrow> u8 list option) \<Rightarrow> u8 list list \<Rightarrow> nat \<Rightarrow> u8 list \<Rightarrow> host_write list \<Rightarrow> disk_result" where
  "write_files open_file [] nsectors out ws = zero_sectors (1024 - nsectors) out ws"
| "write_files open_file (arg # args) nsectors out ws =
     (case skip_sector arg of
        Some k \<Rightarrow>
          (if nsectors > k then Usage
           else (case zero_sectors (k - nsectors) out ws of
                   Written out ws \<Rightarrow> write_files open_file args k out ws
                 | r \<Rightarrow> r))
      | None \<Rightarrow>
          (case open_file arg of
             None \<Rightarrow> Usage
           | Some d \<Rightarrow>
               (case copy_file d out ws of
                  Written out ws \<Rightarrow>
                    (let pos = length d; pad = (if pos mod 512 \<noteq> 0 then 512 - pos mod 512 else 0)
                     in case (if pos mod 512 \<noteq> 0 then diskwrite out (replicate pad 0) ws else Written out ws) of
                          Written out ws \<Rightarrow> write_files open_file args (nsectors + (pos + pad) div 512) out ws
                        | r \<Rightarrow> r)
                | r \<Rightarrow> r)))"

definition boot_sector :: "u8 list \<Rightarrow> u8 list option" where
  "boot_sector d =
     (let b = take 4096 d
      in if length b > 510 then None else Some (b @ replicate (510 - length b) 0 @ [0x55, 0xAA]))"

definition mkbootdisk :: "(u8 list \<Rightarrow> u8 list option) \<Rightarrow> u8 list list \<Rightarrow> host_write list \<Rightarrow> disk_result" where
  "mkbootdisk open_file args ws =
     (case args of
        [] \<Rightarrow> Usage
      | b # files \<Rightarrow>
          (case open_file b of
             None \<Rightarrow> Usage
           | Some d \<Rightarrow>
               (case boot_sector d of
                  None \<Rightarrow> Usage
                | Some s \<Rightarrow>
                    (case diskwrite [] s ws of
                       Written out ws \<Rightarrow> write_files open_file files 1 out ws
                     | r \<Rightarrow> r))))"

section \<open>The boot loader\<close>

text \<open>
  The loader sees the status register of the disk (port \<open>0x1F7\<close>), one value for each read, and the
  data of a sector after it has written the ports \<open>0x1F2\<close> to \<open>0x1F7\<close>. \<open>None\<close> is a run in which the
  list of status values is used up.
\<close>

type_synonym ide = "u8 \<Rightarrow> u8 \<Rightarrow> u8 \<Rightarrow> u8 \<Rightarrow> u8 \<Rightarrow> u8 \<Rightarrow> u8 list"

record boot_state =
  ram :: mem
  statuses :: "u8 list"

definition disk_ready :: "u8 \<Rightarrow> bool" where
  "disk_ready st \<longleftrightarrow> st AND 0xC0 = 0x40"

definition waitdisk :: "boot_state \<Rightarrow> boot_state option" where
  "waitdisk s =
     (case dropWhile (\<lambda>st. \<not> disk_ready st) (statuses s) of
        [] \<Rightarrow> None
      | st # rest \<Rightarrow> Some (s\<lparr>statuses := rest\<rparr>))"

definition readsect :: "ide \<Rightarrow> u32 \<Rightarrow> u32 \<Rightarrow> boot_state \<Rightarrow> boot_state option" where
  "readsect ide dst sect s =
     (case waitdisk s of
        None \<Rightarrow> None
      | Some s \<Rightarrow>
          (let sector = ide 1 (ucast sect) (ucast (drop_bit 8 sect)) (ucast (drop_bit 16 sect))
                 (ucast (drop_bit 24 sect OR 0xE0)) 0x20
           in case waitdisk s of
                None \<Rightarrow> None
              | Some s \<Rightarrow> Some (s\<lparr>ram := mem_write (ram s) (unat dst) sector\<rparr>)))"

lemma length_waitdisk: "waitdisk s = Some s' \<Longrightarrow> length (statuses s') < length (statuses s)"
  using length_dropWhile_le [of "\<lambda>st. \<not> disk_ready st" "statuses s"]
  by (auto simp: waitdisk_def split: list.splits)

lemma length_readsect: "readsect ide dst sect s = Some s' \<Longrightarrow> length (statuses s') < length (statuses s)"
  by (fastforce simp: readsect_def Let_def dest!: length_waitdisk split: option.splits)

text \<open>The loop over the sectors ends because each of them reads the status.\<close>

function read_sectors :: "ide \<Rightarrow> u32 \<Rightarrow> u32 \<Rightarrow> u32 \<Rightarrow> boot_state \<Rightarrow> boot_state option" where
  "read_sectors ide va end_va sect s =
     (if va < end_va
      then (case readsect ide va sect s of
              None \<Rightarrow> None
            | Some s \<Rightarrow> read_sectors ide (va + 512) end_va (sect + 1) s)
      else Some s)"
  by pat_completeness auto
termination
  by (relation "measure (\<lambda>(ide, va, end_va, sect, s). length (statuses s))") (auto dest: length_readsect)

declare read_sectors.simps [simp del]

definition readseg :: "ide \<Rightarrow> u32 \<Rightarrow> u32 \<Rightarrow> u32 \<Rightarrow> u32 \<Rightarrow> boot_state \<Rightarrow> boot_state option" where
  "readseg ide va filesz memsz sect s =
     (let end_va = va + filesz; memsz = memsz + va
      in case read_sectors ide (va AND NOT (512 - 1)) end_va sect s of
           None \<Rightarrow> None
         | Some s \<Rightarrow> Some (s\<lparr>ram := clear_bss (ram s) (unat end_va) (unat memsz - unat end_va)\<rparr>))"

text \<open>\<open>struct Proghdr\<close> (\<open>elf.h\<close>), the fields that the loaders read.\<close>

record Proghdr =
  p_type :: u32
  p_offset :: u32
  p_va :: u32
  p_filesz :: u32
  p_memsz :: u32

definition proghdr :: "mem \<Rightarrow> nat \<Rightarrow> Proghdr" where
  "proghdr m ph = \<lparr>p_type = rd32 m ph, p_offset = rd32 m (ph + 4), p_va = rd32 m (ph + 8),
     p_filesz = rd32 m (ph + 16), p_memsz = rd32 m (ph + 20)\<rparr>"

text \<open>\<open>struct Elf\<close>, with the offset of the header in memory.\<close>

definition e_magic :: "mem \<Rightarrow> nat \<Rightarrow> u32" where "e_magic m elf = rd32 m elf"
definition e_entry :: "mem \<Rightarrow> nat \<Rightarrow> u32" where "e_entry m elf = rd32 m (elf + 24)"
definition e_phoff :: "mem \<Rightarrow> nat \<Rightarrow> u32" where "e_phoff m elf = rd32 m (elf + 28)"
definition e_phnum :: "mem \<Rightarrow> nat \<Rightarrow> u16" where "e_phnum m elf = rd16 m (elf + 44)"

definition ELFHDR :: nat where
  "ELFHDR = 0x10000"

definition boot_segment :: "ide \<Rightarrow> nat \<Rightarrow> boot_state \<Rightarrow> boot_state option" where
  "boot_segment ide ph s =
     (let h = proghdr (ram s) ph in readseg ide (p_va h) (p_filesz h) (p_memsz h) (1 + p_offset h div 512) s)"

fun boot_segments :: "ide \<Rightarrow> nat \<Rightarrow> nat \<Rightarrow> boot_state \<Rightarrow> boot_state option" where
  "boot_segments ide ph 0 s = Some s"
| "boot_segments ide ph (Suc n) s =
     (case boot_segment ide ph s of None \<Rightarrow> None | Some s \<Rightarrow> boot_segments ide (ph + 32) n s)"

text \<open>The result is the address that is jumped to, \<open>Some None\<close> when there is no ELF image.\<close>

definition bootmain :: "ide \<Rightarrow> boot_state \<Rightarrow> (u32 option \<times> boot_state) option" where
  "bootmain ide s =
     (case readseg ide (of_nat ELFHDR) 4096 4096 1 s of
        None \<Rightarrow> None
      | Some s \<Rightarrow>
          (if e_magic (ram s) ELFHDR \<noteq> 0x464C457F then Some (None, s)
           else
             (case boot_segments ide (ELFHDR + unat (e_phoff (ram s) ELFHDR)) (unat (e_phnum (ram s) ELFHDR)) s of
                None \<Rightarrow> None
              | Some s \<Rightarrow> Some (Some (e_entry (ram s) ELFHDR), s))))"

end
