(* ===== verification/BootDisk.thy ===== *)
theory BootDisk
  imports Boot
begin

text \<open>
  The boot disk as a list of sectors, and the program that writes it against that: a step of the
  program is described by what it appends to the output, whatever the calls of \<open>write\<close> do.
\<close>

section \<open>The layout of the disk\<close>

definition padded :: "u8 list \<Rightarrow> u8 list" where
  "padded d = d @ replicate ((512 - length d mod 512) mod 512) 0"

fun layout :: "(u8 list \<Rightarrow> u8 list option) \<Rightarrow> u8 list list \<Rightarrow> u8 list \<Rightarrow> u8 list option" where
  "layout open_file [] out = Some (out @ replicate (512 * 1024 - length out) 0)"
| "layout open_file (arg # args) out =
     (case skip_sector arg of
        Some k \<Rightarrow>
          (if length out > 512 * k then None else layout open_file args (out @ replicate (512 * k - length out) 0))
      | None \<Rightarrow> (case open_file arg of None \<Rightarrow> None | Some d \<Rightarrow> layout open_file args (out @ padded d)))"

definition disk_layout :: "(u8 list \<Rightarrow> u8 list option) \<Rightarrow> u8 list list \<Rightarrow> u8 list option" where
  "disk_layout open_file args =
     (case args of
        [] \<Rightarrow> None
      | b # files \<Rightarrow> Option.bind (open_file b) (\<lambda>d. Option.bind (boot_sector d) (layout open_file files)))"

text \<open>Calls of \<open>write\<close> that may be interrupted or short, but make progress.\<close>

definition progress :: "host_write list \<Rightarrow> bool" where
  "progress ws \<longleftrightarrow> (\<forall>w \<in> set ws. w \<noteq> Write_error \<and> w \<noteq> Writes 0)"

definition writes :: "host_write list \<Rightarrow> nat" where
  "writes ws = length (filter (\<lambda>w. w \<noteq> Write_interrupted) ws)"

lemma writes_simps [simp]:
  "writes [] = 0" "writes (Writes n # ws) = Suc (writes ws)" "writes (Write_interrupted # ws) = writes ws"
  by (simp_all add: writes_def)

lemma progress_simps [simp]:
  "progress []" "progress (Writes n # ws) \<longleftrightarrow> 0 < n \<and> progress ws" "progress (Write_interrupted # ws) \<longleftrightarrow> progress ws"
  "\<not> progress (Write_error # ws)"
  by (auto simp: progress_def)

text \<open>What a step of the program does to the output: it appends \<open>data\<close>, if the calls allow it.\<close>

definition appends :: "(u8 list \<Rightarrow> host_write list \<Rightarrow> disk_result) \<Rightarrow> u8 list \<Rightarrow> u8 list \<Rightarrow> bool" where
  "appends f out data \<longleftrightarrow>
     (\<forall>ws. (\<forall>out' ws'. f out ws = Written out' ws' \<longrightarrow> out' = out @ data)
       \<and> (progress ws \<and> length data \<le> writes ws \<longrightarrow>
          (\<exists>ws'. f out ws = Written (out @ data) ws' \<and> progress ws' \<and> writes ws \<le> writes ws' + length data)))"

lemma appends_cong: "appends f out d \<Longrightarrow> (\<And>ws. f out ws = g out ws) \<Longrightarrow> appends g out d"
  by (simp add: appends_def)

lemma appendsD: "appends f out d \<Longrightarrow> f out ws = Written out' ws' \<Longrightarrow> out' = out @ d"
  unfolding appends_def by blast

lemma appendsE:
  assumes "appends f out d" "progress ws" "length d \<le> writes ws"
  obtains ws' where "f out ws = Written (out @ d) ws'" "progress ws'" "writes ws \<le> writes ws' + length d"
  using assms unfolding appends_def by blast

lemma appendsI:
  assumes "\<And>ws out' ws'. f out ws = Written out' ws' \<Longrightarrow> out' = out @ d"
    and "\<And>ws. progress ws \<Longrightarrow> length d \<le> writes ws
      \<Longrightarrow> \<exists>ws'. f out ws = Written (out @ d) ws' \<and> progress ws' \<and> writes ws \<le> writes ws' + length d"
  shows "appends f out d"
  using assms unfolding appends_def by blast

lemma appends_then:
  assumes f: "appends f out d" and g: "appends g (out @ d) e"
  shows "appends (\<lambda>out ws. case f out ws of Written out ws \<Rightarrow> g out ws | Usage \<Rightarrow> Usage | Unfinished \<Rightarrow> Unfinished) out (d @ e)"
proof (rule appendsI)
  fix ws out' ws'
  assume "(case f out ws of Written out ws \<Rightarrow> g out ws | Usage \<Rightarrow> Usage | Unfinished \<Rightarrow> Unfinished) = Written out' ws'"
  then obtain o1 w1 where 1: "f out ws = Written o1 w1" "g o1 w1 = Written out' ws'" by (auto split: disk_result.splits)
  then have "o1 = out @ d" using appendsD [OF f] by blast
  then show "out' = out @ d @ e" using appendsD [OF g] 1(2) by fastforce
next
  fix ws
  assume ws: "progress ws" "length (d @ e) \<le> writes ws"
  then obtain w1 where 1: "f out ws = Written (out @ d) w1" "progress w1" "writes ws \<le> writes w1 + length d"
    using appendsE [OF f, of ws] by auto
  then obtain w2 where "g (out @ d) w1 = Written ((out @ d) @ e) w2" "progress w2" "writes w1 \<le> writes w2 + length e"
    using appendsE [OF g 1(2)] ws(2) by auto
  then show "\<exists>ws'. (case f out ws of Written out ws \<Rightarrow> g out ws | Usage \<Rightarrow> Usage | Unfinished \<Rightarrow> Unfinished) = Written (out @ d @ e) ws'
      \<and> progress ws' \<and> writes ws \<le> writes ws' + length (d @ e)"
    using 1 by (intro exI [of _ w2]) simp
qed

lemma write_loop_Written: "write_loop out data ws = Written out' ws' \<Longrightarrow> out' = out @ data"
  by (induction out data ws rule: write_loop.induct) (auto split: host_write.splits if_splits)

lemma write_loop_completes:
  "progress ws \<Longrightarrow> length data \<le> writes ws
    \<Longrightarrow> \<exists>ws'. write_loop out data ws = Written (out @ data) ws' \<and> progress ws' \<and> writes ws \<le> writes ws' + length data"
proof (induction out data ws rule: write_loop.induct)
  case (2 out data w ws)
  show ?case
  proof (cases "data = []")
    case False
    show ?thesis
    proof (cases w)
      case (Writes n)
      moreover have "length (drop n data) \<le> writes ws" "n \<noteq> 0" "progress ws" using 2(3,4) Writes by auto
      moreover have "length (drop n data) + 1 \<le> length data" using \<open>n \<noteq> 0\<close> False by (cases data) auto
      moreover obtain ws' where "write_loop (out @ take n data) (drop n data) ws = Written ((out @ take n data) @ drop n data) ws'"
          "progress ws'" "writes ws \<le> writes ws' + length (drop n data)"
        using 2(2) [OF False Writes \<open>n \<noteq> 0\<close>] \<open>progress ws\<close> \<open>length (drop n data) \<le> writes ws\<close> by blast
      ultimately show ?thesis using False Writes by (intro exI [of _ ws']) simp
    qed (use 2(1,3,4) False in auto)
  qed (use 2 in auto)
qed auto

lemma appends_write: "appends (\<lambda>out. diskwrite out data) out data"
  by (rule appendsI) (auto simp: diskwrite_def maxoff_def dest: write_loop_Written intro: write_loop_completes)

lemma appends_zero: "appends (zero_sectors n) out (replicate (512 * n) 0)"
proof (induction n arbitrary: out)
  case (Suc n)
  have "appends (zero_sectors (Suc n)) out (replicate 512 0 @ replicate (512 * n) 0)"
    by (rule appends_cong [OF appends_then [OF appends_write Suc.IH]]) simp
  then show ?case by (simp only: replicate_add [symmetric] mult_Suc_right)
qed (simp add: appends_def)

lemma appends_copy: "appends (copy_file d) out d"
proof (induction d arbitrary: out rule: length_induct)
  case (1 d)
  show ?case
  proof (cases "d = []")
    case True
    then show ?thesis by (simp add: appends_def copy_file.simps)
  next
    case False
    then have "appends (copy_file (drop 4096 d)) (out @ take 4096 d) (drop 4096 d)" using 1 by simp
    from appends_then [OF appends_write this]
    have "appends (\<lambda>out ws. case diskwrite out (take 4096 d) ws of Written out ws \<Rightarrow> copy_file (drop 4096 d) out ws
        | Usage \<Rightarrow> Usage | Unfinished \<Rightarrow> Unfinished) out d" by simp
    then show ?thesis by (rule appends_cong) (subst copy_file.simps, simp add: False)
  qed
qed

lemma round_up: "(n::nat) + (512 - n mod 512) mod 512 = 512 * ((n + 511) div 512)"
proof -
  define q r where "q = n div 512" "r = n mod 512"
  then have n: "n = 512 * q + r" "r < 512" by simp_all
  then have "(n + 511) div 512 = q + (r + 511) div 512" by simp
  moreover have "(r + 511) div 512 = (if r = 0 then 0 else 1)" using n(2) by auto
  ultimately show ?thesis using n by auto
qed

lemma length_padded: "length (padded d) = 512 * ((length d + 511) div 512)"
  by (simp add: padded_def round_up)

lemma appends_padded:
  "appends (\<lambda>out ws. case copy_file d out ws of
       Written out ws \<Rightarrow> if length d mod 512 \<noteq> 0 then diskwrite out (replicate (512 - length d mod 512) 0) ws else Written out ws
     | Usage \<Rightarrow> Usage | Unfinished \<Rightarrow> Unfinished) out (padded d)"
proof -
  have "appends (\<lambda>out ws. if length d mod 512 \<noteq> 0 then diskwrite out (replicate (512 - length d mod 512) 0) ws else Written out ws)
      (out @ d) (replicate ((512 - length d mod 512) mod 512) 0)"
    (is "appends ?pad _ ?zeros")
  proof (cases "length d mod 512 = 0")
    case False
    then have "?zeros = replicate (512 - length d mod 512) 0" by simp
    then show ?thesis using False by (auto intro: appends_cong [OF appends_write])
  qed (simp add: appends_def)
  from appends_then [OF appends_copy this] show ?thesis
    unfolding padded_def by (rule appends_cong) (rule refl)
qed

text \<open>The loop over the arguments.\<close>

definition lays :: "(u8 list \<Rightarrow> u8 list option) \<Rightarrow> u8 list list \<Rightarrow> nat \<Rightarrow> u8 list \<Rightarrow> bool" where
  "lays open_file args n out \<longleftrightarrow>
     (case layout open_file args out of
        Some img \<Rightarrow> \<exists>d. img = out @ d \<and> appends (write_files open_file args n) out d
      | None \<Rightarrow> \<forall>ws img ws'. write_files open_file args n out ws \<noteq> Written img ws')"

lemma lays_step:
  assumes f: "appends f out e" and IH: "lays open_file args k (out @ e)"
    and layout: "layout open_file (arg # args) out = layout open_file args (out @ e)"
    and step: "\<And>ws. write_files open_file (arg # args) n out ws = (case f out ws of
      Written out ws \<Rightarrow> write_files open_file args k out ws | Usage \<Rightarrow> Usage | Unfinished \<Rightarrow> Unfinished)"
  shows "lays open_file (arg # args) n out"
proof (cases "layout open_file args (out @ e)")
  case None
  have "write_files open_file (arg # args) n out ws \<noteq> Written img ws'" for ws img ws'
    using IH None appendsD [OF f, of ws] unfolding step lays_def by (cases "f out ws") auto
  then show ?thesis using None layout by (simp add: lays_def)
next
  case (Some img)
  then obtain d where d: "img = (out @ e) @ d" "appends (write_files open_file args k) (out @ e) d"
    using IH by (auto simp: lays_def)
  have "appends (write_files open_file (arg # args) n) out (e @ d)"
    by (rule appends_cong [OF appends_then [OF f d(2)]]) (simp only: step)
  then show ?thesis using Some d(1) layout by (auto simp: lays_def)
qed

lemma write_file_step:
  assumes "skip_sector arg = None" "open_file arg = Some d"
  shows "write_files open_file (arg # args) n out ws =
    (case (case copy_file d out ws of
             Written out ws \<Rightarrow> if length d mod 512 \<noteq> 0 then diskwrite out (replicate (512 - length d mod 512) 0) ws else Written out ws
           | Usage \<Rightarrow> Usage | Unfinished \<Rightarrow> Unfinished) of
       Written out ws \<Rightarrow> write_files open_file args (n + (length d + 511) div 512) out ws
     | Usage \<Rightarrow> Usage | Unfinished \<Rightarrow> Unfinished)"
proof -
  define pad where "pad = (if length d mod 512 \<noteq> 0 then 512 - length d mod 512 else 0)"
  have "length d + pad = 512 * ((length d + 511) div 512)"
    using round_up [of "length d"] by (auto simp: pad_def)
  then have "(length d + pad) div 512 = (length d + 511) div 512" by simp
  then have "write_files open_file (arg # args) n out ws = (case copy_file d out ws of
      Written out ws \<Rightarrow>
        (case (if length d mod 512 \<noteq> 0 then diskwrite out (replicate pad 0) ws else Written out ws) of
           Written out ws \<Rightarrow> write_files open_file args (n + (length d + 511) div 512) out ws
         | Usage \<Rightarrow> Usage | Unfinished \<Rightarrow> Unfinished)
    | Usage \<Rightarrow> Usage | Unfinished \<Rightarrow> Unfinished)"
    by (simp only: write_files.simps assms option.case Let_def pad_def [symmetric])
  then show ?thesis
    by (cases "copy_file d out ws"; cases "length d mod 512 = 0") (simp_all del: write_files.simps add: pad_def)
qed

lemma write_files_lays: "length out = 512 * n \<Longrightarrow> lays open_file args n out"
proof (induction args arbitrary: n out)
  case Nil
  then have "512 * 1024 - length out = 512 * (1024 - n)" by simp
  moreover have "appends (write_files open_file [] n) out (replicate (512 * (1024 - n)) 0)"
    by (rule appends_cong [OF appends_zero]) simp
  ultimately show ?case by (simp add: lays_def)
next
  case (Cons arg args)
  show ?case
  proof (cases "skip_sector arg")
    case (Some k)
    show ?thesis
    proof (cases "n > k")
      case True
      then show ?thesis using Some Cons.prems by (simp add: lays_def)
    next
      case False
      then show ?thesis using Cons.prems Some
        by (intro lays_step [OF appends_zero [of "k - n"] Cons.IH [of _ k]]) (simp_all add: diff_mult_distrib2)
    qed
  next
    case None
    show ?thesis
    proof (cases "open_file arg")
      case d: (Some d)
      have "length (out @ padded d) = 512 * (n + (length d + 511) div 512)"
        using Cons.prems by (simp add: length_padded)
      then show ?thesis
        by (intro lays_step [OF appends_padded _ _ write_file_step] Cons.IH) (simp_all add: None d)
    qed (use None Cons.prems in \<open>simp add: lays_def\<close>)
  qed
qed

lemma boot_sector_length: "boot_sector d = Some s \<Longrightarrow> length s = 512"
  by (auto simp: boot_sector_def Let_def split: if_splits)

lemma mkbootdisk_layout:
  shows "(mkbootdisk open_file args ws = Written img ws' \<longrightarrow> disk_layout open_file args = Some img)
    \<and> (disk_layout open_file args = Some img \<and> progress ws \<and> length img \<le> writes ws
       \<longrightarrow> (\<exists>ws'. mkbootdisk open_file args ws = Written img ws'))"
proof (cases "\<exists>b files d s. args = b # files \<and> open_file b = Some d \<and> boot_sector d = Some s")
  case False
  then have "mkbootdisk open_file args ws = Usage" "disk_layout open_file args = None"
    by (auto simp: mkbootdisk_def disk_layout_def bind_eq_None_conv split: list.splits option.splits)
  then show ?thesis by simp
next
  case True
  then obtain b files d s where b: "args = b # files" "open_file b = Some d" "boot_sector d = Some s" by blast
  have lay: "disk_layout open_file args = layout open_file files s" by (simp add: disk_layout_def b)
  have run: "mkbootdisk open_file args ws = (case diskwrite [] s ws of
      Written out ws \<Rightarrow> write_files open_file files 1 out ws | Usage \<Rightarrow> Usage | Unfinished \<Rightarrow> Unfinished)"
    by (simp add: mkbootdisk_def b)
  have files: "lays open_file files 1 s" using boot_sector_length [OF b(3)] by (intro write_files_lays) simp
  show ?thesis
  proof (cases "layout open_file files s")
    case None
    then show ?thesis using files appendsD [OF appends_write, of "[]" s ws]
      unfolding run lay lays_def by (auto split: disk_result.splits)
  next
    case (Some i)
    then obtain e where e: "i = s @ e" "appends (write_files open_file files 1) ([] @ s) e"
      using files by (auto simp: lays_def)
    have "appends (\<lambda>out ws. case diskwrite out s ws of
        Written out ws \<Rightarrow> write_files open_file files 1 out ws | Usage \<Rightarrow> Usage | Unfinished \<Rightarrow> Unfinished) [] i"
      unfolding e(1) by (rule appends_then [OF appends_write e(2)])
    then have "mkbootdisk open_file args ws = Written img ws' \<Longrightarrow> img = i"
      "progress ws \<Longrightarrow> length i \<le> writes ws \<Longrightarrow> \<exists>ws'. mkbootdisk open_file args ws = Written i ws'"
      unfolding run by (force dest: appendsD, auto elim: appendsE)
    then show ?thesis unfolding lay Some by auto
  qed
qed

text \<open>C34: Whatever the calls of \<open>write\<close> do, a disk that \<open>mkbootdisk\<close> finishes is the one that the layout
  prescribes: the boot sector with its signature, every file padded to whole sectors or put at the
  sector asked for, and zeros up to 1024 sectors. When a file is missing, the boot sector is too
  large or a sector number lies behind, it never finishes; and when there are enough calls that
  make progress (short and interrupted ones allowed), it does finish.\<close>

theorem mkbootdisk_writes_layout:
  "(mkbootdisk open_file args ws = Written img ws' \<longrightarrow> disk_layout open_file args = Some img)
    \<and> (disk_layout open_file args = Some img \<and> progress ws \<and> length img \<le> writes ws
       \<longrightarrow> (\<exists>ws'. mkbootdisk open_file args ws = Written img ws'))"
  by (rule mkbootdisk_layout)

theorem mkbootdisk_writes_layout_witness:
  "\<exists>img ws'. mkbootdisk [[98] \<mapsto> [0xFA]] [[98]] (replicate 600000 (Writes 3)) = Written img ws'
    \<and> disk_layout [[98] \<mapsto> [0xFA]] [[98]] = Some img"
proof -
  obtain img where lay: "disk_layout [[98] \<mapsto> [0xFA]] [[98]] = Some img" "length img = 524288"
    by (simp add: disk_layout_def boot_sector_def)
  have "progress (replicate 600000 (Writes 3))" "length img \<le> writes (replicate 600000 (Writes 3))"
    using lay(2) by (simp_all add: progress_def writes_def)
  then show ?thesis using mkbootdisk_writes_layout [of "[[98] \<mapsto> [0xFA]]" "[[98]]" _ img] lay(1) by blast
qed

end
