(* ===== verification/BootProps.thy ===== *)
theory BootProps
  imports BootDisk
begin

text \<open>
  What is in memory when the boot loader jumps into a kernel that \<open>mkbootdisk\<close> has put on a disk, and
  what the program loader of the kernels leaves. Both loaders interpret \<open>segment_loader\<close>, a loop over
  program headers that lie in the memory that it writes.
\<close>

section \<open>Reading sectors\<close>

text \<open>A drive that holds \<open>img\<close>: with a sector number in its registers, it delivers that sector.\<close>

definition ide_drive :: "ide \<Rightarrow> mem \<Rightarrow> bool" where
  "ide_drive ide img \<longleftrightarrow>
     (\<forall>sect < 0x10000000. ide 1 (ucast sect) (ucast (drop_bit 8 sect)) (ucast (drop_bit 16 sect))
        (ucast (drop_bit 24 sect OR 0xE0)) 0x20 = mem_read img (512 * unat (sect :: u32)) 512)"

definition ready :: "boot_state \<Rightarrow> nat" where
  "ready s = length (filter disk_ready (statuses s))"

lemma ready_ram [simp]: "ready (s\<lparr>ram := m\<rparr>) = ready s"
  by (simp add: ready_def)

lemma waitdisk_ok:
  assumes "0 < ready s"
  obtains s' where "waitdisk s = Some s'" "ram s' = ram s" "ready s = Suc (ready s')"
proof -
  have "0 < length (filter disk_ready xs) \<Longrightarrow> \<exists>y ys. dropWhile (\<lambda>st. \<not> disk_ready st) xs = y # ys
      \<and> length (filter disk_ready xs) = Suc (length (filter disk_ready ys))" for xs
    by (induction xs) auto
  then show thesis using assms that unfolding ready_def waitdisk_def by fastforce
qed

lemma readsect_ok:
  assumes "ide_drive ide img" "unat sect < 0x10000000" "2 \<le> ready s"
  obtains s' where "readsect ide dst sect s = Some s'" "ready s' = ready s - 2"
    "ram s' = mem_write (ram s) (unat dst) (mem_read img (512 * unat sect) 512)"
proof -
  obtain s1 where 1: "waitdisk s = Some s1" "ram s1 = ram s" "ready s = Suc (ready s1)"
    using waitdisk_ok [of s] assms(3) by auto
  then obtain s2 where 2: "waitdisk s1 = Some s2" "ram s2 = ram s" "ready s1 = Suc (ready s2)"
    using waitdisk_ok [of s1] assms(3) by auto
  show thesis
  proof (rule that)
    show "readsect ide dst sect s = Some (s2\<lparr>ram := mem_write (ram s) (unat dst) (mem_read img (512 * unat sect) 512)\<rparr>)"
      using assms(1,2) 1 2 by (simp add: readsect_def Let_def ide_drive_def word_less_nat_alt)
  qed (use 1 2 in simp_all)
qed

definition loaded :: "mem \<Rightarrow> nat \<Rightarrow> nat \<Rightarrow> mem \<Rightarrow> mem" where
  "loaded m a n f = (\<lambda>x. if a \<le> x \<and> x < a + n then f (x - a) else m x)"

lemma loaded_sector:
  "loaded (mem_write m a (mem_read img b 512)) (a + 512) n (\<lambda>i. img (b + 512 + i)) = loaded m a (n + 512) (\<lambda>i. img (b + i))"
  by (auto simp: loaded_def fun_eq_iff mem_write_def)

lemma read_sectors_ok:
  assumes "ide_drive ide img"
  shows "\<lbrakk>n = (unat end_va + 511) div 512 - unat va div 512; unat va mod 512 = 0; unat end_va + 512 \<le> 2 ^ 32;
      unat sect + n \<le> 0x10000000; 2 * n \<le> ready s\<rbrakk>
    \<Longrightarrow> \<exists>s'. read_sectors ide va end_va sect s = Some s' \<and> ready s' = ready s - 2 * n
         \<and> ram s' = loaded (ram s) (unat va) (512 * n) (\<lambda>i. img (512 * unat sect + i))"
proof (induction n arbitrary: va sect s)
  case 0
  then have "\<not> va < end_va" by (simp add: word_less_nat_alt)
  then show ?case by (subst read_sectors.simps) (auto simp: loaded_def fun_eq_iff)
next
  case (Suc n)
  then have "Suc (unat va div 512) \<le> (unat end_va + 511) div 512" by (metis Suc.prems(1) Suc_leI zero_less_Suc zero_less_diff)
  then have "512 * Suc (unat va div 512) \<le> 512 * ((unat end_va + 511) div 512)" by simp
  moreover have "512 * ((unat end_va + 511) div 512) \<le> unat end_va + 511" by simp
  moreover have "512 * (unat va div 512) = unat va" using Suc.prems(2) by auto
  ultimately have va: "va < end_va" "unat va + 512 < 2 ^ 32" using Suc.prems(3) by (simp_all add: word_less_nat_alt)
  obtain s1 where 1: "readsect ide va sect s = Some s1" "ready s1 = ready s - 2"
    "ram s1 = mem_write (ram s) (unat va) (mem_read img (512 * unat sect) 512)"
    using readsect_ok [OF assms, of sect s va] Suc.prems(4,5) by auto
  have next_va: "unat (va + 512) = unat va + 512" "unat (sect + 1) = unat sect + 1"
    using va(2) Suc.prems(4) by (simp_all add: unat_add_u32)
  have "\<exists>s'. read_sectors ide (va + 512) end_va (sect + 1) s1 = Some s' \<and> ready s' = ready s1 - 2 * n
      \<and> ram s' = loaded (ram s1) (unat (va + 512)) (512 * n) (\<lambda>i. img (512 * unat (sect + 1) + i))"
    by (rule Suc.IH) (use Suc.prems next_va 1(2) in auto)
  then obtain s2 where 2: "read_sectors ide (va + 512) end_va (sect + 1) s1 = Some s2" "ready s2 = ready s1 - 2 * n"
    "ram s2 = loaded (ram s1) (unat va + 512) (512 * n) (\<lambda>i. img (512 * unat sect + 512 + i))"
    unfolding next_va by (auto simp: algebra_simps)
  have "ram s2 = loaded (ram s) (unat va) (512 * Suc n) (\<lambda>i. img (512 * unat sect + i))"
    unfolding 2(3) 1(3) loaded_sector by (simp only: mult_Suc_right add.commute [of 512])
  then show ?case using va(1) 1 2(1,2) by (subst read_sectors.simps) simp
qed

lemma clear_bss_apply: "clear_bss m a n = mem_fill m a 0 n"
proof (induction n arbitrary: m a)
  case (Suc n)
  then show ?case by (auto simp: mem_fill_def fun_eq_iff)
qed (auto simp: mem_fill_def fun_eq_iff)

lemma word_round_down: "unat (va AND NOT (512 - 1) :: u32) = 512 * (unat va div 512)"
proof -
  have "va AND NOT (512 - 1) = push_bit 9 (drop_bit 9 va)"
  proof -
    have m: "(512 - 1 :: u32) = mask 9" by (simp add: mask_eq_exp_minus_1)
    show ?thesis unfolding m by (rule bit_word_eqI) (auto simp: bit_simps)
  qed
  also have "\<dots> = drop_bit 9 va * 512" by (simp add: push_bit_eq_mult)
  finally have "unat (va AND NOT (512 - 1)) = unat (drop_bit 9 va * of_nat 512)" by (simp only: of_nat_numeral)
  moreover have "unat (drop_bit 9 va) = unat va div 512" by (simp add: unat_drop_bit_eq drop_bit_eq_div unat_div)
  ultimately show ?thesis
    using unat_u32_mult_const [of "drop_bit 9 va" 512] unat_u32_less [of va] by simp
qed

text \<open>The sectors that \<open>readseg\<close> reads for a segment, and the addresses that it writes.\<close>

definition seg_sectors :: "Proghdr \<Rightarrow> nat" where
  "seg_sectors h = (unat (p_va h) + unat (p_filesz h) + 511) div 512 - unat (p_va h) div 512"

definition seg_end :: "Proghdr \<Rightarrow> nat" where
  "seg_end h = max (512 * ((unat (p_va h) + unat (p_filesz h) + 511) div 512)) (unat (p_va h) + unat (p_memsz h))"

definition seg_fits :: "Proghdr \<Rightarrow> bool" where
  "seg_fits h \<longleftrightarrow> unat (p_va h) + unat (p_filesz h) + 512 \<le> 2 ^ 32 \<and> unat (p_va h) + unat (p_memsz h) < 2 ^ 32
     \<and> 1 + unat (p_offset h) div 512 + seg_sectors h \<le> 0x10000000"

lemma readseg_ok:
  assumes "ide_drive ide img" "seg_fits h" "2 * seg_sectors h \<le> ready s"
  obtains s' where "readseg ide (p_va h) (p_filesz h) (p_memsz h) (1 + p_offset h div 512) s = Some s'"
    "ready s' = ready s - 2 * seg_sectors h"
    "ram s' = mem_fill
       (loaded (ram s) (512 * (unat (p_va h) div 512)) (512 * seg_sectors h) (\<lambda>i. img (512 * (1 + unat (p_offset h) div 512) + i)))
       (unat (p_va h) + unat (p_filesz h)) 0 (unat (p_memsz h) - unat (p_filesz h))"
proof -
  have e: "unat (p_va h + p_filesz h) = unat (p_va h) + unat (p_filesz h)" "unat (p_memsz h + p_va h) = unat (p_memsz h) + unat (p_va h)"
    using assms(2) by (simp_all add: seg_fits_def unat_add_u32)
  have sect: "unat (1 + p_offset h div 512) = 1 + unat (p_offset h) div 512"
    using assms(2) by (simp add: seg_fits_def unat_add_u32 unat_div)
  obtain s1 where 1: "read_sectors ide (p_va h AND NOT (512 - 1)) (p_va h + p_filesz h) (1 + p_offset h div 512) s = Some s1"
    "ready s1 = ready s - 2 * seg_sectors h"
    "ram s1 = loaded (ram s) (512 * (unat (p_va h) div 512)) (512 * seg_sectors h) (\<lambda>i. img (512 * (1 + unat (p_offset h) div 512) + i))"
    using read_sectors_ok [OF assms(1), of "seg_sectors h" "p_va h + p_filesz h" "p_va h AND NOT (512 - 1)" "1 + p_offset h div 512" s]
      assms(2,3) unfolding word_round_down e sect by (auto simp: seg_fits_def seg_sectors_def)
  show thesis
  proof (rule that)
    show "readseg ide (p_va h) (p_filesz h) (p_memsz h) (1 + p_offset h div 512) s = Some (s1\<lparr>ram := mem_fill (ram s1)
        (unat (p_va h) + unat (p_filesz h)) 0 (unat (p_memsz h) - unat (p_filesz h))\<rparr>)"
      unfolding readseg_def Let_def 1(1) option.case clear_bss_apply e by simp
  qed (simp_all add: 1)
qed

section \<open>Segments\<close>

text \<open>
  A loader that goes over the program headers of an image. Header \<open>i\<close> wants the bytes \<open>wanted i\<close> at the
  addresses \<open>target i\<close>; loading it may write anything in \<open>touched i\<close> and spends \<open>cost i\<close> of a budget. The
  loader reads the header \<open>i\<close> from the addresses \<open>table\<close> of the memory, where \<open>headers\<close> was put.
\<close>

fun load_each :: "(nat \<Rightarrow> 's \<Rightarrow> 's option) \<Rightarrow> nat \<Rightarrow> nat \<Rightarrow> 's \<Rightarrow> 's option" where
  "load_each load i 0 s = Some s"
| "load_each load i (Suc n) s = (case load i s of None \<Rightarrow> None | Some s \<Rightarrow> load_each load (Suc i) n s)"

locale segment_loader =
  fixes load :: "nat \<Rightarrow> 's \<Rightarrow> 's option"
    and memory :: "'s \<Rightarrow> mem"
    and budget :: "'s \<Rightarrow> nat"
    and cost :: "nat \<Rightarrow> nat"
    and ok :: "nat \<Rightarrow> bool"
    and table :: "nat set"
    and headers :: mem
    and touched :: "nat \<Rightarrow> nat set"
    and target :: "nat \<Rightarrow> nat set"
    and wanted :: "nat \<Rightarrow> mem"
  assumes load_ok: "ok i \<Longrightarrow> \<forall>a \<in> table. memory s a = headers a \<Longrightarrow> cost i \<le> budget s
      \<Longrightarrow> \<exists>s'. load i s = Some s' \<and> budget s' = budget s - cost i
           \<and> (\<forall>a \<in> target i. memory s' a = wanted i a) \<and> (\<forall>a. a \<notin> touched i \<longrightarrow> memory s' a = memory s a)"
begin

lemma load_each_ok:
  assumes "\<forall>j < i + n. i \<le> j \<longrightarrow> ok j \<and> touched j \<inter> table = {}"
    and "\<forall>j < i + n. \<forall>k < i + n. i \<le> k \<and> j < k \<longrightarrow> touched k \<inter> target j = {}"
    and "\<forall>a \<in> table. memory s a = headers a" "\<forall>j < i. \<forall>a \<in> target j. memory s a = wanted j a"
    and "(\<Sum>j = i..<i + n. cost j) \<le> budget s"
  shows "\<exists>s'. load_each load i n s = Some s' \<and> (\<forall>j < i + n. \<forall>a \<in> target j. memory s' a = wanted j a)
    \<and> (\<forall>a \<in> table. memory s' a = headers a)
    \<and> (\<forall>a. (\<forall>j < i + n. i \<le> j \<longrightarrow> a \<notin> touched j) \<longrightarrow> memory s' a = memory s a)"
  using assms
proof (induction n arbitrary: i s)
  case (Suc n)
  have sum: "(\<Sum>j = i..<i + Suc n. cost j) = cost i + (\<Sum>j = Suc i..<Suc i + n. cost j)"
    by (simp add: sum.atLeast_Suc_lessThan)
  then obtain s1 where 1: "load i s = Some s1" "budget s1 = budget s - cost i"
    "\<forall>a \<in> target i. memory s1 a = wanted i a" "\<forall>a. a \<notin> touched i \<longrightarrow> memory s1 a = memory s a"
    using load_ok [of i s] Suc.prems(1,3,5) unfolding sum by fastforce
  have "\<exists>s'. load_each load (Suc i) n s1 = Some s' \<and> (\<forall>j < Suc i + n. \<forall>a \<in> target j. memory s' a = wanted j a)
    \<and> (\<forall>a \<in> table. memory s' a = headers a)
    \<and> (\<forall>a. (\<forall>j < Suc i + n. Suc i \<le> j \<longrightarrow> a \<notin> touched j) \<longrightarrow> memory s' a = memory s1 a)"
  proof (rule Suc.IH)
    have "touched i \<inter> table = {}" using Suc.prems(1) by simp
    then show "\<forall>a \<in> table. memory s1 a = headers a" using Suc.prems(3) 1(4) by (metis disjoint_iff)
    show "\<forall>j < Suc i. \<forall>a \<in> target j. memory s1 a = wanted j a"
    proof (intro allI impI ballI)
      fix j a assume j: "j < Suc i" "a \<in> target j"
      show "memory s1 a = wanted j a"
      proof (cases "j = i")
        case False
        then have "touched i \<inter> target j = {}" using Suc.prems(2) j by simp
        then have "a \<notin> touched i" using j(2) by blast
        then show ?thesis using 1(4) Suc.prems(4) j False by auto
      qed (use 1(3) j in auto)
    qed
    show "(\<Sum>j = Suc i..<Suc i + n. cost j) \<le> budget s1" using Suc.prems(5) sum 1(2) by linarith
  qed (use Suc.prems(1,2) in auto)
  then obtain s2 where 2: "load_each load (Suc i) n s1 = Some s2" "\<forall>j < i + Suc n. \<forall>a \<in> target j. memory s2 a = wanted j a"
    "\<forall>a \<in> table. memory s2 a = headers a"
    "\<forall>a. (\<forall>j < i + Suc n. Suc i \<le> j \<longrightarrow> a \<notin> touched j) \<longrightarrow> memory s2 a = memory s1 a"
    unfolding add_Suc add_Suc_right by blast
  have "memory s2 a = memory s a" if "\<forall>j < i + Suc n. i \<le> j \<longrightarrow> a \<notin> touched j" for a
  proof -
    have "memory s2 a = memory s1 a" using 2(4) that by simp
    also have "\<dots> = memory s a" using 1(4) that by simp
    finally show ?thesis .
  qed
  then show ?case using 1(1) 2(1-3) by (intro exI [of _ s2]) simp
qed auto

end

text \<open>What a segment of the file \<open>f\<close> should look like in memory: its bytes, then zeros.\<close>

definition seg_target :: "Proghdr \<Rightarrow> nat set" where
  "seg_target h = {unat (p_va h)..<unat (p_va h) + max (unat (p_filesz h)) (unat (p_memsz h))}"

definition seg_wanted :: "mem \<Rightarrow> Proghdr \<Rightarrow> mem" where
  "seg_wanted f h a = (if a < unat (p_va h) + unat (p_filesz h) then f (unat (p_offset h) + (a - unat (p_va h))) else 0)"

definition in_memory :: "mem \<Rightarrow> Proghdr \<Rightarrow> mem \<Rightarrow> bool" where
  "in_memory f h m \<longleftrightarrow> (\<forall>a \<in> seg_target h. m a = seg_wanted f h a)"

lemma rd_move:
  assumes "\<forall>d < 4. m (p + d) = f (q + d)"
  shows "rd32 m p = rd32 f q" "rd16 m p = rd16 f q"
proof -
  have "m (p + 0) = f (q + 0)" "m (p + 1) = f (q + 1)" "m (p + 2) = f (q + 2)" "m (p + 3) = f (q + 3)"
    using assms [rule_format, of 0] assms [rule_format, of 1] assms [rule_format, of 2] assms [rule_format, of 3] by simp_all
  then show "rd32 m p = rd32 f q" "rd16 m p = rd16 f q" by (simp_all add: rd32_def rd16_def)
qed

lemma proghdr_cong:
  assumes "\<forall>a \<in> {p + ph..<p + ph + 32}. m a = f (a - p)"
  shows "proghdr m (p + ph) = proghdr f ph"
proof -
  have "rd32 m (p + ph + d) = rd32 f (ph + d)" if "d + 4 \<le> 32" for d
    by (rule rd_move) (use assms that in \<open>auto simp: add.assoc\<close>)
  from this [of 0] this [of 4] this [of 8] this [of 16] this [of 20] show ?thesis
    by (simp add: proghdr_def add.assoc)
qed

subsection \<open>The boot loader\<close>

definition boot_touched :: "Proghdr \<Rightarrow> nat set" where
  "boot_touched h = {512 * (unat (p_va h) div 512)..<seg_end h}"

text \<open>A segment that can be read by sectors: its address and its offset agree modulo the sector size.\<close>

definition boot_ok :: "nat \<Rightarrow> Proghdr \<Rightarrow> bool" where
  "boot_ok len h \<longleftrightarrow> seg_fits h \<and> unat (p_va h) mod 512 = unat (p_offset h) mod 512
     \<and> unat (p_offset h) + unat (p_filesz h) \<le> len"

lemma boot_segment_ok:
  assumes "ide_drive ide img" "\<forall>a < len. img (512 + a) = f a" "boot_ok len h" "2 * seg_sectors h \<le> ready s"
    and h: "proghdr (ram s) ph = h"
  shows "\<exists>s'. boot_segment ide ph s = Some s' \<and> ready s' = ready s - 2 * seg_sectors h
    \<and> (\<forall>a \<in> seg_target h. ram s' a = seg_wanted f h a) \<and> (\<forall>a. a \<notin> boot_touched h \<longrightarrow> ram s' a = ram s a)"
proof -
  define va fs ms off where v: "va = unat (p_va h)" "fs = unat (p_filesz h)" "ms = unat (p_memsz h)" "off = unat (p_offset h)"
  have fits: "seg_fits h" "va mod 512 = off mod 512" "off + fs \<le> len" using assms(3) by (simp_all add: boot_ok_def v)
  obtain s' where 1: "readseg ide (p_va h) (p_filesz h) (p_memsz h) (1 + p_offset h div 512) s = Some s'"
    "ready s' = ready s - 2 * seg_sectors h"
    "ram s' = mem_fill (loaded (ram s) (512 * (va div 512)) (512 * seg_sectors h) (\<lambda>i. img (512 * (1 + off div 512) + i)))
       (va + fs) 0 (ms - fs)"
    using readseg_ok [OF assms(1) fits(1) assms(4)] unfolding v by blast
  have sectors: "512 * (va div 512) + 512 * seg_sectors h = 512 * ((va + fs + 511) div 512)" "va + fs \<le> 512 * ((va + fs + 511) div 512)"
    using div_le_mono [of va "va + fs + 511" 512] by (simp_all add: seg_sectors_def v right_diff_distrib')
  have "ram s' a = seg_wanted f h a" if a: "a \<in> seg_target h" for a
  proof (cases "a < va + fs")
    case True
    have "va \<le> a" using a by (simp add: seg_target_def v)
    have "512 * (1 + off div 512) + (a - 512 * (va div 512)) = 512 + (off + (a - va))"
    proof -
      obtain q p r where "va = 512 * q + r" "off = 512 * p + r" "va div 512 = q" "off div 512 = p"
        using fits(2) by (metis mult_div_mod_eq)
      then show ?thesis using a by (simp add: seg_target_def flip: v)
    qed
    moreover have "512 * (va div 512) \<le> va" by (rule times_div_less_eq_dividend)
    moreover note \<open>va \<le> a\<close>
    ultimately have "512 * (1 + off div 512) + (a - 512 * (va div 512)) = 512 + (off + (a - va))"
      "512 * (va div 512) \<le> a" "a < 512 * (va div 512) + 512 * seg_sectors h"
      using True sectors by linarith+
    moreover from this(2,3) have "ram s' a = img (512 * (1 + off div 512) + (a - 512 * (va div 512)))"
      using True unfolding 1(3) by (simp only: mem_fill_def loaded_def) simp
    ultimately have "ram s' a = img (512 + (off + (a - va)))" by (simp only:)
    also have "\<dots> = f (off + (a - va))"
      by (rule assms(2) [rule_format]) (use fits(3) True \<open>va \<le> a\<close> in linarith)
    finally show ?thesis using True by (simp add: seg_wanted_def flip: v)
  qed (use a in \<open>auto simp: 1(3) mem_fill_def seg_wanted_def seg_target_def v max_def split: if_splits\<close>)
  moreover have "ram s' a = ram s a" if "a \<notin> boot_touched h" for a
    using that sectors unfolding 1(3) by (auto simp: mem_fill_def loaded_def boot_touched_def seg_end_def v)
  ultimately show ?thesis using 1(1,2) by (auto simp: boot_segment_def h Let_def)
qed

text \<open>The headers are in the page that the loader has read to \<open>0x10000\<close>.\<close>

interpretation boot: segment_loader "\<lambda>i. boot_segment ide (ELFHDR + phoff + 32 * i)" ram ready
    "\<lambda>i. 2 * seg_sectors (proghdr f (phoff + 32 * i))"
    "\<lambda>i. ide_drive ide img \<and> (\<forall>a < len. img (512 + a) = f a) \<and> phoff + 32 * i + 32 \<le> 4096 \<and> boot_ok len (proghdr f (phoff + 32 * i))"
    "{ELFHDR..<ELFHDR + 4096}" "\<lambda>a. f (a - ELFHDR)"
    "\<lambda>i. boot_touched (proghdr f (phoff + 32 * i))" "\<lambda>i. seg_target (proghdr f (phoff + 32 * i))"
    "\<lambda>i. seg_wanted f (proghdr f (phoff + 32 * i))"
  for ide img f len phoff
proof unfold_locales
  fix i s
  let ?h = "proghdr f (phoff + 32 * i)"
  assume A: "ide_drive ide img \<and> (\<forall>a < len. img (512 + a) = f a) \<and> phoff + 32 * i + 32 \<le> 4096 \<and> boot_ok len ?h"
    "\<forall>a \<in> {ELFHDR..<ELFHDR + 4096}. ram s a = f (a - ELFHDR)" "2 * seg_sectors ?h \<le> ready s"
  have "proghdr (ram s) (ELFHDR + (phoff + 32 * i)) = ?h" by (rule proghdr_cong) (use A(1,2) in auto)
  then show "\<exists>s'. boot_segment ide (ELFHDR + phoff + 32 * i) s = Some s' \<and> ready s' = ready s - 2 * seg_sectors ?h
      \<and> (\<forall>a \<in> seg_target ?h. ram s' a = seg_wanted f ?h a) \<and> (\<forall>a. a \<notin> boot_touched ?h \<longrightarrow> ram s' a = ram s a)"
    using boot_segment_ok [of ide img len f ?h s] A by (simp add: add.assoc)
qed

lemma boot_segments_eq: "boot_segments ide (p + 32 * i) n s = load_each (\<lambda>i. boot_segment ide (p + 32 * i)) i n s"
proof (induction n arbitrary: i s)
  case (Suc n)
  have "boot_segments ide (p + 32 * i + 32) n s = load_each (\<lambda>i. boot_segment ide (p + 32 * i)) (Suc i) n s" for s
    using Suc [of "Suc i" s] by (simp only: mult_Suc_right add.assoc add.commute [of "32 * i"])
  then show ?case by (simp split: option.splits)
qed simp

text \<open>The bytes of a file as a memory.\<close>

definition file_mem :: "u8 list \<Rightarrow> mem" where
  "file_mem bs = mem_write (\<lambda>_. 0) 0 bs"

lemma file_mem_nth: "a < length bs \<Longrightarrow> file_mem bs a = bs ! a"
  by (simp add: file_mem_def mem_write_def)

definition phdr :: "u8 list \<Rightarrow> nat \<Rightarrow> Proghdr" where
  "phdr k i = proghdr (file_mem k) (unat (e_phoff (file_mem k) 0) + 32 * i)"

definition phnum :: "u8 list \<Rightarrow> nat" where
  "phnum k = unat (e_phnum (file_mem k) 0)"

text \<open>
  An ELF file that the boot loader can load: its headers are in the first page, every segment can be
  read by sectors, none is put over the page with the headers or over an earlier segment.
\<close>

definition bootable :: "u8 list \<Rightarrow> bool" where
  "bootable k \<longleftrightarrow> e_magic (file_mem k) 0 = 0x464C457F \<and> 48 \<le> length k
     \<and> unat (e_phoff (file_mem k) 0) + 32 * phnum k \<le> min 4096 (length k)
     \<and> (\<forall>i < phnum k. boot_ok (length k) (phdr k i) \<and> boot_touched (phdr k i) \<inter> {ELFHDR..<ELFHDR + 4096} = {})
     \<and> (\<forall>i < phnum k. \<forall>j < i. boot_touched (phdr k i) \<inter> seg_target (phdr k j) = {})"

lemma layout_extends: "layout open_file args out = Some img \<Longrightarrow> \<exists>e. img = out @ e"
  by (induction args arbitrary: out) (fastforce split: option.splits if_splits)+

lemma kernel_on_disk:
  assumes "disk_layout open_file (b # kname # rest) = Some img" "skip_sector kname = None" "open_file kname = Some k"
  shows "\<forall>a < length k. file_mem img (512 + a) = file_mem k a"
proof -
  obtain d s where s: "boot_sector d = Some s" "layout open_file rest (s @ padded k) = Some img"
    using assms by (auto simp: disk_layout_def bind_eq_Some_conv)
  then obtain e where "img = (s @ padded k) @ e" using layout_extends by blast
  then show ?thesis using boot_sector_length [OF s(1)]
    by (auto simp: file_mem_nth padded_def nth_append)
qed

lemma elf_page:
  assumes "ide_drive ide img" "16 \<le> ready s"
  obtains s' where "readseg ide (of_nat ELFHDR) 4096 4096 1 s = Some s'" "ready s' = ready s - 16"
    "\<forall>a \<in> {ELFHDR..<ELFHDR + 4096}. ram s' a = img (512 + (a - ELFHDR))"
proof -
  define h where "h = \<lparr>p_type = 0, p_offset = 0, p_va = 0x10000, p_filesz = 4096, p_memsz = 4096\<rparr>"
  have h: "p_offset h = 0" "p_va h = 0x10000" "p_filesz h = 4096" "p_memsz h = 4096" by (simp_all add: h_def)
  have k: "seg_sectors h = 8" by (simp add: seg_sectors_def h)
  have "seg_fits h" by (simp add: seg_fits_def k h)
  then obtain s' where "readseg ide (of_nat ELFHDR) 4096 4096 1 s = Some s'" "ready s' = ready s - 16"
    "ram s' = mem_fill (loaded (ram s) ELFHDR 4096 (\<lambda>i. img (512 + i))) (ELFHDR + 4096) 0 0"
    using readseg_ok [OF assms(1), of h s] assms(2) unfolding h k by (auto simp: ELFHDR_def)
  then show thesis by (intro that) (auto simp: loaded_def mem_fill_def)
qed

text \<open>C11: A kernel that is put on a disk by \<open>mkbootdisk\<close> (behind the boot sector) boots. When the disk has
  been written, and a drive delivers its sectors, the boot loader returns with a jump to the entry
  point of the kernel, and in memory every segment of the kernel has its bytes, followed by zeros
  up to its size; provided that the ELF file has its headers in its first page and segments that
  can be read by whole sectors and do not overwrite each other. The loader returns whenever the
  status register of the drive is ready often enough, twice for each sector.\<close>

theorem boot_from_disk:
  assumes "mkbootdisk open_file (b # kname # rest) ws = Written img ws'"
    and "skip_sector kname = None" "open_file kname = Some k" "bootable k" "ide_drive ide (file_mem img)"
    and "16 + (\<Sum>i < phnum k. 2 * seg_sectors (phdr k i)) \<le> ready s"
  shows "\<exists>s'. bootmain ide s = Some (Some (e_entry (file_mem k) 0), s')
    \<and> (\<forall>i < phnum k. in_memory (file_mem k) (phdr k i) (ram s'))"
proof -
  define f phoff where "f = (\<lambda>a. file_mem img (512 + a))" and "phoff = unat (e_phoff (file_mem k) 0)"
  have disk: "f a = file_mem k a" if "a < length k" for a
    using mkbootdisk_layout assms(1-3) kernel_on_disk that unfolding f_def by blast
  note B = assms(4) [unfolded bootable_def, folded phoff_def]
  obtain s1 where 1: "readseg ide (of_nat ELFHDR) 4096 4096 1 s = Some s1" "ready s1 = ready s - 16"
    "\<forall>a \<in> {ELFHDR..<ELFHDR + 4096}. ram s1 a = f (a - ELFHDR)"
    using elf_page [OF assms(5), of s] assms(6) unfolding f_def by auto
  have hdr: "rd32 m (ELFHDR + a) = rd32 (file_mem k) a" "rd16 m (ELFHDR + a) = rd16 (file_mem k) a"
    if "\<forall>a \<in> {ELFHDR..<ELFHDR + 4096}. m a = f (a - ELFHDR)" "a + 4 \<le> 48" for m a
    by (rule rd_move; use that disk B in \<open>simp add: add.assoc\<close>)+
  have ph: "proghdr f (phoff + 32 * i) = phdr k i" if "i < phnum k" for i
    unfolding phdr_def phoff_def [symmetric]
    using proghdr_cong [of 0 "phoff + 32 * i" f "file_mem k"] disk B that by auto
  obtain s2 where 2: "load_each (\<lambda>i. boot_segment ide (ELFHDR + phoff + 32 * i)) 0 (phnum k) s1 = Some s2"
    "\<forall>j < phnum k. \<forall>a \<in> seg_target (phdr k j). ram s2 a = seg_wanted f (phdr k j) a"
    "\<forall>a \<in> {ELFHDR..<ELFHDR + 4096}. ram s2 a = f (a - ELFHDR)"
  proof -
    have "\<exists>s2. load_each (\<lambda>i. boot_segment ide (ELFHDR + phoff + 32 * i)) 0 (phnum k) s1 = Some s2
      \<and> (\<forall>j < 0 + phnum k. \<forall>a \<in> seg_target (proghdr f (phoff + 32 * j)). ram s2 a = seg_wanted f (proghdr f (phoff + 32 * j)) a)
      \<and> (\<forall>a \<in> {ELFHDR..<ELFHDR + 4096}. ram s2 a = f (a - ELFHDR))
      \<and> (\<forall>a. (\<forall>j < 0 + phnum k. 0 \<le> j \<longrightarrow> a \<notin> boot_touched (proghdr f (phoff + 32 * j))) \<longrightarrow> ram s2 a = ram s1 a)"
    proof (rule boot.load_each_ok [where ide = ide and img = "file_mem img" and len = "length k"])
      show "(\<Sum>j = 0..<0 + phnum k. 2 * seg_sectors (proghdr f (phoff + 32 * j))) \<le> ready s1"
        using assms(6) 1(2) ph by (simp add: atLeast0LessThan)
    qed (use B assms(5) 1(3) ph in \<open>auto simp: f_def disk [unfolded f_def]\<close>)
    then show thesis using that ph by auto
  qed
  have "in_memory (file_mem k) (phdr k i) (ram s2)" if "i < phnum k" for i
  proof -
    have "seg_wanted f (phdr k i) a = seg_wanted (file_mem k) (phdr k i) a" if "a \<in> seg_target (phdr k i)" for a
      using that disk B \<open>i < phnum k\<close> by (auto simp: seg_wanted_def seg_target_def boot_ok_def)
    then show ?thesis using 2(2) that by (auto simp: in_memory_def)
  qed
  moreover have "bootmain ide s = Some (Some (e_entry (file_mem k) 0), s2)"
    using 1 2 hdr [OF 1(3), of 0] hdr [OF 1(3), of 28] hdr [OF 1(3), of 44] hdr [OF 2(3), of 24] B
      boot_segments_eq [of ide "ELFHDR + phoff" 0 "phnum k" s1]
    by (simp add: bootmain_def e_magic_def e_phoff_def e_phnum_def e_entry_def phnum_def phoff_def)
  ultimately show ?thesis by blast
qed

section \<open>A disk that boots\<close>

definition drive_of :: "mem \<Rightarrow> ide" where
  "drive_of img count lba0 lba1 lba2 head cmd =
     mem_read img (512 * (unat lba0 + 256 * unat lba1 + 65536 * unat lba2 + 16777216 * unat (head AND 0x0F))) 512"

lemma byte_digits:
  assumes "(n :: nat) < 4294967296"
  shows "n mod 256 + 256 * (n div 256 mod 256) + 65536 * (n div 65536 mod 256) + 16777216 * (n div 16777216 mod 256) = n"
proof -
  define p q r where "p = n div 256" "q = p div 256" "r = q div 256"
  then have d: "n div 65536 = q" "n div 16777216 = r" by (simp_all flip: div_mult2_eq)
  have "r < 256" using assms d(2) by auto
  moreover have "n = 256 * p + n mod 256" "p = 256 * q + p mod 256" "q = 256 * r + q mod 256"
    by (simp_all add: \<open>p = n div 256\<close> \<open>q = p div 256\<close> \<open>r = q div 256\<close>)
  ultimately show ?thesis unfolding d \<open>p = n div 256\<close> [symmetric] by simp
qed

lemma unat_low_byte: "unat (ucast (x :: u32) :: u8) = unat x mod 256"
  by (simp add: unsigned_ucast_eq take_bit_eq_mod)

lemma nibble_head: "\<forall>k \<in> set [0..<16]. (ucast ((of_nat k :: u32) OR 0xE0) AND 0x0F :: u8) = ucast (of_nat k :: u32)"
  by code_simp

lemma drive_of: "ide_drive (drive_of img) img"
proof -
  have "unat (ucast s :: u8) + 256 * unat (ucast (drop_bit 8 s) :: u8) + 65536 * unat (ucast (drop_bit 16 s) :: u8)
      + 16777216 * unat (ucast (drop_bit 24 s OR 0xE0) AND 0x0F :: u8) = unat s" if "s < 0x10000000" for s :: u32
  proof -
    have n: "unat s < 0x10000000" using that by (simp add: word_less_nat_alt)
    have "(ucast (drop_bit 24 s OR 0xE0) AND 0x0F :: u8) = ucast (drop_bit 24 s)"
    proof -
      have "unat (drop_bit 24 s) < 16" using n by (simp add: unat_drop_bit_eq drop_bit_eq_div unat_div)
      then have "unat (drop_bit 24 s) \<in> set [0..<16]" by simp
      then have "(ucast ((of_nat (unat (drop_bit 24 s)) :: u32) OR 0xE0) AND 0x0F :: u8) = ucast (of_nat (unat (drop_bit 24 s)) :: u32)"
        using nibble_head by (rule bspec [rotated])
      then show ?thesis by simp
    qed
    then show ?thesis
      using byte_digits [of "unat s"] unat_u32_less [of s] by (simp add: unat_low_byte unat_shifted_down)
  qed
  then show ?thesis by (simp add: ide_drive_def drive_of_def)
qed

text \<open>A kernel with one segment: four bytes of the file at offset 512, and four zeros.\<close>

definition tiny_image :: mem where
  "tiny_image = wr32 (wr32 (wr32 (wr32 (wr32 (wr32 (wr32 (wr32 (wr32 (wr32 (\<lambda>_. 0) 0 0x464C457F) 24 0x100000) 28 48) 44 1)
     48 1) (48 + 4) 512) (48 + 8) 0x100000) (48 + 16) 4) (48 + 20) 8) 512 0x01020304"

definition tiny_kernel :: "u8 list" where
  "tiny_kernel = mem_read tiny_image 0 516"

lemma tiny_mem: "a + 4 \<le> 516 \<Longrightarrow> rd32 (file_mem tiny_kernel) a = rd32 tiny_image a"
    "a + 2 \<le> 516 \<Longrightarrow> rd16 (file_mem tiny_kernel) a = rd16 tiny_image a"
  by (simp_all add: rd32_def rd16_def file_mem_nth tiny_kernel_def)

lemma tiny_image_simps:
  "rd32 tiny_image 0 = 0x464C457F" "rd32 tiny_image 24 = 0x100000" "rd32 tiny_image 28 = 48"
  "rd32 tiny_image 48 = 1" "rd32 tiny_image 52 = 512" "rd32 tiny_image 56 = 0x100000" "rd32 tiny_image 64 = 4"
  "rd32 tiny_image 68 = 8" "rd16 tiny_image 44 = 1" "tiny_image 512 = 4"
  by (simp_all add: tiny_image_def rd32_wr32_other) (simp_all add: rd32_def rd16_def wr32_def)

lemma tiny_simps [simp]: "length tiny_kernel = 516" "e_magic (file_mem tiny_kernel) 0 = 0x464C457F"
  "e_entry (file_mem tiny_kernel) 0 = 0x100000" "e_phoff (file_mem tiny_kernel) 0 = 48"
  "phnum tiny_kernel = 1"
  "phdr tiny_kernel 0 = \<lparr>p_type = 1, p_offset = 512, p_va = 0x100000, p_filesz = 4, p_memsz = 8\<rparr>"
  by (simp_all add: tiny_mem tiny_image_simps e_magic_def e_entry_def e_phoff_def e_phnum_def phnum_def phdr_def proghdr_def)
     (simp add: tiny_kernel_def)

lemma bootable_tiny: "bootable tiny_kernel"
  by (simp add: bootable_def boot_ok_def seg_fits_def seg_sectors_def boot_touched_def seg_end_def ELFHDR_def)

theorem boot_from_disk_witness:
  "\<exists>img ws' s'. mkbootdisk [[98] \<mapsto> [0xFA], [107] \<mapsto> tiny_kernel] [[98], [107]] (replicate 600000 (Writes 600000)) = Written img ws'
    \<and> bootmain (drive_of (file_mem img)) \<lparr>ram = \<lambda>_. 0xFF, statuses = replicate 18 0x40\<rparr> = Some (Some 0x100000, s')
    \<and> ram s' 0x100000 = 4 \<and> ram s' 0x100004 = 0"
proof -
  let ?files = "[[98] \<mapsto> [0xFA], [107] \<mapsto> tiny_kernel]" and ?s = "\<lparr>ram = \<lambda>_. 0xFF, statuses = replicate 18 0x40\<rparr>"
  obtain img where lay: "disk_layout ?files [[98], [107]] = Some img" "length img = 524288"
    by (simp add: disk_layout_def boot_sector_def skip_sector_def length_padded)
  have "progress (replicate 600000 (Writes 600000))" "length img \<le> writes (replicate 600000 (Writes 600000))"
    using lay(2) by (simp_all add: progress_def writes_def)
  then obtain ws' where mk: "mkbootdisk ?files [[98], [107]] (replicate 600000 (Writes 600000)) = Written img ws'"
    using mkbootdisk_layout lay(1) by blast
  have ready: "16 + (\<Sum>i < phnum tiny_kernel. 2 * seg_sectors (phdr tiny_kernel i)) \<le> ready ?s"
    by (simp add: seg_sectors_def ready_def disk_ready_def)
  obtain s' where s': "bootmain (drive_of (file_mem img)) ?s = Some (Some (e_entry (file_mem tiny_kernel) 0), s')"
    "\<forall>i < phnum tiny_kernel. in_memory (file_mem tiny_kernel) (phdr tiny_kernel i) (ram s')"
    using boot_from_disk [OF mk _ _ bootable_tiny drive_of ready] by (auto simp: skip_sector_def)
  then have "in_memory (file_mem tiny_kernel) (phdr tiny_kernel 0) (ram s')" by simp
  then have "ram s' 0x100000 = file_mem tiny_kernel 512" "ram s' 0x100004 = 0"
    by (simp_all add: in_memory_def seg_target_def seg_wanted_def)
  moreover have "file_mem tiny_kernel 512 = 4" by (simp add: file_mem_nth) (simp add: tiny_kernel_def tiny_image_simps)
  ultimately show ?thesis using mk s'(1) by auto
qed

section \<open>The program loader of the kernels\<close>

definition load_segment :: "nat \<Rightarrow> Proghdr \<Rightarrow> mem \<Rightarrow> mem" where
  "load_segment img h m =
     (if p_type h = 1 then copyseg (p_va h) (img + unat (p_offset h)) (p_filesz h) (p_memsz h) m else m)"

lemma load_segments_each:
  "Some (load_segments img (p + 32 * i) n m) = load_each (\<lambda>i m. Some (load_segment img (proghdr m (p + 32 * i)) m)) i n m"
proof (induction n arbitrary: i m)
  case (Suc n)
  have "Some (load_segments img (p + 32 * i + 32) n m) = load_each (\<lambda>i m. Some (load_segment img (proghdr m (p + 32 * i)) m)) (Suc i) n m" for m
    using Suc [of "Suc i" m] by (simp only: mult_Suc_right add.assoc add.commute [of "32 * i"])
  then show ?case by (simp add: load_segment_def proghdr_def)
qed simp

text \<open>A segment that \<open>copyseg\<close> copies to its place: one that starts on a page.\<close>

definition page_ok :: "nat \<Rightarrow> Proghdr \<Rightarrow> bool" where
  "page_ok len h \<longleftrightarrow> unat (p_va h) mod 4096 = 0 \<and> unat (p_va h) + unat (p_filesz h) < 2 ^ 32
     \<and> unat (p_va h) + unat (p_memsz h) < 2 ^ 32 \<and> unat (p_offset h) + unat (p_filesz h) \<le> len"

definition load_target :: "Proghdr \<Rightarrow> nat set" where
  "load_target h = (if p_type h = 1 then seg_target h else {})"

lemma word_page: "unat (va :: u32) mod 4096 = 0 \<Longrightarrow> va AND NOT (4096 - 1) = va"
proof -
  assume A: "unat va mod 4096 = 0"
  have m: "(4096 - 1 :: u32) = mask 12" by (simp add: mask_eq_exp_minus_1)
  have "take_bit 12 va = 0"
    using A by (simp add: take_bit_eq_mod unat_mod flip: unat_eq_0)
  then have "\<forall>n. bit va n \<longrightarrow> 12 \<le> n"
    by (metis bit_take_bit_iff bit_0_eq bot_apply bot_bool_def not_le)
  then show ?thesis unfolding m by (intro bit_word_eqI) (auto simp: bit_simps)
qed

lemma load_segment_ok:
  assumes bytes: "\<forall>a < len. m (img + a) = f a" and ok: "p_type h = 1 \<longrightarrow> page_ok len h"
    and apart: "load_target h \<inter> {img..<img + len} = {}"
  shows "(\<forall>a \<in> load_target h. load_segment img h m a = seg_wanted f h a)
    \<and> (\<forall>a. a \<notin> load_target h \<longrightarrow> load_segment img h m a = m a)"
proof (cases "p_type h = 1")
  case True
  define va fs ms off where v: "va = unat (p_va h)" "fs = unat (p_filesz h)" "ms = unat (p_memsz h)" "off = unat (p_offset h)"
  have P: "va mod 4096 = 0" "va + fs < 2 ^ 32" "va + ms < 2 ^ 32" "off + fs \<le> len"
    using ok True by (simp_all add: page_ok_def v)
  have t: "load_target h = {va..<va + max fs ms}" using True by (simp add: load_target_def seg_target_def v)
  have e: "unat (p_va h + p_filesz h) = va + fs" "unat (p_memsz h + p_va h) = ms + va"
    using P(2,3) by (simp_all add: unat_add_u32 v)
  have "load_segment img h m = mem_fill (memcpy m va (img + off) fs) (va + fs) 0 (ms - fs)"
    using True word_page [of "p_va h"] P(1) unfolding load_segment_def copyseg_def Let_def clear_bss_apply e
    by (simp add: v)
  moreover have "fs = 0 \<or> va + fs \<le> img + off \<or> img + off + fs \<le> va"
  proof (rule ccontr)
    assume "\<not> ?thesis"
    then have "max va (img + off) \<in> load_target h \<inter> {img..<img + len}" using P(4) by (auto simp: t)
    then show False using apart by blast
  qed
  then have "memcpy m va (img + off) fs = mem_copy m va (img + off) fs"
    using memcpy_apply [of va "img + off" fs m] by (cases "fs = 0") (auto simp: mem_copy_def fun_eq_iff)
  moreover have "m (img + off + (x - va)) = f (off + (x - va))" if "va \<le> x" "x < va + fs" for x
    using bytes [rule_format, of "off + (x - va)"] that P(4) by (simp add: add.assoc)
  ultimately have "load_segment img h m = (\<lambda>x. if va + fs \<le> x \<and> x < va + fs + (ms - fs) then 0
      else if va \<le> x \<and> x < va + fs then f (off + (x - va)) else m x)"
    by (auto simp: mem_fill_def mem_copy_def fun_eq_iff)
  then show ?thesis unfolding t seg_wanted_def v [symmetric] by auto
qed (simp add: load_target_def load_segment_def)

text \<open>The headers are in the packed program itself, at \<open>img\<close>.\<close>

interpretation loader: segment_loader "\<lambda>i m. Some (load_segment img (proghdr m (img + phoff + 32 * i)) m)" "\<lambda>m. m" "\<lambda>_. 0" "\<lambda>_. 0"
    "\<lambda>i. phoff + 32 * i + 32 \<le> len \<and> (p_type (proghdr f (phoff + 32 * i)) = 1 \<longrightarrow> page_ok len (proghdr f (phoff + 32 * i)))
       \<and> load_target (proghdr f (phoff + 32 * i)) \<inter> {img..<img + len} = {}"
    "{img..<img + len}" "\<lambda>a. f (a - img)"
    "\<lambda>i. load_target (proghdr f (phoff + 32 * i))" "\<lambda>i. load_target (proghdr f (phoff + 32 * i))"
    "\<lambda>i. seg_wanted f (proghdr f (phoff + 32 * i))"
  for img len f phoff
proof unfold_locales
  fix i m
  let ?h = "proghdr f (phoff + 32 * i)"
  assume A: "phoff + 32 * i + 32 \<le> len \<and> (p_type ?h = 1 \<longrightarrow> page_ok len ?h) \<and> load_target ?h \<inter> {img..<img + len} = {}"
    "\<forall>a \<in> {img..<img + len}. m a = f (a - img)"
  have "proghdr m (img + (phoff + 32 * i)) = ?h" by (rule proghdr_cong) (use A in auto)
  then show "\<exists>s'. Some (load_segment img (proghdr m (img + phoff + 32 * i)) m) = Some s' \<and> 0 = 0 - (0 :: nat)
      \<and> (\<forall>a \<in> load_target ?h. s' a = seg_wanted f ?h a) \<and> (\<forall>a. a \<notin> load_target ?h \<longrightarrow> s' a = m a)"
    using load_segment_ok [of len m img f ?h] A by (simp add: add.assoc)
qed

text \<open>
  A program that the kernels can load from \<open>img\<close>: its segments start on pages, and none is put over
  the packed program or over another one.
\<close>

definition loadable :: "nat \<Rightarrow> u8 list \<Rightarrow> bool" where
  "loadable img k \<longleftrightarrow> e_magic (file_mem k) 0 = 0x464C457F \<and> 48 \<le> length k
     \<and> unat (e_phoff (file_mem k) 0) + 32 * phnum k \<le> length k
     \<and> (\<forall>i < phnum k. (p_type (phdr k i) = 1 \<longrightarrow> page_ok (length k) (phdr k i))
          \<and> load_target (phdr k i) \<inter> {img..<img + length k} = {})
     \<and> (\<forall>i < phnum k. \<forall>j < i. load_target (phdr k i) \<inter> load_target (phdr k j) = {})"

text \<open>C35: The program loader of the two kernels: for a program number in range, when the packed program
  is an ELF file whose segments start on pages and overlap neither the packed program nor each
  other, the loader returns its entry point; afterwards every loadable segment is in its place, the
  bytes of the file followed by zeros, and nothing else in memory has changed.\<close>

theorem program_loader_loads:
  assumes "0 \<le> program_id" "program_id < int (length ramimages)" "img = ramimages ! nat program_id"
    and "\<forall>a < length k. m (img + a) = file_mem k a" "loadable img k"
  shows "\<exists>m'. program_loader ramimages program_id m = Some (e_entry (file_mem k) 0, m')
    \<and> (\<forall>i < phnum k. p_type (phdr k i) = 1 \<longrightarrow> in_memory (file_mem k) (phdr k i) m')
    \<and> (\<forall>a. (\<forall>i < phnum k. p_type (phdr k i) = 1 \<longrightarrow> a \<notin> seg_target (phdr k i)) \<longrightarrow> m' a = m a)"
proof -
  define phoff where "phoff = unat (e_phoff (file_mem k) 0)"
  note L = assms(5) [unfolded loadable_def, folded phoff_def]
  have ph: "proghdr (file_mem k) (phoff + 32 * i) = phdr k i" for i by (simp add: phdr_def phoff_def)
  have hdr: "rd32 M (img + a) = rd32 (file_mem k) a" "rd16 M (img + a) = rd16 (file_mem k) a"
    if "\<forall>a < length k. M (img + a) = file_mem k a" "a + 4 \<le> 48" for M a
    by (rule rd_move; use that L in \<open>simp add: add.assoc\<close>)+
  have bytes: "m a = file_mem k (a - img)" if "img \<le> a" "a < img + length k" for a
    using assms(4) [rule_format, of "a - img"] that by simp
  have "\<exists>m'. load_each (\<lambda>i m. Some (load_segment img (proghdr m (img + phoff + 32 * i)) m)) 0 (phnum k) m = Some m'
      \<and> (\<forall>j < 0 + phnum k. \<forall>a \<in> load_target (proghdr (file_mem k) (phoff + 32 * j)). m' a = seg_wanted (file_mem k) (proghdr (file_mem k) (phoff + 32 * j)) a)
      \<and> (\<forall>a \<in> {img..<img + length k}. m' a = file_mem k (a - img))
      \<and> (\<forall>a. (\<forall>j < 0 + phnum k. 0 \<le> j \<longrightarrow> a \<notin> load_target (proghdr (file_mem k) (phoff + 32 * j))) \<longrightarrow> m' a = m a)"
    by (rule loader.load_each_ok [where len = "length k"]) (use L bytes in \<open>auto simp: ph\<close>)
  then obtain m' where 1: "load_each (\<lambda>i m. Some (load_segment img (proghdr m (img + phoff + 32 * i)) m)) 0 (phnum k) m = Some m'"
    "\<forall>j < phnum k. \<forall>a \<in> load_target (phdr k j). m' a = seg_wanted (file_mem k) (phdr k j) a"
    "\<forall>a < length k. m' (img + a) = file_mem k a"
    "\<forall>a. (\<forall>j < phnum k. a \<notin> load_target (phdr k j)) \<longrightarrow> m' a = m a"
    by (auto simp: ph)
  have run: "load_segments img (img + phoff) (phnum k) m = m'"
    using load_segments_each [of img "img + phoff" 0 "phnum k" m] 1(1) by simp
  have "program_loader ramimages program_id m = Some (e_entry (file_mem k) 0, m')"
    using assms(1-3) L run hdr [OF assms(4), of 0] hdr [OF assms(4), of 28] hdr [OF assms(4), of 44] hdr [OF 1(3), of 24]
    by (simp add: program_loader_def Let_def e_magic_def e_phoff_def e_phnum_def e_entry_def phnum_def phoff_def)
  moreover have "\<forall>i < phnum k. p_type (phdr k i) = 1 \<longrightarrow> in_memory (file_mem k) (phdr k i) m'"
    using 1(2) by (auto simp: in_memory_def load_target_def)
  moreover have "m' a = m a" if "\<forall>i < phnum k. p_type (phdr k i) = 1 \<longrightarrow> a \<notin> seg_target (phdr k i)" for a
    using 1(4) that by (auto simp: load_target_def)
  ultimately show ?thesis by blast
qed

theorem program_loader_loads_witness:
  "\<exists>m'. program_loader [0x200] 0 (mem_write (\<lambda>_. 7) 0x200 tiny_kernel) = Some (0x100000, m')
    \<and> m' 0x100000 = 4 \<and> m' 0x100004 = 0 \<and> m' 0x100008 = 7"
proof -
  have "\<forall>a < length tiny_kernel. mem_write (\<lambda>_. 7) 0x200 tiny_kernel (0x200 + a) = file_mem tiny_kernel a"
    by (simp add: mem_write_def file_mem_nth del: tiny_simps(1))
  moreover have "loadable 0x200 tiny_kernel"
    by (simp add: loadable_def page_ok_def load_target_def seg_target_def)
  ultimately obtain m' where 1: "program_loader [0x200] 0 (mem_write (\<lambda>_. 7) 0x200 tiny_kernel) = Some (e_entry (file_mem tiny_kernel) 0, m')"
    "\<forall>i < phnum tiny_kernel. p_type (phdr tiny_kernel i) = 1 \<longrightarrow> in_memory (file_mem tiny_kernel) (phdr tiny_kernel i) m'"
    "\<forall>a. (\<forall>i < phnum tiny_kernel. p_type (phdr tiny_kernel i) = 1 \<longrightarrow> a \<notin> seg_target (phdr tiny_kernel i))
       \<longrightarrow> m' a = mem_write (\<lambda>_. 7) 0x200 tiny_kernel a"
    using program_loader_loads [of 0 "[0x200]" "0x200" tiny_kernel "mem_write (\<lambda>_. 7) 0x200 tiny_kernel"] by auto
  then have "in_memory (file_mem tiny_kernel) (phdr tiny_kernel 0) m'" by simp
  then have "m' 0x100000 = file_mem tiny_kernel 512" "m' 0x100004 = 0"
    by (simp_all add: in_memory_def seg_target_def seg_wanted_def)
  moreover have "file_mem tiny_kernel 512 = 4" by (simp add: file_mem_nth) (simp add: tiny_kernel_def tiny_image_simps)
  moreover have "m' 0x100008 = 7" using 1(3) by (simp add: seg_target_def mem_write_def)
  ultimately show ?thesis using 1(1) by auto
qed

end
