(* ===== verification/RoundRobin.thy ===== *)
theory RoundRobin
  imports Prelude
begin

text \<open>
  The interface of a cyclic scan over the slots \<open>0 .. n - 1\<close> of a table, which both toy kernels
  use to pick the next process: \<open>scan s i\<close> looks at the slots after \<open>i\<close> in cyclic order and
  returns the first acceptable one; it does not return when there is none. The lemmas below
  follow from the equation of the loop and from the soundness of its result.
\<close>

locale cyclic_scan =
  fixes n :: nat
    and ok :: "'s \<Rightarrow> nat \<Rightarrow> bool"
    and scan :: "'s \<Rightarrow> nat \<Rightarrow> nat option"
  assumes slots: "0 < n"
    and scan_step: "scan s i = (if ok s (Suc i mod n) then Some (Suc i mod n) else scan s (Suc i mod n))"
    and scan_sound: "scan s i = Some j \<Longrightarrow> ok s j \<and> j < n"
begin

lemma scan_at:
  "ok s ((i + Suc d) mod n) \<Longrightarrow> \<forall>e < d. \<not> ok s ((i + Suc e) mod n) \<Longrightarrow>
     scan s i = Some ((i + Suc d) mod n)"
proof (induction d arbitrary: i)
  case 0
  then show ?case by (subst scan_step) simp
next
  case (Suc d)
  have "scan s (Suc i mod n) = Some ((Suc i mod n + Suc d) mod n)"
  proof (rule Suc.IH)
    show "ok s ((Suc i mod n + Suc d) mod n)"
      using Suc.prems(1) unfolding mod_add_left_eq by simp
    show "\<forall>e < d. \<not> ok s ((Suc i mod n + Suc e) mod n)"
    proof (intro allI impI)
      fix e assume "e < d"
      then have "\<not> ok s ((i + Suc (Suc e)) mod n)" using Suc.prems(2) [rule_format, of "Suc e"] by simp
      then show "\<not> ok s ((Suc i mod n + Suc e) mod n)" unfolding mod_add_left_eq by simp
    qed
  qed
  moreover have "\<not> ok s (Suc i mod n)" using Suc.prems(2) by auto
  ultimately show ?case unfolding mod_add_left_eq by (subst scan_step) simp
qed

text \<open>How many slots after \<open>i\<close> the slot \<open>j\<close> comes, from 0 for the next one.\<close>

definition gap :: "nat \<Rightarrow> nat \<Rightarrow> nat" where
  "gap i j = (j + n - Suc (i mod n)) mod n"

lemma gap_less: "gap i j < n"
  using slots by (simp add: gap_def)

lemma gap_reaches: "j < n \<Longrightarrow> (i + Suc (gap i j)) mod n = j"
proof -
  assume j: "j < n"
  have i: "i mod n < n" using slots by simp
  have "(i + Suc (gap i j)) mod n = (i mod n + 1 + gap i j) mod n"
    using mod_add_left_eq [of i n "1 + gap i j"] by (simp add: add.assoc)
  also have "\<dots> = (i mod n + 1 + (j + n - Suc (i mod n))) mod n"
    unfolding gap_def by (rule mod_add_right_eq)
  also have "i mod n + 1 + (j + n - Suc (i mod n)) = j + n" using i by simp
  finally show ?thesis using j by simp
qed

lemma gap_unique:
  assumes "d < n" "(i + Suc d) mod n = j"
  shows "gap i j = d"
proof -
  have j: "j < n" using assms slots by auto
  have "(i mod n + Suc d) mod n = (i mod n + Suc (gap i j)) mod n"
    unfolding mod_add_left_eq using assms(2) gap_reaches [OF j, of i] by simp
  moreover have "x mod n = (if x < n then x else x - n)" if "x < 2 * n" for x
    using that by (simp add: le_mod_geq)
  moreover have "i mod n + Suc d < 2 * n" "i mod n + Suc (gap i j) < 2 * n"
    using slots gap_less [of i j] assms(1) mod_less_divisor [of n i] by linarith+
  ultimately show ?thesis
    using gap_less [of i j] assms(1) by (simp split: if_splits)
qed

text \<open>The scan returns the acceptable slot with the smallest gap, and returns if there is one.\<close>

lemma scan_total:
  assumes "j < n" "ok s j"
  shows "\<exists>k. scan s i = Some k \<and> k < n \<and> ok s k \<and> (\<forall>l < n. ok s l \<longrightarrow> gap i k \<le> gap i l)"
proof -
  define d where "d = (LEAST d. ok s ((i + Suc d) mod n))"
  have ex: "ok s ((i + Suc (gap i j)) mod n)" using assms gap_reaches by simp
  have ok: "ok s ((i + Suc d) mod n)" unfolding d_def by (rule LeastI) (rule ex)
  have least: "d \<le> gap i l" if "l < n" "ok s l" for l
    unfolding d_def by (rule Least_le) (use that gap_reaches in simp)
  have "\<not> ok s ((i + Suc e) mod n)" if "e < d" for e
    using not_less_Least that unfolding d_def by blast
  then have scan: "scan s i = Some ((i + Suc d) mod n)" using ok by (intro scan_at) auto
  have "d < n" using least [OF assms] gap_less [of i j] by linarith
  then have "gap i ((i + Suc d) mod n) = d" by (rule gap_unique) simp
  then show ?thesis using scan ok least slots by auto
qed

lemma scan_none: "scan s i = None \<longleftrightarrow> (\<forall>j < n. \<not> ok s j)"
  using scan_total [of _ s i] scan_sound [of s i] by (cases "scan s i") auto

text \<open>Bounded waiting: when another slot that comes first is chosen, every slot after it has come closer.\<close>

lemma gap_progress:
  assumes k: "k < n" "gap i k \<le> gap i j" and j: "j < n" "j \<noteq> k"
  shows "gap k j < gap i j"
proof -
  have ne: "gap i k \<noteq> gap i j"
    using gap_reaches [OF k(1), of i] gap_reaches [OF j(1), of i] j(2) by metis
  define d where "d = gap i j - Suc (gap i k)"
  have "(k + Suc d) mod n = ((i + Suc (gap i k)) mod n + Suc d) mod n" using gap_reaches [OF k(1)] by simp
  also have "\<dots> = (i + Suc (gap i k) + Suc d) mod n" by (simp only: mod_add_left_eq)
  also have "i + Suc (gap i k) + Suc d = i + Suc (gap i j)" using k(2) ne by (simp add: d_def)
  finally have "(k + Suc d) mod n = j" using gap_reaches [OF j(1)] by simp
  moreover have "d < n" using gap_less [of i j] by (simp add: d_def)
  ultimately have "gap k j = d" by (intro gap_unique)
  then show ?thesis using k(2) ne by (simp add: d_def)
qed

lemma scan_progress:
  assumes "scan s i = Some k" "j < n" "ok s j" "j \<noteq> k"
  shows "gap k j < gap i j"
  by (rule gap_progress) (use scan_total [OF assms(2,3), of i] assms in auto)

end

end
