(* ===== verification/MposKern.thy ===== *)
theory MposKern
  imports X86 RoundRobin
begin

text \<open>
  The MiniprocOS kernel (\<open>weensyos1/mpos-kern.c\<close>, \<open>mpos-kern.h\<close>, \<open>mpos-x86.c\<close>, \<open>mpos-loader.c\<close>): process
  descriptors, the system calls, \<open>do_fork\<close> with its stack copy, the scheduler, and booting. The
  kernel handles one interrupt at a time and always ends it by \<open>run\<close>, which does not return, so
  that an interrupt is a function from the state before it to the state in which a process is
  running again. A descriptor pointer is its index in \<open>proc_array\<close>.
\<close>

section \<open>Process descriptors\<close>

datatype procstate = P_EMPTY | P_RUNNABLE | P_BLOCKED | P_ZOMBIE

record process =
  p_pid :: nat
  p_registers :: registers
  p_state :: procstate
  p_exit_status :: u32
  queue :: "nat option"

abbreviation (input) "NPROCS \<equiv> (16 :: nat)"
abbreviation (input) "PROC1_STACK_ADDR \<equiv> (0x280000 :: u32)"
abbreviation (input) "PROC_STACK_SIZE \<equiv> (0x40000 :: u32)"

text \<open>\<open>screen\<close> holds the console and \<open>cursorpos\<close>, the cursor that the kernel and the applications share.\<close>

record kern =
  proc_array :: "process list"
  current :: nat
  screen :: console
  phys :: mem

text \<open>
  What an interrupt comes to: a process runs, the kernel spins for ever (\<open>Spin\<close>), or it reads a
  descriptor beyond the end of \<open>proc_array\<close>, after which the C program has no defined behaviour
  (\<open>Wild\<close>).
\<close>

datatype outcome = Run kern | Spin | Wild

abbreviation proc :: "kern \<Rightarrow> nat \<Rightarrow> process" where
  "proc k p \<equiv> proc_array k ! p"

definition upd_proc :: "nat \<Rightarrow> (process \<Rightarrow> process) \<Rightarrow> kern \<Rightarrow> kern" where
  "upd_proc p f k = k\<lparr>proc_array := (proc_array k)[p := f (proc k p)]\<rparr>"

definition set_state :: "procstate \<Rightarrow> process \<Rightarrow> process" where
  "set_state s p = p\<lparr>p_state := s\<rparr>"

definition set_eax :: "u32 \<Rightarrow> process \<Rightarrow> process" where
  "set_eax v p = p\<lparr>p_registers := (p_registers p)\<lparr>reg_eax := v\<rparr>\<rparr>"

definition run :: "nat \<Rightarrow> kern \<Rightarrow> outcome" where
  "run p k = Run (k\<lparr>current := p\<rparr>)"

section \<open>The scheduler\<close>

partial_function (option) sched_scan :: "kern \<Rightarrow> nat \<Rightarrow> nat option" where
  "sched_scan k pid =
     (let pid' = (pid + 1) mod NPROCS
      in if p_state (proc k pid') = P_RUNNABLE then Some pid' else sched_scan k pid')"

definition schedule :: "kern \<Rightarrow> outcome" where
  "schedule k =
     (case sched_scan k (p_pid (proc k (current k))) of
        None \<Rightarrow> Spin
      | Some pid \<Rightarrow> run pid k)"

section \<open>Fork\<close>

definition copy_stack :: "nat \<Rightarrow> nat \<Rightarrow> kern \<Rightarrow> kern" where
  "copy_stack dest src k =
     (let src_stack_top = PROC1_STACK_ADDR + of_nat (p_pid (proc k src)) * PROC_STACK_SIZE;
          src_stack_bottom = reg_esp (p_registers (proc k src));
          dest_stack_top = PROC1_STACK_ADDR + of_nat (p_pid (proc k dest)) * PROC_STACK_SIZE;
          dest_stack_bottom = dest_stack_top + (src_stack_bottom - src_stack_top);
          k1 = upd_proc dest (\<lambda>p. p\<lparr>p_registers := (p_registers p)
                 \<lparr>reg_esp := dest_stack_bottom, reg_ebp := dest_stack_top\<rparr>\<rparr>) k
      in k1\<lparr>phys := memcpy (phys k1) (unat dest_stack_bottom) (unat src_stack_bottom)
              (unat (src_stack_top - src_stack_bottom))\<rparr>)"

text \<open>
  The search for an empty descriptor, from \<open>parent + 1\<close> on. That start value is not reduced
  modulo \<open>NPROCS\<close>: for the last process it is outside the array. The answer is the value of
  \<open>childpid\<close> after the loop; \<open>None\<close> when the loop does not end.
\<close>

datatype fork_slot = Slot nat | Beyond_array

partial_function (option) fork_scan :: "process list \<Rightarrow> nat \<Rightarrow> nat \<Rightarrow> fork_slot option" where
  "fork_scan procs parent childpid =
     (if childpid \<ge> NPROCS then Some Beyond_array
      else if p_state (procs ! childpid) \<noteq> P_EMPTY \<and> childpid \<noteq> parent \<or> childpid = 0
      then fork_scan procs parent ((childpid + 1) mod NPROCS)
      else Some (Slot childpid))"

definition fork_child :: "nat \<Rightarrow> nat \<Rightarrow> kern \<Rightarrow> kern" where
  "fork_child child parent k =
     copy_stack child parent
       (upd_proc child (\<lambda>c. c\<lparr>p_pid := child,
          p_registers := (p_registers (proc k parent))\<lparr>reg_eax := 0\<rparr>, p_state := P_RUNNABLE\<rparr>) k)"

text \<open>The returned process ID (\<open>-1\<close> as a word) and the new state.\<close>

definition do_fork :: "nat \<Rightarrow> kern \<Rightarrow> (u32 \<times> kern, outcome) sum" where
  "do_fork parent k =
     (case fork_scan (proc_array k) (p_pid (proc k parent)) (p_pid (proc k parent) + 1) of
        None \<Rightarrow> Inr Spin
      | Some Beyond_array \<Rightarrow> Inr Wild
      | Some (Slot childpid) \<Rightarrow>
          if childpid = p_pid (proc k parent) then Inl (-1, k)
          else Inl (of_nat childpid, fork_child childpid parent k))"

section \<open>Exit and wait\<close>

definition sys_exit :: "kern \<Rightarrow> kern" where
  "sys_exit k =
     (let c = current k;
          k1 = upd_proc c (set_state P_ZOMBIE) k;
          k2 = upd_proc c (\<lambda>p. p\<lparr>p_exit_status := reg_eax (p_registers p)\<rparr>) k1;
          k3 = (case queue (proc k2 c) of
                  None \<Rightarrow> k2
                | Some q \<Rightarrow>
                    upd_proc q (set_eax (p_exit_status (proc k2 c)))
                      (upd_proc q (set_state P_RUNNABLE) k2))
      in upd_proc c (set_state P_EMPTY) k3)"

definition sys_wait :: "kern \<Rightarrow> kern" where
  "sys_wait k =
     (let c = current k; p = sint (reg_eax (p_registers (proc k c))) in
      if p \<le> 0 \<or> p \<ge> int NPROCS \<or> p = int (p_pid (proc k c)) \<or> p_state (proc k (nat p)) = P_EMPTY
      then upd_proc c (set_eax (-1)) k
      else if p_state (proc k (nat p)) = P_ZOMBIE
      then upd_proc c (set_eax (p_exit_status (proc k (nat p)))) k
      else upd_proc (nat p) (\<lambda>d. d\<lparr>queue := Some c\<rparr>) (upd_proc c (set_state P_BLOCKED) k))"

section \<open>The interrupt handler\<close>

abbreviation (input) "INT_SYS_GETPID \<equiv> (48 :: u32)"
abbreviation (input) "INT_SYS_FORK \<equiv> (49 :: u32)"
abbreviation (input) "INT_SYS_YIELD \<equiv> (50 :: u32)"
abbreviation (input) "INT_SYS_EXIT \<equiv> (51 :: u32)"
abbreviation (input) "INT_SYS_WAIT \<equiv> (52 :: u32)"

definition interrupt :: "registers \<Rightarrow> kern \<Rightarrow> outcome" where
  "interrupt reg k0 =
     (let c = current k0; k = upd_proc c (\<lambda>p. p\<lparr>p_registers := reg\<rparr>) k0 in
      if reg_intno reg = INT_SYS_GETPID then
        run c (upd_proc c (set_eax (of_nat (p_pid (proc k c)))) k)
      else if reg_intno reg = INT_SYS_FORK then
        (case do_fork c k of
           Inr out \<Rightarrow> out
         | Inl (r, k1) \<Rightarrow> run c (upd_proc c (set_eax r) k1))
      else if reg_intno reg = INT_SYS_YIELD then schedule k
      else if reg_intno reg = INT_SYS_EXIT then schedule (sys_exit k)
      else if reg_intno reg = INT_SYS_WAIT then schedule (sys_wait k)
      else Spin)"

section \<open>Booting\<close>

text \<open>The loop that asks for a program, on the successive keyboard readings.\<close>

fun read_program :: "(u8 \<times> u8) list \<Rightarrow> int option" where
  "read_program [] = None"
| "read_program ((st, d) # rest) =
     (let whichprocess = console_read_digit st d
      in if whichprocess \<noteq> 1 \<and> whichprocess \<noteq> 2 then read_program rest else Some whichprocess)"

definition empty_process :: "nat \<Rightarrow> process" where
  "empty_process i =
     \<lparr>p_pid = i, p_registers = zero_registers, p_state = P_EMPTY, p_exit_status = 0, queue = None\<rparr>"

text \<open>The prompt, without a conversion and so printed as it is.\<close>

definition prompt :: "u8 list" where
  "prompt = map of_char (''Type '' @ [CHR 0x27] @ ''1'' @ [CHR 0x27] @ '' to run mpos-app, or '' @ [CHR 0x27]
     @ ''2'' @ [CHR 0x27] @ '' to run mpos-app2.'')"

text \<open>
  \<open>start\<close>, from a machine with some console and memory, and with the keyboard readings that follow.
\<close>

definition start :: "nat list \<Rightarrow> (u8 \<times> u8) list \<Rightarrow> console \<Rightarrow> mem \<Rightarrow> outcome" where
  "start ramimages keyboard con m =
     (let k0 = \<lparr>proc_array = map empty_process [0..<NPROCS], current = 1, screen = con, phys = m\<rparr>;
          k1 = upd_proc 1 (\<lambda>p. p\<lparr>p_registers := special_registers_init\<rparr>) k0;
          printed = (case console_printf 0x0700 prompt [] (console_clear (screen k1)) of Some c \<Rightarrow> c | None \<Rightarrow> screen k1)
      in case read_program keyboard of
           None \<Rightarrow> Spin
         | Some whichprocess \<Rightarrow>
             (case program_loader ramimages (whichprocess - 1) m of
                None \<Rightarrow> Spin
              | Some (entry, m1) \<Rightarrow>
                  (let k2 = upd_proc 1 (\<lambda>p. p\<lparr>p_registers := (p_registers p)
                         \<lparr>reg_eip := entry, reg_esp := PROC1_STACK_ADDR + PROC_STACK_SIZE\<rparr>,
                         p_state := P_RUNNABLE\<rparr>) (k1\<lparr>screen := console_clear printed, phys := m1\<rparr>)
                   in run 1 k2)))"

section \<open>The whole system\<close>

text \<open>
  Between two interrupts the running process does what it likes: there is no memory protection,
  so that it may change the memory and the screen in any way (the kernel's own descriptors aside, which no
  application names). Then it traps with any register contents.
\<close>

inductive mpos_step :: "kern \<Rightarrow> kern \<Rightarrow> bool" where
  trap: "interrupt reg (k\<lparr>screen := con, phys := m\<rparr>) = Run k' \<Longrightarrow> mpos_step k k'"

inductive_cases mpos_stepE: "mpos_step k k'"

inductive mpos_reach :: "kern \<Rightarrow> bool" where
  boot: "start ramimages keyboard con m = Run k \<Longrightarrow> mpos_reach k"
| step: "mpos_reach k \<Longrightarrow> mpos_step k k' \<Longrightarrow> mpos_reach k'"

end
