(* ===== verification/MposProps.thy ===== *)
theory MposProps
  imports MposKern
begin

text \<open>
  Correctness of the MiniprocOS kernel: an invariant of every reachable state, what fork copies,
  how exit hands a status to a waiter, the fairness of the scheduler, and the fate of a waiter
  that a second waiter displaces.
\<close>

section \<open>The scheduler is a cyclic scan\<close>

lemma sched_scan_sound:
  assumes "sched_scan k i = Some j"
  shows "p_state (proc k j) = P_RUNNABLE \<and> j < 16"
  by (rule sched_scan.raw_induct [of "\<lambda>k i j. p_state (proc k j) = P_RUNNABLE \<and> j < 16", OF _ assms])
     (auto simp: Let_def split: if_splits)

interpretation mpos_rr: cyclic_scan 16 "\<lambda>k p. p_state (proc k p) = P_RUNNABLE" sched_scan
proof unfold_locales
  show "sched_scan k i = (if p_state (proc k (Suc i mod 16)) = P_RUNNABLE then Some (Suc i mod 16)
      else sched_scan k (Suc i mod 16))" for k i
    by (subst sched_scan.simps) (simp add: Let_def)
  show "sched_scan k i = Some j \<Longrightarrow> p_state (proc k j) = P_RUNNABLE \<and> j < 16" for k i j
    by (rule sched_scan_sound)
qed simp

section \<open>Descriptor updates\<close>

lemma upd_proc_simps [simp]:
  "length (proc_array (upd_proc p f k)) = length (proc_array k)"
  "current (upd_proc p f k) = current k" "phys (upd_proc p f k) = phys k"
  by (simp_all add: upd_proc_def)

lemma proc_upd_proc:
  "p < length (proc_array k) \<Longrightarrow> proc (upd_proc p f k) q = (if q = p then f (proc k p) else proc k q)"
  by (simp add: upd_proc_def nth_list_update)

lemma set_state_simps [simp]:
  "p_state (set_state s p) = s" "p_pid (set_state s p) = p_pid p" "queue (set_state s p) = queue p"
  "p_registers (set_state s p) = p_registers p" "p_exit_status (set_state s p) = p_exit_status p"
  by (simp_all add: set_state_def)

lemma set_eax_simps [simp]:
  "p_state (set_eax v p) = p_state p" "p_pid (set_eax v p) = p_pid p" "queue (set_eax v p) = queue p"
  "reg_eax (p_registers (set_eax v p)) = v" "p_exit_status (set_eax v p) = p_exit_status p"
  by (simp_all add: set_eax_def)

section \<open>The invariant\<close>

text \<open>
  The descriptors apart from the scheduler's choice: sixteen of them, each with its own index as
  process ID, descriptor 0 unused, no zombie, and queue pointers to real descriptors.
\<close>

definition valid_queue :: "nat \<Rightarrow> nat option \<Rightarrow> bool" where
  "valid_queue i qo \<longleftrightarrow> (case qo of None \<Rightarrow> True | Some q \<Rightarrow> 0 < q \<and> q < NPROCS \<and> q \<noteq> i)"

definition table_ok :: "kern \<Rightarrow> bool" where
  "table_ok k \<longleftrightarrow>
     length (proc_array k) = NPROCS
     \<and> (\<forall>i < NPROCS. p_pid (proc k i) = i)
     \<and> (\<forall>i < NPROCS. p_state (proc k i) \<noteq> P_ZOMBIE)
     \<and> p_state (proc k 0) = P_EMPTY
     \<and> (\<forall>i < NPROCS. valid_queue i (queue (proc k i)))"

definition kern_ok :: "kern \<Rightarrow> bool" where
  "kern_ok k \<longleftrightarrow> table_ok k \<and> 0 < current k \<and> current k < NPROCS
     \<and> p_state (proc k (current k)) = P_RUNNABLE"

lemma table_okD:
  assumes "table_ok k"
  shows "length (proc_array k) = 16" "i < 16 \<Longrightarrow> p_pid (proc k i) = i"
    "i < 16 \<Longrightarrow> p_state (proc k i) \<noteq> P_ZOMBIE" "p_state (proc k 0) = P_EMPTY"
    "i < 16 \<Longrightarrow> valid_queue i (queue (proc k i))"
  using assms by (simp_all add: table_ok_def)

lemma kern_okD:
  assumes "kern_ok k"
  shows "table_ok k" "0 < current k" "current k < 16" "p_state (proc k (current k)) = P_RUNNABLE"
  using assms by (auto simp: kern_ok_def)

text \<open>An update of one descriptor that keeps its ID and makes no zombie keeps the table.\<close>

lemma table_ok_upd:
  assumes "table_ok k" "p < 16" "p_pid (f (proc k p)) = p" "p_state (f (proc k p)) \<noteq> P_ZOMBIE"
    "p \<noteq> 0 \<or> p_state (f (proc k p)) = P_EMPTY"
    "valid_queue p (queue (f (proc k p)))"
  shows "table_ok (upd_proc p f k)"
  using assms by (auto simp: table_ok_def proc_upd_proc)

lemma schedule_ok:
  assumes "table_ok k" "current k < 16" "schedule k = Run k'"
  shows "kern_ok k'" "proc_array k' = proc_array k" "phys k' = phys k"
    "sched_scan k (current k) = Some (current k')"
proof -
  have pid: "p_pid (proc k (current k)) = current k" using table_okD(2) [OF assms(1,2)] .
  obtain p where p: "sched_scan k (current k) = Some p" "k' = k\<lparr>current := p\<rparr>"
    using assms(3) by (auto simp: schedule_def run_def pid split: option.splits)
  then show "proc_array k' = proc_array k" "phys k' = phys k"
    "sched_scan k (current k) = Some (current k')" by simp_all
  have r: "p_state (proc k p) = P_RUNNABLE" "p < 16" using mpos_rr.scan_sound [OF p(1)] by auto
  have "p \<noteq> 0" using r(1) table_okD(4) [OF assms(1)] by (metis procstate.distinct(1))
  then show "kern_ok k'" using r assms(1) p(2) by (simp add: kern_ok_def table_ok_def)
qed

section \<open>Fork\<close>

lemma fork_scan_from:
  assumes p: "0 < p" "p < 16"
  shows "d \<le> 15 \<Longrightarrow> \<exists>s. fork_scan procs p ((p + 16 - d) mod 16) = Some (Slot s) \<and> 0 < s \<and> s < 16
    \<and> (s = p \<or> p_state (procs ! s) = P_EMPTY)
    \<and> (s = p \<longrightarrow> (\<forall>e. 0 < e \<and> e \<le> d \<longrightarrow> (p + 16 - e) mod 16 = 0 \<or> p_state (procs ! ((p + 16 - e) mod 16)) \<noteq> P_EMPTY))"
proof (induction d)
  case 0
  then show ?case using p by (subst fork_scan.simps) simp
next
  case (Suc d)
  let ?c = "(p + 16 - Suc d) mod 16"
  have c: "?c < 16" by simp
  have next_c: "(?c + 1) mod 16 = (p + 16 - d) mod 16"
  proof -
    have "(?c + 1) mod 16 = (p + 16 - Suc d + 1) mod 16" by (simp only: mod_add_left_eq)
    also have "p + 16 - Suc d + 1 = p + 16 - d" using Suc.prems by simp
    finally show ?thesis .
  qed
  have ne: "?c \<noteq> p"
  proof
    assume c: "?c = p"
    have "p + 16 - Suc d = p + (15 - d)" using Suc.prems by simp
    then have "(p + (15 - d)) mod 16 = p" using c by simp
    moreover have "(p + (15 - d)) mod 16 = (if p + (15 - d) < 16 then p + (15 - d) else p + (15 - d) - 16)"
      using p by (simp add: le_mod_geq)
    ultimately show False using p Suc.prems by (simp split: if_splits)
  qed
  show ?case
  proof (cases "p_state (procs ! ?c) \<noteq> P_EMPTY \<or> ?c = 0")
    case True
    have step: "fork_scan procs p ?c = fork_scan procs p ((p + 16 - d) mod 16)"
      using True ne c next_c by (subst fork_scan.simps) auto
    obtain s where s: "fork_scan procs p ((p + 16 - d) mod 16) = Some (Slot s)" "0 < s" "s < 16"
      "s = p \<or> p_state (procs ! s) = P_EMPTY"
      "s = p \<Longrightarrow> \<forall>e. 0 < e \<and> e \<le> d \<longrightarrow> (p + 16 - e) mod 16 = 0 \<or> p_state (procs ! ((p + 16 - e) mod 16)) \<noteq> P_EMPTY"
      using Suc.IH Suc.prems by auto
    have "\<forall>e. 0 < e \<and> e \<le> Suc d \<longrightarrow> (p + 16 - e) mod 16 = 0 \<or> p_state (procs ! ((p + 16 - e) mod 16)) \<noteq> P_EMPTY"
      if "s = p"
      using s(5) [OF that] True by (auto simp: le_Suc_eq)
    then show ?thesis using step s by auto
  next
    case False
    then have "fork_scan procs p ?c = Some (Slot ?c)" using c by (subst fork_scan.simps) auto
    then show ?thesis using False ne by auto
  qed
qed

text \<open>The search from \<open>parent + 1\<close>, for a parent that is not the last process.\<close>

lemma fork_scan_result:
  assumes "0 < p" "p < 15"
  obtains (full) "fork_scan procs p (p + 1) = Some (Slot p)"
      "\<forall>i. 0 < i \<and> i < 16 \<and> i \<noteq> p \<longrightarrow> p_state (procs ! i) \<noteq> P_EMPTY"
  | (free) s where "fork_scan procs p (p + 1) = Some (Slot s)" "0 < s" "s < 16" "s \<noteq> p"
      "p_state (procs ! s) = P_EMPTY"
proof -
  have "(p + 16 - 15) mod 16 = p + 1" using assms by simp
  then obtain s where s: "fork_scan procs p (p + 1) = Some (Slot s)" "0 < s" "s < 16"
    "s = p \<or> p_state (procs ! s) = P_EMPTY"
    "s = p \<Longrightarrow> \<forall>e. 0 < e \<and> e \<le> 15 \<longrightarrow> (p + 16 - e) mod 16 = 0 \<or> p_state (procs ! ((p + 16 - e) mod 16)) \<noteq> P_EMPTY"
    using fork_scan_from [of p 15 procs] assms by auto
  show thesis
  proof (cases "s = p")
    case True
    have "p_state (procs ! i) \<noteq> P_EMPTY" if i: "0 < i" "i < 16" "i \<noteq> p" for i
    proof -
      define e where "e = (p + 16 - i) mod 16"
      have "0 < e \<and> e \<le> 15 \<and> (p + 16 - e) mod 16 = i"
      proof (cases "i < p")
        case True
        then have "p + 16 - i = (p - i) + 16" by simp
        then have "e = (p - i) mod 16" unfolding e_def by (simp only: mod_add_self2)
        then have "e = p - i" using True assms(2) by simp
        moreover have "p + 16 - (p - i) = i + 16" using True by simp
        ultimately show ?thesis using True assms(2) i by simp
      next
        case False
        then have "e = p + 16 - i" using i by (simp add: e_def)
        then show ?thesis using False i by auto
      qed
      then show ?thesis using s(5) [OF True] i(1) by (metis less_irrefl)
    qed
    then show thesis using full s(1) True by blast
  next
    case False
    then show thesis using free s by blast
  qed
qed

text \<open>The addresses of the stacks: process \<open>p\<close> has the 256 KB below \<open>stack_top p\<close>.\<close>

definition stack_top :: "nat \<Rightarrow> nat" where
  "stack_top p = 0x280000 + p * 0x40000"

lemma stack_top_word:
  "p < 16 \<Longrightarrow> unat (PROC1_STACK_ADDR + of_nat p * PROC_STACK_SIZE) = stack_top p"
  unfolding stack_top_def by (simp add: unat_word_ariths unat_of_nat_u32)

text \<open>The child's descriptor and the memory after a fork.\<close>

lemma fork_child_proc:
  assumes ok: "table_ok k" and c: "c < 16" "c \<noteq> p" and p: "p < 16"
  defines "r \<equiv> p_registers (proc k p)"
  shows "proc (fork_child c p k) c = (proc k c)\<lparr>p_pid := c, p_state := P_RUNNABLE,
      p_registers := r\<lparr>reg_eax := 0,
        reg_esp := PROC1_STACK_ADDR + of_nat c * PROC_STACK_SIZE
          + (reg_esp r - (PROC1_STACK_ADDR + of_nat p * PROC_STACK_SIZE)),
        reg_ebp := PROC1_STACK_ADDR + of_nat c * PROC_STACK_SIZE\<rparr>\<rparr>"
    and "q \<noteq> c \<Longrightarrow> proc (fork_child c p k) q = proc k q"
    and "length (proc_array (fork_child c p k)) = 16" "current (fork_child c p k) = current k"
    and "phys (fork_child c p k) = memcpy (phys k)
      (unat (PROC1_STACK_ADDR + of_nat c * PROC_STACK_SIZE
          + (reg_esp r - (PROC1_STACK_ADDR + of_nat p * PROC_STACK_SIZE))))
      (unat (reg_esp r)) (unat (PROC1_STACK_ADDR + of_nat p * PROC_STACK_SIZE - reg_esp r))"
  using assms table_okD(1,2) [OF ok]
  by (simp_all add: fork_child_def copy_stack_def Let_def proc_upd_proc)

lemma fork_child_ok:
  assumes "table_ok k" "0 < c" "c < 16" "c \<noteq> p" "p < 16"
  shows "table_ok (fork_child c p k)"
proof -
  note F = fork_child_proc [OF assms(1,3,4,5)]
  have "p_pid (proc (fork_child c p k) i) = i" "p_state (proc (fork_child c p k) i) \<noteq> P_ZOMBIE"
    "valid_queue i (queue (proc (fork_child c p k) i))" if "i < 16" for i
    using F(1) F(2) [of i] table_okD(2,3,5) [OF assms(1) that] by (cases "i = c"; simp)+
  moreover have "p_state (proc (fork_child c p k) 0) = P_EMPTY"
    using F(2) [of 0] assms(2) table_okD(4) [OF assms(1)] by simp
  ultimately show ?thesis using F(3) by (simp add: table_ok_def)
qed

section \<open>Exit and wait keep the table\<close>

lemma sys_exit_ok:
  assumes ok: "table_ok k" and c: "0 < current k" "current k < 16"
  shows "table_ok (sys_exit k)" "current (sys_exit k) = current k" "phys (sys_exit k) = phys k"
    "p_state (proc (sys_exit k) (current k)) = P_EMPTY"
    "queue (proc k (current k)) = Some q \<Longrightarrow> p_state (proc (sys_exit k) q) = P_RUNNABLE
       \<and> reg_eax (p_registers (proc (sys_exit k) q)) = reg_eax (p_registers (proc k (current k)))
       \<and> queue (proc (sys_exit k) q) = queue (proc k q)"
    "i \<noteq> current k \<Longrightarrow> queue (proc k (current k)) \<noteq> Some i \<Longrightarrow> proc (sys_exit k) i = proc k i"
    "queue (proc (sys_exit k) j) = queue (proc k j)"
proof -
  let ?c = "current k"
  have len: "length (proc_array k) = 16" using table_okD(1) [OF ok] .
  have vq: "valid_queue ?c (queue (proc k ?c))" using table_okD(5) [OF ok c(2)] .
  have q: "0 < q \<and> q < 16 \<and> q \<noteq> ?c" if "queue (proc k ?c) = Some q" for q
    using vq that by (simp add: valid_queue_def)
  have E: "proc (sys_exit k) i = (if i = ?c then (proc k ?c)\<lparr>p_state := P_EMPTY,
        p_exit_status := reg_eax (p_registers (proc k ?c))\<rparr>
      else if queue (proc k ?c) = Some i
      then set_eax (reg_eax (p_registers (proc k ?c))) (set_state P_RUNNABLE (proc k i))
      else proc k i)" "length (proc_array (sys_exit k)) = 16" for i
    using q c by (auto simp: sys_exit_def Let_def proc_upd_proc len set_state_def split: option.splits)
  show "current (sys_exit k) = ?c" "phys (sys_exit k) = phys k"
    by (simp_all add: sys_exit_def Let_def split: option.splits)
  show "p_state (proc (sys_exit k) ?c) = P_EMPTY" by (simp add: E)
  show "queue (proc k ?c) = Some q \<Longrightarrow> p_state (proc (sys_exit k) q) = P_RUNNABLE
       \<and> reg_eax (p_registers (proc (sys_exit k) q)) = reg_eax (p_registers (proc k ?c))
       \<and> queue (proc (sys_exit k) q) = queue (proc k q)"
    using q by (simp add: E)
  show "i \<noteq> ?c \<Longrightarrow> queue (proc k ?c) \<noteq> Some i \<Longrightarrow> proc (sys_exit k) i = proc k i" by (simp add: E)
  show qs: "queue (proc (sys_exit k) j) = queue (proc k j)" for j by (simp add: E)
  have "p_pid (proc (sys_exit k) i) = i" "p_state (proc (sys_exit k) i) \<noteq> P_ZOMBIE"
    "valid_queue i (queue (proc (sys_exit k) i))" if "i < 16" for i
    using table_okD(2,3,5) [OF ok that] by (auto simp: E)
  moreover have "p_state (proc (sys_exit k) 0) = P_EMPTY"
    using table_okD(4) [OF ok] c(1) q by (auto simp: E)
  ultimately show "table_ok (sys_exit k)" using E(2) by (simp add: table_ok_def)
qed

text \<open>The cases of \<open>sys_wait\<close> in a state without zombies.\<close>

lemma sys_wait_cases:
  assumes ok: "table_ok k" and c: "0 < current k" "current k < 16"
  obtains (refused) "sys_wait k = upd_proc (current k) (set_eax (-1)) k"
      "sint (reg_eax (p_registers (proc k (current k)))) \<le> 0
        \<or> sint (reg_eax (p_registers (proc k (current k)))) \<ge> 16
        \<or> sint (reg_eax (p_registers (proc k (current k)))) = int (current k)
        \<or> p_state (proc k (nat (sint (reg_eax (p_registers (proc k (current k))))))) = P_EMPTY"
    | (blocks) p where "sint (reg_eax (p_registers (proc k (current k)))) = int p"
      "0 < p" "p < 16" "p \<noteq> current k"
      "p_state (proc k p) = P_RUNNABLE \<or> p_state (proc k p) = P_BLOCKED"
      "sys_wait k = upd_proc p (\<lambda>d. d\<lparr>queue := Some (current k)\<rparr>)
        (upd_proc (current k) (set_state P_BLOCKED) k)"
proof -
  let ?v = "sint (reg_eax (p_registers (proc k (current k))))"
  have pid: "p_pid (proc k (current k)) = current k" using table_okD(2) [OF ok c(2)] .
  show thesis
  proof (cases "?v \<le> 0 \<or> ?v \<ge> 16 \<or> ?v = int (current k) \<or> p_state (proc k (nat ?v)) = P_EMPTY")
    case True
    show thesis by (rule refused [OF _ True]) (use True pid in \<open>simp add: sys_wait_def Let_def\<close>)
  next
    case False
    define p where "p = nat ?v"
    have p: "?v = int p" "0 < p" "p < 16" "p \<noteq> current k" "p_state (proc k p) \<noteq> P_EMPTY"
      using False by (auto simp: p_def)
    have z: "p_state (proc k p) \<noteq> P_ZOMBIE" using table_okD(3) [OF ok p(3)] .
    show thesis
      by (rule blocks [OF p(1-4)])
         (use p z pid in \<open>cases "p_state (proc k p)"; simp add: sys_wait_def Let_def\<close>)+
  qed
qed

lemma sys_wait_ok:
  assumes ok: "table_ok k" and c: "0 < current k" "current k < 16"
  shows "table_ok (sys_wait k)" "current (sys_wait k) = current k" "phys (sys_wait k) = phys k"
proof -
  have cok: "p_pid (proc k (current k)) = current k" "p_state (proc k (current k)) \<noteq> P_ZOMBIE"
    "valid_queue (current k) (queue (proc k (current k)))"
    using table_okD(2,3,5) [OF ok c(2)] .
  have "table_ok (sys_wait k) \<and> current (sys_wait k) = current k \<and> phys (sys_wait k) = phys k"
  proof (cases rule: sys_wait_cases [OF ok c])
    case 1
    have "table_ok (upd_proc (current k) (set_eax (- 1)) k)"
      by (rule table_ok_upd [OF ok c(2)]) (use cok c in simp_all)
    then show ?thesis using 1(1) by simp
  next
    case (2 p)
    let ?k1 = "upd_proc (current k) (set_state P_BLOCKED) k"
    have k1: "table_ok ?k1"
      by (rule table_ok_upd [OF ok c(2)]) (use cok c in simp_all)
    have "table_ok (upd_proc p (\<lambda>d. d\<lparr>queue := Some (current k)\<rparr>) ?k1)"
      by (rule table_ok_upd [OF k1 2(3)])
         (use table_okD(2,3) [OF k1 2(3)] 2(2,4) c in \<open>simp_all add: valid_queue_def\<close>)
    then show ?thesis using 2(6) by simp
  qed
  then show "table_ok (sys_wait k)" "current (sys_wait k) = current k" "phys (sys_wait k) = phys k"
    by blast+
qed

section \<open>The invariant holds in every reachable state\<close>

abbreviation save_regs :: "registers \<Rightarrow> kern \<Rightarrow> kern" where
  "save_regs reg k \<equiv> upd_proc (current k) (\<lambda>p. p\<lparr>p_registers := reg\<rparr>) k"

lemma save_regs_ok:
  assumes "kern_ok k"
  shows "kern_ok (save_regs reg k)" "table_ok (save_regs reg k)"
    "queue (proc (save_regs reg k) i) = queue (proc k i)"
    "p_state (proc (save_regs reg k) i) = p_state (proc k i)"
    "p_registers (proc (save_regs reg k) (current k)) = reg"
    "i \<noteq> current k \<Longrightarrow> proc (save_regs reg k) i = proc k i"
proof -
  note K = kern_okD [OF assms]
  note T = table_okD [OF K(1)]
  show t: "table_ok (save_regs reg k)"
    by (rule table_ok_upd [OF K(1,3)]) (use T(2,3,5) [OF K(3)] K(2) in simp_all)
  show "kern_ok (save_regs reg k)"
    using t K T(1) by (simp add: kern_ok_def proc_upd_proc)
  show "queue (proc (save_regs reg k) i) = queue (proc k i)"
    "p_state (proc (save_regs reg k) i) = p_state (proc k i)"
    "p_registers (proc (save_regs reg k) (current k)) = reg"
    "i \<noteq> current k \<Longrightarrow> proc (save_regs reg k) i = proc k i"
    using T(1) K(3) by (simp_all add: proc_upd_proc)
qed

text \<open>How an interrupt from a good state can end.\<close>

lemma interrupt_cases:
  assumes ok: "kern_ok k" and run: "interrupt reg k = Run k'"
  obtains (getpid) "reg_intno reg = 48" "k' = upd_proc (current k) (set_eax (of_nat (current k))) (save_regs reg k)"
    | (fork_fail) "reg_intno reg = 49" "k' = upd_proc (current k) (set_eax (-1)) (save_regs reg k)"
        "\<forall>i. 0 < i \<and> i < 16 \<and> i \<noteq> current k \<longrightarrow> p_state (proc k i) \<noteq> P_EMPTY"
    | (fork) c where "reg_intno reg = 49" "0 < c" "c < 16" "c \<noteq> current k" "p_state (proc k c) = P_EMPTY"
        "k' = upd_proc (current k) (set_eax (of_nat c)) (fork_child c (current k) (save_regs reg k))"
    | (yield) "reg_intno reg = 50" "schedule (save_regs reg k) = Run k'"
    | (exits) "reg_intno reg = 51" "schedule (sys_exit (save_regs reg k)) = Run k'"
    | (waits) "reg_intno reg = 52" "schedule (sys_wait (save_regs reg k)) = Run k'"
proof -
  note K = kern_okD [OF ok]
  note S = save_regs_ok [OF ok, where reg = reg]
  let ?c = "current k" and ?k1 = "save_regs reg k"
  have pid: "p_pid (proc ?k1 ?c) = ?c" using table_okD(2) [OF S(2) K(3)] .
  have self: "k\<lparr>current := current k\<rparr> = k" for k :: kern by simp
  consider "reg_intno reg = 48" | "reg_intno reg = 49" | "reg_intno reg = 50"
    | "reg_intno reg = 51" | "reg_intno reg = 52"
    using run by (auto simp: interrupt_def Let_def split: if_splits)
  then show thesis
  proof cases
    case 1
    have "k' = upd_proc ?c (set_eax (of_nat ?c)) ?k1\<lparr>current := ?c\<rparr>"
      using 1 run by (simp add: interrupt_def Let_def pid run_def)
    also have "\<dots> = upd_proc ?c (set_eax (of_nat ?c)) ?k1"
      using self [of "upd_proc ?c (set_eax (of_nat ?c)) ?k1"] by simp
    finally show thesis by (rule getpid [OF 1])
  next
    case 2
    have c15: "?c < 15"
    proof (rule ccontr)
      assume "\<not> ?c < 15"
      then have "?c = 15" using K(3) by linarith
      then have "fork_scan (proc_array ?k1) ?c (?c + 1) = Some Beyond_array"
        by (subst fork_scan.simps) simp
      then show False using run 2 pid by (simp add: interrupt_def Let_def do_fork_def)
    qed
    show thesis
    proof (cases rule: fork_scan_result [OF K(2) c15, of "proc_array ?k1"])
      case 1
      then have "k' = upd_proc ?c (set_eax (-1)) ?k1\<lparr>current := ?c\<rparr>"
        using run 2 pid by (simp add: interrupt_def Let_def do_fork_def run_def)
      also have "\<dots> = upd_proc ?c (set_eax (-1)) ?k1"
        using self [of "upd_proc ?c (set_eax (-1)) ?k1"] by simp
      finally show thesis using fork_fail [OF 2] 1(2) S(4) by simp
    next
      case (2 c)
      let ?f = "fork_child c ?c ?k1"
      have cur: "current ?f = ?c"
        using fork_child_proc(4) [OF S(2) 2(3) 2(4) K(3)] by simp
      have "k' = upd_proc ?c (set_eax (of_nat c)) ?f\<lparr>current := ?c\<rparr>"
        using run \<open>reg_intno reg = 49\<close> pid 2(1,4) by (simp add: interrupt_def Let_def do_fork_def run_def)
      also have "\<dots> = upd_proc ?c (set_eax (of_nat c)) ?f"
        using self [of "upd_proc ?c (set_eax (of_nat c)) ?f"] cur by simp
      finally show thesis using fork [OF \<open>reg_intno reg = 49\<close> 2(2,3,4)] 2(5) S(4) by simp
    qed
  next
    case 3
    then show thesis using yield run by (simp add: interrupt_def Let_def)
  next
    case 4
    then show thesis using exits run by (simp add: interrupt_def Let_def)
  next
    case 5
    then show thesis using waits run by (simp add: interrupt_def Let_def)
  qed
qed

lemma interrupt_ok:
  assumes ok: "kern_ok k" and run: "interrupt reg k = Run k'"
  shows "kern_ok k'"
proof -
  note K = kern_okD [OF ok]
  note S = save_regs_ok [OF ok, where reg = reg]
  have c1: "0 < current (save_regs reg k)" "current (save_regs reg k) < 16" using K by simp_all
  note T1 = table_okD [OF S(2)]
  have eax: "kern_ok (upd_proc (current k) (set_eax v) k2)"
    if "table_ok k2" "current k2 = current k" "p_state (proc k2 (current k)) = P_RUNNABLE" for v k2
  proof -
    note T = table_okD [OF that(1)]
    have "table_ok (upd_proc (current k) (set_eax v) k2)"
      by (rule table_ok_upd [OF that(1) K(3)]) (use T(2,3,5) [OF K(3)] K(2) in simp_all)
    then show ?thesis using that(2,3) K(2,3) T(1) by (simp add: kern_ok_def proc_upd_proc)
  qed
  show ?thesis
  proof (cases rule: interrupt_cases [OF ok run])
    case 1
    then show ?thesis using eax [OF S(2)] S(4) K(4) by simp
  next
    case 2
    then show ?thesis using eax [OF S(2)] S(4) K(4) by simp
  next
    case (3 c)
    note F = fork_child_proc(2,4) [OF S(2) 3(3,4) K(3)]
    have "table_ok (fork_child c (current k) (save_regs reg k))"
      by (rule fork_child_ok [OF S(2) 3(2,3,4) K(3)])
    then show ?thesis using eax [of "fork_child c (current k) (save_regs reg k)"] F(2) F(1) [of "current k"] 3 S(4) K(4)
      by simp
  next
    case 4
    show ?thesis by (rule schedule_ok(1) [OF S(2) c1(2) 4(2)])
  next
    case 5
    have c: "current (sys_exit (save_regs reg k)) < 16" using sys_exit_ok(2) [OF S(2) c1] c1(2) by simp
    show ?thesis by (rule schedule_ok(1) [OF sys_exit_ok(1) [OF S(2) c1] c 5(2)])
  next
    case 6
    have c: "current (sys_wait (save_regs reg k)) < 16" using sys_wait_ok(2) [OF S(2) c1] c1(2) by simp
    show ?thesis by (rule schedule_ok(1) [OF sys_wait_ok(1) [OF S(2) c1] c 6(2)])
  qed
qed

lemma proc_phys [simp]:
  "proc_array (k\<lparr>screen := con, phys := m\<rparr>) = proc_array k" "current (k\<lparr>screen := con, phys := m\<rparr>) = current k"
  by simp_all

lemma kern_ok_phys [simp]: "kern_ok (k\<lparr>screen := con, phys := m\<rparr>) = kern_ok k"
  by (simp add: kern_ok_def table_ok_def)

lemma start_ok:
  assumes "start ramimages keyboard con m = Run k"
  shows "kern_ok k"
proof -
  have e: "map empty_process [0..<16] ! i = empty_process i" if "i < 16" for i
    using that by (simp del: upt_Suc)
  let ?k0 = "\<lparr>proc_array = map empty_process [0..<16], current = 1, screen = con, phys = m\<rparr>"
  have t0: "table_ok ?k0"
    by (simp add: table_ok_def e empty_process_def valid_queue_def del: upt_Suc)
  let ?k1 = "upd_proc 1 (\<lambda>p. p\<lparr>p_registers := special_registers_init\<rparr>) ?k0"
  note T0 = table_okD [OF t0]
  have t1: "table_ok ?k1"
    by (rule table_ok_upd [OF t0]) (use T0(2,3,5) [of 1] in simp_all)
  obtain w entry con1 m1 where k: "k = upd_proc 1 (\<lambda>p. p\<lparr>p_registers := (p_registers p)
        \<lparr>reg_eip := entry, reg_esp := PROC1_STACK_ADDR + PROC_STACK_SIZE\<rparr>,
        p_state := P_RUNNABLE\<rparr>) (?k1\<lparr>screen := con1, phys := m1\<rparr>)\<lparr>current := 1\<rparr>"
    using assms by (auto simp: start_def Let_def run_def split: option.splits)
  have t2: "table_ok (?k1\<lparr>screen := con1, phys := m1\<rparr>)" using t1 by (simp add: table_ok_def)
  note T2 = table_okD [OF t2]
  have "table_ok (upd_proc 1 (\<lambda>p. p\<lparr>p_registers := (p_registers p)
        \<lparr>reg_eip := entry, reg_esp := PROC1_STACK_ADDR + PROC_STACK_SIZE\<rparr>,
        p_state := P_RUNNABLE\<rparr>) (?k1\<lparr>screen := con1, phys := m1\<rparr>))"
    by (rule table_ok_upd [OF t2]) (use T2(2,5) [of 1] in simp_all)
  then show ?thesis
    unfolding k using T2(1) by (simp add: kern_ok_def table_ok_def proc_upd_proc)
qed

text \<open>C9: In every reachable state the process that runs is a runnable one, descriptor 0 is unused,
  every descriptor carries its own index as process ID, every waiter recorded in a descriptor is
  a real other process, and no descriptor is a zombie.\<close>

theorem mpos_reachable_invariant:
  assumes "mpos_reach k"
  shows "0 < current k \<and> current k < NPROCS \<and> p_state (proc k (current k)) = P_RUNNABLE
    \<and> p_state (proc k 0) = P_EMPTY
    \<and> (\<forall>i < NPROCS. p_pid (proc k i) = i \<and> p_state (proc k i) \<noteq> P_ZOMBIE
         \<and> (case queue (proc k i) of None \<Rightarrow> True | Some q \<Rightarrow> 0 < q \<and> q < NPROCS \<and> q \<noteq> i))"
proof -
  have "kern_ok k"
    using assms
  proof (induction rule: mpos_reach.induct)
    case (boot ramimages keyboard con m k)
    then show ?case by (rule start_ok)
  next
    case (step k k')
    from step(2) obtain reg con m where "interrupt reg (k\<lparr>screen := con, phys := m\<rparr>) = Run k'" by (rule mpos_stepE)
    then show ?case using interrupt_ok step(3) by (metis kern_ok_phys)
  qed
  then show ?thesis by (auto simp: kern_ok_def table_ok_def valid_queue_def)
qed

text \<open>A booted system: the key 1 pressed, the program image \<open>boot_mem\<close>.\<close>

definition boot_screen :: console where
  "boot_screen = \<lparr>cells = \<lambda>x. 0x0720, cursor = 0\<rparr>"

definition booted :: kern where
  "booted = \<lparr>proc_array = (map empty_process [0..<NPROCS])
      [1 := \<lparr>p_pid = 1, p_registers = special_registers_init\<lparr>reg_eip := 0, reg_esp := 0x2C0000\<rparr>,
             p_state = P_RUNNABLE, p_exit_status = 0, queue = None\<rparr>],
      current = 1, screen = console_clear
        (case console_printf 0x0700 prompt [] (console_clear boot_screen) of Some c \<Rightarrow> c | None \<Rightarrow> boot_screen),
      phys = boot_mem\<rparr>"

lemma proc_booted [simp]:
  "proc booted 1 = \<lparr>p_pid = 1, p_registers = special_registers_init\<lparr>reg_eip := 0, reg_esp := 0x2C0000\<rparr>,
             p_state = P_RUNNABLE, p_exit_status = 0, queue = None\<rparr>"
  "i < 16 \<Longrightarrow> i \<noteq> 1 \<Longrightarrow> proc booted i = empty_process i" "current booted = 1"
  by (simp_all add: booted_def del: upt_Suc)

lemmas proc_booted_Suc [simp] = proc_booted(1) [unfolded One_nat_def]

lemma start_booted: "start [0] [(1, 2)] boot_screen boot_mem = Run booted"
proof -
  have p: "program_loader [0] 0 boot_mem = Some (0, boot_mem)"
    by (simp add: program_loader_def Let_def)
  have d: "console_read_digit 1 2 = 1" by (simp add: console_read_digit_def word_le_nat_alt)
  show ?thesis
    by (simp add: start_def Let_def d p run_def upd_proc_def booted_def empty_process_def del: upt_Suc cong: option.case_cong)
qed

lemma booted_ok: "kern_ok booted"
  by (rule start_ok [OF start_booted])

theorem mpos_reachable_invariant_witness:
  "mpos_reach booted \<and> p_state (proc booted (current booted)) = P_RUNNABLE \<and> p_pid (proc booted 7) = 7"
  using mpos_reachable_invariant [OF mpos_reach.boot [OF start_booted]] mpos_reach.boot [OF start_booted]
  by (simp add: empty_process_def)

section \<open>What fork does\<close>

lemma stack_difference:
  assumes p: "p < 16" "c < 16" and esp: "stack_top (p - 1) \<le> unat esp" "unat esp \<le> stack_top p" "0 < p"
  shows "unat (PROC1_STACK_ADDR + of_nat p * PROC_STACK_SIZE - esp) = stack_top p - unat esp"
    "unat (PROC1_STACK_ADDR + of_nat c * PROC_STACK_SIZE
        + (esp - (PROC1_STACK_ADDR + of_nat p * PROC_STACK_SIZE))) = stack_top c - (stack_top p - unat esp)"
    "stack_top p - unat esp \<le> 0x40000"
proof -
  let ?sp = "PROC1_STACK_ADDR + of_nat p * PROC_STACK_SIZE" and ?sc = "PROC1_STACK_ADDR + of_nat c * PROC_STACK_SIZE"
  note sp = stack_top_word [OF p(1)] and sc = stack_top_word [OF p(2)]
  have le: "esp \<le> ?sp" unfolding word_le_nat_alt sp by (rule esp(2))
  then show d: "unat (?sp - esp) = stack_top p - unat esp" by (simp only: unat_sub sp)
  show len: "stack_top p - unat esp \<le> 0x40000" using esp by (cases p) (auto simp: stack_top_def)
  have "?sp - esp \<le> ?sc" unfolding word_le_nat_alt d sc using len by (simp add: stack_top_def)
  then have "unat (?sc - (?sp - esp)) = stack_top c - (stack_top p - unat esp)"
    by (simp only: unat_sub sc d)
  moreover have "?sc + (esp - ?sp) = ?sc - (?sp - esp)" by simp
  ultimately show "unat (?sc + (esp - ?sp)) = stack_top c - (stack_top p - unat esp)" by (simp only:)
qed

lemma stacks_disjoint: "p < c \<Longrightarrow> stack_top p \<le> stack_top (c - 1)" "0 < c \<Longrightarrow> stack_top c = stack_top (c - 1) + 0x40000"
  by (auto simp: stack_top_def)

text \<open>The stack of a child: the copy does not overlap the stack of its parent, and the rest of the memory stays.\<close>

lemma stack_copied:
  assumes "0 < c" "c \<noteq> p" "stack_top (p - 1) \<le> esp" "esp \<le> stack_top p" "stack_top p - esp \<le> 0x40000"
    and "m' = memcpy m (stack_top c - (stack_top p - esp)) esp (stack_top p - esp)"
  shows "mem_read m' (stack_top c - (stack_top p - esp)) (stack_top p - esp) = mem_read m esp (stack_top p - esp)"
    "a < stack_top (c - 1) \<or> stack_top c \<le> a \<Longrightarrow> m' a = m a"
proof -
  let ?used = "stack_top p - esp"
  have dis: "stack_top c - ?used \<le> esp \<or> esp + ?used \<le> stack_top c - ?used"
  proof (cases "c < p")
    case True
    then show ?thesis using stacks_disjoint(1) [of c p] assms(3) by linarith
  next
    case False
    then have "p < c" using assms(2) by simp
    then show ?thesis
      using stacks_disjoint(1) [of p c] stacks_disjoint(2) [OF assms(1)] assms(4,5) by linarith
  qed
  have copy: "m' = mem_copy m (stack_top c - ?used) esp ?used"
    unfolding assms(6) by (rule memcpy_apply [OF dis])
  show "mem_read m' (stack_top c - ?used) ?used = mem_read m esp ?used"
    unfolding copy by (rule mem_read_mem_copy)
  show "m' a = m a" if "a < stack_top (c - 1) \<or> stack_top c \<le> a"
    unfolding copy mem_copy_def using that stacks_disjoint(2) [OF assms(1)] assms(5) by auto
qed

lemma fork_full:
  assumes "kern_ok k" "p = current k" "reg_intno reg = INT_SYS_FORK"
    and "fork_scan (proc_array (save_regs reg k)) p (p + 1) = Some (Slot p)"
  shows "interrupt reg k = Run (upd_proc p (\<lambda>d. d\<lparr>p_registers := reg\<lparr>reg_eax := -1\<rparr>\<rparr>) k)"
proof -
  note K = kern_okD [OF assms(1)]
  note S = save_regs_ok [OF assms(1), where reg = reg]
  have p: "0 < p" "p < 16" "current k = p" using K assms(2) by simp_all
  have len: "p < length (proc_array k)" using table_okD(1) [OF K(1)] p(2) by simp
  have pid: "p_pid (proc (save_regs reg k) p) = p" using table_okD(2) [OF S(2) p(2)] .
  have self: "k\<lparr>current := current k\<rparr> = k" for k :: kern by simp
  have e: "upd_proc p (set_eax (-1)) (save_regs reg k) = upd_proc p (\<lambda>d. d\<lparr>p_registers := reg\<lparr>reg_eax := -1\<rparr>\<rparr>) k"
    using len p(3) by (simp add: upd_proc_def set_eax_def)
  have "interrupt reg k = Run (upd_proc p (set_eax (-1)) (save_regs reg k)\<lparr>current := p\<rparr>)"
    using assms(3,4) pid p(3) by (simp add: interrupt_def Let_def do_fork_def run_def)
  also have "upd_proc p (set_eax (-1)) (save_regs reg k)\<lparr>current := p\<rparr> = upd_proc p (set_eax (-1)) (save_regs reg k)"
    using self [of "upd_proc p (set_eax (-1)) (save_regs reg k)"] p(3) by simp
  finally show ?thesis using e by simp
qed

text \<open>C5: When the running process \<open>p\<close> (not the last one) forks with its stack pointer inside its own
  stack, and a descriptor is free, a free descriptor \<open>c\<close> becomes a runnable process. Its registers
  are the parent's except that it gets 0 in \<open>eax\<close>, a stack pointer at the same distance from its
  own stack top, and its stack top in \<open>ebp\<close>; the used part of the stack is copied; the parent gets
  the child's process ID. No other descriptor and no memory outside the child's stack changes.
  Without a free descriptor the parent gets -1 and nothing else happens.\<close>

theorem mpos_fork:
  assumes "kern_ok k" "p = current k" "p < 15" "reg_intno reg = INT_SYS_FORK"
    and "stack_top (p - 1) \<le> unat (reg_esp reg)" "unat (reg_esp reg) \<le> stack_top p"
  shows "if \<forall>i. 0 < i \<and> i < NPROCS \<longrightarrow> p_state (proc k i) \<noteq> P_EMPTY
    then interrupt reg k = Run (upd_proc p (\<lambda>d. d\<lparr>p_registers := reg\<lparr>reg_eax := -1\<rparr>\<rparr>) k)
    else \<exists>k' c used. interrupt reg k = Run k' \<and> current k' = p
      \<and> 0 < c \<and> c < NPROCS \<and> p_state (proc k c) = P_EMPTY
      \<and> p_registers (proc k' p) = reg\<lparr>reg_eax := of_nat c\<rparr> \<and> p_state (proc k' p) = P_RUNNABLE
      \<and> p_pid (proc k' c) = c \<and> p_state (proc k' c) = P_RUNNABLE
      \<and> used = stack_top p - unat (reg_esp reg)
      \<and> (\<exists>esp. unat esp = stack_top c - used
           \<and> p_registers (proc k' c) = reg\<lparr>reg_eax := 0, reg_esp := esp, reg_ebp := PROC1_STACK_ADDR + of_nat c * PROC_STACK_SIZE\<rparr>)
      \<and> (\<forall>i. i \<noteq> c \<and> i \<noteq> p \<longrightarrow> proc k' i = proc k i)
      \<and> mem_read (phys k') (stack_top c - used) used = mem_read (phys k) (unat (reg_esp reg)) used
      \<and> (\<forall>a. a < stack_top (c - 1) \<or> stack_top c \<le> a \<longrightarrow> phys k' a = phys k a)"
proof -
  note K = kern_okD [OF assms(1)]
  note S = save_regs_ok [OF assms(1), where reg = reg]
  have p: "0 < p" "p < 16" "current k = p" using K assms(2) by simp_all
  have regs: "p_registers (proc (save_regs reg k) p) = reg" using S(5) p(3) by simp
  have pid: "p_pid (proc (save_regs reg k) p) = p" using table_okD(2) [OF S(2) p(2)] .
  show ?thesis
  proof (cases rule: fork_scan_result [OF p(1) assms(3), of "proc_array (save_regs reg k)"])
    case 1
    have "p_state (proc k i) \<noteq> P_EMPTY" if "0 < i \<and> i < 16" for i
      using 1(2) that S(4) [of i] K(4) p(3) by (cases "i = p") auto
    then have "\<forall>i. 0 < i \<and> i < 16 \<longrightarrow> p_state (proc k i) \<noteq> P_EMPTY" by blast
    then show ?thesis using fork_full [OF assms(1,2,4) 1(1)] by simp
  next
    case (2 c)
    let ?k1 = "save_regs reg k" and ?used = "stack_top p - unat (reg_esp reg)"
    note F = fork_child_proc [OF S(2) 2(3,4) p(2), unfolded regs]
    let ?f = "fork_child c p ?k1"
    define k' where "k' = upd_proc p (set_eax (of_nat c)) ?f\<lparr>current := p\<rparr>"
    note D = stack_difference [OF p(2) 2(3) assms(5,6) p(1)]
    have run: "interrupt reg k = Run k'"
      using 2(1,4) assms(4) pid p(3) by (simp add: interrupt_def Let_def do_fork_def run_def k'_def)
    have lf: "p < length (proc_array ?f)" using F(3) p(2) by simp
    have P: "proc k' i = (if i = p then set_eax (of_nat c) (proc ?f p) else proc ?f i)" for i
      unfolding k'_def using proc_upd_proc [OF lf, of "set_eax (of_nat c)" i] by simp
    have fp: "proc ?f p = proc ?k1 p" using F(2) 2(4) by simp
    have "phys k' = memcpy (phys k) (stack_top c - ?used) (unat (reg_esp reg)) ?used"
      using F(5) [unfolded D(1,2)] by (simp add: k'_def)
    note copied = stack_copied [OF 2(2,4) assms(5,6) D(3) this]
    have free: "p_state (proc k c) = P_EMPTY" using 2(5) S(4) by simp
    then have ex: "\<not> (\<forall>i. 0 < i \<and> i < 16 \<longrightarrow> p_state (proc k i) \<noteq> P_EMPTY)" using 2(2,3) by blast
    define esp where "esp = PROC1_STACK_ADDR + of_nat c * PROC_STACK_SIZE
        + (reg_esp reg - (PROC1_STACK_ADDR + of_nat p * PROC_STACK_SIZE))"
    have regs_c: "p_registers (proc k' c) = reg\<lparr>reg_eax := 0, reg_esp := esp,
        reg_ebp := PROC1_STACK_ADDR + of_nat c * PROC_STACK_SIZE\<rparr>" "p_pid (proc k' c) = c"
      "p_state (proc k' c) = P_RUNNABLE"
      using P [of c] F(1) 2(4) by (simp_all add: esp_def)
    have u: "unat esp = stack_top c - ?used" unfolding esp_def by (rule D(2))
    have regs_p: "p_registers (proc k' p) = reg\<lparr>reg_eax := of_nat c\<rparr>" "p_state (proc k' p) = P_RUNNABLE"
      using P [of p] fp regs S(4) [of p] K(4) p(3) by (simp_all add: set_eax_def)
    have rest: "\<forall>i. i \<noteq> c \<and> i \<noteq> p \<longrightarrow> proc k' i = proc k i"
      using P F(2) S(6) p(3) by auto
    have "current k' = p" by (simp add: k'_def)
    then show ?thesis
      unfolding if_not_P [OF ex]
      using run 2(2,3) free regs_p regs_c u rest copied
      by (intro exI [of _ k'] exI [of _ c] exI [of _ ?used] conjI) auto
  qed
qed

theorem mpos_fork_witness:
  "\<exists>k'. interrupt (special_registers_init\<lparr>reg_intno := 49, reg_esp := 0x2BFFF0\<rparr>) booted = Run k'
    \<and> (\<exists>c. 0 < c \<and> c < 16 \<and> p_state (proc k' c) = P_RUNNABLE \<and> reg_eax (p_registers (proc k' c)) = 0
      \<and> mem_read (phys k') (stack_top c - 16) 16 = mem_read boot_mem 0x2BFFF0 16)"
proof -
  let ?r = "special_registers_init\<lparr>reg_intno := 49, reg_esp := 0x2BFFF0\<rparr>"
  have b: "stack_top (1 - 1) \<le> unat (reg_esp ?r)" "unat (reg_esp ?r) \<le> stack_top 1" "(1 :: nat) < 15"
    by (simp_all add: stack_top_def)
  have e: "\<not> (\<forall>i. 0 < i \<and> i < 16 \<longrightarrow> p_state (proc booted i) \<noteq> P_EMPTY)"
    by (auto intro!: exI [of _ 2] simp: empty_process_def)
  have ph: "phys booted = boot_mem" by (simp add: booted_def)
  have u: "stack_top 1 - unat (reg_esp ?r) = 16" "unat (reg_esp ?r) = 0x2BFFF0"
    "stack_top (Suc 0) - 2883568 = 16"
    by (simp_all add: stack_top_def)
  obtain k' c where "interrupt ?r booted = Run k'" "0 < c" "c < 16" "p_state (proc k' c) = P_RUNNABLE"
    "\<exists>esp. p_registers (proc k' c) = ?r\<lparr>reg_eax := 0, reg_esp := esp, reg_ebp := PROC1_STACK_ADDR + of_nat c * PROC_STACK_SIZE\<rparr>"
    "mem_read (phys k') (stack_top c - 16) 16 = mem_read boot_mem 0x2BFFF0 16"
    using mpos_fork [OF booted_ok _ b(3) _ b(1,2)] unfolding if_not_P [OF e] u ph by (auto simp: u(3))
  then show ?thesis by (intro exI [of _ k'] conjI exI [of _ c]) auto
qed

text \<open>The last process cannot fork: the search for a free descriptor starts beyond the end of the
  descriptor array, whatever the array holds.\<close>

theorem mpos_fork_last_process:
  assumes "kern_ok k" "current k = 15" "reg_intno reg = INT_SYS_FORK"
  shows "interrupt reg k = Wild"
proof -
  note S = save_regs_ok [OF assms(1), where reg = reg]
  have "p_pid (proc (save_regs reg k) 15) = 15" using table_okD(2) [OF S(2), of 15] by simp
  moreover have "fork_scan (proc_array (save_regs reg k)) 15 16 = Some Beyond_array"
    by (subst fork_scan.simps) simp
  ultimately show ?thesis using assms(2,3) by (simp add: interrupt_def Let_def do_fork_def)
qed

text \<open>A state in which the last process runs.\<close>

definition last_running :: kern where
  "last_running = (upd_proc 15 (set_state P_RUNNABLE) booted)\<lparr>current := 15\<rparr>"

lemma last_running_ok: "kern_ok last_running"
proof -
  note K = kern_okD [OF booted_ok]
  have t: "table_ok (upd_proc 15 (set_state P_RUNNABLE) booted)"
    by (rule table_ok_upd [OF K(1)]) (simp_all add: empty_process_def valid_queue_def)
  have "length (proc_array booted) = 16" using table_okD(1) [OF K(1)] .
  then show ?thesis
    using t by (simp add: last_running_def kern_ok_def table_ok_def proc_upd_proc)
qed

theorem mpos_fork_last_process_witness:
  "interrupt (special_registers_init\<lparr>reg_intno := 49\<rparr>) last_running = Wild"
  using mpos_fork_last_process [OF last_running_ok, of "special_registers_init\<lparr>reg_intno := 49\<rparr>"]
  by (simp add: last_running_def)

section \<open>Exit wakes the waiter\<close>

text \<open>When a process exits, its descriptor becomes empty at once, and the process recorded as its
  waiter becomes runnable with the exit status in \<open>eax\<close>; no other descriptor changes, and if there
  is a waiter, the kernel goes on running some runnable process.\<close>

lemma mpos_exit_wakes_waiter:
  assumes "kern_ok k" "reg_intno reg = INT_SYS_EXIT" "queue (proc k (current k)) = Some q"
  shows "\<exists>k'. interrupt reg k = Run k'
    \<and> p_state (proc k' (current k)) = P_EMPTY
    \<and> p_state (proc k' q) = P_RUNNABLE \<and> reg_eax (p_registers (proc k' q)) = reg_eax reg
    \<and> (\<forall>i. i \<noteq> current k \<and> i \<noteq> q \<longrightarrow> proc k' i = proc k i)
    \<and> p_state (proc k' (current k')) = P_RUNNABLE"
proof -
  note K = kern_okD [OF assms(1)]
  note S = save_regs_ok [OF assms(1), where reg = reg]
  let ?k1 = "save_regs reg k"
  have c: "0 < current ?k1" "current ?k1 < 16" using K by simp_all
  have qq: "queue (proc ?k1 (current ?k1)) = Some q" using S(3) assms(3) by simp
  note E = sys_exit_ok [OF S(2) c]
  have q: "q < 16" using table_okD(5) [OF K(1,3)] assms(3) by (simp add: valid_queue_def)
  have cur: "current (sys_exit ?k1) < 16" using E(2) c by simp
  have r: "p_state (proc (sys_exit ?k1) q) = P_RUNNABLE" using E(5) [OF qq] by simp
  have pid: "p_pid (proc (sys_exit ?k1) (current (sys_exit ?k1))) = current (sys_exit ?k1)"
    using table_okD(2) [OF E(1) cur] .
  obtain n where "sched_scan (sys_exit ?k1) (current (sys_exit ?k1)) = Some n"
    using mpos_rr.scan_total [OF q r] by blast
  then obtain k' where sch: "schedule (sys_exit ?k1) = Run k'"
    using pid by (simp add: schedule_def run_def)
  note Q = schedule_ok [OF E(1) cur sch]
  have "interrupt reg k = Run k'" using sch assms(2) by (simp add: interrupt_def Let_def)
  moreover have "p_state (proc k' (current k)) = P_EMPTY" using E(4) Q(2) by simp
  moreover have "p_state (proc k' q) = P_RUNNABLE \<and> reg_eax (p_registers (proc k' q)) = reg_eax reg"
    using E(5) [OF qq] Q(2) S(5) by simp
  moreover have "\<forall>i. i \<noteq> current k \<and> i \<noteq> q \<longrightarrow> proc k' i = proc k i"
    using E(6) Q(2) S(6) qq by auto
  moreover have "p_state (proc k' (current k')) = P_RUNNABLE" using Q(1) by (simp add: kern_ok_def)
  ultimately show ?thesis by blast
qed

text \<open>Process 1 runs and process 2, blocked, waits for it.\<close>

definition two_procs :: kern where
  "two_procs = upd_proc 1 (\<lambda>p. p\<lparr>queue := Some 2\<rparr>) (upd_proc 2 (set_state P_BLOCKED) booted)"

lemma two_procs_ok: "kern_ok two_procs" "queue (proc two_procs 1) = Some 2"
  "p_state (proc two_procs 2) = P_BLOCKED" "current two_procs = 1"
  "i < 16 \<Longrightarrow> i \<noteq> 1 \<Longrightarrow> queue (proc two_procs i) = None"
proof -
  note K = kern_okD [OF booted_ok]
  let ?k = "upd_proc 2 (set_state P_BLOCKED) booted"
  have len: "length (proc_array booted) = 16" using table_okD(1) [OF K(1)] .
  have t: "table_ok ?k"
    by (rule table_ok_upd [OF K(1)]) (simp_all add: empty_process_def valid_queue_def)
  have p1: "proc ?k 1 = proc booted 1" using len by (simp add: proc_upd_proc)
  have t2: "table_ok two_procs"
    unfolding two_procs_def by (rule table_ok_upd [OF t]) (use p1 in \<open>simp_all add: valid_queue_def\<close>)
  show "kern_ok two_procs" "queue (proc two_procs 1) = Some 2" "p_state (proc two_procs 2) = P_BLOCKED"
    "current two_procs = 1" "i < 16 \<Longrightarrow> i \<noteq> 1 \<Longrightarrow> queue (proc two_procs i) = None"
    using t2 len by (simp_all add: kern_ok_def two_procs_def proc_upd_proc empty_process_def)
qed

lemma mpos_exit_wakes_waiter_witness:
  "\<exists>k'. interrupt (special_registers_init\<lparr>reg_intno := 51, reg_eax := 1000\<rparr>) two_procs = Run k'
    \<and> p_state (proc k' 2) = P_RUNNABLE \<and> reg_eax (p_registers (proc k' 2)) = 1000"
  using mpos_exit_wakes_waiter [OF two_procs_ok(1), of "special_registers_init\<lparr>reg_intno := 51, reg_eax := 1000\<rparr>" 2]
    two_procs_ok(2,4) by auto

section \<open>Yield is fair\<close>

text \<open>The states that a sequence of interrupts goes through, as long as the kernel goes on.\<close>

fun trace :: "registers list \<Rightarrow> kern \<Rightarrow> kern list" where
  "trace [] k = [k]"
| "trace (r # rs) k = k # (case interrupt r k of Run k' \<Rightarrow> trace rs k' | _ \<Rightarrow> [])"

lemma yield_runs:
  assumes ok: "kern_ok k" and r: "reg_intno reg = 50"
  obtains k' where "interrupt reg k = Run k'" "kern_ok k'" "sched_scan (save_regs reg k) (current k) = Some (current k')"
    "\<And>i. p_state (proc k' i) = p_state (proc k i)"
proof -
  note K = kern_okD [OF ok]
  note S = save_regs_ok [OF ok, where reg = reg]
  have c: "current (save_regs reg k) < 16" using K by simp
  have pid: "p_pid (proc (save_regs reg k) (current k)) = current k" using table_okD(2) [OF S(2) K(3)] .
  have rr: "p_state (proc (save_regs reg k) (current k)) = P_RUNNABLE" using S(4) K(4) by simp
  obtain n where "sched_scan (save_regs reg k) (current k) = Some n"
    using mpos_rr.scan_total [where s = "save_regs reg k", OF K(3) rr] by blast
  then obtain k' where k': "schedule (save_regs reg k) = Run k'" using pid by (simp add: schedule_def run_def)
  note Q = schedule_ok [OF S(2) c k']
  show thesis
    by (rule that [of k']) (use k' Q S(4) r in \<open>simp_all add: interrupt_def Let_def\<close>)
qed

lemma yields_reach:
  assumes "kern_ok k" "\<forall>r \<in> set rs. reg_intno r = 50" "j < 16" "p_state (proc k j) = P_RUNNABLE"
    "mpos_rr.gap (current k) j < length rs"
  shows "\<exists>k' \<in> set (tl (trace rs k)). current k' = j"
  using assms
proof (induction rs arbitrary: k)
  case Nil
  then show ?case by simp
next
  case (Cons r rs)
  have i: "reg_intno r = 50" using Cons.prems(2) by simp
  obtain k' where k': "interrupt r k = Run k'" "kern_ok k'"
    "sched_scan (save_regs r k) (current k) = Some (current k')"
    "\<And>i. p_state (proc k' i) = p_state (proc k i)"
    by (rule yield_runs [OF Cons.prems(1) i]) blast
  have t: "tl (trace (r # rs) k) = trace rs k'" using k'(1) by simp
  have h: "trace rs k' = k' # tl (trace rs k')" by (cases rs) simp_all
  show ?case
  proof (cases "current k' = j")
    case True
    then show ?thesis unfolding t using h by (metis list.set_intros(1))
  next
    case False
    have s: "p_state (proc (save_regs r k) j) = P_RUNNABLE"
      using save_regs_ok(4) [OF Cons.prems(1)] Cons.prems(4) by simp
    have "mpos_rr.gap (current k') j < mpos_rr.gap (current k) j"
      using mpos_rr.scan_progress [OF k'(3) Cons.prems(3) s] False by blast
    then have "\<exists>k'' \<in> set (tl (trace rs k')). current k'' = j"
      using Cons.IH [OF k'(2)] Cons.prems(2-5) k'(4) by simp
    then show ?thesis unfolding t using h by (metis list.set_intros(2))
  qed
qed

text \<open>C37: Yielding is fair: among any sixteen successive yields, whatever registers the processes
  trap with, every process that is runnable gets the processor.\<close>

theorem mpos_yield_fair:
  assumes "kern_ok k" "length rs = NPROCS" "\<forall>r \<in> set rs. reg_intno r = INT_SYS_YIELD"
    "j < NPROCS" "p_state (proc k j) = P_RUNNABLE"
  shows "\<exists>k' \<in> set (tl (trace rs k)). current k' = j"
  by (rule yields_reach [OF assms(1,3,4,5)]) (use mpos_rr.gap_less assms(2) in simp)

theorem mpos_yield_fair_witness:
  "\<exists>k' \<in> set (tl (trace (replicate 16 (special_registers_init\<lparr>reg_intno := 50\<rparr>)) last_running)). current k' = 1"
proof (rule mpos_yield_fair [OF last_running_ok])
  have "length (proc_array booted) = 16" by (rule table_okD(1) [OF kern_okD(1) [OF booted_ok]])
  then show "p_state (proc last_running 1) = P_RUNNABLE"
    by (simp add: last_running_def proc_upd_proc)
qed simp_all

section \<open>A displaced waiter\<close>

text \<open>No descriptor records \<open>w\<close> as its waiter, and \<open>w\<close> is blocked.\<close>

definition forgotten :: "nat \<Rightarrow> kern \<Rightarrow> bool" where
  "forgotten w k \<longleftrightarrow> kern_ok k \<and> w < 16 \<and> p_state (proc k w) = P_BLOCKED
     \<and> (\<forall>i < 16. queue (proc k i) \<noteq> Some w)"

lemma forgotten_table:
  assumes f: "forgotten w k" and same: "p_state (proc k' w) = p_state (proc k w)"
    "\<forall>i < 16. queue (proc k' i) = queue (proc k i) \<or> queue (proc k' i) = Some (current k)"
    and ok: "kern_ok k'"
  shows "forgotten w k'"
proof -
  have "current k \<noteq> w" using f by (auto simp: forgotten_def kern_ok_def)
  then show ?thesis using f same ok by (auto simp: forgotten_def)
qed

text \<open>How an interrupt changes states and waiters.\<close>

lemma sys_wait_frame:
  assumes ok: "table_ok k" and c: "0 < current k" "current k < 16"
  shows "i \<noteq> current k \<Longrightarrow> p_state (proc (sys_wait k) i) = p_state (proc k i)"
    "queue (proc (sys_wait k) i) = queue (proc k i) \<or> queue (proc (sys_wait k) i) = Some (current k)"
proof -
  have len: "length (proc_array k) = 16" using table_okD(1) [OF ok] .
  have "(i \<noteq> current k \<longrightarrow> p_state (proc (sys_wait k) i) = p_state (proc k i))
    \<and> (queue (proc (sys_wait k) i) = queue (proc k i) \<or> queue (proc (sys_wait k) i) = Some (current k))"
  proof (cases rule: sys_wait_cases [OF ok c])
    case 1
    then show ?thesis using len c by (simp add: proc_upd_proc)
  next
    case (2 p)
    then show ?thesis using len c by (simp add: proc_upd_proc)
  qed
  then show "i \<noteq> current k \<Longrightarrow> p_state (proc (sys_wait k) i) = p_state (proc k i)"
    "queue (proc (sys_wait k) i) = queue (proc k i) \<or> queue (proc (sys_wait k) i) = Some (current k)"
    by blast+
qed

lemma interrupt_forgotten:
  assumes f: "forgotten w k" and run: "interrupt reg k = Run k'"
  shows "forgotten w k'"
proof -
  have ok: "kern_ok k" and w: "w < 16" "p_state (proc k w) = P_BLOCKED"
    using f by (simp_all add: forgotten_def)
  note K = kern_okD [OF ok]
  note S = save_regs_ok [OF ok, where reg = reg]
  have len: "length (proc_array (save_regs reg k)) = 16" "length (proc_array k) = 16"
    using table_okD(1) [OF S(2)] table_okD(1) [OF K(1)] by auto
  have wc: "w \<noteq> current k" using w(2) K(4) by auto
  have c1: "0 < current (save_regs reg k)" "current (save_regs reg k) < 16" using K by simp_all
  have nq: "queue (proc (save_regs reg k) (current k)) \<noteq> Some w"
    using f K(3) S(3) by (simp add: forgotten_def)
  have "p_state (proc k' w) = p_state (proc k w)
    \<and> (\<forall>i < 16. queue (proc k' i) = queue (proc k i) \<or> queue (proc k' i) = Some (current k))"
  proof (cases rule: interrupt_cases [OF ok run])
    case 1
    then show ?thesis using len K S wc by (simp add: proc_upd_proc)
  next
    case 2
    then show ?thesis using len K S wc by (simp add: proc_upd_proc)
  next
    case (3 c)
    note F = fork_child_proc [OF S(2) 3(3,4) K(3)]
    have "c \<noteq> w" using 3(5) w(2) by auto
    moreover have "queue (proc (fork_child c (current k) (save_regs reg k)) i) = queue (proc k i)" for i
      using F(1) F(2) [of i] S(3) [of i] by (cases "i = c") simp_all
    ultimately show ?thesis
      using 3(6) F(3) K(3) wc F(2) [of w] S(4) [of w] by (simp add: proc_upd_proc)
  next
    case 4
    note Q = schedule_ok(2) [OF S(2) c1(2) 4(2)]
    show ?thesis using Q S(3,4) by simp
  next
    case 5
    note E = sys_exit_ok [OF S(2) c1]
    have c: "current (sys_exit (save_regs reg k)) < 16" using E(2) c1 by simp
    note Q = schedule_ok(2) [OF E(1) c 5(2)]
    have "proc (sys_exit (save_regs reg k)) w = proc (save_regs reg k) w"
      by (rule E(6)) (use wc nq in simp_all)
    then show ?thesis using Q E(7) S(3) S(4) by simp
  next
    case 6
    note W = sys_wait_ok [OF S(2) c1]
    have c: "current (sys_wait (save_regs reg k)) < 16" using W(2) c1 by simp
    note Q = schedule_ok(2) [OF W(1) c 6(2)]
    show ?thesis
      using Q sys_wait_frame [OF S(2) c1] S(3,4) wc by simp
  qed
  then show ?thesis using forgotten_table [OF f] interrupt_ok [OF ok run] by blast
qed

lemma steps_forgotten:
  assumes "mpos_step\<^sup>*\<^sup>* k k'" "forgotten w k"
  shows "forgotten w k'"
  using assms
proof (induction rule: rtranclp_induct)
  case (step k k')
  obtain reg con m where r: "interrupt reg (k\<lparr>screen := con, phys := m\<rparr>) = Run k'" using step(2) by (rule mpos_stepE)
  have "forgotten w (k\<lparr>screen := con, phys := m\<rparr>)" using step(3,4) by (simp add: forgotten_def)
  then show ?case using r by (rule interrupt_forgotten)
qed

lemma blocked_queue:
  "length (proc_array k) = 16 \<Longrightarrow> p < 16 \<Longrightarrow> c < 16 \<Longrightarrow>
   queue (proc (upd_proc p (\<lambda>d. d\<lparr>queue := Some c'\<rparr>) (upd_proc c (set_state P_BLOCKED) k)) i)
     = (if i = p then Some c' else queue (proc k i))"
  by (simp add: proc_upd_proc)

lemma sint_small: "p < 16 \<Longrightarrow> sint (of_nat p :: u32) = int p"
  by (simp add: signed_of_nat signed_take_bit_int_eq_self)

text \<open>A descriptor has room for one waiter only. When a process waits for \<open>p\<close> while another
  process \<open>w\<close> is waiting for it already, \<open>w\<close> is displaced: whatever happens afterwards, \<open>p\<close>'s exit
  included, it never runs again.\<close>

lemma mpos_second_wait_strands_first:
  assumes "kern_ok k" "w < NPROCS" "p_state (proc k w) = P_BLOCKED" "queue (proc k p) = Some w"
    "\<forall>i < NPROCS. i \<noteq> p \<longrightarrow> queue (proc k i) \<noteq> Some w"
    "p \<noteq> current k" "0 < p" "p < NPROCS" "p_state (proc k p) \<noteq> P_EMPTY"
    "reg_intno reg = INT_SYS_WAIT" "reg_eax reg = of_nat p" "interrupt reg k = Run k'"
    "mpos_step\<^sup>*\<^sup>* k' k''"
  shows "p_state (proc k'' w) = P_BLOCKED \<and> current k'' \<noteq> w"
proof -
  note K = kern_okD [OF assms(1)]
  note S = save_regs_ok [OF assms(1), where reg = reg]
  have c1: "0 < current (save_regs reg k)" "current (save_regs reg k) < 16" using K by simp_all
  have wc: "w \<noteq> current k" using assms(3) K(4) by auto
  have len: "length (proc_array (save_regs reg k)) = 16" using table_okD(1) [OF S(2)] .
  have sp: "sint (reg_eax (p_registers (proc (save_regs reg k) (current k)))) = int p"
    using sint_small [OF assms(8)] assms(11) S(5) by simp
  have rest: "\<forall>i < 16. queue (proc (sys_wait (save_regs reg k)) i) \<noteq> Some w"
    "p_state (proc (sys_wait (save_regs reg k)) w) = P_BLOCKED"
  proof -
    have "(\<forall>i < 16. queue (proc (sys_wait (save_regs reg k)) i) \<noteq> Some w)
      \<and> p_state (proc (sys_wait (save_regs reg k)) w) = P_BLOCKED"
    proof (cases rule: sys_wait_cases [OF S(2) c1])
      case 1
      then show ?thesis using sp assms(6-9) S(4) by simp
    next
      case (2 q)
      then have qp: "q = p" using sp by simp
      have "queue (proc (sys_wait (save_regs reg k)) i) = (if i = p then Some (current k) else queue (proc k i))" for i
        unfolding 2(6) qp blocked_queue [OF len assms(8) c1(2)] S(3) by simp
      moreover have "p_state (proc (sys_wait (save_regs reg k)) w) = P_BLOCKED"
        using sys_wait_frame(1) [OF S(2) c1, of w] wc assms(3) S(4) by simp
      ultimately show ?thesis using assms(5) wc by auto
    qed
    then show "\<forall>i < 16. queue (proc (sys_wait (save_regs reg k)) i) \<noteq> Some w"
      "p_state (proc (sys_wait (save_regs reg k)) w) = P_BLOCKED" by blast+
  qed
  note W = sys_wait_ok [OF S(2) c1]
  have c: "current (sys_wait (save_regs reg k)) < 16" using W(2) c1 by simp
  have sch: "schedule (sys_wait (save_regs reg k)) = Run k'" using assms(10,12) by (simp add: interrupt_def Let_def)
  note Q = schedule_ok [OF W(1) c sch]
  have "forgotten w k'" using Q(1,2) rest assms(2) by (simp add: forgotten_def)
  then have "forgotten w k''" by (rule steps_forgotten [OF assms(13)])
  then show ?thesis by (auto simp: forgotten_def kern_ok_def)
qed

text \<open>Process 1 runs, process 2 waits for process 3.\<close>

definition three_procs :: kern where
  "three_procs = upd_proc 3 (\<lambda>p. (set_state P_RUNNABLE p)\<lparr>queue := Some 2\<rparr>)
     (upd_proc 2 (set_state P_BLOCKED) booted)"

lemma three_procs_ok:
  "kern_ok three_procs" "proc three_procs 2 = set_state P_BLOCKED (empty_process 2)"
  "proc three_procs 3 = (set_state P_RUNNABLE (empty_process 3))\<lparr>queue := Some 2\<rparr>"
  "current three_procs = 1" "i < 16 \<Longrightarrow> i \<noteq> 3 \<Longrightarrow> queue (proc three_procs i) = None"
proof -
  note K = kern_okD [OF booted_ok]
  let ?k = "upd_proc 2 (set_state P_BLOCKED) booted"
  have len: "length (proc_array booted) = 16" using table_okD(1) [OF K(1)] .
  have t: "table_ok ?k"
    by (rule table_ok_upd [OF K(1)]) (simp_all add: empty_process_def valid_queue_def)
  have p3: "proc ?k 3 = empty_process 3" using len by (simp add: proc_upd_proc)
  have t2: "table_ok three_procs"
    unfolding three_procs_def
    by (rule table_ok_upd [OF t]) (use p3 in \<open>simp_all add: valid_queue_def empty_process_def set_state_def\<close>)
  show "kern_ok three_procs" "proc three_procs 2 = set_state P_BLOCKED (empty_process 2)"
    "proc three_procs 3 = (set_state P_RUNNABLE (empty_process 3))\<lparr>queue := Some 2\<rparr>"
    "current three_procs = 1" "i < 16 \<Longrightarrow> i \<noteq> 3 \<Longrightarrow> queue (proc three_procs i) = None"
    using t2 len by (simp_all add: kern_ok_def three_procs_def proc_upd_proc)
      (cases "i = 1"; simp add: empty_process_def)
qed

lemma mpos_second_wait_strands_first_witness:
  "\<exists>k'. interrupt (special_registers_init\<lparr>reg_intno := 52, reg_eax := 3\<rparr>) three_procs = Run k'
    \<and> (\<forall>k''. mpos_step\<^sup>*\<^sup>* k' k'' \<longrightarrow> p_state (proc k'' 2) = P_BLOCKED \<and> current k'' \<noteq> 2)"
proof -
  let ?r = "special_registers_init\<lparr>reg_intno := 52, reg_eax := 3\<rparr>"
  note T = three_procs_ok
  note S = save_regs_ok [OF T(1), where reg = ?r]
  let ?w = "sys_wait (save_regs ?r three_procs)"
  have c1: "0 < current (save_regs ?r three_procs)" "current (save_regs ?r three_procs) < 16"
    using T(4) by simp_all
  note W = sys_wait_ok [OF S(2) c1]
  have cw: "current ?w = 1" using W(2) T(4) by simp
  have "p_state (proc ?w 3) = P_RUNNABLE"
    using sys_wait_frame(1) [OF S(2) c1, of 3] S(4) [of 3] T(3,4) by simp
  then obtain n where "sched_scan ?w (current ?w) = Some n"
    using mpos_rr.scan_total [of 3 ?w] by auto
  moreover have "p_pid (proc ?w (current ?w)) = current ?w" using table_okD(2) [OF W(1)] cw by simp
  ultimately obtain k' where "schedule ?w = Run k'" by (simp add: schedule_def run_def)
  then have k': "interrupt ?r three_procs = Run k'" by (simp add: interrupt_def Let_def)
  have "p_state (proc k'' 2) = P_BLOCKED \<and> current k'' \<noteq> 2" if "mpos_step\<^sup>*\<^sup>* k' k''" for k''
    by (rule mpos_second_wait_strands_first [OF T(1) _ _ _ _ _ _ _ _ _ _ k' that, where p = 3])
      (use T in \<open>simp_all add: empty_process_def\<close>)
  then show ?thesis using k' by blast
qed

end
