(* ===== verification/MposView.thy ===== *)
theory MposView
  imports MposProps
begin

text \<open>
  The MiniprocOS kernel as its applications see it: who runs, the states, queues and results in
  \<open>eax\<close> of the processes, and the screen. Each system call is described by its effect on this view.
\<close>

record kview =
  v_cur :: nat
  v_state :: "nat \<Rightarrow> procstate"
  v_queue :: "nat \<Rightarrow> nat option"
  v_eax :: "nat \<Rightarrow> u32"
  v_screen :: console

definition view :: "kern \<Rightarrow> kview" where
  "view k = \<lparr>v_cur = current k, v_state = \<lambda>i. p_state (proc k i), v_queue = \<lambda>i. queue (proc k i),
     v_eax = \<lambda>i. reg_eax (p_registers (proc k i)), v_screen = screen k\<rparr>"

lemma view_simps [simp]:
  "v_cur (view k) = current k" "v_state (view k) i = p_state (proc k i)" "v_queue (view k) i = queue (proc k i)"
  "v_eax (view k) i = reg_eax (p_registers (proc k i))" "v_screen (view k) = screen k"
  by (simp_all add: view_def)

lemma screen_upd_proc [simp]: "screen (upd_proc p f k) = screen k"
  by (simp add: upd_proc_def)

lemma screen_copy_stack [simp]: "screen (copy_stack d s k) = screen k"
  by (simp add: copy_stack_def Let_def)

lemma screen_kernel_ops [simp]:
  "screen (fork_child c p k) = screen k" "screen (sys_exit k) = screen k" "screen (sys_wait k) = screen k"
  by (simp_all add: fork_child_def sys_exit_def sys_wait_def Let_def split: option.splits)

section \<open>Which process the scheduler runs\<close>

text \<open>\<open>r\<close> is the first runnable process after \<open>c\<close> in cyclic order.\<close>

definition next_up :: "(nat \<Rightarrow> procstate) \<Rightarrow> nat \<Rightarrow> nat \<Rightarrow> bool" where
  "next_up st c r \<longleftrightarrow> r < 16 \<and> st r = P_RUNNABLE
     \<and> (if c < r then \<forall>l. c < l \<and> l < r \<longrightarrow> st l \<noteq> P_RUNNABLE
        else (\<forall>l. c < l \<and> l < 16 \<longrightarrow> st l \<noteq> P_RUNNABLE) \<and> (\<forall>l < r. st l \<noteq> P_RUNNABLE))"

lemma scan_next_up:
  assumes "next_up (\<lambda>i. p_state (proc k i)) c r" "c < 16"
  shows "sched_scan k c = Some r"
proof (cases "c < r")
  case True
  define d where "d = r - Suc c"
  have r: "(c + Suc d) mod 16 = r" using True assms(1) by (simp add: d_def next_up_def)
  have "p_state (proc k ((c + Suc e) mod 16)) \<noteq> P_RUNNABLE" if "e < d" for e
  proof -
    have "c + Suc e < r" "r < 16" using that assms(1) by (simp_all add: d_def next_up_def)
    then have "(c + Suc e) mod 16 = c + Suc e" by simp
    then show ?thesis using \<open>c + Suc e < r\<close> True assms(1) by (simp add: next_up_def)
  qed
  then show ?thesis using mpos_rr.scan_at [of k c d] assms(1) r by (simp add: next_up_def)
next
  case False
  define d where "d = 15 - c + r"
  have "c + Suc d = r + 16" using False assms(2) by (simp add: d_def)
  then have r: "(c + Suc d) mod 16 = r" using assms(1) by (simp add: next_up_def)
  have "p_state (proc k ((c + Suc e) mod 16)) \<noteq> P_RUNNABLE" if "e < d" for e
  proof (cases "c + Suc e < 16")
    case True
    then have "(c + Suc e) mod 16 = c + Suc e" by simp
    then show ?thesis using False True assms(1) by (simp add: next_up_def)
  next
    case f: False
    have "r < 16" using assms(1) by (simp add: next_up_def)
    then have "c + Suc e - 16 < r" "c + Suc e - 16 < 16" using f that assms(2) by (simp_all add: d_def)
    moreover have "(c + Suc e) mod 16 = (c + Suc e - 16) mod 16" using f by (intro le_mod_geq) simp
    ultimately have "(c + Suc e) mod 16 = c + Suc e - 16" "c + Suc e - 16 < r" by simp_all
    then show ?thesis using False assms(1) by (simp add: next_up_def)
  qed
  then show ?thesis using mpos_rr.scan_at [of k c d] assms(1) r by (simp add: next_up_def)
qed

lemma schedule_next:
  assumes "table_ok k" "current k < 16" "next_up (v_state (view k)) (current k) r"
  shows "schedule k = Run (k\<lparr>current := r\<rparr>)"
  using scan_next_up [of k "current k" r] assms table_okD(2) [OF assms(1,2)]
  by (simp add: schedule_def run_def view_def)

lemma schedule_idle:
  assumes "table_ok k" "current k < 16" "\<forall>i < 16. v_state (view k) i \<noteq> P_RUNNABLE"
  shows "schedule k = Spin"
  using mpos_rr.scan_none [of k "current k"] assms table_okD(2) [OF assms(1,2)]
  by (simp add: schedule_def view_def)

section \<open>The system calls\<close>

lemma view_save_regs:
  assumes "kern_ok k"
  shows "view (save_regs reg k) = (view k)\<lparr>v_eax := (v_eax (view k))(current k := reg_eax reg)\<rparr>"
  using save_regs_ok [OF assms, where reg = reg] by (auto simp: view_def fun_eq_iff)

lemma view_current [simp]: "view (k\<lparr>current := r\<rparr>) = (view k)\<lparr>v_cur := r\<rparr>"
  by (simp add: view_def)

lemma view_set_eax:
  assumes "table_ok k" "p < 16"
  shows "view (upd_proc p (set_eax v) k) = (view k)\<lparr>v_eax := (v_eax (view k))(p := v)\<rparr>"
  using table_okD(1) [OF assms(1)] assms(2) by (auto simp: view_def fun_eq_iff proc_upd_proc)

lemma interrupt_getpid:
  assumes ok: "kern_ok k" and i: "reg_intno reg = INT_SYS_GETPID"
  obtains k' where "interrupt reg k = Run k'" "kern_ok k'"
    "view k' = (view k)\<lparr>v_eax := (v_eax (view k))(current k := of_nat (current k))\<rparr>"
proof -
  note S = save_regs_ok [OF ok, where reg = reg]
  have c: "current k < 16" using kern_okD(3) [OF ok] .
  let ?k' = "upd_proc (current k) (set_eax (of_nat (p_pid (proc (save_regs reg k) (current k))))) (save_regs reg k)\<lparr>current := current k\<rparr>"
  have run: "interrupt reg k = Run ?k'" using i by (simp add: interrupt_def Let_def run_def)
  have "view ?k' = (view k)\<lparr>v_eax := (v_eax (view k))(current k := of_nat (current k))\<rparr>"
    unfolding view_current view_set_eax [OF S(2) c] view_save_regs [OF ok] table_okD(2) [OF S(2) c] by simp
  then show thesis using that [OF run interrupt_ok [OF ok run]] by simp
qed

lemma interrupt_yield:
  assumes ok: "kern_ok k" and i: "reg_intno reg = INT_SYS_YIELD"
    and r: "next_up (v_state (view k)) (current k) r"
  obtains k' where "interrupt reg k = Run k'" "kern_ok k'"
    "view k' = (view k)\<lparr>v_eax := (v_eax (view k))(current k := reg_eax reg), v_cur := r\<rparr>"
proof -
  note S = save_regs_ok [OF ok, where reg = reg]
  have c: "current (save_regs reg k) < 16" using kern_okD(3) [OF ok] by simp
  have "schedule (save_regs reg k) = Run (save_regs reg k\<lparr>current := r\<rparr>)"
    by (rule schedule_next [OF S(2) c]) (use r in \<open>simp add: view_save_regs [OF ok]\<close>)
  then have run: "interrupt reg k = Run (save_regs reg k\<lparr>current := r\<rparr>)" using i by (simp add: interrupt_def Let_def)
  show thesis using that [OF run interrupt_ok [OF ok run]] by (simp add: view_save_regs [OF ok])
qed

text \<open>A fork takes the first free descriptor after the parent, here without wrapping around.\<close>

lemma fork_scan_first:
  "i \<le> c \<Longrightarrow> c < 16 \<Longrightarrow> p < i \<Longrightarrow> p_state (procs ! c) = P_EMPTY
    \<Longrightarrow> \<forall>l. i \<le> l \<and> l < c \<longrightarrow> p_state (procs ! l) \<noteq> P_EMPTY \<Longrightarrow> fork_scan procs p i = Some (Slot c)"
proof (induction "c - i" arbitrary: i)
  case 0
  then show ?case by (subst fork_scan.simps) simp
next
  case (Suc n)
  then have "fork_scan procs p (i + 1) = Some (Slot c)" by (intro Suc.hyps) simp_all
  moreover have "i < c" using Suc.hyps(2) by simp
  ultimately show ?case using Suc.prems by (subst fork_scan.simps) simp
qed

lemma fork_scan_full:
  assumes "1 \<le> i" "i < 16" "\<forall>l. 2 \<le> l \<and> l < 16 \<longrightarrow> p_state (procs ! l) \<noteq> P_EMPTY"
  shows "fork_scan procs 1 i = Some (Slot 1)"
proof -
  have one: "fork_scan procs 1 1 = Some (Slot 1)" by (subst fork_scan.simps) simp
  have zero: "fork_scan procs 1 0 = Some (Slot 1)" using one by (subst fork_scan.simps) simp
  have "2 \<le> j \<Longrightarrow> j < 16 \<Longrightarrow> fork_scan procs 1 j = Some (Slot 1)" for j
  proof (induction "15 - j" arbitrary: j)
    case 0
    then have "j = 15" by simp
    then show ?case using assms(3) zero by (subst fork_scan.simps) simp
  next
    case (Suc n)
    then have "fork_scan procs 1 (j + 1) = Some (Slot 1)" by (intro Suc.hyps) simp_all
    then show ?case using Suc assms(3) by (subst fork_scan.simps) simp
  qed
  then show ?thesis using one assms(1,2) by (cases "i = 1") simp_all
qed

lemma interrupt_fork:
  assumes ok: "kern_ok k" and i: "reg_intno reg = INT_SYS_FORK"
    and c: "current k < c" "c < 16" "v_state (view k) c = P_EMPTY"
      "\<forall>l. current k < l \<and> l < c \<longrightarrow> v_state (view k) l \<noteq> P_EMPTY"
  obtains k' where "interrupt reg k = Run k'" "kern_ok k'"
    "view k' = (view k)\<lparr>v_state := (v_state (view k))(c := P_RUNNABLE),
       v_eax := (v_eax (view k))(c := 0, current k := of_nat c)\<rparr>"
proof -
  let ?p = "current k" and ?s = "save_regs reg k"
  note K = kern_okD [OF ok]
  note S = save_regs_ok [OF ok, where reg = reg]
  have pid: "p_pid (proc ?s ?p) = ?p" using table_okD(2) [OF S(2) K(3)] .
  have scan: "fork_scan (proc_array ?s) ?p (?p + 1) = Some (Slot c)"
    by (rule fork_scan_first) (use c S(4) in auto)
  have cp: "c \<noteq> ?p" using c(1) by simp
  note F = fork_child_proc [OF S(2) c(2) cp K(3)]
  have f: "table_ok (fork_child c ?p ?s)" using fork_child_ok [OF S(2) _ c(2) cp K(3)] c(1) by simp
  have q: "queue (proc (fork_child c ?p ?s) x) = queue (proc k x)" for x
    using F(1,2) S(3,6) cp by (cases "x = c") auto
  have vf: "view (fork_child c ?p ?s) = (view k)\<lparr>v_state := (v_state (view k))(c := P_RUNNABLE),
      v_eax := (v_eax (view k))(c := 0, ?p := reg_eax reg)\<rparr>"
    using F(1,2,4) S(4,5,6) cp by (auto simp: view_def fun_eq_iff q)
  let ?k' = "upd_proc ?p (set_eax (of_nat c)) (fork_child c ?p ?s)\<lparr>current := ?p\<rparr>"
  have run: "interrupt reg k = Run ?k'"
    using i scan pid c(1) by (simp add: interrupt_def Let_def do_fork_def run_def)
  have "view ?k' = (view k)\<lparr>v_state := (v_state (view k))(c := P_RUNNABLE),
       v_eax := (v_eax (view k))(c := 0, current k := of_nat c)\<rparr>"
    unfolding view_current view_set_eax [OF f K(3)] vf by simp
  then show thesis using that [OF run interrupt_ok [OF ok run]] by simp
qed

lemma interrupt_fork_full:
  assumes ok: "kern_ok k" and i: "reg_intno reg = INT_SYS_FORK" and c: "current k = 1"
    and full: "\<forall>l. 2 \<le> l \<and> l < 16 \<longrightarrow> v_state (view k) l \<noteq> P_EMPTY"
  obtains k' where "interrupt reg k = Run k'" "kern_ok k'"
    "view k' = (view k)\<lparr>v_eax := (v_eax (view k))(1 := -1)\<rparr>"
proof -
  note S = save_regs_ok [OF ok, where reg = reg]
  have len: "1 < length (proc_array k)" using table_okD(1) [OF kern_okD(1) [OF ok]] by simp
  have "fork_scan (proc_array (save_regs reg k)) 1 (1 + 1) = Some (Slot 1)"
    by (rule fork_scan_full) (use full S(4) in \<open>auto simp: c\<close>)
  then have run: "interrupt reg k = Run (upd_proc 1 (\<lambda>d. d\<lparr>p_registers := reg\<lparr>reg_eax := -1\<rparr>\<rparr>) k)"
    using fork_full [OF ok _ i, of 1] c by simp
  have "view (upd_proc 1 (\<lambda>d. d\<lparr>p_registers := reg\<lparr>reg_eax := -1\<rparr>\<rparr>) k) = (view k)\<lparr>v_eax := (v_eax (view k))(1 := -1)\<rparr>"
    using proc_upd_proc [OF len] by (auto simp: view_def fun_eq_iff)
  then show thesis using that [OF run interrupt_ok [OF ok run]] by simp
qed

text \<open>The view after an exit, before the scheduler.\<close>

definition v_exit :: "u32 \<Rightarrow> kview \<Rightarrow> kview" where
  "v_exit e v =
     (case v_queue v (v_cur v) of
        None \<Rightarrow> v\<lparr>v_state := (v_state v)(v_cur v := P_EMPTY), v_eax := (v_eax v)(v_cur v := e)\<rparr>
      | Some q \<Rightarrow> v\<lparr>v_state := (v_state v)(q := P_RUNNABLE, v_cur v := P_EMPTY), v_eax := (v_eax v)(v_cur v := e, q := e)\<rparr>)"

lemma v_exit_other [simp]: "v_cur (v_exit e v) = v_cur v" "v_screen (v_exit e v) = v_screen v" "v_queue (v_exit e v) = v_queue v"
  by (simp_all add: v_exit_def split: option.splits)

lemma view_sys_exit:
  assumes "kern_ok k"
  shows "view (sys_exit (save_regs reg k)) = v_exit (reg_eax reg) (view k)"
proof -
  note K = kern_okD [OF assms]
  note S = save_regs_ok [OF assms, where reg = reg]
  let ?s = "save_regs reg k" and ?c = "current k"
  have c: "0 < current ?s" "current ?s < 16" using K by simp_all
  note E = sys_exit_ok [OF S(2) c]
  have len: "length (proc_array ?s) = 16" using table_okD(1) [OF S(2)] .
  have eax: "reg_eax (p_registers (proc (sys_exit ?s) ?c)) = reg_eax reg"
  proof (cases "queue (proc ?s ?c)")
    case None
    then show ?thesis using len K(3) S(5) by (simp add: sys_exit_def Let_def proc_upd_proc set_state_def)
  next
    case (Some q)
    have "q < 16" "q \<noteq> ?c" using table_okD(5) [OF S(2) K(3)] Some by (simp_all add: valid_queue_def)
    then show ?thesis using Some len K(3) S(5) by (simp add: sys_exit_def Let_def proc_upd_proc set_state_def)
  qed
  show ?thesis
  proof (cases "queue (proc k ?c)")
    case None
    then show ?thesis
      using E(2,4,7) E(6) eax S(3,4,6) by (auto simp: view_def v_exit_def fun_eq_iff)
  next
    case (Some q)
    have "q \<noteq> ?c" using table_okD(5) [OF S(2) K(3)] Some S(3) by (simp add: valid_queue_def)
    then show ?thesis
      using Some E(2,4,7) E(5) [of q] E(6) eax S(3,4,5,6) by (auto simp: view_def v_exit_def fun_eq_iff)
  qed
qed

lemma interrupt_exit:
  assumes ok: "kern_ok k" and i: "reg_intno reg = INT_SYS_EXIT"
    and v: "view (sys_exit (save_regs reg k)) = v" and r: "next_up (v_state v) (current k) r"
  obtains k' where "interrupt reg k = Run k'" "kern_ok k'" "view k' = v\<lparr>v_cur := r\<rparr>"
proof -
  note S = save_regs_ok [OF ok, where reg = reg]
  have c: "0 < current (save_regs reg k)" "current (save_regs reg k) < 16" using kern_okD(2,3) [OF ok] by simp_all
  note E = sys_exit_ok [OF S(2) c]
  have cur: "current (sys_exit (save_regs reg k)) < 16" using E(2) c(2) by simp
  have "schedule (sys_exit (save_regs reg k)) = Run (sys_exit (save_regs reg k)\<lparr>current := r\<rparr>)"
    by (rule schedule_next [OF E(1) cur]) (use r E(2) v in simp)
  then have run: "interrupt reg k = Run (sys_exit (save_regs reg k)\<lparr>current := r\<rparr>)" using i by (simp add: interrupt_def Let_def)
  show thesis using that [OF run interrupt_ok [OF ok run]] v by simp
qed

lemma interrupt_exit_last:
  assumes ok: "kern_ok k" and i: "reg_intno reg = INT_SYS_EXIT"
    and v: "view (sys_exit (save_regs reg k)) = v" and none: "\<forall>i < 16. v_state v i \<noteq> P_RUNNABLE"
  shows "interrupt reg k = Spin"
proof -
  note S = save_regs_ok [OF ok, where reg = reg]
  have c: "0 < current (save_regs reg k)" "current (save_regs reg k) < 16" using kern_okD(2,3) [OF ok] by simp_all
  note E = sys_exit_ok [OF S(2) c]
  have "schedule (sys_exit (save_regs reg k)) = Spin"
    by (rule schedule_idle [OF E(1)]) (use E(2) c none v in simp_all)
  then show ?thesis using i by (simp add: interrupt_def Let_def)
qed

lemma interrupt_wait_refused:
  assumes ok: "kern_ok k" and i: "reg_intno reg = INT_SYS_WAIT" and p: "reg_eax reg = of_nat p" "p < 16"
    and empty: "v_state (view k) p = P_EMPTY" and r: "next_up (v_state (view k)) (current k) r"
  obtains k' where "interrupt reg k = Run k'" "kern_ok k'"
    "view k' = (view k)\<lparr>v_eax := (v_eax (view k))(current k := -1), v_cur := r\<rparr>"
proof -
  note K = kern_okD [OF ok]
  note S = save_regs_ok [OF ok, where reg = reg]
  let ?s = "save_regs reg k" and ?c = "current k"
  have w: "sys_wait ?s = upd_proc ?c (set_eax (-1)) ?s"
    using S(4,5) p empty by (simp add: sys_wait_def Let_def sint_small)
  have c: "0 < current ?s" "current ?s < 16" using K by simp_all
  have v: "view (sys_wait ?s) = (view k)\<lparr>v_eax := (v_eax (view k))(?c := -1)\<rparr>"
    unfolding w view_set_eax [OF S(2) K(3)] view_save_regs [OF ok] by simp
  have "schedule (sys_wait ?s) = Run (sys_wait ?s\<lparr>current := r\<rparr>)"
    by (rule schedule_next) (use sys_wait_ok [OF S(2) c] c(2) r v in simp_all)
  then have run: "interrupt reg k = Run (sys_wait ?s\<lparr>current := r\<rparr>)" using i by (simp add: interrupt_def Let_def)
  show thesis using that [OF run interrupt_ok [OF ok run]] v by simp
qed

lemma interrupt_wait_blocks:
  assumes ok: "kern_ok k" and i: "reg_intno reg = INT_SYS_WAIT" and p: "reg_eax reg = of_nat p" "0 < p" "p < 16" "p \<noteq> current k"
    and busy: "v_state (view k) p = P_RUNNABLE"
    and r: "next_up ((v_state (view k))(current k := P_BLOCKED)) (current k) r"
  obtains k' where "interrupt reg k = Run k'" "kern_ok k'"
    "view k' = (view k)\<lparr>v_state := (v_state (view k))(current k := P_BLOCKED),
       v_queue := (v_queue (view k))(p := Some (current k)),
       v_eax := (v_eax (view k))(current k := of_nat p), v_cur := r\<rparr>"
proof -
  note K = kern_okD [OF ok]
  note S = save_regs_ok [OF ok, where reg = reg]
  let ?s = "save_regs reg k" and ?c = "current k"
  have len: "length (proc_array ?s) = 16" using table_okD(1) [OF S(2)] .
  have pid: "p_pid (proc ?s ?c) = ?c" using table_okD(2) [OF S(2) K(3)] .
  have w: "sys_wait ?s = upd_proc p (\<lambda>d. d\<lparr>queue := Some ?c\<rparr>) (upd_proc ?c (set_state P_BLOCKED) ?s)"
    using S(4,5) p busy pid by (simp add: sys_wait_def Let_def sint_small)
  have c: "0 < current ?s" "current ?s < 16" using K by simp_all
  have v: "view (sys_wait ?s) = (view k)\<lparr>v_state := (v_state (view k))(?c := P_BLOCKED),
       v_queue := (v_queue (view k))(p := Some ?c), v_eax := (v_eax (view k))(?c := of_nat p)\<rparr>"
    unfolding w using len S(3-6) p K(3) by (auto simp: view_def fun_eq_iff proc_upd_proc)
  have "schedule (sys_wait ?s) = Run (sys_wait ?s\<lparr>current := r\<rparr>)"
    by (rule schedule_next) (use sys_wait_ok [OF S(2) c] c(2) r v in simp_all)
  then have run: "interrupt reg k = Run (sys_wait ?s\<lparr>current := r\<rparr>)" using i by (simp add: interrupt_def Let_def)
  show thesis using that [OF run interrupt_ok [OF ok run]] v by simp
qed

end
