(* ===== verification/MposApps.thy ===== *)
theory MposApps
  imports MposKern
begin

text \<open>
  The two MiniprocOS applications (\<open>weensyos1/mpos-app.c\<close>, \<open>mpos-app2.c\<close>, \<open>mpos-app.h\<close>) on the kernel.
  Processes are not interrupted between their system calls, so that an application is a function that
  takes a process from the return of one system call to the next. The local variables are those
  of the C functions; a fork copies them, since it copies the registers and the used part of the stack.
\<close>

section \<open>Programs and machines\<close>

text \<open>
  The next system call: its interrupt number, the value that the program puts into \<open>eax\<close> (if any), and the
  local variables with which it will be resumed. The result of a program is \<open>None\<close> when it makes no
  further call; it also changes the global variables and the screen.
\<close>

datatype 'l trap = Trap u32 "u32 option" 'l

type_synonym ('l, 'g) program = "u32 \<Rightarrow> 'l \<Rightarrow> 'g \<Rightarrow> console \<Rightarrow> ('l trap \<times> 'g \<times> console) option"

record ('l, 'g) machine =
  kernel :: kern
  code :: "nat \<Rightarrow> 'l"
  globals :: 'g

datatype ('l, 'g) stepped = Next "('l, 'g) machine" | Halt outcome "('l, 'g) machine"

text \<open>
  The registers apart from \<open>eax\<close> and the bytes of the memory depend on the compiler: \<open>cpu\<close> says what they
  are at the system call.
\<close>

definition machine_step :: "(('l, 'g) machine \<Rightarrow> registers \<times> mem) \<Rightarrow> ('l, 'g) program \<Rightarrow> ('l, 'g) machine \<Rightarrow> ('l, 'g) stepped" where
  "machine_step cpu prog s =
     (let k = kernel s; c = current k in
      case prog (reg_eax (p_registers (proc k c))) (code s c) (globals s) (screen k) of
        None \<Rightarrow> Halt Spin s
      | Some (Trap n a l, g, con) \<Rightarrow>
          (let r = fst (cpu s);
               reg = r\<lparr>reg_intno := n, reg_eax := (case a of None \<Rightarrow> reg_eax r | Some v \<Rightarrow> v)\<rparr>;
               k1 = k\<lparr>screen := con, phys := snd (cpu s)\<rparr>;
               f = (code s)(c := l)
           in case interrupt reg k1 of
                Run k' \<Rightarrow>
                  (let e = reg_eax (p_registers (proc k' c))
                   in Next \<lparr>kernel = k', code = (if n = INT_SYS_FORK \<and> e \<noteq> -1 then f(unat e := l) else f), globals = g\<rparr>)
              | out \<Rightarrow> Halt out \<lparr>kernel = k1, code = f, globals = g\<rparr>))"

partial_function (option) run_machine ::
  "(('l, 'g) machine \<Rightarrow> registers \<times> mem) \<Rightarrow> ('l, 'g) program \<Rightarrow> ('l, 'g) machine \<Rightarrow> (outcome \<times> ('l, 'g) machine) option" where
  "run_machine cpu prog s =
     (case machine_step cpu prog s of Halt out s' \<Rightarrow> Some (out, s') | Next s' \<Rightarrow> run_machine cpu prog s')"

definition boot_machine :: "'l \<Rightarrow> 'g \<Rightarrow> kern \<Rightarrow> ('l, 'g) machine" where
  "boot_machine l g k = \<lparr>kernel = k, code = \<lambda>_. l, globals = g\<rparr>"

section \<open>Printing\<close>

definition app_color :: "u32 \<Rightarrow> u16" where
  "app_color pid = (if sint pid < 0 then 0x0700 else push_bit 8 ([0x0E, 0x0F, 0x0C, 0x0A, 0x09] ! (unat pid mod 5)))"

text \<open>\<open>app_printf\<close> after its call of \<open>sys_getpid\<close>, which returned \<open>pid\<close>.\<close>

definition app_printf :: "u32 \<Rightarrow> string \<Rightarrow> va_arg list \<Rightarrow> console \<Rightarrow> console" where
  "app_printf pid format args con =
     (case console_vprintf (app_color pid) (map of_char format) args con of Some c \<Rightarrow> c | None \<Rightarrow> con)"

definition newline :: string where
  "newline = [CHR 0x0A]"

section \<open>\<open>mpos-app.c\<close>\<close>

text \<open>
  Where a process is: at its first instruction, or at the return of one of its system calls. The
  constructors that end in \<open>_arg\<close> are a \<open>sys_getpid\<close> in the arguments of a call of \<open>app_printf\<close>, those
  that end in \<open>_color\<close> the one in \<open>app_printf\<close> itself.
\<close>

datatype app_at = Entry | Hello_color | Forked | Main_arg | Main_color | Waited | Status_color | Collision_color
  | Error_color | Child_arg | Child_color | Yielded | Exited

record app_locals =
  at :: app_at
  l_p :: u32
  status :: u32
  checker :: int
  l_i :: nat
  arg :: u32

definition app_entry :: app_locals where
  "app_entry = \<lparr>at = Entry, l_p = 0, status = 0, checker = 0, l_i = 0, arg = 0\<rparr>"

definition app_call :: "u32 \<Rightarrow> u32 option \<Rightarrow> app_at \<Rightarrow> app_locals \<Rightarrow> console \<Rightarrow> (app_locals trap \<times> unit \<times> console) option" where
  "app_call n v a l con = Some (Trap n v (l\<lparr>at := a\<rparr>), (), con)"

text \<open>\<open>run_child\<close>, which the child calls on its return from the fork.\<close>

definition run_child :: "u32 \<Rightarrow> app_locals \<Rightarrow> console \<Rightarrow> (app_locals trap \<times> unit \<times> console) option" where
  "run_child eax l con =
     (case at l of
        Child_arg \<Rightarrow> app_call INT_SYS_GETPID None Child_color (l\<lparr>arg := eax\<rparr>) con
      | Child_color \<Rightarrow> app_call INT_SYS_YIELD None Yielded (l\<lparr>l_i := 0\<rparr>) (app_printf eax (''Child process %d!'' @ newline) [Va_int (arg l)] con)
      | Yielded \<Rightarrow>
          (let l = l\<lparr>l_i := l_i l + 1\<rparr> in
           if l_i l < 20 then app_call INT_SYS_YIELD None Yielded l con
           else app_call INT_SYS_EXIT (Some 1000) Exited l con)
      | _ \<Rightarrow> app_call INT_SYS_GETPID None Child_arg (l\<lparr>checker := 1\<rparr>) con)"

definition mpos_app :: "(app_locals, unit) program" where
  "mpos_app eax l g con =
     (case at l of
        Entry \<Rightarrow> app_call INT_SYS_GETPID None Hello_color (l\<lparr>checker := 0\<rparr>) con
      | Hello_color \<Rightarrow> app_call INT_SYS_FORK None Forked l (app_printf eax (''About to start a new process...'' @ newline) [] con)
      | Forked \<Rightarrow>
          (let l = l\<lparr>l_p := eax\<rparr> in
           if l_p l = 0 then run_child eax l con
           else if sint (l_p l) > 0 then app_call INT_SYS_GETPID None Main_arg l con
           else app_call INT_SYS_GETPID None Error_color l con)
      | Main_arg \<Rightarrow> app_call INT_SYS_GETPID None Main_color (l\<lparr>arg := eax\<rparr>) con
      | Main_color \<Rightarrow> app_call INT_SYS_WAIT (Some (l_p l)) Waited l (app_printf eax (''Main process %d!'' @ newline) [Va_int (arg l)] con)
      | Waited \<Rightarrow>
          (let l = l\<lparr>status := eax\<rparr> in
           if status l = -2 then app_call INT_SYS_WAIT (Some (l_p l)) Waited l con
           else app_call INT_SYS_GETPID None Status_color l con)
      | Status_color \<Rightarrow>
          (let con = app_printf eax (''Child %d exited with status %d!'' @ newline) [Va_int (l_p l), Va_int (status l)] con in
           if checker l \<noteq> 0 then app_call INT_SYS_GETPID None Collision_color l con
           else app_call INT_SYS_EXIT (Some 0) Exited l con)
      | Collision_color \<Rightarrow> app_call INT_SYS_EXIT (Some 1) Exited l (app_printf eax (''Error: stack collision!'' @ newline) [] con)
      | Error_color \<Rightarrow> app_call INT_SYS_EXIT (Some 1) Exited l (app_printf eax (''Error!'' @ newline) [] con)
      | Exited \<Rightarrow> None
      | _ \<Rightarrow> run_child eax l con)"

section \<open>\<open>mpos-app2.c\<close>\<close>

datatype app2_at = Entry2 | Forked2 | Waited2 | Child_arg2 | Child_color2 | Exited2

record app2_locals =
  at2 :: app2_at
  l2_p :: nat
  n_started :: int
  input_counter :: int
  arg2 :: u32

definition app2_entry :: app2_locals where
  "app2_entry = \<lparr>at2 = Entry2, l2_p = 0, n_started = 0, input_counter = 0, arg2 = 0\<rparr>"

text \<open>After the inner loop; the test \<open>p < NPROCS\<close> of the last loop holds for its first value.\<close>

definition app2_collect :: "app2_locals \<Rightarrow> int \<Rightarrow> console \<Rightarrow> (app2_locals trap \<times> int \<times> console) option" where
  "app2_collect l counter con =
     (if n_started l = 0 then Some (Trap INT_SYS_EXIT (Some 0) (l\<lparr>at2 := Exited2\<rparr>), counter, con)
      else Some (Trap INT_SYS_WAIT (Some 2) (l\<lparr>l2_p := 2, at2 := Waited2\<rparr>), counter, con))"

definition app2_inner :: "app2_locals \<Rightarrow> int \<Rightarrow> console \<Rightarrow> (app2_locals trap \<times> int \<times> console) option" where
  "app2_inner l counter con =
     (if counter + n_started l < 1025 then Some (Trap INT_SYS_FORK None (l\<lparr>at2 := Forked2\<rparr>), counter, con)
      else app2_collect l counter con)"

definition app2_outer :: "app2_locals \<Rightarrow> int \<Rightarrow> console \<Rightarrow> (app2_locals trap \<times> int \<times> console) option" where
  "app2_outer l counter con =
     (if counter < 1025 then app2_inner (l\<lparr>n_started := 0\<rparr>) counter con
      else Some (Trap INT_SYS_EXIT (Some 0) (l\<lparr>at2 := Exited2\<rparr>), counter, con))"

definition app2_run_child :: "u32 \<Rightarrow> app2_locals \<Rightarrow> int \<Rightarrow> console \<Rightarrow> (app2_locals trap \<times> int \<times> console) option" where
  "app2_run_child eax l counter con =
     (case at2 l of
        Child_arg2 \<Rightarrow> Some (Trap INT_SYS_GETPID None (l\<lparr>arg2 := eax, at2 := Child_color2\<rparr>), counter, con)
      | Child_color2 \<Rightarrow> Some (Trap INT_SYS_EXIT (Some (of_int (input_counter l))) (l\<lparr>at2 := Exited2\<rparr>), counter,
          app_printf eax (''Process %d lives, counter %d!'' @ newline) [Va_int (arg2 l), Va_int (of_int (input_counter l))] con)
      | _ \<Rightarrow> Some (Trap INT_SYS_GETPID None (l\<lparr>input_counter := counter, at2 := Child_arg2\<rparr>), counter + 1, con))"

definition mpos_app2 :: "(app2_locals, int) program" where
  "mpos_app2 eax l counter con =
     (case at2 l of
        Entry2 \<Rightarrow> app2_outer l 0 con
      | Forked2 \<Rightarrow>
          if eax = 0 then app2_run_child eax l counter con
          else if sint eax > 0 then app2_inner (l\<lparr>n_started := n_started l + 1\<rparr>) counter con
          else app2_collect l counter con
      | Waited2 \<Rightarrow>
          (let p = l2_p l + 1 in
           if p < NPROCS then Some (Trap INT_SYS_WAIT (Some (of_nat p)) (l\<lparr>l2_p := p\<rparr>), counter, con)
           else app2_outer l counter con)
      | Exited2 \<Rightarrow> None
      | _ \<Rightarrow> app2_run_child eax l counter con)"

lemmas mpos_app_defs = mpos_app_def run_child_def app_call_def
lemmas mpos_app2_defs = mpos_app2_def app2_run_child_def

end
