(* ===== verification/MposMachine.thy ===== *)
theory MposMachine
  imports MposView MposApps
begin

text \<open>
  The steps of a machine of processes in the view of the kernel, runs of such steps, and what
  \<open>app_printf\<close> puts on the screen.
\<close>

section \<open>Steps of a machine in the view of the kernel\<close>

definition sees :: "('l, 'g) machine \<Rightarrow> kview \<Rightarrow> bool" where
  "sees s v \<longleftrightarrow> kern_ok (kernel s) \<and> view (kernel s) = v"

text \<open>The program of the running process is at a trap.\<close>

definition at_trap :: "('l, 'g) program \<Rightarrow> kview \<Rightarrow> ('l, 'g) machine \<Rightarrow> 'l trap \<Rightarrow> 'g \<Rightarrow> console \<Rightarrow> bool" where
  "at_trap prog v s t g con \<longleftrightarrow> sees s v \<and> prog (v_eax v (v_cur v)) (code s (v_cur v)) (globals s) (v_screen v) = Some (t, g, con)"

abbreviation trap_regs :: "(('l, 'g) machine \<Rightarrow> registers \<times> mem) \<Rightarrow> ('l, 'g) machine \<Rightarrow> u32 \<Rightarrow> u32 option \<Rightarrow> registers" where
  "trap_regs cpu s n a \<equiv> (fst (cpu s))\<lparr>reg_intno := n, reg_eax := (case a of None \<Rightarrow> reg_eax (fst (cpu s)) | Some x \<Rightarrow> x)\<rparr>"

abbreviation trap_kern :: "(('l, 'g) machine \<Rightarrow> registers \<times> mem) \<Rightarrow> ('l, 'g) machine \<Rightarrow> console \<Rightarrow> kern" where
  "trap_kern cpu s con \<equiv> (kernel s)\<lparr>screen := con, phys := snd (cpu s)\<rparr>"

lemma view_trap_kern: "sees s v \<Longrightarrow> view (trap_kern cpu s con) = v\<lparr>v_screen := con\<rparr>" "sees s v \<Longrightarrow> kern_ok (trap_kern cpu s con)"
  by (auto simp: sees_def view_def)

lemma sees_current: "sees s v \<Longrightarrow> current (kernel s) = v_cur v"
  by (auto simp: sees_def)

lemma step_next:
  assumes "at_trap prog v s (Trap n a l) g con" "interrupt (trap_regs cpu s n a) (trap_kern cpu s con) = Run k'"
    "kern_ok k'" "view k' = v'"
  shows "\<exists>s'. machine_step cpu prog s = Next s' \<and> sees s' v' \<and> globals s' = g
    \<and> code s' = (if n = INT_SYS_FORK \<and> v_eax v' (v_cur v) \<noteq> -1
        then ((code s)(v_cur v := l))(unat (v_eax v' (v_cur v)) := l) else (code s)(v_cur v := l))"
proof -
  have c: "current (kernel s) = v_cur v" "screen (kernel s) = v_screen v"
    "reg_eax (p_registers (proc (kernel s) (v_cur v))) = v_eax v (v_cur v)"
    using assms(1) by (auto simp: at_trap_def sees_def)
  have e: "reg_eax (p_registers (proc k' (v_cur v))) = v_eax v' (v_cur v)" using assms(4) by auto
  show ?thesis
    using assms unfolding machine_step_def Let_def c by (simp add: at_trap_def sees_def e)
qed

lemma step_getpid:
  assumes "at_trap prog v s (Trap INT_SYS_GETPID a l) g con"
  shows "\<exists>s'. machine_step cpu prog s = Next s' \<and> globals s' = g \<and> code s' = (code s)(v_cur v := l)
    \<and> sees s' (v\<lparr>v_screen := con, v_eax := (v_eax v)(v_cur v := of_nat (v_cur v))\<rparr>)"
proof -
  have s: "sees s v" using assms by (simp add: at_trap_def)
  note K = view_trap_kern [OF s, of cpu con]
  obtain k' where "interrupt (trap_regs cpu s INT_SYS_GETPID a) (trap_kern cpu s con) = Run k'" "kern_ok k'"
    "view k' = v\<lparr>v_screen := con, v_eax := (v_eax v)(v_cur v := of_nat (v_cur v))\<rparr>"
    by (rule interrupt_getpid [OF K(2), of "trap_regs cpu s INT_SYS_GETPID a"]) (simp_all add: K(1) sees_current [OF s])
  from step_next [where cpu = cpu and s = s, OF assms this] show ?thesis by auto
qed

lemma step_yield:
  assumes "at_trap prog v s (Trap INT_SYS_YIELD a l) g con" "next_up (v_state v) (v_cur v) r"
  shows "\<exists>s' e. machine_step cpu prog s = Next s' \<and> globals s' = g \<and> code s' = (code s)(v_cur v := l)
    \<and> sees s' (v\<lparr>v_screen := con, v_eax := (v_eax v)(v_cur v := e), v_cur := r\<rparr>)"
proof -
  have s: "sees s v" using assms by (simp add: at_trap_def)
  note K = view_trap_kern [OF s, of cpu con]
  obtain k' e where "interrupt (trap_regs cpu s INT_SYS_YIELD a) (trap_kern cpu s con) = Run k'" "kern_ok k'"
    "view k' = v\<lparr>v_screen := con, v_eax := (v_eax v)(v_cur v := e), v_cur := r\<rparr>"
    by (rule interrupt_yield [OF K(2), of "trap_regs cpu s INT_SYS_YIELD a" r]) (simp_all add: K(1) sees_current [OF s] assms(2))
  from step_next [where cpu = cpu and s = s, OF assms(1) this] show ?thesis by auto
qed

lemma step_fork:
  assumes t: "at_trap prog v s (Trap INT_SYS_FORK a l) g con"
    and c: "v_cur v < c" "c < 16" "v_state v c = P_EMPTY" "\<forall>i. v_cur v < i \<and> i < c \<longrightarrow> v_state v i \<noteq> P_EMPTY"
  shows "\<exists>s'. machine_step cpu prog s = Next s' \<and> globals s' = g \<and> code s' = (code s)(v_cur v := l, c := l)
    \<and> sees s' (v\<lparr>v_screen := con, v_state := (v_state v)(c := P_RUNNABLE), v_eax := (v_eax v)(c := 0, v_cur v := of_nat c)\<rparr>)"
proof -
  have s: "sees s v" using t by (simp add: at_trap_def)
  note K = view_trap_kern [OF s, of cpu con]
  let ?v = "v\<lparr>v_screen := con, v_state := (v_state v)(c := P_RUNNABLE), v_eax := (v_eax v)(c := 0, v_cur v := of_nat c)\<rparr>"
  obtain k' where k': "interrupt (trap_regs cpu s INT_SYS_FORK a) (trap_kern cpu s con) = Run k'" "kern_ok k'" "view k' = ?v"
    by (rule interrupt_fork [OF K(2), of "trap_regs cpu s INT_SYS_FORK a" c]) (use c in \<open>simp_all add: K(1) sees_current [OF s]\<close>)
  have "unat (of_nat c :: u32) = c" using c(2) by simp
  moreover have "(of_nat c :: u32) \<noteq> -1"
  proof
    assume "(of_nat c :: u32) = -1"
    then have "c = unat (-1 :: u32)" using calculation by simp
    moreover have "unat (-1 :: u32) = 0xFFFFFFFF" by (simp add: unsigned_minus_1_eq_mask mask_eq_exp_minus_1)
    ultimately show False using c(2) by simp
  qed
  ultimately show ?thesis using step_next [where cpu = cpu and s = s, OF t k'] by auto
qed

lemma step_fork_full:
  assumes t: "at_trap prog v s (Trap INT_SYS_FORK a l) g con"
    and c: "v_cur v = 1" "\<forall>i. 2 \<le> i \<and> i < 16 \<longrightarrow> v_state v i \<noteq> P_EMPTY"
  shows "\<exists>s'. machine_step cpu prog s = Next s' \<and> globals s' = g \<and> code s' = (code s)(1 := l)
    \<and> sees s' (v\<lparr>v_screen := con, v_eax := (v_eax v)(1 := -1)\<rparr>)"
proof -
  have s: "sees s v" using t by (simp add: at_trap_def)
  note K = view_trap_kern [OF s, of cpu con]
  obtain k' where k': "interrupt (trap_regs cpu s INT_SYS_FORK a) (trap_kern cpu s con) = Run k'" "kern_ok k'"
    "view k' = v\<lparr>v_screen := con, v_eax := (v_eax v)(1 := -1)\<rparr>"
    by (rule interrupt_fork_full [OF K(2), of "trap_regs cpu s INT_SYS_FORK a"]) (use c in \<open>simp_all add: K(1) sees_current [OF s]\<close>)
  from step_next [where cpu = cpu and s = s, OF t k'] show ?thesis using c(1) by auto
qed

lemma step_wait_blocks:
  assumes t: "at_trap prog v s (Trap INT_SYS_WAIT (Some (of_nat p)) l) g con"
    and p: "0 < p" "p < 16" "p \<noteq> v_cur v" "v_state v p = P_RUNNABLE"
    and r: "next_up ((v_state v)(v_cur v := P_BLOCKED)) (v_cur v) r"
  shows "\<exists>s'. machine_step cpu prog s = Next s' \<and> globals s' = g \<and> code s' = (code s)(v_cur v := l)
    \<and> sees s' (v\<lparr>v_screen := con, v_state := (v_state v)(v_cur v := P_BLOCKED), v_queue := (v_queue v)(p := Some (v_cur v)),
       v_eax := (v_eax v)(v_cur v := of_nat p), v_cur := r\<rparr>)"
proof -
  have s: "sees s v" using t by (simp add: at_trap_def)
  note K = view_trap_kern [OF s, of cpu con]
  obtain k' where k': "interrupt (trap_regs cpu s INT_SYS_WAIT (Some (of_nat p))) (trap_kern cpu s con) = Run k'" "kern_ok k'"
    "view k' = v\<lparr>v_screen := con, v_state := (v_state v)(v_cur v := P_BLOCKED), v_queue := (v_queue v)(p := Some (v_cur v)),
       v_eax := (v_eax v)(v_cur v := of_nat p), v_cur := r\<rparr>"
    by (rule interrupt_wait_blocks [OF K(2), of "trap_regs cpu s INT_SYS_WAIT (Some (of_nat p))" p r])
      (use p r in \<open>simp_all add: K(1) sees_current [OF s]\<close>)
  from step_next [where cpu = cpu and s = s, OF t k'] show ?thesis by auto
qed

lemma step_wait_refused:
  assumes t: "at_trap prog v s (Trap INT_SYS_WAIT (Some (of_nat p)) l) g con"
    and p: "p < 16" "v_state v p = P_EMPTY" and r: "next_up (v_state v) (v_cur v) r"
  shows "\<exists>s'. machine_step cpu prog s = Next s' \<and> globals s' = g \<and> code s' = (code s)(v_cur v := l)
    \<and> sees s' (v\<lparr>v_screen := con, v_eax := (v_eax v)(v_cur v := -1), v_cur := r\<rparr>)"
proof -
  have s: "sees s v" using t by (simp add: at_trap_def)
  note K = view_trap_kern [OF s, of cpu con]
  obtain k' where k': "interrupt (trap_regs cpu s INT_SYS_WAIT (Some (of_nat p))) (trap_kern cpu s con) = Run k'" "kern_ok k'"
    "view k' = v\<lparr>v_screen := con, v_eax := (v_eax v)(v_cur v := -1), v_cur := r\<rparr>"
    by (rule interrupt_wait_refused [OF K(2), of "trap_regs cpu s INT_SYS_WAIT (Some (of_nat p))" p r])
      (use p r in \<open>simp_all add: K(1) sees_current [OF s]\<close>)
  from step_next [where cpu = cpu and s = s, OF t k'] show ?thesis by auto
qed

lemma view_exit_trap:
  assumes "sees s v"
  shows "view (sys_exit (save_regs (trap_regs cpu s n (Some e)) (trap_kern cpu s con))) = v_exit e (v\<lparr>v_screen := con\<rparr>)"
proof -
  note K = view_trap_kern [OF assms, of cpu con]
  show ?thesis unfolding view_sys_exit [OF K(2)] K(1) by simp
qed

lemma step_exit:
  assumes t: "at_trap prog v s (Trap INT_SYS_EXIT (Some e) l) g con"
    and r: "next_up (v_state (v_exit e v)) (v_cur v) r"
  shows "\<exists>s'. machine_step cpu prog s = Next s' \<and> globals s' = g \<and> code s' = (code s)(v_cur v := l)
    \<and> sees s' ((v_exit e (v\<lparr>v_screen := con\<rparr>))\<lparr>v_cur := r\<rparr>)"
proof -
  have s: "sees s v" using t by (simp add: at_trap_def)
  note K = view_trap_kern [OF s, of cpu con]
  have st: "v_state (v_exit e (v\<lparr>v_screen := con\<rparr>)) = v_state (v_exit e v)" by (simp add: v_exit_def split: option.splits)
  obtain k' where k': "interrupt (trap_regs cpu s INT_SYS_EXIT (Some e)) (trap_kern cpu s con) = Run k'" "kern_ok k'"
    "view k' = (v_exit e (v\<lparr>v_screen := con\<rparr>))\<lparr>v_cur := r\<rparr>"
    by (rule interrupt_exit [OF K(2) _ view_exit_trap [OF s, where cpu = cpu and con = con and n = INT_SYS_EXIT and e = e], of r])
      (use r st in \<open>simp_all add: sees_current [OF s]\<close>)
  from step_next [where cpu = cpu and s = s, OF t k'] show ?thesis by auto
qed

lemma step_exit_last:
  assumes t: "at_trap prog v s (Trap INT_SYS_EXIT (Some e) l) g con"
    and none: "\<forall>i < 16. v_state (v_exit e v) i \<noteq> P_RUNNABLE"
  shows "machine_step cpu prog s = Halt Spin \<lparr>kernel = trap_kern cpu s con, code = (code s)(v_cur v := l), globals = g\<rparr>"
proof -
  have s: "sees s v" using t by (simp add: at_trap_def)
  note K = view_trap_kern [OF s, of cpu con]
  have "v_state (v_exit e (v\<lparr>v_screen := con\<rparr>)) = v_state (v_exit e v)" by (simp add: v_exit_def split: option.splits)
  then have "interrupt (trap_regs cpu s INT_SYS_EXIT (Some e)) (trap_kern cpu s con) = Spin"
    by (intro interrupt_exit_last [OF K(2) _ view_exit_trap [OF s, where cpu = cpu and con = con and n = INT_SYS_EXIT and e = e]]) (use none in simp_all)
  moreover have "current (kernel s) = v_cur v" "screen (kernel s) = v_screen v"
    "reg_eax (p_registers (proc (kernel s) (v_cur v))) = v_eax v (v_cur v)"
    using s by (auto simp: sees_def)
  ultimately show ?thesis
    using t unfolding machine_step_def Let_def by (simp add: at_trap_def)
qed

section \<open>Runs\<close>

definition leads :: "(('l, 'g) machine \<Rightarrow> registers \<times> mem) \<Rightarrow> ('l, 'g) program
    \<Rightarrow> (('l, 'g) machine \<Rightarrow> bool) \<Rightarrow> (('l, 'g) machine \<Rightarrow> bool) \<Rightarrow> bool" where
  "leads cpu prog P Q \<longleftrightarrow> (\<forall>s. P s \<longrightarrow> (\<exists>s'. (\<lambda>a b. machine_step cpu prog a = Next b)\<^sup>*\<^sup>* s s' \<and> Q s'))"

lemma leads_refl: "(\<And>s. P s \<Longrightarrow> Q s) \<Longrightarrow> leads cpu prog P Q"
  by (auto simp: leads_def)

lemma leads_step: "(\<And>s. P s \<Longrightarrow> \<exists>s'. machine_step cpu prog s = Next s' \<and> Q s') \<Longrightarrow> leads cpu prog P Q"
  unfolding leads_def by blast

lemma leads_trans [trans]: "leads cpu prog P Q \<Longrightarrow> leads cpu prog Q R \<Longrightarrow> leads cpu prog P R"
  unfolding leads_def by (meson rtranclp_trans)

lemma leads_iterate: "(\<And>i. i < n \<Longrightarrow> leads cpu prog (P i) (P (Suc i))) \<Longrightarrow> leads cpu prog (P 0) (P n)"
proof (induction n)
  case 0
  then show ?case by (intro leads_refl)
next
  case (Suc n)
  then have "leads cpu prog (P 0) (P n)" "leads cpu prog (P n) (P (Suc n))" by simp_all
  then show ?case by (rule leads_trans)
qed

text \<open>Two views that agree on the sixteen processes.\<close>

definition agree :: "kview \<Rightarrow> kview \<Rightarrow> bool" where
  "agree v w \<longleftrightarrow> v_cur v = v_cur w \<and> v_screen v = v_screen w
     \<and> (\<forall>i < 16. v_state v i = v_state w i \<and> v_queue v i = v_queue w i \<and> v_eax v i = v_eax w i)"

definition is_at :: "kview \<Rightarrow> (nat \<Rightarrow> 'l) \<Rightarrow> 'g \<Rightarrow> ('l, 'g) machine \<Rightarrow> bool" where
  "is_at v f g s \<longleftrightarrow> v_cur v < 16 \<and> (\<exists>w. sees s w \<and> agree v w) \<and> (\<forall>i < 16. code s i = f i) \<and> globals s = g"

lemma next_up_agree:
  assumes "\<forall>i < 16. st i = st' i"
  shows "next_up st c r = next_up st' c r"
  unfolding next_up_def using assms by (auto 0 3)

lemma is_at_trap:
  assumes "is_at v f g s" "prog (v_eax v (v_cur v)) (f (v_cur v)) g (v_screen v) = Some (t, g', con)"
  obtains w where "at_trap prog w s t g' con" "agree v w" "v_cur w = v_cur v"
  using assms unfolding is_at_def at_trap_def agree_def by (metis (no_types))

lemma is_atI: "sees s w \<Longrightarrow> agree v w \<Longrightarrow> \<forall>i < 16. code s i = f i \<Longrightarrow> globals s = g \<Longrightarrow> v_cur v < 16 \<Longrightarrow> is_at v f g s"
  by (auto simp: is_at_def)

lemma is_at_cong: "is_at v f g s \<Longrightarrow> agree v v' \<Longrightarrow> \<forall>i < 16. f i = f' i \<Longrightarrow> is_at v' f' g s"
  by (auto simp: is_at_def agree_def)

lemma leads_to:
  assumes "leads cpu prog P (is_at v f g)" "agree v v'" "\<forall>i < 16. f i = f' i"
  shows "leads cpu prog P (is_at v' f' g)"
  by (rule leads_trans [OF assms(1)]) (use is_at_cong [OF _ assms(2,3)] in \<open>intro leads_refl\<close>)

lemma is_at_cur: "is_at v f g s \<Longrightarrow> v_cur v < 16 \<and> (\<forall>i < 16. code s i = f i)"
  by (simp add: is_at_def)

lemma leads_getpid:
  assumes "prog (v_eax v c) (f c) g (v_screen v) = Some (Trap INT_SYS_GETPID a l, g', con)" "v_cur v = c"
  shows "leads cpu prog (is_at v f g) (is_at (v\<lparr>v_screen := con, v_eax := (v_eax v)(c := of_nat c)\<rparr>) (f(c := l)) g')"
proof (rule leads_step)
  fix s assume s: "is_at v f g s"
  obtain w where w: "at_trap prog w s (Trap INT_SYS_GETPID a l) g' con" "agree v w" "v_cur w = c"
    by (rule is_at_trap [where prog = prog, OF s]) (use assms in auto)
  from step_getpid [OF w(1), of cpu] obtain s' where s': "machine_step cpu prog s = Next s'" "globals s' = g'"
    "code s' = (code s)(c := l)" "sees s' (w\<lparr>v_screen := con, v_eax := (v_eax w)(c := of_nat c)\<rparr>)"
    using w(3) by auto
  have "is_at (v\<lparr>v_screen := con, v_eax := (v_eax v)(c := of_nat c)\<rparr>) (f(c := l)) g' s'"
    by (rule is_atI [OF s'(4)]) (use w(2) is_at_cur [OF s] s' in \<open>auto simp: agree_def\<close>)
  then show "\<exists>s'. machine_step cpu prog s = Next s' \<and> is_at (v\<lparr>v_screen := con, v_eax := (v_eax v)(c := of_nat c)\<rparr>) (f(c := l)) g' s'"
    using s'(1) by blast
qed

lemma leads_yield:
  assumes "prog (v_eax v c) (f c) g (v_screen v) = Some (Trap INT_SYS_YIELD a l, g', con)" "v_cur v = c"
    and r: "next_up (v_state v) c r"
  shows "leads cpu prog (is_at v f g) (\<lambda>s. \<exists>e. is_at (v\<lparr>v_screen := con, v_eax := (v_eax v)(c := e), v_cur := r\<rparr>) (f(c := l)) g' s)"
proof (rule leads_step)
  fix s assume s: "is_at v f g s"
  obtain w where w: "at_trap prog w s (Trap INT_SYS_YIELD a l) g' con" "agree v w" "v_cur w = c"
    by (rule is_at_trap [where prog = prog, OF s]) (use assms in auto)
  have "next_up (v_state w) (v_cur w) r" using r w(2,3) next_up_agree [of "v_state v" "v_state w"] by (simp add: agree_def)
  from step_yield [OF w(1) this, of cpu] obtain s' e where s': "machine_step cpu prog s = Next s'" "globals s' = g'"
    "code s' = (code s)(c := l)" "sees s' (w\<lparr>v_screen := con, v_eax := (v_eax w)(c := e), v_cur := r\<rparr>)"
    using w(3) by auto
  have "is_at (v\<lparr>v_screen := con, v_eax := (v_eax v)(c := e), v_cur := r\<rparr>) (f(c := l)) g' s'"
    by (rule is_atI [OF s'(4)]) (use w(2) is_at_cur [OF s] s' r in \<open>auto simp: agree_def next_up_def\<close>)
  then show "\<exists>s'. machine_step cpu prog s = Next s' \<and> (\<exists>e. is_at (v\<lparr>v_screen := con, v_eax := (v_eax v)(c := e), v_cur := r\<rparr>) (f(c := l)) g' s')"
    using s'(1) by blast
qed

lemma leads_fork:
  assumes "prog (v_eax v c) (f c) g (v_screen v) = Some (Trap INT_SYS_FORK a l, g', con)" "v_cur v = c"
    and d: "c < d" "d < 16" "v_state v d = P_EMPTY" "\<forall>i. c < i \<and> i < d \<longrightarrow> v_state v i \<noteq> P_EMPTY"
  shows "leads cpu prog (is_at v f g)
    (is_at (v\<lparr>v_screen := con, v_state := (v_state v)(d := P_RUNNABLE), v_eax := (v_eax v)(d := 0, c := of_nat d)\<rparr>) (f(c := l, d := l)) g')"
    (is "leads _ _ _ (is_at ?v ?f g')")
proof (rule leads_step)
  fix s assume s: "is_at v f g s"
  obtain w where w: "at_trap prog w s (Trap INT_SYS_FORK a l) g' con" "agree v w" "v_cur w = c"
    by (rule is_at_trap [where prog = prog, OF s]) (use assms in auto)
  have "v_cur w < d" "v_state w d = P_EMPTY" "\<forall>i. v_cur w < i \<and> i < d \<longrightarrow> v_state w i \<noteq> P_EMPTY"
    using w(2,3) d by (auto simp: agree_def)
  from step_fork [OF w(1) this(1) d(2) this(2,3), of cpu] obtain s' where s': "machine_step cpu prog s = Next s'" "globals s' = g'"
    "code s' = (code s)(c := l, d := l)"
    "sees s' (w\<lparr>v_screen := con, v_state := (v_state w)(d := P_RUNNABLE), v_eax := (v_eax w)(d := 0, c := of_nat d)\<rparr>)"
    using w(3) by auto
  have "is_at ?v ?f g' s'"
    by (rule is_atI [OF s'(4)]) (use w(2) is_at_cur [OF s] s' in \<open>auto simp: agree_def\<close>)
  then show "\<exists>s'. machine_step cpu prog s = Next s' \<and> is_at ?v ?f g' s'" using s'(1) by blast
qed

lemma leads_fork_full:
  assumes "prog (v_eax v 1) (f 1) g (v_screen v) = Some (Trap INT_SYS_FORK a l, g', con)" "v_cur v = 1"
    and d: "\<forall>i. 2 \<le> i \<and> i < 16 \<longrightarrow> v_state v i \<noteq> P_EMPTY"
  shows "leads cpu prog (is_at v f g) (is_at (v\<lparr>v_screen := con, v_eax := (v_eax v)(1 := -1)\<rparr>) (f(1 := l)) g')"
    (is "leads _ _ _ (is_at ?v ?f g')")
proof (rule leads_step)
  fix s assume s: "is_at v f g s"
  obtain w where w: "at_trap prog w s (Trap INT_SYS_FORK a l) g' con" "agree v w" "v_cur w = 1"
    by (rule is_at_trap [where prog = prog, OF s]) (use assms in auto)
  have "\<forall>i. 2 \<le> i \<and> i < 16 \<longrightarrow> v_state w i \<noteq> P_EMPTY" using w(2) d by (auto simp: agree_def)
  from step_fork_full [OF w(1,3) this, of cpu] obtain s' where s': "machine_step cpu prog s = Next s'" "globals s' = g'"
    "code s' = (code s)(1 := l)" "sees s' (w\<lparr>v_screen := con, v_eax := (v_eax w)(1 := -1)\<rparr>)"
    by auto
  have "is_at ?v ?f g' s'"
    by (rule is_atI [OF s'(4)]) (use w(2) is_at_cur [OF s] s' in \<open>auto simp: agree_def\<close>)
  then show "\<exists>s'. machine_step cpu prog s = Next s' \<and> is_at ?v ?f g' s'" using s'(1) by blast
qed

lemma leads_wait_blocks:
  assumes "prog (v_eax v c) (f c) g (v_screen v) = Some (Trap INT_SYS_WAIT (Some (of_nat p)) l, g', con)" "v_cur v = c"
    and p: "0 < p" "p < 16" "p \<noteq> c" "v_state v p = P_RUNNABLE"
    and r: "next_up ((v_state v)(c := P_BLOCKED)) c r"
  shows "leads cpu prog (is_at v f g) (is_at (v\<lparr>v_screen := con, v_state := (v_state v)(c := P_BLOCKED),
      v_queue := (v_queue v)(p := Some c), v_eax := (v_eax v)(c := of_nat p), v_cur := r\<rparr>) (f(c := l)) g')"
    (is "leads _ _ _ (is_at ?v ?f g')")
proof (rule leads_step)
  fix s assume s: "is_at v f g s"
  obtain w where w: "at_trap prog w s (Trap INT_SYS_WAIT (Some (of_nat p)) l) g' con" "agree v w" "v_cur w = c"
    by (rule is_at_trap [where prog = prog, OF s]) (use assms in auto)
  have wp: "p \<noteq> v_cur w" "v_state w p = P_RUNNABLE" using w(2,3) p by (auto simp: agree_def)
  have "\<forall>i < 16. ((v_state v)(c := P_BLOCKED)) i = ((v_state w)(c := P_BLOCKED)) i" using w(2) by (simp add: agree_def)
  then have wr: "next_up ((v_state w)(v_cur w := P_BLOCKED)) (v_cur w) r"
    unfolding w(3) using r by (subst (asm) next_up_agree) auto
  from step_wait_blocks [OF w(1) p(1,2) wp wr, of cpu] obtain s' where s': "machine_step cpu prog s = Next s'" "globals s' = g'"
    "code s' = (code s)(c := l)" "sees s' (w\<lparr>v_screen := con, v_state := (v_state w)(c := P_BLOCKED),
      v_queue := (v_queue w)(p := Some c), v_eax := (v_eax w)(c := of_nat p), v_cur := r\<rparr>)"
    using w(3) by auto
  have "is_at ?v ?f g' s'"
    by (rule is_atI [OF s'(4)]) (use w(2) is_at_cur [OF s] s' r in \<open>auto simp: agree_def next_up_def\<close>)
  then show "\<exists>s'. machine_step cpu prog s = Next s' \<and> is_at ?v ?f g' s'" using s'(1) by blast
qed

lemma leads_wait_refused:
  assumes "prog (v_eax v c) (f c) g (v_screen v) = Some (Trap INT_SYS_WAIT (Some (of_nat p)) l, g', con)" "v_cur v = c"
    and p: "p < 16" "v_state v p = P_EMPTY" and r: "next_up (v_state v) c r"
  shows "leads cpu prog (is_at v f g) (is_at (v\<lparr>v_screen := con, v_eax := (v_eax v)(c := -1), v_cur := r\<rparr>) (f(c := l)) g')"
    (is "leads _ _ _ (is_at ?v ?f g')")
proof (rule leads_step)
  fix s assume s: "is_at v f g s"
  obtain w where w: "at_trap prog w s (Trap INT_SYS_WAIT (Some (of_nat p)) l) g' con" "agree v w" "v_cur w = c"
    by (rule is_at_trap [where prog = prog, OF s]) (use assms in auto)
  have wp: "v_state w p = P_EMPTY" "next_up (v_state w) (v_cur w) r"
    using w(2,3) p r next_up_agree [of "v_state v" "v_state w"] by (auto simp: agree_def)
  from step_wait_refused [OF w(1) p(1) wp, of cpu] obtain s' where s': "machine_step cpu prog s = Next s'" "globals s' = g'"
    "code s' = (code s)(c := l)" "sees s' (w\<lparr>v_screen := con, v_eax := (v_eax w)(c := -1), v_cur := r\<rparr>)"
    using w(3) by auto
  have "is_at ?v ?f g' s'"
    by (rule is_atI [OF s'(4)]) (use w(2) is_at_cur [OF s] s' r in \<open>auto simp: agree_def next_up_def\<close>)
  then show "\<exists>s'. machine_step cpu prog s = Next s' \<and> is_at ?v ?f g' s'" using s'(1) by blast
qed

lemma agree_v_exit:
  assumes "agree v w" "v_cur v < 16"
  shows "agree (v_exit e v) (v_exit e w)"
  using assms by (auto simp: agree_def v_exit_def split: option.splits)

lemma leads_exit:
  assumes "prog (v_eax v c) (f c) g (v_screen v) = Some (Trap INT_SYS_EXIT (Some e) l, g', con)" "v_cur v = c"
    and r: "next_up (v_state (v_exit e v)) c r"
  shows "leads cpu prog (is_at v f g) (is_at ((v_exit e (v\<lparr>v_screen := con\<rparr>))\<lparr>v_cur := r\<rparr>) (f(c := l)) g')"
    (is "leads _ _ _ (is_at ?v ?f g')")
proof (rule leads_step)
  fix s assume s: "is_at v f g s"
  obtain w where w: "at_trap prog w s (Trap INT_SYS_EXIT (Some e) l) g' con" "agree v w" "v_cur w = c"
    by (rule is_at_trap [where prog = prog, OF s]) (use assms in auto)
  have "agree (v_exit e v) (v_exit e w)" by (rule agree_v_exit [OF w(2)]) (use is_at_cur [OF s] in simp)
  then have wr: "next_up (v_state (v_exit e w)) (v_cur w) r"
    using r w(3) next_up_agree [of "v_state (v_exit e v)" "v_state (v_exit e w)"] by (simp add: agree_def)
  from step_exit [OF w(1) wr, of cpu] obtain s' where s': "machine_step cpu prog s = Next s'" "globals s' = g'"
    "code s' = (code s)(c := l)" "sees s' ((v_exit e (w\<lparr>v_screen := con\<rparr>))\<lparr>v_cur := r\<rparr>)"
    using w(3) by auto
  have "agree (v_exit e (v\<lparr>v_screen := con\<rparr>)) (v_exit e (w\<lparr>v_screen := con\<rparr>))"
    by (rule agree_v_exit) (use w(2) is_at_cur [OF s] in \<open>simp_all add: agree_def\<close>)
  then have "is_at ?v ?f g' s'"
    by (intro is_atI [OF s'(4)]) (use is_at_cur [OF s] s' r in \<open>auto simp: agree_def next_up_def\<close>)
  then show "\<exists>s'. machine_step cpu prog s = Next s' \<and> is_at ?v ?f g' s'" using s'(1) by blast
qed

lemma exit_halts:
  assumes s: "is_at v f g s" and "prog (v_eax v c) (f c) g (v_screen v) = Some (Trap INT_SYS_EXIT (Some e) l, g', con)" "v_cur v = c"
    and none: "\<forall>i < 16. v_state (v_exit e v) i \<noteq> P_RUNNABLE"
  shows "\<exists>s'. machine_step cpu prog s = Halt Spin s' \<and> globals s' = g' \<and> screen (kernel s') = con"
proof -
  obtain w where w: "at_trap prog w s (Trap INT_SYS_EXIT (Some e) l) g' con" "agree v w" "v_cur w = c"
    by (rule is_at_trap [where prog = prog, OF s]) (use assms in auto)
  have "agree (v_exit e v) (v_exit e w)" by (rule agree_v_exit [OF w(2)]) (use is_at_cur [OF s] in simp)
  then have "\<forall>i < 16. v_state (v_exit e w) i \<noteq> P_RUNNABLE" using none by (simp add: agree_def)
  from step_exit_last [OF w(1) this] show ?thesis by auto
qed

lemma run_machine_leads:
  assumes "leads cpu prog P Q" "P s" and "\<And>s'. Q s' \<Longrightarrow> \<exists>s''. machine_step cpu prog s' = Halt out s'' \<and> R s''"
  shows "\<exists>s'. run_machine cpu prog s = Some (out, s') \<and> R s'"
proof -
  obtain t where t: "(\<lambda>a b. machine_step cpu prog a = Next b)\<^sup>*\<^sup>* s t" "Q t"
    using assms(1,2) by (auto simp: leads_def)
  obtain t' where t': "machine_step cpu prog t = Halt out t'" "R t'" using assms(3) [OF t(2)] by blast
  have "run_machine cpu prog s = run_machine cpu prog t"
    using t(1)
  proof (induction rule: rtranclp_induct)
    case (step a b)
    then have "run_machine cpu prog a = run_machine cpu prog b" by (subst run_machine.simps) simp
    then show ?case using step by simp
  qed simp
  moreover have "run_machine cpu prog t = Some (out, t')" using t'(1) by (subst run_machine.simps) simp
  ultimately show ?thesis using t'(2) by auto
qed

section \<open>Lines on the screen\<close>

definition decimal :: "nat \<Rightarrow> u8 list" where
  "decimal n = numbuf_loop n 10 upper_digits []"

text \<open>The process prints characters in its colour and ends the line.\<close>

definition line :: "nat \<Rightarrow> u8 list \<Rightarrow> console \<Rightarrow> console" where
  "line pid text con = fold (console_putc (app_color (of_nat pid))) (text @ [10]) con"

definition chars :: "string \<Rightarrow> u8 list" where
  "chars s = map of_char s"

lemma vprintf_chars:
  "37 \<notin> set cs \<Longrightarrow> console_vprintf color (cs @ f) args con = console_vprintf color f args (fold (console_putc color) cs con)"
  by (induction cs arbitrary: con) auto

lemma vprintf_decimal:
  assumes "n < 2 ^ 31"
  shows "console_vprintf color (37 # 100 # f) (Va_int (of_nat n) # args) con
    = console_vprintf color f args (fold (console_putc color) (decimal n) con)"
proof -
  have u: "unat (of_nat n :: u32) = n" using assms by simp
  then have "sint (of_nat n :: u32) = int n"
    using assms by (simp add: sint_uint signed_take_bit_int_eq_self uint_nat)
  then have c: "convert (100 # f) (-1) (Va_int (of_nat n) # args) = Some (Field (decimal n) False True args)"
    using u by (cases "n = 0") (simp_all add: convert_def fill_numbuf_def decimal_def)
  have "vprintf_conversion (100 # f) (Va_int (of_nat n) # args) color con
      = Some (f, args, color, fold (console_putc color) (decimal n) con)"
    using c by (simp add: vprintf_conversion_def flag_chars_def parse_width_def parse_precision_def print_field_def)
  then show ?thesis by simp
qed

end
