(* ===== verification/MposAppProps.thy ===== *)
theory MposAppProps
  imports MposMachine
begin

text \<open>
  The applications on the kernel, from the boot to the end: each process makes its system calls and prints
  its lines in the order that the kernel's scheduler gives.
\<close>

section \<open>The machine after the boot\<close>

lemma start_view:
  assumes "start ramimages keyboard con m = Run k"
  shows "kern_ok k" "current k = 1" "i < 16 \<Longrightarrow> p_state (proc k i) = (if i = 1 then P_RUNNABLE else P_EMPTY)"
    "i < 16 \<Longrightarrow> queue (proc k i) = None" "i < 16 \<Longrightarrow> reg_eax (p_registers (proc k i)) = 0"
proof -
  show "kern_ok k" by (rule start_ok [OF assms])
  have e: "map empty_process [0..<16] ! i = empty_process i" if "i < 16" for i
    using that by (simp del: upt_Suc)
  let ?k0 = "\<lparr>proc_array = map empty_process [0..<16], current = 1, screen = con, phys = m\<rparr>"
  let ?k1 = "upd_proc 1 (\<lambda>p. p\<lparr>p_registers := special_registers_init\<rparr>) ?k0"
  obtain w entry con1 m1 where k: "k = upd_proc 1 (\<lambda>p. p\<lparr>p_registers := (p_registers p)
        \<lparr>reg_eip := entry, reg_esp := PROC1_STACK_ADDR + PROC_STACK_SIZE\<rparr>,
        p_state := P_RUNNABLE\<rparr>) (?k1\<lparr>screen := con1, phys := m1\<rparr>)\<lparr>current := 1\<rparr>"
    using assms by (auto simp: start_def Let_def run_def split: option.splits)
  show "current k = 1" unfolding k by simp
  show "p_state (proc k i) = (if i = 1 then P_RUNNABLE else P_EMPTY)" "queue (proc k i) = None"
    "reg_eax (p_registers (proc k i)) = 0" if "i < 16"
    using that unfolding k
    by (simp_all add: proc_upd_proc e empty_process_def special_registers_init_def zero_registers_def del: upt_Suc)
qed

lemma next_up_self: "st c = P_RUNNABLE \<Longrightarrow> c < 16 \<Longrightarrow> \<forall>i < 16. i \<noteq> c \<longrightarrow> st i \<noteq> P_RUNNABLE \<Longrightarrow> next_up st c c"
  by (simp add: next_up_def)

text \<open>The view after the boot.\<close>

definition boot_view :: "console \<Rightarrow> kview" where
  "boot_view con = \<lparr>v_cur = 1, v_state = (\<lambda>i. if i = 1 then P_RUNNABLE else P_EMPTY), v_queue = \<lambda>_. None, v_eax = \<lambda>_. 0, v_screen = con\<rparr>"

lemma boot_is_at:
  assumes "start ramimages keyboard con m = Run k"
  shows "is_at (boot_view (screen k)) (\<lambda>_. l) g (boot_machine l g k)"
proof (rule is_atI)
  note V = start_view [OF assms]
  show "sees (boot_machine l g k) (view k)" using V(1) by (simp add: sees_def boot_machine_def)
  show "agree (boot_view (screen k)) (view k)" using V by (simp add: agree_def boot_view_def)
qed (simp_all add: boot_machine_def boot_view_def)

section \<open>\<open>mpos-app\<close>\<close>

text \<open>What the calls of \<open>app_printf\<close> print.\<close>

lemma vprintf_none: "37 \<notin> set a \<Longrightarrow> console_vprintf color a args con = Some (fold (console_putc color) a con)"
  using vprintf_chars [of a color "[]" args con] by simp

lemma vprintf_one:
  assumes "37 \<notin> set a" "37 \<notin> set b" "m < 2 ^ 31"
  shows "console_vprintf color (a @ 37 # 100 # b) [Va_int (of_nat m)] con = Some (fold (console_putc color) (a @ decimal m @ b) con)"
  unfolding vprintf_chars [OF assms(1)] vprintf_decimal [OF assms(3)] vprintf_none [OF assms(2)] by simp

lemma vprintf_two:
  assumes "37 \<notin> set a" "37 \<notin> set b" "37 \<notin> set c" "m < 2 ^ 31" "n < 2 ^ 31"
  shows "console_vprintf color (a @ 37 # 100 # b @ 37 # 100 # c) [Va_int (of_nat m), Va_int (of_nat n)] con
    = Some (fold (console_putc color) (a @ decimal m @ b @ decimal n @ c) con)"
  unfolding vprintf_chars [OF assms(1)] vprintf_decimal [OF assms(4)] vprintf_chars [OF assms(2)]
    vprintf_decimal [OF assms(5)] vprintf_none [OF assms(3)] by simp

lemma line_append: "fold (console_putc (app_color (of_nat pid))) (t @ [10]) con = line pid t con"
  by (simp add: line_def)

lemma app_hello: "app_printf (of_nat pid) (''About to start a new process...'' @ newline) [] con
    = line pid (chars ''About to start a new process...'') con"
  using vprintf_none [of "chars ''About to start a new process...'' @ [10]" "app_color (of_nat pid)" "[]" con]
  by (simp add: app_printf_def chars_def newline_def line_def)

lemma app_main: "n < 2 ^ 31 \<Longrightarrow> app_printf (of_nat pid) (''Main process %d!'' @ newline) [Va_int (of_nat n)] con
    = line pid (chars ''Main process '' @ decimal n @ chars ''!'') con"
  using vprintf_one [of "chars ''Main process ''" "chars ''!'' @ [10]" n "app_color (of_nat pid)" con]
  by (simp add: app_printf_def chars_def newline_def line_def del: console_vprintf.simps)

lemma app_child: "n < 2 ^ 31 \<Longrightarrow> app_printf (of_nat pid) (''Child process %d!'' @ newline) [Va_int (of_nat n)] con
    = line pid (chars ''Child process '' @ decimal n @ chars ''!'') con"
  using vprintf_one [of "chars ''Child process ''" "chars ''!'' @ [10]" n "app_color (of_nat pid)" con]
  by (simp add: app_printf_def chars_def newline_def line_def del: console_vprintf.simps)

lemma app_status: "m < 2 ^ 31 \<Longrightarrow> n < 2 ^ 31 \<Longrightarrow>
    app_printf (of_nat pid) (''Child %d exited with status %d!'' @ newline) [Va_int (of_nat m), Va_int (of_nat n)] con
    = line pid (chars ''Child '' @ decimal m @ chars '' exited with status '' @ decimal n @ chars ''!'') con"
  using vprintf_two [of "chars ''Child ''" "chars '' exited with status ''" "chars ''!'' @ [10]" m n "app_color (of_nat pid)" con]
  by (simp add: app_printf_def chars_def newline_def line_def del: console_vprintf.simps)

lemma app_lives: "m < 2 ^ 31 \<Longrightarrow> n < 2 ^ 31 \<Longrightarrow>
    app_printf (of_nat pid) (''Process %d lives, counter %d!'' @ newline) [Va_int (of_nat m), Va_int (of_nat n)] con
    = line pid (chars ''Process '' @ decimal m @ chars '' lives, counter '' @ decimal n @ chars ''!'') con"
  using vprintf_two [of "chars ''Process ''" "chars '' lives, counter ''" "chars ''!'' @ [10]" m n "app_color (of_nat pid)" con]
  by (simp add: app_printf_def chars_def newline_def line_def del: console_vprintf.simps)

text \<open>The states of a run, with the two processes that exist.\<close>

definition app_view :: "nat \<Rightarrow> procstate \<Rightarrow> procstate \<Rightarrow> nat option \<Rightarrow> u32 \<Rightarrow> u32 \<Rightarrow> console \<Rightarrow> kview" where
  "app_view c st1 st2 q e1 e2 con = \<lparr>v_cur = c,
     v_state = (\<lambda>i. if i = 1 then st1 else if i = 2 then st2 else P_EMPTY),
     v_queue = (\<lambda>i. if i = 2 then q else None), v_eax = (\<lambda>i. if i = 1 then e1 else if i = 2 then e2 else 0), v_screen = con\<rparr>"

lemma app_view_simps [simp]:
  "v_cur (app_view c st1 st2 q e1 e2 con) = c" "v_screen (app_view c st1 st2 q e1 e2 con) = con"
  "v_eax (app_view c st1 st2 q e1 e2 con) (Suc 0) = e1" "v_eax (app_view c st1 st2 q e1 e2 con) 2 = e2"
  "v_state (app_view c st1 st2 q e1 e2 con) i = (if i = 1 then st1 else if i = 2 then st2 else P_EMPTY)"
  "v_queue (app_view c st1 st2 q e1 e2 con) i = (if i = 2 then q else None)"
  by (simp_all add: app_view_def)

definition locals :: "app_at \<Rightarrow> u32 \<Rightarrow> u32 \<Rightarrow> int \<Rightarrow> nat \<Rightarrow> u32 \<Rightarrow> app_locals" where
  "locals a p st ck i x = \<lparr>at = a, l_p = p, status = st, checker = ck, l_i = i, arg = x\<rparr>"

definition both :: "app_locals \<Rightarrow> app_locals \<Rightarrow> nat \<Rightarrow> app_locals" where
  "both l1 l2 i = (if i = 1 then l1 else if i = 2 then l2 else app_entry)"

lemma both_simps [simp]: "both l1 l2 (Suc 0) = l1" "both l1 l2 2 = l2"
  by (simp_all add: both_def)

abbreviation app_state :: "nat \<Rightarrow> procstate \<Rightarrow> procstate \<Rightarrow> nat option \<Rightarrow> u32 \<Rightarrow> u32 \<Rightarrow> console \<Rightarrow> app_locals \<Rightarrow> app_locals
    \<Rightarrow> (app_locals, unit) machine \<Rightarrow> bool" where
  "app_state c st1 st2 q e1 e2 con l1 l2 \<equiv> is_at (app_view c st1 st2 q e1 e2 con) (both l1 l2) ()"

lemma app_getpid_1:
  assumes "mpos_app e1 l1 () con = Some (Trap INT_SYS_GETPID None l, (), con')"
  shows "leads cpu mpos_app (app_state 1 st1 st2 q e1 e2 con l1 l2) (app_state 1 st1 st2 q 1 e2 con' l l2)"
  by (rule leads_to [OF leads_getpid [where c = 1 and a = None and l = l and con = con']])
     (use assms in \<open>auto simp: agree_def app_view_def both_def\<close>)

lemma app_getpid_2:
  assumes "mpos_app e2 l2 () con = Some (Trap INT_SYS_GETPID None l, (), con')"
  shows "leads cpu mpos_app (app_state 2 st1 st2 q e1 e2 con l1 l2) (app_state 2 st1 st2 q e1 2 con' l1 l)"
  by (rule leads_to [OF leads_getpid [where c = 2 and a = None and l = l and con = con']])
     (use assms in \<open>auto simp: agree_def app_view_def both_def\<close>)

lemma app_fork:
  assumes "mpos_app e1 l1 () con = Some (Trap INT_SYS_FORK None l, (), con')"
  shows "leads cpu mpos_app (app_state 1 st1 P_EMPTY q e1 e2 con l1 l2) (app_state 1 st1 P_RUNNABLE q 2 0 con' l l)"
  by (rule leads_to [OF leads_fork [where c = 1 and d = 2 and a = None and l = l and con = con']])
     (use assms in \<open>auto simp: agree_def app_view_def both_def\<close>)

lemma app_wait:
  assumes "mpos_app e1 l1 () con = Some (Trap INT_SYS_WAIT (Some 2) l, (), con')"
  shows "leads cpu mpos_app (app_state 1 P_RUNNABLE P_RUNNABLE q e1 e2 con l1 l2)
    (app_state 2 P_BLOCKED P_RUNNABLE (Some 1) 2 e2 con' l l2)"
  by (rule leads_to [OF leads_wait_blocks [where c = 1 and p = 2 and l = l and con = con' and r = 2]])
     (use assms in \<open>auto simp: agree_def app_view_def both_def next_up_def\<close>)

lemma app_yield:
  assumes "mpos_app e2 l2 () con = Some (Trap INT_SYS_YIELD None l, (), con')"
  shows "leads cpu mpos_app (app_state 2 P_BLOCKED P_RUNNABLE q e1 e2 con l1 l2)
    (\<lambda>s. \<exists>e. app_state 2 P_BLOCKED P_RUNNABLE q e1 e con' l1 l s)"
proof -
  have "leads cpu mpos_app (app_state 2 P_BLOCKED P_RUNNABLE q e1 e2 con l1 l2)
      (\<lambda>s. \<exists>e. is_at ((app_view 2 P_BLOCKED P_RUNNABLE q e1 e2 con)\<lparr>v_screen := con',
        v_eax := (v_eax (app_view 2 P_BLOCKED P_RUNNABLE q e1 e2 con))(2 := e), v_cur := 2\<rparr>) ((both l1 l2)(2 := l)) () s)"
    by (rule leads_yield [where a = None]) (use assms in \<open>auto simp: next_up_def\<close>)
  moreover have "leads cpu mpos_app \<dots> (\<lambda>s. \<exists>e. app_state 2 P_BLOCKED P_RUNNABLE q e1 e con' l1 l s)"
    by (intro leads_refl, elim exE, rule exI, erule is_at_cong) (auto simp: agree_def app_view_def both_def)
  ultimately show ?thesis by (rule leads_trans)
qed

lemma app_exit:
  assumes "mpos_app e2 l2 () con = Some (Trap INT_SYS_EXIT (Some e) l, (), con')"
  shows "leads cpu mpos_app (app_state 2 P_BLOCKED P_RUNNABLE (Some 1) e1 e2 con l1 l2)
    (app_state 1 P_RUNNABLE P_EMPTY (Some 1) e e con' l1 l)"
  by (rule leads_to [OF leads_exit [where c = 2 and e = e and l = l and con = con' and r = 1]])
     (use assms in \<open>auto simp: agree_def app_view_def both_def next_up_def v_exit_def\<close>)

text \<open>The twenty yields of the child.\<close>

lemma app_yields:
  "leads cpu mpos_app (\<lambda>s. \<exists>e. app_state 2 P_BLOCKED P_RUNNABLE q e1 e con l1 (locals Yielded p st ck 0 x) s)
     (\<lambda>s. \<exists>e. app_state 2 P_BLOCKED P_RUNNABLE q e1 e con l1 (locals Yielded p st ck 19 x) s)"
proof (rule leads_iterate [where P = "\<lambda>i s. \<exists>e. app_state 2 P_BLOCKED P_RUNNABLE q e1 e con l1 (locals Yielded p st ck i x) s"])
  fix i :: nat assume "i < 19"
  then have "mpos_app e (locals Yielded p st ck i x) () con = Some (Trap INT_SYS_YIELD None (locals Yielded p st ck (Suc i) x), (), con)" for e
    by (simp add: mpos_app_defs locals_def)
  from app_yield [OF this] show "leads cpu mpos_app (\<lambda>s. \<exists>e. app_state 2 P_BLOCKED P_RUNNABLE q e1 e con l1 (locals Yielded p st ck i x) s)
     (\<lambda>s. \<exists>e. app_state 2 P_BLOCKED P_RUNNABLE q e1 e con l1 (locals Yielded p st ck (Suc i) x) s)"
    unfolding leads_def by blast
qed

text \<open>The screen after each of the four lines.\<close>

definition app_lines :: "console \<Rightarrow> console list" where
  "app_lines con0 =
     (let con1 = line 1 (chars ''About to start a new process...'') con0;
          con2 = line 1 (chars ''Main process '' @ decimal 1 @ chars ''!'') con1;
          con3 = line 2 (chars ''Child process '' @ decimal 2 @ chars ''!'') con2;
          con4 = line 1 (chars ''Child '' @ decimal 2 @ chars '' exited with status '' @ decimal 1000 @ chars ''!'') con3
      in [con1, con2, con3, con4])"

lemma app_parent_starts:
  "leads cpu mpos_app (app_state 1 P_RUNNABLE P_EMPTY None 0 e2 con0 app_entry l2)
     (app_state 2 P_BLOCKED P_RUNNABLE (Some 1) 2 0 (app_lines con0 ! 1) (locals Waited 2 0 0 0 1) (locals Forked 0 0 0 0 0))"
proof -
  let ?con1 = "app_lines con0 ! 0" and ?con2 = "app_lines con0 ! 1"
  have "leads cpu mpos_app (app_state 1 P_RUNNABLE P_EMPTY None 0 e2 con0 app_entry l2)
      (app_state 1 P_RUNNABLE P_EMPTY None 1 e2 con0 (locals Hello_color 0 0 0 0 0) l2)"
    by (rule app_getpid_1) (simp add: mpos_app_defs app_entry_def locals_def)
  also have "leads cpu mpos_app \<dots> (app_state 1 P_RUNNABLE P_RUNNABLE None 2 0 ?con1 (locals Forked 0 0 0 0 0) (locals Forked 0 0 0 0 0))"
    by (rule app_fork) (use app_hello [of 1 con0] in \<open>simp add: mpos_app_defs locals_def app_lines_def Let_def\<close>)
  also have "leads cpu mpos_app \<dots> (app_state 1 P_RUNNABLE P_RUNNABLE None 1 0 ?con1 (locals Main_arg 2 0 0 0 0) (locals Forked 0 0 0 0 0))"
    by (rule app_getpid_1) (simp add: mpos_app_defs locals_def)
  also have "leads cpu mpos_app \<dots> (app_state 1 P_RUNNABLE P_RUNNABLE None 1 0 ?con1 (locals Main_color 2 0 0 0 1) (locals Forked 0 0 0 0 0))"
    by (rule app_getpid_1) (simp add: mpos_app_defs locals_def)
  also have "leads cpu mpos_app \<dots>
      (app_state 2 P_BLOCKED P_RUNNABLE (Some 1) 2 0 ?con2 (locals Waited 2 0 0 0 1) (locals Forked 0 0 0 0 0))"
    by (rule app_wait) (use app_main [of 1 1 ?con1] in \<open>simp add: mpos_app_defs locals_def app_lines_def Let_def\<close>)
  finally show ?thesis .
qed

lemma app_child_runs:
  "leads cpu mpos_app (app_state 2 P_BLOCKED P_RUNNABLE (Some 1) 2 0 (app_lines con0 ! 1) l1 (locals Forked 0 0 0 0 0))
     (app_state 1 P_RUNNABLE P_EMPTY (Some 1) 1000 1000 (app_lines con0 ! 2) l1 (locals Exited 0 0 1 20 2))"
proof -
  let ?con2 = "app_lines con0 ! 1" and ?con3 = "app_lines con0 ! 2"
  have "leads cpu mpos_app (app_state 2 P_BLOCKED P_RUNNABLE (Some 1) 2 0 ?con2 l1 (locals Forked 0 0 0 0 0))
      (app_state 2 P_BLOCKED P_RUNNABLE (Some 1) 2 2 ?con2 l1 (locals Child_arg 0 0 1 0 0))"
    by (rule app_getpid_2) (simp add: mpos_app_defs locals_def)
  also have "leads cpu mpos_app \<dots> (app_state 2 P_BLOCKED P_RUNNABLE (Some 1) 2 2 ?con2 l1 (locals Child_color 0 0 1 0 2))"
    by (rule app_getpid_2) (simp add: mpos_app_defs locals_def)
  also have "leads cpu mpos_app \<dots> (\<lambda>s. \<exists>e. app_state 2 P_BLOCKED P_RUNNABLE (Some 1) 2 e ?con3 l1 (locals Yielded 0 0 1 0 2) s)"
    by (rule app_yield) (use app_child [of 2 2 ?con2] in \<open>simp add: mpos_app_defs locals_def app_lines_def Let_def\<close>)
  also have "leads cpu mpos_app \<dots> (\<lambda>s. \<exists>e. app_state 2 P_BLOCKED P_RUNNABLE (Some 1) 2 e ?con3 l1 (locals Yielded 0 0 1 19 2) s)"
    by (rule app_yields)
  also have "leads cpu mpos_app \<dots> (app_state 1 P_RUNNABLE P_EMPTY (Some 1) 1000 1000 ?con3 l1 (locals Exited 0 0 1 20 2))"
  proof -
    have "mpos_app e (locals Yielded 0 0 1 19 2) () ?con3 = Some (Trap INT_SYS_EXIT (Some 1000) (locals Exited 0 0 1 20 2), (), ?con3)" for e
      by (simp add: mpos_app_defs locals_def)
    from app_exit [OF this] show ?thesis unfolding leads_def by blast
  qed
  finally show ?thesis .
qed

text \<open>C29: Booted with the first application, MiniprocOS runs it to its end, whatever the compiler keeps in the
  other registers and in the memory: the main process forks, the child runs with a variable \<open>checker\<close> of its
  own, yields twenty times and exits, the blocked main process is woken with the exit status, and
  the screen has exactly the four lines of both processes in this order, each in the colour of its process and with the
  process number and the status 1000. Then no process is left and the kernel idles.\<close>

theorem mpos_app_runs:
  assumes "start ramimages keyboard con m = Run k"
  shows "\<exists>s. run_machine cpu mpos_app (boot_machine app_entry () k) = Some (Spin, s)
    \<and> screen (kernel s) =
        line 1 (chars ''Child '' @ decimal 2 @ chars '' exited with status '' @ decimal 1000 @ chars ''!'')
         (line 2 (chars ''Child process '' @ decimal 2 @ chars ''!'')
           (line 1 (chars ''Main process '' @ decimal 1 @ chars ''!'')
             (line 1 (chars ''About to start a new process...'') (screen k))))"
proof -
  let ?con0 = "screen k" and ?con3 = "app_lines (screen k) ! 2" and ?con4 = "app_lines (screen k) ! 3"
  let ?last = "app_state 1 P_RUNNABLE P_EMPTY (Some 1) 1 1000 ?con3 (locals Status_color 2 1000 0 0 1) (locals Exited 0 0 1 20 2)"
  have "leads cpu mpos_app (app_state 1 P_RUNNABLE P_EMPTY None 0 0 ?con0 app_entry app_entry)
      (app_state 1 P_RUNNABLE P_EMPTY (Some 1) 1000 1000 ?con3 (locals Waited 2 0 0 0 1) (locals Exited 0 0 1 20 2))"
    by (rule leads_trans [OF app_parent_starts app_child_runs])
  also have "leads cpu mpos_app \<dots> ?last"
    by (rule app_getpid_1) (simp add: mpos_app_defs locals_def)
  finally have run: "leads cpu mpos_app (app_state 1 P_RUNNABLE P_EMPTY None 0 0 ?con0 app_entry app_entry) ?last" .
  have boot: "app_state 1 P_RUNNABLE P_EMPTY None 0 0 ?con0 app_entry app_entry (boot_machine app_entry () k)"
    by (rule is_at_cong [OF boot_is_at [OF assms]]) (auto simp: agree_def boot_view_def app_view_def both_def)
  have "\<exists>s'. run_machine cpu mpos_app (boot_machine app_entry () k) = Some (Spin, s') \<and> screen (kernel s') = ?con4"
  proof (rule run_machine_leads [OF run boot])
    fix s assume s: "?last s"
    have "mpos_app 1 (locals Status_color 2 1000 0 0 1) () ?con3 = Some (Trap INT_SYS_EXIT (Some 0) (locals Exited 2 1000 0 0 1), (), ?con4)"
      using app_status [of 2 1000 1 ?con3] by (simp add: mpos_app_defs locals_def app_lines_def Let_def)
    then show "\<exists>s'. machine_step cpu mpos_app s = Halt Spin s' \<and> screen (kernel s') = ?con4"
      using exit_halts [OF s, where prog = mpos_app and c = 1 and e = 0] by (force simp: v_exit_def)
  qed
  then show ?thesis by (simp add: app_lines_def Let_def)
qed

theorem mpos_app_runs_witness:
  "\<exists>s. run_machine (\<lambda>_. (zero_registers, boot_mem)) mpos_app (boot_machine app_entry () booted) = Some (Spin, s)"
  using mpos_app_runs [OF start_booted, of "\<lambda>_. (zero_registers, boot_mem)"] by blast

end
