(* ===== verification/MposApp2Props.thy ===== *)
theory MposApp2Props
  imports MposAppProps
begin

text \<open>
  The second application: it starts 1025 processes in rounds of fourteen, as many as the kernel has
  descriptors for, and each of them prints its number and the value of the shared counter.
\<close>

section \<open>The phases of a round\<close>

text \<open>A stale pointer to a waiter can only be to the main process.\<close>

definition queues_ok :: "kview \<Rightarrow> bool" where
  "queues_ok v \<longleftrightarrow> v_queue v 1 = None \<and> (\<forall>i < 16. v_queue v i = None \<or> v_queue v i = Some 1)"

text \<open>\<open>c\<close> processes have printed before this round, and \<open>j\<close> have been forked in it.\<close>

definition forked :: "nat \<Rightarrow> nat \<Rightarrow> console \<Rightarrow> (app2_locals, int) machine \<Rightarrow> bool" where
  "forked c j con s \<longleftrightarrow> (\<exists>v f g l. is_at v f g s \<and> v_cur v = 1 \<and> v_screen v = con
     \<and> (\<forall>i < 16. v_state v i = (if i = 1 \<or> 2 \<le> i \<and> i < j + 2 then P_RUNNABLE else P_EMPTY)) \<and> queues_ok v
     \<and> (\<forall>i. 2 \<le> i \<and> i < j + 2 \<longrightarrow> v_eax v i = 0 \<and> at2 (f i) = Forked2)
     \<and> n_started l = int j \<and> mpos_app2 (v_eax v 1) (f 1) g con = app2_inner l (int c) con)"

text \<open>The main process has waited for process 2, and \<open>j\<close> of the \<open>m\<close> children have exited.\<close>

definition exited :: "nat \<Rightarrow> nat \<Rightarrow> nat \<Rightarrow> console \<Rightarrow> (app2_locals, int) machine \<Rightarrow> bool" where
  "exited c m j con s \<longleftrightarrow> (\<exists>v f. is_at v f (int (c + j)) s \<and> v_cur v = (if j < m then j + 2 else 1) \<and> v_screen v = con
     \<and> (\<forall>i < 16. v_state v i = (if i = 1 then (if j = 0 then P_BLOCKED else P_RUNNABLE)
          else if j + 2 \<le> i \<and> i < m + 2 then P_RUNNABLE else P_EMPTY)) \<and> queues_ok v \<and> v_queue v 2 = Some 1
     \<and> (\<forall>i. j + 2 \<le> i \<and> i < m + 2 \<longrightarrow> v_eax v i = 0 \<and> at2 (f i) = Forked2) \<and> at2 (f 1) = Waited2 \<and> l2_p (f 1) = 2)"

text \<open>Only the main process is left, at the return of its wait for process \<open>p\<close>.\<close>

definition waited :: "nat \<Rightarrow> nat \<Rightarrow> console \<Rightarrow> (app2_locals, int) machine \<Rightarrow> bool" where
  "waited c p con s \<longleftrightarrow> (\<exists>v f. is_at v f (int c) s \<and> v_cur v = 1 \<and> v_screen v = con
     \<and> (\<forall>i < 16. v_state v i = (if i = 1 then P_RUNNABLE else P_EMPTY)) \<and> queues_ok v
     \<and> at2 (f 1) = Waited2 \<and> l2_p (f 1) = p)"

lemma leads_all: "(\<And>s. P s \<Longrightarrow> \<exists>P'. P' s \<and> leads cpu prog P' Q) \<Longrightarrow> leads cpu prog P Q"
  unfolding leads_def by blast

lemma leads_weaken: "leads cpu prog P Q \<Longrightarrow> (\<And>s. Q s \<Longrightarrow> R s) \<Longrightarrow> leads cpu prog P R"
  unfolding leads_def by blast

lemma sint_small_u32: "n < 16 \<Longrightarrow> sint (of_nat n :: u32) = int n"
  by (rule sint_small)

lemma fork_one:
  assumes "j < 14" "c + j < 1025"
  shows "leads cpu mpos_app2 (forked c j con) (forked c (Suc j) con)"
proof (rule leads_all)
  fix s assume "forked c j con s"
  then obtain v f g l where s: "is_at v f g s" "v_cur v = 1" "v_screen v = con"
    "\<forall>i < 16. v_state v i = (if i = 1 \<or> 2 \<le> i \<and> i < j + 2 then P_RUNNABLE else P_EMPTY)" "queues_ok v"
    "\<forall>i. 2 \<le> i \<and> i < j + 2 \<longrightarrow> v_eax v i = 0 \<and> at2 (f i) = Forked2" "n_started l = int j"
    "mpos_app2 (v_eax v 1) (f 1) g con = app2_inner l (int c) con"
    unfolding forked_def by blast
  let ?d = "j + 2" and ?l = "l\<lparr>at2 := Forked2\<rparr>"
  let ?v = "v\<lparr>v_screen := con, v_state := (v_state v)(?d := P_RUNNABLE), v_eax := (v_eax v)(?d := 0, 1 := of_nat ?d)\<rparr>"
  have "leads cpu mpos_app2 (is_at v f g) (is_at ?v (f(1 := ?l, ?d := ?l)) (int c))"
    by (rule leads_fork [where a = None]) (use s assms in \<open>auto simp: app2_inner_def\<close>)
  then have "leads cpu mpos_app2 (is_at v f g) (forked c (Suc j) con)"
  proof (rule leads_weaken)
    fix t assume t: "is_at ?v (f(1 := ?l, ?d := ?l)) (int c) t"
    have d: "sint (of_nat ?d :: u32) = int ?d" using assms(1) by (intro sint_small_u32) simp
    then have "(of_nat ?d :: u32) \<noteq> 0" by auto
    then have "mpos_app2 (of_nat ?d) ?l (int c) con = app2_inner (?l\<lparr>n_started := int (Suc j)\<rparr>) (int c) con"
      using d s(7) by (simp add: mpos_app2_defs add.commute)
    then show "forked c (Suc j) con t"
      unfolding forked_def using t s assms
      by (intro exI [of _ ?v] exI [of _ "f(1 := ?l, ?d := ?l)"] exI [of _ "int c"] exI [of _ "?l\<lparr>n_started := int (Suc j)\<rparr>"])
         (auto simp: queues_ok_def)
  qed
  then show "\<exists>P'. P' s \<and> leads cpu mpos_app2 P' (forked c (Suc j) con)" using s(1) by blast
qed

text \<open>The inner loop ends, and the main process waits for process 2.\<close>

lemma collect_blocks:
  assumes m: "0 < m" "m \<le> 14"
    and v: "v_cur v = 1" "\<forall>i < 16. v_state v i = (if i = 1 \<or> 2 \<le> i \<and> i < m + 2 then P_RUNNABLE else P_EMPTY)" "queues_ok v"
      "\<forall>i. 2 \<le> i \<and> i < m + 2 \<longrightarrow> v_eax v i = 0 \<and> at2 (f i) = Forked2"
    and l: "n_started l = int m" "mpos_app2 (v_eax v 1) (f 1) g (v_screen v) = app2_collect l (int c) (v_screen v)"
  shows "leads cpu mpos_app2 (is_at v f g) (exited c m 0 (v_screen v))"
proof -
  let ?l = "l\<lparr>l2_p := 2, at2 := Waited2\<rparr>"
  let ?v = "v\<lparr>v_screen := v_screen v, v_state := (v_state v)(1 := P_BLOCKED), v_queue := (v_queue v)(2 := Some 1),
    v_eax := (v_eax v)(1 := of_nat 2), v_cur := 2\<rparr>"
  have "leads cpu mpos_app2 (is_at v f g) (is_at ?v (f(1 := ?l)) (int c))"
    by (rule leads_wait_blocks [where p = 2]) (use v l m in \<open>auto simp: app2_collect_def next_up_def\<close>)
  then show ?thesis
  proof (rule leads_weaken)
    fix t assume t: "is_at ?v (f(1 := ?l)) (int c) t"
    show "exited c m 0 (v_screen v) t"
      unfolding exited_def using t v m
      by (intro exI [of _ ?v] exI [of _ "f(1 := ?l)"]) (auto simp: queues_ok_def)
  qed
qed

lemma forks_end:
  assumes m: "0 < m" "m \<le> 14" "m = 14 \<or> c + m = 1025" "c + m \<le> 1025"
  shows "leads cpu mpos_app2 (forked c m con) (exited c m 0 con)"
proof (rule leads_all)
  fix s assume "forked c m con s"
  then obtain v f g l where s: "is_at v f g s" "v_cur v = 1" "v_screen v = con"
    "\<forall>i < 16. v_state v i = (if i = 1 \<or> 2 \<le> i \<and> i < m + 2 then P_RUNNABLE else P_EMPTY)" "queues_ok v"
    "\<forall>i. 2 \<le> i \<and> i < m + 2 \<longrightarrow> v_eax v i = 0 \<and> at2 (f i) = Forked2" "n_started l = int m"
    "mpos_app2 (v_eax v 1) (f 1) g con = app2_inner l (int c) con"
    unfolding forked_def by blast
  have "leads cpu mpos_app2 (is_at v f g) (exited c m 0 con)"
  proof (cases "c + m = 1025")
    case True
    then have "app2_inner l (int c) con = app2_collect l (int c) con" using s(7) by (simp add: app2_inner_def)
    then show ?thesis using collect_blocks [OF m(1,2) s(2,4,5,6,7), of g c cpu] s(3,8) by simp
  next
    case False
    then have m14: "m = 14" "c + 14 < 1025" using m by auto
    let ?l = "l\<lparr>at2 := Forked2\<rparr>" and ?v = "v\<lparr>v_screen := con, v_eax := (v_eax v)(1 := -1)\<rparr>"
    have "leads cpu mpos_app2 (is_at v f g) (is_at ?v (f(1 := ?l)) (int c))"
      by (rule leads_fork_full [where a = None]) (use s m14 in \<open>auto simp: app2_inner_def\<close>)
    also have "leads cpu mpos_app2 \<dots> (exited c m 0 (v_screen ?v))"
    proof (rule collect_blocks [where l = ?l])
      have "sint (-1 :: u32) = -1" by simp
      then show "mpos_app2 (v_eax ?v 1) ((f(1 := ?l)) 1) (int c) (v_screen ?v) = app2_collect ?l (int c) (v_screen ?v)"
        by (simp add: mpos_app2_defs)
    qed (use s m in \<open>auto simp: queues_ok_def\<close>)
    finally show ?thesis by simp
  qed
  then show "\<exists>P'. P' s \<and> leads cpu mpos_app2 P' (exited c m 0 con)" using s(1) by blast
qed

text \<open>The line of a process.\<close>

definition lives :: "nat \<Rightarrow> nat \<Rightarrow> console \<Rightarrow> console" where
  "lives pid n = line pid (chars ''Process '' @ decimal pid @ chars '' lives, counter '' @ decimal n @ chars ''!'')"

text \<open>A child runs from its first instruction to its exit.\<close>

lemma child_runs:
  assumes j: "j < m" "m \<le> 14" "c + j < 1025"
  shows "leads cpu mpos_app2 (exited c m j con) (exited c m (Suc j) (lives (j + 2) (c + j) con))"
proof (rule leads_all)
  fix s assume "exited c m j con s"
  then obtain v f where s: "is_at v f (int (c + j)) s" "v_cur v = j + 2" "v_screen v = con"
    "\<forall>i < 16. v_state v i = (if i = 1 then (if j = 0 then P_BLOCKED else P_RUNNABLE)
          else if j + 2 \<le> i \<and> i < m + 2 then P_RUNNABLE else P_EMPTY)" "queues_ok v" "v_queue v 2 = Some 1"
    "\<forall>i. j + 2 \<le> i \<and> i < m + 2 \<longrightarrow> v_eax v i = 0 \<and> at2 (f i) = Forked2" "at2 (f 1) = Waited2" "l2_p (f 1) = 2"
    unfolding exited_def using j(1) by auto
  have q: "v_queue v (j + 2) = None \<or> v_queue v (j + 2) = Some 1" "j = 0 \<longrightarrow> v_queue v (j + 2) = Some 1"
    using s(5) j s(6) by (simp add: queues_ok_def, metis add_0)
  then have q': "v_queue v (j + 2) = None \<longrightarrow> 0 < j" by (metis neq0_conv option.distinct(1))
  let ?d = "j + 2" and ?n = "c + j" and ?con = "lives (j + 2) (c + j) con"
  let ?l1 = "(f ?d)\<lparr>input_counter := int ?n, at2 := Child_arg2\<rparr>"
  let ?l2 = "?l1\<lparr>arg2 := of_nat ?d, at2 := Child_color2\<rparr>" and ?l3 = "?l1\<lparr>arg2 := of_nat ?d, at2 := Exited2\<rparr>"
  let ?v1 = "v\<lparr>v_screen := con, v_eax := (v_eax v)(?d := of_nat ?d)\<rparr>"
  let ?g = "int (c + Suc j)" and ?e = "of_int (int ?n) :: u32" and ?r = "if Suc j < m then Suc j + 2 else 1"
  have "leads cpu mpos_app2 (is_at v f (int ?n)) (is_at ?v1 (f(?d := ?l1)) ?g)"
    by (rule leads_getpid [where a = None]) (use s j in \<open>auto simp: mpos_app2_defs\<close>)
  also have "leads cpu mpos_app2 \<dots> (is_at ?v1 (f(?d := ?l2)) ?g)"
    by (rule leads_to [OF leads_getpid [where c = ?d and a = None and l = ?l2 and con = con]])
       (use s j in \<open>auto simp: mpos_app2_defs agree_def\<close>)
  also have "leads cpu mpos_app2 \<dots> (is_at ((v_exit ?e (?v1\<lparr>v_screen := ?con\<rparr>))\<lparr>v_cur := ?r\<rparr>) ((f(?d := ?l2))(?d := ?l3)) ?g)"
  proof (rule leads_exit)
    have "mpos_app2 (of_nat ?d) ?l2 ?g con = Some (Trap INT_SYS_EXIT (Some ?e) ?l3, ?g, ?con)"
      using app_lives [of ?d ?n ?d con] j by (simp add: mpos_app2_defs lives_def)
    then show "mpos_app2 (v_eax ?v1 ?d) ((f(?d := ?l2)) ?d) ?g (v_screen ?v1) = Some (Trap INT_SYS_EXIT (Some ?e) ?l3, ?g, ?con)"
      by simp
    show "next_up (v_state (v_exit ?e ?v1)) ?d ?r"
      using q q' s(2,4) j by (auto simp: v_exit_def next_up_def)
  qed (use s in simp)
  finally have run: "leads cpu mpos_app2 (is_at v f (int ?n))
      (is_at ((v_exit ?e (?v1\<lparr>v_screen := ?con\<rparr>))\<lparr>v_cur := ?r\<rparr>) (f(?d := ?l3)) ?g)" by simp
  have "leads cpu mpos_app2 (is_at v f (int ?n)) (exited c m (Suc j) ?con)"
  proof (rule leads_weaken [OF run])
    let ?w = "(v_exit ?e (?v1\<lparr>v_screen := ?con\<rparr>))\<lparr>v_cur := ?r\<rparr>"
    fix t assume t: "is_at ?w (f(?d := ?l3)) ?g t"
    have "\<forall>i < 16. v_state ?w i = (if i = 1 then P_RUNNABLE else if Suc j + 2 \<le> i \<and> i < m + 2 then P_RUNNABLE else P_EMPTY)"
      using q q' s(2,4) by (auto simp: v_exit_def)
    moreover have "queues_ok ?w" "v_queue ?w 2 = Some 1" "v_screen ?w = ?con" "v_cur ?w = ?r"
      using s(5,6) by (simp_all add: queues_ok_def)
    moreover have "\<forall>i. Suc j + 2 \<le> i \<and> i < m + 2 \<longrightarrow> v_eax ?w i = 0 \<and> at2 ((f(?d := ?l3)) i) = Forked2"
      using q s(2,7) by (auto simp: v_exit_def)
    ultimately show "exited c m (Suc j) ?con t"
      unfolding exited_def using t s(8,9)
      by (intro exI [of _ ?w] exI [of _ "f(?d := ?l3)"]) simp
  qed
  then show "\<exists>P'. P' s \<and> leads cpu mpos_app2 P' (exited c m (Suc j) ?con)" using s(1) by blast
qed

text \<open>The main process then asks for the processes that are gone.\<close>

lemma wait_one:
  assumes "2 \<le> p" "p < 15"
  shows "leads cpu mpos_app2 (waited c p con) (waited c (Suc p) con)"
proof (rule leads_all)
  fix s assume "waited c p con s"
  then obtain v f where s: "is_at v f (int c) s" "v_cur v = 1" "v_screen v = con"
    "\<forall>i < 16. v_state v i = (if i = 1 then P_RUNNABLE else P_EMPTY)" "queues_ok v" "at2 (f 1) = Waited2" "l2_p (f 1) = p"
    unfolding waited_def by blast
  let ?l = "(f 1)\<lparr>l2_p := Suc p\<rparr>" and ?v = "v\<lparr>v_screen := con, v_eax := (v_eax v)(1 := -1), v_cur := 1\<rparr>"
  have "leads cpu mpos_app2 (is_at v f (int c)) (is_at ?v (f(1 := ?l)) (int c))"
    by (rule leads_wait_refused [where p = "Suc p"])
       (use s assms in \<open>auto simp: mpos_app2_defs intro!: next_up_self\<close>)
  then have "leads cpu mpos_app2 (is_at v f (int c)) (waited c (Suc p) con)"
  proof (rule leads_weaken)
    fix t assume t: "is_at ?v (f(1 := ?l)) (int c) t"
    show "waited c (Suc p) con t"
      unfolding waited_def using t s by (intro exI [of _ ?v] exI [of _ "f(1 := ?l)"]) (simp add: queues_ok_def)
  qed
  then show "\<exists>P'. P' s \<and> leads cpu mpos_app2 P' (waited c (Suc p) con)" using s(1) by blast
qed

lemma waits_end: "leads cpu mpos_app2 (waited c 2 con) (waited c 15 con)"
proof -
  have "leads cpu mpos_app2 (waited c (2 + i) con) (waited c (2 + Suc i) con)" if "i < 13" for i
    using wait_one [of "2 + i"] that by simp
  from leads_iterate [of 13 cpu mpos_app2 "\<lambda>i. waited c (2 + i) con", OF this] show ?thesis by simp
qed

section \<open>Rounds\<close>

definition all_live :: "nat \<Rightarrow> nat \<Rightarrow> console \<Rightarrow> console" where
  "all_live c n = fold (\<lambda>i. lives (2 + i mod 14) i) [c..<c + n]"

lemma exited_all:
  assumes "exited c m m con s" "0 < m"
  shows "waited (c + m) 2 con s"
proof -
  obtain v f where s: "is_at v f (int (c + m)) s" "v_cur v = 1" "v_screen v = con"
    "\<forall>i < 16. v_state v i = (if i = 1 then P_RUNNABLE else if m + 2 \<le> i \<and> i < m + 2 then P_RUNNABLE else P_EMPTY)"
    "queues_ok v" "at2 (f 1) = Waited2" "l2_p (f 1) = 2"
    using assms unfolding exited_def by auto
  then show ?thesis unfolding waited_def by (intro exI [of _ v] exI [of _ f]) simp
qed

lemma one_round:
  assumes m: "0 < m" "m \<le> 14" "m = 14 \<or> c + m = 1025" "c + m \<le> 1025" and c: "c mod 14 = 0"
  shows "leads cpu mpos_app2 (forked c 0 con) (waited (c + m) 15 (all_live c m con))"
proof -
  have "leads cpu mpos_app2 (forked c 0 con) (forked c m con)"
    by (rule leads_iterate [where P = "\<lambda>j. forked c j con"]) (use m in \<open>intro fork_one; simp\<close>)
  also have "leads cpu mpos_app2 \<dots> (exited c m 0 con)" by (rule forks_end [OF m])
  also have "leads cpu mpos_app2 \<dots> (exited c m m (all_live c m con))"
  proof -
    have "leads cpu mpos_app2 (exited c m j (all_live c j con)) (exited c m (Suc j) (all_live c (Suc j) con))" if "j < m" for j
    proof -
      have "(c + j) mod 14 = j" using c that m(2) by (metis add.left_neutral mod_add_left_eq mod_less order_less_le_trans)
      then have "all_live c (Suc j) con = lives (j + 2) (c + j) (all_live c j con)" by (simp add: all_live_def)
      then show ?thesis using child_runs [of j m c cpu "all_live c j con"] that m by simp
    qed
    from leads_iterate [of m cpu mpos_app2 "\<lambda>j. exited c m j (all_live c j con)", OF this] show ?thesis
      by (simp add: all_live_def)
  qed
  also have "leads cpu mpos_app2 \<dots> (waited (c + m) 2 (all_live c m con))"
    by (rule leads_refl) (rule exited_all [OF _ m(1)])
  also have "leads cpu mpos_app2 \<dots> (waited (c + m) 15 (all_live c m con))" by (rule waits_end)
  finally show ?thesis .
qed

lemma next_round: "c < 1025 \<Longrightarrow> leads cpu mpos_app2 (waited c 15 con) (forked c 0 con)"
proof (rule leads_refl)
  fix s assume c: "c < 1025" and "waited c 15 con s"
  then obtain v f where s: "is_at v f (int c) s" "v_cur v = 1" "v_screen v = con"
    "\<forall>i < 16. v_state v i = (if i = 1 then P_RUNNABLE else P_EMPTY)" "queues_ok v" "at2 (f 1) = Waited2" "l2_p (f 1) = 15"
    unfolding waited_def by blast
  have "mpos_app2 (v_eax v 1) (f 1) (int c) con = app2_inner ((f 1)\<lparr>n_started := 0\<rparr>) (int c) con"
    using s(6,7) c by (simp add: mpos_app2_defs app2_outer_def)
  then show "forked c 0 con s"
    unfolding forked_def using s by (intro exI [of _ v] exI [of _ f] exI [of _ "int c"] exI [of _ "(f 1)\<lparr>n_started := 0\<rparr>"]) auto
qed

lemma all_live_append: "all_live c (m + n) con = all_live (c + m) n (all_live c m con)"
proof -
  have "[c..<c + (m + n)] = [c..<c + m] @ [c + m..<c + m + n]"
    using upt_add_eq_append [of c "c + m" n] by (simp add: add.assoc)
  then show ?thesis by (simp add: all_live_def)
qed

lemma rounds: "r \<le> 73 \<Longrightarrow> leads cpu mpos_app2 (forked 0 0 con) (forked (14 * r) 0 (all_live 0 (14 * r) con))"
proof (induction r)
  case 0
  then show ?case by (intro leads_refl) (simp add: all_live_def)
next
  case (Suc r)
  let ?con = "all_live 0 (14 * r) con"
  have "leads cpu mpos_app2 (forked 0 0 con) (forked (14 * r) 0 ?con)" using Suc by simp
  also have "leads cpu mpos_app2 \<dots> (waited (14 * r + 14) 15 (all_live (14 * r) 14 ?con))"
    by (rule one_round) (use Suc.prems in simp_all)
  also have "leads cpu mpos_app2 \<dots> (forked (14 * r + 14) 0 (all_live (14 * r) 14 ?con))"
    by (rule next_round) (use Suc.prems in simp)
  finally show ?case using all_live_append [of 0 "14 * r" 14 con] by (simp add: add.commute)
qed

text \<open>C10: Booted with the second application, MiniprocOS runs it to its end: the main process starts as many
  processes as there are descriptors, waits for them, and goes on until 1025 processes have been
  started, although the descriptors are reused and keep stale pointers to an earlier waiter. Every process prints exactly one
  line, in the order of the shared counter, which takes each value from 0 to 1024 once; the process numbers
  go round from 2 to 15. In the end the counter is 1025, no process is left, and the kernel idles.\<close>

theorem mpos_app2_runs:
  assumes "start ramimages keyboard con m = Run k"
  shows "\<exists>s. run_machine cpu mpos_app2 (boot_machine app2_entry n k) = Some (Spin, s) \<and> globals s = 1025
    \<and> screen (kernel s) = fold (\<lambda>i. lives (2 + i mod 14) i) [0..<1025] (screen k)"
proof -
  let ?con = "all_live 0 1025 (screen k)"
  have "leads cpu mpos_app2 (forked 0 0 (screen k)) (forked (14 * 73) 0 (all_live 0 (14 * 73) (screen k)))"
    by (rule rounds) simp
  also have "leads cpu mpos_app2 \<dots> (waited (14 * 73 + 3) 15 (all_live (14 * 73) 3 (all_live 0 (14 * 73) (screen k))))"
    by (rule one_round) simp_all
  also have "all_live (14 * 73) 3 (all_live 0 (14 * 73) (screen k)) = ?con"
    using all_live_append [of 0 "14 * 73" 3 "screen k"] by simp
  finally have run: "leads cpu mpos_app2 (forked 0 0 (screen k)) (waited 1025 15 ?con)" by simp
  have e: "mpos_app2 0 app2_entry n con = app2_inner (app2_entry\<lparr>n_started := 0\<rparr>) (int 0) con" for con
    by (simp add: mpos_app2_defs app2_entry_def app2_outer_def)
  have "is_at (boot_view (screen k)) (\<lambda>_. app2_entry) n (boot_machine app2_entry n k)" by (rule boot_is_at [OF assms])
  then have boot: "forked 0 0 (screen k) (boot_machine app2_entry n k)"
    unfolding forked_def using e
    by (intro exI [of _ "boot_view (screen k)"] exI [of _ "\<lambda>_. app2_entry"] exI [of _ n] exI [of _ "app2_entry\<lparr>n_started := 0\<rparr>"])
       (auto simp: boot_view_def queues_ok_def)
  have "\<exists>s'. run_machine cpu mpos_app2 (boot_machine app2_entry n k) = Some (Spin, s') \<and> globals s' = 1025 \<and> screen (kernel s') = ?con"
  proof (rule run_machine_leads [OF run boot])
    fix s assume "waited 1025 15 ?con s"
    then obtain v f where s: "is_at v f (int 1025) s" "v_cur v = 1" "v_screen v = ?con"
      "\<forall>i < 16. v_state v i = (if i = 1 then P_RUNNABLE else P_EMPTY)" "queues_ok v" "at2 (f 1) = Waited2" "l2_p (f 1) = 15"
      unfolding waited_def by blast
    have "mpos_app2 (v_eax v 1) (f 1) (int 1025) (v_screen v) = Some (Trap INT_SYS_EXIT (Some 0) ((f 1)\<lparr>at2 := Exited2\<rparr>), int 1025, ?con)"
      using s(3,6,7) by (simp add: mpos_app2_defs app2_outer_def)
    from exit_halts [OF s(1), where prog = mpos_app2 and cpu = cpu, OF this s(2)] s(4,5)
    show "\<exists>s'. machine_step cpu mpos_app2 s = Halt Spin s' \<and> globals s' = 1025 \<and> screen (kernel s') = ?con"
      by (auto simp: v_exit_def queues_ok_def s(2))
  qed
  then show ?thesis by (simp add: all_live_def)
qed

theorem mpos_app2_runs_witness:
  "\<exists>s. run_machine (\<lambda>_. (zero_registers, boot_mem)) mpos_app2 (boot_machine app2_entry 7 booted) = Some (Spin, s) \<and> globals s = 1025"
  using mpos_app2_runs [OF start_booted, of "\<lambda>_. (zero_registers, boot_mem)" 7] by blast

end
