(* ===== verification/X86Setup.thy ===== *)
theory X86Setup
  imports X86
begin

text \<open>
  The descriptors and the interrupt controller (\<open>x86.h\<close>, \<open>mpos-x86.c\<close>, \<open>schedos-x86.c\<close>): the tables that
  \<open>segments_init\<close> builds, the bytes that \<open>interrupt_controller_init\<close> sends to the two controllers and the
  timer, and what the processor and the controllers do with them. The addresses of
  the handlers and of the task state, which the linker chooses, are arguments.
\<close>

section \<open>Descriptors\<close>

record segmentdescriptor =
  sd_lim_15_0 :: u16
  sd_base_15_0 :: u16
  sd_base_23_16 :: u8
  sd_type :: "4 word"
  sd_s :: "1 word"
  sd_dpl :: "2 word"
  sd_p :: "1 word"
  sd_lim_19_16 :: "4 word"
  sd_avl :: "1 word"
  sd_rsv1 :: "1 word"
  sd_db :: "1 word"
  sd_g :: "1 word"
  sd_base_31_24 :: u8

definition SEG_NULL :: segmentdescriptor where
  "SEG_NULL = \<lparr>sd_lim_15_0 = 0, sd_base_15_0 = 0, sd_base_23_16 = 0, sd_type = 0, sd_s = 0, sd_dpl = 0, sd_p = 0,
     sd_lim_19_16 = 0, sd_avl = 0, sd_rsv1 = 0, sd_db = 0, sd_g = 0, sd_base_31_24 = 0\<rparr>"

definition SEG :: "4 word \<Rightarrow> u32 \<Rightarrow> u32 \<Rightarrow> 2 word \<Rightarrow> segmentdescriptor" where
  "SEG type base lim dpl =
     \<lparr>sd_lim_15_0 = ucast (drop_bit 12 lim AND 0xFFFF), sd_base_15_0 = ucast (base AND 0xFFFF),
      sd_base_23_16 = ucast (drop_bit 16 base AND 0xFF), sd_type = type, sd_s = 1, sd_dpl = dpl, sd_p = 1,
      sd_lim_19_16 = ucast (drop_bit 28 lim AND 0xF), sd_avl = 0, sd_rsv1 = 0, sd_db = 1, sd_g = 1,
      sd_base_31_24 = ucast (drop_bit 24 base AND 0xFF)\<rparr>"

definition SEG16 :: "4 word \<Rightarrow> u32 \<Rightarrow> u32 \<Rightarrow> 2 word \<Rightarrow> segmentdescriptor" where
  "SEG16 type base lim dpl =
     \<lparr>sd_lim_15_0 = ucast (lim AND 0xFFFF), sd_base_15_0 = ucast (base AND 0xFFFF),
      sd_base_23_16 = ucast (drop_bit 16 base AND 0xFF), sd_type = type, sd_s = 1, sd_dpl = dpl, sd_p = 1,
      sd_lim_19_16 = ucast (drop_bit 16 lim AND 0xF), sd_avl = 0, sd_rsv1 = 0, sd_db = 1, sd_g = 0,
      sd_base_31_24 = ucast (drop_bit 24 base AND 0xFF)\<rparr>"

abbreviation (input) "STA_X \<equiv> (8 :: 4 word)"
abbreviation (input) "STA_W \<equiv> (2 :: 4 word)"
abbreviation (input) "STA_R \<equiv> (2 :: 4 word)"
abbreviation (input) "STS_T32A \<equiv> (9 :: 4 word)"
abbreviation (input) "STS_IG32 \<equiv> (0xE :: 4 word)"
abbreviation (input) "STS_TG32 \<equiv> (0xF :: 4 word)"

record gatedescriptor =
  gd_off_15_0 :: u16
  gd_ss :: u16
  gd_args :: "5 word"
  gd_rsv1 :: "3 word"
  gd_type :: "4 word"
  gd_s :: "1 word"
  gd_dpl :: "2 word"
  gd_p :: "1 word"
  gd_off_31_16 :: u16

definition SETGATE :: "bool \<Rightarrow> u16 \<Rightarrow> u32 \<Rightarrow> 2 word \<Rightarrow> gatedescriptor" where
  "SETGATE istrap sel off dpl =
     \<lparr>gd_off_15_0 = ucast (off AND 0xFFFF), gd_ss = sel, gd_args = 0, gd_rsv1 = 0,
      gd_type = (if istrap then STS_TG32 else STS_IG32), gd_s = 0, gd_dpl = dpl, gd_p = 1,
      gd_off_31_16 = ucast (drop_bit 16 off)\<rparr>"

text \<open>The fields of \<open>taskstate_t\<close> that are set; the others stay zero. The structure has 104 bytes.\<close>

record taskstate =
  ts_esp0 :: u32
  ts_ss0 :: u16

section \<open>The tables\<close>

abbreviation (input) "SEGSEL_KERN_CODE \<equiv> (0x8 :: u16)"
abbreviation (input) "SEGSEL_KERN_DATA \<equiv> (0x10 :: u16)"
abbreviation (input) "SEGSEL_APP_CODE \<equiv> (0x18 :: u16)"
abbreviation (input) "SEGSEL_APP_DATA \<equiv> (0x20 :: u16)"
abbreviation (input) "SEGSEL_TASKSTATE \<equiv> (0x28 :: u16)"

record tables =
  segments :: "segmentdescriptor list"
  kernel_task_descriptor :: taskstate
  interrupt_descriptors :: "gatedescriptor list"

text \<open>The initial value of \<open>segments\<close>.\<close>

definition initial_segments :: "segmentdescriptor list" where
  "initial_segments =
     [SEG_NULL, SEG (STA_X OR STA_R) 0 0xFFFFFFFF 0, SEG STA_W 0 0xFFFFFFFF 0, SEG (STA_X OR STA_R) 0 0xFFFFFFFF 3,
      SEG STA_W 0 0xFFFFFFFF 3, SEG_NULL]"

text \<open>The part of \<open>segments_init\<close> that is the same in both kernels, for the address \<open>task\<close> of the task state.\<close>

definition task_segment :: "u32 \<Rightarrow> segmentdescriptor list" where
  "task_segment task = initial_segments[unat (SEGSEL_TASKSTATE div 8) := (SEG16 STS_T32A task 104 0)\<lparr>sd_s := 0\<rparr>]"

definition default_gates :: "u32 \<Rightarrow> gatedescriptor list" where
  "default_gates default_int_handler = replicate 256 (SETGATE False SEGSEL_KERN_CODE default_int_handler 0)"

text \<open>The loop over the ten system calls from interrupt 48 on.\<close>

definition sys_gates :: "u32 list \<Rightarrow> gatedescriptor list \<Rightarrow> gatedescriptor list" where
  "sys_gates sys_int_handlers idt =
     fold (\<lambda>i idt. idt[i := SETGATE False SEGSEL_KERN_CODE (sys_int_handlers ! (i - 48)) 3]) [48..<58] idt"

definition mpos_segments_init :: "u32 \<Rightarrow> u32 \<Rightarrow> u32 list \<Rightarrow> tables" where
  "mpos_segments_init task default_int_handler sys_int_handlers =
     \<lparr>segments = task_segment task, kernel_task_descriptor = \<lparr>ts_esp0 = 0x80000, ts_ss0 = SEGSEL_KERN_DATA\<rparr>,
      interrupt_descriptors = sys_gates sys_int_handlers (default_gates default_int_handler)\<rparr>"

abbreviation (input) "INT_HARDWARE \<equiv> (32 :: nat)"
abbreviation (input) "INT_CLOCK \<equiv> (32 :: nat)"

definition schedos_segments_init :: "u32 \<Rightarrow> u32 \<Rightarrow> u32 \<Rightarrow> u32 list \<Rightarrow> tables" where
  "schedos_segments_init task default_int_handler clock_int_handler sys_int_handlers =
     \<lparr>segments = task_segment task, kernel_task_descriptor = \<lparr>ts_esp0 = 0x180000, ts_ss0 = SEGSEL_KERN_DATA\<rparr>,
      interrupt_descriptors = sys_gates sys_int_handlers
        ((default_gates default_int_handler)[INT_CLOCK := SETGATE False SEGSEL_KERN_CODE clock_int_handler 0])\<rparr>"

section \<open>The interrupt controller\<close>

abbreviation (input) "IO_PIC1 \<equiv> (0x20 :: nat)"
abbreviation (input) "IO_PIC2 \<equiv> (0xA0 :: nat)"
abbreviation (input) "IO_TIMER1 \<equiv> (0x40 :: nat)"
abbreviation (input) "TIMER_MODE \<equiv> (0x43 :: nat)"

definition TIMER_DIV :: "nat \<Rightarrow> nat" where
  "TIMER_DIV x = (1193182 + x div 2) div x"

text \<open>The bytes in the order of the calls of \<open>outb\<close>, each with its port.\<close>

definition interrupt_controller_init :: "bool \<Rightarrow> (nat \<times> u8) list" where
  "interrupt_controller_init allow_clock_interrupt =
     [(IO_PIC1 + 1, 0xFF), (IO_PIC2 + 1, 0xFF),
      (IO_PIC1, 0x11), (IO_PIC1 + 1, of_nat INT_HARDWARE), (IO_PIC1 + 1, push_bit 2 1), (IO_PIC1 + 1, 0x3),
      (IO_PIC2, 0x11), (IO_PIC2 + 1, of_nat (INT_HARDWARE + 8)), (IO_PIC2 + 1, 2), (IO_PIC2 + 1, 0x01),
      (IO_PIC1, 0x68), (IO_PIC1, 0x0A), (IO_PIC2, 0x68), (IO_PIC2, 0x0A),
      (IO_PIC1 + 1, if allow_clock_interrupt then 0xFE else 0xFF), (IO_PIC2 + 1, 0xFF)]
     @ (if allow_clock_interrupt
        then [(TIMER_MODE, 0x00 OR 0x04 OR 0x30), (IO_TIMER1, of_nat (TIMER_DIV 100 mod 256)), (IO_TIMER1, of_nat (TIMER_DIV 100 div 256))]
        else [])"

section \<open>What the hardware does with them\<close>

text \<open>The base and the limit of a segment, and the address of a gate.\<close>

definition seg_base :: "segmentdescriptor \<Rightarrow> u32" where
  "seg_base d = push_bit 24 (ucast (sd_base_31_24 d)) OR push_bit 16 (ucast (sd_base_23_16 d)) OR ucast (sd_base_15_0 d)"

definition seg_limit :: "segmentdescriptor \<Rightarrow> u32" where
  "seg_limit d = (let l = push_bit 16 (ucast (sd_lim_19_16 d)) OR ucast (sd_lim_15_0 d)
     in if sd_g d = 1 then push_bit 12 l OR 0xFFF else l)"

definition gate_offset :: "gatedescriptor \<Rightarrow> u32" where
  "gate_offset g = push_bit 16 (ucast (gd_off_31_16 g)) OR ucast (gd_off_15_0 g)"

text \<open>
  An interrupt through the table, by an \<open>int\<close> instruction at privilege level \<open>cpl\<close> or from outside: the
  linear address of the handler, its privilege level, whether interrupts stay enabled, and the new
  stack for a change of privilege. Everything else is a fault.
\<close>

datatype delivery = Enter u32 nat bool "(u16 \<times> u32) option" | Fault

definition descriptor :: "tables \<Rightarrow> u16 \<Rightarrow> segmentdescriptor option" where
  "descriptor t sel = (let i = unat sel div 8 in if i \<noteq> 0 \<and> i < length (segments t) then Some (segments t ! i) else None)"

definition deliver :: "tables \<Rightarrow> nat \<Rightarrow> bool \<Rightarrow> bool \<Rightarrow> nat \<Rightarrow> delivery" where
  "deliver t cpl software enabled n =
     (if n \<ge> length (interrupt_descriptors t) then Fault
      else let g = interrupt_descriptors t ! n in
        if gd_s g \<noteq> 0 \<or> (gd_type g \<noteq> STS_IG32 \<and> gd_type g \<noteq> STS_TG32) \<or> gd_p g = 0 \<or> (software \<and> unat (gd_dpl g) < cpl) then Fault
        else case descriptor t (gd_ss g) of
            None \<Rightarrow> Fault
          | Some cs \<Rightarrow>
              (let dpl = unat (sd_dpl cs) in
               if sd_p cs = 0 \<or> sd_s cs = 0 \<or> sd_type cs AND 0xC \<noteq> STA_X \<or> cpl < dpl \<or> seg_limit cs < gate_offset g then Fault
               else Enter (seg_base cs + gate_offset g) dpl (enabled \<and> gd_type g = STS_TG32)
                 (if dpl < cpl \<and> dpl = 0 then Some (ts_ss0 (kernel_task_descriptor t), ts_esp0 (kernel_task_descriptor t)) else None)))"

text \<open>One 8259A: after \<open>ICW1\<close> (bit 4 of a command) it expects three more initialisation bytes on its data port.\<close>

record pic =
  pic_expects :: nat
  pic_base :: u8
  pic_mask :: u8

definition pic_command :: "u8 \<Rightarrow> pic \<Rightarrow> pic" where
  "pic_command b p = (if b AND 0x10 \<noteq> 0 then p\<lparr>pic_expects := 3, pic_mask := 0\<rparr> else p)"

definition pic_data :: "u8 \<Rightarrow> pic \<Rightarrow> pic" where
  "pic_data b p =
     (case pic_expects p of
        0 \<Rightarrow> p\<lparr>pic_mask := b\<rparr>
      | Suc n \<Rightarrow> p\<lparr>pic_expects := n, pic_base := (if n = 2 then b else pic_base p)\<rparr>)"

text \<open>The two controllers and the bytes that the timer received.\<close>

definition port_write :: "nat \<times> u8 \<Rightarrow> pic \<times> pic \<times> (nat \<times> u8) list \<Rightarrow> pic \<times> pic \<times> (nat \<times> u8) list" where
  "port_write w s = (case w of (port, b) \<Rightarrow> case s of (p1, p2, timer) \<Rightarrow>
     if port = IO_PIC1 then (pic_command b p1, p2, timer) else if port = IO_PIC1 + 1 then (pic_data b p1, p2, timer)
     else if port = IO_PIC2 then (p1, pic_command b p2, timer) else if port = IO_PIC2 + 1 then (p1, pic_data b p2, timer)
     else (p1, p2, timer @ [(port, b)]))"

text \<open>The vector of a request line, unless it is masked.\<close>

definition pic_vector :: "pic \<times> pic \<times> (nat \<times> u8) list \<Rightarrow> nat \<Rightarrow> nat option" where
  "pic_vector s irq = (case s of (p1, p2, timer) \<Rightarrow>
     if irq < 8 then (if bit (pic_mask p1) irq then None else Some (unat (pic_base p1) + irq))
     else (if bit (pic_mask p1) 2 \<or> bit (pic_mask p2) (irq - 8) then None else Some (unat (pic_base p2) + (irq - 8))))"

section \<open>Correctness\<close>

lemma len_small: "LENGTH(1) = 1" "LENGTH(2) = 2" "LENGTH(4) = 4"
  by (simp_all add: len_of_numeral_defs)

lemma and_masks:
  "x AND 0xFFFF = take_bit 16 x" "x AND 0xFF = take_bit 8 x" "x AND 0xF = take_bit 4 x" for x :: u32
  by (simp_all add: take_bit_eq_mask mask_eq_exp_minus_1)

text \<open>The fields of a descriptor put together again.\<close>

lemma seg_base_SEG [simp]: "seg_base (SEG t b l d) = b" "seg_base (SEG16 t b l d) = b"
proof -
  have "push_bit 24 (ucast (ucast (take_bit 8 (drop_bit 24 b)) :: u8)) OR push_bit 16 (ucast (ucast (take_bit 8 (drop_bit 16 b)) :: u8))
      OR ucast (ucast (take_bit 16 b) :: u16) = b" (is "?l = b")
  proof (rule bit_word_eqI)
    fix n show "n < LENGTH(32) \<Longrightarrow> bit ?l n = bit b n"
      by (cases "n < 16"; cases "n < 24") (auto simp: bit_simps not_less)
  qed
  then show "seg_base (SEG t b l d) = b" "seg_base (SEG16 t b l d) = b"
    by (simp_all add: seg_base_def SEG_def SEG16_def and_masks)
qed

lemma gate_offset_SETGATE [simp]: "gate_offset (SETGATE istrap sel off dpl) = off"
proof -
  have "push_bit 16 (ucast (ucast (drop_bit 16 off) :: u16)) OR ucast (ucast (take_bit 16 off) :: u16) = off"
    by (rule bit_word_eqI) (auto simp: bit_simps)
  then show ?thesis by (simp add: gate_offset_def SETGATE_def and_masks)
qed

lemma seg_limit_SEG: "seg_limit (SEG t b l d) = l OR 0xFFF"
proof -
  have m: "(0xFFF :: u32) = mask 12" by (simp add: mask_eq_exp_minus_1)
  have "push_bit 12 (push_bit 16 (ucast (ucast (take_bit 4 (drop_bit 28 l)) :: 4 word)) OR ucast (ucast (take_bit 16 (drop_bit 12 l)) :: u16)) OR mask 12
      = l OR mask 12" (is "?l = ?r")
  proof (rule bit_word_eqI)
    fix n show "n < LENGTH(32) \<Longrightarrow> bit ?l n = bit ?r n"
      by (cases "n < 12"; cases "n < 28") (auto simp: bit_simps len_small not_less)
  qed
  then show ?thesis by (simp add: seg_limit_def SEG_def and_masks m)
qed

lemma seg_limit_SEG16: "l < 2 ^ 20 \<Longrightarrow> seg_limit (SEG16 t b l d) = l"
proof -
  assume "l < 2 ^ 20"
  then have "unat l < 2 ^ 20" by (simp add: word_less_nat_alt)
  then have "unat (take_bit 20 l) = unat l" by (simp add: unsigned_take_bit_eq take_bit_nat_eq_self)
  then have l: "take_bit 20 l = l" by (simp only: word_unat_eq_iff)
  have "push_bit 16 (ucast (ucast (take_bit 4 (drop_bit 16 l)) :: 4 word)) OR ucast (ucast (take_bit 16 l) :: u16) = take_bit 20 l"
    (is "?l = ?r")
  proof (rule bit_word_eqI)
    fix n show "n < LENGTH(32) \<Longrightarrow> bit ?l n = bit ?r n"
      by (cases "n < 16"; cases "n < 20") (auto simp: bit_simps len_small not_less)
  qed
  then show ?thesis by (simp add: seg_limit_def SEG16_def and_masks l)
qed

text \<open>The gates that \<open>segments_init\<close> leaves.\<close>

lemma fold_update_nth:
  "n < length xs \<Longrightarrow> fold (\<lambda>i xs. xs[i := f i]) [a..<b] xs ! n = (if a \<le> n \<and> n < b then f n else xs ! n)"
proof (induction b)
  case (Suc b)
  have len: "length (fold (\<lambda>i xs. xs[i := f i]) is xs) = length xs" for "is" and xs :: "'a list"
    by (induction "is" arbitrary: xs) simp_all
  show ?case
  proof (cases "a \<le> b")
    case True
    then show ?thesis using Suc by (cases "n = b") (auto simp: len)
  qed (use Suc in auto)
qed simp

lemma fold_update_length: "length (fold (\<lambda>i xs. xs[i := f i]) is xs) = length xs"
  by (induction "is" arbitrary: xs) simp_all

lemma sys_gates_simps:
  "length (sys_gates h idt) = length idt"
  "n < length idt \<Longrightarrow> sys_gates h idt ! n = (if 48 \<le> n \<and> n < 58 then SETGATE False SEGSEL_KERN_CODE (h ! (n - 48)) 3 else idt ! n)"
  unfolding sys_gates_def fold_update_length by (rule refl, rule fold_update_nth)

lemma task_segment_simps: "length (task_segment task) = 6" "task_segment task ! 1 = SEG (STA_X OR STA_R) 0 0xFFFFFFFF 0"
  "task_segment task ! 2 = SEG STA_W 0 0xFFFFFFFF 0" "task_segment task ! 3 = SEG (STA_X OR STA_R) 0 0xFFFFFFFF 3"
  "task_segment task ! 4 = SEG STA_W 0 0xFFFFFFFF 3" "task_segment task ! 5 = (SEG16 STS_T32A task 104 0)\<lparr>sd_s := 0\<rparr>"
proof -
  have "unat (SEGSEL_TASKSTATE div 8) = 5" by (simp add: unat_div)
  then show "length (task_segment task) = 6" "task_segment task ! 1 = SEG (STA_X OR STA_R) 0 0xFFFFFFFF 0"
    "task_segment task ! 2 = SEG STA_W 0 0xFFFFFFFF 0" "task_segment task ! 3 = SEG (STA_X OR STA_R) 0 0xFFFFFFFF 3"
    "task_segment task ! 4 = SEG STA_W 0 0xFFFFFFFF 3" "task_segment task ! 5 = (SEG16 STS_T32A task 104 0)\<lparr>sd_s := 0\<rparr>"
    by (simp_all add: task_segment_def initial_segments_def)
qed

lemma all_ones: "(0xFFFFFFFF :: u32) OR x = 0xFFFFFFFF" "\<not> (0xFFFFFFFF :: u32) < x"
proof -
  have m: "(0xFFFFFFFF :: u32) = - 1" by code_simp
  show "(0xFFFFFFFF :: u32) OR x = 0xFFFFFFFF" unfolding m by simp
  show "\<not> (0xFFFFFFFF :: u32) < x" unfolding m by (simp add: not_less)
qed

lemma deliver_gate:
  assumes "segments t = task_segment task" "n < length (interrupt_descriptors t)"
    and "interrupt_descriptors t ! n = SETGATE False SEGSEL_KERN_CODE off dpl"
  shows "deliver t cpl software enabled n =
    (if software \<and> unat dpl < cpl then Fault
     else Enter off 0 False (if 0 < cpl then Some (ts_ss0 (kernel_task_descriptor t), ts_esp0 (kernel_task_descriptor t)) else None))"
proof -
  have d: "descriptor t SEGSEL_KERN_CODE = Some (SEG (STA_X OR STA_R) 0 0xFFFFFFFF 0)"
    using assms(1) task_segment_simps(1,2) [of task] by (simp add: descriptor_def)
  have l: "\<not> seg_limit (SEG (STA_X OR STA_R) 0 0xFFFFFFFF 0) < off" unfolding seg_limit_SEG all_ones by (rule all_ones(2))
  have g: "gd_s (SETGATE False SEGSEL_KERN_CODE off dpl) = 0" "gd_type (SETGATE False SEGSEL_KERN_CODE off dpl) = STS_IG32"
    "gd_p (SETGATE False SEGSEL_KERN_CODE off dpl) = 1" "gd_dpl (SETGATE False SEGSEL_KERN_CODE off dpl) = dpl"
    "gd_ss (SETGATE False SEGSEL_KERN_CODE off dpl) = SEGSEL_KERN_CODE"
    by (simp_all add: SETGATE_def)
  have s: "sd_p (SEG (STA_X OR STA_R) 0 0xFFFFFFFF 0) = 1" "sd_s (SEG (STA_X OR STA_R) 0 0xFFFFFFFF 0) = 1"
    "sd_dpl (SEG (STA_X OR STA_R) 0 0xFFFFFFFF 0) = 0" "sd_type (SEG (STA_X OR STA_R) 0 0xFFFFFFFF 0) AND 0xC = STA_X"
    by (simp_all add: SEG_def)
  have ne: "(0xE :: 4 word) \<noteq> 0xF" by (simp add: len_small)
  show ?thesis
    using assms(2) l ne unfolding deliver_def assms(3) g d Let_def option.case s gate_offset_SETGATE seg_base_SEG by simp
qed

text \<open>
  The segments of an application (the selectors of \<open>special_registers_init\<close>) are the whole memory: a process is
  kept from privileged instructions, not from the memory of others.
\<close>

lemma app_segments_flat:
  "descriptor (mpos_segments_init task dflt sys) (reg_cs special_registers_init) = Some (SEG (STA_X OR STA_R) 0 0xFFFFFFFF 3)"
  "descriptor (mpos_segments_init task dflt sys) (reg_ds special_registers_init) = Some (SEG STA_W 0 0xFFFFFFFF 3)"
  "seg_base (SEG type 0 0xFFFFFFFF 3) = 0" "seg_limit (SEG type 0 0xFFFFFFFF 3) = 0xFFFFFFFF"
proof -
  have "unat (0x18 OR 3 :: u16) div 8 = 3" "unat (0x20 OR 3 :: u16) div 8 = 4" by code_simp+
  then show "descriptor (mpos_segments_init task dflt sys) (reg_cs special_registers_init) = Some (SEG (STA_X OR STA_R) 0 0xFFFFFFFF 3)"
    "descriptor (mpos_segments_init task dflt sys) (reg_ds special_registers_init) = Some (SEG STA_W 0 0xFFFFFFFF 3)"
    unfolding descriptor_def special_registers_init_def mpos_segments_init_def Let_def tables.simps registers.simps
    using task_segment_simps [of task] by simp_all
qed (simp_all add: seg_limit_SEG all_ones)

text \<open>The segment of the task state covers it.\<close>

lemma task_segment_covers:
  "seg_base (task_segment task ! 5) = task" "seg_limit (task_segment task ! 5) = 104"
  unfolding task_segment_simps using seg_base_SEG(2) [of STS_T32A task 104 0] seg_limit_SEG16 [of 104 STS_T32A task 0]
  by (simp_all add: seg_base_def seg_limit_def)

text \<open>The controllers after their initialisation, whatever their state was, and the rate of the timer.\<close>

lemma controllers_after_init:
  "fold port_write (interrupt_controller_init allow) (p1, p2, []) =
     (\<lparr>pic_expects = 0, pic_base = 32, pic_mask = if allow then 0xFE else 0xFF\<rparr>, \<lparr>pic_expects = 0, pic_base = 40, pic_mask = 0xFF\<rparr>,
      if allow then [(TIMER_MODE, 0x34), (IO_TIMER1, 156), (IO_TIMER1, 46)] else [])"
proof -
  have "(0x11 :: u8) AND 0x10 \<noteq> 0" "(0x68 :: u8) AND 0x10 = 0" "(0x0A :: u8) AND 0x10 = 0" by code_simp+
  moreover have "(0x00 OR 0x04 OR 0x30 :: u8) = 0x34" by code_simp
  moreover have "TIMER_DIV 100 = 11932" by (simp add: TIMER_DIV_def)
  ultimately show ?thesis
    by (cases p1; cases p2; cases "pic_expects p1"; cases "pic_expects p2")
       (simp_all add: interrupt_controller_init_def port_write_def pic_command_def pic_data_def)
qed

text \<open>C28: The ways from an application into a kernel by an \<open>int\<close> instruction or by a device. After \<open>segments_init\<close>, an \<open>int\<close> instruction at the
  privilege of applications reaches the kernel exactly for the ten system calls from 48 to 57, each through its own
  handler, at privilege 0, with interrupts disabled and on the kernel's stack; every other vector is a
  fault. (Exceptions of the processor enter through the default handler.) In SchedOS, after \<open>interrupt_controller_init\<close>, whatever state the controllers were in, the only device that can interrupt is
  the clock, and only if it is allowed: its requests come as interrupt 32 and go to the handler of the
  clock, again at privilege 0 with interrupts disabled.\<close>

theorem kernel_entry_points:
  assumes "n < 256" "irq < 16"
  shows "deliver (mpos_segments_init task dflt sys) 3 True enabled n =
      (if 48 \<le> n \<and> n < 58 then Enter (sys ! (n - 48)) 0 False (Some (SEGSEL_KERN_DATA, 0x80000)) else Fault)
    \<and> deliver (schedos_segments_init task dflt clock sys) 3 True enabled n =
      (if 48 \<le> n \<and> n < 58 then Enter (sys ! (n - 48)) 0 False (Some (SEGSEL_KERN_DATA, 0x180000)) else Fault)
    \<and> (case pic_vector (fold port_write (interrupt_controller_init allow) (p1, p2, [])) irq of
        None \<Rightarrow> \<not> (allow \<and> irq = 0)
      | Some v \<Rightarrow> allow \<and> irq = 0 \<and> v = INT_CLOCK
          \<and> deliver (schedos_segments_init task dflt clock sys) 3 False enabled v = Enter clock 0 False (Some (SEGSEL_KERN_DATA, 0x180000)))"
proof -
  have m: "deliver (mpos_segments_init task dflt sys) 3 True enabled n =
      (if 48 \<le> n \<and> n < 58 then Enter (sys ! (n - 48)) 0 False (Some (SEGSEL_KERN_DATA, 0x80000)) else Fault)"
    using assms(1) deliver_gate [of "mpos_segments_init task dflt sys" task n "if 48 \<le> n \<and> n < 58 then sys ! (n - 48) else dflt"
        "if 48 \<le> n \<and> n < 58 then 3 else 0" 3 True enabled]
    by (simp add: mpos_segments_init_def sys_gates_simps default_gates_def len_small)
  have s: "deliver (schedos_segments_init task dflt clock sys) 3 sw enabled n =
      (if 48 \<le> n \<and> n < 58 then Enter (sys ! (n - 48)) 0 False (Some (SEGSEL_KERN_DATA, 0x180000))
       else if sw then Fault
       else Enter (if n = 32 then clock else dflt) 0 False (Some (SEGSEL_KERN_DATA, 0x180000)))" if "n < 256" for sw n
    using that deliver_gate [of "schedos_segments_init task dflt clock sys" task n
        "if 48 \<le> n \<and> n < 58 then sys ! (n - 48) else if n = 32 then clock else dflt" "if 48 \<le> n \<and> n < 58 then 3 else 0" 3 sw enabled]
    by (simp add: schedos_segments_init_def sys_gates_simps default_gates_def nth_list_update len_small)
  have p: "pic_vector (fold port_write (interrupt_controller_init allow) (p1, p2, [])) irq = (if allow \<and> irq = 0 then Some 32 else None)"
  proof -
    have "bit (0xFF :: u8) i" if "i < 8" for i
      using that by (auto simp: less_Suc_eq numeral_eq_Suc)
    moreover have "bit (0xFE :: u8) i \<longleftrightarrow> i \<noteq> 0" if "i < 8" for i
      using that by (auto simp: less_Suc_eq numeral_eq_Suc)
    ultimately show ?thesis using assms(2) by (auto simp: controllers_after_init pic_vector_def)
  qed
  show ?thesis using m s [OF assms(1), of True] s [of 32 False] by (simp add: p)
qed

theorem kernel_entry_points_witness:
  "deliver (mpos_segments_init 0x1000 7 [10, 11, 12, 13, 14, 15, 16, 17, 18, 19]) 3 True False 51
     = Enter 13 0 False (Some (SEGSEL_KERN_DATA, 0x80000))
   \<and> deliver (mpos_segments_init 0x1000 7 [10, 11, 12, 13, 14, 15, 16, 17, 18, 19]) 3 True False 32 = Fault"
  using kernel_entry_points [of 51 0 "0x1000" 7 "[10, 11, 12, 13, 14, 15, 16, 17, 18, 19]" False]
    kernel_entry_points [of 32 0 "0x1000" 7 "[10, 11, 12, 13, 14, 15, 16, 17, 18, 19]" False] by simp

end
