(* ===== verification/SchedosKern.thy ===== *)
theory SchedosKern
  imports X86 RoundRobin
begin

text \<open>
  The SchedOS kernel (\<open>weensyos2/schedos-kern.c\<close>, \<open>schedos-kern.h\<close>): four processes and an idle
  descriptor 0, three scheduling algorithms, the system calls and the clock interrupt, and
  booting. As in MiniprocOS every interrupt ends in \<open>run\<close>, which does not return, or spins.
\<close>

section \<open>State\<close>

datatype procstate = P_EMPTY | P_RUNNABLE | P_BLOCKED | P_ZOMBIE

record process =
  p_pid :: nat
  p_registers :: registers
  p_state :: procstate
  p_exit_status :: u32
  p_priority :: u32

abbreviation (input) "NPROCS \<equiv> (5 :: nat)"
abbreviation (input) "PROC1_START \<equiv> (0x200000 :: u32)"
abbreviation (input) "PROC_SIZE \<equiv> (0x100000 :: u32)"

text \<open>
  \<open>screen\<close> holds the console and \<open>cursorpos\<close>, the cursor that the kernel and the applications share;
  \<open>lock\<close> is the other shared variable.
\<close>

record kern =
  proc_array :: "process list"
  current :: nat
  scheduling_algorithm :: u32
  screen :: console
  lock :: u32
  phys :: mem

text \<open>A process runs, or the kernel spins for ever in a state that no longer changes.\<close>

datatype outcome = Run kern | Spin kern

abbreviation proc :: "kern \<Rightarrow> nat \<Rightarrow> process" where
  "proc k p \<equiv> proc_array k ! p"

definition upd_proc :: "nat \<Rightarrow> (process \<Rightarrow> process) \<Rightarrow> kern \<Rightarrow> kern" where
  "upd_proc p f k = k\<lparr>proc_array := (proc_array k)[p := f (proc k p)]\<rparr>"

definition run :: "nat \<Rightarrow> kern \<Rightarrow> outcome" where
  "run p k = Run (k\<lparr>current := p\<rparr>)"

section \<open>Scheduling algorithms\<close>

text \<open>Algorithms 0 and 1: round robin, from the current process and from process 0.\<close>

partial_function (option) rr_scan :: "process list \<Rightarrow> nat \<Rightarrow> nat option" where
  "rr_scan procs pid =
     (let pid' = (pid + 1) mod NPROCS
      in if p_state (procs ! pid') = P_RUNNABLE then Some pid' else rr_scan procs pid')"

definition strict_scan :: "process list \<Rightarrow> nat \<Rightarrow> nat option" where
  "strict_scan procs pid = rr_scan procs 0"

text \<open>
  Algorithm 2: priorities, where smaller numbers come first. \<open>better_scan\<close> is the loop over \<open>i\<close>
  that looks for a runnable process with a priority below \<open>min\<close> (here \<open>mn\<close>); \<open>equal_scan\<close> the loop that
  looks for the next one of priority \<open>min\<close> after \<open>pid\<close>.
\<close>

fun better_scan :: "process list \<Rightarrow> nat list \<Rightarrow> int \<Rightarrow> nat \<Rightarrow> int \<times> nat" where
  "better_scan procs [] mn found = (mn, found)"
| "better_scan procs (i # is) mn found =
     (if p_state (procs ! i) = P_RUNNABLE \<and> sint (p_priority (procs ! i)) < mn
      then better_scan procs is (sint (p_priority (procs ! i))) i
      else better_scan procs is mn found)"

fun equal_scan :: "process list \<Rightarrow> nat list \<Rightarrow> nat \<Rightarrow> int \<Rightarrow> nat option" where
  "equal_scan procs [] pid mn = None"
| "equal_scan procs (i # is) pid mn =
     (let j = (pid + i) mod NPROCS
      in if p_state (procs ! j) = P_RUNNABLE \<and> sint (p_priority (procs ! j)) = mn then Some j
         else equal_scan procs is pid mn)"

partial_function (option) prio_scan :: "process list \<Rightarrow> nat \<Rightarrow> nat option" where
  "prio_scan procs pid =
     (case better_scan procs [0..<NPROCS] (sint (p_priority (procs ! pid))) 0 of
        (mn, found) \<Rightarrow>
          if found \<noteq> 0 then Some found
          else
            (case equal_scan procs [1..<NPROCS + 1] pid mn of
               Some j \<Rightarrow> Some j
             | None \<Rightarrow>
                 (let j = (pid + 1) mod NPROCS
                  in if p_state (procs ! j) = P_RUNNABLE then Some j else prio_scan procs j)))"

text \<open>The bytes of \<open>"\nUnknown scheduling algorithm %d\n"\<close>.\<close>

definition unknown_message :: "u8 list" where
  "unknown_message = map of_char ([CHR 0x0A] @ ''Unknown scheduling algorithm %d'' @ [CHR 0x0A])"

definition schedule :: "kern \<Rightarrow> outcome" where
  "schedule k =
     (let pid = p_pid (proc k (current k));
          pick = (\<lambda>scan. case scan (proc_array k) pid of Some p \<Rightarrow> run p k | None \<Rightarrow> Spin k)
      in if scheduling_algorithm k = 0 then pick rr_scan
         else if scheduling_algorithm k = 1 then pick strict_scan
         else if scheduling_algorithm k = 2 then pick prio_scan
         else
           (case console_printf 0x100 unknown_message [Va_int (scheduling_algorithm k)] (screen k) of
              Some con \<Rightarrow> Spin (k\<lparr>screen := con\<rparr>)
            | None \<Rightarrow> Spin k))"

section \<open>Interrupts\<close>

abbreviation (input) "INT_CLOCK \<equiv> (32 :: u32)"
abbreviation (input) "INT_SYS_YIELD \<equiv> (48 :: u32)"
abbreviation (input) "INT_SYS_EXIT \<equiv> (49 :: u32)"
abbreviation (input) "INT_SYS_USER1 \<equiv> (50 :: u32)"
abbreviation (input) "INT_SYS_USER2 \<equiv> (51 :: u32)"

definition interrupt :: "registers \<Rightarrow> kern \<Rightarrow> outcome" where
  "interrupt reg k0 =
     (let c = current k0; k = upd_proc c (\<lambda>p. p\<lparr>p_registers := reg\<rparr>) k0 in
      if reg_intno reg = INT_SYS_YIELD then schedule k
      else if reg_intno reg = INT_SYS_EXIT then
        schedule (upd_proc c (\<lambda>p. p\<lparr>p_exit_status := reg_eax reg\<rparr>)
          (upd_proc c (\<lambda>p. p\<lparr>p_state := P_ZOMBIE\<rparr>) k))
      else if reg_intno reg = INT_SYS_USER1 then
        run c (upd_proc c (\<lambda>p. p\<lparr>p_priority := reg_eax reg\<rparr>) k)
      else if reg_intno reg = INT_SYS_USER2 then run c k
      else if reg_intno reg = INT_CLOCK then schedule k
      else Spin k)"

text \<open>
  The system calls as the applications make them (\<open>schedos-app.h\<close>): the registers with which the
  kernel is entered, from those of the application.
\<close>

definition sys_yield :: "registers \<Rightarrow> registers" where
  "sys_yield r = r\<lparr>reg_intno := INT_SYS_YIELD\<rparr>"

definition sys_exit :: "u32 \<Rightarrow> registers \<Rightarrow> registers" where
  "sys_exit status r = r\<lparr>reg_intno := INT_SYS_EXIT, reg_eax := status\<rparr>"

definition sys_set_priority :: "u32 \<Rightarrow> registers \<Rightarrow> registers" where
  "sys_set_priority priority r = r\<lparr>reg_intno := INT_SYS_USER2, reg_eax := priority\<rparr>"

section \<open>Booting\<close>

definition empty_process :: "nat \<Rightarrow> process" where
  "empty_process i =
     \<lparr>p_pid = i, p_registers = zero_registers, p_state = P_EMPTY, p_exit_status = 0, p_priority = 0\<rparr>"

text \<open>
  One round of the loop that sets up process \<open>i\<close>; \<open>None\<close> when the loader panics. Unlike in
  MiniprocOS a process starts with interrupts enabled (\<open>EFLAGS_IF\<close>).
\<close>

definition start_process :: "nat list \<Rightarrow> nat \<Rightarrow> kern \<Rightarrow> kern option" where
  "start_process ramimages i k =
     (let stack_ptr = PROC1_START + of_nat i * PROC_SIZE;
          k1 = upd_proc i (\<lambda>p. p\<lparr>p_registers :=
                 special_registers_init\<lparr>reg_eflags := 0x200, reg_esp := stack_ptr\<rparr>\<rparr>) k
      in case program_loader ramimages (int i - 1) (phys k1) of
           None \<Rightarrow> None
         | Some (entry, m) \<Rightarrow>
             Some (upd_proc i (\<lambda>p. p\<lparr>p_registers := (p_registers p)\<lparr>reg_eip := entry\<rparr>, p_state := P_RUNNABLE\<rparr>)
               (k1\<lparr>phys := m\<rparr>)))"

fun start_processes :: "nat list \<Rightarrow> nat list \<Rightarrow> kern \<Rightarrow> kern option" where
  "start_processes ramimages [] k = Some k"
| "start_processes ramimages (i # is) k =
     (case start_process ramimages i k of None \<Rightarrow> None | Some k1 \<Rightarrow> start_processes ramimages is k1)"

text \<open>
  \<open>start\<close>, from a machine with some console, memory and value of \<open>lock\<close>. The assignment \<open>lock = 0\<close>
  comes after \<open>run\<close>, which does not return: it is never executed.
\<close>

definition start :: "nat list \<Rightarrow> console \<Rightarrow> u32 \<Rightarrow> mem \<Rightarrow> outcome" where
  "start ramimages con l m =
     (let k0 = \<lparr>proc_array = map empty_process [0..<NPROCS], current = 0, scheduling_algorithm = 0,
            screen = console_clear con, lock = l, phys = m\<rparr>
      in case start_processes ramimages [1..<NPROCS] k0 of
           None \<Rightarrow> Spin k0
         | Some k1 \<Rightarrow>
             (let k2 = upd_proc 4 (\<lambda>p. p\<lparr>p_priority := 3\<rparr>)
                    (upd_proc 3 (\<lambda>p. p\<lparr>p_priority := 1\<rparr>)
                    (upd_proc 2 (\<lambda>p. p\<lparr>p_priority := 2\<rparr>)
                    (upd_proc 1 (\<lambda>p. p\<lparr>p_priority := 3\<rparr>) k1)))
              in run 1 (k2\<lparr>screen := (screen k2)\<lparr>cursor := 0\<rparr>, scheduling_algorithm := 0\<rparr>)))"

section \<open>The whole system\<close>

text \<open>
  Between interrupts the running process changes the memory, the screen and the lock as it likes;
  then it traps, or the clock does, with any register contents.
\<close>

inductive schedos_step :: "kern \<Rightarrow> kern \<Rightarrow> bool" where
  trap: "interrupt reg (k\<lparr>screen := con, lock := l, phys := m\<rparr>) = Run k' \<Longrightarrow> schedos_step k k'"

inductive_cases schedos_stepE: "schedos_step k k'"

inductive schedos_reach :: "kern \<Rightarrow> bool" where
  boot: "start ramimages con l m = Run k \<Longrightarrow> schedos_reach k"
| step: "schedos_reach k \<Longrightarrow> schedos_step k k' \<Longrightarrow> schedos_reach k'"

end
