(* ===== verification/SchedosProps.thy ===== *)
theory SchedosProps
  imports SchedosKern
begin

text \<open>
  Correctness of the SchedOS kernel: a contract that all three scheduling algorithms meet, the
  invariant of every reachable state and the finality of exit, which process each algorithm
  picks, and what becomes of priorities that applications set.
\<close>

section \<open>Descriptors and the invariant\<close>

lemma sched_upd_proc_simps [simp]:
  "length (proc_array (upd_proc p f k)) = length (proc_array k)"
  "current (upd_proc p f k) = current k" "phys (upd_proc p f k) = phys k"
  "screen (upd_proc p f k) = screen k" "scheduling_algorithm (upd_proc p f k) = scheduling_algorithm k"
  by (simp_all add: upd_proc_def)

lemma sched_proc_upd_proc:
  "p < length (proc_array k) \<Longrightarrow> proc (upd_proc p f k) q = (if q = p then f (proc k p) else proc k q)"
  by (simp add: upd_proc_def nth_list_update)

abbreviation runnable :: "process list \<Rightarrow> nat \<Rightarrow> bool" where
  "runnable procs p \<equiv> p_state (procs ! p) = P_RUNNABLE"

abbreviation prio :: "process list \<Rightarrow> nat \<Rightarrow> int" where
  "prio procs p \<equiv> sint (p_priority (procs ! p))"

definition procs_ok :: "process list \<Rightarrow> bool" where
  "procs_ok procs \<longleftrightarrow> length procs = 5 \<and> (\<forall>i < 5. p_pid (procs ! i) = i) \<and> p_state (procs ! 0) = P_EMPTY"

definition kern_ok :: "kern \<Rightarrow> bool" where
  "kern_ok k \<longleftrightarrow> procs_ok (proc_array k) \<and> 0 < current k \<and> current k < 5 \<and> runnable (proc_array k) (current k)"

lemma procs_okD:
  assumes "procs_ok procs"
  shows "length procs = 5" "i < 5 \<Longrightarrow> p_pid (procs ! i) = i" "p_state (procs ! 0) = P_EMPTY"
    "runnable procs p \<Longrightarrow> 0 < p"
  using assms by (auto simp: procs_ok_def intro!: gr0I)

lemma sched_kern_okD:
  assumes "kern_ok k"
  shows "procs_ok (proc_array k)" "0 < current k" "current k < 5" "runnable (proc_array k) (current k)"
  using assms by (simp_all add: kern_ok_def)

lemma procs_ok_upd:
  assumes "procs_ok (proc_array k)" "0 < p" "p < 5" "p_pid (f (proc k p)) = p"
  shows "procs_ok (proc_array (upd_proc p f k))"
  using assms by (auto simp: procs_ok_def sched_proc_upd_proc)

section \<open>What a scheduling algorithm promises\<close>

text \<open>
  Whatever its preferences, an algorithm picks a runnable process, and it picks one whenever
  there is one. The kernel needs no more to keep its invariant.
\<close>

locale scheduling_policy =
  fixes pick :: "process list \<Rightarrow> nat \<Rightarrow> nat option"
  assumes pick_sound: "procs_ok procs \<Longrightarrow> pick procs i = Some j \<Longrightarrow> runnable procs j \<and> j < 5"
    and pick_total: "procs_ok procs \<Longrightarrow> i < 5 \<Longrightarrow> j < 5 \<Longrightarrow> runnable procs j \<Longrightarrow> pick procs i \<noteq> None"
begin

text \<open>The kernel goes on exactly when some process is runnable, and with a runnable one.\<close>

lemma dispatch:
  assumes "procs_ok (proc_array k)" "i < 5"
  shows "(case pick (proc_array k) i of Some p \<Rightarrow> run p k | None \<Rightarrow> Spin k)
      = (if \<exists>j < 5. runnable (proc_array k) j
         then Run (k\<lparr>current := the (pick (proc_array k) i)\<rparr>) else Spin k)"
    "\<exists>j < 5. runnable (proc_array k) j \<Longrightarrow> kern_ok (k\<lparr>current := the (pick (proc_array k) i)\<rparr>)"
proof -
  have p: "(\<exists>j < 5. runnable (proc_array k) j) \<longleftrightarrow> pick (proc_array k) i \<noteq> None"
    using pick_sound [OF assms(1)] pick_total [OF assms] by blast
  then show "(case pick (proc_array k) i of Some p \<Rightarrow> run p k | None \<Rightarrow> Spin k)
      = (if \<exists>j < 5. runnable (proc_array k) j
         then Run (k\<lparr>current := the (pick (proc_array k) i)\<rparr>) else Spin k)"
    by (auto simp: run_def)
  assume "\<exists>j < 5. runnable (proc_array k) j"
  then obtain j where j: "pick (proc_array k) i = Some j" using p by auto
  then show "kern_ok (k\<lparr>current := the (pick (proc_array k) i)\<rparr>)"
    using pick_sound [OF assms(1) j] procs_okD(4) [OF assms(1)] assms(1) by (auto simp: kern_ok_def)
qed

end

section \<open>Round robin\<close>

lemma rr_scan_sound:
  assumes "rr_scan procs i = Some j"
  shows "runnable procs j \<and> j < 5"
  by (rule rr_scan.raw_induct [of "\<lambda>procs i j. runnable procs j \<and> j < 5", OF _ assms])
     (auto simp: Let_def split: if_splits)

interpretation sched_rr: cyclic_scan 5 runnable rr_scan
proof unfold_locales
  show "rr_scan procs i = (if runnable procs (Suc i mod 5) then Some (Suc i mod 5)
      else rr_scan procs (Suc i mod 5))" for procs i
    by (subst rr_scan.simps) (simp add: Let_def)
  show "rr_scan procs i = Some j \<Longrightarrow> runnable procs j \<and> j < 5" for procs i j
    by (rule rr_scan_sound)
qed simp

interpretation rr_policy: scheduling_policy rr_scan
  by unfold_locales (use sched_rr.scan_sound sched_rr.scan_none in blast)+

interpretation strict_policy: scheduling_policy strict_scan
  unfolding strict_scan_def
  by unfold_locales (use sched_rr.scan_sound sched_rr.scan_none in blast)+

section \<open>Priorities\<close>

lemma better_scan_spec:
  assumes "better_scan procs is mn f = (m', f')" "sorted is"
  shows "(m' = mn \<and> f' = f \<and> (\<forall>i \<in> set is. runnable procs i \<longrightarrow> mn \<le> prio procs i))
    \<or> (f' \<in> set is \<and> runnable procs f' \<and> prio procs f' = m' \<and> m' < mn
        \<and> (\<forall>i \<in> set is. runnable procs i \<longrightarrow> m' \<le> prio procs i \<and> (prio procs i = m' \<longrightarrow> f' \<le> i)))"
  using assms
proof (induction "is" arbitrary: mn f)
  case (Cons i "is")
  show ?case
  proof (cases "runnable procs i \<and> prio procs i < mn")
    case True
    then have "better_scan procs is (prio procs i) i = (m', f')" using Cons.prems by simp
    from Cons.IH [OF this] True Cons.prems(2) show ?thesis by auto
  next
    case False
    then have "better_scan procs is mn f = (m', f')" using Cons.prems by auto
    from Cons.IH [OF this] False Cons.prems(2) show ?thesis by auto
  qed
qed simp

lemma equal_scan_find:
  "equal_scan procs is pid mn = map_option (\<lambda>i. (pid + i) mod 5)
     (List.find (\<lambda>i. runnable procs ((pid + i) mod 5) \<and> prio procs ((pid + i) mod 5) = mn) is)"
  by (induction "is") (auto simp: Let_def)

lemma find_upt:
  assumes "List.find P [1..<6] = Some x"
  shows "\<exists>i < 5. x = Suc i \<and> P (Suc i) \<and> (\<forall>e < i. \<not> P (Suc e))"
proof -
  obtain i where i: "i < 5" "P ([1..<6] ! i)" "x = [1..<6] ! i" "\<forall>e < i. \<not> P ([1..<6] ! e)"
    using assms by (auto simp: find_Some_iff simp del: upt_Suc)
  have "[1..<6] ! e = Suc e" if "e \<le> i" for e using that i(1) by (simp del: upt_Suc)
  then show ?thesis using i by auto
qed

lemma equal_scan_Some:
  assumes "equal_scan procs [1..<6] pid mn = Some j"
  shows "j < 5" "runnable procs j" "prio procs j = mn"
    "l < 5 \<Longrightarrow> runnable procs l \<Longrightarrow> prio procs l = mn \<Longrightarrow> sched_rr.gap pid j \<le> sched_rr.gap pid l"
proof -
  let ?P = "\<lambda>i. runnable procs ((pid + i) mod 5) \<and> prio procs ((pid + i) mod 5) = mn"
  obtain x where x: "List.find ?P [1..<6] = Some x" "j = (pid + x) mod 5"
    using assms unfolding equal_scan_find map_option_eq_Some by blast
  obtain i where i: "i < 5" "?P (Suc i)" "j = (pid + Suc i) mod 5" "\<forall>e < i. \<not> ?P (Suc e)"
    using find_upt [OF x(1)] x(2) by blast
  then show "j < 5" "runnable procs j" "prio procs j = mn" by simp_all
  assume l: "l < 5" "runnable procs l" "prio procs l = mn"
  have "(pid + Suc (sched_rr.gap pid l)) mod 5 = l" by (rule sched_rr.gap_reaches [OF l(1)])
  then have "?P (Suc (sched_rr.gap pid l))" using l(2,3) by simp
  then have "\<not> sched_rr.gap pid l < i" using i(4) by blast
  moreover have "sched_rr.gap pid j = i" by (rule sched_rr.gap_unique) (use i in simp_all)
  ultimately show "sched_rr.gap pid j \<le> sched_rr.gap pid l" by simp
qed

lemma equal_scan_None:
  assumes "equal_scan procs [1..<6] pid mn = None" "l < 5" "runnable procs l"
  shows "prio procs l \<noteq> mn"
proof
  assume m: "prio procs l = mn"
  have "(pid + Suc (sched_rr.gap pid l)) mod 5 = l" by (rule sched_rr.gap_reaches [OF assms(2)])
  moreover have "Suc (sched_rr.gap pid l) \<in> set [1..<6]" using sched_rr.gap_less [of pid l] by simp
  moreover have "\<forall>x \<in> set [1..<6]. \<not> (runnable procs ((pid + x) mod 5) \<and> prio procs ((pid + x) mod 5) = mn)"
    using assms(1) unfolding equal_scan_find by (simp only: option.map_disc_iff find_None_iff) blast
  ultimately show False using assms(3) m by metis
qed

text \<open>The three ways in which one round of the search can go.\<close>

lemma prio_scan_round:
  obtains (better) f where "prio_scan procs pid = Some f" "f < 5" "runnable procs f"
      "prio procs f < prio procs pid" "\<forall>i < 5. runnable procs i \<longrightarrow> prio procs f \<le> prio procs i \<and> (prio procs i = prio procs f \<longrightarrow> f \<le> i)"
    | (equal) j where "prio_scan procs pid = Some j" "j < 5" "runnable procs j" "prio procs j = prio procs pid"
      "\<forall>i < 5. runnable procs i \<longrightarrow> prio procs j \<le> prio procs i"
      "\<forall>l < 5. runnable procs l \<and> prio procs l = prio procs j \<longrightarrow> sched_rr.gap pid j \<le> sched_rr.gap pid l"
    | (neither) "prio_scan procs pid
        = (if runnable procs ((pid + 1) mod 5) then Some ((pid + 1) mod 5) else prio_scan procs ((pid + 1) mod 5))"
      "\<forall>i < 5. runnable procs i \<longrightarrow> prio procs pid < prio procs i"
    | (zero) "runnable procs 0"
proof -
  obtain m f where b: "better_scan procs [0..<5] (prio procs pid) 0 = (m, f)" by fastforce
  show thesis
  proof (cases "f = 0")
    case False
    then have "prio_scan procs pid = Some f" using b by (subst prio_scan.simps) (simp del: upt_Suc)
    then show thesis using better better_scan_spec [OF b sorted_upt] False by (auto simp del: upt_Suc)
  next
    case f0: True
    have all: "m = prio procs pid" "\<forall>i < 5. runnable procs i \<longrightarrow> prio procs pid \<le> prio procs i"
      if "\<not> runnable procs 0"
      using better_scan_spec [OF b sorted_upt] f0 that by (auto simp del: upt_Suc)
    show thesis
    proof (cases "runnable procs 0")
      case True
      then show thesis by (rule zero)
    next
      case nz: False
      show thesis
      proof (cases "equal_scan procs [1..<6] pid m")
        case (Some j)
        then have r: "prio_scan procs pid = Some j" using b f0 by (subst prio_scan.simps) (simp del: upt_Suc)
        note E = equal_scan_Some [OF Some]
        have "prio procs j = prio procs pid" using E(3) all(1) [OF nz] by simp
        moreover have "\<forall>l < 5. runnable procs l \<and> prio procs l = prio procs j \<longrightarrow>
            sched_rr.gap pid j \<le> sched_rr.gap pid l" using E(3,4) by blast
        ultimately show thesis using equal r E(1,2) all(2) [OF nz] by simp
      next
        case None
        have "prio_scan procs pid
          = (if runnable procs ((pid + 1) mod 5) then Some ((pid + 1) mod 5) else prio_scan procs ((pid + 1) mod 5))"
          using b f0 None by (subst prio_scan.simps) (simp add: Let_def del: upt_Suc)
        moreover have "\<forall>i < 5. runnable procs i \<longrightarrow> prio procs pid < prio procs i"
        proof (intro allI impI)
          fix i assume r: "i < 5" "runnable procs i"
          then have "prio procs i \<noteq> prio procs pid" "prio procs pid \<le> prio procs i"
            using equal_scan_None [OF None r] all(1) [OF nz] all(2) [OF nz] by auto
          then show "prio procs pid < prio procs i" by linarith
        qed
        ultimately show thesis by (rule neither)
      qed
    qed
  qed
qed

lemma prio_scan_sound:
  assumes "prio_scan procs i = Some j" "procs_ok procs"
  shows "runnable procs j \<and> j < 5"
proof -
  have "procs_ok procs \<longrightarrow> runnable procs j \<and> j < 5"
  proof (rule prio_scan.raw_induct [of "\<lambda>procs i j. procs_ok procs \<longrightarrow> runnable procs j \<and> j < 5", OF _ assms(1)], goal_cases)
    case (1 scan procs pid r)
    obtain m f where b: "better_scan procs [0..<5] (prio procs pid) 0 = (m, f)" by fastforce
    show ?case
    proof (cases "f = 0")
      case False
      then have "r = f" using 1(2) b by (simp del: upt_Suc)
      then show ?thesis using better_scan_spec [OF b sorted_upt] False by (auto simp del: upt_Suc)
    next
      case f0: True
      show ?thesis
      proof (cases "equal_scan procs [1..<6] pid m")
        case (Some j)
        then have "r = j" using 1(2) b f0 by (simp del: upt_Suc)
        then show ?thesis using equal_scan_Some(1,2) [OF Some] by simp
      next
        case None
        then show ?thesis using 1 b f0 by (auto simp: Let_def simp del: upt_Suc split: if_splits)
      qed
    qed
  qed
  then show ?thesis using assms(2) by blast
qed

lemma prio_scan_total:
  assumes "procs_ok procs" "j < 5" "runnable procs j"
  shows "i < 5 \<Longrightarrow> prio_scan procs i \<noteq> None"
proof (induction "sched_rr.gap i j" arbitrary: i rule: less_induct)
  case less
  show ?case
  proof (cases rule: prio_scan_round [of procs i])
    case neither
    let ?n = "(i + 1) mod 5"
    show ?thesis
    proof (cases "runnable procs ?n")
      case False
      then have nj: "j \<noteq> ?n" using assms(3) by blast
      have "sched_rr.gap i ?n = 0" by (rule sched_rr.gap_unique) simp_all
      then have "sched_rr.gap ?n j < sched_rr.gap i j"
        by (intro sched_rr.gap_progress) (use nj assms(2) in simp_all)
      then have "prio_scan procs ?n \<noteq> None" by (rule less.hyps) simp
      then show ?thesis using neither(1) False by simp
    qed (use neither(1) in simp)
  qed (use assms(1) in \<open>simp_all add: procs_ok_def\<close>)
qed

interpretation prio_policy: scheduling_policy prio_scan
  by unfold_locales (use prio_scan_sound prio_scan_total in blast)+

section \<open>Every interrupt keeps the invariant\<close>

lemma schedule_cases:
  assumes ok: "procs_ok (proc_array k)" and c: "current k < 5" and run: "schedule k = Run k'"
  obtains p where "k' = k\<lparr>current := p\<rparr>" "kern_ok k'"
    "scheduling_algorithm k = 0 \<Longrightarrow> rr_scan (proc_array k) (current k) = Some p"
    "scheduling_algorithm k = 1 \<Longrightarrow> strict_scan (proc_array k) (current k) = Some p"
    "scheduling_algorithm k = 2 \<Longrightarrow> prio_scan (proc_array k) (current k) = Some p"
proof -
  have pid: "p_pid (proc k (current k)) = current k" by (rule procs_okD(2) [OF ok c])
  have pick: thesis
    if pol: "scheduling_policy scan" and eq: "schedule k = (case scan (proc_array k) (current k) of Some p \<Rightarrow> run p k | None \<Rightarrow> Spin k)"
      and found: "\<And>p. scan (proc_array k) (current k) = Some p \<Longrightarrow> k' = k\<lparr>current := p\<rparr> \<Longrightarrow> kern_ok k' \<Longrightarrow> thesis" for scan
  proof -
    note D = scheduling_policy.dispatch [OF pol ok c]
    obtain p where p: "scan (proc_array k) (current k) = Some p" "k' = k\<lparr>current := p\<rparr>"
      using eq run by (auto simp: run_def split: option.splits)
    moreover have "\<exists>j < 5. runnable (proc_array k) j"
      using eq run D(1) by (auto split: if_splits)
    ultimately show thesis using found D(2) by simp
  qed
  consider "scheduling_algorithm k = 0" | "scheduling_algorithm k = 1" | "scheduling_algorithm k = 2"
    using run by (auto simp: schedule_def Let_def pid split: if_splits option.splits)
  then show thesis
  proof cases
    case 1
    show thesis by (rule pick [OF rr_policy.scheduling_policy_axioms])
      (use 1 pid that in \<open>simp_all add: schedule_def Let_def\<close>)
  next
    case 2
    show thesis by (rule pick [OF strict_policy.scheduling_policy_axioms])
      (use 2 pid that in \<open>simp_all add: schedule_def Let_def\<close>)
  next
    case 3
    show thesis by (rule pick [OF prio_policy.scheduling_policy_axioms])
      (use 3 pid that in \<open>simp_all add: schedule_def Let_def\<close>)
  qed
qed

abbreviation save_regs :: "registers \<Rightarrow> kern \<Rightarrow> kern" where
  "save_regs reg k \<equiv> upd_proc (current k) (\<lambda>p. p\<lparr>p_registers := reg\<rparr>) k"

abbreviation exited :: "u32 \<Rightarrow> kern \<Rightarrow> kern" where
  "exited status k \<equiv> upd_proc (current k) (\<lambda>p. p\<lparr>p_exit_status := status\<rparr>)
     (upd_proc (current k) (\<lambda>p. p\<lparr>p_state := P_ZOMBIE\<rparr>) k)"

lemma sched_save_regs_ok:
  assumes "kern_ok k"
  shows "kern_ok (save_regs reg k)" "procs_ok (proc_array (save_regs reg k))"
    "p_state (proc (save_regs reg k) i) = p_state (proc k i)"
    "p_priority (proc (save_regs reg k) i) = p_priority (proc k i)"
    "procs_ok (proc_array (exited s (save_regs reg k)))"
    "p_state (proc (exited s (save_regs reg k)) i) = (if i = current k then P_ZOMBIE else p_state (proc k i))"
    "p_priority (proc (exited s (save_regs reg k)) i) = p_priority (proc k i)"
proof -
  note K = sched_kern_okD [OF assms]
  have len: "length (proc_array k) = 5" "p_pid (proc k (current k)) = current k"
    using procs_okD(1,2) [OF K(1)] K(3) by auto
  show ok: "procs_ok (proc_array (save_regs reg k))"
    by (rule procs_ok_upd [OF K(1-3)]) (use len in simp)
  show "kern_ok (save_regs reg k)" using ok K len by (simp add: kern_ok_def sched_proc_upd_proc)
  show "p_state (proc (save_regs reg k) i) = p_state (proc k i)"
    "p_priority (proc (save_regs reg k) i) = p_priority (proc k i)"
    using K len by (simp_all add: sched_proc_upd_proc)
  have c: "current (save_regs reg k) = current k" by simp
  have "procs_ok (proc_array (upd_proc (current k) (\<lambda>p. p\<lparr>p_state := P_ZOMBIE\<rparr>) (save_regs reg k)))"
    by (rule procs_ok_upd [OF ok K(2,3)]) (use len K in \<open>simp add: sched_proc_upd_proc\<close>)
  then show "procs_ok (proc_array (exited s (save_regs reg k)))"
    unfolding c by (rule procs_ok_upd [OF _ K(2,3)]) (use len K in \<open>simp add: sched_proc_upd_proc\<close>)
  show "p_state (proc (exited s (save_regs reg k)) i) = (if i = current k then P_ZOMBIE else p_state (proc k i))"
    "p_priority (proc (exited s (save_regs reg k)) i) = p_priority (proc k i)"
    using K len by (simp_all add: sched_proc_upd_proc)
qed

text \<open>How an interrupt from a good state can end: what becomes of states and priorities.\<close>

lemma interrupt_frame:
  assumes ok: "kern_ok k" and run: "interrupt reg k = Run k'"
  shows "kern_ok k'"
    "p_state (proc k' i) = (if reg_intno reg = 49 \<and> i = current k then P_ZOMBIE else p_state (proc k i))"
    "p_priority (proc k' i) = (if reg_intno reg = 50 \<and> i = current k then reg_eax reg else p_priority (proc k i))"
    "scheduling_algorithm k' = scheduling_algorithm k"
proof -
  note K = sched_kern_okD [OF ok]
  note S = sched_save_regs_ok [OF ok, where reg = reg]
  have len: "length (proc_array k) = 5" "p_pid (proc k (current k)) = current k"
    using procs_okD(1,2) [OF K(1)] K(3) by auto
  have c: "current (save_regs reg k) < 5" "current (exited s (save_regs reg k)) < 5" for s using K by simp_all
  have self: "k\<lparr>current := current k\<rparr> = k" for k :: kern by simp
  have "kern_ok k' \<and> scheduling_algorithm k' = scheduling_algorithm k
    \<and> (\<forall>i. p_state (proc k' i) = (if reg_intno reg = 49 \<and> i = current k then P_ZOMBIE else p_state (proc k i))
        \<and> p_priority (proc k' i) = (if reg_intno reg = 50 \<and> i = current k then reg_eax reg else p_priority (proc k i)))"
  proof -
    consider (sched) "reg_intno reg = 48 \<or> reg_intno reg = 32" "schedule (save_regs reg k) = Run k'"
      | (exits) "reg_intno reg = 49" "schedule (exited (reg_eax reg) (save_regs reg k)) = Run k'"
      | (user1) "reg_intno reg = 50" "k' = upd_proc (current k) (\<lambda>p. p\<lparr>p_priority := reg_eax reg\<rparr>) (save_regs reg k)"
      | (user2) "reg_intno reg = 51" "k' = save_regs reg k"
      using run self [of "save_regs reg k"] self [of "upd_proc (current k) (\<lambda>p. p\<lparr>p_priority := reg_eax reg\<rparr>) (save_regs reg k)"]
      by (auto simp: interrupt_def Let_def run_def split: if_splits)
    then show ?thesis
    proof cases
      case sched
      show ?thesis by (rule schedule_cases [OF S(2) c(1) sched(2)]) (use sched(1) S(3,4) in auto)
    next
      case exits
      show ?thesis by (rule schedule_cases [OF S(5) c(2) exits(2)]) (use exits(1) S(6,7) in auto)
    next
      case user1
      have "procs_ok (proc_array k')"
        unfolding user1(2) by (rule procs_ok_upd [OF S(2) K(2,3)]) (use len K in \<open>simp add: sched_proc_upd_proc\<close>)
      then show ?thesis using user1 K len by (simp add: kern_ok_def sched_proc_upd_proc)
    next
      case user2
      then show ?thesis using S(1,3,4) by simp
    qed
  qed
  then show "kern_ok k'"
    "p_state (proc k' i) = (if reg_intno reg = 49 \<and> i = current k then P_ZOMBIE else p_state (proc k i))"
    "p_priority (proc k' i) = (if reg_intno reg = 50 \<and> i = current k then reg_eax reg else p_priority (proc k i))"
    "scheduling_algorithm k' = scheduling_algorithm k"
    by blast+
qed

lemma kern_ok_shared [simp]: "kern_ok (k\<lparr>screen := con, lock := l, phys := m\<rparr>) = kern_ok k"
  by (simp add: kern_ok_def)

lemma step_ok: "schedos_step k k' \<Longrightarrow> kern_ok k \<Longrightarrow> kern_ok k'"
  by (erule schedos_stepE, rule interrupt_frame(1), simp_all)

section \<open>Booting\<close>

lemma start_process_ok:
  assumes "start_process ramimages i k = Some k'" "procs_ok (proc_array k)" "0 < i" "i < 5"
  shows "procs_ok (proc_array k')" "p_state (proc k' j) = (if j = i then P_RUNNABLE else p_state (proc k j))"
proof -
  note P = procs_okD(1,2) [OF assms(2)]
  obtain entry m where k': "k' = upd_proc i (\<lambda>p. p\<lparr>p_registers := (p_registers p)\<lparr>reg_eip := entry\<rparr>, p_state := P_RUNNABLE\<rparr>)
      (upd_proc i (\<lambda>p. p\<lparr>p_registers :=
        special_registers_init\<lparr>reg_eflags := 0x200, reg_esp := PROC1_START + of_nat i * PROC_SIZE\<rparr>\<rparr>) k\<lparr>phys := m\<rparr>)"
    using assms(1) by (auto simp: start_process_def Let_def split: option.splits)
  let ?k1 = "upd_proc i (\<lambda>p. p\<lparr>p_registers :=
        special_registers_init\<lparr>reg_eflags := 0x200, reg_esp := PROC1_START + of_nat i * PROC_SIZE\<rparr>\<rparr>) k"
  have p1: "procs_ok (proc_array ?k1)" by (rule procs_ok_upd [OF assms(2-4)]) (use P assms(4) in simp)
  have "procs_ok (proc_array (?k1\<lparr>phys := m\<rparr>))" using p1 by simp
  then show "procs_ok (proc_array k')"
    unfolding k' by (rule procs_ok_upd [OF _ assms(3,4)]) (use P assms(4) in \<open>simp add: sched_proc_upd_proc\<close>)
  show "p_state (proc k' j) = (if j = i then P_RUNNABLE else p_state (proc k j))"
    unfolding k' using P assms(4) by (simp add: sched_proc_upd_proc)
qed

lemma start_processes_ok:
  assumes "start_processes ramimages is k = Some k'" "procs_ok (proc_array k)" "\<forall>i \<in> set is. 0 < i \<and> i < 5"
  shows "procs_ok (proc_array k') \<and> (\<forall>j. p_state (proc k' j) = (if j \<in> set is then P_RUNNABLE else p_state (proc k j)))"
  using assms
proof (induction "is" arbitrary: k)
  case (Cons i "is")
  then obtain k1 where k1: "start_process ramimages i k = Some k1" "start_processes ramimages is k1 = Some k'"
    by (auto split: option.splits)
  have i: "0 < i" "i < 5" using Cons.prems(3) by auto
  note S = start_process_ok [OF k1(1) Cons.prems(2) i]
  show ?case using Cons.IH [OF k1(2) S(1)] Cons.prems(3) S(2) by auto
qed simp

lemma sched_start_ok:
  assumes "start ramimages con l m = Run k"
  shows "kern_ok k" "current k = 1" "scheduling_algorithm k = 0"
    "0 < i \<Longrightarrow> i < 5 \<Longrightarrow> runnable (proc_array k) i"
    "map (prio (proc_array k)) [1, 2, 3, 4] = [3, 2, 1, 3]"
proof -
  let ?k0 = "\<lparr>proc_array = map empty_process [0..<5], current = 0, scheduling_algorithm = 0,
            screen = console_clear con, lock = l, phys = m\<rparr>"
  have k0: "procs_ok (proc_array ?k0)"
    by (simp add: procs_ok_def empty_process_def del: upt_Suc)
  obtain k1 where k1: "start_processes ramimages [1..<5] ?k0 = Some k1"
    and k: "k = (let k2 = upd_proc 4 (\<lambda>p. p\<lparr>p_priority := 3\<rparr>) (upd_proc 3 (\<lambda>p. p\<lparr>p_priority := 1\<rparr>)
            (upd_proc 2 (\<lambda>p. p\<lparr>p_priority := 2\<rparr>) (upd_proc 1 (\<lambda>p. p\<lparr>p_priority := 3\<rparr>) k1)))
          in k2\<lparr>screen := (screen k2)\<lparr>cursor := 0\<rparr>, scheduling_algorithm := 0, current := 1\<rparr>)"
    using assms by (auto simp: start_def Let_def run_def simp del: upt_Suc split: option.splits)
  have S: "procs_ok (proc_array k1)" "\<And>j. 0 < j \<Longrightarrow> j < 5 \<Longrightarrow> p_state (proc k1 j) = P_RUNNABLE"
    using start_processes_ok [OF k1 k0] by auto
  have len: "length (proc_array k1) = 5" by (rule procs_okD(1) [OF S(1)])
  have st: "p_state (proc k i) = p_state (proc k1 i)" "p_pid (proc k i) = p_pid (proc k1 i)" for i
    using len by (simp_all add: k Let_def sched_proc_upd_proc)
  show r: "0 < i \<Longrightarrow> i < 5 \<Longrightarrow> runnable (proc_array k) i" for i using S(2) st by simp
  show c: "current k = 1" "scheduling_algorithm k = 0" by (simp_all add: k Let_def)
  have "length (proc_array k) = 5" using len by (simp add: k Let_def)
  then show "kern_ok k" using S(1) st c(1) r [of 1] by (simp add: kern_ok_def procs_ok_def)
  show "map (prio (proc_array k)) [1, 2, 3, 4] = [3, 2, 1, 3]"
    using len by (simp add: k Let_def sched_proc_upd_proc)
qed

section \<open>Properties\<close>

lemma reach_ok: "schedos_reach k \<Longrightarrow> kern_ok k \<and> scheduling_algorithm k = 0"
proof (induction rule: schedos_reach.induct)
  case (boot ramimages con l m k)
  then show ?case using sched_start_ok(1,3) by blast
next
  case (step k k')
  from step(2) obtain reg con l m where "interrupt reg (k\<lparr>screen := con, lock := l, phys := m\<rparr>) = Run k'"
    by (rule schedos_stepE)
  from interrupt_frame(1,4) [OF _ this] step(3) show ?case by simp
qed

text \<open>C36: In every reachable state the process that runs is a runnable one, descriptor 0 is unused,
  every descriptor carries its own index as process ID, and the algorithm is the one set at
  boot.\<close>

theorem schedos_reachable_invariant:
  assumes "schedos_reach k"
  shows "0 < current k \<and> current k < NPROCS \<and> p_state (proc k (current k)) = P_RUNNABLE
    \<and> p_state (proc k 0) = P_EMPTY \<and> (\<forall>i < NPROCS. p_pid (proc k i) = i) \<and> scheduling_algorithm k = 0"
  using reach_ok [OF assms] by (auto simp: kern_ok_def procs_ok_def)

text \<open>A machine on which the kernel boots.\<close>

definition boot_screen :: console where
  "boot_screen = \<lparr>cells = \<lambda>_. 0, cursor = 0\<rparr>"

lemma schedos_boots: "\<exists>k. start [0, 0, 0, 0] boot_screen 0 boot_mem = Run k"
proof -
  have p: "program_loader [0, 0, 0, 0] i boot_mem = Some (0, boot_mem)" if "0 \<le> i" "i < 4" for i
  proof -
    have "nat i = 0 \<or> nat i = 1 \<or> nat i = 2 \<or> nat i = 3" using that by linarith
    then have "[0, 0, 0, 0] ! nat i = (0 :: nat)" by auto
    then show ?thesis using that by (simp add: program_loader_def Let_def)
  qed
  have l4: "[Suc 0..<5] = [1, 2, 3, 4 :: nat]" by (simp add: upt_rec)
  show ?thesis
    by (simp add: start_def Let_def run_def l4 start_process_def p split: option.splits del: upt_Suc)
qed

theorem schedos_reachable_invariant_witness:
  "\<exists>k. schedos_reach k \<and> p_state (proc k (current k)) = P_RUNNABLE"
proof -
  obtain k where "start [0, 0, 0, 0] boot_screen 0 boot_mem = Run k" using schedos_boots ..
  then have "schedos_reach k" by (rule schedos_reach.boot)
  then show ?thesis using schedos_reachable_invariant by blast
qed

text \<open>Exit is final: once a process has called \<open>sys_exit\<close> it is a zombie in every later state
  and never runs again.\<close>

lemma schedos_exit_final:
  assumes "kern_ok k" "reg_intno reg = INT_SYS_EXIT" "interrupt reg k = Run k'"
    "schedos_step\<^sup>*\<^sup>* k' k''"
  shows "p_state (proc k'' (current k)) = P_ZOMBIE \<and> current k'' \<noteq> current k"
proof -
  note I = interrupt_frame [OF assms(1,3)]
  have "kern_ok k'' \<and> p_state (proc k'' (current k)) = P_ZOMBIE"
    using assms(4)
  proof (induction rule: rtranclp_induct)
    case base
    then show ?case using I(1) I(2) [of "current k"] assms(2) by simp
  next
    case (step a b)
    from step(2) obtain r con l m where "interrupt r (a\<lparr>screen := con, lock := l, phys := m\<rparr>) = Run b"
      by (rule schedos_stepE)
    from interrupt_frame(1,2) [OF _ this] step(3) show ?case by simp
  qed
  then show ?thesis by (auto simp: kern_ok_def)
qed

text \<open>A state after boot in which the priority algorithm is chosen and a given process runs.\<close>

definition four_procs :: "u32 \<Rightarrow> nat \<Rightarrow> kern" where
  "four_procs alg c = \<lparr>proc_array = map (\<lambda>i. (empty_process i)
       \<lparr>p_state := (if i = 0 then P_EMPTY else P_RUNNABLE), p_priority := [0, 3, 2, 1, 3] ! i\<rparr>) [0..<5],
     current = c, scheduling_algorithm = alg, screen = boot_screen, lock = 0, phys = boot_mem\<rparr>"

lemma four_procs_proc:
  "i < 5 \<Longrightarrow> proc (four_procs alg c) i = (empty_process i)
       \<lparr>p_state := (if i = 0 then P_EMPTY else P_RUNNABLE), p_priority := [0, 3, 2, 1, 3] ! i\<rparr>"
  by (simp add: four_procs_def del: upt_Suc)

lemma four_procs_simps [simp]:
  "current (four_procs alg c) = c" "scheduling_algorithm (four_procs alg c) = alg"
  by (simp_all add: four_procs_def)

lemma four_procs_ok: "0 < c \<Longrightarrow> c < 5 \<Longrightarrow> kern_ok (four_procs alg c)"
proof -
  assume c: "0 < c" "c < 5"
  have "length (proc_array (four_procs alg c)) = 5" by (simp add: four_procs_def)
  then show ?thesis using c by (auto simp: kern_ok_def procs_ok_def four_procs_proc empty_process_def)
qed

text \<open>With some other process runnable, an interrupt that reschedules ends in a running process.\<close>

lemma schedule_runs:
  assumes "procs_ok (proc_array k)" "current k < 5" "scheduling_algorithm k \<in> {0, 1, 2}" "j < 5" "runnable (proc_array k) j"
  shows "\<exists>k'. schedule k = Run k'"
proof -
  have pid: "p_pid (proc k (current k)) = current k" by (rule procs_okD(2) [OF assms(1,2)])
  have ex: "\<exists>j < 5. runnable (proc_array k) j" using assms(4,5) by blast
  show ?thesis
    using assms(3) rr_policy.dispatch(1) [OF assms(1,2)] strict_policy.dispatch(1) [OF assms(1,2)]
      prio_policy.dispatch(1) [OF assms(1,2)] ex
    by (auto simp: schedule_def Let_def pid)
qed

lemma schedos_exit_final_witness:
  "\<exists>k'. interrupt (sys_exit 0 zero_registers) (four_procs 2 3) = Run k'
    \<and> (\<forall>k''. schedos_step\<^sup>*\<^sup>* k' k'' \<longrightarrow> current k'' \<noteq> 3)"
proof -
  let ?r = "sys_exit 0 zero_registers"
  have ok: "kern_ok (four_procs 2 3)" by (rule four_procs_ok) simp_all
  note S = sched_save_regs_ok [OF ok, where reg = ?r]
  have "p_state (proc (exited 0 (save_regs ?r (four_procs 2 3))) 1) = P_RUNNABLE"
    using S(6) [of 0 1] by (simp add: four_procs_proc)
  then obtain k' where "schedule (exited 0 (save_regs ?r (four_procs 2 3))) = Run k'"
    using schedule_runs [where j = 1, OF S(5)] by auto
  then have i: "interrupt ?r (four_procs 2 3) = Run k'" by (simp add: interrupt_def Let_def sys_exit_def zero_registers_def)
  have "current k'' \<noteq> 3" if "schedos_step\<^sup>*\<^sup>* k' k''" for k''
    using schedos_exit_final [OF ok _ i that] by (simp add: sys_exit_def)
  then show ?thesis using i by blast
qed

text \<open>The processes that can run after an interrupt: that which exits cannot.\<close>

definition ready :: "registers \<Rightarrow> kern \<Rightarrow> nat \<Rightarrow> bool" where
  "ready reg k i \<longleftrightarrow> p_state (proc k i) = P_RUNNABLE \<and> \<not> (reg_intno reg = INT_SYS_EXIT \<and> i = current k)"

lemma round_robin_schedule:
  assumes "procs_ok (proc_array k)" "current k < 5" "scheduling_algorithm k = 0"
  shows "if \<exists>i < 5. runnable (proc_array k) i
     then \<exists>p < 5. schedule k = Run (k\<lparr>current := p\<rparr>) \<and> runnable (proc_array k) p
       \<and> (\<forall>i < 5. runnable (proc_array k) i \<longrightarrow> (p + 5 - Suc (current k)) mod 5 \<le> (i + 5 - Suc (current k)) mod 5)
     else schedule k = Spin k"
proof -
  have pid: "p_pid (proc k (current k)) = current k" by (rule procs_okD(2) [OF assms(1,2)])
  have g: "sched_rr.gap (current k) i = (i + 5 - Suc (current k)) mod 5" for i
    using assms(2) by (simp add: sched_rr.gap_def)
  show ?thesis
  proof (cases "\<exists>i < 5. runnable (proc_array k) i")
    case True
    then obtain p where "rr_scan (proc_array k) (current k) = Some p" "p < 5" "runnable (proc_array k) p"
      "\<forall>l < 5. runnable (proc_array k) l \<longrightarrow> sched_rr.gap (current k) p \<le> sched_rr.gap (current k) l"
      using sched_rr.scan_total [where s = "proc_array k" and i = "current k"] by blast
    then show ?thesis using True assms(3) pid unfolding g by (auto simp: schedule_def Let_def run_def)
  next
    case False
    then have "rr_scan (proc_array k) (current k) = None" by (simp add: sched_rr.scan_none)
    then show ?thesis using False assms(3) pid by (simp add: schedule_def Let_def)
  qed
qed

text \<open>C13: The scheduling of SchedOS as it is built, with round robin: whenever a process yields or exits or the clock
  interrupts it, in whatever state the system has come to and whatever the processes have done to memory, screen and lock,
  the kernel goes on with the first process after it in cyclic order that can run; it stops for ever exactly when there is
  none. An exit makes the process a zombie, and no other state changes.\<close>

theorem schedos_round_robin:
  assumes "schedos_reach k0" "k = k0\<lparr>screen := con, lock := l, phys := m\<rparr>"
    "reg_intno reg = INT_SYS_YIELD \<or> reg_intno reg = INT_SYS_EXIT \<or> reg_intno reg = INT_CLOCK"
  shows "if \<exists>i < NPROCS. ready reg k i
     then \<exists>k'. interrupt reg k = Run k' \<and> current k' < NPROCS \<and> ready reg k (current k')
       \<and> (\<forall>i < NPROCS. ready reg k i \<longrightarrow>
            (current k' + 5 - Suc (current k)) mod 5 \<le> (i + 5 - Suc (current k)) mod 5)
       \<and> (\<forall>i. p_state (proc k' i) = (if reg_intno reg = INT_SYS_EXIT \<and> i = current k then P_ZOMBIE else p_state (proc k i)))
     else \<exists>k'. interrupt reg k = Spin k'"
proof -
  have ok: "kern_ok k" "scheduling_algorithm k = 0" using reach_ok [OF assms(1)] assms(2) by (simp_all add: kern_ok_def)
  note K = sched_kern_okD [OF ok(1)] and S = sched_save_regs_ok [OF ok(1), where reg = reg]
  define k1 where "k1 = (if reg_intno reg = INT_SYS_EXIT then exited (reg_eax reg) (save_regs reg k) else save_regs reg k)"
  have i: "interrupt reg k = schedule k1" using assms(3) by (auto simp: interrupt_def k1_def Let_def)
  have st: "runnable (proc_array k1) i = ready reg k i" for i using S(3,6) by (simp add: k1_def ready_def)
  have c: "current k1 = current k" "scheduling_algorithm k1 = 0" "procs_ok (proc_array k1)"
    using S(2,5) ok(2) by (simp_all add: k1_def)
  note R = round_robin_schedule [OF c(3) _ c(2), unfolded c(1) st, OF K(3)]
  show ?thesis
  proof (cases "\<exists>i < NPROCS. ready reg k i")
    case True
    then obtain p where p: "p < 5" "schedule k1 = Run (k1\<lparr>current := p\<rparr>)" "ready reg k p"
      "\<forall>i < 5. ready reg k i \<longrightarrow> (p + 5 - Suc (current k)) mod 5 \<le> (i + 5 - Suc (current k)) mod 5"
      using R by auto
    have run: "interrupt reg k = Run (k1\<lparr>current := p\<rparr>)" using i p(2) by simp
    show ?thesis using True p run interrupt_frame(2) [OF ok(1) run] by (auto intro!: exI [of _ "k1\<lparr>current := p\<rparr>"])
  next
    case False
    then show ?thesis using R i by auto
  qed
qed

text \<open>After boot, process 1 runs; when it exits, process 2 does.\<close>

theorem schedos_round_robin_witness:
  "\<exists>k k'. schedos_reach k \<and> current k = 1 \<and> interrupt (sys_exit 0 zero_registers) k = Run k' \<and> current k' = 2
     \<and> p_state (proc k' 1) = P_ZOMBIE"
proof -
  obtain k where k: "start [0, 0, 0, 0] boot_screen 0 boot_mem = Run k" using schedos_boots ..
  then have r: "schedos_reach k" by (rule schedos_reach.boot)
  note B = sched_start_ok(2,4) [OF k]
  let ?r = "sys_exit 0 zero_registers"
  have x: "reg_intno ?r = INT_SYS_EXIT" by (simp add: sys_exit_def)
  have 2: "ready ?r k 2" using B by (simp add: ready_def)
  have ex: "\<exists>i < NPROCS. ready ?r k i" using 2 by (intro exI [of _ 2]) simp
  have "k = k\<lparr>screen := screen k, lock := lock k, phys := phys k\<rparr>" by simp
  from schedos_round_robin [OF r this disjI2 [OF disjI1 [OF x]], unfolded if_P [OF ex]]
  obtain k' where k': "interrupt ?r k = Run k'" "current k' < NPROCS"
    "\<forall>i < NPROCS. ready ?r k i \<longrightarrow> (current k' + 5 - Suc (current k)) mod 5 \<le> (i + 5 - Suc (current k)) mod 5"
    "p_state (proc k' 1) = P_ZOMBIE" using B(1) x by (auto simp: if_True)
  have "(3 + current k') mod 5 = 0" using spec [OF k'(3), of 2] 2 B(1) by simp
  moreover have "current k' \<in> {0, 1, 2, 3, 4}" using k'(2) by auto
  ultimately have "current k' = 2" by auto
  then show ?thesis using r B(1) k'(1,4) by blast
qed

text \<open>The priority algorithm, at a yield or a clock interrupt, in a kernel whose \<open>start\<close> was changed to choose it
  (\<open>scheduling_algorithm = 2\<close>; as it is built the kernel never uses it): the kernel goes on with a runnable
  process of the smallest priority number; if that is the priority of the interrupted process,
  with the first one after it in cyclic order, so that processes of the same priority take
  turns, and otherwise with the one of the smallest process ID.\<close>

lemma schedos_priority_pick:
  assumes "kern_ok k" "scheduling_algorithm k = 2" "reg_intno reg = INT_SYS_YIELD \<or> reg_intno reg = INT_CLOCK"
  shows "\<exists>k'. interrupt reg k = Run k' \<and> p_state (proc k' (current k')) = P_RUNNABLE
    \<and> (\<forall>i < NPROCS. p_state (proc k i) = P_RUNNABLE \<longrightarrow>
         sint (p_priority (proc k (current k'))) \<le> sint (p_priority (proc k i))
         \<and> (p_priority (proc k i) = p_priority (proc k (current k')) \<longrightarrow>
              (if p_priority (proc k i) = p_priority (proc k (current k))
               then (current k' + 5 - Suc (current k)) mod 5 \<le> (i + 5 - Suc (current k)) mod 5
               else current k' \<le> i)))"
proof -
  note K = sched_kern_okD [OF assms(1)]
  note S = sched_save_regs_ok [OF assms(1), where reg = reg]
  let ?k1 = "save_regs reg k"
  let ?ps = "proc_array (save_regs reg k)"
  have c: "current ?k1 < 5" using K(3) by simp
  have rc: "runnable ?ps (current k)" using S(3) K(4) by simp
  obtain k' where sch: "schedule ?k1 = Run k'"
    using schedule_runs [OF S(2) c _ K(3) rc] assms(2) by auto
  then have run: "interrupt reg k = Run k'" using assms(3) by (auto simp: interrupt_def Let_def)
  note I = interrupt_frame [OF assms(1) run]
  obtain p where p: "k' = ?k1\<lparr>current := p\<rparr>" "prio_scan ?ps (current k) = Some p"
    using schedule_cases [OF S(2) c sch] assms(2) by (metis sched_upd_proc_simps(2,5))
  have g: "sched_rr.gap (current k) i = (i + 5 - Suc (current k)) mod 5" for i
    using K(3) by (simp add: sched_rr.gap_def)
  have all: "\<forall>i < 5. runnable ?ps i \<longrightarrow> prio ?ps p \<le> prio ?ps i
    \<and> (prio ?ps i = prio ?ps p \<longrightarrow>
        (if prio ?ps i = prio ?ps (current k) then sched_rr.gap (current k) p \<le> sched_rr.gap (current k) i
         else p \<le> i))"
  proof (cases rule: prio_scan_round [of "?ps" "current k"])
    case (better f)
    then show ?thesis using p(2) by auto
  next
    case (equal j)
    then show ?thesis using p(2) by auto
  next
    case neither
    then show ?thesis using rc K(3) by fastforce
  next
    case zero
    then show ?thesis using procs_okD(4) [OF S(2) zero] by simp
  qed
  have cur: "p = current k'" using p(1) by simp
  note best = all [unfolded S(3,4) g word_eq_iff_signed [symmetric] cur]
  show ?thesis using run sched_kern_okD(4) [OF I(1)] best by blast
qed

lemma schedos_priority_pick_witness:
  "\<exists>k'. interrupt (sys_yield zero_registers) (four_procs 2 1) = Run k' \<and> current k' = 3"
proof -
  have ok: "kern_ok (four_procs 2 1)" by (rule four_procs_ok) simp_all
  obtain k' where k': "interrupt (sys_yield zero_registers) (four_procs 2 1) = Run k'"
    "p_state (proc k' (current k')) = P_RUNNABLE"
    "sint (p_priority (proc (four_procs 2 1) (current k'))) \<le> sint (p_priority (proc (four_procs 2 1) 3))"
    using schedos_priority_pick [OF ok, of "sys_yield zero_registers"]
    by (auto simp: sys_yield_def four_procs_proc dest!: spec [of _ "3 :: nat"])
  have "kern_ok k'" by (rule interrupt_frame(1) [OF ok k'(1)])
  then have "0 < current k'" "current k' < 5" by (simp_all add: kern_ok_def)
  then have "current k' = 1 \<or> current k' = 2 \<or> current k' = 3 \<or> current k' = 4" by linarith
  then have "current k' = 3" using k'(3) by (auto simp: four_procs_proc)
  then show ?thesis using k'(1) by blast
qed

text \<open>The other two algorithms at a yield or a clock interrupt: algorithm 0 goes on with the first
  runnable process after the interrupted one in cyclic order, algorithm 1 with the runnable
  process of the smallest ID, whoever was interrupted.\<close>

lemma schedos_round_robin_pick:
  assumes "kern_ok k" "scheduling_algorithm k = 0 \<or> scheduling_algorithm k = 1"
    "reg_intno reg = INT_SYS_YIELD \<or> reg_intno reg = INT_CLOCK"
  shows "\<exists>k'. interrupt reg k = Run k' \<and> p_state (proc k' (current k')) = P_RUNNABLE
    \<and> (\<forall>i < NPROCS. p_state (proc k i) = P_RUNNABLE \<longrightarrow>
         (if scheduling_algorithm k = 0
          then (current k' + 5 - Suc (current k)) mod 5 \<le> (i + 5 - Suc (current k)) mod 5
          else current k' \<le> i))"
proof -
  note K = sched_kern_okD [OF assms(1)]
  note S = sched_save_regs_ok [OF assms(1), where reg = reg]
  let ?k1 = "save_regs reg k"
  let ?ps = "proc_array (save_regs reg k)"
  have c: "current ?k1 < 5" using K(3) by simp
  have rc: "runnable ?ps (current k)" using S(3) K(4) by simp
  obtain k' where sch: "schedule ?k1 = Run k'"
    using schedule_runs [OF S(2) c _ K(3) rc] assms(2) by auto
  then have run: "interrupt reg k = Run k'" using assms(3) by (auto simp: interrupt_def Let_def)
  note I = interrupt_frame [OF assms(1) run]
  obtain p where p: "k' = ?k1\<lparr>current := p\<rparr>"
    "rr_scan ?ps (if scheduling_algorithm k = 0 then current k else 0) = Some p"
    by (rule schedule_cases [OF S(2) c sch]) (use assms(2) in \<open>auto simp: strict_scan_def\<close>)
  have near: "\<forall>l < 5. runnable ?ps l \<longrightarrow>
      sched_rr.gap (if scheduling_algorithm k = 0 then current k else 0) p
      \<le> sched_rr.gap (if scheduling_algorithm k = 0 then current k else 0) l"
    using sched_rr.scan_total [where s = ?ps and i = "if scheduling_algorithm k = 0 then current k else 0", OF K(3) rc]
      p(2) by fastforce
  have p5: "p \<noteq> 0" "p < 5" using sched_rr.scan_sound [OF p(2)] procs_okD(4) [OF S(2)] by auto
  have first: "sched_rr.gap 0 i = i - 1" if "i \<noteq> 0" "i < 5" for i
    using that by (simp add: sched_rr.gap_def mod_if)
  have g: "sched_rr.gap (current k) i = (i + 5 - Suc (current k)) mod 5" for i
    using K(3) by (simp add: sched_rr.gap_def)
  have all: "\<forall>i < 5. runnable ?ps i \<longrightarrow>
         (if scheduling_algorithm k = 0
          then sched_rr.gap (current k) p \<le> sched_rr.gap (current k) i else p \<le> i)"
  proof (intro allI impI)
    fix i assume i: "i < 5" "runnable ?ps i"
    have i0: "i \<noteq> 0" using procs_okD(4) [OF S(2) i(2)] by simp
    show "if scheduling_algorithm k = 0
          then sched_rr.gap (current k) p \<le> sched_rr.gap (current k) i else p \<le> i"
      using near [rule_format, OF i] first [OF p5] first [OF i0 i(1)] i0 p5(1) by (simp split: if_splits)
  qed
  have cur: "p = current k'" using p(1) by simp
  note best = all [unfolded S(3) g cur]
  show ?thesis using run sched_kern_okD(4) [OF I(1)] best by blast
qed

lemma schedos_round_robin_pick_witness:
  "(\<exists>k'. interrupt (zero_registers\<lparr>reg_intno := 32\<rparr>) (four_procs 1 3) = Run k' \<and> current k' = 1)"
proof -
  let ?r = "zero_registers\<lparr>reg_intno := 32\<rparr>"
  have ok: "kern_ok (four_procs 1 3)" by (rule four_procs_ok) simp_all
  obtain k' where k': "interrupt ?r (four_procs 1 3) = Run k'" "current k' \<le> 1"
    using schedos_round_robin_pick [OF ok, of ?r] by (auto simp: four_procs_proc dest!: spec [of _ "1 :: nat"])
  have "kern_ok k'" by (rule interrupt_frame(1) [OF ok k'(1)])
  then have "current k' = 1" using k'(2) by (simp add: kern_ok_def)
  then show ?thesis using k'(1) by blast
qed

text \<open>The priority algorithm when a process exits: if every other runnable process has a greater
  priority number than the one that exits, and the next descriptor is runnable, that one runs,
  even when a process of a smaller priority number is ready.\<close>

theorem schedos_priority_exit:
  assumes "kern_ok k" "scheduling_algorithm k = 2" "reg_intno reg = INT_SYS_EXIT"
    "p_state (proc k ((current k + 1) mod 5)) = P_RUNNABLE"
    "\<forall>i < NPROCS. i \<noteq> current k \<and> p_state (proc k i) = P_RUNNABLE \<longrightarrow>
       sint (p_priority (proc k (current k))) < sint (p_priority (proc k i))"
  shows "\<exists>k'. interrupt reg k = Run k' \<and> current k' = (current k + 1) mod 5"
proof -
  note K = sched_kern_okD [OF assms(1)]
  note S = sched_save_regs_ok [OF assms(1), where reg = reg]
  let ?k1 = "exited (reg_eax reg) (save_regs reg k)"
  let ?n = "(current k + 1) mod 5"
  have c: "current ?k1 < 5" using K(3) by simp
  have st: "p_state (proc ?k1 i) = (if i = current k then P_ZOMBIE else p_state (proc k i))"
    "p_priority (proc ?k1 i) = p_priority (proc k i)" for i using S(6,7) by blast+
  have nc: "?n \<noteq> current k" using K(3) by (simp add: mod_Suc)
  have rn: "runnable (proc_array ?k1) ?n" unfolding st(1) using nc assms(4) by simp
  have worse: "\<forall>i < 5. runnable (proc_array ?k1) i \<longrightarrow> prio (proc_array ?k1) (current k) < prio (proc_array ?k1) i"
    unfolding st using assms(5) by simp
  obtain k' where sch: "schedule ?k1 = Run k'"
    using schedule_runs [OF S(5) c _ _ rn] assms(2) by auto
  then have run: "interrupt reg k = Run k'" using assms(3) by (simp add: interrupt_def Let_def)
  obtain p where p: "k' = ?k1\<lparr>current := p\<rparr>" "prio_scan (proc_array ?k1) (current k) = Some p"
    using schedule_cases [OF S(5) c sch] assms(2) by (metis sched_upd_proc_simps(2,5))
  have "p = ?n"
  proof (cases rule: prio_scan_round [of "proc_array ?k1" "current k"])
    case (better f)
    then show ?thesis using worse by fastforce
  next
    case (equal j)
    then show ?thesis using worse by fastforce
  next
    case neither
    then show ?thesis using p(2) rn by simp
  next
    case zero
    then show ?thesis using procs_okD(4) [OF S(5) zero] by simp
  qed
  then show ?thesis using run p(1) by (intro exI [of _ k']) simp
qed

text \<open>With the priorities set at boot: when process 3 (priority 1) exits, process 4 (priority 3)
  runs although process 2 (priority 2) is ready.\<close>

theorem schedos_priority_exit_witness:
  "\<exists>k'. interrupt (sys_exit 0 zero_registers) (four_procs 2 3) = Run k' \<and> current k' = 4
    \<and> p_state (proc (four_procs 2 3) 2) = P_RUNNABLE
    \<and> sint (p_priority (proc (four_procs 2 3) 2)) < sint (p_priority (proc (four_procs 2 3) 4))"
proof -
  have ok: "kern_ok (four_procs 2 3)" by (rule four_procs_ok) simp_all
  have "\<forall>i < 5. i \<noteq> 3 \<and> p_state (proc (four_procs 2 3) i) = P_RUNNABLE \<longrightarrow>
      sint (p_priority (proc (four_procs 2 3) 3)) < sint (p_priority (proc (four_procs 2 3) i))"
  proof (intro allI impI)
    fix i :: nat assume i: "i < 5" "i \<noteq> 3 \<and> p_state (proc (four_procs 2 3) i) = P_RUNNABLE"
    moreover have "p_state (proc (four_procs 2 3) 0) = P_EMPTY" by (simp add: four_procs_proc)
    ultimately have "i \<noteq> 0" by (intro notI) simp
    then have "i = 1 \<or> i = 2 \<or> i = 4" using i by (auto simp: less_Suc_eq numeral_eq_Suc)
    then show "sint (p_priority (proc (four_procs 2 3) 3)) < sint (p_priority (proc (four_procs 2 3) i))"
      by (auto simp: four_procs_proc)
  qed
  then show ?thesis
    using schedos_priority_exit [OF ok, of "sys_exit 0 zero_registers"]
    by (simp add: sys_exit_def four_procs_proc)
qed

text \<open>
  Applications that trap only through the functions of \<open>schedos-app.h\<close>, and the clock.
\<close>

inductive app_step :: "kern \<Rightarrow> kern \<Rightarrow> bool" where
  yields: "interrupt (sys_yield r) (k\<lparr>screen := con, lock := l, phys := m\<rparr>) = Run k' \<Longrightarrow> app_step k k'"
| exits: "interrupt (sys_exit v r) (k\<lparr>screen := con, lock := l, phys := m\<rparr>) = Run k' \<Longrightarrow> app_step k k'"
| sets: "interrupt (sys_set_priority v r) (k\<lparr>screen := con, lock := l, phys := m\<rparr>) = Run k' \<Longrightarrow> app_step k k'"
| clock: "interrupt (r\<lparr>reg_intno := INT_CLOCK\<rparr>) (k\<lparr>screen := con, lock := l, phys := m\<rparr>) = Run k' \<Longrightarrow> app_step k k'"

lemma app_step_priority:
  assumes "app_step k k'" "kern_ok k"
  shows "kern_ok k' \<and> (\<forall>i. p_priority (proc k' i) = p_priority (proc k i))"
proof -
  obtain reg con l m where r: "interrupt reg (k\<lparr>screen := con, lock := l, phys := m\<rparr>) = Run k'" "reg_intno reg \<noteq> 50"
    using assms(1) by (cases rule: app_step.cases) (force simp: sys_yield_def sys_exit_def sys_set_priority_def)+
  show ?thesis using interrupt_frame(1,3) [OF _ r(1)] r(2) assms(2) by simp
qed

text \<open>\<open>sys_set_priority\<close> traps with the number of the second user call, while the kernel changes the
  priority at the first: applications that use the functions of \<open>schedos-app.h\<close> never change a
  priority, in any run from boot.\<close>

lemma schedos_set_priority_has_no_effect:
  assumes "start ramimages con l m = Run k0" "app_step\<^sup>*\<^sup>* k0 k"
  shows "map (\<lambda>i. sint (p_priority (proc k i))) [1, 2, 3, 4] = [3, 2, 1, 3]"
proof -
  have "kern_ok k \<and> (\<forall>i. p_priority (proc k i) = p_priority (proc k0 i))"
    using assms(2)
  proof (induction rule: rtranclp_induct)
    case base
    then show ?case using sched_start_ok(1) [OF assms(1)] by simp
  next
    case (step a b)
    then show ?case using app_step_priority by fastforce
  qed
  then show ?thesis using sched_start_ok(5) [OF assms(1)] by simp
qed

lemma schedos_set_priority_has_no_effect_witness:
  "\<exists>k0 k. start [0, 0, 0, 0] boot_screen 0 boot_mem = Run k0
    \<and> interrupt (sys_set_priority 7 zero_registers) k0 = Run k
    \<and> map (\<lambda>i. sint (p_priority (proc k i))) [1, 2, 3, 4] = [3, 2, 1, 3]"
proof -
  obtain k0 where k0: "start [0, 0, 0, 0] boot_screen 0 boot_mem = Run k0" using schedos_boots ..
  have "k0 = k0\<lparr>screen := screen k0, lock := lock k0, phys := phys k0\<rparr>" by simp
  moreover obtain k where k: "interrupt (sys_set_priority 7 zero_registers) k0 = Run k"
    by (simp add: interrupt_def Let_def sys_set_priority_def run_def)
  ultimately have "app_step k0 k" by (metis app_step.sets)
  then show ?thesis using schedos_set_priority_has_no_effect [OF k0 r_into_rtranclp] k0 k by blast
qed

end
