(* ===== verification/ImageText.thy ===== *)
theory ImageText
  imports CharType
begin

text \<open>
  The tool that prints a disk image as an array of C, \<open>lab3/fsimgtoc.c\<close>, with which the file system module is
  compiled, and what the array that it prints holds.
\<close>

section \<open>The tool\<close>

abbreviation (input) "newline \<equiv> CHR 0x0A"

definition designated_initializers :: bool where
  "designated_initializers = True"

text \<open>The loop over the bytes; \<open>n\<close>, \<open>last1\<close> (\<open>last\<close>) and \<open>printed\<close> count at most the bytes of a file, so they do not wrap.\<close>

fun print_bytes :: "nat \<Rightarrow> nat \<Rightarrow> nat \<Rightarrow> u8 list \<Rightarrow> string" where
  "print_bytes n last1 printed [] = []"
| "print_bytes n last1 printed (c # cs) =
     (if c = 0 \<and> designated_initializers then print_bytes (n + 1) last1 printed cs
      else (if last1 + 4 \<le> n then ''['' @ show_nat n @ '']='' else concat (replicate (n - last1) ''0,''))
        @ show_nat (unat c) @ '',''
        @ (if (printed + 1) mod 19 = 0 then [newline] else [])
        @ print_bytes (n + 1) (n + 1) (printed + 1) cs)"

definition print_image :: "u8 list \<Rightarrow> nat \<Rightarrow> string" where
  "print_image f len =
     ''unsigned char ospfs_data['' @ show_nat len @ ''] = {'' @ [newline] @ print_bytes 0 0 0 f
       @ ''};'' @ [newline] @ ''uint32_t ospfs_length = '' @ show_nat len @ '';'' @ [newline]"

definition headers :: string where
  "headers = ''#include <linux/autoconf.h>'' @ [newline] @ ''#include <linux/version.h>'' @ [newline]
     @ ''#include <linux/module.h>'' @ [newline] @ ''#include <linux/types.h>'' @ [newline, newline]"

text \<open>
  The program on its arguments: the contents of the files that can be opened for reading (\<open>None\<close>: the standard
  input) with whether one can seek in them, and the names that can be opened for writing. \<open>None\<close> is exit 1; else
  the name of the output (\<open>None\<close>: the standard output) and what is written to it.
\<close>

definition named :: "string list \<Rightarrow> nat \<Rightarrow> string option" where
  "named args i = (if i < length args \<and> args ! i \<noteq> ''-'' then Some (args ! i) else None)"

definition fsimgtoc :: "string list \<Rightarrow> (string option \<Rightarrow> (u8 list \<times> bool) option) \<Rightarrow> (string \<Rightarrow> bool) \<Rightarrow>
    (string option \<times> string) option" where
  "fsimgtoc args reads writes =
     (if length args > 2 then None
      else if pred_option writes (named args 1)
      then (case reads (named args 0) of
              None \<Rightarrow> None
            | Some (f, seeks) \<Rightarrow> if seeks then Some (named args 1, headers @ print_image f (length f)) else None)
      else None)"

section \<open>Truncating an image\<close>

text \<open>
  \<open>truncate.c\<close>: the status, and the call that it makes if it is given two arguments; \<open>atoi\<close> reads as much of a
  number as there is.
\<close>

definition atoi :: "string \<Rightarrow> int" where
  "atoi str =
     (let t = dropWhile is_space str; neg = (t \<noteq> [] \<and> hd t = CHR ''-'');
          t = (if t \<noteq> [] \<and> (hd t = CHR ''-'' \<or> hd t = CHR ''+'') then tl t else t);
          n = int (read_digits 0 (takeWhile is_digit t))
      in if neg then - n else n)"

definition truncate_main :: "string list \<Rightarrow> (string \<Rightarrow> int \<Rightarrow> bool) \<Rightarrow> nat \<times> (string \<times> int) option" where
  "truncate_main args truncates =
     (case args of
        [filename, len] \<Rightarrow> (if truncates filename (atoi len) then 0 else 1, Some (filename, atoi len))
      | _ \<Rightarrow> (1, None))"

section \<open>What the array holds\<close>

text \<open>
  The items of the initializer of an array of bytes as a compiler reads them: a number goes to the next place, or to
  the one that is designated before it. A number with a leading zero and more digits is not read as decimal.
\<close>

datatype item = Start | In_value nat | Open_index | In_index nat | After_index nat

fun initializer :: "item \<Rightarrow> nat \<Rightarrow> u8 list \<Rightarrow> string \<Rightarrow> u8 list option" where
  "initializer m pos a [] = (if m = Start then Some a else None)"
| "initializer m pos a (c # cs) =
     (case m of
        Start \<Rightarrow>
          if c = newline then initializer Start pos a cs
          else if is_digit c then initializer (In_value (digit_of c)) pos a cs
          else if c = CHR ''['' then initializer Open_index pos a cs
          else None
      | In_value v \<Rightarrow>
          if is_digit c \<and> v \<noteq> 0 then initializer (In_value (10 * v + digit_of c)) pos a cs
          else if c = CHR '','' \<and> v < 256 \<and> pos < length a
          then initializer Start (pos + 1) (a[pos := of_nat v]) cs
          else None
      | Open_index \<Rightarrow> if is_digit c then initializer (In_index (digit_of c)) pos a cs else None
      | In_index i \<Rightarrow>
          if is_digit c \<and> i \<noteq> 0 then initializer (In_index (10 * i + digit_of c)) pos a cs
          else if c = CHR '']'' then initializer (After_index i) pos a cs
          else None
      | After_index i \<Rightarrow> if c = CHR ''='' then initializer Start i a cs else None)"

text \<open>The array of a declaration with its length: what no item sets is 0.\<close>

definition array_head :: string where "array_head = ''unsigned char ospfs_data[''"
definition array_open :: string where "array_open = ''] = {'' @ [newline]"
definition array_close :: string where "array_close = ''};'' @ [newline] @ ''uint32_t ospfs_length = ''"

text \<open>The bytes, and the number after them.\<close>

definition array_contents :: "string \<Rightarrow> (u8 list \<times> nat) option" where
  "array_contents t =
     (let len = takeWhile is_digit (drop (length array_head) t);
          rest = drop (length array_head + length len) t;
          body = takeWhile (\<lambda>c. c \<noteq> CHR ''}'') (drop (length array_open) rest);
          end_rest = drop (length array_open + length body) rest;
          len2 = takeWhile is_digit (drop (length array_close) end_rest)
      in if take (length array_head) t = array_head \<and> take (length array_open) rest = array_open
           \<and> take (length array_close) end_rest = array_close
           \<and> drop (length array_close + length len2) end_rest = '';'' @ [newline]
         then map_option (\<lambda>a. (a, read_digits 0 len2)) (initializer Start 0 (replicate (read_digits 0 len) 0) body)
         else None)"

section \<open>The round trip\<close>

lemma digits_cons:
  assumes "0 < v"
  obtains c cs where "show_nat v = c # cs" "is_digit c" "list_all is_digit cs" "digit_of c \<noteq> 0" "read_digits (digit_of c) cs = v"
proof -
  obtain c cs where s: "show_nat v = c # cs" using show_nat_digits(2) by (cases "show_nat v") auto
  show ?thesis
    using that [OF s] show_nat_digits(1) [of v] hd_show_nat [OF assms] read_show_nat [of v] by (simp add: s)
qed

lemma show_zero: "show_nat 0 = ''0''"
  by code_simp

lemma read_digits_pos: "0 < v \<Longrightarrow> 0 < read_digits v cs"
  by (induction v cs rule: read_digits.induct) simp_all

lemma initializer_digits:
  "list_all is_digit cs \<Longrightarrow> 0 < v \<Longrightarrow> initializer (In_value v) pos a (cs @ rest) = initializer (In_value (read_digits v cs)) pos a rest"
  "list_all is_digit cs \<Longrightarrow> 0 < v \<Longrightarrow> initializer (In_index v) pos a (cs @ rest) = initializer (In_index (read_digits v cs)) pos a rest"
  by (induction v cs rule: read_digits.induct) simp_all

lemma digit_none: "\<not> is_digit CHR '',''" "\<not> is_digit CHR '']''" "\<not> is_digit CHR ''[''" "\<not> is_digit newline" "is_digit CHR ''0''"
  "digit_of CHR ''0'' = 0"
  by (simp_all add: is_digit_def digit_of_def)

lemma initializer_value:
  assumes "v < 256" "pos < length a"
  shows "initializer Start pos a (show_nat v @ CHR '','' # rest) = initializer Start (pos + 1) (a[pos := of_nat v]) rest"
proof (cases "v = 0")
  case False
  then obtain c cs where "show_nat v = c # cs" "is_digit c" "list_all is_digit cs" "digit_of c \<noteq> 0" "read_digits (digit_of c) cs = v"
    using digits_cons by blast
  moreover have "c \<noteq> newline" using \<open>is_digit c\<close> digit_none by auto
  ultimately show ?thesis using assms by (simp add: initializer_digits digit_none)
qed (use assms in \<open>simp add: show_zero digit_none\<close>)

lemma initializer_index:
  "0 < i \<Longrightarrow> initializer Start pos a (CHR ''['' # show_nat i @ CHR '']'' # CHR ''='' # rest) = initializer Start i a rest"
  by (erule digits_cons [of i]) (simp add: initializer_digits digit_none)

lemma initializer_zeros:
  "pos + k \<le> length a \<Longrightarrow> \<forall>i < length a. pos \<le> i \<longrightarrow> a ! i = 0 \<Longrightarrow>
    initializer Start pos a (concat (replicate k ''0,'') @ rest) = initializer Start (pos + k) a rest"
proof (induction k arbitrary: pos)
  case (Suc k)
  have "a ! pos = 0" using Suc.prems by simp
  then have "a[pos := 0] = a" by (metis list_update_id)
  then have "initializer Start pos a (''0,'' @ rest) = initializer Start (pos + 1) a rest" for rest
    using initializer_value [of 0 pos a rest] Suc.prems by (simp only: show_zero) simp
  from this [of "concat (replicate k ''0,'') @ rest"] show ?case using Suc.IH [of "pos + 1"] Suc.prems by simp
qed simp

lemma initializer_newline: "initializer Start pos a ((if b then [newline] else []) @ rest) = initializer Start pos a rest"
  by simp

lemma print_bytes_read:
  "l \<le> n \<Longrightarrow> n + length cs \<le> length a \<Longrightarrow> \<forall>i < length a. l \<le> i \<longrightarrow> a ! i = 0 \<Longrightarrow>
    initializer Start l a (print_bytes n l printed cs) = Some (take n a @ cs @ drop (n + length cs) a)"
proof (induction n l printed cs arbitrary: a rule: print_bytes.induct)
  case (2 n l printed c cs)
  show ?case
  proof (cases "c = 0")
    case True
    have "initializer Start l a (print_bytes (n + 1) l printed cs) = Some (take (n + 1) a @ cs @ drop (n + 1 + length cs) a)"
      using 2 True by (simp add: designated_initializers_def)
    moreover have "take (n + 1) a = take n a @ [0]" using 2 by (simp add: take_Suc_conv_app_nth)
    ultimately show ?thesis using True by (simp add: designated_initializers_def)
  next
    case False
    define gap where "gap = (if l + 4 \<le> n then ''['' @ show_nat n @ '']='' else concat (replicate (n - l) ''0,''))"
    have b: "unat c < 256" using unsigned_less [of c] by simp
    have gap: "initializer Start l a (gap @ rest) = initializer Start n a rest" for rest
      unfolding gap_def using initializer_index [of n l a rest] initializer_zeros [of l "n - l" a rest] 2(3-5) by simp
    have "initializer Start l a (print_bytes n l printed (c # cs))
        = initializer Start (n + 1) (a[n := c]) (print_bytes (n + 1) (n + 1) (printed + 1) cs)"
      using False 2(4) gap b initializer_value [of "unat c" n a]
      by (simp add: initializer_newline flip: gap_def)
    also have "\<dots> = Some (take (n + 1) (a[n := c]) @ cs @ drop (n + 1 + length cs) (a[n := c]))"
      using False 2(3-5) by (intro 2(2)) (auto simp: nth_list_update)
    also have "take (n + 1) (a[n := c]) = take n a @ [c]" using 2(4) by (simp add: take_Suc_conv_app_nth)
    finally show ?thesis by simp
  qed
qed simp

lemma print_bytes_chars: "d \<in> set (print_bytes n l printed cs) \<Longrightarrow> d \<noteq> CHR ''}''"
proof (induction n l printed cs rule: print_bytes.induct)
  case (2 n l printed c cs)
  have "is_digit d \<Longrightarrow> d \<noteq> CHR ''}''" by (auto simp: is_digit_def)
  then have "d \<in> set (show_nat v) \<Longrightarrow> d \<noteq> CHR ''}''" for v using show_nat_digits(1) [of v] by (auto simp: list_all_iff)
  then show ?case using 2 by (auto split: if_splits)
qed simp

lemma take_digits: "rest = [] \<or> \<not> is_digit (hd rest) \<Longrightarrow> takeWhile is_digit (show_nat v @ rest) = show_nat v"
  using show_nat_digits(1) [of v] by (cases rest) (auto simp: list_all_iff)

lemma array_contents_of:
  assumes "\<forall>c \<in> set body. c \<noteq> CHR ''}''"
  shows "array_contents (array_head @ show_nat m @ array_open @ body @ array_close @ show_nat k @ '';'' @ [newline])
    = map_option (\<lambda>a. (a, k)) (initializer Start 0 (replicate m 0) body)"
proof -
  have h: "\<not> is_digit (hd array_open)" "array_open \<noteq> []"
    by (simp_all add: array_open_def array_close_def is_digit_def)
  have d: "takeWhile is_digit (show_nat m @ array_open @ rest) = show_nat m" for rest
    using h by (intro take_digits) simp
  have b: "takeWhile (\<lambda>c. c \<noteq> CHR ''}'') (body @ array_close @ rest) = body" for rest
  proof -
    have "takeWhile (\<lambda>c. c \<noteq> CHR ''}'') (array_close @ rest) = []" by (simp add: array_close_def)
    then show ?thesis using assms takeWhile_append2 [of body "\<lambda>c. c \<noteq> CHR ''}''" "array_close @ rest"] by simp
  qed
  have e: "takeWhile is_digit (show_nat k @ '';'' @ [newline]) = show_nat k"
    by (intro take_digits) (simp add: is_digit_def)
  show ?thesis unfolding array_contents_def Let_def using e by (simp add: d b read_show_nat)
qed

lemma array_contents_print: "array_contents (print_image f (length f)) = Some (f, length f)"
proof -
  define body where "body = print_bytes 0 0 0 f"
  have r: "initializer Start 0 (replicate (length f) 0) body = Some f"
    unfolding body_def by (subst print_bytes_read) simp_all
  have "print_image f (length f)
      = array_head @ show_nat (length f) @ array_open @ body @ array_close @ show_nat (length f) @ '';'' @ [newline]"
    by (simp add: print_image_def body_def array_head_def array_open_def array_close_def)
  moreover have "\<forall>c \<in> set body. c \<noteq> CHR ''}''" using print_bytes_chars unfolding body_def by blast
  ultimately show ?thesis using array_contents_of [of body] r by (simp only:) simp
qed


text \<open>C33: The array that the tool prints for an image holds the image, and the length that it prints is the
  length of the image, for every image: runs of zeros are skipped by designators, or written out when they are short.\<close>

theorem image_array_round_trip: "array_contents (print_image f (length f)) = Some (f, length f)"
  by (rule array_contents_print)

text \<open>The whole program, with the headers that the module needs before the array.\<close>

lemma fsimgtoc_writes:
  assumes "length args \<le> 2" "reads (named args 0) = Some (f, True)" "pred_option writes (named args 1)"
  shows "\<exists>t. fsimgtoc args reads writes = Some (named args 1, headers @ t) \<and> array_contents t = Some (f, length f)"
  using assms array_contents_print [of f] by (simp add: fsimgtoc_def)

text \<open>\<open>truncate\<close> takes a number as it is meant; a length that is no number empties the file.\<close>

lemma atoi_show_int: "atoi (show_int i) = i"
proof -
  obtain c cs where s: "show_nat (nat \<bar>i\<bar>) = c # cs" using show_nat_digits(2) by (cases "show_nat (nat \<bar>i\<bar>)") auto
  have c: "is_digit c" "list_all is_digit cs" using show_nat_digits(1) [of "nat \<bar>i\<bar>"] s by simp_all
  have "c \<noteq> CHR ''-''" "c \<noteq> CHR ''+''" "\<not> is_space c" "\<not> is_space CHR ''-''"
    using c by (auto simp: is_digit_def is_space_def)
  moreover have tw: "takeWhile is_digit cs = cs" using c(2) by (simp add: list_all_iff)
  moreover have "read_digits (digit_of c) cs = nat \<bar>i\<bar>" using s by (metis read_show_nat mult_0_right add_0 read_digits.simps(2))
  ultimately show ?thesis using c(1) s unfolding atoi_def show_int_def by (cases "i < 0") (simp_all add: Let_def tw)
qed

lemma truncate_no_number: "truncate_main [a, ''big''] truncates = (if truncates a 0 then 0 else 1, Some (a, 0))"
proof -
  have "atoi ''big'' = 0" by code_simp
  then show ?thesis by (simp add: truncate_main_def)
qed

end
