(* ===== verification/SpinApp.thy ===== *)
theory SpinApp
  imports X86
begin

text \<open>
  The four SchedOS applications (\<open>weensyos2/schedos-1.c\<close>, which the other three include with another
  \<open>PRINTCHAR\<close>) and the atomic exchange (\<open>x86sync.h\<close>) with which they protect the cursor. The clock
  may interrupt an application between any two instructions, and the kernel may then run any
  other, so that the model interleaves single memory accesses of the applications in any order.
\<close>

section \<open>Atomic instructions\<close>

definition atomic_swap :: "u32 \<Rightarrow> u32 \<Rightarrow> u32 \<times> u32" where
  "atomic_swap mem_word val = (val, mem_word)"

definition compare_and_swap :: "u32 \<Rightarrow> u32 \<Rightarrow> u32 \<Rightarrow> u32 \<times> u32" where
  "compare_and_swap mem_word expected desired =
     (if mem_word = expected then desired else mem_word, mem_word)"

definition fetch_and_add :: "u32 \<Rightarrow> u32 \<Rightarrow> u32 \<times> u32" where
  "fetch_and_add mem_word delta = (mem_word + delta, mem_word)"

section \<open>An application\<close>

abbreviation (input) "RUNCOUNT \<equiv> (320 :: nat)"
abbreviation (input) "NAPPS \<equiv> (4 :: nat)"

definition PRINTCHAR :: "nat \<Rightarrow> u16" where
  "PRINTCHAR j = [0x0C31, 0x0A32, 0x0933, 0x0E34] ! j"

text \<open>
  Where an application is: at the loop test, spinning on the lock, then the accesses of
  \<open>*cursorpos++ = PRINTCHAR\<close> (it reads \<open>cursorpos\<close>, writes it back incremented, and writes the
  character through the old value), releasing the lock, yielding, exited.
\<close>

datatype pc = Loop | Acquire | Read_pos | Bump_pos | Put_char | Release | Yield_cpu | Exited

record app =
  app_pc :: pc
  iter :: nat
  pos :: nat

record system =
  apps :: "nat \<Rightarrow> app"
  screen :: console
  lock :: u32

definition app_step :: "nat \<Rightarrow> system \<Rightarrow> system" where
  "app_step j s =
     (let a = apps s j; upd = (\<lambda>a'. s\<lparr>apps := (apps s)(j := a')\<rparr>) in
      case app_pc a of
        Loop \<Rightarrow> upd (a\<lparr>app_pc := if iter a < RUNCOUNT then Acquire else Exited\<rparr>)
      | Acquire \<Rightarrow>
          (case atomic_swap (lock s) 1 of
             (l, old) \<Rightarrow> (upd (a\<lparr>app_pc := if old \<noteq> 0 then Acquire else Read_pos\<rparr>))\<lparr>lock := l\<rparr>)
      | Read_pos \<Rightarrow> upd (a\<lparr>app_pc := Bump_pos, pos := cursor (screen s)\<rparr>)
      | Bump_pos \<Rightarrow> (upd (a\<lparr>app_pc := Put_char\<rparr>))\<lparr>screen := (screen s)\<lparr>cursor := pos a + 1\<rparr>\<rparr>
      | Put_char \<Rightarrow> (upd (a\<lparr>app_pc := Release\<rparr>))
          \<lparr>screen := (screen s)\<lparr>cells := (cells (screen s))(pos a := PRINTCHAR j)\<rparr>\<rparr>
      | Release \<Rightarrow>
          (case atomic_swap (lock s) 0 of (l, old) \<Rightarrow> (upd (a\<lparr>app_pc := Yield_cpu\<rparr>))\<lparr>lock := l\<rparr>)
      | Yield_cpu \<Rightarrow> upd (a\<lparr>app_pc := Loop, iter := iter a + 1\<rparr>)
      | Exited \<Rightarrow> s)"

definition boot_system :: "u32 \<Rightarrow> console \<Rightarrow> system" where
  "boot_system l con = \<lparr>apps = \<lambda>_. \<lparr>app_pc = Loop, iter = 0, pos = 0\<rparr>,
     screen = con\<lparr>cursor := 0\<rparr>, lock = l\<rparr>"

text \<open>Any interleaving: the list says which application makes the next access.\<close>

definition run_apps :: "nat list \<Rightarrow> system \<Rightarrow> system" where
  "run_apps schedule s = fold app_step schedule s"

section \<open>The invariant\<close>

definition critical :: "app \<Rightarrow> bool" where
  "critical a \<longleftrightarrow> app_pc a \<in> {Read_pos, Bump_pos, Put_char, Release}"

text \<open>How many characters an application has written.\<close>

definition printed :: "app \<Rightarrow> nat" where
  "printed a = iter a + (if app_pc a \<in> {Release, Yield_cpu} then 1 else 0)"

definition total :: "system \<Rightarrow> nat" where
  "total s = (\<Sum>j < NAPPS. printed (apps s j))"

definition app_ok :: "app \<Rightarrow> bool" where
  "app_ok a \<longleftrightarrow> iter a \<le> RUNCOUNT \<and> (app_pc a \<notin> {Loop, Exited} \<longrightarrow> iter a < RUNCOUNT)
     \<and> (app_pc a = Exited \<longrightarrow> iter a = RUNCOUNT)"

text \<open>What the owner of the lock knows of the cursor, with \<open>n\<close> characters written.\<close>

definition owner_ok :: "app \<Rightarrow> nat \<Rightarrow> nat \<Rightarrow> bool" where
  "owner_ok a cur n \<longleftrightarrow> cur = n + (if app_pc a = Put_char then 1 else 0)
     \<and> (app_pc a \<in> {Bump_pos, Put_char} \<longrightarrow> pos a = n)"

definition lock_ok :: "system \<Rightarrow> bool" where
  "lock_ok s \<longleftrightarrow>
     lock s = 0 \<and> (\<forall>j < NAPPS. \<not> critical (apps s j)) \<and> cursor (screen s) = total s
     \<or> lock s = 1 \<and> (\<exists>o' < NAPPS. critical (apps s o') \<and> (\<forall>j < NAPPS. j \<noteq> o' \<longrightarrow> \<not> critical (apps s j))
         \<and> owner_ok (apps s o') (cursor (screen s)) (total s))"

definition written_ok :: "system \<Rightarrow> bool" where
  "written_ok s \<longleftrightarrow> (\<forall>j < NAPPS. app_ok (apps s j)
     \<and> count_list (map (cells (screen s)) [0..<total s]) (PRINTCHAR j) = printed (apps s j))"

lemma total_upd:
  "j < 4 \<Longrightarrow> total (s\<lparr>apps := (apps s)(j := a)\<rparr>) + printed (apps s j) = total s + printed a"
proof -
  assume j: "j < 4"
  have "(\<Sum>i < 4. printed (((apps s)(j := a)) i)) = printed a + (\<Sum>i \<in> {..<4} - {j}. printed (apps s i))"
    using j by (subst sum.remove [of _ j]) (auto intro: sum.cong)
  moreover have "(\<Sum>i < 4. printed (apps s i)) = printed (apps s j) + (\<Sum>i \<in> {..<4} - {j}. printed (apps s i))"
    using j by (subst sum.remove [of _ j]) auto
  ultimately show ?thesis by (simp add: total_def)
qed

lemma total_shared [simp]:
  "total (s\<lparr>screen := con\<rparr>) = total s" "total (s\<lparr>lock := l\<rparr>) = total s"
  by (simp_all add: total_def)

lemma PRINTCHAR_inj: "i < 4 \<Longrightarrow> j < 4 \<Longrightarrow> PRINTCHAR i = PRINTCHAR j \<longleftrightarrow> i = j"
  unfolding PRINTCHAR_def by (rule nth_eq_iff_index_eq) simp_all

lemma total_same:
  "j < 4 \<Longrightarrow> printed a = printed (apps s j) \<Longrightarrow> total (s\<lparr>apps := (apps s)(j := a)\<rparr>) = total s"
  using total_upd [of j s a] by simp

section \<open>Every access keeps the invariant\<close>

text \<open>Outside the critical section.\<close>

lemma outside_step:
  assumes "lock_ok s" "written_ok s" "j < 4" "\<not> critical (apps s j)" "\<not> critical a"
    "printed a = printed (apps s j)" "app_ok a"
  shows "lock_ok (s\<lparr>apps := (apps s)(j := a)\<rparr>) \<and> written_ok (s\<lparr>apps := (apps s)(j := a)\<rparr>)"
proof
  note t = total_same [of j a s, OF assms(3,6)]
  show "written_ok (s\<lparr>apps := (apps s)(j := a)\<rparr>)"
    using assms(2,6,7) by (auto simp: written_ok_def t)
  from assms(1) [unfolded lock_ok_def] show "lock_ok (s\<lparr>apps := (apps s)(j := a)\<rparr>)"
  proof (elim disjE conjE exE)
    assume "lock s = 0" "\<forall>j < NAPPS. \<not> critical (apps s j)" "cursor (screen s) = total s"
    then show ?thesis using assms(5) by (simp add: lock_ok_def t)
  next
    fix o' assume o': "lock s = 1" "o' < NAPPS" "critical (apps s o')"
      "\<forall>j < NAPPS. j \<noteq> o' \<longrightarrow> \<not> critical (apps s j)" "owner_ok (apps s o') (cursor (screen s)) (total s)"
    have "o' \<noteq> j" using o'(3) assms(4) by blast
    then show ?thesis using o' assms(5) unfolding lock_ok_def t
      by (intro disjI2 conjI exI [of _ o']) auto
  qed
qed

text \<open>Inside it: the application that makes the access is the owner.\<close>

lemma owner:
  assumes "lock_ok s" "j < 4" "critical (apps s j)"
  shows "lock s = 1" "\<forall>i < NAPPS. i \<noteq> j \<longrightarrow> \<not> critical (apps s i)"
    "owner_ok (apps s j) (cursor (screen s)) (total s)"
proof -
  have "lock s = 1 \<and> (\<forall>i < NAPPS. i \<noteq> j \<longrightarrow> \<not> critical (apps s i))
    \<and> owner_ok (apps s j) (cursor (screen s)) (total s)"
    using assms unfolding lock_ok_def by blast
  then show "lock s = 1" "\<forall>i < NAPPS. i \<noteq> j \<longrightarrow> \<not> critical (apps s i)"
    "owner_ok (apps s j) (cursor (screen s)) (total s)" by blast+
qed

lemma inside_step:
  assumes "j < 4" "\<forall>i < NAPPS. i \<noteq> j \<longrightarrow> \<not> critical (apps s i)" "lock s = 1"
    "apps s' = (apps s)(j := a)" "critical a" "lock s' = 1" "owner_ok a (cursor (screen s')) (total s')"
  shows "lock_ok s'"
  unfolding lock_ok_def using assms by (intro disjI2 conjI exI [of _ j]) auto

lemma put_char:
  assumes w: "written_ok s" and j: "j < 4" and p: "app_pc (apps s j) = Put_char" "pos (apps s j) = total s"
  shows "written_ok (app_step j s)" "total (app_step j s) = total s + 1"
proof -
  let ?a = "apps s j\<lparr>app_pc := Release\<rparr>"
  let ?cs = "(cells (screen s))(total s := PRINTCHAR j)"
  have e: "app_step j s = s\<lparr>apps := (apps s)(j := ?a)\<rparr>\<lparr>screen := (screen s)\<lparr>cells := ?cs\<rparr>\<rparr>"
    using p by (simp add: app_step_def Let_def)
  have pr: "printed ?a = printed (apps s j) + 1" using p(1) by (simp add: printed_def)
  show t: "total (app_step j s) = total s + 1"
    unfolding e using total_upd [OF j, of s ?a] pr by simp
  have m: "map ?cs [0..<total s + 1] = map (cells (screen s)) [0..<total s] @ [PRINTCHAR j]" by simp
  have "app_ok ?a" using w j p(1) by (auto simp: written_ok_def app_ok_def)
  moreover have "count_list (map ?cs [0..<total s + 1]) (PRINTCHAR i) = printed (if i = j then ?a else apps s i)"
    if "i < 4" for i
    unfolding m using w that j pr PRINTCHAR_inj [OF that j] by (auto simp: written_ok_def)
  ultimately show "written_ok (app_step j s)"
    using w unfolding written_ok_def t by (simp add: e del: upt_Suc)
qed

lemma written_same:
  assumes "written_ok s" "j < 4" "apps s' = (apps s)(j := a)" "printed a = printed (apps s j)" "app_ok a"
    "cells (screen s') = cells (screen s)"
  shows "written_ok s'" "total s' = total s"
proof -
  have "total s' = total (s\<lparr>apps := (apps s)(j := a)\<rparr>)" using assms(3) by (simp add: total_def)
  then show t: "total s' = total s" using total_same [OF assms(2,4)] by simp
  show "written_ok s'" using assms unfolding written_ok_def t by simp
qed

lemma app_step_ok:
  assumes l: "lock_ok s" and w: "written_ok s" and j: "j < 4"
  shows "lock_ok (app_step j s) \<and> written_ok (app_step j s)"
proof -
  have ok: "app_ok (apps s j)" using w j by (simp add: written_ok_def)
  let ?a = "apps s j"
  show ?thesis
  proof (cases "app_pc ?a")
    case Loop
    then show ?thesis
      using outside_step [OF l w j, of "?a\<lparr>app_pc := if iter ?a < RUNCOUNT then Acquire else Exited\<rparr>"] ok
      by (simp add: app_step_def Let_def critical_def printed_def app_ok_def)
  next
    case Yield_cpu
    then show ?thesis
      using outside_step [OF l w j, of "?a\<lparr>app_pc := Loop, iter := iter ?a + 1\<rparr>"] ok
      by (simp add: app_step_def Let_def critical_def printed_def app_ok_def)
  next
    case Exited
    then show ?thesis using l w by (simp add: app_step_def Let_def)
  next
    case Acquire
    show ?thesis
    proof (cases "lock s = 0")
      case True
      then have n: "\<forall>j < NAPPS. \<not> critical (apps s j)" "cursor (screen s) = total s" using l by (auto simp: lock_ok_def)
      let ?a' = "?a\<lparr>app_pc := Read_pos\<rparr>"
      have e: "app_step j s = s\<lparr>apps := (apps s)(j := ?a')\<rparr>\<lparr>lock := 1\<rparr>"
        using Acquire True by (simp add: app_step_def atomic_swap_def Let_def)
      have "printed ?a' = printed ?a" "app_ok ?a'" using Acquire ok by (simp_all add: printed_def app_ok_def)
      note W = written_same [OF w j, where s' = "app_step j s", OF _ this, unfolded e, simplified]
      show ?thesis unfolding e
        using W n j by (auto simp: lock_ok_def owner_ok_def critical_def intro!: exI [of _ j])
    next
      case False
      then have l1: "lock s = 1" using l by (auto simp: lock_ok_def)
      have e: "app_step j s = s\<lparr>apps := (apps s)(j := ?a\<lparr>app_pc := Acquire\<rparr>)\<rparr>"
        using Acquire l1 by (simp add: app_step_def atomic_swap_def Let_def)
      show ?thesis
        unfolding e by (rule outside_step [OF l w j]) (use Acquire ok in \<open>simp_all add: critical_def printed_def app_ok_def\<close>)
    qed
  next
    case Read_pos
    note O = owner [OF l j, unfolded critical_def Read_pos, simplified]
    let ?a' = "?a\<lparr>app_pc := Bump_pos, pos := cursor (screen s)\<rparr>"
    have e: "apps (app_step j s) = (apps s)(j := ?a')" "screen (app_step j s) = screen s" "lock (app_step j s) = lock s"
      using Read_pos by (simp_all add: app_step_def Let_def)
    have p: "printed ?a' = printed ?a" "app_ok ?a'" using Read_pos ok by (simp_all add: printed_def app_ok_def)
    note W = written_same [OF w j e(1) p, unfolded e(2), OF refl]
    show ?thesis
      using inside_step [OF j _ O(1) e(1)] W O(2,3) e O(1) Read_pos by (auto simp: critical_def owner_ok_def)
  next
    case Bump_pos
    note O = owner [OF l j, unfolded critical_def Bump_pos, simplified]
    let ?a' = "?a\<lparr>app_pc := Put_char\<rparr>"
    have e: "apps (app_step j s) = (apps s)(j := ?a')" "screen (app_step j s) = (screen s)\<lparr>cursor := pos ?a + 1\<rparr>"
      "lock (app_step j s) = lock s"
      using Bump_pos by (simp_all add: app_step_def Let_def)
    have p: "printed ?a' = printed ?a" "app_ok ?a'" using Bump_pos ok by (simp_all add: printed_def app_ok_def)
    note W = written_same [OF w j e(1) p, unfolded e(2), simplified]
    show ?thesis
      using inside_step [OF j _ O(1) e(1)] W O(2,3) e O(1) Bump_pos by (auto simp: critical_def owner_ok_def)
  next
    case Put_char
    note O = owner [OF l j, unfolded critical_def Put_char, simplified]
    let ?a' = "?a\<lparr>app_pc := Release\<rparr>"
    have e: "apps (app_step j s) = (apps s)(j := ?a')" "cursor (screen (app_step j s)) = cursor (screen s)"
      "lock (app_step j s) = lock s"
      using Put_char by (simp_all add: app_step_def Let_def)
    have "pos ?a = total s" "cursor (screen s) = total s + 1" using O(3) Put_char by (simp_all add: owner_ok_def)
    note W = put_char [OF w j Put_char this(1)] this(2)
    show ?thesis
      using inside_step [OF j _ O(1) e(1)] W O(2) e O(1) by (auto simp: critical_def owner_ok_def)
  next
    case Release
    note O = owner [OF l j, unfolded critical_def Release, simplified]
    let ?a' = "?a\<lparr>app_pc := Yield_cpu\<rparr>"
    have e: "apps (app_step j s) = (apps s)(j := ?a')" "screen (app_step j s) = screen s" "lock (app_step j s) = 0"
      using Release by (simp_all add: app_step_def atomic_swap_def Let_def)
    have p: "printed ?a' = printed ?a" "app_ok ?a'" using Release ok by (simp_all add: printed_def app_ok_def)
    note W = written_same [OF w j e(1) p, unfolded e(2), OF refl]
    show ?thesis
      using W O(2,3) e Release by (auto simp: lock_ok_def critical_def owner_ok_def)
  qed
qed

lemma run_apps_ok:
  assumes "lock_ok s" "written_ok s" "set schedule \<subseteq> {..<4}"
  shows "lock_ok (run_apps schedule s) \<and> written_ok (run_apps schedule s)"
  using assms
proof (induction schedule arbitrary: s)
  case (Cons j js)
  then show ?case using app_step_ok [of s j] Cons.IH [of "app_step j s"] by (simp add: run_apps_def)
qed (simp add: run_apps_def)

lemma boot_ok: "lock_ok (boot_system 0 con) \<and> written_ok (boot_system 0 con)"
  by (simp add: boot_system_def lock_ok_def written_ok_def app_ok_def total_def printed_def critical_def)

section \<open>Properties\<close>

text \<open>C12: Started with a free lock, the applications lose no character, however they are interleaved: at
  most one is ever between taking and releasing the lock, the cursor never leaves the first 1280
  cells, and once all four have exited the screen holds exactly 320 characters of each, one
  after the other without a gap.\<close>

theorem apps_lose_no_character:
  assumes "set schedule \<subseteq> {..<NAPPS}" "s = run_apps schedule (boot_system 0 con)"
  shows "(\<forall>i < NAPPS. \<forall>j < NAPPS. critical (apps s i) \<and> critical (apps s j) \<longrightarrow> i = j)
    \<and> cursor (screen s) \<le> 1280
    \<and> ((\<forall>j < NAPPS. app_pc (apps s j) = Exited) \<longrightarrow>
         cursor (screen s) = 1280
         \<and> (\<forall>j < NAPPS. count_list (map (cells (screen s)) [0..<1280]) (PRINTCHAR j) = RUNCOUNT))"
proof -
  have ok: "lock_ok s" "written_ok s"
    unfolding assms(2) using run_apps_ok [OF _ _ assms(1)] boot_ok by blast+
  have le: "printed (apps s j) + (if app_pc (apps s j) = Put_char then 1 else 0) \<le> 320" if "j < 4" for j
    using ok(2) that by (cases "app_pc (apps s j)") (auto simp: written_ok_def app_ok_def printed_def Suc_le_eq)
  have four: "{..<4} = {0, 1, 2, 3 :: nat}" by auto
  have tot: "total s + (\<Sum>j < 4. if app_pc (apps s j) = Put_char then 1 else 0)
      = (\<Sum>j < 4. printed (apps s j) + (if app_pc (apps s j) = Put_char then 1 else 0))"
    by (simp add: total_def sum.distrib)
  also have "\<dots> \<le> (\<Sum>j :: nat < 4. 320)" by (rule sum_mono) (use le in simp)
  finally have bound: "total s + (\<Sum>j < 4. if app_pc (apps s j) = Put_char then 1 else 0) \<le> 1280" by simp
  have one: "o' < 4 \<Longrightarrow> (if app_pc (apps s o') = Put_char then 1 else 0 :: nat)
      \<le> (\<Sum>j < 4. if app_pc (apps s j) = Put_char then 1 else 0)" for o'
    by (rule member_le_sum) auto
  have cur: "cursor (screen s) \<le> 1280"
    using ok(1) [unfolded lock_ok_def]
  proof (elim disjE conjE exE)
    fix o' assume "o' < NAPPS" "owner_ok (apps s o') (cursor (screen s)) (total s)"
    then show ?thesis using one bound unfolding owner_ok_def by fastforce
  qed (use bound in linarith)
  have ex: "i = j" if "i < 4" "j < 4" "critical (apps s i)" "critical (apps s j)" for i j
    using owner(2) [OF ok(1) that(1,3)] that by blast
  have "cursor (screen s) = 1280 \<and> (\<forall>j < NAPPS. count_list (map (cells (screen s)) [0..<1280]) (PRINTCHAR j) = RUNCOUNT)"
    if e: "\<forall>j < NAPPS. app_pc (apps s j) = Exited"
  proof -
    have p: "printed (apps s j) = 320" if "j < 4" for j
      using ok(2) e that by (auto simp: written_ok_def app_ok_def printed_def)
    then have t: "total s = 1280" unfolding total_def four by simp
    have "\<not> critical (apps s j)" if "j < 4" for j using e that by (simp add: critical_def)
    then have "cursor (screen s) = total s" using ok(1) unfolding lock_ok_def by blast
    then show ?thesis using t ok(2) p unfolding written_ok_def by (simp del: upt_Suc)
  qed
  then show ?thesis using cur ex by blast
qed

theorem apps_lose_no_character_witness:
  "critical (apps (run_apps [0, 1, 0, 1, 0, 2, 1] (boot_system 0 \<lparr>cells = \<lambda>_. 0, cursor = 7\<rparr>)) 0)
    \<and> \<not> critical (apps (run_apps [0, 1, 0, 1, 0, 2, 1] (boot_system 0 \<lparr>cells = \<lambda>_. 0, cursor = 7\<rparr>)) 1)"
proof -
  let ?s = "run_apps [0, 1, 0, 1, 0, 2, 1] (boot_system 0 \<lparr>cells = \<lambda>_. 0, cursor = 7\<rparr>)"
  have c: "critical (apps ?s 0)"
    by (simp add: run_apps_def boot_system_def app_step_def atomic_swap_def critical_def Let_def)
  have sub: "set [0, 1, 0, 1, 0, 2, 1] \<subseteq> {..<4 :: nat}" by simp
  have "\<forall>i < 4. \<forall>j < 4. critical (apps ?s i) \<and> critical (apps ?s j) \<longrightarrow> i = j"
    by (rule conjunct1 [OF apps_lose_no_character [OF sub refl]])
  from this [rule_format, of 0 1] c have "\<not> critical (apps ?s 1)" by auto
  then show ?thesis using c by blast
qed

section \<open>The lock that is never initialised\<close>

definition idle_pc :: "system \<Rightarrow> bool" where
  "idle_pc s \<longleftrightarrow> lock s \<noteq> 0 \<and> (\<forall>j. app_pc (apps s j) \<in> {Loop, Acquire} \<and> iter (apps s j) = 0)"

lemma app_step_idle: "idle_pc s \<Longrightarrow> idle_pc (app_step j s) \<and> screen (app_step j s) = screen s"
  by (cases "app_pc (apps s j)") (auto simp: idle_pc_def app_step_def atomic_swap_def Let_def dest: spec [of _ j])

text \<open>The kernel's \<open>lock = 0\<close> is never executed. Started with any other value in that memory cell,
  the applications spin for ever: nothing is printed and none of them exits, however they are
  interleaved.\<close>

lemma apps_stuck_without_lock_initialisation:
  assumes "l \<noteq> 0"
  shows "screen (run_apps schedule (boot_system l con)) = con\<lparr>cursor := 0\<rparr>
    \<and> app_pc (apps (run_apps schedule (boot_system l con)) j) \<noteq> Exited"
proof -
  have "idle_pc (run_apps schedule s) \<and> screen (run_apps schedule s) = screen s" if "idle_pc s" for s
    using that by (induction schedule arbitrary: s) (simp_all add: run_apps_def app_step_idle)
  moreover have "idle_pc (boot_system l con)" using assms by (simp add: idle_pc_def boot_system_def)
  ultimately have "idle_pc (run_apps schedule (boot_system l con))"
    "screen (run_apps schedule (boot_system l con)) = screen (boot_system l con)" by blast+
  then show ?thesis by (auto simp: idle_pc_def boot_system_def dest: spec [of _ j])
qed

lemma apps_stuck_without_lock_initialisation_witness:
  "cursor (screen (run_apps [0, 1, 2, 3, 0, 0] (boot_system 1 \<lparr>cells = \<lambda>_. 0, cursor = 7\<rparr>))) = 0"
  using apps_stuck_without_lock_initialisation [of 1 "[0, 1, 2, 3, 0, 0]" "\<lparr>cells = \<lambda>_. 0, cursor = 7\<rparr>"] by simp

end
