(* ===== verification/Osprd.thy ===== *)
theory Osprd
  imports Prelude
begin

text \<open>
  The RAM disk driver (\<open>lab2/osprd.c\<close>): block requests, and the read/write lock on the device that
  the \<open>ioctl\<close> calls take and release in the order of tickets. Several processes may be inside
  \<open>osprd_ioctl\<close> at once: the model cuts the code at its critical sections and at every access to the device outside
  of them, between which other processes run. The lists of process IDs are HOL lists; the two counters of locks are integers.
\<close>

section \<open>The device\<close>

abbreviation (input) "SECTOR_SIZE \<equiv> (512 :: u32)"

text \<open>\<open>read_lock_pids\<close> is the linked list \<open>read_lock_pid_list\<close>; \<open>data\<close> is indexed from \<open>d->data\<close>.\<close>

record osprd_info =
  data :: mem
  ticket_head :: u32
  ticket_tail :: u32
  n_write_lock :: int
  n_read_lock :: int
  write_lock_pid :: int
  read_lock_pids :: "int list"
  invalid_pid_list :: "u32 list"

definition osprd_setup :: "mem \<Rightarrow> osprd_info" where
  "osprd_setup m =
     \<lparr>data = m, ticket_head = 0, ticket_tail = 0, n_write_lock = 0, n_read_lock = 0,
      write_lock_pid = 0, read_lock_pids = [], invalid_pid_list = []\<rparr>"

section \<open>Block requests\<close>

text \<open>The direction is what \<open>rq_data_dir\<close> returns; 0 is \<open>READ\<close> and 1 is \<open>WRITE\<close>.\<close>

record request =
  blk_fs_request :: bool
  rq_data_dir :: nat
  sector :: u32
  current_nr_sectors :: u32
  buffer :: "u8 list"

text \<open>The new device, the request with its buffer, and the second argument of \<open>end_request\<close>.\<close>

definition osprd_process_request :: "u32 \<Rightarrow> osprd_info \<Rightarrow> request \<Rightarrow> osprd_info \<times> request \<times> bool" where
  "osprd_process_request nsectors d req =
     (if \<not> blk_fs_request req then (d, req, False)
      else
        (let ptr = unat (sector req * SECTOR_SIZE);
             n = unat (current_nr_sectors req * SECTOR_SIZE)
         in if sector req + current_nr_sectors req > nsectors then (d, req, False)
            else if rq_data_dir req = 0 then
              (d, req\<lparr>buffer := mem_read (data d) ptr n @ drop n (buffer req)\<rparr>, True)
            else if rq_data_dir req = 1 then
              (d\<lparr>data := mem_write (data d) ptr (take n (buffer req))\<rparr>, req, True)
            else (d, req, False)))"

section \<open>The critical sections of the lock\<close>

text \<open>\<open>OSPRDIOCACQUIRE\<close>: the check against the last writer, and the ticket.\<close>

definition acquire_ticket :: "int \<Rightarrow> osprd_info \<Rightarrow> (u32 \<times> osprd_info) option" where
  "acquire_ticket pid d =
     (if pid = write_lock_pid d then None
      else Some (ticket_head d, d\<lparr>ticket_head := ticket_head d + 1\<rparr>))"

text \<open>The search of the list of readers, for a request to write.\<close>

fun reads_already :: "int \<Rightarrow> int list \<Rightarrow> bool" where
  "reads_already pid [] = False"
| "reads_already pid (p # ps) = (if p = pid then True else reads_already pid ps)"

text \<open>A wait that a signal interrupted.\<close>

definition acquire_interrupted :: "u32 \<Rightarrow> osprd_info \<Rightarrow> osprd_info" where
  "acquire_interrupted my_ticket d =
     (let d1 = (if ticket_tail d = my_ticket then d\<lparr>ticket_tail := ticket_tail d + 1\<rparr> else d)
      in d1\<lparr>invalid_pid_list := invalid_pid_list d1 @ [my_ticket]\<rparr>)"

text \<open>The lock is granted.\<close>

definition acquire_grant :: "bool \<Rightarrow> int \<Rightarrow> osprd_info \<Rightarrow> osprd_info" where
  "acquire_grant writable pid d =
     (if writable then d\<lparr>n_write_lock := n_write_lock d + 1, write_lock_pid := pid\<rparr>
      else d\<lparr>n_read_lock := n_read_lock d + 1, read_lock_pids := read_lock_pids d @ [pid]\<rparr>)"

text \<open>The next ticket, skipping those of interrupted requests.\<close>

fun skip_invalid :: "u32 list \<Rightarrow> u32 \<Rightarrow> u32" where
  "skip_invalid [] tail = tail"
| "skip_invalid (t # ts) tail = skip_invalid ts (if t = tail then tail + 1 else tail)"

definition acquire_finish :: "osprd_info \<Rightarrow> osprd_info" where
  "acquire_finish d = d\<lparr>ticket_tail := skip_invalid (invalid_pid_list d) (ticket_tail d + 1)\<rparr>"

text \<open>\<open>OSPRDIOCTRYACQUIRE\<close>: \<open>None\<close> is \<open>-EBUSY\<close>.\<close>

definition try_acquire :: "bool \<Rightarrow> osprd_info \<Rightarrow> osprd_info option" where
  "try_acquire writable d =
     (if writable then
        (if n_write_lock d > 0 \<or> n_read_lock d > 0 \<or> ticket_tail d \<noteq> ticket_head d then None
         else Some (d\<lparr>n_write_lock := n_write_lock d + 1\<rparr>))
      else
        (if n_write_lock d > 0 \<or> ticket_head d \<noteq> ticket_tail d then None
         else Some (d\<lparr>n_read_lock := n_read_lock d + 1\<rparr>)))"

text \<open>\<open>OSPRDIOCRELEASE\<close> by a file that holds a lock: the critical section.\<close>

definition release :: "bool \<Rightarrow> osprd_info \<Rightarrow> osprd_info" where
  "release writable d =
     (if writable then d\<lparr>n_write_lock := n_write_lock d - 1\<rparr>
      else d\<lparr>n_read_lock := n_read_lock d - 1\<rparr>)"

text \<open>
  Removing a reader when a file is closed: \<open>slow\<close> starts at the first element like \<open>fast\<close>, so that
  when the first element matches, \<open>slow->m_next = fast->m_next\<close> leaves the list as it is;
  \<open>unlink_reader\<close> is the rest of the loop, with \<open>slow\<close> one element behind.
\<close>

fun unlink_reader :: "int \<Rightarrow> int list \<Rightarrow> int list" where
  "unlink_reader pid [] = []"
| "unlink_reader pid (p # ps) = (if p = pid then ps else p # unlink_reader pid ps)"

fun remove_reader :: "int \<Rightarrow> int list \<Rightarrow> int list" where
  "remove_reader pid [] = []"
| "remove_reader pid (p # ps) = (if p = pid then p # ps else p # unlink_reader pid ps)"

definition osprd_close_last :: "bool \<Rightarrow> bool \<Rightarrow> int \<Rightarrow> osprd_info \<Rightarrow> osprd_info" where
  "osprd_close_last writable locked pid d =
     (if locked then
        (if writable then d\<lparr>n_write_lock := n_write_lock d - 1, write_lock_pid := -1\<rparr>
         else d\<lparr>n_read_lock := n_read_lock d - 1, read_lock_pids := remove_reader pid (read_lock_pids d)\<rparr>)
      else d)"

section \<open>Processes inside the driver\<close>

text \<open>Open files of the device, by an index, with the bit \<open>F_OSPRD_LOCKED\<close>.\<close>

record osprd_file =
  f_write :: bool
  f_locked :: bool

text \<open>
  Where a process is: outside the driver; in \<open>OSPRDIOCACQUIRE\<close>, before taking a ticket, or with a ticket before the
  check of the readers, the three reads of the variable \<open>CONDITION\<close> (of \<open>n_read_lock\<close>, \<open>n_write_lock\<close> and \<open>ticket_tail\<close>,
  none of them inside a critical section), the wait, the grant, or the last section; or in \<open>OSPRDIOCRELEASE\<close>, after the
  test of the flag and before the critical section.
\<close>

datatype pc = Outside | Take_ticket | Check_readers u32 | Test_readers u32 | Test_writer u32 | Test_tail u32 | Wait u32
  | Grant u32 | Finish u32 | Releasing

record task =
  task_pc :: pc
  task_file :: nat

record system =
  dev :: osprd_info
  files :: "nat \<Rightarrow> osprd_file"
  tasks :: "int \<Rightarrow> task"

definition set_pc :: "int \<Rightarrow> pc \<Rightarrow> system \<Rightarrow> system" where
  "set_pc pid p s = s\<lparr>tasks := (tasks s)(pid := (tasks s pid)\<lparr>task_pc := p\<rparr>)\<rparr>"

definition lock_file :: "bool \<Rightarrow> nat \<Rightarrow> system \<Rightarrow> system" where
  "lock_file b f s = s\<lparr>files := (files s)(f := (files s f)\<lparr>f_locked := b\<rparr>)\<rparr>"

text \<open>The test starts with the readers for a request to write, and with the writers for a request to read.\<close>

definition test_condition :: "bool \<Rightarrow> u32 \<Rightarrow> pc" where
  "test_condition writable my_ticket = (if writable then Test_readers my_ticket else Test_writer my_ticket)"

text \<open>
  The next access of a process inside \<open>OSPRDIOCACQUIRE\<close>: the new state and, when the call
  returns, its value. \<open>wait\<close> is \<open>wait_event_interruptible(d->blockq, condition)\<close>.
\<close>

definition acquire_step :: "(bool \<Rightarrow> unit res) \<Rightarrow> int \<Rightarrow> system \<Rightarrow> system \<times> unit res option" where
  "acquire_step wait pid s =
     (let f = task_file (tasks s pid); writable = f_write (files s f) in
      case task_pc (tasks s pid) of
        Outside \<Rightarrow> (s, None)
      | Take_ticket \<Rightarrow>
          (case acquire_ticket pid (dev s) of
             None \<Rightarrow> (set_pc pid Outside s, Some (Inl EDEADLK))
           | Some (t, d) \<Rightarrow>
               (set_pc pid (if writable then Check_readers t else test_condition False t) (s\<lparr>dev := d\<rparr>), None))
      | Check_readers t \<Rightarrow>
          if reads_already pid (read_lock_pids (dev s)) then (set_pc pid Outside s, Some (Inl EDEADLK))
          else (set_pc pid (test_condition True t) s, None)
      | Test_readers t \<Rightarrow> (set_pc pid (if n_read_lock (dev s) = 0 then Test_writer t else Wait t) s, None)
      | Test_writer t \<Rightarrow> (set_pc pid (if n_write_lock (dev s) = 0 then Test_tail t else Wait t) s, None)
      | Test_tail t \<Rightarrow> (set_pc pid (if t = ticket_tail (dev s) then Grant t else Wait t) s, None)
      | Wait t \<Rightarrow>
          if wait True = Inl ERESTARTSYS
          then (set_pc pid Outside (s\<lparr>dev := acquire_interrupted t (dev s)\<rparr>), Some (Inl ERESTARTSYS))
          else (set_pc pid (test_condition writable t) s, None)
      | Grant t \<Rightarrow>
          (set_pc pid (Finish t) (lock_file True f (s\<lparr>dev := acquire_grant writable pid (dev s)\<rparr>)), None)
      | Finish t \<Rightarrow> (set_pc pid Outside (s\<lparr>dev := acquire_finish (dev s)\<rparr>), Some (Inr ()))
      | Releasing \<Rightarrow> (s, None))"

text \<open>The other two commands, by a process outside the driver. A release tests the flag first, and then, in
  \<open>release_step\<close>, changes the counter and the flag.\<close>

definition ioctl_try_acquire :: "nat \<Rightarrow> system \<Rightarrow> system \<times> unit res" where
  "ioctl_try_acquire f s =
     (case try_acquire (f_write (files s f)) (dev s) of
        None \<Rightarrow> (s, Inl EBUSY)
      | Some d \<Rightarrow> (lock_file True f (s\<lparr>dev := d\<rparr>), Inr ()))"

definition ioctl_release :: "int \<Rightarrow> nat \<Rightarrow> system \<Rightarrow> system \<times> unit res option" where
  "ioctl_release pid f s =
     (if \<not> f_locked (files s f) then (s, Some (Inl EINVAL))
      else (s\<lparr>tasks := (tasks s)(pid := \<lparr>task_pc = Releasing, task_file = f\<rparr>)\<rparr>, None))"

definition release_step :: "int \<Rightarrow> system \<Rightarrow> system \<times> unit res option" where
  "release_step pid s =
     (let f = task_file (tasks s pid)
      in (set_pc pid Outside (lock_file False f (s\<lparr>dev := release (f_write (files s f)) (dev s)\<rparr>)), Some (Inr ())))"

definition close_file :: "int \<Rightarrow> nat \<Rightarrow> system \<Rightarrow> system" where
  "close_file pid f s =
     lock_file False f (s\<lparr>dev := osprd_close_last (f_write (files s f)) (f_locked (files s f)) pid (dev s)\<rparr>)"

text \<open>
  One step of the system. A file is closed or opened anew only when no process is inside the
  driver with it, and a file that is opened holds no lock.
\<close>

definition unused :: "nat \<Rightarrow> system \<Rightarrow> bool" where
  "unused f s \<longleftrightarrow> (\<forall>p. task_pc (tasks s p) \<noteq> Outside \<longrightarrow> task_file (tasks s p) \<noteq> f)"

inductive osprd_step :: "(bool \<Rightarrow> unit res) \<Rightarrow> system \<Rightarrow> system \<Rightarrow> bool" for wait where
  enter: "task_pc (tasks s pid) = Outside \<Longrightarrow>
      osprd_step wait s (s\<lparr>tasks := (tasks s)(pid := \<lparr>task_pc = Take_ticket, task_file = f\<rparr>)\<rparr>)"
| proceed: "task_pc (tasks s pid) \<noteq> Outside \<Longrightarrow> osprd_step wait s (fst (acquire_step wait pid s))"
| try_lock: "osprd_step wait s (fst (ioctl_try_acquire f s))"
| unlock: "task_pc (tasks s pid) = Outside \<Longrightarrow> osprd_step wait s (fst (ioctl_release pid f s))"
| unlocked: "task_pc (tasks s pid) = Releasing \<Longrightarrow> osprd_step wait s (fst (release_step pid s))"
| last_close: "unused f s \<Longrightarrow> osprd_step wait s (close_file pid f s)"
| reopen: "unused f s \<Longrightarrow> \<not> f_locked (files s f) \<Longrightarrow>
      osprd_step wait s (s\<lparr>files := (files s)(f := \<lparr>f_write = w, f_locked = False\<rparr>)\<rparr>)"

inductive_cases osprd_stepE: "osprd_step wait s s'"

definition osprd_init :: "mem \<Rightarrow> system" where
  "osprd_init m =
     \<lparr>dev = osprd_setup m, files = \<lambda>_. \<lparr>f_write = False, f_locked = False\<rparr>,
      tasks = \<lambda>_. \<lparr>task_pc = Outside, task_file = 0\<rparr>\<rparr>"

text \<open>The states after \<open>n\<close> steps.\<close>

inductive osprd_run :: "(bool \<Rightarrow> unit res) \<Rightarrow> nat \<Rightarrow> system \<Rightarrow> system \<Rightarrow> bool" for wait where
  nil: "osprd_run wait 0 s s"
| snoc: "osprd_run wait n s s' \<Longrightarrow> osprd_step wait s' s'' \<Longrightarrow> osprd_run wait (Suc n) s s''"

text \<open>
  The accesses outside of the critical sections make two disturbances possible: a lock is taken while another process is
  between two reads of one test, or two processes are in a release of the same file at once.
\<close>

definition takes_lock :: "system \<Rightarrow> system \<Rightarrow> bool" where
  "takes_lock s s' \<longleftrightarrow> n_read_lock (dev s) < n_read_lock (dev s') \<or> n_write_lock (dev s) < n_write_lock (dev s')"

definition within_test :: "system \<Rightarrow> int \<Rightarrow> bool" where
  "within_test s p \<longleftrightarrow>
     (case task_pc (tasks s p) of Test_writer t \<Rightarrow> f_write (files s (task_file (tasks s p))) | Test_tail t \<Rightarrow> True | _ \<Rightarrow> False)"

definition disturbs :: "system \<Rightarrow> system \<Rightarrow> bool" where
  "disturbs s s' \<longleftrightarrow> takes_lock s s' \<and> (\<exists>p. within_test s p)
     \<or> (\<exists>p q. p \<noteq> q \<and> task_pc (tasks s' p) = Releasing \<and> task_pc (tasks s' q) = Releasing
          \<and> task_file (tasks s' p) = task_file (tasks s' q))"

inductive undisturbed_run :: "(bool \<Rightarrow> unit res) \<Rightarrow> nat \<Rightarrow> system \<Rightarrow> system \<Rightarrow> bool" for wait where
  nil: "undisturbed_run wait 0 s s"
| snoc: "undisturbed_run wait n s s' \<Longrightarrow> osprd_step wait s' s'' \<Longrightarrow> \<not> disturbs s' s'' \<Longrightarrow> undisturbed_run wait (Suc n) s s''"

end
