(* ===== verification/OsprdProps.thy ===== *)
theory OsprdProps
  imports Osprd
begin

text \<open>
  The lock of the RAM disk over all interleavings of the processes inside the driver: tickets are served in order; the
  lock is exclusive as long as no process disturbs the unlocked test or release of another, and not otherwise; what a
  release forgets, the ticket that a refused writer leaks, and the transfer of block requests.
\<close>

section \<open>Locked files and counters\<close>

definition locks_ok :: "(nat \<Rightarrow> osprd_file) \<Rightarrow> int \<Rightarrow> int \<Rightarrow> bool" where
  "locks_ok fs nw nr \<longleftrightarrow> finite {f. f_locked (fs f)}
     \<and> nw = int (card {f. f_locked (fs f) \<and> f_write (fs f)})
     \<and> int (card {f. f_locked (fs f) \<and> \<not> f_write (fs f)}) \<le> nr
     \<and> nw \<le> 1 \<and> \<not> (0 < nw \<and> 0 < nr)"

lemma locked_parts_finite:
  assumes "finite {f. f_locked (fs f)}"
  shows "finite {f. f_locked (fs f) \<and> f_write (fs f)}" "finite {f. f_locked (fs f) \<and> \<not> f_write (fs f)}"
  using assms by (auto elim: rev_finite_subset)

lemma locks_okD:
  assumes "locks_ok fs nw nr"
  shows "0 \<le> nw" "0 \<le> nr" "nw = 0 \<Longrightarrow> f_locked (fs f) \<Longrightarrow> \<not> f_write (fs f)"
    "nr = 0 \<Longrightarrow> f_locked (fs f) \<Longrightarrow> f_write (fs f)"
proof -
  have fin: "finite {f. f_locked (fs f)}" using assms by (simp add: locks_ok_def)
  note F = locked_parts_finite [OF fin]
  show "0 \<le> nw" "0 \<le> nr" using assms by (auto simp: locks_ok_def)
  show "nw = 0 \<Longrightarrow> f_locked (fs f) \<Longrightarrow> \<not> f_write (fs f)"
    using assms F(1) by (auto simp: locks_ok_def)
  assume "nr = 0"
  then have "card {f. f_locked (fs f) \<and> \<not> f_write (fs f)} = 0" using assms by (simp add: locks_ok_def)
  then show "f_locked (fs f) \<Longrightarrow> f_write (fs f)" using F(2) by auto
qed

lemma locks_ok_unlock:
  assumes ok: "locks_ok fs nw nr" and f: "f_locked (fs f)"
  shows "locks_ok (fs(f := (fs f)\<lparr>f_locked := False\<rparr>)) (if f_write (fs f) then nw - 1 else nw)
      (if f_write (fs f) then nr else nr - 1)"
proof -
  let ?fs = "fs(f := (fs f)\<lparr>f_locked := False\<rparr>)"
  have fin: "finite {f. f_locked (fs f)}" using ok by (simp add: locks_ok_def)
  note F = locked_parts_finite [OF fin]
  have e: "{g. f_locked (?fs g)} = {g. f_locked (fs g)} - {f}"
    "{g. f_locked (?fs g) \<and> f_write (?fs g)} = {g. f_locked (fs g) \<and> f_write (fs g)} - {f}"
    "{g. f_locked (?fs g) \<and> \<not> f_write (?fs g)} = {g. f_locked (fs g) \<and> \<not> f_write (fs g)} - {f}"
    by auto
  have c: "f_write (fs f) \<Longrightarrow> 0 < card {g. f_locked (fs g) \<and> f_write (fs g)}"
    "\<not> f_write (fs f) \<Longrightarrow> 0 < card {g. f_locked (fs g) \<and> \<not> f_write (fs g)}"
    using f F by (auto simp: card_gt_0_iff)
  have d: "card ({g. f_locked (fs g) \<and> f_write (fs g)} - {f})
      = card {g. f_locked (fs g) \<and> f_write (fs g)} - (if f_write (fs f) then 1 else 0)"
    "card ({g. f_locked (fs g) \<and> \<not> f_write (fs g)} - {f})
      = card {g. f_locked (fs g) \<and> \<not> f_write (fs g)} - (if f_write (fs f) then 0 else 1)"
    using f by (simp_all add: card_Diff_singleton_if)
  have k: "nw = int (card {g. f_locked (fs g) \<and> f_write (fs g)})"
    "int (card {g. f_locked (fs g) \<and> \<not> f_write (fs g)}) \<le> nr" "nw \<le> 1" "\<not> (0 < nw \<and> 0 < nr)"
    using ok unfolding locks_ok_def by blast+
  show ?thesis
    unfolding locks_ok_def e d using k c fin by (cases "f_write (fs f)") (auto simp: of_nat_diff)
qed

lemma locks_ok_lock_write:
  assumes ok: "locks_ok fs 0 0" and f: "f_write (fs f)"
  shows "locks_ok (fs(f := (fs f)\<lparr>f_locked := True\<rparr>)) 1 0"
proof -
  let ?fs = "fs(f := (fs f)\<lparr>f_locked := True\<rparr>)"
  have none: "\<not> f_locked (fs g)" for g
    using locks_okD(3,4) [OF ok, of g] by blast
  have "{g. f_locked (?fs g)} = {f}" "{g. f_locked (?fs g) \<and> f_write (?fs g)} = {f}"
    "{g. f_locked (?fs g) \<and> \<not> f_write (?fs g)} = {}"
    using none f by auto
  then show ?thesis by (simp add: locks_ok_def)
qed

lemma locks_ok_lock_read:
  assumes ok: "locks_ok fs 0 nr" and f: "\<not> f_write (fs f)"
  shows "locks_ok (fs(f := (fs f)\<lparr>f_locked := True\<rparr>)) 0 (nr + 1)"
proof -
  let ?fs = "fs(f := (fs f)\<lparr>f_locked := True\<rparr>)"
  have fin: "finite {f. f_locked (fs f)}" using ok by (simp add: locks_ok_def)
  note F = locked_parts_finite [OF fin]
  have e: "{g. f_locked (?fs g)} = insert f {g. f_locked (fs g)}"
    "{g. f_locked (?fs g) \<and> f_write (?fs g)} = {g. f_locked (fs g) \<and> f_write (fs g)}"
    "{g. f_locked (?fs g) \<and> \<not> f_write (?fs g)} = insert f {g. f_locked (fs g) \<and> \<not> f_write (fs g)}"
    using f by auto
  have "card (insert f {g. f_locked (fs g) \<and> \<not> f_write (fs g)}) \<le> Suc (card {g. f_locked (fs g) \<and> \<not> f_write (fs g)})"
    using F(2) by (simp add: card_insert_if)
  then show ?thesis using ok fin unfolding locks_ok_def e by auto
qed

section \<open>The invariants\<close>

fun ticket_of :: "pc \<Rightarrow> u32 option" where
  "ticket_of (Check_readers t) = Some t"
| "ticket_of (Test_readers t) = Some t"
| "ticket_of (Test_writer t) = Some t"
| "ticket_of (Test_tail t) = Some t"
| "ticket_of (Wait t) = Some t"
| "ticket_of (Grant t) = Some t"
| "ticket_of (Finish t) = Some t"
| "ticket_of _ = None"

abbreviation ticket :: "system \<Rightarrow> int \<Rightarrow> u32 option" where
  "ticket s p \<equiv> ticket_of (task_pc (tasks s p))"

text \<open>
  \<open>t\<close> and \<open>h\<close> are the two counters without wrap-around: the tickets held are different and lie
  between them.
\<close>

definition tickets_ok :: "nat \<Rightarrow> nat \<Rightarrow> system \<Rightarrow> bool" where
  "tickets_ok t h s \<longleftrightarrow>
     ticket_head (dev s) = of_nat h \<and> ticket_tail (dev s) = of_nat t \<and> t \<le> h \<and> h < 2 ^ 32
     \<and> invalid_pid_list (dev s) = []
     \<and> (\<forall>p \<tau>. ticket s p = Some \<tau> \<longrightarrow> (\<exists>k. t \<le> k \<and> k < h \<and> \<tau> = of_nat k))
     \<and> (\<forall>p q \<tau>. ticket s p = Some \<tau> \<and> ticket s q = Some \<tau> \<longrightarrow> p = q)"

definition grants_ok :: "system \<Rightarrow> bool" where
  "grants_ok s \<longleftrightarrow> (\<forall>p \<tau>. task_pc (tasks s p) = Grant \<tau> \<or> task_pc (tasks s p) = Finish \<tau> \<longrightarrow> \<tau> = ticket_tail (dev s))"

definition turn_ok :: "nat \<Rightarrow> nat \<Rightarrow> system \<Rightarrow> bool" where
  "turn_ok t h s \<longleftrightarrow> tickets_ok t h s \<and> grants_ok s"

text \<open>What a process has found in a test is still true.\<close>

fun tested :: "pc \<Rightarrow> bool \<Rightarrow> osprd_info \<Rightarrow> bool" where
  "tested (Test_writer t) w d \<longleftrightarrow> (w \<longrightarrow> n_read_lock d = 0)"
| "tested (Test_tail t) w d \<longleftrightarrow> n_write_lock d = 0 \<and> (w \<longrightarrow> n_read_lock d = 0)"
| "tested (Grant t) w d \<longleftrightarrow> n_write_lock d = 0 \<and> (w \<longrightarrow> n_read_lock d = 0)"
| "tested _ w d \<longleftrightarrow> True"

abbreviation task_tested :: "system \<Rightarrow> int \<Rightarrow> bool" where
  "task_tested s p \<equiv> tested (task_pc (tasks s p)) (f_write (files s (task_file (tasks s p)))) (dev s)"

definition releases_ok :: "system \<Rightarrow> bool" where
  "releases_ok s \<longleftrightarrow> (\<forall>p. task_pc (tasks s p) = Releasing \<longrightarrow> f_locked (files s (task_file (tasks s p)))
     \<and> (\<forall>q. task_pc (tasks s q) = Releasing \<and> task_file (tasks s q) = task_file (tasks s p) \<longrightarrow> p = q))"

definition guard_ok :: "system \<Rightarrow> bool" where
  "guard_ok s \<longleftrightarrow> (\<forall>p. task_tested s p) \<and> releases_ok s \<and> locks_ok (files s) (n_write_lock (dev s)) (n_read_lock (dev s))"

lemma grant_ticket:
  assumes "grants_ok s" "task_pc (tasks s p) = Grant \<tau> \<or> task_pc (tasks s p) = Finish \<tau>"
  shows "\<tau> = ticket_tail (dev s)" "ticket s p = Some \<tau>"
  using assms by (auto simp: grants_ok_def)

text \<open>Two processes cannot both be past the test.\<close>

lemma grant_unique:
  assumes "tickets_ok t h s" "grants_ok s"
    "task_pc (tasks s p) = Grant \<tau> \<or> task_pc (tasks s p) = Finish \<tau>"
    "task_pc (tasks s q) = Grant \<tau>' \<or> task_pc (tasks s q) = Finish \<tau>'"
  shows "p = q"
proof -
  have "ticket s p = Some (ticket_tail (dev s))" "ticket s q = Some (ticket_tail (dev s))"
    using grant_ticket [OF assms(2,3)] grant_ticket [OF assms(2,4)] by simp_all
  then show "p = q" using assms(1) unfolding tickets_ok_def by blast
qed

lemma of_nat_u32_inj:
  assumes "a < 2 ^ 32" "b < 2 ^ 32"
  shows "(of_nat a :: u32) = of_nat b \<longleftrightarrow> a = b"
proof
  have "unat (of_nat a :: u32) = a" "unat (of_nat b :: u32) = b"
    using assms by (simp_all only: unat_of_nat_u32 power_numeral)  simp_all
  then show "(of_nat a :: u32) = of_nat b \<Longrightarrow> a = b" by metis
qed simp

section \<open>Changes of one process\<close>

lemma set_pc_simps [simp]:
  "dev (set_pc p x s) = dev s" "files (set_pc p x s) = files s"
  "task_pc (tasks (set_pc p x s) q) = (if q = p then x else task_pc (tasks s q))"
  "task_file (tasks (set_pc p x s) q) = task_file (tasks s q)"
  by (simp_all add: set_pc_def)

lemma lock_file_simps [simp]:
  "dev (lock_file b f s) = dev s" "tasks (lock_file b f s) = tasks s"
  "files (lock_file b f s) = (files s)(f := (files s f)\<lparr>f_locked := b\<rparr>)"
  by (simp_all add: lock_file_def)

lemma tickets_ok_cong:
  assumes "tickets_ok t h s" "\<forall>p. ticket s' p = ticket s p \<or> ticket s' p = None"
    "ticket_head (dev s') = ticket_head (dev s)" "ticket_tail (dev s') = ticket_tail (dev s)"
    "invalid_pid_list (dev s') = invalid_pid_list (dev s)"
  shows "tickets_ok t h s'"
  using assms(1) unfolding tickets_ok_def assms(3-5)
proof (elim conjE, intro conjI, goal_cases)
  case 6
  show ?case using 6(6) assms(2) by (metis option.distinct(1))
next
  case 7
  show ?case using 7(7) assms(2) by (metis option.distinct(1))
qed

text \<open>A step to another place, with the same ticket or none.\<close>

lemma turn_okD:
  assumes "turn_ok t h s"
  shows "tickets_ok t h s" "grants_ok s"
  using assms by (simp_all add: turn_ok_def)

lemma turn_ok_cong:
  assumes "turn_ok t h s" "\<forall>p. ticket s' p = ticket s p \<or> ticket s' p = None"
    "ticket_head (dev s') = ticket_head (dev s)" "ticket_tail (dev s') = ticket_tail (dev s)"
    "invalid_pid_list (dev s') = invalid_pid_list (dev s)"
    "\<forall>p \<tau>. task_pc (tasks s' p) = Grant \<tau> \<or> task_pc (tasks s' p) = Finish \<tau> \<longrightarrow>
       task_pc (tasks s p) = Grant \<tau> \<or> task_pc (tasks s p) = Finish \<tau> \<or> \<tau> = ticket_tail (dev s)"
  shows "turn_ok t h s'"
  using tickets_ok_cong [OF turn_okD(1) [OF assms(1)] assms(2-5)] turn_okD(2) [OF assms(1)] assms(4,6)
  unfolding turn_ok_def grants_ok_def by metis

lemma tickets_okD:
  assumes "tickets_ok t h s"
  shows "ticket_head (dev s) = of_nat h" "ticket_tail (dev s) = of_nat t" "t \<le> h" "h < 2 ^ 32"
    "invalid_pid_list (dev s) = []"
    "ticket s p = Some \<tau> \<Longrightarrow> \<exists>k. t \<le> k \<and> k < h \<and> \<tau> = of_nat k"
    "ticket s p = Some \<tau> \<Longrightarrow> ticket s q = Some \<tau> \<Longrightarrow> p = q"
  using assms unfolding tickets_ok_def by blast+

text \<open>A new ticket.\<close>

lemma take_ticket_ok:
  assumes ok: "turn_ok t h s" and h: "Suc h < 2 ^ 32" and x: "ticket_of x = Some (of_nat h)"
  and y: "\<forall>\<tau>. x \<noteq> Grant \<tau> \<and> x \<noteq> Finish \<tau>"
  shows "turn_ok t (Suc h) (set_pc p x (s\<lparr>dev := (dev s)\<lparr>ticket_head := ticket_head (dev s) + 1\<rparr>\<rparr>))"
proof -
  let ?s = "set_pc p x (s\<lparr>dev := (dev s)\<lparr>ticket_head := ticket_head (dev s) + 1\<rparr>\<rparr>)"
  note O = turn_okD [OF ok]
  note T = tickets_okD [OF O(1)]
  have new: "ticket ?s q = (if q = p then Some (of_nat h) else ticket s q)" for q using x by simp
  have range: "\<exists>k. t \<le> k \<and> k < Suc h \<and> \<tau> = of_nat k" if "ticket ?s q = Some \<tau>" for q \<tau>
  proof (cases "q = p")
    case True
    then have "\<tau> = of_nat h" using that x by simp
    then show ?thesis using T(3) by (intro exI [of _ h]) simp
  next
    case False
    then show ?thesis using that new [of q] T(6) [of q \<tau>] less_SucI by auto
  qed
  have old: "ticket s q \<noteq> Some (of_nat h)" for q
  proof
    assume "ticket s q = Some (of_nat h)"
    then obtain k where k: "k < h" "(of_nat h :: u32) = of_nat k" using T(6) by blast
    then show False using of_nat_u32_inj [of h k] T(4) by simp
  qed
  have uniq: "q = r" if "ticket ?s q = Some \<tau>" "ticket ?s r = Some \<tau>" for q r \<tau>
    using that new old T(7) [of q \<tau> r] by (auto split: if_splits)
  have "tickets_ok t (Suc h) ?s"
    unfolding tickets_ok_def
  proof (intro conjI)
    show "\<forall>q \<tau>. ticket ?s q = Some \<tau> \<longrightarrow> (\<exists>k. t \<le> k \<and> k < Suc h \<and> \<tau> = of_nat k)" using range by blast
    show "\<forall>q r \<tau>. ticket ?s q = Some \<tau> \<and> ticket ?s r = Some \<tau> \<longrightarrow> q = r" using uniq by blast
  qed (use T h in simp_all)
  moreover have "grants_ok ?s"
    using O(2) y by (auto simp: grants_ok_def)
  ultimately show ?thesis by (simp add: turn_ok_def)
qed

lemma finish_ok:
  assumes ok: "turn_ok t h s" and p: "task_pc (tasks s p) = Finish \<tau>"
  shows "turn_ok (Suc t) h (set_pc p Outside (s\<lparr>dev := acquire_finish (dev s)\<rparr>))"
proof -
  let ?s = "set_pc p Outside (s\<lparr>dev := acquire_finish (dev s)\<rparr>)"
  note O = turn_okD [OF ok]
  note T = tickets_okD [OF O(1)]
  have dev: "dev ?s = (dev s)\<lparr>ticket_tail := of_nat (Suc t)\<rparr>" using T(2,5) by (simp add: acquire_finish_def)
  have tk: "ticket s p = Some (of_nat t)" using grant_ticket [OF O(2), of p \<tau>] p T(2) by simp
  then have th: "t < h" using T(6) [OF tk] of_nat_u32_inj [of t] T(3,4) by auto
  have new: "ticket ?s q = (if q = p then None else ticket s q)" for q by simp
  have range: "\<exists>k. Suc t \<le> k \<and> k < h \<and> \<sigma> = of_nat k" if q: "ticket ?s q = Some \<sigma>" for q \<sigma>
  proof -
    have qp: "q \<noteq> p" "ticket s q = Some \<sigma>" using q new [of q] by (auto split: if_splits)
    obtain k where k: "t \<le> k" "k < h" "\<sigma> = of_nat k" using T(6) [OF qp(2)] by blast
    have "k \<noteq> t" using T(7) [OF tk, of q] qp k(3) by auto
    then show ?thesis using k by (intro exI [of _ k]) simp
  qed
  have uniq: "q = r" if "ticket ?s q = Some \<sigma>" "ticket ?s r = Some \<sigma>" for q r \<sigma>
    using that new T(7) [of q \<sigma> r] by (auto split: if_splits)
  have "tickets_ok (Suc t) h ?s"
    unfolding tickets_ok_def
  proof (intro conjI)
    show "\<forall>q \<sigma>. ticket ?s q = Some \<sigma> \<longrightarrow> (\<exists>k. Suc t \<le> k \<and> k < h \<and> \<sigma> = of_nat k)" using range by blast
    show "\<forall>q r \<sigma>. ticket ?s q = Some \<sigma> \<and> ticket ?s r = Some \<sigma> \<longrightarrow> q = r" using uniq by blast
  qed (use T dev th in simp_all)
  moreover have "grants_ok ?s"
    unfolding grants_ok_def
  proof (intro allI impI)
    fix q \<sigma>
    assume "task_pc (tasks ?s q) = Grant \<sigma> \<or> task_pc (tasks ?s q) = Finish \<sigma>"
    then have "q \<noteq> p" "task_pc (tasks s q) = Grant \<sigma> \<or> task_pc (tasks s q) = Finish \<sigma>" by (auto split: if_splits)
    then show "\<sigma> = ticket_tail (dev ?s)" using grant_unique [OF O, of p \<tau> q \<sigma>] p by blast
  qed
  ultimately show ?thesis by (simp add: turn_ok_def)
qed

text \<open>\<open>OSPRDIOCTRYACQUIRE\<close> succeeds only when no request is in progress.\<close>

lemma no_tickets:
  assumes "turn_ok t h s" "ticket_head (dev s) = ticket_tail (dev s)"
  shows "ticket s p = None"
proof (rule ccontr)
  note T = tickets_okD [OF turn_okD(1) [OF assms(1)]]
  assume "ticket s p \<noteq> None"
  then obtain \<tau> where "ticket s p = Some \<tau>" by blast
  then obtain k where k: "t \<le> k" "k < h" using T(6) by blast
  have "h = t" using of_nat_u32_inj [of h t] T(1-4) assms(2) by simp
  then show False using k by simp
qed

lemma try_acquire_dev:
  assumes "try_acquire w d = Some d'"
  shows "ticket_head d = ticket_tail d" "ticket_head d' = ticket_head d" "ticket_tail d' = ticket_tail d"
    "invalid_pid_list d' = invalid_pid_list d" "n_write_lock d \<le> 0" "w \<Longrightarrow> n_read_lock d \<le> 0"
    "n_write_lock d' = (if w then n_write_lock d + 1 else n_write_lock d)"
    "n_read_lock d' = (if w then n_read_lock d else n_read_lock d + 1)"
  using assms by (auto simp: try_acquire_def split: if_splits)

section \<open>Every step serves the tickets in order\<close>

text \<open>A step takes at most one new ticket, and serves one only to the process that holds it.\<close>

definition follows :: "nat \<Rightarrow> nat \<Rightarrow> system \<Rightarrow> nat \<Rightarrow> nat \<Rightarrow> system \<Rightarrow> bool" where
  "follows t h s t' h' s' \<longleftrightarrow> turn_ok t' h' s'
     \<and> (h' = h \<or> h' = Suc h) \<and> (t' = t \<or> t' = Suc t \<and> (\<exists>p. ticket s p = Some (of_nat t)))
     \<and> (\<forall>p. ticket s' p = ticket s p \<or> ticket s' p = None \<or> ticket s' p = Some (of_nat h) \<and> h' = Suc h)"

lemma follows_cong:
  assumes "turn_ok t h s" "\<And>p. ticket s' p = ticket s p \<or> ticket s' p = None"
    "ticket_head (dev s') = ticket_head (dev s)" "ticket_tail (dev s') = ticket_tail (dev s)"
    "invalid_pid_list (dev s') = invalid_pid_list (dev s)"
    "\<And>p \<tau>. task_pc (tasks s' p) = Grant \<tau> \<or> task_pc (tasks s' p) = Finish \<tau> \<Longrightarrow>
       task_pc (tasks s p) = Grant \<tau> \<or> task_pc (tasks s p) = Finish \<tau> \<or> \<tau> = ticket_tail (dev s)"
  shows "follows t h s t h s'"
proof -
  have "turn_ok t h s'" by (rule turn_ok_cong [OF assms(1)]) (use assms in blast)+
  then show ?thesis using assms(2) by (auto simp: follows_def)
qed

lemma acquire_step_follows:
  assumes ok: "turn_ok t h s" and h: "Suc h < 2 ^ 32" and w: "wait True = Inr ()"
  shows "\<exists>t' h'. follows t h s t' h' (fst (acquire_step wait p s))"
proof (cases "task_pc (tasks s p)")
  case Take_ticket
  show ?thesis
  proof (cases "p = write_lock_pid (dev s)")
    case True
    have "follows t h s t h (set_pc p Outside s)" by (rule follows_cong [OF ok]) (auto split: if_splits)
    then show ?thesis using Take_ticket True by (auto simp: acquire_step_def Let_def acquire_ticket_def)
  next
    case False
    define x where "x = (if f_write (files s (task_file (tasks s p))) then Check_readers (of_nat h) else Test_writer (of_nat h))"
    have head: "ticket_head (dev s) = of_nat h" by (rule tickets_okD(1) [OF turn_okD(1) [OF ok]])
    let ?s = "set_pc p x (s\<lparr>dev := (dev s)\<lparr>ticket_head := ticket_head (dev s) + 1\<rparr>\<rparr>)"
    have "turn_ok t (Suc h) ?s" by (rule take_ticket_ok [OF ok h]) (simp_all add: x_def)
    then have "follows t h s t (Suc h) ?s" by (auto simp: follows_def x_def)
    moreover have "acquire_step wait p s = (?s, None)"
      using Take_ticket False head by (simp add: acquire_step_def Let_def acquire_ticket_def x_def test_condition_def)
    ultimately show ?thesis by (metis fst_conv)
  qed
next
  case (Grant \<tau>)
  let ?f = "task_file (tasks s p)"
  have "follows t h s t h (set_pc p (Finish \<tau>)
      (lock_file True ?f (s\<lparr>dev := acquire_grant (f_write (files s ?f)) p (dev s)\<rparr>)))"
    by (rule follows_cong [OF ok]) (use Grant in \<open>auto simp: acquire_grant_def split: if_splits\<close>)
  then show ?thesis using Grant by (auto simp: acquire_step_def Let_def)
next
  case (Finish \<tau>)
  have "ticket s p = Some (of_nat t)"
    using grant_ticket [OF turn_okD(2) [OF ok], of p \<tau>] Finish tickets_okD(2) [OF turn_okD(1) [OF ok]] by simp
  then have "follows t h s (Suc t) h (set_pc p Outside (s\<lparr>dev := acquire_finish (dev s)\<rparr>))"
    using finish_ok [OF ok Finish] by (auto simp: follows_def)
  then show ?thesis using Finish by (auto simp: acquire_step_def Let_def)
next
  case (Check_readers \<tau>)
  have "follows t h s t h (set_pc p Outside s)" "follows t h s t h (set_pc p (Test_readers \<tau>) s)"
    by (rule follows_cong [OF ok]; use Check_readers in \<open>auto split: if_splits\<close>)+
  then show ?thesis using Check_readers by (auto simp: acquire_step_def Let_def test_condition_def)
next
  case (Test_readers \<tau>)
  have "follows t h s t h (set_pc p x s)" if "x \<in> {Test_writer \<tau>, Wait \<tau>}" for x
    by (rule follows_cong [OF ok]) (use Test_readers that in \<open>auto split: if_splits\<close>)
  then show ?thesis using Test_readers by (auto simp: acquire_step_def Let_def)
next
  case (Test_writer \<tau>)
  have "follows t h s t h (set_pc p x s)" if "x \<in> {Test_tail \<tau>, Wait \<tau>}" for x
    by (rule follows_cong [OF ok]) (use Test_writer that in \<open>auto split: if_splits\<close>)
  then show ?thesis using Test_writer by (auto simp: acquire_step_def Let_def)
next
  case (Test_tail \<tau>)
  have "follows t h s t h (set_pc p (if \<tau> = ticket_tail (dev s) then Grant \<tau> else Wait \<tau>) s)"
    by (rule follows_cong [OF ok]) (use Test_tail in \<open>auto split: if_splits\<close>)
  moreover have "fst (acquire_step wait p s) = set_pc p (if \<tau> = ticket_tail (dev s) then Grant \<tau> else Wait \<tau>) s"
    using Test_tail by (simp add: acquire_step_def Let_def)
  ultimately show ?thesis by metis
next
  case (Wait \<tau>)
  have "follows t h s t h (set_pc p (test_condition b \<tau>) s)" for b
    by (rule follows_cong [OF ok]) (use Wait in \<open>auto simp: test_condition_def split: if_splits\<close>)
  then show ?thesis using Wait w by (auto simp: acquire_step_def Let_def)
next
  case Outside
  have "follows t h s t h s" by (rule follows_cong [OF ok]) auto
  then show ?thesis using Outside by (auto simp: acquire_step_def Let_def)
next
  case Releasing
  have "follows t h s t h s" by (rule follows_cong [OF ok]) auto
  then show ?thesis using Releasing by (auto simp: acquire_step_def Let_def)
qed

lemma step_follows:
  assumes "osprd_step wait s s'" "wait True = Inr ()" "turn_ok t h s" "Suc h < 2 ^ 32"
  shows "\<exists>t' h'. follows t h s t' h' s'"
  using assms(1)
proof (cases rule: osprd_step.cases)
  case (enter p f)
  have "follows t h s t h s'" unfolding enter(1) by (rule follows_cong [OF assms(3)]) (auto split: if_splits)
  then show ?thesis by blast
next
  case (proceed p)
  then show ?thesis using acquire_step_follows [where wait = wait and p = p, OF assms(3,4,2)] by blast
next
  case (try_lock f)
  show ?thesis
  proof (cases "try_acquire (f_write (files s f)) (dev s)")
    case None
    have "follows t h s t h s" by (rule follows_cong [OF assms(3)]) auto
    then show ?thesis using None try_lock by (auto simp: ioctl_try_acquire_def)
  next
    case (Some d)
    have "follows t h s t h (lock_file True f (s\<lparr>dev := d\<rparr>))"
      by (rule follows_cong [OF assms(3)]) (use try_acquire_dev [OF Some] in auto)
    then show ?thesis using Some try_lock by (auto simp: ioctl_try_acquire_def)
  qed
next
  case (unlock p f)
  have "follows t h s t h (s\<lparr>tasks := (tasks s)(p := \<lparr>task_pc = Releasing, task_file = f\<rparr>)\<rparr>)" "follows t h s t h s"
    by (rule follows_cong [OF assms(3)]; auto split: if_splits)+
  then show ?thesis using unlock by (auto simp: ioctl_release_def)
next
  case (unlocked p)
  have "follows t h s t h (fst (release_step p s))"
    by (rule follows_cong [OF assms(3)]) (auto simp: release_step_def release_def Let_def split: if_splits)
  then show ?thesis using unlocked by blast
next
  case (last_close f p)
  have "follows t h s t h (close_file p f s)"
    by (rule follows_cong [OF assms(3)]) (auto simp: close_file_def osprd_close_last_def)
  then show ?thesis using last_close by blast
next
  case (reopen f w)
  have "follows t h s t h s'" unfolding reopen(1) by (rule follows_cong [OF assms(3)]) auto
  then show ?thesis by blast
qed

lemma run_ok:
  assumes "osprd_run wait n s s'" "wait True = Inr ()" "turn_ok t h s" "h + n < 2 ^ 32"
  shows "\<exists>t' h'. turn_ok t' h' s' \<and> h' \<le> h + n"
  using assms
proof (induction rule: osprd_run.induct)
  case (nil s0)
  then show ?case by auto
next
  case (snoc n s0 s1 s2)
  obtain t1 h1 where 1: "turn_ok t1 h1 s1" "h1 \<le> h + n"
    using snoc.IH snoc.prems by auto
  then have "Suc h1 < 2 ^ 32" using snoc.prems(3) by simp
  then obtain t2 h2 where "follows t1 h1 s1 t2 h2 s2"
    using step_follows [OF snoc.hyps(2) snoc.prems(1) 1(1)] by blast
  then have "turn_ok t2 h2 s2" "h2 \<le> Suc h1" by (auto simp: follows_def)
  then show ?case using 1(2) by (intro exI [of _ t2] exI [of _ h2]) simp
qed

lemma init_ok: "turn_ok 0 0 (osprd_init m)" "guard_ok (osprd_init m)"
  by (simp_all add: turn_ok_def guard_ok_def releases_ok_def tickets_ok_def grants_ok_def locks_ok_def osprd_init_def
      osprd_setup_def)

section \<open>An undisturbed step keeps the lock exclusive\<close>

lemma guard_okD:
  assumes "guard_ok s"
  shows "task_tested s p" "releases_ok s" "locks_ok (files s) (n_write_lock (dev s)) (n_read_lock (dev s))"
  using assms by (simp_all add: guard_ok_def)

lemma guard_ok_cong:
  assumes "guard_ok s" "files s' = files s" "n_read_lock (dev s') = n_read_lock (dev s)"
    "n_write_lock (dev s') = n_write_lock (dev s)"
    "\<And>q. tasks s' q = tasks s q \<or> task_tested s' q \<and> task_pc (tasks s' q) \<noteq> Releasing"
  shows "guard_ok s'"
proof -
  have t: "tested x w (dev s') = tested x w (dev s)" for x w using assms(3,4) by (cases x) simp_all
  have "task_tested s' q" for q using assms(5) [of q] guard_okD(1) [OF assms(1), of q] t assms(2) by auto
  moreover have "releases_ok s'"
    using guard_okD(2) [OF assms(1)] assms(5) unfolding releases_ok_def assms(2) by metis
  ultimately show ?thesis using guard_okD(3) [OF assms(1)] assms(2-4) by (simp add: guard_ok_def)
qed

lemma move_guard:
  assumes "guard_ok s" "tested x (f_write (files s (task_file (tasks s p)))) (dev s)" "x \<noteq> Releasing"
    "n_read_lock d = n_read_lock (dev s)" "n_write_lock d = n_write_lock (dev s)"
  shows "guard_ok (set_pc p x (s\<lparr>dev := d\<rparr>))"
proof (rule guard_ok_cong [OF assms(1)])
  fix q
  show "tasks (set_pc p x (s\<lparr>dev := d\<rparr>)) q = tasks s q \<or> task_tested (set_pc p x (s\<lparr>dev := d\<rparr>)) q
      \<and> task_pc (tasks (set_pc p x (s\<lparr>dev := d\<rparr>)) q) \<noteq> Releasing"
    using assms(2-5) by (cases "q = p"; cases x) (auto simp: set_pc_def)
qed (use assms(4,5) in simp_all)

lemma tested_otherwise:
  assumes "\<not> within_test s p" "\<forall>\<tau>. task_pc (tasks s p) \<noteq> Grant \<tau>"
  shows "tested (task_pc (tasks s p)) (f_write (files s (task_file (tasks s p)))) d"
  using assms by (cases "task_pc (tasks s p)") (simp_all add: within_test_def)

text \<open>A lock is taken by a process that has found it free.\<close>

lemma locks_ok_take:
  assumes "locks_ok fs nw nr" "nw = 0" "f_write (fs f) \<longrightarrow> nr = 0"
  shows "locks_ok (fs(f := (fs f)\<lparr>f_locked := True\<rparr>)) (if f_write (fs f) then nw + 1 else nw)
      (if f_write (fs f) then nr else nr + 1)"
  using assms locks_ok_lock_write [of fs f] locks_ok_lock_read [of fs nr f] by auto

lemma releases_ok_lock: "releases_ok s \<Longrightarrow> releases_ok (lock_file True f (s\<lparr>dev := d\<rparr>))"
  by (auto simp: releases_ok_def)

lemma grant_guard:
  assumes ok: "turn_ok t h s" and g: "guard_ok s" and p: "task_pc (tasks s p) = Grant \<tau>" and f: "f = task_file (tasks s p)"
    and u: "\<And>q. \<not> within_test s q"
  shows "guard_ok (set_pc p (Finish \<tau>) (lock_file True f (s\<lparr>dev := acquire_grant (f_write (files s f)) p (dev s)\<rparr>)))"
proof -
  let ?s = "lock_file True f (s\<lparr>dev := acquire_grant (f_write (files s f)) p (dev s)\<rparr>)"
  note G = guard_okD [OF g]
  have c: "n_write_lock (dev s) = 0" "f_write (files s f) \<longrightarrow> n_read_lock (dev s) = 0" using G(1) [of p] p f by simp_all
  have l: "locks_ok (files ?s) (n_write_lock (dev ?s)) (n_read_lock (dev ?s))"
    using locks_ok_take [OF G(3) c] by (cases "f_write (files s f)") (simp_all add: acquire_grant_def)
  have w: "f_write (files ?s q) = f_write (files s q)" for q by simp
  have "task_tested (set_pc p (Finish \<tau>) ?s) q" for q
  proof (cases "q = p")
    case False
    have "task_pc (tasks s q) \<noteq> Grant \<sigma>" for \<sigma> using grant_unique [OF turn_okD [OF ok], of p \<tau> q \<sigma>] p False by blast
    then have "tested (task_pc (tasks s q)) (f_write (files s (task_file (tasks s q)))) (dev ?s)"
      by (intro tested_otherwise [OF u]) blast
    then show ?thesis using False by (simp del: fun_upd_apply add: w [simplified])
  qed simp
  moreover have "releases_ok (set_pc p (Finish \<tau>) ?s)"
    using releases_ok_lock [OF G(2)] by (auto simp: releases_ok_def split: if_splits)
  ultimately show ?thesis using l by (simp add: guard_ok_def)
qed

lemma acquire_step_guard:
  assumes ok: "turn_ok t h s" and g: "guard_ok s" and w: "wait True = Inr ()" and u: "\<not> disturbs s (fst (acquire_step wait p s))"
  shows "guard_ok (fst (acquire_step wait p s))"
proof (cases "task_pc (tasks s p)")
  case (Grant \<tau>)
  let ?f = "task_file (tasks s p)"
  let ?s = "set_pc p (Finish \<tau>) (lock_file True ?f (s\<lparr>dev := acquire_grant (f_write (files s ?f)) p (dev s)\<rparr>))"
  have e: "fst (acquire_step wait p s) = ?s" using Grant by (simp add: acquire_step_def Let_def)
  have "takes_lock s ?s" by (simp add: takes_lock_def acquire_grant_def)
  then have "\<not> within_test s q" for q using u unfolding e disturbs_def by blast
  then show ?thesis unfolding e by (rule grant_guard [OF ok g Grant refl])
next
  case Take_ticket
  have "guard_ok (set_pc p x (s\<lparr>dev := d\<rparr>))"
    if "x = Outside \<or> x = Check_readers k \<or> x = Test_writer k \<and> \<not> f_write (files s (task_file (tasks s p)))"
      "n_read_lock d = n_read_lock (dev s)" "n_write_lock d = n_write_lock (dev s)" for x d k
    by (rule move_guard [OF g]) (use that in auto)
  from this [of Outside _ "dev s"] this [of _ "ticket_head (dev s)" "(dev s)\<lparr>ticket_head := ticket_head (dev s) + 1\<rparr>"]
  show ?thesis using Take_ticket by (auto simp: acquire_step_def Let_def acquire_ticket_def test_condition_def)
next
  case (Finish \<tau>)
  have "guard_ok (set_pc p Outside (s\<lparr>dev := acquire_finish (dev s)\<rparr>))"
    by (rule move_guard [OF g]) (simp_all add: acquire_finish_def)
  then show ?thesis using Finish by (simp add: acquire_step_def Let_def)
next
  case (Check_readers \<tau>)
  then show ?thesis using move_guard [OF g, of Outside p "dev s"] move_guard [OF g, of "Test_readers \<tau>" p "dev s"]
    by (simp add: acquire_step_def Let_def test_condition_def)
next
  case (Test_readers \<tau>)
  then show ?thesis using move_guard [OF g, of "Wait \<tau>" p "dev s"] move_guard [OF g, of "Test_writer \<tau>" p "dev s"]
    by (simp add: acquire_step_def Let_def)
next
  case (Test_writer \<tau>)
  then show ?thesis using move_guard [OF g, of "Wait \<tau>" p "dev s"] move_guard [OF g, of "Test_tail \<tau>" p "dev s"]
      guard_okD(1) [OF g, of p] by (simp add: acquire_step_def Let_def)
next
  case (Test_tail \<tau>)
  then show ?thesis using move_guard [OF g, of "Wait \<tau>" p "dev s"] move_guard [OF g, of "Grant \<tau>" p "dev s"]
      guard_okD(1) [OF g, of p] by (auto simp: acquire_step_def Let_def)
next
  case (Wait \<tau>)
  then show ?thesis
    using move_guard [OF g, of "Test_readers \<tau>" p "dev s"] move_guard [OF g, of "Test_writer \<tau>" p "dev s"] w
    by (simp add: acquire_step_def Let_def test_condition_def)
qed (use g in \<open>simp_all add: acquire_step_def Let_def\<close>)

text \<open>Releasing a lock, by \<open>OSPRDIOCRELEASE\<close> or by closing the file.\<close>

lemma drop_lock_guard:
  assumes g: "guard_ok s" and f: "f_locked (files s f)" "\<And>q. task_pc (tasks s q) = Releasing \<Longrightarrow> task_file (tasks s q) \<noteq> f"
    and d: "n_write_lock d = (if f_write (files s f) then n_write_lock (dev s) - 1 else n_write_lock (dev s))"
      "n_read_lock d = (if f_write (files s f) then n_read_lock (dev s) else n_read_lock (dev s) - 1)"
  shows "guard_ok (lock_file False f (s\<lparr>dev := d\<rparr>))"
proof -
  note G = guard_okD [OF g]
  let ?s = "lock_file False f (s\<lparr>dev := d\<rparr>)"
  have "f_write (files s f) \<Longrightarrow> n_write_lock (dev s) \<noteq> 0" "\<not> f_write (files s f) \<Longrightarrow> n_read_lock (dev s) \<noteq> 0"
    using locks_okD(3,4) [OF G(3) _ f(1)] by blast+
  moreover have "n_write_lock (dev s) = 0 \<or> n_read_lock (dev s) = 0"
    using G(3) locks_okD(1,2) [OF G(3)] by (auto simp: locks_ok_def)
  ultimately have t: "tested x w (dev s) \<Longrightarrow> tested x w d" for x w
    using d by (cases x) auto
  have "task_tested ?s q" for q using t [OF G(1) [of q]] by auto
  moreover have "releases_ok ?s" using G(2) f(2) by (auto simp: releases_ok_def)
  ultimately show ?thesis using locks_ok_unlock [OF G(3) f(1)] d by (simp add: guard_ok_def)
qed

lemma release_step_guard:
  assumes g: "guard_ok s" and p: "task_pc (tasks s p) = Releasing"
  shows "guard_ok (fst (release_step p s))"
proof -
  let ?f = "task_file (tasks s p)"
  let ?s = "set_pc p Outside s"
  have e: "fst (release_step p s) = lock_file False ?f (?s\<lparr>dev := release (f_write (files s ?f)) (dev s)\<rparr>)"
    by (simp add: release_step_def Let_def lock_file_def set_pc_def)
  have o: "guard_ok ?s" using move_guard [OF g, of Outside p "dev s"] by simp
  have R: "f_locked (files s ?f)" "task_pc (tasks s q) = Releasing \<Longrightarrow> task_file (tasks s q) = ?f \<Longrightarrow> p = q" for q
    using guard_okD(2) [OF g] p unfolding releases_ok_def by blast+
  show ?thesis unfolding e
    by (rule drop_lock_guard [OF o]) (use R in \<open>auto simp: release_def split: if_splits\<close>)
qed

lemma lock_file_unlocked: "\<not> f_locked (files s f) \<Longrightarrow> lock_file False f s = s"
  by (cases "files s f") (simp add: lock_file_def fun_upd_idem_iff)

lemma close_guard:
  assumes "guard_ok s" "unused f s"
  shows "guard_ok (close_file p f s)"
proof (cases "f_locked (files s f)")
  case True
  have "task_file (tasks s q) \<noteq> f" if "task_pc (tasks s q) = Releasing" for q using assms(2) that by (simp add: unused_def)
  from drop_lock_guard [OF assms(1) True this] show ?thesis using True by (simp add: close_file_def osprd_close_last_def)
next
  case False
  then show ?thesis using assms(1) by (simp add: close_file_def osprd_close_last_def lock_file_unlocked)
qed

lemma reopen_guard:
  assumes g: "guard_ok s" and f: "unused f s" "\<not> f_locked (files s f)"
  shows "guard_ok (s\<lparr>files := (files s)(f := \<lparr>f_write = w, f_locked = False\<rparr>)\<rparr>)"
proof -
  note G = guard_okD [OF g]
  let ?fs = "(files s)(f := \<lparr>f_write = w, f_locked = False\<rparr>)"
  let ?s = "s\<lparr>files := ?fs\<rparr>"
  have "task_tested ?s q" for q
    using G(1) [of q] f(1) by (cases "task_pc (tasks s q) = Outside") (auto simp: unused_def)
  moreover have "releases_ok ?s"
    using G(2) f by (auto simp: releases_ok_def unused_def)
  moreover have e: "{g. f_locked (?fs g)} = {g. f_locked (files s g)}"
    "{g. f_locked (?fs g) \<and> f_write (?fs g)} = {g. f_locked (files s g) \<and> f_write (files s g)}"
    "{g. f_locked (?fs g) \<and> \<not> f_write (?fs g)} = {g. f_locked (files s g) \<and> \<not> f_write (files s g)}"
    using f(2) by auto
  have "locks_ok ?fs (n_write_lock (dev s)) (n_read_lock (dev s))"
    unfolding locks_ok_def e by (rule G(3) [unfolded locks_ok_def])
  ultimately show ?thesis by (simp add: guard_ok_def)
qed

lemma try_acquire_guard:
  assumes ok: "turn_ok t h s" and g: "guard_ok s"
  shows "guard_ok (fst (ioctl_try_acquire f s))"
proof (cases "try_acquire (f_write (files s f)) (dev s)")
  case None
  then show ?thesis using g by (simp add: ioctl_try_acquire_def)
next
  case (Some d)
  note G = guard_okD [OF g]
  note D = try_acquire_dev [OF Some]
  let ?s = "lock_file True f (s\<lparr>dev := d\<rparr>)"
  have none: "ticket s p = None" for p by (rule no_tickets [OF ok D(1)])
  have "tested (task_pc (tasks s p)) w d" for p w using none [of p] by (cases "task_pc (tasks s p)") simp_all
  then have "task_tested ?s p" for p by simp
  moreover have "locks_ok (files ?s) (n_write_lock d) (n_read_lock d)"
    using locks_ok_take [OF G(3), of f] D(5-8) locks_okD(1,2) [OF G(3)] by force
  ultimately show ?thesis using Some releases_ok_lock [OF G(2)] by (simp add: ioctl_try_acquire_def guard_ok_def)
qed

lemma step_guard:
  assumes "osprd_step wait s s'" "wait True = Inr ()" "turn_ok t h s" "guard_ok s" "\<not> disturbs s s'"
  shows "guard_ok s'"
  using assms(1)
proof (cases rule: osprd_step.cases)
  case (enter p f)
  show ?thesis unfolding enter(1) by (rule guard_ok_cong [OF assms(4)]) simp_all
next
  case (proceed p)
  then show ?thesis using acquire_step_guard [where wait = wait and p = p, OF assms(3,4,2)] assms(5) by simp
next
  case (try_lock f)
  then show ?thesis using try_acquire_guard [OF assms(3,4)] by simp
next
  case (unlock p f)
  show ?thesis
  proof (cases "f_locked (files s f)")
    case True
    let ?s = "s\<lparr>tasks := (tasks s)(p := \<lparr>task_pc = Releasing, task_file = f\<rparr>)\<rparr>"
    have s': "s' = ?s" using unlock True by (simp add: ioctl_release_def)
    have "\<forall>q r. task_pc (tasks ?s q) = Releasing \<and> task_pc (tasks ?s r) = Releasing
        \<and> task_file (tasks ?s q) = task_file (tasks ?s r) \<longrightarrow> q = r"
      using assms(5) unfolding s' disturbs_def by blast
    moreover have "f_locked (files ?s (task_file (tasks ?s q)))" if "task_pc (tasks ?s q) = Releasing" for q
      using that True guard_okD(2) [OF assms(4)] by (auto simp: releases_ok_def split: if_splits)
    ultimately have "releases_ok ?s" unfolding releases_ok_def by metis
    then show ?thesis using assms(4) unfolding s' by (auto simp: guard_ok_def)
  next
    case False
    then show ?thesis using unlock assms(4) by (simp add: ioctl_release_def)
  qed
next
  case (unlocked p)
  then show ?thesis using release_step_guard [OF assms(4)] by simp
next
  case (last_close f p)
  then show ?thesis using close_guard [OF assms(4)] by simp
next
  case (reopen f w)
  then show ?thesis using reopen_guard [OF assms(4)] by simp
qed

lemma undisturbed_is_run: "undisturbed_run wait n s s' \<Longrightarrow> osprd_run wait n s s'"
  by (induction rule: undisturbed_run.induct) (auto intro: osprd_run.intros)

lemma undisturbed_guard:
  assumes "undisturbed_run wait n s s'" "wait True = Inr ()" "turn_ok t h s" "guard_ok s" "h + n < 2 ^ 32"
  shows "guard_ok s'"
  using assms
proof (induction rule: undisturbed_run.induct)
  case (snoc n s0 s1 s2)
  have n: "h + n < 2 ^ 32" using snoc.prems(4) by simp
  obtain t1 h1 where "turn_ok t1 h1 s1"
    using run_ok [OF undisturbed_is_run [OF snoc.hyps(1)] snoc.prems(1,2) n] by blast
  then show ?case using step_guard [OF snoc.hyps(2) snoc.prems(1)] snoc.IH [OF snoc.prems(1-3) n] snoc.hyps(3) by blast
qed simp

section \<open>Properties\<close>

lemma guard_exclusive:
  assumes "guard_ok s"
  shows "n_write_lock (dev s) \<le> 1 \<and> \<not> (n_write_lock (dev s) > 0 \<and> n_read_lock (dev s) > 0)
    \<and> (\<forall>f g. f_locked (files s f) \<and> f_locked (files s g) \<and> f_write (files s f) \<longrightarrow> f = g)"
proof -
  note L = guard_okD(3) [OF assms]
  have l: "n_write_lock (dev s) \<le> 1" "\<not> (n_write_lock (dev s) > 0 \<and> n_read_lock (dev s) > 0)"
    using L unfolding locks_ok_def by blast+
  have fin: "finite {f. f_locked (files s f) \<and> f_write (files s f)}"
    using L locked_parts_finite by (auto simp: locks_ok_def)
  have one: "f = g" if f: "f_locked (files s f)" "f_locked (files s g)" "f_write (files s f)" for f g
  proof (rule ccontr)
    assume ne: "f \<noteq> g"
    have w: "n_write_lock (dev s) \<noteq> 0" using locks_okD(3) [OF L _ f(1)] f(3) by blast
    then have w1: "n_write_lock (dev s) > 0" using locks_okD(1) [OF L] by simp
    then have r: "n_read_lock (dev s) = 0" using l(2) locks_okD(2) [OF L] by linarith
    have gw: "f_write (files s g)" by (rule locks_okD(4) [OF L r f(2)])
    have "{f, g} \<subseteq> {f. f_locked (files s f) \<and> f_write (files s f)}" using f gw by blast
    then have "card {f, g} \<le> card {f. f_locked (files s f) \<and> f_write (files s f)}" by (rule card_mono [OF fin])
    then show False using ne l(1) L by (simp add: locks_ok_def)
  qed
  show ?thesis using l one by blast
qed

text \<open>C4: The lock of the RAM disk, in every state that any interleaving of at most \<open>2 ^ 32 - 1\<close> steps
  reaches, every read outside of the critical sections being a step of its own. The tickets that processes hold are
  different and lie between the two counters; the process that is granted the lock is the one whose ticket is being served,
  and there is one such process at most. The lock is exclusive (at most one write lock, and no read lock besides it; two
  files never both locked when one of them is open for writing) as long as no lock is taken while another process is
  between two reads of its test, and no file is released twice at once. Without this condition it is not:
  see \<open>stale_test_grants_twice\<close>.\<close>

theorem osprd_lock_exclusive:
  assumes "wait True = Inr ()" "osprd_run wait n (osprd_init m) s" "n < 2 ^ 32"
  shows "(\<forall>p \<tau>. ticket_of (task_pc (tasks s p)) = Some \<tau> \<longrightarrow>
         unat (ticket_tail (dev s)) \<le> unat \<tau> \<and> unat \<tau> < unat (ticket_head (dev s))
         \<and> (\<forall>q. ticket_of (task_pc (tasks s q)) = Some \<tau> \<longrightarrow> p = q))
    \<and> (\<forall>p \<tau>. task_pc (tasks s p) = Grant \<tau> \<or> task_pc (tasks s p) = Finish \<tau> \<longrightarrow> \<tau> = ticket_tail (dev s)
         \<and> (\<forall>q \<sigma>. task_pc (tasks s q) = Grant \<sigma> \<or> task_pc (tasks s q) = Finish \<sigma> \<longrightarrow> p = q))
    \<and> (undisturbed_run wait n (osprd_init m) s \<longrightarrow>
         n_write_lock (dev s) \<le> 1 \<and> \<not> (n_write_lock (dev s) > 0 \<and> n_read_lock (dev s) > 0)
         \<and> (\<forall>f g. f_locked (files s f) \<and> f_locked (files s g) \<and> f_write (files s f) \<longrightarrow> f = g))"
proof -
  obtain t h where ok: "turn_ok t h s"
    using run_ok [OF assms(2,1) init_ok(1)] assms(3) by auto
  note O = turn_okD [OF ok]
  note T = tickets_okD [OF O(1)]
  have u: "unat (of_nat k :: u32) = k" if "k < 2 ^ 32" for k
    using that by (simp only: unat_of_nat_u32 power_numeral) simp
  have a: "unat (ticket_tail (dev s)) \<le> unat \<tau> \<and> unat \<tau> < unat (ticket_head (dev s)) \<and> (\<forall>q. ticket s q = Some \<tau> \<longrightarrow> p = q)"
    if p: "ticket s p = Some \<tau>" for p \<tau>
  proof -
    obtain k where "t \<le> k" "k < h" "\<tau> = of_nat k" using T(6) [OF p] by blast
    then show ?thesis using u [of k] u [of t] u [of h] T(1-4) T(7) [OF p] by auto
  qed
  have b: "\<tau> = ticket_tail (dev s) \<and> (\<forall>q \<sigma>. task_pc (tasks s q) = Grant \<sigma> \<or> task_pc (tasks s q) = Finish \<sigma> \<longrightarrow> p = q)"
    if "task_pc (tasks s p) = Grant \<tau> \<or> task_pc (tasks s p) = Finish \<tau>" for p \<tau>
    using grant_ticket(1) [OF O(2) that] grant_unique [OF O that] by blast
  have c: "guard_ok s" if "undisturbed_run wait n (osprd_init m) s"
    using undisturbed_guard [OF that assms(1) init_ok] assms(3) by simp
  show ?thesis by (intro conjI allI impI) (use a b guard_exclusive [OF c] in blast)+
qed

text \<open>A process that takes a lock: the states of a run with process 7 alone in the driver.\<close>

definition demo :: "u32 \<Rightarrow> u32 \<Rightarrow> int \<Rightarrow> int \<Rightarrow> int \<Rightarrow> int list \<Rightarrow> bool \<Rightarrow> bool \<Rightarrow> pc \<Rightarrow> nat \<Rightarrow> system" where
  "demo th tt nw nr wpid pids l0 l1 x f =
     \<lparr>dev = \<lparr>data = \<lambda>_. 0, ticket_head = th, ticket_tail = tt, n_write_lock = nw, n_read_lock = nr,
        write_lock_pid = wpid, read_lock_pids = pids, invalid_pid_list = []\<rparr>,
      files = (\<lambda>_. \<lparr>f_write = False, f_locked = False\<rparr>)
        (0 := \<lparr>f_write = False, f_locked = l0\<rparr>, 1 := \<lparr>f_write = True, f_locked = l1\<rparr>),
      tasks = (\<lambda>_. \<lparr>task_pc = Outside, task_file = 0\<rparr>)(7 := \<lparr>task_pc = x, task_file = f\<rparr>)\<rparr>"

abbreviation "no_signal \<equiv> (\<lambda>_. Inr () :: unit res)"

abbreviation demo_run :: "nat \<Rightarrow> system \<Rightarrow> bool" where
  "demo_run n s \<equiv> undisturbed_run no_signal n (osprd_init (\<lambda>_. 0)) s"

lemma demo_start: "demo_run 1 (demo 0 0 0 0 0 [] False False Outside 0)"
proof -
  let ?s = "osprd_init (\<lambda>_. 0)"
  have "osprd_step no_signal ?s (?s\<lparr>files := (files ?s)(1 := \<lparr>f_write = True, f_locked = False\<rparr>)\<rparr>)"
    by (rule osprd_step.reopen) (simp_all add: unused_def osprd_init_def)
  moreover have "?s\<lparr>files := (files ?s)(1 := \<lparr>f_write = True, f_locked = False\<rparr>)\<rparr>
      = demo 0 0 0 0 0 [] False False Outside 0"
    by (simp add: osprd_init_def osprd_setup_def demo_def fun_eq_iff)
  moreover have not_disturbed: "\<not> disturbs ?s (demo 0 0 0 0 0 [] False False Outside 0)"
    by (simp add: disturbs_def takes_lock_def within_test_def osprd_init_def demo_def)
  ultimately show ?thesis using undisturbed_run.snoc [OF undisturbed_run.nil] not_disturbed by fastforce
qed

lemma demo_undisturbed:
  "nw' \<le> nw \<and> nr' \<le> nr \<or> (\<forall>t. x \<noteq> Test_writer t \<and> x \<noteq> Test_tail t) \<Longrightarrow>
    \<not> disturbs (demo th tt nw nr wpid pids l0 l1 x f) (demo th' tt' nw' nr' wpid' pids' l0' l1' x' f')"
  by (auto simp: disturbs_def takes_lock_def within_test_def demo_def split: pc.splits)

lemma demo_enter:
  assumes "demo_run n (demo th tt nw nr wpid pids l0 l1 Outside f)"
  shows "demo_run (Suc n) (demo th tt nw nr wpid pids l0 l1 Take_ticket g)"
proof -
  let ?s = "demo th tt nw nr wpid pids l0 l1 Outside f"
  have "osprd_step no_signal ?s (?s\<lparr>tasks := (tasks ?s)(7 := \<lparr>task_pc = Take_ticket, task_file = g\<rparr>)\<rparr>)"
    by (rule osprd_step.enter) (simp add: demo_def)
  then have "osprd_step no_signal ?s (demo th tt nw nr wpid pids l0 l1 Take_ticket g)" by (simp add: demo_def)
  then show ?thesis by (rule undisturbed_run.snoc [OF assms]) (simp add: demo_undisturbed)
qed

lemma demo_proceed:
  assumes "demo_run n (demo th tt nw nr wpid pids l0 l1 x f)" "x \<noteq> Outside"
    "fst (acquire_step no_signal 7 (demo th tt nw nr wpid pids l0 l1 x f)) = demo th' tt' nw' nr' wpid' pids' l0' l1' x' f'"
    "nw' \<le> nw \<and> nr' \<le> nr \<or> (\<forall>t. x \<noteq> Test_writer t \<and> x \<noteq> Test_tail t)"
  shows "demo_run (Suc n) (demo th' tt' nw' nr' wpid' pids' l0' l1' x' f')"
proof -
  let ?s = "demo th tt nw nr wpid pids l0 l1 x f"
  have "osprd_step no_signal ?s (fst (acquire_step no_signal 7 ?s))"
    by (rule osprd_step.proceed) (use assms(2) in \<open>simp add: demo_def\<close>)
  then show ?thesis using undisturbed_run.snoc [OF assms(1)] assms(3) demo_undisturbed [OF assms(4)] by simp
qed

lemmas demo_simps = demo_def acquire_step_def acquire_ticket_def test_condition_def acquire_grant_def
  acquire_finish_def Let_def set_pc_def lock_file_def fun_eq_iff

text \<open>Process 7 holds the write lock through file 1, or a read lock through file 0.\<close>

lemma demo_writer: "demo_run 9 (demo 1 1 1 0 7 [] False True Outside 1)"
proof -
  have "demo_run (Suc 1) (demo 0 0 0 0 0 [] False False Take_ticket 1)" by (rule demo_enter [OF demo_start])
  then have "demo_run (Suc (Suc 1)) (demo 1 0 0 0 0 [] False False (Check_readers 0) 1)"
    by (rule demo_proceed) (simp_all add: demo_simps)
  then have "demo_run (Suc (Suc (Suc 1))) (demo 1 0 0 0 0 [] False False (Test_readers 0) 1)"
    by (rule demo_proceed) (simp_all add: demo_simps)
  then have "demo_run (Suc (Suc (Suc (Suc 1)))) (demo 1 0 0 0 0 [] False False (Test_writer 0) 1)"
    by (rule demo_proceed) (simp_all add: demo_simps)
  then have "demo_run (Suc (Suc (Suc (Suc (Suc 1))))) (demo 1 0 0 0 0 [] False False (Test_tail 0) 1)"
    by (rule demo_proceed) (simp_all add: demo_simps)
  then have "demo_run (Suc (Suc (Suc (Suc (Suc (Suc 1)))))) (demo 1 0 0 0 0 [] False False (Grant 0) 1)"
    by (rule demo_proceed) (simp_all add: demo_simps)
  then have "demo_run (Suc (Suc (Suc (Suc (Suc (Suc (Suc 1))))))) (demo 1 0 1 0 7 [] False True (Finish 0) 1)"
    by (rule demo_proceed) (simp_all add: demo_simps)
  then have "demo_run (Suc (Suc (Suc (Suc (Suc (Suc (Suc (Suc 1)))))))) (demo 1 1 1 0 7 [] False True Outside 1)"
    by (rule demo_proceed) (simp_all add: demo_simps)
  then show ?thesis by (simp add: numeral_eq_Suc)
qed

lemma demo_reader: "demo_run 7 (demo 1 1 0 1 0 [7] True False Outside 0)"
proof -
  have "demo_run (Suc 1) (demo 0 0 0 0 0 [] False False Take_ticket 0)" by (rule demo_enter [OF demo_start])
  then have "demo_run (Suc (Suc 1)) (demo 1 0 0 0 0 [] False False (Test_writer 0) 0)"
    by (rule demo_proceed) (simp_all add: demo_simps)
  then have "demo_run (Suc (Suc (Suc 1))) (demo 1 0 0 0 0 [] False False (Test_tail 0) 0)"
    by (rule demo_proceed) (simp_all add: demo_simps)
  then have "demo_run (Suc (Suc (Suc (Suc 1)))) (demo 1 0 0 0 0 [] False False (Grant 0) 0)"
    by (rule demo_proceed) (simp_all add: demo_simps)
  then have "demo_run (Suc (Suc (Suc (Suc (Suc 1))))) (demo 1 0 0 1 0 [7] True False (Finish 0) 0)"
    by (rule demo_proceed) (simp_all add: demo_simps)
  then have "demo_run (Suc (Suc (Suc (Suc (Suc (Suc 1)))))) (demo 1 1 0 1 0 [7] True False Outside 0)"
    by (rule demo_proceed) (simp_all add: demo_simps)
  then show ?thesis by (simp add: numeral_eq_Suc)
qed

text \<open>It releases the read lock, and asks for a write lock.\<close>

lemma demo_refused: "demo_run 11 (demo 2 1 0 0 0 [7] False False (Check_readers 1) 1)"
proof -
  let ?s = "demo 1 1 0 1 0 [7] True False Outside 0"
  let ?r = "demo 1 1 0 1 0 [7] True False Releasing 0"
  let ?u = "demo 1 1 0 0 0 [7] False False Outside 0"
  have "task_pc (tasks ?s 7) = Outside" "task_pc (tasks ?r 7) = Releasing" by (simp_all add: demo_def)
  then have "osprd_step no_signal ?s (fst (ioctl_release 7 0 ?s))" "osprd_step no_signal ?r (fst (release_step 7 ?r))"
    by (blast intro: osprd_step.intros)+
  moreover have "fst (ioctl_release 7 0 ?s) = ?r" "fst (release_step 7 ?r) = ?u"
    by (simp_all add: ioctl_release_def release_step_def release_def demo_def set_pc_def lock_file_def fun_eq_iff Let_def)
  ultimately have "demo_run (Suc (Suc 7)) ?u"
    using undisturbed_run.snoc [OF undisturbed_run.snoc [OF demo_reader]] demo_undisturbed by simp
  then have "demo_run (Suc (Suc (Suc 7))) (demo 1 1 0 0 0 [7] False False Take_ticket 1)" by (rule demo_enter)
  then have "demo_run (Suc (Suc (Suc (Suc 7)))) (demo 2 1 0 0 0 [7] False False (Check_readers 1) 1)"
    by (rule demo_proceed) (simp_all add: demo_simps)
  then show ?thesis by (simp add: numeral_eq_Suc)
qed

theorem osprd_lock_exclusive_witness:
  "undisturbed_run no_signal 9 (osprd_init (\<lambda>_. 0)) (demo 1 1 1 0 7 [] False True Outside 1)
    \<and> \<not> f_locked (files (demo 1 1 1 0 7 [] False True Outside 1) 0)"
proof -
  let ?s = "demo 1 1 1 0 7 [] False True Outside 1"
  have "\<forall>f g. f_locked (files ?s f) \<and> f_locked (files ?s g) \<and> f_write (files ?s f) \<longrightarrow> f = g"
    using osprd_lock_exclusive [OF refl undisturbed_is_run [OF demo_writer]] demo_writer by simp
  from this [rule_format, of 1 0] show ?thesis using demo_writer by (auto simp: demo_def)
qed

text \<open>Two locks for writing at once. Process 8 reads that there is no lock; then process 7, whose turn it is, takes one
  and passes the turn on; then process 8 reads that it is its turn, and takes a lock as well. The calls that put the test
  into a critical section are commented out.\<close>

definition two_writers :: "mem \<Rightarrow> system" where
  "two_writers m = \<lparr>dev = osprd_setup m,
     files = (\<lambda>_. \<lparr>f_write = False, f_locked = False\<rparr>)(1 := \<lparr>f_write = True, f_locked = False\<rparr>, 2 := \<lparr>f_write = True, f_locked = False\<rparr>),
     tasks = (\<lambda>_. \<lparr>task_pc = Outside, task_file = 0\<rparr>)
       (7 := \<lparr>task_pc = Take_ticket, task_file = 1\<rparr>, 8 := \<lparr>task_pc = Take_ticket, task_file = 2\<rparr>)\<rparr>"

definition proceed_all :: "int list \<Rightarrow> system \<Rightarrow> system" where
  "proceed_all ps s = fold (\<lambda>p s. fst (acquire_step no_signal p s)) ps s"

lemma proceed_all_run:
  "osprd_run no_signal n s0 s \<Longrightarrow> \<exists>k \<le> n + length ps. osprd_run no_signal k s0 (proceed_all ps s)"
proof (induction ps arbitrary: n s)
  case (Cons p ps)
  show ?case
  proof (cases "task_pc (tasks s p) = Outside")
    case True
    then have "proceed_all (p # ps) s = proceed_all ps s" by (simp add: proceed_all_def acquire_step_def Let_def)
    moreover obtain k where "k \<le> n + length ps" "osprd_run no_signal k s0 (proceed_all ps s)" using Cons.IH [OF Cons.prems] by blast
    ultimately show ?thesis by (intro exI [of _ k]) simp
  next
    case False
    from Cons.IH [OF osprd_run.snoc [OF Cons.prems osprd_step.proceed [where wait = no_signal, OF False]]]
    show ?thesis by (simp add: proceed_all_def)
  qed
qed (auto simp: proceed_all_def)

lemma two_writers_run: "osprd_run no_signal 4 (osprd_init m) (two_writers m)"
proof -
  let ?i = "osprd_init m"
  let ?w = "\<lparr>f_write = True, f_locked = False\<rparr>"
  let ?a = "?i\<lparr>files := (files ?i)(1 := ?w)\<rparr>"
  let ?b = "?a\<lparr>files := (files ?a)(2 := ?w)\<rparr>"
  let ?c = "?b\<lparr>tasks := (tasks ?b)(7 := \<lparr>task_pc = Take_ticket, task_file = 1\<rparr>)\<rparr>"
  let ?d = "?c\<lparr>tasks := (tasks ?c)(8 := \<lparr>task_pc = Take_ticket, task_file = 2\<rparr>)\<rparr>"
  have "osprd_step no_signal ?i ?a" "osprd_step no_signal ?a ?b"
    by (rule osprd_step.reopen; simp add: unused_def osprd_init_def)+
  moreover have "osprd_step no_signal ?b ?c" "osprd_step no_signal ?c ?d"
    by (rule osprd_step.enter; simp add: osprd_init_def)+
  ultimately have "osprd_run no_signal (Suc (Suc (Suc (Suc 0)))) ?i ?d" by (blast intro: osprd_run.intros)
  moreover have "?d = two_writers m" by (simp add: two_writers_def osprd_init_def)
  ultimately show ?thesis by (simp add: numeral_eq_Suc)
qed

lemma stale_test_grants_twice:
  "\<exists>n < 2 ^ 32. \<exists>s. osprd_run no_signal n (osprd_init m) s \<and> n_write_lock (dev s) = 2
    \<and> f_locked (files s 1) \<and> f_write (files s 1) \<and> f_locked (files s 2) \<and> f_write (files s 2)"
proof -
  let ?s = "proceed_all [7, 8, 7, 8, 7, 7, 7, 8, 8, 7, 7, 8, 8] (two_writers m)"
  obtain n where "n \<le> 4 + 13" "osprd_run no_signal n (osprd_init m) ?s"
    using proceed_all_run [OF two_writers_run [of m], of "[7, 8, 7, 8, 7, 7, 7, 8, 8, 7, 7, 8, 8]"] by auto
  moreover from this have "n < 2 ^ 32" by simp
  moreover have "n_write_lock (dev ?s) = 2" "f_locked (files ?s 1)" "f_write (files ?s 1)" "f_locked (files ?s 2)" "f_write (files ?s 2)"
    by (simp_all add: proceed_all_def two_writers_def osprd_setup_def demo_simps)
  ultimately show ?thesis by blast
qed

text \<open>Releasing a write lock does not forget who wrote: although the device is then free, the next
  request for a lock by the same process is refused as a deadlock, through whatever file.\<close>

lemma osprd_release_then_acquire_refused:
  assumes "wait True = Inr ()" "undisturbed_run wait n (osprd_init m) s" "n < 2 ^ 32" "task_pc (tasks s p) = Outside"
    "f_locked (files s f)" "f_write (files s f)" "write_lock_pid (dev s) = p" "\<forall>q. task_pc (tasks s q) \<noteq> Releasing"
    "s1 = fst (release_step p (fst (ioctl_release p f s)))"
    "s2 = s1\<lparr>tasks := (tasks s1)(p := \<lparr>task_pc = Take_ticket, task_file = g\<rparr>)\<rparr>"
  shows "n_write_lock (dev s1) = 0 \<and> n_read_lock (dev s1) = 0 \<and> (\<forall>f'. \<not> f_locked (files s1 f'))
    \<and> snd (acquire_step wait p s2) = Some (Inl EDEADLK)"
proof -
  let ?r = "s\<lparr>tasks := (tasks s)(p := \<lparr>task_pc = Releasing, task_file = f\<rparr>)\<rparr>"
  have g: "guard_ok s" using undisturbed_guard [OF assms(2,1) init_ok] assms(3) by simp
  note L = guard_okD(3) [OF g]
  have "n_write_lock (dev s) \<noteq> 0" using locks_okD(3) [OF L _ assms(5)] assms(6) by blast
  moreover have "n_write_lock (dev s) \<le> 1" "\<not> (0 < n_write_lock (dev s) \<and> 0 < n_read_lock (dev s))"
    using L unfolding locks_ok_def by blast+
  ultimately have w: "n_write_lock (dev s) = 1" "n_read_lock (dev s) = 0"
    using locks_okD(1,2) [OF L] by linarith+
  have r: "fst (ioctl_release p f s) = ?r" using assms(5) by (simp add: ioctl_release_def)
  have "releases_ok ?r" using guard_okD(2) [OF g] assms(5,8) by (auto simp: releases_ok_def)
  then have "guard_ok ?r" using g by (auto simp: guard_ok_def)
  then have g1: "guard_ok s1" unfolding assms(9) r by (rule release_step_guard) simp
  have s1: "dev s1 = release True (dev s)" using assms(6,9) by (simp add: r release_step_def Let_def)
  have z: "n_write_lock (dev s1) = 0" "n_read_lock (dev s1) = 0" using w by (simp_all add: s1 release_def)
  note L1 = guard_okD(3) [OF g1, unfolded z]
  have "\<not> f_locked (files s1 f')" for f' using locks_okD(3,4) [OF L1, of f'] by blast
  moreover have "snd (acquire_step wait p s2) = Some (Inl EDEADLK)"
    using assms(7,10) s1 by (simp add: acquire_step_def Let_def acquire_ticket_def release_def)
  ultimately show ?thesis using z by simp
qed

lemma osprd_release_then_acquire_refused_witness:
  "snd (acquire_step no_signal 7 ((fst (release_step 7 (fst (ioctl_release 7 1 (demo 1 1 1 0 7 [] False True Outside 1)))))
      \<lparr>tasks := (tasks (fst (release_step 7 (fst (ioctl_release 7 1 (demo 1 1 1 0 7 [] False True Outside 1))))))
        (7 := \<lparr>task_pc = Take_ticket, task_file = 0\<rparr>)\<rparr>)) = Some (Inl EDEADLK)"
  using osprd_release_then_acquire_refused [OF refl demo_writer _ _ _ _ _ _ refl refl, of 7 1 0]
  by (simp add: demo_def)

section \<open>A leaked ticket\<close>

text \<open>The ticket being served belongs to no process.\<close>

definition stuck :: "nat \<Rightarrow> nat \<Rightarrow> system \<Rightarrow> bool" where
  "stuck t h s \<longleftrightarrow> turn_ok t h s \<and> t < h \<and> (\<forall>p. ticket s p \<noteq> Some (of_nat t))"

lemma stuck_follows:
  assumes "stuck t h s" "follows t h s t' h' s'"
  shows "t' = t" "stuck t h' s'"
proof -
  have n: "ticket s p \<noteq> Some (of_nat t)" for p using assms(1) by (simp add: stuck_def)
  then show t: "t' = t" using assms(2) by (auto simp: follows_def)
  have h: "h < 2 ^ 32" using assms(1) tickets_okD(4) [OF turn_okD(1)] by (auto simp: stuck_def)
  have "ticket s' p \<noteq> Some (of_nat t)" for p
  proof -
    have "(of_nat h :: u32) \<noteq> of_nat t"
      using of_nat_u32_inj [of h t] h assms(1) by (auto simp: stuck_def)
    moreover have "ticket s' p = ticket s p \<or> ticket s' p = None \<or> ticket s' p = Some (of_nat h)"
      using assms(2) unfolding follows_def by blast
    ultimately show ?thesis using n [of p] by auto
  qed
  then show "stuck t h' s'" using assms t by (auto simp: stuck_def follows_def)
qed

lemma stuck_run:
  assumes "osprd_run wait n s s'" "wait True = Inr ()" "stuck t h s" "h + n < 2 ^ 32"
  shows "\<exists>h'. stuck t h' s' \<and> h' \<le> h + n"
  using assms
proof (induction rule: osprd_run.induct)
  case (snoc n s0 s1 s2)
  obtain h1 where 1: "stuck t h1 s1" "h1 \<le> h + n" using snoc.IH snoc.prems by auto
  have "turn_ok t h1 s1" "Suc h1 < 2 ^ 32" using 1 snoc.prems(3) by (auto simp: stuck_def)
  then obtain t2 h2 where f: "follows t h1 s1 t2 h2 s2"
    using step_follows [OF snoc.hyps(2) snoc.prems(1)] by blast
  then have "h2 \<le> Suc h1" by (auto simp: follows_def)
  then show ?case using stuck_follows(2) [OF 1(1) f] 1(2) by (intro exI [of _ h2]) simp
qed auto

text \<open>C38: A process that is still on the list of readers and asks for a write lock is refused as a
  deadlock, but the ticket it took stays the one being served: if no other request was in
  progress, no lock of the device is ever granted again, to any process, whatever happens.\<close>

theorem osprd_refused_writer_blocks_device:
  assumes "wait True = Inr ()" "osprd_run wait n (osprd_init m) s" "task_pc (tasks s p) = Check_readers \<tau>"
    "reads_already p (read_lock_pids (dev s))" "\<forall>q. q \<noteq> p \<longrightarrow> ticket_of (task_pc (tasks s q)) = None"
    "osprd_run wait k (fst (acquire_step wait p s)) s'" "n + k < 2 ^ 32"
  shows "snd (acquire_step wait p s) = Some (Inl EDEADLK)
    \<and> (\<forall>q \<sigma>. task_pc (tasks s' q) \<noteq> Grant \<sigma> \<and> task_pc (tasks s' q) \<noteq> Finish \<sigma>)
    \<and> (\<forall>f. ioctl_try_acquire f s' = (s', Inl EBUSY))"
proof -
  obtain t h where ok: "turn_ok t h s" "h \<le> n"
    using run_ok [OF assms(2,1) init_ok(1)] assms(7) by auto
  let ?s1 = "fst (acquire_step wait p s)"
  have s1: "acquire_step wait p s = (set_pc p Outside s, Some (Inl EDEADLK))"
    using assms(3,4) by (simp add: acquire_step_def Let_def)
  have "ticket s p = Some \<tau>" using assms(3) by simp
  then have "t < h" using tickets_okD(6) [OF turn_okD(1) [OF ok(1)]] by fastforce
  moreover have "turn_ok t h (set_pc p Outside s)" by (rule turn_ok_cong [OF ok(1)]) auto
  ultimately have "stuck t h ?s1" using s1 assms(5) by (simp add: stuck_def)
  then obtain h' where st: "stuck t h' s'"
    using stuck_run [OF assms(6,1)] ok(2) assms(7) by fastforce
  then have ok': "turn_ok t h' s'" and th: "t < h'" and n: "\<And>q. ticket s' q \<noteq> Some (of_nat t)"
    by (simp_all add: stuck_def)
  note T = tickets_okD [OF turn_okD(1) [OF ok']]
  have "ticket_head (dev s') \<noteq> ticket_tail (dev s')"
    using of_nat_u32_inj [of h' t] T(1,2,4) th by simp
  then have "ioctl_try_acquire f s' = (s', Inl EBUSY)" for f
    by (simp add: ioctl_try_acquire_def try_acquire_def)
  moreover have "task_pc (tasks s' q) \<noteq> Grant \<sigma> \<and> task_pc (tasks s' q) \<noteq> Finish \<sigma>" for q \<sigma>
    using grant_ticket [OF turn_okD(2) [OF ok'], of q \<sigma>] n [of q] T(2) by auto
  ultimately show ?thesis using s1 by simp
qed

theorem osprd_refused_writer_blocks_device_witness:
  "ioctl_try_acquire 0 (demo 2 1 0 0 0 [7] False False Take_ticket 0)
    = (demo 2 1 0 0 0 [7] False False Take_ticket 0, Inl EBUSY)"
proof -
  let ?s = "demo 2 1 0 0 0 [7] False False (Check_readers 1) 1"
  let ?s1 = "demo 2 1 0 0 0 [7] False False Outside 1"
  let ?s2 = "demo 2 1 0 0 0 [7] False False Take_ticket 0"
  have e: "fst (acquire_step no_signal 7 ?s) = ?s1" by (simp add: demo_simps)
  have "osprd_step no_signal ?s1 (?s1\<lparr>tasks := (tasks ?s1)(7 := \<lparr>task_pc = Take_ticket, task_file = 0\<rparr>)\<rparr>)"
    by (rule osprd_step.enter) (simp add: demo_def)
  then have "osprd_step no_signal ?s1 ?s2" by (simp add: demo_def)
  then have r: "osprd_run no_signal (Suc 0) (fst (acquire_step no_signal 7 ?s)) ?s2"
    unfolding e by (rule osprd_run.snoc [OF osprd_run.nil])
  have "task_pc (tasks ?s 7) = Check_readers 1" "reads_already 7 (read_lock_pids (dev ?s))"
    "\<forall>q. q \<noteq> 7 \<longrightarrow> ticket_of (task_pc (tasks ?s q)) = None"
    by (simp_all add: demo_def)
  then show ?thesis
    using osprd_refused_writer_blocks_device [OF refl undisturbed_is_run [OF demo_refused] _ _ _ r] by simp
qed

section \<open>Block requests\<close>

text \<open>A write request inside the disk followed by a read request of the same sectors gives the data
  back and leaves all other bytes of the disk alone; a request that ends beyond the disk is
  refused and changes nothing. (The sector numbers are such that their sum does not wrap
  around.)\<close>

lemma osprd_write_then_read:
  assumes "blk_fs_request req" "unat (sector req) + unat (current_nr_sectors req) < 2 ^ 23"
    "length (buffer req) = 512 * unat (current_nr_sectors req)" "length buf = length (buffer req)"
  shows "(if unat (sector req) + unat (current_nr_sectors req) \<le> unat nsectors
     then (\<exists>d'. osprd_process_request nsectors d (req\<lparr>rq_data_dir := 1\<rparr>) = (d', req\<lparr>rq_data_dir := 1\<rparr>, True)
         \<and> osprd_process_request nsectors d' (req\<lparr>rq_data_dir := 0, buffer := buf\<rparr>)
             = (d', req\<lparr>rq_data_dir := 0\<rparr>, True)
         \<and> (\<forall>x. x < 512 * unat (sector req) \<or> 512 * (unat (sector req) + unat (current_nr_sectors req)) \<le> x
              \<longrightarrow> data d' x = data d x))
     else osprd_process_request nsectors d req = (d, req, False))"
proof -
  let ?a = "unat (sector req)" and ?n = "unat (current_nr_sectors req)"
  have m: "unat (sector req * 512) = 512 * ?a" "unat (current_nr_sectors req * 512) = 512 * ?n"
    using assms(2) by (simp_all add: unat_word_ariths)
  have s: "unat (sector req + current_nr_sectors req) = ?a + ?n"
    using assms(2) by (simp add: unat_word_ariths)
  have gt: "(sector req + current_nr_sectors req > nsectors) = (\<not> ?a + ?n \<le> unat nsectors)"
    by (simp add: word_less_nat_alt s not_le)
  show ?thesis
  proof (cases "?a + ?n \<le> unat nsectors")
    case True
    let ?d = "d\<lparr>data := mem_write (data d) (512 * ?a) (buffer req)\<rparr>"
    have w: "osprd_process_request nsectors d (req\<lparr>rq_data_dir := 1\<rparr>) = (?d, req\<lparr>rq_data_dir := 1\<rparr>, True)"
      using assms(1,3) True gt m by (simp add: osprd_process_request_def Let_def)
    have "mem_read (data ?d) (512 * ?a) (512 * ?n) = buffer req"
      using mem_read_mem_write [of "data d" "512 * ?a" "buffer req"] assms(3) by simp
    then have r: "osprd_process_request nsectors ?d (req\<lparr>rq_data_dir := 0, buffer := buf\<rparr>)
        = (?d, req\<lparr>rq_data_dir := 0\<rparr>, True)"
      using assms(1,3,4) True gt m by (simp add: osprd_process_request_def Let_def)
    have "\<forall>x. x < 512 * ?a \<or> 512 * (?a + ?n) \<le> x \<longrightarrow> data ?d x = data d x"
      using mem_write_apply_other [of _ "512 * ?a" "buffer req" "data d"] assms(3) by auto
    then show ?thesis using w r True by auto
  next
    case False
    then show ?thesis using gt by (simp add: osprd_process_request_def Let_def)
  qed
qed

definition demo_request :: request where
  "demo_request = \<lparr>blk_fs_request = True, rq_data_dir = 1, sector = 3, current_nr_sectors = 1,
     buffer = replicate 512 9\<rparr>"

lemma osprd_write_then_read_witness:
  "\<exists>d'. osprd_process_request 32 (osprd_setup (\<lambda>_. 0)) demo_request = (d', demo_request, True)
    \<and> data d' 1535 = 0"
proof -
  have r: "demo_request\<lparr>rq_data_dir := 1\<rparr> = demo_request" by (simp add: demo_request_def)
  show ?thesis
    using osprd_write_then_read [of demo_request "replicate 512 0" 32 "osprd_setup (\<lambda>_. 0)"]
    unfolding r by (auto simp: demo_request_def osprd_setup_def)
qed

end
