(* ===== verification/OsprdAccess.thy ===== *)
theory OsprdAccess
  imports CharType Complex_Main
begin

text \<open>
  The tool that reads and writes the RAM disks, \<open>lab2/osprdaccess.c\<close>: the two transfer loops, and the
  command line with what it does to the devices.
\<close>

section \<open>Transfers\<close>

text \<open>
  What the next call of \<open>read\<close> or \<open>write\<close> does: be interrupted, find the device full, fail, or move at
  most so many bytes. A call that moves 0 bytes of what there is to read is the end of the file.
\<close>

datatype io_call = Again | No_space | Fails | Moves nat

abbreviation (input) "BUFSIZ \<equiv> (8192 :: nat)"

text \<open>The result of a transfer: whether the program exits with an error, the rest of the input, and the output.\<close>

record transferred =
  exit_1 :: bool
  unread :: "u8 list"
  written :: "u8 list"

text \<open>The loop that writes a buffer: whether the program goes on, the output, and the calls left.\<close>

fun write_buffer :: "u8 list \<Rightarrow> u8 list \<Rightarrow> io_call list \<Rightarrow> (bool \<times> u8 list \<times> io_call list) option" where
  "write_buffer buf out calls =
     (if buf = [] then Some (True, out, calls)
      else (case calls of
              [] \<Rightarrow> None
            | Again # calls \<Rightarrow> write_buffer buf out calls
            | No_space # calls \<Rightarrow> Some (True, out, calls)
            | Fails # calls \<Rightarrow> Some (False, out, calls)
            | Moves n # calls \<Rightarrow> write_buffer (drop n buf) (out @ take n buf) calls))"

declare write_buffer.simps [simp del]

lemma write_buffer_calls: "write_buffer buf out calls = Some (ok, out', calls') \<Longrightarrow> length calls' \<le> length calls"
  by (induction buf out calls rule: write_buffer.induct)
     (subst (asm) (2) write_buffer.simps, auto split: if_splits list.splits io_call.splits simp: le_Suc_eq)


text \<open>The sizes are 32-bit integers with sign; a negative one stands for the whole file.\<close>

definition chunk :: "u32 \<Rightarrow> nat" where
  "chunk n = (if sint n > 0 \<and> sint n < int BUFSIZ then unat n else BUFSIZ)"

function transfer :: "u32 \<Rightarrow> u8 list \<Rightarrow> u8 list \<Rightarrow> io_call list \<Rightarrow> transferred option" where
  "transfer n input out calls =
     (if n = 0 then Some \<lparr>exit_1 = False, unread = input, written = out\<rparr>
      else (case calls of
              [] \<Rightarrow> None
            | Again # calls \<Rightarrow> transfer n input out calls
            | No_space # calls \<Rightarrow> Some \<lparr>exit_1 = True, unread = input, written = out\<rparr>
            | Fails # calls \<Rightarrow> Some \<lparr>exit_1 = True, unread = input, written = out\<rparr>
            | Moves k # calls \<Rightarrow>
                (let r = min k (min (chunk n) (length input)) in
                 if r = 0 then Some \<lparr>exit_1 = False, unread = input, written = out\<rparr>
                 else (case write_buffer (take r input) out calls of
                         None \<Rightarrow> None
                       | Some (ok, out, calls) \<Rightarrow>
                           if ok then transfer (n - of_nat r) (drop r input) out calls
                           else Some \<lparr>exit_1 = True, unread = drop r input, written = out\<rparr>))))"
  by pat_completeness auto
termination
  by (relation "measure (\<lambda>(n, input, out, calls). length calls)") (auto dest!: write_buffer_calls simp: less_Suc_eq_le)

declare transfer.simps [simp del]

function transfer_zero :: "u32 \<Rightarrow> u8 list \<Rightarrow> io_call list \<Rightarrow> (bool \<times> u8 list) option" where
  "transfer_zero n out calls =
     (if n = 0 then Some (True, out)
      else (case calls of
              [] \<Rightarrow> None
            | Again # calls \<Rightarrow> transfer_zero n out calls
            | No_space # calls \<Rightarrow> Some (True, out)
            | Fails # calls \<Rightarrow> Some (False, out)
            | Moves k # calls \<Rightarrow>
                (let w = min k (chunk n) in transfer_zero (n - of_nat w) (out @ replicate w 0) calls)))"
  by pat_completeness auto
termination
  by (relation "measure (\<lambda>(n, out, calls). length calls)") auto

declare transfer_zero.simps [simp del]

section \<open>The command line\<close>

text \<open>\<open>strtod\<close> reads a whole string as a number; \<open>None\<close>: it is not one.\<close>

record options =
  mode_write :: bool
  dolock :: bool
  dotrylock :: bool
  zero :: bool
  nbytes :: u32
  offset :: int
  delay :: rat
  lock_delay :: rat
  devname :: string

definition initial_options :: options where
  "initial_options = \<lparr>mode_write = False, dolock = False, dotrylock = False, zero = False, nbytes = -1, offset = 0,
     delay = 0, lock_delay = 0, devname = ''/dev/osprda''\<rparr>"

definition parse_ssize :: "string \<Rightarrow> int option" where
  "parse_ssize arg = strtol0 (map of_char arg)"

text \<open>\<open>Crash\<close>: the program reads through a null pointer.\<close>

datatype parsed = Usage nat | Crash | Options options "string list"

function parse_flags :: "(string \<Rightarrow> rat option) \<Rightarrow> string list \<Rightarrow> options \<Rightarrow> parsed" where
  "parse_flags strtod args o1 =
     (case args of
        [] \<Rightarrow> Options o1 []
      | a # rest \<Rightarrow>
          if a = ''-r'' \<or> a = ''-w'' then
            (let o2 = o1\<lparr>mode_write := (a = ''-w'')\<rparr> in
             case rest of
               [] \<Rightarrow> Options o2 []
             | s # rest1 \<Rightarrow>
                 (case parse_ssize s of
                    Some v \<Rightarrow> parse_flags strtod rest1 (o2\<lparr>nbytes := of_int v\<rparr>)
                  | None \<Rightarrow> parse_flags strtod rest o2))
          else if a = ''-o'' then
            (case rest of
               [] \<Rightarrow> Crash
             | s # rest1 \<Rightarrow>
                 (case parse_ssize s of None \<Rightarrow> Usage 1 | Some v \<Rightarrow> parse_flags strtod rest1 (o1\<lparr>offset := v\<rparr>)))
          else if a = ''-l'' \<or> a = ''-L'' then
            (let o2 = o1\<lparr>dolock := (a = ''-l''), dotrylock := (a = ''-L'')\<rparr> in
             case rest of
               [] \<Rightarrow> Options o2 []
             | s # rest1 \<Rightarrow>
                 (case strtod s of
                    Some v \<Rightarrow> parse_flags strtod rest1 (o2\<lparr>lock_delay := v\<rparr>)
                  | None \<Rightarrow> parse_flags strtod rest o2))
          else if a = ''-d'' then
            (case rest of
               [] \<Rightarrow> Options o1 []
             | s # rest1 \<Rightarrow>
                 (case strtod s of
                    Some v \<Rightarrow> parse_flags strtod rest1 (o1\<lparr>delay := v\<rparr>)
                  | None \<Rightarrow> parse_flags strtod rest o1))
          else if a = ''-z'' then parse_flags strtod rest (o1\<lparr>zero := True\<rparr>)
          else if a = ''-h'' \<or> a = ''--help'' then Usage 0
          else Options o1 args)"
  by pat_completeness auto
termination
  by (relation "measure (\<lambda>(strtod, args, o1). length args)") auto

declare parse_flags.simps [simp del]

section \<open>The devices\<close>

datatype event = Open string bool | Sleep rat | Acquire | Try_acquire | Seek int

text \<open>The end of the part before the transfer. \<open>Wild\<close>: the second character of an empty argument is read.\<close>

datatype prepared = Usage_exit nat | Crashes | Wild | Error_exit "event list" | Ready options "event list"

text \<open>The next device, unless the second character of the argument is a minus sign.\<close>

definition detect_device :: "string list \<Rightarrow> options \<Rightarrow> (string list \<times> options) option" where
  "detect_device args o1 =
     (case args of
        [] \<Rightarrow> Some (args, o1)
      | a # rest \<Rightarrow>
          if a = [] then None
          else if length a > 1 \<and> a ! 1 = CHR 0x2D then Some (args, o1)
          else Some (rest, o1\<lparr>devname := a\<rparr>))"

definition lock_events :: "options \<Rightarrow> event list" where
  "lock_events o1 =
     (if dolock o1 \<or> dotrylock o1
      then (if lock_delay o1 \<ge> 0 then [Sleep (lock_delay o1)] else []) @ [if dolock o1 then Acquire else Try_acquire]
      else [])"

definition delay_events :: "options \<Rightarrow> event list" where
  "delay_events o1 = (if delay o1 \<ge> 0 then [Sleep (delay o1)] else [])"

text \<open>
  The loop over the devices; \<open>oks\<close> says which of the calls of \<open>open\<close>, \<open>ioctl\<close> and \<open>lseek\<close> succeed, and the result is
  \<open>None\<close> when it is used up.
\<close>

function prepare :: "(string \<Rightarrow> rat option) \<Rightarrow> string list \<Rightarrow> options \<Rightarrow> bool list \<Rightarrow> event list \<Rightarrow> prepared option" where
  "prepare strtod args o1 oks events =
     (case parse_flags strtod args o1 of
        Usage n \<Rightarrow> Some (Usage_exit n)
      | Crash \<Rightarrow> Some Crashes
      | Options o2 rest \<Rightarrow>
          (case detect_device rest o2 of
             None \<Rightarrow> Some Wild
           | Some (rest, o3) \<Rightarrow>
               (case oks of
                  [] \<Rightarrow> None
                | opened # oks \<Rightarrow>
                    (let events = events @ [Open (devname o3) (mode_write o3)] in
                     if \<not> opened then Some (Error_exit events)
                     else
                       (let events = events @ lock_events o3; locks = (dolock o3 \<or> dotrylock o3) in
                        if locks \<and> oks = [] then None
                        else if locks \<and> \<not> hd oks then Some (Error_exit events)
                        else
                          (let events = events @ delay_events o3; oks = (if locks then tl oks else oks) in
                           if rest \<noteq> [] then prepare strtod rest o3 oks events
                           else (case oks of
                                   [] \<Rightarrow> None
                                 | sought # _ \<Rightarrow>
                                     (let events = events @ [Seek (offset o3)]
                                      in Some (if sought then Ready o3 events else Error_exit events)))))))))"
  by pat_completeness auto
termination
  by (relation "measure (\<lambda>(strtod, args, o1, oks, events). length oks)") (auto simp: le_imp_less_Suc)

declare prepare.simps [simp del]

text \<open>The transfer: the exit status and what was written, to the device or to the standard output.\<close>

definition finish :: "options \<Rightarrow> u8 list \<Rightarrow> u8 list \<Rightarrow> io_call list \<Rightarrow> (nat \<times> u8 list) option" where
  "finish o1 input device calls =
     (if mode_write o1 \<and> zero o1
      then map_option (\<lambda>(ok, out). (if ok then 0 else 1, out)) (transfer_zero (nbytes o1) [] calls)
      else map_option (\<lambda>t. (if exit_1 t then 1 else 0, written t))
             (transfer (nbytes o1) (if mode_write o1 then input else drop (nat (offset o1)) device) [] calls))"

end
