(* ===== verification/OsprdAccessProps.thy ===== *)
theory OsprdAccessProps
  imports OsprdAccess
begin

text \<open>
  Correctness of the RAM disk tool: what the transfer loops move when the calls make progress, the
  command lines that are read as they are meant, and those on which the program crashes or does not end.
\<close>

section \<open>Sizes\<close>

lemma sint_of_int_u32: "- (2 ^ 31) \<le> i \<Longrightarrow> i < 2 ^ 31 \<Longrightarrow> sint (of_int i :: u32) = i"
  by (simp add: signed_of_int signed_take_bit_int_eq_self)

lemma of_int_u32_zero: "- (2 ^ 31) \<le> i \<Longrightarrow> i < 2 ^ 31 \<Longrightarrow> (of_int i :: u32) = 0 \<longleftrightarrow> i = 0"
  using sint_of_int_u32 [of i] by (metis of_int_0 signed_0)

lemma chunk_of_int:
  assumes "- (2 ^ 31) \<le> i" "i < 2 ^ 31"
  shows "chunk (of_int i) = (if 0 < i \<and> i < 8192 then nat i else 8192)"
proof -
  have "unat (of_int i :: u32) = nat i" if "0 < i"
  proof -
    have "(of_int i :: u32) = of_nat (nat i)" "nat i < 2 ^ 32" using that assms by simp_all
    then show ?thesis by (simp only: unat_of_nat) simp
  qed
  then show ?thesis unfolding chunk_def sint_of_int_u32 [OF assms] by simp
qed

section \<open>Transfers\<close>

text \<open>Calls that are interrupted or make progress, and how many make progress.\<close>

definition steady :: "io_call list \<Rightarrow> bool" where
  "steady calls \<longleftrightarrow> (\<forall>c \<in> set calls. c = Again \<or> (\<exists>n > 0. c = Moves n))"

definition moves :: "io_call list \<Rightarrow> nat" where
  "moves calls = length (filter (\<lambda>c. c \<noteq> Again) calls)"

lemma steady_Cons: "steady (c # calls) \<longleftrightarrow> (c = Again \<or> (\<exists>n > 0. c = Moves n)) \<and> steady calls"
  by (auto simp: steady_def)

lemma moves_Cons: "moves (c # calls) = (if c = Again then 0 else 1) + moves calls"
  by (simp add: moves_def)

lemma write_buffer_steady:
  "steady calls \<Longrightarrow> length buf \<le> moves calls \<Longrightarrow>
    \<exists>calls'. write_buffer buf out calls = Some (True, out @ buf, calls') \<and> steady calls' \<and> moves calls \<le> moves calls' + length buf"
proof (induction calls arbitrary: buf out)
  case Nil
  then show ?case by (simp add: moves_def write_buffer.simps)
next
  case (Cons c calls)
  show ?case
  proof (cases "buf = []")
    case True
    then show ?thesis using Cons.prems by (simp add: write_buffer.simps)
  next
    case False
    consider "c = Again" | n where "0 < n" "c = Moves n" using Cons.prems(1) by (auto simp: steady_Cons)
    then show ?thesis
    proof cases
      case 1
      then show ?thesis using Cons False by (subst write_buffer.simps) (simp add: steady_Cons moves_Cons)
    next
      case 2
      have "length (drop n buf) \<le> moves calls" "length (drop n buf) + 1 \<le> length buf"
        using 2 Cons.prems(2) False by (simp_all add: moves_Cons Suc_leI)
      moreover have "steady calls" using Cons.prems(1) by (simp add: steady_Cons)
      ultimately obtain calls' where "write_buffer (drop n buf) (out @ take n buf) calls = Some (True, (out @ take n buf) @ drop n buf, calls')"
        "steady calls'" "moves calls \<le> moves calls' + length (drop n buf)"
        using Cons.IH by blast
      then show ?thesis
        using 2 False \<open>length (drop n buf) + 1 \<le> length buf\<close> by (subst write_buffer.simps) (simp add: moves_Cons)
    qed
  qed
qed

text \<open>How much is moved: at most so many bytes, or everything for a negative size.\<close>

definition amount :: "int \<Rightarrow> nat \<Rightarrow> nat" where
  "amount i len = (if 0 \<le> i then min (nat i) len else len)"

lemma transfer_steady:
  "- (2 ^ 31) \<le> i \<Longrightarrow> i < 2 ^ 31 \<Longrightarrow> (i < 0 \<Longrightarrow> int (length input) \<le> 2 ^ 31 + i)
    \<Longrightarrow> steady calls \<Longrightarrow> 2 * amount i (length input) + 1 \<le> moves calls
    \<Longrightarrow> transfer (of_int i) input out calls =
      Some \<lparr>exit_1 = False, unread = drop (amount i (length input)) input, written = out @ take (amount i (length input)) input\<rparr>"
proof (induction "length calls" arbitrary: i input out calls rule: less_induct)
  case less
  note r = less.prems(1,2)
  show ?case
  proof (cases "i = 0")
    case True
    then show ?thesis by (subst transfer.simps) (simp add: amount_def)
  next
    case False
    then have nz: "(of_int i :: u32) \<noteq> 0" using of_int_u32_zero [OF r] by simp
    obtain c calls1 where calls: "calls = c # calls1" using less.prems(5) by (cases calls) (auto simp: moves_def)
    have st: "steady calls1" using less.prems(4) calls by (simp add: steady_Cons)
    consider "c = Again" | k where "0 < k" "c = Moves k" using less.prems(4) by (auto simp: calls steady_Cons)
    then show ?thesis
    proof cases
      case 1
      then have "transfer (of_int i) input out calls = transfer (of_int i) input out calls1"
        using nz calls by (subst transfer.simps) simp
      then show ?thesis using less 1 st calls by (simp add: moves_Cons)
    next
      case 2
      define x where "x = min k (min (chunk (of_int i)) (length input))"
      show ?thesis
      proof (cases "x = 0")
        case True
        then have "input = []" using 2(1) False r by (auto simp: x_def chunk_of_int min_def split: if_splits)
        then show ?thesis using nz calls 2 by (subst transfer.simps) (simp add: amount_def)
      next
        case False
        have x: "x \<le> length input" "0 < x" "0 \<le> i \<Longrightarrow> x \<le> nat i"
          using False \<open>i \<noteq> 0\<close> r by (auto simp: x_def chunk_of_int min_def split: if_splits)
        have am: "amount i (length input) = x + amount (i - int x) (length (drop x input))"
          using x \<open>i \<noteq> 0\<close> by (auto simp: amount_def)
        have "length (take x input) \<le> moves calls1" using less.prems(5) am x calls 2 by (simp add: moves_Cons)
        from write_buffer_steady [OF st this] obtain calls' where w:
          "write_buffer (take x input) out calls1 = Some (True, out @ take x input, calls')" "steady calls'"
          "moves calls1 \<le> moves calls' + x" using x by auto
        have "transfer (of_int i) input out calls = transfer (of_int i - of_nat x) (drop x input) (out @ take x input) calls'"
          using nz calls 2 w(1) False by (subst transfer.simps) (simp add: Let_def flip: x_def)
        also have "(of_int i - of_nat x :: u32) = of_int (i - int x)" by simp
        also have "transfer (of_int (i - int x)) (drop x input) (out @ take x input) calls' =
            Some \<lparr>exit_1 = False, unread = drop (amount (i - int x) (length (drop x input))) (drop x input),
              written = (out @ take x input) @ take (amount (i - int x) (length (drop x input))) (drop x input)\<rparr>"
        proof (rule less.hyps)
          show "length calls' < length calls" using write_buffer_calls [OF w(1)] calls by simp
          show "- (2 ^ 31) \<le> i - int x" using r x less.prems(3) by (cases "0 \<le> i") auto
          show "2 * amount (i - int x) (length (drop x input)) + 1 \<le> moves calls'"
            using less.prems(5) am w(3) x(2) calls 2 by (simp add: moves_Cons)
          show "int (length (drop x input)) \<le> 2 ^ 31 + (i - int x)" if "i - int x < 0"
            using that x less.prems(3) by (cases "0 \<le> i") (auto simp: of_nat_diff)
        qed (use r w(2) in auto)
        finally show ?thesis by (simp add: am take_add) (simp add: add.commute)
      qed
    qed
  qed
qed


lemma transfer_zero_calls:
  "steady calls \<Longrightarrow> 0 \<le> i \<Longrightarrow> i < 2 ^ 31 \<Longrightarrow> nat i \<le> moves calls \<Longrightarrow>
    transfer_zero (of_int i) out calls = Some (True, out @ replicate (nat i) 0)"
proof (induction calls arbitrary: i out)
  case Nil
  then show ?case by (subst transfer_zero.simps) (simp add: moves_def)
next
  case (Cons c calls)
  note r = order_trans [OF _ Cons.prems(2)] Cons.prems(3)
  show ?case
  proof (cases "i = 0")
    case True
    then show ?thesis by (subst transfer_zero.simps) simp
  next
    case False
    then have nz: "(of_int i :: u32) \<noteq> 0" using of_int_u32_zero [of i] Cons.prems by simp
    have st: "steady calls" using Cons.prems by (simp add: steady_Cons)
    consider "c = Again" | k where "0 < k" "c = Moves k" using Cons.prems by (auto simp: steady_Cons)
    then show ?thesis
    proof cases
      case 1
      then show ?thesis using nz Cons.IH [OF st] Cons.prems by (subst transfer_zero.simps) (simp add: moves_Cons)
    next
      case 2
      define w where "w = min k (chunk (of_int i))"
      have w: "0 < w" "int w \<le> i" using 2 False Cons.prems by (auto simp: w_def chunk_of_int min_def)
      have "transfer_zero (of_int i) out (c # calls) = transfer_zero (of_int i - of_nat w) (out @ replicate w 0) calls"
        using nz 2 by (subst transfer_zero.simps) (simp add: Let_def flip: w_def)
      also have "(of_int i - of_nat w :: u32) = of_int (i - int w)" by simp
      also have "transfer_zero (of_int (i - int w)) (out @ replicate w 0) calls =
          Some (True, (out @ replicate w 0) @ replicate (nat (i - int w)) 0)"
        using Cons.prems 2 w st by (intro Cons.IH) (auto simp: moves_Cons)
      finally show ?thesis using w by (simp add: nat_diff_distrib flip: replicate_add)
    qed
  qed
qed

section \<open>Numbers\<close>

lemma char_byte: "unat (of_char c :: u8) = code c"
proof -
  have "code c < 256" by simp
  then have "unat (of_nat (code c) :: u8) = code c" by (simp only: unat_of_nat) simp
  then show ?thesis by (simp only: of_nat_of_char)
qed

lemma digit_value_of_char: "is_digit c \<Longrightarrow> digit_value (of_char c) = digit_of c"
  by (simp add: digit_value_def digit_of_def is_digit_def word_le_nat_alt char_byte)

lemma fold_digits:
  "list_all is_digit cs \<Longrightarrow> foldl (\<lambda>n c. n * 10 + digit_value c) v (map of_char cs) = read_digits v cs"
  by (induction v cs rule: read_digits.induct) (simp_all add: digit_value_of_char mult.commute)

lemma number_show_nat: "number 10 (map of_char (show_nat n)) = Some n"
  using show_nat_digits [of n]
  by (auto simp: number_def fold_digits read_show_nat digit_value_of_char list_all_iff)

lemma is_digit_byte: "is_digit c \<Longrightarrow> 48 \<le> (of_char c :: u8) \<and> (of_char c :: u8) \<le> 57"
  by (simp add: is_digit_def word_le_nat_alt char_byte)

lemma based_number_show_nat: "based_number (map of_char (show_nat n)) = Some n"
proof (cases "n = 0")
  case True
  have "show_nat 0 = ''0''" by code_simp
  then show ?thesis using True by (simp add: based_number_def number_def digit_value_def)
next
  case False
  obtain c cs where s: "show_nat n = c # cs" using show_nat_digits(2) by (cases "show_nat n") auto
  have "digit_of c \<noteq> 0" using hd_show_nat [of n] False s by simp
  then have "(of_char c :: u8) \<noteq> 48" using char_byte [of c] by (auto simp: digit_of_def)
  then show ?thesis using number_show_nat [of n] s by (simp add: based_number_def)
qed

lemma strtol0_show_int:
  assumes "- 2147483648 \<le> i" "i \<le> 2147483647"
  shows "strtol0 (map of_char (show_int i)) = Some i"
proof -
  obtain c cs where s: "show_nat (nat \<bar>i\<bar>) = c # cs" using show_nat_digits(2) by (cases "show_nat (nat \<bar>i\<bar>)") auto
  have c: "48 \<le> code c" "code c \<le> 57"
    using show_nat_digits(1) [of "nat \<bar>i\<bar>"] s by (simp_all add: is_digit_def)
  have b: "based_number (of_char c # map of_char cs) = Some (nat \<bar>i\<bar>)" using based_number_show_nat [of "nat \<bar>i\<bar>"] s by simp
  have "\<not> (of_char c = (32 :: u8) \<or> 9 \<le> (of_char c :: u8) \<and> (of_char c :: u8) \<le> 13)"
    "(of_char c :: u8) \<noteq> 45" "(of_char c :: u8) \<noteq> 43" using c by (auto simp: word_le_nat_alt word_unat_eq_iff char_byte)
  then show ?thesis using assms b s unfolding strtol0_def show_int_def by (auto simp: Let_def)
qed

lemma parse_ssize_show_int: "- (2 ^ 31) \<le> i \<Longrightarrow> i < 2 ^ 31 \<Longrightarrow> parse_ssize (show_int i) = Some i"
  using strtol0_show_int [of i] by (simp add: parse_ssize_def)

section \<open>Command lines\<close>

text \<open>The options as they are meant, with the numbers of seconds as they are written.\<close>

datatype opt = Reading "int option" | Writing "int option" | From int | Locking "string option" | Trying "string option"
  | Waiting string | Zeroes

fun spell :: "opt \<Rightarrow> string list" where
  "spell (Reading i) = ''-r'' # (case i of None \<Rightarrow> [] | Some i \<Rightarrow> [show_int i])"
| "spell (Writing i) = ''-w'' # (case i of None \<Rightarrow> [] | Some i \<Rightarrow> [show_int i])"
| "spell (From i) = [''-o'', show_int i]"
| "spell (Locking s) = ''-l'' # (case s of None \<Rightarrow> [] | Some s \<Rightarrow> [s])"
| "spell (Trying s) = ''-L'' # (case s of None \<Rightarrow> [] | Some s \<Rightarrow> [s])"
| "spell (Waiting s) = [''-d'', s]"
| "spell Zeroes = [''-z'']"

definition sized :: "int option \<Rightarrow> options \<Rightarrow> options" where
  "sized i o1 = (case i of None \<Rightarrow> o1 | Some i \<Rightarrow> o1\<lparr>nbytes := of_int i\<rparr>)"

definition delayed :: "(string \<Rightarrow> rat option) \<Rightarrow> string option \<Rightarrow> options \<Rightarrow> options" where
  "delayed strtod s o1 = (case s of None \<Rightarrow> o1 | Some s \<Rightarrow> o1\<lparr>lock_delay := the (strtod s)\<rparr>)"

fun meaning :: "(string \<Rightarrow> rat option) \<Rightarrow> opt \<Rightarrow> options \<Rightarrow> options" where
  "meaning strtod (Reading i) o1 = sized i (o1\<lparr>mode_write := False\<rparr>)"
| "meaning strtod (Writing i) o1 = sized i (o1\<lparr>mode_write := True\<rparr>)"
| "meaning strtod (From i) o1 = o1\<lparr>offset := i\<rparr>"
| "meaning strtod (Locking s) o1 = delayed strtod s (o1\<lparr>dolock := True, dotrylock := False\<rparr>)"
| "meaning strtod (Trying s) o1 = delayed strtod s (o1\<lparr>dolock := False, dotrylock := True\<rparr>)"
| "meaning strtod (Waiting s) o1 = o1\<lparr>delay := the (strtod s)\<rparr>"
| "meaning strtod Zeroes o1 = o1\<lparr>zero := True\<rparr>"

text \<open>Numbers are in the range of 32 bits, and the seconds are numbers.\<close>

fun good_opt :: "(string \<Rightarrow> rat option) \<Rightarrow> opt \<Rightarrow> bool" where
  "good_opt strtod (Reading i) \<longleftrightarrow> pred_option (\<lambda>i. - (2 ^ 31) \<le> i \<and> i < 2 ^ 31) i"
| "good_opt strtod (Writing i) \<longleftrightarrow> pred_option (\<lambda>i. - (2 ^ 31) \<le> i \<and> i < 2 ^ 31) i"
| "good_opt strtod (From i) \<longleftrightarrow> - (2 ^ 31) \<le> i \<and> i < 2 ^ 31"
| "good_opt strtod (Locking s) \<longleftrightarrow> pred_option (\<lambda>s. strtod s \<noteq> None) s"
| "good_opt strtod (Trying s) \<longleftrightarrow> pred_option (\<lambda>s. strtod s \<noteq> None) s"
| "good_opt strtod (Waiting s) \<longleftrightarrow> strtod s \<noteq> None"
| "good_opt strtod Zeroes \<longleftrightarrow> True"

text \<open>
  What \<open>strtod\<close> is relied on for: a name of an option and a path from the root are no numbers.
\<close>

definition no_numbers :: "(string \<Rightarrow> rat option) \<Rightarrow> bool" where
  "no_numbers strtod \<longleftrightarrow>
     (\<forall>a. a \<in> set [''-r'', ''-w'', ''-o'', ''-l'', ''-L'', ''-d'', ''-z''] \<or> (a \<noteq> [] \<and> hd a = CHR ''/'') \<longrightarrow> strtod a = None)"

text \<open>An argument that follows an option is an option or the path of a device, of which the second character is no minus sign.\<close>

definition path :: "string \<Rightarrow> bool" where
  "path a \<longleftrightarrow> a \<noteq> [] \<and> hd a = CHR ''/'' \<and> (length a > 1 \<longrightarrow> a ! 1 \<noteq> CHR ''-'')"

definition word_like :: "string \<Rightarrow> bool" where
  "word_like a \<longleftrightarrow> a \<in> set [''-r'', ''-w'', ''-o'', ''-l'', ''-L'', ''-d'', ''-z''] \<or> path a"

lemma no_based_number: "10 \<le> digit_value c \<Longrightarrow> c \<noteq> 48 \<Longrightarrow> based_number (c # t) = None"
  by (simp add: based_number_def number_def)

lemma path_size: "path a \<Longrightarrow> parse_ssize a = None"
  unfolding path_def parse_ssize_def strtol0_def
  by (cases a) (simp_all add: Let_def no_based_number digit_value_def)

lemma option_size: "a \<in> set [''-r'', ''-w'', ''-o'', ''-l'', ''-L'', ''-d'', ''-z''] \<Longrightarrow> parse_ssize a = None"
proof -
  have "parse_ssize ''-r'' = None" "parse_ssize ''-w'' = None" "parse_ssize ''-o'' = None" "parse_ssize ''-l'' = None"
    "parse_ssize ''-L'' = None" "parse_ssize ''-d'' = None" "parse_ssize ''-z'' = None" by code_simp+
  then show "a \<in> set [''-r'', ''-w'', ''-o'', ''-l'', ''-L'', ''-d'', ''-z''] \<Longrightarrow> parse_ssize a = None"
    unfolding list.set by blast
qed

lemma word_like_size: "word_like a \<Longrightarrow> parse_ssize a = None"
  unfolding word_like_def using path_size option_size by blast

lemma word_like_seconds: "no_numbers strtod \<Longrightarrow> word_like a \<Longrightarrow> strtod a = None"
  unfolding no_numbers_def word_like_def path_def by blast

lemma parse_flags_Nil [simp]: "parse_flags strtod [] o1 = Options o1 []"
  by (simp add: parse_flags.simps)

lemma parse_flags_size:
  "parse_ssize s = Some v \<Longrightarrow> parse_flags strtod (''-r'' # s # rest) o1 = parse_flags strtod rest (o1\<lparr>mode_write := False, nbytes := of_int v\<rparr>)"
  "parse_ssize s = Some v \<Longrightarrow> parse_flags strtod (''-w'' # s # rest) o1 = parse_flags strtod rest (o1\<lparr>mode_write := True, nbytes := of_int v\<rparr>)"
  "parse_ssize s = Some v \<Longrightarrow> parse_flags strtod (''-o'' # s # rest) o1 = parse_flags strtod rest (o1\<lparr>offset := v\<rparr>)"
  by (subst parse_flags.simps, simp)+

lemma parse_flags_seconds:
  "strtod s = Some v \<Longrightarrow> parse_flags strtod (''-l'' # s # rest) o1 = parse_flags strtod rest (o1\<lparr>dolock := True, dotrylock := False, lock_delay := v\<rparr>)"
  "strtod s = Some v \<Longrightarrow> parse_flags strtod (''-L'' # s # rest) o1 = parse_flags strtod rest (o1\<lparr>dolock := False, dotrylock := True, lock_delay := v\<rparr>)"
  "strtod s = Some v \<Longrightarrow> parse_flags strtod (''-d'' # s # rest) o1 = parse_flags strtod rest (o1\<lparr>delay := v\<rparr>)"
  by (subst parse_flags.simps, simp)+

lemma parse_flags_plain:
  "rest = [] \<or> parse_ssize (hd rest) = None \<Longrightarrow> parse_flags strtod (''-r'' # rest) o1 = parse_flags strtod rest (o1\<lparr>mode_write := False\<rparr>)"
  "rest = [] \<or> parse_ssize (hd rest) = None \<Longrightarrow> parse_flags strtod (''-w'' # rest) o1 = parse_flags strtod rest (o1\<lparr>mode_write := True\<rparr>)"
  "rest = [] \<or> strtod (hd rest) = None \<Longrightarrow> parse_flags strtod (''-l'' # rest) o1 = parse_flags strtod rest (o1\<lparr>dolock := True, dotrylock := False\<rparr>)"
  "rest = [] \<or> strtod (hd rest) = None \<Longrightarrow> parse_flags strtod (''-L'' # rest) o1 = parse_flags strtod rest (o1\<lparr>dolock := False, dotrylock := True\<rparr>)"
  "parse_flags strtod (''-z'' # rest) o1 = parse_flags strtod rest (o1\<lparr>zero := True\<rparr>)"
  by (cases rest; subst parse_flags.simps, simp)+

lemma parse_flags_spell:
  assumes "no_numbers strtod" "good_opt strtod p" "rest = [] \<or> word_like (hd rest)"
  shows "parse_flags strtod (spell p @ rest) o1 = parse_flags strtod rest (meaning strtod p o1)"
proof -
  have n: "rest = [] \<or> parse_ssize (hd rest) = None" "rest = [] \<or> strtod (hd rest) = None"
    using assms(1,3) word_like_size word_like_seconds by metis+
  show ?thesis
  proof (cases p)
    case (Reading i)
    then show ?thesis using assms(2) by (cases i) (simp_all add: sized_def parse_flags_plain(1) [OF n(1)] parse_flags_size parse_ssize_show_int)
  next
    case (Writing i)
    then show ?thesis using assms(2) by (cases i) (simp_all add: sized_def parse_flags_plain(2) [OF n(1)] parse_flags_size parse_ssize_show_int)
  next
    case (From i)
    then show ?thesis using assms(2) by (simp add: parse_flags_size parse_ssize_show_int)
  next
    case (Locking s)
    then show ?thesis using assms(2) by (cases s) (auto simp: delayed_def parse_flags_plain(3) [where strtod = strtod, OF n(2)] parse_flags_seconds)
  next
    case (Trying s)
    then show ?thesis using assms(2) by (cases s) (auto simp: delayed_def parse_flags_plain(4) [where strtod = strtod, OF n(2)] parse_flags_seconds)
  next
    case (Waiting s)
    then show ?thesis using assms(2) by (auto simp: parse_flags_seconds)
  qed (simp add: parse_flags_plain)
qed

lemma word_like_spell: "word_like (hd (spell p))" "spell p \<noteq> []"
  by (cases p; simp add: word_like_def)+

lemma parse_flags_spells:
  assumes "no_numbers strtod" "\<forall>p \<in> set ps. good_opt strtod p" "rest = [] \<or> word_like (hd rest)"
  shows "parse_flags strtod (concat (map spell ps) @ rest) o1 = parse_flags strtod rest (fold (meaning strtod) ps o1)"
  using assms(2)
proof (induction ps arbitrary: o1)
  case (Cons p ps)
  have "concat (map spell ps) @ rest = [] \<or> word_like (hd (concat (map spell ps) @ rest))"
    using assms(3) word_like_spell by (cases ps) auto
  then show ?case using Cons assms(1) by (simp add: parse_flags_spell)
qed simp

lemma parse_flags_path: "path a \<Longrightarrow> parse_flags strtod (a # rest) o1 = Options o1 (a # rest)"
  by (cases a) (simp_all add: path_def, subst parse_flags.simps, simp)

section \<open>The devices\<close>

text \<open>What is done for each device, with the options before it; the options stay in force for the devices after it.\<close>

fun visit :: "(string \<Rightarrow> rat option) \<Rightarrow> (opt list \<times> string) list \<Rightarrow> options \<Rightarrow> options \<times> event list" where
  "visit strtod [] o1 = (o1, [])"
| "visit strtod ((ps, a) # ds) o1 =
     (let o2 = (fold (meaning strtod) ps o1)\<lparr>devname := a\<rparr>; (o3, events) = visit strtod ds o2
      in (o3, Open a (mode_write o2) # lock_events o2 @ delay_events o2 @ events))"

definition command_line :: "(opt list \<times> string) list \<Rightarrow> string list" where
  "command_line ds = concat (map (\<lambda>(ps, a). concat (map spell ps) @ [a]) ds)"

lemma prepare_device:
  assumes "no_numbers strtod" "\<forall>p \<in> set ps. good_opt strtod p" "path a" "2 \<le> length oks" "\<forall>b \<in> set oks. b"
    and o2: "o2 = (fold (meaning strtod) ps o1)\<lparr>devname := a\<rparr>" and rest: "rest \<noteq> []"
  obtains oks' where "prepare strtod (concat (map spell ps) @ a # rest) o1 oks events
      = prepare strtod rest o2 oks' (events @ Open a (mode_write o2) # lock_events o2 @ delay_events o2)"
    "length oks \<le> length oks' + 2" "\<forall>b \<in> set oks'. b"
proof -
  obtain oks1 where oks: "oks = True # True # oks1" "\<forall>b \<in> set oks1. b"
    using assms(4,5) by (cases oks; cases "tl oks") auto
  have p: "parse_flags strtod (concat (map spell ps) @ a # rest) o1 = Options (fold (meaning strtod) ps o1) (a # rest)"
    using assms(1-3) by (simp add: parse_flags_spells parse_flags_path word_like_def)
  have d: "detect_device (a # rest) (fold (meaning strtod) ps o1) = Some (rest, o2)"
    using assms(3) by (auto simp: detect_device_def path_def o2)
  have o: "devname o2 = a" by (simp add: o2)
  note unfold = prepare.simps [of strtod "concat (map spell ps) @ a # rest" o1, unfolded p parsed.case d option.case prod.case]
  show ?thesis
  proof (cases "dolock o2 \<or> dotrylock o2")
    case True
    show ?thesis by (rule that [of oks1]) (unfold unfold, use oks rest o True in \<open>simp_all add: Let_def\<close>)
  next
    case False
    show ?thesis by (rule that [of "True # oks1"]) (unfold unfold, use oks rest o False in \<open>simp_all add: Let_def\<close>)
  qed
qed


lemma prepare_last:
  assumes "no_numbers strtod" "\<forall>p \<in> set ps. good_opt strtod p" "path a" "3 \<le> length oks" "\<forall>b \<in> set oks. b"
    and o2: "o2 = (fold (meaning strtod) ps o1)\<lparr>devname := a\<rparr>"
  shows "prepare strtod (concat (map spell ps) @ [a]) o1 oks events
    = Some (Ready o2 (events @ Open a (mode_write o2) # lock_events o2 @ delay_events o2 @ [Seek (offset o2)]))"
proof -
  obtain oks1 where oks: "oks = True # True # True # oks1" "\<forall>b \<in> set oks1. b"
    using assms(4,5) by (cases oks; cases "tl oks"; cases "tl (tl oks)") auto
  have p: "parse_flags strtod (concat (map spell ps) @ [a]) o1 = Options (fold (meaning strtod) ps o1) [a]"
    using assms(1-3) by (simp add: parse_flags_spells parse_flags_path word_like_def)
  have d: "detect_device [a] (fold (meaning strtod) ps o1) = Some ([], o2)"
    using assms(3) by (auto simp: detect_device_def path_def o2)
  have o: "devname o2 = a" by (simp add: o2)
  note unfold = prepare.simps [of strtod "concat (map spell ps) @ [a]" o1, unfolded p parsed.case d option.case prod.case]
  show ?thesis using oks o by (cases "dolock o2 \<or> dotrylock o2") (simp_all add: unfold Let_def)
qed

lemma prepare_visit:
  "ds \<noteq> [] \<Longrightarrow> no_numbers strtod \<Longrightarrow> \<forall>(ps, a) \<in> set ds. path a \<and> (\<forall>p \<in> set ps. good_opt strtod p)
    \<Longrightarrow> \<forall>b \<in> set oks. b \<Longrightarrow> 2 * length ds + 1 \<le> length oks \<Longrightarrow> visit strtod ds o1 = (o2, events)
    \<Longrightarrow> prepare strtod (command_line ds) o1 oks before = Some (Ready o2 (before @ events @ [Seek (offset o2)]))"
proof (induction ds arbitrary: o1 oks before events)
  case (Cons d ds)
  obtain ps a where d: "d = (ps, a)" by fastforce
  define o3 where o3: "o3 = (fold (meaning strtod) ps o1)\<lparr>devname := a\<rparr>"
  have g: "path a" "\<forall>p \<in> set ps. good_opt strtod p" using Cons.prems(3) by (auto simp: d)
  show ?case
  proof (cases "ds = []")
    case True
    have "prepare strtod (concat (map spell ps) @ [a]) o1 oks before
      = Some (Ready o3 (before @ Open a (mode_write o3) # lock_events o3 @ delay_events o3 @ [Seek (offset o3)]))"
      using Cons.prems(2,4,5) g True by (intro prepare_last) (simp_all add: o3)
    then show ?thesis using Cons.prems(6) True by (auto simp: d command_line_def Let_def o3)
  next
    case False
    obtain events1 where v: "visit strtod ds o3 = (o2, events1)"
      and e: "events = Open a (mode_write o3) # lock_events o3 @ delay_events o3 @ events1"
      using Cons.prems(6) by (auto simp: d o3 Let_def split: prod.splits)
    have c: "command_line (d # ds) = concat (map spell ps) @ a # command_line ds" "command_line ds \<noteq> []"
      using False by (cases ds; auto simp: command_line_def d)+
    obtain oks' where p: "prepare strtod (concat (map spell ps) @ a # command_line ds) o1 oks before
        = prepare strtod (command_line ds) o3 oks' (before @ Open a (mode_write o3) # lock_events o3 @ delay_events o3)"
      "length oks \<le> length oks' + 2" "\<forall>b \<in> set oks'. b"
      using prepare_device [OF Cons.prems(2) g(2,1) _ Cons.prems(4) o3 c(2)] Cons.prems(5)
      by (metis add_leD1 length_Cons mult_Suc_right add.assoc)
    have "2 * length ds + 1 \<le> length oks'" using p(2) Cons.prems(5) by simp
    from Cons.IH [OF False Cons.prems(2) _ p(3) this v] Cons.prems(3) show ?thesis by (simp add: c p(1) e)
  qed
qed simp

lemma finish_moves:
  assumes "nbytes o1 = of_int i" "- (2 ^ 31) \<le> i" "i < 2 ^ 31"
    and src: "src = (if mode_write o1 then input else drop (nat (offset o1)) device)"
    and "i < 0 \<Longrightarrow> \<not> zero o1 \<and> int (length src) \<le> 2 ^ 31 + i" "steady calls"
    and "2 * nat \<bar>i\<bar> + 1 \<le> moves calls" "2 * amount i (length src) + 1 \<le> moves calls"
  shows "finish o1 input device calls
    = Some (0, if mode_write o1 \<and> zero o1 then replicate (nat i) 0 else take (amount i (length src)) src)"
proof (cases "mode_write o1 \<and> zero o1")
  case True
  then have "0 \<le> i" using assms(5) by linarith
  then have "transfer_zero (of_int i) [] calls = Some (True, [] @ replicate (nat i) 0)"
    using assms by (intro transfer_zero_calls) simp_all
  then show ?thesis using True assms(1) by (simp add: finish_def)
next
  case False
  have "transfer (of_int i) src [] calls = Some \<lparr>exit_1 = False, unread = drop (amount i (length src)) src,
      written = [] @ take (amount i (length src)) src\<rparr>"
    using assms by (intro transfer_steady) simp_all
  then show ?thesis using False assms(1) by (auto simp: finish_def src)
qed


section \<open>The program\<close>

text \<open>C39: Run on devices given by paths, each after its options, with system calls that succeed, the tool opens the
  devices in this order, each with the options given so far, takes the locks that are asked for after their delays,
  waits, and seeks in the last device; then the standard input or zeros are written to it, or its contents to the
  standard output, up to the size that was given or to the end, in as many calls as it takes, with status 0.\<close>

theorem osprdaccess_runs:
  assumes "ds \<noteq> []" "no_numbers strtod" "\<forall>(ps, a) \<in> set ds. path a \<and> (\<forall>p \<in> set ps. good_opt strtod p)"
    and "\<forall>b \<in> set oks. b" "2 * length ds + 1 \<le> length oks"
    and "visit strtod ds initial_options = (opts, events)"
    and "nbytes opts = of_int i" "- (2 ^ 31) \<le> i" "i < 2 ^ 31"
    and "src = (if mode_write opts then input else drop (nat (offset opts)) device)"
    and "i < 0 \<Longrightarrow> \<not> zero opts \<and> int (length src) \<le> 2 ^ 31 + i" "steady calls"
    and "2 * nat \<bar>i\<bar> + 1 \<le> moves calls" "2 * amount i (length src) + 1 \<le> moves calls"
  shows "prepare strtod (command_line ds) initial_options oks [] = Some (Ready opts (events @ [Seek (offset opts)]))
    \<and> finish opts input device calls
      = Some (0, if mode_write opts \<and> zero opts then replicate (nat i) 0 else take (amount i (length src)) src)"
  using prepare_visit [OF assms(1-6)] finish_moves [OF assms(7-14)] by simp

theorem osprdaccess_runs_witness:
  "prepare (\<lambda>s. if s = ''2'' then Some 2 else None) [''-w'', ''3'', ''/a'', ''-o'', ''4'', ''-l'', ''2'', ''/b''] initial_options
      (replicate 5 True) [] =
    Some (Ready (initial_options\<lparr>mode_write := True, dolock := True, nbytes := 3, offset := 4, lock_delay := 2, devname := ''/b''\<rparr>)
      [Open ''/a'' True, Sleep 0, Open ''/b'' True, Sleep 2, Acquire, Sleep 0, Seek 4])
    \<and> finish (initial_options\<lparr>mode_write := True, dolock := True, nbytes := 3, offset := 4, lock_delay := 2, devname := ''/b''\<rparr>)
        [1, 2, 3, 4] [] (Again # replicate 7 (Moves 1)) = Some (0, [1, 2, 3])"
proof -
  have "show_int 3 = ''3''" "show_int 4 = ''4''" by code_simp+
  then have "command_line [([Writing (Some 3)], ''/a''), ([From 4, Locking (Some ''2'')], ''/b'')]
      = [''-w'', ''3'', ''/a'', ''-o'', ''4'', ''-l'', ''2'', ''/b'']" by (simp add: command_line_def)
  then show ?thesis
    using osprdaccess_runs [where ds = "[([Writing (Some 3)], ''/a''), ([From 4, Locking (Some ''2'')], ''/b'')]"
        and strtod = "\<lambda>s. if s = ''2'' then Some 2 else None" and oks = "replicate 5 True" and i = 3
        and opts = "initial_options\<lparr>mode_write := True, dolock := True, nbytes := 3, offset := 4, lock_delay := 2, devname := ''/b''\<rparr>"
        and events = "[Open ''/a'' True, Sleep 0, Open ''/b'' True, Sleep 2, Acquire, Sleep 0]"
        and input = "[1, 2, 3, 4]" and device = "[]" and src = "[1, 2, 3, 4]" and calls = "Again # replicate 7 (Moves 1)"]
    by (simp add: no_numbers_def path_def initial_options_def sized_def delayed_def lock_events_def delay_events_def
        steady_def moves_def amount_def Let_def)
qed

text \<open>After \<open>-o\<close> as the last argument there is no argument to read: the test before it should be for three arguments.\<close>

lemma offset_missing: "parse_flags strtod [''-o''] o1 = Crash"
  by (subst parse_flags.simps) simp

text \<open>The test for a device looks at the second character instead of the first: an unknown option is taken for a device.\<close>

lemma unknown_option_is_device: "detect_device [''-q''] o1 = Some ([], o1\<lparr>devname := ''-q''\<rparr>)"
  by (simp add: detect_device_def)

text \<open>And an argument with two minus signs is never consumed: the same device is opened as long as the system lets it.\<close>

lemma minus_signs_reopen: "\<forall>b \<in> set oks. b \<Longrightarrow> prepare strtod [''--x''] initial_options oks events = None"
proof (induction oks arbitrary: events)
  case Nil
  then show ?case
    by (simp add: prepare.simps [of strtod "[''--x'']"] parse_flags.simps [of strtod "[''--x'']"] detect_device_def)
next
  case (Cons ok oks)
  have "ok" "\<forall>b \<in> set oks. b" using Cons.prems by auto
  moreover from Cons.IH [OF this(2)] have "prepare strtod [''--x''] initial_options oks events = None" for events .
  ultimately show ?case
    by (simp add: prepare.simps [of strtod "[''--x'']" _ "True # oks"] parse_flags.simps [of strtod "[''--x'']"] detect_device_def
        initial_options_def Let_def)
qed

end
