(* ===== verification/ShellCmd.thy ===== *)
theory ShellCmd
  imports Prelude
begin

text \<open>
  The commands of the shell (\<open>project1/command-internals.h\<close>), the stack (\<open>stack.c\<close>), the printer
  (\<open>print-command.c\<close>) and the growth of buffers (\<open>alloc.c\<close>). A call of \<open>error(1, ...)\<close>, which
  exits, is the result \<open>None\<close>.
\<close>

section \<open>Commands\<close>

datatype command_type = AND_COMMAND | SEQUENCE_COMMAND | OR_COMMAND | PIPE_COMMAND

text \<open>\<open>struct command\<close>: a tagged union, with the fields all kinds share in every constructor.\<close>

datatype command =
    Compound (cmd_line: int) (cmd_status: int) (cmd_input: "string option") (cmd_output: "string option")
      command_type command command
  | Simple (cmd_line: int) (cmd_status: int) (cmd_input: "string option") (cmd_output: "string option") "string list"
  | Subshell (cmd_line: int) (cmd_status: int) (cmd_input: "string option") (cmd_output: "string option") command

primrec set_line :: "int \<Rightarrow> command \<Rightarrow> command" where
  "set_line l (Compound _ s i out t a b) = Compound l s i out t a b"
| "set_line l (Simple _ s i out w) = Simple l s i out w"
| "set_line l (Subshell _ s i out c) = Subshell l s i out c"

primrec set_status :: "int \<Rightarrow> command \<Rightarrow> command" where
  "set_status st (Compound l _ i out t a b) = Compound l st i out t a b"
| "set_status st (Simple l _ i out w) = Simple l st i out w"
| "set_status st (Subshell l _ i out c) = Subshell l st i out c"

primrec set_input :: "string \<Rightarrow> command \<Rightarrow> command" where
  "set_input f (Compound l s _ out t a b) = Compound l s (Some f) out t a b"
| "set_input f (Simple l s _ out w) = Simple l s (Some f) out w"
| "set_input f (Subshell l s _ out c) = Subshell l s (Some f) out c"

primrec set_output :: "string \<Rightarrow> command \<Rightarrow> command" where
  "set_output f (Compound l s i _ t a b) = Compound l s i (Some f) t a b"
| "set_output f (Simple l s i _ w) = Simple l s i (Some f) w"
| "set_output f (Subshell l s i _ c) = Subshell l s i (Some f) c"

section \<open>The stack\<close>

text \<open>The elements after the header node, the top first. \<open>pop\<close> and \<open>peer\<close> of an empty stack exit.\<close>

definition create_stack :: "'a list" where
  "create_stack = []"

definition is_empty :: "'a list \<Rightarrow> bool" where
  "is_empty s \<longleftrightarrow> s = []"

definition push :: "'a \<Rightarrow> 'a list \<Rightarrow> 'a list" where
  "push element s = element # s"

fun pop :: "'a list \<Rightarrow> ('a \<times> 'a list) option" where
  "pop [] = None"
| "pop (first_cell # rest) = Some (first_cell, rest)"

fun peer :: "'a list \<Rightarrow> 'a option" where
  "peer [] = None"
| "peer (first_cell # rest) = Some first_cell"

fun make_empty :: "'a list \<Rightarrow> 'a list" where
  "make_empty [] = []"
| "make_empty (first_cell # rest) = make_empty rest"

text \<open>
  What the parser relies on: the last element pushed comes off first and the rest is untouched;
  an empty stack yields nothing.
\<close>

locale stack_contract =
  fixes emp :: "'s" and put :: "'a \<Rightarrow> 's \<Rightarrow> 's" and take_top :: "'s \<Rightarrow> ('a \<times> 's) option"
    and look :: "'s \<Rightarrow> 'a option"
  assumes take_put: "take_top (put x s) = Some (x, s)"
    and take_emp: "take_top emp = None"
    and look_take: "look s = map_option fst (take_top s)"
begin

lemma take_two: "Option.bind (take_top (put x (put y s))) (\<lambda>(a, s1). Option.bind (take_top s1) (\<lambda>(b, s2). Some (a, b, s2)))
    = Some (x, y, s)"
  by (simp add: take_put)

lemma look_put: "look (put x s) = Some x"
  by (simp add: look_take take_put)

lemma pushes_come_back: "take_top (fold put xs s) = (if xs = [] then take_top s else Some (last xs, fold put (butlast xs) s))"
  by (induction xs rule: rev_induct) (auto simp: take_put)

end

interpretation command_stack: stack_contract create_stack push pop peer
proof
  show "peer s = map_option fst (pop s)" for s :: "'a list" by (cases s) simp_all
qed (simp_all add: create_stack_def push_def)

section \<open>Printing\<close>

definition spaces :: "nat \<Rightarrow> string" where
  "spaces n = replicate n (CHR 0x20)"

primrec command_label :: "command_type \<Rightarrow> string" where
  "command_label AND_COMMAND = ''&&''"
| "command_label SEQUENCE_COMMAND = '';''"
| "command_label OR_COMMAND = ''||''"
| "command_label PIPE_COMMAND = ''|''"

primrec has_type :: "command_type \<Rightarrow> command \<Rightarrow> bool" where
  "has_type t (Compound _ _ _ _ t' _ _) = (t' = t)"
| "has_type t (Simple _ _ _ _ _) = False"
| "has_type t (Subshell _ _ _ _ _) = False"

definition redirections :: "string option \<Rightarrow> string option \<Rightarrow> string" where
  "redirections i out = (case i of None \<Rightarrow> [] | Some f \<Rightarrow> CHR 0x3C # f) @ (case out of None \<Rightarrow> [] | Some f \<Rightarrow> CHR 0x3E # f)"

text \<open>A simple command has at least one word; the first is printed without a space before it.\<close>

primrec command_indented_print :: "nat \<Rightarrow> command \<Rightarrow> string" where
  "command_indented_print indent (Compound l s i out t a b) =
     command_indented_print (indent + 2 * (if has_type t a then 0 else 1)) a
     @ '' '' @ [CHR 0x5C, CHR 0x0A] @ spaces indent @ command_label t @ [CHR 0x0A]
     @ command_indented_print (indent + 2 * (if has_type t b then 0 else 1)) b
     @ redirections i out"
| "command_indented_print indent (Simple l s i out w) =
     spaces indent @ (case w of [] \<Rightarrow> [] | x # xs \<Rightarrow> x @ concat (map (\<lambda>y. CHR 0x20 # y) xs)) @ redirections i out"
| "command_indented_print indent (Subshell l s i out c) =
     spaces indent @ ''('' @ [CHR 0x0A] @ command_indented_print (indent + 1) c @ [CHR 0x0A] @ spaces indent @ '')''
     @ redirections i out"

definition print_command :: "command \<Rightarrow> string" where
  "print_command c = command_indented_print 2 c @ [CHR 0x0A]"

section \<open>Allocation\<close>

text \<open>The size that \<open>checked_grow_alloc\<close> asks for (\<open>size_t\<close> has 32 bits); \<open>None\<close> is \<open>memory_exhausted\<close>.\<close>

definition checked_grow_size :: "u32 \<Rightarrow> u32 option" where
  "checked_grow_size sz =
     (let mx = - 1 in if sz = mx then None else Some (if sz < mx div 2 then 2 * sz else mx))"

end
