(* ===== verification/ShellParse.thy ===== *)
theory ShellParse
  imports ShellCmd CharType
begin

text \<open>
  The command reader of the shell (\<open>project1/read-command.c\<close>) from the text of one command on: the
  tokenizer, the comparison of operators, the operator-precedence parser on two stacks, and the
  command stream. Strings are lists of characters of any length; the fixed buffers of the C code
  (128 characters for a word being read, 64 for a token) are assumed not to overflow.
\<close>

section \<open>The tokenizer\<close>

type_synonym token = "string \<times> int"

text \<open>The local variables of \<open>tokenize\<close>; \<open>token_array\<close> holds the tokens up to \<open>token_index\<close>.\<close>

record tokenizer =
  buffer :: string
  line_offset :: int
  in_simple_comman :: bool
  in_subshell :: bool
  line_offset_in_subshell :: int
  after_operator :: bool
  in_comment :: bool
  in_first_line :: bool
  token_array :: "token list"

definition make_token :: "string \<Rightarrow> int \<Rightarrow> tokenizer \<Rightarrow> tokenizer" where
  "make_token w line_num t = t\<lparr>token_array := token_array t @ [(w, line_num + line_offset t)], in_simple_comman := False\<rparr>"

text \<open>The word read so far becomes a token, if there is one.\<close>

definition flush :: "int \<Rightarrow> tokenizer \<Rightarrow> tokenizer" where
  "flush line_num t = (if buffer t \<noteq> [] then (make_token (buffer t) line_num t)\<lparr>buffer := []\<rparr> else t)"

definition append_char :: "char \<Rightarrow> tokenizer \<Rightarrow> tokenizer" where
  "append_char c t = t\<lparr>buffer := buffer t @ [c]\<rparr>"

abbreviation (input) "SPACE \<equiv> CHR 0x20"
abbreviation (input) "TAB \<equiv> CHR 0x09"
abbreviation (input) "NEWLINE \<equiv> CHR 0x0A"

definition token_newline :: "int \<Rightarrow> char \<Rightarrow> tokenizer \<Rightarrow> tokenizer" where
  "token_newline line_num c2 t0 =
     (if in_comment t0 then t0\<lparr>in_comment := False\<rparr>
      else
        (let t = flush line_num t0
         in if \<not> after_operator t \<and> \<not> in_first_line t
            then (let t1 = make_token '';'' line_num t
                  in t1\<lparr>in_first_line := False, line_offset := line_offset t1 + 1\<rparr>)
            else if c2 = NEWLINE then t
            else t\<lparr>after_operator := False, line_offset := line_offset t + 1\<rparr>))"

definition token_close :: "int \<Rightarrow> tokenizer \<Rightarrow> tokenizer" where
  "token_close line_num t =
     (let t1 = (if buffer t \<noteq> []
                then (flush line_num t)\<lparr>line_offset := line_offset t + line_offset_in_subshell t,
                       line_offset_in_subshell := 0\<rparr>
                else t)
      in (make_token '')'' line_num t1)\<lparr>in_subshell := False\<rparr>)"

text \<open>The state after one character, and whether the next character is skipped.\<close>

definition token_char :: "int \<Rightarrow> char \<Rightarrow> char \<Rightarrow> tokenizer \<Rightarrow> tokenizer \<times> bool" where
  "token_char line_num c1 c2 t =
     (if in_comment t \<and> c1 \<noteq> NEWLINE then (t, False)
      else if in_subshell t \<and> c1 \<noteq> CHR 0x29 then
        (append_char c1 (if c1 = NEWLINE then t\<lparr>line_offset_in_subshell := line_offset_in_subshell t + 1\<rparr> else t), False)
      else if c1 = CHR 0x23 then (t\<lparr>in_comment := True\<rparr>, False)
      else if c1 = SPACE \<or> c1 = TAB then (if \<not> in_simple_comman t then t else append_char c1 t, False)
      else if c1 = CHR 0x3B then (make_token '';'' line_num (flush line_num t), False)
      else if c1 = NEWLINE then (token_newline line_num c2 t, False)
      else if c1 = CHR 0x7C then
        ((make_token (if c2 = CHR 0x7C then ''||'' else ''|'') line_num (flush line_num t))
           \<lparr>in_first_line := False, after_operator := True\<rparr>, c2 = CHR 0x7C)
      else if c1 = CHR 0x26 then
        ((if c2 = CHR 0x26 then make_token ''&&'' line_num (flush line_num t) else append_char c1 t)
           \<lparr>in_first_line := False, after_operator := True\<rparr>, c2 = CHR 0x26)
      else if c1 = CHR 0x28 then ((make_token ''('' line_num (flush line_num t))\<lparr>in_subshell := True\<rparr>, False)
      else if c1 = CHR 0x29 then (token_close line_num t, False)
      else if c1 = CHR 0x3E \<or> c1 = CHR 0x3C then
        ((make_token [c1] line_num (flush line_num t))\<lparr>in_first_line := False, after_operator := False\<rparr>, False)
      else
        ((append_char c1 t)\<lparr>in_simple_comman := True, in_first_line := False, after_operator := False\<rparr>, False))"

text \<open>At the last character \<open>c2\<close> is a space.\<close>

fun token_loop :: "int \<Rightarrow> string \<Rightarrow> tokenizer \<Rightarrow> tokenizer" where
  "token_loop line_num [] t = t"
| "token_loop line_num [c1] t = fst (token_char line_num c1 SPACE t)"
| "token_loop line_num (c1 # c2 # cs) t =
     (case token_char line_num c1 c2 t of
        (t', skip) \<Rightarrow> if skip then token_loop line_num cs t' else token_loop line_num (c2 # cs) t')"

definition tokenize :: "string \<Rightarrow> int \<Rightarrow> token list" where
  "tokenize command_tree line_num =
     token_array (flush line_num (token_loop line_num command_tree
       \<lparr>buffer = [], line_offset = 0, in_simple_comman = False, in_subshell = False,
        line_offset_in_subshell = 0, after_operator = False, in_comment = False,
        in_first_line = True, token_array = []\<rparr>))"

section \<open>Building commands\<close>

definition make_compound_command :: "command \<Rightarrow> command \<Rightarrow> string \<Rightarrow> int \<Rightarrow> command" where
  "make_compound_command cmd1 cmd2 oper l =
     Compound l (-1) None None
       (if oper = '';'' then SEQUENCE_COMMAND else if oper = ''||'' then OR_COMMAND
        else if oper = ''&&'' then AND_COMMAND else PIPE_COMMAND) cmd1 cmd2"

definition make_subshell_command :: "command \<Rightarrow> int \<Rightarrow> command" where
  "make_subshell_command cmd l = Subshell l (-1) None None cmd"

definition is_blank :: "char \<Rightarrow> bool" where
  "is_blank c \<longleftrightarrow> c = SPACE \<or> c = TAB"

definition eat_tail_white_space :: "string \<Rightarrow> string" where
  "eat_tail_white_space word = rev (dropWhile is_blank (rev word))"

text \<open>\<open>strcmp\<close> is nonzero for different strings; \<open>!!strcmp(oper,"||")\<close> is as in the source.\<close>

definition oper_cmp :: "string \<Rightarrow> string \<Rightarrow> int" where
  "oper_cmp token oper =
     (if token = '';'' then (if oper = '';'' then 0 else -1)
      else if token = ''&&'' \<or> token = ''||'' then
        (if oper = '';'' then 1 else if oper = ''&&'' \<or> oper \<noteq> ''||'' then 0 else -1)
      else (if oper = '';'' \<or> oper = ''&&'' \<or> oper = ''||'' then 1 else 0))"

text \<open>
  The words of a simple command, separated by runs of blanks. A token that begins with blanks
  would yield an empty first word.
\<close>

function split_words :: "string \<Rightarrow> string list" where
  "split_words [] = []"
| "split_words (c # cs) =
     takeWhile (\<lambda>x. \<not> is_blank x) (c # cs)
     # split_words (dropWhile is_blank (dropWhile (\<lambda>x. \<not> is_blank x) (c # cs)))"
  by pat_completeness auto
termination
proof (relation "measure length", goal_cases)
  case (2 c cs)
  have "length (dropWhile is_blank (dropWhile (\<lambda>x. \<not> is_blank x) cs)) \<le> length cs"
    using length_dropWhile_le [of is_blank "dropWhile (\<lambda>x. \<not> is_blank x) cs"]
      length_dropWhile_le [of "\<lambda>x. \<not> is_blank x" cs] by linarith
  moreover have "length (dropWhile is_blank cs) \<le> length cs" by (rule length_dropWhile_le)
  ultimately show ?case by (auto simp: le_imp_less_Suc)
qed simp

definition make_simple_command :: "string \<Rightarrow> int \<Rightarrow> command" where
  "make_simple_command token l = Simple l (-1) None None (split_words token)"

section \<open>The parser\<close>

definition is_operator_token :: "string \<Rightarrow> bool" where
  "is_operator_token token \<longleftrightarrow>
     token \<in> {''&&'', ''||'', ''|'', '';'', ''<'', ''>'', ''('', '')''}"

text \<open>The inner loop: operators that bind at least as strongly as \<open>token\<close> are applied.\<close>

fun reduce :: "string \<Rightarrow> int \<Rightarrow> string list \<Rightarrow> command list \<Rightarrow> (string list \<times> command list) option" where
  "reduce token l [] cmds = Some ([], cmds)"
| "reduce token l (oper # opers) cmds =
     (if token \<noteq> ''('' \<and> oper_cmp token oper \<le> 0
      then
        (case pop cmds of
           None \<Rightarrow> None
         | Some (cmd2, cmds1) \<Rightarrow>
             (case pop cmds1 of
                None \<Rightarrow> None
              | Some (cmd1, cmds2) \<Rightarrow>
                  reduce token l opers (push (make_compound_command cmd1 cmd2 oper l) cmds2)))
      else Some (oper # opers, cmds))"

text \<open>At the end all operators are applied; the result is the last command made.\<close>

fun finish :: "int \<Rightarrow> string list \<Rightarrow> command list \<Rightarrow> command option" where
  "finish l [] cmds = (case pop cmds of None \<Rightarrow> None | Some (cmd, _) \<Rightarrow> Some (set_line l cmd))"
| "finish l (oper # opers) cmds =
     (case pop cmds of
        None \<Rightarrow> None
      | Some (cmd2, cmds1) \<Rightarrow>
          (case pop cmds1 of
             None \<Rightarrow> None
           | Some (cmd1, cmds2) \<Rightarrow>
               (let cmd = make_compound_command cmd1 cmd2 oper l
                in if opers = [] then Some cmd else finish l opers (push cmd cmds2))))"

text \<open>
  The loop over the tokens, with the previous token word. \<open>sub\<close> parses the text of a subshell;
  after \<open>)\<close> the operator \<open>(\<close> is popped, and any other operator there would pop until the empty
  stack exits. A redirection needs a word after it and a command before it.
\<close>

fun command_loop :: "(token list \<Rightarrow> command option) \<Rightarrow> int \<Rightarrow> string \<Rightarrow> token list \<Rightarrow> string list \<Rightarrow> command list
    \<Rightarrow> (string list \<times> command list) option" where
  "command_loop sub l prev [] opers cmds = Some (opers, cmds)"
| "command_loop sub l prev ((word, n) # ts) opers cmds =
     (let token = eat_tail_white_space word
      in if token = ''<'' \<or> token = ''>'' then
           (case ts of
              [] \<Rightarrow> None
            | (w, _) # ts' \<Rightarrow>
                (case pop cmds of
                   None \<Rightarrow> None
                 | Some (cmd, cmds1) \<Rightarrow>
                     command_loop sub l w ts' opers
                       (push ((if token = ''<'' then set_input else set_output) (eat_tail_white_space w) cmd) cmds1)))
         else if token = '')'' then
           (case pop opers of
              None \<Rightarrow> None
            | Some (oper, opers1) \<Rightarrow>
                if oper \<noteq> ''('' then None
                else
                  (case pop cmds of
                     None \<Rightarrow> None
                   | Some (cmd, cmds1) \<Rightarrow>
                       command_loop sub l word ts opers1 (push (make_subshell_command cmd l) cmds1)))
         else if is_operator_token token then
           (case (if is_empty opers then Some (opers, cmds) else reduce token l opers cmds) of
              None \<Rightarrow> None
            | Some (opers1, cmds1) \<Rightarrow> command_loop sub l word ts (push token opers1) cmds1)
         else if prev = ''('' then
           (case sub (tokenize token n) of
              None \<Rightarrow> None
            | Some cmd \<Rightarrow> command_loop sub l word ts opers (push (set_line l cmd) cmds))
         else command_loop sub l word ts opers (push (make_simple_command token l) cmds))"

text \<open>
  The recursion on the text of subshells is bounded by the first argument; a nesting of depth \<open>d\<close>
  needs \<open>d + 1\<close>. A text without tokens would make \<open>pop\<close> exit.
\<close>

fun make_command :: "nat \<Rightarrow> token list \<Rightarrow> command option" where
  "make_command 0 tokens = None"
| "make_command (Suc fuel) tokens =
     (let l = (case tokens of [] \<Rightarrow> -1 | (_, n) # _ \<Rightarrow> n)
      in case command_loop (make_command fuel) l '''' tokens create_stack create_stack of
           None \<Rightarrow> None
         | Some (opers, cmds) \<Rightarrow> finish l opers cmds)"

section \<open>Validation\<close>

definition is_valid_operator :: "string \<Rightarrow> bool" where
  "is_valid_operator operand \<longleftrightarrow> operand \<in> {''&&'', ''||'', ''|'', '';'', ''>'', ''<'', ''('', '')''}"

definition is_word_char :: "char \<Rightarrow> bool" where
  "is_word_char c \<longleftrightarrow> c \<in> set ''!%+,-./:@^_'' \<or> is_alnum c \<or> c = SPACE \<or> c = NEWLINE \<or> c = TAB"

text \<open>The index is incremented twice per round, so every other character is not looked at.\<close>

fun is_valid_word :: "string \<Rightarrow> bool" where
  "is_valid_word [] = True"
| "is_valid_word [c] = is_word_char c"
| "is_valid_word (c # d # cs) = (is_word_char c \<and> is_valid_word cs)"

definition starts_with :: "char \<Rightarrow> string \<Rightarrow> bool" where
  "starts_with c s = (case s of [] \<Rightarrow> False | d # _ \<Rightarrow> d = c)"

text \<open>The tests on the operator \<open>;\<close> with the tokens before and after it; the first that fails, in order.\<close>

definition check_semicolon :: "token \<Rightarrow> int \<Rightarrow> token list \<Rightarrow> int option" where
  "check_semicolon prev n rest =
     (if (case rest of [] \<Rightarrow> False
          | (next, _) # _ \<Rightarrow> next \<in> {''&&'', ''||'', ''|'', '';''} \<or> starts_with (CHR 0x3E) next \<or> starts_with (CHR 0x3C) next)
      then Some n
      else if rest = [] then Some n
      else if list_ex (\<lambda>c. c = CHR 0x3E \<or> c = CHR 0x3C) (fst prev) then Some (snd prev)
      else None)"

definition check_operator :: "int \<Rightarrow> token list \<Rightarrow> int option" where
  "check_operator n rest =
     (case rest of [] \<Rightarrow> Some n | (next, _) # _ \<Rightarrow> if next \<in> {''&&'', ''||'', ''|''} then Some n else None)"

definition check_redirection :: "token option \<Rightarrow> int \<Rightarrow> token list \<Rightarrow> int option" where
  "check_redirection prev n rest =
     (if prev = None then Some n
      else case rest of [] \<Rightarrow> Some n | (next, _) # _ \<Rightarrow> if next \<in> {''>'', ''<''} then Some n else None)"

definition check_token :: "token option \<Rightarrow> token \<Rightarrow> token list \<Rightarrow> int option" where
  "check_token prev tk rest =
     (case tk of (operand, n) \<Rightarrow>
        if operand \<in> {'';'', ''||'', ''|'', ''&&''} then
          (case prev of None \<Rightarrow> Some n
           | Some pr \<Rightarrow> if operand = '';'' then check_semicolon pr n rest else check_operator n rest)
        else if operand \<in> {''<'', ''>''} then check_redirection prev n rest
        else None)"

text \<open>
  \<open>validate\<close>: \<open>Some n\<close> is the exit with a syntax error in line \<open>n\<close>. \<open>prev\<close> is the token before, and
  \<open>sub\<close> validates the text of a subshell; the token after \<open>(\<close> is skipped when it is a text.
\<close>

fun validate_loop :: "(token list \<Rightarrow> int option) \<Rightarrow> int \<Rightarrow> token option \<Rightarrow> bool \<Rightarrow> token list \<Rightarrow> int option" where
  "validate_loop sub token_array_len prev in_sub [] = None"
| "validate_loop sub token_array_len prev in_sub ((operand, n) # rest) =
     (if \<not> is_valid_operator operand \<and> \<not> is_valid_word operand then Some n
      else if starts_with (CHR 0x28) operand then
        (case rest of
           [] \<Rightarrow> Some token_array_len
         | (word, m) # rest1 \<Rightarrow>
             if starts_with (CHR 0x29) word
             then validate_loop sub token_array_len (Some (operand, n)) True ((word, m) # rest1)
             else
               (case sub (tokenize word m) of
                  Some e \<Rightarrow> Some e
                | None \<Rightarrow> validate_loop sub token_array_len (Some (word, m)) True rest1))
      else if starts_with (CHR 0x29) operand then
        (if prev = None then Some 0
         else if \<not> in_sub then Some n
         else validate_loop sub token_array_len (Some (operand, n)) False rest)
      else
        (case check_token prev (operand, n) rest of
           Some e \<Rightarrow> Some e
         | None \<Rightarrow> validate_loop sub token_array_len (Some (operand, n)) in_sub rest))"

text \<open>The fuel bounds the nesting of subshells, as in \<open>make_command\<close>.\<close>

fun validate :: "nat \<Rightarrow> token list \<Rightarrow> int option" where
  "validate 0 tokens = Some (-1)"
| "validate (Suc fuel) tokens = validate_loop (validate fuel) (int (length tokens)) None False tokens"

fun validate_all :: "nat \<Rightarrow> (string \<times> int) list \<Rightarrow> int option" where
  "validate_all fuel [] = None"
| "validate_all fuel ((cmd, line) # rest) =
     (case validate fuel (tokenize cmd line) of Some e \<Rightarrow> Some e | None \<Rightarrow> validate_all fuel rest)"

section \<open>The command stream\<close>

text \<open>\<open>None\<close>: the parser exits with an empty stack. A stream is what is left from the cursor on.\<close>

fun parse_commands :: "nat \<Rightarrow> (string \<times> int) list \<Rightarrow> command list option" where
  "parse_commands fuel [] = Some []"
| "parse_commands fuel ((cmd, line) # rest) =
     (case make_command fuel (tokenize cmd line) of
        None \<Rightarrow> None
      | Some c \<Rightarrow> map_option ((#) (set_line line c)) (parse_commands fuel rest))"

definition make_commands :: "nat \<Rightarrow> (string \<times> int) list \<Rightarrow> command list option" where
  "make_commands fuel m_sp = (case validate_all fuel m_sp of Some e \<Rightarrow> None | None \<Rightarrow> parse_commands fuel m_sp)"

fun read_command_stream :: "command list \<Rightarrow> command option \<times> command list" where
  "read_command_stream [] = (None, [])"
| "read_command_stream (c # cs) = (Some c, cs)"

end
