(* ===== verification/ShellParseProps.thy ===== *)
theory ShellParseProps
  imports ShellParse
begin

text \<open>
  Correctness of the command reader: the tokenizer gives back the words and operators of a line,
  and the parser on two stacks turns the tokens into the one tree that respects the precedence
  of the operators, with operators of the same precedence grouped to the left.
\<close>

section \<open>Precedence\<close>

definition binary_operators :: "string set" where
  "binary_operators = {'';'', ''&&'', ''||'', ''|''}"

definition oper_level :: "string \<Rightarrow> nat" where
  "oper_level oper = (if oper = '';'' then 0 else if oper = ''|'' then 2 else 1)"

lemma oper_cmp_level:
  "token \<in> binary_operators \<Longrightarrow> oper \<in> binary_operators \<Longrightarrow>
     oper_cmp token oper \<le> 0 \<longleftrightarrow> oper_level token \<le> oper_level oper"
  by (auto simp: binary_operators_def oper_cmp_def oper_level_def)

primrec type_level :: "command_type \<Rightarrow> nat" where
  "type_level SEQUENCE_COMMAND = 0"
| "type_level AND_COMMAND = 1"
| "type_level OR_COMMAND = 1"
| "type_level PIPE_COMMAND = 2"

text \<open>The level of a command: simple commands and subshells bind strongest.\<close>

primrec level :: "command \<Rightarrow> nat" where
  "level (Compound _ _ _ _ t _ _) = type_level t"
| "level (Simple _ _ _ _ _) = 3"
| "level (Subshell _ _ _ _ _) = 3"

primrec precedence_ok :: "command \<Rightarrow> bool" where
  "precedence_ok (Compound _ _ _ _ t a b) \<longleftrightarrow>
     precedence_ok a \<and> precedence_ok b \<and> type_level t \<le> level a \<and> type_level t < level b"
| "precedence_ok (Simple _ _ _ _ _) = True"
| "precedence_ok (Subshell _ _ _ _ _) = True"

text \<open>The operands and operators of a command from left to right.\<close>

primrec flatten :: "command \<Rightarrow> (command + string) list" where
  "flatten (Compound _ _ _ _ t a b) = flatten a @ Inr (command_label t) # flatten b"
| "flatten (Simple l s i out w) = [Inl (Simple l s i out w)]"
| "flatten (Subshell l s i out c) = [Inl (Subshell l s i out c)]"

definition is_operand :: "command \<Rightarrow> bool" where
  "is_operand c \<longleftrightarrow> flatten c = [Inl c] \<and> level c = 3 \<and> precedence_ok c"

lemma type_level_bound: "type_level t < 3"
  by (cases t) simp_all

lemma not_operand_Compound [simp]: "\<not> is_operand (Compound l s i o' t a b)"
  using type_level_bound [of t] by (auto simp: is_operand_def)

lemma is_operand_simps [simp]:
  "is_operand (Simple l s i out w)" "is_operand (Subshell l s i out c)"
  by (simp_all add: is_operand_def)

lemma make_compound_command_simps [simp]:
  assumes "oper \<in> binary_operators"
  shows "level (make_compound_command a b oper l) = oper_level oper"
    "flatten (make_compound_command a b oper l) = flatten a @ Inr oper # flatten b"
    "precedence_ok (make_compound_command a b oper l) \<longleftrightarrow>
       precedence_ok a \<and> precedence_ok b \<and> oper_level oper \<le> level a \<and> oper_level oper < level b"
  using assms by (auto simp: make_compound_command_def binary_operators_def oper_level_def)

section \<open>The two stacks\<close>

text \<open>Both stacks top first; the command stack has one element more.\<close>

fun stacks_ok :: "string list \<Rightarrow> command list \<Rightarrow> bool" where
  "stacks_ok [] [c] \<longleftrightarrow> precedence_ok c"
| "stacks_ok (oper # opers) (c # d # cs) \<longleftrightarrow>
     oper \<in> binary_operators \<and> precedence_ok c \<and> oper_level oper < level c \<and> oper_level oper \<le> level d
     \<and> (case opers of [] \<Rightarrow> True | o' # _ \<Rightarrow> oper_level o' < oper_level oper)
     \<and> stacks_ok opers (d # cs)"
| "stacks_ok _ _ \<longleftrightarrow> False"

fun stacks_flatten :: "string list \<Rightarrow> command list \<Rightarrow> (command + string) list" where
  "stacks_flatten (oper # opers) (c # cs) = stacks_flatten opers cs @ Inr oper # flatten c"
| "stacks_flatten _ (c # _) = flatten c"
| "stacks_flatten _ [] = []"

text \<open>A command of the stack's top made of the two topmost ones.\<close>

lemma stacks_ok_apply:
  assumes "stacks_ok (oper # opers) (c # d # cs)"
  shows "stacks_ok opers (make_compound_command d c oper l # cs)"
    "stacks_flatten opers (make_compound_command d c oper l # cs) = stacks_flatten (oper # opers) (c # d # cs)"
proof -
  have o': "oper \<in> binary_operators" and s: "stacks_ok opers (d # cs)"
    and c: "precedence_ok c" "oper_level oper < level c" "oper_level oper \<le> level d"
    and up: "case opers of [] \<Rightarrow> True | o' # _ \<Rightarrow> oper_level o' < oper_level oper"
    using assms by simp_all
  show "stacks_ok opers (make_compound_command d c oper l # cs)"
  proof (cases opers)
    case Nil
    then have "cs = []" using s by (cases cs) simp_all
    then show ?thesis using Nil o' s c by simp
  next
    case (Cons o2 os)
    then obtain e es where "cs = e # es" using s by (cases cs) simp_all
    then show ?thesis using Cons o' s c up by simp
  qed
  show "stacks_flatten opers (make_compound_command d c oper l # cs) = stacks_flatten (oper # opers) (c # d # cs)"
    using o' by (cases opers) simp_all
qed

lemma reduce_ok:
  assumes "token \<in> binary_operators" "stacks_ok opers (c # cs)" "oper_level token \<le> level c"
  shows "\<exists>opers' c' cs'. reduce token l opers (c # cs) = Some (opers', c' # cs') \<and> stacks_ok opers' (c' # cs')
    \<and> stacks_flatten opers' (c' # cs') = stacks_flatten opers (c # cs) \<and> oper_level token \<le> level c'
    \<and> (case opers' of [] \<Rightarrow> True | o' # _ \<Rightarrow> oper_level o' < oper_level token)"
  using assms
proof (induction opers arbitrary: c cs)
  case Nil
  then show ?case by simp
next
  case (Cons oper opers)
  then obtain d ds where cs: "cs = d # ds" by (cases cs) simp_all
  have o': "oper \<in> binary_operators" using Cons.prems(2) cs by simp
  have np: "token \<noteq> ''(''" using Cons.prems(1) by (auto simp: binary_operators_def)
  show ?case
  proof (cases "oper_cmp token oper \<le> 0")
    case True
    let ?c = "make_compound_command d c oper l"
    note A = stacks_ok_apply [OF Cons.prems(2) [unfolded cs], of l]
    have "oper_level token \<le> level ?c" using True o' oper_cmp_level [OF Cons.prems(1) o'] by simp
    from Cons.IH [OF Cons.prems(1) A(1) this] show ?thesis
      using True np by (simp add: cs push_def A(2))
  next
    case False
    then show ?thesis using Cons.prems cs oper_cmp_level [OF Cons.prems(1) o'] by simp
  qed
qed

lemma finish_stacks_ok:
  assumes "stacks_ok opers (c # cs)" "opers \<noteq> []"
  shows "\<exists>c'. finish l opers (c # cs) = Some c' \<and> precedence_ok c' \<and> flatten c' = stacks_flatten opers (c # cs)"
  using assms
proof (induction opers arbitrary: c cs)
  case (Cons oper opers)
  then obtain d ds where cs: "cs = d # ds" by (cases cs) simp_all
  note A = stacks_ok_apply [OF Cons.prems(1) [unfolded cs], of l]
  show ?case
  proof (cases opers)
    case Nil
    then have "ds = []" using A(1) by (cases ds) simp_all
    then show ?thesis using A Nil cs by simp
  next
    case c2: (Cons o2 os)
    have "finish l (oper # opers) (c # cs) = finish l opers (make_compound_command d c oper l # ds)"
      by (simp add: cs c2 push_def)
    moreover have "opers \<noteq> []" using c2 by simp
    ultimately show ?thesis using Cons.IH [OF A(1)] A(2) cs by metis
  qed
qed simp

section \<open>Operands\<close>

text \<open>
  An operand is a word or a subshell (its text and what that parses to), followed by any number
  of redirections: \<open>True\<close> is \<open><\<close>. Every token comes with its line.
\<close>

datatype operand_head = Word string | Group string command

record operand =
  head :: operand_head
  redirs :: "(bool \<times> string) list"
  at_line :: int

definition redir_tokens :: "int \<Rightarrow> bool \<times> string \<Rightarrow> token list" where
  "redir_tokens n r = (case r of (inp, f) \<Rightarrow> [(if inp then ''<'' else ''>'', n), (f, n)])"

definition operand_tokens :: "operand \<Rightarrow> token list" where
  "operand_tokens x =
     (case head x of Word w \<Rightarrow> [(w, at_line x)] | Group s c \<Rightarrow> [(''('', at_line x), (s, at_line x), ('')'', at_line x)])
     @ concat (map (redir_tokens (at_line x)) (redirs x))"

definition plain_token :: "string \<Rightarrow> bool" where
  "plain_token w \<longleftrightarrow> \<not> is_operator_token (eat_tail_white_space w)"

definition operand_ok :: "(token list \<Rightarrow> command option) \<Rightarrow> operand \<Rightarrow> bool" where
  "operand_ok sub x \<longleftrightarrow>
     (case head x of Word w \<Rightarrow> plain_token w
      | Group s c \<Rightarrow> plain_token s \<and> sub (tokenize (eat_tail_white_space s) (at_line x)) = Some c)
     \<and> (\<forall>r \<in> set (redirs x). plain_token (snd r))"

definition add_redir :: "bool \<times> string \<Rightarrow> command \<Rightarrow> command" where
  "add_redir r c = (case r of (inp, f) \<Rightarrow> (if inp then set_input else set_output) (eat_tail_white_space f) c)"

definition operand_command :: "int \<Rightarrow> operand \<Rightarrow> command" where
  "operand_command l x = fold add_redir (redirs x)
     (case head x of Word w \<Rightarrow> make_simple_command (eat_tail_white_space w) l
      | Group s c \<Rightarrow> make_subshell_command (set_line l c) l)"

lemma eat_tail_operators [simp]:
  "eat_tail_white_space ''<'' = ''<''" "eat_tail_white_space ''>'' = ''>''"
  "eat_tail_white_space ''('' = ''(''" "eat_tail_white_space '')'' = '')''"
  "oper \<in> binary_operators \<Longrightarrow> eat_tail_white_space oper = oper"
  by (auto simp: eat_tail_white_space_def is_blank_def binary_operators_def)

lemma plain_token_neq: "plain_token w \<Longrightarrow> w \<noteq> ''(''"
  by (auto simp: plain_token_def is_operator_token_def)

lemma add_redir_operand: "is_operand c \<Longrightarrow> is_operand (add_redir r c)"
  by (cases c) (auto simp: add_redir_def split: prod.splits)

lemma operand_command_operand: "is_operand (operand_command l x)"
proof -
  have "is_operand (fold add_redir rs c)" if "is_operand c" for rs c
    using that by (induction rs arbitrary: c) (simp_all add: add_redir_operand)
  then show ?thesis
    by (simp add: operand_command_def make_simple_command_def make_subshell_command_def split: operand_head.splits)
qed

lemma set_line_redirs: "set_line l (fold add_redir rs c) = fold add_redir rs (set_line l c)"
proof (induction rs arbitrary: c)
  case (Cons r rs)
  have "set_line l (add_redir r c) = add_redir r (set_line l c)"
    by (cases c) (auto simp: add_redir_def split: prod.splits)
  then show ?case using Cons by simp
qed simp

lemma set_line_operand [simp]: "set_line l (operand_command l x) = operand_command l x"
  by (simp add: operand_command_def set_line_redirs make_simple_command_def make_subshell_command_def
      split: operand_head.splits)

lemma loop_redirs:
  assumes "\<forall>r \<in> set rs. plain_token (snd r)" "prev \<noteq> ''(''"
  shows "\<exists>prev'. prev' \<noteq> ''('' \<and> command_loop sub l prev (concat (map (redir_tokens n) rs) @ ts) opers (c # cs)
    = command_loop sub l prev' ts opers (fold add_redir rs c # cs)"
  using assms
proof (induction rs arbitrary: prev c)
  case (Cons r rs)
  obtain inp f where r: "r = (inp, f)" by (cases r)
  have f: "f \<noteq> ''(''" using Cons.prems r plain_token_neq by simp
  obtain prev' where p: "prev' \<noteq> ''(''" "command_loop sub l f (concat (map (redir_tokens n) rs) @ ts) opers (add_redir r c # cs)
    = command_loop sub l prev' ts opers (fold add_redir rs (add_redir r c) # cs)"
    using Cons.IH [of f "add_redir r c"] Cons.prems f by auto
  have "command_loop sub l prev (concat (map (redir_tokens n) (r # rs)) @ ts) opers (c # cs)
    = command_loop sub l f (concat (map (redir_tokens n) rs) @ ts) opers (add_redir r c # cs)"
    by (simp add: r redir_tokens_def add_redir_def push_def)
  then show ?case using p by auto
qed auto

lemma loop_operand:
  assumes "operand_ok sub x" "prev \<noteq> ''(''"
  shows "\<exists>prev'. prev' \<noteq> ''('' \<and> command_loop sub l prev (operand_tokens x @ ts) opers cs
    = command_loop sub l prev' ts opers (operand_command l x # cs)"
proof (cases "head x")
  case (Word w)
  have w: "plain_token w" "\<forall>r \<in> set (redirs x). plain_token (snd r)" using assms(1) Word by (simp_all add: operand_ok_def)
  have "command_loop sub l prev (operand_tokens x @ ts) opers cs
    = command_loop sub l w (concat (map (redir_tokens (at_line x)) (redirs x)) @ ts) opers
        (make_simple_command (eat_tail_white_space w) l # cs)"
    using w(1) assms(2) by (simp add: operand_tokens_def Word Let_def plain_token_def is_operator_token_def push_def)
  then show ?thesis
    using loop_redirs [OF w(2) plain_token_neq [OF w(1)], of sub l "at_line x" ts opers] Word
    by (simp add: operand_command_def)
next
  case (Group s c)
  have s: "plain_token s" "sub (tokenize (eat_tail_white_space s) (at_line x)) = Some c"
    "\<forall>r \<in> set (redirs x). plain_token (snd r)" using assms(1) Group by (simp_all add: operand_ok_def)
  have red: "(if is_empty opers then Some (opers, cs) else reduce ''('' l opers cs) = Some (opers, cs)"
    by (cases opers) (simp_all add: is_empty_def)
  have "command_loop sub l prev (operand_tokens x @ ts) opers cs
    = command_loop sub l '')'' (concat (map (redir_tokens (at_line x)) (redirs x)) @ ts) opers
        (make_subshell_command (set_line l c) l # cs)"
    using s(1,2) red
    by (simp add: operand_tokens_def Group Let_def plain_token_def is_operator_token_def push_def)
  then show ?thesis
    using loop_redirs [OF s(3), of "'')''" sub l "at_line x" ts opers] Group
    by (simp add: operand_command_def)
qed

section \<open>The parser\<close>

type_synonym program = "operand \<times> (string \<times> int \<times> operand) list"

definition rest_tokens :: "(string \<times> int \<times> operand) list \<Rightarrow> token list" where
  "rest_tokens rest = concat (map (\<lambda>(oper, n, x). (oper, n) # operand_tokens x) rest)"

definition rest_flatten :: "int \<Rightarrow> (string \<times> int \<times> operand) list \<Rightarrow> (command + string) list" where
  "rest_flatten l rest = concat (map (\<lambda>(oper, n, x). [Inr oper, Inl (operand_command l x)]) rest)"

definition program_tokens :: "program \<Rightarrow> token list" where
  "program_tokens prog = operand_tokens (fst prog) @ rest_tokens (snd prog)"

definition program_ok :: "(token list \<Rightarrow> command option) \<Rightarrow> program \<Rightarrow> bool" where
  "program_ok sub prog \<longleftrightarrow> operand_ok sub (fst prog)
     \<and> (\<forall>(oper, n, x) \<in> set (snd prog). oper \<in> binary_operators \<and> operand_ok sub x)"

lemma loop_operator:
  assumes "oper \<in> binary_operators"
  shows "command_loop sub l prev ((oper, n) # ts) opers cmds =
    (case reduce oper l opers cmds of None \<Rightarrow> None
     | Some (opers1, cmds1) \<Rightarrow> command_loop sub l oper ts (oper # opers1) cmds1)"
proof -
  have "oper \<noteq> ''<''" "oper \<noteq> ''>''" "oper \<noteq> '')''" "is_operator_token oper"
    using assms by (auto simp: binary_operators_def is_operator_token_def)
  moreover have "(if is_empty opers then Some (opers, cmds) else reduce oper l opers cmds) = reduce oper l opers cmds"
    by (cases opers) (simp_all add: is_empty_def)
  ultimately show ?thesis using assms by (simp add: Let_def push_def del: reduce.simps split: option.split)
qed

lemma operand_levels: "level (operand_command l x) = 3" "precedence_ok (operand_command l x)"
  "flatten (operand_command l x) = [Inl (operand_command l x)]"
  using operand_command_operand [of l x] by (simp_all add: is_operand_def)

lemma oper_level_bound: "oper_level oper < 3"
  by (simp add: oper_level_def)

lemma loop_rest:
  assumes "\<forall>(oper, n, x) \<in> set rest. oper \<in> binary_operators \<and> operand_ok sub x"
    "stacks_ok opers (c # cs)" "level c = 3" "prev \<noteq> ''(''"
  shows "\<exists>opers' c' cs'. command_loop sub l prev (rest_tokens rest) opers (c # cs) = Some (opers', c' # cs')
    \<and> stacks_ok opers' (c' # cs') \<and> stacks_flatten opers' (c' # cs') = stacks_flatten opers (c # cs) @ rest_flatten l rest
    \<and> (rest \<noteq> [] \<longrightarrow> opers' \<noteq> [])"
  using assms
proof (induction rest arbitrary: opers c cs prev)
  case Nil
  then show ?case by (simp add: rest_tokens_def rest_flatten_def)
next
  case (Cons e rest)
  obtain oper n x where e: "e = (oper, n, x)" by (cases e)
  have b: "oper \<in> binary_operators" and x: "operand_ok sub x"
    and rest: "\<forall>(oper, n, x) \<in> set rest. oper \<in> binary_operators \<and> operand_ok sub x"
    using Cons.prems(1) e by auto
  have lv: "oper_level oper \<le> level c" using oper_level_bound [of oper] Cons.prems(3) by simp
  obtain opers1 c1 cs1 where r: "reduce oper l opers (c # cs) = Some (opers1, c1 # cs1)" "stacks_ok opers1 (c1 # cs1)"
    "stacks_flatten opers1 (c1 # cs1) = stacks_flatten opers (c # cs)" "oper_level oper \<le> level c1"
    "case opers1 of [] \<Rightarrow> True | o' # _ \<Rightarrow> oper_level o' < oper_level oper"
    using reduce_ok [OF b Cons.prems(2) lv, of l]     apply (elim exE conjE)
    apply (rule that)
    apply assumption+
    done
  have np: "oper \<noteq> ''(''" using b by (auto simp: binary_operators_def)
  obtain prev' where p: "prev' \<noteq> ''(''" "command_loop sub l oper (operand_tokens x @ rest_tokens rest) (oper # opers1) (c1 # cs1)
      = command_loop sub l prev' (rest_tokens rest) (oper # opers1) (operand_command l x # c1 # cs1)"
    using loop_operand [OF x np, where l = l and ts = "rest_tokens rest" and opers = "oper # opers1" and cs = "c1 # cs1"]
    by blast
  have ok: "stacks_ok (oper # opers1) (operand_command l x # c1 # cs1)"
    using r(2,4,5) b operand_levels [of l x] oper_level_bound [of oper] by simp
  obtain opers' c' cs' where IH: "command_loop sub l prev' (rest_tokens rest) (oper # opers1) (operand_command l x # c1 # cs1)
      = Some (opers', c' # cs')" "stacks_ok opers' (c' # cs')"
    "stacks_flatten opers' (c' # cs') = stacks_flatten (oper # opers1) (operand_command l x # c1 # cs1) @ rest_flatten l rest"
    "rest \<noteq> [] \<longrightarrow> opers' \<noteq> []"
    using Cons.IH [OF rest ok operand_levels(1) p(1)]
    apply (elim exE conjE)
    apply (rule that)
    apply assumption+
    done
  have t: "rest_tokens (e # rest) = (oper, n) # operand_tokens x @ rest_tokens rest"
    by (simp add: rest_tokens_def e)
  have run: "command_loop sub l prev (rest_tokens (e # rest)) opers (c # cs) = Some (opers', c' # cs')"
    unfolding t loop_operator [OF b] by (simp add: r(1) p(2) IH(1))
  have "opers' \<noteq> []"
  proof (cases "rest = []")
    case True
    then show ?thesis using IH(1) by (auto simp: rest_tokens_def)
  qed (use IH(4) in simp)
  then show ?case
    using run IH(2,3) r(3) operand_levels(3) [of l x] by (simp add: e rest_flatten_def)
qed

text \<open>The parser turns every sequence of operands (words and subshells with redirections) joined by
  the operators \<open>;\<close>, \<open>&&\<close>, \<open>||\<close> and \<open>|\<close> into a command: the one whose operands and operators are,
  from left to right, those of the sequence, that respects the precedence of the operators, and
  that groups operators of the same precedence to the left.\<close>

lemma make_command_parses:
  assumes "program_ok (make_command fuel) prog"
  shows "\<exists>c. make_command (Suc fuel) (program_tokens prog) = Some c \<and> precedence_ok c
    \<and> flatten c = Inl (operand_command (at_line (fst prog)) (fst prog))
        # rest_flatten (at_line (fst prog)) (snd prog)"
proof -
  let ?x = "fst prog" and ?l = "at_line (fst prog)" and ?sub = "make_command fuel"
  have x: "operand_ok ?sub ?x"
    and rest: "\<forall>(oper, n, x) \<in> set (snd prog). oper \<in> binary_operators \<and> operand_ok ?sub x"
    using assms by (simp_all add: program_ok_def)
  obtain prev' where p: "prev' \<noteq> ''(''" "command_loop ?sub ?l '''' (operand_tokens ?x @ rest_tokens (snd prog)) [] []
      = command_loop ?sub ?l prev' (rest_tokens (snd prog)) [] [operand_command ?l ?x]"
    using loop_operand [OF x, where prev = "''''" and l = ?l and ts = "rest_tokens (snd prog)" and opers = "[]" and cs = "[]"]
    by blast
  have "stacks_ok [] [operand_command ?l ?x]" using operand_levels by simp
  note L = loop_rest [OF rest this operand_levels(1) p(1), of ?l]
  obtain opers c cs where r: "command_loop ?sub ?l prev' (rest_tokens (snd prog)) [] [operand_command ?l ?x]
      = Some (opers, c # cs)" "stacks_ok opers (c # cs)"
    "stacks_flatten opers (c # cs) = Inl (operand_command ?l ?x) # rest_flatten ?l (snd prog)"
    "snd prog \<noteq> [] \<longrightarrow> opers \<noteq> []"
    using L unfolding stacks_flatten.simps operand_levels(3) append.simps by (elim exE conjE) (rule that)
  have l: "(case operand_tokens ?x @ rest_tokens (snd prog) of [] \<Rightarrow> -1 | (_, n) # _ \<Rightarrow> n) = ?l"
    by (simp add: operand_tokens_def split: operand_head.splits)
  have m: "make_command (Suc fuel) (program_tokens prog) = finish ?l opers (c # cs)"
    using p(2) r(1)
    unfolding program_tokens_def create_stack_def make_command.simps Let_def l by (simp only: option.case prod.case)
  show ?thesis
  proof (cases "opers = []")
    case True
    then have e: "snd prog = []" using r(4) by blast
    then have "c = operand_command ?l ?x" using r(1) by (simp add: rest_tokens_def)
    then show ?thesis unfolding m using True e operand_levels by (simp add: rest_flatten_def)
  next
    case False
    from finish_stacks_ok [OF r(2) False, of ?l] show ?thesis unfolding m using r(3) by auto
  qed
qed

section \<open>The tokenizer\<close>

lemma token_loop_step:
  "token_loop l (c # cs) t = (case token_char l c (case cs of [] \<Rightarrow> SPACE | c2 # _ \<Rightarrow> c2) t of
     (t', skip) \<Rightarrow> token_loop l (if skip then tl cs else cs) t')"
proof (cases cs)
  case Nil
  then show ?thesis by (auto split: prod.splits)
qed (auto split: prod.splits)

text \<open>
  What a text is made of: words, operators and subshells in parentheses. A gap is the blanks
  before a lexeme; blanks after a word belong to the word.
\<close>

datatype lexeme = Lex_word string | Lex_oper string | Lex_group string

definition special_char :: "char \<Rightarrow> bool" where
  "special_char c \<longleftrightarrow> c \<in> {CHR 0x23, CHR 0x3B, NEWLINE, CHR 0x7C, CHR 0x26, CHR 0x28, CHR 0x29, CHR 0x3E, CHR 0x3C}"

primrec spell :: "lexeme \<Rightarrow> string" where
  "spell (Lex_word w) = w"
| "spell (Lex_oper oper) = oper"
| "spell (Lex_group s) = ''('' @ s @ '')''"

primrec lexeme_ok :: "lexeme \<Rightarrow> bool" where
  "lexeme_ok (Lex_word w) \<longleftrightarrow> (\<exists>c cs. w = c # cs \<and> \<not> is_blank c) \<and> \<not> list_ex special_char w"
| "lexeme_ok (Lex_oper oper) \<longleftrightarrow> oper \<in> {'';'', ''&&'', ''||'', ''|'', ''<'', ''>''}"
| "lexeme_ok (Lex_group s) \<longleftrightarrow> s \<noteq> [] \<and> CHR 0x29 \<notin> set s"

primrec is_word :: "lexeme \<Rightarrow> bool" where
  "is_word (Lex_word w) = True"
| "is_word (Lex_oper oper) = False"
| "is_word (Lex_group s) = False"

definition text_of :: "(string \<times> lexeme) list \<Rightarrow> string" where
  "text_of xs = concat (map (\<lambda>(gap, x). gap @ spell x) xs)"

definition starts_with_bar :: "string \<Rightarrow> bool" where
  "starts_with_bar s \<longleftrightarrow> (\<exists>cs. s = CHR 0x7C # cs)"

text \<open>Two words do not touch, and a \<open>|\<close> is not followed at once by another bar.\<close>

fun lexemes_ok :: "bool \<Rightarrow> (string \<times> lexeme) list \<Rightarrow> bool" where
  "lexemes_ok after_word [] = True"
| "lexemes_ok after_word ((gap, x) # xs) \<longleftrightarrow>
     list_all is_blank gap \<and> (after_word \<longrightarrow> gap = [] \<and> \<not> is_word x) \<and> lexeme_ok x
     \<and> (x = Lex_oper ''|'' \<longrightarrow> \<not> starts_with_bar (text_of xs)) \<and> lexemes_ok (is_word x) xs"

definition newlines :: "string \<Rightarrow> int" where
  "newlines s = int (count_list s NEWLINE)"

fun lexeme_tokens :: "int \<Rightarrow> (string \<times> lexeme) list \<Rightarrow> token list" where
  "lexeme_tokens n [] = []"
| "lexeme_tokens n ((gap, Lex_word w) # xs) = (w, n) # lexeme_tokens n xs"
| "lexeme_tokens n ((gap, Lex_oper oper) # xs) = (oper, n) # lexeme_tokens n xs"
| "lexeme_tokens n ((gap, Lex_group s) # xs) =
     (''('', n) # (s, n) # ('')'', n + newlines s) # lexeme_tokens (n + newlines s) xs"

text \<open>The state between two lexemes; the pending word is counted as a token already.\<close>

definition between :: "int \<Rightarrow> bool \<Rightarrow> int \<Rightarrow> token list \<Rightarrow> tokenizer \<Rightarrow> bool" where
  "between l after_word k ts t \<longleftrightarrow>
     (buffer t \<noteq> [] \<longleftrightarrow> after_word) \<and> (in_simple_comman t \<longleftrightarrow> after_word) \<and> \<not> in_subshell t \<and> \<not> in_comment t
     \<and> line_offset_in_subshell t = 0 \<and> line_offset t = k \<and> token_array (flush l t) = ts"

lemmas token_defs = flush_def make_token_def append_char_def token_close_def

lemma loop_gap:
  "list_all is_blank gap \<Longrightarrow> between l False k ts t \<Longrightarrow> token_loop l (gap @ cs) t = token_loop l cs t"
proof (induction gap)
  case (Cons g gap)
  then have "token_char l g c2 t = (t, False)" for c2
    by (auto simp: token_char_def is_blank_def between_def)
  then show ?case using Cons by (simp add: token_loop_step del: token_loop.simps)
qed simp

lemma loop_word_tail:
  assumes "\<not> list_ex special_char w" "in_simple_comman t" "\<not> in_subshell t" "\<not> in_comment t"
    "\<not> after_operator t" "\<not> in_first_line t"
  shows "token_loop l (w @ cs) t = token_loop l cs (t\<lparr>buffer := buffer t @ w\<rparr>)"
  using assms
proof (induction w arbitrary: t)
  case (Cons c w)
  then have "token_char l c c2 t = (t\<lparr>buffer := buffer t @ [c]\<rparr>, False)" for c2
    by (auto simp: token_char_def special_char_def append_char_def)
  then show ?case using Cons by (simp add: token_loop_step del: token_loop.simps)
qed simp

lemma loop_word:
  assumes "lexeme_ok (Lex_word w)" "between l False k ts t"
  shows "\<exists>t'. token_loop l (w @ cs) t = token_loop l cs t' \<and> between l True k (ts @ [(w, l + k)]) t'"
proof -
  obtain c ws where w: "w = c # ws" "\<not> is_blank c" "\<not> special_char c" "\<not> list_ex special_char ws"
    using assms(1) by auto
  let ?t = "t\<lparr>buffer := [c], in_simple_comman := True, in_first_line := False, after_operator := False\<rparr>"
  have "token_char l c c2 t = (?t, False)" for c2
    using w(2,3) assms(2) by (auto simp: token_char_def special_char_def append_char_def is_blank_def between_def)
  then have "token_loop l (w @ cs) t = token_loop l (ws @ cs) ?t"
    by (simp add: w(1) token_loop_step del: token_loop.simps)
  also have "\<dots> = token_loop l cs (?t\<lparr>buffer := w\<rparr>)"
    using assms(2) by (subst loop_word_tail [OF w(4)]) (simp_all add: w(1) between_def)
  finally show ?thesis using assms(2) w(1)
    by (intro exI [of _ "?t\<lparr>buffer := w\<rparr>"]) (auto simp: between_def token_defs add.commute)
qed

lemma token_loop_one:
  "token_char l c (case cs of [] \<Rightarrow> SPACE | c2 # _ \<Rightarrow> c2) t = (t', False) \<Longrightarrow>
     token_loop l ([c] @ cs) t = token_loop l cs t'"
  by (simp add: token_loop_step del: token_loop.simps)

lemma token_loop_two: "token_char l c c2 t = (t', True) \<Longrightarrow> token_loop l ([c, c2] @ cs) t = token_loop l cs t'"
  by (simp add: token_loop_step del: token_loop.simps)

lemma between_updates [simp]:
  "between l w k ts (t\<lparr>in_first_line := a\<rparr>) = between l w k ts t"
  "between l w k ts (t\<lparr>after_operator := a\<rparr>) = between l w k ts t"
  by (simp_all add: between_def token_defs)

lemma between_token:
  "between l w k ts t \<Longrightarrow> between l False k (ts @ [(x, l + k)]) (make_token x l (flush l t))"
  by (auto simp: between_def token_defs add.commute)

lemma betweenD: "between l w k ts t \<Longrightarrow> \<not> in_comment t \<and> \<not> in_subshell t"
  by (simp add: between_def)

lemma oper_char:
  assumes b: "between l after_word k ts t"
    and c: "c = CHR 0x3B \<or> c = CHR 0x3C \<or> c = CHR 0x3E \<or> c = CHR 0x7C \<and> c2 \<noteq> CHR 0x7C"
  shows "\<exists>t'. between l False k (ts @ [([c], l + k)]) t' \<and> token_char l c c2 t = (t', False)"
proof -
  let ?t = "make_token [c] l (flush l t)"
  have "token_char l c c2 t = (if c = CHR 0x3B then ?t
      else if c = CHR 0x7C then ?t\<lparr>in_first_line := False, after_operator := True\<rparr>
      else ?t\<lparr>in_first_line := False, after_operator := False\<rparr>, False)"
    using c betweenD [OF b] by (elim disjE conjE; simp add: token_char_def)
  then show ?thesis using between_token [OF b, of "[c]"] by auto
qed

lemma double_oper_char:
  assumes b: "between l after_word k ts t" and c: "c = CHR 0x7C \<or> c = CHR 0x26"
  shows "\<exists>t'. between l False k (ts @ [([c, c], l + k)]) t' \<and> token_char l c c t = (t', True)"
proof -
  have "token_char l c c t
      = ((make_token [c, c] l (flush l t))\<lparr>in_first_line := False, after_operator := True\<rparr>, True)"
    using c betweenD [OF b] by (elim disjE; simp add: token_char_def)
  then show ?thesis using between_token [OF b, of "[c, c]"] by simp
qed

lemma loop_oper:
  assumes "lexeme_ok (Lex_oper oper)" "oper = ''|'' \<longrightarrow> \<not> starts_with_bar cs" "between l after_word k ts t"
  shows "\<exists>t'. token_loop l (oper @ cs) t = token_loop l cs t' \<and> between l False k (ts @ [(oper, l + k)]) t'"
proof (cases "oper = ''&&'' \<or> oper = ''||''")
  case True
  then obtain c where c: "oper = [c, c]" "c = CHR 0x7C \<or> c = CHR 0x26" by blast
  then show ?thesis using double_oper_char [OF assms(3) c(2)] token_loop_two by blast
next
  case False
  then obtain c where c: "oper = [c]" "c = CHR 0x3B \<or> c = CHR 0x3C \<or> c = CHR 0x3E \<or> c = CHR 0x7C"
    using assms(1) by auto
  let ?c2 = "case cs of [] \<Rightarrow> SPACE | c2 # _ \<Rightarrow> c2"
  have "c = CHR 0x3B \<or> c = CHR 0x3C \<or> c = CHR 0x3E \<or> c = CHR 0x7C \<and> ?c2 \<noteq> CHR 0x7C"
    using c assms(2) by (auto simp: starts_with_bar_def split: list.splits)
  from oper_char [OF assms(3) this] show ?thesis using c(1) token_loop_one by blast
qed

lemma loop_group_text:
  assumes "CHR 0x29 \<notin> set s" "in_subshell t" "\<not> in_comment t"
  shows "token_loop l (s @ cs) t =
    token_loop l cs (t\<lparr>buffer := buffer t @ s, line_offset_in_subshell := line_offset_in_subshell t + newlines s\<rparr>)"
  using assms
proof (induction s arbitrary: t)
  case Nil
  then show ?case by (simp add: newlines_def)
next
  case (Cons c s)
  let ?t = "t\<lparr>buffer := buffer t @ [c], line_offset_in_subshell := line_offset_in_subshell t + newlines [c]\<rparr>"
  have "token_char l c c2 t = (?t, False)" for c2
    using Cons.prems by (auto simp: token_char_def append_char_def newlines_def)
  then have "token_loop l ((c # s) @ cs) t = token_loop l (s @ cs) ?t"
    by (simp add: token_loop_step del: token_loop.simps)
  then show ?case using Cons by (simp add: newlines_def algebra_simps)
qed

lemma loop_group:
  assumes "lexeme_ok (Lex_group s)" "between l after_word k ts t"
  shows "\<exists>t'. token_loop l (spell (Lex_group s) @ cs) t = token_loop l cs t'
    \<and> between l False (k + newlines s)
        (ts @ [(''('', l + k), (s, l + k), ('')'', l + (k + newlines s))]) t'"
proof -
  have s: "s \<noteq> []" "CHR 0x29 \<notin> set s" using assms(1) by simp_all
  let ?t1 = "(make_token ''('' l (flush l t))\<lparr>in_subshell := True\<rparr>"
  have 1: "token_char l (CHR 0x28) c2 t = (?t1, False)" for c2
    using assms(2) by (auto simp: token_char_def between_def)
  have b1: "buffer ?t1 = []" "in_subshell ?t1" "\<not> in_comment ?t1" "line_offset_in_subshell ?t1 = 0" "line_offset ?t1 = k"
    "token_array ?t1 = ts @ [(''('', l + k)]" "\<not> in_simple_comman ?t1"
    using assms(2) by (auto simp: between_def token_defs)
  let ?t2 = "?t1\<lparr>buffer := s, line_offset_in_subshell := newlines s\<rparr>"
  have 2: "token_loop l (s @ '')'' @ cs) ?t1 = token_loop l ('')'' @ cs) ?t2"
    using loop_group_text [OF s(2) b1(2,3), of l "'')'' @ cs"] b1 by simp
  let ?t3 = "token_close l ?t2"
  have 3: "token_char l (CHR 0x29) c2 ?t2 = (?t3, False)" for c2
    using b1 by (auto simp: token_char_def)
  have "between l False (k + newlines s) (ts @ [(''('', l + k), (s, l + k), ('')'', l + (k + newlines s))]) ?t3"
    using s(1) assms(2) by (auto simp: between_def token_defs algebra_simps)
  moreover have "token_loop l (spell (Lex_group s) @ cs) t = token_loop l cs ?t3"
    using token_loop_one [OF 1, of "s @ '')'' @ cs"] 2 token_loop_one [OF 3, of cs] by simp
  ultimately show ?thesis by blast
qed

lemma loop_lexemes:
  assumes "lexemes_ok after_word xs" "between l after_word k ts t"
  shows "token_array (flush l (token_loop l (text_of xs) t)) = ts @ lexeme_tokens (l + k) xs"
  using assms
proof (induction xs arbitrary: after_word k ts t)
  case Nil
  then show ?case by (simp add: text_of_def between_def)
next
  case (Cons e xs)
  obtain gap x where e: "e = (gap, x)" by (cases e)
  note ok = Cons.prems(1) [unfolded e lexemes_ok.simps]
  have sp: "text_of (e # xs) = gap @ spell x @ text_of xs" by (simp add: text_of_def e)
  have gap: "token_loop l (text_of (e # xs)) t = token_loop l (spell x @ text_of xs) t"
  proof (cases after_word)
    case True
    then show ?thesis using ok sp by simp
  next
    case False
    then show ?thesis using ok Cons.prems(2) loop_gap [of gap l k ts t] sp by simp
  qed
  have x: "lexeme_ok x" and xs: "lexemes_ok (is_word x) xs" using ok by blast+
  show ?case
  proof (cases x)
    case (Lex_word w)
    then have "\<not> after_word" using ok by auto
    then show ?thesis
      using loop_word [of w l k ts t "text_of xs"] x xs Cons.prems(2) Cons.IH gap e Lex_word by fastforce
  next
    case (Lex_oper oper)
    then have "oper = ''|'' \<longrightarrow> \<not> starts_with_bar (text_of xs)" using ok by auto
    from loop_oper [OF x [unfolded Lex_oper] this Cons.prems(2)] obtain t'
      where "token_loop l (oper @ text_of xs) t = token_loop l (text_of xs) t'"
        "between l False k (ts @ [(oper, l + k)]) t'" by blast
    then show ?thesis using Cons.IH [of False k "ts @ [(oper, l + k)]" t'] xs gap e Lex_oper by simp
  next
    case (Lex_group s)
    from loop_group [OF x [unfolded Lex_group] Cons.prems(2)] obtain t'
      where "token_loop l (spell x @ text_of xs) t = token_loop l (text_of xs) t'"
        and t': "between l False (k + newlines s) (ts @ [(''('', l + k), (s, l + k), ('')'', l + (k + newlines s))]) t'"
      unfolding Lex_group by blast
    then show ?thesis using Cons.IH [OF _ t'] xs gap e Lex_group by (simp add: algebra_simps)
  qed
qed

text \<open>The tokenizer gives back the words, operators and parenthesised texts a command is
  written with, in order, with the line each of them starts on, whatever blanks are between them.\<close>

lemma tokenize_text:
  assumes "lexemes_ok False xs"
  shows "tokenize (text_of xs) line_num = lexeme_tokens line_num xs"
  unfolding tokenize_def
  by (subst loop_lexemes [OF assms, where k = 0 and ts = "[]"]) (simp_all add: between_def flush_def)

section \<open>Validation\<close>

definition operand_lexemes :: "operand \<Rightarrow> lexeme list" where
  "operand_lexemes x =
     (case head x of Word w \<Rightarrow> Lex_word w | Group s c \<Rightarrow> Lex_group s)
     # concat (map (\<lambda>(inp, f). [Lex_oper (if inp then ''<'' else ''>''), Lex_word f]) (redirs x))"

definition program_lexemes :: "program \<Rightarrow> lexeme list" where
  "program_lexemes prog = operand_lexemes (fst prog)
     @ concat (map (\<lambda>(oper, n, x). Lex_oper oper # operand_lexemes x) (snd prog))"

text \<open>The whole program is on line \<open>n\<close>.\<close>

definition operand_on_line :: "int \<Rightarrow> operand \<Rightarrow> bool" where
  "operand_on_line n x \<longleftrightarrow> at_line x = n \<and> (case head x of Word w \<Rightarrow> True | Group s c \<Rightarrow> NEWLINE \<notin> set s)"

definition on_line :: "int \<Rightarrow> program \<Rightarrow> bool" where
  "on_line n prog \<longleftrightarrow> operand_on_line n (fst prog) \<and> (\<forall>(oper, m, x) \<in> set (snd prog). m = n \<and> operand_on_line n x)"

definition operand_valid :: "(token list \<Rightarrow> int option) \<Rightarrow> operand \<Rightarrow> bool" where
  "operand_valid sub x \<longleftrightarrow>
     (case head x of Word w \<Rightarrow> is_valid_word w | Group s c \<Rightarrow> sub (tokenize s (at_line x)) = None)
     \<and> (\<forall>r \<in> set (redirs x). is_valid_word (snd r))"

definition program_valid :: "(token list \<Rightarrow> int option) \<Rightarrow> program \<Rightarrow> bool" where
  "program_valid sub prog \<longleftrightarrow> operand_valid sub (fst prog) \<and> (\<forall>(oper, n, x) \<in> set (snd prog). operand_valid sub x)"

definition operand_spelled :: "operand \<Rightarrow> bool" where
  "operand_spelled x \<longleftrightarrow> list_all lexeme_ok (operand_lexemes x)"

text \<open>The tokens of a text of one line do not depend on the gaps.\<close>

lemma lexeme_tokens_append:
  assumes "\<forall>s. Lex_group s \<in> set (map snd xs) \<longrightarrow> NEWLINE \<notin> set s"
  shows "lexeme_tokens n (xs @ ys) = lexeme_tokens n xs @ lexeme_tokens n ys"
  using assms
proof (induction xs)
  case (Cons e xs)
  obtain g x where e: "e = (g, x)" by (cases e)
  have "newlines s = 0" if "x = Lex_group s" for s
    using Cons.prems e that by (simp add: newlines_def count_list_0_iff)
  then show ?case using Cons e by (cases x) simp_all
qed simp

lemma lexeme_tokens_gaps: "map snd xs = map snd ys \<Longrightarrow> lexeme_tokens n xs = lexeme_tokens n ys"
proof (induction xs arbitrary: ys n)
  case (Cons e xs)
  then obtain g g' x ys' where "e = (g, x)" "ys = (g', x) # ys'" "map snd xs = map snd ys'"
    by (cases e; cases ys) auto
  then show ?case using Cons.IH by (cases x) simp_all
qed simp

abbreviation no_gaps :: "lexeme list \<Rightarrow> (string \<times> lexeme) list" where
  "no_gaps \<equiv> map (Pair [])"

lemma tokens_of_operand:
  assumes "operand_on_line n x"
  shows "lexeme_tokens n (no_gaps (operand_lexemes x)) = operand_tokens x"
proof -
  have n: "at_line x = n" using assms by (simp add: operand_on_line_def)
  have r: "lexeme_tokens n (no_gaps (concat (map (\<lambda>(inp, f). [Lex_oper (if inp then ''<'' else ''>''), Lex_word f]) rs)))
      = concat (map (redir_tokens n) rs)" for rs
    by (induction rs) (auto simp: redir_tokens_def)
  show ?thesis
  proof (cases "head x")
    case (Word w)
    then show ?thesis by (simp add: operand_lexemes_def operand_tokens_def n r)
  next
    case (Group s c)
    then have "newlines s = 0" using assms by (simp add: operand_on_line_def newlines_def count_list_0_iff)
    then show ?thesis using Group by (simp add: operand_lexemes_def operand_tokens_def n r)
  qed
qed

lemma operand_groups: "operand_on_line n x \<Longrightarrow> Lex_group s \<in> set (operand_lexemes x) \<Longrightarrow> NEWLINE \<notin> set s"
  by (auto simp: operand_lexemes_def operand_on_line_def split: operand_head.splits)

lemma tokens_of_program:
  assumes "on_line n prog" "map snd xs = program_lexemes prog"
  shows "lexeme_tokens n xs = program_tokens prog"
proof -
  have o: "lexeme_tokens n (no_gaps (operand_lexemes x) @ ys) = operand_tokens x @ lexeme_tokens n ys"
    if "operand_on_line n x" for x ys
    using tokens_of_operand [OF that] operand_groups [OF that]
    by (subst lexeme_tokens_append) (auto simp: comp_def)
  have rest: "lexeme_tokens n (no_gaps (concat (map (\<lambda>(oper, n, x). Lex_oper oper # operand_lexemes x) es))) = rest_tokens es"
    if "\<forall>(oper, m, x) \<in> set es. m = n \<and> operand_on_line n x" for es
    using that by (induction es) (auto simp: rest_tokens_def o)
  have "lexeme_tokens n xs = lexeme_tokens n (no_gaps (program_lexemes prog))"
    using assms(2) by (intro lexeme_tokens_gaps) (simp add: comp_def)
  then show ?thesis
    using assms(1) o rest by (simp add: program_lexemes_def program_tokens_def on_line_def)
qed

lemma word_not_special:
  assumes "lexeme_ok (Lex_word w)"
  shows "\<not> starts_with c w \<or> \<not> special_char c" "w \<notin> {''&&'', ''||'', ''|'', '';'', ''<'', ''>'', ''('', '')''}"
    "\<not> list_ex (\<lambda>c. c = CHR 0x3E \<or> c = CHR 0x3C) w"
proof -
  obtain d ds where w: "w = d # ds" "\<not> special_char d" "\<not> list_ex special_char w" using assms by auto
  show "\<not> starts_with c w \<or> \<not> special_char c" using w by (auto simp: starts_with_def)
  show "w \<notin> {''&&'', ''||'', ''|'', '';'', ''<'', ''>'', ''('', '')''}" using w(1,2) by (auto simp: special_char_def)
  show "\<not> list_ex (\<lambda>c. c = CHR 0x3E \<or> c = CHR 0x3C) w"
    using w(3) by (auto simp: list_ex_iff special_char_def)
qed

text \<open>Tokens that do not make the next \<open>;\<close> an error.\<close>

definition quiet :: "token \<Rightarrow> bool" where
  "quiet p \<longleftrightarrow> \<not> list_ex (\<lambda>c. c = CHR 0x3E \<or> c = CHR 0x3C) (fst p)"

lemma special_parens [simp]:
  "special_char (CHR 0x28)" "special_char (CHR 0x29)" "special_char (CHR 0x3E)" "special_char (CHR 0x3C)"
  by (simp_all add: special_char_def)

lemma validate_word:
  assumes "lexeme_ok (Lex_word w)" "is_valid_word w"
  shows "validate_loop sub len prev False ((w, n) # ts) = validate_loop sub len (Some (w, n)) False ts"
proof -
  note w = word_not_special [OF assms(1)]
  have "\<not> starts_with (CHR 0x28) w" "\<not> starts_with (CHR 0x29) w"
    using w(1) [of "CHR 0x28"] w(1) [of "CHR 0x29"] by simp_all
  moreover have "check_token prev (w, n) ts = None" using w(2) by (simp add: check_token_def)
  ultimately show ?thesis using assms(2) by simp
qed

lemma starts_with_simps [simp]: "starts_with c (d # ds) \<longleftrightarrow> d = c" "\<not> starts_with c []"
  by (auto simp: starts_with_def)

lemma validate_redirs:
  assumes "\<forall>(inp, f) \<in> set rs. lexeme_ok (Lex_word f) \<and> is_valid_word f" "quiet p"
  shows "\<exists>pr. quiet pr \<and> validate_loop sub len (Some p) False (concat (map (redir_tokens n) rs) @ ts)
    = validate_loop sub len (Some pr) False ts"
  using assms
proof (induction rs arbitrary: p)
  case (Cons r rs)
  obtain inp f where r: "r = (inp, f)" by (cases r)
  have f: "lexeme_ok (Lex_word f)" "is_valid_word f" using Cons.prems(1) r by auto
  have q: "quiet (f, n)" using word_not_special(3) [OF f(1)] by (simp add: quiet_def)
  let ?ts = "concat (map (redir_tokens n) rs) @ ts"
  have "validate_loop sub len (Some p) False ((if inp then ''<'' else ''>'', n) # (f, n) # ?ts)
      = validate_loop sub len (Some (if inp then ''<'' else ''>'', n)) False ((f, n) # ?ts)"
    using word_not_special(2) [OF f(1)]
    by (auto simp: is_valid_operator_def check_token_def check_redirection_def simp del: is_valid_word.simps)
  also have "\<dots> = validate_loop sub len (Some (f, n)) False ?ts" by (rule validate_word [OF f])
  finally have eq: "validate_loop sub len (Some p) False (concat (map (redir_tokens n) (r # rs)) @ ts)
      = validate_loop sub len (Some (f, n)) False ?ts"
    by (simp add: r redir_tokens_def del: validate_loop.simps)
  show ?case unfolding eq by (rule Cons.IH [OF _ q]) (use Cons.prems(1) in simp)
qed auto

lemma validate_operand:
  assumes "operand_valid sub x" "operand_spelled x"
  shows "\<exists>pr. quiet pr \<and> validate_loop sub len prev False (operand_tokens x @ ts) = validate_loop sub len (Some pr) False ts"
proof -
  have r: "\<forall>(inp, f) \<in> set (redirs x). lexeme_ok (Lex_word f) \<and> is_valid_word f"
    using assms by (fastforce simp: operand_valid_def operand_spelled_def operand_lexemes_def list_all_iff)
  show ?thesis
  proof (cases "head x")
    case (Word w)
    then have w: "lexeme_ok (Lex_word w)" "is_valid_word w"
      using assms by (simp_all add: operand_valid_def operand_spelled_def operand_lexemes_def)
    have "quiet (w, at_line x)" using word_not_special(3) [OF w(1)] by (simp add: quiet_def)
    from validate_redirs [OF r this] show ?thesis
      using validate_word [OF w] Word by (simp add: operand_tokens_def)
  next
    case (Group s c)
    then have s: "s \<noteq> []" "CHR 0x29 \<notin> set s" "sub (tokenize s (at_line x)) = None"
      using assms by (simp_all add: operand_valid_def operand_spelled_def operand_lexemes_def)
    have "\<not> starts_with (CHR 0x29) s" using s(1,2) by (cases s) auto
    then have "validate_loop sub len prev False ((''('', at_line x) # (s, at_line x) # ('')'', at_line x) # ts')
        = validate_loop sub len (Some ('')'', at_line x)) False ts'" for ts'
      using s(3) by (simp add: is_valid_operator_def)
    moreover have "quiet ('')'', at_line x)" by (simp add: quiet_def)
    ultimately show ?thesis using validate_redirs [OF r] Group by (simp add: operand_tokens_def)
  qed
qed

lemma validate_oper:
  assumes "oper \<in> binary_operators" "quiet p" "operand_spelled x"
  shows "validate_loop sub len (Some p) False ((oper, n) # operand_tokens x @ ts)
    = validate_loop sub len (Some (oper, n)) False (operand_tokens x @ ts)"
proof -
  obtain w m ts' where x: "operand_tokens x @ ts = (w, m) # ts'" and w: "w = ''('' \<or> lexeme_ok (Lex_word w)"
    using assms(3) by (cases "head x") (auto simp: operand_tokens_def operand_spelled_def operand_lexemes_def)
  have "w \<notin> {''&&'', ''||'', ''|'', '';''}" "\<not> starts_with (CHR 0x3E) w" "\<not> starts_with (CHR 0x3C) w"
    using w word_not_special(1) [of w "CHR 0x3E"] word_not_special(1) [of w "CHR 0x3C"] word_not_special(2) [of w]
    by (auto simp del: lexeme_ok.simps)
  then have "check_token (Some p) (oper, n) ((w, m) # ts') = None"
    using assms(1,2)
    by (auto simp: binary_operators_def check_token_def check_semicolon_def check_operator_def quiet_def)
  moreover have "is_valid_operator oper" "\<not> starts_with (CHR 0x28) oper" "\<not> starts_with (CHR 0x29) oper"
    using assms(1) by (auto simp: binary_operators_def is_valid_operator_def)
  ultimately show ?thesis unfolding x by simp
qed

lemma validate_program:
  assumes "program_valid (validate fuel) prog" "operand_spelled (fst prog)"
    "\<forall>(oper, n, x) \<in> set (snd prog). oper \<in> binary_operators \<and> operand_spelled x"
  shows "validate (Suc fuel) (program_tokens prog) = None"
proof -
  let ?sub = "validate fuel"
  have rest: "validate_loop ?sub len (Some p) False (rest_tokens es) = None"
    if "quiet p" "\<forall>(oper, n, x) \<in> set es. operand_valid ?sub x"
      "\<forall>(oper, n, x) \<in> set es. oper \<in> binary_operators \<and> operand_spelled x" for p len es
    using that
  proof (induction es arbitrary: p)
    case Nil
    then show ?case by (simp add: rest_tokens_def)
  next
    case (Cons e es)
    obtain oper n x where e: "e = (oper, n, x)" by (cases e)
    have o: "oper \<in> binary_operators" "operand_spelled x" "operand_valid ?sub x" using Cons.prems(2,3) e by auto
    obtain pr where pr: "quiet pr" "validate_loop ?sub len (Some (oper, n)) False (operand_tokens x @ rest_tokens es)
        = validate_loop ?sub len (Some pr) False (rest_tokens es)"
      using validate_operand [OF o(3,2), of len "Some (oper, n)" "rest_tokens es"] by blast
    have "validate_loop ?sub len (Some p) False (rest_tokens (e # es)) = validate_loop ?sub len (Some pr) False (rest_tokens es)"
      using validate_oper [OF o(1) Cons.prems(1) o(2), of ?sub len n "rest_tokens es"] pr(2)
      by (simp add: rest_tokens_def e)
    then show ?case using Cons.IH [OF pr(1)] Cons.prems(2,3) by simp
  qed
  obtain pr where "quiet pr" "validate_loop ?sub (int (length (program_tokens prog))) None False
      (operand_tokens (fst prog) @ rest_tokens (snd prog))
      = validate_loop ?sub (int (length (program_tokens prog))) (Some pr) False (rest_tokens (snd prog))"
    using validate_operand assms(1,2) unfolding program_valid_def by blast
  then show ?thesis using rest assms(1,3) by (simp add: program_tokens_def program_valid_def)
qed

section \<open>The whole reader\<close>

text \<open>\<open>cmd\<close>, a text on line \<open>n\<close>, is a way to write \<open>prog\<close>.\<close>

definition writes_program :: "nat \<Rightarrow> string \<times> int \<Rightarrow> program \<Rightarrow> bool" where
  "writes_program fuel e prog \<longleftrightarrow>
     (case e of (cmd, n) \<Rightarrow> (\<exists>xs. cmd = text_of xs \<and> map snd xs = program_lexemes prog \<and> lexemes_ok False xs)
        \<and> on_line n prog \<and> program_ok (make_command fuel) prog \<and> program_valid (validate fuel) prog)"

definition command_of :: "program \<Rightarrow> command \<Rightarrow> bool" where
  "command_of prog c \<longleftrightarrow> precedence_ok c
     \<and> flatten c = Inl (operand_command (at_line (fst prog)) (fst prog)) # rest_flatten (at_line (fst prog)) (snd prog)"

lemma lexemes_ok_all: "lexemes_ok b xs \<Longrightarrow> list_all lexeme_ok (map snd xs)"
  by (induction b xs rule: lexemes_ok.induct) simp_all

lemma writes_program_spelled:
  assumes "writes_program fuel e prog"
  shows "operand_spelled (fst prog)" "\<forall>(oper, n, x) \<in> set (snd prog). oper \<in> binary_operators \<and> operand_spelled x"
proof -
  obtain cmd n xs where "map snd xs = program_lexemes prog" "lexemes_ok False xs" and ok: "program_ok (make_command fuel) prog"
    using assms by (cases e) (auto simp: writes_program_def)
  then have l: "list_all lexeme_ok (program_lexemes prog)" using lexemes_ok_all by metis
  then show "operand_spelled (fst prog)" by (simp add: program_lexemes_def operand_spelled_def)
  show "\<forall>(oper, n, x) \<in> set (snd prog). oper \<in> binary_operators \<and> operand_spelled x"
    using l ok by (fastforce simp: program_lexemes_def operand_spelled_def program_ok_def list_all_iff)
qed

lemma command_of_set_line:
  assumes "command_of prog c"
  shows "command_of prog (set_line (at_line (fst prog)) c)"
proof (cases c)
  case (Compound l' s i out t a b)
  then show ?thesis using assms by (simp add: command_of_def)
qed (use assms set_line_operand [of "at_line (fst prog)" "fst prog"]
      operand_levels [of "at_line (fst prog)" "fst prog"] in \<open>auto simp: command_of_def\<close>)

lemma make_command_text:
  assumes "writes_program fuel (cmd, n) prog"
  shows "\<exists>c. make_command (Suc fuel) (tokenize cmd n) = Some c \<and> command_of prog c"
    "validate (Suc fuel) (tokenize cmd n) = None" "at_line (fst prog) = n"
proof -
  obtain xs where xs: "cmd = text_of xs" "map snd xs = program_lexemes prog" "lexemes_ok False xs"
    and p: "on_line n prog" "program_ok (make_command fuel) prog" "program_valid (validate fuel) prog"
    using assms by (auto simp: writes_program_def)
  have t: "tokenize cmd n = program_tokens prog"
    using tokenize_text [OF xs(3)] tokens_of_program [OF p(1) xs(2)] xs(1) by simp
  show "\<exists>c. make_command (Suc fuel) (tokenize cmd n) = Some c \<and> command_of prog c"
    unfolding t command_of_def by (rule make_command_parses [OF p(2)])
  show "validate (Suc fuel) (tokenize cmd n) = None"
    unfolding t by (rule validate_program [OF p(3) writes_program_spelled [OF assms]])
  show "at_line (fst prog) = n" using p(1) by (simp add: on_line_def operand_on_line_def)
qed

text \<open>C17: Every list of texts that write programs (words, redirections and subshells joined by \<open>;\<close>, \<open>&&\<close>,
  \<open>||\<close> and \<open>|\<close>, with whatever blanks between them) passes the validation and is read as
  a list of commands. Each has from left to right the operands and operators of its program,
  respects the precedence of the operators, and groups those of the same precedence to the left.\<close>

theorem make_commands_reads:
  assumes "list_all2 (writes_program fuel) m_sp progs"
  shows "\<exists>cs. make_commands (Suc fuel) m_sp = Some cs \<and> list_all2 command_of progs cs"
proof -
  have "validate_all (Suc fuel) m_sp = None"
    using assms
  proof (induction rule: list_all2_induct)
    case (Cons e es prog progs)
    then show ?case using make_command_text(2) by (cases e) (simp del: validate.simps)
  qed simp
  moreover have "\<exists>cs. parse_commands (Suc fuel) m_sp = Some cs \<and> list_all2 command_of progs cs"
    using assms
  proof (induction rule: list_all2_induct)
    case (Cons e es prog progs)
    obtain cmd n where e: "e = (cmd, n)" by (cases e)
    obtain c where c: "make_command (Suc fuel) (tokenize cmd n) = Some c" "command_of prog (set_line n c)"
      using make_command_text(1,3) Cons.hyps(1) command_of_set_line unfolding e by blast
    then show ?case using Cons.IH e by (auto simp del: make_command.simps)
  qed simp
  ultimately show ?thesis by (simp add: make_commands_def)
qed

text \<open>\<open>a b | c > f && (d)\<close>\<close>

definition sample_program :: program where
  "sample_program = (\<lparr>head = Word ''a b '', redirs = [], at_line = 1\<rparr>,
     [(''|'', 1, \<lparr>head = Word ''c '', redirs = [(False, ''f '')], at_line = 1\<rparr>),
      (''&&'', 1, \<lparr>head = Group ''d'' (Simple 1 (-1) None None [''d'']), redirs = [], at_line = 1\<rparr>)])"

lemma sample_program_written: "writes_program 1 (''a b | c > f && (d)'', 1) sample_program"
proof -
  let ?xs = "[([], Lex_word ''a b ''), ([], Lex_oper ''|''), ('' '', Lex_word ''c ''), ([], Lex_oper ''>''),
    ('' '', Lex_word ''f ''), ([], Lex_oper ''&&''), ('' '', Lex_group ''d'')]"
  have d: "tokenize ''d'' 1 = [(''d'', 1)]"
    by (simp add: tokenize_def token_char_def flush_def make_token_def append_char_def)
  have m: "make_command 1 [(''d'', 1)] = Some (Simple 1 (-1) None None [''d''])"
    by (simp add: create_stack_def eat_tail_white_space_def is_blank_def is_operator_token_def
        make_simple_command_def push_def)
  have v: "is_valid_word ''d''" "is_valid_word ''a b ''" "is_valid_word ''c ''" "is_valid_word ''f ''"
    by (simp_all add: is_word_char_def is_alnum_def Let_def)
  have "validate 1 [(''d'', 1)] = None" using v(1) by (simp add: check_token_def)
  then have 1: "program_valid (validate 1) sample_program"
    using d v by (simp add: program_valid_def operand_valid_def sample_program_def)
  have 2: "program_ok (make_command 1) sample_program"
    using d m by (simp add: program_ok_def sample_program_def operand_ok_def binary_operators_def plain_token_def
        is_operator_token_def eat_tail_white_space_def is_blank_def)
  have 3: "text_of ?xs = ''a b | c > f && (d)''" by (simp add: text_of_def)
  have 4: "map snd ?xs = program_lexemes sample_program"
    by (simp add: program_lexemes_def operand_lexemes_def sample_program_def)
  have 5: "lexemes_ok False ?xs"
    by (simp add: is_blank_def special_char_def text_of_def starts_with_bar_def)
  have 6: "on_line 1 sample_program" by (simp add: on_line_def operand_on_line_def sample_program_def)
  show ?thesis
    unfolding writes_program_def prod.case
    by (intro conjI exI [of _ ?xs]) (rule 3 [symmetric] 4 5 6 2 1)+
qed

theorem make_commands_reads_witness:
  "\<exists>cs. make_commands (Suc 1) [(''a b | c > f && (d)'', 1)] = Some cs \<and> list_all2 command_of [sample_program] cs"
  by (rule make_commands_reads) (use sample_program_written in simp)

section \<open>Deviations\<close>

lemmas reader_defs = make_commands_def tokenize_def token_char_def token_defs create_stack_def eat_tail_white_space_def
  is_blank_def is_operator_token_def make_simple_command_def make_subshell_command_def push_def is_empty_def
  is_valid_operator_def is_word_char_def is_alnum_def Let_def check_token_def check_redirection_def check_operator_def

text \<open>\<open>a (b)\<close> passes the validation, and \<open>a\<close> is dropped.\<close>

lemma command_before_subshell_lost:
  "make_commands 2 [(''a (b)'', 1)] = make_commands 2 [(''(b)'', 1)]"
  "make_commands 2 [(''(b)'', 1)] \<noteq> None"
  by (simp_all add: reader_defs numeral_2_eq_2)

text \<open>\<open>a > && b\<close> passes the validation, and the operator is taken for the name of the file; \<open>a\<close> is dropped.\<close>

lemma operator_as_file_name:
  "make_commands 1 [(''a > && b'', 1)] = Some [Simple 1 (-1) None None [''b'']]"
  by (simp_all add: reader_defs)

text \<open>Only every other character of a word is checked.\<close>

lemma odd_characters_unchecked: "is_valid_word ''a$b''" "\<not> is_valid_word ''$ab''"
  by (simp_all add: is_word_char_def is_alnum_def Let_def)

end
