(* ===== verification/ShellSeparate.thy ===== *)
theory ShellSeparate
  imports ShellParse
begin

text \<open>
  How a script is cut into the texts of its commands (\<open>makeSeparation\<close> of
  \<open>project1/read-command.c\<close>): blank lines separate commands, comments are dropped, what is in
  parentheses stays together, and a text that ends with an operator goes on in the next one. The
  arrays of 100 texts are assumed to be long enough.
\<close>

section \<open>Cutting at blank lines\<close>

text \<open>The local variables; the initial contents of \<open>atLine\<close> are arbitrary, as in the source.\<close>

record separation =
  str :: string
  words :: "string list"
  atLine :: "nat \<Rightarrow> int"
  preCh :: char
  countLine :: int
  newLineFlag :: bool
  newWordFlag :: bool
  headFlag :: bool

definition skip_comment :: "string \<Rightarrow> string" where
  "skip_comment cs = List.tl (dropWhile (\<lambda>c. c \<noteq> NEWLINE) cs)"

lemma length_skip_comment: "length (skip_comment cs) \<le> length cs"
  using length_dropWhile_le [of "\<lambda>c. c \<noteq> NEWLINE" cs] by (simp add: skip_comment_def)

text \<open>The loop that takes everything up to the closing parenthesis, \<open>p\<close> being open.\<close>

function paren_loop :: "string \<Rightarrow> int \<Rightarrow> string \<Rightarrow> int \<Rightarrow> string \<times> string \<times> int" where
  "paren_loop [] p st l = ([], st, l)"
| "paren_loop (ch # cs) p st l =
     (if ch = CHR 0x23 then
        (if p \<noteq> 0 then paren_loop (skip_comment cs) p st (l + 1) else (skip_comment cs, st, l + 1))
      else
        (let p1 = (if ch = CHR 0x28 then p + 1 else if ch = CHR 0x29 then p - 1 else p);
             l1 = (if ch = NEWLINE then l + 1 else l)
         in if p1 \<noteq> 0 then paren_loop cs p1 (st @ [ch]) l1 else (cs, st @ [ch], l1)))"
  by pat_completeness auto
termination
  by (relation "measure (\<lambda>(cs, p, st, l). length cs)") (auto simp: le_imp_less_Suc length_skip_comment)

definition add_word :: "separation \<Rightarrow> separation" where
  "add_word s = s\<lparr>words := words s @ [str s], str := []\<rparr>"

text \<open>One character outside parentheses and comments.\<close>

definition separate_char :: "char \<Rightarrow> separation \<Rightarrow> separation" where
  "separate_char ch s =
     (if ch \<noteq> NEWLINE then
        (let s1 = s\<lparr>str := str s @ [ch], newLineFlag := False\<rparr>
         in if headFlag s1 then s1\<lparr>atLine := (atLine s1)(0 := countLine s1), headFlag := False\<rparr> else s1)
      else
        (let s1 = s\<lparr>newLineFlag := True, countLine := countLine s + 1\<rparr>
         in if preCh s1 = NEWLINE \<and> str s1 \<noteq> [] then (add_word s1)\<lparr>newWordFlag := True\<rparr>
            else if str s1 \<noteq> [] then
              (let s2 = s1\<lparr>str := str s1 @ [ch]\<rparr>;
                   s3 = (if newWordFlag s2
                         then s2\<lparr>atLine := (atLine s2)(length (words s2) := countLine s2 - 1), newWordFlag := False\<rparr>
                         else s2)
               in if headFlag s3 then s3\<lparr>atLine := (atLine s3)(0 := countLine s3), headFlag := False\<rparr> else s3)
            else s1))\<lparr>preCh := ch\<rparr>"

lemma length_paren_loop: "length (fst (paren_loop cs p st l)) \<le> length cs"
proof (induction cs p st l rule: paren_loop.induct)
  case (2 ch cs p st l)
  let ?p = "if ch = CHR 0x28 then p + 1 else if ch = CHR 0x29 then p - 1 else p"
  let ?l = "if ch = NEWLINE then l + 1 else l"
  show ?case
  proof (cases "ch = CHR 0x23")
    case True
    then show ?thesis using 2(1) length_skip_comment [of cs] by (auto intro: le_trans le_SucI)
  next
    case False
    have "length (fst (paren_loop cs ?p (st @ [ch]) ?l)) \<le> length cs" if "?p \<noteq> 0"
      using 2(2) [OF False refl refl that] .
    then show ?thesis using False by (simp add: Let_def le_SucI)
  qed
qed simp

lemma paren_loop_rest: "(rest, r) = paren_loop cs p st l \<Longrightarrow> length rest \<le> length cs"
  using length_paren_loop [of cs p st l] by (metis fst_conv)

function separate :: "string \<Rightarrow> separation \<Rightarrow> separation" where
  "separate [] s = s"
| "separate (ch # cs) s =
     (if (ch = SPACE \<or> ch = TAB) \<and> newLineFlag s then separate cs s
      else if ch = CHR 0x23 then separate (skip_comment cs) (s\<lparr>countLine := countLine s + 1\<rparr>)
      else if ch = CHR 0x28 then
        (case paren_loop (ch # cs) 0 (str s) (countLine s) of
           (rest, st, l) \<Rightarrow>
             (case rest of
                [] \<Rightarrow> add_word (s\<lparr>str := st, countLine := l,
                        atLine := (atLine s)(length (words s) := countLine s)\<rparr>)
              | ch1 # cs1 \<Rightarrow> separate cs1 (separate_char ch1 (s\<lparr>str := st, countLine := l\<rparr>))))
      else separate cs (separate_char ch s))"
  by pat_completeness auto
termination
proof (relation "measure (\<lambda>(cs, s). length cs)", goal_cases)
  case (4 x y)
  then show ?case by (auto dest!: paren_loop_rest)
qed (auto simp: le_imp_less_Suc length_skip_comment)

section \<open>Merging\<close>

definition strip_newline :: "string \<Rightarrow> string" where
  "strip_newline w = (if w \<noteq> [] \<and> last w = NEWLINE then butlast w else w)"

definition ends_with_operator :: "string \<Rightarrow> bool" where
  "ends_with_operator w \<longleftrightarrow> w \<noteq> [] \<and>
     (last w \<in> {CHR 0x7C, CHR 0x3B, CHR 0x3C, CHR 0x3E}
      \<or> last w = CHR 0x26 \<and> butlast w \<noteq> [] \<and> last (butlast w) = CHR 0x26)"

text \<open>
  A run of texts that end with an operator is joined with the text after it. At the end of the
  script only the first half of the run is copied, because both indices of the loop move.
\<close>

function merge_words :: "(string \<times> int) list \<Rightarrow> (string \<times> int) list" where
  "merge_words [] = []"
| "merge_words ((w, l) # rest) =
     (if \<not> ends_with_operator w then (w, l) # merge_words rest
      else
        (let run = takeWhile (\<lambda>e. ends_with_operator (fst e)) ((w, l) # rest)
         in case dropWhile (\<lambda>e. ends_with_operator (fst e)) rest of
              [] \<Rightarrow> [(concat (take ((length run + 1) div 2) (map fst run)), l)]
            | (w2, l2) # rest2 \<Rightarrow> (concat (map fst run) @ w2, l) # merge_words rest2))"
  by pat_completeness auto
termination
proof (relation "measure length", goal_cases)
  case (3 w l rest run x y w2 l2)
  then show ?case
    using length_dropWhile_le [of "\<lambda>e. ends_with_operator (fst e)" rest] by (auto simp: le_imp_less_Suc)
qed auto

text \<open>A byte 255 is taken for the end of the file, since the character is compared with \<open>EOF\<close>.\<close>

definition makeSeparation :: "(nat \<Rightarrow> int) \<Rightarrow> string \<Rightarrow> (string \<times> int) list" where
  "makeSeparation uninitialised input =
     (let s = separate (takeWhile (\<lambda>c. c \<noteq> CHR 0xFF) input)
            \<lparr>str = [], words = [], atLine = uninitialised, preCh = CHR 0x00, countLine = 1, newLineFlag = True,
             newWordFlag = False, headFlag = True\<rparr>;
          s1 = (if str s \<noteq> [] then add_word s else s);
          countWord = length (words s1);
          lines = (if countWord > 0 \<and> atLine s1 (countWord - 1) = 0
                   then (atLine s1)(countWord - 1 := countLine s1) else atLine s1)
      in merge_words (zip (map strip_newline (words s1)) (map lines [0..<countWord])))"

text \<open>The stream holds the commands in order, its cursor on the first; \<open>None\<close> is an exit with an error.\<close>

definition make_command_stream :: "nat \<Rightarrow> (nat \<Rightarrow> int) \<Rightarrow> string \<Rightarrow> command list option" where
  "make_command_stream fuel uninitialised input = make_commands fuel (makeSeparation uninitialised input)"

end
