(* ===== verification/ShellSeparateProps.thy ===== *)
theory ShellSeparateProps
  imports ShellSeparate
begin

text \<open>
  Correctness of the cutting of a script: blocks of lines separated by empty lines become the
  texts of the commands, each with the number of its first line.
\<close>

section \<open>Scripts\<close>

text \<open>A block is a list of lines; blocks are separated by at least one empty line.\<close>

definition line_ok :: "string \<Rightarrow> bool" where
  "line_ok w \<longleftrightarrow> (\<exists>c cs. w = c # cs \<and> \<not> is_blank c)
     \<and> list_all (\<lambda>c. c \<notin> {NEWLINE, CHR 0x23, CHR 0x28, CHR 0xFF}) w"

fun join_lines :: "string list \<Rightarrow> string" where
  "join_lines [] = []"
| "join_lines [w] = w"
| "join_lines (w # v # ws) = w @ NEWLINE # join_lines (v # ws)"

definition script_text :: "(string list \<times> nat) list \<Rightarrow> string" where
  "script_text blocks = concat (map (\<lambda>(ws, k). join_lines ws @ NEWLINE # NEWLINE # replicate k NEWLINE) blocks)"

fun script_commands :: "int \<Rightarrow> (string list \<times> nat) list \<Rightarrow> (string \<times> int) list" where
  "script_commands n [] = []"
| "script_commands n ((ws, k) # blocks) = (join_lines ws, n) # script_commands (n + int (length ws) + 1 + int k) blocks"

definition block_ok :: "string list \<Rightarrow> bool" where
  "block_ok ws \<longleftrightarrow> ws \<noteq> [] \<and> list_all line_ok ws \<and> \<not> ends_with_operator (join_lines ws)"

lemma separate_plain:
  assumes "c \<notin> {CHR 0x23, CHR 0x28}" "newLineFlag s \<longrightarrow> \<not> is_blank c"
  shows "separate (c # cs) s = separate cs (separate_char c s)"
  using assms by (auto simp: is_blank_def)

lemma separate_tail:
  assumes "list_all (\<lambda>c. c \<notin> {NEWLINE, CHR 0x23, CHR 0x28, CHR 0xFF}) w" "\<not> newLineFlag s" "\<not> headFlag s" "w \<noteq> []"
  shows "separate (w @ cs) s = separate cs (s\<lparr>str := str s @ w, preCh := last w\<rparr>)"
  using assms
proof (induction w arbitrary: s)
  case (Cons c w)
  have "separate ((c # w) @ cs) s = separate (w @ cs) (separate_char c s)"
    using Cons.prems by (simp add: separate_plain del: separate.simps)
  also have "separate_char c s = s\<lparr>str := str s @ [c], preCh := c\<rparr>"
    using Cons.prems by (simp add: separate_char_def)
  finally show ?case using Cons by (cases "w = []") (simp_all del: separate.simps)
qed simp

text \<open>The line numbers after a line that starts in state \<open>s\<close>.\<close>

definition head_lines :: "separation \<Rightarrow> nat \<Rightarrow> int" where
  "head_lines s = (if headFlag s then (atLine s)(0 := countLine s) else atLine s)"

definition next_lines :: "separation \<Rightarrow> nat \<Rightarrow> int" where
  "next_lines s = (if newWordFlag s then (head_lines s)(length (words s) := countLine s) else head_lines s)"

lemma separate_line:
  assumes "line_ok w" "newLineFlag s"
  shows "separate (w @ NEWLINE # cs) s = separate cs (s\<lparr>str := str s @ w @ [NEWLINE], newLineFlag := True, preCh := NEWLINE,
    countLine := countLine s + 1, atLine := next_lines s, headFlag := False, newWordFlag := False\<rparr>)"
proof -
  obtain c w' where w: "w = c # w'" "\<not> is_blank c" and ok: "list_all (\<lambda>c. c \<notin> {NEWLINE, CHR 0x23, CHR 0x28, CHR 0xFF}) w"
    using assms(1) by (auto simp: line_ok_def)
  let ?s1 = "s\<lparr>str := str s @ [c], newLineFlag := False, preCh := c, atLine := head_lines s, headFlag := False\<rparr>"
  have 1: "separate (w @ NEWLINE # cs) s = separate (w' @ NEWLINE # cs) ?s1"
  proof -
    have "separate_char c s = ?s1" using ok w(1) by (simp add: separate_char_def Let_def head_lines_def)
    then show ?thesis using ok w by (simp add: separate_plain del: separate.simps)
  qed
  let ?s2 = "s\<lparr>str := str s @ w, newLineFlag := False, preCh := last w, atLine := head_lines s, headFlag := False\<rparr>"
  have 2: "separate (w' @ NEWLINE # cs) ?s1 = separate (NEWLINE # cs) ?s2"
  proof (cases "w' = []")
    case True
    then show ?thesis using w(1) by simp
  next
    case False
    have "?s1\<lparr>str := str ?s1 @ w', preCh := last w'\<rparr> = ?s2" using False w(1) by (cases s) simp
    moreover have "separate (w' @ NEWLINE # cs) ?s1 = separate (NEWLINE # cs) (?s1\<lparr>str := str ?s1 @ w', preCh := last w'\<rparr>)"
      by (rule separate_tail) (use ok w(1) False in simp_all)
    ultimately show ?thesis by (simp only:)
  qed
  have "last w \<noteq> NEWLINE" using ok w(1) by (metis (no_types, lifting) insertI1 last_in_set list.distinct(1) list_all_iff)
  then have "separate_char NEWLINE ?s2 = s\<lparr>str := str s @ w @ [NEWLINE], newLineFlag := True, preCh := NEWLINE,
    countLine := countLine s + 1, atLine := next_lines s, headFlag := False, newWordFlag := False\<rparr>"
    using w(1) by (simp add: separate_char_def Let_def next_lines_def)
  then show ?thesis unfolding 1 2 by (simp add: separate_plain is_blank_def del: separate.simps)
qed

lemma next_lines_plain: "\<not> headFlag s \<Longrightarrow> \<not> newWordFlag s \<Longrightarrow> next_lines s = atLine s"
  by (simp add: next_lines_def head_lines_def)

lemma separate_lines:
  assumes "ws \<noteq> []" "list_all line_ok ws" "newLineFlag s"
  shows "separate (join_lines ws @ NEWLINE # cs) s = separate cs (s\<lparr>str := str s @ join_lines ws @ [NEWLINE],
    newLineFlag := True, preCh := NEWLINE, countLine := countLine s + int (length ws), atLine := next_lines s,
    headFlag := False, newWordFlag := False\<rparr>)"
  using assms
proof (induction ws arbitrary: s rule: join_lines.induct)
  case (2 w)
  then show ?case by (simp add: separate_line del: separate.simps)
next
  case (3 w v ws)
  let ?s = "s\<lparr>str := str s @ w @ [NEWLINE], newLineFlag := True, preCh := NEWLINE,
    countLine := countLine s + 1, atLine := next_lines s, headFlag := False, newWordFlag := False\<rparr>"
  have "separate (join_lines (w # v # ws) @ NEWLINE # cs) s = separate (join_lines (v # ws) @ NEWLINE # cs) ?s"
    using 3 by (simp add: separate_line del: separate.simps join_lines.simps(3)) (simp add: separate_line del: separate.simps)
  also have "\<dots> = separate cs (?s\<lparr>str := str ?s @ join_lines (v # ws) @ [NEWLINE],
    newLineFlag := True, preCh := NEWLINE, countLine := countLine ?s + int (length (v # ws)), atLine := next_lines ?s,
    headFlag := False, newWordFlag := False\<rparr>)"
    using 3 by (intro "3.IH") simp_all
  finally show ?case by (simp add: next_lines_plain add.assoc del: separate.simps)
qed simp

lemma separate_newlines:
  "str s = [] \<Longrightarrow> preCh s = NEWLINE \<Longrightarrow> newLineFlag s \<Longrightarrow>
     separate (replicate k NEWLINE @ cs) s = separate cs (s\<lparr>countLine := countLine s + int k\<rparr>)"
proof (induction k arbitrary: s)
  case (Suc k)
  have "separate_char NEWLINE s = s\<lparr>countLine := countLine s + 1\<rparr>"
    using Suc.prems by (simp add: separate_char_def Let_def)
  then show ?case using Suc by (simp add: separate_plain is_blank_def add.assoc del: separate.simps)
qed simp

text \<open>The state between two blocks.\<close>

definition ready :: "separation \<Rightarrow> bool" where
  "ready s \<longleftrightarrow> str s = [] \<and> newLineFlag s \<and> (headFlag s \<longleftrightarrow> words s = []) \<and> (newWordFlag s \<longleftrightarrow> words s \<noteq> [])"

lemma join_lines_Nil: "list_all line_ok ws \<Longrightarrow> ws \<noteq> [] \<Longrightarrow> join_lines ws \<noteq> []"
  by (cases ws rule: join_lines.cases) (auto simp: line_ok_def)

definition after_block :: "string list \<Rightarrow> nat \<Rightarrow> separation \<Rightarrow> separation" where
  "after_block ws k s = s\<lparr>str := [], words := words s @ [join_lines ws @ [NEWLINE]], newLineFlag := True, preCh := NEWLINE,
     countLine := countLine s + int (length ws) + 1 + int k, atLine := (atLine s)(length (words s) := countLine s),
     headFlag := False, newWordFlag := True\<rparr>"

lemma separate_block:
  assumes "ready s" "block_ok ws"
  shows "separate (join_lines ws @ NEWLINE # NEWLINE # replicate k NEWLINE @ cs) s = separate cs (after_block ws k s)"
proof -
  have ws: "ws \<noteq> []" "list_all line_ok ws" using assms(2) by (simp_all add: block_ok_def)
  have n: "next_lines s = (atLine s)(length (words s) := countLine s)"
    using assms(1) by (auto simp: ready_def next_lines_def head_lines_def)
  let ?s1 = "s\<lparr>str := str s @ join_lines ws @ [NEWLINE], newLineFlag := True, preCh := NEWLINE,
    countLine := countLine s + int (length ws), atLine := next_lines s, headFlag := False, newWordFlag := False\<rparr>"
  let ?s2 = "separate_char NEWLINE ?s1"
  have s2: "?s2 = s\<lparr>str := [], words := words s @ [join_lines ws @ [NEWLINE]], newLineFlag := True, preCh := NEWLINE,
     countLine := countLine s + int (length ws) + 1, atLine := (atLine s)(length (words s) := countLine s),
     headFlag := False, newWordFlag := True\<rparr>"
    using assms(1) join_lines_Nil [OF ws(2,1)] n by (cases s) (simp add: separate_char_def Let_def ready_def add_word_def)
  have "separate (join_lines ws @ NEWLINE # NEWLINE # replicate k NEWLINE @ cs) s
      = separate (NEWLINE # replicate k NEWLINE @ cs) ?s1"
    using assms(1) ws by (intro separate_lines) (simp_all add: ready_def)
  also have "\<dots> = separate (replicate k NEWLINE @ cs) ?s2" by (rule separate_plain) (simp_all add: is_blank_def)
  also have "\<dots> = separate cs (?s2\<lparr>countLine := countLine ?s2 + int k\<rparr>)"
    unfolding s2 by (rule separate_newlines) simp_all
  also have "?s2\<lparr>countLine := countLine ?s2 + int k\<rparr> = after_block ws k s"
    unfolding s2 by (cases s) (simp add: after_block_def)
  finally show ?thesis .
qed

lemma after_block_simps [simp]:
  "ready (after_block ws k s)" "words (after_block ws k s) = words s @ [join_lines ws @ [NEWLINE]]"
  "countLine (after_block ws k s) = countLine s + int (length ws) + 1 + int k"
  "atLine (after_block ws k s) = (atLine s)(length (words s) := countLine s)"
  by (simp_all add: after_block_def ready_def)

lemma separate_script:
  assumes "ready s" "list_all (\<lambda>(ws, k). block_ok ws) blocks"
  shows "\<exists>s'. separate (script_text blocks) s = s' \<and> str s' = []
    \<and> words s' = words s @ map (\<lambda>(ws, k). join_lines ws @ [NEWLINE]) blocks
    \<and> (\<forall>i < length (words s). atLine s' i = atLine s i)
    \<and> (\<forall>i < length blocks. atLine s' (length (words s) + i) = snd (script_commands (countLine s) blocks ! i))"
  using assms
proof (induction blocks arbitrary: s)
  case Nil
  then show ?case by (simp add: script_text_def ready_def)
next
  case (Cons e blocks)
  obtain ws k where e: "e = (ws, k)" by (cases e)
  let ?s = "after_block ws k s"
  have "separate (script_text (e # blocks)) s = separate (script_text blocks) ?s"
    using separate_block [OF Cons.prems(1), of ws k "script_text blocks"] Cons.prems(2)
    by (simp add: script_text_def e del: separate.simps)
  moreover obtain s' where s': "separate (script_text blocks) ?s = s'" "str s' = []"
    "words s' = words ?s @ map (\<lambda>(ws, k). join_lines ws @ [NEWLINE]) blocks"
    "\<forall>i < length (words ?s). atLine s' i = atLine ?s i"
    "\<forall>i < length blocks. atLine s' (length (words ?s) + i) = snd (script_commands (countLine ?s) blocks ! i)"
    using Cons.IH [of ?s] Cons.prems(2) by auto
  moreover have "atLine s' (length (words s) + i) = snd (script_commands (countLine s) (e # blocks) ! i)"
    if "i < length (e # blocks)" for i
  proof (cases i)
    case 0
    then show ?thesis using s'(4) by (simp add: e)
  next
    case (Suc j)
    then show ?thesis using s'(5) that by (simp add: e add.assoc)
  qed
  ultimately show ?case using e by (intro exI [of _ s']) (simp del: separate.simps)
qed

lemma script_commands_fst: "map fst (script_commands n blocks) = map (\<lambda>(ws, k). join_lines ws) blocks"
  by (induction n blocks rule: script_commands.induct) simp_all

lemma script_commands_length [simp]: "length (script_commands n blocks) = length blocks"
  using arg_cong [OF script_commands_fst [of n blocks], of length] by simp

lemma merge_words_plain: "list_all (\<lambda>e. \<not> ends_with_operator (fst e)) xs \<Longrightarrow> merge_words xs = xs"
proof (induction xs)
  case (Cons x xs)
  then show ?case by (cases x) simp
qed simp

lemma strip_newline_append [simp]: "strip_newline (w @ [NEWLINE]) = w"
  by (simp add: strip_newline_def)

lemma script_text_chars:
  assumes "list_all (\<lambda>(ws, k). block_ok ws) blocks"
  shows "CHR 0xFF \<notin> set (script_text blocks)"
proof -
  have "CHR 0xFF \<notin> set (join_lines ws)" if "list_all line_ok ws" for ws
    using that
    by (induction ws rule: join_lines.induct) (auto simp: line_ok_def list_all_iff)
  then show ?thesis using assms by (fastforce simp: script_text_def list_all_iff block_ok_def)
qed

text \<open>C20: A script of blocks of lines that are separated by empty lines is cut into the texts of the
  blocks, each with the number of its first line, for blocks without comments and parentheses
  that do not end with an operator.\<close>

theorem makeSeparation_blocks:
  assumes "list_all (\<lambda>(ws, k). block_ok ws) blocks"
  shows "makeSeparation uninitialised (script_text blocks) = script_commands 1 blocks"
proof -
  let ?s0 = "\<lparr>str = [], words = [], atLine = uninitialised, preCh = CHR 0x00, countLine = 1, newLineFlag = True,
    newWordFlag = False, headFlag = True\<rparr>"
  obtain s where s: "separate (script_text blocks) ?s0 = s" "str s = []"
    "words s = map (\<lambda>(ws, k). join_lines ws @ [NEWLINE]) blocks"
    "\<forall>i < length blocks. atLine s i = snd (script_commands 1 blocks ! i)"
    using separate_script [OF _ assms, of ?s0] by (simp add: ready_def del: separate.simps)
  have pos: "snd (script_commands n blocks ! i) \<ge> n" if "i < length blocks" for n i
    using that
  proof (induction n blocks arbitrary: i rule: script_commands.induct)
    case (2 n ws k blocks)
    show ?case
    proof (cases i)
      case (Suc j)
      then have "n + int (length ws) + 1 + int k \<le> snd (script_commands (n + int (length ws) + 1 + int k) blocks ! j)"
        using 2 by simp
      then show ?thesis using Suc by simp
    qed simp
  qed simp
  have tw: "takeWhile (\<lambda>c. c \<noteq> CHR 0xFF) (script_text blocks) = script_text blocks"
    unfolding takeWhile_eq_all_conv using script_text_chars [OF assms] by blast
  have "length (words s) > 0 \<longrightarrow> atLine s (length (words s) - 1) \<noteq> 0"
  proof
    assume "length (words s) > 0"
    then have l: "length (words s) - 1 < length blocks" using s(3) by simp
    show "atLine s (length (words s) - 1) \<noteq> 0" using pos [OF l, of 1] s(4) l by simp
  qed
  moreover have "map (atLine s) [0..<length (words s)] = map snd (script_commands 1 blocks)"
    using s(3,4) by (intro nth_equalityI) simp_all
  moreover have "map strip_newline (words s) = map fst (script_commands 1 blocks)"
    unfolding s(3) script_commands_fst by auto
  ultimately have "makeSeparation uninitialised (script_text blocks)
      = merge_words (zip (map fst (script_commands 1 blocks)) (map snd (script_commands 1 blocks)))"
    unfolding makeSeparation_def tw s(1) Let_def using s(2) by auto
  also have "\<dots> = merge_words (script_commands 1 blocks)" by (simp add: zip_map_fst_snd)
  also have "\<dots> = script_commands 1 blocks"
  proof (rule merge_words_plain)
    have "list_all (\<lambda>w. \<not> ends_with_operator w) (map fst (script_commands 1 blocks))"
      unfolding script_commands_fst using assms by (auto simp: list_all_iff block_ok_def)
    then show "list_all (\<lambda>e. \<not> ends_with_operator (fst e)) (script_commands 1 blocks)" by (simp add: list_all_iff)
  qed
  finally show ?thesis .
qed

text \<open>Two commands, the first on two lines, with two empty lines between them.\<close>

theorem makeSeparation_blocks_witness:
  "makeSeparation (\<lambda>i. 99) (script_text [([''a;'', ''b''], 1), ([''c''], 0)])
    = [(''a;'' @ NEWLINE # ''b'', 1), (''c'', 5)]"
  by (subst makeSeparation_blocks)
    (simp_all add: block_ok_def line_ok_def is_blank_def ends_with_operator_def)

section \<open>Deviations\<close>

lemmas separation_defs = makeSeparation_def separate_char_def skip_comment_def add_word_def strip_newline_def
  ends_with_operator_def Let_def

text \<open>A comment at the end of a line takes the line break with it: the two lines become one command.\<close>

lemma comment_joins_lines:
  "makeSeparation uninitialised (''a # c'' @ NEWLINE # ''b'' @ [NEWLINE, NEWLINE]) = [(''a b'', 1)]"
  by (simp add: separation_defs)

text \<open>When the script does not end with a line break, the line of its last command is not set.\<close>

lemma last_line_uninitialised:
  "makeSeparation uninitialised (''a'' @ NEWLINE # NEWLINE # ''b'')
    = [(''a'', 1), (''b'', if uninitialised 1 = 0 then 3 else uninitialised 1)]"
  by (simp add: separation_defs eval_nat_numeral)

end
