(* ===== verification/ShellGraph.thy ===== *)
theory ShellGraph
  imports ShellCmd
begin

text \<open>
  Time travel (\<open>project1/main.c\<close>): the files each command reads and writes, the graph of the
  dependencies between the commands of a script, and its execution, where commands run at the
  same time in processes of their own and a command waits for those it depends on. The position
  of a node in \<open>gnArr\<close> stands for the pointer to it.
\<close>

section \<open>The files of a command\<close>

record graph_node =
  node_command :: command
  before :: "nat list"
  m_readList :: "string list"
  m_writeList :: "string list"

definition init_graph_node :: "command \<Rightarrow> graph_node" where
  "init_graph_node c = \<lparr>node_command = c, before = [], m_readList = [], m_writeList = []\<rparr>"

definition add_read :: "string \<Rightarrow> graph_node \<Rightarrow> graph_node" where
  "add_read f gNode = gNode\<lparr>m_readList := m_readList gNode @ [f]\<rparr>"

definition add_write :: "string \<Rightarrow> graph_node \<Rightarrow> graph_node" where
  "add_write f gNode = gNode\<lparr>m_writeList := m_writeList gNode @ [f]\<rparr>"

definition add_redirections :: "string option \<Rightarrow> string option \<Rightarrow> graph_node \<Rightarrow> graph_node" where
  "add_redirections i out gNode =
     (let g1 = (case i of None \<Rightarrow> gNode | Some f \<Rightarrow> add_read f gNode)
      in case out of None \<Rightarrow> g1 | Some f \<Rightarrow> add_write f g1)"

definition is_option :: "string \<Rightarrow> bool" where
  "is_option w \<longleftrightarrow> (case w of [] \<Rightarrow> False | c # _ \<Rightarrow> c = CHR 0x2D)"

text \<open>Every argument that is not an option counts as a file that is read.\<close>

primrec processCommand :: "command \<Rightarrow> graph_node \<Rightarrow> graph_node" where
  "processCommand (Simple l s i out w) gNode =
     fold add_read (filter (\<lambda>x. \<not> is_option x) (drop 1 w)) (add_redirections i out gNode)"
| "processCommand (Subshell l s i out c) gNode = add_redirections i out gNode"
| "processCommand (Compound l s i out t a b) gNode = processCommand b (processCommand a gNode)"

section \<open>The graph\<close>

definition isDependent :: "graph_node \<Rightarrow> graph_node \<Rightarrow> bool" where
  "isDependent n1 n2 \<longleftrightarrow>
     list_ex (\<lambda>f. f \<in> set (m_writeList n1)) (m_readList n2)
     \<or> list_ex (\<lambda>f. f \<in> set (m_readList n1) \<or> f \<in> set (m_writeList n1)) (m_writeList n2)"

definition checkDependency :: "graph_node list \<Rightarrow> graph_node \<Rightarrow> graph_node" where
  "checkDependency gnArr gNode =
     gNode\<lparr>before := before gNode @ filter (\<lambda>i. isDependent (gnArr ! i) gNode) [0..<length gnArr]\<rparr>"

record dependency_graph =
  gnArr :: "graph_node list"
  no_dependencies :: "nat list"
  dependencies :: "nat list"

definition init_dependency_graph :: dependency_graph where
  "init_dependency_graph = \<lparr>gnArr = [], no_dependencies = [], dependencies = []\<rparr>"

definition add_command :: "command \<Rightarrow> dependency_graph \<Rightarrow> dependency_graph" where
  "add_command c graph =
     (let gNode = checkDependency (gnArr graph) (processCommand c (init_graph_node c));
          n = length (gnArr graph);
          graph1 = graph\<lparr>gnArr := gnArr graph @ [gNode]\<rparr>
      in if before gNode = [] then graph1\<lparr>no_dependencies := no_dependencies graph1 @ [n]\<rparr>
         else graph1\<lparr>dependencies := dependencies graph1 @ [n]\<rparr>)"

definition create_graph :: "command list \<Rightarrow> dependency_graph" where
  "create_graph command_stream = fold add_command command_stream init_dependency_graph"

section \<open>Execution\<close>

datatype event = Start nat | Finish nat

text \<open>
  The parent process: the process id of every node, the nodes still to start of both queues, and
  the nodes it still waits for (\<open>None\<close>: it has not looked at the first node of the second queue
  yet). The kernel: the running processes with their nodes, and those that ended but were not
  waited for.
\<close>

record run_state =
  pid :: "nat \<Rightarrow> int"
  free_queue :: "nat list"
  dep_queue :: "nat list"
  waits :: "nat list option"
  running :: "(int \<times> nat) list"
  zombies :: "int list"
  events :: "event list"

definition init_run :: "dependency_graph \<Rightarrow> run_state" where
  "init_run graph = \<lparr>pid = (\<lambda>i. -1), free_queue = no_dependencies graph, dep_queue = dependencies graph,
     waits = None, running = [], zombies = [], events = []\<rparr>"

text \<open>\<open>fork\<close>: the new process gets an id that no process has, running or not waited for.\<close>

definition fresh_pid :: "int \<Rightarrow> run_state \<Rightarrow> bool" where
  "fresh_pid p s \<longleftrightarrow> p > 0 \<and> p \<notin> fst ` set (running s) \<and> p \<notin> set (zombies s)"

definition fork_node :: "int \<Rightarrow> nat \<Rightarrow> run_state \<Rightarrow> run_state" where
  "fork_node p i s = s\<lparr>pid := (pid s)(i := p), running := (p, i) # running s, events := events s @ [Start i]\<rparr>"

text \<open>
  \<open>waitpid\<close> on an id that is no child returns at once; on \<open>-1\<close> it takes any child that ended. The
  jump back to \<open>loop\<close> goes on with the next node of the list, so looking at the ids has no effect. Here every
  \<open>fork\<close> succeeds.
\<close>

inductive run_step :: "dependency_graph \<Rightarrow> run_state \<Rightarrow> run_state \<Rightarrow> bool" for graph where
  fork_free: "free_queue s = i # q \<Longrightarrow> fresh_pid p s \<Longrightarrow>
     run_step graph s (fork_node p i (s\<lparr>free_queue := q\<rparr>))"
| look: "free_queue s = [] \<Longrightarrow> dep_queue s = i # q \<Longrightarrow> waits s = None \<Longrightarrow>
     run_step graph s (s\<lparr>waits := Some (before (gnArr graph ! i))\<rparr>)"
| wait_node: "waits s = Some (j # js) \<Longrightarrow> pid s j \<noteq> -1 \<Longrightarrow> pid s j \<notin> fst ` set (running s) \<Longrightarrow>
     run_step graph s (s\<lparr>waits := Some js, zombies := removeAll (pid s j) (zombies s)\<rparr>)"
| wait_any: "waits s = Some (j # js) \<Longrightarrow> pid s j = -1 \<Longrightarrow> p \<in> set (zombies s) \<Longrightarrow>
     run_step graph s (s\<lparr>waits := Some js, zombies := removeAll p (zombies s)\<rparr>)"
| fork_dependent: "waits s = Some [] \<Longrightarrow> dep_queue s = i # q \<Longrightarrow> fresh_pid p s \<Longrightarrow>
     run_step graph s (fork_node p i (s\<lparr>dep_queue := q, waits := None\<rparr>))"
| finish_node: "(p, i) \<in> set (running s) \<Longrightarrow>
     run_step graph s (s\<lparr>running := removeAll (p, i) (running s), zombies := p # zombies s, events := events s @ [Finish i]\<rparr>)"

inductive reachable :: "dependency_graph \<Rightarrow> run_state \<Rightarrow> bool" for graph where
  init: "reachable graph (init_run graph)"
| step: "reachable graph s \<Longrightarrow> run_step graph s s' \<Longrightarrow> reachable graph s'"

text \<open>
  All steps: a \<open>fork\<close> may also fail. Its result \<open>-1\<close> is stored as the id of the node, whose command is never run, and the
  parent goes on; when it waits for such a node and has no child, \<open>waitpid\<close> fails at once.
\<close>

inductive full_step :: "dependency_graph \<Rightarrow> run_state \<Rightarrow> run_state \<Rightarrow> bool" for graph where
  as_before: "run_step graph s s' \<Longrightarrow> full_step graph s s'"
| fork_free_fails: "free_queue s = i # q \<Longrightarrow> full_step graph s (s\<lparr>pid := (pid s)(i := -1), free_queue := q\<rparr>)"
| fork_dependent_fails: "waits s = Some [] \<Longrightarrow> dep_queue s = i # q \<Longrightarrow>
     full_step graph s (s\<lparr>pid := (pid s)(i := -1), dep_queue := q, waits := None\<rparr>)"
| wait_fails: "waits s = Some (j # js) \<Longrightarrow> pid s j = -1 \<Longrightarrow> running s = [] \<Longrightarrow> zombies s = [] \<Longrightarrow>
     full_step graph s (s\<lparr>waits := Some js\<rparr>)"

section \<open>The graph is right\<close>

lemma node_files_redirections [simp]:
  "before (add_redirections i out g) = before g" "node_command (add_redirections i out g) = node_command g"
  by (simp_all add: add_redirections_def add_read_def add_write_def split: option.splits)

lemma node_files_reads [simp]:
  "before (fold add_read fs g) = before g" "node_command (fold add_read fs g) = node_command g"
  "m_readList (fold add_read fs g) = m_readList g @ fs" "m_writeList (fold add_read fs g) = m_writeList g"
  by (induction fs arbitrary: g) (simp_all add: add_read_def)

lemma processCommand_keeps [simp]:
  "before (processCommand c g) = before g" "node_command (processCommand c g) = node_command g"
  by (induction c arbitrary: g) simp_all

lemma isDependent_checkDependency [simp]: "isDependent a (checkDependency arr b) = isDependent a b"
  by (simp add: isDependent_def checkDependency_def)

text \<open>What the construction keeps: the queues split the nodes, in order.\<close>

definition graph_ok :: "dependency_graph \<Rightarrow> bool" where
  "graph_ok g \<longleftrightarrow>
     (\<forall>i < length (gnArr g). set (before (gnArr g ! i)) = {j. j < i \<and> isDependent (gnArr g ! j) (gnArr g ! i)})
     \<and> no_dependencies g = filter (\<lambda>i. before (gnArr g ! i) = []) [0..<length (gnArr g)]
     \<and> dependencies g = filter (\<lambda>i. before (gnArr g ! i) \<noteq> []) [0..<length (gnArr g)]"

lemma add_command_nodes:
  "gnArr (add_command c g) = gnArr g @ [checkDependency (gnArr g) (processCommand c (init_graph_node c))]"
  by (simp add: add_command_def Let_def)

lemma isDependent_before [simp]: "isDependent a (b\<lparr>before := x\<rparr>) = isDependent a b"
  by (simp add: isDependent_def)

lemma graph_ok_add_command:
  assumes "graph_ok g"
  shows "graph_ok (add_command c g)"
proof -
  let ?n = "length (gnArr g)" and ?x = "checkDependency (gnArr g) (processCommand c (init_graph_node c))"
  have nodes: "gnArr (add_command c g) ! i = (if i < ?n then gnArr g ! i else ?x)" if "i < Suc ?n" for i
    using that by (simp add: add_command_nodes nth_append)
  have b: "set (before ?x) = {j. j < ?n \<and> isDependent (gnArr g ! j) ?x}"
    by (auto simp: checkDependency_def init_graph_node_def)
  have 1: "\<forall>i < Suc ?n. set (before (gnArr (add_command c g) ! i))
      = {j. j < i \<and> isDependent (gnArr (add_command c g) ! j) (gnArr (add_command c g) ! i)}"
    using assms b nodes by (auto simp: graph_ok_def less_Suc_eq)
  have f: "filter (\<lambda>i. P (gnArr (add_command c g) ! i)) [0..<Suc ?n]
      = filter (\<lambda>i. P (gnArr g ! i)) [0..<?n] @ (if P ?x then [?n] else [])" for P
    using nodes by (auto intro!: filter_cong)
  show ?thesis
    using assms 1 f [of "\<lambda>x. before x = []"] f [of "\<lambda>x. before x \<noteq> []"] unfolding graph_ok_def
    by (simp add: add_command_nodes) (simp add: add_command_def Let_def)
qed

lemma create_graph_ok: "graph_ok (create_graph cs)"
proof -
  have "graph_ok g \<Longrightarrow> graph_ok (fold add_command cs g)" for g
    by (induction cs arbitrary: g) (simp_all add: graph_ok_add_command)
  moreover have "graph_ok init_dependency_graph" by (simp add: graph_ok_def init_dependency_graph_def)
  ultimately show ?thesis by (simp add: create_graph_def)
qed

lemma create_graph_nodes:
  "length (gnArr (create_graph cs)) = length cs"
  "i < length cs \<Longrightarrow> node_command (gnArr (create_graph cs) ! i) = cs ! i"
proof -
  have "length (gnArr (fold add_command cs g)) = length (gnArr g) + length cs
    \<and> map node_command (gnArr (fold add_command cs g)) = map node_command (gnArr g) @ cs" for g
    by (induction cs arbitrary: g) (simp_all add: add_command_nodes checkDependency_def init_graph_node_def)
  from this [of init_dependency_graph]
  have *: "length (gnArr (create_graph cs)) = length cs" "map node_command (gnArr (create_graph cs)) = cs"
    by (simp_all add: create_graph_def init_dependency_graph_def)
  then show "length (gnArr (create_graph cs)) = length cs" by simp
  show "node_command (gnArr (create_graph cs) ! i) = cs ! i" if "i < length cs"
    using * that nth_map [of i "gnArr (create_graph cs)" node_command] by simp
qed

lemma create_graph_files:
  assumes "i < length cs"
  shows "m_readList (gnArr (create_graph cs) ! i) = m_readList (processCommand (cs ! i) (init_graph_node (cs ! i)))"
    "m_writeList (gnArr (create_graph cs) ! i) = m_writeList (processCommand (cs ! i) (init_graph_node (cs ! i)))"
proof -
  let ?p = "\<lambda>c. processCommand c (init_graph_node c)"
  have "map m_readList (gnArr (fold add_command cs g)) = map m_readList (gnArr g) @ map (m_readList \<circ> ?p) cs
    \<and> map m_writeList (gnArr (fold add_command cs g)) = map m_writeList (gnArr g) @ map (m_writeList \<circ> ?p) cs" for g
    by (induction cs arbitrary: g) (simp_all add: add_command_nodes checkDependency_def)
  from this [of init_dependency_graph]
  have *: "map m_readList (gnArr (create_graph cs)) = map (m_readList \<circ> ?p) cs"
    "map m_writeList (gnArr (create_graph cs)) = map (m_writeList \<circ> ?p) cs"
    by (simp_all add: create_graph_def init_dependency_graph_def)
  show "m_readList (gnArr (create_graph cs) ! i) = m_readList (?p (cs ! i))"
    using arg_cong [OF *(1), of "\<lambda>l. l ! i"] assms by (simp add: create_graph_nodes(1))
  show "m_writeList (gnArr (create_graph cs) ! i) = m_writeList (?p (cs ! i))"
    using arg_cong [OF *(2), of "\<lambda>l. l ! i"] assms by (simp add: create_graph_nodes(1))
qed

end
