(* ===== verification/ShellGraphProps.thy ===== *)
theory ShellGraphProps
  imports ShellGraph "HOL-Library.Multiset"
begin

text \<open>
  Correctness of time travel: a command starts only after every earlier command whose files it
  shares has ended, the script always comes to its end, and the effect is at every moment as if the commands
  ran one after the other.
\<close>

section \<open>Invariants of the execution\<close>

definition started :: "run_state \<Rightarrow> nat set" where
  "started s = {i. Start i \<in> set (events s)}"

definition finished :: "run_state \<Rightarrow> nat set" where
  "finished s = {i. Finish i \<in> set (events s)}"

abbreviation before_set :: "dependency_graph \<Rightarrow> nat \<Rightarrow> nat set" where
  "before_set g i \<equiv> set (before (gnArr g ! i))"

text \<open>The queues hold, each once, the nodes that are not started.\<close>

definition queues_ok :: "dependency_graph \<Rightarrow> run_state \<Rightarrow> bool" where
  "queues_ok g s \<longleftrightarrow>
     distinct (free_queue s) \<and> sorted_wrt (<) (dep_queue s) \<and> set (free_queue s) \<inter> set (dep_queue s) = {}
     \<and> set (free_queue s) \<union> set (dep_queue s) = {..<length (gnArr g)} - started s
     \<and> started s \<subseteq> {..<length (gnArr g)} \<and> (\<forall>i \<in> set (free_queue s). before_set g i = {})"

text \<open>The running processes are those of the nodes that are started and not finished.\<close>

definition processes_ok :: "run_state \<Rightarrow> bool" where
  "processes_ok s \<longleftrightarrow>
     finished s \<subseteq> started s \<and> distinct (events s) \<and> distinct (map fst (running s))
     \<and> (\<forall>p i. (p, i) \<in> set (running s) \<longleftrightarrow> pid s i = p \<and> i \<in> started s \<and> i \<notin> finished s)
     \<and> (\<forall>i \<in> started s. pid s i > 0)"

definition waits_ok :: "dependency_graph \<Rightarrow> run_state \<Rightarrow> bool" where
  "waits_ok g s \<longleftrightarrow>
     (case waits s of None \<Rightarrow> True
      | Some js \<Rightarrow> free_queue s = [] \<and> (\<exists>i q. dep_queue s = i # q \<and> set js \<subseteq> before_set g i
          \<and> before_set g i \<subseteq> set js \<union> finished s))"

text \<open>Whatever a command depends on has finished before it starts.\<close>

definition order_ok :: "dependency_graph \<Rightarrow> run_state \<Rightarrow> bool" where
  "order_ok g s \<longleftrightarrow>
     (\<forall>es i fs. events s = es @ Start i # fs \<longrightarrow> (\<forall>j \<in> before_set g i. Finish j \<in> set es))"

definition run_ok :: "dependency_graph \<Rightarrow> run_state \<Rightarrow> bool" where
  "run_ok g s \<longleftrightarrow> queues_ok g s \<and> processes_ok s \<and> waits_ok g s \<and> order_ok g s"

lemma started_simps [simp]:
  "started (s\<lparr>waits := w\<rparr>) = started s" "started (s\<lparr>zombies := z\<rparr>) = started s"
  "started (fork_node p i s) = insert i (started s)"
  "started (s\<lparr>running := r, zombies := z, events := events s @ [Finish i]\<rparr>) = started s"
  "started (s\<lparr>free_queue := q\<rparr>) = started s" "started (s\<lparr>dep_queue := q\<rparr>) = started s"
  "started (s\<lparr>pid := u\<rparr>) = started s" "started (s\<lparr>running := r\<rparr>) = started s"
  by (auto simp: started_def fork_node_def)

lemma finished_simps [simp]:
  "finished (s\<lparr>waits := w\<rparr>) = finished s" "finished (s\<lparr>zombies := z\<rparr>) = finished s"
  "finished (fork_node p i s) = finished s"
  "finished (s\<lparr>running := r, zombies := z, events := events s @ [Finish i]\<rparr>) = insert i (finished s)"
  "finished (s\<lparr>free_queue := q\<rparr>) = finished s" "finished (s\<lparr>dep_queue := q\<rparr>) = finished s"
  "finished (s\<lparr>pid := u\<rparr>) = finished s" "finished (s\<lparr>running := r\<rparr>) = finished s"
  by (auto simp: finished_def fork_node_def)

lemma fork_node_simps [simp]:
  "pid (fork_node p i s) = (pid s)(i := p)" "free_queue (fork_node p i s) = free_queue s"
  "dep_queue (fork_node p i s) = dep_queue s" "waits (fork_node p i s) = waits s"
  "running (fork_node p i s) = (p, i) # running s" "zombies (fork_node p i s) = zombies s"
  "events (fork_node p i s) = events s @ [Start i]"
  by (simp_all add: fork_node_def)

lemma init_run_simps [simp]: "started (init_run g) = {}" "finished (init_run g) = {}"
  by (simp_all add: started_def finished_def init_run_def)

lemma init_run_fields [simp]:
  "pid (init_run g) = (\<lambda>i. -1)" "free_queue (init_run g) = no_dependencies g" "dep_queue (init_run g) = dependencies g"
  "waits (init_run g) = None" "running (init_run g) = []" "zombies (init_run g) = []" "events (init_run g) = []"
  by (simp_all add: init_run_def)

lemma run_ok_init:
  assumes "graph_ok g"
  shows "run_ok g (init_run g)"
proof -
  have "sorted_wrt (<) (filter P [0..<n])" for P n
    by (rule sorted_wrt_filter) (rule sorted_wrt_upt)
  then have "queues_ok g (init_run g)"
    using assms by (auto simp: queues_ok_def graph_ok_def)
  then show ?thesis
    by (simp add: run_ok_def processes_ok_def waits_ok_def order_ok_def)
qed

lemma order_ok_append:
  assumes "order_ok g s" "\<forall>i. e = Start i \<longrightarrow> before_set g i \<subseteq> finished s"
  shows "order_ok g (s'\<lparr>events := events s @ [e]\<rparr>)"
  unfolding order_ok_def
proof (intro allI impI ballI)
  fix es i fs j assume *: "events (s'\<lparr>events := events s @ [e]\<rparr>) = es @ Start i # fs" and j: "j \<in> before_set g i"
  show "Finish j \<in> set es"
  proof (cases fs rule: rev_exhaust)
    case Nil
    then have "es = events s" "e = Start i" using * by auto
    then show ?thesis using assms(2) j by (auto simp: finished_def)
  next
    case (snoc fs' f)
    then have "events s = es @ Start i # fs'" using * by auto
    then show ?thesis using assms(1) j by (auto simp: order_ok_def)
  qed
qed

lemma processes_ok_fork:
  assumes "processes_ok s" "i \<notin> started s" "fresh_pid p s"
  shows "processes_ok (fork_node p i s)"
proof -
  have "i \<notin> finished s" "Start i \<notin> set (events s)" "\<forall>q. (q, i) \<notin> set (running s)"
    using assms(1,2) by (auto simp: processes_ok_def started_def)
  moreover have "\<forall>k. (p, k) \<notin> set (running s)" "p > 0" using assms(3) by (force simp: fresh_pid_def)+
  ultimately show ?thesis using assms(1) by (auto simp: processes_ok_def image_iff)
qed

lemma processes_ok_finish:
  assumes "processes_ok s" "(p, i) \<in> set (running s)"
  shows "processes_ok (s\<lparr>running := removeAll (p, i) (running s), zombies := p # zombies s, events := events s @ [Finish i]\<rparr>)"
proof -
  have "distinct (map fst (removeAll (p, i) (running s)))"
    using assms(1) by (simp add: processes_ok_def distinct_map_filter removeAll_filter_not_eq)
  moreover have "Finish i \<notin> set (events s)" "i \<in> started s" "pid s i = p"
    using assms by (auto simp: processes_ok_def finished_def)
  ultimately show ?thesis using assms(1) by (auto simp: processes_ok_def)
qed

lemma unaffected [simp]:
  "order_ok g (s\<lparr>waits := w\<rparr>) = order_ok g s" "order_ok g (s\<lparr>zombies := z\<rparr>) = order_ok g s"
  "processes_ok (s\<lparr>waits := w\<rparr>) = processes_ok s" "processes_ok (s\<lparr>zombies := z\<rparr>) = processes_ok s"
  "processes_ok (s\<lparr>free_queue := q\<rparr>) = processes_ok s" "processes_ok (s\<lparr>dep_queue := q\<rparr>) = processes_ok s"
  by (simp_all add: order_ok_def processes_ok_def)

lemma run_ok_waits:
  assumes "run_ok g s" "waits s = Some js"
  obtains i q where "dep_queue s = i # q" "free_queue s = []" "set js \<subseteq> before_set g i"
    "before_set g i \<subseteq> set js \<union> finished s"
  using assms unfolding run_ok_def waits_ok_def by auto

text \<open>So every node that is waited for has been started, and its process id is valid.\<close>

lemma waits_started:
  assumes "graph_ok g" "run_ok g s" "waits s = Some (j # js)"
  shows "j \<in> started s"
proof -
  obtain i q where q: "dep_queue s = i # q" "free_queue s = []" "j \<in> before_set g i"
    by (rule run_ok_waits [OF assms(2,3)]) auto
  have "i < length (gnArr g)" using assms(2) q by (auto simp: run_ok_def queues_ok_def)
  then have "j < i" "j < length (gnArr g)" using assms(1) q(3) by (auto simp: graph_ok_def)
  moreover have "j \<notin> set (dep_queue s)"
    using assms(2) q(1) \<open>j < i\<close> by (auto simp: run_ok_def queues_ok_def)
  ultimately show ?thesis using assms(2) q(2) by (auto simp: run_ok_def queues_ok_def)
qed

lemma run_ok_step:
  assumes "graph_ok g" "run_ok g s" "run_step g s s'"
  shows "run_ok g s'"
  using assms(3)
proof (cases rule: run_step.cases)
  case (fork_free i q p)
  have i: "i \<notin> started s" "before_set g i = {}" "i < length (gnArr g)"
    using assms(2) fork_free by (auto simp: run_ok_def queues_ok_def)
  have "waits s = None" using assms(2) fork_free by (auto simp: run_ok_def waits_ok_def split: option.splits)
  moreover have "order_ok g s'"
    using order_ok_append [of g s "Start i" s'] assms(2) i(2) fork_free by (simp add: run_ok_def order_ok_def)
  moreover have "processes_ok s'"
    using processes_ok_fork [of "s\<lparr>free_queue := q\<rparr>" i p] assms(2) i(1) fork_free
    by (simp add: run_ok_def fresh_pid_def)
  moreover have "queues_ok g s'" using assms(2) fork_free i by (auto simp: run_ok_def queues_ok_def)
  ultimately show ?thesis using fork_free by (simp add: run_ok_def waits_ok_def)
next
  case (look i q)
  then show ?thesis using assms(2)
    by (auto simp: run_ok_def queues_ok_def waits_ok_def)
next
  case (wait_node j js)
  obtain i q where q: "dep_queue s = i # q" "free_queue s = []" "set (j # js) \<subseteq> before_set g i"
      "before_set g i \<subseteq> set (j # js) \<union> finished s"
    using run_ok_waits [OF assms(2) wait_node(2)] .
  have "j \<in> started s" using waits_started [OF assms(1,2)] wait_node(2) by simp
  moreover have "(pid s j, j) \<notin> set (running s)" using wait_node(4) by (force simp: image_iff)
  ultimately have "j \<in> finished s" using assms(2) by (auto simp: run_ok_def processes_ok_def)
  then have "waits_ok g s'" using q wait_node(1) by (auto simp: waits_ok_def)
  then show ?thesis using assms(2) wait_node(1) by (simp add: run_ok_def queues_ok_def)
next
  case (wait_any j js p)
  have "j \<in> started s" using waits_started [OF assms(1,2)] wait_any(2) by simp
  then have False using assms(2) wait_any by (auto simp: run_ok_def processes_ok_def)
  then show ?thesis ..
next
  case (fork_dependent i q p)
  have i: "i \<notin> started s" "before_set g i \<subseteq> finished s" "free_queue s = []" "i < length (gnArr g)"
    using assms(2) fork_dependent by (auto simp: run_ok_def queues_ok_def waits_ok_def)
  have "order_ok g s'"
    using order_ok_append [of g s "Start i" s'] assms(2) i(2) fork_dependent by (simp add: run_ok_def order_ok_def)
  moreover have "processes_ok s'"
    using processes_ok_fork [of "s\<lparr>dep_queue := q, waits := None\<rparr>" i p] assms(2) i(1) fork_dependent
    by (simp add: run_ok_def fresh_pid_def)
  moreover have "queues_ok g s'" using assms(2) fork_dependent i by (auto simp: run_ok_def queues_ok_def)
  ultimately show ?thesis using fork_dependent by (simp add: run_ok_def waits_ok_def)
next
  case (finish_node p i)
  have "order_ok g s'"
    using order_ok_append [of g s "Finish i" s'] assms(2) finish_node by (simp add: run_ok_def order_ok_def)
  moreover have "processes_ok s'" using processes_ok_finish finish_node assms(2) by (simp add: run_ok_def)
  moreover have "queues_ok g s'" using assms(2) finish_node by (simp add: run_ok_def queues_ok_def)
  moreover have "waits_ok g s'"
    using assms(2) finish_node by (auto simp: run_ok_def waits_ok_def split: option.splits)
  ultimately show ?thesis by (simp add: run_ok_def)
qed

lemma reachable_ok:
  assumes "reachable g s" "graph_ok g"
  shows "run_ok g s"
  using assms by (induction rule: reachable.induct) (blast intro: run_ok_init run_ok_step)+

section \<open>Order\<close>


definition sample_script :: "command list" where
  "sample_script = [Simple 1 (-1) None (Some ''x'') [''a''], Simple 2 (-1) None None [''b'', ''x'']]"

lemma sample_graph:
  "gnArr (create_graph sample_script) =
     [\<lparr>node_command = sample_script ! 0, before = [], m_readList = [], m_writeList = [''x'']\<rparr>,
      \<lparr>node_command = sample_script ! 1, before = [0], m_readList = [''x''], m_writeList = []\<rparr>]"
  "no_dependencies (create_graph sample_script) = [0]" "dependencies (create_graph sample_script) = [1]"
  by (simp_all add: create_graph_def sample_script_def add_command_def Let_def init_dependency_graph_def
      checkDependency_def init_graph_node_def add_redirections_def add_write_def add_read_def isDependent_def is_option_def
      eval_nat_numeral)

text \<open>A whole run of the sample: the first command gets the process id 7, the second 8.\<close>

definition sample_run :: "run_state list" where
  "sample_run =
    (let s0 = init_run (create_graph sample_script);
         s1 = fork_node 7 0 (s0\<lparr>free_queue := []\<rparr>);
         s2 = s1\<lparr>waits := Some [0]\<rparr>;
         s3 = s2\<lparr>running := [], zombies := [7], events := [Start 0, Finish 0]\<rparr>;
         s4 = s3\<lparr>waits := Some [], zombies := []\<rparr>;
         s5 = fork_node 8 1 (s4\<lparr>dep_queue := [], waits := None\<rparr>);
         s6 = s5\<lparr>running := [], zombies := [8], events := [Start 0, Finish 0, Start 1, Finish 1]\<rparr>
     in [s0, s1, s2, s3, s4, s5, s6])"

lemma sample_run_reachable: "\<forall>s \<in> set sample_run. reachable (create_graph sample_script) s"
proof -
  let ?g = "create_graph sample_script"
  let ?s0 = "init_run ?g"
  let ?s1 = "fork_node 7 0 (?s0\<lparr>free_queue := []\<rparr>)"
  let ?s2 = "?s1\<lparr>waits := Some [0]\<rparr>"
  let ?s3 = "?s2\<lparr>running := [], zombies := [7], events := [Start 0, Finish 0]\<rparr>"
  let ?s4 = "?s3\<lparr>waits := Some [], zombies := []\<rparr>"
  let ?s5 = "fork_node 8 1 (?s4\<lparr>dep_queue := [], waits := None\<rparr>)"
  let ?s6 = "?s5\<lparr>running := [], zombies := [8], events := [Start 0, Finish 0, Start 1, Finish 1]\<rparr>"
  have r0: "reachable ?g ?s0" by (rule reachable.init)
  have "run_step ?g ?s0 ?s1" by (rule run_step.fork_free) (simp_all add: sample_graph fresh_pid_def)
  with r0 have r1: "reachable ?g ?s1" by (rule reachable.step)
  have "run_step ?g ?s1 ?s2"
    using run_step.look [of ?s1 1 "[]" ?g] by (simp add: sample_graph)
  with r1 have r2: "reachable ?g ?s2" by (rule reachable.step)
  have "run_step ?g ?s2 ?s3"
    using run_step.finish_node [of 7 0 ?s2 ?g] by (simp add: sample_graph)
  with r2 have r3: "reachable ?g ?s3" by (rule reachable.step)
  have "run_step ?g ?s3 ?s4"
    using run_step.wait_node [of ?s3 0 "[]" ?g] by (simp add: sample_graph)
  with r3 have r4: "reachable ?g ?s4" by (rule reachable.step)
  have "run_step ?g ?s4 ?s5"
    using run_step.fork_dependent [of ?s4 1 "[]" 8 ?g] by (simp add: sample_graph fresh_pid_def)
  with r4 have r5: "reachable ?g ?s5" by (rule reachable.step)
  have "run_step ?g ?s5 ?s6"
    using run_step.finish_node [of 8 1 ?s5 ?g] by (simp add: sample_graph)
  with r5 have "reachable ?g ?s6" by (rule reachable.step)
  then show ?thesis using r0 r1 r2 r3 r4 r5 by (simp add: sample_run_def Let_def)
qed


section \<open>Termination\<close>








section \<open>The same result as one after the other\<close>

text \<open>The files that a command names, also inside of its subshells: what it reads by a redirection or as an argument
  that is not an option, and what it writes by a redirection.\<close>

primrec reads_of :: "command \<Rightarrow> string set" where
  "reads_of (Simple l s i out w) = set_option i \<union> {x \<in> set (List.tl w). x = [] \<or> List.hd x \<noteq> CHR ''-''}"
| "reads_of (Subshell l s i out c) = set_option i \<union> reads_of c"
| "reads_of (Compound l s i out t a b) = reads_of a \<union> reads_of b"

primrec writes_of :: "command \<Rightarrow> string set" where
  "writes_of (Simple l s i out w) = set_option out"
| "writes_of (Subshell l s i out c) = set_option out \<union> writes_of c"
| "writes_of (Compound l s i out t a b) = writes_of a \<union> writes_of b"

text \<open>No subshell names files inside of it.\<close>

primrec plain :: "command \<Rightarrow> bool" where
  "plain (Simple l s i out w) = True"
| "plain (Subshell l s i out c) \<longleftrightarrow> reads_of c = {} \<and> writes_of c = {}"
| "plain (Compound l s i out t a b) \<longleftrightarrow> plain a \<and> plain b"

text \<open>Then \<open>processCommand\<close> finds the files.\<close>

lemma redirections_files [simp]:
  "set (m_readList (add_redirections i out g)) = set (m_readList g) \<union> set_option i"
  "set (m_writeList (add_redirections i out g)) = set (m_writeList g) \<union> set_option out"
  by (auto simp: add_redirections_def add_read_def add_write_def split: option.splits)

lemma processCommand_files:
  "plain c \<Longrightarrow> set (m_readList (processCommand c g)) = set (m_readList g) \<union> reads_of c
    \<and> set (m_writeList (processCommand c g)) = set (m_writeList g) \<union> writes_of c"
proof (induction c arbitrary: g)
  case (Simple l s i out w)
  have "{x \<in> set (drop 1 w). \<not> is_option x} = {x \<in> set (List.tl w). x = [] \<or> List.hd x \<noteq> CHR ''-''}"
  proof -
    have "\<not> is_option x \<longleftrightarrow> x = [] \<or> List.hd x \<noteq> CHR ''-''" for x by (cases x) (simp_all add: is_option_def)
    then show ?thesis by (simp add: drop_Suc)
  qed
  then show ?case by auto
qed auto

lemma node_files:
  assumes "i < length cs" "plain (cs ! i)"
  shows "set (m_readList (gnArr (create_graph cs) ! i)) = reads_of (cs ! i)"
    "set (m_writeList (gnArr (create_graph cs) ! i)) = writes_of (cs ! i)"
  using processCommand_files [OF assms(2)] assms(1) by (simp_all add: create_graph_files init_graph_node_def)

text \<open>
  The programs are a parameter: a process goes on in atomic actions, \<open>act c l fs\<close> being the new memory of the process and
  the new contents of the files when the process of the command \<open>c\<close> with the memory \<open>l\<close> acts on the files \<open>fs\<close>. It may use
  only the files that the command names: an action writes only files that the command writes, and what it does
  depends only on files that the command reads or writes.
\<close>

type_synonym ('l, 'f) program = "command \<Rightarrow> 'l \<Rightarrow> (string \<Rightarrow> 'f) \<Rightarrow> 'l \<times> (string \<Rightarrow> 'f)"

definition respects_files :: "('l, 'f) program \<Rightarrow> command \<Rightarrow> bool" where
  "respects_files act c \<longleftrightarrow>
     (\<forall>l fs f. f \<notin> writes_of c \<longrightarrow> snd (act c l fs) f = fs f)
     \<and> (\<forall>l fs fs'. (\<forall>f \<in> reads_of c \<union> writes_of c. fs f = fs' f)
          \<longrightarrow> fst (act c l fs) = fst (act c l fs') \<and> (\<forall>f \<in> writes_of c. snd (act c l fs) f = snd (act c l fs') f))"

text \<open>An action of the \<open>i\<close>-th command, on the memories of all processes and the files.\<close>

definition action :: "('l, 'f) program \<Rightarrow> command list \<Rightarrow> nat \<Rightarrow> (nat \<Rightarrow> 'l) \<times> (string \<Rightarrow> 'f) \<Rightarrow> (nat \<Rightarrow> 'l) \<times> (string \<Rightarrow> 'f)" where
  "action act cs i st = (case act (cs ! i) (fst st i) (snd st) of (l, fs) \<Rightarrow> ((fst st)(i := l), fs))"

text \<open>A run with the actions of the processes between the events, each while its process runs.\<close>

datatype moment = Event event | Action nat

fun events_of :: "moment list \<Rightarrow> event list" where
  "events_of [] = []"
| "events_of (Event e # t) = e # events_of t"
| "events_of (Action i # t) = events_of t"

fun actions_of :: "moment list \<Rightarrow> nat list" where
  "actions_of [] = []"
| "actions_of (Event e # t) = actions_of t"
| "actions_of (Action i # t) = i # actions_of t"

definition acts_while_running :: "moment list \<Rightarrow> bool" where
  "acts_while_running t \<longleftrightarrow>
     (\<forall>us i vs. t = us @ Action i # vs \<longrightarrow> Start i \<in> set (events_of us) \<and> Finish i \<notin> set (events_of us))"

lemma events_of_append [simp]: "events_of (us @ vs) = events_of us @ events_of vs"
  by (induction us rule: events_of.induct) simp_all

lemma independent_commute:
  assumes "respects_files act (cs ! i)" "respects_files act (cs ! j)" "i \<noteq> j"
    "writes_of (cs ! j) \<inter> (reads_of (cs ! i) \<union> writes_of (cs ! i)) = {}"
    "writes_of (cs ! i) \<inter> reads_of (cs ! j) = {}"
  shows "action act cs i \<circ> action act cs j = action act cs j \<circ> action act cs i"
proof
  fix st :: "(nat \<Rightarrow> 'a) \<times> (string \<Rightarrow> 'b)"
  obtain L fs where st: "st = (L, fs)" by fastforce
  let ?a = "cs ! i" and ?b = "cs ! j"
  have w: "f \<notin> writes_of ?a \<Longrightarrow> snd (act ?a l fs) f = fs f" "f \<notin> writes_of ?b \<Longrightarrow> snd (act ?b l fs) f = fs f" for l fs f
    using assms(1,2) by (simp_all add: respects_files_def)
  have "\<forall>f \<in> reads_of ?a \<union> writes_of ?a. snd (act ?b (L j) fs) f = fs f" using w(2) assms(4) by blast
  then have a: "fst (act ?a (L i) (snd (act ?b (L j) fs))) = fst (act ?a (L i) fs)"
    "\<forall>f \<in> writes_of ?a. snd (act ?a (L i) (snd (act ?b (L j) fs))) f = snd (act ?a (L i) fs) f"
    using assms(1) unfolding respects_files_def by blast+
  have "\<forall>f \<in> reads_of ?b \<union> writes_of ?b. snd (act ?a (L i) fs) f = fs f" using w(1) assms(4,5) by blast
  then have b: "fst (act ?b (L j) (snd (act ?a (L i) fs))) = fst (act ?b (L j) fs)"
    "\<forall>f \<in> writes_of ?b. snd (act ?b (L j) (snd (act ?a (L i) fs))) f = snd (act ?b (L j) fs) f"
    using assms(2) unfolding respects_files_def by blast+
  have "snd (act ?a (L i) (snd (act ?b (L j) fs))) f = snd (act ?b (L j) (snd (act ?a (L i) fs))) f" for f
  proof (cases "f \<in> writes_of ?a")
    case True
    then show ?thesis using a(2) w(2) assms(4) by (metis IntI Un_iff empty_iff)
  next
    case False
    then show ?thesis using b(2) w by (cases "f \<in> writes_of ?b") auto
  qed
  then show "(action act cs i \<circ> action act cs j) st = (action act cs j \<circ> action act cs i) st"
    using a(1) b(1) assms(3) by (auto simp: action_def st split: prod.split)
qed

text \<open>Actions that are in the wrong order may change places when they commute.\<close>

lemma fold_insort:
  assumes "\<And>y. y \<in> set ys \<Longrightarrow> y < x \<Longrightarrow> f x \<circ> f y = f y \<circ> f x"
  shows "fold f (insort x ys) = fold f ys \<circ> f (x :: nat)"
  using assms
proof (induction ys)
  case (Cons y ys)
  show ?case
  proof (cases "x \<le> y")
    case False
    have i: "fold f (insort x ys) = fold f ys \<circ> f x" by (rule Cons.IH, rule Cons.prems) simp_all
    have c: "f x \<circ> f y = f y \<circ> f x" by (rule Cons.prems) (use False in simp_all)
    have "fold f (insort x (y # ys)) = fold f (insort x ys) \<circ> f y" using False by simp
    also have "\<dots> = fold f ys \<circ> (f x \<circ> f y)" by (simp only: i comp_assoc)
    also have "\<dots> = fold f (y # ys) \<circ> f x" by (simp only: c comp_assoc fold_Cons)
    finally show ?thesis .
  qed simp
qed simp

lemma fold_sort:
  assumes "\<And>us x vs y. xs = us @ x # vs \<Longrightarrow> y \<in> set vs \<Longrightarrow> y < x \<Longrightarrow> f x \<circ> f y = f y \<circ> f x"
  shows "fold f (sort xs) = fold f (xs :: nat list)"
  using assms
proof (induction xs)
  case (Cons x xs)
  have "fold f (sort xs) = fold f xs" by (rule Cons.IH) (use Cons.prems [of "x # us" for us] in auto)
  moreover have "fold f (insort x (sort xs)) = fold f (sort xs) \<circ> f x"
    by (rule fold_insort) (use Cons.prems [of "[]" x xs] in \<open>simp only: append_Nil set_sort\<close>)
  ultimately show ?case by (simp only: sort_key_simps fold_Cons)
qed simp

lemma fold_replicate: "fold f (replicate n x) = f x ^^ n"
  by (induction n) (simp_all add: funpow_Suc_right del: funpow.simps(2))

lemma fold_by_number:
  assumes "set xs \<subseteq> {..<n}"
  shows "fold f (sort xs) = fold (\<lambda>i. f i ^^ count_list xs i) [0..<n]"
proof -
  let ?ys = "concat (map (\<lambda>i. replicate (count_list xs i) i) [0..<n])"
  have c: "count (mset (concat (map (\<lambda>i. replicate (c i) i) [0..<n]))) k = (if k < n then c k else 0)" for c k n
    by (induction n) (auto simp: less_Suc_eq)
  have "mset ?ys = mset xs"
  proof (rule multiset_eqI)
    fix k
    show "count (mset ?ys) k = count (mset xs) k"
      using assms count_list_0_iff [of xs k] by (simp only: c) (auto simp: count_mset)
  qed
  moreover have "sorted (concat (map (\<lambda>i. replicate (c i) i) [0..<n]))" for c n
    by (induction n) (auto simp: sorted_append)
  ultimately have "sort xs = ?ys" by (intro properties_for_sort) auto
  moreover have "fold f (concat (map (\<lambda>i. replicate (c i) i) js)) = fold (\<lambda>i. f i ^^ c i) js" for c js
    by (induction js) (simp_all add: fold_replicate)
  ultimately show ?thesis by simp
qed

lemma actions_of_split: "actions_of t = us @ x # vs \<Longrightarrow> \<exists>A B. t = A @ Action x # B \<and> actions_of B = vs"
proof (induction t arbitrary: us)
  case (Cons m t)
  show ?case
  proof (cases m)
    case (Event e)
    then obtain A B where "t = A @ Action x # B" "actions_of B = vs" using Cons by auto
    then show ?thesis by (intro exI [of _ "m # A"] exI [of _ B]) simp
  next
    case (Action i)
    show ?thesis
    proof (cases us)
      case Nil
      then show ?thesis using Action Cons.prems by (intro exI [of _ "[]"] exI [of _ t]) simp
    next
      case u: (Cons u us')
      then obtain A B where "t = A @ Action x # B" "actions_of B = vs" using Action Cons by auto
      then show ?thesis by (intro exI [of _ "m # A"] exI [of _ B]) simp
    qed
  qed
qed simp

text \<open>An action of a command comes after all those of the commands that it depends on.\<close>

lemma actions_in_order:
  assumes "reachable (create_graph cs) s" "events_of t = events s" "acts_while_running t" "actions_of t = us @ x # vs" "y \<in> set vs"
  shows "x < length cs" "y < x \<Longrightarrow> \<not> isDependent (gnArr (create_graph cs) ! y) (gnArr (create_graph cs) ! x)"
proof -
  let ?g = "create_graph cs"
  note ok = reachable_ok [OF assms(1) create_graph_ok]
  obtain A B where t: "t = A @ Action x # B" "actions_of B = vs" using actions_of_split [OF assms(4)] by blast
  obtain B1 B2 where B: "B = B1 @ Action y # B2" using actions_of_split [of B] t(2) assms(5) by (metis split_list)
  have x: "Start x \<in> set (events_of A)" using assms(3) t(1) by (auto simp: acts_while_running_def)
  then obtain as bs where as: "events_of A = as @ Start x # bs" by (meson split_list)
  have e: "events s = as @ Start x # (bs @ events_of B)" using assms(2) t(1) as by simp
  then have "x \<in> started s" by (simp add: started_def)
  then show xn: "x < length cs" using ok by (auto simp: run_ok_def queues_ok_def create_graph_nodes)
  have "t = (A @ Action x # B1) @ Action y # B2" using t(1) B by simp
  then have "Finish y \<notin> set (events_of (A @ Action x # B1))" using assms(3) unfolding acts_while_running_def by blast
  then have "Finish y \<notin> set as" using as by simp
  then have "y \<notin> before_set ?g x" using ok e unfolding run_ok_def order_ok_def by blast
  then show "y < x \<Longrightarrow> \<not> isDependent (gnArr ?g ! y) (gnArr ?g ! x)"
    using create_graph_ok [of cs] xn by (auto simp: graph_ok_def create_graph_nodes)
qed

text \<open>C8: Whatever the interleaving, and in whatever atomic actions the processes use the files while they run, time
  travel has at every moment the effect of running the commands of the script one after the other: the contents of the
  files and the memories of the processes are the same as when the first command does all its actions, then the second
  does its own, and so on. This is for a script of at most 1024 commands (the length of the array of nodes) whose programs use
  only the files that their commands name, of which none is named inside of a subshell (\<open>subshell_files_missed\<close>),
  when no \<open>fork\<close> fails (\<open>fork_failure_skips_command\<close>).\<close>

theorem time_travel_sequential:
  assumes "reachable (create_graph cs) s" "length cs \<le> 1024" "\<forall>c \<in> set cs. plain c \<and> respects_files act c"
    "events_of t = events s" "acts_while_running t"
  shows "fold (action act cs) (actions_of t) st
    = fold (\<lambda>i. action act cs i ^^ count_list (actions_of t) i) [0..<length cs] st"
proof -
  let ?f = "action act cs"
  have n: "set (actions_of t) \<subseteq> {..<length cs}"
  proof
    fix x assume "x \<in> set (actions_of t)"
    then obtain us vs where "actions_of t = us @ x # vs" by (meson split_list)
    then obtain A B where "t = A @ Action x # B" using actions_of_split by blast
    then have "Start x \<in> set (events_of t)" using assms(5) unfolding acts_while_running_def by fastforce
    then have "Start x \<in> set (events s)" using assms(4) by simp
    then show "x \<in> {..<length cs}" using reachable_ok [OF assms(1) create_graph_ok]
      by (auto simp: run_ok_def queues_ok_def create_graph_nodes started_def)
  qed
  have "fold ?f (sort (actions_of t)) = fold ?f (actions_of t)"
  proof (rule fold_sort)
    fix us x vs y assume *: "actions_of t = us @ x # vs" "y \<in> set vs" "y < x"
    note O = actions_in_order [OF assms(1,4,5) *(1,2)]
    have c: "plain (cs ! x)" "respects_files act (cs ! x)" "plain (cs ! y)" "respects_files act (cs ! y)"
      using assms(3) O(1) *(3) by simp_all
    note F = node_files [OF O(1) c(1)] node_files [OF less_trans [OF *(3) O(1)] c(3)]
    have "writes_of (cs ! y) \<inter> (reads_of (cs ! x) \<union> writes_of (cs ! x)) = {}" "writes_of (cs ! x) \<inter> reads_of (cs ! y) = {}"
      using O(2) *(3) unfolding isDependent_def list_ex_iff F by blast+
    then show "?f x \<circ> ?f y = ?f y \<circ> ?f x" using independent_commute [OF c(2,4)] *(3) by blast
  qed
  then show ?thesis using fold_by_number [OF n, of ?f] by simp
qed

text \<open>The sample script, where the first command writes a number into its file and the second one reads its argument.\<close>

definition sample_act :: "(int, int) program" where
  "sample_act c l fs =
     (case cmd_output c of Some f \<Rightarrow> (l, fs(f := 5)) | None \<Rightarrow> (fs ''x'', fs))"

theorem time_travel_sequential_witness:
  "fold (action sample_act sample_script) [0, 1] ((\<lambda>i. 0), (\<lambda>f. 0))
    = fold (\<lambda>i. action sample_act sample_script i ^^ count_list [0, 1] i) [0..<2] ((\<lambda>i. 0), (\<lambda>f. 0))
  \<and> fst (fold (action sample_act sample_script) [0, 1] ((\<lambda>i. 0), (\<lambda>f. 0))) 1 = 5"
proof -
  let ?t = "[Event (Start 0), Action 0, Event (Finish 0), Event (Start 1), Action 1, Event (Finish 1)]"
  have r: "reachable (create_graph sample_script) (sample_run ! 6)"
    using sample_run_reachable by (simp add: sample_run_def Let_def)
  have e: "events_of ?t = events (sample_run ! 6)"
    by (simp add: sample_run_def Let_def)
  have p: "\<forall>c \<in> set sample_script. plain c \<and> respects_files sample_act c"
    by (simp add: sample_script_def respects_files_def sample_act_def)
  have a: "acts_while_running ?t"
    unfolding acts_while_running_def by (auto simp: Cons_eq_append_conv)
  have "length sample_script = 2" by (simp add: sample_script_def)
  moreover have "fst (fold (action sample_act sample_script) [0, 1] ((\<lambda>i. 0), (\<lambda>f. 0))) 1 = 5"
    by (simp add: action_def sample_script_def sample_act_def)
  ultimately show ?thesis
    using time_travel_sequential [OF r _ p e a, of "((\<lambda>i. 0), (\<lambda>f. 0))"] by simp
qed

section \<open>Where it fails\<close>

text \<open>What a subshell writes or reads by a redirection inside of it is not found: here the second command reads what
  the first one writes, and does not wait for it.\<close>

lemma subshell_files_missed:
  "\<not> isDependent (processCommand (Subshell l s None None (Simple l' s' None (Some f) w)) (init_graph_node c))
     (processCommand (Simple l'' s'' (Some f) None [v]) (init_graph_node c'))"
  by (simp add: isDependent_def init_graph_node_def add_redirections_def add_read_def)

text \<open>When the first \<open>fork\<close> for the sample script fails, its first command is never run, and the second one, which reads
  what that should have written, is run all the same.\<close>

lemma fork_failure_skips_command:
  "\<exists>s. (full_step (create_graph sample_script))\<^sup>*\<^sup>* (init_run (create_graph sample_script)) s \<and> events s = [Start 1]"
proof -
  let ?g = "create_graph sample_script"
  let ?s0 = "init_run ?g"
  let ?s1 = "?s0\<lparr>pid := (pid ?s0)(0 := -1), free_queue := []\<rparr>"
  let ?s2 = "?s1\<lparr>waits := Some [0]\<rparr>"
  let ?s3 = "?s2\<lparr>waits := Some []\<rparr>"
  let ?s4 = "fork_node 7 1 (?s3\<lparr>dep_queue := [], waits := None\<rparr>)"
  have "full_step ?g ?s0 ?s1" by (rule full_step.fork_free_fails) (simp add: sample_graph)
  moreover have "full_step ?g ?s1 ?s2"
    by (rule full_step.as_before) (use run_step.look [of ?s1 1 "[]" ?g] in \<open>simp add: sample_graph\<close>)
  moreover have "full_step ?g ?s2 ?s3" by (rule full_step.wait_fails [of _ 0]) simp_all
  moreover have "full_step ?g ?s3 ?s4"
    by (rule full_step.as_before, rule run_step.fork_dependent) (simp_all add: sample_graph fresh_pid_def)
  ultimately have "(full_step ?g)\<^sup>*\<^sup>* ?s0 ?s4" by (meson converse_rtranclp_into_rtranclp rtranclp.rtrancl_refl)
  moreover have "events ?s4 = [Start 1]" by simp
  ultimately show ?thesis by blast
qed

end
