(* ===== verification/Behaviour.thy ===== *)
theory Behaviour
  imports Prelude
begin

text \<open>
  Processes that run at the same time and share a world: sequences of atomic actions, put one after the other or
  interleaved, and when two descriptions of a process have the same behaviour up to a relation of their results.
\<close>

section \<open>Behaviours\<close>

text \<open>
  A behaviour of a process is the sequence of its actions so far, each with the world before and after it, and its
  result when it has ended. Between two actions other processes may change the world.
\<close>

type_synonym 'w trace = "('w \<times> 'w) list"

type_synonym ('w, 'r) behaviours = "('w trace \<times> 'r option) set"

definition ret :: "'r \<Rightarrow> ('w, 'r) behaviours" where
  "ret x = {([], Some x)}"

definition atomic :: "('w \<Rightarrow> 'w \<times> 'r) \<Rightarrow> ('w, 'r) behaviours" where
  "atomic f = insert ([], None) {([(w, fst (f w))], Some (snd (f w))) | w. True}"

definition and_then :: "('w, 'a) behaviours \<Rightarrow> ('a \<Rightarrow> ('w, 'b) behaviours) \<Rightarrow> ('w, 'b) behaviours" where
  "and_then m g = {(t, None) | t. (t, None) \<in> m} \<union> {(t @ u, r) | t u r x. (t, Some x) \<in> m \<and> (u, r) \<in> g x}"

fun both :: "'a option \<Rightarrow> 'b option \<Rightarrow> ('a \<times> 'b) option" where
  "both (Some x) (Some y) = Some (x, y)"
| "both _ _ = None"

definition parallel :: "('w, 'a) behaviours \<Rightarrow> ('w, 'b) behaviours \<Rightarrow> ('w, 'a \<times> 'b) behaviours" where
  "parallel m n = {(t, both x y) | t u v x y. (u, x) \<in> m \<and> (v, y) \<in> n \<and> t \<in> shuffles u v}"

text \<open>One of several results.\<close>

definition one_of :: "'r set \<Rightarrow> ('w, 'r) behaviours" where
  "one_of A = {([], Some x) | x. x \<in> A}"

text \<open>The actions of a closed system, from the world \<open>w\<close> to the world \<open>w'\<close>.\<close>

fun chained :: "'w \<Rightarrow> 'w trace \<Rightarrow> 'w \<Rightarrow> bool" where
  "chained w [] w' \<longleftrightarrow> w = w'"
| "chained w ((a, b) # t) w' \<longleftrightarrow> w = a \<and> chained b t w'"

lemma in_ret [simp]: "(t, r) \<in> ret x \<longleftrightarrow> t = [] \<and> r = Some x"
  by (auto simp: ret_def)

lemma in_one_of [simp]: "(t, r) \<in> one_of A \<longleftrightarrow> t = [] \<and> (\<exists>x \<in> A. r = Some x)"
  by (auto simp: one_of_def)

lemma in_atomic: "(t, r) \<in> atomic f \<longleftrightarrow> t = [] \<and> r = None \<or> (\<exists>w. t = [(w, fst (f w))] \<and> r = Some (snd (f w)))"
  by (auto simp: atomic_def)

lemma atomicI: "f w = (w', x) \<Longrightarrow> ([(w, w')], Some x) \<in> atomic f"
  by (force simp: in_atomic)

lemma in_and_then:
  "(t, r) \<in> and_then m g \<longleftrightarrow>
     r = None \<and> (t, None) \<in> m \<or> (\<exists>u v x. t = u @ v \<and> (u, Some x) \<in> m \<and> (v, r) \<in> g x)"
  by (auto simp: and_then_def)

lemma atomic_then: "h x = ret y \<Longrightarrow> and_then (atomic (\<lambda>w. (g w, x))) h = atomic (\<lambda>w. (g w, y))"
  by (auto simp: in_and_then in_atomic)

lemma and_thenI: "(u, Some x) \<in> m \<Longrightarrow> (v, r) \<in> g x \<Longrightarrow> (u @ v, r) \<in> and_then m g"
  by (auto simp: in_and_then)

lemma and_then_ret [simp]: "and_then (ret x) g = g x"
  by (auto simp: in_and_then)

lemma and_then_ret_right [simp]: "and_then m ret = m"
proof (rule set_eqI, clarify)
  show "(t, r) \<in> and_then m ret \<longleftrightarrow> (t, r) \<in> m" for t r by (cases r) (auto simp: in_and_then)
qed

lemma parallelI: "(u, Some x) \<in> m \<Longrightarrow> (v, Some y) \<in> n \<Longrightarrow> t \<in> shuffles u v \<Longrightarrow> (t, Some (x, y)) \<in> parallel m n"
  by (force simp: parallel_def)

section \<open>Similar behaviours\<close>

text \<open>The same actions, and results that are related.\<close>

definition similar :: "('a \<Rightarrow> 'b \<Rightarrow> bool) \<Rightarrow> ('w, 'a) behaviours \<Rightarrow> ('w, 'b) behaviours \<Rightarrow> bool" where
  "similar R m n \<longleftrightarrow>
     (\<forall>t x. (t, x) \<in> m \<longrightarrow> (\<exists>y. (t, y) \<in> n \<and> rel_option R x y))
     \<and> (\<forall>t y. (t, y) \<in> n \<longrightarrow> (\<exists>x. (t, x) \<in> m \<and> rel_option R x y))"

lemma similarD:
  assumes "similar R m n"
  shows "(t, None) \<in> m \<longleftrightarrow> (t, None) \<in> n"
    "(t, Some x) \<in> m \<Longrightarrow> \<exists>y. (t, Some y) \<in> n \<and> R x y"
    "(t, Some y) \<in> n \<Longrightarrow> \<exists>x. (t, Some x) \<in> m \<and> R x y"
proof -
  show "(t, None) \<in> m \<longleftrightarrow> (t, None) \<in> n"
    using assms unfolding similar_def by (metis option.rel_distinct(1,2) option.exhaust)
  show "(t, Some x) \<in> m \<Longrightarrow> \<exists>y. (t, Some y) \<in> n \<and> R x y"
    using assms unfolding similar_def by (metis option_rel_Some1)
  show "(t, Some y) \<in> n \<Longrightarrow> \<exists>x. (t, Some x) \<in> m \<and> R x y"
    using assms unfolding similar_def by (metis option_rel_Some2)
qed

lemma similarI:
  assumes "\<And>t. (t, None) \<in> m \<longleftrightarrow> (t, None) \<in> n"
    "\<And>t x. (t, Some x) \<in> m \<Longrightarrow> \<exists>y. (t, Some y) \<in> n \<and> R x y"
    "\<And>t y. (t, Some y) \<in> n \<Longrightarrow> \<exists>x. (t, Some x) \<in> m \<and> R x y"
  shows "similar R m n"
  unfolding similar_def using assms by (metis option.rel_intros not_None_eq)

lemma similar_same: "similar (=) m m"
  by (rule similarI) auto

lemma similar_mono: "similar R m n \<Longrightarrow> (\<And>x y. R x y \<Longrightarrow> S x y) \<Longrightarrow> similar S m n"
  unfolding similar_def by (meson option.rel_mono_strong)

lemma similar_ret: "R x y \<Longrightarrow> similar R (ret x) (ret y)"
  by (rule similarI) auto

lemma similar_one_of: "rel_set R A B \<Longrightarrow> similar R (one_of A) (one_of B)"
  by (rule similarI) (auto simp: rel_set_def)

lemma similar_atomic:
  assumes "\<And>w. fst (f w) = fst (g w) \<and> R (snd (f w)) (snd (g w))"
  shows "similar R (atomic f) (atomic g)"
  by (rule similarI) (use assms in \<open>auto simp: in_atomic\<close>)

lemma similar_and_then:
  assumes "similar R m n" "\<And>x y. R x y \<Longrightarrow> similar S (f x) (g y)"
  shows "similar S (and_then m f) (and_then n g)"
proof (rule similarI)
  fix t
  show "(t, None) \<in> and_then m f \<longleftrightarrow> (t, None) \<in> and_then n g"
  proof
    assume "(t, None) \<in> and_then m f"
    then consider "(t, None) \<in> m" | u v z where "t = u @ v" "(u, Some z) \<in> m" "(v, None) \<in> f z" by (auto simp: in_and_then)
    then show "(t, None) \<in> and_then n g"
    proof cases
      case 1
      then show ?thesis using similarD(1) [OF assms(1)] by (simp add: in_and_then)
    next
      case 2
      obtain z' where "(u, Some z') \<in> n" "R z z'" using similarD(2) [OF assms(1) 2(2)] by blast
      then show ?thesis using similarD(1) [OF assms(2)] 2 unfolding in_and_then by blast
    qed
  next
    assume "(t, None) \<in> and_then n g"
    then consider "(t, None) \<in> n" | u v z where "t = u @ v" "(u, Some z) \<in> n" "(v, None) \<in> g z" by (auto simp: in_and_then)
    then show "(t, None) \<in> and_then m f"
    proof cases
      case 1
      then show ?thesis using similarD(1) [OF assms(1)] by (simp add: in_and_then)
    next
      case 2
      obtain z' where "(u, Some z') \<in> m" "R z' z" using similarD(3) [OF assms(1) 2(2)] by blast
      then show ?thesis using similarD(1) [OF assms(2)] 2 unfolding in_and_then by blast
    qed
  qed
next
  fix t x
  assume "(t, Some x) \<in> and_then m f"
  then obtain u v z where *: "t = u @ v" "(u, Some z) \<in> m" "(v, Some x) \<in> f z" by (auto simp: in_and_then)
  obtain z' where z': "(u, Some z') \<in> n" "R z z'" using similarD(2) [OF assms(1) *(2)] by blast
  obtain y where "(v, Some y) \<in> g z'" "S x y" using similarD(2) [OF assms(2) [OF z'(2)] *(3)] by blast
  then show "\<exists>y. (t, Some y) \<in> and_then n g \<and> S x y" using *(1) z'(1) by (auto simp: in_and_then)
next
  fix t y
  assume "(t, Some y) \<in> and_then n g"
  then obtain u v z where *: "t = u @ v" "(u, Some z) \<in> n" "(v, Some y) \<in> g z" by (auto simp: in_and_then)
  obtain z' where z': "(u, Some z') \<in> m" "R z' z" using similarD(3) [OF assms(1) *(2)] by blast
  obtain x where "(v, Some x) \<in> f z'" "S x y" using similarD(3) [OF assms(2) [OF z'(2)] *(3)] by blast
  then show "\<exists>x. (t, Some x) \<in> and_then m f \<and> S x y" using *(1) z'(1) by (auto simp: in_and_then)
qed

lemma both_related: "rel_option R x x' \<Longrightarrow> rel_option S y y' \<Longrightarrow> rel_option (rel_prod R S) (both x y) (both x' y')"
  by (cases x; cases x'; cases y; cases y') simp_all

lemma similar_parallel:
  assumes "similar R m m'" "similar S n n'"
  shows "similar (rel_prod R S) (parallel m n) (parallel m' n')"
  unfolding similar_def
proof (intro conjI allI impI)
  fix t z
  assume "(t, z) \<in> parallel m n"
  then obtain u v x y where *: "z = both x y" "(u, x) \<in> m" "(v, y) \<in> n" "t \<in> shuffles u v" by (auto simp: parallel_def)
  obtain x' where x': "(u, x') \<in> m'" "rel_option R x x'" using assms(1) *(2) unfolding similar_def by blast
  obtain y' where y': "(v, y') \<in> n'" "rel_option S y y'" using assms(2) *(3) unfolding similar_def by blast
  show "\<exists>z'. (t, z') \<in> parallel m' n' \<and> rel_option (rel_prod R S) z z'"
    using both_related [OF x'(2) y'(2)] *(1,4) x'(1) y'(1) unfolding parallel_def by blast
next
  fix t z
  assume "(t, z) \<in> parallel m' n'"
  then obtain u v x y where *: "z = both x y" "(u, x) \<in> m'" "(v, y) \<in> n'" "t \<in> shuffles u v" by (auto simp: parallel_def)
  obtain x' where x': "(u, x') \<in> m" "rel_option R x' x" using assms(1) *(2) unfolding similar_def by blast
  obtain y' where y': "(v, y') \<in> n" "rel_option S y' y" using assms(2) *(3) unfolding similar_def by blast
  show "\<exists>z'. (t, z') \<in> parallel m n \<and> rel_option (rel_prod R S) z' z"
    using both_related [OF x'(2) y'(2)] *(1,4) x'(1) y'(1) unfolding parallel_def by blast
qed

end
