(* ===== verification/ShellExec.thy ===== *)
theory ShellExec
  imports ShellCmd Behaviour
begin

text \<open>
  The execution of commands (\<open>project1/execute-command.c\<close>): redirections on the table of file
  descriptors, the statuses of compound commands, pipes with both sides running at the same time, subshells, and the
  loop of \<open>main.c\<close> over the commands of a script.
\<close>

section \<open>File descriptors\<close>

text \<open>What a descriptor refers to. A pipe is named by its number in the process that made it, before the name of that
  process.\<close>

type_synonym pipe_name = "nat list"

datatype stream = Terminal | Input_file string | Output_file string | Read_end pipe_name | Write_end pipe_name

type_synonym fd_table = "stream option list"

definition fd_get :: "nat \<Rightarrow> fd_table \<Rightarrow> stream option" where
  "fd_get n t = (if n < length t then t ! n else None)"

definition fd_set :: "nat \<Rightarrow> stream option \<Rightarrow> fd_table \<Rightarrow> fd_table" where
  "fd_set n d t = (t @ replicate (Suc n - length t) None)[n := d]"

fun lowest_free :: "fd_table \<Rightarrow> nat" where
  "lowest_free [] = 0"
| "lowest_free (None # t) = 0"
| "lowest_free (Some d # t) = Suc (lowest_free t)"

text \<open>The system calls; \<open>None\<close> is the descriptor -1 of a call that failed.\<close>

definition dup :: "nat \<Rightarrow> fd_table \<Rightarrow> nat option \<times> fd_table" where
  "dup n t = (case fd_get n t of None \<Rightarrow> (None, t)
     | Some d \<Rightarrow> (Some (lowest_free t), fd_set (lowest_free t) (Some d) t))"

definition dup2 :: "nat option \<Rightarrow> nat \<Rightarrow> fd_table \<Rightarrow> fd_table" where
  "dup2 m n t = (case m of None \<Rightarrow> t
     | Some m \<Rightarrow> (case fd_get m t of None \<Rightarrow> t | Some d \<Rightarrow> fd_set n (Some d) t))"

definition close :: "nat option \<Rightarrow> fd_table \<Rightarrow> fd_table" where
  "close m t = (case m of None \<Rightarrow> t | Some m \<Rightarrow> fd_set m None t)"

section \<open>The system\<close>

text \<open>
  What happens to a pipe: it is made; the processes close the ends that they do not use; a child ends, and with it its
  descriptors are closed.
\<close>

datatype pipe_event = Made | Closed_by_parent | Closed_by_right | Closed_by_left | Right_ends | Left_ends

text \<open>
  The world outside the shell is a parameter: whether a file can be opened for reading, what
  creating or truncating one for writing does (\<open>None\<close>: it fails), whether \<open>execvp\<close> succeeds, the behaviours of a program
  with its arguments and standard streams and its exit status, and what the events of a pipe do. Calls of \<open>fork\<close> and
  \<open>pipe\<close> succeed.
\<close>

record 'w kernel =
  can_read :: "string \<Rightarrow> 'w \<Rightarrow> bool"
  create_file :: "string \<Rightarrow> 'w \<Rightarrow> 'w option"
  can_exec :: "string list \<Rightarrow> 'w \<Rightarrow> bool"
  run_program :: "string list \<Rightarrow> stream option \<Rightarrow> stream option \<Rightarrow> ('w, int) behaviours"
  pipe_effect :: "pipe_event \<Rightarrow> pipe_name \<Rightarrow> 'w \<Rightarrow> 'w"

text \<open>A process of the shell: its descriptors, its name, and the number of pipes it has made.\<close>

record shell =
  fds :: fd_table
  process :: "nat list"
  pipes_made :: nat

text \<open>A call either returns, with the command and its new statuses, or the process exits.\<close>

datatype outcome = Running command shell | Exited int

definition WEXITSTATUS :: "int \<Rightarrow> int" where
  "WEXITSTATUS st = st mod 256"

section \<open>Simple commands and subshells\<close>

text \<open>Opens \<open>d\<close> on the lowest free descriptor, makes it descriptor \<open>n\<close> and closes it.\<close>

definition open_as :: "stream \<Rightarrow> nat \<Rightarrow> shell \<Rightarrow> shell" where
  "open_as d n s = (let fd = lowest_free (fds s)
     in s\<lparr>fds := close (Some fd) (dup2 (Some fd) n (fd_set fd (Some d) (fds s)))\<rparr>)"

text \<open>\<open>None\<close>: the file cannot be opened and the process exits with status 1.\<close>

definition redirect_input :: "'w kernel \<Rightarrow> string option \<Rightarrow> shell \<Rightarrow> ('w, shell option) behaviours" where
  "redirect_input k inp s =
     (case inp of None \<Rightarrow> ret (Some s)
      | Some f \<Rightarrow> atomic (\<lambda>w. (w, if can_read k f w then Some (open_as (Input_file f) 0 s) else None)))"

definition redirect_output :: "'w kernel \<Rightarrow> string option \<Rightarrow> shell \<Rightarrow> ('w, shell option) behaviours" where
  "redirect_output k out s =
     (case out of None \<Rightarrow> ret (Some s)
      | Some f \<Rightarrow> atomic (\<lambda>w. case create_file k f w of None \<Rightarrow> (w, None) | Some w' \<Rightarrow> (w', Some (open_as (Output_file f) 1 s))))"

definition redirect :: "'w kernel \<Rightarrow> string option \<Rightarrow> string option \<Rightarrow> shell \<Rightarrow> ('w, shell option) behaviours" where
  "redirect k inp out s =
     and_then (redirect_input k inp s) (\<lambda>r. case r of None \<Rightarrow> ret None | Some s1 \<Rightarrow> redirect_output k out s1)"

definition restore :: "nat option \<Rightarrow> nat option \<Rightarrow> fd_table \<Rightarrow> fd_table" where
  "restore fd_in_backup fd_out_backup t =
     close fd_out_backup (close fd_in_backup (dup2 fd_out_backup 1 (dup2 fd_in_backup 0 t)))"

text \<open>Both kinds save the standard streams, redirect, run \<open>body\<close>, and put the streams back.\<close>

definition with_redirection :: "'w kernel \<Rightarrow> string option \<Rightarrow> string option \<Rightarrow> (shell \<Rightarrow> ('w, outcome) behaviours)
    \<Rightarrow> shell \<Rightarrow> ('w, outcome) behaviours" where
  "with_redirection k inp out body s =
     (let (fd_in_backup, t1) = dup 0 (fds s);
          (fd_out_backup, t2) = dup 1 t1
      in and_then (redirect k inp out (s\<lparr>fds := t2\<rparr>)) (\<lambda>r.
           case r of None \<Rightarrow> ret (Exited 1)
           | Some s1 \<Rightarrow> and_then (body s1) (\<lambda>x.
               case x of Exited st \<Rightarrow> ret (Exited st)
               | Running c s2 \<Rightarrow> ret (Running c (s2\<lparr>fds := restore fd_in_backup fd_out_backup (fds s2)\<rparr>)))))"

text \<open>\<open>execvp\<close>: the process becomes the program, or reports the error and exits. The result is its exit status.\<close>

definition exec_program :: "'w kernel \<Rightarrow> string list \<Rightarrow> shell \<Rightarrow> ('w, int) behaviours" where
  "exec_program k words s =
     and_then (atomic (\<lambda>w. (w, can_exec k words w))) (\<lambda>found.
       if found then and_then (run_program k words (fd_get 0 (fds s)) (fd_get 1 (fds s))) (\<lambda>st. ret (WEXITSTATUS st))
       else ret 1)"

definition exe_simple_body :: "'w kernel \<Rightarrow> command \<Rightarrow> string list \<Rightarrow> shell \<Rightarrow> ('w, outcome) behaviours" where
  "exe_simple_body k c words s =
     (if words \<noteq> [] \<and> List.hd words = ''exec'' then and_then (exec_program k (List.tl words) s) (\<lambda>st. ret (Exited st))
      else and_then (exec_program k words s) (\<lambda>st. ret (Running (set_status st c) s)))"

section \<open>Pipes\<close>

text \<open>\<open>pipe\<close>: the read end on the lowest free descriptor, the write end on the next.\<close>

definition make_pipe :: "shell \<Rightarrow> nat \<times> nat \<times> pipe_name \<times> shell" where
  "make_pipe s = (let name = pipes_made s # process s;
       r = lowest_free (fds s); t1 = fd_set r (Some (Read_end name)) (fds s);
       w = lowest_free t1; t2 = fd_set w (Some (Write_end name)) t1
     in (r, w, name, s\<lparr>fds := t2, pipes_made := Suc (pipes_made s)\<rparr>))"

definition happens :: "'w kernel \<Rightarrow> pipe_event \<Rightarrow> pipe_name \<Rightarrow> ('w, unit) behaviours" where
  "happens k e name = atomic (\<lambda>w. (pipe_effect k e name w, ()))"

definition exit_status :: "outcome \<Rightarrow> int" where
  "exit_status r = (case r of Running c s \<Rightarrow> WEXITSTATUS (cmd_status c) | Exited st \<Rightarrow> WEXITSTATUS st)"

text \<open>A child closes the end that it does not use, executes its side, and exits.\<close>

definition pipe_child :: "'w kernel \<Rightarrow> pipe_event \<Rightarrow> pipe_event \<Rightarrow> pipe_name \<Rightarrow> (shell \<Rightarrow> ('w, outcome) behaviours) \<Rightarrow> shell
    \<Rightarrow> ('w, int) behaviours" where
  "pipe_child k closes ends name side s =
     and_then (happens k closes name) (\<lambda>_. and_then (side s) (\<lambda>r.
       and_then (happens k ends name) (\<lambda>_. ret (exit_status r))))"

text \<open>
  The child for the right side is forked first; both children and the parent, which closes both ends, run at the same time.
  The status is that of the child which the second \<open>waitpid\<close> returns: the one that ends last, or either one when both
  have ended before the first \<open>waitpid\<close>.
\<close>

definition exe_pipe_command :: "'w kernel \<Rightarrow> (shell \<Rightarrow> ('w, outcome) behaviours) \<Rightarrow> (shell \<Rightarrow> ('w, outcome) behaviours) \<Rightarrow> shell
    \<Rightarrow> ('w, int \<times> shell) behaviours" where
  "exe_pipe_command k left right s =
     (let (r, w, name, s1) = make_pipe s;
          right_child = pipe_child k Closed_by_right Right_ends name right
            (s1\<lparr>fds := dup2 (Some r) 0 (close (Some w) (fds s1)), process := 0 # name, pipes_made := 0\<rparr>);
          left_child = pipe_child k Closed_by_left Left_ends name left
            (s1\<lparr>fds := dup2 (Some w) 1 (close (Some r) (fds s1)), process := 1 # name, pipes_made := 0\<rparr>)
      in and_then (happens k Made name) (\<lambda>_.
           and_then (parallel right_child (parallel left_child (happens k Closed_by_parent name))) (\<lambda>(right_status, left_status, _).
             and_then (one_of {left_status, right_status}) (\<lambda>st.
               ret (st, s1\<lparr>fds := close (Some w) (close (Some r) (fds s1))\<rparr>)))))"

section \<open>Commands\<close>

text \<open>A child process does not change the statuses in the parent's copy of the command.\<close>

primrec execute_command :: "'w kernel \<Rightarrow> command \<Rightarrow> shell \<Rightarrow> ('w, outcome) behaviours" where
  "execute_command k (Simple l st inp out words) s =
     with_redirection k inp out (exe_simple_body k (Simple l st inp out words) words) s"
| "execute_command k (Subshell l st inp out c) s =
     with_redirection k inp out
       (\<lambda>s1. and_then (execute_command k c s1) (\<lambda>r. case r of
          Exited e \<Rightarrow> ret (Exited e)
        | Running c' s2 \<Rightarrow> ret (Running (Subshell l (cmd_status c') inp out c') s2))) s"
| "execute_command k (Compound l st inp out t a b) s =
     (if t = PIPE_COMMAND then
        and_then (exe_pipe_command k (execute_command k a) (execute_command k b) s)
          (\<lambda>(e, s1). ret (Running (Compound l e inp out t a b) s1))
      else
        and_then (execute_command k a s) (\<lambda>r. case r of
           Exited e \<Rightarrow> ret (Exited e)
         | Running a' s1 \<Rightarrow>
             if t = AND_COMMAND \<and> cmd_status a' \<noteq> 0 \<or> t = OR_COMMAND \<and> cmd_status a' = 0
             then ret (Running (Compound l (cmd_status a') inp out t a' b) s1)
             else
               and_then (execute_command k b s1) (\<lambda>r. case r of
                  Exited e \<Rightarrow> ret (Exited e)
                | Running b' s2 \<Rightarrow> ret (Running (Compound l (cmd_status b') inp out t a' b') s2))))"

definition command_status :: "command \<Rightarrow> int" where
  "command_status c = cmd_status c"

text \<open>The loop of \<open>main\<close> without options: the exit status is that of the last command, or 0.\<close>

fun main_loop :: "'w kernel \<Rightarrow> command list \<Rightarrow> command option \<Rightarrow> shell \<Rightarrow> ('w, int) behaviours" where
  "main_loop k [] last_command s = ret (case last_command of None \<Rightarrow> 0 | Some c \<Rightarrow> command_status c)"
| "main_loop k (c # command_stream) last_command s =
     and_then (execute_command k c s) (\<lambda>r. case r of
        Exited e \<Rightarrow> ret e
      | Running c' s1 \<Rightarrow> main_loop k command_stream (Some c') s1)"

section \<open>The table of descriptors\<close>

lemma fd_get_set [simp]: "fd_get m (fd_set n d t) = (if m = n then d else fd_get m t)"
  by (auto simp: fd_get_def fd_set_def nth_list_update nth_append)

lemma lowest_free_None [simp]: "fd_get (lowest_free t) t = None"
  by (induction t rule: lowest_free.induct) (auto simp: fd_get_def)

lemma fd_get_close [simp]: "fd_get m (close n t) = (if n = Some m then None else fd_get m t)"
  by (cases n) (auto simp: close_def)

lemma fd_get_dup2_Some [simp]:
  "fd_get m (dup2 (Some a) n t) = (if m = n \<and> fd_get a t \<noteq> None then fd_get a t else fd_get m t)"
  by (auto simp: dup2_def split: option.splits)

lemma open_as_fds:
  assumes "fd_get n (fds s) \<noteq> None"
  shows "fd_get m (fds (open_as d n s)) = (if m = n then Some d else fd_get m (fds s))"
proof -
  have "n \<noteq> lowest_free (fds s)" using assms by auto
  then show ?thesis by (auto simp: open_as_def Let_def)
qed

lemma open_as_simps [simp]: "process (open_as d n s) = process s" "pipes_made (open_as d n s) = pipes_made s"
  by (simp_all add: open_as_def Let_def)

end
