(* ===== verification/ShellExecProps.thy ===== *)
theory ShellExecProps
  imports ShellExec
begin

text \<open>
  What a command does, stated without descriptors (\<open>eval\<close>), and the proof that the execution on
  the table of file descriptors has the same behaviours and leaves the table as it was.
\<close>

section \<open>The meaning of a command\<close>

text \<open>The command is over with a status (and a number of pipes made so far), or the whole process of the shell is.\<close>

datatype result = Done int nat | Quit int

definition redirected :: "'w kernel \<Rightarrow> string option \<Rightarrow> string option \<Rightarrow> stream \<Rightarrow> stream
    \<Rightarrow> ('w, (stream \<times> stream) option) behaviours" where
  "redirected k inp out si so =
     and_then (case inp of None \<Rightarrow> ret (Some si)
         | Some f \<Rightarrow> atomic (\<lambda>w. (w, if can_read k f w then Some (Input_file f) else None)))
       (\<lambda>r. case r of None \<Rightarrow> ret None
          | Some si' \<Rightarrow> (case out of None \<Rightarrow> ret (Some (si', so))
              | Some f \<Rightarrow> atomic (\<lambda>w. case create_file k f w of None \<Rightarrow> (w, None) | Some w' \<Rightarrow> (w', Some (si', Output_file f)))))"

definition run_words :: "'w kernel \<Rightarrow> string list \<Rightarrow> stream \<Rightarrow> stream \<Rightarrow> ('w, int) behaviours" where
  "run_words k words si so =
     and_then (atomic (\<lambda>w. (w, can_exec k words w))) (\<lambda>found.
       if found then and_then (run_program k words (Some si) (Some so)) (\<lambda>st. ret (st mod 256)) else ret 1)"

fun final_status :: "result \<Rightarrow> int" where
  "final_status (Done st n) = st mod 256"
| "final_status (Quit st) = st mod 256"

definition side :: "'w kernel \<Rightarrow> pipe_event \<Rightarrow> pipe_event \<Rightarrow> pipe_name \<Rightarrow> ('w, result) behaviours \<Rightarrow> ('w, int) behaviours" where
  "side k closes ends name m =
     and_then (happens k closes name) (\<lambda>_. and_then m (\<lambda>r. and_then (happens k ends name) (\<lambda>_. ret (final_status r))))"

text \<open>With standard streams \<open>si\<close> and \<open>so\<close>, in the process \<open>me\<close> that has made \<open>n\<close> pipes.\<close>

primrec eval :: "'w kernel \<Rightarrow> command \<Rightarrow> stream \<Rightarrow> stream \<Rightarrow> nat list \<Rightarrow> nat \<Rightarrow> ('w, result) behaviours" where
  "eval k (Simple l st inp out words) si so me n =
     and_then (redirected k inp out si so) (\<lambda>r. case r of
        None \<Rightarrow> ret (Quit 1)
      | Some (si', so') \<Rightarrow>
          if words \<noteq> [] \<and> List.hd words = ''exec'' then and_then (run_words k (List.tl words) si' so') (\<lambda>e. ret (Quit e))
          else and_then (run_words k words si' so') (\<lambda>e. ret (Done e n)))"
| "eval k (Subshell l st inp out c) si so me n =
     and_then (redirected k inp out si so) (\<lambda>r. case r of
        None \<Rightarrow> ret (Quit 1)
      | Some (si', so') \<Rightarrow> eval k c si' so' me n)"
| "eval k (Compound l st inp out t a b) si so me n =
     (if t = PIPE_COMMAND then
        and_then (happens k Made (n # me)) (\<lambda>_.
          and_then (parallel (side k Closed_by_right Right_ends (n # me) (eval k b (Read_end (n # me)) so (0 # n # me) 0))
                     (parallel (side k Closed_by_left Left_ends (n # me) (eval k a si (Write_end (n # me)) (1 # n # me) 0))
                        (happens k Closed_by_parent (n # me))))
            (\<lambda>(right, left, _). and_then (one_of {left, right}) (\<lambda>e. ret (Done e (Suc n)))))
      else
        and_then (eval k a si so me n) (\<lambda>r. case r of
           Quit e \<Rightarrow> ret (Quit e)
         | Done e m \<Rightarrow> if t = AND_COMMAND \<and> e \<noteq> 0 \<or> t = OR_COMMAND \<and> e = 0 then ret (Done e m) else eval k b si so me m))"

section \<open>Refinement\<close>

text \<open>The result of the execution that started in \<open>s\<close> and that of the meaning.\<close>

fun implements :: "shell \<Rightarrow> outcome \<Rightarrow> result \<Rightarrow> bool" where
  "implements s (Running c' s') (Done st n) \<longleftrightarrow> cmd_status c' = st \<and> pipes_made s' = n \<and> process s' = process s
     \<and> (\<forall>i. fd_get i (fds s') = fd_get i (fds s))"
| "implements s (Exited e) (Quit st) \<longleftrightarrow> e = st"
| "implements s _ _ \<longleftrightarrow> False"

lemma implements_cases:
  assumes "implements s r v"
  obtains (Done) c' s' where "r = Running c' s'" "v = Done (cmd_status c') (pipes_made s')" "process s' = process s"
      "\<forall>i. fd_get i (fds s') = fd_get i (fds s)"
  | (Quit) e where "r = Exited e" "v = Quit e"
  using assms by (cases r; cases v) auto

definition streams :: "stream \<Rightarrow> stream \<Rightarrow> shell \<Rightarrow> bool" where
  "streams si so s \<longleftrightarrow> fd_get 0 (fds s) = Some si \<and> fd_get 1 (fds s) = Some so"

text \<open>A redirection in the shell \<open>s\<close>: only the standard streams change.\<close>

definition redirects :: "shell \<Rightarrow> shell option \<Rightarrow> (stream \<times> stream) option \<Rightarrow> bool" where
  "redirects s = rel_option (\<lambda>s1 (si', so'). streams si' so' s1 \<and> process s1 = process s \<and> pipes_made s1 = pipes_made s
     \<and> (\<forall>i > 1. fd_get i (fds s1) = fd_get i (fds s)))"

lemma open_as_streams:
  assumes "streams si so s"
  shows "streams d so (open_as d 0 s)" "streams si d (open_as d 1 s)" "i > 1 \<Longrightarrow> fd_get i (fds (open_as d 0 s)) = fd_get i (fds s)"
    "i > 1 \<Longrightarrow> fd_get i (fds (open_as d 1 s)) = fd_get i (fds s)"
  using assms by (simp_all add: streams_def open_as_fds)

lemma redirect_streams:
  assumes "streams si so s"
  shows "similar (redirects s) (redirect k inp out s) (redirected k inp out si so)"
proof -
  have i: "similar (\<lambda>r r'. redirects s r (map_option (\<lambda>si'. (si', so)) r')) (redirect_input k inp s)
      (case inp of None \<Rightarrow> ret (Some si) | Some f \<Rightarrow> atomic (\<lambda>w. (w, if can_read k f w then Some (Input_file f) else None)))"
    using assms open_as_streams [OF assms]
    by (auto simp: redirect_input_def redirects_def split: option.splits intro!: similar_ret similar_atomic)
  show ?thesis
    unfolding redirect_def redirected_def
  proof (rule similar_and_then [OF i])
    fix r r' assume r: "redirects s r (map_option (\<lambda>si'. (si', so)) r')"
    show "similar (redirects s) (case r of None \<Rightarrow> ret None | Some s1 \<Rightarrow> redirect_output k out s1)
       (case r' of None \<Rightarrow> ret None
        | Some si' \<Rightarrow> (case out of None \<Rightarrow> ret (Some (si', so))
          | Some f \<Rightarrow> atomic (\<lambda>w. case create_file k f w of None \<Rightarrow> (w, None) | Some w' \<Rightarrow> (w', Some (si', Output_file f)))))"
    proof (cases r')
      case None
      then show ?thesis using r by (auto simp: redirects_def intro: similar_ret)
    next
      case (Some si')
      then obtain s1 where s1: "r = Some s1" "streams si' so s1" "process s1 = process s" "pipes_made s1 = pipes_made s"
        "\<forall>i > 1. fd_get i (fds s1) = fd_get i (fds s)"
        using r by (cases r) (auto simp: redirects_def)
      then show ?thesis using Some open_as_streams [OF s1(2)]
        by (auto simp: redirect_output_def redirects_def split: option.splits intro!: similar_ret similar_atomic)
    qed
  qed
qed

lemma streams_free: "streams si so s \<Longrightarrow> fd_get x (fds s) = None \<Longrightarrow> x > 1"
  by (cases "x = 0"; cases "x = 1") (auto simp: streams_def)

text \<open>The two descriptors saved are free ones, so nothing else moves.\<close>

lemma backups:
  assumes "streams si so s"
  obtains b0 b1 t where "dup 0 (fds s) = (Some b0, fd_set b0 (Some si) (fds s))"
    "dup 1 (fd_set b0 (Some si) (fds s)) = (Some b1, t)" "t = fd_set b1 (Some so) (fd_set b0 (Some si) (fds s))"
    "b0 > 1" "b1 > 1" "b0 \<noteq> b1" "fd_get b0 (fds s) = None" "fd_get b1 (fds s) = None"
proof -
  let ?b0 = "lowest_free (fds s)"
  let ?t = "fd_set ?b0 (Some si) (fds s)"
  let ?b1 = "lowest_free ?t"
  have 0: "fd_get ?b0 (fds s) = None" by simp
  have "fd_get ?b1 ?t = None" by (rule lowest_free_None)
  then have 1: "?b1 \<noteq> ?b0" "fd_get ?b1 (fds s) = None" by (auto split: if_splits)
  note g = streams_free [OF assms]
  have d1: "fd_get 1 ?t = Some so" using assms 0 by (auto simp: streams_def)
  show thesis
    by (rule that [of ?b0 ?b1 "fd_set ?b1 (Some so) ?t"])
      (use assms d1 0 1 g [OF 0] g [OF 1(2)] in \<open>auto simp: dup_def streams_def\<close>)
qed

lemma with_redirection_implements:
  assumes "streams si so s"
    and body: "\<And>si' so' s1. streams si' so' s1 \<Longrightarrow> process s1 = process s \<Longrightarrow> pipes_made s1 = pipes_made s \<Longrightarrow>
      similar (implements s1) (body s1) (v si' so')"
  shows "similar (implements s) (with_redirection k inp out body s)
    (and_then (redirected k inp out si so) (\<lambda>r. case r of None \<Rightarrow> ret (Quit 1) | Some (si', so') \<Rightarrow> v si' so'))"
proof -
  obtain b0 b1 t where b: "dup 0 (fds s) = (Some b0, fd_set b0 (Some si) (fds s))"
    "dup 1 (fd_set b0 (Some si) (fds s)) = (Some b1, t)" "t = fd_set b1 (Some so) (fd_set b0 (Some si) (fds s))"
    "b0 > 1" "b1 > 1" "b0 \<noteq> b1" "fd_get b0 (fds s) = None" "fd_get b1 (fds s) = None"
    using backups [OF assms(1)] .
  let ?s = "s\<lparr>fds := t\<rparr>"
  let ?undo = "\<lambda>x. case x of Exited st \<Rightarrow> ret (Exited st)
      | Running c s2 \<Rightarrow> ret (Running c (s2\<lparr>fds := restore (Some b0) (Some b1) (fds s2)\<rparr>))"
  have st: "streams si so ?s" using assms(1) b by (auto simp: streams_def)
  have undo: "similar (implements s) (?undo x) (ret y)"
    if x: "implements s1 x y" and s1: "process s1 = process s" "\<forall>i > 1. fd_get i (fds s1) = fd_get i t" for x y s1
    using x
  proof (cases rule: implements_cases)
    case (Done c s2)
    have "fd_get i (restore (Some b0) (Some b1) (fds s2)) = fd_get i (fds s)" for i
    proof -
      have "fd_get b0 (fds s2) = Some si" "fd_get b1 (fds s2) = Some so"
        using Done(4) s1(2) b(3-6) by simp_all
      moreover have "fd_get i (fds s2) = fd_get i (fds s)" if "i > 1" "i \<noteq> b0" "i \<noteq> b1"
        using Done(4) s1(2) that b(3) by simp
      moreover have "i = 0 \<or> i = 1 \<or> i > 1" by linarith
      ultimately show ?thesis using b(4-8) assms(1) by (auto simp: restore_def streams_def)
    qed
    then show ?thesis using Done s1(1) by (auto intro!: similar_ret)
  next
    case (Quit e)
    then show ?thesis by (auto intro!: similar_ret)
  qed
  have "similar (implements s)
      (case r of None \<Rightarrow> ret (Exited 1) | Some s1 \<Rightarrow> and_then (body s1) ?undo)
      (case r' of None \<Rightarrow> ret (Quit 1) | Some (si', so') \<Rightarrow> v si' so')"
    if r: "redirects ?s r r'" for r r'
  proof (cases r')
    case None
    then show ?thesis using r by (auto simp: redirects_def intro: similar_ret)
  next
    case (Some p)
    obtain si' so' where p: "p = (si', so')" by fastforce
    then obtain s1 where s1: "r = Some s1" "streams si' so' s1" "process s1 = process s" "pipes_made s1 = pipes_made s"
      "\<forall>i > 1. fd_get i (fds s1) = fd_get i t"
      using r Some by (cases r) (auto simp: redirects_def)
    have "similar (implements s) (and_then (body s1) ?undo) (and_then (v si' so') ret)"
      by (rule similar_and_then [OF body [OF s1(2-4)]]) (rule undo [OF _ s1(3,5)])
    then show ?thesis using Some p s1(1) by simp
  qed
  from similar_and_then [OF redirect_streams [OF st] this]
  show ?thesis using b(1,2) by (simp add: with_redirection_def)
qed

lemma exec_program_streams:
  "streams si so s \<Longrightarrow> exec_program k words s = run_words k words si so"
  unfolding exec_program_def run_words_def streams_def WEXITSTATUS_def by (elim conjE) (simp only:)

lemma set_status_simp [simp]: "cmd_status (set_status st c) = st"
  by (cases c) simp_all

lemma similar_then_ret:
  "similar R m n \<Longrightarrow> (\<And>x y. R x y \<Longrightarrow> S (f x) (g y)) \<Longrightarrow> similar S (and_then m (\<lambda>x. ret (f x))) (and_then n (\<lambda>y. ret (g y)))"
  by (erule similar_and_then) (simp add: similar_ret)

lemma exe_simple_body_implements:
  assumes "streams si so s"
  shows "similar (implements s) (exe_simple_body k (Simple l st inp out words) words s)
    (if words \<noteq> [] \<and> List.hd words = ''exec'' then and_then (run_words k (List.tl words) si so) (\<lambda>e. ret (Quit e))
     else and_then (run_words k words si so) (\<lambda>e. ret (Done e (pipes_made s))))"
  by (auto simp: exe_simple_body_def exec_program_streams [OF assms] intro!: similar_then_ret [OF similar_same])

lemma side_implements:
  assumes "similar (implements s) (m s) n"
  shows "similar (=) (pipe_child k closes ends name m s) (side k closes ends name n)"
  unfolding pipe_child_def side_def
proof (rule similar_and_then [OF similar_same], rule similar_and_then [OF assms], rule similar_then_ret [OF similar_same])
  show "exit_status x = final_status y" if "implements s x y" for x y
    using that by (cases rule: implements_cases) (auto simp: exit_status_def WEXITSTATUS_def)
qed

lemma pipe_implements:
  fixes me n
  defines "name \<equiv> n # me"
  assumes s: "streams si so s" "process s = me" "pipes_made s = n"
    and left: "\<And>s1. streams si (Write_end name) s1 \<Longrightarrow> process s1 = 1 # name \<Longrightarrow> pipes_made s1 = 0 \<Longrightarrow>
      similar (implements s1) (left s1) va"
    and right: "\<And>s1. streams (Read_end name) so s1 \<Longrightarrow> process s1 = 0 # name \<Longrightarrow> pipes_made s1 = 0 \<Longrightarrow>
      similar (implements s1) (right s1) vb"
  shows "similar (\<lambda>(e, s') v. v = Done e (Suc n) \<and> pipes_made s' = Suc n \<and> process s' = me \<and> (\<forall>i. fd_get i (fds s') = fd_get i (fds s)))
    (exe_pipe_command k left right s)
    (and_then (happens k Made name) (\<lambda>_.
       and_then (parallel (side k Closed_by_right Right_ends name vb)
                  (parallel (side k Closed_by_left Left_ends name va) (happens k Closed_by_parent name)))
         (\<lambda>(right, left, _). and_then (one_of {left, right}) (\<lambda>e. ret (Done e (Suc n))))))"
proof -
  let ?r = "lowest_free (fds s)"
  let ?t1 = "fd_set ?r (Some (Read_end name)) (fds s)"
  let ?w = "lowest_free ?t1"
  let ?t2 = "fd_set ?w (Some (Write_end name)) ?t1"
  let ?s1 = "s\<lparr>fds := ?t2, pipes_made := Suc n\<rparr>"
  have fr: "fd_get ?r (fds s) = None" by simp
  have "fd_get ?w ?t1 = None" by (rule lowest_free_None)
  then have ne: "?w \<noteq> ?r" "fd_get ?w (fds s) = None" by (auto split: if_splits)
  have n01: "?r > 1" "?w > 1" using streams_free [OF s(1)] fr ne(2) by blast+
  let ?sl = "?s1\<lparr>fds := dup2 (Some ?w) 1 (close (Some ?r) ?t2), process := 1 # name, pipes_made := 0\<rparr>"
  let ?sr = "?s1\<lparr>fds := dup2 (Some ?r) 0 (close (Some ?w) ?t2), process := 0 # name, pipes_made := 0\<rparr>"
  let ?e = "?s1\<lparr>fds := close (Some ?w) (close (Some ?r) ?t2)\<rparr>"
  have "streams si (Write_end name) ?sl" using s(1) n01 ne by (auto simp: streams_def)
  from left [OF this] have l: "similar (=) (pipe_child k Closed_by_left Left_ends name left ?sl) (side k Closed_by_left Left_ends name va)"
    by (intro side_implements) simp
  have "streams (Read_end name) so ?sr" using s(1) n01 ne by (auto simp: streams_def)
  from right [OF this] have r: "similar (=) (pipe_child k Closed_by_right Right_ends name right ?sr) (side k Closed_by_right Right_ends name vb)"
    by (intro side_implements) simp
  have p: "make_pipe s = (?r, ?w, name, ?s1)" using s(2,3) by (simp add: make_pipe_def Let_def name_def)
  have e: "fd_get i (fds ?e) = fd_get i (fds s)" for i using fr ne by auto
  let ?R = "\<lambda>(e, s') v. v = Done e (Suc n) \<and> pipes_made s' = Suc n \<and> process s' = me \<and> (\<forall>i. fd_get i (fds s') = fd_get i (fds s))"
  have c: "similar ?R (and_then (one_of A) (\<lambda>st. ret (st, ?e))) (and_then (one_of A) (\<lambda>e. ret (Done e (Suc n))))" for A
    by (rule similar_then_ret [OF similar_same]) (use e s(2) in simp)
  have "similar ?R (case x of (rs, ls, u) \<Rightarrow> and_then (one_of {ls, rs}) (\<lambda>st. ret (st, ?e)))
      (case y of (right, left, u) \<Rightarrow> and_then (one_of {left, right}) (\<lambda>e. ret (Done e (Suc n))))"
    if "rel_prod (=) (rel_prod (=) (=)) x y" for x y :: "int \<times> int \<times> unit"
    using that c by (cases x; cases y) auto
  note rest = similar_and_then [OF similar_parallel [OF r similar_parallel [OF l similar_same]] this]
  have "similar ?R
      (and_then (happens k Made name) (\<lambda>_. and_then (parallel (pipe_child k Closed_by_right Right_ends name right ?sr)
          (parallel (pipe_child k Closed_by_left Left_ends name left ?sl) (happens k Closed_by_parent name)))
        (\<lambda>(rs, ls, u). and_then (one_of {ls, rs}) (\<lambda>st. ret (st, ?e)))))
      (and_then (happens k Made name) (\<lambda>_. and_then (parallel (side k Closed_by_right Right_ends name vb)
          (parallel (side k Closed_by_left Left_ends name va) (happens k Closed_by_parent name)))
        (\<lambda>(right, left, u). and_then (one_of {left, right}) (\<lambda>e. ret (Done e (Suc n))))))"
    by (rule similar_and_then [OF similar_same]) (rule rest)
  then show ?thesis by (simp add: exe_pipe_command_def p Let_def)
qed

lemma execute_implements:
  "streams si so s \<Longrightarrow> similar (implements s) (execute_command k c s) (eval k c si so (process s) (pipes_made s))"
proof (induction c arbitrary: si so s)
  case (Simple l st inp out words)
  have "similar (implements s1) (exe_simple_body k (Simple l st inp out words) words s1)
      (if words \<noteq> [] \<and> List.hd words = ''exec'' then and_then (run_words k (List.tl words) si' so') (\<lambda>e. ret (Quit e))
       else and_then (run_words k words si' so') (\<lambda>e. ret (Done e (pipes_made s))))"
    if "streams si' so' s1" "process s1 = process s" "pipes_made s1 = pipes_made s" for si' so' s1
    using exe_simple_body_implements [OF that(1)] unfolding that(3) .
  from with_redirection_implements [OF Simple this] show ?case by simp
next
  case (Subshell l st inp out c)
  let ?body = "\<lambda>s1. and_then (execute_command k c s1) (\<lambda>r. case r of Exited e \<Rightarrow> ret (Exited e)
        | Running c' s2 \<Rightarrow> ret (Running (Subshell l (cmd_status c') inp out c') s2))"
  have "similar (implements s1) (?body s1) (eval k c si' so' (process s) (pipes_made s))"
    if "streams si' so' s1" "process s1 = process s" "pipes_made s1 = pipes_made s" for si' so' s1
  proof -
    have "similar (implements s1) (case x of Exited e \<Rightarrow> ret (Exited e)
        | Running c' s2 \<Rightarrow> ret (Running (Subshell l (cmd_status c') inp out c') s2)) (ret y)" if "implements s1 x y" for x y
      using that by (cases rule: implements_cases) (auto intro!: similar_ret)
    then have "similar (implements s1) (?body s1) (and_then (eval k c si' so' (process s1) (pipes_made s1)) ret)"
      by (rule similar_and_then [OF Subshell.IH [OF that(1)]])
    then show ?thesis unfolding that(2,3) by simp
  qed
  from with_redirection_implements [where body = ?body and v = "\<lambda>si' so'. eval k c si' so' (process s) (pipes_made s)",
      OF Subshell.prems this]
  show ?case by (simp only: execute_command.simps eval.simps)
next
  case (Compound l st inp out t a b)
  show ?case
  proof (cases "t = PIPE_COMMAND")
    case True
    let ?n = "pipes_made s # process s"
    have A: "similar (implements s1) (execute_command k a s1) (eval k a si (Write_end ?n) (1 # ?n) 0)"
      if "streams si (Write_end ?n) s1" "process s1 = 1 # ?n" "pipes_made s1 = 0" for s1
      using Compound.IH(1) [OF that(1)] that(2,3) by simp
    have B: "similar (implements s1) (execute_command k b s1) (eval k b (Read_end ?n) so (0 # ?n) 0)"
      if "streams (Read_end ?n) so s1" "process s1 = 0 # ?n" "pipes_made s1 = 0" for s1
      using Compound.IH(2) [OF that(1)] that(2,3) by simp
    have p: "similar (\<lambda>(e, s') v. v = Done e (Suc (pipes_made s)) \<and> pipes_made s' = Suc (pipes_made s)
        \<and> process s' = process s \<and> (\<forall>i. fd_get i (fds s') = fd_get i (fds s)))
      (exe_pipe_command k (execute_command k a) (execute_command k b) s)
      (eval k (Compound l st inp out t a b) si so (process s) (pipes_made s))"
      unfolding eval.simps if_P [OF True] by (rule pipe_implements [OF Compound.prems refl refl A B])
    have "similar (implements s) (execute_command k (Compound l st inp out t a b) s)
      (and_then (eval k (Compound l st inp out t a b) si so (process s) (pipes_made s)) ret)"
      unfolding execute_command.simps if_P [OF True]
      by (rule similar_and_then [OF p]) (auto intro!: similar_ret)
    then show ?thesis by simp
  next
    case False
    have b: "similar (implements s)
        (and_then (execute_command k b s1) (\<lambda>r. case r of Exited e \<Rightarrow> ret (Exited e)
           | Running b' s2 \<Rightarrow> ret (Running (Compound l (cmd_status b') inp out t a' b') s2)))
        (and_then (eval k b si so (process s) (pipes_made s1)) ret)"
      if s1: "process s1 = process s" "\<forall>i. fd_get i (fds s1) = fd_get i (fds s)" for a' s1
    proof (rule similar_and_then)
      have "streams si so s1" using Compound.prems s1(2) by (simp add: streams_def)
      from Compound.IH(2) [OF this] show "similar (implements s1) (execute_command k b s1) (eval k b si so (process s) (pipes_made s1))"
        using s1(1) by simp
      show "similar (implements s) (case x of Exited e \<Rightarrow> ret (Exited e)
          | Running b' s2 \<Rightarrow> ret (Running (Compound l (cmd_status b') inp out t a' b') s2)) (ret y)" if "implements s1 x y" for x y
        using that by (cases rule: implements_cases) (use s1 in \<open>auto intro!: similar_ret\<close>)
    qed
    show ?thesis
      unfolding execute_command.simps eval.simps if_not_P [OF False]
    proof (rule similar_and_then [OF Compound.IH(1) [OF Compound.prems]])
      show "similar (implements s)
          (case x of Exited e \<Rightarrow> ret (Exited e)
           | Running a' s1 \<Rightarrow>
               if t = AND_COMMAND \<and> cmd_status a' \<noteq> 0 \<or> t = OR_COMMAND \<and> cmd_status a' = 0
               then ret (Running (Compound l (cmd_status a') inp out t a' b) s1)
               else and_then (execute_command k b s1) (\<lambda>r. case r of Exited e \<Rightarrow> ret (Exited e)
                  | Running b' s2 \<Rightarrow> ret (Running (Compound l (cmd_status b') inp out t a' b') s2)))
          (case y of Quit e \<Rightarrow> ret (Quit e)
           | Done e m \<Rightarrow> if t = AND_COMMAND \<and> e \<noteq> 0 \<or> t = OR_COMMAND \<and> e = 0 then ret (Done e m)
               else eval k b si so (process s) m)"
        if "implements s x y" for x y
        using that
      proof (cases rule: implements_cases)
        case (Done a' s1)
        then show ?thesis using b [OF Done(3,4)] by (auto intro!: similar_ret)
      next
        case (Quit e)
        then show ?thesis by (auto intro!: similar_ret)
      qed
    qed
  qed
qed

text \<open>C16: Executing a command on the table of file descriptors has exactly the behaviours that the command means
  (\<open>eval\<close>), action by action and with the same statuses, where both sides of a pipe and the shell run at the same time
  and their actions are interleaved in every way: every program runs with the standard streams that the redirections and
  pipes around it say, the statuses decide what runs next, and when the command returns every descriptor of the shell is
  what it was before. (All calls of \<open>fork\<close> and \<open>pipe\<close> succeed.)\<close>

theorem execute_command_correct:
  assumes "fd_get 0 (fds s) = Some si" "fd_get 1 (fds s) = Some so"
  shows "((t, None) \<in> execute_command k c s \<longleftrightarrow> (t, None) \<in> eval k c si so (process s) (pipes_made s))
    \<and> ((t, Some (Done st n)) \<in> eval k c si so (process s) (pipes_made s) \<longleftrightarrow>
         (\<exists>c' s'. (t, Some (Running c' s')) \<in> execute_command k c s \<and> command_status c' = st \<and> pipes_made s' = n))
    \<and> ((t, Some (Quit st)) \<in> eval k c si so (process s) (pipes_made s) \<longleftrightarrow> (t, Some (Exited st)) \<in> execute_command k c s)
    \<and> (\<forall>c' s'. (t, Some (Running c' s')) \<in> execute_command k c s \<longrightarrow>
         process s' = process s \<and> (\<forall>i. fd_get i (fds s') = fd_get i (fds s)))"
proof -
  have "streams si so s" using assms by (simp add: streams_def)
  note S = similarD [OF execute_implements [OF this, of k c]]
  have 1: "(t, Some (Done st n)) \<in> eval k c si so (process s) (pipes_made s) \<longleftrightarrow>
      (\<exists>c' s'. (t, Some (Running c' s')) \<in> execute_command k c s \<and> command_status c' = st \<and> pipes_made s' = n)"
    unfolding command_status_def
  proof
    assume "(t, Some (Done st n)) \<in> eval k c si so (process s) (pipes_made s)"
    then obtain x where "(t, Some x) \<in> execute_command k c s" "implements s x (Done st n)" using S(3) by blast
    then show "\<exists>c' s'. (t, Some (Running c' s')) \<in> execute_command k c s \<and> cmd_status c' = st \<and> pipes_made s' = n"
      by (cases x) auto
  next
    assume "\<exists>c' s'. (t, Some (Running c' s')) \<in> execute_command k c s \<and> cmd_status c' = st \<and> pipes_made s' = n"
    then obtain c' s' y where "(t, Some y) \<in> eval k c si so (process s) (pipes_made s)" "implements s (Running c' s') y"
      "cmd_status c' = st" "pipes_made s' = n" using S(2) by blast
    then show "(t, Some (Done st n)) \<in> eval k c si so (process s) (pipes_made s)" by (cases y) auto
  qed
  have 2: "(t, Some (Quit st)) \<in> eval k c si so (process s) (pipes_made s) \<longleftrightarrow> (t, Some (Exited st)) \<in> execute_command k c s"
  proof
    assume "(t, Some (Quit st)) \<in> eval k c si so (process s) (pipes_made s)"
    then obtain x where "(t, Some x) \<in> execute_command k c s" "implements s x (Quit st)" using S(3) by blast
    then show "(t, Some (Exited st)) \<in> execute_command k c s" by (cases x) auto
  next
    assume "(t, Some (Exited st)) \<in> execute_command k c s"
    then obtain y where "(t, Some y) \<in> eval k c si so (process s) (pipes_made s)" "implements s (Exited st) y" using S(2) by blast
    then show "(t, Some (Quit st)) \<in> eval k c si so (process s) (pipes_made s)" by (cases y) auto
  qed
  have 3: "process s' = process s \<and> (\<forall>i. fd_get i (fds s') = fd_get i (fds s))"
    if r: "(t, Some (Running c' s')) \<in> execute_command k c s" for c' s'
  proof -
    obtain y where "implements s (Running c' s') y" using S(2) [OF r] by blast
    then show ?thesis by (cases y) auto
  qed
  show ?thesis using S(1) 1 2 3 by blast
qed

text \<open>A world that is the text written so far; programs add their first word and fail when it is \<open>f\<close>.\<close>

definition sample_kernel :: "string kernel" where
  "sample_kernel = \<lparr>can_read = (\<lambda>f w. f \<noteq> ''none''), create_file = (\<lambda>f w. Some (w @ ''>'')), can_exec = (\<lambda>ws w. ws \<noteq> []),
     run_program = (\<lambda>ws i out. atomic (\<lambda>w. (w @ List.hd ws, if List.hd ws = ''f'' then 1 else 0))),
     pipe_effect = (\<lambda>e p w. w)\<rparr>"

definition sample_shell :: shell where
  "sample_shell = \<lparr>fds = [Some Terminal, Some Terminal, Some Terminal], process = [], pipes_made = 0\<rparr>"

lemma sample_happens: "([(w, w)], Some ()) \<in> happens sample_kernel e name"
  unfolding happens_def by (rule atomicI) (simp add: sample_kernel_def)

lemma sample_side:
  assumes "(u, Some r) \<in> m"
  shows "((w, w) # u @ [(w', w')], Some (final_status r)) \<in> side sample_kernel closes ends name m"
proof -
  have "([(w, w)] @ u @ [(w', w')] @ [], Some (final_status r)) \<in> side sample_kernel closes ends name m"
    unfolding side_def by (intro and_thenI [OF sample_happens] and_thenI [OF assms]) simp
  then show ?thesis by simp
qed

lemma sample_words:
  assumes "words \<noteq> []"
  shows "([(w, w), (v, v @ List.hd words)], Some (if List.hd words = ''f'' then 1 else 0)) \<in> run_words sample_kernel words si so"
proof -
  have p: "([(v, v @ List.hd words)], Some (if List.hd words = ''f'' then 1 else 0)) \<in> run_program sample_kernel words (Some si) (Some so)"
    unfolding sample_kernel_def kernel.simps by (rule atomicI) simp
  have c: "([(w, w)], Some True) \<in> atomic (\<lambda>w. (w, can_exec sample_kernel words w))"
    by (rule atomicI) (use assms in \<open>simp add: sample_kernel_def\<close>)
  have "([(w, w)] @ [(v, v @ List.hd words)] @ [], Some (if List.hd words = ''f'' then 1 else 0)) \<in> run_words sample_kernel words si so"
    unfolding run_words_def by (rule and_thenI [OF c], simp only: if_True, rule and_thenI [OF p]) simp
  then show ?thesis by simp
qed

lemma sample_simple:
  assumes "words \<noteq> []" "List.hd words \<noteq> ''exec''"
  shows "([(w, w), (v, v @ List.hd words)], Some (Done (if List.hd words = ''f'' then 1 else 0) n))
      \<in> eval sample_kernel (Simple l st None None words) si so me n"
    "([(u, u @ ''>''), (w, w), (v, v @ List.hd words)], Some (Done (if List.hd words = ''f'' then 1 else 0) n))
      \<in> eval sample_kernel (Simple l st None (Some x) words) si so me n"
proof -
  have e: "\<not> (words \<noteq> [] \<and> List.hd words = ''exec'')" using assms(2) by simp
  have w: "([(w, w), (v, v @ List.hd words)] @ [], Some (Done (if List.hd words = ''f'' then 1 else 0) n))
      \<in> and_then (run_words sample_kernel words si so) (\<lambda>e. ret (Done e n))" for so
    by (rule and_thenI [OF sample_words [OF assms(1)]]) simp
  have r: "([(u, u @ ''>'')], Some (Some (si, Output_file x))) \<in> redirected sample_kernel None (Some x) si so"
    unfolding redirected_def option.case and_then_ret by (rule atomicI) (simp add: sample_kernel_def)
  show "([(w, w), (v, v @ List.hd words)], Some (Done (if List.hd words = ''f'' then 1 else 0) n))
      \<in> eval sample_kernel (Simple l st None None words) si so me n"
    using w [of so] unfolding eval.simps redirected_def option.case and_then_ret prod.case if_not_P [OF e] by simp
  have "([(u, u @ ''>'')] @ [(w, w), (v, v @ List.hd words)] @ [], Some (Done (if List.hd words = ''f'' then 1 else 0) n))
      \<in> eval sample_kernel (Simple l st None (Some x) words) si so me n"
    unfolding eval.simps by (rule and_thenI [OF r]) (use w in \<open>simp only: option.case prod.case if_not_P [OF e]\<close>)
  then show "([(u, u @ ''>''), (w, w), (v, v @ List.hd words)], Some (Done (if List.hd words = ''f'' then 1 else 0) n))
      \<in> eval sample_kernel (Simple l st None (Some x) words) si so me n" by simp
qed

lemma sample_pipe:
  assumes "(u, Some ra) \<in> eval sample_kernel a si (Write_end (n # me)) (1 # n # me) 0"
    "(v, Some rb) \<in> eval sample_kernel b (Read_end (n # me)) so (0 # n # me) 0"
    "lt \<in> shuffles ((w1, w1) # u @ [(w2, w2)]) [(w3, w3)]" "t \<in> shuffles ((w4, w4) # v @ [(w5, w5)]) lt"
    "e = final_status ra \<or> e = final_status rb"
  shows "((w0, w0) # t, Some (Done e (Suc n))) \<in> eval sample_kernel (Compound l st inp out PIPE_COMMAND a b) si so me n"
proof -
  note p = parallelI [OF sample_side [OF assms(2), where closes = Closed_by_right and ends = Right_ends and name = "n # me"]
      parallelI [OF sample_side [OF assms(1), where closes = Closed_by_left and ends = Left_ends and name = "n # me"]
        sample_happens [of w3 Closed_by_parent "n # me"] assms(3)] assms(4)]
  have o: "([] @ [], Some (Done e (Suc n))) \<in> and_then (one_of {final_status ra, final_status rb}) (\<lambda>e. ret (Done e (Suc n)))"
    by (rule and_thenI [where x = e]) (use assms(5) in auto)
  have "([(w0, w0)] @ t @ [] @ [], Some (Done e (Suc n))) \<in> eval sample_kernel (Compound l st inp out PIPE_COMMAND a b) si so me n"
    unfolding eval.simps if_P [OF refl]
    by (rule and_thenI [OF sample_happens], rule and_thenI [OF p]) (use o in \<open>simp only: prod.case\<close>)
  then show ?thesis by simp
qed

text \<open>\<open>a | b > x\<close>: here the right side creates its file before the left side runs its program.\<close>

definition sample_command :: command where
  "sample_command = Compound 1 (-1) None None PIPE_COMMAND (Simple 1 (-1) None None [''a'']) (Simple 1 (-1) None (Some ''x'') [''b''])"

definition sample_trace :: "string trace" where
  "sample_trace = [('''', ''''), ('''', ''''), ('''', ''>''), (''>'', ''>''), (''>'', ''>''), (''>'', ''>a''), (''>a'', ''>a''),
     (''>a'', ''>a''), (''>a'', ''>ab''), (''>ab'', ''>ab''), (''>ab'', ''>ab'')]"

theorem execute_command_correct_witness:
  "\<exists>c' s'. (sample_trace, Some (Running c' s')) \<in> execute_command sample_kernel sample_command sample_shell
     \<and> chained '''' sample_trace ''>ab'' \<and> command_status c' = 0 \<and> pipes_made s' = 1
     \<and> (\<forall>i. fd_get i (fds s') = fd_get i (fds sample_shell))"
proof -
  have a: "([(''>'', ''>''), (''>'', ''>a'')], Some (Done 0 0))
      \<in> eval sample_kernel (Simple 1 (-1) None None [''a'']) Terminal (Write_end [0]) [1, 0] 0"
    using sample_simple(1) [of "[''a'']" "''>''" "''>''" 0 1 "-1" Terminal "Write_end [0]" "[1, 0]"] by (simp del: eval.simps)
  have b: "([('''', ''>''), (''>a'', ''>a''), (''>a'', ''>ab'')], Some (Done 0 0))
      \<in> eval sample_kernel (Simple 1 (-1) None (Some ''x'') [''b'']) (Read_end [0]) Terminal [0, 0] 0"
    using sample_simple(2) [of "[''b'']" "''''" "''>a''" "''>a''" 0 1 "-1" "''x''" "Read_end [0]" Terminal "[0, 0]"] by (simp del: eval.simps)
  have "(sample_trace, Some (Done 0 (Suc 0))) \<in> eval sample_kernel sample_command Terminal Terminal [] 0"
    unfolding sample_trace_def sample_command_def
    by (rule sample_pipe [OF a b, where ?w1.0 = "''>''" and ?w2.0 = "''>a''" and ?w3.0 = "''>ab''" and ?w4.0 = "''''" and ?w5.0 = "''>ab''"
        and lt = "[(''>'', ''>''), (''>'', ''>''), (''>'', ''>a''), (''>a'', ''>a''), (''>ab'', ''>ab'')]"])
      (simp_all add: Cons_in_shuffles_iff del: shuffles.simps(3))
  then have e: "(sample_trace, Some (Done 0 1)) \<in> eval sample_kernel sample_command Terminal Terminal (process sample_shell) (pipes_made sample_shell)"
    by (simp add: sample_shell_def)
  have s: "fd_get 0 (fds sample_shell) = Some Terminal" "fd_get 1 (fds sample_shell) = Some Terminal"
    by (simp_all add: sample_shell_def fd_get_def)
  have "chained '''' sample_trace ''>ab''" by (simp add: sample_trace_def)
  then show ?thesis using execute_command_correct [OF s, of sample_trace sample_kernel sample_command 0 1] e by blast
qed

section \<open>Deviations\<close>

text \<open>\<open>a | f\<close>: when the right process ends first, the status is that of the left one: the failure of
  the last command of the pipe is lost.\<close>

lemma pipe_status_of_left:
  "\<exists>t. chained '''' t ''fa'' \<and> (t, Some (Done 0 1)) \<in> eval sample_kernel (Compound 1 (-1) None None PIPE_COMMAND
      (Simple 1 (-1) None None [''a'']) (Simple 1 (-1) None None [''f''])) Terminal Terminal [] 0"
proof -
  have f: "([('''', ''''), ('''', ''f'')], Some (Done 1 0))
      \<in> eval sample_kernel (Simple 1 (-1) None None [''f'']) (Read_end [0]) Terminal [0, 0] 0"
    using sample_simple(1) [of "[''f'']" "''''" "''''" 0 1 "-1" "Read_end [0]" Terminal "[0, 0]"] by (simp del: eval.simps)
  have a: "([(''f'', ''f''), (''f'', ''fa'')], Some (Done 0 0))
      \<in> eval sample_kernel (Simple 1 (-1) None None [''a'']) Terminal (Write_end [0]) [1, 0] 0"
    using sample_simple(1) [of "[''a'']" "''f''" "''f''" 0 1 "-1" Terminal "Write_end [0]" "[1, 0]"] by (simp del: eval.simps)
  let ?r = "[('''', ''''), ('''', ''''), ('''', ''f''), (''f'', ''f'')]"
  let ?l = "[(''f'', ''f''), (''f'', ''f''), (''f'', ''fa''), (''fa'', ''fa''), (''fa'', ''fa'')]"
  have "(('''', '''') # ?r @ ?l, Some (Done 0 (Suc 0))) \<in> eval sample_kernel (Compound 1 (-1) None None PIPE_COMMAND
      (Simple 1 (-1) None None [''a'']) (Simple 1 (-1) None None [''f''])) Terminal Terminal [] 0"
    by (rule sample_pipe [OF a f, where ?w1.0 = "''f''" and ?w2.0 = "''fa''" and ?w3.0 = "''fa''" and ?w4.0 = "''''" and ?w5.0 = "''f''" and lt = ?l])
      (simp_all add: Cons_in_shuffles_iff del: shuffles.simps(3))
  then show ?thesis by (intro exI [of _ "('''', '''') # ?r @ ?l"]) simp
qed

text \<open>A file that cannot be opened ends the whole script.\<close>

lemma missing_file_ends_script:
  "main_loop sample_kernel (Simple 1 (-1) (Some ''none'') None [''a''] # cs) None sample_shell = atomic (\<lambda>w. (w, 1))"
proof -
  let ?c = "Simple 1 (-1) (Some ''none'') None [''a'']"
  have n: "redirect_input sample_kernel (Some ''none'') s = atomic (\<lambda>w. (w, None))" for s
    by (simp add: redirect_input_def sample_kernel_def)
  have r: "redirect sample_kernel (Some ''none'') None s = atomic (\<lambda>w. (w, None))" for s
    unfolding redirect_def n by (rule atomic_then) simp
  have "execute_command sample_kernel ?c sample_shell = atomic (\<lambda>w. (w, Exited 1))"
    unfolding execute_command.simps with_redirection_def r Let_def split_def by (rule atomic_then) simp
  then show ?thesis unfolding main_loop.simps by (simp only:) (rule atomic_then, simp)
qed

end
