(* ===== verification/PeerScan.thy ===== *)
theory PeerScan
  imports CharType
begin

text \<open>
  The messages of the peer-to-peer protocol (\<open>lab4/writescan.c\<close>): quoting of strings, the
  formatted writer \<open>osp2p_writef\<close> up to the buffer it sends, and the formatted scanner
  \<open>osp2p_vsnscanf\<close>. An address is a word in host byte order.
\<close>

section \<open>Quoting\<close>

definition is_plain :: "char \<Rightarrow> bool" where
  "is_plain c \<longleftrightarrow> is_alnum c \<or> c \<in> {CHR ''$'', CHR ''-'', CHR ''_'', CHR ''.'', CHR ''+'', CHR ''!'', CHR ''*'',
     CHR 0x27, CHR ''('', CHR '')'', CHR '',''}"

definition hex_digit :: "nat \<Rightarrow> char" where
  "hex_digit d = ''0123456789ABCDEF'' ! d"

definition quote_char :: "char \<Rightarrow> string" where
  "quote_char c = (if is_plain c then [c] else [CHR ''%'', hex_digit (code c div 16), hex_digit (code c mod 16)])"

definition http_quote :: "string \<Rightarrow> string" where
  "http_quote s = concat (map quote_char s)"

definition xvalue :: "char \<Rightarrow> nat" where
  "xvalue c = (if is_digit c then code c - 48 else code (to_lower c) - 97 + 10)"

section \<open>The writer\<close>

text \<open>The size that \<open>ensure_buf\<close> leaves.\<close>

definition ensure_buf :: "nat \<Rightarrow> nat \<Rightarrow> nat" where
  "ensure_buf capacity len = (if len \<ge> capacity then len + 2048 else capacity)"

datatype arg = Str string | Addr u32 | Num int

definition show_addr :: "u32 \<Rightarrow> string" where
  "show_addr a = show_nat (unat (drop_bit 24 a AND 255)) @ CHR ''.'' # show_nat (unat (drop_bit 16 a AND 255))
     @ CHR ''.'' # show_nat (unat (drop_bit 8 a AND 255)) @ CHR ''.'' # show_nat (unat (a AND 255))"

text \<open>\<open>None\<close>: an argument is missing or not of the type of its conversion, which is undefined in C.\<close>

fun writef :: "string \<Rightarrow> arg list \<Rightarrow> string option" where
  "writef [] args = Some []"
| "writef [f] args = Some [f]"
| "writef (f # g # fs) args =
     (if f = CHR ''%'' \<and> g = CHR ''s'' then
        (case args of Str str # as \<Rightarrow> map_option ((@) (http_quote str)) (writef fs as) | _ \<Rightarrow> None)
      else if f = CHR ''%'' \<and> g = CHR ''d'' then
        (case args of Num i # as \<Rightarrow> map_option ((@) (show_int i)) (writef fs as) | _ \<Rightarrow> None)
      else if f = CHR ''%'' \<and> g = CHR ''I'' then
        (case args of Addr a # as \<Rightarrow> map_option ((@) (show_addr a)) (writef fs as) | _ \<Rightarrow> None)
      else if f = CHR ''%'' \<and> g = CHR ''%'' then map_option ((#) (CHR ''%'')) (writef fs args)
      else map_option ((#) f) (writef (g # fs) args))"

section \<open>The scanner\<close>

text \<open>
  The text that is scanned is the memory \<open>s\<close> from the cursor on, with \<open>n\<close> the distance to the end;
  \<open>n\<close> gets negative when the cursor runs over the end. \<open>None\<close> is a read outside the memory.
\<close>

fun scan_string :: "string \<Rightarrow> int \<Rightarrow> (string \<times> string \<times> int) option" where
  "scan_string [] n = (if n = 0 then Some ([], [], 0) else None)"
| "scan_string (c # s) n =
     (if n = 0 \<or> is_space c then Some ([], c # s, n)
      else if c = CHR ''%'' then
        (case s of
           [] \<Rightarrow> None
         | a # s1 \<Rightarrow>
             if \<not> is_xdigit a then map_option (\<lambda>(x, r). (c # x, r)) (scan_string s (n - 1))
             else
               (case s1 of
                  [] \<Rightarrow> None
                | b # s2 \<Rightarrow>
                    if \<not> is_xdigit b then map_option (\<lambda>(x, r). (c # x, r)) (scan_string s (n - 1))
                    else map_option (\<lambda>(x, r). (char_of (xvalue a * 16 + xvalue b) # x, r)) (scan_string s2 (n - 3))))
      else map_option (\<lambda>(x, r). (c # x, r)) (scan_string s (n - 1)))"

text \<open>One number of an address: it starts with \<open>x = -1\<close> and stops above 255.\<close>

fun scan_octet :: "string \<Rightarrow> int \<Rightarrow> int \<Rightarrow> int \<times> string \<times> int" where
  "scan_octet [] n x = (x, [], n)"
| "scan_octet (c # s) n x =
     (if n \<noteq> 0 \<and> is_digit c \<and> x \<le> 255
      then scan_octet s (n - 1) ((if x < 0 then 0 else 10 * x) + int (digit_of c))
      else (x, c # s, n))"

text \<open>\<open>k\<close> numbers are left to read.\<close>

fun scan_addr :: "nat \<Rightarrow> string \<Rightarrow> int \<Rightarrow> u32 \<Rightarrow> (u32 \<times> string \<times> int) option" where
  "scan_addr 0 s n v = Some (v, s, n)"
| "scan_addr (Suc k) s n v =
     (case scan_octet s n (-1) of
        (x, s1, n1) \<Rightarrow>
          if x < 0 \<or> x > 255 \<or> k > 0 \<and> (n1 = 0 \<or> s1 = [] \<or> List.hd s1 \<noteq> CHR ''.'') then None
          else if k > 0 then scan_addr k (List.tl s1) (n1 - 1) (push_bit 8 v + word_of_int x)
          else scan_addr k s1 n1 (push_bit 8 v + word_of_int x))"

fun scan_digits :: "string \<Rightarrow> int \<Rightarrow> int \<Rightarrow> int \<times> string \<times> int" where
  "scan_digits [] n v = (v, [], n)"
| "scan_digits (c # s) n v =
     (if n \<noteq> 0 \<and> is_digit c \<and> v < (2147483647 - int (digit_of c)) div 10
      then scan_digits s (n - 1) (10 * v + int (digit_of c))
      else (v, c # s, n))"

definition scan_int :: "string \<Rightarrow> int \<Rightarrow> (int \<times> string \<times> int) option" where
  "scan_int s n =
     (if n = 0 \<or> s = [] \<or> \<not> is_digit (List.hd s) then None
      else (case scan_digits s n 0 of (v, s1, n1) \<Rightarrow>
        if n1 \<noteq> 0 \<and> s1 \<noteq> [] \<and> is_digit (List.hd s1) then None else Some (v, s1, n1)))"

fun skip_space :: "string \<Rightarrow> int \<Rightarrow> string \<times> int" where
  "skip_space [] n = ([], n)"
| "skip_space (c # s) n = (if n \<noteq> 0 \<and> is_space c then skip_space s (n - 1) else (c # s, n))"

text \<open>The conversions, \<open>None\<close> when the text does not match. \<open>len\<close> is for \<open>%n\<close>.\<close>

definition conversion :: "char \<Rightarrow> int \<Rightarrow> string \<Rightarrow> int \<Rightarrow> (arg list \<times> string \<times> int) option" where
  "conversion g len s n =
     (if g = CHR ''s'' then map_option (\<lambda>(x, r). ([Str x], r)) (scan_string s n)
      else if g = CHR ''I'' then map_option (\<lambda>(x, r). ([Addr x], r)) (scan_addr 4 s n 0)
      else if g = CHR ''d'' then map_option (\<lambda>(x, r). ([Num x], r)) (scan_int s n)
      else if g = CHR ''n'' then Some ([Num (len - n)], s, n)
      else if n = 0 \<or> s = [] \<or> List.hd s \<noteq> CHR ''%'' then None else Some ([], List.tl s, n - 1))"

definition is_conversion :: "string \<Rightarrow> bool" where
  "is_conversion format \<longleftrightarrow> (case format of
     f # g # fs \<Rightarrow> f = CHR ''%'' \<and> g \<in> {CHR ''s'', CHR ''I'', CHR ''d'', CHR ''n'', CHR ''%''} | _ \<Rightarrow> False)"

text \<open>The loop over the format: what has been stored in the arguments, and whether all of it matched.\<close>

function scan_loop :: "int \<Rightarrow> string \<Rightarrow> string \<Rightarrow> int \<Rightarrow> arg list \<times> bool" where
  "scan_loop len [] s n = ([], True)"
| "scan_loop len (f # fs) s n =
     (if is_conversion (f # fs) then
        (case conversion (List.hd fs) len s n of
           None \<Rightarrow> ([], False)
         | Some (xs, s1, n1) \<Rightarrow> map_prod ((@) xs) id (scan_loop len (List.tl fs) s1 n1))
      else if n = 0 \<or> s = [] then ([], False)
      else if is_space f then
        (if \<not> is_space (List.hd s) then ([], False)
         else (case skip_space s n of (s1, n1) \<Rightarrow> scan_loop len (dropWhile is_space fs) s1 n1))
      else if List.hd s \<noteq> f then ([], False)
      else scan_loop len fs (List.tl s) (n - 1))"
  by pat_completeness auto
termination
  by (relation "measure (\<lambda>(len, f, s, n). length f)") (auto simp: le_imp_less_Suc length_dropWhile_le)

definition vsnscanf :: "int \<Rightarrow> string \<Rightarrow> string \<Rightarrow> int \<Rightarrow> arg list option" where
  "vsnscanf len format s n = (case scan_loop len format s n of (xs, matched) \<Rightarrow> if matched then Some xs else None)"

lemma vsnscanf_simps [simp]:
  "vsnscanf len [] s n = Some []"
  "vsnscanf len (f # fs) s n =
     (if is_conversion (f # fs) then
        (case conversion (List.hd fs) len s n of
           None \<Rightarrow> None
         | Some (xs, s1, n1) \<Rightarrow> map_option ((@) xs) (vsnscanf len (List.tl fs) s1 n1))
      else if n = 0 \<or> s = [] then None
      else if is_space f then
        (if \<not> is_space (List.hd s) then None
         else (case skip_space s n of (s1, n1) \<Rightarrow> vsnscanf len (dropWhile is_space fs) s1 n1))
      else if List.hd s \<noteq> f then None
      else vsnscanf len fs (List.tl s) (n - 1))"
  by (auto simp: vsnscanf_def split: option.splits prod.splits)

text \<open>\<open>osp2p_snscanf\<close> on the first \<open>len\<close> characters of the memory, \<open>osp2p_sscanf\<close> on a string with its
  terminator.\<close>

definition snscanf :: "string \<Rightarrow> nat \<Rightarrow> string \<Rightarrow> arg list option" where
  "snscanf s len format = vsnscanf (int len) format s (int len)"

definition sscanf_stored :: "string \<Rightarrow> string \<Rightarrow> arg list \<times> bool" where
  "sscanf_stored s format = scan_loop (int (length s)) format (s @ [CHR 0x00]) (int (length s))"

definition sscanf :: "string \<Rightarrow> string \<Rightarrow> arg list option" where
  "sscanf s format = snscanf (s @ [CHR 0x00]) (length s) format"

end
