(* ===== verification/PeerTask.thy ===== *)
theory PeerTask
  imports PeerScan
begin

text \<open>
  The peer of the file sharing network (\<open>lab4/osppeer.c\<close>): tasks and their bounded buffer, the
  response of the tracker, the list of peers, downloads and uploads. The network and the disk
  deliver and take bytes in pieces of any size; a schedule says what each system call does.
\<close>

section \<open>Tasks\<close>

abbreviation (input) "TASKBUFSIZ \<equiv> 100000 :: nat"
abbreviation (input) "FILENAMESIZ \<equiv> 256 :: nat"

datatype tasktype = TASK_TRACKER | TASK_PEER_LISTEN | TASK_UPLOAD | TASK_DOWNLOAD

record peer =
  peer_alias :: string
  addr :: u32
  port :: int

text \<open>\<open>buf\<close> maps positions to bytes.\<close>

record task =
  tasktype :: tasktype
  peer_fd :: int
  disk_fd :: int
  buf :: "nat \<Rightarrow> char"
  head :: u32
  tail :: u32
  total_written :: u32
  filename :: string
  disk_filename :: string
  peer_list :: "peer list"

definition task_new :: "tasktype \<Rightarrow> (nat \<Rightarrow> char) \<Rightarrow> task" where
  "task_new tt uninitialised = \<lparr>tasktype = tt, peer_fd = -1, disk_fd = -1, buf = uninitialised, head = 0, tail = 0,
     total_written = 0, filename = [], disk_filename = [], peer_list = []\<rparr>"

text \<open>Also the descriptors that are closed, in order.\<close>

definition task_pop_peer :: "task \<Rightarrow> int list \<times> task" where
  "task_pop_peer t =
     ((if peer_fd t \<ge> 0 then [peer_fd t] else []) @ (if disk_fd t \<ge> 0 then [disk_fd t] else []),
      t\<lparr>peer_fd := -1, disk_fd := -1, head := 0, tail := 0, total_written := 0, disk_filename := [],
        peer_list := List.tl (peer_list t)\<rparr>)"

function task_free :: "task \<Rightarrow> int list" where
  "task_free t = (case task_pop_peer t of (closed, t1) \<Rightarrow> if peer_list t1 \<noteq> [] then closed @ task_free t1 else closed)"
  by pat_completeness auto
termination
proof (relation "measure (\<lambda>t. length (peer_list t))", goal_cases)
  case (2 t closed t1)
  then show ?case by (cases "peer_list t") (auto simp: task_pop_peer_def)
qed simp

declare task_free.simps [simp del]

section \<open>The task buffer\<close>

datatype taskbufresult = TBUF_ERROR | TBUF_END | TBUF_OK | TBUF_AGAIN

text \<open>What one system call does: nothing for now, an error, or at most \<open>Suc n\<close> bytes.\<close>

datatype io = Again | Fail | Chunk nat

definition headpos :: "task \<Rightarrow> nat" where
  "headpos t = unat (head t) mod TASKBUFSIZ"

definition tailpos :: "task \<Rightarrow> nat" where
  "tailpos t = unat (tail t) mod TASKBUFSIZ"

definition read_size :: "task \<Rightarrow> nat" where
  "read_size t = (if head t = tail t \<or> headpos t < tailpos t then TASKBUFSIZ - tailpos t else headpos t - tailpos t)"

definition store :: "nat \<Rightarrow> string \<Rightarrow> (nat \<Rightarrow> char) \<Rightarrow> nat \<Rightarrow> char" where
  "store pos bs b = (\<lambda>i. if pos \<le> i \<and> i < pos + length bs then bs ! (i - pos) else b i)"

text \<open>The descriptor is the bytes \<open>s\<close> that are still to come; what is left is returned.\<close>

definition read_to_taskbuf :: "io \<Rightarrow> string \<Rightarrow> task \<Rightarrow> taskbufresult \<times> string \<times> task" where
  "read_to_taskbuf call s t =
     (case call of
        Again \<Rightarrow> (TBUF_AGAIN, s, t)
      | Fail \<Rightarrow> (TBUF_ERROR, s, t)
      | Chunk n \<Rightarrow>
          (let bs = take (min (Suc n) (read_size t)) s
           in if bs = [] then (TBUF_END, s, t)
              else (TBUF_OK, drop (length bs) s,
                t\<lparr>buf := store (tailpos t) bs (buf t), tail := tail t + of_nat (length bs)\<rparr>)))"

definition write_chunk :: "task \<Rightarrow> string" where
  "write_chunk t = map (buf t) [headpos t..<(if headpos t < tailpos t then tailpos t else TASKBUFSIZ)]"

text \<open>The descriptor is the bytes \<open>out\<close> written so far.\<close>

definition write_from_taskbuf :: "io \<Rightarrow> string \<Rightarrow> task \<Rightarrow> taskbufresult \<times> string \<times> task" where
  "write_from_taskbuf call out t =
     (if head t = tail t then (TBUF_END, out, t)
      else
        (case call of
           Again \<Rightarrow> (TBUF_AGAIN, out, t)
         | Fail \<Rightarrow> (TBUF_ERROR, out, t)
         | Chunk n \<Rightarrow>
             (let bs = take (Suc n) (write_chunk t)
              in if bs = [] then (TBUF_END, out, t)
                 else (TBUF_OK, out @ bs,
                   t\<lparr>head := head t + of_nat (length bs), total_written := total_written t + of_nat (length bs)\<rparr>))))"

section \<open>The tracker\<close>

text \<open>
  The loop that looks for the last line of the response: \<open>Inr\<close> the start of the message, or \<open>Inl\<close>
  where to go on when more data has come.
\<close>

function scan_response :: "(nat \<Rightarrow> char) \<Rightarrow> nat \<Rightarrow> nat \<Rightarrow> nat option \<Rightarrow> (nat \<times> nat option) + nat" where
  "scan_response b len pos split_pos =
     (if pos + 3 < len then
        (if (pos = 0 \<or> b (pos - 1) = CHR 0x0A) \<and> is_digit (b pos) \<and> is_digit (b (pos + 1)) \<and> is_digit (b (pos + 2))
         then
           (let sp = (case split_pos of None \<Rightarrow> pos | Some p \<Rightarrow> p)
            in if pos + 4 \<ge> len then Inl (pos, Some sp)
               else if is_space (b (pos + 3)) \<and> b (len - 1) = CHR 0x0A then Inr sp
               else scan_response b len (pos + 1) (Some sp))
         else scan_response b len (pos + 1) split_pos)
      else Inl (pos, split_pos))"
  by pat_completeness auto
termination
  by (relation "measure (\<lambda>(b, len, pos, sp). len - pos)") auto

declare scan_response.simps [simp del]

text \<open>
  One schedule entry per read. \<open>None\<close>: the process dies, with a read error, a closed connection or
  a full buffer; or the calls of the schedule are used up. The terminator is stored behind the
  response, which for a full buffer is behind its end.
\<close>

fun tracker_loop :: "io list \<Rightarrow> string \<Rightarrow> nat \<Rightarrow> nat option \<Rightarrow> task \<Rightarrow> (nat \<times> string \<times> task) option" where
  "tracker_loop [] s pos sp t =
     (case scan_response (buf t) (unat (tail t)) pos sp of
        Inr m \<Rightarrow> Some (m, s, t\<lparr>buf := (buf t)(unat (tail t) := CHR 0x00)\<rparr>)
      | Inl _ \<Rightarrow> None)"
| "tracker_loop (call # calls) s pos sp t =
     (case scan_response (buf t) (unat (tail t)) pos sp of
        Inr m \<Rightarrow> Some (m, s, t\<lparr>buf := (buf t)(unat (tail t) := CHR 0x00)\<rparr>)
      | Inl (pos1, sp1) \<Rightarrow>
          (case read_to_taskbuf call s t of
             (ret, s1, t1) \<Rightarrow> if ret = TBUF_ERROR \<or> ret = TBUF_END then None else tracker_loop calls s1 pos1 sp1 t1))"

definition read_tracker_response :: "io list \<Rightarrow> string \<Rightarrow> task \<Rightarrow> (nat \<times> string \<times> task) option" where
  "read_tracker_response calls s t = tracker_loop calls s 0 None (t\<lparr>head := 0, tail := 0\<rparr>)"

definition parse_peer :: "string \<Rightarrow> nat \<Rightarrow> peer option" where
  "parse_peer s len =
     (case snscanf s len ''PEER %s %I:%d'' of
        Some [Str a, Addr i, Num p] \<Rightarrow> if p > 0 \<and> p \<le> 65535 then Some \<lparr>peer_alias = a, addr = i, port = p\<rparr> else None
      | _ \<Rightarrow> None)"

text \<open>
  The lines of the data portion, the first \<open>n\<close> characters of the memory \<open>s1\<close>; each peer is put
  before those read so far.
\<close>

function parse_peers :: "string \<Rightarrow> nat \<Rightarrow> peer list \<Rightarrow> peer list option" where
  "parse_peers s1 n peers =
     (if CHR 0x0A \<in> set (take n s1) then
        (let s2 = length (takeWhile (\<lambda>c. c \<noteq> CHR 0x0A) s1)
         in case parse_peer s1 s2 of
              None \<Rightarrow> None
            | Some p \<Rightarrow> parse_peers (drop (s2 + 1) s1) (n - (s2 + 1)) (p # peers))
      else if n \<noteq> 0 then None else Some peers)"
  by pat_completeness auto
termination
proof (relation "measure (\<lambda>(s, n, peers). n)", goal_cases)
  case (2 s1 n peers s2 p)
  then show ?case by (cases n) simp_all
qed simp

declare parse_peers.simps [simp del]

text \<open>A name of exactly 256 characters is copied with its terminator into 256 bytes: \<open>None\<close>.\<close>

definition copy_filename :: "string \<Rightarrow> string option" where
  "copy_filename f = (if length f > FILENAMESIZ then Some (take (FILENAMESIZ - 1) f)
     else if length f = FILENAMESIZ then None else Some f)"

section \<open>Transfers\<close>

text \<open>
  The loop of \<open>task_download\<close>, with one pair of calls per round: it ends with success or failure, or
  has used up the schedule (\<open>None\<close>).
\<close>

fun download_loop :: "(io \<times> io) list \<Rightarrow> string \<Rightarrow> string \<Rightarrow> task \<Rightarrow> (bool \<times> string \<times> task) option" where
  "download_loop [] s out t = None"
| "download_loop ((rd, wr) # calls) s out t =
     (case read_to_taskbuf rd s t of
        (ret, s1, t1) \<Rightarrow>
          if ret = TBUF_ERROR then Some (False, out, t1)
          else if ret = TBUF_END \<and> head t1 = tail t1 then Some (True, out, t1)
          else if total_written t1 > 20 * 1024 * 1024 then Some (False, out, t1)
          else
            (case write_from_taskbuf wr out t1 of
               (ret2, out1, t2) \<Rightarrow>
                 if ret2 = TBUF_ERROR then Some (False, out1, t2) else download_loop calls s1 out1 t2))"

text \<open>The loop of \<open>task_upload\<close> writes first.\<close>

fun upload_loop :: "(io \<times> io) list \<Rightarrow> string \<Rightarrow> string \<Rightarrow> task \<Rightarrow> (bool \<times> string \<times> task) option" where
  "upload_loop [] s out t = None"
| "upload_loop ((wr, rd) # calls) s out t =
     (case write_from_taskbuf wr out t of
        (ret, out1, t1) \<Rightarrow>
          if ret = TBUF_ERROR then Some (False, out1, t1)
          else
            (case read_to_taskbuf rd s t1 of
               (ret2, s1, t2) \<Rightarrow>
                 if ret2 = TBUF_ERROR then Some (False, out1, t2)
                 else if ret2 = TBUF_END \<and> head t2 = tail t2 then Some (True, out1, t2)
                 else upload_loop calls s1 out1 t2))"

section \<open>Downloads\<close>

text \<open>
  Local files by name; what happens with one peer: whether it can be reached, for which names \<open>open\<close> fails with
  another error than \<open>EEXIST\<close> (such as \<open>EMFILE\<close>, whether the file exists or not), what it sends in answer to a
  request, and the calls of the transfer.
\<close>

type_synonym files = "string \<Rightarrow> string option"

record attempt =
  connects :: bool
  create_error :: "string \<Rightarrow> bool"
  sent :: "string \<Rightarrow> string"
  io_calls :: "(io \<times> io) list"

text \<open>In evil mode 1 the name is a buffer of zeros, so the empty string.\<close>

definition get_request :: "int \<Rightarrow> string \<Rightarrow> string option" where
  "get_request evil_mode f = writef (''GET %s OSP2P'' @ [CHR 0x0A]) [Str (if evil_mode = 1 then [] else f)]"

definition numbered :: "string \<Rightarrow> nat \<Rightarrow> string" where
  "numbered f i = (if i = 0 then f else f @ CHR 0x7E # show_nat i @ [CHR 0x7E])"

datatype opened = Opened string | Open_error string | All_exist | Overrun

fun open_loop :: "(string \<Rightarrow> bool) \<Rightarrow> files \<Rightarrow> string \<Rightarrow> nat list \<Rightarrow> opened" where
  "open_loop err files f [] = All_exist"
| "open_loop err files f (i # is) =
     (let name = numbered f i
      in if length name \<ge> FILENAMESIZ then Overrun
         else if err name then Open_error name
         else if files name \<noteq> None then open_loop err files f is
         else Opened name)"

text \<open>A download that succeeds may be announced to the tracker with a message.\<close>

datatype download_result = No_peers | Too_many_files | Downloaded string "string option"

definition announcement :: "task \<Rightarrow> string \<Rightarrow> string option" where
  "announcement t name = (if filename t = name then writef (''HAVE %s'' @ [CHR 0x0A]) [Str (filename t)] else None)"

text \<open>
  \<open>task_download\<close> over the list of peers of the task. \<open>None\<close>: a transfer used up its schedule, or a
  numbered name overruns \<open>disk_filename\<close>. At \<open>try_again\<close> the local file of the attempt is unlinked.
\<close>

fun task_download :: "u32 \<Rightarrow> int \<Rightarrow> int \<Rightarrow> (peer \<Rightarrow> attempt) \<Rightarrow> peer list \<Rightarrow> task \<Rightarrow> files
    \<Rightarrow> (download_result \<times> files) option" where
  "task_download listen_addr listen_port evil env [] t files = Some (No_peers, files)"
| "task_download listen_addr listen_port evil env (p # ps) t files =
     (let again = task_download listen_addr listen_port evil env ps
      in if addr p = listen_addr \<and> port p = listen_port then again (snd (task_pop_peer t)) files
         else if \<not> connects (env p) then again (snd (task_pop_peer t)) files
         else
           (case get_request evil (filename t) of None \<Rightarrow> None | Some request \<Rightarrow>
             (case open_loop (create_error (env p)) files (filename t) [0..<50] of
                All_exist \<Rightarrow> Some (Too_many_files, files)
              | Overrun \<Rightarrow> None
              | Open_error name \<Rightarrow> again (snd (task_pop_peer t)) (files(name := None))
              | Opened name \<Rightarrow>
                  (case download_loop (io_calls (env p)) (sent (env p) request) [] t of
                     None \<Rightarrow> None
                   | Some (ok, out, t1) \<Rightarrow>
                       if ok \<and> total_written t1 > 0 then Some (Downloaded name (announcement t1 name), files(name \<mapsto> out))
                       else again (snd (task_pop_peer t1)) (files(name := None))))))"

section \<open>Uploads\<close>

text \<open>The request is read up to a line break or the end of the connection.\<close>

fun request_loop :: "io list \<Rightarrow> string \<Rightarrow> task \<Rightarrow> task option" where
  "request_loop [] s t = None"
| "request_loop (call # rest) s t =
     (case read_to_taskbuf call s t of
        (ret, s1, t1) \<Rightarrow>
          if ret = TBUF_ERROR then None
          else if ret = TBUF_END \<or> tail t1 \<noteq> 0 \<and> buf t1 (unat (tail t1 - 1)) = CHR 0x0A then Some t1
          else request_loop rest s1 t1)"

record directory =
  cwd :: "string option"
  realpath :: "string \<Rightarrow> string option"
  exists_file :: "string \<Rightarrow> bool"
  content :: "string \<Rightarrow> string option"

text \<open>\<open>strncmp\<close> over the length of the current path: the path must start with it.\<close>

definition may_serve :: "directory \<Rightarrow> string \<Rightarrow> bool" where
  "may_serve d f =
     (case (cwd d, realpath d f) of
        (Some curr_path, Some file_path) \<Rightarrow> exists_file d file_path \<and> take (length curr_path) file_path = curr_path
      | _ \<Rightarrow> False)"

text \<open>
  The file that is served: in evil mode 1 the endless \<open>/dev/zero\<close>, of which a schedule of \<open>n\<close> calls
  never sees the end.
\<close>

definition served :: "directory \<Rightarrow> int \<Rightarrow> nat \<Rightarrow> string \<Rightarrow> string option" where
  "served d evil_mode n f =
     (if evil_mode = 1 then Some (replicate (Suc n * TASKBUFSIZ) (CHR 0x00))
      else if \<not> may_serve d f then None else content d f)"

text \<open>
  What the peer that asks receives; \<open>None\<close>: nothing, the connection is closed, or the name in the
  request overruns \<open>filename\<close>.
\<close>

definition task_upload :: "directory \<Rightarrow> int \<Rightarrow> io list \<Rightarrow> string \<Rightarrow> (io \<times> io) list \<Rightarrow> task \<Rightarrow> string option" where
  "task_upload d evil_mode request_calls request transfer_calls t =
     (case request_loop request_calls request t of
        None \<Rightarrow> None
      | Some t1 \<Rightarrow>
          (case snscanf (map (buf t1) [0..<TASKBUFSIZ]) (unat (tail t1)) (''GET %s OSP2P'' @ [CHR 0x0A]) of
             Some [Str f] \<Rightarrow>
               if length f \<ge> FILENAMESIZ then None
               else
                 (case served d evil_mode (length transfer_calls) f of
                    None \<Rightarrow> None
                  | Some bytes \<Rightarrow>
                      (case upload_loop transfer_calls bytes [] (t1\<lparr>filename := f, head := 0, tail := 0\<rparr>) of
                         Some (True, out, t2) \<Rightarrow> Some out
                       | _ \<Rightarrow> None))
           | _ \<Rightarrow> None))"

end
