(* ===== verification/PeerMain.thy ===== *)
theory PeerMain
  imports PeerTask
begin

text \<open>
  What the peer does before it serves others (\<open>lab4/osppeer.c\<close>): the command line, the port it
  listens on, registration with the tracker, and the question for the peers that have a file.
\<close>

section \<open>The command line\<close>

text \<open>\<open>directories\<close> are the calls of \<open>chdir\<close>, \<open>chdir_ok\<close> says which sequences of them succeed.\<close>

record config =
  tracker_addr :: u32
  tracker_port :: int
  evil_mode :: int
  directories :: "string list"

fun store_tracker :: "arg list \<Rightarrow> config \<Rightarrow> config" where
  "store_tracker [] c = c"
| "store_tracker (Addr a # xs) c = store_tracker xs (c\<lparr>tracker_addr := a\<rparr>)"
| "store_tracker (Num p # xs) c = store_tracker xs (c\<lparr>tracker_port := p\<rparr>)"
| "store_tracker (Str s # xs) c = store_tracker xs c"

definition default_config :: config where
  "default_config = store_tracker (fst (sscanf_stored ''131.179.80.139:11111'' ''%I:%d''))
     \<lparr>tracker_addr = 0, tracker_port = 0, evil_mode = 0, directories = []\<rparr>"

text \<open>The three formats are tried in order; what a failed one has stored stays.\<close>

fun try_formats :: "string list \<Rightarrow> string \<Rightarrow> config \<Rightarrow> bool \<times> config" where
  "try_formats [] text c = (False, c)"
| "try_formats (format # formats) text c =
     (case sscanf_stored text format of
        (xs, matched) \<Rightarrow>
          if matched then (True, store_tracker xs c) else try_formats formats text (store_tracker xs c))"

definition port_ok :: "config \<Rightarrow> bool" where
  "port_ok c \<longleftrightarrow> tracker_port c > 0 \<and> tracker_port c \<le> 65535"

datatype command_line = Chdir_failed | Usage | Run config "string list"

definition scanned_mode :: "string \<Rightarrow> string \<Rightarrow> int option" where
  "scanned_mode text format = (case sscanf text format of Some [Num m] \<Rightarrow> Some m | _ \<Rightarrow> None)"

function argprocess :: "(string list \<Rightarrow> bool) \<Rightarrow> string list \<Rightarrow> config \<Rightarrow> command_line" where
  "argprocess chdir_ok [] c = Run c []"
| "argprocess chdir_ok (a # rest) c =
     (let (ok1, c1) = (if rest \<noteq> [] \<and> a = ''-t'' then try_formats [''%I:%d'', ''%d'', ''%I''] (List.hd rest) c else (False, c))
      in if ok1 \<and> port_ok c1 then argprocess chdir_ok (List.tl rest) c1
      else
        (let (ok2, c2) = (if take 2 a = ''-t'' then try_formats [''-t%I:%d'', ''-t%d'', ''-t%I''] a c1 else (False, c1))
         in if ok2 \<and> port_ok c2 then argprocess chdir_ok rest c2
         else if rest \<noteq> [] \<and> a = ''-d'' then
           (let c3 = c2\<lparr>directories := directories c2 @ [List.hd rest]\<rparr>
            in if chdir_ok (directories c3) then argprocess chdir_ok (List.tl rest) c3 else Chdir_failed)
         else if take 2 a = ''-d'' then
           (let c3 = c2\<lparr>directories := directories c2 @ [drop 2 a]\<rparr>
            in if chdir_ok (directories c3) then argprocess chdir_ok rest c3 else Chdir_failed)
         else if rest \<noteq> [] \<and> a = ''-b'' \<and> scanned_mode (List.hd rest) ''%d'' \<noteq> None
           then argprocess chdir_ok (List.tl rest) (c2\<lparr>evil_mode := the (scanned_mode (List.hd rest) ''%d'')\<rparr>)
         else if take 2 a = ''-b'' \<and> scanned_mode a ''-b%d'' \<noteq> None
           then argprocess chdir_ok rest (c2\<lparr>evil_mode := the (scanned_mode a ''-b%d'')\<rparr>)
         else if a = ''-b'' then argprocess chdir_ok rest (c2\<lparr>evil_mode := 1\<rparr>)
         else if a = ''--help'' \<or> a = ''-h'' then Usage
         else Run c2 (a # rest)))"
  by pat_completeness auto
termination
  by (relation "measure (\<lambda>(chdir_ok, args, c). length args)") auto

declare argprocess.simps [simp del]

section \<open>Listening\<close>

text \<open>What opening a listening socket on a port gives.\<close>

datatype bind_result = Bound | Address_in_use | Bind_error

fun listen_loop :: "(int \<Rightarrow> bind_result) \<Rightarrow> int list \<Rightarrow> int option" where
  "listen_loop open_socket [] = None"
| "listen_loop open_socket (p # ps) =
     (case open_socket p of Bound \<Rightarrow> Some p | Address_in_use \<Rightarrow> listen_loop open_socket ps | Bind_error \<Rightarrow> None)"

text \<open>\<open>None\<close>: the process dies.\<close>

definition start_listen :: "(int \<Rightarrow> bind_result) \<Rightarrow> int option" where
  "start_listen open_socket = listen_loop open_socket [11112..12999]"

section \<open>Talking to the tracker\<close>

text \<open>
  The connection is the task and the bytes that the tracker has sent and nobody has read. A tracker
  answers each request with some bytes, and \<open>calls\<close> is the schedule of the reads for the request.
\<close>

type_synonym connection = "task \<times> string"

definition exchange :: "(string \<Rightarrow> string) \<Rightarrow> (string \<Rightarrow> io list) \<Rightarrow> string \<Rightarrow> connection \<Rightarrow> (nat \<times> connection) option" where
  "exchange tracker calls request conn =
     (case read_tracker_response (calls request) (snd conn @ tracker request) (fst conn) of
        None \<Rightarrow> None
      | Some (messagepos, unread, t) \<Rightarrow> Some (messagepos, t, unread))"

definition should_register :: "(string \<Rightarrow> bool) \<Rightarrow> string \<Rightarrow> bool" where
  "should_register regular n \<longleftrightarrow> regular n
     \<and> \<not> (length n > 2 \<and> n ! (length n - 2) = CHR ''.'' \<and> n ! (length n - 1) \<in> {CHR ''c'', CHR ''h''})
     \<and> \<not> (length n > 1 \<and> n ! (length n - 1) = CHR 0x7E)"

text \<open>The loop over the directory: the requests that were sent, in order. An error is only reported.\<close>

fun have_loop :: "(string \<Rightarrow> string) \<Rightarrow> (string \<Rightarrow> io list) \<Rightarrow> (string \<Rightarrow> bool) \<Rightarrow> string list \<Rightarrow> connection
    \<Rightarrow> (string list \<times> connection) option" where
  "have_loop tracker calls regular [] conn = Some ([], conn)"
| "have_loop tracker calls regular (n # ns) conn =
     (if \<not> should_register regular n then have_loop tracker calls regular ns conn
      else
        (case writef (''HAVE %s'' @ [CHR 0x0A]) [Str n] of
           None \<Rightarrow> None
         | Some request \<Rightarrow>
             (case exchange tracker calls request conn of
                None \<Rightarrow> None
              | Some (messagepos, conn1) \<Rightarrow>
                  map_option (map_prod ((#) request) id) (have_loop tracker calls regular ns conn1))))"

definition register_files :: "(string \<Rightarrow> string) \<Rightarrow> (string \<Rightarrow> io list) \<Rightarrow> (string \<Rightarrow> bool) \<Rightarrow> string list
    \<Rightarrow> string \<Rightarrow> u32 \<Rightarrow> int \<Rightarrow> connection \<Rightarrow> (string list \<times> connection) option" where
  "register_files tracker calls regular names myalias listen_addr listen_port conn =
     (case writef (''ADDR %s %I:%d'' @ [CHR 0x0A]) [Str myalias, Addr listen_addr, Num listen_port] of
        None \<Rightarrow> None
      | Some request \<Rightarrow>
          (case exchange tracker calls request conn of
             None \<Rightarrow> None
           | Some (messagepos, conn1) \<Rightarrow>
               if buf (fst conn1) messagepos \<noteq> CHR ''2'' then Some ([request], conn1)
               else map_option (map_prod ((#) request) id) (have_loop tracker calls regular names conn1)))"

text \<open>\<open>Dies\<close>: the response is not the expected one, or the name overruns \<open>filename\<close>.\<close>

datatype started = Dies | Refused | Starts task

definition start_download :: "(string \<Rightarrow> string) \<Rightarrow> (string \<Rightarrow> io list) \<Rightarrow> string \<Rightarrow> (nat \<Rightarrow> char) \<Rightarrow> connection
    \<Rightarrow> started \<times> connection" where
  "start_download tracker calls f uninitialised conn =
     (case writef (''WANT %s'' @ [CHR 0x0A]) [Str f] of
        None \<Rightarrow> (Dies, conn)
      | Some request \<Rightarrow>
          (case exchange tracker calls request conn of
             None \<Rightarrow> (Dies, conn)
           | Some (messagepos, conn1) \<Rightarrow>
               if buf (fst conn1) messagepos \<noteq> CHR ''2'' then (Refused, conn1)
               else
                 (case copy_filename f of
                    None \<Rightarrow> (Dies, conn1)
                  | Some name \<Rightarrow>
                      (case parse_peers (map (buf (fst conn1)) [0..<TASKBUFSIZ]) messagepos [] of
                         None \<Rightarrow> (Dies, conn1)
                       | Some ps \<Rightarrow>
                           (Starts ((task_new TASK_DOWNLOAD uninitialised)\<lparr>filename := name, peer_list := ps\<rparr>), conn1)))))"

end
