(* ===== verification/PeerScanProps.thy ===== *)
theory PeerScanProps
  imports PeerScan
begin

text \<open>
  Correctness of the messages: what \<open>osp2p_writef\<close> writes, \<open>osp2p_snscanf\<close> reads back with the
  same format, whatever follows in memory.
\<close>

section \<open>Strings\<close>

lemma hex_digit_simps: "d < 16 \<Longrightarrow> is_xdigit (hex_digit d) \<and> xvalue (hex_digit d) = d"
proof -
  have "\<forall>d \<in> set [0..<16]. is_xdigit (hex_digit d) \<and> xvalue (hex_digit d) = d"
    by (simp add: upt_rec hex_digit_def is_xdigit_def xvalue_def is_digit_def to_lower_def Let_def)
  then show "d < 16 \<Longrightarrow> is_xdigit (hex_digit d) \<and> xvalue (hex_digit d) = d" by simp
qed

lemma plain_simps: "is_plain c \<Longrightarrow> \<not> is_space c \<and> c \<noteq> CHR ''%''"
  by (auto simp: is_plain_def is_space_def is_alnum_def Let_def)

lemma code_less: "code c < 256"
  by (simp add: of_char_def)

text \<open>The cursor stops at the end of the text, or at a character that ends the item.\<close>

definition stops :: "(char \<Rightarrow> bool) \<Rightarrow> string \<Rightarrow> int \<Rightarrow> bool" where
  "stops P r m \<longleftrightarrow> m = 0 \<or> (r \<noteq> [] \<and> P (List.hd r) \<and> m > 0)"

lemma scan_quoted:
  assumes "stops is_space r m"
  shows "scan_string (http_quote s @ r) (int (length (http_quote s)) + m) = Some (s, r, m)"
proof (induction s)
  case Nil
  show ?case using assms by (cases r) (auto simp: http_quote_def stops_def)
next
  case (Cons c s)
  have m: "m \<ge> 0" using assms by (auto simp: stops_def)
  show ?case
  proof (cases "is_plain c")
    case True
    then show ?thesis using Cons m plain_simps [OF True] by (simp add: http_quote_def quote_char_def)
  next
    case False
    have c: "code c div 16 < 16" "code c mod 16 < 16" using code_less [of c] by (simp_all add: less_mult_imp_div_less)
    have v: "char_of (xvalue (hex_digit (code c div 16)) * 16 + xvalue (hex_digit (code c mod 16))) = c"
      using hex_digit_simps c by simp
    have "int (length (http_quote (c # s))) + m - 3 = int (length (http_quote s)) + m"
      using False by (simp add: http_quote_def quote_char_def)
    then show ?thesis
      using Cons m False v hex_digit_simps [OF c(1)] hex_digit_simps [OF c(2)]
      by (simp add: http_quote_def quote_char_def is_space_def)
  qed
qed

section \<open>Numbers\<close>

lemma read_digits_mono: "v \<le> read_digits v cs"
proof (induction v cs rule: read_digits.induct)
  case (2 v c cs)
  then show ?case by simp
qed simp

lemma scan_digits_run:
  assumes "list_all is_digit ds" "read_digits v ds \<le> 2147483637" "stops (\<lambda>c. \<not> is_digit c) r m"
  shows "scan_digits (ds @ r) (int (length ds) + m) (int v) = (int (read_digits v ds), r, m)"
  using assms
proof (induction ds arbitrary: v)
  case Nil
  then show ?case by (cases r) (auto simp: stops_def)
next
  case (Cons d ds)
  have "10 * v + digit_of d \<le> 2147483637"
    using read_digits_mono [of "10 * v + digit_of d" ds] Cons.prems(2) by simp
  then have "int v < (2147483647 - int (digit_of d)) div 10" by linarith
  moreover have "scan_digits (ds @ r) (int (length ds) + m) (int (10 * v + digit_of d))
      = (int (read_digits v (d # ds)), r, m)"
    using Cons.IH [of "10 * v + digit_of d"] Cons.prems by simp
  moreover have "m \<ge> 0" using Cons.prems(3) by (auto simp: stops_def)
  ultimately show ?case using Cons.prems(1) by (simp add: algebra_simps)
qed

lemma scan_shown_int:
  assumes "0 \<le> i" "i \<le> 2147483637" "stops (\<lambda>c. \<not> is_digit c) r m"
  shows "scan_int (show_int i @ r) (int (length (show_int i)) + m) = Some (i, r, m)"
proof -
  let ?ds = "show_nat (nat i)"
  have m: "m \<ge> 0" using assms(3) by (auto simp: stops_def)
  have ds: "list_all is_digit ?ds" "?ds \<noteq> []" "is_digit (List.hd ?ds)"
    using show_nat_digits [of "nat i"] by (auto simp: list_all_iff)
  have "scan_digits (?ds @ r) (int (length ?ds) + m) 0 = (i, r, m)"
    using scan_digits_run [OF ds(1) _ assms(3), of 0] assms(1,2) by (simp add: read_show_nat)
  moreover have "m \<noteq> 0 \<and> r \<noteq> [] \<longrightarrow> \<not> is_digit (List.hd r)" using assms(3) by (auto simp: stops_def)
  moreover have "int (length ?ds) + m \<noteq> 0" using ds(2) m by (cases ?ds) simp_all
  ultimately show ?thesis using ds assms(1) by (auto simp: scan_int_def show_int_nonneg)
qed

section \<open>Addresses\<close>

lemma scan_octet_run:
  assumes "list_all is_digit ds" "read_digits v ds \<le> 255" "stops (\<lambda>c. \<not> is_digit c) r m"
  shows "scan_octet (ds @ r) (int (length ds) + m) (int v) = (int (read_digits v ds), r, m)"
  using assms
proof (induction ds arbitrary: v)
  case Nil
  then show ?case by (cases r) (auto simp: stops_def)
next
  case (Cons d ds)
  have "v \<le> 255" using read_digits_mono [of v "d # ds"] Cons.prems(2) by simp
  moreover have "m \<ge> 0" using Cons.prems(3) by (auto simp: stops_def)
  moreover have "scan_octet (ds @ r) (int (length ds) + m) (int (10 * v + digit_of d)) = (int (read_digits v (d # ds)), r, m)"
    using Cons.IH [of "10 * v + digit_of d"] Cons.prems by simp
  ultimately show ?case using Cons.prems(1) by (simp add: algebra_simps)
qed

lemma scan_shown_octet:
  assumes "k \<le> 255" "stops (\<lambda>c. \<not> is_digit c) r m"
  shows "scan_octet (show_nat k @ r) (int (length (show_nat k)) + m) (-1) = (int k, r, m)"
proof -
  obtain d ds where s: "show_nat k = d # ds" "is_digit d" "list_all is_digit ds"
    using show_nat_digits [of k] by (cases "show_nat k") auto
  have "read_digits (digit_of d) ds = k" using read_show_nat [of k] s(1) by simp
  moreover have "m \<ge> 0" using assms(2) by (auto simp: stops_def)
  ultimately show ?thesis
    using scan_octet_run [OF s(3) _ assms(2), of "digit_of d"] assms(1) s by (simp add: algebra_simps)
qed

lemma push_drop_word: "push_bit 8 (drop_bit 8 y) + (y AND 255) = (y :: u32)"
proof -
  have "(255 :: u32) = mask 8" by (simp add: mask_eq_exp_minus_1)
  then have "y AND 255 = take_bit 8 y" by (simp add: take_bit_eq_mask)
  then show ?thesis using bits_ident [of 8 y] by simp
qed

lemma octet_bound: "unat (y AND 255 :: u32) \<le> 255"
  using word_and_le1 [of y 255] by (simp add: word_le_nat_alt)

lemma scan_addr_dot:
  assumes "k \<le> 255" "m \<ge> 0"
  shows "scan_addr (Suc (Suc j)) (show_nat k @ CHR ''.'' # r) (int (length (show_nat k)) + (1 + m)) v
    = scan_addr (Suc j) r m (push_bit 8 v + of_nat k)"
proof -
  have "stops (\<lambda>c. \<not> is_digit c) (CHR ''.'' # r) (1 + m)" using assms(2) by (simp add: stops_def is_digit_def)
  from scan_shown_octet [OF assms(1) this] show ?thesis using assms by simp
qed

lemma scan_addr_last:
  assumes "k \<le> 255" "stops (\<lambda>c. \<not> is_digit c) r m"
  shows "scan_addr (Suc 0) (show_nat k @ r) (int (length (show_nat k)) + m) v = Some (push_bit 8 v + of_nat k, r, m)"
  using scan_shown_octet [OF assms] assms(1) by simp

lemma scan_shown_addr:
  assumes "stops (\<lambda>c. \<not> is_digit c) r m"
  shows "scan_addr 4 (show_addr a @ r) (int (length (show_addr a)) + m) 0 = Some (a, r, m)"
proof -
  let ?k1 = "unat (drop_bit 24 a AND 255)" and ?k2 = "unat (drop_bit 16 a AND 255)"
    and ?k3 = "unat (drop_bit 8 a AND 255)" and ?k4 = "unat (a AND 255)"
  have m: "m \<ge> 0" using assms by (auto simp: stops_def)
  have 4: "scan_addr (Suc 0) (show_nat ?k4 @ r) (int (length (show_nat ?k4)) + m) v = Some (push_bit 8 v + of_nat ?k4, r, m)" for v
    by (rule scan_addr_last [OF octet_bound assms])
  have "drop_bit 24 a AND 255 = drop_bit 24 a"
  proof -
    have "drop_bit 8 (drop_bit 24 a) = 0"
      by (rule bit_word_eqI) (auto simp: bit_simps dest: bit_imp_le_length)
    then show ?thesis using push_drop_word [of "drop_bit 24 a"] by simp
  qed
  then have k1: "of_nat ?k1 = drop_bit 24 a" by simp
  have k2: "push_bit 8 (drop_bit 24 a) + of_nat ?k2 = drop_bit 16 a"
    using push_drop_word [of "drop_bit 16 a"] by (simp add: drop_bit_drop_bit)
  have k3: "push_bit 8 (drop_bit 16 a) + of_nat ?k3 = drop_bit 8 a"
    using push_drop_word [of "drop_bit 8 a"] by (simp add: drop_bit_drop_bit)
  have k4: "push_bit 8 (drop_bit 8 a) + of_nat ?k4 = a"
    using push_drop_word [of a] by simp
  let ?m3 = "int (length (show_nat ?k4)) + m"
  let ?m2 = "int (length (show_nat ?k3)) + (1 + ?m3)"
  let ?m1 = "int (length (show_nat ?k2)) + (1 + ?m2)"
  have "int (length (show_addr a)) + m = int (length (show_nat ?k1)) + (1 + ?m1)" by (simp add: show_addr_def)
  moreover have "show_addr a @ r = show_nat ?k1 @ CHR ''.'' # show_nat ?k2 @ CHR ''.'' # show_nat ?k3 @ CHR ''.'' # show_nat ?k4 @ r"
    by (simp add: show_addr_def)
  moreover have "(4 :: nat) = Suc (Suc (Suc (Suc 0)))" by simp
  moreover have "?m1 \<ge> 0" "?m2 \<ge> 0" "?m3 \<ge> 0" using m by simp_all
  ultimately show ?thesis by (simp only: scan_addr_dot [OF octet_bound] 4 k1 k2 k3 k4 push_bit_of_0 add_0)
qed

section \<open>Messages\<close>

text \<open>
  The formats that can be read back: nothing that is written runs into the item before it. A
  string ends at white space, a number at a character that is no digit.
\<close>

fun format_ok :: "string \<Rightarrow> bool" where
  "format_ok [] = True"
| "format_ok [f] = (f \<noteq> CHR ''%'')"
| "format_ok (f # g # fs) =
     (if f = CHR ''%'' then
        (if g = CHR ''s'' then (fs = [] \<or> is_space (List.hd fs)) \<and> format_ok fs
         else if g = CHR ''d'' \<or> g = CHR ''I''
         then (fs = [] \<or> \<not> is_digit (List.hd fs) \<and> List.hd fs \<noteq> CHR ''%'') \<and> format_ok fs
         else g = CHR ''%'' \<and> format_ok fs)
      else (is_space f \<longrightarrow> \<not> is_space g) \<and> format_ok (g # fs))"

fun conversions :: "string \<Rightarrow> nat" where
  "conversions (f # g # fs) =
     (if f = CHR ''%'' then (if g = CHR ''%'' then conversions fs else Suc (conversions fs)) else conversions (g # fs))"
| "conversions fs = 0"

primrec arg_ok :: "arg \<Rightarrow> bool" where
  "arg_ok (Str s) = (s \<noteq> [])"
| "arg_ok (Addr a) = True"
| "arg_ok (Num i) = (0 \<le> i \<and> i \<le> 2147483637)"

lemma writef_literal:
  "f \<noteq> CHR ''%'' \<Longrightarrow> writef (f # fs) args = map_option ((#) f) (writef fs args)"
  by (cases fs) simp_all

lemma percent_not_space [simp]: "\<not> is_space (CHR ''%'')" "\<not> is_digit (CHR ''%'')"
  by (simp_all add: is_space_def is_digit_def)

lemma quoted_head: "s \<noteq> [] \<Longrightarrow> \<exists>c cs. http_quote s = c # cs \<and> \<not> is_space c"
  by (cases s) (auto simp: http_quote_def quote_char_def plain_simps)

lemma shown_heads:
  "0 \<le> i \<Longrightarrow> \<exists>c cs. show_int i = c # cs \<and> is_digit c" "\<exists>c cs. show_addr a = c # cs \<and> is_digit c"
proof -
  have "\<exists>c cs. show_nat k = c # cs \<and> is_digit c" for k
    using show_nat_digits [of k] by (cases "show_nat k") auto
  then show "0 \<le> i \<Longrightarrow> \<exists>c cs. show_int i = c # cs \<and> is_digit c" "\<exists>c cs. show_addr a = c # cs \<and> is_digit c"
    by (auto simp: show_int_nonneg show_addr_def) (metis append_Cons)
qed

text \<open>What follows a space in the format does not start with one in the text.\<close>

lemma written_head:
  assumes "writef (g # fs) args = Some out" "list_all arg_ok args" "\<not> is_space g"
  shows "\<exists>c cs. out = c # cs \<and> \<not> is_space c"
proof (cases "g = CHR ''%'' \<and> fs \<noteq> []")
  case False
  then show ?thesis using assms writef_literal [of g fs args] by (cases fs) auto
next
  case True
  then obtain h hs where fs: "fs = h # hs" by (cases fs) auto
  consider (str) str as out' where "args = Str str # as" "out = http_quote str @ out'"
    | (num) i as out' where "args = Num i # as" "out = show_int i @ out'"
    | (addr) x as out' where "args = Addr x # as" "out = show_addr x @ out'"
    | (other) cs where "out = g # cs"
    using assms(1) True unfolding fs
    by (auto split: if_splits list.splits arg.splits)
  then show ?thesis
  proof cases
    case str
    then show ?thesis using quoted_head [of str] assms(2) by auto
  next
    case num
    then show ?thesis using shown_heads(1) [of i] assms(2) by auto
  next
    case addr
    then show ?thesis using shown_heads(2) [of x] by auto
  next
    case other
    then show ?thesis using assms(3) by simp
  qed
qed

lemma stops_written:
  assumes "fs = [] \<or> List.hd fs \<noteq> CHR ''%'' \<and> P (List.hd fs)" "writef fs args = Some out"
  shows "stops P (out @ junk) (int (length out))"
proof (cases fs)
  case Nil
  then show ?thesis using assms(2) by (simp add: stops_def)
next
  case (Cons f fs')
  then show ?thesis using assms writef_literal [of f fs' args] by (auto simp: stops_def)
qed

lemma skip_space_stop: "skip_space s 0 = (s, 0)" "\<not> is_space c \<Longrightarrow> skip_space (c # s) n = (c # s, n)"
  by (cases s) simp_all

lemma scan_string_conversion:
  assumes "writef fs as = Some out" "fs = [] \<or> is_space (List.hd fs)"
    "vsnscanf len fs (out @ junk) (int (length out)) = Some got"
  shows "vsnscanf len (CHR ''%'' # CHR ''s'' # fs) ((http_quote s @ out) @ junk) (int (length (http_quote s @ out)))
    = Some (Str s # got)"
proof -
  have "stops is_space (out @ junk) (int (length out))"
    by (rule stops_written [OF _ assms(1)]) (use assms(2) percent_not_space in auto)
  from scan_quoted [OF this, of s] show ?thesis using assms(3) by (simp add: is_conversion_def conversion_def)
qed

lemma scan_int_conversion:
  assumes "writef fs as = Some out" "fs = [] \<or> \<not> is_digit (List.hd fs) \<and> List.hd fs \<noteq> CHR ''%''" "arg_ok (Num i)"
    "vsnscanf len fs (out @ junk) (int (length out)) = Some got"
  shows "vsnscanf len (CHR ''%'' # CHR ''d'' # fs) ((show_int i @ out) @ junk) (int (length (show_int i @ out)))
    = Some (Num i # got)"
proof -
  have "stops (\<lambda>c. \<not> is_digit c) (out @ junk) (int (length out))"
    by (rule stops_written [OF _ assms(1)]) (use assms(2) in auto)
  from scan_shown_int [OF _ _ this, of i] show ?thesis
    using assms(3,4) by (simp add: is_conversion_def conversion_def)
qed

lemma scan_addr_conversion:
  assumes "writef fs as = Some out" "fs = [] \<or> \<not> is_digit (List.hd fs) \<and> List.hd fs \<noteq> CHR ''%''"
    "vsnscanf len fs (out @ junk) (int (length out)) = Some got"
  shows "vsnscanf len (CHR ''%'' # CHR ''I'' # fs) ((show_addr a @ out) @ junk) (int (length (show_addr a @ out)))
    = Some (Addr a # got)"
proof -
  have "stops (\<lambda>c. \<not> is_digit c) (out @ junk) (int (length out))"
    by (rule stops_written [OF _ assms(1)]) (use assms(2) in auto)
  from scan_shown_addr [OF this, of a] show ?thesis
    using assms(3) by (simp add: is_conversion_def conversion_def)
qed

lemma scan_literal:
  assumes "f \<noteq> CHR ''%''" "vsnscanf len fs (out @ junk) (int (length out)) = Some got"
    "is_space f \<longrightarrow> fs = [] \<and> out = [] \<or> (\<not> is_space (List.hd fs) \<and> fs \<noteq> [] \<and> (\<exists>c cs. out = c # cs \<and> \<not> is_space c))"
  shows "vsnscanf len (f # fs) ((f # out) @ junk) (int (length (f # out))) = Some got"
proof (cases "is_space f")
  case False
  then show ?thesis using assms(1,2) by (cases fs) (simp_all add: is_conversion_def)
next
  case True
  have "skip_space ((f # out) @ junk) (int (length (f # out))) = (out @ junk, int (length out))"
    using True assms(3) skip_space_stop by (cases out) auto
  moreover have "dropWhile is_space fs = fs" using True assms(3) by (cases fs) auto
  ultimately show ?thesis
    using assms(1,2) True by (cases fs) (simp_all add: is_conversion_def del: skip_space.simps)
qed

lemma scan_written:
  "writef f args = Some out \<Longrightarrow> format_ok f \<Longrightarrow> list_all arg_ok args \<Longrightarrow>
     vsnscanf len f (out @ junk) (int (length out)) = Some (take (conversions f) args)"
proof (induction f args arbitrary: out rule: writef.induct)
  case (1 args)
  then show ?case by simp
next
  case (2 f args)
  have "f \<noteq> CHR ''%''" using 2(2) by simp
  then have "vsnscanf len [f] ([f] @ junk) (int (length [f])) = Some []"
    by (rule scan_literal [of f len "[]" "[]"]) simp_all
  moreover have "out = [f]" using 2(1) by simp
  ultimately show ?case by (simp del: vsnscanf_simps)
next
  case (3 f g fs args)
  consider (str) "f = CHR ''%''" "g = CHR ''s''" | (num) "f = CHR ''%''" "g = CHR ''d''"
    | (addr) "f = CHR ''%''" "g = CHR ''I''" | (percent) "f = CHR ''%''" "g = CHR ''%''" | (lit) "f \<noteq> CHR ''%''"
  proof -
    have "f = CHR ''%'' \<longrightarrow> g \<in> {CHR ''s'', CHR ''d'', CHR ''I'', CHR ''%''}" using "3.prems"(2) by (auto split: if_splits)
    then show thesis using that by blast
  qed
  then show ?case
  proof cases
    case str
    then obtain s as out' where a: "args = Str s # as" "out = http_quote s @ out'" "writef fs as = Some out'"
      using "3.prems"(1) by (auto split: list.splits arg.splits)
    then have "vsnscanf len fs (out' @ junk) (int (length out')) = Some (take (conversions fs) as)"
      using "3.IH"(1) [OF _ a(1) refl a(3)] str "3.prems"(2,3) by auto
    then show ?thesis using scan_string_conversion [OF a(3)] str a "3.prems"(2) by auto
  next
    case num
    then obtain i as out' where a: "args = Num i # as" "out = show_int i @ out'" "writef fs as = Some out'"
      using "3.prems"(1) by (auto split: list.splits arg.splits)
    then have "vsnscanf len fs (out' @ junk) (int (length out')) = Some (take (conversions fs) as)"
      using "3.IH"(2) [OF _ _ a(1) refl a(3)] num "3.prems"(2,3) by auto
    then show ?thesis using scan_int_conversion [OF a(3)] num a "3.prems"(2,3) by auto
  next
    case addr
    then obtain x as out' where a: "args = Addr x # as" "out = show_addr x @ out'" "writef fs as = Some out'"
      using "3.prems"(1) by (auto split: list.splits arg.splits)
    then have "vsnscanf len fs (out' @ junk) (int (length out')) = Some (take (conversions fs) as)"
      using "3.IH"(3) [OF _ _ _ a(1) refl a(3)] addr "3.prems"(2,3) by auto
    then show ?thesis using scan_addr_conversion [OF a(3)] addr a "3.prems"(2) by auto
  next
    case percent
    then obtain out' where a: "out = CHR ''%'' # out'" "writef fs args = Some out'" using "3.prems"(1) by auto
    then have "vsnscanf len fs (out' @ junk) (int (length out')) = Some (take (conversions fs) args)"
      using "3.IH"(4) percent "3.prems"(2,3) by auto
    then show ?thesis using percent a by (simp add: is_conversion_def conversion_def)
  next
    case lit
    then obtain out' where a: "out = f # out'" "writef (g # fs) args = Some out'" using "3.prems"(1) by auto
    then have g: "vsnscanf len (g # fs) (out' @ junk) (int (length out')) = Some (take (conversions (g # fs)) args)"
      using "3.IH"(5) lit "3.prems"(2,3) by auto
    have "is_space f \<longrightarrow> \<not> is_space g \<and> (\<exists>c cs. out' = c # cs \<and> \<not> is_space c)"
      using "3.prems"(2) lit written_head [OF a(2) "3.prems"(3)] by auto
    then show ?thesis using scan_literal [OF lit g] lit a(1) by simp
  qed
qed

text \<open>C14: What \<open>osp2p_writef\<close> writes, \<open>osp2p_snscanf\<close> reads back with the same format, if that is one the scanner can
  take apart (\<open>format_ok\<close>): non-empty strings of any
  characters, addresses, and numbers from 0 to 2147483637, whatever is in the buffer after the
  message.\<close>

theorem message_round_trip:
  assumes "writef format args = Some out" "format_ok format" "list_all arg_ok args" "length args = conversions format"
  shows "snscanf (out @ junk) (length out) format = Some args"
  using scan_written [OF assms(1-3)] assms(4) by (simp add: snscanf_def)

theorem message_round_trip_witness:
  "snscanf (''ADDR a%20b 10.2.3.4:80'' @ ''99'') (length ''ADDR a%20b 10.2.3.4:80'') ''ADDR %s %I:%d''
    = Some [Str ''a b'', Addr 0x0A020304, Num 80]"
proof -
  have sn: "show_nat 0x0A = ''10''" "show_nat 2 = ''2''" "show_nat 3 = ''3''" "show_nat 4 = ''4''" "show_nat 80 = ''80''"
    by code_simp+
  have "writef ''ADDR %s %I:%d'' [Str ''a b'', Addr 0x0A020304, Num 80] = Some ''ADDR a%20b 10.2.3.4:80''"
    by (simp add: http_quote_def quote_char_def is_plain_def is_alnum_def Let_def hex_digit_def show_addr_def
        show_int_def sn)
  then show ?thesis by (rule message_round_trip) (simp_all add: is_space_def is_digit_def)
qed

text \<open>After \<open>ensure_buf\<close> the next character and a terminator fit.\<close>

lemma ensure_buf_room: "len < ensure_buf capacity len" "capacity \<le> ensure_buf capacity len"
  by (simp_all add: ensure_buf_def)

section \<open>Deviations\<close>

text \<open>\<open>osp2p.h\<close> says that the text must match the format exactly; what follows the match is ignored,
  a string may be empty, and the largest integers are refused.\<close>

lemma scanner_deviations:
  "sscanf ''GET a OSP2P junk'' ''GET %s OSP2P'' = Some [Str ''a'']"
  "sscanf ''GET '' ''GET %s'' = Some [Str []]"
  "sscanf ''2147483647'' ''%d'' = None"
  by code_simp+

text \<open>A \<open>%\<close> just before the end of the text takes two characters from behind it, and the cursor then
  misses the end: the scan goes on in whatever follows in memory.\<close>

lemma scan_past_end:
  "scan_string ''x%41bc d'' 2 = Some (''xAbc'', '' d'', -4)"
  by code_simp

end
