(* ===== verification/PeerTaskProps.thy ===== *)
theory PeerTaskProps
  imports PeerTask PeerScanProps
begin

text \<open>
  Correctness of the peer: the task buffer is a queue of bytes, transfers deliver what was sent,
  the list of peers is the one the tracker wrote, and downloads never touch existing files.
\<close>

section \<open>The contract of the task buffer\<close>

text \<open>
  What the transfer loops rely on: reading appends to the queue what it takes from the source,
  writing moves bytes from the front of the queue to the sink, an end of file with an empty queue
  means that the source is used up, and writing makes progress.
\<close>

locale transfer_buffer =
  fixes inv :: "'t \<Rightarrow> bool" and room :: "'t \<Rightarrow> bool" and queue :: "'t \<Rightarrow> string"
    and rd wr :: "io \<Rightarrow> string \<Rightarrow> 't \<Rightarrow> taskbufresult \<times> string \<times> 't"
  assumes rd_law: "inv t \<Longrightarrow> room t \<Longrightarrow> rd c s t = (r, s', t') \<Longrightarrow>
      inv t' \<and> queue t' @ s' = queue t @ s \<and> (r = TBUF_END \<and> queue t' = [] \<longrightarrow> s' = [])"
    and rd_chunk: "inv t \<Longrightarrow> room t \<Longrightarrow> rd (Chunk n) s t = (r, s', t') \<Longrightarrow>
      r \<noteq> TBUF_ERROR \<and> r \<noteq> TBUF_AGAIN \<and> (queue t' = [] \<longrightarrow> r = TBUF_END)"
    and wr_law: "inv t \<Longrightarrow> wr c out t = (r, out', t') \<Longrightarrow> inv t' \<and> out' @ queue t' = out @ queue t"
    and wr_chunk: "inv t \<Longrightarrow> wr (Chunk n) out t = (r, out', t') \<Longrightarrow>
      r \<noteq> TBUF_ERROR \<and> (queue t \<noteq> [] \<longrightarrow> length (queue t') < length (queue t))"
begin

text \<open>One round of a transfer, in either order, loses and invents nothing.\<close>

lemma read_write_round:
  assumes "inv t" "room t" "rd c s t = (r, s1, t1)" "wr d out t1 = (r2, out2, t2)"
  shows "inv t2 \<and> out2 @ queue t2 @ s1 = out @ queue t @ s"
  using rd_law [OF assms(1-3)] wr_law [OF _ assms(4)] by (metis append.assoc)

lemma write_read_round:
  assumes "inv t" "wr d out t = (r, out1, t1)" "room t1" "rd c s t1 = (r2, s2, t2)"
  shows "inv t2 \<and> out1 @ queue t2 @ s2 = out @ queue t @ s"
  using wr_law [OF assms(1,2)] rd_law [OF _ assms(3,4)] by (metis append.assoc)

text \<open>When nothing is refused, a round that does not end the transfer moves at least one byte.\<close>

lemma read_write_progress:
  assumes "inv t" "room t" "rd (Chunk n) s t = (r, s1, t1)" "\<not> (r = TBUF_END \<and> queue t1 = [])"
    "wr (Chunk m) out t1 = (r2, out2, t2)"
  shows "length (queue t2 @ s1) < length (queue t @ s) \<and> r2 \<noteq> TBUF_ERROR"
proof -
  have r: "inv t1" "queue t1 @ s1 = queue t @ s" using rd_law [OF assms(1-3)] by blast+
  have "queue t1 \<noteq> []" using rd_chunk [OF assms(1-3)] assms(4) by blast
  then have w: "length (queue t2) < length (queue t1)" "r2 \<noteq> TBUF_ERROR" using wr_chunk [OF r(1) assms(5)] by blast+
  have "length (queue t1) + length s1 = length (queue t @ s)" using arg_cong [OF r(2), of length] by simp
  then show ?thesis using w by simp
qed

end

section \<open>The buffer as a queue\<close>

definition contents :: "task \<Rightarrow> string" where
  "contents t = map (\<lambda>i. buf t ((unat (head t) + i) mod TASKBUFSIZ)) [0..<unat (tail t) - unat (head t)]"

definition buf_ok :: "task \<Rightarrow> bool" where
  "buf_ok t \<longleftrightarrow> unat (head t) \<le> unat (tail t) \<and> unat (tail t) - unat (head t) \<le> TASKBUFSIZ"

text \<open>The counters have 32 bits and must not wrap: 100000 does not divide 2 to the 32.\<close>

definition buf_room :: "task \<Rightarrow> bool" where
  "buf_room t \<longleftrightarrow> unat (tail t) + TASKBUFSIZ < 4294967296"

lemma positions:
  assumes "H \<le> (T :: nat)" "T - H \<le> 100000"
  shows "T = H \<or> H mod 100000 < T mod 100000 \<and> T - H = T mod 100000 - H mod 100000
    \<or> H mod 100000 \<ge> T mod 100000 \<and> T - H = 100000 + T mod 100000 - H mod 100000"
proof -
  obtain a h where H: "H = 100000 * a + h" "h < 100000" "H mod 100000 = h"
    by (metis mult_div_mod_eq mod_less_divisor zero_less_numeral)
  obtain b t where T: "T = 100000 * b + t" "t < 100000" "T mod 100000 = t"
    by (metis mult_div_mod_eq mod_less_divisor zero_less_numeral)
  have "b = a \<or> b = a + 1"
  proof (rule ccontr)
    assume "\<not> (b = a \<or> b = a + 1)"
    then consider "b < a" | "b \<ge> a + 2" by linarith
    then show False using assms H(1,2) T(1,2) by cases linarith+
  qed
  then show ?thesis using assms H(1,2) T(1,2) unfolding H(3) T(3) by (elim disjE) auto
qed

lemma read_space:
  assumes "buf_ok t"
  shows "read_size t \<le> TASKBUFSIZ - (unat (tail t) - unat (head t))" "tailpos t + read_size t \<le> TASKBUFSIZ"
    "head t = tail t \<Longrightarrow> read_size t > 0"
proof -
  have m: "headpos t < 100000" "tailpos t < 100000" by (simp_all add: headpos_def tailpos_def)
  have p: "unat (tail t) = unat (head t)
      \<or> headpos t < tailpos t \<and> unat (tail t) - unat (head t) = tailpos t - headpos t
      \<or> headpos t \<ge> tailpos t \<and> unat (tail t) - unat (head t) = 100000 + tailpos t - headpos t"
    using positions [of "unat (head t)" "unat (tail t)"] assms by (simp add: buf_ok_def headpos_def tailpos_def)
  show "head t = tail t \<Longrightarrow> read_size t > 0" using m by (simp add: read_size_def)
  show "tailpos t + read_size t \<le> TASKBUFSIZ" using m by (auto simp: read_size_def)
  show "read_size t \<le> TASKBUFSIZ - (unat (tail t) - unat (head t))"
    using p m by (auto simp: read_size_def)
qed

lemma contents_store:
  assumes ok: "buf_ok t" and len: "length bs \<le> read_size t" and nw: "unat (tail t) + length bs < 4294967296"
  defines "t' \<equiv> t\<lparr>buf := store (tailpos t) bs (buf t), tail := tail t + of_nat (length bs)\<rparr>"
  shows "contents t' = contents t @ bs" "buf_ok t'"
proof -
  let ?H = "unat (head t)" and ?T = "unat (tail t)"
  let ?d = "?T - ?H"
  have sp: "?d + length bs \<le> 100000" "tailpos t + length bs \<le> 100000"
    using read_space(1,2) [OF ok] len ok by (auto simp: buf_ok_def)
  have T': "unat (tail t') = ?T + length bs"
    using nw by (simp add: t'_def unat_add_u32)
  have HT: "?H \<le> ?T" using ok by (simp add: buf_ok_def)
  show "buf_ok t'" using sp(1) HT by (simp add: buf_ok_def T') (simp add: t'_def)
  have new: "buf t' ((?T + j) mod 100000) = bs ! j" if "j < length bs" for j
  proof -
    have "tailpos t + j < 100000" using sp(2) that by simp
    moreover have "(?T + j) mod 100000 = (tailpos t + j) mod 100000" by (simp add: tailpos_def mod_add_left_eq)
    ultimately have "(?T + j) mod 100000 = tailpos t + j" by simp
    then show ?thesis using that by (simp add: t'_def store_def)
  qed
  have old: "buf t' ((?H + i) mod 100000) = buf t ((?H + i) mod 100000)" if "i < ?d" for i
  proof -
    have "\<not> (tailpos t \<le> (?H + i) mod 100000 \<and> (?H + i) mod 100000 < tailpos t + length bs)"
    proof
      assume a: "tailpos t \<le> (?H + i) mod 100000 \<and> (?H + i) mod 100000 < tailpos t + length bs"
      define j where "j = (?H + i) mod 100000 - tailpos t"
      have j: "j < length bs" "(?H + i) mod 100000 = tailpos t + j" using a by (auto simp: j_def)
      have "tailpos t + j < 100000" using sp(2) j(1) by simp
      moreover have "(?T + j) mod 100000 = (tailpos t + j) mod 100000" by (simp add: tailpos_def mod_add_left_eq)
      ultimately have "(?T + j) mod 100000 = (?H + i) mod 100000" using j(2) by simp
      then have "100000 dvd (?T + j) - (?H + i)" using that HT by (subst (asm) mod_eq_dvd_iff_nat) auto
      moreover have "0 < (?T + j) - (?H + i)" "(?T + j) - (?H + i) < 100000" using that sp(1) j(1) HT by linarith+
      ultimately show False using nat_dvd_not_less by blast
    qed
    then show ?thesis by (auto simp: t'_def store_def)
  qed
  have h: "unat (head t') = ?H" by (simp add: t'_def)
  have "contents t' = map (\<lambda>i. buf t' ((?H + i) mod 100000)) ([0..<?d] @ [?d..<?d + length bs])"
  proof -
    have "?T + length bs - ?H = ?d + length bs" using HT by simp
    moreover have "[0..<?d + length bs] = [0..<?d] @ [?d..<?d + length bs]" by (rule upt_add_eq_append) simp
    ultimately show ?thesis unfolding contents_def h T' by (simp only:)
  qed
  also have "\<dots> = contents t @ map (\<lambda>i. buf t' ((?H + i) mod 100000)) [?d..<?d + length bs]"
    using old by (simp add: contents_def)
  also have "map (\<lambda>i. buf t' ((?H + i) mod 100000)) [?d..<?d + length bs] = bs"
  proof (rule nth_equalityI)
    fix j assume "j < length (map (\<lambda>i. buf t' ((?H + i) mod 100000)) [?d..<?d + length bs])"
    then have j: "j < length bs" by simp
    have "?H + (?d + j) = ?T + j" using HT by simp
    then show "map (\<lambda>i. buf t' ((?H + i) mod 100000)) [?d..<?d + length bs] ! j = bs ! j" using new [OF j] j by simp
  qed simp
  finally show "contents t' = contents t @ bs" .
qed

lemma chunk_contents:
  assumes "buf_ok t" "head t \<noteq> tail t"
  shows "\<exists>k > 0. write_chunk t = take k (contents t)"
proof -
  let ?H = "unat (head t)" and ?T = "unat (tail t)"
  have m: "headpos t < 100000" "tailpos t < 100000" by (simp_all add: headpos_def tailpos_def)
  have ne: "?T \<noteq> ?H" using assms(2) by (metis word_unat_eq_iff)
  then have p: "headpos t < tailpos t \<and> ?T - ?H = tailpos t - headpos t
      \<or> headpos t \<ge> tailpos t \<and> ?T - ?H = 100000 + tailpos t - headpos t"
    using positions [of ?H ?T] assms(1) by (simp add: buf_ok_def headpos_def tailpos_def)
  define k where "k = (if headpos t < tailpos t then tailpos t else 100000) - headpos t"
  have k: "0 < k" "k \<le> ?T - ?H" "headpos t + k \<le> 100000" using p m by (auto simp: k_def)
  have "write_chunk t = map (\<lambda>i. buf t (headpos t + i)) [0..<k]"
    unfolding write_chunk_def k_def by (rule nth_equalityI) auto
  also have "\<dots> = map (\<lambda>i. buf t ((?H + i) mod 100000)) [0..<k]"
  proof (rule map_cong [OF refl])
    fix i assume "i \<in> set [0..<k]"
    then have "headpos t + i < 100000" using k(3) by simp
    moreover have "(?H + i) mod 100000 = (headpos t + i) mod 100000" by (simp add: headpos_def mod_add_left_eq)
    ultimately show "buf t (headpos t + i) = buf t ((?H + i) mod 100000)" by simp
  qed
  also have "\<dots> = take k (contents t)" using k(2) by (simp add: contents_def take_map)
  finally show ?thesis using k(1) by blast
qed

lemma contents_write:
  fixes w :: u32
  assumes ok: "buf_ok t" and m: "m \<le> unat (tail t) - unat (head t)"
  defines "t' \<equiv> t\<lparr>head := head t + of_nat m, total_written := w\<rparr>"
  shows "contents t' = drop m (contents t)" "buf_ok t'" "unat (head t') = unat (head t) + m"
proof -
  have HT: "unat (head t) \<le> unat (tail t)" "unat (tail t) < 4294967296" using ok unat_u32_less by (simp_all add: buf_ok_def)
  then have h: "unat (head t + of_nat m) = unat (head t) + m" using m by (simp add: unat_add_u32)
  then show "unat (head t') = unat (head t) + m" by (simp add: t'_def)
  have "unat (head t) + m \<le> unat (tail t)" using m HT by linarith
  then show "buf_ok t'" using ok h by (simp add: buf_ok_def t'_def)
  show "contents t' = drop m (contents t)"
    using m HT by (intro nth_equalityI) (auto simp: contents_def t'_def h add.assoc)
qed

lemma length_contents: "length (contents t) = unat (tail t) - unat (head t)"
  by (simp add: contents_def)

lemma contents_empty: "buf_ok t \<Longrightarrow> contents t = [] \<longleftrightarrow> head t = tail t"
  by (auto simp: contents_def buf_ok_def word_unat_eq_iff)

lemma take_length_take: "take (length (take j xs)) xs = take j xs"
  by (cases "j \<le> length xs") simp_all

lemma drop_length_take: "drop (length (take j xs)) xs = drop j xs"
  by (cases "j \<le> length xs") simp_all

lemma read_cases:
  assumes "buf_ok t" "buf_room t" "read_to_taskbuf c s t = (r, s', t')"
  shows "buf_ok t' \<and> contents t' @ s' = contents t @ s \<and> (r = TBUF_END \<and> contents t' = [] \<longrightarrow> s' = [])
    \<and> head t' = head t \<and> total_written t' = total_written t \<and> unat (tail t') + length s' = unat (tail t) + length s
    \<and> (\<forall>n. c = Chunk n \<longrightarrow> r \<noteq> TBUF_ERROR \<and> r \<noteq> TBUF_AGAIN \<and> (contents t' = [] \<longrightarrow> r = TBUF_END))"
proof (cases c)
  case (Chunk n)
  let ?bs = "take (min (Suc n) (read_size t)) s"
  show ?thesis
  proof (cases "?bs = []")
    case True
    have "s = []" if "contents t = []"
    proof -
      have "read_size t > 0" using that assms(1) contents_empty read_space(3) by blast
      then show ?thesis using True by (auto simp: min_def split: if_splits)
    qed
    then show ?thesis using True assms Chunk by (auto simp: read_to_taskbuf_def Let_def)
  next
    case False
    have len: "length ?bs \<le> read_size t" by simp
    have T: "unat (tail t) + length ?bs < 4294967296"
      using assms(2) read_space(2) [OF assms(1)] len unfolding buf_room_def by linarith
    note C = contents_store [OF assms(1) len T]
    have d: "drop (length ?bs) s = drop (min (Suc n) (read_size t)) s" by (rule drop_length_take)
    have T': "unat (tail t + of_nat (length ?bs)) = unat (tail t) + length ?bs" using T by (simp add: unat_add_u32)
    have eq: "read_to_taskbuf c s t = (TBUF_OK, drop (length ?bs) s,
        t\<lparr>buf := store (tailpos t) ?bs (buf t), tail := tail t + of_nat (length ?bs)\<rparr>)"
      by (simp only: read_to_taskbuf_def Chunk io.case Let_def if_not_P [OF False])
    have t': "r = TBUF_OK" "s' = drop (length ?bs) s"
      "t' = t\<lparr>buf := store (tailpos t) ?bs (buf t), tail := tail t + of_nat (length ?bs)\<rparr>"
      using assms(3) unfolding eq by (simp_all only: prod.inject)
    have c: "contents t' = contents t @ ?bs" "buf_ok t'" using C t'(3) by simp_all
    moreover have "contents t' \<noteq> []" unfolding c(1) using False by simp
    moreover have "contents t' @ s' = contents t @ s" unfolding c(1) t'(2) d by simp
    moreover have "unat (tail t') + length s' = unat (tail t) + length s" using T' t'(2,3) by simp
    ultimately show ?thesis using t'(1,3) by simp
  qed
qed (use assms in \<open>auto simp: read_to_taskbuf_def\<close>)

lemma write_cases:
  assumes "buf_ok t" "write_from_taskbuf c out t = (r, out', t')"
  shows "buf_ok t' \<and> out' @ contents t' = out @ contents t \<and> tail t' = tail t
    \<and> (\<exists>m. m \<le> length (contents t) \<and> unat (head t') = unat (head t) + m \<and> total_written t' = total_written t + of_nat m)
    \<and> (\<forall>n. c = Chunk n \<longrightarrow> r \<noteq> TBUF_ERROR \<and> (contents t \<noteq> [] \<longrightarrow> length (contents t') < length (contents t)))"
proof (cases "head t = tail t")
  case True
  then show ?thesis using assms contents_empty [OF assms(1)] by (auto simp: write_from_taskbuf_def)
next
  case False
  show ?thesis
  proof (cases c)
    case (Chunk n)
    obtain k where k: "k > 0" "write_chunk t = take k (contents t)" using chunk_contents [OF assms(1) False] by blast
    let ?bs = "take (Suc n) (write_chunk t)"
    have "contents t \<noteq> []" using False contents_empty [OF assms(1)] by simp
    then have wc: "write_chunk t \<noteq> []" using k by simp
    have "?bs = take (min (Suc n) k) (contents t)" by (simp add: k(2))
    then have bs: "?bs = take (length ?bs) (contents t)" "length ?bs \<le> length (contents t)" "?bs \<noteq> []"
      using wc k(1) \<open>contents t \<noteq> []\<close> take_length_take [of "min (Suc n) k" "contents t"] by auto
    note C = contents_write [OF assms(1) bs(2) [unfolded length_contents], of "total_written t + of_nat (length ?bs)"]
    have "length (contents t) > 0" using \<open>contents t \<noteq> []\<close> by simp
    moreover have "length ?bs > 0" using bs(3) unfolding length_greater_0_conv .
    ultimately have lens: "length (contents t) > 0" "length ?bs > 0" by blast+
    have eq: "write_from_taskbuf c out t = (TBUF_OK, out @ ?bs,
        t\<lparr>head := head t + of_nat (length ?bs), total_written := total_written t + of_nat (length ?bs)\<rparr>)"
      by (simp only: write_from_taskbuf_def Chunk io.case Let_def if_not_P [OF False] if_not_P [OF bs(3)])
    have t': "r = TBUF_OK" "out' = out @ ?bs"
      "t' = t\<lparr>head := head t + of_nat (length ?bs), total_written := total_written t + of_nat (length ?bs)\<rparr>"
      using assms(2) unfolding eq by (simp_all only: prod.inject)
    have c: "contents t' = drop (length ?bs) (contents t)" "buf_ok t'" "unat (head t') = unat (head t) + length ?bs"
      unfolding t'(3) using C by simp_all
    have "out' @ contents t' = out @ contents t"
      unfolding t'(2) c(1) by (subst bs(1)) simp
    moreover have "length (contents t') < length (contents t)" unfolding c(1) length_drop using lens by linarith
    moreover have "tail t' = tail t" "total_written t' = total_written t + of_nat (length ?bs)" unfolding t'(3) by simp_all
    ultimately show ?thesis using c(2,3) t'(1) bs(2) by blast
  qed (use assms False in \<open>auto simp: write_from_taskbuf_def\<close>)
qed

interpretation task_buffer: transfer_buffer buf_ok buf_room contents read_to_taskbuf write_from_taskbuf
proof
  show "buf_ok t' \<and> contents t' @ s' = contents t @ s \<and> (r = TBUF_END \<and> contents t' = [] \<longrightarrow> s' = [])"
    if "buf_ok t" "buf_room t" "read_to_taskbuf c s t = (r, s', t')" for t c s r s' t'
    using read_cases [OF that] by blast
  show "r \<noteq> TBUF_ERROR \<and> r \<noteq> TBUF_AGAIN \<and> (contents t' = [] \<longrightarrow> r = TBUF_END)"
    if "buf_ok t" "buf_room t" "read_to_taskbuf (Chunk n) s t = (r, s', t')" for t n s r s' t'
    using read_cases [OF that] by blast
  show "buf_ok t' \<and> out' @ contents t' = out @ contents t"
    if "buf_ok t" "write_from_taskbuf c out t = (r, out', t')" for t c out r out' t'
    using write_cases [OF that] by blast
  show "r \<noteq> TBUF_ERROR \<and> (contents t \<noteq> [] \<longrightarrow> length (contents t') < length (contents t))"
    if "buf_ok t" "write_from_taskbuf (Chunk n) out t = (r, out', t')" for t n out r out' t'
    using write_cases [OF that] by blast
qed

section \<open>Downloads\<close>

text \<open>The size limit keeps the counters of a download far from wrapping.\<close>

definition download_ok :: "task \<Rightarrow> bool" where
  "download_ok t \<longleftrightarrow> buf_ok t \<and> unat (head t) = unat (total_written t) \<and> unat (total_written t) \<le> 21071520"

lemma download_room: "download_ok t \<Longrightarrow> buf_room t"
  by (auto simp: download_ok_def buf_room_def buf_ok_def)

lemma download_read:
  "download_ok t \<Longrightarrow> read_to_taskbuf c s t = (r, s', t') \<Longrightarrow> download_ok t' \<and> total_written t' = total_written t"
  using read_cases [OF _ download_room, of t c s r s' t'] by (auto simp: download_ok_def)

lemma download_write:
  assumes "download_ok t" "\<not> total_written t > 20 * 1024 * 1024" "write_from_taskbuf c out t = (r, out', t')"
  shows "download_ok t'
    \<and> unat (total_written t') + length (contents t') = unat (total_written t) + length (contents t)"
proof -
  have ok: "buf_ok t" using assms(1) by (simp add: download_ok_def)
  obtain m where m: "m \<le> length (contents t)" "unat (head t') = unat (head t) + m"
    "total_written t' = total_written t + of_nat m" and b: "buf_ok t'" "tail t' = tail t"
    using write_cases [OF ok assms(3)] by blast
  have w: "unat (total_written t) \<le> 20971520" using assms(2) by (simp add: word_less_nat_alt)
  have l: "length (contents t) \<le> 100000" using ok by (simp add: length_contents buf_ok_def)
  have "unat (total_written t') = unat (total_written t) + m"
    using m(1,3) w l by (simp add: unat_add_u32)
  then show ?thesis
    using assms(1) m w l b by (simp add: download_ok_def length_contents)
qed

lemma download_safe:
  "download_loop calls s out t = Some (True, out', t') \<Longrightarrow> download_ok t \<Longrightarrow>
     out' = out @ contents t @ s \<and> unat (total_written t') = unat (total_written t) + length (contents t @ s)"
proof (induction calls s out t rule: download_loop.induct)
  case (2 rd wr calls s out t)
  obtain ret s1 t1 where r: "read_to_taskbuf rd s t = (ret, s1, t1)" by (metis prod_cases3)
  obtain ret2 out1 t2 where w: "write_from_taskbuf wr out t1 = (ret2, out1, t2)" by (metis prod_cases3)
  have ok: "buf_ok t" using "2.prems"(2) by (simp add: download_ok_def)
  note R = task_buffer.rd_law [OF ok download_room [OF "2.prems"(2)] r]
  have t1: "download_ok t1" using download_read [OF "2.prems"(2) r] by simp
  show ?case
  proof (cases "ret = TBUF_END \<and> head t1 = tail t1")
    case True
    then have "contents t1 = []" "s1 = []" using R contents_empty by blast+
    then have "contents t @ s = []" using R by simp
    then show ?thesis using "2.prems"(1) r True download_read [OF "2.prems"(2) r] by simp
  next
    case False
    then have cont: "ret \<noteq> TBUF_ERROR" "\<not> total_written t1 > 20 * 1024 * 1024" "ret2 \<noteq> TBUF_ERROR"
      "download_loop calls s1 out1 t2 = Some (True, out', t')"
      using "2.prems"(1) r w by (auto split: if_splits)
    have "out' = out1 @ contents t2 @ s1 \<and> unat (total_written t') = unat (total_written t2) + length (contents t2 @ s1)"
      using "2.IH" [OF r [symmetric] refl cont(1) False cont(2) w [symmetric] refl cont(3,4)]
        download_write [OF t1 cont(2) w] by blast
    moreover have "length (contents t1 @ s1) = length (contents t @ s)" using R by metis
    ultimately show ?thesis
      using task_buffer.read_write_round [OF ok download_room [OF "2.prems"(2)] r w]
        download_read [OF "2.prems"(2) r] download_write [OF t1 cont(2) w] by simp
  qed
qed simp

lemma download_live:
  "list_all (\<lambda>(rd, wr). (\<exists>n. rd = Chunk n) \<and> (\<exists>n. wr = Chunk n)) calls \<Longrightarrow> download_ok t \<Longrightarrow>
     length (contents t @ s) < length calls \<Longrightarrow> unat (total_written t) + length (contents t @ s) \<le> 20971520 \<Longrightarrow>
     \<exists>out' t'. download_loop calls s out t = Some (True, out', t')"
proof (induction calls s out t rule: download_loop.induct)
  case (2 rd wr calls s out t)
  obtain n m where c: "rd = Chunk n" "wr = Chunk m" using "2.prems"(1) by auto
  obtain ret s1 t1 where r: "read_to_taskbuf rd s t = (ret, s1, t1)" by (metis prod_cases3)
  obtain ret2 out1 t2 where w: "write_from_taskbuf wr out t1 = (ret2, out1, t2)" by (metis prod_cases3)
  have ok: "buf_ok t" using "2.prems"(2) by (simp add: download_ok_def)
  note room = download_room [OF "2.prems"(2)]
  note R = task_buffer.rd_law [OF ok room r]
  have t1: "download_ok t1" "total_written t1 = total_written t" using download_read [OF "2.prems"(2) r] by simp_all
  have l1: "length (contents t1 @ s1) = length (contents t @ s)" using R by metis
  show ?case
  proof (cases "ret = TBUF_END \<and> head t1 = tail t1")
    case True
    then show ?thesis using r by simp
  next
    case False
    have ret: "ret \<noteq> TBUF_ERROR" using task_buffer.rd_chunk [OF ok room r [unfolded c]] by blast
    have small: "\<not> total_written t1 > 20 * 1024 * 1024"
      using "2.prems"(4) t1(2) by (simp add: word_less_nat_alt)
    have "\<not> (ret = TBUF_END \<and> contents t1 = [])" using False R contents_empty by blast
    then have P: "length (contents t2 @ s1) < length (contents t @ s)" "ret2 \<noteq> TBUF_ERROR"
      using task_buffer.read_write_progress [OF ok room r [unfolded c(1)] _ w [unfolded c(2)]] by blast+
    note W = download_write [OF t1(1) small w]
    have "\<exists>out' t'. download_loop calls s1 out1 t2 = Some (True, out', t')"
    proof (rule "2.IH" [OF r [symmetric] refl ret False small w [symmetric] refl P(2)])
      show "list_all (\<lambda>(rd, wr). (\<exists>n. rd = Chunk n) \<and> (\<exists>n. wr = Chunk n)) calls" using "2.prems"(1) by simp
      show "download_ok t2" using W by blast
      show "length (contents t2 @ s1) < length calls" using P(1) "2.prems"(3) by simp
      show "unat (total_written t2) + length (contents t2 @ s1) \<le> 20971520"
        using W l1 "2.prems"(4) t1(2) by simp
    qed
    then show ?thesis using r w ret False small P(2) by simp
  qed
qed simp

definition fresh :: "task \<Rightarrow> bool" where
  "fresh t \<longleftrightarrow> head t = 0 \<and> tail t = 0 \<and> total_written t = 0"

lemma fresh_ok: "fresh t \<Longrightarrow> download_ok t \<and> contents t = []"
  by (simp add: fresh_def download_ok_def buf_ok_def contents_def)

lemma fresh_simps [simp]: "fresh (task_new tt b)" "fresh (snd (task_pop_peer t))"
  by (simp_all add: fresh_def task_new_def task_pop_peer_def)

text \<open>A transfer of at most 20 MB in which every call moves some bytes ends, in any pieces, and the
  local file is exactly what the peer sent.\<close>

lemma download_complete:
  assumes "fresh t" "length s \<le> 20971520" "length s < length calls"
    "list_all (\<lambda>(rd, wr). (\<exists>n. rd = Chunk n) \<and> (\<exists>n. wr = Chunk n)) calls"
  shows "\<exists>t'. download_loop calls s [] t = Some (True, s, t') \<and> unat (total_written t') = length s"
proof -
  have t: "download_ok t" "contents t = []" "unat (total_written t) = 0"
    using assms(1) fresh_ok [OF assms(1)] by (simp_all add: fresh_def)
  obtain out' t' where "download_loop calls s [] t = Some (True, out', t')"
    using download_live [OF assms(4) t(1), of s "[]"] assms(2,3) t(2,3) by auto
  then show ?thesis using download_safe t by fastforce
qed

lemma open_loop_Opened: "open_loop err files f is = Opened n \<Longrightarrow> files n = None \<and> \<not> err n"
  by (induction err files f "is" rule: open_loop.induct) (auto simp: Let_def split: if_splits)

lemma open_loop_Open_error: "open_loop err files f is = Open_error n \<Longrightarrow> err n"
  by (induction err files f "is" rule: open_loop.induct) (auto simp: Let_def split: if_splits)

lemma files_unchanged [simp]: "files n = None \<Longrightarrow> files(n := None) = (files :: files)"
  by (simp add: fun_upd_idem)

lemma download_filename: "download_loop calls s out t = Some (ok, out', t') \<Longrightarrow> filename t' = filename t"
proof (induction calls s out t rule: download_loop.induct)
  case (2 rd wr calls s out t)
  have "read_to_taskbuf rd s t = (r, s1, t1) \<Longrightarrow> filename t1 = filename t" for r s1 t1
    by (auto simp: read_to_taskbuf_def Let_def split: io.splits if_splits)
  moreover have "write_from_taskbuf wr out t1 = (r, out1, t2) \<Longrightarrow> filename t2 = filename t1" for r out1 t1 t2
    by (auto simp: write_from_taskbuf_def Let_def split: io.splits if_splits)
  ultimately show ?case using 2 by (auto split: prod.splits if_splits)
qed simp

text \<open>
  One peer: the task goes on with the next one, gives up, or has the file. When \<open>open\<close> has failed, the name that
  could not be opened is unlinked, even if it is that of a file that was there before.
\<close>

lemma task_download_cases:
  assumes "task_download listen_addr listen_port evil env (p # ps) t files = Some (res, files')"
  obtains (again) u where "filename u = filename t" "fresh u"
      "task_download listen_addr listen_port evil env ps u files = Some (res, files')"
  | (unlinked) u n where "filename u = filename t" "fresh u" "create_error (env p) n"
      "task_download listen_addr listen_port evil env ps u (files(n := None)) = Some (res, files')"
  | (full) "res = Too_many_files" "files' = files"
  | (got) n request out t1 where "get_request evil (filename t) = Some request" "files n = None"
      "download_loop (io_calls (env p)) (sent (env p) request) [] t = Some (True, out, t1)" "total_written t1 > 0"
      "res = Downloaded n (announcement t1 n)" "files' = files(n \<mapsto> out)"
proof -
  have pop: "filename (snd (task_pop_peer u)) = filename u" for u by (simp add: task_pop_peer_def)
  show thesis
  proof (cases "(addr p = listen_addr \<and> port p = listen_port) \<or> \<not> connects (env p)")
    case True
    then show thesis using assms again [OF pop fresh_simps(2)] by (auto simp: Let_def split: if_splits)
  next
    case False
    then have ns: "(addr p = listen_addr \<and> port p = listen_port) = False" and c: "connects (env p) = True" by blast+
    note run = assms [unfolded task_download.simps Let_def ns c if_False not_True_eq_False]
    obtain request where q: "get_request evil (filename t) = Some request" using run by (auto split: option.splits)
    show thesis
    proof (cases "open_loop (create_error (env p)) files (filename t) [0..<50]")
      case (Opened n)
      obtain ok out t1 where d: "download_loop (io_calls (env p)) (sent (env p) request) [] t = Some (ok, out, t1)"
        using run q Opened by (cases "download_loop (io_calls (env p)) (sent (env p) request) [] t") auto
      show thesis
      proof (cases "ok \<and> total_written t1 > 0")
        case True
        then show thesis using run q Opened d open_loop_Opened [OF Opened] by (intro got) auto
      next
        case False
        then have "task_download listen_addr listen_port evil env ps (snd (task_pop_peer t1)) files = Some (res, files')"
          using run q Opened d open_loop_Opened [OF Opened] by auto
        then show thesis using again [of "snd (task_pop_peer t1)"] pop download_filename [OF d] by simp
      qed
    next
      case (Open_error n)
      then have "task_download listen_addr listen_port evil env ps (snd (task_pop_peer t)) (files(n := None)) = Some (res, files')"
        using run q by auto
      then show thesis using unlinked [OF pop fresh_simps(2) open_loop_Open_error [OF Open_error]] by blast
    qed (use run q full in auto)
  qed
qed

text \<open>The names that some peer of the list fails to open.\<close>

definition open_fails :: "(peer \<Rightarrow> attempt) \<Rightarrow> peer list \<Rightarrow> string \<Rightarrow> bool" where
  "open_fails env ps n \<longleftrightarrow> (\<exists>p \<in> set ps. create_error (env p) n)"

text \<open>C21: A download leaves every other file as it was, unless \<open>open\<close> fails on its name with another error than
  that it exists, in which case it may be removed. When the download succeeds, the only file that is new or changed
  did not exist, or was removed in this way before, and has exactly the bytes that some peer of the list sent in answer
  to the request, and the tracker is only told when it has the name that was asked for; otherwise nothing is left of
  the attempts.\<close>

theorem task_download_files:
  assumes "fresh t" "task_download listen_addr listen_port evil env ps t files = Some (res, files')"
  shows "(\<forall>m. files' m \<noteq> files m \<longrightarrow> files' m = None \<and> open_fails env ps m \<or> (\<exists>told. res = Downloaded m told))
    \<and> (case res of
         Downloaded n told \<Rightarrow> (files n = None \<or> open_fails env ps n) \<and> (told \<noteq> None \<longrightarrow> n = filename t)
           \<and> (\<exists>p \<in> set ps. \<exists>request. get_request evil (filename t) = Some request \<and> sent (env p) request \<noteq> []
                \<and> files' n = Some (sent (env p) request))
       | _ \<Rightarrow> True)"
  using assms
proof (induction ps arbitrary: t files)
  case (Cons p ps)
  have more: "open_fails env ps m \<Longrightarrow> open_fails env (p # ps) m" for m by (simp add: open_fails_def)
  from Cons.prems(2) show ?case
  proof (cases rule: task_download_cases)
    case (again u)
    note IH = Cons.IH [OF again(2,3), unfolded again(1)]
    show ?thesis
    proof (cases res)
      case (Downloaded n told)
      then show ?thesis using IH more unfolding Downloaded download_result.case list.set(2) by blast
    qed (use IH more in simp_all)
  next
    case (unlinked u x)
    note IH = Cons.IH [OF unlinked(2,4), unfolded unlinked(1)]
    have x: "open_fails env (p # ps) x" using unlinked(3) by (simp add: open_fails_def)
    have 1: "\<forall>m. files' m \<noteq> files m \<longrightarrow> files' m = None \<and> open_fails env (p # ps) m \<or> (\<exists>told. res = Downloaded m told)"
    proof (intro allI impI)
      fix m assume m: "files' m \<noteq> files m"
      show "files' m = None \<and> open_fails env (p # ps) m \<or> (\<exists>told. res = Downloaded m told)"
      proof (cases "files' m = (files(x := None)) m")
        case True
        then show ?thesis using m x by (auto split: if_splits)
      next
        case False
        then show ?thesis using IH more by blast
      qed
    qed
    show ?thesis
    proof (cases res)
      case (Downloaded n told)
      have "files n = None \<or> open_fails env (p # ps) n"
        using IH more x unfolding Downloaded download_result.case by (cases "n = x") auto
      then show ?thesis using 1 IH unfolding Downloaded download_result.case list.set(2) by blast
    qed (use 1 in simp_all)
  next
    case (got n request out t1)
    have "out = sent (env p) request" "unat (total_written t1) = length (sent (env p) request)"
      using download_safe [OF got(3)] fresh_ok [OF Cons.prems(1)] Cons.prems(1) by (simp_all add: fresh_def)
    moreover have "unat (total_written t1) > 0" using got(4) by (simp add: word_less_nat_alt)
    ultimately show ?thesis
      using got(1,2,5,6) download_filename [OF got(3)] by (auto simp: announcement_def)
  qed simp
qed simp

text \<open>The first peer cannot be reached, the file exists already, and the second peer sends it.\<close>

definition sample_peers :: "peer list" where
  "sample_peers = [\<lparr>peer_alias = ''a'', addr = 1, port = 1\<rparr>, \<lparr>peer_alias = ''b'', addr = 2, port = 2\<rparr>]"

definition sample_env :: "peer \<Rightarrow> attempt" where
  "sample_env p = \<lparr>connects = (addr p = 2), create_error = (\<lambda>n. False), sent = (\<lambda>request. ''hi''),
     io_calls = [(Chunk 9, Chunk 9), (Chunk 9, Chunk 9)]\<rparr>"

theorem task_download_files_witness:
  "\<exists>files'. task_download 9 9 0 sample_env sample_peers ((task_new TASK_DOWNLOAD (\<lambda>i. CHR ''x''))\<lparr>filename := ''f''\<rparr>)
      [''f'' \<mapsto> ''old''] = Some (Downloaded ''f~1~'' None, files')
    \<and> files' ''f'' = Some ''old''
    \<and> (\<exists>p \<in> set sample_peers. \<exists>request. get_request 0 ''f'' = Some request \<and> files' ''f~1~'' = Some (sent (sample_env p) request))"
proof -
  let ?t = "(task_new TASK_DOWNLOAD (\<lambda>i. CHR ''x''))\<lparr>filename := ''f''\<rparr>"
  have f: "fresh ?t" by (simp add: fresh_def task_new_def)
  let ?u = "snd (task_pop_peer ?t)"
  have d: "\<exists>t'. download_loop [(Chunk 9, Chunk 9), (Chunk 9, Chunk 9)] ''hi'' [] ?u = Some (True, ''hi'', t')
      \<and> total_written t' > 0 \<and> filename t' = ''f''"
    by (simp add: read_to_taskbuf_def write_from_taskbuf_def write_chunk_def headpos_def tailpos_def store_def read_size_def
        task_pop_peer_def task_new_def Let_def upt_rec)
  have n: "numbered ''f'' 1 = ''f~1~''" by code_simp
  have o: "open_loop (\<lambda>n. False) [''f'' \<mapsto> ''old''] (filename ?u) [0..<50] = Opened ''f~1~''"
    using n by (simp add: upt_conv_Cons numbered_def task_pop_peer_def task_new_def)
  have g: "\<exists>request. get_request 0 (filename ?u) = Some request" by (simp add: get_request_def)
  have "\<exists>files'. task_download 9 9 0 sample_env sample_peers ?t [''f'' \<mapsto> ''old''] = Some (Downloaded ''f~1~'' None, files')"
    using d o g by (auto simp: sample_peers_def sample_env_def announcement_def)
  then obtain files' where r: "task_download 9 9 0 sample_env sample_peers ?t [''f'' \<mapsto> ''old''] = Some (Downloaded ''f~1~'' None, files')" ..
  have nf: "\<not> open_fails sample_env sample_peers m" for m by (simp add: open_fails_def sample_env_def)
  have nn: "''f~1~'' \<noteq> ''f''" by simp
  note P = task_download_files [OF f r, unfolded download_result.case]
  have "\<forall>m. files' m \<noteq> [''f'' \<mapsto> ''old''] m \<longrightarrow> m = ''f~1~''" using conjunct1 [OF P] nf by blast
  then have "files' ''f'' = [''f'' \<mapsto> ''old''] ''f''" using nn by metis
  then have "files' ''f'' = Some ''old''" by simp
  moreover have "\<exists>p \<in> set sample_peers. \<exists>request. get_request 0 ''f'' = Some request
      \<and> files' ''f~1~'' = Some (sent (sample_env p) request)" using P by auto
  ultimately show ?thesis using r by blast
qed

text \<open>The error of \<open>open\<close> is taken for one of a file that was made by the attempt: an existing file is removed when the
  process or the system has no more descriptors.\<close>

lemma open_error_unlinks:
  "task_download 9 9 0 (\<lambda>p. (sample_env p)\<lparr>create_error := (\<lambda>n. True)\<rparr>) sample_peers
     ((task_new TASK_DOWNLOAD (\<lambda>i. CHR ''x''))\<lparr>filename := ''f''\<rparr>) [''f'' \<mapsto> ''old''] = Some (No_peers, Map.empty)"
proof -
  have "open_loop (\<lambda>n. True) files ''f'' [0..<50] = Open_error ''f''" for files
    by (subst upt_rec) (simp add: numbered_def)
  moreover have "\<exists>request. get_request 0 ''f'' = Some request" by (simp add: get_request_def)
  ultimately show ?thesis by (auto simp: sample_peers_def sample_env_def task_pop_peer_def task_new_def)
qed

section \<open>Uploads\<close>

text \<open>An upload has no size limit, so the counters only stay below 2 to the 32 for smaller files.\<close>

definition upload_ok :: "task \<Rightarrow> string \<Rightarrow> bool" where
  "upload_ok t s \<longleftrightarrow> buf_ok t \<and> unat (tail t) + length s + TASKBUFSIZ < 4294967296"

lemma upload_room: "upload_ok t s \<Longrightarrow> buf_room t"
  by (simp add: upload_ok_def buf_room_def)

lemma upload_write: "upload_ok t s \<Longrightarrow> write_from_taskbuf c out t = (r, out', t') \<Longrightarrow> upload_ok t' s"
  using write_cases [of t c out r out' t'] by (auto simp: upload_ok_def)

lemma upload_read: "upload_ok t s \<Longrightarrow> read_to_taskbuf c s t = (r, s', t') \<Longrightarrow> upload_ok t' s'"
  using read_cases [of t c s r s' t'] upload_room [of t s] by (auto simp: upload_ok_def)

lemma upload_complete:
  "list_all (\<lambda>(wr, rd). (\<exists>n. wr = Chunk n) \<and> (\<exists>n. rd = Chunk n)) calls \<Longrightarrow> upload_ok t s \<Longrightarrow>
     2 * length s + length (contents t) < length calls \<Longrightarrow>
     \<exists>t'. upload_loop calls s out t = Some (True, out @ contents t @ s, t')"
proof (induction calls s out t rule: upload_loop.induct)
  case (2 wr rd calls s out t)
  obtain n m where c: "wr = Chunk n" "rd = Chunk m" using "2.prems"(1) by auto
  obtain ret out1 t1 where w: "write_from_taskbuf wr out t = (ret, out1, t1)" by (metis prod_cases3)
  obtain ret2 s1 t2 where r: "read_to_taskbuf rd s t1 = (ret2, s1, t2)" by (metis prod_cases3)
  have ok: "buf_ok t" using "2.prems"(2) by (simp add: upload_ok_def)
  have t1: "upload_ok t1 s" using upload_write [OF "2.prems"(2) w] .
  have ok1: "buf_ok t1" using t1 by (simp add: upload_ok_def)
  note room = upload_room [OF t1]
  note W = task_buffer.wr_law [OF ok w] and Wc = task_buffer.wr_chunk [OF ok w [unfolded c]]
  note R = task_buffer.rd_law [OF ok1 room r] and Rc = task_buffer.rd_chunk [OF ok1 room r [unfolded c]]
  have t2: "upload_ok t2 s1" using upload_read [OF t1 r] .
  have same: "out1 @ contents t2 @ s1 = out @ contents t @ s" using W R by (metis append.assoc)
  show ?case
  proof (cases "ret2 = TBUF_END \<and> head t2 = tail t2")
    case True
    then have "contents t2 = []" "s1 = []" using R contents_empty by blast+
    then have "out1 = out @ contents t @ s" using same by simp
    then show ?thesis using w r True Wc Rc by simp
  next
    case False
    have lens: "length (contents t2) + length s1 = length (contents t1) + length s"
      using arg_cong [OF conjunct1 [OF conjunct2 [OF R]], of length] by simp
    have "length s1 \<le> length s"
      using r c(2) by (auto simp: read_to_taskbuf_def Let_def split: if_splits)
    moreover have "length s1 < length s" if "contents t1 = []"
    proof -
      have "contents t2 \<noteq> []" using Rc False R contents_empty by blast
      then show ?thesis using lens that by (cases "contents t2") simp_all
    qed
    moreover have "length (contents t1) < length (contents t) \<or> contents t = [] \<and> contents t1 = []"
      using Wc W w by (cases "contents t = []") (auto simp: write_from_taskbuf_def contents_empty [OF ok])
    ultimately have "2 * length s1 + length (contents t2) < 2 * length s + length (contents t)"
      using lens by (cases "contents t1 = []") (auto)
    then have "2 * length s1 + length (contents t2) < length calls" using "2.prems"(3) by simp
    then obtain t' where "upload_loop calls s1 out1 t2 = Some (True, out1 @ contents t2 @ s1, t')"
      using "2.IH" [OF w [symmetric] refl _ r [symmetric] refl _ False _ t2] Wc Rc "2.prems"(1) by auto
    then show ?thesis using w r False Wc Rc same by auto
  qed
qed simp

text \<open>The request is read whole: only its last character is a line break.\<close>

lemma request_complete:
  "list_all (\<lambda>rd. \<exists>n. rd = Chunk n) calls \<Longrightarrow> buf_ok t \<Longrightarrow> head t = 0 \<Longrightarrow> s \<noteq> [] \<Longrightarrow>
     length (contents t @ s) \<le> TASKBUFSIZ \<Longrightarrow> length s \<le> length calls \<Longrightarrow>
     List.last s = CHR 0x0A \<Longrightarrow> CHR 0x0A \<notin> set (butlast s) \<Longrightarrow>
     \<exists>t'. request_loop calls s t = Some t' \<and> head t' = 0 \<and> buf_ok t' \<and> contents t' = contents t @ s"
proof (induction calls s t rule: request_loop.induct)
  case (2 call rest s t)
  obtain n where c: "call = Chunk n" using "2.prems"(1) by auto
  obtain ret s1 t1 where r: "read_to_taskbuf call s t = (ret, s1, t1)" by (metis prod_cases3)
  have room: "buf_room t" using "2.prems"(3,5) by (simp add: buf_room_def length_contents)
  note R = read_cases [OF "2.prems"(2) room r]
  have "unat (tail t) < 100000" using "2.prems"(3,4,5) by (cases s) (simp_all add: length_contents)
  then have "read_size t > 0" using "2.prems"(3) by (auto simp: read_size_def headpos_def tailpos_def unat_eq_0_u32)
  define k where "k = min (Suc n) (read_size t)"
  have k: "k > 0" using \<open>read_size t > 0\<close> by (simp add: k_def)
  have eq: "ret = TBUF_OK" "s1 = drop k s" "contents t1 = contents t @ take k s"
  proof -
    have ne: "take k s \<noteq> []" using k "2.prems"(4) by simp
    have eq: "read_to_taskbuf call s t = (TBUF_OK, drop (length (take k s)) s,
        t\<lparr>buf := store (tailpos t) (take k s) (buf t), tail := tail t + of_nat (length (take k s))\<rparr>)"
      by (simp only: read_to_taskbuf_def c io.case Let_def k_def [symmetric] if_not_P [OF ne])
    then show ret: "ret = TBUF_OK" and s1: "s1 = drop k s"
      using r unfolding eq drop_length_take by (simp_all only: prod.inject)
    have "contents t1 @ drop k s = (contents t @ take k s) @ drop k s" using R s1 by simp
    then show "contents t1 = contents t @ take k s" by (simp only: append_same_eq)
  qed
  have h1: "head t1 = 0" using R "2.prems"(3) by simp
  have len1: "length (contents t1) = unat (tail t1)" using h1 by (simp add: length_contents)
  have pos: "unat (tail t1) > 0" using len1 eq(3) k "2.prems"(4) by (cases s) auto
  have l1: "unat (tail t1) \<le> 100000" using len1 eq(3) "2.prems"(5) by simp
  have last: "buf t1 (unat (tail t1 - 1)) = List.last (take k s)"
  proof -
    have "unat (tail t1 - 1) = unat (tail t1) - 1" using pos by (simp add: unat_minus_one unat_gt_0)
    moreover have "contents t1 ! (unat (tail t1) - 1) = buf t1 (unat (tail t1) - 1)"
      using pos l1 h1 by (simp add: contents_def)
    moreover have "contents t1 ! (unat (tail t1) - 1) = List.last (contents t1)"
      using pos len1 by (subst last_conv_nth) auto
    moreover have "List.last (contents t1) = List.last (take k s)" using eq(3) k "2.prems"(4) by simp
    ultimately show ?thesis by simp
  qed
  show ?case
  proof (cases "s1 = []")
    case True
    then have "take k s = s" using eq(2) by simp
    then have "buf t1 (unat (tail t1 - 1)) = CHR 0x0A" using last "2.prems"(7) by simp
    moreover have "tail t1 \<noteq> 0" using pos by auto
    ultimately show ?thesis using r eq R h1 True \<open>take k s = s\<close> by simp
  next
    case False
    then have "k < length s" using eq(2) by simp
    then have "List.last (take k s) \<in> set (butlast s)"
      using k "2.prems"(4) by (auto simp: butlast_conv_take last_conv_nth in_set_conv_nth min_def intro!: exI [of _ "k - 1"])
    then have nn: "buf t1 (unat (tail t1 - 1)) \<noteq> CHR 0x0A" using last "2.prems"(8) by auto
    have "\<exists>t'. request_loop rest s1 t1 = Some t' \<and> head t' = 0 \<and> buf_ok t' \<and> contents t' = contents t1 @ s1"
    proof (rule "2.IH" [OF r [symmetric] refl])
      show "ret \<noteq> TBUF_ERROR" "\<not> (ret = TBUF_END \<or> tail t1 \<noteq> 0 \<and> buf t1 (unat (tail t1 - 1)) = CHR 0x0A)"
        using eq(1) nn by simp_all
      show "list_all (\<lambda>rd. \<exists>n. rd = Chunk n) rest" "buf_ok t1" "head t1 = 0" "s1 \<noteq> []"
        using "2.prems"(1) R h1 False by simp_all
      show "length (contents t1 @ s1) \<le> TASKBUFSIZ" using eq "2.prems"(5) by simp
      show "length s1 \<le> length rest" using eq(2) k "2.prems"(6) by simp
      show "List.last s1 = CHR 0x0A" using eq(2) False "2.prems"(7) by simp
      show "CHR 0x0A \<notin> set (butlast s1)" using eq(2) "2.prems"(8) by (metis butlast_drop in_set_dropD)
    qed
    then show ?thesis using r eq nn by simp
  qed
qed simp


lemma quoted_no_space: "c \<in> set (http_quote f) \<Longrightarrow> \<not> is_space c"
proof -
  have "\<forall>d \<in> set [0..<16]. \<not> is_space (hex_digit d)" by code_simp
  then have "\<not> is_space (hex_digit d)" if "d < 16" for d using that by simp
  then show "c \<in> set (http_quote f) \<Longrightarrow> \<not> is_space c"
    by (auto simp: http_quote_def quote_char_def plain_simps code_less less_mult_imp_div_less split: if_splits)
qed

abbreviation (input) "get_format \<equiv> ''GET %s OSP2P'' @ [CHR 0x0A]"

lemma get_request:
  assumes "writef get_format [Str f] = Some request"
  shows "request = ''GET '' @ http_quote f @ '' OSP2P'' @ [CHR 0x0A]"
  using assms by auto

lemma get_request_line:
  assumes "writef get_format [Str f] = Some request"
  shows "request \<noteq> [] \<and> List.last request = CHR 0x0A \<and> CHR 0x0A \<notin> set (butlast request)"
proof -
  have "CHR 0x0A \<notin> set (http_quote f)" using quoted_no_space [of "CHR 0x0A" f] by (auto simp: is_space_def)
  then show ?thesis unfolding get_request [OF assms] by (simp add: butlast_append)
qed

text \<open>The text is in the first bytes of the buffer when it was never written from.\<close>

lemma buffer_text:
  assumes "head t = 0" "buf_ok t"
  shows "\<exists>junk. map (buf t) [0..<TASKBUFSIZ] = contents t @ junk"
proof -
  let ?T = "unat (tail t)"
  have le: "?T \<le> 100000" using assms by (simp add: buf_ok_def)
  then have "[0..<100000] = [0..<?T] @ [?T..<100000]" using upt_add_eq_append [of 0 ?T "100000 - ?T"] by simp
  moreover have "contents t = map (buf t) [0..<?T]" using le assms(1) by (simp add: contents_def)
  ultimately show ?thesis by (metis map_append)
qed

text \<open>An upload serves the whole file: whatever pieces the request and the data come in, a peer that asks
  for a file in the directory with the message of \<open>task_download\<close> receives exactly its bytes.\<close>

lemma upload_serves:
  assumes "fresh t" "f \<noteq> []" "length f < FILENAMESIZ"
    "writef get_format [Str f] = Some request" "may_serve d f" "content d f = Some bytes" "length bytes < 4294867296"
    "list_all (\<lambda>rd. \<exists>n. rd = Chunk n) request_calls" "3 * length f + 11 \<le> length request_calls"
    "list_all (\<lambda>(wr, rd). (\<exists>n. wr = Chunk n) \<and> (\<exists>n. rd = Chunk n)) transfer_calls"
    "2 * length bytes < length transfer_calls"
  shows "task_upload d 0 request_calls request transfer_calls t = Some bytes"
proof -
  have "length (http_quote f) \<le> 3 * length f"
    by (induction f) (simp_all add: http_quote_def quote_char_def)
  then have len: "length request \<le> 3 * length f + 11" unfolding get_request [OF assms(4)] by simp
  then have "length request \<le> 100000" using assms(3) by simp
  moreover have t: "buf_ok t" "head t = 0" "contents t = []" using assms(1) fresh_ok by (auto simp: fresh_def buf_ok_def)
  ultimately obtain t1 where t1: "request_loop request_calls request t = Some t1" "head t1 = 0" "buf_ok t1"
      "contents t1 = request"
    using request_complete [OF assms(8) t(1,2), of request] get_request_line [OF assms(4)] assms(9) len by auto
  obtain junk where "map (buf t1) [0..<TASKBUFSIZ] = request @ junk" using buffer_text [OF t1(2,3)] t1(4) by auto
  moreover have "unat (tail t1) = length request" using t1(2,4) length_contents [of t1] by simp
  moreover have "snscanf (request @ junk) (length request) get_format = Some [Str f]"
    using scan_written [OF assms(4), of "int (length request)" junk] assms(2)
    by (simp add: snscanf_def is_space_def del: vsnscanf_simps)
  ultimately have scan: "snscanf (map (buf t1) [0..<TASKBUFSIZ]) (unat (tail t1)) get_format = Some [Str f]" by simp
  let ?t2 = "t1\<lparr>filename := f, head := 0, tail := 0\<rparr>"
  have "upload_ok ?t2 bytes" "contents ?t2 = []" using assms(7) by (simp_all add: upload_ok_def buf_ok_def contents_def)
  then obtain t3 where "upload_loop transfer_calls bytes [] ?t2 = Some (True, bytes, t3)"
    using upload_complete [OF assms(10), of ?t2 bytes "[]"] assms(11) by auto
  then show ?thesis using t1(1) scan assms(3,5,6) by (simp add: task_upload_def served_def)
qed

section \<open>From peer to peer\<close>

text \<open>C6: A file goes from peer to peer: when the first peer of the list runs the upload of this program over a
  directory that has the file, the download ends with exactly its bytes under the name that was asked
  for, in whatever pieces request and data travel on both sides, and announces it to the tracker. The file is not empty,
  has at most 20 MB, its name is not taken here, and every call of \<open>read\<close> and \<open>write\<close> moves some bytes.\<close>

theorem file_shared:
  assumes "fresh t" "filename t = f" "f \<noteq> []" "length f < FILENAMESIZ" "files f = None"
    "may_serve d f" "content d f = Some bytes" "bytes \<noteq> []" "length bytes \<le> 20971520"
    "list_all (\<lambda>rd. \<exists>n. rd = Chunk n) request_calls" "3 * length f + 11 \<le> length request_calls"
    "list_all (\<lambda>(wr, rd). (\<exists>n. wr = Chunk n) \<and> (\<exists>n. rd = Chunk n)) transfer_calls"
    "2 * length bytes < length transfer_calls"
    "addr p \<noteq> listen_addr" "connects (env p)" "\<not> create_error (env p) f"
    "list_all (\<lambda>(rd, wr). (\<exists>n. rd = Chunk n) \<and> (\<exists>n. wr = Chunk n)) (io_calls (env p))"
    "length bytes < length (io_calls (env p))"
    "sent (env p) = (\<lambda>request.
       case task_upload d 0 request_calls request transfer_calls (task_new TASK_UPLOAD b) of Some out \<Rightarrow> out | None \<Rightarrow> [])"
  shows "task_download listen_addr listen_port 0 env (p # ps) t files
    = Some (Downloaded f (Some (''HAVE '' @ http_quote f @ [CHR 0x0A])), files(f \<mapsto> bytes))"
proof -
  obtain request where r: "get_request 0 f = Some request" by (simp add: get_request_def)
  then have "writef get_format [Str f] = Some request" by (simp add: get_request_def del: writef.simps)
  then have "task_upload d 0 request_calls request transfer_calls (task_new TASK_UPLOAD b) = Some bytes"
    using upload_serves [OF fresh_simps(1) assms(3,4) _ assms(6,7) _ assms(10,11,12,13)] assms(9) by simp
  then have sent: "sent (env p) request = bytes" using assms(19) by simp
  obtain t1 where t1: "download_loop (io_calls (env p)) bytes [] t = Some (True, bytes, t1)"
      "unat (total_written t1) = length bytes"
    using download_complete [OF assms(1,9,18,17)] by blast
  have "total_written t1 > 0" using t1(2) assms(8) by (simp add: word_less_nat_alt)
  moreover have "announcement t1 f = Some (''HAVE '' @ http_quote f @ [CHR 0x0A])"
    using download_filename [OF t1(1)] assms(2) by (simp add: announcement_def)
  moreover have "open_loop (create_error (env p)) files f [0..<50] = Opened f"
    using assms(4,5,16) by (simp add: upt_conv_Cons numbered_def)
  ultimately show ?thesis using r sent t1(1) assms(2,14,15) by (simp add: Let_def)
qed

text \<open>The other peer reads its request in pieces of three bytes, and the file goes byte by byte.\<close>

definition sample_directory :: directory where
  "sample_directory = \<lparr>cwd = Some ''/d'', realpath = (\<lambda>f. Some (''/d/'' @ f)), exists_file = (\<lambda>p. p = ''/d/a''),
     content = [''a'' \<mapsto> ''hi'']\<rparr>"

definition sample_other :: "peer \<Rightarrow> attempt" where
  "sample_other p = \<lparr>connects = True, create_error = (\<lambda>n. False),
     sent = (\<lambda>request. case task_upload sample_directory 0 (replicate 14 (Chunk 2)) request (replicate 5 (Chunk 0, Chunk 0))
       (task_new TASK_UPLOAD (\<lambda>i. CHR ''x'')) of Some out \<Rightarrow> out | None \<Rightarrow> []),
     io_calls = replicate 3 (Chunk 0, Chunk 0)\<rparr>"

theorem file_shared_witness:
  "task_download 9 9 0 sample_other (List.hd sample_peers # []) ((task_new TASK_DOWNLOAD (\<lambda>i. CHR ''x''))\<lparr>filename := ''a''\<rparr>)
     Map.empty = Some (Downloaded ''a'' (Some (''HAVE '' @ http_quote ''a'' @ [CHR 0x0A])), [''a'' \<mapsto> ''hi''])"
proof (rule file_shared [where d = sample_directory and request_calls = "replicate 14 (Chunk 2)"
      and transfer_calls = "replicate 5 (Chunk 0, Chunk 0)" and b = "\<lambda>i. CHR ''x''"])
  show "may_serve sample_directory ''a''" by (simp add: may_serve_def sample_directory_def)
  show "fresh ((task_new TASK_DOWNLOAD (\<lambda>i. CHR ''x''))\<lparr>filename := ''a''\<rparr>)" by (simp add: fresh_def task_new_def)
qed (simp_all add: sample_directory_def sample_other_def sample_peers_def list_all_iff)

end
