(* ===== verification/PeerMainProps.thy ===== *)
theory PeerMainProps
  imports PeerMain PeerTaskProps
begin

text \<open>
  Correctness of what the peer does before it serves others: the response of the tracker is found in
  the buffer, the peers of a download are those that the tracker named, and the command line means
  what the usage text says.
\<close>

section \<open>The lines about peers\<close>

text \<open>What the tracker writes for a peer.\<close>

abbreviation (input) "peer_format \<equiv> ''PEER %s %I:%d''"

definition peer_ok :: "peer \<Rightarrow> bool" where
  "peer_ok p \<longleftrightarrow> peer_alias p \<noteq> [] \<and> 0 < port p \<and> port p \<le> 65535"

definition peer_line :: "peer \<Rightarrow> string" where
  "peer_line p = the (writef peer_format [Str (peer_alias p), Addr (addr p), Num (port p)])"

lemma peer_line_eq:
  "writef peer_format [Str (peer_alias p), Addr (addr p), Num (port p)] = Some (peer_line p)"
  "peer_line p = ''PEER '' @ http_quote (peer_alias p) @ '' '' @ show_addr (addr p) @ '':'' @ show_int (port p)"
  by (simp_all add: peer_line_def)

lemma peer_line_no_newline: "peer_ok p \<Longrightarrow> CHR 0x0A \<notin> set (peer_line p)"
proof -
  have n: "CHR 0x0A \<notin> set (show_nat k)" for k
    using show_nat_digits(1) [of k] by (auto simp: list_all_iff is_digit_def)
  show "peer_ok p \<Longrightarrow> CHR 0x0A \<notin> set (peer_line p)"
    using quoted_no_space [of "CHR 0x0A" "peer_alias p"] n
    by (auto simp: peer_line_eq(2) show_addr_def show_int_nonneg peer_ok_def is_space_def)
qed

lemma parse_peer_line: "peer_ok p \<Longrightarrow> parse_peer (peer_line p @ junk) (length (peer_line p)) = Some p"
  using scan_written [OF peer_line_eq(1) [of p], of "int (length (peer_line p))" junk]
  by (cases p) (simp add: parse_peer_def snscanf_def peer_ok_def is_space_def is_digit_def del: vsnscanf_simps)

definition peer_text :: "peer list \<Rightarrow> string" where
  "peer_text ps = concat (map (\<lambda>p. peer_line p @ [CHR 0x0A]) ps)"

lemma parse_peers_text:
  "list_all peer_ok ps \<Longrightarrow> parse_peers (peer_text ps @ junk) (length (peer_text ps)) acc = Some (rev ps @ acc)"
proof (induction ps arbitrary: acc)
  case Nil
  show ?case by (subst parse_peers.simps) (simp add: peer_text_def)
next
  case (Cons p ps)
  let ?l = "peer_line p"
  have eq: "peer_text (p # ps) @ junk = ?l @ CHR 0x0A # peer_text ps @ junk" by (simp add: peer_text_def)
  have nl: "CHR 0x0A \<notin> set ?l" using Cons.prems peer_line_no_newline by simp
  then have tw: "takeWhile (\<lambda>c. c \<noteq> CHR 0x0A) (?l @ CHR 0x0A # peer_text ps @ junk) = ?l"
    by (subst takeWhile_append2) auto
  have len: "length (peer_text (p # ps)) = length ?l + 1 + length (peer_text ps)" by (simp add: peer_text_def)
  have "parse_peer (?l @ CHR 0x0A # peer_text ps @ junk) (length ?l) = Some p" using Cons.prems parse_peer_line by simp
  then have "parse_peers (peer_text (p # ps) @ junk) (length (peer_text (p # ps))) acc
      = parse_peers (peer_text ps @ junk) (length (peer_text ps)) (p # acc)"
    unfolding eq len by (subst parse_peers.simps) (simp add: tw Let_def)
  then show ?case using Cons by simp
qed

section \<open>The response of the tracker\<close>

definition status_at :: "(nat \<Rightarrow> char) \<Rightarrow> nat \<Rightarrow> bool" where
  "status_at b p \<longleftrightarrow> (p = 0 \<or> b (p - 1) = CHR 0x0A) \<and> is_digit (b p) \<and> is_digit (b (p + 1)) \<and> is_digit (b (p + 2))"

lemma scan_skip:
  "pos \<le> k \<Longrightarrow> k + 3 \<le> len \<Longrightarrow> \<forall>q. pos \<le> q \<and> q < k \<longrightarrow> \<not> status_at b q \<Longrightarrow>
     scan_response b len pos sp = scan_response b len k sp"
proof (induction "k - pos" arbitrary: pos)
  case (Suc d)
  then have "\<not> status_at b pos" "pos + 3 < len" by auto
  then have "scan_response b len pos sp = scan_response b len (pos + 1) sp"
    by (subst scan_response.simps) (auto simp: status_at_def)
  also have "\<dots> = scan_response b len k sp" using Suc by (intro Suc.hyps(1)) auto
  finally show ?case .
qed simp

lemma scan_nothing:
  assumes "\<forall>q. pos \<le> q \<and> q + 3 < len \<longrightarrow> \<not> status_at b q"
  shows "scan_response b len pos sp = Inl (max pos (len - 3), sp)"
proof (cases "pos + 3 < len")
  case True
  then have "scan_response b len pos sp = scan_response b len (len - 3) sp" using assms by (intro scan_skip) auto
  also have "\<dots> = Inl (len - 3, sp)" using True by (subst scan_response.simps) simp
  finally show ?thesis using True by simp
next
  case False
  then show ?thesis by (subst scan_response.simps) auto
qed

lemma scan_found:
  assumes "pos \<le> k" "k + 4 < len" "\<forall>q. pos \<le> q \<and> q < k \<longrightarrow> \<not> status_at b q" "status_at b k"
    "is_space (b (k + 3))" "b (len - 1) = CHR 0x0A"
  shows "scan_response b len pos None = Inr k"
proof -
  have "scan_response b len pos None = scan_response b len k None" using assms by (intro scan_skip) auto
  also have "\<dots> = Inr k" using assms by (subst scan_response.simps) (simp add: status_at_def)
  finally show ?thesis .
qed

text \<open>A data portion: whole lines that do not start with a digit.\<close>

definition data_portion :: "string \<Rightarrow> bool" where
  "data_portion s \<longleftrightarrow> (s = [] \<or> List.last s = CHR 0x0A)
     \<and> (\<forall>i < length s. i = 0 \<or> s ! (i - 1) = CHR 0x0A \<longrightarrow> \<not> is_digit (s ! i))"

lemma data_portion_Cons:
  assumes "CHR 0x0A \<notin> set l" "l \<noteq> []" "\<not> is_digit (List.hd l)" "data_portion s"
  shows "data_portion (l @ CHR 0x0A # s)"
  unfolding data_portion_def
proof (intro conjI allI impI)
  fix i assume i: "i < length (l @ CHR 0x0A # s)" "i = 0 \<or> (l @ CHR 0x0A # s) ! (i - 1) = CHR 0x0A"
  consider "i = 0" | "0 < i" "i \<le> length l" | "i = length l + 1" | "length l + 1 < i" by linarith
  then show "\<not> is_digit ((l @ CHR 0x0A # s) ! i)"
  proof cases
    case 1
    then show ?thesis using assms(2,3) by (simp add: nth_append hd_conv_nth)
  next
    case 2
    then have "i - 1 < length l" by simp
    moreover from this have "l ! (i - 1) = CHR 0x0A" using i(2) 2 by (simp add: nth_append)
    ultimately show ?thesis using assms(1) nth_mem by metis
  next
    case 3
    then show ?thesis using assms(4) i(1) by (auto simp: nth_append data_portion_def)
  next
    case 4
    define j where "j = i - length l - 1"
    have j: "i = length l + 1 + j" "j > 0" "j < length s" using 4 i(1) by (auto simp: j_def)
    then have "s ! (j - 1) = CHR 0x0A" using i(2) by (cases j) (auto simp: nth_append)
    then show ?thesis using assms(4) j by (simp add: nth_append data_portion_def)
  qed
qed (use assms(4) in \<open>auto simp: data_portion_def\<close>)

lemma peer_text_data: "list_all peer_ok ps \<Longrightarrow> data_portion (peer_text ps)"
proof (induction ps)
  case Nil
  show ?case by (simp add: peer_text_def data_portion_def)
next
  case (Cons p ps)
  have "data_portion (peer_line p @ CHR 0x0A # peer_text ps)"
    using Cons peer_line_no_newline [of p]
    by (intro data_portion_Cons) (simp_all add: peer_line_eq(2) is_digit_def)
  then show ?case by (simp add: peer_text_def)
qed


lemma in_buffer:
  assumes "head t = 0" "buf_ok t" "i < length (contents t)"
  shows "buf t i = contents t ! i"
  using assms by (simp add: contents_def buf_ok_def)

text \<open>A piece that fits into the buffer is read by one call.\<close>

lemma read_piece:
  assumes "head t = 0" "buf_ok t" "q \<noteq> []" "length (contents t) + length q < TASKBUFSIZ"
    "read_to_taskbuf (Chunk (length q - 1)) (q @ s) t = (ret, s1, t1)"
  shows "ret = TBUF_OK \<and> s1 = s \<and> head t1 = 0 \<and> buf_ok t1 \<and> contents t1 = contents t @ q"
proof -
  have len: "length (contents t) = unat (tail t)" using assms(1) by (simp add: length_contents)
  have size: "read_size t = TASKBUFSIZ - unat (tail t)"
    using assms(1,4) len by (auto simp: read_size_def headpos_def tailpos_def unat_eq_0_u32)
  have q: "take (min (Suc (length q - 1)) (read_size t)) (q @ s) = q"
    using assms(3,4) size len by (cases q) auto
  have eq: "read_to_taskbuf (Chunk (length q - 1)) (q @ s) t = (TBUF_OK, drop (length q) (q @ s),
      t\<lparr>buf := store (tailpos t) q (buf t), tail := tail t + of_nat (length q)\<rparr>)"
    by (simp only: read_to_taskbuf_def io.case Let_def q if_not_P [OF assms(3)])
  have t1: "ret = TBUF_OK" "s1 = s" "t1 = t\<lparr>buf := store (tailpos t) q (buf t), tail := tail t + of_nat (length q)\<rparr>"
    using assms(5) unfolding eq by simp_all
  have "length q \<le> read_size t" "unat (tail t) + length q < 4294967296" using size len assms(4) by simp_all
  from contents_store [OF assms(2) this] show ?thesis using t1 assms(1) by simp
qed

definition calls_for :: "string list \<Rightarrow> io list" where
  "calls_for pieces = map (\<lambda>q. Chunk (length q - 1)) pieces"

text \<open>The terminator: three digits, a space, and a text up to the end of the line.\<close>

definition terminator :: "string \<Rightarrow> bool" where
  "terminator m \<longleftrightarrow> length m > 4 \<and> is_digit (m ! 0) \<and> is_digit (m ! 1) \<and> is_digit (m ! 2) \<and> is_space (m ! 3)
     \<and> List.last m = CHR 0x0A"

lemma scan_whole:
  assumes "data_portion s" "terminator m" "head t = 0" "buf_ok t" "contents t = s @ m" "pos \<le> length s"
  shows "scan_response (buf t) (unat (tail t)) pos None = Inr (length s)"
proof -
  let ?k = "length s"
  have T: "unat (tail t) = ?k + length m" using assms(3,5) length_contents [of t] by simp
  have b: "buf t i = (s @ m) ! i" if "i < ?k + length m" for i using in_buffer [OF assms(3,4)] assms(5) that by simp
  have m: "length m > 4" "m \<noteq> []" using assms(2) by (auto simp: terminator_def)
  have bm: "buf t (?k + i) = m ! i" if "i < length m" for i using b [of "?k + i"] that by (simp add: nth_append)
  have status: "status_at (buf t) ?k"
  proof -
    have "?k = 0 \<or> buf t (?k - 1) = CHR 0x0A"
    proof (cases "s = []")
      case False
      then have "0 < ?k" "s ! (?k - 1) = CHR 0x0A" using assms(1) by (simp_all add: data_portion_def last_conv_nth)
      moreover from this have "?k - 1 < ?k + length m" by linarith
      ultimately have "?k - 1 < ?k + length m" "(s @ m) ! (?k - 1) = CHR 0x0A" by (simp_all add: nth_append)
      then show ?thesis using b by simp
    qed simp
    then show ?thesis using bm [of 0] bm [of 1] bm [of 2] m assms(2) by (simp add: status_at_def terminator_def)
  qed
  have none: "\<not> status_at (buf t) q" if "q < ?k" for q
  proof
    assume q: "status_at (buf t) q"
    have "q - 1 < ?k" using that by linarith
    then have "buf t q = s ! q" "buf t (q - 1) = s ! (q - 1)" using b [of q] b [of "q - 1"] that by (simp_all add: nth_append)
    then show False using q that assms(1) unfolding status_at_def data_portion_def by metis
  qed
  have "is_space (buf t (?k + 3))" using bm [of 3] m(1) assms(2) by (simp add: terminator_def)
  moreover have "buf t (?k + length m - 1) = CHR 0x0A"
  proof -
    have "?k + (length m - 1) = ?k + length m - 1" using m(1) by simp
    moreover have "m ! (length m - 1) = CHR 0x0A" using assms(2) m(2) by (simp add: terminator_def last_conv_nth)
    ultimately show ?thesis using bm [of "length m - 1"] m(1) by simp
  qed
  ultimately show ?thesis using assms(6) status none m(1) unfolding T by (intro scan_found) auto
qed

lemma scan_part:
  assumes "data_portion (c @ rest)" "head t = 0" "buf_ok t" "contents t = c"
  shows "scan_response (buf t) (unat (tail t)) pos None = Inl (max pos (length c - 3), None)"
proof -
  have T: "unat (tail t) = length c" using assms(2,4) length_contents [of t] by simp
  have "\<not> status_at (buf t) q" if "q + 3 < length c" for q
  proof
    assume q: "status_at (buf t) q"
    have "q - 1 < length c" "q < length c" using that by linarith+
    then have "buf t q = (c @ rest) ! q" "buf t (q - 1) = (c @ rest) ! (q - 1)"
      using in_buffer [OF assms(2,3), of q] in_buffer [OF assms(2,3), of "q - 1"] assms(4)
      by (simp_all add: nth_append)
    moreover have "q < length (c @ rest)" using that by simp
    ultimately show False using q assms(1) unfolding status_at_def data_portion_def by metis
  qed
  then show ?thesis unfolding T by (intro scan_nothing) auto
qed

text \<open>The response may come in any pieces as long as the last one holds the whole terminator line.\<close>

lemma tracker_loop_reads:
  assumes "data_portion s" "terminator m" "length m \<le> length q" "length (s @ m) < TASKBUFSIZ"
  shows "head t = 0 \<Longrightarrow> buf_ok t \<Longrightarrow> contents t @ concat (pieces @ [q]) = s @ m \<Longrightarrow> [] \<notin> set pieces \<Longrightarrow> pos \<le> length s \<Longrightarrow>
     \<exists>t'. tracker_loop (calls_for (pieces @ [q])) (concat (pieces @ [q])) pos None t = Some (length s, [], t')
       \<and> (\<forall>i < length (s @ m). buf t' i = (s @ m) ! i)"
proof (induction pieces arbitrary: t pos)
  case Nil
  have c: "contents t @ q = s @ m" using Nil.prems(3) by simp
  have "length (contents t) \<le> length s" using arg_cong [OF c, of length] assms(3) by simp
  then obtain rest where s: "contents t @ rest = s" using c by (metis append_eq_append_conv_if append_take_drop_id)
  have q: "q \<noteq> []" using assms(2,3) by (auto simp: terminator_def)
  obtain ret s1 t1 where r: "read_to_taskbuf (Chunk (length q - 1)) (q @ []) t = (ret, s1, t1)" by (metis prod_cases3)
  have "length (contents t) + length q < TASKBUFSIZ" using arg_cong [OF c, of length] assms(4) by simp
  note R = read_piece [OF Nil.prems(1,2) q this r]
  have t1: "contents t1 = s @ m" using R c by simp
  let ?t2 = "t1\<lparr>buf := (buf t1)(unat (tail t1) := CHR 0x00)\<rparr>"
  have T: "unat (tail t1) = length (s @ m)" using R t1 length_contents [of t1] by simp
  have "max pos (length (contents t) - 3) \<le> length s" using Nil.prems(5) \<open>length (contents t) \<le> length s\<close> by simp
  then have "tracker_loop [] [] (max pos (length (contents t) - 3)) None t1 = Some (length s, [], ?t2)"
    using scan_whole [OF assms(1,2) _ _ t1] R by simp
  then have "tracker_loop (calls_for [q]) q pos None t = Some (length s, [], ?t2)"
    using r R scan_part [OF _ Nil.prems(1,2) refl, of rest pos] s assms(1) by (simp add: calls_for_def)
  moreover have "\<forall>i < length (s @ m). buf ?t2 i = (s @ m) ! i"
    using in_buffer [of t1] R t1 T by auto
  ultimately show ?case by auto
next
  case (Cons p pieces)
  have c: "contents t @ p @ concat (pieces @ [q]) = s @ m" using Cons.prems(3) by simp
  have l: "length (contents t) + length p + length (concat (pieces @ [q])) = length (s @ m)"
    using arg_cong [OF c, of length] by simp
  then have "length (contents t) \<le> length s" using assms(3) by simp
  then obtain rest where s: "contents t @ rest = s" using c by (metis append_eq_append_conv_if append_take_drop_id)
  obtain ret s1 t1 where r: "read_to_taskbuf (Chunk (length p - 1)) (p @ concat (pieces @ [q])) t = (ret, s1, t1)"
    by (metis prod_cases3)
  have p: "p \<noteq> []" using Cons.prems(4) by auto
  have "length (contents t) + length p < TASKBUFSIZ" using l assms(4) by simp
  note R = read_piece [OF Cons.prems(1,2) p this r]
  let ?pos = "max pos (length (contents t) - 3)"
  have "?pos \<le> length s" using Cons.prems(5) \<open>length (contents t) \<le> length s\<close> by simp
  moreover have "contents t1 @ concat (pieces @ [q]) = s @ m" using R c by simp
  moreover have "[] \<notin> set pieces" using Cons.prems(4) by simp
  ultimately obtain t' where t': "tracker_loop (calls_for (pieces @ [q])) (concat (pieces @ [q])) ?pos None t1
      = Some (length s, [], t')" "\<forall>i < length (s @ m). buf t' i = (s @ m) ! i"
    using Cons.IH [of t1 ?pos] R by blast
  have "calls_for ((p # pieces) @ [q]) = Chunk (length p - 1) # calls_for (pieces @ [q])" by (simp add: calls_for_def)
  moreover have "concat ((p # pieces) @ [q]) = p @ concat (pieces @ [q])" by simp
  moreover have "scan_response (buf t) (unat (tail t)) pos None = Inl (?pos, None)"
    using scan_part [OF _ Cons.prems(1,2) refl, of rest pos] s assms(1) by simp
  ultimately show ?case using t' r R by (simp del: concat_append)
qed


lemma exchange_reads:
  assumes "data_portion s" "terminator m" "length m \<le> length q" "length (s @ m) < TASKBUFSIZ" "[] \<notin> set pieces"
    "concat (pieces @ [q]) = s @ m" "tracker request = s @ m" "calls request = calls_for (pieces @ [q])"
  shows "\<exists>t'. exchange tracker calls request (t, []) = Some (length s, t', [])
    \<and> (\<forall>i < length (s @ m). buf t' i = (s @ m) ! i)"
proof -
  let ?t = "t\<lparr>head := 0, tail := 0\<rparr>"
  have "head ?t = 0" "buf_ok ?t" "contents ?t @ concat (pieces @ [q]) = s @ m"
    using assms(6) by (simp_all add: buf_ok_def contents_def)
  then obtain t' where "tracker_loop (calls_for (pieces @ [q])) (concat (pieces @ [q])) 0 None ?t = Some (length s, [], t')"
      "\<forall>i < length (s @ m). buf t' i = (s @ m) ! i"
    using tracker_loop_reads [OF assms(1-4) _ _ _ assms(5), of ?t 0] by auto
  then show ?thesis using assms(6,7,8) by (simp add: exchange_def read_tracker_response_def)
qed

lemma terminator_head: "terminator m \<Longrightarrow> m \<noteq> []"
  by (auto simp: terminator_def)

lemma buffer_prefix:
  assumes "\<forall>i < length s. b i = s ! i" "length s \<le> n"
  shows "map b [0..<n] = s @ map b [length s..<n]"
proof -
  have "[0..<n] = [0..<length s] @ [length s..<n]" using upt_add_eq_append [of 0 "length s" "n - length s"] assms(2) by simp
  moreover have "map b [0..<length s] = s" using assms(1) by (intro nth_equalityI) auto
  ultimately show ?thesis by (metis map_append)
qed

text \<open>The peers of a download are those that the tracker named, the last one first, in whatever pieces its
  response came before the terminator line.\<close>

lemma start_download_peers:
  assumes "list_all peer_ok ps" "terminator m" "m ! 0 = CHR ''2''" "length f < FILENAMESIZ"
    "tracker (''WANT '' @ http_quote f @ [CHR 0x0A]) = peer_text ps @ m"
    "calls (''WANT '' @ http_quote f @ [CHR 0x0A]) = calls_for (pieces @ [q])"
    "concat (pieces @ [q]) = peer_text ps @ m" "[] \<notin> set pieces" "length m \<le> length q"
    "length (peer_text ps @ m) < TASKBUFSIZ"
  shows "\<exists>t'. start_download tracker calls f uninitialised (t, [])
    = (Starts ((task_new TASK_DOWNLOAD uninitialised)\<lparr>filename := f, peer_list := rev ps\<rparr>), (t', []))"
proof -
  let ?s = "peer_text ps" and ?r = "''WANT '' @ http_quote f @ [CHR 0x0A]"
  obtain t' where t': "exchange tracker calls ?r (t, []) = Some (length ?s, t', [])"
      "\<forall>i < length (?s @ m). buf t' i = (?s @ m) ! i"
    using exchange_reads [OF peer_text_data [OF assms(1)] assms(2,9,10,8,7), where tracker = tracker and request = ?r
        and calls = calls and t = t] assms(5,6) by blast
  have "buf t' (length ?s) = CHR ''2''" using t'(2) assms(3) terminator_head [OF assms(2)] by (simp add: nth_append)
  moreover have "parse_peers (map (buf t') [0..<TASKBUFSIZ]) (length ?s) [] = Some (rev ps)"
    using parse_peers_text [OF assms(1), of "m @ map (buf t') [length (?s @ m)..<TASKBUFSIZ]" "[]"]
    unfolding buffer_prefix [OF t'(2) less_imp_le [OF assms(10)]] by (simp only: append_assoc append_Nil2)
  moreover have "copy_filename f = Some f" using assms(4) by (simp add: copy_filename_def)
  moreover have "writef (''WANT %s'' @ [CHR 0x0A]) [Str f] = Some ?r" by simp
  ultimately have "start_download tracker calls f uninitialised (t, [])
      = (Starts ((task_new TASK_DOWNLOAD uninitialised)\<lparr>filename := f, peer_list := rev ps\<rparr>), (t', []))"
    using t'(1) by (simp only: start_download_def option.case prod.case fst_conv simp_thms if_False)
  then show ?thesis by (rule exI)
qed

lemma sample_numbers: "show_nat 0 = ''0''" "show_nat 1 = ''1''" "show_nat (Suc 0) = ''1''" "show_nat 2 = ''2''"
  "show_nat 11112 = ''11112''"
proof -
  show n: "show_nat 0 = ''0''" "show_nat 1 = ''1''" "show_nat (Suc 0) = ''1''" "show_nat 2 = ''2''" by code_simp+
  have "digit_char 1 = CHR ''1''" "digit_char (Suc 0) = CHR ''1''" "digit_char 2 = CHR ''2''" by code_simp+
  then show "show_nat 11112 = ''11112''"
    by (simp add: show_nat.simps [of 11112] show_nat.simps [of 1111] show_nat.simps [of 111] show_nat.simps [of 11]
        n)
qed

lemmas sample_text = peer_text_def sample_peers_def peer_line_eq(2) http_quote_def quote_char_def is_plain_def is_alnum_def
  Let_def show_addr_def show_int_def sample_numbers

section \<open>Registration\<close>

lemma exchange_terminator:
  assumes "terminator (tracker r)" "length (tracker r) < TASKBUFSIZ" "calls r = calls_for [tracker r]"
  shows "\<exists>t'. exchange tracker calls r (t, []) = Some (0, t', []) \<and> buf t' 0 = tracker r ! 0"
  using exchange_reads [of "[]" "tracker r" "tracker r" "[]" tracker r calls t] assms terminator_head [OF assms(1)]
  by (auto simp: data_portion_def)

definition have_line :: "string \<Rightarrow> string" where
  "have_line n = ''HAVE '' @ http_quote n @ [CHR 0x0A]"

text \<open>A request that the tracker answers with a terminator line, which is read at once.\<close>

definition acknowledges :: "(string \<Rightarrow> string) \<Rightarrow> (string \<Rightarrow> io list) \<Rightarrow> string \<Rightarrow> bool" where
  "acknowledges tracker calls r \<longleftrightarrow>
     terminator (tracker r) \<and> length (tracker r) < TASKBUFSIZ \<and> calls r = calls_for [tracker r]"

lemma have_loop_requests:
  "\<forall>n \<in> set names. should_register regular n \<longrightarrow> acknowledges tracker calls (have_line n) \<Longrightarrow>
    \<exists>t'. have_loop tracker calls regular names (t, []) = Some (map have_line (filter (should_register regular) names), t', [])"
proof (induction names arbitrary: t)
  case (Cons n names)
  show ?case
  proof (cases "should_register regular n")
    case True
    then obtain t1 where "exchange tracker calls (have_line n) (t, []) = Some (0, t1, [])"
      using exchange_terminator [of tracker "have_line n" calls t] Cons.prems by (auto simp: acknowledges_def)
    moreover have "writef (''HAVE %s'' @ [CHR 0x0A]) [Str n] = Some (have_line n)" by (simp add: have_line_def)
    ultimately show ?thesis using Cons.IH [of t1] Cons.prems True by (auto simp del: writef.simps append.simps)
  qed (use Cons in simp)
qed simp

text \<open>When the tracker accepts the address of the peer, the peer sends one message for each file that is to be
  shared, in the order of the directory, whatever the tracker says to them.\<close>

lemma register_files_requests:
  assumes "\<forall>n \<in> set names. should_register regular n \<longrightarrow> acknowledges tracker calls (have_line n)"
    "writef (''ADDR %s %I:%d'' @ [CHR 0x0A]) [Str myalias, Addr listen_addr, Num listen_port] = Some request"
    "acknowledges tracker calls request" "tracker request ! 0 = CHR ''2''"
  shows "\<exists>t'. register_files tracker calls regular names myalias listen_addr listen_port (t, [])
    = Some (request # map have_line (filter (should_register regular) names), t', [])"
proof -
  obtain t1 where "exchange tracker calls request (t, []) = Some (0, t1, [])" "buf t1 0 = CHR ''2''"
    using exchange_terminator [of tracker request calls t] assms by (auto simp: acknowledges_def)
  then show ?thesis using have_loop_requests [OF assms(1), of t1] assms(2)
    by (auto simp: register_files_def simp del: writef.simps append.simps)
qed

lemma register_files_requests_witness:
  "\<exists>t'. register_files (\<lambda>r. ''200 ok'' @ [CHR 0x0A]) (\<lambda>r. calls_for [''200 ok'' @ [CHR 0x0A]]) (\<lambda>n. n \<noteq> ''d'')
      [''a.c'', ''b'', ''c~'', ''d''] ''me'' 1 11112 (task_new TASK_TRACKER (\<lambda>i. CHR ''x''), [])
    = Some ([''ADDR me 0.0.0.1:11112'' @ [CHR 0x0A]] @ [''HAVE b'' @ [CHR 0x0A]], t', [])"
proof -
  have w: "writef (''ADDR %s %I:%d'' @ [CHR 0x0A]) [Str ''me'', Addr 1, Num 11112]
      = Some (''ADDR me 0.0.0.1:11112'' @ [CHR 0x0A])" by (simp add: sample_text)
  have "map have_line (filter (should_register (\<lambda>n. n \<noteq> ''d'')) [''a.c'', ''b'', ''c~'', ''d''])
      = [''HAVE b'' @ [CHR 0x0A]]" by code_simp
  moreover have "terminator (''200 ok'' @ [CHR 0x0A])" by code_simp
  ultimately show ?thesis
    using register_files_requests [of "[''a.c'', ''b'', ''c~'', ''d'']" "\<lambda>n. n \<noteq> ''d''" "\<lambda>r. ''200 ok'' @ [CHR 0x0A]"
        "\<lambda>r. calls_for [''200 ok'' @ [CHR 0x0A]]", OF _ w] by (simp add: acknowledges_def)
qed


section \<open>The command line\<close>

lemma stored_written:
  assumes "writef format args = Some out" "format_ok format" "list_all arg_ok args" "length args = conversions format"
  shows "sscanf_stored out format = (args, True)"
proof -
  have "vsnscanf (int (length out)) format (out @ [CHR 0x00]) (int (length out)) = Some args"
    using scan_written [OF assms(1-3)] assms(4) by simp
  then show ?thesis by (simp add: vsnscanf_def sscanf_stored_def split: prod.splits if_splits)
qed

text \<open>The text \<open>ADDR:PORT\<close>.\<close>

definition spec :: "u32 \<Rightarrow> int \<Rightarrow> string" where
  "spec a p = show_addr a @ CHR '':'' # show_int p"

lemma stored_spec:
  assumes "0 < p" "p \<le> 65535"
  shows "sscanf_stored (spec a p) ''%I:%d'' = ([Addr a, Num p], True)"
    "sscanf_stored (''-t'' @ spec a p) ''-t%I:%d'' = ([Addr a, Num p], True)"
  by (rule stored_written; use assms in \<open>simp add: spec_def is_digit_def is_space_def\<close>)+

text \<open>Both forms of the option \<open>-t ADDR:PORT\<close> set the address and the port of the tracker, for every address
  and every port from 1 to 65535, and the rest of the command line is processed as before.\<close>

lemma tracker_option:
  assumes "0 < p" "p \<le> 65535"
  shows "argprocess chdir_ok (''-t'' # spec a p # rest) c = argprocess chdir_ok rest (c\<lparr>tracker_addr := a, tracker_port := p\<rparr>)
    \<and> argprocess chdir_ok ((''-t'' @ spec a p) # rest) c = argprocess chdir_ok rest (c\<lparr>tracker_addr := a, tracker_port := p\<rparr>)"
proof
  show "argprocess chdir_ok (''-t'' # spec a p # rest) c = argprocess chdir_ok rest (c\<lparr>tracker_addr := a, tracker_port := p\<rparr>)"
    by (subst argprocess.simps) (simp add: stored_spec(1) [OF assms] port_ok_def assms)
  have "spec a p \<noteq> []" by (simp add: spec_def)
  then show "argprocess chdir_ok ((''-t'' @ spec a p) # rest) c
      = argprocess chdir_ok rest (c\<lparr>tracker_addr := a, tracker_port := p\<rparr>)"
    using stored_spec(2) [OF assms, of a] by (subst argprocess.simps) (simp add: port_ok_def assms)
qed

lemma tracker_option_witness:
  "argprocess (\<lambda>ds. True) (''-t'' # spec 1 80 # [''f'']) default_config
      = argprocess (\<lambda>ds. True) [''f''] (default_config\<lparr>tracker_addr := 1, tracker_port := 80\<rparr>)
    \<and> argprocess (\<lambda>ds. True) ((''-t'' @ spec 1 80) # [''f'']) default_config
      = argprocess (\<lambda>ds. True) [''f''] (default_config\<lparr>tracker_addr := 1, tracker_port := 80\<rparr>)"
  by (rule tracker_option) simp_all

text \<open>An address without a port is read as a port: the second format matches the first number of the address, so the
  tracker is looked for at that port, and the third format is never tried.\<close>

lemma tracker_option_address_only:
  assumes "unat (drop_bit 24 a AND 255) > 0"
  shows "argprocess chdir_ok (''-t'' # show_addr a # rest) c
    = argprocess chdir_ok rest (c\<lparr>tracker_addr := a, tracker_port := int (unat (drop_bit 24 a AND 255))\<rparr>)"
proof -
  let ?k = "unat (drop_bit 24 a AND 255)" and ?n = "int (length (show_addr a))"
  obtain r where r: "show_addr a = show_nat ?k @ CHR ''.'' # r" unfolding show_addr_def by blast
  have "scan_addr 4 (show_addr a @ [CHR 0x00]) (?n + 0) 0 = Some (a, [CHR 0x00], 0)"
    by (rule scan_shown_addr) (simp add: stops_def)
  then have s1: "sscanf_stored (show_addr a) ''%I:%d'' = ([Addr a], False)"
    by (simp add: sscanf_stored_def is_conversion_def conversion_def)
  define k where "k = ?k"
  have k: "int k \<le> 2147483637" using octet_bound [of "drop_bit 24 a"] unfolding k_def by linarith
  have "scan_int (show_int (int k) @ (CHR ''.'' # r @ [CHR 0x00])) (int (length (show_int (int k))) + int (length (CHR ''.'' # r)))
      = Some (int k, CHR ''.'' # r @ [CHR 0x00], int (length (CHR ''.'' # r)))"
    by (rule scan_shown_int [OF _ k]) (simp_all add: stops_def is_digit_def)
  then have "scan_int (show_addr a @ [CHR 0x00]) ?n = Some (int k, CHR ''.'' # r @ [CHR 0x00], int (length (CHR ''.'' # r)))"
    unfolding r k_def [symmetric] by (simp add: show_int_nonneg ac_simps)
  then have s2: "sscanf_stored (show_addr a) ''%d'' = ([Num (int k)], True)"
    by (simp add: sscanf_stored_def is_conversion_def conversion_def)
  have "0 < k" "k \<le> 255" using assms octet_bound [of "drop_bit 24 a"] by (simp_all add: k_def)
  then show ?thesis unfolding k_def [symmetric]
    by (subst argprocess.simps) (simp add: s1 s2 port_ok_def)
qed

section \<open>Listening\<close>

lemma listen_loop_first:
  "listen_loop open_socket ps = Some p \<Longrightarrow>
     \<exists>as bs. ps = as @ p # bs \<and> open_socket p = Bound \<and> (\<forall>q \<in> set as. open_socket q = Address_in_use)"
proof (induction ps)
  case (Cons q ps)
  show ?case
  proof (cases "open_socket q")
    case Bound
    then show ?thesis using Cons.prems by (intro exI [of _ "[]"] exI [of _ ps]) simp
  next
    case Address_in_use
    then obtain as bs where "ps = as @ p # bs \<and> open_socket p = Bound \<and> (\<forall>q \<in> set as. open_socket q = Address_in_use)"
      using Cons by auto
    then show ?thesis using Address_in_use by (intro exI [of _ "q # as"] exI [of _ bs]) simp
  qed (use Cons.prems in simp)
qed simp

text \<open>The message of a failure speaks of about 200 ports.\<close>

lemma ports_tried: "length [11112..12999 :: int] = 1888"
  by simp

section \<open>Deviations\<close>

text \<open>A terminator line that comes in two pieces, of which the first has at least five characters, is never found:
  the peer waits for more and dies when the tracker closes the connection.\<close>

lemma split_terminator_lost:
  "read_tracker_response [Chunk 4, Chunk 1, Chunk n] (''200 o'' @ ''k'' @ [CHR 0x0A]) t = None"
proof -
  let ?t0 = "t\<lparr>head := 0, tail := 0\<rparr>" and ?s1 = "''k'' @ [CHR 0x0A]"
  have t0: "head ?t0 = 0" "buf_ok ?t0" "contents ?t0 = []" by (simp_all add: buf_ok_def contents_def)
  obtain ret1 s1 t1 where r1: "read_to_taskbuf (Chunk (length ''200 o'' - 1)) (''200 o'' @ ?s1) ?t0 = (ret1, s1, t1)"
    by (metis prod_cases3)
  have R1: "ret1 = TBUF_OK \<and> s1 = ?s1 \<and> head t1 = 0 \<and> buf_ok t1 \<and> contents t1 = ''200 o''"
    using read_piece [OF t0(1,2) _ _ r1] t0(3) by simp
  obtain ret2 s2 t2 where r2: "read_to_taskbuf (Chunk (length ?s1 - 1)) (?s1 @ []) t1 = (ret2, s2, t2)" by (metis prod_cases3)
  have R2: "ret2 = TBUF_OK \<and> s2 = [] \<and> head t2 = 0 \<and> buf_ok t2 \<and> contents t2 = ''200 ok'' @ [CHR 0x0A]"
    using read_piece [OF _ _ _ _ r2] R1 by simp
  have T: "unat (tail t1) = 5" "unat (tail t2) = 7" using length_contents [of t1] length_contents [of t2] R1 R2 by simp_all
  have b1: "buf t1 i = ''200 o'' ! i" if "i < 5" for i using in_buffer [of t1 i] R1 that by simp
  have b2: "buf t2 i = (''200 ok'' @ [CHR 0x0A]) ! i" if "i < 7" for i using in_buffer [of t2 i] R2 that by simp
  have "length ''200 o'' - 1 = 4" "length ?s1 - 1 = 1" by simp_all
  note r1 = r1 [unfolded this] and r2 = r2 [unfolded this]
  have "scan_response (buf t1) 5 0 None = Inl (2, Some 0)"
    by (simp add: scan_response.simps [of _ 5 0] scan_response.simps [of _ 5 "Suc 0"] scan_response.simps [of _ 5 2]
        scan_response.simps [of _ 5 "Suc (Suc 0)"] b1 is_digit_def)
  moreover have "scan_response (buf t2) 7 2 (Some 0) = Inl (4, Some 0)"
    by (simp add: scan_response.simps [of _ 7 2] scan_response.simps [of _ 7 3] scan_response.simps [of _ 7 4] b2)
  moreover have "read_to_taskbuf (Chunk n) [] t2 = (TBUF_END, [], t2)" by (simp add: read_to_taskbuf_def)
  moreover have "scan_response (buf t) 0 0 None = Inl (0, None)" by (simp add: scan_response.simps)
  ultimately show ?thesis using r1 r2 R1 R2 T by (simp add: read_tracker_response_def)
qed

text \<open>A directory beside the current one whose name starts with the same characters is served as well.\<close>

lemma sibling_served:
  "may_serve \<lparr>cwd = Some ''/home/a'', realpath = (\<lambda>f. Some ''/home/ab/secret''), exists_file = (\<lambda>p. True),
     content = (\<lambda>f. Some ''s'')\<rparr> ''../ab/secret''"
  by (simp add: may_serve_def)

text \<open>A name of exactly 256 characters is not cut.\<close>

lemma filename_overrun: "length f = 256 \<Longrightarrow> copy_filename f = None"
  by (simp add: copy_filename_def)

text \<open>The numbered copy of a file with a long name overruns as well.\<close>

lemma disk_filename_overrun:
  "length f = 253 \<Longrightarrow> \<not> err f \<Longrightarrow> files f \<noteq> None \<Longrightarrow> open_loop err files f [0..<50] = Overrun"
  using show_nat_digits(2) [of 1] by (cases "show_nat 1") (simp_all add: upt_conv_Cons numbered_def)

text \<open>The request of evil mode, which is meant to be long, has an empty name.\<close>

lemma evil_request: "get_request 1 f = Some (''GET  OSP2P'' @ [CHR 0x0A])"
  by (simp add: get_request_def http_quote_def)

text \<open>When the tail counter wraps, the position in the buffer jumps and the bytes are no longer the ones read: here the
  buffer holds 100 bytes, and the next write would send bytes from the wrong place.\<close>

lemma counter_wraps:
  "let t = (task_new TASK_UPLOAD b)\<lparr>head := - 50, tail := 50\<rparr>
   in tail t - head t = 100 \<and> headpos t = 67246 \<and> tailpos t = 50 \<and> length (write_chunk t) = 32754"
  by (simp add: task_new_def headpos_def tailpos_def write_chunk_def)

end
