(* ===== verification/PeerServe.thy ===== *)
theory PeerServe
  imports PeerMainProps
begin

text \<open>
  The peer as a whole (\<open>main\<close> of \<open>lab4/osppeer.c\<close>): its sockets, the process that it forks for each download, and the
  loop that accepts connections; and what runs of it do.
\<close>

section \<open>Sockets\<close>

text \<open>The calls after \<open>socket\<close>, which gives \<open>fd\<close>; the result, and the descriptors that are closed.\<close>

datatype socket_call = Set_cloexec | Set_reuse | Bind int | Listen | Connect u32 int

definition open_socket :: "int \<Rightarrow> (socket_call \<Rightarrow> bool) \<Rightarrow> u32 \<Rightarrow> int \<Rightarrow> int \<times> int list" where
  "open_socket fd succeeds address portno =
     (let error = (-1, if fd \<ge> 0 then [fd] else [])
      in if fd = -1 \<or> \<not> succeeds Set_cloexec \<or> \<not> succeeds Set_reuse then error
      else if address = 0
      then (if \<not> succeeds (Bind portno) \<or> \<not> succeeds Listen then error else (fd, []))
      else (if \<not> succeeds (Connect address portno) then error else (fd, [])))"


text \<open>What \<open>accept\<close> gives, and what becomes of it.\<close>

datatype accepted = Not_now | Accept_fails | Accepted int

datatype listened = No_task | Listening_dies | Upload task

definition task_listen :: "accepted \<Rightarrow> (nat \<Rightarrow> char) \<Rightarrow> listened" where
  "task_listen a uninitialised =
     (case a of
        Not_now \<Rightarrow> No_task
      | Accept_fails \<Rightarrow> Listening_dies
      | Accepted fd \<Rightarrow> Upload ((task_new TASK_UPLOAD uninitialised)\<lparr>peer_fd := fd\<rparr>))"

section \<open>The processes\<close>

text \<open>
  A child has a copy of the memory that the parent has when it forks: its task, and for a download that of the tracker.
  The socket of the tracker is not copied: all processes read from the one connection.
\<close>

datatype child = Downloads task task | Uploads task

text \<open>
  The loop over the files. \<open>forks k\<close> says whether the \<open>k\<close>-th fork succeeds; \<open>forked\<close> are the children so far. While
  there is none, the parent alone uses the connection. From then on \<open>received\<close> says what the parent gets: after a request,
  the bytes that its calls of \<open>read\<close> take from the connection, and the schedule of the calls; the children may have taken
  some of the bytes that it asked for, or left it some of theirs. The children in order, and the connection of the
  parent, unless it dies.
\<close>

fun download_files :: "(string \<Rightarrow> string) \<Rightarrow> (child list \<Rightarrow> string \<Rightarrow> string \<times> io list) \<Rightarrow> (string \<Rightarrow> io list) \<Rightarrow> (nat \<Rightarrow> char)
    \<Rightarrow> (nat \<Rightarrow> bool) \<Rightarrow> nat \<Rightarrow> child list \<Rightarrow> string list \<Rightarrow> connection \<Rightarrow> child list \<times> connection option" where
  "download_files tracker received calls uninitialised forks k forked [] conn = (forked, Some conn)"
| "download_files tracker received calls uninitialised forks k forked (f # fs) conn =
     (case (if forked = [] then start_download tracker calls f uninitialised conn
            else start_download (fst \<circ> received forked) (snd \<circ> received forked) f uninitialised (fst conn, [])) of
        (Dies, conn1) \<Rightarrow> (forked, None)
      | (Refused, conn1) \<Rightarrow> download_files tracker received calls uninitialised forks k forked fs conn1
      | (Starts t, conn1) \<Rightarrow>
          download_files tracker received calls uninitialised forks (k + 1)
            (if forks k then forked @ [Downloads t (fst conn1)] else forked) fs conn1)"

text \<open>How the parent ends: it returns from \<open>main\<close>, dies, or still waits for a connection.\<close>

datatype ended = Returns | Dies_at_last | Waits

fun serve :: "(nat \<Rightarrow> char) \<Rightarrow> (nat \<Rightarrow> bool) \<Rightarrow> nat \<Rightarrow> accepted list \<Rightarrow> child list \<times> ended" where
  "serve uninitialised forks k [] = ([], Waits)"
| "serve uninitialised forks k (a # conns) =
     (case task_listen a uninitialised of
        No_task \<Rightarrow> ([], Returns)
      | Listening_dies \<Rightarrow> ([], Dies_at_last)
      | Upload t \<Rightarrow> (if forks k then ([Uploads t], Returns) else serve uninitialised forks (k + 1) conns))"


text \<open>The requests of the registration, the children, the number of children waited for, and the end.\<close>

record peer_run =
  requests :: "string list"
  children :: "child list"
  waited_for :: nat
  ended :: ended


section \<open>Properties\<close>

text \<open>A socket is never left open on a failure.\<close>

lemma open_socket_closes:
  "0 \<le> fd \<Longrightarrow> open_socket fd succeeds address portno \<in> {(fd, []), (-1, [fd])}"
  by (auto simp: open_socket_def Let_def)

text \<open>The parent serves one peer at most, although it is meant to go on accepting.\<close>

lemma serve_once: "length (fst (serve uninitialised forks k conns)) \<le> 1"
  by (induction conns arbitrary: k) (auto simp: task_listen_def split: accepted.splits)


text \<open>What the tracker says to a request for a file: the peers that have it, in any pieces as long as the last one
  holds the whole terminator line, or an error.\<close>

definition want_line :: "string \<Rightarrow> string" where
  "want_line f = ''WANT '' @ http_quote f @ [CHR 0x0A]"

definition names_peers :: "string \<Rightarrow> io list \<Rightarrow> peer list \<Rightarrow> bool" where
  "names_peers response calls ps \<longleftrightarrow> list_all peer_ok ps \<and> length response < TASKBUFSIZ
     \<and> (\<exists>m pieces q. terminator m \<and> m ! 0 = CHR ''2'' \<and> response = peer_text ps @ m \<and> concat (pieces @ [q]) = response
          \<and> calls = calls_for (pieces @ [q]) \<and> [] \<notin> set pieces \<and> length m \<le> length q)"

definition answers :: "(string \<Rightarrow> string) \<Rightarrow> (string \<Rightarrow> io list) \<Rightarrow> string \<Rightarrow> peer list option \<Rightarrow> bool" where
  "answers tracker calls f known \<longleftrightarrow> length f < FILENAMESIZ
     \<and> (case known of
          None \<Rightarrow> acknowledges tracker calls (want_line f) \<and> tracker (want_line f) ! 0 \<noteq> CHR ''2''
        | Some ps \<Rightarrow> names_peers (tracker (want_line f)) (calls (want_line f)) ps)"

lemma start_download_answered:
  "answers tracker calls f (Some ps) \<Longrightarrow>
    \<exists>t'. start_download tracker calls f uninitialised (t, [])
      = (Starts ((task_new TASK_DOWNLOAD uninitialised)\<lparr>filename := f, peer_list := rev ps\<rparr>), (t', []))"
  using start_download_peers [of ps _ f tracker calls]
  unfolding answers_def names_peers_def want_line_def by force


fun child_task :: "child \<Rightarrow> task" where
  "child_task (Downloads t conn) = t"
| "child_task (Uploads t) = t"

definition download_of :: "(nat \<Rightarrow> char) \<Rightarrow> string \<Rightarrow> peer list \<Rightarrow> task" where
  "download_of uninitialised f ps = (task_new TASK_DOWNLOAD uninitialised)\<lparr>filename := f, peer_list := rev ps\<rparr>"







definition ok_line :: string where
  "ok_line = ''200 ok'' @ [CHR 0x0A]"




text \<open>When a child announces its download while the parent asks for the next file, the parent can take the answer to the
  child for its own: it then starts a download without any peer, of a file that the tracker has refused.\<close>

lemma answer_taken_for_another:
  assumes "answers tracker calls f (Some ps)" "answers tracker calls g None" "received = (\<lambda>cs r. (ok_line, calls_for [ok_line]))"
    "length g < FILENAMESIZ"
  shows "\<exists>cs t'. download_files tracker received calls uninitialised (\<lambda>k. True) 0 [] [f, g] (t, []) = (cs, Some (t', []))
    \<and> map child_task cs = [download_of uninitialised f ps, download_of uninitialised g []]"
proof -
  obtain t1 where t1: "start_download tracker calls f uninitialised (t, []) = (Starts (download_of uninitialised f ps), (t1, []))"
    using start_download_answered [OF assms(1)] unfolding download_of_def by blast
  let ?c = "Downloads (download_of uninitialised f ps) t1"
  have "names_peers ok_line (calls_for [ok_line]) []"
  proof -
    have "terminator ok_line" "ok_line ! 0 = CHR ''2''" by code_simp+
    then have "terminator ok_line \<and> ok_line ! 0 = CHR ''2'' \<and> ok_line = peer_text [] @ ok_line \<and> concat ([] @ [ok_line]) = ok_line
        \<and> calls_for [ok_line] = calls_for ([] @ [ok_line]) \<and> [] \<notin> set ([] :: string list) \<and> length ok_line \<le> length ok_line"
      by (simp add: peer_text_def)
    moreover have "list_all peer_ok []" "length ok_line < TASKBUFSIZ" by (simp_all add: ok_line_def)
    ultimately show ?thesis unfolding names_peers_def by blast
  qed
  then have "answers (fst \<circ> received [?c]) (snd \<circ> received [?c]) g (Some [])" using assms(3,4) by (simp add: answers_def)
  then obtain t2 where t2: "start_download (fst \<circ> received [?c]) (snd \<circ> received [?c]) g uninitialised (t1, [])
      = (Starts (download_of uninitialised g []), (t2, []))"
    using start_download_answered unfolding download_of_def by blast
  show ?thesis using t1 t2 by simp
qed

end
