(* ===== verification/Spec2Isabelle.thy ===== *)
theory Spec2Isabelle
  imports OspfsLinks OspfsFormatProps Md5Text BootProps MposApp2Props X86Setup SchedosProps ImageText SpinApp OsprdProps OsprdAccessProps ShellParseProps ShellSeparateProps ShellGraphProps
    ShellExecProps PeerServe
begin

text \<open>
  Verification of the CS111 operating systems labs.

  \<^bold>\<open>The programs\<close>

  The repository holds six programs that share no code but the small C library of the two kernels:
  a shell (\<open>project1\<close>), a RAM disk driver (\<open>lab2\<close>), a file system module for Linux (\<open>lab3\<close>), a peer of
  a file sharing network (\<open>lab4\<close>), and two toy kernels with their applications (\<open>weensyos1\<close>,
  \<open>weensyos2\<close>). Each has its own group of theories: a theory with the definitions, named as in the C
  code, and a theory whose name ends in \<open>Props\<close> (or, for the file system, several theories) with the
  lemmas. \<open>Prelude\<close> has the machine integers, the error numbers, and a byte-addressed memory with
  32-bit loads and stores.

  \<^bold>\<open>The file system\<close>, \<open>lab3/ospfsmod.c\<close> and \<open>ospfs.h\<close>

  The disk image is a memory of bytes; superblock, bitmap, inodes and directory entries are views of
  it at the offsets of the C structures, so that writing outside a structure hits what lies there.
  \<^item> \<open>OspfsDisk\<close>: \<open>ospfs_inode\<close>, \<open>ospfs_inode_blockno\<close>, the bit vector, \<open>allocate_block\<close>, \<open>free_block\<close> and the
    index functions of indirect blocks; allocation takes the lowest free block and freeing undoes it.
  \<^item> \<open>OspfsFile\<close>: \<open>add_block\<close>, \<open>remove_block\<close>, \<open>change_size\<close>, \<open>ospfs_notify_change\<close>, \<open>ospfs_read\<close>,
    \<open>ospfs_write\<close>. The loops of \<open>change_size\<close> may not end (\<open>remove_block\<close> of a file whose blocks are
    gone makes no progress), so they are partial functions into \<open>option\<close>, and the theorems about
    them prove that they return.
  \<^item> \<open>OspfsInv\<close>: the invariant \<open>wf_disk\<close> of an image and its regions, and what growing a file does;
    \<open>OspfsShrink\<close>: what shrinking does; \<open>OspfsIO\<close>: reading and writing as operations on the
    bytes of the file.
  \<^item> \<open>OspfsDir\<close>: lookup, \<open>readdir\<close>, create, link, unlink, symbolic links; \<open>OspfsDirProps\<close> and
    \<open>OspfsLinks\<close>: a directory as a list of entries.

  \<^item> \<open>BlockCache\<close>: the cache of sixteen blocks of the formatter, \<open>ospfsformat.c\<close>, with the locale
    \<open>block_store\<close>: getting, changing and putting back blocks under any eviction is the same as on
    a plain memory. \<open>OspfsFormat\<close>: the rest of the formatter, on that plain memory: blocks, inodes and
    entries, files, links, directory trees, and the command line (\<open>strtol\<close> for a \<open>long\<close> of 32 bits).
  \<^item> \<open>FormatSteps\<close>: what every operation of the formatter keeps of the image; \<open>FormatPointers\<close>: the
    module finds the blocks that the formatter stored; \<open>OspfsFormatProps\<close>: the module reads back the
    files of an image that was just made.
  \<^item> \<open>ImageText\<close>: \<open>fsimgtoc.c\<close>, which prints an image as an array of C, with a reader for such arrays that gives the
    image back, and \<open>truncate.c\<close>.

  The formatter on the plain memory does not abort for a full cache: a list of files holds at most six
  blocks at a time, but a deep directory tree would fill the sixteen. Paths that do not fit
  \<open>PATH_MAX\<close> are left out; the digest of a file is an argument, and \<open>contents_digest\<close> is what it is.

  \<^item> \<open>Md5\<close>: the definition of the digest in RFC 1321 and its two implementations, \<open>lab3/md5.c\<close> of the
    formatter and \<open>lab4/md5.c\<close>, which is linked to the peer but never called there. \<open>Md5Block\<close>: both
    process a block as the RFC does. \<open>Md5Props\<close>: what they have in common is the locale
    \<open>message_digest\<close>, a state that holds a message given in pieces; that of the formatter is right below
    512 MB only. \<open>Md5Text\<close>: the digests as texts determine the digests, but for the peer's texts
    without at sign.

  Statements about growing and shrinking are for files that stay within the ten direct blocks; the
  definitions have the indirect blocks as well, with the mistakes that the code makes there. Kernel
  functions (\<open>copy_to_user\<close>, \<open>inode_change_ok\<close>, \<open>new_inode\<close> and the like) are arguments.

  \<^bold>\<open>The RAM disk\<close>, \<open>lab2/osprd.c\<close>

  \<open>Osprd\<close> has the transfer of requests and the lock of the device. A process inside the driver is cut
  into steps at its critical sections and at every read outside of them, and a run interleaves the steps of any number of
  processes. \<open>OsprdProps\<close> has the invariant of all runs (tickets in order), with the two 32-bit
  ticket counters related to counters without wrap-around; the exclusion in the runs that no lock taken between the
  reads of another process's test and no double release disturbs, with a run where two locks for writing are granted
  otherwise; and what the refusals leave behind.

  \<open>OsprdAccess\<close> is the tool that reads and writes the devices (\<open>osprdaccess.c\<close>): its command line, the calls on
  each device in turn, and the two transfer loops, for any results of the system calls. \<open>OsprdAccessProps\<close>
  shows that command lines are read as they are meant and that the bytes asked for are moved, however the calls
  of \<open>read\<close> and \<open>write\<close> are cut; and the arguments on which it crashes or goes round for ever.

  \<^bold>\<open>The kernels\<close>, \<open>weensyos1\<close> and \<open>weensyos2\<close>

  \<^item> \<open>KLib\<close> is \<open>lib.c\<close>: memory, strings, and the console printer; \<open>X86\<close> has the saved registers,
    their initial values, console and program loader.
  \<^item> \<open>X86Setup\<close>: the segment and gate descriptors and the programming of the interrupt controllers
    (\<open>mpos-x86.c\<close>, \<open>schedos-x86.c\<close>), against a small reference of what the processor and the controllers do with
    them: an application enters a kernel through the ten system calls only, with interrupts off.
  \<^item> \<open>Boot\<close>: \<open>mkbootdisk.c\<close>, whose calls of \<open>write\<close> are a schedule as those of the peer below, and the boot
    loader \<open>mpos-boot.c\<close>, which waits for the drive as often as a list of status values says (running
    out of it is \<open>None\<close>; the theorem needs two values that mean ready for each sector). \<open>BootDisk\<close>: the
    disk is the prescribed layout. \<open>BootProps\<close>: a kernel on such a disk boots; the locale
    \<open>segment_loader\<close> is the contract of a loop over program headers, which the boot loader and the
    program loader of the kernels interpret.
  \<^item> \<open>RoundRobin\<close> is an interface: a scan over the slots of a table finds the cyclically next one that
    satisfies a test. Both kernels interpret it for their schedulers.
  \<^item> \<open>MposKern\<close>, \<open>MposProps\<close>: \<open>mpos-kern.c\<close> as a step relation on the process table and the memory;
    the invariant of reachable states, fork with its copy of the stack, exit and wait, and fairness
    within sixteen yields (the size of the table).
  \<^item> \<open>MposApps\<close>: the two applications \<open>mpos-app.c\<close> and \<open>mpos-app2.c\<close>, each as a function from the return of one
    system call to the next one, and the machine that runs such a program on the kernel model; what
    the compiler keeps in the other registers and in memory is an argument. \<open>MposView\<close> describes each system call
    by its effect on what applications see, \<open>MposMachine\<close> has runs of a machine and the printed lines, and
    \<open>MposAppProps\<close> and \<open>MposApp2Props\<close> follow both programs from the boot to the idle kernel.
  \<^item> \<open>SchedosKern\<close>, \<open>SchedosProps\<close>: \<open>schedos-kern.c\<close> with its three algorithms, which share the
    contract of a scheduler as a locale. The kernel as it is built uses the first, round robin; the facts about the
    others are for a changed \<open>start\<close>. \<open>SpinApp\<close>: the four applications as single memory accesses in
    any interleaving, with the lock of \<open>schedos-1.c\<close>.

  \<^bold>\<open>The shell\<close>, \<open>project1\<close>

  \<^item> \<open>ShellCmd\<close>: the command tree, the stack of \<open>stack.c\<close> with its contract, and the printer.
  \<^item> \<open>ShellSeparate\<close>, \<open>ShellParse\<close>: \<open>read-command.c\<close>, from the cutting of a script into texts to the
    tokenizer, the validation and the parser on two stacks. The recursion into subshells takes fuel;
    one more than the depth of the parentheses is enough. \<open>ShellSeparateProps\<close> and \<open>ShellParseProps\<close>
    show that texts printed from blocks and trees are read back.
  \<^item> \<open>ShellGraph\<close>: the dependency graph of \<open>main.c\<close> and its execution as a step relation, since the
    processes end in any order; \<open>ShellGraphProps\<close>: order, absence of deadlock, termination, and
    equality with the sequential run, action by action. These are for runs in which every \<open>fork\<close> succeeds (\<open>run_step\<close>);
    \<open>full_step\<close> has the failing ones too, and a run that goes wrong with them. The array of nodes is a list without the bound
    of 1024 of the source; equality with the sequential run is stated for scripts up to that length, and for files that are not
    named inside of subshells, whose contents \<open>processCommand\<close> does not look at.
  \<^item> \<open>Behaviour\<close>: processes as sets of sequences of atomic actions on a world that others change as well, sequential and
    parallel composition, and similarity of behaviours.
  \<^item> \<open>ShellExec\<close>: \<open>execute-command.c\<close> on a table of descriptors; both sides of a pipe and the shell run at the same
    time. \<open>ShellExecProps\<close> has the meaning of commands without descriptors and the refinement. Here \<open>fork\<close> and \<open>pipe\<close>
    succeed.

  The strings and arrays of the reader are unbounded here: inputs are assumed to fit into its fixed
  buffers. What programs do and which files exist are arguments.

  \<^bold>\<open>The peer\<close>, \<open>lab4/osppeer.c\<close> and \<open>writescan.c\<close>

  \<^item> \<open>CharType\<close> has the character classes and decimal numerals (also for the shell).
  \<^item> \<open>PeerScan\<close>: the formatted writer and scanner, on the memory from the cursor on, since the scanner can
    run over its end; \<open>PeerScanProps\<close>: what is written is read back.
  \<^item> \<open>PeerTask\<close>: tasks, the ring buffer with its 32-bit counters, the response of the tracker, download
    and upload. A schedule gives, for each system call, whether it fails, does nothing, or moves at most
    so many bytes; a loop that uses up its schedule is \<open>None\<close>. The theorems that a transfer ends ask
    that each call moves something and that there are more entries than bytes (twice as many for an
    upload, whose first write of a round may find nothing). \<open>PeerTaskProps\<close> states the buffer as a
    queue, with the locale \<open>transfer_buffer\<close> as what both loops rely on.
  \<^item> \<open>PeerMain\<close>, \<open>PeerMainProps\<close>: the command line, registration, and the peers of a download.
  \<^item> \<open>PeerServe\<close>: sockets, the processes that \<open>main\<close> forks, and a whole run with a tracker that answers. The processes share
    the connection to the tracker, so what the parent receives while children run is an argument.

  \<^bold>\<open>Not modelled\<close>

  Registration of the modules with Linux, the instructions that load the tables of the processor, assembly,
  and the second copy of SchedOS.
  The test programs of the labs are data or scripts.
\<close>

end
